(* ===== verification/C_Prelude.thy ===== *)
theory C_Prelude
  imports Main "HOL-Library.Word"
begin

unbundle bit_operations_syntax

text \<open>
  What every component of the library shares: the machine integer types of the C code, the
  outcome of a C function (a value, an error code, or an access outside a buffer), byte lists
  with checked reads and writes, and the little-endian encoding of multi-byte fields.
  The rules of the collection \<open>c_step\<close> unfold one step of a modelled function.
\<close>

named_theorems c_step \<open>evaluation rules of the C outcome type\<close>
named_theorems wire_size \<open>sizes of wire structures and their parts\<close>

type_synonym u8 = "8 word"
type_synonym u16 = "16 word"
type_synonym u32 = "32 word"
type_synonym u64 = "64 word"
type_synonym bytes = "8 word list"

section \<open>Arithmetic\<close>

lemma mod_shift_inject:
  fixes c i j m :: nat
  assumes "(c + i) mod m = (c + j) mod m" and "i < m" and "j < m"
  shows "i = j"
proof -
  have eq: "i = j" if "i \<le> j" "(c + i) mod m = (c + j) mod m" "j < m" for i j
  proof -
    have "m dvd (c + j) - (c + i)" using that by (subst mod_eq_dvd_iff_nat [symmetric]) auto
    then have "m dvd j - i" by simp
    with that show ?thesis by (metis diff_is_0_eq dvd_imp_le leD le_antisym less_imp_diff_less neq0_conv)
  qed
  show ?thesis using eq [of i j] eq [of j i] assms by linarith
qed

text \<open>Widening and narrowing between 32 and 64 bits.\<close>

lemma unat_less_32: "unat (a :: u32) < 2 ^ 32"
  using unsigned_less [of a, where 'a = nat] by simp

lemma unat_ucast_64 [simp]: "unat (ucast (a :: u32) :: u64) = unat a"
  using unat_less_32 [of a] by (simp add: unsigned_ucast_eq take_bit_nat_eq_self)

lemma unat_mul64: "unat (ucast (a :: u32) * ucast (b :: u32) :: u64) = unat a * unat b"
proof -
  have "unat a * unat b < 2 ^ 32 * 2 ^ 32"
    using unat_less_32 [of a] unat_less_32 [of b] by (intro mult_strict_mono) auto
  then show ?thesis by (simp add: unat_word_ariths)
qed

lemma unat_ucast_32: "unat (w :: u64) < 2 ^ 32 \<Longrightarrow> unat (ucast w :: u32) = unat w"
  by (simp add: unsigned_ucast_eq take_bit_nat_eq_self)

section \<open>Injective maps\<close>

text \<open>A map that says who owns what, when the owner of one thing changes.\<close>

lemma ran_inj_upd:
  assumes "inj_on m (dom m)" and "m x = Some p" and "q \<notin> ran m"
  shows "ran (m(x \<mapsto> q)) = insert q (ran m - {p})" "inj_on (m(x \<mapsto> q)) (dom (m(x \<mapsto> q)))"
proof -
  have uniq: "y = z" if "m y = m z" "m y = Some r" for y z r
    using inj_onD [OF assms(1) that(1)] that by (metis domI)
  have "y \<noteq> x \<Longrightarrow> m y \<noteq> Some p" for y using uniq [of y x p] assms(2) by auto
  then have "ran (m(x := None)) = ran m - {p}" using assms(2) by (auto simp: ran_def) (metis option.inject)
  moreover have "ran (m(x \<mapsto> q)) = insert q (ran (m(x := None)))" by (auto simp: ran_def)
  ultimately show "ran (m(x \<mapsto> q)) = insert q (ran m - {p})" by simp
  have "m y \<noteq> Some q" for y using assms(3) by (auto simp: ran_def)
  then show "inj_on (m(x \<mapsto> q)) (dom (m(x \<mapsto> q)))"
    using uniq by (auto simp: inj_on_def dom_def)
qed

lemma ran_inj_del:
  assumes "inj_on m (dom m)" and "m x = Some p"
  shows "ran (m(x := None)) = ran m - {p}" "inj_on (m(x := None)) (dom (m(x := None)))"
proof -
  have "y \<noteq> x \<Longrightarrow> m y \<noteq> Some p" for y using inj_onD [OF assms(1), of y x] assms(2) by auto
  then show "ran (m(x := None)) = ran m - {p}" using assms(2) by (auto simp: ran_def) (metis option.inject)
  show "inj_on (m(x := None)) (dom (m(x := None)))" using assms(1) by (auto simp: inj_on_def)
qed

lemma ran_inj_add:
  assumes "inj_on m (dom m)" and "m x = None" and "q \<notin> ran m"
  shows "ran (m(x \<mapsto> q)) = insert q (ran m)" "inj_on (m(x \<mapsto> q)) (dom (m(x \<mapsto> q)))"
proof -
  show "ran (m(x \<mapsto> q)) = insert q (ran m)" using assms(2) by simp
  have "m y \<noteq> Some q" for y using assms(3) by (auto simp: ran_def)
  then show "inj_on (m(x \<mapsto> q)) (dom (m(x \<mapsto> q)))" using assms(1) by (auto simp: inj_on_def dom_def)
qed

section \<open>Decimal numbers\<close>

text \<open>What \<open>%d\<close> prints for a number that is not negative.\<close>

definition digit :: "nat \<Rightarrow> char" where
  "digit d = ''0123456789'' ! d"

fun decimal :: "nat \<Rightarrow> string" where
  "decimal n = (if n < 10 then [digit n] else decimal (n div 10) @ [digit (n mod 10)])"

text \<open>The value of a character that is a decimal digit.\<close>

definition digit_value :: "char \<Rightarrow> nat option" where
  "digit_value c = (let n = of_char c in if 48 \<le> n \<and> n \<le> 57 then Some (n - 48) else None)"

lemma digit_value_digit: "d < 10 \<Longrightarrow> digit_value (digit d) = Some d"
proof -
  assume "d < 10"
  then have "d \<in> {0, 1, 2, 3, 4, 5, 6, 7, 8, 9}" by auto
  then show ?thesis by (auto simp: digit_value_def digit_def)
qed

text \<open>The number that a run of digits stands for, and what follows the run.\<close>

fun scan_digits :: "nat \<Rightarrow> string \<Rightarrow> nat \<times> string" where
  "scan_digits acc [] = (acc, [])"
| "scan_digits acc (c # cs) = (case digit_value c of None \<Rightarrow> (acc, c # cs) | Some d \<Rightarrow> scan_digits (10 * acc + d) cs)"

lemma scan_digits_decimal:
  "scan_digits acc (decimal n @ cs) = scan_digits (acc * 10 ^ length (decimal n) + n) cs"
proof (induction n arbitrary: acc cs rule: decimal.induct)
  case (1 n)
  show ?case
  proof (cases "n < 10")
    case True
    then show ?thesis by (simp add: digit_value_digit mult.commute)
  next
    case False
    have "scan_digits acc (decimal n @ cs) = scan_digits acc (decimal (n div 10) @ digit (n mod 10) # cs)"
      using False by (subst decimal.simps) simp
    also have "\<dots> = scan_digits (acc * 10 ^ length (decimal (n div 10)) + n div 10) (digit (n mod 10) # cs)"
      using 1 False by blast
    also have "\<dots> = scan_digits (acc * 10 ^ length (decimal n) + n) cs"
      using False by (subst (2) decimal.simps) (simp add: digit_value_digit algebra_simps)
    finally show ?thesis .
  qed
qed

section \<open>Error codes and outcomes\<close>

text \<open>
  The \<open>errno\<close> values the code names, and \<open>EOTHER\<close> for any other number a system call may
  set. A C function that returns \<open>-E\<close> is modelled by \<open>Fail E\<close>, one that returns \<open>-1\<close> by
  \<open>Fail EGENERIC\<close>.
\<close>

datatype errno =
    EINTR | EINVAL | EPROTO | EMSGSIZE | ENOMEM | EIO | ETIMEDOUT | ENODEV | ENOMSG
  | ENOTSUP | EOVERFLOW | ENOENT | ENXIO | EAGAIN | ENAMETOOLONG | ENOSPC | EGENERIC | EOTHER nat

text \<open>
  \<open>Fault\<close> is an access outside the bounds of a buffer, undefined behaviour in C. It is an
  outcome of the model so that its absence is something to prove.
\<close>

datatype 'a cres = Ret 'a | Fail errno | Fault

fun cbind :: "'a cres \<Rightarrow> ('a \<Rightarrow> 'b cres) \<Rightarrow> 'b cres" where
  "cbind (Ret a) f = f a"
| "cbind (Fail e) f = Fail e"
| "cbind Fault f = Fault"

definition check :: "bool \<Rightarrow> errno \<Rightarrow> unit cres" where
  "check c e = (if c then Ret () else Fail e)"

lemma check_simps [simp, c_step]:
  "check True e = Ret ()" "check False e = Fail e"
  by (simp_all add: check_def)

lemma cbind_Ret_iff: "cbind m f = Ret b \<longleftrightarrow> (\<exists>a. m = Ret a \<and> f a = Ret b)"
  by (cases m) auto

lemma cbind_Fault_iff: "cbind m f = Fault \<longleftrightarrow> m = Fault \<or> (\<exists>a. m = Ret a \<and> f a = Fault)"
  by (cases m) auto

lemma cbind_Fail_iff: "cbind m f = Fail e \<longleftrightarrow> m = Fail e \<or> (\<exists>a. m = Ret a \<and> f a = Fail e)"
  by (cases m) auto

lemma check_eq [simp]:
  "check c e = Ret u \<longleftrightarrow> c" "check c e \<noteq> Fault" "check c e = Fail e' \<longleftrightarrow> \<not> c \<and> e' = e"
  by (auto simp: check_def)

text \<open>\<open>if (f(...)) return -E;\<close>: every error of the call is reported as \<open>E\<close>.\<close>

fun fail_as :: "errno \<Rightarrow> 'a cres \<Rightarrow> 'a cres" where
  "fail_as e (Ret a) = Ret a"
| "fail_as e (Fail e') = Fail e"
| "fail_as e Fault = Fault"

lemma fail_as_iff [simp]:
  "fail_as e m = Ret a \<longleftrightarrow> m = Ret a" "fail_as e m = Fault \<longleftrightarrow> m = Fault"
  "fail_as e m = Fail e' \<longleftrightarrow> e' = e \<and> (\<exists>x. m = Fail x)"
  by (cases m; auto)+

lemma cbind_assoc: "cbind (cbind m f) g = cbind m (\<lambda>x. cbind (f x) g)"
  by (cases m) auto

section \<open>Buffers\<close>

text \<open>\<open>sub_bytes off n bs\<close> are the \<open>n\<close> bytes of \<open>bs\<close> from offset \<open>off\<close>.\<close>

definition sub_bytes :: "nat \<Rightarrow> nat \<Rightarrow> 'a list \<Rightarrow> 'a list" where
  "sub_bytes off n bs = take n (drop off bs)"

lemma length_sub_bytes [simp]: "off + n \<le> length bs \<Longrightarrow> length (sub_bytes off n bs) = n"
  by (simp add: sub_bytes_def)

lemma sub_bytes_all: "sub_bytes 0 (length bs) bs = bs"
  by (simp add: sub_bytes_def)

lemma sub_bytes_sub_bytes: "a + n \<le> m \<Longrightarrow> sub_bytes a n (sub_bytes b m bs) = sub_bytes (b + a) n bs"
  by (simp add: sub_bytes_def take_drop add.commute)

text \<open>
  Rules that read a field out of a structure laid out by appending its parts: skip a part that
  lies before the field, stop at the part that is the field.
\<close>

lemma sub_bytes_skip: "length xs \<le> off \<Longrightarrow> sub_bytes off n (xs @ ys) = sub_bytes (off - length xs) n ys"
  by (simp add: sub_bytes_def)

lemma sub_bytes_skip_Cons: "0 < off \<Longrightarrow> sub_bytes off n (x # xs) = sub_bytes (off - 1) n xs"
  by (cases off) (simp_all add: sub_bytes_def)

lemma sub_bytes_hit: "length xs = n \<Longrightarrow> sub_bytes 0 n (xs @ ys) = xs"
  by (simp add: sub_bytes_def)

lemma sub_bytes_hit_end: "length xs = n \<Longrightarrow> sub_bytes 0 n xs = xs"
  by (simp add: sub_bytes_def)

text \<open>Zero padding up to \<open>n\<close> bytes: a \<open>memset\<close> to zero followed by a copy to the front.\<close>

definition pad_to :: "nat \<Rightarrow> bytes \<Rightarrow> bytes" where
  "pad_to n bs = bs @ replicate (n - length bs) 0"

lemma length_pad_to [simp, wire_size]: "length bs \<le> n \<Longrightarrow> length (pad_to n bs) = n"
  by (simp add: pad_to_def)

lemma take_pad_to [simp]: "take (length bs) (pad_to n bs) = bs"
  by (simp add: pad_to_def)

text \<open>A string literal, without its terminator, and the text at the beginning of a buffer.\<close>

definition ascii :: "string \<Rightarrow> bytes" where "ascii cs = map of_char cs"

definition c_text :: "bytes \<Rightarrow> bytes" where "c_text b = takeWhile (\<lambda>c. c \<noteq> 0) b"

lemma c_text_end: "c_text (xs @ 0 # ys) = c_text xs"
  unfolding c_text_def by (induction xs) simp_all

text \<open>Element \<open>k\<close> of an array of elements of \<open>w\<close> bytes each.\<close>

lemma length_concat_chunks: "\<forall>x \<in> set xs. length x = w \<Longrightarrow> length (concat xs) = w * length xs"
  by (induction xs) auto

lemma sub_bytes_chunk:
  "\<forall>x \<in> set xs. length x = w \<Longrightarrow> k < length xs \<Longrightarrow> sub_bytes (w * k) w (concat xs @ r) = xs ! k"
proof (induction xs arbitrary: k)
  case Nil
  then show ?case by simp
next
  case (Cons x xs)
  then show ?case by (cases k) (auto simp: sub_bytes_skip sub_bytes_hit)
qed

section \<open>Checked accesses\<close>

definition rd8 :: "bytes \<Rightarrow> nat \<Rightarrow> u8 cres" where
  "rd8 bs off = (if off < length bs then Ret (bs ! off) else Fault)"

definition wr8 :: "bytes \<Rightarrow> nat \<Rightarrow> u8 \<Rightarrow> bytes cres" where
  "wr8 bs off b = (if off < length bs then Ret (bs[off := b]) else Fault)"

text \<open>\<open>rdn\<close> reads a run of bytes, \<open>wrn\<close> is \<open>memcpy\<close> into a buffer of fixed size.\<close>

definition rdn :: "bytes \<Rightarrow> nat \<Rightarrow> nat \<Rightarrow> bytes cres" where
  "rdn bs off n = (if off + n \<le> length bs then Ret (sub_bytes off n bs) else Fault)"

definition wrn :: "bytes \<Rightarrow> nat \<Rightarrow> bytes \<Rightarrow> bytes cres" where
  "wrn bs off xs = (if off + length xs \<le> length bs
     then Ret (take off bs @ xs @ drop (off + length xs) bs) else Fault)"

lemma rd8_Ret [c_step]: "off < length bs \<Longrightarrow> rd8 bs off = Ret (bs ! off)"
  by (simp add: rd8_def)

lemma wr8_Ret [c_step]: "off < length bs \<Longrightarrow> wr8 bs off b = Ret (bs[off := b])"
  by (simp add: wr8_def)

lemma rdn_Ret [c_step]: "off + n \<le> length bs \<Longrightarrow> rdn bs off n = Ret (sub_bytes off n bs)"
  by (simp add: rdn_def)

lemma wrn_Ret [c_step]: "off + length xs \<le> length bs \<Longrightarrow>
    wrn bs off xs = Ret (take off bs @ xs @ drop (off + length xs) bs)"
  by (simp add: wrn_def)

lemma length_wrn: "wrn bs off xs = Ret bs' \<Longrightarrow> length bs' = length bs"
  by (auto simp: wrn_def split: if_splits)

section \<open>Little-endian fields\<close>

text \<open>
  The control protocol and the device structures are read and written by a little-endian
  processor, so a field of \<open>n\<close> bytes is stored with its least significant byte first.
\<close>

fun to_le :: "nat \<Rightarrow> 'a::len word \<Rightarrow> bytes" where
  "to_le 0 w = []"
| "to_le (Suc n) w = ucast w # to_le n (drop_bit 8 w)"

fun of_le :: "bytes \<Rightarrow> 'a::len word" where
  "of_le [] = 0"
| "of_le (b # bs) = ucast b OR push_bit 8 (of_le bs)"

lemma length_to_le [simp, wire_size]: "length (to_le n w) = n"
  by (induction n arbitrary: w) auto

lemma of_le_to_le_take: "of_le (to_le n w) = take_bit (8 * n) w"
proof (induction n arbitrary: w)
  case 0
  then show ?case by simp
next
  case (Suc n)
  show ?case
    by (rule bit_word_eqI) (auto simp: Suc.IH bit_simps)
qed

lemma of_le_to_le [simp]:
  "of_le (to_le 2 w2) = (w2 :: u16)" "of_le (to_le 4 w4) = (w4 :: u32)"
  "of_le (to_le 8 w8) = (w8 :: u64)"
  by (simp_all add: of_le_to_le_take take_bit_word_eq_self)

lemma to_le_inject: "LENGTH('a) \<le> 8 * n \<Longrightarrow> to_le n v = to_le n w \<Longrightarrow> v = (w :: 'a::len word)"
  by (metis of_le_to_le_take take_bit_word_eq_self)

section \<open>Structures in memory\<close>

text \<open>
  The contract of a structure's layout: \<open>enc\<close> stores a well-formed value in \<open>sz\<close> bytes, and
  \<open>view\<close> reads it back through a pointer to its first byte, faulting when the buffer ends
  before the structure does.
\<close>

locale byte_codec =
  fixes enc :: "'a \<Rightarrow> bytes" and view :: "bytes \<Rightarrow> 'a cres" and sz :: nat and wf :: "'a \<Rightarrow> bool"
  assumes length_enc: "wf x \<Longrightarrow> length (enc x) = sz"
    and view_enc: "wf x \<Longrightarrow> view (enc x @ rest) = Ret x"
    and view_fault: "view bs = Fault \<longleftrightarrow> length bs < sz"
    and view_no_fail: "view bs \<noteq> Fail e"
    and view_wf: "view bs = Ret x \<Longrightarrow> wf x"
begin

lemma view_enc_end: "wf x \<Longrightarrow> view (enc x) = Ret x"
  using view_enc [of x "[]"] by simp

lemma view_total: "sz \<le> length bs \<Longrightarrow> \<exists>x. view bs = Ret x \<and> wf x"
  using view_fault [of bs] view_no_fail [of bs] view_wf [of bs] by (cases "view bs") auto

lemma length_enc_array: "\<forall>y \<in> set ys. wf y \<Longrightarrow> length (concat (map enc ys)) = sz * length ys"
  by (rule trans [OF length_concat_chunks [where w = sz]]) (auto simp: length_enc)

lemma view_array:
  "\<forall>y \<in> set ys. wf y \<Longrightarrow> k < length ys \<Longrightarrow> view (sub_bytes (sz * k) sz (concat (map enc ys))) = Ret (ys ! k)"
  using sub_bytes_chunk [of "map enc ys" sz k "[]"] by (simp add: length_enc view_enc_end)

lemma enc_inject: "wf x \<Longrightarrow> wf y \<Longrightarrow> enc x @ r = enc y @ r' \<Longrightarrow> x = y \<and> r = r'"
  by (metis append_eq_append_conv cres.inject(1) length_enc view_enc)

end

section \<open>Bit fields\<close>

text \<open>
  A C bit field of \<open>n\<close> bits at bit \<open>off\<close> of its storage unit: reading it, and assigning a value
  to it (the value is truncated to \<open>n\<close> bits, the other bits are kept).
\<close>

definition get_field :: "nat \<Rightarrow> nat \<Rightarrow> 'a::len word \<Rightarrow> 'a word" where
  "get_field off n w = take_bit n (drop_bit off w)"

definition put_field :: "nat \<Rightarrow> nat \<Rightarrow> 'a::len word \<Rightarrow> 'a word \<Rightarrow> 'a word" where
  "put_field off n v w = (w AND NOT (push_bit off (mask n))) OR push_bit off (take_bit n v)"

lemma bit_get_field: "bit (get_field off n (w :: 'a::len word)) i \<longleftrightarrow> i < n \<and> bit w (off + i)"
  by (auto simp: get_field_def bit_simps)

lemma bit_put_field: "bit (put_field off n v (w :: 'a::len word)) i \<longleftrightarrow>
    (if off \<le> i \<and> i < off + n then i < LENGTH('a) \<and> bit v (i - off) else bit w i)"
  by (auto simp: put_field_def bit_simps dest: bit_imp_le_length)

lemma bit_put_field_1: "bit (put_field off (Suc 0) v (w :: 'a::len word)) i \<longleftrightarrow>
    (if i = off then i < LENGTH('a) \<and> bit v 0 else bit w i)"
  by (auto simp: bit_put_field)

lemma bit_numeral_mask:
  "bit (3 :: 'a::len word) i \<longleftrightarrow> i < LENGTH('a) \<and> i < 2" "bit (7 :: 'a::len word) i \<longleftrightarrow> i < LENGTH('a) \<and> i < 3"
proof -
  have "(3 :: 'a word) = mask 2" "(7 :: 'a word) = mask 3" by (simp_all add: mask_eq_exp_minus_1)
  then show "bit (3 :: 'a::len word) i \<longleftrightarrow> i < LENGTH('a) \<and> i < 2" "bit (7 :: 'a::len word) i \<longleftrightarrow> i < LENGTH('a) \<and> i < 3"
    by (simp_all only: bit_mask_iff) (auto simp: exp_eq_zero_iff)
qed

lemma get_put_field_same:
  "off + n \<le> LENGTH('a) \<Longrightarrow> get_field off n (put_field off n v w) = take_bit n (v :: 'a::len word)"
  by (rule bit_word_eqI) (auto simp: bit_get_field bit_put_field bit_simps)

lemma get_put_field_other:
  "off + n \<le> off' \<or> off' + n' \<le> off \<Longrightarrow>
    get_field off n (put_field off' n' v w) = get_field off n (w :: 'a::len word)"
  by (rule bit_word_eqI) (auto simp: bit_get_field bit_put_field)

lemma put_get_field [simp]: "put_field off n (get_field off n w) w = (w :: 'a::len word)"
  by (rule bit_word_eqI) (auto simp: bit_put_field bit_get_field)

lemma get_field_less: "n < LENGTH('a) \<Longrightarrow> unat (get_field off n (w :: 'a::len word)) < 2 ^ n"
  by (simp add: get_field_def unsigned_take_bit_eq)

section \<open>Programs with a state\<close>

text \<open>
  A function that reads and changes the state of a driver takes that state and gives back its
  outcome with the new state. A failing step ends the sequence; the state it left stays.
\<close>

type_synonym ('s, 'a) prog = "'s \<Rightarrow> 'a cres \<times> 's"

definition sret :: "'a \<Rightarrow> ('s, 'a) prog" where "sret a s = (Ret a, s)"
definition sfail :: "errno \<Rightarrow> ('s, 'a) prog" where "sfail e s = (Fail e, s)"
definition slift :: "'a cres \<Rightarrow> ('s, 'a) prog" where "slift r s = (r, s)"
definition sget :: "('s \<Rightarrow> 'a) \<Rightarrow> ('s, 'a) prog" where "sget f s = (Ret (f s), s)"
definition smod :: "('s \<Rightarrow> 's) \<Rightarrow> ('s, unit) prog" where "smod f s = (Ret (), f s)"

definition sbind :: "('s, 'a) prog \<Rightarrow> ('a \<Rightarrow> ('s, 'b) prog) \<Rightarrow> ('s, 'b) prog" where
  "sbind m f s = (case m s of (Ret a, s') \<Rightarrow> f a s' | (Fail e, s') \<Rightarrow> (Fail e, s') | (Fault, s') \<Rightarrow> (Fault, s'))"

definition scheck :: "bool \<Rightarrow> errno \<Rightarrow> ('s, unit) prog" where
  "scheck c e = (if c then sret () else sfail e)"

text \<open>A call whose error code is ignored: only a fault ends the sequence.\<close>

definition signore :: "('s, 'a) prog \<Rightarrow> ('s, unit) prog" where
  "signore m s = (case m s of (Fault, s') \<Rightarrow> (Fault, s') | (_, s') \<Rightarrow> (Ret (), s'))"

text \<open>A call whose error is handled: \<open>f\<close> goes on with the value, \<open>g\<close> with the error.\<close>

definition scatch :: "('s, 'a) prog \<Rightarrow> ('a \<Rightarrow> ('s, 'b) prog) \<Rightarrow> (errno \<Rightarrow> ('s, 'b) prog) \<Rightarrow> ('s, 'b) prog" where
  "scatch m f g s = (case m s of (Ret a, s') \<Rightarrow> f a s' | (Fail e, s') \<Rightarrow> g e s' | (Fault, s') \<Rightarrow> (Fault, s'))"

lemmas sprog_defs = sret_def sfail_def slift_def sget_def smod_def sbind_def scheck_def signore_def scatch_def

lemma sbind_cases:
  assumes "sbind m f s = (r, s')"
  obtains (ret) a s1 where "m s = (Ret a, s1)" "f a s1 = (r, s')"
  | (fail) e where "m s = (Fail e, s')" "r = Fail e"
  | (fault) "m s = (Fault, s')" "r = Fault"
  using assms by (auto simp: sbind_def split: prod.splits cres.splits)

lemma sbind_Ret_iff: "sbind m f s = (Ret b, s') \<longleftrightarrow> (\<exists>a s1. m s = (Ret a, s1) \<and> f a s1 = (Ret b, s'))"
  by (auto simp: sbind_def split: prod.splits cres.splits)

lemma sbind_eq: "m s = (Ret a, s1) \<Longrightarrow> sbind m f s = f a s1"
  by (simp add: sbind_def)

text \<open>
  \<open>keeps P m\<close>: whatever its outcome, the program \<open>m\<close> leaves a state with \<open>P\<close> when it is started in
  one, and it does not fault. The rules follow the structure of a program.
\<close>

definition keeps :: "('s \<Rightarrow> bool) \<Rightarrow> ('s, 'a) prog \<Rightarrow> bool" where
  "keeps P m \<longleftrightarrow> (\<forall>s r s'. P s \<longrightarrow> m s = (r, s') \<longrightarrow> P s' \<and> r \<noteq> Fault)"

named_theorems keeps_rules \<open>rules for invariants of programs\<close>

lemma keepsI: "(\<And>s r s'. P s \<Longrightarrow> m s = (r, s') \<Longrightarrow> P s' \<and> r \<noteq> Fault) \<Longrightarrow> keeps P m"
  by (simp add: keeps_def)

lemma keepsD: "keeps P m \<Longrightarrow> P s \<Longrightarrow> m s = (r, s') \<Longrightarrow> P s' \<and> r \<noteq> Fault"
  by (auto simp: keeps_def)

lemma keeps_sret [keeps_rules]: "keeps P (sret a)"
  and keeps_sfail [keeps_rules]: "keeps P (sfail e)"
  and keeps_sget [keeps_rules]: "keeps P (sget f)"
  and keeps_scheck [keeps_rules]: "keeps P (scheck c e)"
  by (auto simp: keeps_def sprog_defs)

lemma keeps_slift [keeps_rules]: "r \<noteq> Fault \<Longrightarrow> keeps P (slift r)"
  by (auto simp: keeps_def sprog_defs)

lemma keeps_smod [keeps_rules]: "(\<And>s. P s \<Longrightarrow> P (f s)) \<Longrightarrow> keeps P (smod f)"
  by (auto simp: keeps_def sprog_defs)

lemma keeps_sbind [keeps_rules]: "keeps P m \<Longrightarrow> (\<And>a. keeps P (f a)) \<Longrightarrow> keeps P (sbind m f)"
  by (rule keepsI) (erule sbind_cases; blast dest: keepsD)

lemma scatch_cases:
  assumes "scatch m f g s = (r, s')"
  obtains (ret) a s1 where "m s = (Ret a, s1)" "f a s1 = (r, s')"
  | (fail) e s1 where "m s = (Fail e, s1)" "g e s1 = (r, s')"
  | (fault) "m s = (Fault, s')" "r = Fault"
  using assms by (auto simp: scatch_def split: prod.splits cres.splits)

lemma keeps_scatch [keeps_rules]:
  "keeps P m \<Longrightarrow> (\<And>a. keeps P (f a)) \<Longrightarrow> (\<And>e. keeps P (g e)) \<Longrightarrow> keeps P (scatch m f g)"
  by (rule keepsI) (erule scatch_cases; blast dest: keepsD)

lemma keeps_signore [keeps_rules]: "keeps P m \<Longrightarrow> keeps P (signore m)"
  by (rule keepsI) (auto simp: signore_def split: prod.splits cres.splits dest: keepsD)

lemma keeps_if [keeps_rules]: "(c \<Longrightarrow> keeps P m) \<Longrightarrow> (\<not> c \<Longrightarrow> keeps P n) \<Longrightarrow> keeps P (if c then m else n)"
  by simp

lemma keeps_conj: "keeps P m \<Longrightarrow> keeps Q m \<Longrightarrow> keeps (\<lambda>s. P s \<and> Q s) m"
  by (auto simp: keeps_def)

end
