(* ===== verification/Sbus.thy ===== *)
theory Sbus
  imports C_Prelude
begin

unbundle bit_operations_syntax

text \<open>
  The SBUS remote-control transmitter (\<open>rtsmart_hal/drivers/sbus/drv_sbus.c\<close>): sixteen 11-bit
  channels and four flags packed into a 25-byte frame, and the decoder the debug output uses.
  The UART below it is a parameter (what \<open>drv_uart_write\<close> returns for a buffer), a \<open>NULL\<close>
  device is \<open>None\<close>, and the frame buffer of \<open>sbus_send_frame\<close>, which lives on the stack and
  starts uninitialised, is an argument of the model.
\<close>

section \<open>State\<close>

definition SBUS_CHANNEL_NUM :: nat where "SBUS_CHANNEL_NUM = 16"
definition SBUS_FRAME_SIZE :: nat where "SBUS_FRAME_SIZE = 25"

text \<open>\<open>sb_flags\<close> is the byte \<open>val\<close> of the union \<open>sbus_flag_t\<close>; its bit fields are its low bits.\<close>

record sbus_device =
  sb_debug :: bool
  sb_channels :: "u16 list"
  sb_flags :: u8

definition flag_ch17 :: "u8 \<Rightarrow> bool" where "flag_ch17 f = bit f 0"
definition flag_ch18 :: "u8 \<Rightarrow> bool" where "flag_ch18 f = bit f 1"
definition flag_frame_lost :: "u8 \<Rightarrow> bool" where "flag_frame_lost f = bit f 2"
definition flag_failsafe :: "u8 \<Rightarrow> bool" where "flag_failsafe f = bit f 3"

lemmas flag_defs = flag_ch17_def flag_ch18_def flag_frame_lost_def flag_failsafe_def

text \<open>A device as \<open>sbus_create\<close> leaves it, and the shape of its channel array.\<close>

definition sbus_device_init :: sbus_device where
  "sbus_device_init = \<lparr>sb_debug = False, sb_channels = replicate 16 0, sb_flags = 0\<rparr>"

definition sbus_wf :: "sbus_device \<Rightarrow> bool" where
  "sbus_wf d \<longleftrightarrow> length (sb_channels d) = SBUS_CHANNEL_NUM"

section \<open>Setting channels and flags\<close>

definition sbus_set_channel :: "sbus_device option \<Rightarrow> u8 \<Rightarrow> u16 \<Rightarrow> sbus_device option \<times> unit cres" where
  "sbus_set_channel dev channel_index value =
     (case dev of None \<Rightarrow> (None, Fail EGENERIC)
      | Some d \<Rightarrow>
          if unat channel_index \<ge> SBUS_CHANNEL_NUM then (dev, Fail EGENERIC)
          else (Some (d\<lparr>sb_channels := (sb_channels d)[unat channel_index := value]\<rparr>), Ret ()))"

text \<open>The loop of \<open>sbus_set_all_channels\<close>: from index \<open>i\<close>, stopping at the first error.\<close>

fun sbus_set_from :: "nat \<Rightarrow> u16 list \<Rightarrow> sbus_device option \<Rightarrow> sbus_device option \<times> unit cres" where
  "sbus_set_from i [] dev = (dev, Ret ())"
| "sbus_set_from i (v # vs) dev =
     (case sbus_set_channel dev (of_nat i) v of
        (dev', Ret u) \<Rightarrow> sbus_set_from (Suc i) vs dev'
      | (dev', e) \<Rightarrow> (dev', e))"

definition sbus_set_all_channels ::
    "sbus_device option \<Rightarrow> u16 list \<Rightarrow> sbus_device option \<times> unit cres" where
  "sbus_set_all_channels dev channels = sbus_set_from 0 (take SBUS_CHANNEL_NUM channels) dev"

definition sbus_set_flags :: "sbus_device option \<Rightarrow> u8 option \<Rightarrow> sbus_device option" where
  "sbus_set_flags dev flags =
     (case dev of None \<Rightarrow> None
      | Some d \<Rightarrow> (case flags of None \<Rightarrow> dev | Some f \<Rightarrow> Some (d\<lparr>sb_flags := f\<rparr>)))"

definition sbus_get_flags :: "sbus_device option \<Rightarrow> u8 option \<Rightarrow> u8 option" where
  "sbus_get_flags dev flags_out =
     (case dev of None \<Rightarrow> flags_out | Some d \<Rightarrow> map_option (\<lambda>_. sb_flags d) flags_out)"

definition sbus_set_debug :: "sbus_device option \<Rightarrow> bool \<Rightarrow> sbus_device option" where
  "sbus_set_debug dev v = map_option (\<lambda>d. d\<lparr>sb_debug := v\<rparr>) dev"

section \<open>Building a frame\<close>

definition or8 :: "bytes \<Rightarrow> nat \<Rightarrow> u8 \<Rightarrow> bytes cres" where
  "or8 bs off b = cbind (rd8 bs off) (\<lambda>x. wr8 bs off (x OR b))"

text \<open>
  One turn of the packing loop. The channel value is promoted to \<open>int\<close> before it is shifted,
  so no bit of the 16-bit value is lost before the mask \<open>0xFF\<close>.
\<close>

definition sbus_pack_channel :: "nat \<Rightarrow> u16 \<Rightarrow> bytes \<Rightarrow> bytes cres" where
  "sbus_pack_channel i val frame =
     (let byte_pos = 1 + (i * 11) div 8; bit_pos = (i * 11) mod 8; v = (ucast val :: u32) in
      cbind (or8 frame byte_pos (ucast (push_bit bit_pos v AND 0xFF))) (\<lambda>frame1.
      cbind (or8 frame1 (byte_pos + 1) (ucast (drop_bit (8 - bit_pos) v AND 0xFF))) (\<lambda>frame2.
      if bit_pos > 5
      then or8 frame2 (byte_pos + 2) (ucast (drop_bit (16 - bit_pos) v AND 0xFF))
      else Ret frame2)))"

fun sbus_pack_from :: "nat \<Rightarrow> u16 list \<Rightarrow> bytes \<Rightarrow> bytes cres" where
  "sbus_pack_from i [] frame = Ret frame"
| "sbus_pack_from i (v # vs) frame = cbind (sbus_pack_channel i v frame) (sbus_pack_from (Suc i) vs)"

definition sbus_flag_byte :: "u8 \<Rightarrow> u8" where
  "sbus_flag_byte f =
     (let flags = (0 :: u8);
          flags = (if flag_ch17 f then flags OR push_bit 0 1 else flags);
          flags = (if flag_ch18 f then flags OR push_bit 1 1 else flags);
          flags = (if flag_frame_lost f then flags OR push_bit 2 1 else flags);
          flags = (if flag_failsafe f then flags OR push_bit 3 1 else flags)
      in flags)"

text \<open>\<open>stk\<close> is the stack buffer before the call; the first assignments clear bytes 0 to 22.\<close>

definition sbus_build_frame :: "bytes \<Rightarrow> sbus_device \<Rightarrow> bytes cres" where
  "sbus_build_frame stk d =
     cbind (wr8 stk 0 0x0F) (\<lambda>frame.
     cbind (wrn frame 1 (replicate 22 0)) (\<lambda>frame.
     cbind (sbus_pack_from 0 (sb_channels d) frame) (\<lambda>frame.
     cbind (wr8 frame 23 (sbus_flag_byte (sb_flags d))) (\<lambda>frame.
     wr8 frame 24 0))))"

text \<open>
  \<open>sbus_send_frame\<close>: the bytes handed to the UART, if any, and the outcome. The debug branch
  only prints.
\<close>

definition sbus_send_frame ::
    "(bytes \<Rightarrow> int) \<Rightarrow> bytes \<Rightarrow> sbus_device option \<Rightarrow> bytes option \<times> unit cres" where
  "sbus_send_frame uart_write stk dev =
     (case dev of None \<Rightarrow> (None, Fail EGENERIC)
      | Some d \<Rightarrow>
          (case sbus_build_frame stk d of
             Ret frame \<Rightarrow>
               (Some frame, check (uart_write frame = int SBUS_FRAME_SIZE) EGENERIC)
           | Fail e \<Rightarrow> (None, Fail e)
           | Fault \<Rightarrow> (None, Fault)))"

section \<open>Decoding a frame\<close>

definition sbus_unpack_channel :: "bytes \<Rightarrow> nat \<Rightarrow> u16 cres" where
  "sbus_unpack_channel frame i =
     (let byte_pos = 1 + (i * 11) div 8; bit_pos = (i * 11) mod 8 in
      cbind (rd8 frame byte_pos) (\<lambda>b0.
      cbind (rd8 frame (byte_pos + 1)) (\<lambda>b1.
      let c = (ucast (drop_bit bit_pos (ucast b0 :: u32) OR push_bit (8 - bit_pos) (ucast b1)) :: u16) in
      if bit_pos > 5
      then cbind (rd8 frame (byte_pos + 2)) (\<lambda>b2.
        Ret ((c OR ucast (push_bit (16 - bit_pos) (ucast b2 :: u32))) AND 0x07FF))
      else Ret (c AND 0x07FF))))"

fun sbus_unpack_from :: "bytes \<Rightarrow> nat \<Rightarrow> nat \<Rightarrow> u16 list cres" where
  "sbus_unpack_from frame i 0 = Ret []"
| "sbus_unpack_from frame i (Suc n) =
     cbind (sbus_unpack_channel frame i) (\<lambda>c.
     cbind (sbus_unpack_from frame (Suc i) n) (\<lambda>cs. Ret (c # cs)))"

text \<open>
  The flags written back keep the four unused bits of the caller's flag byte. A frame with the
  wrong header or footer, or a \<open>NULL\<close> argument, leaves the outputs as they were.
\<close>

definition sbus_decode_flags :: "u8 \<Rightarrow> u8 \<Rightarrow> u8" where
  "sbus_decode_flags flag_byte old =
     (let f = put_field 0 1 (drop_bit 0 flag_byte AND 1) old;
          f = put_field 1 1 (drop_bit 1 flag_byte AND 1) f;
          f = put_field 2 1 (drop_bit 2 flag_byte AND 1) f
      in put_field 3 1 (drop_bit 3 flag_byte AND 1) f)"

definition sbus_decode_frame ::
    "bytes option \<Rightarrow> u16 list option \<Rightarrow> u8 option \<Rightarrow> (u16 list option \<times> u8 option) cres" where
  "sbus_decode_frame sbus_frame ch flags =
     (case (sbus_frame, ch) of
        (Some frame, Some c) \<Rightarrow>
          cbind (rd8 frame 0) (\<lambda>h.
          if h \<noteq> 0x0F then Ret (ch, flags)
          else cbind (rd8 frame 24) (\<lambda>t.
          if t \<noteq> 0x00 then Ret (ch, flags)
          else cbind (sbus_unpack_from frame 0 SBUS_CHANNEL_NUM) (\<lambda>cs.
          case flags of
            None \<Rightarrow> Ret (Some cs, None)
          | Some f \<Rightarrow> cbind (rd8 frame 23) (\<lambda>b. Ret (Some cs, Some (sbus_decode_flags b f))))))
      | _ \<Rightarrow> Ret (ch, flags))"

section \<open>The payload as a bit string\<close>

text \<open>
  Bytes 1 to 22 of a frame are a string of 176 bits; bit \<open>p\<close> of the payload is \<open>payload_bit f p\<close>.
  Channel \<open>i\<close> starts at payload bit \<open>11 * i\<close>. \<open>channel_bit i v p\<close> says that packing the value \<open>v\<close>
  as channel \<open>i\<close> sets payload bit \<open>p\<close>: the loop writes whole bytes, up to \<open>pack_end i\<close>.
\<close>

definition payload_bit :: "bytes \<Rightarrow> nat \<Rightarrow> bool" where
  "payload_bit f p = bit (f ! (1 + p div 8)) (p mod 8)"

definition pack_end :: "nat \<Rightarrow> nat" where
  "pack_end i = 8 * ((i * 11) div 8 + (if (i * 11) mod 8 > 5 then 3 else 2))"

definition channel_bit :: "nat \<Rightarrow> u16 \<Rightarrow> nat \<Rightarrow> bool" where
  "channel_bit i v p \<longleftrightarrow> 11 * i \<le> p \<and> p < pack_end i \<and> bit v (p - 11 * i)"

lemma payload_bit_at: "r < 8 \<Longrightarrow> payload_bit f (8 * k + r) = bit (f ! (1 + k)) r"
  by (simp add: payload_bit_def)

lemma low_byte: "ucast (w AND 0xFF :: u32) = (ucast w :: u8)"
proof -
  have "w AND 0xFF = take_bit 8 w" by (simp add: take_bit_eq_mask mask_eq_exp_minus_1)
  then show ?thesis by (simp add: bit_eq_iff bit_simps)
qed

lemma or8_Ret: "off < length bs \<Longrightarrow> or8 bs off b = Ret (bs[off := bs ! off OR b])"
  by (simp add: or8_def rd8_def wr8_def)

lemma pack_channel_Ret:
  assumes len: "length f = 25" and i: "i < 16"
  shows "\<exists>f'. sbus_pack_channel i v f = Ret f' \<and> length f' = 25 \<and> f' ! 0 = f ! 0 \<and>
    (\<forall>p. p < 176 \<longrightarrow> payload_bit f' p = (payload_bit f p \<or> channel_bit i v p))"
proof -
  define b where "b = (i * 11) div 8"
  define s where "s = (i * 11) mod 8"
  have ibs: "i * 11 = 8 * b + s" and s8: "s < 8" by (simp_all add: b_def s_def)
  have pe: "pack_end i = 8 * b + (if 5 < s then 24 else 16)"
    by (simp add: pack_end_def flip: b_def s_def)
  have b20: "b \<le> 20" using ibs i s8 by linarith
  have b19: "b \<le> 19" if "5 < s" using ibs i that by linarith
  let ?w = "ucast v :: u32"
  let ?f1 = "f[1 + b := f ! (1 + b) OR ucast (push_bit s ?w)]"
  let ?f2 = "?f1[b + 2 := ?f1 ! (b + 2) OR ucast (drop_bit (8 - s) ?w)]"
  let ?f3 = "if 5 < s then ?f2[b + 3 := ?f2 ! (b + 3) OR ucast (drop_bit (16 - s) ?w)]
    else ?f2"
  have run: "sbus_pack_channel i v f = Ret ?f3"
    using len b20 b19 by (simp add: sbus_pack_channel_def Let_def or8_Ret low_byte numeral_3_eq_3 flip: b_def s_def)
  have pb: "payload_bit ?f3 p = (payload_bit f p \<or> channel_bit i v p)" if p: "p < 176" for p
  proof -
    define k where "k = p div 8"
    define r where "r = p mod 8"
    have pr: "p = 8 * k + r" and r8: "r < 8" by (simp_all add: k_def r_def)
    have k: "k \<le> 21" using p pr by linarith
    have ce: "channel_bit i v p \<longleftrightarrow> 8 * b + s \<le> 8 * k + r \<and>
        k < b + (if 5 < s then 3 else 2) \<and> bit v (8 * k + r - (8 * b + s))"
      unfolding channel_bit_def pe using ibs pr r8 by (cases "5 < s") (auto simp: mult.commute)
    consider "k < b" | "k = b" | "k = b + 1" | "k = b + 2" | "b + 2 < k" by linarith
    then show ?thesis
      using ce len k r8 s8 b20 b19 unfolding payload_bit_def
      by cases (auto simp: nth_list_update bit_simps add.commute numeral_3_eq_3 simp flip: k_def r_def
          dest: bit_imp_le_length)
  qed
  show ?thesis using run pb len by auto
qed

text \<open>All channels: payload bit \<open>p\<close> is set when some channel sets it.\<close>

lemma pack_from_Ret:
  assumes "length f = 25" and "i + length vs \<le> 16"
  shows "\<exists>f'. sbus_pack_from i vs f = Ret f' \<and> length f' = 25 \<and> f' ! 0 = f ! 0 \<and>
    (\<forall>p. p < 176 \<longrightarrow> payload_bit f' p =
      (payload_bit f p \<or> (\<exists>j < length vs. channel_bit (i + j) (vs ! j) p)))"
  using assms
proof (induction vs arbitrary: i f)
  case Nil
  then show ?case by simp
next
  case (Cons v vs)
  then obtain f1 where f1: "sbus_pack_channel i v f = Ret f1" "length f1 = 25" "f1 ! 0 = f ! 0"
    "\<forall>p. p < 176 \<longrightarrow> payload_bit f1 p = (payload_bit f p \<or> channel_bit i v p)"
    using pack_channel_Ret [of f i v] by auto
  with Cons obtain f2 where "sbus_pack_from (Suc i) vs f1 = Ret f2" "length f2 = 25" "f2 ! 0 = f1 ! 0"
    "\<forall>p. p < 176 \<longrightarrow> payload_bit f2 p =
      (payload_bit f1 p \<or> (\<exists>j < length vs. channel_bit (Suc i + j) (vs ! j) p))"
    using Cons.IH [of f1 "Suc i"] by auto
  with f1 show ?case
    by (auto simp: less_Suc_eq_0_disj)
qed

lemma build_frame_Ret:
  assumes "length stk = 25" and "sbus_wf d"
  shows "\<exists>f. sbus_build_frame stk d = Ret f \<and> length f = 25 \<and> f ! 0 = 0x0F \<and>
    f ! 23 = sbus_flag_byte (sb_flags d) \<and> f ! 24 = 0 \<and>
    (\<forall>p. p < 176 \<longrightarrow> payload_bit f p = (\<exists>j < 16. channel_bit j (sb_channels d ! j) p))"
proof -
  let ?f0 = "take 1 (stk[0 := 0x0F]) @ replicate 22 0 @ drop 23 (stk[0 := 0x0F])"
  have chs: "length (sb_channels d) = 16"
    using assms(2) by (simp add: sbus_wf_def SBUS_CHANNEL_NUM_def)
  have clear: "\<not> payload_bit ?f0 p" if "p < 176" for p
  proof -
    have "p div 8 < 22" using that by simp
    then have "?f0 ! (1 + p div 8) = 0" using assms(1) by (simp add: nth_append)
    then show ?thesis unfolding payload_bit_def by simp
  qed
  obtain f1 where f1: "sbus_pack_from 0 (sb_channels d) ?f0 = Ret f1" "length f1 = 25"
    "f1 ! 0 = ?f0 ! 0"
    "\<forall>p. p < 176 \<longrightarrow> payload_bit f1 p = (\<exists>j < 16. channel_bit j (sb_channels d ! j) p)"
    using pack_from_Ret [of ?f0 0 "sb_channels d"] assms(1) chs clear by auto
  have pb: "payload_bit (f1[23 := x, 24 := y]) p = payload_bit f1 p" if "p < 176" for p x y
  proof -
    have "1 + p div 8 \<noteq> 23" "1 + p div 8 \<noteq> 24" using that by auto
    then show ?thesis by (simp add: payload_bit_def)
  qed
  have "stk \<noteq> []" using assms(1) by auto
  then have "?f0 ! 0 = 0x0F" by (cases stk) auto
  with f1 pb assms(1) show ?thesis
    by (auto simp: sbus_build_frame_def wr8_def wrn_def)
qed

lemma unpack_channel_Ret:
  assumes len: "length f = 25" and i: "i < 16"
  shows "\<exists>c. sbus_unpack_channel f i = Ret c \<and>
    (\<forall>t. bit c t \<longleftrightarrow> t < 11 \<and> payload_bit f (11 * i + t))"
proof -
  define b where "b = (i * 11) div 8"
  define s where "s = (i * 11) mod 8"
  have ibs: "11 * i = 8 * b + s" and s8: "s < 8" by (simp_all add: b_def s_def)
  have b20: "b \<le> 20" using ibs i s8 by linarith
  have b19: "b \<le> 19" if "5 < s" using ibs i that by linarith
  have mask: "(0x07FF :: u16) = mask 11" by (simp add: mask_eq_exp_minus_1)
  let ?c = "ucast (drop_bit s (ucast (f ! (1 + b)) :: u32) OR push_bit (8 - s) (ucast (f ! (b + 2)))) :: u16"
  let ?d = "(if 5 < s then ?c OR ucast (push_bit (16 - s) (ucast (f ! (b + 3)) :: u32)) else ?c) AND mask 11"
  have run: "sbus_unpack_channel f i = Ret ?d"
    using len b20 b19
    by (simp add: sbus_unpack_channel_def Let_def rd8_def numeral_3_eq_3 mask flip: b_def s_def)
  have "bit ?d t \<longleftrightarrow> t < 11 \<and> payload_bit f (11 * i + t)" for t
  proof -
    consider "t < 8 - s" | "8 - s \<le> t" "t < 16 - s" | "16 - s \<le> t" by linarith
    then show ?thesis
    proof cases
      case 1
      then have "payload_bit f (8 * b + s + t) = bit (f ! (1 + b)) (s + t)"
        using payload_bit_at [of "s + t" f b] by (simp add: add.assoc)
      with 1 s8 show ?thesis
        by (auto simp: ibs bit_simps add.commute [of s t] dest: bit_imp_le_length)
    next
      case 2
      then have "payload_bit f (8 * b + s + t) = bit (f ! (b + 2)) (s + t - 8)"
        using payload_bit_at [of "s + t - 8" f "b + 1"] s8 by (simp add: add.assoc)
      with 2 s8 show ?thesis
        by (auto simp: ibs bit_simps add.commute [of s t] dest: bit_imp_le_length)
    next
      case 3
      then have "t < 11 \<Longrightarrow> payload_bit f (8 * b + s + t) = bit (f ! (b + 3)) (s + t - 16)"
        using payload_bit_at [of "s + t - 16" f "b + 2"] s8 by (simp add: add.assoc numeral_3_eq_3)
      with 3 s8 show ?thesis
        by (auto simp: ibs bit_simps add.commute [of s t] dest: bit_imp_le_length)
    qed
  qed
  with run show ?thesis by blast
qed

lemma unpack_from_Ret:
  assumes "length f = 25" and "i + n \<le> 16"
  shows "\<exists>cs. sbus_unpack_from f i n = Ret cs \<and> length cs = n \<and>
    (\<forall>j < n. \<forall>t. bit (cs ! j) t \<longleftrightarrow> t < 11 \<and> payload_bit f (11 * (i + j) + t))"
  using assms
proof (induction n arbitrary: i)
  case 0
  then show ?case by simp
next
  case (Suc n)
  obtain c where c: "sbus_unpack_channel f i = Ret c"
    "\<forall>t. bit c t \<longleftrightarrow> t < 11 \<and> payload_bit f (11 * i + t)"
    using unpack_channel_Ret [of f i] Suc.prems by auto
  obtain cs where "sbus_unpack_from f (Suc i) n = Ret cs" "length cs = n"
    "\<forall>j < n. \<forall>t. bit (cs ! j) t \<longleftrightarrow> t < 11 \<and> payload_bit f (11 * (Suc i + j) + t)"
    using Suc.IH [of "Suc i"] Suc.prems by auto
  with c show ?case by (auto simp: less_Suc_eq_0_disj algebra_simps)
qed

text \<open>
  Which channel sets a given bit of channel \<open>i\<close>'s field: the channel itself, or the one before
  it with a value of more than 11 bits.
\<close>

lemma channel_bit_own: "t < 11 \<Longrightarrow> channel_bit i v (11 * i + t) \<longleftrightarrow> bit v t"
proof -
  have "11 * i + 10 < pack_end i" unfolding pack_end_def by (cases "i * 11 mod 8 > 5") (simp_all, presburger+)
  then show "t < 11 \<Longrightarrow> ?thesis" by (auto simp: channel_bit_def)
qed

lemma channel_bit_field:
  assumes "t < 11" and "channel_bit j v (11 * i + t)"
  shows "j = i \<or> (i = Suc j \<and> bit v (t + 11))"
proof -
  have le: "11 * j \<le> 11 * i + t" and b: "bit v (11 * i + t - 11 * j)"
    using assms(2) by (auto simp: channel_bit_def)
  then have "11 * i + t - 11 * j < 16" by (auto dest: bit_imp_le_length)
  with le assms(1) have "j = i \<or> i = Suc j" by linarith
  with b show ?thesis by (auto simp: algebra_simps)
qed

lemma sbus_field_bit:
  assumes "sbus_wf d" and "sbus_build_frame stk d = Ret f" and "length stk = 25"
    and "i < 16" and "t < 11"
  shows "payload_bit f (11 * i + t) \<longleftrightarrow> bit (sb_channels d ! i) t \<or>
    (0 < i \<and> channel_bit (i - 1) (sb_channels d ! (i - 1)) (11 * i + t))"
proof -
  have "payload_bit f (11 * i + t) = (\<exists>j < 16. channel_bit j (sb_channels d ! j) (11 * i + t))"
    using build_frame_Ret [OF assms(3,1)] assms(2,4,5) by auto
  also have "\<dots> = (channel_bit i (sb_channels d ! i) (11 * i + t) \<or>
      (0 < i \<and> channel_bit (i - 1) (sb_channels d ! (i - 1)) (11 * i + t)))"
  proof -
    have "j = i \<or> 0 < i \<and> j = i - 1" if "channel_bit j w (11 * i + t)" for j w
      using channel_bit_field [OF assms(5) that] by auto
    then show ?thesis using assms(4) by (metis less_imp_diff_less)
  qed
  finally show ?thesis using channel_bit_own [OF assms(5)] by simp
qed

text \<open>A value of at most 11 bits stays inside its field.\<close>

lemma bit_in_range: "unat (v :: u16) < 2048 \<Longrightarrow> bit v t \<Longrightarrow> t < 11"
proof -
  assume v: "unat v < 2048" and b: "bit v t"
  have "take_bit 11 v = v"
    using v by (simp add: word_unat_eq_iff unsigned_take_bit_eq take_bit_nat_eq_self)
  with b show "t < 11" by (metis bit_take_bit_iff)
qed

lemma decode_flags_bits: "sbus_decode_flags (sbus_flag_byte fl) old = put_field 0 4 fl old"
  by (rule bit_word_eqI)
    (auto simp: sbus_decode_flags_def sbus_flag_byte_def Let_def bit_put_field flag_defs bit_simps
      less_Suc_eq numeral_eq_Suc)

lemma decode_frame_Ret:
  assumes "length f = 25" "f ! 0 = 0x0F" "f ! 24 = 0" "sbus_unpack_from f 0 16 = Ret cs"
  shows "sbus_decode_frame (Some f) (Some ch) (Some old) =
    Ret (Some cs, Some (sbus_decode_flags (f ! 23) old))"
  using assms by (simp add: sbus_decode_frame_def rd8_def SBUS_CHANNEL_NUM_def)

lemma frame_roundtrip:
  assumes "sbus_wf d" and "length stk = SBUS_FRAME_SIZE"
    and "\<forall>v \<in> set (sb_channels d). unat v < 2048"
  shows "\<exists>f. sbus_build_frame stk d = Ret f \<and> length f = SBUS_FRAME_SIZE \<and>
    sbus_decode_frame (Some f) (Some ch) (Some old) =
      Ret (Some (sb_channels d), Some (put_field 0 4 (sb_flags d) old))"
proof -
  have len: "length (sb_channels d) = 16" and stk: "length stk = 25"
    using assms(1,2) by (simp_all add: sbus_wf_def SBUS_CHANNEL_NUM_def SBUS_FRAME_SIZE_def)
  obtain f where f: "sbus_build_frame stk d = Ret f" "length f = 25" "f ! 0 = 0x0F"
    "f ! 23 = sbus_flag_byte (sb_flags d)" "f ! 24 = 0"
    using build_frame_Ret [OF stk assms(1)] by blast
  obtain cs where cs: "sbus_unpack_from f 0 16 = Ret cs" "length cs = 16"
    "\<forall>j < 16. \<forall>t. bit (cs ! j) t \<longleftrightarrow> t < 11 \<and> payload_bit f (11 * j + t)"
    using unpack_from_Ret [of f 0 16] f(2) by auto
  have small: "bit (sb_channels d ! j) t \<Longrightarrow> t < 11" if "j < 16" for j t
    using assms(3) that len by (metis bit_in_range nth_mem)
  have "cs ! j = sb_channels d ! j" if j: "j < 16" for j
  proof (rule bit_word_eqI)
    fix t
    have "\<not> channel_bit (j - 1) (sb_channels d ! (j - 1)) (11 * j + t)" if "0 < j" "t < 11"
      using channel_bit_field [OF that(2), of "j - 1" "sb_channels d ! (j - 1)" j]
        small [of "j - 1" "t + 11"] that j by (cases j) auto
    then show "bit (cs ! j) t \<longleftrightarrow> bit (sb_channels d ! j) t"
      using cs(3) j sbus_field_bit [OF assms(1) f(1) stk j, of t] small [OF j, of t] by auto
  qed
  then have "cs = sb_channels d" using cs(2) len by (simp add: nth_equalityI)
  with f cs(1) show ?thesis
    by (auto simp: decode_frame_Ret decode_flags_bits SBUS_FRAME_SIZE_def)
qed

section \<open>Properties\<close>

text \<open>Whatever the frame buffer held before, \<open>sbus_send_frame\<close> builds a complete 25-byte frame
  without touching memory outside it, and when every channel is an 11-bit value
  the decoder gives back exactly the channels and the four flags of the device.\<close>

theorem sbus_roundtrip:
  assumes "sbus_wf d" and "length stk = SBUS_FRAME_SIZE"
    and "\<forall>v \<in> set (sb_channels d). unat v < 2048"
  shows "\<exists>f. sbus_build_frame stk d = Ret f \<and> length f = SBUS_FRAME_SIZE \<and>
    sbus_decode_frame (Some f) (Some ch) (Some old) =
      Ret (Some (sb_channels d), Some (put_field 0 4 (sb_flags d) old))"
  using assms by (rule frame_roundtrip)

theorem sbus_roundtrip_witness:
  "\<exists>f. sbus_build_frame (replicate 25 0xAA)
      \<lparr>sb_debug = False, sb_channels = [2047, 172, 1811, 1024, 0, 1, 2, 3, 4, 5, 6, 7, 8, 9, 10, 1365],
       sb_flags = 5\<rparr> = Ret f \<and> length f = SBUS_FRAME_SIZE \<and>
    sbus_decode_frame (Some f) (Some []) (Some 0) =
      Ret (Some [2047, 172, 1811, 1024, 0, 1, 2, 3, 4, 5, 6, 7, 8, 9, 10, 1365], Some (put_field 0 4 5 0))"
  using sbus_roundtrip [of "\<lparr>sb_debug = False,
      sb_channels = [2047, 172, 1811, 1024, 0, 1, 2, 3, 4, 5, 6, 7, 8, 9, 10, 1365], sb_flags = 5\<rparr>"
      "replicate 25 0xAA" "[]" 0]
  by (simp add: sbus_wf_def SBUS_CHANNEL_NUM_def SBUS_FRAME_SIZE_def)

text \<open>What reaches the receiver for any 16-bit values: bit \<open>t\<close> of a decoded channel is set when
  it is set in the channel, or when the previous channel's value has more than 11 bits and the
  packing loop wrote the excess bit there. Out-of-range values are not confined to their channel.\<close>

theorem sbus_out_of_range:
  assumes "sbus_wf d" and "length stk = SBUS_FRAME_SIZE" and "i < SBUS_CHANNEL_NUM"
  shows "\<exists>f cs. sbus_build_frame stk d = Ret f \<and>
    sbus_unpack_from f 0 SBUS_CHANNEL_NUM = Ret cs \<and>
    (\<forall>t. bit (cs ! i) t \<longleftrightarrow> t < 11 \<and> (bit (sb_channels d ! i) t \<or>
      (0 < i \<and> 11 * i + t < pack_end (i - 1) \<and> bit (sb_channels d ! (i - 1)) (11 + t))))"
proof -
  have stk: "length stk = 25" and i: "i < 16"
    using assms(2,3) by (simp_all add: SBUS_CHANNEL_NUM_def SBUS_FRAME_SIZE_def)
  obtain f where f: "sbus_build_frame stk d = Ret f" "length f = 25"
    using build_frame_Ret [OF stk assms(1)] by blast
  obtain cs where cs: "sbus_unpack_from f 0 16 = Ret cs"
    "\<forall>j < 16. \<forall>t. bit (cs ! j) t \<longleftrightarrow> t < 11 \<and> payload_bit f (11 * j + t)"
    using unpack_from_Ret [of f 0 16] f(2) by auto
  have prev: "channel_bit (i - 1) v (11 * i + t) \<longleftrightarrow> 11 * i + t < pack_end (i - 1) \<and> bit v (11 + t)"
    if "0 < i" for v t
    using that by (cases i) (auto simp: channel_bit_def add.commute)
  show ?thesis
    using f cs i sbus_field_bit [OF assms(1) f(1) stk i] prev
    by (auto simp: SBUS_CHANNEL_NUM_def)
qed

theorem sbus_out_of_range_witness:
  "\<exists>f cs. sbus_build_frame (replicate 25 0) (sbus_device_init\<lparr>sb_channels := 2048 # replicate 15 0\<rparr>) = Ret f \<and>
    sbus_unpack_from f 0 SBUS_CHANNEL_NUM = Ret cs \<and> bit (cs ! 1) 0 \<and>
    \<not> bit (sb_channels (sbus_device_init\<lparr>sb_channels := 2048 # replicate 15 0\<rparr>) ! 1) 0"
proof -
  have b: "bit (2048 :: u16) 11" by (simp add: bit_iff_odd)
  show ?thesis
    using sbus_out_of_range [of "sbus_device_init\<lparr>sb_channels := 2048 # replicate 15 0\<rparr>" "replicate 25 0" 1]
    by (auto simp: sbus_wf_def SBUS_CHANNEL_NUM_def SBUS_FRAME_SIZE_def pack_end_def b)
qed

end
