(* ===== verification/C_Loops.thy ===== *)
theory C_Loops
  imports C_Prelude
begin

text \<open>
  Programs that may not return: the result \<open>None\<close> is a loop that never ends. A program of
  \<open>C_Prelude\<close> always returns and is run as one of these by \<open>orun\<close>.
\<close>

type_synonym ('s, 'a) oprog = "'s \<Rightarrow> ('a cres \<times> 's) option"

definition orun :: "('s, 'a) prog \<Rightarrow> ('s, 'a) oprog" where "orun m s = Some (m s)"

definition obind :: "('s, 'a) oprog \<Rightarrow> ('a \<Rightarrow> ('s, 'b) oprog) \<Rightarrow> ('s, 'b) oprog" where
  "obind m f s = (case m s of None \<Rightarrow> None
     | Some (Ret a, s') \<Rightarrow> f a s' | Some (Fail e, s') \<Rightarrow> Some (Fail e, s') | Some (Fault, s') \<Rightarrow> Some (Fault, s'))"

text \<open>A computation on values that may not return.\<close>

definition ocall :: "'a cres option \<Rightarrow> ('s, 'a) oprog" where
  "ocall r s = map_option (\<lambda>x. (x, s)) r"

lemma obind_orun: "obind (orun m) f s = (case m s of (Ret a, s') \<Rightarrow> f a s'
    | (Fail e, s') \<Rightarrow> Some (Fail e, s') | (Fault, s') \<Rightarrow> Some (Fault, s'))"
  by (simp add: obind_def orun_def)

lemma obind_eq: "m s = Some (Ret a, s1) \<Longrightarrow> obind m f s = f a s1"
  by (simp add: obind_def)

lemma ocall_Some [simp]: "ocall (Some r) s = Some (r, s)"
  by (simp add: ocall_def)

lemma obind_cases:
  assumes "obind m f s = Some (r, s')"
  obtains (ret) a s1 where "m s = Some (Ret a, s1)" "f a s1 = Some (r, s')"
  | (fail) e where "m s = Some (Fail e, s')" "r = Fail e"
  | (fault) "m s = Some (Fault, s')" "r = Fault"
  using assms by (auto simp: obind_def split: option.splits prod.splits cres.splits)

text \<open>
  \<open>owp m Q E s\<close>: the program returns from \<open>s\<close> and does not fault; with a value and a state in \<open>Q\<close>
  when it succeeds, in a state in \<open>E\<close> when it fails.
\<close>

definition owp :: "('s, 'a) oprog \<Rightarrow> ('a \<Rightarrow> 's \<Rightarrow> bool) \<Rightarrow> ('s \<Rightarrow> bool) \<Rightarrow> 's \<Rightarrow> bool" where
  "owp m Q E s \<longleftrightarrow> (\<exists>r s'. m s = Some (r, s') \<and> (case r of Ret a \<Rightarrow> Q a s' | Fail e \<Rightarrow> E s' | Fault \<Rightarrow> False))"

lemma owp_obind: "owp (obind m f) Q E s = owp m (\<lambda>a. owp (f a) Q E) E s"
  by (auto simp: owp_def obind_def split: option.splits cres.splits prod.splits)

lemma owp_orun: "owp (orun m) Q E s = (case m s of (Ret a, s') \<Rightarrow> Q a s' | (Fail e, s') \<Rightarrow> E s' | (Fault, s') \<Rightarrow> False)"
  by (auto simp: owp_def orun_def split: prod.splits cres.splits)

lemma owp_orun_simps [simp]:
  "owp (orun (sret a)) Q E s = Q a s" "owp (orun (sfail e)) Q E s = E s"
  "owp (orun (slift r)) Q E s = (case r of Ret a \<Rightarrow> Q a s | Fail e \<Rightarrow> E s | Fault \<Rightarrow> False)"
  by (auto simp: owp_orun sprog_defs split: cres.splits)

lemma owp_mono:
  "owp m Q E s \<Longrightarrow> (\<And>a s'. Q a s' \<Longrightarrow> Q' a s') \<Longrightarrow> (\<And>s'. E s' \<Longrightarrow> E' s') \<Longrightarrow> owp m Q' E' s"
  unfolding owp_def by (fastforce split: cres.splits)

lemma owp_returns:
  assumes "owp m Q E s"
  shows "\<exists>r s'. m s = Some (r, s') \<and> r \<noteq> Fault \<and> (\<forall>a. r = Ret a \<longrightarrow> Q a s') \<and> (\<forall>e. r = Fail e \<longrightarrow> E s')"
proof -
  obtain r s' where "m s = Some (r, s')" "case r of Ret a \<Rightarrow> Q a s' | Fail e \<Rightarrow> E s' | Fault \<Rightarrow> False"
    using assms unfolding owp_def by blast
  then show ?thesis by (cases r) auto
qed

text \<open>Whether a program returns.\<close>

definition oreturns :: "('s, 'a) oprog \<Rightarrow> 's \<Rightarrow> bool" where
  "oreturns m s \<longleftrightarrow> m s \<noteq> None"

lemma oreturns_orun [simp]: "oreturns (orun m) s"
  by (simp add: oreturns_def orun_def)

lemma oreturns_obind: "oreturns m s \<Longrightarrow> (\<And>a s. oreturns (f a) s) \<Longrightarrow> oreturns (obind m f) s"
  by (fastforce simp: oreturns_def obind_def split: cres.splits prod.splits)

end
