(* ===== verification/Hal_Inst.thy ===== *)
theory Hal_Inst
  imports C_Loops
begin

text \<open>
  What the drivers with instances share: each \<open>create\<close> opens a device file and allocates an instance that
  keeps the descriptor, each \<open>destroy\<close> closes the descriptor and frees the instance. This theory holds the
  state they have in common (the heap of instances, the open descriptors, the kernel), the calls that change it, the
  rules of a weakest precondition for them, and the invariant that every open descriptor belongs to exactly one live instance.
  Nothing here is driver code: the drivers extend the record and are composed of these calls.
\<close>

section \<open>Weakest preconditions\<close>

text \<open>\<open>swp m Q E s\<close>: from \<open>s\<close> the program ends without a fault, with \<open>Q\<close> when it succeeds and \<open>E\<close> when it fails.\<close>

definition swp :: "('s, 'a) prog \<Rightarrow> ('a \<Rightarrow> 's \<Rightarrow> bool) \<Rightarrow> (errno \<Rightarrow> 's \<Rightarrow> bool) \<Rightarrow> 's \<Rightarrow> bool" where
  "swp m Q E s = (case m s of (Ret a, s') \<Rightarrow> Q a s' | (Fail e, s') \<Rightarrow> E e s' | (Fault, s') \<Rightarrow> False)"

lemma swp_simps [simp]:
  "swp (sret a) Q E = Q a"
  "swp (sfail e) Q E = E e"
  "swp (sget p) V E = (\<lambda>s. V (p s) s)"
  "swp (smod g) U E = (\<lambda>s. U () (g s))"
  "swp (sbind m f) W E = swp m (\<lambda>a. swp (f a) W E) E"
  "swp (scatch m f h) W E = swp m (\<lambda>a. swp (f a) W E) (\<lambda>e. swp (h e) W E)"
  "swp (signore m) U E = swp m (\<lambda>_. U ()) (\<lambda>_. U ())"
  "swp (slift r) Q E = (\<lambda>s. case r of Ret a \<Rightarrow> Q a s | Fail e \<Rightarrow> E e s | Fault \<Rightarrow> False)"
  by (auto simp: fun_eq_iff swp_def sprog_defs split: prod.splits cres.splits)

lemma swp_if: "swp (if c then m else n) Q E = (if c then swp m Q E else swp n Q E)"
  by simp

lemma swp_ifI: "(c \<Longrightarrow> swp m Q E s) \<Longrightarrow> (\<not> c \<Longrightarrow> swp n Q E s) \<Longrightarrow> swp (if c then m else n) Q E s"
  by simp

lemma swp_mono: "swp m Q E s \<Longrightarrow> (\<And>a s'. Q a s' \<Longrightarrow> Q' a s') \<Longrightarrow> (\<And>e s'. E e s' \<Longrightarrow> E' e s') \<Longrightarrow> swp m Q' E' s"
  by (auto simp: swp_def split: prod.splits cres.splits)

lemma swp_conj: "swp m Q E s \<Longrightarrow> swp m Q' E' s \<Longrightarrow> swp m (\<lambda>a s. Q a s \<and> Q' a s) (\<lambda>e s. E e s \<and> E' e s) s"
  by (auto simp: swp_def split: prod.splits cres.splits)

lemma swp_run: "swp m Q E s \<Longrightarrow> m s = (r, s') \<Longrightarrow> r \<noteq> Fault \<and> (\<forall>a. r = Ret a \<longrightarrow> Q a s') \<and> (\<forall>e. r = Fail e \<longrightarrow> E e s')"
  by (cases r) (auto simp: swp_def)

lemma keeps_swp: "keeps P m \<longleftrightarrow> (\<forall>s. P s \<longrightarrow> swp m (\<lambda>_. P) (\<lambda>_. P) s)"
proof
  assume "keeps P m"
  then show "\<forall>s. P s \<longrightarrow> swp m (\<lambda>_. P) (\<lambda>_. P) s"
    by (auto simp: swp_def split: prod.splits cres.splits dest: keepsD)
next
  assume r: "\<forall>s. P s \<longrightarrow> swp m (\<lambda>_. P) (\<lambda>_. P) s"
  show "keeps P m"
  proof (rule keepsI)
    fix s q s' assume "P s" "m s = (q, s')"
    with r show "P s' \<and> q \<noteq> Fault" by (cases q) (auto simp: swp_def)
  qed
qed

section \<open>State and calls\<close>

text \<open>
  The kernel: \<open>open\<close> sees the path and the descriptors in use, \<open>malloc\<close> says whether there is memory. Requests
  that are particular to a device belong to its driver.
\<close>

record 'd os_files =
  os_open :: "string \<Rightarrow> int set \<Rightarrow> 'd \<Rightarrow> int \<times> 'd"
  os_close :: "int \<Rightarrow> 'd \<Rightarrow> 'd"
  os_malloc :: "'d \<Rightarrow> bool \<times> 'd"

text \<open>A descriptor that \<open>open\<close> returns is not in use.\<close>

definition os_files_ok :: "('d, 'z) os_files_scheme \<Rightarrow> bool" where
  "os_files_ok os \<longleftrightarrow> (\<forall>path fds d fd d'. os_open os path fds d = (fd, d') \<longrightarrow> 0 \<le> fd \<longrightarrow> fd \<notin> fds)"

record ('i, 'd) hal =
  hal_heap :: "nat \<Rightarrow> 'i option"
  hal_next :: nat
  hal_fds :: "int set"
  hal_dev :: 'd

definition hcall :: "('d \<Rightarrow> 'a \<times> 'd) \<Rightarrow> (('i, 'd, 'z) hal_scheme, 'a) prog" where
  "hcall f s = (let (a, d) = f (hal_dev s) in (Ret a, s\<lparr>hal_dev := d\<rparr>))"

definition hopen :: "('d, 'y) os_files_scheme \<Rightarrow> string \<Rightarrow> (('i, 'd, 'z) hal_scheme, int) prog" where
  "hopen os path s =
     (let (fd, d) = os_open os path (hal_fds s) (hal_dev s)
      in (Ret fd, s\<lparr>hal_dev := d, hal_fds := (if fd < 0 then hal_fds s else insert fd (hal_fds s))\<rparr>))"

definition hclose :: "('d, 'y) os_files_scheme \<Rightarrow> int \<Rightarrow> (('i, 'd, 'z) hal_scheme, unit) prog" where
  "hclose os fd = smod (\<lambda>s. s\<lparr>hal_dev := os_close os fd (hal_dev s), hal_fds := hal_fds s - {fd}\<rparr>)"

definition hmalloc :: "('d, 'y) os_files_scheme \<Rightarrow> (('i, 'd, 'z) hal_scheme, bool) prog" where
  "hmalloc os = hcall (os_malloc os)"

text \<open>The fresh instance with its first content; access to an instance and its release fault when it is not live.\<close>

definition hnew :: "'i \<Rightarrow> (('i, 'd, 'z) hal_scheme, nat) prog" where
  "hnew i s = (Ret (hal_next s), s\<lparr>hal_heap := (hal_heap s)(hal_next s \<mapsto> i), hal_next := hal_next s + 1\<rparr>)"

definition hinst :: "nat \<Rightarrow> (('i, 'd, 'z) hal_scheme, 'i) prog" where
  "hinst a s = (case hal_heap s a of None \<Rightarrow> (Fault, s) | Some i \<Rightarrow> (Ret i, s))"

definition hset :: "nat \<Rightarrow> ('i \<Rightarrow> 'i) \<Rightarrow> (('i, 'd, 'z) hal_scheme, unit) prog" where
  "hset a f s = (case hal_heap s a of None \<Rightarrow> (Fault, s) | Some i \<Rightarrow> (Ret (), s\<lparr>hal_heap := (hal_heap s)(a \<mapsto> f i)\<rparr>))"

definition hfree :: "nat \<Rightarrow> (('i, 'd, 'z) hal_scheme, unit) prog" where
  "hfree a s = (case hal_heap s a of None \<Rightarrow> (Fault, s) | Some i \<Rightarrow> (Ret (), s\<lparr>hal_heap := (hal_heap s)(a := None)\<rparr>))"

lemmas hal_call_defs = hcall_def hopen_def hclose_def hmalloc_def hnew_def hinst_def hset_def hfree_def

text \<open>The weakest preconditions of the calls, to evaluate them.\<close>

lemma swp_eval:
  "swp (hcall f) Q E s = (case f (hal_dev s) of (r, d) \<Rightarrow> Q r (s\<lparr>hal_dev := d\<rparr>))"
  "swp (hinst a) Q' E s = (case hal_heap s a of None \<Rightarrow> False | Some i \<Rightarrow> Q' i s)"
  "swp (hset a g) U E s = (case hal_heap s a of None \<Rightarrow> False | Some i \<Rightarrow> U () (s\<lparr>hal_heap := (hal_heap s)(a \<mapsto> g i)\<rparr>))"
  "swp (hfree a) U E s = (case hal_heap s a of None \<Rightarrow> False | Some i \<Rightarrow> U () (s\<lparr>hal_heap := (hal_heap s)(a := None)\<rparr>))"
  by (auto simp: swp_def hal_call_defs split: prod.splits option.splits)

section \<open>Who owns a descriptor\<close>

text \<open>
  \<open>fd_of\<close> reads the descriptor of an instance. \<open>X\<close> are open descriptors that no instance owns (between \<open>open\<close> and the
  allocation), \<open>Y\<close> instances that have given theirs up (between \<open>close\<close> and \<open>free\<close>); both are empty between calls of a driver.
\<close>

definition owns :: "('i \<Rightarrow> int) \<Rightarrow> nat set \<Rightarrow> (nat \<Rightarrow> 'i option) \<Rightarrow> nat \<Rightarrow> int option" where
  "owns fd_of Y h a = (if a \<in> Y then None else map_option fd_of (h a))"

definition hal_inv :: "('i \<Rightarrow> int) \<Rightarrow> int set \<Rightarrow> nat set \<Rightarrow> ('i, 'd, 'z) hal_scheme \<Rightarrow> bool" where
  "hal_inv fd_of X Y s \<longleftrightarrow>
     dom (hal_heap s) \<union> Y \<subseteq> {..<hal_next s} \<and> inj_on (owns fd_of Y (hal_heap s)) (dom (owns fd_of Y (hal_heap s))) \<and>
     hal_fds s = ran (owns fd_of Y (hal_heap s)) \<union> X \<and> ran (owns fd_of Y (hal_heap s)) \<inter> X = {} \<and> ran (owns fd_of Y (hal_heap s)) \<union> X \<subseteq> {0..}"

lemma owns_upd:
  "owns fd_of Y (h(a \<mapsto> i)) = (if a \<in> Y then owns fd_of Y h else (owns fd_of Y h)(a \<mapsto> fd_of i))"
  "owns fd_of Y (h(a := None)) = (owns fd_of Y h)(a := None)"
  "owns fd_of (insert a Y) h = (owns fd_of Y h)(a := None)"
  by (auto simp: owns_def fun_eq_iff)

lemma owns_live: "a \<notin> Y \<Longrightarrow> h a = Some i \<Longrightarrow> owns fd_of Y h a = Some (fd_of i)"
  by (simp add: owns_def)

lemma hal_inv_own:
  assumes "hal_inv fd_of X {} s" and "hal_heap s b = Some j"
  shows "fd_of j \<in> hal_fds s" and "hal_heap s a = Some i \<Longrightarrow> a \<noteq> b \<Longrightarrow> fd_of i \<noteq> fd_of j"
proof -
  let ?o = "owns fd_of {} (hal_heap s)"
  have i: "inj_on ?o (dom ?o)" "hal_fds s = ran ?o \<union> X" using assms(1) by (simp_all add: hal_inv_def)
  have b: "?o b = Some (fd_of j)" using assms(2) by (simp add: owns_def)
  then show "fd_of j \<in> hal_fds s" using i(2) by (auto intro: ranI)
  assume a: "hal_heap s a = Some i" "a \<noteq> b"
  then have "?o a = Some (fd_of i)" by (simp add: owns_def)
  moreover from this b have "a \<in> dom ?o" "b \<in> dom ?o" by blast+
  ultimately show "fd_of i \<noteq> fd_of j" using inj_onD [OF i(1)] a(2) b by metis
qed

text \<open>Two states with the same heap and descriptors.\<close>

lemma hal_inv_cong:
  "hal_heap s' = hal_heap s \<Longrightarrow> hal_next s' = hal_next s \<Longrightarrow> hal_fds s' = hal_fds s \<Longrightarrow> hal_inv fd_of X Y s' = hal_inv fd_of X Y s"
  by (simp add: hal_inv_def)

lemma hal_inv_dev [simp]: "hal_inv fd_of X Y (s\<lparr>hal_dev := d\<rparr>) = hal_inv fd_of X Y s"
  by (rule hal_inv_cong) simp_all

lemma hal_inv_empty: "hal_heap s = Map.empty \<Longrightarrow> hal_fds s = {} \<Longrightarrow> hal_inv fd_of {} {} s"
  by (auto simp: hal_inv_def owns_def dom_def ran_def)

lemma hal_inv_open:
  assumes "hal_inv fd_of X Y s" and "fd \<notin> hal_fds s" and "0 \<le> fd"
  shows "hal_inv fd_of (insert fd X) Y (s\<lparr>hal_fds := insert fd (hal_fds s)\<rparr>)"
  using assms by (auto simp: hal_inv_def)

lemma hal_inv_close:
  assumes "hal_inv fd_of X Y s" and "fd \<in> X"
  shows "hal_inv fd_of (X - {fd}) Y (s\<lparr>hal_fds := hal_fds s - {fd}\<rparr>)"
proof -
  have "ran (owns fd_of Y (hal_heap s)) - {fd} = ran (owns fd_of Y (hal_heap s))"
    using assms unfolding hal_inv_def by blast
  then show ?thesis using assms unfolding hal_inv_def by (auto simp: Un_Diff)
qed

lemma hal_inv_new:
  assumes "hal_inv fd_of X Y s" and "fd_of i \<in> X"
  shows "hal_inv fd_of (X - {fd_of i}) Y (s\<lparr>hal_heap := (hal_heap s)(hal_next s \<mapsto> i), hal_next := Suc (hal_next s)\<rparr>)"
proof -
  let ?o = "owns fd_of Y (hal_heap s)" and ?a = "hal_next s"
  have i: "dom (hal_heap s) \<union> Y \<subseteq> {..<?a}" "inj_on ?o (dom ?o)" "hal_fds s = ran ?o \<union> X" "ran ?o \<inter> X = {}" "ran ?o \<union> X \<subseteq> {0..}"
    using assms(1) by (simp_all add: hal_inv_def)
  have fresh: "?a \<notin> Y" "?o ?a = None" using i(1) by (auto simp: owns_def)
  have "fd_of i \<notin> ran ?o" using i(4) assms(2) by blast
  note add = ran_inj_add [OF i(2) fresh(2) this]
  have "dom ((hal_heap s)(?a \<mapsto> i)) \<union> Y \<subseteq> {..<Suc ?a}" using i(1) by auto
  moreover have "ran ?o \<union> X = insert (fd_of i) (ran ?o) \<union> (X - {fd_of i})" "insert (fd_of i) (ran ?o) \<inter> (X - {fd_of i}) = {}"
    using assms(2) i(4) by auto
  ultimately show ?thesis using add i(3,5) fresh(1) by (simp add: hal_inv_def owns_upd)
qed

lemma hal_inv_give_up:
  assumes "hal_inv fd_of X Y s" and "hal_heap s a = Some i" and "a \<notin> Y"
  shows "hal_inv fd_of X (insert a Y) (s\<lparr>hal_fds := hal_fds s - {fd_of i}\<rparr>)"
proof -
  let ?o = "owns fd_of Y (hal_heap s)"
  have i: "dom (hal_heap s) \<union> Y \<subseteq> {..<hal_next s}" "inj_on ?o (dom ?o)" "hal_fds s = ran ?o \<union> X" "ran ?o \<inter> X = {}" "ran ?o \<union> X \<subseteq> {0..}"
    using assms(1) by (simp_all add: hal_inv_def)
  have o: "?o a = Some (fd_of i)" using assms(2,3) by (rule owns_live [rotated])
  note del = ran_inj_del [OF i(2) o]
  have "fd_of i \<in> ran ?o" using o by (rule ranI)
  then have "ran ?o \<union> X - {fd_of i} = (ran ?o - {fd_of i}) \<union> X" using i(4) by blast
  moreover have "insert a Y \<subseteq> {..<hal_next s}" using i(1) assms(2) by blast
  ultimately show ?thesis using del i by (auto simp: hal_inv_def owns_upd)
qed

lemma hal_inv_free:
  assumes "hal_inv fd_of X Y s" and "a \<in> Y"
  shows "hal_inv fd_of X (Y - {a}) (s\<lparr>hal_heap := (hal_heap s)(a := None)\<rparr>)"
proof -
  have "owns fd_of (Y - {a}) ((hal_heap s)(a := None)) = owns fd_of Y (hal_heap s)"
    using assms(2) by (auto simp: owns_def fun_eq_iff)
  moreover have "dom ((hal_heap s)(a := None)) \<union> (Y - {a}) \<subseteq> {..<hal_next s}"
    using assms(1) by (auto simp: hal_inv_def)
  ultimately show ?thesis using assms(1) by (simp add: hal_inv_def)
qed

lemma hal_inv_release:
  assumes "hal_inv fd_of X Y s" and "hal_heap s a = Some i" and "a \<notin> Y"
  shows "hal_inv fd_of (insert (fd_of i) X) Y (s\<lparr>hal_heap := (hal_heap s)(a := None)\<rparr>)"
proof -
  let ?o = "owns fd_of Y (hal_heap s)"
  have i: "dom (hal_heap s) \<union> Y \<subseteq> {..<hal_next s}" "inj_on ?o (dom ?o)" "hal_fds s = ran ?o \<union> X" "ran ?o \<inter> X = {}" "ran ?o \<union> X \<subseteq> {0..}"
    using assms(1) by (simp_all add: hal_inv_def)
  have o: "?o a = Some (fd_of i)" using assms(2,3) by (rule owns_live [rotated])
  note del = ran_inj_del [OF i(2) o]
  have "fd_of i \<in> ran ?o" using o by (rule ranI)
  then have "ran ?o \<union> X = (ran ?o - {fd_of i}) \<union> insert (fd_of i) X" "(ran ?o - {fd_of i}) \<inter> insert (fd_of i) X = {}"
    using i(4) by blast+
  moreover have "dom ((hal_heap s)(a := None)) \<union> Y \<subseteq> {..<hal_next s}" using i(1) by auto
  ultimately show ?thesis using del i(3,5) by (simp add: hal_inv_def owns_upd)
qed

lemma hal_inv_set:
  assumes "hal_inv fd_of X Y s" and "hal_heap s a = Some i" and "fd_of j = fd_of i"
  shows "hal_inv fd_of X Y (s\<lparr>hal_heap := (hal_heap s)(a \<mapsto> j)\<rparr>)"
proof -
  have "owns fd_of Y ((hal_heap s)(a \<mapsto> j)) = owns fd_of Y (hal_heap s)"
    using assms(2,3) by (auto simp: owns_def fun_eq_iff)
  moreover have "dom ((hal_heap s)(a \<mapsto> j)) = dom (hal_heap s)" using assms(2) by auto
  ultimately show ?thesis using assms(1) by (simp add: hal_inv_def)
qed

text \<open>An instance without a descriptor may change in any way, or take an open descriptor over.\<close>

lemma hal_inv_set_gone:
  assumes "hal_inv fd_of X Y s" and "hal_heap s a = Some i" and "a \<in> Y"
  shows "hal_inv fd_of X Y (s\<lparr>hal_heap := (hal_heap s)(a \<mapsto> j)\<rparr>)"
proof -
  have "owns fd_of Y ((hal_heap s)(a \<mapsto> j)) = owns fd_of Y (hal_heap s)" using assms(3) by (auto simp: owns_def fun_eq_iff)
  moreover have "dom ((hal_heap s)(a \<mapsto> j)) = dom (hal_heap s)" using assms(2) by auto
  ultimately show ?thesis using assms(1) by (simp add: hal_inv_def)
qed

lemma hal_inv_take:
  assumes "hal_inv fd_of X Y s" and "hal_heap s a = Some i" and "a \<in> Y" and "fd_of j \<in> X"
  shows "hal_inv fd_of (X - {fd_of j}) (Y - {a}) (s\<lparr>hal_heap := (hal_heap s)(a \<mapsto> j)\<rparr>)"
proof -
  let ?o = "owns fd_of Y (hal_heap s)"
  have i: "dom (hal_heap s) \<union> Y \<subseteq> {..<hal_next s}" "inj_on ?o (dom ?o)" "hal_fds s = ran ?o \<union> X" "ran ?o \<inter> X = {}" "ran ?o \<union> X \<subseteq> {0..}"
    using assms(1) by (simp_all add: hal_inv_def)
  have "?o a = None" using assms(3) by (simp add: owns_def)
  moreover have "fd_of j \<notin> ran ?o" using i(4) assms(4) by blast
  ultimately have add: "ran (?o(a \<mapsto> fd_of j)) = insert (fd_of j) (ran ?o)" "inj_on (?o(a \<mapsto> fd_of j)) (dom (?o(a \<mapsto> fd_of j)))"
    by (rule ran_inj_add [OF i(2)])+
  have o: "owns fd_of (Y - {a}) ((hal_heap s)(a \<mapsto> j)) = ?o(a \<mapsto> fd_of j)" by (auto simp: owns_def fun_eq_iff)
  have "dom ((hal_heap s)(a \<mapsto> j)) \<union> (Y - {a}) \<subseteq> {..<hal_next s}" using i(1) assms(2) by auto
  moreover have "ran ?o \<union> X = insert (fd_of j) (ran ?o) \<union> (X - {fd_of j})" "insert (fd_of j) (ran ?o) \<inter> (X - {fd_of j}) = {}"
    using assms(4) i(4) by auto
  ultimately show ?thesis using i(3,5) add by (simp add: hal_inv_def o)
qed

text \<open>An instance that is allocated before its descriptor is opened, and one that owns a descriptor it already holds.\<close>

lemma hal_inv_new_gone:
  assumes "hal_inv fd_of X Y s"
  shows "hal_inv fd_of X (insert (hal_next s) Y) (s\<lparr>hal_heap := (hal_heap s)(hal_next s \<mapsto> i), hal_next := Suc (hal_next s)\<rparr>)"
proof -
  have d: "dom (hal_heap s) \<union> Y \<subseteq> {..<hal_next s}" using assms by (simp add: hal_inv_def)
  then have "hal_heap s (hal_next s) = None" by auto
  then have "owns fd_of (insert (hal_next s) Y) ((hal_heap s)(hal_next s \<mapsto> i)) = owns fd_of Y (hal_heap s)"
    by (auto simp: owns_def fun_eq_iff)
  moreover have "dom ((hal_heap s)(hal_next s \<mapsto> i)) \<union> insert (hal_next s) Y \<subseteq> {..<Suc (hal_next s)}" using d by auto
  ultimately show ?thesis using assms by (simp add: hal_inv_def)
qed

lemma hal_inv_adopt:
  assumes "hal_inv fd_of X Y s" and "hal_heap s a = Some i" and "a \<in> Y" and "fd_of i \<in> X"
  shows "hal_inv fd_of (X - {fd_of i}) (Y - {a}) s"
proof -
  have "s\<lparr>hal_heap := (hal_heap s)(a \<mapsto> i)\<rparr> = s" using assms(2) by (simp add: map_upd_triv)
  with hal_inv_take [OF assms] show ?thesis by simp
qed

section \<open>Rules for the calls\<close>

text \<open>
  Each rule says what a call does to the invariant and what it leaves alone: the part of the state a driver adds
  (\<open>hal.more\<close>) and, but for \<open>new\<close>, \<open>set\<close> and \<open>free\<close>, the instances.
\<close>

definition same_inst :: "('i, 'd, 'z) hal_scheme \<Rightarrow> ('i, 'd, 'z) hal_scheme \<Rightarrow> bool" where
  "same_inst s s' \<longleftrightarrow> hal_heap s' = hal_heap s \<and> hal_next s' = hal_next s \<and> hal.more s' = hal.more s"

lemma same_inst_refl [simp]: "same_inst s s"
  by (simp add: same_inst_def)

lemma same_inst_trans: "same_inst s s' \<Longrightarrow> same_inst s' s'' \<Longrightarrow> same_inst s s''"
  by (simp add: same_inst_def)

lemma swp_hcall:
  assumes "hal_inv fd_of X Y s"
    and "\<And>a d s'. f (hal_dev s) = (a, d) \<Longrightarrow> hal_inv fd_of X Y s' \<Longrightarrow> same_inst s s' \<Longrightarrow> hal_fds s' = hal_fds s \<Longrightarrow> hal_dev s' = d \<Longrightarrow> Q a s'"
  shows "swp (hcall f) Q E s"
proof -
  obtain a d where f: "f (hal_dev s) = (a, d)" by fastforce
  have "Q a (s\<lparr>hal_dev := d\<rparr>)" by (rule assms(2) [OF f]) (use assms(1) in \<open>simp_all add: same_inst_def\<close>)
  then show ?thesis by (simp add: swp_def hcall_def f)
qed

lemma swp_hmalloc:
  assumes "hal_inv fd_of X Y s"
    and "\<And>ok s'. hal_inv fd_of X Y s' \<Longrightarrow> same_inst s s' \<Longrightarrow> Q ok s'"
  shows "swp (hmalloc os) Q E s"
  unfolding hmalloc_def using assms(1) by (rule swp_hcall) (rule assms(2))

lemma swp_hopen:
  assumes ok: "os_files_ok os" and inv: "hal_inv fd_of X Y s"
    and bad: "\<And>fd s'. fd < 0 \<Longrightarrow> hal_inv fd_of X Y s' \<Longrightarrow> same_inst s s' \<Longrightarrow> Q fd s'"
    and good: "\<And>fd s'. 0 \<le> fd \<Longrightarrow> fd \<notin> X \<Longrightarrow> hal_inv fd_of (insert fd X) Y s' \<Longrightarrow> same_inst s s' \<Longrightarrow> Q fd s'"
  shows "swp (hopen os path) Q E s"
proof -
  obtain fd d where o: "os_open os path (hal_fds s) (hal_dev s) = (fd, d)" by fastforce
  show ?thesis
  proof (cases "fd < 0")
    case True
    have "Q fd (s\<lparr>hal_dev := d\<rparr>)" by (rule bad [OF True]) (use inv in \<open>simp_all add: same_inst_def\<close>)
    moreover have "s\<lparr>hal_dev := d, hal_fds := hal_fds s\<rparr> = s\<lparr>hal_dev := d\<rparr>" by simp
    ultimately show ?thesis using True by (simp add: swp_def hopen_def o)
  next
    case False
    then have fresh: "0 \<le> fd" "fd \<notin> hal_fds s" using ok o unfolding os_files_ok_def not_less by blast+
    let ?s = "s\<lparr>hal_dev := d, hal_fds := insert fd (hal_fds s)\<rparr>"
    have "hal_inv fd_of (insert fd X) Y ?s"
      using hal_inv_open [OF inv fresh(2,1)] by (simp add: hal_inv_def)
    moreover have "fd \<notin> X" using inv fresh(2) by (auto simp: hal_inv_def)
    ultimately have "Q fd ?s" by (intro good fresh(1)) (simp_all add: same_inst_def)
    then show ?thesis using False by (simp add: swp_def hopen_def o)
  qed
qed

lemma swp_hclose:
  assumes inv: "hal_inv fd_of X Y s" and fd: "fd \<in> X"
    and post: "\<And>s'. hal_inv fd_of (X - {fd}) Y s' \<Longrightarrow> same_inst s s' \<Longrightarrow> Q () s'"
  shows "swp (hclose os fd) Q E s"
proof -
  let ?s = "s\<lparr>hal_dev := os_close os fd (hal_dev s), hal_fds := hal_fds s - {fd}\<rparr>"
  have "hal_inv fd_of (X - {fd}) Y ?s" using hal_inv_close [OF inv fd] by (simp add: hal_inv_def)
  then have "Q () ?s" by (rule post) (simp add: same_inst_def)
  then show ?thesis by (simp add: hclose_def)
qed

text \<open>Closing the descriptor of an instance that is about to be freed.\<close>

lemma swp_hclose_owned:
  assumes inv: "hal_inv fd_of X Y s" and a: "hal_heap s a = Some i" "a \<notin> Y"
    and post: "\<And>s'. hal_inv fd_of X (insert a Y) s' \<Longrightarrow> same_inst s s' \<Longrightarrow> Q () s'"
  shows "swp (hclose os (fd_of i)) Q E s"
proof -
  let ?s = "s\<lparr>hal_dev := os_close os (fd_of i) (hal_dev s), hal_fds := hal_fds s - {fd_of i}\<rparr>"
  have "hal_inv fd_of X (insert a Y) ?s" using hal_inv_give_up [OF inv a] by (simp add: hal_inv_def)
  then have "Q () ?s" by (rule post) (simp add: same_inst_def)
  then show ?thesis by (simp add: hclose_def)
qed

lemma swp_hnew:
  assumes inv: "hal_inv fd_of X Y s" and fd: "fd_of i \<in> X"
    and post: "\<And>s'. hal_inv fd_of (X - {fd_of i}) Y s' \<Longrightarrow> hal_heap s' = (hal_heap s)(hal_next s \<mapsto> i) \<Longrightarrow>
      hal_next s' = Suc (hal_next s) \<Longrightarrow> hal.more s' = hal.more s \<Longrightarrow> Q (hal_next s) s'"
  shows "swp (hnew i) Q E s"
proof -
  have "Q (hal_next s) (s\<lparr>hal_heap := (hal_heap s)(hal_next s \<mapsto> i), hal_next := Suc (hal_next s)\<rparr>)"
    using hal_inv_new [OF inv fd] by (rule post) simp_all
  then show ?thesis by (simp add: swp_def hnew_def)
qed

lemma swp_hinst:
  assumes "hal_heap s a = Some i" and "Q i s"
  shows "swp (hinst a) Q E s"
  using assms by (simp add: swp_def hinst_def)

lemma swp_hset:
  assumes inv: "hal_inv fd_of X Y s" and a: "hal_heap s a = Some i" and fd: "fd_of (f i) = fd_of i"
    and post: "\<And>s'. hal_inv fd_of X Y s' \<Longrightarrow> hal_heap s' = (hal_heap s)(a \<mapsto> f i) \<Longrightarrow> hal_next s' = hal_next s \<Longrightarrow>
      hal.more s' = hal.more s \<Longrightarrow> hal_fds s' = hal_fds s \<Longrightarrow> Q () s'"
  shows "swp (hset a f) Q E s"
proof -
  have "Q () (s\<lparr>hal_heap := (hal_heap s)(a \<mapsto> f i)\<rparr>)"
    using hal_inv_set [OF inv a fd] by (rule post) simp_all
  then show ?thesis by (simp add: swp_def hset_def a)
qed

text \<open>Freeing an instance that has given up its descriptor, or one that still owns it.\<close>

lemma swp_hfree:
  assumes inv: "hal_inv fd_of X Y s" and a: "hal_heap s a = Some i" "a \<in> Y"
    and post: "\<And>s'. hal_inv fd_of X (Y - {a}) s' \<Longrightarrow> hal_heap s' = (hal_heap s)(a := None) \<Longrightarrow> hal.more s' = hal.more s \<Longrightarrow> Q () s'"
  shows "swp (hfree a) Q E s"
proof -
  have "Q () (s\<lparr>hal_heap := (hal_heap s)(a := None)\<rparr>)" using hal_inv_free [OF inv a(2)] by (rule post) simp_all
  then show ?thesis by (simp add: swp_def hfree_def a(1))
qed

lemma swp_hfree_owned:
  assumes inv: "hal_inv fd_of X Y s" and a: "hal_heap s a = Some i" "a \<notin> Y"
    and post: "\<And>s'. hal_inv fd_of (insert (fd_of i) X) Y s' \<Longrightarrow> fd_of i \<notin> X \<Longrightarrow> hal_heap s' = (hal_heap s)(a := None) \<Longrightarrow>
      hal.more s' = hal.more s \<Longrightarrow> Q () s'"
  shows "swp (hfree a) Q E s"
proof -
  have "fd_of i \<in> ran (owns fd_of Y (hal_heap s))" using owns_live [of a Y "hal_heap s" i fd_of] a by (auto intro: ranI)
  then have "fd_of i \<notin> X" using inv by (auto simp: hal_inv_def)
  with hal_inv_release [OF inv a] have "Q () (s\<lparr>hal_heap := (hal_heap s)(a := None)\<rparr>)" by (rule post) simp_all
  then show ?thesis by (simp add: swp_def hfree_def a(1))
qed

section \<open>Driver states\<close>

text \<open>
  What a driver knows of its state: the descriptors are owned, and a predicate \<open>R\<close> relates the instances to the data the
  driver keeps beside them. The kernel's part of the state does not matter to \<open>R\<close>, so the calls that touch only that part
  keep it; the calls that change an instance leave an obligation about \<open>R\<close>.
\<close>

definition hal_st :: "('i \<Rightarrow> int) \<Rightarrow> (('i, 'd, 'z) hal_scheme \<Rightarrow> bool) \<Rightarrow> int set \<Rightarrow> nat set \<Rightarrow> ('i, 'd, 'z) hal_scheme \<Rightarrow> bool" where
  "hal_st fd_of R X Y s \<longleftrightarrow> hal_inv fd_of X Y s \<and> R s"

definition live_ptr :: "('i, 'd, 'z) hal_scheme \<Rightarrow> nat option \<Rightarrow> bool" where
  "live_ptr s p \<longleftrightarrow> (\<forall>a. p = Some a \<longrightarrow> hal_heap s a \<noteq> None)"

lemma live_ptr_same: "same_inst s s' \<Longrightarrow> live_ptr s' p = live_ptr s p"
  by (simp add: live_ptr_def same_inst_def)

locale driver_state =
  fixes fd_of :: "'i \<Rightarrow> int" and R :: "('i, 'd, 'z) hal_scheme \<Rightarrow> bool"
  assumes frame: "same_inst s s' \<Longrightarrow> R s \<Longrightarrow> R s'"
begin

lemma st_call:
  assumes "hal_st fd_of R X Y s" and "\<And>a s'. hal_st fd_of R X Y s' \<Longrightarrow> same_inst s s' \<Longrightarrow> Q a s'"
  shows "swp (hcall f) Q E s"
proof (rule swp_hcall)
  show "hal_inv fd_of X Y s" using assms(1) by (simp add: hal_st_def)
qed (use assms frame in \<open>auto simp: hal_st_def\<close>)

lemma st_malloc:
  assumes "hal_st fd_of R X Y s" and "\<And>a s'. hal_st fd_of R X Y s' \<Longrightarrow> same_inst s s' \<Longrightarrow> Q a s'"
  shows "swp (hmalloc os) Q E s"
  unfolding hmalloc_def using assms by (rule st_call)

lemma st_open:
  assumes "os_files_ok os" and "hal_st fd_of R X Y s"
    and "\<And>fd s'. fd < 0 \<Longrightarrow> hal_st fd_of R X Y s' \<Longrightarrow> same_inst s s' \<Longrightarrow> Q fd s'"
    and "\<And>fd s'. 0 \<le> fd \<Longrightarrow> fd \<notin> X \<Longrightarrow> hal_st fd_of R (insert fd X) Y s' \<Longrightarrow> same_inst s s' \<Longrightarrow> Q fd s'"
  shows "swp (hopen os path) Q E s"
proof (rule swp_hopen [OF assms(1)])
  show "hal_inv fd_of X Y s" using assms(2) by (simp add: hal_st_def)
qed (use assms(2-4) frame in \<open>auto simp: hal_st_def\<close>)

lemma st_close:
  assumes "hal_st fd_of R X Y s" and "fd \<in> X"
    and "\<And>s'. hal_st fd_of R (X - {fd}) Y s' \<Longrightarrow> same_inst s s' \<Longrightarrow> Q () s'"
  shows "swp (hclose os fd) Q E s"
proof (rule swp_hclose [OF _ assms(2)])
  show "hal_inv fd_of X Y s" using assms(1) by (simp add: hal_st_def)
qed (use assms(1,3) frame in \<open>auto simp: hal_st_def\<close>)

lemma st_close_owned:
  assumes "hal_st fd_of R X Y s" and "hal_heap s a = Some i" and "a \<notin> Y"
    and "\<And>s'. hal_st fd_of R X (insert a Y) s' \<Longrightarrow> same_inst s s' \<Longrightarrow> Q () s'"
  shows "swp (hclose os (fd_of i)) Q E s"
proof (rule swp_hclose_owned [OF _ assms(2,3)])
  show "hal_inv fd_of X Y s" using assms(1) by (simp add: hal_st_def)
qed (use assms(1,4) frame in \<open>auto simp: hal_st_def\<close>)

lemma st_new:
  assumes "hal_st fd_of R X Y s" and "fd_of i \<in> X"
    and "\<And>s'. hal_inv fd_of (X - {fd_of i}) Y s' \<Longrightarrow> hal_heap s (hal_next s) = None \<Longrightarrow> R s \<Longrightarrow>
      hal_heap s' = (hal_heap s)(hal_next s \<mapsto> i) \<Longrightarrow> hal.more s' = hal.more s \<Longrightarrow> Q (hal_next s) s'"
  shows "swp (hnew i) Q E s"
proof (rule swp_hnew [where fd_of = fd_of and X = X and Y = Y])
  show "fd_of i \<in> X" by (rule assms(2))
  show "hal_inv fd_of X Y s" using assms(1) by (simp add: hal_st_def)
  then have "hal_heap s (hal_next s) = None" by (auto simp: hal_inv_def)
  then show "Q (hal_next s) s'" if "hal_inv fd_of (X - {fd_of i}) Y s'" "hal_heap s' = (hal_heap s)(hal_next s \<mapsto> i)"
      "hal.more s' = hal.more s" for s'
    using that assms(1,3) by (simp add: hal_st_def)
qed

lemma st_inst:
  assumes "hal_st fd_of R X Y s" and "live_ptr s (Some a)" and "\<And>i. hal_heap s a = Some i \<Longrightarrow> R s \<Longrightarrow> Q i s"
  shows "swp (hinst a) Q E s"
  using assms by (auto simp: live_ptr_def hal_st_def intro: swp_hinst)

lemma st_set:
  assumes "hal_st fd_of R X Y s" and "hal_heap s a = Some i" and "fd_of (f i) = fd_of i"
    and "\<And>s'. hal_inv fd_of X Y s' \<Longrightarrow> R s \<Longrightarrow> hal_heap s' = (hal_heap s)(a \<mapsto> f i) \<Longrightarrow> hal.more s' = hal.more s \<Longrightarrow> Q () s'"
  shows "swp (hset a f) Q E s"
proof (rule swp_hset [where fd_of = fd_of and X = X and Y = Y])
  show "hal_inv fd_of X Y s" using assms(1) by (simp add: hal_st_def)
qed (use assms in \<open>simp_all add: hal_st_def\<close>)

lemma st_fd: "hal_st fd_of R X {} s \<Longrightarrow> hal_heap s a = Some i \<Longrightarrow> 0 \<le> fd_of i"
  using ranI [of "owns fd_of {} (hal_heap s)" a "fd_of i"] by (auto simp: hal_st_def hal_inv_def owns_def)

end

section \<open>Runs of a driver\<close>

text \<open>A call whose result does not matter to the state.\<close>

definition sdone :: "('s, 'a) prog \<Rightarrow> ('s, unit) prog" where
  "sdone m = sbind m (\<lambda>_. sret ())"

text \<open>
  The states a client reaches from \<open>s0\<close> by calls that respect \<open>valid\<close> (a pointer it passes is null or a live instance).
\<close>

inductive reach :: "('op \<Rightarrow> ('s, 'r) prog) \<Rightarrow> ('s \<Rightarrow> 'op \<Rightarrow> bool) \<Rightarrow> 's \<Rightarrow> 's \<Rightarrow> bool" for exec valid s0 where
  start: "reach exec valid s0 s0"
| step: "reach exec valid s0 s \<Longrightarrow> valid s op \<Longrightarrow> exec op s = (r, s') \<Longrightarrow> reach exec valid s0 s'"

text \<open>
  A driver whose calls keep an invariant: every state of a run has it and no call of a run faults.
\<close>

locale driver_runs =
  fixes exec :: "'os \<Rightarrow> 'op \<Rightarrow> ('s, 'r) prog"
    and valid :: "'s \<Rightarrow> 'op \<Rightarrow> bool"
    and os_ok :: "'os \<Rightarrow> bool"
    and inv :: "'s \<Rightarrow> bool"
  assumes exec_inv: "os_ok os \<Longrightarrow> inv s \<Longrightarrow> valid s op \<Longrightarrow> swp (exec os op) (\<lambda>_. inv) (\<lambda>_. inv) s"
begin

lemma reach_inv: "reach (exec os) valid s0 s \<Longrightarrow> os_ok os \<Longrightarrow> inv s0 \<Longrightarrow> inv s"
proof (induction rule: reach.induct)
  case (step s op r s')
  then show ?case using exec_inv swp_run [of "exec os op" "\<lambda>_. inv" "\<lambda>_. inv" s r s'] by (cases r) auto
qed

lemma no_fault: "reach (exec os) valid s0 s \<Longrightarrow> os_ok os \<Longrightarrow> inv s0 \<Longrightarrow> valid s op \<Longrightarrow> fst (exec os op s) \<noteq> Fault"
  using exec_inv [OF _ reach_inv] swp_run [of "exec os op" "\<lambda>_. inv" "\<lambda>_. inv" s] by (metis prod.collapse)

end

text \<open>
  When the invariant contains the ownership of the descriptors, every open descriptor is owned, between calls, by exactly one live
  instance that has not given it up. \<open>gone\<close> are the instances without a descriptor.
\<close>

locale instance_driver = driver_runs exec valid os_ok inv
  for exec :: "'os \<Rightarrow> 'op \<Rightarrow> (('i, 'd, 'z) hal_scheme, 'r) prog" and valid os_ok inv +
  fixes fd_of :: "'i \<Rightarrow> int" and gone :: "(nat \<Rightarrow> 'i option) \<Rightarrow> nat set"
  assumes owned: "inv s \<Longrightarrow> hal_inv fd_of {} (gone (hal_heap s)) s"
begin

lemma one_owner:
  assumes "reach (exec os) valid s0 s" and "os_ok os" and "inv s0"
  shows "fd \<in> hal_fds s \<longleftrightarrow> (\<exists>!a. a \<notin> gone (hal_heap s) \<and> (\<exists>i. hal_heap s a = Some i \<and> fd_of i = fd))"
proof -
  let ?o = "owns fd_of (gone (hal_heap s)) (hal_heap s)"
  have i: "inj_on ?o (dom ?o)" "hal_fds s = ran ?o"
    using owned [OF reach_inv [OF assms]] by (simp_all add: hal_inv_def)
  have o: "?o a = Some fd \<longleftrightarrow> a \<notin> gone (hal_heap s) \<and> (\<exists>i. hal_heap s a = Some i \<and> fd_of i = fd)" for a by (auto simp: owns_def)
  have "?o a = Some fd \<Longrightarrow> ?o b = Some fd \<Longrightarrow> a = b" for a b using inj_onD [OF i(1), of a b] by auto
  moreover have "fd \<in> hal_fds s \<longleftrightarrow> (\<exists>a. ?o a = Some fd)" using i(2) by (simp add: ran_def)
  ultimately show ?thesis unfolding o by blast
qed

end

text \<open>A call that does not return leaves the client where it is; no other call follows.\<close>

definition if_returns :: "('s \<Rightarrow> ('a cres \<times> 's) option) \<Rightarrow> ('s, unit) prog" where
  "if_returns m s = (case m s of None \<Rightarrow> (Ret (), s) | Some (r, s') \<Rightarrow> sdone (\<lambda>_. (r, s')) s)"

section \<open>Programs that may not return\<close>

text \<open>Partial correctness: what holds if the program returns.\<close>

definition olp :: "('s, 'a) oprog \<Rightarrow> ('a \<Rightarrow> 's \<Rightarrow> bool) \<Rightarrow> (errno \<Rightarrow> 's \<Rightarrow> bool) \<Rightarrow> 's \<Rightarrow> bool" where
  "olp m Q E s \<longleftrightarrow> (\<forall>r s'. m s = Some (r, s') \<longrightarrow> (case r of Ret a \<Rightarrow> Q a s' | Fail e \<Rightarrow> E e s' | Fault \<Rightarrow> False))"

lemma olp_simps [simp]:
  "olp (obind m f) W E = olp m (\<lambda>a. olp (f a) W E) E"
  "olp (orun p) Q E = swp p Q E"
  by (auto simp: fun_eq_iff olp_def obind_def orun_def swp_def split: option.splits prod.splits cres.splits)

lemma olp_mono: "olp m Q E s \<Longrightarrow> (\<And>a s'. Q a s' \<Longrightarrow> Q' a s') \<Longrightarrow> (\<And>e s'. E e s' \<Longrightarrow> E' e s') \<Longrightarrow> olp m Q' E' s"
  unfolding olp_def by (fastforce split: cres.splits)

lemma olp_ifI: "(c \<Longrightarrow> olp m Q E s) \<Longrightarrow> (\<not> c \<Longrightarrow> olp n Q E s) \<Longrightarrow> olp (if c then m else n) Q E s"
  by simp

lemma olp_run: "olp m Q E s \<Longrightarrow> m s = Some (r, s') \<Longrightarrow> r \<noteq> Fault \<and> (\<forall>a. r = Ret a \<longrightarrow> Q a s') \<and> (\<forall>e. r = Fail e \<longrightarrow> E e s')"
  unfolding olp_def by (cases r) fastforce+

lemma swp_if_returns:
  assumes "olp m (\<lambda>_. Q ()) E s" and "Q () s"
  shows "swp (if_returns m) Q E s"
proof (cases "m s")
  case None
  then show ?thesis using assms(2) by (simp add: if_returns_def swp_def)
next
  case (Some y)
  obtain r s' where y: "y = (r, s')" by (cases y)
  then show ?thesis using Some olp_run [OF assms(1), of r s']
    by (cases r) (simp_all add: if_returns_def swp_def sdone_def sprog_defs)
qed

end
