(* ===== verification/Uart.thy ===== *)
theory Uart
  imports Hal_Inst
begin

text \<open>
  The UART driver (\<open>rtsmart_hal/drivers/uart/drv_uart.c\<close>): instances over hardware ports and over named devices, the
  table of ports in use, transfers, configuration. An index outside the table is a fault.
\<close>

section \<open>State\<close>

definition KD_HARD_UART_MAX_NUM :: int where "KD_HARD_UART_MAX_NUM = 5"

record uart_configure =
  uc_baud_rate :: u32
  uc_data_bits :: "4 word"
  uc_stop_bits :: "2 word"
  uc_parity :: "2 word"
  uc_bit_order :: "1 word"
  uc_invert :: "1 word"
  uc_bufsz :: u16
  uc_reserved :: "6 word"

text \<open>\<open>ui_base_ok\<close> says that \<open>base\<close> points to \<open>_drv_uart_inst_type\<close>. No function reads \<open>curr_config\<close>.\<close>

record drv_uart_inst =
  ui_base_ok :: bool
  ui_id :: int
  ui_fd :: int

text \<open>
  The kernel: \<open>read\<close> gives at most the bytes asked for, \<open>poll\<close> a count, \<open>errno\<close> and whether an error event is set; a
  negative number is a failed request. \<open>uo_find\<close> and the two requests after it are \<open>rt_device_find\<close> and \<open>rt_device_control\<close>.
\<close>

record 'd uart_os = "'d os_files" +
  uo_read :: "int \<Rightarrow> nat \<Rightarrow> 'd \<Rightarrow> (errno + bytes) \<times> 'd"
  uo_write :: "int \<Rightarrow> bytes \<Rightarrow> 'd \<Rightarrow> int \<times> 'd"
  uo_poll :: "int \<Rightarrow> int \<Rightarrow> 'd \<Rightarrow> (int \<times> errno \<times> bool) \<times> 'd"
  uo_fionread :: "int \<Rightarrow> 'd \<Rightarrow> (int \<times> int) \<times> 'd"
  uo_get_dtr :: "int \<Rightarrow> 'd \<Rightarrow> (int \<times> int) \<times> 'd"
  uo_send_break :: "int \<Rightarrow> 'd \<Rightarrow> int \<times> 'd"
  uo_set_config :: "int \<Rightarrow> uart_configure \<Rightarrow> 'd \<Rightarrow> int \<times> 'd"
  uo_get_config :: "int \<Rightarrow> 'd \<Rightarrow> (int \<times> uart_configure) \<times> 'd"
  uo_find :: "string \<Rightarrow> 'd \<Rightarrow> bool \<times> 'd"
  uo_ctl_get :: "string \<Rightarrow> 'd \<Rightarrow> (int \<times> uart_configure) \<times> 'd"
  uo_ctl_set :: "string \<Rightarrow> uart_configure \<Rightarrow> 'd \<Rightarrow> int \<times> 'd"

record 'd uart = "(drv_uart_inst, 'd) hal" +
  ua_state :: "bool list"

definition uart_flag :: "int \<Rightarrow> (('d, 'z) uart_scheme, bool) prog" where
  "uart_flag i s = (if 0 \<le> i \<and> nat i < length (ua_state s) then (Ret (ua_state s ! nat i), s) else (Fault, s))"

definition set_uart_flag :: "int \<Rightarrow> bool \<Rightarrow> (('d, 'z) uart_scheme, unit) prog" where
  "set_uart_flag i v s =
     (if 0 \<le> i \<and> nat i < length (ua_state s) then (Ret (), s\<lparr>ua_state := (ua_state s)[nat i := v]\<rparr>) else (Fault, s))"

definition uart_port :: "int \<Rightarrow> bool" where
  "uart_port i \<longleftrightarrow> 0 \<le> i \<and> i < KD_HARD_UART_MAX_NUM"

section \<open>Instances\<close>

text \<open>
  The argument is the caller's pointer \<open>*inst\<close>, the result its new value. A null \<open>inst\<close> is treated as a null \<open>*inst\<close>.
\<close>

definition drv_uart_inst_destroy :: "'d uart_os \<Rightarrow> nat option \<Rightarrow> (('d, 'z) uart_scheme, nat option) prog" where
  "drv_uart_inst_destroy os inst =
     (case inst of None \<Rightarrow> sret None
      | Some a \<Rightarrow> sbind (hinst a) (\<lambda>i.
          if \<not> ui_base_ok i then sret (Some a)
          else
            sbind (if 0 \<le> ui_fd i then hclose os (ui_fd i) else sret ()) (\<lambda>_.
            sbind (if uart_port (ui_id i) then set_uart_flag (ui_id i) False else sret ()) (\<lambda>_.
            sbind (hfree a) (\<lambda>_. sret None)))))"

text \<open>The part of \<open>_drv_uart_inst_create\<close> from the \<open>open\<close> on, for a port number or \<open>-1\<close>.\<close>

definition uart_open_inst :: "'d uart_os \<Rightarrow> int \<Rightarrow> string \<Rightarrow> (('d, 'z) uart_scheme, int \<times> nat option) prog" where
  "uart_open_inst os i dev_name =
     sbind (hopen os dev_name) (\<lambda>fd.
     if fd < 0 then sret (-1, None)
     else
       sbind (hmalloc os) (\<lambda>ok.
       if \<not> ok then sbind (hclose os fd) (\<lambda>_. sret (-3, None))
       else
         sbind (hnew \<lparr>ui_base_ok = True, ui_id = i, ui_fd = fd\<rparr>) (\<lambda>a.
         sbind (if uart_port i then set_uart_flag i True else sret ()) (\<lambda>_.
         sret (0, Some a)))))"

text \<open>
  \<open>inst\<close> is null, or points to a pointer. The result is the value returned and the caller's pointer afterwards. The
  device name is cut to the 63 characters of the buffer.
\<close>

definition drv_uart_inst_create ::
    "'d uart_os \<Rightarrow> int \<Rightarrow> string option \<Rightarrow> nat option option \<Rightarrow> (('d, 'z) uart_scheme, int \<times> nat option) prog" where
  "drv_uart_inst_create os i dev inst =
     (case inst of None \<Rightarrow> sret (-1, None)
      | Some p \<Rightarrow>
        if dev = None \<and> KD_HARD_UART_MAX_NUM \<le> i then sret (-2, p)
        else
          sbind (if dev = None then uart_flag i else sret False) (\<lambda>_.
          let (i, dev_name) = (case dev of None \<Rightarrow> (i, ''/dev/uart'' @ decimal (nat i)) | Some d \<Rightarrow> (-1, take 63 d)) in
          sbind (if p \<noteq> None then drv_uart_inst_destroy os p else sret None) (\<lambda>_.
          uart_open_inst os i dev_name)))"

section \<open>Transfers\<close>

text \<open>The test at the head of every function: null, or a descriptor that is \<open>-1\<close>.\<close>

definition uart_inst :: "nat option \<Rightarrow> (('d, 'z) uart_scheme, drv_uart_inst option) prog" where
  "uart_inst inst =
     (case inst of None \<Rightarrow> sret None
      | Some a \<Rightarrow> sbind (hinst a) (\<lambda>i. sret (if ui_fd i = -1 then None else Some i)))"

definition drv_uart_read ::
    "'d uart_os \<Rightarrow> nat option \<Rightarrow> bytes option \<Rightarrow> u64 \<Rightarrow> (('d, 'z) uart_scheme, int \<times> bytes option) prog" where
  "drv_uart_read os inst buffer sz =
     sbind (uart_inst inst) (\<lambda>i.
     case (i, buffer) of
       (Some i, Some b) \<Rightarrow>
         if sz = 0 then sret (0, buffer)
         else sbind (hcall (uo_read os (ui_fd i) (unat sz))) (\<lambda>r.
           case r of Inl e \<Rightarrow> sret (-2, buffer)
           | Inr d \<Rightarrow> let d = take (unat sz) d in sbind (slift (wrn b 0 d)) (\<lambda>b. sret (int (length d), Some b)))
     | _ \<Rightarrow> sret (-1, buffer))"

definition drv_uart_write :: "'d uart_os \<Rightarrow> nat option \<Rightarrow> bytes option \<Rightarrow> u64 \<Rightarrow> (('d, 'z) uart_scheme, int) prog" where
  "drv_uart_write os inst buffer sz =
     sbind (uart_inst inst) (\<lambda>i.
     case (i, buffer) of
       (Some i, Some b) \<Rightarrow>
         if sz = 0 then sret 0
         else sbind (slift (rdn b 0 (unat sz))) (\<lambda>d.
           sbind (hcall (uo_write os (ui_fd i) d)) (\<lambda>n. if n < 0 then sret (-2) else sret n))
     | _ \<Rightarrow> sret (-1))"

text \<open>The error number of a failed \<open>poll\<close> is returned negated: \<open>Fail\<close>.\<close>

definition drv_uart_poll :: "'d uart_os \<Rightarrow> nat option \<Rightarrow> int \<Rightarrow> (('d, 'z) uart_scheme, int) prog" where
  "drv_uart_poll os inst timeout_ms =
     (case inst of None \<Rightarrow> sret (-1)
      | Some a \<Rightarrow> sbind (hinst a) (\<lambda>i.
          if ui_fd i < 0 then sret (-1)
          else sbind (hcall (uo_poll os (ui_fd i) timeout_ms)) (\<lambda>(n, e, error_event).
            if n < 0 then sfail e else if n > 0 \<and> error_event then sfail EIO else sret n)))"

definition drv_uart_recv_available :: "'d uart_os \<Rightarrow> nat option \<Rightarrow> (('d, 'z) uart_scheme, int) prog" where
  "drv_uart_recv_available os inst =
     sbind (uart_inst inst) (\<lambda>i. case i of None \<Rightarrow> sret (-1)
       | Some i \<Rightarrow> sbind (hcall (uo_fionread os (ui_fd i))) (\<lambda>(r, n). if r < 0 then sret (-2) else sret n))"

definition drv_uart_is_dtr_asserted :: "'d uart_os \<Rightarrow> nat option \<Rightarrow> (('d, 'z) uart_scheme, int) prog" where
  "drv_uart_is_dtr_asserted os inst =
     sbind (uart_inst inst) (\<lambda>i. case i of None \<Rightarrow> sret (-1)
       | Some i \<Rightarrow>
           if uart_port (ui_id i) then sret 1
           else sbind (hcall (uo_get_dtr os (ui_fd i))) (\<lambda>(r, dtr). if r < 0 then sret (-2) else sret dtr))"

definition drv_uart_send_break :: "'d uart_os \<Rightarrow> nat option \<Rightarrow> (('d, 'z) uart_scheme, int) prog" where
  "drv_uart_send_break os inst =
     sbind (uart_inst inst) (\<lambda>i. case i of None \<Rightarrow> sret (-1)
       | Some i \<Rightarrow> sbind (hcall (uo_send_break os (ui_fd i))) (\<lambda>r. if r < 0 then sret (-2) else sret 0))"

section \<open>Configuration\<close>

text \<open>The caller's structure is given with its content and comes back beside the value returned.\<close>

definition drv_uart_get_config ::
    "'d uart_os \<Rightarrow> nat option \<Rightarrow> uart_configure option \<Rightarrow> (('d, 'z) uart_scheme, int \<times> uart_configure option) prog" where
  "drv_uart_get_config os inst cfg =
     (if cfg = None then sret (-1, cfg)
      else sbind (uart_inst inst) (\<lambda>i. case i of None \<Rightarrow> sret (-1, cfg)
        | Some i \<Rightarrow> sbind (hcall (uo_get_config os (ui_fd i))) (\<lambda>(r, c). if r < 0 then sret (-2, cfg) else sret (0, Some c))))"

definition drv_uart_set_config ::
    "'d uart_os \<Rightarrow> nat option \<Rightarrow> uart_configure option \<Rightarrow> uart_configure \<Rightarrow>
      (('d, 'z) uart_scheme, int \<times> uart_configure option) prog" where
  "drv_uart_set_config os inst cfg stk =
     sbind (uart_inst inst) (\<lambda>i.
     case (i, cfg) of
       (Some i, Some c) \<Rightarrow>
         sbind (drv_uart_get_config os inst (Some stk)) (\<lambda>(r, curr).
         if r \<noteq> 0 then sret (-2, cfg)
         else
           let c = c\<lparr>uc_bufsz := uc_bufsz (the curr)\<rparr> in
           sbind (hcall (uo_set_config os (ui_fd i) c)) (\<lambda>r. if r < 0 then sret (-2, Some c) else sret (0, Some c)))
     | _ \<Rightarrow> sret (-1, cfg))"

definition drv_uart_configure_buffer_size :: "'d uart_os \<Rightarrow> int \<Rightarrow> u16 \<Rightarrow> (('d, 'z) uart_scheme, int) prog" where
  "drv_uart_configure_buffer_size os i sz =
     (if KD_HARD_UART_MAX_NUM \<le> i then sret (-1)
      else sbind (uart_flag i) (\<lambda>used.
        if used then sret (-1)
        else
          let dev_name = ''uart'' @ decimal (nat i) in
          sbind (hcall (uo_find os dev_name)) (\<lambda>found.
          if \<not> found then sret (-2)
          else sbind (hcall (uo_ctl_get os dev_name)) (\<lambda>(r, cfg).
            if r \<noteq> 0 then sret (-2)
            else sbind (hcall (uo_ctl_set os dev_name (cfg\<lparr>uc_bufsz := sz\<rparr>))) (\<lambda>r.
              if r \<noteq> 0 then sret (-2) else sret 0)))))"

text \<open>The attribute getters; \<open>-1\<close> for a null pointer.\<close>

definition drv_uart_get_id :: "nat option \<Rightarrow> (('d, 'z) uart_scheme, int) prog" where
  "drv_uart_get_id inst = (case inst of None \<Rightarrow> sret (-1) | Some a \<Rightarrow> sbind (hinst a) (\<lambda>i. sret (ui_id i)))"

definition drv_uart_get_fd :: "nat option \<Rightarrow> (('d, 'z) uart_scheme, int) prog" where
  "drv_uart_get_fd inst = (case inst of None \<Rightarrow> sret (-1) | Some a \<Rightarrow> sbind (hinst a) (\<lambda>i. sret (ui_fd i)))"

section \<open>Invariant\<close>

text \<open>
  The descriptors are owned, the table has five entries, the instances carry the driver's tag, and a port that is marked as in
  use has an instance.
\<close>

definition uart_served :: "(nat \<Rightarrow> drv_uart_inst option) \<Rightarrow> nat \<Rightarrow> bool" where
  "uart_served h k \<longleftrightarrow> (\<exists>a i. h a = Some i \<and> ui_id i = int k)"

definition uart_ok :: "(nat \<Rightarrow> drv_uart_inst option) \<Rightarrow> bool list \<Rightarrow> bool" where
  "uart_ok h st \<longleftrightarrow> length st = 5 \<and> (\<forall>i \<in> ran h. ui_base_ok i) \<and> (\<forall>k < 5. st ! k \<longrightarrow> uart_served h k)"

abbreviation uart_R :: "('d, 'z) uart_scheme \<Rightarrow> bool" where
  "uart_R s \<equiv> uart_ok (hal_heap s) (ua_state s)"

abbreviation uart_st :: "int set \<Rightarrow> nat set \<Rightarrow> ('d, 'z) uart_scheme \<Rightarrow> bool" where
  "uart_st \<equiv> hal_st ui_fd uart_R"

lemma ua_state_more: "hal.more s' = hal.more s \<Longrightarrow> ua_state s' = ua_state s" for s s' :: "('d, 'z) uart_scheme"
  by (cases s; cases s') simp

lemma uart_more: "hal.more s' = hal.more s \<Longrightarrow> uart.more s' = uart.more s" for s s' :: "('d, 'z) uart_scheme"
  by (cases s; cases s') simp

interpretation uart: driver_state ui_fd uart_R
  by unfold_locales (metis same_inst_def ua_state_more)

lemma swp_uart_flag: "0 \<le> i \<Longrightarrow> nat i < length (ua_state s) \<Longrightarrow> Q (ua_state s ! nat i) s \<Longrightarrow> swp (uart_flag i) Q E s"
  by (simp add: swp_def uart_flag_def)

lemma swp_set_uart_flag:
  "0 \<le> i \<Longrightarrow> nat i < length (ua_state s) \<Longrightarrow> Q () (s\<lparr>ua_state := (ua_state s)[nat i := v]\<rparr>) \<Longrightarrow> swp (set_uart_flag i v) Q E s"
  by (simp add: swp_def set_uart_flag_def)

lemma hal_inv_ua_state [simp]: "hal_inv fd_of X Y (s\<lparr>ua_state := st\<rparr>) = hal_inv fd_of X Y s"
  by (rule hal_inv_cong) simp_all

lemma uart_served_new: "h a = None \<Longrightarrow> uart_served h k \<or> ui_id i = int k \<Longrightarrow> uart_served (h(a \<mapsto> i)) k"
  unfolding uart_served_def by (metis fun_upd_apply option.distinct(1))

lemma uart_served_del: "h a = Some i \<Longrightarrow> uart_served h k \<Longrightarrow> ui_id i \<noteq> int k \<Longrightarrow> uart_served (h(a := None)) k"
  unfolding uart_served_def by (metis fun_upd_apply option.inject)

lemma nth_flag: "nat j \<noteq> k \<Longrightarrow> st[nat j := v] ! k = st ! k"
  by simp

lemma uart_ok_new:
  assumes "uart_ok h st" and "h a = None" and "ui_base_ok i"
  shows "uart_ok (h(a \<mapsto> i)) (if uart_port (ui_id i) then st[nat (ui_id i) := True] else st)"
proof -
  have "(if uart_port (ui_id i) then st[nat (ui_id i) := True] else st) ! k \<Longrightarrow> st ! k \<or> ui_id i = int k" for k
    by (cases "nat (ui_id i) = k") (auto simp: uart_port_def split: if_splits)
  then have "uart_served (h(a \<mapsto> i)) k"
    if "(if uart_port (ui_id i) then st[nat (ui_id i) := True] else st) ! k" "k < 5" for k
    using that assms by (intro uart_served_new) (auto simp: uart_ok_def)
  then show ?thesis using assms by (auto simp: uart_ok_def)
qed

lemma uart_ok_del:
  assumes "uart_ok h st" and "h a = Some i"
  shows "uart_ok (h(a := None)) (if uart_port (ui_id i) then st[nat (ui_id i) := False] else st)"
proof -
  have "st ! k \<and> ui_id i \<noteq> int k"
    if "(if uart_port (ui_id i) then st[nat (ui_id i) := False] else st) ! k" "k < 5" for k
    using that assms(1) by (cases "nat (ui_id i) = k") (auto simp: uart_port_def uart_ok_def KD_HARD_UART_MAX_NUM_def split: if_splits)
  then have "uart_served (h(a := None)) k"
    if "(if uart_port (ui_id i) then st[nat (ui_id i) := False] else st) ! k" "k < 5" for k
    using that assms by (intro uart_served_del [where h = h and a = a and i = i]) (auto simp: uart_ok_def)
  moreover have "ran (h(a := None)) \<subseteq> ran h" by (auto simp: ran_def)
  ultimately show ?thesis using assms by (auto simp: uart_ok_def)
qed

lemma hal_st_flags: "hal_inv ui_fd X Y s \<Longrightarrow> uart_ok (hal_heap s) st \<Longrightarrow> uart_st X Y (s\<lparr>ua_state := st\<rparr>)"
  by (simp add: hal_st_def)

lemma uart_port_index: "uart_port i \<Longrightarrow> length st = 5 \<Longrightarrow> 0 \<le> i \<and> nat i < length st"
  by (auto simp: uart_port_def KD_HARD_UART_MAX_NUM_def)

lemma uart_ok_length: "uart_ok h st \<Longrightarrow> length st = 5"
  by (simp add: uart_ok_def)

text \<open>Marking the port after the instance has been entered, or before it is freed.\<close>

lemma swp_mark:
  assumes "length (ua_state s) = 5" and "Q () (s\<lparr>ua_state := (if uart_port i then (ua_state s)[nat i := v] else ua_state s)\<rparr>)"
  shows "swp (if uart_port i then set_uart_flag i v else sret ()) Q E s"
  using assms uart_port_index [of i "ua_state s"] by (auto intro!: swp_set_uart_flag)

lemma uart_destroy_inv:
  assumes s: "uart_st {} {} s" and p: "live_ptr s inst"
    and post: "\<And>s'. uart_st {} {} s' \<Longrightarrow> hal_heap s' = (case inst of None \<Rightarrow> hal_heap s | Some a \<Rightarrow> (hal_heap s)(a := None)) \<Longrightarrow>
      uart.more s' = uart.more s \<Longrightarrow> Q None s'"
  shows "swp (drv_uart_inst_destroy os inst) Q E s"
proof (cases inst)
  case (Some a)
  show ?thesis unfolding drv_uart_inst_destroy_def Some option.case swp_simps
  proof (rule uart.st_inst [OF s], goal_cases)
    case (2 i)
    then have base: "ui_base_ok i" and fd: "0 \<le> ui_fd i" using uart.st_fd [OF s] by (auto simp: uart_ok_def ran_def)
    have "swp (hclose os (ui_fd i)) (\<lambda>_. swp (if uart_port (ui_id i) then set_uart_flag (ui_id i) False else sret ())
        (\<lambda>_. swp (hfree a) (\<lambda>_. Q None) E) E) E s"
    proof (rule uart.st_close_owned [OF s 2(1)], goal_cases)
      case (2 s1)
      then have h: "hal_heap s1 a = Some i" "hal_heap s1 = hal_heap s" using \<open>hal_heap s a = Some i\<close> by (simp_all add: same_inst_def)
      have ok: "uart_ok (hal_heap s1) (ua_state s1)" "hal_inv ui_fd {} {a} s1" "uart.more s1 = uart.more s"
        using 2 uart_more [of s1 s] by (simp_all add: hal_st_def same_inst_def)
      show ?case
      proof (rule swp_mark [OF uart_ok_length [OF ok(1)]], rule swp_hfree [where fd_of = ui_fd and Y = "{a}" and X = "{}" and i = i], goal_cases)
        case (4 s3)
        then show ?case
          using uart_ok_del [OF ok(1) h(1)] ua_state_more [OF 4(3)] uart_more [OF 4(3)] ok(3) Some h(2) by (intro post) (simp_all add: hal_st_def)
      qed (use h ok in simp_all)
    qed simp
    then show ?case using base fd by simp
  qed (use p Some in simp)
qed (use s post in \<open>simp add: drv_uart_inst_destroy_def\<close>)

lemma open_inst_inv:
  assumes os: "os_files_ok os" and s: "uart_st {} {} s"
    and bad: "\<And>r s'. r \<noteq> 0 \<Longrightarrow> uart_st {} {} s' \<Longrightarrow> hal_heap s' = hal_heap s \<Longrightarrow> uart.more s' = uart.more s \<Longrightarrow> Q (r, None) s'"
    and good: "\<And>fd a s'. uart_st {} {} s' \<Longrightarrow> hal_heap s a = None \<Longrightarrow>
      hal_heap s' = (hal_heap s)(a \<mapsto> \<lparr>ui_base_ok = True, ui_id = i, ui_fd = fd\<rparr>) \<Longrightarrow> uart.more s' = uart.more s \<Longrightarrow> Q (0, Some a) s'"
  shows "swp (uart_open_inst os i path) Q E s"
  unfolding uart_open_inst_def swp_simps
proof (rule uart.st_open [OF os s], goal_cases)
  case (1 fd s1)
  then show ?case using bad [of "-1" s1] uart_more [of s1 s] by (simp add: same_inst_def)
next
  case (2 fd s1)
  then have fd: "\<not> fd < 0" by simp
  show ?case unfolding if_not_P [OF fd] swp_simps
  proof (rule uart.st_malloc [OF 2(3)], goal_cases)
    case (1 ok s2)
    have h: "hal_heap s2 = hal_heap s" "uart.more s2 = uart.more s"
      using same_inst_trans [OF 2(4) 1(2)] uart_more [of s2 s] by (simp_all add: same_inst_def)
    show ?case
    proof (cases ok)
      case True
      let ?i = "\<lparr>ui_base_ok = True, ui_id = i, ui_fd = fd\<rparr>"
      have "swp (hnew ?i) (\<lambda>a. swp (if uart_port i then set_uart_flag i True else sret ()) (\<lambda>_. Q (0, Some a)) E) E s2"
      proof (rule uart.st_new [OF 1(1)], goal_cases)
        case (2 s3)
        have st: "ua_state s3 = ua_state s2" "uart.more s3 = uart.more s2" using 2(5) by (rule ua_state_more, rule uart_more)
        have "uart_ok (hal_heap s3) (if uart_port i then (ua_state s3)[nat i := True] else ua_state s3)"
          using uart_ok_new [OF 2(3,2), of ?i] 2(4) st(1) by (simp cong: if_cong)
        then show ?case
          using uart_ok_length [OF 2(3)] st 2 h by (intro swp_mark good hal_st_flags) simp_all
      qed simp
      then show ?thesis using True by simp
    next
      case False
      have "swp (hclose os fd) (\<lambda>_. Q (-3, None)) E s2"
      proof (rule uart.st_close [OF 1(1)], goal_cases)
        case (2 s3)
        then show ?case using bad [of "-3" s3] uart_more [of s3 s2] h by (simp add: same_inst_def)
      qed simp
      then show ?thesis using False by simp
    qed
  qed
qed

lemma uart_create_inv:
  assumes os: "os_files_ok os" and s: "uart_st {} {} s" and p: "\<forall>p. inst = Some p \<longrightarrow> live_ptr s p" and i: "dev = None \<longrightarrow> 0 \<le> i"
  shows "swp (drv_uart_inst_create os i dev inst) (\<lambda>_. uart_st {} {}) E s"
proof (cases inst)
  case (Some q)
  show ?thesis
  proof (cases "dev = None \<and> KD_HARD_UART_MAX_NUM \<le> i")
    case False
    define nm where "nm = (case dev of None \<Rightarrow> (i, ''/dev/uart'' @ decimal (nat i)) | Some d \<Rightarrow> (-1, take 63 d))"
    have len: "length (ua_state s) = 5" using s by (simp add: hal_st_def uart_ok_def)
    have flag: "swp (if dev = None then uart_flag i else sret False) (\<lambda>_. K) E s" if "K s" for K
      using that i len False by (auto intro!: swp_uart_flag simp: KD_HARD_UART_MAX_NUM_def)
    have old: "swp (if q \<noteq> None then drv_uart_inst_destroy os q else sret None) (\<lambda>_. K) E s" if "\<And>s'. uart_st {} {} s' \<Longrightarrow> K s'" for K
      using that s p Some by (auto intro!: uart_destroy_inv)
    show ?thesis
      unfolding drv_uart_inst_create_def Some option.case if_not_P [OF False] nm_def [symmetric] Let_def case_prod_beta swp_simps
      by (intro flag old open_inst_inv [OF os])
  qed (use s Some in \<open>simp add: drv_uart_inst_create_def\<close>)
qed (use s in \<open>simp add: drv_uart_inst_create_def\<close>)

lemma uart_st_length: "uart_st X Y s \<Longrightarrow> length (ua_state s) = 5"
  by (simp add: hal_st_def uart_ok_def)

lemma swp_uart_inst:
  assumes "uart_st {} {} s" and "live_ptr s inst" and "\<And>i. Q i s"
  shows "swp (uart_inst inst) Q E s"
  using assms by (cases inst) (auto simp: uart_inst_def intro!: uart.st_inst)

text \<open>A request to the kernel, in a state of the driver.\<close>

lemma swp_request:
  assumes "uart_st {} {} s" and "\<And>a s'. uart_st {} {} s' \<Longrightarrow> same_inst s s' \<Longrightarrow> Q a s'"
  shows "swp (hcall f) Q E s"
  using assms by (rule uart.st_call)

lemma get_config_inv:
  assumes "uart_st {} {} s" and "live_ptr s inst"
    and "\<And>r c s'. uart_st {} {} s' \<Longrightarrow> same_inst s s' \<Longrightarrow> (r = 0 \<longrightarrow> c \<noteq> None) \<Longrightarrow> Q (r, c) s'"
  shows "swp (drv_uart_get_config os inst cfg) Q E s"
proof (cases cfg)
  case (Some c)
  then show ?thesis
    using assms unfolding drv_uart_get_config_def
    by (auto intro!: swp_uart_inst swp_request split: option.split)
qed (use assms in \<open>simp add: drv_uart_get_config_def\<close>)

section \<open>Runs\<close>

datatype uart_op =
    UCreate int "string option" "nat option option"
  | UDestroy "nat option"
  | URead "nat option" "bytes option" u64
  | UWrite "nat option" "bytes option" u64
  | UPoll "nat option" int
  | UAvailable "nat option"
  | UDtr "nat option"
  | UBreak "nat option"
  | UGetConfig "nat option" "uart_configure option"
  | USetConfig "nat option" "uart_configure option" uart_configure
  | UBufferSize int u16

fun uart_exec :: "'d uart_os \<Rightarrow> uart_op \<Rightarrow> ('d uart, unit) prog" where
  "uart_exec os (UCreate i dev inst) = sdone (drv_uart_inst_create os i dev inst)"
| "uart_exec os (UDestroy inst) = sdone (drv_uart_inst_destroy os inst)"
| "uart_exec os (URead inst b n) = sdone (drv_uart_read os inst b n)"
| "uart_exec os (UWrite inst b n) = sdone (drv_uart_write os inst b n)"
| "uart_exec os (UPoll inst t) = sdone (drv_uart_poll os inst t)"
| "uart_exec os (UAvailable inst) = sdone (drv_uart_recv_available os inst)"
| "uart_exec os (UDtr inst) = sdone (drv_uart_is_dtr_asserted os inst)"
| "uart_exec os (UBreak inst) = sdone (drv_uart_send_break os inst)"
| "uart_exec os (UGetConfig inst c) = sdone (drv_uart_get_config os inst c)"
| "uart_exec os (USetConfig inst c stk) = sdone (drv_uart_set_config os inst c stk)"
| "uart_exec os (UBufferSize i n) = sdone (drv_uart_configure_buffer_size os i n)"

text \<open>
  What a client has to respect: a pointer is null or a live instance, a buffer holds the size that is passed with it, and a port number is not
  negative.
\<close>

fun uart_valid :: "'d uart \<Rightarrow> uart_op \<Rightarrow> bool" where
  "uart_valid s (UCreate i dev inst) = ((dev = None \<longrightarrow> 0 \<le> i) \<and> (case inst of None \<Rightarrow> True | Some p \<Rightarrow> live_ptr s p))"
| "uart_valid s (UDestroy inst) = live_ptr s inst"
| "uart_valid s (URead inst b n) = (live_ptr s inst \<and> (case b of None \<Rightarrow> True | Some b \<Rightarrow> unat n \<le> length b))"
| "uart_valid s (UWrite inst b n) = (live_ptr s inst \<and> (case b of None \<Rightarrow> True | Some b \<Rightarrow> unat n \<le> length b))"
| "uart_valid s (UPoll inst t) = live_ptr s inst"
| "uart_valid s (UAvailable inst) = live_ptr s inst"
| "uart_valid s (UDtr inst) = live_ptr s inst"
| "uart_valid s (UBreak inst) = live_ptr s inst"
| "uart_valid s (UGetConfig inst c) = live_ptr s inst"
| "uart_valid s (USetConfig inst c stk) = live_ptr s inst"
| "uart_valid s (UBufferSize i n) = (0 \<le> i)"

definition uart_start :: "'d \<Rightarrow> 'd uart" where
  "uart_start d = \<lparr>hal_heap = Map.empty, hal_next = 0, hal_fds = {}, hal_dev = d, ua_state = replicate 5 False\<rparr>"

lemma uart_start_st: "uart_st {} {} (uart_start d)"
  by (simp add: hal_st_def hal_inv_empty uart_ok_def uart_start_def)

lemma read_inv:
  assumes "uart_st {} {} s" and "live_ptr s inst" and "case b of None \<Rightarrow> True | Some b \<Rightarrow> unat n \<le> length b"
  shows "swp (drv_uart_read os inst b n) (\<lambda>_. uart_st {} {}) (\<lambda>_. uart_st {} {}) s"
proof -
  have w: "unat n \<le> length c \<Longrightarrow> wrn c 0 (take (unat n) d) \<noteq> Fault \<and> (\<forall>e. wrn c 0 (take (unat n) d) \<noteq> Fail e)" for c d
    by (auto simp: wrn_def)
  show ?thesis
    using assms w unfolding drv_uart_read_def
    by (auto simp: Let_def intro!: swp_uart_inst swp_request split: option.splits sum.splits cres.splits)
qed

lemma write_inv:
  assumes "uart_st {} {} s" and "live_ptr s inst" and "case b of None \<Rightarrow> True | Some b \<Rightarrow> unat n \<le> length b"
  shows "swp (drv_uart_write os inst b n) (\<lambda>_. uart_st {} {}) (\<lambda>_. uart_st {} {}) s"
  using assms unfolding drv_uart_write_def
  by (auto simp: rdn_def intro!: swp_uart_inst swp_request split: option.splits)

lemma request_invs:
  assumes s: "uart_st {} {} s" and p: "live_ptr s inst"
  shows "swp (drv_uart_poll os inst t) (\<lambda>_. uart_st {} {}) (\<lambda>_. uart_st {} {}) s"
    and "swp (drv_uart_recv_available os inst) (\<lambda>_. uart_st {} {}) (\<lambda>_. uart_st {} {}) s"
    and "swp (drv_uart_is_dtr_asserted os inst) (\<lambda>_. uart_st {} {}) (\<lambda>_. uart_st {} {}) s"
    and "swp (drv_uart_send_break os inst) (\<lambda>_. uart_st {} {}) (\<lambda>_. uart_st {} {}) s"
proof -
  show "swp (drv_uart_poll os inst t) (\<lambda>_. uart_st {} {}) (\<lambda>_. uart_st {} {}) s"
    using s p by (cases inst) (auto simp: drv_uart_poll_def intro!: uart.st_inst swp_request)
  show "swp (drv_uart_recv_available os inst) (\<lambda>_. uart_st {} {}) (\<lambda>_. uart_st {} {}) s"
    using s p unfolding drv_uart_recv_available_def by (auto intro!: swp_uart_inst swp_request split: option.splits)
  show "swp (drv_uart_is_dtr_asserted os inst) (\<lambda>_. uart_st {} {}) (\<lambda>_. uart_st {} {}) s"
    using s p unfolding drv_uart_is_dtr_asserted_def by (auto intro!: swp_uart_inst swp_request split: option.splits)
  show "swp (drv_uart_send_break os inst) (\<lambda>_. uart_st {} {}) (\<lambda>_. uart_st {} {}) s"
    using s p unfolding drv_uart_send_break_def by (auto intro!: swp_uart_inst swp_request split: option.splits)
qed

lemma set_config_inv:
  assumes s: "uart_st {} {} s" and p: "live_ptr s inst"
  shows "swp (drv_uart_set_config os inst c stk) (\<lambda>_. uart_st {} {}) (\<lambda>_. uart_st {} {}) s"
  using s p unfolding drv_uart_set_config_def
  by (auto simp: Let_def intro!: swp_uart_inst get_config_inv swp_request split: option.splits)

lemma buffer_size_inv:
  assumes s: "uart_st {} {} s" and "0 \<le> i"
  shows "swp (drv_uart_configure_buffer_size os i n) (\<lambda>_. uart_st {} {}) (\<lambda>_. uart_st {} {}) s"
  using s assms(2) uart_st_length [OF s] unfolding drv_uart_configure_buffer_size_def
  by (auto simp: Let_def KD_HARD_UART_MAX_NUM_def intro!: swp_uart_flag swp_request)

lemma uart_exec_inv:
  assumes "os_files_ok os" and "uart_st {} {} s" and "uart_valid s op"
  shows "swp (uart_exec os op) (\<lambda>_. uart_st {} {}) (\<lambda>_. uart_st {} {}) s"
  using assms
  by (cases op) (auto simp: sdone_def intro!: uart_create_inv uart_destroy_inv read_inv write_inv request_invs get_config_inv set_config_inv buffer_size_inv
      split: option.splits)

interpretation uart_runs: instance_driver uart_exec uart_valid os_files_ok "uart_st {} {}" ui_fd "\<lambda>_. {}"
  by unfold_locales (auto simp: hal_st_def intro!: uart_exec_inv)

lemma uart_flag_served:
  "uart_st {} {} s \<Longrightarrow> uart_flag k s = (Ret True, s) \<Longrightarrow> \<exists>a i. hal_heap s a = Some i \<and> ui_id i = k"
  by (fastforce simp: hal_st_def uart_ok_def uart_flag_def uart_served_def split: if_splits)

section \<open>Properties\<close>

definition sample_uart_cfg :: uart_configure where
  "sample_uart_cfg = \<lparr>uc_baud_rate = 115200, uc_data_bits = 8, uc_stop_bits = 0, uc_parity = 0, uc_bit_order = 0, uc_invert = 0,
     uc_bufsz = 4096, uc_reserved = 0\<rparr>"

text \<open>A kernel whose state is the next descriptor; every request succeeds.\<close>

definition sample_uart_os :: "nat uart_os" where
  "sample_uart_os = \<lparr>os_open = \<lambda>path fds d. (if int d \<in> fds then -1 else int d, d + 1), os_close = \<lambda>fd d. d, os_malloc = \<lambda>d. (True, d),
     uo_read = \<lambda>fd n d. (Inr [], d), uo_write = \<lambda>fd b d. (int (length b), d), uo_poll = \<lambda>fd t d. ((0, EIO, False), d),
     uo_fionread = \<lambda>fd d. ((0, 0), d), uo_get_dtr = \<lambda>fd d. ((0, 1), d), uo_send_break = \<lambda>fd d. (0, d),
     uo_set_config = \<lambda>fd c d. (0, d), uo_get_config = \<lambda>fd d. ((0, sample_uart_cfg), d),
     uo_find = \<lambda>n d. (True, d), uo_ctl_get = \<lambda>n d. ((0, sample_uart_cfg), d), uo_ctl_set = \<lambda>n c d. (0, d)\<rparr>"

lemma sample_uart_os_ok: "os_files_ok sample_uart_os"
  by (auto simp: os_files_ok_def sample_uart_os_def split: if_splits)

lemmas uart_eval = sample_uart_os_def uart_start_def drv_uart_inst_create_def uart_open_inst_def drv_uart_inst_destroy_def
  drv_uart_configure_buffer_size_def uart_flag_def set_uart_flag_def uart_port_def KD_HARD_UART_MAX_NUM_def hal_call_defs sprog_defs sdone_def

definition sample_uart :: "nat uart" where
  "sample_uart = \<lparr>hal_heap = [0 \<mapsto> \<lparr>ui_base_ok = True, ui_id = 1, ui_fd = 3\<rparr>], hal_next = 1, hal_fds = {3}, hal_dev = 4,
     ua_state = [False, True, False, False, False]\<rparr>"

lemma sample_uart_reach: "reach (uart_exec sample_uart_os) uart_valid (uart_start 3) sample_uart"
proof (rule reach.step [OF reach.start])
  show "uart_valid (uart_start 3) (UCreate 1 None (Some None))" by (simp add: live_ptr_def)
  show "uart_exec sample_uart_os (UCreate 1 None (Some None)) (uart_start 3) = (Ret (), sample_uart)"
    by (simp add: uart_eval sample_uart_def eval_nat_numeral del: decimal.simps)
qed

text \<open>C23. Whatever calls a client makes, as long as the pointers it passes are null or live and its port numbers are not negative: no
  call of the UART driver touches freed memory or leaves its table, every open descriptor belongs to exactly one live instance, and
  a port that is marked as in use has an instance.
\<close>

theorem uart_descriptors_owned:
  assumes "os_files_ok os" and "reach (uart_exec os) uart_valid (uart_start d) s"
  shows "(uart_valid s op \<longrightarrow> fst (uart_exec os op s) \<noteq> Fault) \<and>
    (fd \<in> hal_fds s \<longleftrightarrow> (\<exists>!a. \<exists>i. hal_heap s a = Some i \<and> ui_fd i = fd)) \<and>
    (uart_flag k s = (Ret True, s) \<longrightarrow> (\<exists>a i. hal_heap s a = Some i \<and> ui_id i = k))"
  using uart_runs.no_fault [OF assms(2,1) uart_start_st] uart_runs.one_owner [OF assms(2,1) uart_start_st, simplified]
    uart_flag_served [OF uart_runs.reach_inv [OF assms(2,1) uart_start_st]] by blast

theorem uart_descriptors_owned_witness:
  "fst (uart_exec sample_uart_os (UDestroy (Some 0)) sample_uart) \<noteq> Fault \<and>
   (\<exists>!a. \<exists>i. hal_heap sample_uart a = Some i \<and> ui_fd i = 3) \<and> (\<exists>a i. hal_heap sample_uart a = Some i \<and> ui_id i = 1)"
  using uart_descriptors_owned [OF sample_uart_os_ok sample_uart_reach, of "UDestroy (Some 0)" 3 1]
  by (simp add: sample_uart_def live_ptr_def uart_flag_def)

text \<open>Two instances can share a port (creating the second one only prints a warning), and destroying one of them clears the mark of the port. The size of
  the receive buffer, which must not change while the device is open, can then be changed although the other instance is still open.
\<close>

theorem uart_mark_lost:
  assumes "uart_st {} {} s" and "hal_heap s a = Some i" and "hal_heap s b = Some j" and "a \<noteq> b"
    and "ui_id i = ui_id j" and "uart_port (ui_id j)"
  shows "\<exists>s'. drv_uart_inst_destroy os (Some a) s = (Ret None, s') \<and> hal_heap s' b = Some j \<and> ui_fd j \<in> hal_fds s' \<and>
    fst (drv_uart_configure_buffer_size os (ui_id j) n s') \<noteq> Ret (-1)"
proof -
  have inv: "hal_inv ui_fd {} {} s" and ok: "uart_ok (hal_heap s) (ua_state s)" using assms(1) by (simp_all add: hal_st_def)
  have i: "ui_base_ok i" "0 \<le> ui_fd i" using ok assms(2) uart.st_fd [OF assms(1,2)] by (auto simp: uart_ok_def ran_def)
  have port: "0 \<le> ui_id j" "ui_id j < 5" "nat (ui_id j) < length (ua_state s)"
    using assms(6) uart_ok_length [OF ok] by (auto simp: uart_port_def KD_HARD_UART_MAX_NUM_def)
  have fd: "ui_fd j \<noteq> ui_fd i" "ui_fd j \<in> hal_fds s" using hal_inv_own(2) [OF inv assms(3,2,4)] hal_inv_own(1) [OF inv assms(3)] by simp_all
  let ?s = "s\<lparr>hal_dev := os_close os (ui_fd i) (hal_dev s), hal_fds := hal_fds s - {ui_fd i},
      ua_state := (ua_state s)[nat (ui_id j) := False], hal_heap := (hal_heap s)(a := None)\<rparr>"
  have "drv_uart_inst_destroy os (Some a) s = (Ret None, ?s)"
    using i port assms(2,5,6)
    by (simp add: drv_uart_inst_destroy_def set_uart_flag_def hal_call_defs sprog_defs)
  moreover have "fst (drv_uart_configure_buffer_size os (ui_id j) n ?s) \<noteq> Ret (-1)"
    using port by (auto simp: drv_uart_configure_buffer_size_def uart_flag_def KD_HARD_UART_MAX_NUM_def hcall_def sprog_defs Let_def
        split: prod.splits)
  ultimately show ?thesis using assms(3,4) fd by auto
qed

definition sample_shared_port :: "nat uart" where
  "sample_shared_port = \<lparr>hal_heap = [0 \<mapsto> \<lparr>ui_base_ok = True, ui_id = 1, ui_fd = 3\<rparr>, 1 \<mapsto> \<lparr>ui_base_ok = True, ui_id = 1, ui_fd = 4\<rparr>],
     hal_next = 2, hal_fds = {3, 4}, hal_dev = 5, ua_state = [False, True, False, False, False]\<rparr>"

lemma sample_shared_port_st: "uart_st {} {} sample_shared_port"
  by (auto simp: hal_st_def hal_inv_def uart_ok_def sample_shared_port_def owns_def dom_def ran_def inj_on_def uart_served_def
      less_Suc_eq eval_nat_numeral split: if_splits)

theorem uart_mark_lost_witness:
  "\<exists>s'. drv_uart_inst_destroy sample_uart_os (Some 0) sample_shared_port = (Ret None, s') \<and> hal_heap s' 1 = Some \<lparr>ui_base_ok = True, ui_id = 1, ui_fd = 4\<rparr> \<and>
    4 \<in> hal_fds s' \<and> fst (drv_uart_configure_buffer_size sample_uart_os 1 64 s') \<noteq> Ret (-1)"
  using uart_mark_lost [OF sample_shared_port_st, of 0 _ 1 "\<lparr>ui_base_ok = True, ui_id = 1, ui_fd = 4\<rparr>" sample_uart_os 64]
  by (simp add: sample_shared_port_def uart_port_def KD_HARD_UART_MAX_NUM_def)

text \<open>A negative port number passes the range check and is used as an index.\<close>

lemma uart_negative_port: "i < 0 \<Longrightarrow> drv_uart_inst_create os i None (Some p) s = (Fault, s)"
  by (simp add: drv_uart_inst_create_def uart_flag_def sbind_def KD_HARD_UART_MAX_NUM_def)

end
