(* ===== verification/Sbus_Uart.thy ===== *)
theory Sbus_Uart
  imports Sbus Uart
begin

text \<open>
  The SBUS device above the UART driver (\<open>sbus_create\<close>, \<open>sbus_destroy\<close>, \<open>sbus_send_frame\<close> of
  \<open>rtsmart_hal/drivers/sbus/drv_sbus.c\<close>): a device is allocated with its UART instance, whose configuration is fixed; frames are handed to
  \<open>drv_uart_write\<close>.
\<close>

section \<open>State\<close>

text \<open>The devices on the heap, each with its pointer \<open>uart_inst\<close>.\<close>

record 'd sbus_sys = "'d uart" +
  ss_devs :: "nat \<Rightarrow> (sbus_device \<times> nat option) option"
  ss_next :: nat

definition dev_new :: "('d sbus_sys, nat) prog" where
  "dev_new s = (Ret (ss_next s), s\<lparr>ss_devs := (ss_devs s)(ss_next s \<mapsto> (sbus_device_init, None)), ss_next := ss_next s + 1\<rparr>)"

definition dev_get :: "nat \<Rightarrow> ('d sbus_sys, sbus_device \<times> nat option) prog" where
  "dev_get a s = (case ss_devs s a of None \<Rightarrow> (Fault, s) | Some d \<Rightarrow> (Ret d, s))"

definition dev_uart :: "nat \<Rightarrow> nat option \<Rightarrow> ('d sbus_sys, unit) prog" where
  "dev_uart a p s = (case ss_devs s a of None \<Rightarrow> (Fault, s) | Some d \<Rightarrow> (Ret (), s\<lparr>ss_devs := (ss_devs s)(a \<mapsto> (fst d, p))\<rparr>))"

definition dev_free :: "nat \<Rightarrow> ('d sbus_sys, unit) prog" where
  "dev_free a s = (case ss_devs s a of None \<Rightarrow> (Fault, s) | Some d \<Rightarrow> (Ret (), s\<lparr>ss_devs := (ss_devs s)(a := None)\<rparr>))"

lemmas dev_defs = dev_new_def dev_get_def dev_uart_def dev_free_def

section \<open>Code\<close>

text \<open>Eight data bits, even parity, two stop bits, 100000 baud; \<open>stop_bits\<close> and \<open>parity\<close> are the codes of \<open>drv_uart.h\<close>.\<close>

definition sbus_uart_cfg :: uart_configure where
  "sbus_uart_cfg = \<lparr>uc_baud_rate = 100000, uc_data_bits = 8, uc_stop_bits = 1, uc_parity = 2, uc_bit_order = 0, uc_invert = 0,
     uc_bufsz = 1024, uc_reserved = 0\<rparr>"

text \<open>
  The UART of a new device: the instance, its configuration and the error exits. \<open>stk\<close> is the uninitialised structure of
  \<open>drv_uart_set_config\<close>.
\<close>

definition create_uart :: "'d uart_os \<Rightarrow> int \<Rightarrow> uart_configure \<Rightarrow> nat \<Rightarrow> ('d sbus_sys, nat option) prog" where
  "create_uart os uart_id stk dev =
     sbind (drv_uart_inst_create os uart_id None (Some None)) (\<lambda>(ret, inst).
     sbind (dev_uart dev inst) (\<lambda>_.
     if ret \<noteq> 0 then sbind (dev_free dev) (\<lambda>_. sret None)
     else
       sbind (drv_uart_set_config os inst (Some sbus_uart_cfg) stk) (\<lambda>(ret, cfg).
       if ret \<noteq> 0 then
         sbind (drv_uart_inst_destroy os inst) (\<lambda>p.
         sbind (dev_uart dev p) (\<lambda>_. sbind (dev_free dev) (\<lambda>_. sret None)))
       else sret (Some dev))))"

definition sbus_create :: "'d uart_os \<Rightarrow> int \<Rightarrow> uart_configure \<Rightarrow> ('d sbus_sys, nat option) prog" where
  "sbus_create os uart_id stk =
     (if uart_id \<noteq> 1 \<and> uart_id \<noteq> 2 \<and> uart_id \<noteq> 3 \<and> uart_id \<noteq> 4 then sret None
      else sbind (hmalloc os) (\<lambda>ok.
        if \<not> ok then sret None else sbind dev_new (create_uart os uart_id stk)))"

definition sbus_destroy :: "'d uart_os \<Rightarrow> nat option \<Rightarrow> ('d sbus_sys, unit) prog" where
  "sbus_destroy os dev =
     (case dev of None \<Rightarrow> sret ()
      | Some a \<Rightarrow> sbind (dev_get a) (\<lambda>(d, inst).
          sbind (drv_uart_inst_destroy os inst) (\<lambda>p. sbind (dev_uart a p) (\<lambda>_. dev_free a))))"

text \<open>The whole of \<open>sbus_send_frame\<close>: the frame, then the write, whose result must be the size of the frame.\<close>

definition sbus_send :: "'d uart_os \<Rightarrow> bytes \<Rightarrow> nat option \<Rightarrow> ('d sbus_sys, unit) prog" where
  "sbus_send os stk dev =
     (case dev of None \<Rightarrow> sfail EGENERIC
      | Some a \<Rightarrow> sbind (dev_get a) (\<lambda>(d, inst).
          sbind (slift (sbus_build_frame stk d)) (\<lambda>frame.
          sbind (drv_uart_write os inst (Some frame) (of_nat SBUS_FRAME_SIZE)) (\<lambda>len.
          if len \<noteq> int SBUS_FRAME_SIZE then sfail EGENERIC else sret ()))))"

section \<open>Nothing is left behind\<close>

text \<open>The state of the UART driver does not depend on the devices above it.\<close>

lemma uart_st_devs [simp]:
  "uart_st X Y (s\<lparr>ss_devs := f\<rparr>) = uart_st X Y s" "uart_st X Y (s\<lparr>ss_next := n\<rparr>) = uart_st X Y s"
  by (simp_all add: hal_st_def hal_inv_def)

lemma devs_more: "uart.more s' = uart.more s \<Longrightarrow> ss_devs s' = ss_devs s \<and> ss_next s' = ss_next s" for s s' :: "'d sbus_sys"
  by (cases s; cases s') simp

lemma same_inst_uart_more: "same_inst s s' \<Longrightarrow> hal_heap s' = hal_heap s \<and> uart.more s' = uart.more s" for s s' :: "('d, 'z) uart_scheme"
  using uart_more [of s' s] by (simp add: same_inst_def)

text \<open>
  The configuration of an instance: what the device is asked to use is the caller's, with the buffer size it has.
\<close>

definition configured :: "'d uart_os \<Rightarrow> int \<Rightarrow> uart_configure \<Rightarrow> 'd \<Rightarrow> bool" where
  "configured os fd c d' \<longleftrightarrow> (\<exists>d0 n cur d1 m. uo_get_config os fd d0 = ((n, cur), d1) \<and> 0 \<le> n \<and>
     uo_set_config os fd (c\<lparr>uc_bufsz := uc_bufsz cur\<rparr>) d1 = (m, d') \<and> 0 \<le> m)"

lemma set_config_post:
  assumes s: "uart_st {} {} s" and i: "hal_heap s a = Some i"
    and post: "\<And>r c s'. uart_st {} {} s' \<Longrightarrow> hal_heap s' = hal_heap s \<Longrightarrow> uart.more s' = uart.more s \<Longrightarrow>
      (r = 0 \<longrightarrow> configured os (ui_fd i) cfg (hal_dev s')) \<Longrightarrow> Q (r, c) s'"
  shows "swp (drv_uart_set_config os (Some a) (Some cfg) stk) Q E s"
proof -
  have fd: "ui_fd i \<noteq> -1" using uart.st_fd [OF s i] by simp
  obtain n cur d1 where g: "uo_get_config os (ui_fd i) (hal_dev s) = ((n, cur), d1)" by (metis surj_pair)
  obtain m d2 where t: "uo_set_config os (ui_fd i) (cfg\<lparr>uc_bufsz := uc_bufsz cur\<rparr>) d1 = (m, d2)" by fastforce
  have st: "uart_st {} {} (s\<lparr>hal_dev := d\<rparr>)" for d using s by (simp add: hal_st_def)
  have ok: "0 \<le> n \<Longrightarrow> 0 \<le> m \<Longrightarrow> configured os (ui_fd i) cfg d2" using g t unfolding configured_def by blast
  show ?thesis
    using fd i g t ok post [OF st [of d1]] post [OF st [of d2]]
    by (auto simp: drv_uart_set_config_def drv_uart_get_config_def uart_inst_def swp_def hinst_def hcall_def sprog_defs Let_def not_less)
qed

text \<open>With the same instances the same descriptors are open.\<close>

lemma same_fds: "uart_st {} {} s \<Longrightarrow> uart_st {} {} s' \<Longrightarrow> hal_heap s' = hal_heap s \<Longrightarrow> hal_fds s' = hal_fds s"
  by (simp add: hal_st_def hal_inv_def)

lemma swp_dev:
  "ss_devs s a = Some d \<Longrightarrow> swp (dev_get a) Q E s = Q d s"
  "ss_devs s a = Some d \<Longrightarrow> swp (dev_uart a p) U E s = U () (s\<lparr>ss_devs := (ss_devs s)(a \<mapsto> (fst d, p))\<rparr>)"
  "ss_devs s a = Some d \<Longrightarrow> swp (dev_free a) U E s = U () (s\<lparr>ss_devs := (ss_devs s)(a := None)\<rparr>)"
  by (simp_all add: swp_def dev_defs)

definition devs_fresh :: "'d sbus_sys \<Rightarrow> bool" where
  "devs_fresh s \<longleftrightarrow> (\<forall>a. ss_devs s a \<noteq> None \<longrightarrow> a < ss_next s)"

lemma create_fresh_post:
  assumes os: "os_files_ok os" and s: "uart_st {} {} s" and i: "0 \<le> i" "i < 5"
    and bad: "\<And>r s'. r \<noteq> 0 \<Longrightarrow> uart_st {} {} s' \<Longrightarrow> hal_heap s' = hal_heap s \<Longrightarrow> uart.more s' = uart.more s \<Longrightarrow> Q (r, None) s'"
    and good: "\<And>fd a s'. uart_st {} {} s' \<Longrightarrow> hal_heap s a = None \<Longrightarrow>
      hal_heap s' = (hal_heap s)(a \<mapsto> \<lparr>ui_base_ok = True, ui_id = i, ui_fd = fd\<rparr>) \<Longrightarrow> uart.more s' = uart.more s \<Longrightarrow> Q (0, Some a) s'"
  shows "swp (drv_uart_inst_create os i None (Some None)) Q E s"
proof -
  have "\<not> KD_HARD_UART_MAX_NUM \<le> i" "nat i < length (ua_state s)" using i uart_st_length [OF s] by (auto simp: KD_HARD_UART_MAX_NUM_def)
  then show ?thesis
    using i(1) by (simp add: drv_uart_inst_create_def swp_uart_flag open_inst_inv [OF os s bad good])
qed

lemma create_uart_post:
  assumes os: "os_files_ok os" and s: "uart_st {} {} s" and d: "ss_devs s dev = Some (d, None)" and i: "0 \<le> i" "i < 5"
    and bad: "\<And>s'. uart_st {} {} s' \<Longrightarrow> hal_heap s' = hal_heap s \<Longrightarrow> ss_devs s' = (ss_devs s)(dev := None) \<Longrightarrow> Q None s'"
    and good: "\<And>a fd s'. uart_st {} {} s' \<Longrightarrow> hal_heap s a = None \<Longrightarrow>
      hal_heap s' = (hal_heap s)(a \<mapsto> \<lparr>ui_base_ok = True, ui_id = i, ui_fd = fd\<rparr>) \<Longrightarrow>
      ss_devs s' = (ss_devs s)(dev \<mapsto> (d, Some a)) \<Longrightarrow> configured os fd sbus_uart_cfg (hal_dev s') \<Longrightarrow> Q (Some dev) s'"
  shows "swp (create_uart os i stk dev) Q E s"
  unfolding create_uart_def swp_simps
proof (rule create_fresh_post [OF os s i], goal_cases)
  case (1 r s1)
  then have "ss_devs s1 = ss_devs s" using devs_more [of s1 s] by simp
  with 1 d show ?case by (auto simp: swp_dev intro!: bad)
next
  case (2 fd a s1)
  then have h1: "ss_devs s1 = ss_devs s" using devs_more [of s1 s] by simp
  let ?s2 = "s1\<lparr>ss_devs := (ss_devs s)(dev \<mapsto> (d, Some a))\<rparr>"
  have "swp (drv_uart_set_config os (Some a) (Some sbus_uart_cfg) stk) (\<lambda>p. swp (case p of (ret, cfg) \<Rightarrow>
            if ret \<noteq> 0 then sbind (drv_uart_inst_destroy os (Some a)) (\<lambda>p.
              sbind (dev_uart dev p) (\<lambda>_. sbind (dev_free dev) (\<lambda>_. sret None)))
            else sret (Some dev)) Q E) E ?s2"
  proof (rule set_config_post [where i = "\<lparr>ui_base_ok = True, ui_id = i, ui_fd = fd\<rparr>"], goal_cases)
    case (3 r c s3)
    have h3: "ss_devs s3 = (ss_devs s)(dev \<mapsto> (d, Some a))" "hal_heap s3 = hal_heap s1" using 3 devs_more [of s3 ?s2] by simp_all
    have "swp (drv_uart_inst_destroy os (Some a)) (\<lambda>p. swp (dev_uart dev p) (\<lambda>_. swp (dev_free dev) (\<lambda>_. Q None) E) E) E s3"
    proof (rule uart_destroy_inv [OF 3(1)], goal_cases)
      case (2 s4)
      then have "ss_devs s4 = ss_devs s3" using devs_more [of s4 s3] by simp
      moreover have "(hal_heap s1)(a := None) = hal_heap s"
        using \<open>hal_heap s a = None\<close> \<open>hal_heap s1 = _\<close> by auto
      ultimately show ?case using 2 h3 by (auto simp: swp_dev intro!: bad)
    qed (use h3 \<open>hal_heap s1 = _\<close> in \<open>simp add: live_ptr_def\<close>)
    then show ?case using 3 2 h3 by (auto intro!: good)
  qed (use 2 in simp_all)
  then show ?case using d h1 by (simp add: swp_dev)
qed

lemma sbus_create_post:
  assumes os: "os_files_ok os" and s: "uart_st {} {} s" and fresh: "devs_fresh s"
  shows "swp (sbus_create os uart_id stk) (\<lambda>r s'. uart_st {} {} s' \<and>
      (case r of None \<Rightarrow> hal_heap s' = hal_heap s \<and> ss_devs s' = ss_devs s
       | Some dev \<Rightarrow> \<exists>a fd. hal_heap s a = None \<and> hal_heap s' = (hal_heap s)(a \<mapsto> \<lparr>ui_base_ok = True, ui_id = uart_id, ui_fd = fd\<rparr>) \<and>
           ss_devs s dev = None \<and> ss_devs s' = (ss_devs s)(dev \<mapsto> (sbus_device_init, Some a)) \<and> configured os fd sbus_uart_cfg (hal_dev s'))) E s"
    (is "swp _ ?Q E s")
proof (cases "uart_id \<noteq> 1 \<and> uart_id \<noteq> 2 \<and> uart_id \<noteq> 3 \<and> uart_id \<noteq> 4")
  case True
  then show ?thesis using s by (simp add: sbus_create_def)
next
  case False
  show ?thesis unfolding sbus_create_def if_not_P [OF False] swp_simps
  proof (rule uart.st_malloc [OF s], goal_cases)
    case (1 ok s1)
    have s1: "hal_heap s1 = hal_heap s" "ss_devs s1 = ss_devs s" "ss_next s1 = ss_next s"
      using same_inst_uart_more [OF 1(2)] devs_more [of s1 s] by simp_all
    define dev where "dev = ss_next s"
    define s2 where "s2 = s1\<lparr>ss_devs := (ss_devs s)(dev \<mapsto> (sbus_device_init, None)), ss_next := dev + 1\<rparr>"
    have dev: "ss_devs s dev = None" using fresh unfolding dev_def devs_fresh_def by (meson less_irrefl)
    have s2: "uart_st {} {} s2" "hal_heap s2 = hal_heap s" "ss_devs s2 dev = Some (sbus_device_init, None)"
      "(ss_devs s2)(dev := None) = ss_devs s" "(ss_devs s2)(dev := x) = (ss_devs s)(dev := x)" for x
      using 1(1) s1 dev by (auto simp: s2_def)
    have "swp (create_uart os uart_id stk dev) ?Q E s2"
    proof (rule create_uart_post [OF os s2(1,3)], goal_cases)
      case (3 s')
      then show ?case using s2(2,4) by simp
    next
      case (4 a fd s')
      then show ?case using s2(2) s2(5) [of "Some (sbus_device_init, Some a)"] dev by auto
    qed (use False in auto)
    then show ?case using 1 s1 s by (cases ok) (simp_all add: swp_def [of dev_new] dev_new_def s2_def dev_def)
  qed
qed

lemma sbus_destroy_post:
  assumes s: "uart_st {} {} s" and d: "ss_devs s dev = Some (d, Some a)" and i: "hal_heap s a = Some i"
  shows "\<exists>s'. sbus_destroy os (Some dev) s = (Ret (), s') \<and> uart_st {} {} s' \<and> hal_heap s' = (hal_heap s)(a := None) \<and>
    ss_devs s' = (ss_devs s)(dev := None)"
proof -
  have "swp (sbus_destroy os (Some dev)) (\<lambda>_ s'. uart_st {} {} s' \<and> hal_heap s' = (hal_heap s)(a := None) \<and>
      ss_devs s' = (ss_devs s)(dev := None)) (\<lambda>_ _. False) s" (is "swp _ ?Q _ s")
  proof -
    have "swp (drv_uart_inst_destroy os (Some a)) (\<lambda>p. swp (dev_uart dev p) (\<lambda>_. swp (dev_free dev) ?Q (\<lambda>_ _. False)) (\<lambda>_ _. False)) (\<lambda>_ _. False) s"
    proof (rule uart_destroy_inv [OF s], goal_cases)
      case (2 s1)
      then have "ss_devs s1 = ss_devs s" using devs_more [of s1 s] by simp
      then show ?case using 2 d by (auto simp: swp_dev)
    qed (use i in \<open>simp add: live_ptr_def\<close>)
    then show ?thesis using d by (simp add: sbus_destroy_def swp_dev)
  qed
  then show ?thesis by (auto simp: swp_def split: prod.splits cres.splits)
qed

section \<open>Properties\<close>

text \<open>\<open>sbus_create\<close> gives no device or a complete one. When it fails, at whatever step, no instance, descriptor or device is
  left behind. When it succeeds, the UART it opened for the port asked for has been given the SBUS line parameters (the receive buffer keeps the size it had), and
  destroying the device brings back the instances, descriptors and devices there were.
\<close>

theorem sbus_create_or_nothing:
  assumes "os_files_ok os" and "uart_st {} {} s" and "devs_fresh s" and "sbus_create os uart_id stk s = (r, s')"
  shows "r = Ret None \<and> hal_heap s' = hal_heap s \<and> hal_fds s' = hal_fds s \<and> ss_devs s' = ss_devs s \<or>
    (\<exists>dev a fd s''. r = Ret (Some dev) \<and> ss_devs s' dev = Some (sbus_device_init, Some a) \<and>
      hal_heap s' a = Some \<lparr>ui_base_ok = True, ui_id = uart_id, ui_fd = fd\<rparr> \<and> configured os fd sbus_uart_cfg (hal_dev s') \<and>
      sbus_destroy os (Some dev) s' = (Ret (), s'') \<and>
      hal_heap s'' = hal_heap s \<and> hal_fds s'' = hal_fds s \<and> ss_devs s'' = ss_devs s)"
proof -
  note post = swp_run [OF sbus_create_post [OF assms(1-3), where E = "\<lambda>_ _. False"] assms(4)]
  then obtain q where r: "r = Ret q" by (cases r) auto
  have st: "uart_st {} {} s'" using post r by simp
  show ?thesis
  proof (cases q)
    case None
    then show ?thesis using post r same_fds [OF assms(2) st] by simp
  next
    case (Some dev)
    then obtain a fd where h: "hal_heap s a = None" "hal_heap s' = (hal_heap s)(a \<mapsto> \<lparr>ui_base_ok = True, ui_id = uart_id, ui_fd = fd\<rparr>)"
      "ss_devs s dev = None" "ss_devs s' = (ss_devs s)(dev \<mapsto> (sbus_device_init, Some a))" "configured os fd sbus_uart_cfg (hal_dev s')"
      using post r by auto
    obtain s'' where d: "sbus_destroy os (Some dev) s' = (Ret (), s'')" "uart_st {} {} s''" "hal_heap s'' = (hal_heap s')(a := None)"
      "ss_devs s'' = (ss_devs s')(dev := None)"
      using sbus_destroy_post [OF st, of dev sbus_device_init a "\<lparr>ui_base_ok = True, ui_id = uart_id, ui_fd = fd\<rparr>"] h by auto
    have "hal_heap s'' = hal_heap s" "ss_devs s'' = ss_devs s" using d(3,4) h by auto
    then show ?thesis using r Some h d(1) same_fds [OF assms(2) d(2)] by auto
  qed
qed

definition sample_sbus_sys :: "nat sbus_sys" where
  "sample_sbus_sys = \<lparr>hal_heap = Map.empty, hal_next = 0, hal_fds = {}, hal_dev = 3, ua_state = replicate 5 False, ss_devs = Map.empty, ss_next = 0\<rparr>"

theorem sbus_create_or_nothing_witness:
  "\<exists>r s'. sbus_create sample_uart_os 2 sample_uart_cfg sample_sbus_sys = (r, s') \<and>
    (r = Ret None \<and> hal_fds s' = {} \<or>
     (\<exists>dev fd s''. r = Ret (Some dev) \<and> configured sample_uart_os fd sbus_uart_cfg (hal_dev s') \<and>
       sbus_destroy sample_uart_os (Some dev) s' = (Ret (), s'') \<and> hal_fds s'' = {}))"
proof -
  have st: "uart_st {} {} sample_sbus_sys"
    by (simp add: sample_sbus_sys_def hal_st_def hal_inv_empty uart_ok_def)
  have "devs_fresh sample_sbus_sys" by (simp add: devs_fresh_def sample_sbus_sys_def)
  moreover obtain r s' where "sbus_create sample_uart_os 2 sample_uart_cfg sample_sbus_sys = (r, s')" by fastforce
  ultimately show ?thesis
    using sbus_create_or_nothing [OF sample_uart_os_ok st, of 2 sample_uart_cfg r s'] by (auto simp: sample_sbus_sys_def)
qed

text \<open>C9. When all channels are below 2048, the 11 bits a frame has for each, sending a frame writes, in one request to the descriptor of
  the device's UART, 25 bytes that the driver's own decoder reads as exactly the channels and flags that were set, whatever the stack held; the function succeeds when and
  only when the UART took all of them. The setters do not check the bound: a larger channel runs into its neighbour.
\<close>

theorem sbus_frame_sent:
  assumes "uart_st {} {} s" and "ss_devs s dev = Some (d, Some a)" and "hal_heap s a = Some i"
    and "sbus_wf d" and "\<forall>v \<in> set (sb_channels d). unat v < 2048" and "length stk = SBUS_FRAME_SIZE"
  shows "\<exists>f. sbus_send os stk (Some dev) s =
      (if fst (uo_write os (ui_fd i) f (hal_dev s)) = 25 then Ret () else Fail EGENERIC, s\<lparr>hal_dev := snd (uo_write os (ui_fd i) f (hal_dev s))\<rparr>) \<and>
    length f = 25 \<and> sbus_decode_frame (Some f) (Some ch) (Some old) = Ret (Some (sb_channels d), Some (put_field 0 4 (sb_flags d) old))"
proof -
  obtain f where f: "sbus_build_frame stk d = Ret f" "length f = SBUS_FRAME_SIZE"
    "sbus_decode_frame (Some f) (Some ch) (Some old) = Ret (Some (sb_channels d), Some (put_field 0 4 (sb_flags d) old))"
    using frame_roundtrip [OF assms(4,6,5)] by blast
  have fd: "ui_fd i \<noteq> -1" using uart.st_fd [OF assms(1,3)] by simp
  obtain n d' where w: "uo_write os (ui_fd i) f (hal_dev s) = (n, d')" by fastforce
  have "sbus_send os stk (Some dev) s = (if n = 25 then Ret () else Fail EGENERIC, s\<lparr>hal_dev := d'\<rparr>)"
    using assms(2,3) fd f(1,2) w
    by (auto simp: sbus_send_def drv_uart_write_def uart_inst_def dev_get_def hinst_def hcall_def sprog_defs rdn_def sub_bytes_def SBUS_FRAME_SIZE_def)
  then show ?thesis using f(2,3) w by (intro exI [of _ f]) (simp add: SBUS_FRAME_SIZE_def)
qed

definition sample_sbus_open :: "nat sbus_sys" where
  "sample_sbus_open = \<lparr>hal_heap = [0 \<mapsto> \<lparr>ui_base_ok = True, ui_id = 1, ui_fd = 3\<rparr>], hal_next = 1, hal_fds = {3}, hal_dev = 4,
     ua_state = [False, True, False, False, False], ss_devs = [0 \<mapsto> (sbus_device_init, Some 0)], ss_next = 1\<rparr>"

theorem sbus_frame_sent_witness:
  "\<exists>f. sbus_send sample_uart_os (replicate 25 0xFF) (Some 0) sample_sbus_open =
      (if fst (uo_write sample_uart_os 3 f 4) = 25 then Ret () else Fail EGENERIC,
       sample_sbus_open\<lparr>hal_dev := snd (uo_write sample_uart_os 3 f 4)\<rparr>) \<and>
    length f = 25 \<and> sbus_decode_frame (Some f) (Some []) (Some 0) = Ret (Some (replicate 16 0), Some (put_field 0 4 0 0))"
proof -
  have st: "uart_st {} {} sample_sbus_open"
    by (auto simp: hal_st_def hal_inv_def uart_ok_def sample_sbus_open_def owns_def dom_def ran_def inj_on_def uart_served_def
        less_Suc_eq eval_nat_numeral split: if_splits)
  show ?thesis
    using sbus_frame_sent [OF st, of 0 sbus_device_init 0 "\<lparr>ui_base_ok = True, ui_id = 1, ui_fd = 3\<rparr>" "replicate 25 0xFF" sample_uart_os "[]" 0]
    by (simp add: sample_sbus_open_def sbus_device_init_def sbus_wf_def SBUS_CHANNEL_NUM_def SBUS_FRAME_SIZE_def)
qed

end
