(* ===== verification/Wlan_Wire.thy ===== *)
theory Wlan_Wire
  imports C_Prelude
begin

text \<open>
  The wire format of \<open>/dev/wlanctlN\<close> (\<open>wlan_offload/src/wlan_offload_wire.h\<close>): the constants,
  and for every structure a record of its fields, its layout in bytes (\<open>enc\<close>, with the padding
  the compiler inserts, which the library clears with \<open>memset\<close>), the read through a pointer
  (\<open>view\<close>, which faults when the buffer is shorter than the structure), its size and the
  lengths of its arrays (\<open>wf\<close>). Every structure is an instance of the layout contract
  \<open>byte_codec\<close>. Signed fields (\<open>status\<close>, \<open>rssi\<close>) are kept as the words that are on the wire.
\<close>

section \<open>Constants\<close>

definition RTWO_CTRL_VERSION :: u16 where "RTWO_CTRL_VERSION = 2"
definition RTWO_CTRL_MAX_MESSAGE_SIZE :: nat where "RTWO_CTRL_MAX_MESSAGE_SIZE = 4096"
definition RTWO_CTRL_MAX_SSID_LENGTH :: nat where "RTWO_CTRL_MAX_SSID_LENGTH = 32"
definition RTWO_CTRL_MAX_SCAN_SSIDS :: nat where "RTWO_CTRL_MAX_SCAN_SSIDS = 4"
definition RTWO_CTRL_MAX_SCAN_CHANNELS :: nat where "RTWO_CTRL_MAX_SCAN_CHANNELS = 64"
definition RTWO_CTRL_MAX_IE_LENGTH :: nat where "RTWO_CTRL_MAX_IE_LENGTH = 1024"
definition RTWO_CTRL_MAX_FRAME_LENGTH :: nat where "RTWO_CTRL_MAX_FRAME_LENGTH = 2304"
definition RTWO_CTRL_MAX_EAPOL_LENGTH :: nat where "RTWO_CTRL_MAX_EAPOL_LENGTH = 1600"
definition RTWO_CTRL_MAX_KEY_LENGTH :: nat where "RTWO_CTRL_MAX_KEY_LENGTH = 64"
definition RTWO_CTRL_MAX_SEQUENCE_LENGTH :: nat where "RTWO_CTRL_MAX_SEQUENCE_LENGTH = 16"
definition RTWO_CTRL_FLAG_TRUNCATED :: u8 where "RTWO_CTRL_FLAG_TRUNCATED = 1"
definition RTWO_CTRL_FLAG_OVERFLOW :: u8 where "RTWO_CTRL_FLAG_OVERFLOW = 2"
definition RTWO_CTRL_BAND_UNSPECIFIED :: u8 where "RTWO_CTRL_BAND_UNSPECIFIED = 0xff"
definition RTWO_CTRL_CHANNEL_WIDTH_320 :: u8 where "RTWO_CTRL_CHANNEL_WIDTH_320 = 6"

text \<open>Message types: the commands count from 1, the events from \<open>0x8000\<close>.\<close>

definition CMD_GET_INFO :: u16 where "CMD_GET_INFO = 1"
definition CMD_SET_INTERFACE :: u16 where "CMD_SET_INTERFACE = 2"
definition CMD_SCAN :: u16 where "CMD_SCAN = 3"
definition CMD_ABORT_SCAN :: u16 where "CMD_ABORT_SCAN = 4"
definition CMD_AUTHENTICATE :: u16 where "CMD_AUTHENTICATE = 5"
definition CMD_ASSOCIATE :: u16 where "CMD_ASSOCIATE = 6"
definition CMD_DISCONNECT :: u16 where "CMD_DISCONNECT = 7"
definition CMD_SET_KEY :: u16 where "CMD_SET_KEY = 8"
definition CMD_DELETE_KEY :: u16 where "CMD_DELETE_KEY = 9"
definition CMD_SET_DEFAULT_KEY :: u16 where "CMD_SET_DEFAULT_KEY = 10"
definition CMD_MGMT_TX :: u16 where "CMD_MGMT_TX = 11"
definition CMD_EAPOL_TX :: u16 where "CMD_EAPOL_TX = 12"
definition CMD_EXTERNAL_AUTH_RESPONSE :: u16 where "CMD_EXTERNAL_AUTH_RESPONSE = 13"
definition CMD_GET_NAMES :: u16 where "CMD_GET_NAMES = 14"
definition EVENT_INFO :: u16 where "EVENT_INFO = 0x8000"
definition EVENT_RADIO_ONLINE :: u16 where "EVENT_RADIO_ONLINE = 0x8001"
definition EVENT_RADIO_OFFLINE :: u16 where "EVENT_RADIO_OFFLINE = 0x8002"
definition EVENT_SCAN_RESULT :: u16 where "EVENT_SCAN_RESULT = 0x8003"
definition EVENT_SCAN_DONE :: u16 where "EVENT_SCAN_DONE = 0x8004"
definition EVENT_CONNECT_RESULT :: u16 where "EVENT_CONNECT_RESULT = 0x8005"
definition EVENT_DISCONNECTED :: u16 where "EVENT_DISCONNECTED = 0x8006"
definition EVENT_AUTH_RX :: u16 where "EVENT_AUTH_RX = 0x8007"
definition EVENT_ASSOC_RX :: u16 where "EVENT_ASSOC_RX = 0x8008"
definition EVENT_MGMT_RX :: u16 where "EVENT_MGMT_RX = 0x8009"
definition EVENT_MGMT_TX_STATUS :: u16 where "EVENT_MGMT_TX_STATUS = 0x800a"
definition EVENT_EAPOL_RX :: u16 where "EVENT_EAPOL_RX = 0x800b"
definition EVENT_REGULATORY_CHANGED :: u16 where "EVENT_REGULATORY_CHANGED = 0x800c"
definition EVENT_FIRMWARE_ERROR :: u16 where "EVENT_FIRMWARE_ERROR = 0x800d"
definition EVENT_EXTERNAL_AUTH_REQUIRED :: u16 where "EVENT_EXTERNAL_AUTH_REQUIRED = 0x800e"
definition EVENT_NAMES :: u16 where "EVENT_NAMES = 0x800f"

lemmas cmd_defs = CMD_GET_INFO_def CMD_SET_INTERFACE_def CMD_SCAN_def CMD_ABORT_SCAN_def CMD_AUTHENTICATE_def CMD_ASSOCIATE_def CMD_DISCONNECT_def CMD_SET_KEY_def CMD_DELETE_KEY_def CMD_SET_DEFAULT_KEY_def CMD_MGMT_TX_def CMD_EAPOL_TX_def CMD_EXTERNAL_AUTH_RESPONSE_def CMD_GET_NAMES_def
lemmas event_defs = EVENT_INFO_def EVENT_RADIO_ONLINE_def EVENT_RADIO_OFFLINE_def EVENT_SCAN_RESULT_def EVENT_SCAN_DONE_def EVENT_CONNECT_RESULT_def EVENT_DISCONNECTED_def EVENT_AUTH_RX_def EVENT_ASSOC_RX_def EVENT_MGMT_RX_def EVENT_MGMT_TX_STATUS_def EVENT_EAPOL_RX_def EVENT_REGULATORY_CHANGED_def EVENT_FIRMWARE_ERROR_def EVENT_EXTERNAL_AUTH_REQUIRED_def EVENT_NAMES_def
lemmas limit_defs = RTWO_CTRL_MAX_MESSAGE_SIZE_def RTWO_CTRL_MAX_SSID_LENGTH_def
  RTWO_CTRL_MAX_SCAN_SSIDS_def RTWO_CTRL_MAX_SCAN_CHANNELS_def RTWO_CTRL_MAX_IE_LENGTH_def
  RTWO_CTRL_MAX_FRAME_LENGTH_def RTWO_CTRL_MAX_EAPOL_LENGTH_def RTWO_CTRL_MAX_KEY_LENGTH_def
  RTWO_CTRL_MAX_SEQUENCE_LENGTH_def

section \<open>Structures\<close>

text \<open>Reading a field: skip the parts before it, stop at the part that holds it.\<close>

lemmas field_at = sub_bytes_skip sub_bytes_skip_Cons sub_bytes_hit sub_bytes_hit_end nth_append

subsection \<open>\<open>struct rtwo_ctrl_ssid\<close>\<close>

record wire_ssid =
  ws_length :: u8
  ws_value :: bytes

definition sizeof_ssid :: nat where "sizeof_ssid = 33"

definition wf_ssid :: "wire_ssid \<Rightarrow> bool" where
  "wf_ssid x \<longleftrightarrow> length (ws_value x) = 32"

definition enc_ssid :: "wire_ssid \<Rightarrow> bytes" where
  "enc_ssid x =
     [ws_length x] @ ws_value x"

definition get_ssid :: "bytes \<Rightarrow> wire_ssid" where
  "get_ssid bs =
     \<lparr>ws_length = bs ! 0, ws_value = sub_bytes 1 32 bs\<rparr>"

definition view_ssid :: "bytes \<Rightarrow> wire_ssid cres" where
  "view_ssid bs = (if length bs < sizeof_ssid then Fault else Ret (get_ssid bs))"

lemma length_enc_ssid [simp, wire_size]: "wf_ssid x \<Longrightarrow> length (enc_ssid x) = 33"
  by (simp add: enc_ssid_def wf_ssid_def)

lemma get_enc_ssid: "wf_ssid x \<Longrightarrow> get_ssid (enc_ssid x @ r) = x"
  by (simp add: get_ssid_def enc_ssid_def wf_ssid_def field_at )

lemmas get_enc_ssid_end [simp] = get_enc_ssid [of _ "[]", simplified]

lemma wf_get_ssid: "33 \<le> length bs \<Longrightarrow> wf_ssid (get_ssid bs)"
  by (simp add: get_ssid_def wf_ssid_def)

interpretation ws: byte_codec enc_ssid view_ssid 33 wf_ssid
  by unfold_locales (auto simp: view_ssid_def sizeof_ssid_def get_enc_ssid wf_get_ssid split: if_splits)

subsection \<open>\<open>struct rtwo_ctrl_channel\<close>\<close>

record wire_channel =
  wc_primary_frequency_mhz :: u16
  wc_center_frequency1_mhz :: u16
  wc_center_frequency2_mhz :: u16
  wc_primary_channel :: u16
  wc_band :: u8
  wc_width :: u8
  wc_reserved :: bytes

definition sizeof_channel :: nat where "sizeof_channel = 12"

definition wf_channel :: "wire_channel \<Rightarrow> bool" where
  "wf_channel x \<longleftrightarrow> length (wc_reserved x) = 2"

definition enc_channel :: "wire_channel \<Rightarrow> bytes" where
  "enc_channel x =
     to_le 2 (wc_primary_frequency_mhz x) @ to_le 2 (wc_center_frequency1_mhz x) @
     to_le 2 (wc_center_frequency2_mhz x) @ to_le 2 (wc_primary_channel x) @ [wc_band x] @
     [wc_width x] @ wc_reserved x"

definition get_channel :: "bytes \<Rightarrow> wire_channel" where
  "get_channel bs =
     \<lparr>wc_primary_frequency_mhz = of_le (sub_bytes 0 2 bs),
      wc_center_frequency1_mhz = of_le (sub_bytes 2 2 bs),
      wc_center_frequency2_mhz = of_le (sub_bytes 4 2 bs),
      wc_primary_channel = of_le (sub_bytes 6 2 bs), wc_band = bs ! 8, wc_width = bs ! 9,
      wc_reserved = sub_bytes 10 2 bs\<rparr>"

definition view_channel :: "bytes \<Rightarrow> wire_channel cres" where
  "view_channel bs = (if length bs < sizeof_channel then Fault else Ret (get_channel bs))"

lemma length_enc_channel [simp, wire_size]: "wf_channel x \<Longrightarrow> length (enc_channel x) = 12"
  by (simp add: enc_channel_def wf_channel_def)

lemma get_enc_channel: "wf_channel x \<Longrightarrow> get_channel (enc_channel x @ r) = x"
  by (simp add: get_channel_def enc_channel_def wf_channel_def field_at )

lemmas get_enc_channel_end [simp] = get_enc_channel [of _ "[]", simplified]

lemma wf_get_channel: "12 \<le> length bs \<Longrightarrow> wf_channel (get_channel bs)"
  by (simp add: get_channel_def wf_channel_def)

interpretation wc: byte_codec enc_channel view_channel 12 wf_channel
  by unfold_locales (auto simp: view_channel_def sizeof_channel_def get_enc_channel wf_get_channel split: if_splits)

subsection \<open>\<open>struct rtwo_ctrl_header\<close>\<close>

record wire_header =
  wh_version :: u16
  wh_type :: u16
  wh_length :: u32
  wh_request_id :: u32
  wh_status :: u32
  wh_iftype :: u8
  wh_flags :: u8
  wh_reserved :: u16

definition sizeof_header :: nat where "sizeof_header = 20"

definition wf_header :: "wire_header \<Rightarrow> bool" where
  "wf_header x \<longleftrightarrow> True"

definition enc_header :: "wire_header \<Rightarrow> bytes" where
  "enc_header x =
     to_le 2 (wh_version x) @ to_le 2 (wh_type x) @ to_le 4 (wh_length x) @
     to_le 4 (wh_request_id x) @ to_le 4 (wh_status x) @ [wh_iftype x] @ [wh_flags x] @
     to_le 2 (wh_reserved x)"

definition get_header :: "bytes \<Rightarrow> wire_header" where
  "get_header bs =
     \<lparr>wh_version = of_le (sub_bytes 0 2 bs), wh_type = of_le (sub_bytes 2 2 bs),
      wh_length = of_le (sub_bytes 4 4 bs), wh_request_id = of_le (sub_bytes 8 4 bs),
      wh_status = of_le (sub_bytes 12 4 bs), wh_iftype = bs ! 16, wh_flags = bs ! 17,
      wh_reserved = of_le (sub_bytes 18 2 bs)\<rparr>"

definition view_header :: "bytes \<Rightarrow> wire_header cres" where
  "view_header bs = (if length bs < sizeof_header then Fault else Ret (get_header bs))"

lemma length_enc_header [simp, wire_size]: "wf_header x \<Longrightarrow> length (enc_header x) = 20"
  by (simp add: enc_header_def wf_header_def)

lemma get_enc_header: "wf_header x \<Longrightarrow> get_header (enc_header x @ r) = x"
  by (simp add: get_header_def enc_header_def wf_header_def field_at )

lemmas get_enc_header_end [simp] = get_enc_header [of _ "[]", simplified]

lemma wf_get_header: "20 \<le> length bs \<Longrightarrow> wf_header (get_header bs)"
  by (simp add: get_header_def wf_header_def)

interpretation wh: byte_codec enc_header view_header 20 wf_header
  by unfold_locales (auto simp: view_header_def sizeof_header_def get_enc_header wf_get_header split: if_splits)

subsection \<open>\<open>struct rtwo_ctrl_info\<close>\<close>

record wire_info =
  wi_capabilities :: u32
  wi_phy_capabilities :: u32
  wi_cipher_mask :: u32
  wi_iftype_mask :: u32
  wi_max_frame_size :: u32
  wi_framework_api_version :: u32
  wi_firmware_protocol_version :: u32
  wi_firmware_version :: u32
  wi_firmware_features :: u32
  wi_firmware_generation :: u32
  wi_max_scan_ie_length :: u16
  wi_max_stations :: u16
  wi_max_scan_ssids :: u8
  wi_band_mask :: u8
  wi_max_vifs :: u8
  wi_max_channel_contexts :: u8
  wi_address :: bytes
  wi_reserved :: bytes

definition sizeof_info :: nat where "sizeof_info = 56"

definition wf_info :: "wire_info \<Rightarrow> bool" where
  "wf_info x \<longleftrightarrow> length (wi_address x) = 6 \<and> length (wi_reserved x) = 2"

definition enc_info :: "wire_info \<Rightarrow> bytes" where
  "enc_info x =
     to_le 4 (wi_capabilities x) @ to_le 4 (wi_phy_capabilities x) @
     to_le 4 (wi_cipher_mask x) @ to_le 4 (wi_iftype_mask x) @
     to_le 4 (wi_max_frame_size x) @ to_le 4 (wi_framework_api_version x) @
     to_le 4 (wi_firmware_protocol_version x) @ to_le 4 (wi_firmware_version x) @
     to_le 4 (wi_firmware_features x) @ to_le 4 (wi_firmware_generation x) @
     to_le 2 (wi_max_scan_ie_length x) @ to_le 2 (wi_max_stations x) @
     [wi_max_scan_ssids x] @ [wi_band_mask x] @ [wi_max_vifs x] @
     [wi_max_channel_contexts x] @ wi_address x @ wi_reserved x"

definition get_info :: "bytes \<Rightarrow> wire_info" where
  "get_info bs =
     \<lparr>wi_capabilities = of_le (sub_bytes 0 4 bs),
      wi_phy_capabilities = of_le (sub_bytes 4 4 bs),
      wi_cipher_mask = of_le (sub_bytes 8 4 bs), wi_iftype_mask = of_le (sub_bytes 12 4 bs),
      wi_max_frame_size = of_le (sub_bytes 16 4 bs),
      wi_framework_api_version = of_le (sub_bytes 20 4 bs),
      wi_firmware_protocol_version = of_le (sub_bytes 24 4 bs),
      wi_firmware_version = of_le (sub_bytes 28 4 bs),
      wi_firmware_features = of_le (sub_bytes 32 4 bs),
      wi_firmware_generation = of_le (sub_bytes 36 4 bs),
      wi_max_scan_ie_length = of_le (sub_bytes 40 2 bs),
      wi_max_stations = of_le (sub_bytes 42 2 bs), wi_max_scan_ssids = bs ! 44,
      wi_band_mask = bs ! 45, wi_max_vifs = bs ! 46, wi_max_channel_contexts = bs ! 47,
      wi_address = sub_bytes 48 6 bs, wi_reserved = sub_bytes 54 2 bs\<rparr>"

definition view_info :: "bytes \<Rightarrow> wire_info cres" where
  "view_info bs = (if length bs < sizeof_info then Fault else Ret (get_info bs))"

lemma length_enc_info [simp, wire_size]: "wf_info x \<Longrightarrow> length (enc_info x) = 56"
  by (simp add: enc_info_def wf_info_def)

lemma get_enc_info: "wf_info x \<Longrightarrow> get_info (enc_info x @ r) = x"
  by (simp add: get_info_def enc_info_def wf_info_def field_at )

lemmas get_enc_info_end [simp] = get_enc_info [of _ "[]", simplified]

lemma wf_get_info: "56 \<le> length bs \<Longrightarrow> wf_info (get_info bs)"
  by (simp add: get_info_def wf_info_def)

interpretation wi: byte_codec enc_info view_info 56 wf_info
  by unfold_locales (auto simp: view_info_def sizeof_info_def get_enc_info wf_get_info split: if_splits)

subsection \<open>\<open>struct rtwo_ctrl_names\<close>\<close>

record wire_names =
  wn_control :: bytes
  wn_station :: bytes
  wn_ap :: bytes
  wn_radio_index :: u8
  wn_reserved :: bytes

definition sizeof_names :: nat where "sizeof_names = 76"

definition wf_names :: "wire_names \<Rightarrow> bool" where
  "wf_names x \<longleftrightarrow> length (wn_control x) = 24 \<and>
     length (wn_station x) = 24 \<and>
     length (wn_ap x) = 24 \<and>
     length (wn_reserved x) = 3"

definition enc_names :: "wire_names \<Rightarrow> bytes" where
  "enc_names x =
     wn_control x @ wn_station x @ wn_ap x @ [wn_radio_index x] @ wn_reserved x"

definition get_names :: "bytes \<Rightarrow> wire_names" where
  "get_names bs =
     \<lparr>wn_control = sub_bytes 0 24 bs, wn_station = sub_bytes 24 24 bs,
      wn_ap = sub_bytes 48 24 bs, wn_radio_index = bs ! 72, wn_reserved = sub_bytes 73 3 bs\<rparr>"

definition view_names :: "bytes \<Rightarrow> wire_names cres" where
  "view_names bs = (if length bs < sizeof_names then Fault else Ret (get_names bs))"

lemma length_enc_names [simp, wire_size]: "wf_names x \<Longrightarrow> length (enc_names x) = 76"
  by (simp add: enc_names_def wf_names_def)

lemma get_enc_names: "wf_names x \<Longrightarrow> get_names (enc_names x @ r) = x"
  by (simp add: get_names_def enc_names_def wf_names_def field_at )

lemmas get_enc_names_end [simp] = get_enc_names [of _ "[]", simplified]

lemma wf_get_names: "76 \<le> length bs \<Longrightarrow> wf_names (get_names bs)"
  by (simp add: get_names_def wf_names_def)

interpretation wn: byte_codec enc_names view_names 76 wf_names
  by unfold_locales (auto simp: view_names_def sizeof_names_def get_enc_names wf_get_names split: if_splits)

subsection \<open>\<open>struct rtwo_ctrl_set_interface\<close>\<close>

record wire_set_interface =
  wsi_enabled :: u8
  wsi_reserved :: bytes

definition sizeof_set_interface :: nat where "sizeof_set_interface = 4"

definition wf_set_interface :: "wire_set_interface \<Rightarrow> bool" where
  "wf_set_interface x \<longleftrightarrow> length (wsi_reserved x) = 3"

definition enc_set_interface :: "wire_set_interface \<Rightarrow> bytes" where
  "enc_set_interface x =
     [wsi_enabled x] @ wsi_reserved x"

definition get_set_interface :: "bytes \<Rightarrow> wire_set_interface" where
  "get_set_interface bs =
     \<lparr>wsi_enabled = bs ! 0, wsi_reserved = sub_bytes 1 3 bs\<rparr>"

definition view_set_interface :: "bytes \<Rightarrow> wire_set_interface cres" where
  "view_set_interface bs = (if length bs < sizeof_set_interface then Fault else Ret (get_set_interface bs))"

lemma length_enc_set_interface [simp, wire_size]: "wf_set_interface x \<Longrightarrow> length (enc_set_interface x) = 4"
  by (simp add: enc_set_interface_def wf_set_interface_def)

lemma get_enc_set_interface: "wf_set_interface x \<Longrightarrow> get_set_interface (enc_set_interface x @ r) = x"
  by (simp add: get_set_interface_def enc_set_interface_def wf_set_interface_def field_at )

lemmas get_enc_set_interface_end [simp] = get_enc_set_interface [of _ "[]", simplified]

lemma wf_get_set_interface: "4 \<le> length bs \<Longrightarrow> wf_set_interface (get_set_interface bs)"
  by (simp add: get_set_interface_def wf_set_interface_def)

interpretation wsi: byte_codec enc_set_interface view_set_interface 4 wf_set_interface
  by unfold_locales (auto simp: view_set_interface_def sizeof_set_interface_def get_enc_set_interface wf_get_set_interface split: if_splits)

subsection \<open>\<open>struct rtwo_ctrl_scan_request\<close>\<close>

record wire_scan_request =
  wsr_flags :: u32
  wsr_duration_ms :: u16
  wsr_ssid_count :: u8
  wsr_channel_count :: u8
  wsr_ies_length :: u16
  wsr_bssid :: bytes
  wsr_ssids :: "wire_ssid list"
  wsr_channels :: "wire_channel list"
  wsr_ies :: bytes

definition sizeof_scan_request :: nat where "sizeof_scan_request = 1940"

definition wf_scan_request :: "wire_scan_request \<Rightarrow> bool" where
  "wf_scan_request x \<longleftrightarrow> length (wsr_bssid x) = 6 \<and>
     length (wsr_ssids x) = 4 \<and>
     (\<forall>y \<in> set (wsr_ssids x). wf_ssid y) \<and>
     length (wsr_channels x) = 64 \<and>
     (\<forall>y \<in> set (wsr_channels x). wf_channel y) \<and>
     length (wsr_ies x) = 1024"

definition enc_scan_request :: "wire_scan_request \<Rightarrow> bytes" where
  "enc_scan_request x =
     to_le 4 (wsr_flags x) @ to_le 2 (wsr_duration_ms x) @ [wsr_ssid_count x] @
     [wsr_channel_count x] @ to_le 2 (wsr_ies_length x) @ wsr_bssid x @
     concat (map enc_ssid (wsr_ssids x)) @ concat (map enc_channel (wsr_channels x)) @
     wsr_ies x"

definition get_scan_request :: "bytes \<Rightarrow> wire_scan_request" where
  "get_scan_request bs =
     \<lparr>wsr_flags = of_le (sub_bytes 0 4 bs), wsr_duration_ms = of_le (sub_bytes 4 2 bs),
      wsr_ssid_count = bs ! 6, wsr_channel_count = bs ! 7,
      wsr_ies_length = of_le (sub_bytes 8 2 bs), wsr_bssid = sub_bytes 10 6 bs,
      wsr_ssids = map (\<lambda>k. get_ssid (sub_bytes (33 * k) 33 (sub_bytes 16 132 bs))) [0..<4],
      wsr_channels = map (\<lambda>k. get_channel (sub_bytes (12 * k) 12 (sub_bytes 148 768 bs))) [0..<64],
      wsr_ies = sub_bytes 916 1024 bs\<rparr>"

definition view_scan_request :: "bytes \<Rightarrow> wire_scan_request cres" where
  "view_scan_request bs = (if length bs < sizeof_scan_request then Fault else Ret (get_scan_request bs))"

lemma get_ssid_array:
  assumes "\<forall>y \<in> set ys. wf_ssid y" and "length ys = n"
  shows "map (\<lambda>k. get_ssid (sub_bytes (33 * k) 33 (concat (map enc_ssid ys)))) [0..<n] = ys"
proof (rule nth_equalityI)
  fix k
  assume "k < length (map (\<lambda>k. get_ssid (sub_bytes (33 * k) 33 (concat (map enc_ssid ys)))) [0..<n])"
  then show "map (\<lambda>k. get_ssid (sub_bytes (33 * k) 33 (concat (map enc_ssid ys)))) [0..<n] ! k = ys ! k"
    using ws.view_array [OF assms(1), of k] assms(2) by (simp add: view_ssid_def split: if_splits)
qed (simp add: assms(2))

lemma get_channel_array:
  assumes "\<forall>y \<in> set ys. wf_channel y" and "length ys = n"
  shows "map (\<lambda>k. get_channel (sub_bytes (12 * k) 12 (concat (map enc_channel ys)))) [0..<n] = ys"
proof (rule nth_equalityI)
  fix k
  assume "k < length (map (\<lambda>k. get_channel (sub_bytes (12 * k) 12 (concat (map enc_channel ys)))) [0..<n])"
  then show "map (\<lambda>k. get_channel (sub_bytes (12 * k) 12 (concat (map enc_channel ys)))) [0..<n] ! k = ys ! k"
    using wc.view_array [OF assms(1), of k] assms(2) by (simp add: view_channel_def split: if_splits)
qed (simp add: assms(2))

lemma length_enc_scan_request [simp, wire_size]: "wf_scan_request x \<Longrightarrow> length (enc_scan_request x) = 1940"
  by (simp add: enc_scan_request_def wf_scan_request_def ws.length_enc_array get_ssid_array wc.length_enc_array get_channel_array)

lemma get_enc_scan_request: "wf_scan_request x \<Longrightarrow> get_scan_request (enc_scan_request x @ r) = x"
  by (simp add: get_scan_request_def enc_scan_request_def wf_scan_request_def field_at ws.length_enc_array get_ssid_array wc.length_enc_array get_channel_array)

lemmas get_enc_scan_request_end [simp] = get_enc_scan_request [of _ "[]", simplified]

lemma wf_get_scan_request: "1940 \<le> length bs \<Longrightarrow> wf_scan_request (get_scan_request bs)"
  by (simp add: get_scan_request_def wf_scan_request_def wf_get_channel wf_get_ssid)

interpretation wsr: byte_codec enc_scan_request view_scan_request 1940 wf_scan_request
  by unfold_locales (auto simp: view_scan_request_def sizeof_scan_request_def get_enc_scan_request wf_get_scan_request split: if_splits)

subsection \<open>\<open>struct rtwo_ctrl_auth_request\<close>\<close>

record wire_auth_request =
  war_ssid :: wire_ssid
  war_bssid :: bytes
  war_channel :: wire_channel
  war_auth_type :: u8
  war_reserved :: bytes
  war_data_length :: u16
  war_data :: bytes

definition sizeof_auth_request :: nat where "sizeof_auth_request = 1082"

definition wf_auth_request :: "wire_auth_request \<Rightarrow> bool" where
  "wf_auth_request x \<longleftrightarrow> wf_ssid (war_ssid x) \<and>
     length (war_bssid x) = 6 \<and>
     wf_channel (war_channel x) \<and>
     length (war_reserved x) = 3 \<and>
     length (war_data x) = 1024"

definition enc_auth_request :: "wire_auth_request \<Rightarrow> bytes" where
  "enc_auth_request x =
     enc_ssid (war_ssid x) @ war_bssid x @ replicate 1 0 @ enc_channel (war_channel x) @
     [war_auth_type x] @ war_reserved x @ to_le 2 (war_data_length x) @ war_data x"

definition get_auth_request :: "bytes \<Rightarrow> wire_auth_request" where
  "get_auth_request bs =
     \<lparr>war_ssid = get_ssid (sub_bytes 0 33 bs), war_bssid = sub_bytes 33 6 bs,
      war_channel = get_channel (sub_bytes 40 12 bs), war_auth_type = bs ! 52,
      war_reserved = sub_bytes 53 3 bs, war_data_length = of_le (sub_bytes 56 2 bs),
      war_data = sub_bytes 58 1024 bs\<rparr>"

definition view_auth_request :: "bytes \<Rightarrow> wire_auth_request cres" where
  "view_auth_request bs = (if length bs < sizeof_auth_request then Fault else Ret (get_auth_request bs))"

lemma length_enc_auth_request [simp, wire_size]: "wf_auth_request x \<Longrightarrow> length (enc_auth_request x) = 1082"
  by (simp add: enc_auth_request_def wf_auth_request_def)

lemma get_enc_auth_request: "wf_auth_request x \<Longrightarrow> get_auth_request (enc_auth_request x @ r) = x"
  by (simp add: get_auth_request_def enc_auth_request_def wf_auth_request_def field_at get_enc_channel_end get_enc_ssid_end)

lemmas get_enc_auth_request_end [simp] = get_enc_auth_request [of _ "[]", simplified]

lemma wf_get_auth_request: "1082 \<le> length bs \<Longrightarrow> wf_auth_request (get_auth_request bs)"
  by (simp add: get_auth_request_def wf_auth_request_def wf_get_channel wf_get_ssid)

interpretation war: byte_codec enc_auth_request view_auth_request 1082 wf_auth_request
  by unfold_locales (auto simp: view_auth_request_def sizeof_auth_request_def get_enc_auth_request wf_get_auth_request split: if_splits)

subsection \<open>\<open>struct rtwo_ctrl_assoc_request\<close>\<close>

record wire_assoc_request =
  was_bssid :: bytes
  was_ies_length :: u16
  was_ies :: bytes

definition sizeof_assoc_request :: nat where "sizeof_assoc_request = 1032"

definition wf_assoc_request :: "wire_assoc_request \<Rightarrow> bool" where
  "wf_assoc_request x \<longleftrightarrow> length (was_bssid x) = 6 \<and> length (was_ies x) = 1024"

definition enc_assoc_request :: "wire_assoc_request \<Rightarrow> bytes" where
  "enc_assoc_request x =
     was_bssid x @ to_le 2 (was_ies_length x) @ was_ies x"

definition get_assoc_request :: "bytes \<Rightarrow> wire_assoc_request" where
  "get_assoc_request bs =
     \<lparr>was_bssid = sub_bytes 0 6 bs, was_ies_length = of_le (sub_bytes 6 2 bs),
      was_ies = sub_bytes 8 1024 bs\<rparr>"

definition view_assoc_request :: "bytes \<Rightarrow> wire_assoc_request cres" where
  "view_assoc_request bs = (if length bs < sizeof_assoc_request then Fault else Ret (get_assoc_request bs))"

lemma length_enc_assoc_request [simp, wire_size]: "wf_assoc_request x \<Longrightarrow> length (enc_assoc_request x) = 1032"
  by (simp add: enc_assoc_request_def wf_assoc_request_def)

lemma get_enc_assoc_request: "wf_assoc_request x \<Longrightarrow> get_assoc_request (enc_assoc_request x @ r) = x"
  by (simp add: get_assoc_request_def enc_assoc_request_def wf_assoc_request_def field_at )

lemmas get_enc_assoc_request_end [simp] = get_enc_assoc_request [of _ "[]", simplified]

lemma wf_get_assoc_request: "1032 \<le> length bs \<Longrightarrow> wf_assoc_request (get_assoc_request bs)"
  by (simp add: get_assoc_request_def wf_assoc_request_def)

interpretation was: byte_codec enc_assoc_request view_assoc_request 1032 wf_assoc_request
  by unfold_locales (auto simp: view_assoc_request_def sizeof_assoc_request_def get_enc_assoc_request wf_get_assoc_request split: if_splits)

subsection \<open>\<open>struct rtwo_ctrl_disconnect_request\<close>\<close>

record wire_disconnect_request =
  wdr_reason :: u16
  wdr_reserved :: u16

definition sizeof_disconnect_request :: nat where "sizeof_disconnect_request = 4"

definition wf_disconnect_request :: "wire_disconnect_request \<Rightarrow> bool" where
  "wf_disconnect_request x \<longleftrightarrow> True"

definition enc_disconnect_request :: "wire_disconnect_request \<Rightarrow> bytes" where
  "enc_disconnect_request x =
     to_le 2 (wdr_reason x) @ to_le 2 (wdr_reserved x)"

definition get_disconnect_request :: "bytes \<Rightarrow> wire_disconnect_request" where
  "get_disconnect_request bs =
     \<lparr>wdr_reason = of_le (sub_bytes 0 2 bs), wdr_reserved = of_le (sub_bytes 2 2 bs)\<rparr>"

definition view_disconnect_request :: "bytes \<Rightarrow> wire_disconnect_request cres" where
  "view_disconnect_request bs = (if length bs < sizeof_disconnect_request then Fault else Ret (get_disconnect_request bs))"

lemma length_enc_disconnect_request [simp, wire_size]: "wf_disconnect_request x \<Longrightarrow> length (enc_disconnect_request x) = 4"
  by (simp add: enc_disconnect_request_def wf_disconnect_request_def)

lemma get_enc_disconnect_request: "wf_disconnect_request x \<Longrightarrow> get_disconnect_request (enc_disconnect_request x @ r) = x"
  by (simp add: get_disconnect_request_def enc_disconnect_request_def wf_disconnect_request_def field_at )

lemmas get_enc_disconnect_request_end [simp] = get_enc_disconnect_request [of _ "[]", simplified]

lemma wf_get_disconnect_request: "4 \<le> length bs \<Longrightarrow> wf_disconnect_request (get_disconnect_request bs)"
  by (simp add: get_disconnect_request_def wf_disconnect_request_def)

interpretation wdr: byte_codec enc_disconnect_request view_disconnect_request 4 wf_disconnect_request
  by unfold_locales (auto simp: view_disconnect_request_def sizeof_disconnect_request_def get_enc_disconnect_request wf_get_disconnect_request split: if_splits)

subsection \<open>\<open>struct rtwo_ctrl_key_request\<close>\<close>

record wire_key_request =
  wkr_cipher :: u32
  wkr_index :: u8
  wkr_pairwise :: u8
  wkr_set_transmit :: u8
  wkr_key_length :: u8
  wkr_peer :: bytes
  wkr_sequence_length :: u8
  wkr_reserved :: u8
  wkr_key :: bytes
  wkr_sequence :: bytes

definition sizeof_key_request :: nat where "sizeof_key_request = 96"

definition wf_key_request :: "wire_key_request \<Rightarrow> bool" where
  "wf_key_request x \<longleftrightarrow> length (wkr_peer x) = 6 \<and> length (wkr_key x) = 64 \<and> length (wkr_sequence x) = 16"

definition enc_key_request :: "wire_key_request \<Rightarrow> bytes" where
  "enc_key_request x =
     to_le 4 (wkr_cipher x) @ [wkr_index x] @ [wkr_pairwise x] @ [wkr_set_transmit x] @
     [wkr_key_length x] @ wkr_peer x @ [wkr_sequence_length x] @ [wkr_reserved x] @
     wkr_key x @ wkr_sequence x"

definition get_key_request :: "bytes \<Rightarrow> wire_key_request" where
  "get_key_request bs =
     \<lparr>wkr_cipher = of_le (sub_bytes 0 4 bs), wkr_index = bs ! 4, wkr_pairwise = bs ! 5,
      wkr_set_transmit = bs ! 6, wkr_key_length = bs ! 7, wkr_peer = sub_bytes 8 6 bs,
      wkr_sequence_length = bs ! 14, wkr_reserved = bs ! 15, wkr_key = sub_bytes 16 64 bs,
      wkr_sequence = sub_bytes 80 16 bs\<rparr>"

definition view_key_request :: "bytes \<Rightarrow> wire_key_request cres" where
  "view_key_request bs = (if length bs < sizeof_key_request then Fault else Ret (get_key_request bs))"

lemma length_enc_key_request [simp, wire_size]: "wf_key_request x \<Longrightarrow> length (enc_key_request x) = 96"
  by (simp add: enc_key_request_def wf_key_request_def)

lemma get_enc_key_request: "wf_key_request x \<Longrightarrow> get_key_request (enc_key_request x @ r) = x"
  by (simp add: get_key_request_def enc_key_request_def wf_key_request_def field_at )

lemmas get_enc_key_request_end [simp] = get_enc_key_request [of _ "[]", simplified]

lemma wf_get_key_request: "96 \<le> length bs \<Longrightarrow> wf_key_request (get_key_request bs)"
  by (simp add: get_key_request_def wf_key_request_def)

interpretation wkr: byte_codec enc_key_request view_key_request 96 wf_key_request
  by unfold_locales (auto simp: view_key_request_def sizeof_key_request_def get_enc_key_request wf_get_key_request split: if_splits)

subsection \<open>\<open>struct rtwo_ctrl_delete_key_request\<close>\<close>

record wire_delete_key_request =
  wdk_index :: u8
  wdk_pairwise :: u8
  wdk_peer :: bytes

definition sizeof_delete_key_request :: nat where "sizeof_delete_key_request = 8"

definition wf_delete_key_request :: "wire_delete_key_request \<Rightarrow> bool" where
  "wf_delete_key_request x \<longleftrightarrow> length (wdk_peer x) = 6"

definition enc_delete_key_request :: "wire_delete_key_request \<Rightarrow> bytes" where
  "enc_delete_key_request x =
     [wdk_index x] @ [wdk_pairwise x] @ wdk_peer x"

definition get_delete_key_request :: "bytes \<Rightarrow> wire_delete_key_request" where
  "get_delete_key_request bs =
     \<lparr>wdk_index = bs ! 0, wdk_pairwise = bs ! 1, wdk_peer = sub_bytes 2 6 bs\<rparr>"

definition view_delete_key_request :: "bytes \<Rightarrow> wire_delete_key_request cres" where
  "view_delete_key_request bs = (if length bs < sizeof_delete_key_request then Fault else Ret (get_delete_key_request bs))"

lemma length_enc_delete_key_request [simp, wire_size]: "wf_delete_key_request x \<Longrightarrow> length (enc_delete_key_request x) = 8"
  by (simp add: enc_delete_key_request_def wf_delete_key_request_def)

lemma get_enc_delete_key_request: "wf_delete_key_request x \<Longrightarrow> get_delete_key_request (enc_delete_key_request x @ r) = x"
  by (simp add: get_delete_key_request_def enc_delete_key_request_def wf_delete_key_request_def field_at )

lemmas get_enc_delete_key_request_end [simp] = get_enc_delete_key_request [of _ "[]", simplified]

lemma wf_get_delete_key_request: "8 \<le> length bs \<Longrightarrow> wf_delete_key_request (get_delete_key_request bs)"
  by (simp add: get_delete_key_request_def wf_delete_key_request_def)

interpretation wdk: byte_codec enc_delete_key_request view_delete_key_request 8 wf_delete_key_request
  by unfold_locales (auto simp: view_delete_key_request_def sizeof_delete_key_request_def get_enc_delete_key_request wf_get_delete_key_request split: if_splits)

subsection \<open>\<open>struct rtwo_ctrl_default_key_request\<close>\<close>

record wire_default_key_request =
  wdf_index :: u8
  wdf_unicast :: u8
  wdf_multicast :: u8
  wdf_reserved :: u8

definition sizeof_default_key_request :: nat where "sizeof_default_key_request = 4"

definition wf_default_key_request :: "wire_default_key_request \<Rightarrow> bool" where
  "wf_default_key_request x \<longleftrightarrow> True"

definition enc_default_key_request :: "wire_default_key_request \<Rightarrow> bytes" where
  "enc_default_key_request x =
     [wdf_index x] @ [wdf_unicast x] @ [wdf_multicast x] @ [wdf_reserved x]"

definition get_default_key_request :: "bytes \<Rightarrow> wire_default_key_request" where
  "get_default_key_request bs =
     \<lparr>wdf_index = bs ! 0, wdf_unicast = bs ! 1, wdf_multicast = bs ! 2, wdf_reserved = bs ! 3\<rparr>"

definition view_default_key_request :: "bytes \<Rightarrow> wire_default_key_request cres" where
  "view_default_key_request bs = (if length bs < sizeof_default_key_request then Fault else Ret (get_default_key_request bs))"

lemma length_enc_default_key_request [simp, wire_size]: "wf_default_key_request x \<Longrightarrow> length (enc_default_key_request x) = 4"
  by (simp add: enc_default_key_request_def wf_default_key_request_def)

lemma get_enc_default_key_request: "wf_default_key_request x \<Longrightarrow> get_default_key_request (enc_default_key_request x @ r) = x"
  by (simp add: get_default_key_request_def enc_default_key_request_def wf_default_key_request_def field_at )

lemmas get_enc_default_key_request_end [simp] = get_enc_default_key_request [of _ "[]", simplified]

lemma wf_get_default_key_request: "4 \<le> length bs \<Longrightarrow> wf_default_key_request (get_default_key_request bs)"
  by (simp add: get_default_key_request_def wf_default_key_request_def)

interpretation wdf: byte_codec enc_default_key_request view_default_key_request 4 wf_default_key_request
  by unfold_locales (auto simp: view_default_key_request_def sizeof_default_key_request_def get_enc_default_key_request wf_get_default_key_request split: if_splits)

subsection \<open>\<open>struct rtwo_ctrl_mgmt_frame\<close>\<close>

record wire_mgmt_frame =
  wmf_channel :: wire_channel
  wmf_off_channel :: u8
  wmf_reserved :: bytes
  wmf_wait_ms :: u32
  wmf_cookie :: u64
  wmf_data_length :: u16
  wmf_data :: bytes

definition sizeof_mgmt_frame :: nat where "sizeof_mgmt_frame = 2344"

definition wf_mgmt_frame :: "wire_mgmt_frame \<Rightarrow> bool" where
  "wf_mgmt_frame x \<longleftrightarrow> wf_channel (wmf_channel x) \<and>
     length (wmf_reserved x) = 3 \<and>
     length (wmf_data x) = 2304"

definition enc_mgmt_frame :: "wire_mgmt_frame \<Rightarrow> bytes" where
  "enc_mgmt_frame x =
     enc_channel (wmf_channel x) @ [wmf_off_channel x] @ wmf_reserved x @
     to_le 4 (wmf_wait_ms x) @ replicate 4 0 @ to_le 8 (wmf_cookie x) @
     to_le 2 (wmf_data_length x) @ wmf_data x @ replicate 6 0"

definition get_mgmt_frame :: "bytes \<Rightarrow> wire_mgmt_frame" where
  "get_mgmt_frame bs =
     \<lparr>wmf_channel = get_channel (sub_bytes 0 12 bs), wmf_off_channel = bs ! 12,
      wmf_reserved = sub_bytes 13 3 bs, wmf_wait_ms = of_le (sub_bytes 16 4 bs),
      wmf_cookie = of_le (sub_bytes 24 8 bs), wmf_data_length = of_le (sub_bytes 32 2 bs),
      wmf_data = sub_bytes 34 2304 bs\<rparr>"

definition view_mgmt_frame :: "bytes \<Rightarrow> wire_mgmt_frame cres" where
  "view_mgmt_frame bs = (if length bs < sizeof_mgmt_frame then Fault else Ret (get_mgmt_frame bs))"

lemma length_enc_mgmt_frame [simp, wire_size]: "wf_mgmt_frame x \<Longrightarrow> length (enc_mgmt_frame x) = 2344"
  by (simp add: enc_mgmt_frame_def wf_mgmt_frame_def)

lemma get_enc_mgmt_frame: "wf_mgmt_frame x \<Longrightarrow> get_mgmt_frame (enc_mgmt_frame x @ r) = x"
  by (simp add: get_mgmt_frame_def enc_mgmt_frame_def wf_mgmt_frame_def field_at get_enc_channel_end)

lemmas get_enc_mgmt_frame_end [simp] = get_enc_mgmt_frame [of _ "[]", simplified]

lemma wf_get_mgmt_frame: "2344 \<le> length bs \<Longrightarrow> wf_mgmt_frame (get_mgmt_frame bs)"
  by (simp add: get_mgmt_frame_def wf_mgmt_frame_def wf_get_channel)

interpretation wmf: byte_codec enc_mgmt_frame view_mgmt_frame 2344 wf_mgmt_frame
  by unfold_locales (auto simp: view_mgmt_frame_def sizeof_mgmt_frame_def get_enc_mgmt_frame wf_get_mgmt_frame split: if_splits)

subsection \<open>\<open>struct rtwo_ctrl_eapol_frame\<close>\<close>

record wire_eapol_frame =
  wef_source :: bytes
  wef_destination :: bytes
  wef_data_length :: u16
  wef_data :: bytes

definition sizeof_eapol_frame :: nat where "sizeof_eapol_frame = 1614"

definition wf_eapol_frame :: "wire_eapol_frame \<Rightarrow> bool" where
  "wf_eapol_frame x \<longleftrightarrow> length (wef_source x) = 6 \<and>
     length (wef_destination x) = 6 \<and>
     length (wef_data x) = 1600"

definition enc_eapol_frame :: "wire_eapol_frame \<Rightarrow> bytes" where
  "enc_eapol_frame x =
     wef_source x @ wef_destination x @ to_le 2 (wef_data_length x) @ wef_data x"

definition get_eapol_frame :: "bytes \<Rightarrow> wire_eapol_frame" where
  "get_eapol_frame bs =
     \<lparr>wef_source = sub_bytes 0 6 bs, wef_destination = sub_bytes 6 6 bs,
      wef_data_length = of_le (sub_bytes 12 2 bs), wef_data = sub_bytes 14 1600 bs\<rparr>"

definition view_eapol_frame :: "bytes \<Rightarrow> wire_eapol_frame cres" where
  "view_eapol_frame bs = (if length bs < sizeof_eapol_frame then Fault else Ret (get_eapol_frame bs))"

lemma length_enc_eapol_frame [simp, wire_size]: "wf_eapol_frame x \<Longrightarrow> length (enc_eapol_frame x) = 1614"
  by (simp add: enc_eapol_frame_def wf_eapol_frame_def)

lemma get_enc_eapol_frame: "wf_eapol_frame x \<Longrightarrow> get_eapol_frame (enc_eapol_frame x @ r) = x"
  by (simp add: get_eapol_frame_def enc_eapol_frame_def wf_eapol_frame_def field_at )

lemmas get_enc_eapol_frame_end [simp] = get_enc_eapol_frame [of _ "[]", simplified]

lemma wf_get_eapol_frame: "1614 \<le> length bs \<Longrightarrow> wf_eapol_frame (get_eapol_frame bs)"
  by (simp add: get_eapol_frame_def wf_eapol_frame_def)

interpretation wef: byte_codec enc_eapol_frame view_eapol_frame 1614 wf_eapol_frame
  by unfold_locales (auto simp: view_eapol_frame_def sizeof_eapol_frame_def get_enc_eapol_frame wf_get_eapol_frame split: if_splits)

subsection \<open>\<open>struct rtwo_ctrl_network\<close>\<close>

record wire_network =
  wnw_ssid :: wire_ssid
  wnw_bssid :: bytes
  wnw_channel :: wire_channel
  wnw_rssi :: u16
  wnw_security :: u32
  wnw_beacon_interval :: u16
  wnw_capability :: u16
  wnw_ies_length :: u16
  wnw_ies :: bytes

definition sizeof_network :: nat where "sizeof_network = 1092"

definition wf_network :: "wire_network \<Rightarrow> bool" where
  "wf_network x \<longleftrightarrow> wf_ssid (wnw_ssid x) \<and>
     length (wnw_bssid x) = 6 \<and>
     wf_channel (wnw_channel x) \<and>
     length (wnw_ies x) = 1024"

definition enc_network :: "wire_network \<Rightarrow> bytes" where
  "enc_network x =
     enc_ssid (wnw_ssid x) @ wnw_bssid x @ replicate 1 0 @ enc_channel (wnw_channel x) @
     to_le 2 (wnw_rssi x) @ replicate 2 0 @ to_le 4 (wnw_security x) @
     to_le 2 (wnw_beacon_interval x) @ to_le 2 (wnw_capability x) @
     to_le 2 (wnw_ies_length x) @ wnw_ies x @ replicate 2 0"

definition get_network :: "bytes \<Rightarrow> wire_network" where
  "get_network bs =
     \<lparr>wnw_ssid = get_ssid (sub_bytes 0 33 bs), wnw_bssid = sub_bytes 33 6 bs,
      wnw_channel = get_channel (sub_bytes 40 12 bs), wnw_rssi = of_le (sub_bytes 52 2 bs),
      wnw_security = of_le (sub_bytes 56 4 bs),
      wnw_beacon_interval = of_le (sub_bytes 60 2 bs),
      wnw_capability = of_le (sub_bytes 62 2 bs), wnw_ies_length = of_le (sub_bytes 64 2 bs),
      wnw_ies = sub_bytes 66 1024 bs\<rparr>"

definition view_network :: "bytes \<Rightarrow> wire_network cres" where
  "view_network bs = (if length bs < sizeof_network then Fault else Ret (get_network bs))"

lemma length_enc_network [simp, wire_size]: "wf_network x \<Longrightarrow> length (enc_network x) = 1092"
  by (simp add: enc_network_def wf_network_def)

lemma get_enc_network: "wf_network x \<Longrightarrow> get_network (enc_network x @ r) = x"
  by (simp add: get_network_def enc_network_def wf_network_def field_at get_enc_channel_end get_enc_ssid_end)

lemmas get_enc_network_end [simp] = get_enc_network [of _ "[]", simplified]

lemma wf_get_network: "1092 \<le> length bs \<Longrightarrow> wf_network (get_network bs)"
  by (simp add: get_network_def wf_network_def wf_get_channel wf_get_ssid)

interpretation wnw: byte_codec enc_network view_network 1092 wf_network
  by unfold_locales (auto simp: view_network_def sizeof_network_def get_enc_network wf_get_network split: if_splits)

subsection \<open>\<open>struct rtwo_ctrl_disconnected\<close>\<close>

record wire_disconnected =
  wdc_bssid :: bytes
  wdc_reason :: u16
  wdc_locally_generated :: u8
  wdc_reserved :: u8

definition sizeof_disconnected :: nat where "sizeof_disconnected = 10"

definition wf_disconnected :: "wire_disconnected \<Rightarrow> bool" where
  "wf_disconnected x \<longleftrightarrow> length (wdc_bssid x) = 6"

definition enc_disconnected :: "wire_disconnected \<Rightarrow> bytes" where
  "enc_disconnected x =
     wdc_bssid x @ to_le 2 (wdc_reason x) @ [wdc_locally_generated x] @ [wdc_reserved x]"

definition get_disconnected :: "bytes \<Rightarrow> wire_disconnected" where
  "get_disconnected bs =
     \<lparr>wdc_bssid = sub_bytes 0 6 bs, wdc_reason = of_le (sub_bytes 6 2 bs),
      wdc_locally_generated = bs ! 8, wdc_reserved = bs ! 9\<rparr>"

definition view_disconnected :: "bytes \<Rightarrow> wire_disconnected cres" where
  "view_disconnected bs = (if length bs < sizeof_disconnected then Fault else Ret (get_disconnected bs))"

lemma length_enc_disconnected [simp, wire_size]: "wf_disconnected x \<Longrightarrow> length (enc_disconnected x) = 10"
  by (simp add: enc_disconnected_def wf_disconnected_def)

lemma get_enc_disconnected: "wf_disconnected x \<Longrightarrow> get_disconnected (enc_disconnected x @ r) = x"
  by (simp add: get_disconnected_def enc_disconnected_def wf_disconnected_def field_at )

lemmas get_enc_disconnected_end [simp] = get_enc_disconnected [of _ "[]", simplified]

lemma wf_get_disconnected: "10 \<le> length bs \<Longrightarrow> wf_disconnected (get_disconnected bs)"
  by (simp add: get_disconnected_def wf_disconnected_def)

interpretation wdc: byte_codec enc_disconnected view_disconnected 10 wf_disconnected
  by unfold_locales (auto simp: view_disconnected_def sizeof_disconnected_def get_enc_disconnected wf_get_disconnected split: if_splits)

subsection \<open>\<open>struct rtwo_ctrl_rx_frame\<close>\<close>

record wire_rx_frame =
  wrx_channel :: wire_channel
  wrx_rssi :: u16
  wrx_data_length :: u16
  wrx_data :: bytes

definition sizeof_rx_frame :: nat where "sizeof_rx_frame = 2320"

definition wf_rx_frame :: "wire_rx_frame \<Rightarrow> bool" where
  "wf_rx_frame x \<longleftrightarrow> wf_channel (wrx_channel x) \<and> length (wrx_data x) = 2304"

definition enc_rx_frame :: "wire_rx_frame \<Rightarrow> bytes" where
  "enc_rx_frame x =
     enc_channel (wrx_channel x) @ to_le 2 (wrx_rssi x) @ to_le 2 (wrx_data_length x) @
     wrx_data x"

definition get_rx_frame :: "bytes \<Rightarrow> wire_rx_frame" where
  "get_rx_frame bs =
     \<lparr>wrx_channel = get_channel (sub_bytes 0 12 bs), wrx_rssi = of_le (sub_bytes 12 2 bs),
      wrx_data_length = of_le (sub_bytes 14 2 bs), wrx_data = sub_bytes 16 2304 bs\<rparr>"

definition view_rx_frame :: "bytes \<Rightarrow> wire_rx_frame cres" where
  "view_rx_frame bs = (if length bs < sizeof_rx_frame then Fault else Ret (get_rx_frame bs))"

lemma length_enc_rx_frame [simp, wire_size]: "wf_rx_frame x \<Longrightarrow> length (enc_rx_frame x) = 2320"
  by (simp add: enc_rx_frame_def wf_rx_frame_def)

lemma get_enc_rx_frame: "wf_rx_frame x \<Longrightarrow> get_rx_frame (enc_rx_frame x @ r) = x"
  by (simp add: get_rx_frame_def enc_rx_frame_def wf_rx_frame_def field_at get_enc_channel_end)

lemmas get_enc_rx_frame_end [simp] = get_enc_rx_frame [of _ "[]", simplified]

lemma wf_get_rx_frame: "2320 \<le> length bs \<Longrightarrow> wf_rx_frame (get_rx_frame bs)"
  by (simp add: get_rx_frame_def wf_rx_frame_def wf_get_channel)

interpretation wrx: byte_codec enc_rx_frame view_rx_frame 2320 wf_rx_frame
  by unfold_locales (auto simp: view_rx_frame_def sizeof_rx_frame_def get_enc_rx_frame wf_get_rx_frame split: if_splits)

subsection \<open>\<open>struct rtwo_ctrl_tx_status\<close>\<close>

record wire_tx_status =
  wtx_cookie :: u64
  wtx_acknowledged :: u8
  wtx_reserved :: u8
  wtx_data_length :: u16
  wtx_data :: bytes

definition sizeof_tx_status :: nat where "sizeof_tx_status = 2320"

definition wf_tx_status :: "wire_tx_status \<Rightarrow> bool" where
  "wf_tx_status x \<longleftrightarrow> length (wtx_data x) = 2304"

definition enc_tx_status :: "wire_tx_status \<Rightarrow> bytes" where
  "enc_tx_status x =
     to_le 8 (wtx_cookie x) @ [wtx_acknowledged x] @ [wtx_reserved x] @
     to_le 2 (wtx_data_length x) @ wtx_data x @ replicate 4 0"

definition get_tx_status :: "bytes \<Rightarrow> wire_tx_status" where
  "get_tx_status bs =
     \<lparr>wtx_cookie = of_le (sub_bytes 0 8 bs), wtx_acknowledged = bs ! 8,
      wtx_reserved = bs ! 9, wtx_data_length = of_le (sub_bytes 10 2 bs),
      wtx_data = sub_bytes 12 2304 bs\<rparr>"

definition view_tx_status :: "bytes \<Rightarrow> wire_tx_status cres" where
  "view_tx_status bs = (if length bs < sizeof_tx_status then Fault else Ret (get_tx_status bs))"

lemma length_enc_tx_status [simp, wire_size]: "wf_tx_status x \<Longrightarrow> length (enc_tx_status x) = 2320"
  by (simp add: enc_tx_status_def wf_tx_status_def)

lemma get_enc_tx_status: "wf_tx_status x \<Longrightarrow> get_tx_status (enc_tx_status x @ r) = x"
  by (simp add: get_tx_status_def enc_tx_status_def wf_tx_status_def field_at )

lemmas get_enc_tx_status_end [simp] = get_enc_tx_status [of _ "[]", simplified]

lemma wf_get_tx_status: "2320 \<le> length bs \<Longrightarrow> wf_tx_status (get_tx_status bs)"
  by (simp add: get_tx_status_def wf_tx_status_def)

interpretation wtx: byte_codec enc_tx_status view_tx_status 2320 wf_tx_status
  by unfold_locales (auto simp: view_tx_status_def sizeof_tx_status_def get_enc_tx_status wf_get_tx_status split: if_splits)

subsection \<open>\<open>struct rtwo_ctrl_firmware_error\<close>\<close>

record wire_firmware_error =
  wfe_reason :: u32
  wfe_dump_length :: u16
  wfe_dump :: bytes

definition sizeof_firmware_error :: nat where "sizeof_firmware_error = 1032"

definition wf_firmware_error :: "wire_firmware_error \<Rightarrow> bool" where
  "wf_firmware_error x \<longleftrightarrow> length (wfe_dump x) = 1024"

definition enc_firmware_error :: "wire_firmware_error \<Rightarrow> bytes" where
  "enc_firmware_error x =
     to_le 4 (wfe_reason x) @ to_le 2 (wfe_dump_length x) @ wfe_dump x @ replicate 2 0"

definition get_firmware_error :: "bytes \<Rightarrow> wire_firmware_error" where
  "get_firmware_error bs =
     \<lparr>wfe_reason = of_le (sub_bytes 0 4 bs), wfe_dump_length = of_le (sub_bytes 4 2 bs),
      wfe_dump = sub_bytes 6 1024 bs\<rparr>"

definition view_firmware_error :: "bytes \<Rightarrow> wire_firmware_error cres" where
  "view_firmware_error bs = (if length bs < sizeof_firmware_error then Fault else Ret (get_firmware_error bs))"

lemma length_enc_firmware_error [simp, wire_size]: "wf_firmware_error x \<Longrightarrow> length (enc_firmware_error x) = 1032"
  by (simp add: enc_firmware_error_def wf_firmware_error_def)

lemma get_enc_firmware_error: "wf_firmware_error x \<Longrightarrow> get_firmware_error (enc_firmware_error x @ r) = x"
  by (simp add: get_firmware_error_def enc_firmware_error_def wf_firmware_error_def field_at )

lemmas get_enc_firmware_error_end [simp] = get_enc_firmware_error [of _ "[]", simplified]

lemma wf_get_firmware_error: "1032 \<le> length bs \<Longrightarrow> wf_firmware_error (get_firmware_error bs)"
  by (simp add: get_firmware_error_def wf_firmware_error_def)

interpretation wfe: byte_codec enc_firmware_error view_firmware_error 1032 wf_firmware_error
  by unfold_locales (auto simp: view_firmware_error_def sizeof_firmware_error_def get_enc_firmware_error wf_get_firmware_error split: if_splits)

subsection \<open>\<open>struct rtwo_ctrl_external_auth\<close>\<close>

record wire_external_auth =
  wea_ssid :: wire_ssid
  wea_bssid :: bytes
  wea_reserved :: u8
  wea_akm_suite :: u32

definition sizeof_external_auth :: nat where "sizeof_external_auth = 44"

definition wf_external_auth :: "wire_external_auth \<Rightarrow> bool" where
  "wf_external_auth x \<longleftrightarrow> wf_ssid (wea_ssid x) \<and> length (wea_bssid x) = 6"

definition enc_external_auth :: "wire_external_auth \<Rightarrow> bytes" where
  "enc_external_auth x =
     enc_ssid (wea_ssid x) @ wea_bssid x @ [wea_reserved x] @ to_le 4 (wea_akm_suite x)"

definition get_external_auth :: "bytes \<Rightarrow> wire_external_auth" where
  "get_external_auth bs =
     \<lparr>wea_ssid = get_ssid (sub_bytes 0 33 bs), wea_bssid = sub_bytes 33 6 bs,
      wea_reserved = bs ! 39, wea_akm_suite = of_le (sub_bytes 40 4 bs)\<rparr>"

definition view_external_auth :: "bytes \<Rightarrow> wire_external_auth cres" where
  "view_external_auth bs = (if length bs < sizeof_external_auth then Fault else Ret (get_external_auth bs))"

lemma length_enc_external_auth [simp, wire_size]: "wf_external_auth x \<Longrightarrow> length (enc_external_auth x) = 44"
  by (simp add: enc_external_auth_def wf_external_auth_def)

lemma get_enc_external_auth: "wf_external_auth x \<Longrightarrow> get_external_auth (enc_external_auth x @ r) = x"
  by (simp add: get_external_auth_def enc_external_auth_def wf_external_auth_def field_at get_enc_ssid_end)

lemmas get_enc_external_auth_end [simp] = get_enc_external_auth [of _ "[]", simplified]

lemma wf_get_external_auth: "44 \<le> length bs \<Longrightarrow> wf_external_auth (get_external_auth bs)"
  by (simp add: get_external_auth_def wf_external_auth_def wf_get_ssid)

interpretation wea: byte_codec enc_external_auth view_external_auth 44 wf_external_auth
  by unfold_locales (auto simp: view_external_auth_def sizeof_external_auth_def get_enc_external_auth wf_get_external_auth split: if_splits)

subsection \<open>\<open>struct rtwo_ctrl_external_auth_response\<close>\<close>

record wire_external_auth_response =
  wer_status :: u16
  wer_reserved :: u16

definition sizeof_external_auth_response :: nat where "sizeof_external_auth_response = 4"

definition wf_external_auth_response :: "wire_external_auth_response \<Rightarrow> bool" where
  "wf_external_auth_response x \<longleftrightarrow> True"

definition enc_external_auth_response :: "wire_external_auth_response \<Rightarrow> bytes" where
  "enc_external_auth_response x =
     to_le 2 (wer_status x) @ to_le 2 (wer_reserved x)"

definition get_external_auth_response :: "bytes \<Rightarrow> wire_external_auth_response" where
  "get_external_auth_response bs =
     \<lparr>wer_status = of_le (sub_bytes 0 2 bs), wer_reserved = of_le (sub_bytes 2 2 bs)\<rparr>"

definition view_external_auth_response :: "bytes \<Rightarrow> wire_external_auth_response cres" where
  "view_external_auth_response bs = (if length bs < sizeof_external_auth_response then Fault else Ret (get_external_auth_response bs))"

lemma length_enc_external_auth_response [simp, wire_size]: "wf_external_auth_response x \<Longrightarrow> length (enc_external_auth_response x) = 4"
  by (simp add: enc_external_auth_response_def wf_external_auth_response_def)

lemma get_enc_external_auth_response: "wf_external_auth_response x \<Longrightarrow> get_external_auth_response (enc_external_auth_response x @ r) = x"
  by (simp add: get_external_auth_response_def enc_external_auth_response_def wf_external_auth_response_def field_at )

lemmas get_enc_external_auth_response_end [simp] = get_enc_external_auth_response [of _ "[]", simplified]

lemma wf_get_external_auth_response: "4 \<le> length bs \<Longrightarrow> wf_external_auth_response (get_external_auth_response bs)"
  by (simp add: get_external_auth_response_def wf_external_auth_response_def)

interpretation wer: byte_codec enc_external_auth_response view_external_auth_response 4 wf_external_auth_response
  by unfold_locales (auto simp: view_external_auth_response_def sizeof_external_auth_response_def get_enc_external_auth_response wf_get_external_auth_response split: if_splits)

end
