(* ===== verification/Wlan_Channel.thy ===== *)
theory Wlan_Channel
  imports Wlan_Wire
begin

unbundle bit_operations_syntax

text \<open>
  Channel descriptions (\<open>wlan_offload_client.c\<close>): the public \<open>struct wlan_offload_channel\<close>, the
  geometry check, and the conversions to and from the wire structure. The pointers of these
  static functions are addresses of fields at every call, so their \<open>NULL\<close> tests cannot fire and
  are left out. C enums are the 32-bit unsigned words the compiler makes of them, so that values
  outside the enumeration can be passed in; the tests for a value below the first enumerator
  (\<open>0\<close>) are void for such a type.
\<close>

section \<open>Constants\<close>

definition WIDTH_20_NOHT :: u32 where "WIDTH_20_NOHT = 0"
definition WIDTH_20 :: u32 where "WIDTH_20 = 1"
definition WIDTH_40 :: u32 where "WIDTH_40 = 2"
definition WIDTH_80 :: u32 where "WIDTH_80 = 3"
definition WIDTH_80P80 :: u32 where "WIDTH_80P80 = 4"
definition WIDTH_160 :: u32 where "WIDTH_160 = 5"
definition WIDTH_320 :: u32 where "WIDTH_320 = 6"
definition BAND_2GHZ :: u32 where "BAND_2GHZ = 0"
definition BAND_5GHZ :: u32 where "BAND_5GHZ = 1"
definition BAND_6GHZ :: u32 where "BAND_6GHZ = 2"
definition BAND_UNSPECIFIED :: u32 where "BAND_UNSPECIFIED = 255"

lemmas width_defs = WIDTH_20_NOHT_def WIDTH_20_def WIDTH_40_def WIDTH_80_def WIDTH_80P80_def
  WIDTH_160_def WIDTH_320_def
lemmas band_defs = BAND_2GHZ_def BAND_5GHZ_def BAND_6GHZ_def BAND_UNSPECIFIED_def
  RTWO_CTRL_BAND_UNSPECIFIED_def

record wlan_channel =
  ch_band :: u32
  ch_width :: u32
  ch_primary_channel :: u16
  ch_primary_frequency_mhz :: u16
  ch_center_frequency1_mhz :: u16
  ch_center_frequency2_mhz :: u16

section \<open>Validation and conversion\<close>

definition channel_offset :: "wlan_channel \<Rightarrow> u16" where
  "channel_offset c =
     (if ch_center_frequency1_mhz c > ch_primary_frequency_mhz c
      then ch_center_frequency1_mhz c - ch_primary_frequency_mhz c
      else ch_primary_frequency_mhz c - ch_center_frequency1_mhz c)"

definition channel_geometry_valid :: "wlan_channel \<Rightarrow> bool" where
  "channel_geometry_valid c =
     (let offset = channel_offset c; w = ch_width c; cf2 = ch_center_frequency2_mhz c in
      if w = WIDTH_20_NOHT \<or> w = WIDTH_20 then offset = 0 \<and> cf2 = 0
      else if w = WIDTH_40 then offset = 10 \<and> cf2 = 0
      else if w = WIDTH_80 then (offset = 10 \<or> offset = 30) \<and> cf2 = 0
      else if w = WIDTH_80P80 then
        (offset = 10 \<or> offset = 30) \<and> cf2 \<noteq> 0 \<and> cf2 \<noteq> ch_center_frequency1_mhz c
      else if w = WIDTH_160 then
        (offset = 10 \<or> offset = 30 \<or> offset = 50 \<or> offset = 70) \<and> cf2 = 0
      else if w = WIDTH_320 then
        offset \<ge> 10 \<and> offset \<le> 150 \<and> offset mod 20 = 10 \<and> cf2 = 0
      else False)"

definition channel_to_wire :: "wlan_channel \<Rightarrow> bool \<Rightarrow> wire_channel cres" where
  "channel_to_wire c allow_unspecified =
     (if ch_width c > WIDTH_320 then Fail EINVAL
      else if ch_band c = BAND_UNSPECIFIED \<and>
        (\<not> allow_unspecified \<or> ch_primary_channel c \<noteq> 0 \<or> ch_primary_frequency_mhz c \<noteq> 0 \<or>
         ch_center_frequency1_mhz c \<noteq> 0 \<or> ch_center_frequency2_mhz c \<noteq> 0) then Fail EINVAL
      else if ch_band c \<noteq> BAND_UNSPECIFIED \<and>
        (ch_band c > BAND_6GHZ \<or> ch_primary_channel c = 0 \<or> ch_primary_frequency_mhz c = 0 \<or>
         ch_center_frequency1_mhz c = 0 \<or>
         (ch_width c = WIDTH_80P80 \<and> ch_center_frequency2_mhz c = 0) \<or>
         \<not> channel_geometry_valid c) then Fail EINVAL
      else Ret \<lparr>wc_primary_frequency_mhz = ch_primary_frequency_mhz c,
                wc_center_frequency1_mhz = ch_center_frequency1_mhz c,
                wc_center_frequency2_mhz = ch_center_frequency2_mhz c,
                wc_primary_channel = ch_primary_channel c,
                wc_band = (if ch_band c = BAND_UNSPECIFIED then RTWO_CTRL_BAND_UNSPECIFIED
                           else ucast (ch_band c)),
                wc_width = ucast (ch_width c), wc_reserved = [0, 0]\<rparr>)"

definition channel_from_wire :: "wire_channel \<Rightarrow> bool \<Rightarrow> wlan_channel cres" where
  "channel_from_wire w allow_unspecified =
     (if wc_reserved w ! 0 \<noteq> 0 \<or> wc_reserved w ! 1 \<noteq> 0 \<or>
         wc_width w > RTWO_CTRL_CHANNEL_WIDTH_320 then Fail EPROTO
      else
        (let decoded = \<lparr>ch_band = (if wc_band w = RTWO_CTRL_BAND_UNSPECIFIED then BAND_UNSPECIFIED
                                    else ucast (wc_band w)),
               ch_width = ucast (wc_width w), ch_primary_channel = wc_primary_channel w,
               ch_primary_frequency_mhz = wc_primary_frequency_mhz w,
               ch_center_frequency1_mhz = wc_center_frequency1_mhz w,
               ch_center_frequency2_mhz = wc_center_frequency2_mhz w\<rparr>
         in cbind (fail_as EPROTO (channel_to_wire decoded allow_unspecified)) (\<lambda>checked.
            Ret decoded)))"

section \<open>What a channel description means\<close>

text \<open>
  A channel of \<open>n\<close> times 20 MHz centred at \<open>cf1\<close> has \<open>n\<close> subchannels; the primary channel is one
  of them. The reference definition states that over the integers.
\<close>

definition subchannels :: "u32 \<Rightarrow> int option" where
  "subchannels w =
     (if w = WIDTH_20_NOHT \<or> w = WIDTH_20 then Some 1 else if w = WIDTH_40 then Some 2
      else if w = WIDTH_80 \<or> w = WIDTH_80P80 then Some 4 else if w = WIDTH_160 then Some 8
      else if w = WIDTH_320 then Some 16 else None)"

definition channel_spec :: "wlan_channel \<Rightarrow> bool" where
  "channel_spec c \<longleftrightarrow>
     (\<exists>n k. subchannels (ch_width c) = Some n \<and> 0 \<le> k \<and> k < n \<and>
        uint (ch_primary_frequency_mhz c) =
          uint (ch_center_frequency1_mhz c) - 10 * n + 20 * k + 10) \<and>
     (if ch_width c = WIDTH_80P80
      then ch_center_frequency2_mhz c \<notin> {0, ch_center_frequency1_mhz c}
      else ch_center_frequency2_mhz c = 0)"

lemma uint_channel_offset:
  "uint (channel_offset c) = \<bar>uint (ch_primary_frequency_mhz c) - uint (ch_center_frequency1_mhz c)\<bar>"
  by (auto simp: channel_offset_def word_less_def uint_sub_if' not_less)

text \<open>The offset test of each width, on integers.\<close>

lemma centred_iff:
  fixes p c n :: int
  shows "(\<exists>k. 0 \<le> k \<and> k < n \<and> p = c - 10 * n + 20 * k + 10) \<longleftrightarrow>
    \<bar>p - c\<bar> < 10 * n \<and> 20 dvd (p - c + 10 * n - 10)"
proof
  assume "\<bar>p - c\<bar> < 10 * n \<and> 20 dvd (p - c + 10 * n - 10)"
  then obtain k where k: "p - c + 10 * n - 10 = 20 * k" and b: "\<bar>p - c\<bar> < 10 * n" by (auto elim: dvdE)
  then have "0 \<le> k" "k < n" by linarith+
  with k show "\<exists>k. 0 \<le> k \<and> k < n \<and> p = c - 10 * n + 20 * k + 10"
    by (intro exI [of _ k]) linarith
qed (auto simp: algebra_simps)

lemma offset_eq: "channel_offset c = of_int x \<longleftrightarrow>
    \<bar>uint (ch_primary_frequency_mhz c) - uint (ch_center_frequency1_mhz c)\<bar> = x"
  if "0 \<le> x" "x < 65536" for x
  using that by (auto simp: word_uint_eq_iff uint_channel_offset uint_word_of_int)

lemmas offset_eq_consts = offset_eq [of 0, simplified] offset_eq [of 10, simplified]
  offset_eq [of 30, simplified] offset_eq [of 50, simplified] offset_eq [of 70, simplified]

lemma offset_range_320:
  "channel_offset c \<ge> 10 \<and> channel_offset c \<le> 150 \<and> channel_offset c mod 20 = 10 \<longleftrightarrow>
    (let d = \<bar>uint (ch_primary_frequency_mhz c) - uint (ch_center_frequency1_mhz c)\<bar>
     in 10 \<le> d \<and> d \<le> 150 \<and> d mod 20 = 10)"
  by (simp add: word_le_def word_uint_eq_iff uint_mod uint_channel_offset Let_def)

lemma spacing_20: "\<bar>d\<bar> < 10 \<and> 20 dvd d \<longleftrightarrow> d = (0 :: int)"
  by presburger

lemma dvd_20_offset:
  fixes d :: int
  assumes "m mod 20 = 10"
  shows "20 dvd (d + m) \<longleftrightarrow> (\<exists>q. d = 20 * q + 10)"
proof -
  have "20 dvd (d + m) \<longleftrightarrow> d mod 20 = 10"
    using assms by presburger
  also have "\<dots> \<longleftrightarrow> (\<exists>q. d = 20 * q + 10)" by presburger
  finally show ?thesis .
qed

lemma spacing_40: "\<bar>d\<bar> < 20 \<and> 20 dvd (d + 10) \<longleftrightarrow> \<bar>d\<bar> = (10 :: int)"
  by presburger

lemma spacing_80: "\<bar>d\<bar> < 40 \<and> 20 dvd (d + 30) \<longleftrightarrow> \<bar>d\<bar> = 10 \<or> \<bar>d\<bar> = (30 :: int)"
  unfolding dvd_20_offset [of 30 d, simplified] by auto presburger+

lemma spacing_160:
  "\<bar>d\<bar> < 80 \<and> 20 dvd (d + 70) \<longleftrightarrow> \<bar>d\<bar> = 10 \<or> \<bar>d\<bar> = 30 \<or> \<bar>d\<bar> = 50 \<or> \<bar>d\<bar> = (70 :: int)"
proof
  assume h: "\<bar>d\<bar> < 80 \<and> 20 dvd (d + 70)"
  then obtain q where q: "d = 20 * q + 10" using dvd_20_offset [of 70 d] by auto
  with h have "q \<in> {-4, -3, -2, -1, 0, 1, 2, 3}" by auto
  with q show "\<bar>d\<bar> = 10 \<or> \<bar>d\<bar> = 30 \<or> \<bar>d\<bar> = 50 \<or> \<bar>d\<bar> = 70" by auto
qed presburger

lemma spacing_320:
  "\<bar>d\<bar> < 160 \<and> 20 dvd (d + 150) \<longleftrightarrow> 10 \<le> \<bar>d\<bar> \<and> \<bar>d\<bar> \<le> 150 \<and> \<bar>d\<bar> mod 20 = (10 :: int)"
proof -
  have m: "\<bar>d\<bar> mod 20 = 10 \<longleftrightarrow> (\<exists>q. d = 20 * q + 10)" by presburger
  have b: "\<bar>20 * q + 10\<bar> < 160 \<longleftrightarrow> 10 \<le> \<bar>20 * q + 10\<bar> \<and> \<bar>20 * q + 10\<bar> \<le> 150" for q :: int
    by presburger
  show ?thesis unfolding m using dvd_20_offset [of 150 d] b by auto
qed

lemma width_cases:
  obtains "w = WIDTH_20_NOHT" | "w = WIDTH_20" | "w = WIDTH_40" | "w = WIDTH_80" | "w = WIDTH_80P80"
  | "w = WIDTH_160" | "w = WIDTH_320"
  | "w \<notin> {WIDTH_20_NOHT, WIDTH_20, WIDTH_40, WIDTH_80, WIDTH_80P80, WIDTH_160, WIDTH_320}"
  by blast

lemma channel_spec_alt:
  "channel_spec c \<longleftrightarrow>
     (case subchannels (ch_width c) of None \<Rightarrow> False
      | Some n \<Rightarrow>
          (let d = uint (ch_primary_frequency_mhz c) - uint (ch_center_frequency1_mhz c)
           in \<bar>d\<bar> < 10 * n \<and> 20 dvd (d + (10 * n - 10)))) \<and>
     (if ch_width c = WIDTH_80P80
      then ch_center_frequency2_mhz c \<notin> {0, ch_center_frequency1_mhz c}
      else ch_center_frequency2_mhz c = 0)"
  unfolding channel_spec_def
  using centred_iff [of _ "uint (ch_primary_frequency_mhz c)" "uint (ch_center_frequency1_mhz c)"]
  by (simp add: Let_def add_diff_eq split: option.split)

text \<open>The conversions in two parts: which descriptions are accepted, and how fields are copied.\<close>

definition channel_accepts :: "wlan_channel \<Rightarrow> bool \<Rightarrow> bool" where
  "channel_accepts c a \<longleftrightarrow> ch_width c \<le> WIDTH_320 \<and>
     (if ch_band c = BAND_UNSPECIFIED
      then a \<and> ch_primary_channel c = 0 \<and> ch_primary_frequency_mhz c = 0 \<and>
        ch_center_frequency1_mhz c = 0 \<and> ch_center_frequency2_mhz c = 0
      else ch_band c \<le> BAND_6GHZ \<and> ch_primary_channel c \<noteq> 0 \<and> ch_primary_frequency_mhz c \<noteq> 0 \<and>
        ch_center_frequency1_mhz c \<noteq> 0 \<and> channel_spec c)"

definition channel_image :: "wlan_channel \<Rightarrow> wire_channel" where
  "channel_image c =
     \<lparr>wc_primary_frequency_mhz = ch_primary_frequency_mhz c,
      wc_center_frequency1_mhz = ch_center_frequency1_mhz c,
      wc_center_frequency2_mhz = ch_center_frequency2_mhz c,
      wc_primary_channel = ch_primary_channel c,
      wc_band = (if ch_band c = BAND_UNSPECIFIED then RTWO_CTRL_BAND_UNSPECIFIED else ucast (ch_band c)),
      wc_width = ucast (ch_width c), wc_reserved = [0, 0]\<rparr>"

definition channel_preimage :: "wire_channel \<Rightarrow> wlan_channel" where
  "channel_preimage w =
     \<lparr>ch_band = (if wc_band w = RTWO_CTRL_BAND_UNSPECIFIED then BAND_UNSPECIFIED else ucast (wc_band w)),
      ch_width = ucast (wc_width w), ch_primary_channel = wc_primary_channel w,
      ch_primary_frequency_mhz = wc_primary_frequency_mhz w,
      ch_center_frequency1_mhz = wc_center_frequency1_mhz w,
      ch_center_frequency2_mhz = wc_center_frequency2_mhz w\<rparr>"

lemma ucast_small: "w \<le> 255 \<Longrightarrow> ucast (ucast (w :: u32) :: u8) = w"
  by (simp add: word_le_nat_alt word_unat_eq_iff unsigned_ucast_eq unsigned_take_bit_eq take_bit_nat_eq_self)

lemma ucast_up_down: "ucast (ucast (b :: u8) :: u32) = b"
  by (rule bit_word_eqI) (simp add: bit_simps)

lemma ucast_eq_255: "ucast (b :: u8) = (255 :: u32) \<longleftrightarrow> b = 255"
  using ucast_up_down [of b] ucast_up_down [of 255] by auto

lemma preimage_image: "channel_accepts c a \<Longrightarrow> channel_preimage (channel_image c) = c"
proof -
  assume acc: "channel_accepts c a"
  then have "ch_width c \<le> 255" "ch_band c = 255 \<or> ch_band c \<le> 2"
    by (auto simp: channel_accepts_def width_defs band_defs split: if_splits elim: order_trans)
  moreover from this have "ch_band c \<le> 255" by (auto elim: order_trans)
  ultimately show ?thesis
    by (auto simp: channel_preimage_def channel_image_def band_defs ucast_small
        dest: arg_cong [where f = "ucast :: u8 \<Rightarrow> u32"])
qed

lemma image_preimage: "wc_reserved w = [0, 0] \<Longrightarrow> channel_image (channel_preimage w) = w"
  by (auto simp: channel_preimage_def channel_image_def band_defs ucast_up_down ucast_eq_255)

lemma channel_geometry_eq: "channel_geometry_valid c = channel_spec c"
proof -
  let ?d = "uint (ch_primary_frequency_mhz c) - uint (ch_center_frequency1_mhz c)"
  have off: "channel_offset c = 0 \<longleftrightarrow> ?d = 0"
    "channel_offset c = 10 \<longleftrightarrow> \<bar>?d\<bar> = 10" "channel_offset c = 30 \<longleftrightarrow> \<bar>?d\<bar> = 30"
    "channel_offset c = 50 \<longleftrightarrow> \<bar>?d\<bar> = 50" "channel_offset c = 70 \<longleftrightarrow> \<bar>?d\<bar> = 70"
    using offset_eq_consts [of c] by auto
  have off320: "channel_offset c \<ge> 10 \<and> channel_offset c \<le> 150 \<and> channel_offset c mod 20 = 10 \<and> P
      \<longleftrightarrow> 10 \<le> \<bar>?d\<bar> \<and> \<bar>?d\<bar> \<le> 150 \<and> \<bar>?d\<bar> mod 20 = 10 \<and> P" for P
    using offset_range_320 [of c] by (auto simp: Let_def)
  show ?thesis
    by (cases "ch_width c" rule: width_cases)
      (auto simp: off320 channel_geometry_valid_def channel_spec_alt subchannels_def Let_def off width_defs
        spacing_20 spacing_40 spacing_80 spacing_160 spacing_320)
qed

lemma channel_to_wire_eq:
  "channel_to_wire c a = (if channel_accepts c a then Ret (channel_image c) else Fail EINVAL)"
proof -
  have "ch_width c = WIDTH_80P80 \<and> ch_center_frequency2_mhz c = 0 \<Longrightarrow> \<not> channel_spec c"
    by (simp add: channel_spec_def)
  then show ?thesis
    by (auto simp: channel_to_wire_def channel_accepts_def channel_geometry_eq not_less channel_image_def)
qed

lemma channel_from_wire_eq:
  assumes "wf_channel w"
  shows "channel_from_wire w a =
    (if wc_reserved w = [0, 0] \<and> wc_width w \<le> 6 \<and> channel_accepts (channel_preimage w) a
     then Ret (channel_preimage w) else Fail EPROTO)"
proof -
  obtain r0 r1 where "wc_reserved w = [r0, r1]"
    using assms by (auto simp: wf_channel_def length_Suc_conv numeral_eq_Suc)
  then show ?thesis
    by (auto simp: channel_from_wire_def channel_to_wire_eq Let_def RTWO_CTRL_CHANNEL_WIDTH_320_def
        not_less simp flip: channel_preimage_def)
qed

lemma channel_wire_iff:
  assumes "wf_channel w"
  shows "channel_to_wire c a = Ret w \<longleftrightarrow> channel_from_wire w a = Ret c"
proof
  assume "channel_to_wire c a = Ret w"
  then have acc: "channel_accepts c a" and w: "w = channel_image c"
    by (auto simp: channel_to_wire_eq split: if_splits)
  then have "wc_width w \<le> 6" "wc_reserved w = [0, 0]"
    by (auto simp: channel_accepts_def channel_image_def width_defs word_le_nat_alt unsigned_ucast_eq
        take_bit_nat_eq_self)
  with acc w assms show "channel_from_wire w a = Ret c"
    by (simp add: channel_from_wire_eq preimage_image [OF acc])
next
  assume "channel_from_wire w a = Ret c"
  then show "channel_to_wire c a = Ret w"
    using assms by (auto simp: channel_from_wire_eq channel_to_wire_eq image_preimage split: if_splits)
qed

section \<open>Properties\<close>

text \<open>Converting a channel to the wire and back gives the channel again, and a wire channel that
  decodes is the one its decoding encodes to: on the accepted descriptions the two conversions
  are inverse.\<close>

theorem channel_wire_roundtrip:
  assumes "wf_channel w"
  shows "channel_to_wire c a = Ret w \<longleftrightarrow> channel_from_wire w a = Ret c"
  by (rule channel_wire_iff [OF assms])

theorem channel_wire_roundtrip_witness:
  "channel_from_wire \<lparr>wc_primary_frequency_mhz = 5180, wc_center_frequency1_mhz = 5210,
     wc_center_frequency2_mhz = 0, wc_primary_channel = 36, wc_band = 1, wc_width = 3, wc_reserved = [0, 0]\<rparr> False =
   Ret \<lparr>ch_band = 1, ch_width = 3, ch_primary_channel = 36, ch_primary_frequency_mhz = 5180,
     ch_center_frequency1_mhz = 5210, ch_center_frequency2_mhz = 0\<rparr>"
  by (rule channel_wire_roundtrip [THEN iffD1])
    (simp_all add: wf_channel_def channel_to_wire_def channel_geometry_valid_def channel_offset_def
      width_defs band_defs Let_def)

text \<open>C34. The geometry check accepts a channel exactly when its primary frequency is the centre of
  one of the 20 MHz subchannels of the channel centred at \<open>center_frequency1\<close>, and a second
  centre frequency is given for 80+80 MHz only.\<close>

theorem channel_geometry_spec: "channel_geometry_valid c = channel_spec c"
  by (rule channel_geometry_eq)

end
