(* ===== verification/Wlan_Client.thy ===== *)
theory Wlan_Client
  imports Wlan_Channel
begin

unbundle bit_operations_syntax

text \<open>
  The WLAN offload client (\<open>wlan_offload/src/wlan_offload_client.c\<close>): the handle, the request
  identifiers, sending a command, reading a message, and one function per command.

  The operating system is a record of what it will answer: the outcomes of the next calls of
  \<open>write\<close>, \<open>poll\<close> and \<open>read\<close>, and whether \<open>calloc\<close> fails. The messages that a \<open>write\<close> accepted are
  recorded in \<open>os_sent\<close> with the number of bytes it reported. A function that waits for an
  outcome that never comes does not return: that is the result \<open>None\<close>.
\<close>

section \<open>System calls\<close>

datatype 'a sysret = SysErr errno | SysOk 'a

record wlan_os =
  os_writes :: "nat sysret list"
  os_polls :: "(nat \<times> u16) sysret list"
  os_reads :: "bytes sysret list"
  os_oom :: bool
  os_sent :: "(bytes \<times> nat) list"

text \<open>
  The loop \<open>do \<dots> while (result < 0 && errno == EINTR)\<close> around a system call: the outcomes are
  taken one after the other until one is not \<open>EINTR\<close>.
\<close>

fun eintr_retry :: "'a sysret list \<Rightarrow> ('a sysret \<times> 'a sysret list) option" where
  "eintr_retry [] = None"
| "eintr_retry (r # rs) = (if r = SysErr EINTR then eintr_retry rs else Some (r, rs))"

lemma eintr_retry_Some:
  "eintr_retry rs = Some (r, rs') \<longleftrightarrow>
    (\<exists>n. rs = replicate n (SysErr EINTR) @ r # rs' \<and> r \<noteq> SysErr EINTR)"
proof
  show "eintr_retry rs = Some (r, rs') \<Longrightarrow>
      \<exists>n. rs = replicate n (SysErr EINTR) @ r # rs' \<and> r \<noteq> SysErr EINTR"
  proof (induction rs)
    case (Cons x rs)
    show ?case
    proof (cases "x = SysErr EINTR")
      case True
      with Cons obtain n where "rs = replicate n (SysErr EINTR) @ r # rs'" "r \<noteq> SysErr EINTR" by auto
      with True show ?thesis by (intro exI [of _ "Suc n"]) simp
    next
      case False
      with Cons.prems show ?thesis by (intro exI [of _ 0]) auto
    qed
  qed simp
next
  assume "\<exists>n. rs = replicate n (SysErr EINTR) @ r # rs' \<and> r \<noteq> SysErr EINTR"
  then obtain n where "rs = replicate n (SysErr EINTR) @ r # rs'" "r \<noteq> SysErr EINTR" by blast
  then show "eintr_retry rs = Some (r, rs')" by (induction n arbitrary: rs) auto
qed

lemma eintr_retry_returns: "(\<exists>p. eintr_retry rs = Some p) \<longleftrightarrow> (\<exists>r \<in> set rs. r \<noteq> SysErr EINTR)"
  by (induction rs) auto

section \<open>Handle and request identifiers\<close>

record wlan_handle =
  h_fd :: int
  h_next_request_id :: u32

definition INTERFACE_STATION :: u32 where "INTERFACE_STATION = 0"
definition INTERFACE_AP :: u32 where "INTERFACE_AP = 1"
definition INTERFACE_NONE :: u32 where "INTERFACE_NONE = 255"

lemmas interface_defs = INTERFACE_STATION_def INTERFACE_AP_def INTERFACE_NONE_def

definition validate_handle :: "wlan_handle option \<Rightarrow> bool" where
  "validate_handle h \<longleftrightarrow> (case h of None \<Rightarrow> False | Some x \<Rightarrow> 0 \<le> h_fd x)"

definition validate_interface :: "u32 \<Rightarrow> bool" where
  "validate_interface i \<longleftrightarrow> i = INTERFACE_STATION \<or> i = INTERFACE_AP"

text \<open>\<open>0\<close> is not a request identifier: the counter is advanced a second time when it wraps to it.\<close>

definition next_request_id :: "wlan_handle \<Rightarrow> u32 \<times> wlan_handle" where
  "next_request_id h =
     (let request_id = h_next_request_id h + 1 in
      if request_id = 0
      then (let request_id' = h_next_request_id h + 1 + 1
            in (request_id', h\<lparr>h_next_request_id := request_id'\<rparr>))
      else (request_id, h\<lparr>h_next_request_id := request_id\<rparr>))"

section \<open>Sending a command\<close>

text \<open>
  A function of the client takes the operating system and gives back its new state with the
  outcome; \<open>None\<close> when it does not return. The payload of a command is a pointer and a length.
\<close>

definition send_command_id ::
    "wlan_handle option \<Rightarrow> u16 \<Rightarrow> u32 \<Rightarrow> u32 \<Rightarrow> bytes option \<Rightarrow> nat \<Rightarrow> wlan_os \<Rightarrow>
      (unit cres \<times> wlan_os) option" where
  "send_command_id handle type interface_type request_id payload payload_length os =
     (if \<not> validate_handle handle \<or> \<not> validate_interface interface_type \<or> request_id = 0 \<or>
         (payload_length \<noteq> 0 \<and> payload = None) then Some (Fail EINVAL, os)
      else
        let length = sizeof_header + payload_length in
        if length > RTWO_CTRL_MAX_MESSAGE_SIZE then Some (Fail EMSGSIZE, os)
        else if os_oom os then Some (Fail ENOMEM, os)
        else
          let header = \<lparr>wh_version = RTWO_CTRL_VERSION, wh_type = type, wh_length = of_nat length,
                 wh_request_id = request_id, wh_status = 0, wh_iftype = ucast interface_type,
                 wh_flags = 0, wh_reserved = 0\<rparr> in
          case (if payload_length = 0 then Ret [] else rdn (the payload) 0 payload_length) of
            Ret data \<Rightarrow>
              (let message = enc_header header @ data in
               case eintr_retry (os_writes os) of
                 None \<Rightarrow> None
               | Some (SysErr e, ws) \<Rightarrow> Some (Fail e, os\<lparr>os_writes := ws\<rparr>)
               | Some (SysOk written, ws) \<Rightarrow>
                   Some (check (written = length) EIO,
                         os\<lparr>os_writes := ws, os_sent := os_sent os @ [(message, written)]\<rparr>))
          | Fail e \<Rightarrow> Some (Fail e, os)
          | Fault \<Rightarrow> Some (Fault, os))"

text \<open>
  The identifier returned is the one stored through the caller's \<open>request_id\<close> pointer when that
  is not \<open>NULL\<close>. The counter has advanced also when the command was not sent.
\<close>

definition send_command ::
    "wlan_handle option \<Rightarrow> u16 \<Rightarrow> u32 \<Rightarrow> bytes option \<Rightarrow> nat \<Rightarrow> wlan_os \<Rightarrow>
      (u32 cres \<times> wlan_handle option \<times> wlan_os) option" where
  "send_command handle type interface_type payload payload_length os =
     (if \<not> validate_handle handle then Some (Fail EINVAL, handle, os)
      else
        let (request_id, h) = next_request_id (the handle) in
        case send_command_id (Some h) type interface_type request_id payload payload_length os of
          None \<Rightarrow> None
        | Some (r, os') \<Rightarrow> Some (cbind r (\<lambda>_. Ret request_id), Some h, os'))"

section \<open>Reading a message\<close>

definition POLLIN :: u16 where "POLLIN = 1"
definition POLLERR :: u16 where "POLLERR = 8"
definition POLLHUP :: u16 where "POLLHUP = 16"
definition POLLNVAL :: u16 where "POLLNVAL = 32"

text \<open>The header of a received message is accepted by this test.\<close>

definition header_ok :: "wire_header \<Rightarrow> nat \<Rightarrow> nat \<Rightarrow> bool" where
  "header_ok header len capacity \<longleftrightarrow>
     wh_version header = RTWO_CTRL_VERSION \<and> wh_length header = of_nat len \<and>
     unat (wh_length header) \<le> capacity \<and> wh_reserved header = 0 \<and>
     \<not> (ucast (wh_iftype header) > INTERFACE_AP \<and> ucast (wh_iftype header) \<noteq> INTERFACE_NONE) \<and>
     wh_flags header AND NOT (RTWO_CTRL_FLAG_TRUNCATED OR RTWO_CTRL_FLAG_OVERFLOW) = 0"

text \<open>Waiting for input; no wait for a negative timeout.\<close>

definition poll_input :: "int \<Rightarrow> wlan_os \<Rightarrow> (unit cres \<times> wlan_os) option" where
  "poll_input timeout_ms os =
     (if timeout_ms < 0 then Some (Ret (), os)
      else case eintr_retry (os_polls os) of
             None \<Rightarrow> None
           | Some (SysErr e, ps) \<Rightarrow> Some (Fail e, os\<lparr>os_polls := ps\<rparr>)
           | Some (SysOk (n, revents), ps) \<Rightarrow>
               Some (if n = 0 then Fail ETIMEDOUT
                     else if revents AND POLLIN = 0 \<and>
                         revents AND (POLLERR OR POLLHUP OR POLLNVAL) \<noteq> 0 then Fail ENODEV
                     else Ret (), os\<lparr>os_polls := ps\<rparr>))"

text \<open>
  \<open>read\<close> delivers at most \<open>capacity\<close> bytes. The bytes received are the result; no code of the
  library reads the message buffer behind them.
\<close>

definition read_message ::
    "wlan_handle option \<Rightarrow> nat \<Rightarrow> int \<Rightarrow> wlan_os \<Rightarrow> (bytes cres \<times> wlan_os) option" where
  "read_message handle capacity timeout_ms os =
     (if \<not> validate_handle handle \<or> capacity < sizeof_header \<or> timeout_ms < -1
      then Some (Fail EINVAL, os)
      else case poll_input timeout_ms os of
             None \<Rightarrow> None
           | Some (Fail e, os1) \<Rightarrow> Some (Fail e, os1)
           | Some (Fault, os1) \<Rightarrow> Some (Fault, os1)
           | Some (Ret u, os1) \<Rightarrow>
               (case eintr_retry (os_reads os1) of
                  None \<Rightarrow> None
                | Some (SysErr e, rs) \<Rightarrow> Some (Fail e, os1\<lparr>os_reads := rs\<rparr>)
                | Some (SysOk bs, rs) \<Rightarrow>
                    (let message = take capacity bs in
                     Some (if length message < sizeof_header then Fail EPROTO
                           else cbind (view_header message) (\<lambda>header.
                             cbind (check (header_ok header (length message) capacity) EPROTO)
                               (\<lambda>_. Ret message)), os1\<lparr>os_reads := rs\<rparr>))))"

section \<open>Opening and closing\<close>

text \<open>
  \<open>wlan_offload_open\<close>: what is stored in \<open>*handle\<close>, if anything, the descriptor it closes again on
  the way out, if any, and the outcome. \<open>fd\<close> is the outcome of \<open>open\<close>.
\<close>

definition wlan_offload_open ::
    "bool \<Rightarrow> string option \<Rightarrow> int sysret \<Rightarrow> bool \<Rightarrow> wlan_handle option \<times> int option \<times> unit cres" where
  "wlan_offload_open handle_given device_path fd oom =
     (if \<not> handle_given \<or> device_path = None \<or> device_path = Some [] then (None, None, Fail EINVAL)
      else case fd of
             SysErr e \<Rightarrow> (None, None, Fail e)
           | SysOk descriptor \<Rightarrow>
               if oom then (None, Some descriptor, Fail ENOMEM)
               else (Some \<lparr>h_fd = descriptor, h_next_request_id = 0\<rparr>, None, Ret ()))"

text \<open>The descriptor \<open>wlan_offload_close\<close> closes, if any.\<close>

definition wlan_offload_close :: "wlan_handle option \<Rightarrow> int option" where
  "wlan_offload_close handle =
     (case handle of None \<Rightarrow> None | Some h \<Rightarrow> if h_fd h \<ge> 0 then Some (h_fd h) else None)"

definition wlan_offload_get_fd :: "wlan_handle option \<Rightarrow> int cres" where
  "wlan_offload_get_fd handle = (if validate_handle handle then Ret (h_fd (the handle)) else Fail EINVAL)"

section \<open>Request identifiers\<close>

text \<open>
  Read as a number, the next identifier is the counter modulo \<open>2^32 - 1\<close>, plus one: the
  identifiers run through \<open>1 \<dots> 2^32 - 1\<close> in a cycle.
\<close>

lemma unat_next_request_id:
  "unat (fst (next_request_id h)) = unat (h_next_request_id h) mod (2 ^ 32 - 1) + 1"
proof (cases "h_next_request_id h + 1 = 0")
  case True
  then have "h_next_request_id h = -1" by (simp add: eq_neg_iff_add_eq_0)
  moreover have "unat (-1 :: u32) = 2 ^ 32 - 1" by (simp add: unsigned_minus_1_eq_mask mask_eq_exp_minus_1)
  ultimately show ?thesis by (simp add: next_request_id_def)
next
  case False
  have "unat (h_next_request_id h) \<noteq> 2 ^ 32 - 1"
  proof
    assume "unat (h_next_request_id h) = 2 ^ 32 - 1"
    then have "unat (h_next_request_id h + 1) = 0" by (simp add: unat_word_ariths)
    with False show False by (simp add: word_unat_eq_iff)
  qed
  moreover have "unat (h_next_request_id h) < 2 ^ LENGTH(32)" by (rule unsigned_less)
  ultimately have "unat (h_next_request_id h) < 2 ^ 32 - 1" by simp
  with False show ?thesis by (simp add: next_request_id_def Let_def unat_word_ariths)
qed

lemma next_request_id_counter: "h_next_request_id (snd (next_request_id h)) = fst (next_request_id h)"
  by (simp add: next_request_id_def Let_def)

lemma next_request_id_nonzero: "fst (next_request_id h) \<noteq> 0"
  using unat_next_request_id [of h] by (metis add_is_0 one_neq_zero unat_0)

lemma next_request_id_fd: "h_fd (snd (next_request_id h)) = h_fd h"
  by (simp add: next_request_id_def Let_def)

text \<open>The identifiers of \<open>n\<close> consecutive commands.\<close>

fun request_ids :: "nat \<Rightarrow> wlan_handle \<Rightarrow> u32 list" where
  "request_ids 0 h = []"
| "request_ids (Suc n) h = fst (next_request_id h) # request_ids n (snd (next_request_id h))"

lemma length_request_ids [simp]: "length (request_ids n h) = n"
  by (induction n arbitrary: h) auto

lemma nth_request_ids:
  "k < n \<Longrightarrow> unat (request_ids n h ! k) = (unat (h_next_request_id h) + k) mod (2 ^ 32 - 1) + 1"
proof (induction n arbitrary: h k)
  case (Suc n)
  show ?case
  proof (cases k)
    case 0
    then show ?thesis by (simp add: unat_next_request_id)
  next
    case (Suc j)
    with Suc.prems Suc.IH [of j "snd (next_request_id h)"]
    have "unat (request_ids (Suc n) h ! k) = (unat (fst (next_request_id h)) + j) mod (2 ^ 32 - 1) + 1"
      by (simp add: next_request_id_counter)
    moreover have "(a mod m + 1 + j) mod m = (a + Suc j) mod m" for a m :: nat
      by (metis Suc_eq_plus1 add_Suc_shift mod_add_left_eq)
    ultimately show ?thesis by (simp only: unat_next_request_id Suc)
  qed
qed simp

section \<open>The message of a command\<close>

definition command_header :: "u16 \<Rightarrow> u32 \<Rightarrow> u32 \<Rightarrow> nat \<Rightarrow> wire_header" where
  "command_header type interface_type request_id n =
     \<lparr>wh_version = RTWO_CTRL_VERSION, wh_type = type, wh_length = of_nat (sizeof_header + n),
      wh_request_id = request_id, wh_status = 0, wh_iftype = ucast interface_type,
      wh_flags = 0, wh_reserved = 0\<rparr>"

definition command_message :: "u16 \<Rightarrow> u32 \<Rightarrow> u32 \<Rightarrow> bytes \<Rightarrow> bytes" where
  "command_message type interface_type request_id payload =
     enc_header (command_header type interface_type request_id (length payload)) @ payload"

lemma wf_header [simp]: "wf_header x"
  by (simp add: wf_header_def)

lemma sizeof_header_20 [simp]: "sizeof_header = 20"
  by (simp add: sizeof_header_def)

lemma length_command_message [simp]:
  "length (command_message type i request_id payload) = 20 + length payload"
  by (simp add: command_message_def)

lemma view_command_message:
  "view_header (command_message type i request_id payload) = Ret (command_header type i request_id (length payload))"
  by (simp add: command_message_def wh.view_enc)

lemma drop_command_message: "drop 20 (command_message type i request_id payload) = payload"
  by (simp add: command_message_def)

text \<open>The write of a message of the right size: what happens for each outcome.\<close>

definition write_message :: "bytes \<Rightarrow> wlan_os \<Rightarrow> (unit cres \<times> wlan_os) option" where
  "write_message message os =
     (case eintr_retry (os_writes os) of
        None \<Rightarrow> None
      | Some (SysErr e, ws) \<Rightarrow> Some (Fail e, os\<lparr>os_writes := ws\<rparr>)
      | Some (SysOk written, ws) \<Rightarrow>
          Some (check (written = length message) EIO,
                os\<lparr>os_writes := ws, os_sent := os_sent os @ [(message, written)]\<rparr>))"

definition send_args_ok :: "wlan_handle option \<Rightarrow> u32 \<Rightarrow> u32 \<Rightarrow> bytes option \<Rightarrow> nat \<Rightarrow> bool" where
  "send_args_ok handle interface_type request_id payload n \<longleftrightarrow>
     validate_handle handle \<and> validate_interface interface_type \<and> request_id \<noteq> 0 \<and>
     (n = 0 \<or> payload \<noteq> None)"

lemma send_command_id_eq:
  assumes "\<And>p. payload = Some p \<Longrightarrow> n \<le> length p"
  shows "send_command_id handle type i request_id payload n os =
    (if \<not> send_args_ok handle i request_id payload n then Some (Fail EINVAL, os)
     else if 20 + n > 4096 then Some (Fail EMSGSIZE, os)
     else if os_oom os then Some (Fail ENOMEM, os)
     else write_message (command_message type i request_id
       (case payload of None \<Rightarrow> [] | Some p \<Rightarrow> take n p)) os)"
proof -
  define d where "d = (case payload of None \<Rightarrow> [] | Some p \<Rightarrow> take n p)"
  have data: "(if n = 0 then Ret [] else rdn (the payload) 0 n) = Ret d" "length d = n"
    if "send_args_ok handle i request_id payload n"
    using that assms by (auto simp: d_def send_args_ok_def rdn_def sub_bytes_def split: option.splits)
  show ?thesis
  proof (cases "send_args_ok handle i request_id payload n")
    case True
    then have pre: "\<not> (\<not> validate_handle handle \<or> \<not> validate_interface i \<or> request_id = 0 \<or>
        n \<noteq> 0 \<and> payload = None)"
      by (auto simp: send_args_ok_def)
    show ?thesis
      unfolding send_command_id_def d_def [symmetric]
      by (subst if_not_P [OF pre]) (simp add: data [OF True] True RTWO_CTRL_MAX_MESSAGE_SIZE_def write_message_def
          command_message_def command_header_def split: option.split sysret.split)
  next
    case False
    then show ?thesis by (auto simp: send_command_id_def send_args_ok_def)
  qed
qed

lemma send_command_id_Some:
  "n \<le> length p \<Longrightarrow> send_command_id handle type i request_id (Some p) n os =
    (if \<not> send_args_ok handle i request_id (Some p) n then Some (Fail EINVAL, os)
     else if 20 + n > 4096 then Some (Fail EMSGSIZE, os)
     else if os_oom os then Some (Fail ENOMEM, os)
     else write_message (command_message type i request_id (take n p)) os)"
  by (subst send_command_id_eq) auto

lemma write_message_cases:
  assumes "write_message m os = Some (r, os')"
  obtains (sent) ws where "r = Ret ()" "os' = os\<lparr>os_writes := ws, os_sent := os_sent os @ [(m, length m)]\<rparr>"
  | (short) ws w where "r = Fail EIO" "w \<noteq> length m" "os' = os\<lparr>os_writes := ws, os_sent := os_sent os @ [(m, w)]\<rparr>"
  | (error) e ws where "r = Fail e" "e \<noteq> EINTR" "os' = os\<lparr>os_writes := ws\<rparr>"
  using assms
  by (auto simp: write_message_def check_def eintr_retry_Some split: option.splits sysret.splits if_splits)

lemma send_command_sent:
  assumes "send_command handle type i payload n os = Some (Ret rid, handle', os')"
    and "\<And>p. payload = Some p \<Longrightarrow> n \<le> length p"
  shows "\<exists>m. os_sent os' = os_sent os @ [(m, length m)] \<and> length m = 20 + n \<and> length m \<le> RTWO_CTRL_MAX_MESSAGE_SIZE \<and>
    view_header m = Ret (command_header type i rid n) \<and>
    drop 20 m = (case payload of None \<Rightarrow> [] | Some p \<Rightarrow> take n p) \<and> rid \<noteq> 0"
proof -
  obtain h where h: "handle = Some h" and
    sent: "send_command_id (Some (snd (next_request_id h))) type i rid payload n os = Some (Ret (), os')"
    using assms(1)
    by (auto simp: send_command_def validate_handle_def cbind_Ret_iff split_beta Let_def
        split: if_splits option.splits)
  let ?d = "case payload of None \<Rightarrow> [] | Some p \<Rightarrow> take n p"
  from sent have args: "send_args_ok (Some (snd (next_request_id h))) i rid payload n" "20 + n \<le> 4096"
    and w: "write_message (command_message type i rid ?d) os = Some (Ret (), os')"
    by (auto simp: send_command_id_eq [OF assms(2)] split: if_splits)
  have "length ?d = n" using args(1) assms(2) by (auto simp: send_args_ok_def split: option.split)
  with w args show ?thesis
    by (auto elim!: write_message_cases intro!: exI [of _ "command_message type i rid ?d"]
        simp: RTWO_CTRL_MAX_MESSAGE_SIZE_def view_command_message drop_command_message send_args_ok_def)
qed

lemma write_message_no_fault: "write_message m os \<noteq> Some (Fault, os')"
  by (auto elim: write_message_cases)

lemma send_command_id_no_fault:
  assumes "\<And>p. payload = Some p \<Longrightarrow> n \<le> length p"
  shows "send_command_id h t i rid payload n os \<noteq> Some (Fault, os')"
  using write_message_no_fault by (auto simp: send_command_id_eq [OF assms])

lemma send_command_no_fault:
  assumes "\<And>p. payload = Some p \<Longrightarrow> n \<le> length p"
  shows "send_command h t i payload n os \<noteq> Some (Fault, h', os')"
  using send_command_id_no_fault [OF assms]
  by (auto simp: send_command_def cbind_Fault_iff split_beta split: option.splits)

section \<open>Received messages\<close>

lemma poll_input_no_fault: "poll_input t os \<noteq> Some (Fault, os')"
  by (auto simp: poll_input_def split: option.splits sysret.splits if_splits)

lemma read_message_Ret:
  assumes "read_message h cap t os = Some (Ret m, os')"
  shows "20 \<le> length m \<and> length m \<le> cap \<and> header_ok (get_header m) (length m) cap"
  using assms
  by (auto simp: read_message_def Let_def cbind_Ret_iff view_header_def
      not_less split: option.splits sysret.splits if_splits cres.splits)

lemma read_message_no_fault: "read_message h cap t os \<noteq> Some (Fault, os')"
  using poll_input_no_fault [of t os]
  by (auto simp: read_message_def Let_def cbind_Fault_iff view_header_def
      split: option.splits sysret.splits if_splits cres.splits)

section \<open>Properties\<close>

text \<open>C8. The identifiers of up to \<open>2^32 - 1\<close> consecutive commands on a handle are pairwise
  different and none of them is \<open>0\<close>, whatever value the counter starts from; a reply can
  therefore be matched with its command by the identifier.\<close>

theorem request_ids_distinct:
  assumes "n \<le> 2 ^ 32 - 1"
  shows "distinct (request_ids n h) \<and> 0 \<notin> set (request_ids n h)"
proof
  let ?c = "unat (h_next_request_id h)" and ?m = "2 ^ 32 - 1 :: nat"
  show "distinct (request_ids n h)"
    unfolding distinct_conv_nth
  proof (intro allI impI)
    fix i j
    assume ij: "i < length (request_ids n h)" "j < length (request_ids n h)" "i \<noteq> j"
    show "request_ids n h ! i \<noteq> request_ids n h ! j"
    proof
      assume "request_ids n h ! i = request_ids n h ! j"
      then have "(?c + i) mod ?m = (?c + j) mod ?m"
        using ij nth_request_ids [of i n h] nth_request_ids [of j n h] by simp
      moreover have "i < ?m" "j < ?m" using ij(1,2) assms by auto
      ultimately have "i = j" by (rule mod_shift_inject)
      with ij show False by simp
    qed
  qed
  have "unat (request_ids n h ! k) \<noteq> 0" if "k < n" for k
    using nth_request_ids [OF that] by simp
  then show "0 \<notin> set (request_ids n h)" by (metis in_set_conv_nth length_request_ids unat_0)
qed

theorem request_ids_distinct_witness:
  "distinct (request_ids 3 \<lparr>h_fd = 3, h_next_request_id = 0xFFFFFFFE\<rparr>) \<and>
   0 \<notin> set (request_ids 3 \<lparr>h_fd = 3, h_next_request_id = 0xFFFFFFFE\<rparr>)"
  by (rule request_ids_distinct) simp

text \<open>When \<open>wlan_offload_send_command\<close> returns an identifier, it has written exactly one message,
  completely: at most 4096 bytes, with a version 2 header that carries the command, the
  interface, the length and that identifier, which is not \<open>0\<close>, followed by the payload.\<close>

theorem send_command_message:
  assumes "send_command handle type i payload n os = Some (Ret rid, handle', os')"
    and "\<And>p. payload = Some p \<Longrightarrow> n \<le> length p"
  shows "\<exists>m. os_sent os' = os_sent os @ [(m, length m)] \<and> length m = 20 + n \<and> length m \<le> RTWO_CTRL_MAX_MESSAGE_SIZE \<and>
    view_header m = Ret (command_header type i rid n) \<and>
    drop 20 m = (case payload of None \<Rightarrow> [] | Some p \<Rightarrow> take n p) \<and> rid \<noteq> 0"
  by (rule send_command_sent [OF assms])

theorem send_command_message_witness:
  "\<exists>m. length m = 24 \<and> view_header m = Ret (command_header CMD_DISCONNECT INTERFACE_STATION 1 4) \<and>
    drop 20 m = [3, 0, 0, 0]"
proof -
  let ?os = "\<lparr>os_writes = [SysErr EINTR, SysOk 24], os_polls = [], os_reads = [], os_oom = False, os_sent = []\<rparr>"
  have "send_command (Some \<lparr>h_fd = 3, h_next_request_id = 0\<rparr>) CMD_DISCONNECT INTERFACE_STATION
      (Some [3, 0, 0, 0]) 4 ?os =
    Some (Ret 1, Some \<lparr>h_fd = 3, h_next_request_id = 1\<rparr>, ?os\<lparr>os_writes := [],
      os_sent := [(command_message CMD_DISCONNECT INTERFACE_STATION 1 [3, 0, 0, 0], 24)]\<rparr>)"
    by (simp add: send_command_def next_request_id_def validate_handle_def validate_interface_def
        send_command_id_Some interface_defs send_args_ok_def write_message_def)
  from send_command_message [OF this] show ?thesis
    by (intro exI [of _ "command_message CMD_DISCONNECT INTERFACE_STATION 1 [3, 0, 0, 0]"]) auto
qed

end
