(* ===== verification/Wlan_Commands.thy ===== *)
theory Wlan_Commands
  imports Wlan_Client
begin

unbundle bit_operations_syntax

text \<open>
  The commands of the WLAN offload client (\<open>wlan_offload/src/wlan_offload_client.c\<close>), one group per
  function: the public parameter structure, the request the function builds after its checks
  (\<open>build_\<dots>\<close>, in the order of the code), and the function, which sends the request. A pointer
  parameter that may be \<open>NULL\<close> is an option; an array behind a pointer is a list, and the copy of
  more elements than the list has is a \<open>Fault\<close>.
\<close>

text \<open>\<open>memset\<close> to zero of the request and \<open>memcpy\<close> of \<open>n\<close> bytes to the front of a field of \<open>cap\<close>.\<close>

definition copy_field :: "nat \<Rightarrow> bytes \<Rightarrow> nat \<Rightarrow> bytes cres" where
  "copy_field cap src n = cbind (rdn src 0 n) (\<lambda>d. wrn (replicate cap 0) 0 d)"

definition copy_opt :: "nat \<Rightarrow> bytes option \<Rightarrow> nat \<Rightarrow> bytes cres" where
  "copy_opt cap src n = (if n = 0 then Ret (replicate cap 0) else copy_field cap (the src) n)"

lemma copy_field_eq:
  "copy_field cap src n = (if n \<le> length src \<and> n \<le> cap then Ret (pad_to cap (take n src)) else Fault)"
  by (auto simp: copy_field_def rdn_def wrn_def sub_bytes_def pad_to_def min_def)

lemma copy_field_Ret [c_step]:
  "n \<le> length src \<Longrightarrow> n \<le> cap \<Longrightarrow> copy_field cap src n = Ret (pad_to cap (take n src))"
  by (simp add: copy_field_eq)

lemma copy_opt_Ret [c_step]:
  "n \<le> cap \<Longrightarrow> (n \<noteq> 0 \<Longrightarrow> \<exists>s. src = Some s \<and> n \<le> length s) \<Longrightarrow>
    copy_opt cap src n = Ret (pad_to cap (case src of None \<Rightarrow> [] | Some s \<Rightarrow> take n s))"
  by (auto simp: copy_opt_def copy_field_eq pad_to_def split: option.split)

text \<open>Every command ends by sending the request it built.\<close>

definition submit ::
    "wlan_handle option \<Rightarrow> u16 \<Rightarrow> u32 \<Rightarrow> bytes cres \<Rightarrow> wlan_os \<Rightarrow>
      (u32 cres \<times> wlan_handle option \<times> wlan_os) option" where
  "submit handle type interface_type request os =
     (case request of
        Ret b \<Rightarrow> send_command handle type interface_type (Some b) (length b) os
      | Fail e \<Rightarrow> Some (Fail e, handle, os)
      | Fault \<Rightarrow> Some (Fault, handle, os))"

definition cmap :: "('a \<Rightarrow> 'b) \<Rightarrow> 'a cres \<Rightarrow> 'b cres" where
  "cmap f m = cbind m (\<lambda>a. Ret (f a))"

lemma cmap_simps [simp]: "cmap f (Ret a) = Ret (f a)" "cmap f (Fail e) = Fail e" "cmap f Fault = Fault"
  by (simp_all add: cmap_def)

section \<open>Interface state\<close>

definition build_set_interface :: "int \<Rightarrow> wire_set_interface cres" where
  "build_set_interface enabled =
     (if enabled \<noteq> 0 \<and> enabled \<noteq> 1 then Fail EINVAL
      else Ret \<lparr>wsi_enabled = of_int enabled, wsi_reserved = [0, 0, 0]\<rparr>)"

definition wlan_offload_set_interface where
  "wlan_offload_set_interface handle interface_type enabled os =
     submit handle CMD_SET_INTERFACE interface_type (cmap enc_set_interface (build_set_interface enabled)) os"

section \<open>Scan\<close>

record wlan_ssid =
  ss_length :: u8
  ss_value :: bytes

record wlan_scan_params =
  sp_flags :: u32
  sp_duration_ms :: u16
  sp_ssids :: "wlan_ssid list option"
  sp_ssid_count :: nat
  sp_channels :: "wlan_channel list option"
  sp_channel_count :: nat
  sp_bssid :: bytes
  sp_ies :: "bytes option"
  sp_ies_length :: nat

definition SCAN_PASSIVE :: u32 where "SCAN_PASSIVE = 1"
definition SCAN_RANDOM_MAC :: u32 where "SCAN_RANDOM_MAC = 2"
definition SCAN_FLUSH_CACHE :: u32 where "SCAN_FLUSH_CACHE = 4"

definition ssid_to_wire :: "wlan_ssid \<Rightarrow> wire_ssid cres" where
  "ssid_to_wire s = cmap (\<lambda>v. \<lparr>ws_length = ss_length s, ws_value = v\<rparr>)
     (copy_field RTWO_CTRL_MAX_SSID_LENGTH (ss_value s) (unat (ss_length s)))"

text \<open>The two loops over the first \<open>n\<close> elements of the caller's arrays.\<close>

fun scan_ssids :: "nat \<Rightarrow> wlan_ssid list \<Rightarrow> wire_ssid list cres" where
  "scan_ssids 0 ss = Ret []"
| "scan_ssids (Suc n) [] = Fault"
| "scan_ssids (Suc n) (s # ss) =
     (if unat (ss_length s) > RTWO_CTRL_MAX_SSID_LENGTH then Fail EINVAL
      else cbind (ssid_to_wire s) (\<lambda>w. cmap ((#) w) (scan_ssids n ss)))"

fun scan_channels :: "nat \<Rightarrow> wlan_channel list \<Rightarrow> wire_channel list cres" where
  "scan_channels 0 cs = Ret []"
| "scan_channels (Suc n) [] = Fault"
| "scan_channels (Suc n) (c # cs) =
     cbind (fail_as EINVAL (channel_to_wire c False)) (\<lambda>w. cmap ((#) w) (scan_channels n cs))"

definition zero_ssid :: wire_ssid where "zero_ssid = \<lparr>ws_length = 0, ws_value = replicate 32 0\<rparr>"

definition zero_channel :: wire_channel where
  "zero_channel = \<lparr>wc_primary_frequency_mhz = 0, wc_center_frequency1_mhz = 0,
     wc_center_frequency2_mhz = 0, wc_primary_channel = 0, wc_band = 0, wc_width = 0,
     wc_reserved = [0, 0]\<rparr>"

definition fill :: "nat \<Rightarrow> 'a \<Rightarrow> 'a list \<Rightarrow> 'a list" where
  "fill n z xs = xs @ replicate (n - length xs) z"

definition build_scan :: "wlan_scan_params option \<Rightarrow> wire_scan_request cres" where
  "build_scan params =
     (case params of None \<Rightarrow> Fail EINVAL
      | Some p \<Rightarrow>
        if sp_ssid_count p > RTWO_CTRL_MAX_SCAN_SSIDS \<or>
           sp_channel_count p > RTWO_CTRL_MAX_SCAN_CHANNELS \<or>
           sp_ies_length p > RTWO_CTRL_MAX_IE_LENGTH \<or>
           sp_flags p AND NOT (SCAN_PASSIVE OR SCAN_RANDOM_MAC OR SCAN_FLUSH_CACHE) \<noteq> 0 \<or>
           (sp_ssid_count p \<noteq> 0 \<and> sp_ssids p = None) \<or>
           (sp_channel_count p \<noteq> 0 \<and> sp_channels p = None) \<or>
           (sp_ies_length p \<noteq> 0 \<and> sp_ies p = None) then Fail EINVAL
        else
          cbind (rdn (sp_bssid p) 0 6) (\<lambda>bssid.
          cbind (if sp_ssid_count p = 0 then Ret [] else scan_ssids (sp_ssid_count p) (the (sp_ssids p))) (\<lambda>ssids.
          cbind (if sp_channel_count p = 0 then Ret [] else scan_channels (sp_channel_count p) (the (sp_channels p))) (\<lambda>channels.
          cbind (copy_opt RTWO_CTRL_MAX_IE_LENGTH (sp_ies p) (sp_ies_length p)) (\<lambda>ies.
          Ret \<lparr>wsr_flags = sp_flags p, wsr_duration_ms = sp_duration_ms p,
               wsr_ssid_count = of_nat (sp_ssid_count p), wsr_channel_count = of_nat (sp_channel_count p),
               wsr_ies_length = of_nat (sp_ies_length p), wsr_bssid = bssid,
               wsr_ssids = fill RTWO_CTRL_MAX_SCAN_SSIDS zero_ssid ssids,
               wsr_channels = fill RTWO_CTRL_MAX_SCAN_CHANNELS zero_channel channels,
               wsr_ies = ies\<rparr>)))))"

definition wlan_offload_scan where
  "wlan_offload_scan handle interface_type params os =
     submit handle CMD_SCAN interface_type (cmap enc_scan_request (build_scan params)) os"

definition wlan_offload_abort_scan ::
    "wlan_handle option \<Rightarrow> u32 \<Rightarrow> u32 \<Rightarrow> wlan_os \<Rightarrow> (unit cres \<times> wlan_os) option" where
  "wlan_offload_abort_scan handle interface_type request_id os =
     send_command_id handle CMD_ABORT_SCAN interface_type request_id None 0 os"

section \<open>Authentication and association\<close>

record wlan_auth_params =
  ap_ssid :: wlan_ssid
  ap_bssid :: bytes
  ap_channel :: wlan_channel
  ap_auth_type :: u32
  ap_data :: "bytes option"
  ap_data_length :: nat

definition AUTH_AUTOMATIC :: u32 where "AUTH_AUTOMATIC = 4"

definition build_authenticate :: "wlan_auth_params option \<Rightarrow> wire_auth_request cres" where
  "build_authenticate params =
     (case params of None \<Rightarrow> Fail EINVAL
      | Some p \<Rightarrow>
        if unat (ss_length (ap_ssid p)) > RTWO_CTRL_MAX_SSID_LENGTH \<or>
           ap_auth_type p > AUTH_AUTOMATIC \<or>
           ap_data_length p > RTWO_CTRL_MAX_IE_LENGTH \<or>
           (ap_data_length p \<noteq> 0 \<and> ap_data p = None) then Fail EINVAL
        else
          cbind (ssid_to_wire (ap_ssid p)) (\<lambda>ssid.
          cbind (rdn (ap_bssid p) 0 6) (\<lambda>bssid.
          cbind (fail_as EINVAL (channel_to_wire (ap_channel p) False)) (\<lambda>channel.
          cbind (copy_opt RTWO_CTRL_MAX_IE_LENGTH (ap_data p) (ap_data_length p)) (\<lambda>dat.
          Ret \<lparr>war_ssid = ssid, war_bssid = bssid, war_channel = channel,
               war_auth_type = ucast (ap_auth_type p), war_reserved = [0, 0, 0],
               war_data_length = of_nat (ap_data_length p), war_data = dat\<rparr>)))))"

definition wlan_offload_authenticate where
  "wlan_offload_authenticate handle interface_type params os =
     submit handle CMD_AUTHENTICATE interface_type (cmap enc_auth_request (build_authenticate params)) os"

record wlan_assoc_params =
  as_bssid :: bytes
  as_ies :: "bytes option"
  as_ies_length :: nat

definition build_associate :: "wlan_assoc_params option \<Rightarrow> wire_assoc_request cres" where
  "build_associate params =
     (case params of None \<Rightarrow> Fail EINVAL
      | Some p \<Rightarrow>
        if as_ies_length p > RTWO_CTRL_MAX_IE_LENGTH \<or> (as_ies_length p \<noteq> 0 \<and> as_ies p = None)
        then Fail EINVAL
        else
          cbind (rdn (as_bssid p) 0 6) (\<lambda>bssid.
          cbind (copy_opt RTWO_CTRL_MAX_IE_LENGTH (as_ies p) (as_ies_length p)) (\<lambda>ies.
          Ret \<lparr>was_bssid = bssid, was_ies_length = of_nat (as_ies_length p), was_ies = ies\<rparr>)))"

definition wlan_offload_associate where
  "wlan_offload_associate handle interface_type params os =
     submit handle CMD_ASSOCIATE interface_type (cmap enc_assoc_request (build_associate params)) os"

definition wlan_offload_disconnect where
  "wlan_offload_disconnect handle interface_type reason os =
     submit handle CMD_DISCONNECT interface_type
       (Ret (enc_disconnect_request \<lparr>wdr_reason = reason, wdr_reserved = 0\<rparr>)) os"

section \<open>Keys\<close>

record wlan_key =
  k_cipher :: u32
  k_index :: u8
  k_pairwise :: u8
  k_set_transmit :: u8
  k_peer :: bytes
  k_data :: "bytes option"
  k_data_length :: nat
  k_sequence :: "bytes option"
  k_sequence_length :: nat

definition CIPHER_AES_CMAC :: u32 where "CIPHER_AES_CMAC = 8"

definition build_set_key :: "wlan_key option \<Rightarrow> wire_key_request cres" where
  "build_set_key key =
     (case key of None \<Rightarrow> Fail EINVAL
      | Some k \<Rightarrow>
        if k_cipher k > CIPHER_AES_CMAC \<or> k_data k = None \<or> k_data_length k = 0 \<or>
           k_data_length k > RTWO_CTRL_MAX_KEY_LENGTH \<or>
           k_sequence_length k > RTWO_CTRL_MAX_SEQUENCE_LENGTH \<or>
           (k_sequence_length k \<noteq> 0 \<and> k_sequence k = None) \<or>
           k_pairwise k > 1 \<or> k_set_transmit k > 1 then Fail EINVAL
        else
          cbind (rdn (k_peer k) 0 6) (\<lambda>peer.
          cbind (copy_field RTWO_CTRL_MAX_KEY_LENGTH (the (k_data k)) (k_data_length k)) (\<lambda>dat.
          cbind (copy_opt RTWO_CTRL_MAX_SEQUENCE_LENGTH (k_sequence k) (k_sequence_length k)) (\<lambda>seq.
          Ret \<lparr>wkr_cipher = k_cipher k, wkr_index = k_index k, wkr_pairwise = k_pairwise k,
               wkr_set_transmit = k_set_transmit k, wkr_key_length = of_nat (k_data_length k),
               wkr_peer = peer, wkr_sequence_length = of_nat (k_sequence_length k),
               wkr_reserved = 0, wkr_key = dat, wkr_sequence = seq\<rparr>))))"

definition wlan_offload_set_key where
  "wlan_offload_set_key handle interface_type key os =
     submit handle CMD_SET_KEY interface_type (cmap enc_key_request (build_set_key key)) os"

definition build_delete_key :: "u8 \<Rightarrow> int \<Rightarrow> bytes option \<Rightarrow> wire_delete_key_request cres" where
  "build_delete_key idx pw peer =
     (if pw \<noteq> 0 \<and> pw \<noteq> 1 then Fail EINVAL
      else cbind (case peer of None \<Rightarrow> Ret (replicate 6 0) | Some a \<Rightarrow> rdn a 0 6) (\<lambda>p.
        Ret \<lparr>wdk_index = idx, wdk_pairwise = of_int pw, wdk_peer = p\<rparr>))"

definition wlan_offload_delete_key where
  "wlan_offload_delete_key handle interface_type idx pw peer os =
     submit handle CMD_DELETE_KEY interface_type
       (cmap enc_delete_key_request (build_delete_key idx pw peer)) os"

definition build_set_default_key :: "u8 \<Rightarrow> int \<Rightarrow> int \<Rightarrow> wire_default_key_request cres" where
  "build_set_default_key idx unicast multicast =
     (if (unicast \<noteq> 0 \<and> unicast \<noteq> 1) \<or> (multicast \<noteq> 0 \<and> multicast \<noteq> 1) then Fail EINVAL
      else Ret \<lparr>wdf_index = idx, wdf_unicast = of_int unicast, wdf_multicast = of_int multicast,
                wdf_reserved = 0\<rparr>)"

definition wlan_offload_set_default_key where
  "wlan_offload_set_default_key handle interface_type idx unicast multicast os =
     submit handle CMD_SET_DEFAULT_KEY interface_type
       (cmap enc_default_key_request (build_set_default_key idx unicast multicast)) os"

section \<open>Frames\<close>

record wlan_mgmt_frame =
  mf_channel :: wlan_channel
  mf_off_channel :: u8
  mf_wait_ms :: u32
  mf_cookie :: u64
  mf_data :: "bytes option"
  mf_data_length :: nat

definition build_mgmt :: "wlan_mgmt_frame option \<Rightarrow> wire_mgmt_frame cres" where
  "build_mgmt frame =
     (case frame of None \<Rightarrow> Fail EINVAL
      | Some f \<Rightarrow>
        if mf_data f = None \<or> mf_data_length f = 0 \<or>
           mf_data_length f > RTWO_CTRL_MAX_FRAME_LENGTH \<or> mf_off_channel f > 1 then Fail EINVAL
        else
          cbind (fail_as EINVAL (channel_to_wire (mf_channel f) False)) (\<lambda>channel.
          cbind (copy_field RTWO_CTRL_MAX_FRAME_LENGTH (the (mf_data f)) (mf_data_length f)) (\<lambda>dat.
          Ret \<lparr>wmf_channel = channel, wmf_off_channel = mf_off_channel f, wmf_reserved = [0, 0, 0],
               wmf_wait_ms = mf_wait_ms f, wmf_cookie = mf_cookie f,
               wmf_data_length = of_nat (mf_data_length f), wmf_data = dat\<rparr>)))"

definition wlan_offload_send_mgmt where
  "wlan_offload_send_mgmt handle interface_type frame os =
     submit handle CMD_MGMT_TX interface_type (cmap enc_mgmt_frame (build_mgmt frame)) os"

definition build_eapol :: "bytes option \<Rightarrow> bytes option \<Rightarrow> nat \<Rightarrow> wire_eapol_frame cres" where
  "build_eapol destination dat n =
     (if destination = None \<or> dat = None \<or> n = 0 \<or> n > RTWO_CTRL_MAX_EAPOL_LENGTH then Fail EINVAL
      else
        cbind (rdn (the destination) 0 6) (\<lambda>dst.
        cbind (copy_field RTWO_CTRL_MAX_EAPOL_LENGTH (the dat) n) (\<lambda>d.
        Ret \<lparr>wef_source = replicate 6 0, wef_destination = dst, wef_data_length = of_nat n, wef_data = d\<rparr>)))"

definition wlan_offload_send_eapol where
  "wlan_offload_send_eapol handle interface_type destination dat n os =
     submit handle CMD_EAPOL_TX interface_type (cmap enc_eapol_frame (build_eapol destination dat n)) os"

definition wlan_offload_external_auth_response ::
    "wlan_handle option \<Rightarrow> u32 \<Rightarrow> u32 \<Rightarrow> u16 \<Rightarrow> wlan_os \<Rightarrow> (unit cres \<times> wlan_os) option" where
  "wlan_offload_external_auth_response handle interface_type request_id status os =
     send_command_id handle CMD_EXTERNAL_AUTH_RESPONSE interface_type request_id
       (Some (enc_external_auth_response \<lparr>wer_status = status, wer_reserved = 0\<rparr>))
       sizeof_external_auth_response os"

section \<open>The requests are well formed\<close>

text \<open>
  Sending a built request: with a valid handle, a valid interface and memory for the message the
  outcome is the outcome of the write, and the identifier is fresh.
\<close>

lemma submit_Ret:
  assumes "submit handle type i req os = Some (Ret rid, handle', os')"
  shows "\<exists>b m. req = Ret b \<and> os_sent os' = os_sent os @ [(m, length m)] \<and> length m = 20 + length b \<and>
    view_header m = Ret (command_header type i rid (length b)) \<and> drop 20 m = b \<and> rid \<noteq> 0"
proof -
  obtain b where b: "req = Ret b" "send_command handle type i (Some b) (length b) os = Some (Ret rid, handle', os')"
    using assms by (auto simp: submit_def split: cres.splits)
  then show ?thesis using send_command_sent [OF b(2)] by auto
qed

lemma cmap_Ret_iff: "cmap f m = Ret b \<longleftrightarrow> (\<exists>a. m = Ret a \<and> b = f a)"
  by (cases m) auto

lemma wf_ssid_to_wire: "ssid_to_wire s = Ret w \<Longrightarrow> wf_ssid w"
  by (auto simp: ssid_to_wire_def cmap_Ret_iff copy_field_eq wf_ssid_def RTWO_CTRL_MAX_SSID_LENGTH_def
      split: if_splits)

lemma wf_channel_to_wire: "channel_to_wire c a = Ret w \<Longrightarrow> wf_channel w"
  by (auto simp: channel_to_wire_eq channel_image_def wf_channel_def split: if_splits)

lemma wf_scan_ssids: "scan_ssids n ss = Ret ws \<Longrightarrow> length ws = n \<and> (\<forall>w \<in> set ws. wf_ssid w)"
  by (induction n ss arbitrary: ws rule: scan_ssids.induct)
    (auto simp: cbind_Ret_iff cmap_Ret_iff wf_ssid_to_wire split: if_splits)

lemma wf_scan_channels: "scan_channels n cs = Ret ws \<Longrightarrow> length ws = n \<and> (\<forall>w \<in> set ws. wf_channel w)"
  by (induction n cs arbitrary: ws rule: scan_channels.induct)
    (auto simp: cbind_Ret_iff cmap_Ret_iff wf_channel_to_wire)

lemma length_copy_field: "copy_field cap src n = Ret d \<Longrightarrow> length d = cap"
  by (auto simp: copy_field_eq split: if_splits)

lemma length_copy_opt: "copy_opt cap src n = Ret d \<Longrightarrow> length d = cap"
  by (auto simp: copy_opt_def length_copy_field split: if_splits)

lemma length_rdn: "rdn bs off n = Ret d \<Longrightarrow> length d = n"
  by (auto simp: rdn_def split: if_splits)

lemma wf_zero [simp]: "wf_ssid zero_ssid" "wf_channel zero_channel"
  by (simp_all add: wf_ssid_def zero_ssid_def wf_channel_def zero_channel_def)

lemma length_fill: "length xs \<le> n \<Longrightarrow> length (fill n z xs) = n"
  by (simp add: fill_def)

lemma in_set_fill: "x \<in> set (fill n z xs) \<Longrightarrow> x = z \<or> x \<in> set xs"
  by (auto simp: fill_def)

lemmas wf_parts = wf_ssid_to_wire wf_channel_to_wire length_copy_field length_copy_opt length_rdn
  wf_scan_ssids wf_scan_channels

lemma wf_build_scan: "build_scan p = Ret r \<Longrightarrow> wf_scan_request r"
  by (auto simp: build_scan_def cbind_Ret_iff wf_scan_request_def limit_defs length_fill
      split: option.split_asm if_split_asm dest!: wf_parts in_set_fill)

lemma wf_build_authenticate: "build_authenticate p = Ret r \<Longrightarrow> wf_auth_request r"
  by (auto simp: build_authenticate_def cbind_Ret_iff wf_auth_request_def limit_defs
      split: option.split_asm if_split_asm dest!: wf_parts)

lemma wf_build_associate: "build_associate p = Ret r \<Longrightarrow> wf_assoc_request r"
  by (auto simp: build_associate_def cbind_Ret_iff wf_assoc_request_def limit_defs
      split: option.split_asm if_split_asm dest!: wf_parts)

lemma wf_build_set_key: "build_set_key k = Ret r \<Longrightarrow> wf_key_request r"
  by (auto simp: build_set_key_def cbind_Ret_iff wf_key_request_def limit_defs
      split: option.split_asm if_split_asm dest!: wf_parts)

lemma wf_build_mgmt: "build_mgmt f = Ret r \<Longrightarrow> wf_mgmt_frame r"
  by (auto simp: build_mgmt_def cbind_Ret_iff wf_mgmt_frame_def limit_defs
      split: option.split_asm if_split_asm dest!: wf_parts)

lemma wf_build_eapol: "build_eapol dst d n = Ret r \<Longrightarrow> wf_eapol_frame r"
  by (auto simp: build_eapol_def cbind_Ret_iff wf_eapol_frame_def limit_defs
      split: if_split_asm dest!: wf_parts)

lemma wf_build_delete_key: "build_delete_key idx pw peer = Ret r \<Longrightarrow> wf_delete_key_request r"
  by (auto simp: build_delete_key_def cbind_Ret_iff wf_delete_key_request_def
      split: if_split_asm option.split_asm dest!: wf_parts)

section \<open>What the requests carry\<close>

text \<open>The request \<open>b\<close> was sent as the payload of one command message.\<close>

definition sent_request :: "u16 \<Rightarrow> u32 \<Rightarrow> u32 \<Rightarrow> bytes \<Rightarrow> wlan_os \<Rightarrow> wlan_os \<Rightarrow> bool" where
  "sent_request cmd i rid b os os' \<longleftrightarrow>
     (\<exists>m. os_sent os' = os_sent os @ [(m, length m)] \<and> rid \<noteq> 0 \<and>
        view_header m = Ret (command_header cmd i rid (length b)) \<and> drop 20 m = b)"

lemma submit_sent:
  assumes "submit handle type i (cmap enc req) os = Some (Ret rid, handle', os')"
  obtains r where "req = Ret r" "sent_request type i rid (enc r) os os'"
  using submit_Ret [OF assms] by (auto simp: cmap_Ret_iff sent_request_def)

lemma nth_scan_ssids: "scan_ssids n ss = Ret ws \<Longrightarrow> k < n \<Longrightarrow> k < length ss \<and> ssid_to_wire (ss ! k) = Ret (ws ! k)"
  by (induction n ss arbitrary: ws k rule: scan_ssids.induct)
    (auto simp: cbind_Ret_iff cmap_Ret_iff nth_Cons split: if_splits nat.splits)

lemma nth_scan_channels: "scan_channels n cs = Ret ws \<Longrightarrow> k < n \<Longrightarrow>
    k < length cs \<and> channel_to_wire (cs ! k) False = Ret (ws ! k)"
  by (induction n cs arbitrary: ws k rule: scan_channels.induct)
    (auto simp: cbind_Ret_iff cmap_Ret_iff nth_Cons split: nat.splits)

lemma nth_fill: "k < length xs \<Longrightarrow> fill n z xs ! k = xs ! k"
  by (simp add: fill_def nth_append)

lemma take_copy_field: "copy_field cap src n = Ret d \<Longrightarrow> take n d = take n src \<and> n \<le> length src"
  by (auto simp: copy_field_eq pad_to_def split: if_splits)

lemma take_copy_opt: "copy_opt cap src n = Ret d \<Longrightarrow> take n d = take n (case src of None \<Rightarrow> [] | Some s \<Rightarrow> s) \<or> src = None \<and> n \<noteq> 0"
  by (auto simp: copy_opt_def take_copy_field split: if_splits option.split)

lemma ssid_to_wire_Ret: "ssid_to_wire s = Ret w \<Longrightarrow> ws_length w = ss_length s \<and>
    take (unat (ss_length s)) (ws_value w) = take (unat (ss_length s)) (ss_value s)"
  by (auto simp: ssid_to_wire_def cmap_Ret_iff take_copy_field)

text \<open>What a scan request says: the request as the firmware reads it, against the parameters.\<close>

definition scan_request_matches :: "wlan_scan_params \<Rightarrow> wire_scan_request \<Rightarrow> bool" where
  "scan_request_matches p r \<longleftrightarrow>
     wsr_flags r = sp_flags p \<and> wsr_duration_ms r = sp_duration_ms p \<and>
     wsr_bssid r = take 6 (sp_bssid p) \<and>
     unat (wsr_ssid_count r) = sp_ssid_count p \<and> unat (wsr_channel_count r) = sp_channel_count p \<and>
     unat (wsr_ies_length r) = sp_ies_length p \<and>
     (\<forall>k < sp_ssid_count p. let s = the (sp_ssids p) ! k; w = wsr_ssids r ! k in
        ws_length w = ss_length s \<and> take (unat (ss_length s)) (ws_value w) = take (unat (ss_length s)) (ss_value s)) \<and>
     (\<forall>k < sp_channel_count p. channel_from_wire (wsr_channels r ! k) False = Ret (the (sp_channels p) ! k)) \<and>
     (sp_ies_length p \<noteq> 0 \<longrightarrow> take (sp_ies_length p) (wsr_ies r) = take (sp_ies_length p) (the (sp_ies p)))"

lemma rdn_take: "rdn bs 0 n = Ret d \<Longrightarrow> d = take n bs"
  by (auto simp: rdn_def sub_bytes_def split: if_splits)

lemma channel_back: "channel_to_wire c False = Ret w \<Longrightarrow> channel_from_wire w False = Ret c"
  using channel_wire_iff [of w c False] wf_channel_to_wire by blast

lemma build_scan_matches:
  assumes b: "build_scan (Some p) = Ret r"
  shows "scan_request_matches p r"
proof -
  obtain bssid ssids channels ies where
    lim: "sp_ssid_count p \<le> 4" "sp_channel_count p \<le> 64" "sp_ies_length p \<le> 1024"
    and parts: "rdn (sp_bssid p) 0 6 = Ret bssid"
      "(if sp_ssid_count p = 0 then Ret [] else scan_ssids (sp_ssid_count p) (the (sp_ssids p))) = Ret ssids"
      "(if sp_channel_count p = 0 then Ret [] else scan_channels (sp_channel_count p) (the (sp_channels p))) = Ret channels"
      "copy_opt RTWO_CTRL_MAX_IE_LENGTH (sp_ies p) (sp_ies_length p) = Ret ies"
    and r: "r = \<lparr>wsr_flags = sp_flags p, wsr_duration_ms = sp_duration_ms p,
               wsr_ssid_count = of_nat (sp_ssid_count p), wsr_channel_count = of_nat (sp_channel_count p),
               wsr_ies_length = of_nat (sp_ies_length p), wsr_bssid = bssid,
               wsr_ssids = fill RTWO_CTRL_MAX_SCAN_SSIDS zero_ssid ssids,
               wsr_channels = fill RTWO_CTRL_MAX_SCAN_CHANNELS zero_channel channels, wsr_ies = ies\<rparr>"
    using b by (auto simp: build_scan_def cbind_Ret_iff limit_defs not_less split: if_split_asm)
  have ssid: "fill n z ssids ! k = ssids ! k" "ssid_to_wire (the (sp_ssids p) ! k) = Ret (ssids ! k)"
    if "k < sp_ssid_count p" for k n z
    using that parts(2) nth_scan_ssids wf_scan_ssids by (auto intro!: nth_fill)
  have chan: "k < length channels \<and> channel_to_wire (the (sp_channels p) ! k) False = Ret (channels ! k)"
    if "k < sp_channel_count p" for k
    using that parts(3) nth_scan_channels wf_scan_channels by auto
  have "take (sp_ies_length p) ies = take (sp_ies_length p) (the (sp_ies p))" if "sp_ies_length p \<noteq> 0"
    using that parts(4) by (auto simp: copy_opt_def take_copy_field)
  with lim parts(1) show ?thesis
    by (auto simp: scan_request_matches_def r unsigned_of_nat take_bit_nat_eq_self rdn_take Let_def nth_fill
        channel_back ssid(1) ssid_to_wire_Ret [OF ssid(2)] dest: chan)
qed

definition key_request_matches :: "wlan_key \<Rightarrow> wire_key_request \<Rightarrow> bool" where
  "key_request_matches k r \<longleftrightarrow>
     wkr_cipher r = k_cipher k \<and> k_cipher k \<le> CIPHER_AES_CMAC \<and> wkr_index r = k_index k \<and>
     wkr_pairwise r = k_pairwise k \<and> wkr_set_transmit r = k_set_transmit k \<and> wkr_peer r = take 6 (k_peer k) \<and>
     unat (wkr_key_length r) = k_data_length k \<and> k_data_length k \<noteq> 0 \<and>
     wkr_key r = pad_to 64 (take (k_data_length k) (the (k_data k))) \<and>
     unat (wkr_sequence_length r) = k_sequence_length k \<and>
     wkr_sequence r = (if k_sequence_length k = 0 then replicate 16 0
       else pad_to 16 (take (k_sequence_length k) (the (k_sequence k))))"

lemma build_set_key_matches:
  assumes "build_set_key (Some k) = Ret r"
  shows "key_request_matches k r"
proof -
  obtain peer dat seq where
    lim: "k_cipher k \<le> CIPHER_AES_CMAC" "k_data_length k \<noteq> 0" "k_data_length k \<le> 64" "k_sequence_length k \<le> 16"
    and parts: "rdn (k_peer k) 0 6 = Ret peer" "copy_field 64 (the (k_data k)) (k_data_length k) = Ret dat"
      "copy_opt 16 (k_sequence k) (k_sequence_length k) = Ret seq"
    and r: "r = \<lparr>wkr_cipher = k_cipher k, wkr_index = k_index k, wkr_pairwise = k_pairwise k,
               wkr_set_transmit = k_set_transmit k, wkr_key_length = of_nat (k_data_length k),
               wkr_peer = peer, wkr_sequence_length = of_nat (k_sequence_length k),
               wkr_reserved = 0, wkr_key = dat, wkr_sequence = seq\<rparr>"
    using assms by (auto simp: build_set_key_def cbind_Ret_iff limit_defs not_less split: if_split_asm)
  have "dat = pad_to 64 (take (k_data_length k) (the (k_data k)))"
    using parts(2) by (simp add: copy_field_eq split: if_splits)
  moreover have "seq = (if k_sequence_length k = 0 then replicate 16 0
      else pad_to 16 (take (k_sequence_length k) (the (k_sequence k))))"
    using parts(3) by (simp add: copy_opt_def copy_field_eq split: if_splits)
  ultimately show ?thesis
    using lim rdn_take [OF parts(1)]
    by (simp add: key_request_matches_def r unsigned_of_nat take_bit_nat_eq_self)
qed

text \<open>The arrays behind the pointers of the parameters are as long as the parameters say.\<close>

definition readable :: "bytes option \<Rightarrow> nat \<Rightarrow> bool" where
  "readable p n \<longleftrightarrow> (\<forall>b. p = Some b \<longrightarrow> n \<le> length b)"

definition readable_scan :: "wlan_scan_params \<Rightarrow> bool" where
  "readable_scan p \<longleftrightarrow> length (sp_bssid p) = 6 \<and> readable (sp_ies p) (sp_ies_length p) \<and>
     (\<forall>ss. sp_ssids p = Some ss \<longrightarrow> sp_ssid_count p \<le> length ss \<and> (\<forall>s \<in> set ss. length (ss_value s) = 32)) \<and>
     (\<forall>cs. sp_channels p = Some cs \<longrightarrow> sp_channel_count p \<le> length cs)"

definition readable_key :: "wlan_key \<Rightarrow> bool" where
  "readable_key k \<longleftrightarrow> length (k_peer k) = 6 \<and> readable (k_data k) (k_data_length k) \<and>
     readable (k_sequence k) (k_sequence_length k)"

lemma channel_to_wire_no_fault: "channel_to_wire c a \<noteq> Fault"
  by (simp add: channel_to_wire_eq)

lemma ssid_to_wire_no_fault: "length (ss_value s) = 32 \<Longrightarrow> unat (ss_length s) \<le> 32 \<Longrightarrow> ssid_to_wire s \<noteq> Fault"
  by (auto simp: ssid_to_wire_def cmap_def cbind_Fault_iff copy_field_eq RTWO_CTRL_MAX_SSID_LENGTH_def)

lemma cmap_no_fault [simp]: "cmap f m = Fault \<longleftrightarrow> m = Fault"
  by (cases m) auto

lemma scan_ssids_no_fault:
  "n \<le> length ss \<Longrightarrow> \<forall>s \<in> set ss. length (ss_value s) = 32 \<Longrightarrow> scan_ssids n ss \<noteq> Fault"
  by (induction n ss rule: scan_ssids.induct)
    (auto simp: cbind_Fault_iff RTWO_CTRL_MAX_SSID_LENGTH_def dest: ssid_to_wire_no_fault)

lemma scan_channels_no_fault: "n \<le> length cs \<Longrightarrow> scan_channels n cs \<noteq> Fault"
  by (induction n cs rule: scan_channels.induct) (auto simp: cbind_Fault_iff channel_to_wire_no_fault)

lemma copy_opt_no_fault: "readable src n \<Longrightarrow> n \<le> cap \<Longrightarrow> (n \<noteq> 0 \<longrightarrow> src \<noteq> None) \<Longrightarrow> copy_opt cap src n \<noteq> Fault"
  by (auto simp: copy_opt_def copy_field_eq readable_def)

lemma copy_field_no_fault: "readable (Some src) n \<Longrightarrow> n \<le> cap \<Longrightarrow> copy_field cap src n \<noteq> Fault"
  by (auto simp: copy_field_eq readable_def)

lemma rdn_no_fault: "n \<le> length bs \<Longrightarrow> rdn bs 0 n \<noteq> Fault"
  by (simp add: rdn_def)

lemma submit_no_fault: "submit h t i req os = Some (Fault, h', os') \<Longrightarrow> req = Fault"
  using send_command_no_fault [of "Some b" "length b" h t i os h' os' for b]
  by (cases req) (auto simp: submit_def)

lemma build_scan_no_fault: "readable_scan p \<Longrightarrow> build_scan (Some p) \<noteq> Fault"
  by (auto simp: build_scan_def cbind_Fault_iff readable_scan_def copy_opt_no_fault rdn_no_fault
      scan_ssids_no_fault scan_channels_no_fault not_less)

lemma build_set_key_no_fault: "readable_key k \<Longrightarrow> build_set_key (Some k) \<noteq> Fault"
  by (auto simp: build_set_key_def cbind_Fault_iff readable_key_def copy_opt_no_fault copy_field_no_fault
      rdn_no_fault not_less)

text \<open>When the device takes the whole message, the command succeeds with the next identifier.\<close>

lemma submit_accepted:
  assumes "req = Ret b" and "length b \<le> 4076" and "0 \<le> h_fd h" and "validate_interface i" and "\<not> os_oom os"
    and "os_writes os = SysOk (20 + length b) # ws"
  shows "\<exists>os'. submit (Some h) cmd i req os = Some (Ret (fst (next_request_id h)), Some (snd (next_request_id h)), os')"
  using assms next_request_id_nonzero [of h] next_request_id_fd [of h]
  by (auto simp: submit_def send_command_def send_command_id_Some send_args_ok_def validate_handle_def
      write_message_def split_beta Let_def)

text \<open>Parameters for the witnesses below.\<close>

definition sample_scan :: wlan_scan_params where
  "sample_scan = \<lparr>sp_flags = 1, sp_duration_ms = 100, sp_ssids = Some [\<lparr>ss_length = 1, ss_value = pad_to 32 [65]\<rparr>],
     sp_ssid_count = 1, sp_channels = Some [\<lparr>ch_band = 0, ch_width = 1, ch_primary_channel = 6,
       ch_primary_frequency_mhz = 2437, ch_center_frequency1_mhz = 2437, ch_center_frequency2_mhz = 0\<rparr>],
     sp_channel_count = 1, sp_bssid = replicate 6 255, sp_ies = None, sp_ies_length = 0\<rparr>"

definition sample_key :: wlan_key where
  "sample_key = \<lparr>k_cipher = 4, k_index = 1, k_pairwise = 0, k_set_transmit = 1, k_peer = replicate 6 255,
     k_data = Some (replicate 16 7), k_data_length = 16, k_sequence = None, k_sequence_length = 0\<rparr>"

lemma build_sample_scan: "\<exists>r. build_scan (Some sample_scan) = Ret r"
  by (simp add: build_scan_def sample_scan_def limit_defs SCAN_PASSIVE_def SCAN_RANDOM_MAC_def SCAN_FLUSH_CACHE_def
      rdn_Ret ssid_to_wire_def copy_field_eq copy_opt_def channel_to_wire_def width_defs band_defs
      channel_geometry_valid_def channel_offset_def)

lemma build_sample_key: "\<exists>r. build_set_key (Some sample_key) = Ret r"
  by (simp add: build_set_key_def sample_key_def limit_defs CIPHER_AES_CMAC_def rdn_Ret copy_field_eq copy_opt_def)

lemma readable_samples: "readable_scan sample_scan" "readable_key sample_key"
  by (simp_all add: readable_scan_def readable_key_def readable_def sample_scan_def sample_key_def)

section \<open>Properties\<close>

text \<open>C29. A scan that returns an identifier has sent one scan request with that identifier, and the
  firmware that reads it finds what the caller asked for: the flags, the dwell time, the BSSID,
  each network name, each channel and the information elements, with their counts.\<close>

theorem scan_request_sent:
  assumes "wlan_offload_scan handle i (Some p) os = Some (Ret rid, handle', os')"
  shows "\<exists>b r. sent_request CMD_SCAN i rid b os os' \<and> view_scan_request b = Ret r \<and> scan_request_matches p r"
proof -
  obtain r where r: "build_scan (Some p) = Ret r" "sent_request CMD_SCAN i rid (enc_scan_request r) os os'"
    using submit_sent [OF assms [unfolded wlan_offload_scan_def]] by blast
  then show ?thesis
    using build_scan_matches wf_build_scan wsr.view_enc_end by blast
qed

theorem scan_request_sent_witness:
  "\<exists>r. scan_request_matches sample_scan r"
proof -
  obtain r where r: "build_scan (Some sample_scan) = Ret r" using build_sample_scan by blast
  have "\<exists>os'. wlan_offload_scan (Some \<lparr>h_fd = 3, h_next_request_id = 9\<rparr>) INTERFACE_STATION (Some sample_scan)
      \<lparr>os_writes = [SysOk 1960], os_polls = [], os_reads = [], os_oom = False, os_sent = []\<rparr> =
    Some (Ret 10, Some \<lparr>h_fd = 3, h_next_request_id = 10\<rparr>, os')"
    using submit_accepted [of "cmap enc_scan_request (build_scan (Some sample_scan))" "enc_scan_request r"
        "\<lparr>h_fd = 3, h_next_request_id = 9\<rparr>"] wf_build_scan [OF r]
    by (simp add: wlan_offload_scan_def r validate_interface_def interface_defs next_request_id_def)
  with scan_request_sent show ?thesis by blast
qed

text \<open>A key that is installed reaches the firmware unchanged: cipher, index, roles, peer, key bytes
  and sequence counter, and the rest of the two fixed fields is zero. Nothing else is sent.\<close>

theorem set_key_sent:
  assumes "wlan_offload_set_key handle i (Some k) os = Some (Ret rid, handle', os')"
  shows "\<exists>b r. sent_request CMD_SET_KEY i rid b os os' \<and> view_key_request b = Ret r \<and> key_request_matches k r"
proof -
  obtain r where "build_set_key (Some k) = Ret r" "sent_request CMD_SET_KEY i rid (enc_key_request r) os os'"
    using submit_sent [OF assms [unfolded wlan_offload_set_key_def]] by blast
  then show ?thesis
    using build_set_key_matches wf_build_set_key wkr.view_enc_end by blast
qed

theorem set_key_sent_witness:
  "\<exists>r. key_request_matches sample_key r"
proof -
  obtain r where r: "build_set_key (Some sample_key) = Ret r" using build_sample_key by blast
  have "\<exists>os'. wlan_offload_set_key (Some \<lparr>h_fd = 3, h_next_request_id = 9\<rparr>) INTERFACE_STATION (Some sample_key)
      \<lparr>os_writes = [SysOk 116], os_polls = [], os_reads = [], os_oom = False, os_sent = []\<rparr> =
    Some (Ret 10, Some \<lparr>h_fd = 3, h_next_request_id = 10\<rparr>, os')"
    using submit_accepted [of "cmap enc_key_request (build_set_key (Some sample_key))" "enc_key_request r"
        "\<lparr>h_fd = 3, h_next_request_id = 9\<rparr>"] wf_build_set_key [OF r]
    by (simp add: wlan_offload_set_key_def r validate_interface_def interface_defs next_request_id_def)
  with set_key_sent show ?thesis by blast
qed

text \<open>Scanning and installing a key read only what the caller's parameters announce: when every
  array is as long as its count, no read or write is outside a buffer.\<close>

theorem requests_memory_safe:
  assumes "readable_scan p" and "readable_key k"
  shows "wlan_offload_scan handle i (Some p) os \<noteq> Some (Fault, handle', os') \<and>
    wlan_offload_set_key handle i (Some k) os \<noteq> Some (Fault, handle', os')"
  using build_scan_no_fault [OF assms(1)] build_set_key_no_fault [OF assms(2)]
  by (auto simp: wlan_offload_scan_def wlan_offload_set_key_def dest!: submit_no_fault)

theorem requests_memory_safe_witness:
  "wlan_offload_scan None INTERFACE_AP (Some sample_scan)
      \<lparr>os_writes = [SysOk 1960], os_polls = [], os_reads = [], os_oom = False, os_sent = []\<rparr> \<noteq>
    Some (Fault, None, \<lparr>os_writes = [], os_polls = [], os_reads = [], os_oom = False, os_sent = []\<rparr>)"
  using requests_memory_safe [OF readable_samples] by blast

end
