(* ===== verification/Wlan_Event.thy ===== *)
theory Wlan_Event
  imports Wlan_Commands
begin

unbundle bit_operations_syntax

text \<open>
  Receiving: the replies to \<open>wlan_offload_get_info\<close> and \<open>wlan_offload_get_names\<close>, and the
  events (\<open>wlan_offload_decode_event\<close>, \<open>wlan_offload_receive_event\<close>). The union of the event is
  a datatype with one constructor per member. A decoder that fails has left the caller's
  structure partly written; the model gives only the error. Signed 16-bit members (\<open>rssi\<close>) are
  kept as words. The abstract side is \<open>event_message\<close>, the message a device sends to report an
  event, which the decoder inverts.
\<close>

section \<open>Replies\<close>

record wlan_info =
  if_capabilities :: u32
  if_phy_capabilities :: u32
  if_cipher_mask :: u32
  if_interface_type_mask :: u32
  if_max_frame_size :: u32
  if_framework_api_version :: u32
  if_firmware_protocol_version :: u32
  if_firmware_version :: u32
  if_firmware_features :: u32
  if_firmware_generation :: u32
  if_max_scan_ie_length :: u16
  if_max_stations :: u16
  if_max_scan_ssids :: u8
  if_band_mask :: u8
  if_max_vifs :: u8
  if_max_channel_contexts :: u8
  if_address :: bytes

record wlan_names =
  nm_control :: bytes
  nm_station :: bytes
  nm_ap :: bytes
  nm_radio_index :: u8

definition DEVICE_NAME_MAX :: nat where "DEVICE_NAME_MAX = 24"

text \<open>
  Sending a command without payload and reading the next message as its reply, accepted when it
  has the type, the identifier, the status \<open>0\<close> and the size of the reply expected.
\<close>

definition request_reply ::
    "wlan_handle option \<Rightarrow> u16 \<Rightarrow> u32 \<Rightarrow> u16 \<Rightarrow> nat \<Rightarrow> wlan_os \<Rightarrow>
      (bytes cres \<times> wlan_handle option \<times> wlan_os) option" where
  "request_reply handle cmd interface_type event size_wire os =
     (case send_command handle cmd interface_type None 0 os of
        None \<Rightarrow> None
      | Some (Fail e, handle1, os1) \<Rightarrow> Some (Fail e, handle1, os1)
      | Some (Fault, handle1, os1) \<Rightarrow> Some (Fault, handle1, os1)
      | Some (Ret request_id, handle1, os1) \<Rightarrow>
          (case read_message handle1 RTWO_CTRL_MAX_MESSAGE_SIZE 1000 os1 of
             None \<Rightarrow> None
           | Some (r, os2) \<Rightarrow> Some (cbind r (\<lambda>message.
               cbind (view_header message) (\<lambda>header.
               cbind (check (\<not> (wh_type header \<noteq> event \<or> wh_request_id header \<noteq> request_id \<or>
                   wh_status header \<noteq> 0 \<or> length message \<noteq> sizeof_header + size_wire)) EPROTO) (\<lambda>_.
               Ret (drop sizeof_header message)))), handle1, os2)))"

definition info_of_wire :: "wire_info \<Rightarrow> wlan_info" where
  "info_of_wire w = \<lparr>if_capabilities = wi_capabilities w, if_phy_capabilities = wi_phy_capabilities w,
     if_cipher_mask = wi_cipher_mask w, if_interface_type_mask = wi_iftype_mask w,
     if_max_frame_size = wi_max_frame_size w, if_framework_api_version = wi_framework_api_version w,
     if_firmware_protocol_version = wi_firmware_protocol_version w,
     if_firmware_version = wi_firmware_version w, if_firmware_features = wi_firmware_features w,
     if_firmware_generation = wi_firmware_generation w,
     if_max_scan_ie_length = wi_max_scan_ie_length w, if_max_stations = wi_max_stations w,
     if_max_scan_ssids = wi_max_scan_ssids w, if_band_mask = wi_band_mask w,
     if_max_vifs = wi_max_vifs w, if_max_channel_contexts = wi_max_channel_contexts w,
     if_address = wi_address w\<rparr>"

text \<open>The last byte of every name is cleared, so each is a terminated C string.\<close>

definition names_of_wire :: "wire_names \<Rightarrow> wlan_names" where
  "names_of_wire w = \<lparr>nm_control = (wn_control w)[DEVICE_NAME_MAX - 1 := 0],
     nm_station = (wn_station w)[DEVICE_NAME_MAX - 1 := 0],
     nm_ap = (wn_ap w)[DEVICE_NAME_MAX - 1 := 0], nm_radio_index = wn_radio_index w\<rparr>"

definition wlan_offload_get_info ::
    "wlan_handle option \<Rightarrow> u32 \<Rightarrow> bool \<Rightarrow> wlan_os \<Rightarrow> (wlan_info cres \<times> wlan_handle option \<times> wlan_os) option" where
  "wlan_offload_get_info handle interface_type info_given os =
     (if \<not> info_given then Some (Fail EINVAL, handle, os)
      else case request_reply handle CMD_GET_INFO interface_type EVENT_INFO sizeof_info os of
             None \<Rightarrow> None
           | Some (r, handle1, os1) \<Rightarrow>
               Some (cbind r (\<lambda>payload. cmap info_of_wire (view_info payload)), handle1, os1))"

definition wlan_offload_get_names ::
    "wlan_handle option \<Rightarrow> u32 \<Rightarrow> bool \<Rightarrow> wlan_os \<Rightarrow> (wlan_names cres \<times> wlan_handle option \<times> wlan_os) option" where
  "wlan_offload_get_names handle interface_type names_given os =
     (if \<not> names_given then Some (Fail EINVAL, handle, os)
      else case request_reply handle CMD_GET_NAMES interface_type EVENT_NAMES sizeof_names os of
             None \<Rightarrow> None
           | Some (r, handle1, os1) \<Rightarrow>
               Some (cbind r (\<lambda>payload. cmap names_of_wire (view_names payload)), handle1, os1))"

section \<open>Events\<close>

datatype event_type =
    RadioOnline | RadioOffline | ScanResult | ScanDone | ConnectResult | DisconnectedEvent | AuthRx
  | AssocRx | MgmtRx | MgmtTxStatus | EapolRx | RegulatoryChanged | FirmwareError | ExternalAuthRequired

record wlan_network =
  nw_ssid :: wlan_ssid
  nw_bssid :: bytes
  nw_channel :: wlan_channel
  nw_rssi :: u16
  nw_security :: u32
  nw_beacon_interval :: u16
  nw_capability :: u16
  nw_ies_length :: u16
  nw_ies :: bytes

datatype event_data =
    NoData
  | NetworkData wlan_network
  | DisconnectedData (dd_bssid: bytes) (dd_reason: u16) (dd_locally_generated: u8)
  | FrameData (fd_channel: wlan_channel) (fd_rssi: u16) (fd_length: u16) (fd_bytes: bytes)
  | TxStatusData (td_cookie: u64) (td_acknowledged: u8) (td_length: u16) (td_bytes: bytes)
  | EapolData (ed_source: bytes) (ed_destination: bytes) (ed_length: u16) (ed_bytes: bytes)
  | FirmwareData (wd_reason: u32) (wd_dump_length: u16) (wd_dump: bytes)
  | ExternalAuthData (xd_ssid: wlan_ssid) (xd_bssid: bytes) (xd_akm_suite: u32)

record wlan_event =
  ev_type :: event_type
  ev_interface_type :: u32
  ev_request_id :: u32
  ev_status :: u32
  ev_truncated :: bool
  ev_overflow :: bool
  ev_data :: event_data

definition SSID_MAX_LENGTH :: nat where "SSID_MAX_LENGTH = 32"
definition IE_MAX_LENGTH :: nat where "IE_MAX_LENGTH = 1024"
definition FRAME_MAX_LENGTH :: nat where "FRAME_MAX_LENGTH = 2304"
definition EAPOL_MAX_LENGTH :: nat where "EAPOL_MAX_LENGTH = 1600"

lemmas event_limits = SSID_MAX_LENGTH_def IE_MAX_LENGTH_def FRAME_MAX_LENGTH_def EAPOL_MAX_LENGTH_def

subsection \<open>The cases of the decoder that read a payload\<close>

text \<open>The macro \<open>WLAN_OFFLOAD_EVENT_PAYLOAD\<close>: nothing of the payload is read before its size is known.\<close>

definition event_payload :: "bytes \<Rightarrow> nat \<Rightarrow> unit cres" where
  "event_payload message size_wire = check (length message = sizeof_header + size_wire) EPROTO"

definition ssid_from_wire :: "wire_ssid \<Rightarrow> wlan_ssid cres" where
  "ssid_from_wire w = cmap (\<lambda>v. \<lparr>ss_length = ws_length w, ss_value = v\<rparr>)
     (copy_field SSID_MAX_LENGTH (ws_value w) (unat (ws_length w)))"

definition decode_network :: "bytes \<Rightarrow> event_data cres" where
  "decode_network message =
     cbind (event_payload message sizeof_network) (\<lambda>_.
     cbind (view_network (drop sizeof_header message)) (\<lambda>w.
     if unat (ws_length (wnw_ssid w)) > SSID_MAX_LENGTH \<or> unat (wnw_ies_length w) > IE_MAX_LENGTH
     then Fail EPROTO
     else
       cbind (ssid_from_wire (wnw_ssid w)) (\<lambda>ssid.
       cbind (rdn (wnw_bssid w) 0 6) (\<lambda>bssid.
       cbind (fail_as EPROTO (channel_from_wire (wnw_channel w) False)) (\<lambda>channel.
       cbind (copy_field IE_MAX_LENGTH (wnw_ies w) (unat (wnw_ies_length w))) (\<lambda>ies.
       Ret (NetworkData \<lparr>nw_ssid = ssid, nw_bssid = bssid, nw_channel = channel, nw_rssi = wnw_rssi w,
         nw_security = wnw_security w, nw_beacon_interval = wnw_beacon_interval w,
         nw_capability = wnw_capability w, nw_ies_length = wnw_ies_length w, nw_ies = ies\<rparr>)))))))"

definition decode_disconnected :: "bytes \<Rightarrow> event_data cres" where
  "decode_disconnected message =
     cbind (event_payload message sizeof_disconnected) (\<lambda>_.
     cbind (view_disconnected (drop sizeof_header message)) (\<lambda>w.
     cbind (rdn (wdc_bssid w) 0 6) (\<lambda>bssid.
     Ret (DisconnectedData bssid (wdc_reason w) (wdc_locally_generated w)))))"

text \<open>The label \<open>decode_frame\<close>, reached by \<open>goto\<close> for the three kinds of received frames.\<close>

definition decode_frame :: "bytes \<Rightarrow> event_data cres" where
  "decode_frame message =
     cbind (event_payload message sizeof_rx_frame) (\<lambda>_.
     cbind (view_rx_frame (drop sizeof_header message)) (\<lambda>w.
     if unat (wrx_data_length w) > FRAME_MAX_LENGTH then Fail EPROTO
     else
       cbind (fail_as EPROTO (channel_from_wire (wrx_channel w) False)) (\<lambda>channel.
       cbind (copy_field FRAME_MAX_LENGTH (wrx_data w) (unat (wrx_data_length w))) (\<lambda>dat.
       Ret (FrameData channel (wrx_rssi w) (wrx_data_length w) dat)))))"

definition decode_tx_status :: "bytes \<Rightarrow> event_data cres" where
  "decode_tx_status message =
     cbind (event_payload message sizeof_tx_status) (\<lambda>_.
     cbind (view_tx_status (drop sizeof_header message)) (\<lambda>w.
     if unat (wtx_data_length w) > FRAME_MAX_LENGTH then Fail EPROTO
     else
       cbind (copy_field FRAME_MAX_LENGTH (wtx_data w) (unat (wtx_data_length w))) (\<lambda>dat.
       Ret (TxStatusData (wtx_cookie w) (wtx_acknowledged w) (wtx_data_length w) dat))))"

definition decode_eapol :: "bytes \<Rightarrow> event_data cres" where
  "decode_eapol message =
     cbind (event_payload message sizeof_eapol_frame) (\<lambda>_.
     cbind (view_eapol_frame (drop sizeof_header message)) (\<lambda>w.
     if unat (wef_data_length w) > EAPOL_MAX_LENGTH then Fail EPROTO
     else
       cbind (rdn (wef_source w) 0 6) (\<lambda>source.
       cbind (rdn (wef_destination w) 0 6) (\<lambda>destination.
       cbind (copy_field EAPOL_MAX_LENGTH (wef_data w) (unat (wef_data_length w))) (\<lambda>dat.
       Ret (EapolData source destination (wef_data_length w) dat))))))"

definition decode_firmware_error :: "bytes \<Rightarrow> event_data cres" where
  "decode_firmware_error message =
     cbind (event_payload message sizeof_firmware_error) (\<lambda>_.
     cbind (view_firmware_error (drop sizeof_header message)) (\<lambda>w.
     if unat (wfe_dump_length w) > IE_MAX_LENGTH then Fail EPROTO
     else
       cbind (copy_field IE_MAX_LENGTH (wfe_dump w) (unat (wfe_dump_length w))) (\<lambda>dump.
       Ret (FirmwareData (wfe_reason w) (wfe_dump_length w) dump))))"

definition decode_external_auth :: "u32 \<Rightarrow> bytes \<Rightarrow> event_data cres" where
  "decode_external_auth request_id message =
     cbind (event_payload message sizeof_external_auth) (\<lambda>_.
     cbind (view_external_auth (drop sizeof_header message)) (\<lambda>w.
     if request_id = 0 \<or> wea_reserved w \<noteq> 0 \<or> ws_length (wea_ssid w) = 0 \<or>
        unat (ws_length (wea_ssid w)) > SSID_MAX_LENGTH then Fail EPROTO
     else
       cbind (ssid_from_wire (wea_ssid w)) (\<lambda>ssid.
       cbind (rdn (wea_bssid w) 0 6) (\<lambda>bssid.
       Ret (ExternalAuthData ssid bssid (wea_akm_suite w))))))"

subsection \<open>The decoder\<close>

text \<open>
  The \<open>switch\<close> over the type. A case without payload leaves only the size check behind the
  switch; for the others that check repeats the one of the macro.
\<close>

definition no_payload :: "bytes \<Rightarrow> event_data cres" where
  "no_payload message = cbind (check (length message = sizeof_header) EPROTO) (\<lambda>_. Ret NoData)"

definition decode_switch :: "wire_header \<Rightarrow> bytes \<Rightarrow> (event_type \<times> event_data) cres" where
  "decode_switch header message =
     (let type = wh_type header in
      if type = EVENT_RADIO_ONLINE then cmap (Pair RadioOnline) (no_payload message)
      else if type = EVENT_RADIO_OFFLINE then cmap (Pair RadioOffline) (no_payload message)
      else if type = EVENT_SCAN_RESULT then cmap (Pair ScanResult) (decode_network message)
      else if type = EVENT_SCAN_DONE then cmap (Pair ScanDone) (no_payload message)
      else if type = EVENT_CONNECT_RESULT then cmap (Pair ConnectResult) (no_payload message)
      else if type = EVENT_DISCONNECTED then cmap (Pair DisconnectedEvent) (decode_disconnected message)
      else if type = EVENT_AUTH_RX then cmap (Pair AuthRx) (decode_frame message)
      else if type = EVENT_ASSOC_RX then cmap (Pair AssocRx) (decode_frame message)
      else if type = EVENT_MGMT_RX then cmap (Pair MgmtRx) (decode_frame message)
      else if type = EVENT_MGMT_TX_STATUS then cmap (Pair MgmtTxStatus) (decode_tx_status message)
      else if type = EVENT_EAPOL_RX then cmap (Pair EapolRx) (decode_eapol message)
      else if type = EVENT_REGULATORY_CHANGED then cmap (Pair RegulatoryChanged) (no_payload message)
      else if type = EVENT_FIRMWARE_ERROR then cmap (Pair FirmwareError) (decode_firmware_error message)
      else if type = EVENT_EXTERNAL_AUTH_REQUIRED
      then cmap (Pair ExternalAuthRequired) (decode_external_auth (wh_request_id header) message)
      else Fail ENOMSG)"

definition decode_event :: "bytes \<Rightarrow> wlan_event cres" where
  "decode_event message =
     cbind (view_header message) (\<lambda>header.
     cbind (decode_switch header message) (\<lambda>(type, dat).
     Ret \<lparr>ev_type = type, ev_interface_type = ucast (wh_iftype header),
          ev_request_id = wh_request_id header, ev_status = wh_status header,
          ev_truncated = (wh_flags header AND RTWO_CTRL_FLAG_TRUNCATED \<noteq> 0),
          ev_overflow = (wh_flags header AND RTWO_CTRL_FLAG_OVERFLOW \<noteq> 0), ev_data = dat\<rparr>))"

definition wlan_offload_receive_event ::
    "wlan_handle option \<Rightarrow> bool \<Rightarrow> int \<Rightarrow> wlan_os \<Rightarrow> (wlan_event cres \<times> wlan_os) option" where
  "wlan_offload_receive_event handle event_given timeout_ms os =
     (if \<not> event_given then Some (Fail EINVAL, os)
      else case read_message handle RTWO_CTRL_MAX_MESSAGE_SIZE timeout_ms os of
             None \<Rightarrow> None
           | Some (r, os1) \<Rightarrow> Some (cbind r decode_event, os1))"

section \<open>Decoding stays inside the buffers\<close>

lemma channel_from_wire_no_fault: "wf_channel w \<Longrightarrow> channel_from_wire w a \<noteq> Fault"
  by (simp add: channel_from_wire_eq)

lemma view_drop_ok:
  "event_payload message n = Ret () \<Longrightarrow> length (drop sizeof_header message) = n"
  by (simp add: event_payload_def)

lemma event_payload_no_fault [simp]: "event_payload message n \<noteq> Fault"
  by (simp add: event_payload_def)

lemma ssid_from_wire_eq:
  "wf_ssid w \<Longrightarrow> ssid_from_wire w =
    (if unat (ws_length w) \<le> 32 then Ret \<lparr>ss_length = ws_length w,
       ss_value = pad_to 32 (take (unat (ws_length w)) (ws_value w))\<rparr> else Fault)"
  by (simp add: ssid_from_wire_def copy_field_eq wf_ssid_def event_limits)

lemmas decoder_defs = decode_network_def decode_disconnected_def decode_frame_def decode_tx_status_def
  decode_eapol_def decode_firmware_error_def decode_external_auth_def no_payload_def

lemmas wire_wf_defs = wf_network_def wf_disconnected_def wf_rx_frame_def wf_tx_status_def
  wf_eapol_frame_def wf_firmware_error_def wf_external_auth_def

lemmas wire_sizeofs = sizeof_network_def sizeof_disconnected_def sizeof_rx_frame_def sizeof_tx_status_def
  sizeof_eapol_frame_def sizeof_firmware_error_def sizeof_external_auth_def sizeof_info_def sizeof_names_def

lemmas wire_view_faults = wnw.view_fault wdc.view_fault wrx.view_fault wtx.view_fault wef.view_fault
  wfe.view_fault wea.view_fault wi.view_fault wn.view_fault wh.view_fault

lemma cmap_Fault_iff [simp]: "cmap f m = Fault \<longleftrightarrow> m = Fault"
  by (cases m) auto

lemma decode_payload_no_fault:
  "decode_network m \<noteq> Fault" "decode_disconnected m \<noteq> Fault" "decode_frame m \<noteq> Fault"
  "decode_tx_status m \<noteq> Fault" "decode_eapol m \<noteq> Fault" "decode_firmware_error m \<noteq> Fault"
  "decode_external_auth rid m \<noteq> Fault" "no_payload m \<noteq> Fault"
  by (auto simp: decoder_defs cbind_Fault_iff event_payload_def wire_view_faults wire_sizeofs
      ssid_from_wire_eq copy_field_eq rdn_def event_limits wire_wf_defs channel_from_wire_no_fault
      dest!: wnw.view_wf wdc.view_wf wrx.view_wf wtx.view_wf wef.view_wf wfe.view_wf wea.view_wf
      split: if_split_asm)

lemma decode_switch_no_fault: "decode_switch h m \<noteq> Fault"
  by (simp add: decode_switch_def Let_def decode_payload_no_fault)

lemma decode_event_no_fault: "20 \<le> length m \<Longrightarrow> decode_event m \<noteq> Fault"
  by (auto simp: decode_event_def cbind_Fault_iff wire_view_faults decode_switch_no_fault)

section \<open>The messages that report events\<close>

definition event_code :: "event_type \<Rightarrow> u16" where
  "event_code t = (case t of RadioOnline \<Rightarrow> EVENT_RADIO_ONLINE | RadioOffline \<Rightarrow> EVENT_RADIO_OFFLINE
     | ScanResult \<Rightarrow> EVENT_SCAN_RESULT | ScanDone \<Rightarrow> EVENT_SCAN_DONE
     | ConnectResult \<Rightarrow> EVENT_CONNECT_RESULT | DisconnectedEvent \<Rightarrow> EVENT_DISCONNECTED
     | AuthRx \<Rightarrow> EVENT_AUTH_RX | AssocRx \<Rightarrow> EVENT_ASSOC_RX | MgmtRx \<Rightarrow> EVENT_MGMT_RX
     | MgmtTxStatus \<Rightarrow> EVENT_MGMT_TX_STATUS | EapolRx \<Rightarrow> EVENT_EAPOL_RX
     | RegulatoryChanged \<Rightarrow> EVENT_REGULATORY_CHANGED | FirmwareError \<Rightarrow> EVENT_FIRMWARE_ERROR
     | ExternalAuthRequired \<Rightarrow> EVENT_EXTERNAL_AUTH_REQUIRED)"

definition ssid_image :: "wlan_ssid \<Rightarrow> wire_ssid" where
  "ssid_image s = \<lparr>ws_length = ss_length s, ws_value = ss_value s\<rparr>"

definition data_message :: "event_data \<Rightarrow> bytes" where
  "data_message d = (case d of
     NoData \<Rightarrow> []
   | NetworkData n \<Rightarrow> enc_network \<lparr>wnw_ssid = ssid_image (nw_ssid n), wnw_bssid = nw_bssid n,
       wnw_channel = channel_image (nw_channel n), wnw_rssi = nw_rssi n, wnw_security = nw_security n,
       wnw_beacon_interval = nw_beacon_interval n, wnw_capability = nw_capability n,
       wnw_ies_length = nw_ies_length n, wnw_ies = nw_ies n\<rparr>
   | DisconnectedData b r l \<Rightarrow> enc_disconnected \<lparr>wdc_bssid = b, wdc_reason = r,
       wdc_locally_generated = l, wdc_reserved = 0\<rparr>
   | FrameData c r l b \<Rightarrow> enc_rx_frame \<lparr>wrx_channel = channel_image c, wrx_rssi = r,
       wrx_data_length = l, wrx_data = b\<rparr>
   | TxStatusData c a l b \<Rightarrow> enc_tx_status \<lparr>wtx_cookie = c, wtx_acknowledged = a, wtx_reserved = 0,
       wtx_data_length = l, wtx_data = b\<rparr>
   | EapolData s t l b \<Rightarrow> enc_eapol_frame \<lparr>wef_source = s, wef_destination = t,
       wef_data_length = l, wef_data = b\<rparr>
   | FirmwareData r l b \<Rightarrow> enc_firmware_error \<lparr>wfe_reason = r, wfe_dump_length = l, wfe_dump = b\<rparr>
   | ExternalAuthData s b a \<Rightarrow> enc_external_auth \<lparr>wea_ssid = ssid_image s, wea_bssid = b,
       wea_reserved = 0, wea_akm_suite = a\<rparr>)"

definition event_message :: "wlan_event \<Rightarrow> bytes" where
  "event_message e =
     (let payload = data_message (ev_data e) in
      enc_header \<lparr>wh_version = RTWO_CTRL_VERSION, wh_type = event_code (ev_type e),
        wh_length = of_nat (sizeof_header + length payload), wh_request_id = ev_request_id e,
        wh_status = ev_status e, wh_iftype = ucast (ev_interface_type e),
        wh_flags = (if ev_truncated e then RTWO_CTRL_FLAG_TRUNCATED else 0) OR
          (if ev_overflow e then RTWO_CTRL_FLAG_OVERFLOW else 0), wh_reserved = 0\<rparr> @ payload)"

text \<open>
  What holds of every event that is reported: the data fits the type, every length is at most the
  capacity of its array, the array is zero behind it, and channels are valid.
\<close>

definition padded :: "nat \<Rightarrow> 'a::len word \<Rightarrow> bytes \<Rightarrow> bool" where
  "padded cap n bs \<longleftrightarrow> unat n \<le> cap \<and> length bs = cap \<and> drop (unat n) bs = replicate (cap - unat n) 0"

definition wf_event_data :: "u32 \<Rightarrow> event_type \<Rightarrow> event_data \<Rightarrow> bool" where
  "wf_event_data request_id t d \<longleftrightarrow> (case d of
     NoData \<Rightarrow> t \<in> {RadioOnline, RadioOffline, ScanDone, ConnectResult, RegulatoryChanged}
   | NetworkData n \<Rightarrow> t = ScanResult \<and> padded 32 (ss_length (nw_ssid n)) (ss_value (nw_ssid n)) \<and>
       length (nw_bssid n) = 6 \<and> channel_accepts (nw_channel n) False \<and> padded 1024 (nw_ies_length n) (nw_ies n)
   | DisconnectedData b r l \<Rightarrow> t = DisconnectedEvent \<and> length b = 6
   | FrameData c r l b \<Rightarrow> t \<in> {AuthRx, AssocRx, MgmtRx} \<and> channel_accepts c False \<and> padded 2304 l b
   | TxStatusData c a l b \<Rightarrow> t = MgmtTxStatus \<and> padded 2304 l b
   | EapolData s e l b \<Rightarrow> t = EapolRx \<and> length s = 6 \<and> length e = 6 \<and> padded 1600 l b
   | FirmwareData r l b \<Rightarrow> t = FirmwareError \<and> padded 1024 l b
   | ExternalAuthData s b a \<Rightarrow> t = ExternalAuthRequired \<and> request_id \<noteq> 0 \<and> ss_length s \<noteq> 0 \<and>
       padded 32 (ss_length s) (ss_value s) \<and> length b = 6)"

definition wf_event :: "wlan_event \<Rightarrow> bool" where
  "wf_event e \<longleftrightarrow> ev_interface_type e \<le> 255 \<and> wf_event_data (ev_request_id e) (ev_type e) (ev_data e)"

lemma padded_length: "padded cap n bs \<Longrightarrow> length bs = cap"
  by (simp add: padded_def)

lemma padded_copy: "padded cap n bs \<Longrightarrow> copy_field cap bs (unat n) = Ret bs"
  by (simp add: copy_field_eq padded_def pad_to_def min_absorb2)
    (metis append_take_drop_id)

lemma copy_padded: "copy_field cap bs (unat n) = Ret d \<Longrightarrow> length bs = cap \<Longrightarrow> padded cap n d"
  by (auto simp: copy_field_eq padded_def pad_to_def split: if_splits)

lemma ssid_padded: "padded 32 (ss_length s) (ss_value s) \<Longrightarrow> ssid_from_wire (ssid_image s) = Ret s"
  by (simp add: ssid_from_wire_def ssid_image_def event_limits padded_copy)

lemma ssid_image_wf: "padded 32 (ss_length s) (ss_value s) \<Longrightarrow> wf_ssid (ssid_image s)"
  by (simp add: wf_ssid_def ssid_image_def padded_length)

lemma channel_image_wf [simp]: "wf_channel (channel_image c)"
  by (simp add: channel_image_def wf_channel_def)

lemma channel_image_back: "channel_accepts c False \<Longrightarrow> channel_from_wire (channel_image c) False = Ret c"
  by (subst channel_wire_iff [symmetric]) (simp_all add: channel_to_wire_eq)

lemma padded_bound: "padded cap n bs \<Longrightarrow> unat n \<le> cap"
  by (simp add: padded_def)

text \<open>Reading a payload behind a header.\<close>

lemma payload_read:
  assumes "length h = 20"
  shows "event_payload (h @ p) n = check (length p = n) EPROTO" "drop sizeof_header (h @ p) = p"
  using assms by (simp_all add: event_payload_def)

lemmas wire_back = wnw.view_enc_end wdc.view_enc_end wrx.view_enc_end wtx.view_enc_end
  wef.view_enc_end wfe.view_enc_end wea.view_enc_end

lemma ssid_image_length [simp]: "ws_length (ssid_image s) = ss_length s"
  by (simp add: ssid_image_def)

lemmas event_data_rules = wf_event_data_def data_message_def decoder_defs payload_read wire_sizeofs
  wire_back ssid_padded channel_image_back padded_copy event_limits rdn_def sub_bytes_def

lemma decode_data_NetworkData:
  assumes wf: "wf_event_data rid t (NetworkData n)" and h: "length h = 20"
  shows "decode_network (h @ data_message (NetworkData n)) = Ret (NetworkData n)"
proof -
  have "wf_network \<lparr>wnw_ssid = ssid_image (nw_ssid n), wnw_bssid = nw_bssid n,
       wnw_channel = channel_image (nw_channel n), wnw_rssi = nw_rssi n, wnw_security = nw_security n,
       wnw_beacon_interval = nw_beacon_interval n, wnw_capability = nw_capability n,
       wnw_ies_length = nw_ies_length n, wnw_ies = nw_ies n\<rparr>"
    using wf by (auto simp: wf_event_data_def wf_network_def ssid_image_wf padded_length)
  with assms show ?thesis by (auto simp: event_data_rules dest: padded_bound)
qed

lemma decode_data_DisconnectedData:
  assumes wf: "wf_event_data rid t (DisconnectedData b r l)" and h: "length h = 20"
  shows "decode_disconnected (h @ data_message (DisconnectedData b r l)) = Ret (DisconnectedData b r l)"
proof -
  have "wf_disconnected \<lparr>wdc_bssid = b, wdc_reason = r,
       wdc_locally_generated = l, wdc_reserved = 0\<rparr>"
    using wf by (auto simp: wf_event_data_def wf_disconnected_def ssid_image_wf padded_length)
  with assms show ?thesis by (auto simp: event_data_rules dest: padded_bound)
qed

lemma decode_data_FrameData:
  assumes wf: "wf_event_data rid t (FrameData c r l b)" and h: "length h = 20"
  shows "decode_frame (h @ data_message (FrameData c r l b)) = Ret (FrameData c r l b)"
proof -
  have "wf_rx_frame \<lparr>wrx_channel = channel_image c, wrx_rssi = r,
       wrx_data_length = l, wrx_data = b\<rparr>"
    using wf by (auto simp: wf_event_data_def wf_rx_frame_def ssid_image_wf padded_length)
  with assms show ?thesis by (auto simp: event_data_rules dest: padded_bound)
qed

lemma decode_data_TxStatusData:
  assumes wf: "wf_event_data rid t (TxStatusData c a l b)" and h: "length h = 20"
  shows "decode_tx_status (h @ data_message (TxStatusData c a l b)) = Ret (TxStatusData c a l b)"
proof -
  have "wf_tx_status \<lparr>wtx_cookie = c, wtx_acknowledged = a, wtx_reserved = 0,
       wtx_data_length = l, wtx_data = b\<rparr>"
    using wf by (auto simp: wf_event_data_def wf_tx_status_def ssid_image_wf padded_length)
  with assms show ?thesis by (auto simp: event_data_rules dest: padded_bound)
qed

lemma decode_data_EapolData:
  assumes wf: "wf_event_data rid t (EapolData s e l b)" and h: "length h = 20"
  shows "decode_eapol (h @ data_message (EapolData s e l b)) = Ret (EapolData s e l b)"
proof -
  have "wf_eapol_frame \<lparr>wef_source = s, wef_destination = e,
       wef_data_length = l, wef_data = b\<rparr>"
    using wf by (auto simp: wf_event_data_def wf_eapol_frame_def ssid_image_wf padded_length)
  with assms show ?thesis by (auto simp: event_data_rules dest: padded_bound)
qed

lemma decode_data_FirmwareData:
  assumes wf: "wf_event_data rid t (FirmwareData r l b)" and h: "length h = 20"
  shows "decode_firmware_error (h @ data_message (FirmwareData r l b)) = Ret (FirmwareData r l b)"
proof -
  have "wf_firmware_error \<lparr>wfe_reason = r, wfe_dump_length = l, wfe_dump = b\<rparr>"
    using wf by (auto simp: wf_event_data_def wf_firmware_error_def ssid_image_wf padded_length)
  with assms show ?thesis by (auto simp: event_data_rules dest: padded_bound)
qed

lemma decode_data_ExternalAuthData:
  assumes wf: "wf_event_data rid t (ExternalAuthData s b a)" and h: "length h = 20"
  shows "decode_external_auth rid (h @ data_message (ExternalAuthData s b a)) = Ret (ExternalAuthData s b a)"
proof -
  have "wf_external_auth \<lparr>wea_ssid = ssid_image s, wea_bssid = b,
       wea_reserved = 0, wea_akm_suite = a\<rparr>"
    using wf by (auto simp: wf_event_data_def wf_external_auth_def ssid_image_wf padded_length)
  with assms show ?thesis by (auto simp: event_data_rules dest: padded_bound)
qed

lemma decode_data_NoData: "wf_event_data rid t NoData \<Longrightarrow> length h = 20 \<Longrightarrow> no_payload (h @ data_message NoData) = Ret NoData"
  by (simp add: data_message_def no_payload_def)

lemmas decode_data = decode_data_NoData decode_data_NetworkData decode_data_DisconnectedData
  decode_data_FrameData decode_data_TxStatusData decode_data_EapolData decode_data_FirmwareData
  decode_data_ExternalAuthData

lemma decode_switch_message:
  assumes "wf_event_data rid t d" and "length h = 20" and "wh_type x = event_code t" and "wh_request_id x = rid"
  shows "decode_switch x (h @ data_message d) = Ret (t, d)"
  using assms
  by (cases d; cases t) (auto simp: decode_switch_def event_code_def event_defs Let_def decode_data,
    auto simp: wf_event_data_def)

section \<open>Events, there and back\<close>

lemma event_message_header:
  "view_header (event_message e) = Ret \<lparr>wh_version = RTWO_CTRL_VERSION, wh_type = event_code (ev_type e),
     wh_length = of_nat (length (event_message e)), wh_request_id = ev_request_id e,
     wh_status = ev_status e, wh_iftype = ucast (ev_interface_type e),
     wh_flags = (if ev_truncated e then RTWO_CTRL_FLAG_TRUNCATED else 0) OR
       (if ev_overflow e then RTWO_CTRL_FLAG_OVERFLOW else 0), wh_reserved = 0\<rparr>"
  by (simp add: event_message_def Let_def wh.view_enc)

lemma event_flags:
  "((if a then RTWO_CTRL_FLAG_TRUNCATED else 0) OR (if b then RTWO_CTRL_FLAG_OVERFLOW else 0)) AND
     RTWO_CTRL_FLAG_TRUNCATED \<noteq> 0 \<longleftrightarrow> a"
  "((if a then RTWO_CTRL_FLAG_TRUNCATED else 0) OR (if b then RTWO_CTRL_FLAG_OVERFLOW else 0)) AND
     RTWO_CTRL_FLAG_OVERFLOW \<noteq> 0 \<longleftrightarrow> b"
  by (simp_all add: RTWO_CTRL_FLAG_TRUNCATED_def RTWO_CTRL_FLAG_OVERFLOW_def)

lemma decode_event_message_eq: "wf_event e \<Longrightarrow> decode_event (event_message e) = Ret e"
proof -
  assume wf: "wf_event e"
  have "decode_switch x (event_message e) = Ret (ev_type e, ev_data e)"
    if "wh_type x = event_code (ev_type e)" "wh_request_id x = ev_request_id e" for x
    unfolding event_message_def Let_def
    by (rule decode_switch_message [where rid = "ev_request_id e"]) (use wf that in \<open>simp_all add: wf_event_def\<close>)
  then show ?thesis
    unfolding decode_event_def event_message_header
    by (simp add: event_flags ucast_small wf [unfolded wf_event_def])
qed

lemma cmap_Pair_iff: "cmap (Pair a) m = Ret p \<longleftrightarrow> (\<exists>b. m = Ret b \<and> p = (a, b))"
  by (cases m) auto

lemma ssid_from_wire_padded: "ssid_from_wire w = Ret s \<Longrightarrow> wf_ssid w \<Longrightarrow>
    padded 32 (ss_length s) (ss_value s) \<and> ss_length s = ws_length w"
  by (auto simp: ssid_from_wire_eq padded_def pad_to_def wf_ssid_def split: if_splits)

lemma channel_from_wire_accepts: "channel_from_wire w a = Ret c \<Longrightarrow> wf_channel w \<Longrightarrow> channel_accepts c a"
  by (auto simp: channel_from_wire_eq split: if_splits)

lemma decode_payload_wf:
  "decode_network m = Ret d \<Longrightarrow> wf_event_data rid ScanResult d"
  "decode_disconnected m = Ret d \<Longrightarrow> wf_event_data rid DisconnectedEvent d"
  "decode_frame m = Ret d \<Longrightarrow> t \<in> {AuthRx, AssocRx, MgmtRx} \<Longrightarrow> wf_event_data rid t d"
  "decode_tx_status m = Ret d \<Longrightarrow> wf_event_data rid MgmtTxStatus d"
  "decode_eapol m = Ret d \<Longrightarrow> wf_event_data rid EapolRx d"
  "decode_firmware_error m = Ret d \<Longrightarrow> wf_event_data rid FirmwareError d"
  "decode_external_auth rid m = Ret d \<Longrightarrow> wf_event_data rid ExternalAuthRequired d"
  "no_payload m = Ret d \<Longrightarrow> t \<in> {RadioOnline, RadioOffline, ScanDone, ConnectResult, RegulatoryChanged} \<Longrightarrow>
    wf_event_data rid t d"
  by (auto simp: decoder_defs cbind_Ret_iff wf_event_data_def event_limits wire_wf_defs
      dest!: wnw.view_wf wdc.view_wf wrx.view_wf wtx.view_wf wef.view_wf wfe.view_wf wea.view_wf
      length_rdn ssid_from_wire_padded channel_from_wire_accepts copy_padded
      split: if_split_asm)

lemma decode_switch_wf: "decode_switch x m = Ret (t, d) \<Longrightarrow> wf_event_data (wh_request_id x) t d"
  by (auto simp: decode_switch_def Let_def cmap_Pair_iff decode_payload_wf split: if_split_asm)

lemma ucast_le_255: "ucast (b :: u8) \<le> (255 :: u32)"
  using unsigned_less [of b, where 'a = nat] by (simp add: word_le_nat_alt unsigned_ucast_eq take_bit_nat_eq_self)

lemma decode_event_wf_eq: "decode_event m = Ret e \<Longrightarrow> wf_event e"
  by (auto simp: decode_event_def cbind_Ret_iff wf_event_def decode_switch_wf ucast_le_255
      split: prod.split_asm)

section \<open>Replies to the two queries\<close>

text \<open>What \<open>request_reply\<close> does once its command is sent and a message has arrived.\<close>

lemma request_reply_Ret:
  assumes "request_reply h cmd i event n os = Some (Ret p, h', os')"
  shows "\<exists>rid m. send_command h cmd i None 0 os \<noteq> None \<and> m = take 20 m @ p \<and> length m = 20 + n \<and>
    wh_type (get_header m) = event \<and> wh_request_id (get_header m) = rid \<and> rid \<noteq> 0 \<and>
    wh_status (get_header m) = 0 \<and>
    (\<exists>c. os_sent os' = os_sent os @ [(c, 20)] \<and> view_header c = Ret (command_header cmd i rid 0))"
proof -
  obtain rid os1 m where send: "send_command h cmd i None 0 os = Some (Ret rid, h', os1)"
    and rd: "read_message h' RTWO_CTRL_MAX_MESSAGE_SIZE 1000 os1 = Some (Ret m, os')"
    and hd: "view_header m = Ret (get_header m)" "wh_type (get_header m) = event"
      "wh_request_id (get_header m) = rid" "wh_status (get_header m) = 0" "length m = 20 + n"
      "p = drop 20 m"
    using assms
    by (auto simp: request_reply_def cbind_Ret_iff view_header_def split: option.splits cres.splits if_splits)
  have "os_sent os' = os_sent os1"
    using rd by (auto simp: read_message_def poll_input_def Let_def split: option.splits sysret.splits if_splits cres.splits)
  moreover obtain c where "os_sent os1 = os_sent os @ [(c, 20)]" "rid \<noteq> 0"
      "view_header c = Ret (command_header cmd i rid 0)"
    using send_command_sent [OF send] by auto
  ultimately show ?thesis using send hd by (intro exI [of _ rid] exI [of _ m]) auto
qed

lemma request_reply_no_fault: "request_reply h cmd i event n os \<noteq> Some (Fault, h', os')"
proof
  assume "request_reply h cmd i event n os = Some (Fault, h', os')"
  then show False
    using read_message_no_fault read_message_Ret send_command_no_fault [of None]
    by (auto simp: request_reply_def cbind_Fault_iff wire_view_faults
        split: option.splits cres.splits dest!: read_message_Ret)
qed

text \<open>
  An operating system that interrupts each call some number of times and then sends the command,
  reports input, and delivers \<open>m\<close>.
\<close>

definition answers :: "nat \<Rightarrow> nat \<Rightarrow> nat \<Rightarrow> nat \<Rightarrow> bytes \<Rightarrow> wlan_os \<Rightarrow> bool" where
  "answers n a b c m os \<longleftrightarrow> \<not> os_oom os \<and>
     (\<exists>ws. os_writes os = replicate a (SysErr EINTR) @ SysOk n # ws) \<and>
     (\<exists>ps. os_polls os = replicate b (SysErr EINTR) @ SysOk (1, POLLIN) # ps) \<and>
     (\<exists>rs. os_reads os = replicate c (SysErr EINTR) @ SysOk m # rs)"

lemma eintr_retry_replicate:
  "r \<noteq> SysErr EINTR \<Longrightarrow> eintr_retry (replicate n (SysErr EINTR) @ r # rs) = Some (r, rs)"
  by (auto simp: eintr_retry_Some)

definition message_ok :: "bytes \<Rightarrow> bool" where
  "message_ok m \<longleftrightarrow> 20 \<le> length m \<and> length m \<le> 4096 \<and> header_ok (get_header m) (length m) 4096"

lemma view_header_Ret: "20 \<le> length m \<Longrightarrow> view_header m = Ret (get_header m)"
  by (simp add: view_header_def)

lemma read_message_answers:
  assumes "answers n a b c m os" and "message_ok m" and "0 \<le> h_fd h" and "-1 \<le> t"
  shows "\<exists>os'. read_message (Some h) RTWO_CTRL_MAX_MESSAGE_SIZE t os = Some (Ret m, os') \<and> os_sent os' = os_sent os"
  using assms
  by (auto simp: answers_def message_ok_def read_message_def poll_input_def eintr_retry_replicate POLLIN_def
      validate_handle_def RTWO_CTRL_MAX_MESSAGE_SIZE_def view_header_Ret Let_def)

lemma send_command_answers:
  assumes "answers 20 a b c m os" and "0 \<le> h_fd h" and "validate_interface i"
  shows "\<exists>os1. send_command (Some h) cmd i None 0 os =
      Some (Ret (fst (next_request_id h)), Some (snd (next_request_id h)), os1) \<and> answers 20 0 b c m (os1\<lparr>os_writes := [SysOk 20]\<rparr>) \<and>
      os_sent os1 = os_sent os @ [(command_message cmd i (fst (next_request_id h)) [], 20)]"
  using assms next_request_id_nonzero [of h] next_request_id_fd [of h]
  by (auto simp: send_command_def send_command_id_eq send_args_ok_def validate_handle_def answers_def
      write_message_def eintr_retry_replicate split_beta Let_def)

lemma request_reply_answers:
  assumes "answers 20 a b c m os" and "message_ok m" and "0 \<le> h_fd h" and "validate_interface i"
  shows "\<exists>os'. request_reply (Some h) cmd i event n os =
    Some (if wh_type (get_header m) = event \<and> wh_request_id (get_header m) = fst (next_request_id h) \<and>
             wh_status (get_header m) = 0 \<and> length m = 20 + n
          then Ret (drop 20 m) else Fail EPROTO, Some (snd (next_request_id h)), os') \<and>
    os_sent os' = os_sent os @ [(command_message cmd i (fst (next_request_id h)) [], 20)]"
proof -
  obtain os1 where s: "send_command (Some h) cmd i None 0 os =
      Some (Ret (fst (next_request_id h)), Some (snd (next_request_id h)), os1)"
    and a: "answers 20 0 b c m (os1\<lparr>os_writes := [SysOk 20]\<rparr>)"
    and o: "os_sent os1 = os_sent os @ [(command_message cmd i (fst (next_request_id h)) [], 20)]"
    using send_command_answers [OF assms(1,3,4)] by blast
  let ?h = "snd (next_request_id h)"
  have "\<exists>os2. read_message (Some ?h) RTWO_CTRL_MAX_MESSAGE_SIZE 1000 os1 = Some (Ret m, os2) \<and> os_sent os2 = os_sent os1"
    using a assms(2,3)
    by (auto simp: answers_def message_ok_def read_message_def poll_input_def eintr_retry_replicate POLLIN_def
        validate_handle_def RTWO_CTRL_MAX_MESSAGE_SIZE_def view_header_Ret Let_def next_request_id_fd)
  then obtain os2 where r: "read_message (Some ?h) RTWO_CTRL_MAX_MESSAGE_SIZE 1000 os1 = Some (Ret m, os2)"
    "os_sent os2 = os_sent os1" by blast
  have "20 \<le> length m" using assms(2) by (simp add: message_ok_def)
  with s r o show ?thesis
    by (auto simp: request_reply_def view_header_Ret check_def)
qed

text \<open>The reply to a query: a header of the given type and identifier and a payload.\<close>

definition reply_header :: "u16 \<Rightarrow> u32 \<Rightarrow> u32 \<Rightarrow> u8 \<Rightarrow> nat \<Rightarrow> wire_header" where
  "reply_header event rid status iftype n =
     \<lparr>wh_version = RTWO_CTRL_VERSION, wh_type = event, wh_length = of_nat (sizeof_header + n),
      wh_request_id = rid, wh_status = status, wh_iftype = iftype, wh_flags = 0, wh_reserved = 0\<rparr>"

definition reply_message :: "u16 \<Rightarrow> u32 \<Rightarrow> u32 \<Rightarrow> u8 \<Rightarrow> bytes \<Rightarrow> bytes" where
  "reply_message event rid status iftype p = enc_header (reply_header event rid status iftype (length p)) @ p"

lemma get_reply_header: "get_header (reply_message event rid st i p) = reply_header event rid st i (length p)"
  by (simp add: reply_message_def get_enc_header)

lemma length_reply [simp]: "length (reply_message event rid st i p) = 20 + length p"
  by (simp add: reply_message_def)

lemma reply_message_ok: "length p \<le> 4076 \<Longrightarrow> i \<in> {0, 1, 255} \<Longrightarrow> message_ok (reply_message event rid st i p)"
  by (auto simp: message_ok_def header_ok_def get_reply_header reply_header_def interface_defs unat_word_ariths
      unsigned_of_nat take_bit_nat_eq_self)

lemma decoded_length:
  "decode_network m = Ret d \<Longrightarrow> length m = 1112" "decode_disconnected m = Ret d \<Longrightarrow> length m = 30"
  "decode_frame m = Ret d \<Longrightarrow> length m = 2340" "decode_tx_status m = Ret d \<Longrightarrow> length m = 2340"
  "decode_eapol m = Ret d \<Longrightarrow> length m = 1634" "decode_firmware_error m = Ret d \<Longrightarrow> length m = 1052"
  "decode_external_auth rid m = Ret d \<Longrightarrow> length m = 64" "no_payload m = Ret d \<Longrightarrow> length m = 20"
  by (auto simp: decoder_defs cbind_Ret_iff event_payload_def wire_sizeofs)

lemma length_data_message: "wf_event_data rid t d \<Longrightarrow> length (data_message d) \<le> 2320"
  by (cases d) (auto dest!: decode_data [OF _ length_replicate [of 20 0]] decoded_length)

lemma get_event_header: "get_header (event_message e) = \<lparr>wh_version = RTWO_CTRL_VERSION, wh_type = event_code (ev_type e),
     wh_length = of_nat (length (event_message e)), wh_request_id = ev_request_id e,
     wh_status = ev_status e, wh_iftype = ucast (ev_interface_type e),
     wh_flags = (if ev_truncated e then RTWO_CTRL_FLAG_TRUNCATED else 0) OR
       (if ev_overflow e then RTWO_CTRL_FLAG_OVERFLOW else 0), wh_reserved = 0\<rparr>"
  using event_message_header [of e] by (simp add: view_header_def split: if_splits)

lemma event_message_ok:
  assumes "wf_event e" and "ev_interface_type e \<in> {0, 1, 255}"
  shows "message_ok (event_message e)"
proof -
  have "length (data_message (ev_data e)) \<le> 2320"
    using assms(1) by (auto simp: wf_event_def intro: length_data_message)
  then have len: "20 \<le> length (event_message e)" "length (event_message e) \<le> 2340"
    by (simp_all add: event_message_def Let_def)
  moreover have "ucast (ucast (ev_interface_type e) :: u8) = ev_interface_type e"
    using assms(2) by auto
  ultimately show ?thesis
    unfolding message_ok_def header_ok_def get_event_header
    using assms(2) by (auto simp: RTWO_CTRL_FLAG_TRUNCATED_def RTWO_CTRL_FLAG_OVERFLOW_def interface_defs
        unsigned_of_nat take_bit_nat_eq_self)
qed

lemma request_reply_length: "request_reply h cmd i event n os = Some (Ret p, h', os') \<Longrightarrow> length p = n"
  using request_reply_Ret [of h cmd i event n os p h' os'] by (metis add_left_cancel length_append length_take min.absorb2 le_add1)

lemma queries_no_fault:
  "wlan_offload_get_info handle i given os \<noteq> Some (Fault, handle', os')"
  "wlan_offload_get_names handle i given os \<noteq> Some (Fault, handle', os')"
  by (auto simp: wlan_offload_get_info_def wlan_offload_get_names_def cbind_Fault_iff
      request_reply_no_fault wire_view_faults wire_sizeofs split: option.splits if_splits
      dest!: request_reply_length)

lemma receive_event_no_fault: "wlan_offload_receive_event handle given timeout_ms os \<noteq> Some (Fault, os')"
  by (auto simp: wlan_offload_receive_event_def cbind_Fault_iff decode_event_no_fault read_message_no_fault
      split: option.splits if_splits dest!: read_message_Ret)

lemma drop_reply: "drop 20 (reply_message event rid st iftype p) = p"
  by (simp add: reply_message_def)

text \<open>A network, as the witnesses below use it.\<close>

definition sample_event :: wlan_event where
  "sample_event = \<lparr>ev_type = ScanResult, ev_interface_type = 0, ev_request_id = 7, ev_status = 0,
     ev_truncated = False, ev_overflow = True, ev_data = NetworkData
       \<lparr>nw_ssid = \<lparr>ss_length = 2, ss_value = pad_to 32 [65, 66]\<rparr>, nw_bssid = [2, 0, 0, 0, 0, 1],
        nw_channel = \<lparr>ch_band = 0, ch_width = 2, ch_primary_channel = 6, ch_primary_frequency_mhz = 2437,
          ch_center_frequency1_mhz = 2447, ch_center_frequency2_mhz = 0\<rparr>, nw_rssi = 0xFFC4,
        nw_security = 0, nw_beacon_interval = 100, nw_capability = 0x411, nw_ies_length = 3,
        nw_ies = pad_to 1024 [0, 1, 65]\<rparr>\<rparr>"

definition sample_os :: "nat \<Rightarrow> bytes \<Rightarrow> wlan_os" where
  "sample_os n m = \<lparr>os_writes = [SysErr EINTR, SysOk n], os_polls = [SysOk (1, POLLIN)],
     os_reads = [SysErr EINTR, SysOk m], os_oom = False, os_sent = []\<rparr>"

definition sample_handle :: wlan_handle where
  "sample_handle = \<lparr>h_fd = 5, h_next_request_id = 41\<rparr>"

lemma sample_channel: "channel_geometry_valid \<lparr>ch_band = 0, ch_width = 2, ch_primary_channel = 6,
    ch_primary_frequency_mhz = 2437, ch_center_frequency1_mhz = 2447, ch_center_frequency2_mhz = 0\<rparr>"
  by (simp add: channel_geometry_valid_def channel_offset_def width_defs Let_def)

lemma wf_sample_event: "wf_event sample_event"
  using sample_channel
  by (simp add: wf_event_def wf_event_data_def sample_event_def padded_def pad_to_def channel_accepts_def
      width_defs band_defs channel_geometry_eq)

lemma sample_os_answers: "answers n 1 0 1 m (sample_os n m)"
  by (simp add: answers_def sample_os_def)

section \<open>Properties\<close>

text \<open>C1. Whatever bytes the device delivers, of whatever length, receiving an event and querying the
  device do not read or write outside a buffer.\<close>

theorem receive_memory_safe:
  "wlan_offload_receive_event handle given timeout_ms os \<noteq> Some (Fault, os') \<and>
   wlan_offload_get_info handle i given os \<noteq> Some (Fault, handle', os') \<and>
   wlan_offload_get_names handle i given os \<noteq> Some (Fault, handle', os')"
  by (simp add: queries_no_fault receive_event_no_fault)

text \<open>C28. An event that \<open>wlan_offload_receive_event\<close> returns is well formed: its data is the one of
  its type, every length in it is at most the capacity of its array, the array is zero behind
  the length, and every channel in it has a valid geometry.\<close>

theorem received_event_wf:
  assumes "wlan_offload_receive_event handle given timeout_ms os = Some (Ret e, os')"
  shows "wf_event e"
  using assms
  by (auto simp: wlan_offload_receive_event_def cbind_Ret_iff decode_event_wf_eq split: option.splits if_splits)

theorem received_event_wf_witness:
  "wf_event \<lparr>ev_type = RadioOnline, ev_interface_type = 255, ev_request_id = 0, ev_status = 0,
     ev_truncated = False, ev_overflow = False, ev_data = NoData\<rparr>"
  (is "wf_event ?e")
proof -
  have "wf_event ?e" by (simp add: wf_event_def wf_event_data_def)
  moreover from this have "message_ok (event_message ?e)" by (rule event_message_ok) simp
  ultimately obtain os' where
    "wlan_offload_receive_event (Some sample_handle) True (-1) (sample_os 20 (event_message ?e)) = Some (Ret ?e, os')"
    using read_message_answers [OF sample_os_answers, of "event_message ?e" sample_handle "-1" 20]
    by (auto simp: wlan_offload_receive_event_def decode_event_message_eq sample_handle_def)
  then show ?thesis by (rule received_event_wf)
qed

text \<open>C3. Every well-formed event a device reports in its message is received as it was reported,
  however often the system calls are interrupted.\<close>

theorem event_roundtrip:
  assumes "wf_event e" and "ev_interface_type e \<in> {0, 1, 255}" and "answers n a b c (event_message e) os"
    and "0 \<le> h_fd h" and "-1 \<le> timeout_ms"
  shows "\<exists>os'. wlan_offload_receive_event (Some h) True timeout_ms os = Some (Ret e, os')"
  using read_message_answers [OF assms(3) event_message_ok [OF assms(1,2)] assms(4,5)]
  by (auto simp: wlan_offload_receive_event_def decode_event_message_eq [OF assms(1)])

theorem event_roundtrip_witness:
  "\<exists>os'. wlan_offload_receive_event (Some sample_handle) True 500 (sample_os 20 (event_message sample_event)) =
    Some (Ret sample_event, os')"
  by (rule event_roundtrip [OF wf_sample_event _ sample_os_answers])
    (simp_all add: sample_event_def sample_handle_def)

text \<open>A query is answered by the reply with its identifier: when the device sends back the names,
  \<open>wlan_offload_get_names\<close> gives them, each with its last byte cleared, and when it sends back
  the description of the radio, \<open>wlan_offload_get_info\<close> gives all its fields.\<close>

theorem query_reply:
  assumes "0 \<le> h_fd h" and "validate_interface i" and "iftype \<in> {0, 1, 255}"
    and "wf_names nw" and "wf_info iw" and "rid = fst (next_request_id h)"
    and "answers 20 a b c (reply_message EVENT_NAMES rid 0 iftype (enc_names nw)) osn"
    and "answers 20 a b c (reply_message EVENT_INFO rid 0 iftype (enc_info iw)) osi"
  shows "(\<exists>os'. wlan_offload_get_names (Some h) i True osn =
      Some (Ret (names_of_wire nw), Some (snd (next_request_id h)), os')) \<and>
    (\<exists>os'. wlan_offload_get_info (Some h) i True osi =
      Some (Ret (info_of_wire iw), Some (snd (next_request_id h)), os'))"
proof -
  have ok: "message_ok (reply_message EVENT_NAMES rid 0 iftype (enc_names nw))"
    "message_ok (reply_message EVENT_INFO rid 0 iftype (enc_info iw))"
    using assms(3-5) by (auto intro!: reply_message_ok)
  show ?thesis
    using request_reply_answers [OF assms(7) ok(1) assms(1,2), of CMD_GET_NAMES EVENT_NAMES sizeof_names]
      request_reply_answers [OF assms(8) ok(2) assms(1,2), of CMD_GET_INFO EVENT_INFO sizeof_info]
    by (auto simp: wlan_offload_get_names_def wlan_offload_get_info_def get_reply_header reply_header_def
        wire_sizeofs assms(4-6) drop_reply wn.view_enc_end wi.view_enc_end)
qed

theorem query_reply_witness:
  "\<exists>os'. wlan_offload_get_names (Some sample_handle) INTERFACE_STATION True
      (sample_os 20 (reply_message EVENT_NAMES 42 0 255
        (enc_names \<lparr>wn_control = replicate 24 119, wn_station = replicate 24 0, wn_ap = replicate 24 0,
          wn_radio_index = 1, wn_reserved = [0, 0, 0]\<rparr>))) =
    Some (Ret \<lparr>nm_control = replicate 23 119 @ [0], nm_station = replicate 24 0, nm_ap = replicate 24 0,
      nm_radio_index = 1\<rparr>, Some \<lparr>h_fd = 5, h_next_request_id = 42\<rparr>, os')"
proof -
  let ?nw = "\<lparr>wn_control = replicate 24 119, wn_station = replicate 24 0, wn_ap = replicate 24 0,
      wn_radio_index = 1, wn_reserved = [0, 0, 0]\<rparr>"
  let ?iw = "get_info (replicate 56 0)"
  have id: "next_request_id sample_handle = (42, \<lparr>h_fd = 5, h_next_request_id = 42\<rparr>)"
    by (simp add: next_request_id_def sample_handle_def)
  have "names_of_wire ?nw = \<lparr>nm_control = replicate 23 119 @ [0], nm_station = replicate 24 0,
      nm_ap = replicate 24 0, nm_radio_index = 1\<rparr>"
    by (simp add: names_of_wire_def DEVICE_NAME_MAX_def numeral_eq_Suc)
  with query_reply [where iftype = 255 and nw = ?nw and iw = ?iw, OF _ _ _ _ _ refl sample_os_answers sample_os_answers,
      of sample_handle INTERFACE_STATION] id
  show ?thesis
    by (simp add: sample_handle_def validate_interface_def interface_defs wf_names_def wf_get_info)
qed

text \<open>A query reads one message. When an event was waiting in front of the reply, the query takes
  the event, fails with \<open>-EPROTO\<close>, and the event is lost to \<open>wlan_offload_receive_event\<close>.\<close>

theorem query_takes_waiting_event:
  assumes "wf_event e" and "ev_interface_type e \<in> {0, 1, 255}" and "answers 20 a b c (event_message e) os"
    and "0 \<le> h_fd h" and "validate_interface i"
  shows "\<exists>os'. wlan_offload_get_names (Some h) i True os = Some (Fail EPROTO, Some (snd (next_request_id h)), os')"
proof -
  have "wh_type (get_header (event_message e)) \<noteq> EVENT_NAMES"
    by (cases "ev_type e") (auto simp: get_event_header event_code_def event_defs)
  with request_reply_answers [OF assms(3) event_message_ok [OF assms(1,2)] assms(4,5), of CMD_GET_NAMES EVENT_NAMES sizeof_names]
  show ?thesis by (auto simp: wlan_offload_get_names_def)
qed

theorem query_takes_waiting_event_witness:
  "\<exists>os'. wlan_offload_get_names (Some sample_handle) INTERFACE_AP True (sample_os 20 (event_message sample_event)) =
    Some (Fail EPROTO, Some \<lparr>h_fd = 5, h_next_request_id = 42\<rparr>, os')"
proof -
  have "snd (next_request_id sample_handle) = \<lparr>h_fd = 5, h_next_request_id = 42\<rparr>"
    by (simp add: next_request_id_def sample_handle_def)
  with query_takes_waiting_event [OF wf_sample_event _ sample_os_answers, of sample_handle INTERFACE_AP]
  show ?thesis by (simp add: sample_event_def sample_handle_def validate_interface_def interface_defs)
qed

end
