(* ===== verification/Fpioa_Tables.thy ===== *)
theory Fpioa_Tables
  imports C_Prelude
begin

text \<open>
  The data of the pin multiplexer driver (\<open>rtsmart_hal/drivers/fpioa/drv_fpioa.c\<close> and \<open>.h\<close>): the
  codes of the functions, the default configuration of every function, and the functions every
  pin can take. The facts about the tables that the driver relies on are checked here once, by
  computation, in a form the proofs can use.
\<close>

section \<open>The functions\<close>

text \<open>The codes of \<open>fpioa_func_t\<close>, in the order of the enumeration.\<close>

abbreviation (input) GPIO0 :: nat where "GPIO0 \<equiv> 0"
abbreviation (input) GPIO1 :: nat where "GPIO1 \<equiv> 1"
abbreviation (input) GPIO2 :: nat where "GPIO2 \<equiv> 2"
abbreviation (input) GPIO3 :: nat where "GPIO3 \<equiv> 3"
abbreviation (input) GPIO4 :: nat where "GPIO4 \<equiv> 4"
abbreviation (input) GPIO5 :: nat where "GPIO5 \<equiv> 5"
abbreviation (input) GPIO6 :: nat where "GPIO6 \<equiv> 6"
abbreviation (input) GPIO7 :: nat where "GPIO7 \<equiv> 7"
abbreviation (input) GPIO8 :: nat where "GPIO8 \<equiv> 8"
abbreviation (input) GPIO9 :: nat where "GPIO9 \<equiv> 9"
abbreviation (input) GPIO10 :: nat where "GPIO10 \<equiv> 10"
abbreviation (input) GPIO11 :: nat where "GPIO11 \<equiv> 11"
abbreviation (input) GPIO12 :: nat where "GPIO12 \<equiv> 12"
abbreviation (input) GPIO13 :: nat where "GPIO13 \<equiv> 13"
abbreviation (input) GPIO14 :: nat where "GPIO14 \<equiv> 14"
abbreviation (input) GPIO15 :: nat where "GPIO15 \<equiv> 15"
abbreviation (input) GPIO16 :: nat where "GPIO16 \<equiv> 16"
abbreviation (input) GPIO17 :: nat where "GPIO17 \<equiv> 17"
abbreviation (input) GPIO18 :: nat where "GPIO18 \<equiv> 18"
abbreviation (input) GPIO19 :: nat where "GPIO19 \<equiv> 19"
abbreviation (input) GPIO20 :: nat where "GPIO20 \<equiv> 20"
abbreviation (input) GPIO21 :: nat where "GPIO21 \<equiv> 21"
abbreviation (input) GPIO22 :: nat where "GPIO22 \<equiv> 22"
abbreviation (input) GPIO23 :: nat where "GPIO23 \<equiv> 23"
abbreviation (input) GPIO24 :: nat where "GPIO24 \<equiv> 24"
abbreviation (input) GPIO25 :: nat where "GPIO25 \<equiv> 25"
abbreviation (input) GPIO26 :: nat where "GPIO26 \<equiv> 26"
abbreviation (input) GPIO27 :: nat where "GPIO27 \<equiv> 27"
abbreviation (input) GPIO28 :: nat where "GPIO28 \<equiv> 28"
abbreviation (input) GPIO29 :: nat where "GPIO29 \<equiv> 29"
abbreviation (input) GPIO30 :: nat where "GPIO30 \<equiv> 30"
abbreviation (input) GPIO31 :: nat where "GPIO31 \<equiv> 31"
abbreviation (input) GPIO32 :: nat where "GPIO32 \<equiv> 32"
abbreviation (input) GPIO33 :: nat where "GPIO33 \<equiv> 33"
abbreviation (input) GPIO34 :: nat where "GPIO34 \<equiv> 34"
abbreviation (input) GPIO35 :: nat where "GPIO35 \<equiv> 35"
abbreviation (input) GPIO36 :: nat where "GPIO36 \<equiv> 36"
abbreviation (input) GPIO37 :: nat where "GPIO37 \<equiv> 37"
abbreviation (input) GPIO38 :: nat where "GPIO38 \<equiv> 38"
abbreviation (input) GPIO39 :: nat where "GPIO39 \<equiv> 39"
abbreviation (input) GPIO40 :: nat where "GPIO40 \<equiv> 40"
abbreviation (input) GPIO41 :: nat where "GPIO41 \<equiv> 41"
abbreviation (input) GPIO42 :: nat where "GPIO42 \<equiv> 42"
abbreviation (input) GPIO43 :: nat where "GPIO43 \<equiv> 43"
abbreviation (input) GPIO44 :: nat where "GPIO44 \<equiv> 44"
abbreviation (input) GPIO45 :: nat where "GPIO45 \<equiv> 45"
abbreviation (input) GPIO46 :: nat where "GPIO46 \<equiv> 46"
abbreviation (input) GPIO47 :: nat where "GPIO47 \<equiv> 47"
abbreviation (input) GPIO48 :: nat where "GPIO48 \<equiv> 48"
abbreviation (input) GPIO49 :: nat where "GPIO49 \<equiv> 49"
abbreviation (input) GPIO50 :: nat where "GPIO50 \<equiv> 50"
abbreviation (input) GPIO51 :: nat where "GPIO51 \<equiv> 51"
abbreviation (input) GPIO52 :: nat where "GPIO52 \<equiv> 52"
abbreviation (input) GPIO53 :: nat where "GPIO53 \<equiv> 53"
abbreviation (input) GPIO54 :: nat where "GPIO54 \<equiv> 54"
abbreviation (input) GPIO55 :: nat where "GPIO55 \<equiv> 55"
abbreviation (input) GPIO56 :: nat where "GPIO56 \<equiv> 56"
abbreviation (input) GPIO57 :: nat where "GPIO57 \<equiv> 57"
abbreviation (input) GPIO58 :: nat where "GPIO58 \<equiv> 58"
abbreviation (input) GPIO59 :: nat where "GPIO59 \<equiv> 59"
abbreviation (input) GPIO60 :: nat where "GPIO60 \<equiv> 60"
abbreviation (input) GPIO61 :: nat where "GPIO61 \<equiv> 61"
abbreviation (input) GPIO62 :: nat where "GPIO62 \<equiv> 62"
abbreviation (input) GPIO63 :: nat where "GPIO63 \<equiv> 63"
abbreviation (input) GPIO64 :: nat where "GPIO64 \<equiv> 64"
abbreviation (input) GPIO65 :: nat where "GPIO65 \<equiv> 65"
abbreviation (input) GPIO66 :: nat where "GPIO66 \<equiv> 66"
abbreviation (input) GPIO67 :: nat where "GPIO67 \<equiv> 67"
abbreviation (input) GPIO68 :: nat where "GPIO68 \<equiv> 68"
abbreviation (input) GPIO69 :: nat where "GPIO69 \<equiv> 69"
abbreviation (input) GPIO70 :: nat where "GPIO70 \<equiv> 70"
abbreviation (input) GPIO71 :: nat where "GPIO71 \<equiv> 71"
abbreviation (input) BOOT0 :: nat where "BOOT0 \<equiv> 72"
abbreviation (input) BOOT1 :: nat where "BOOT1 \<equiv> 73"
abbreviation (input) CI0 :: nat where "CI0 \<equiv> 74"
abbreviation (input) CI1 :: nat where "CI1 \<equiv> 75"
abbreviation (input) CI2 :: nat where "CI2 \<equiv> 76"
abbreviation (input) CI3 :: nat where "CI3 \<equiv> 77"
abbreviation (input) CO0 :: nat where "CO0 \<equiv> 78"
abbreviation (input) CO1 :: nat where "CO1 \<equiv> 79"
abbreviation (input) CO2 :: nat where "CO2 \<equiv> 80"
abbreviation (input) CO3 :: nat where "CO3 \<equiv> 81"
abbreviation (input) DI0 :: nat where "DI0 \<equiv> 82"
abbreviation (input) DI1 :: nat where "DI1 \<equiv> 83"
abbreviation (input) DI2 :: nat where "DI2 \<equiv> 84"
abbreviation (input) DI3 :: nat where "DI3 \<equiv> 85"
abbreviation (input) DO0 :: nat where "DO0 \<equiv> 86"
abbreviation (input) DO1 :: nat where "DO1 \<equiv> 87"
abbreviation (input) DO2 :: nat where "DO2 \<equiv> 88"
abbreviation (input) DO3 :: nat where "DO3 \<equiv> 89"
abbreviation (input) HSYNC0 :: nat where "HSYNC0 \<equiv> 90"
abbreviation (input) HSYNC1 :: nat where "HSYNC1 \<equiv> 91"
abbreviation (input) IIC0_SCL :: nat where "IIC0_SCL \<equiv> 92"
abbreviation (input) IIC0_SDA :: nat where "IIC0_SDA \<equiv> 93"
abbreviation (input) IIC1_SCL :: nat where "IIC1_SCL \<equiv> 94"
abbreviation (input) IIC1_SDA :: nat where "IIC1_SDA \<equiv> 95"
abbreviation (input) IIC2_SCL :: nat where "IIC2_SCL \<equiv> 96"
abbreviation (input) IIC2_SDA :: nat where "IIC2_SDA \<equiv> 97"
abbreviation (input) IIC3_SCL :: nat where "IIC3_SCL \<equiv> 98"
abbreviation (input) IIC3_SDA :: nat where "IIC3_SDA \<equiv> 99"
abbreviation (input) IIC4_SCL :: nat where "IIC4_SCL \<equiv> 100"
abbreviation (input) IIC4_SDA :: nat where "IIC4_SDA \<equiv> 101"
abbreviation (input) IIS_CLK :: nat where "IIS_CLK \<equiv> 102"
abbreviation (input) IIS_D_IN0_PDM_IN3 :: nat where "IIS_D_IN0_PDM_IN3 \<equiv> 103"
abbreviation (input) IIS_D_IN1_PDM_IN2 :: nat where "IIS_D_IN1_PDM_IN2 \<equiv> 104"
abbreviation (input) IIS_D_OUT0_PDM_IN1 :: nat where "IIS_D_OUT0_PDM_IN1 \<equiv> 105"
abbreviation (input) IIS_D_OUT1_PDM_IN0 :: nat where "IIS_D_OUT1_PDM_IN0 \<equiv> 106"
abbreviation (input) IIS_WS :: nat where "IIS_WS \<equiv> 107"
abbreviation (input) JTAG_RST :: nat where "JTAG_RST \<equiv> 108"
abbreviation (input) JTAG_TCK :: nat where "JTAG_TCK \<equiv> 109"
abbreviation (input) JTAG_TDI :: nat where "JTAG_TDI \<equiv> 110"
abbreviation (input) JTAG_TDO :: nat where "JTAG_TDO \<equiv> 111"
abbreviation (input) JTAG_TMS :: nat where "JTAG_TMS \<equiv> 112"
abbreviation (input) M_CLK1 :: nat where "M_CLK1 \<equiv> 113"
abbreviation (input) M_CLK2 :: nat where "M_CLK2 \<equiv> 114"
abbreviation (input) M_CLK3 :: nat where "M_CLK3 \<equiv> 115"
abbreviation (input) MMC1_CLK :: nat where "MMC1_CLK \<equiv> 116"
abbreviation (input) MMC1_CMD :: nat where "MMC1_CMD \<equiv> 117"
abbreviation (input) MMC1_D0 :: nat where "MMC1_D0 \<equiv> 118"
abbreviation (input) MMC1_D1 :: nat where "MMC1_D1 \<equiv> 119"
abbreviation (input) MMC1_D2 :: nat where "MMC1_D2 \<equiv> 120"
abbreviation (input) MMC1_D3 :: nat where "MMC1_D3 \<equiv> 121"
abbreviation (input) OSPI_CLK :: nat where "OSPI_CLK \<equiv> 122"
abbreviation (input) OSPI_CS :: nat where "OSPI_CS \<equiv> 123"
abbreviation (input) OSPI_D0 :: nat where "OSPI_D0 \<equiv> 124"
abbreviation (input) OSPI_D1 :: nat where "OSPI_D1 \<equiv> 125"
abbreviation (input) OSPI_D2 :: nat where "OSPI_D2 \<equiv> 126"
abbreviation (input) OSPI_D3 :: nat where "OSPI_D3 \<equiv> 127"
abbreviation (input) OSPI_D4 :: nat where "OSPI_D4 \<equiv> 128"
abbreviation (input) OSPI_D5 :: nat where "OSPI_D5 \<equiv> 129"
abbreviation (input) OSPI_D6 :: nat where "OSPI_D6 \<equiv> 130"
abbreviation (input) OSPI_D7 :: nat where "OSPI_D7 \<equiv> 131"
abbreviation (input) OSPI_DQS :: nat where "OSPI_DQS \<equiv> 132"
abbreviation (input) PDM_IN0 :: nat where "PDM_IN0 \<equiv> 133"
abbreviation (input) PDM_IN1 :: nat where "PDM_IN1 \<equiv> 134"
abbreviation (input) PDM_IN2 :: nat where "PDM_IN2 \<equiv> 135"
abbreviation (input) PDM_IN3 :: nat where "PDM_IN3 \<equiv> 136"
abbreviation (input) PULSE_CNTR0 :: nat where "PULSE_CNTR0 \<equiv> 137"
abbreviation (input) PULSE_CNTR1 :: nat where "PULSE_CNTR1 \<equiv> 138"
abbreviation (input) PULSE_CNTR2 :: nat where "PULSE_CNTR2 \<equiv> 139"
abbreviation (input) PULSE_CNTR3 :: nat where "PULSE_CNTR3 \<equiv> 140"
abbreviation (input) PULSE_CNTR4 :: nat where "PULSE_CNTR4 \<equiv> 141"
abbreviation (input) PULSE_CNTR5 :: nat where "PULSE_CNTR5 \<equiv> 142"
abbreviation (input) PWM0 :: nat where "PWM0 \<equiv> 143"
abbreviation (input) PWM1 :: nat where "PWM1 \<equiv> 144"
abbreviation (input) PWM2 :: nat where "PWM2 \<equiv> 145"
abbreviation (input) PWM3 :: nat where "PWM3 \<equiv> 146"
abbreviation (input) PWM4 :: nat where "PWM4 \<equiv> 147"
abbreviation (input) PWM5 :: nat where "PWM5 \<equiv> 148"
abbreviation (input) QSPI0_CLK :: nat where "QSPI0_CLK \<equiv> 149"
abbreviation (input) QSPI0_CS0 :: nat where "QSPI0_CS0 \<equiv> 150"
abbreviation (input) QSPI0_CS1 :: nat where "QSPI0_CS1 \<equiv> 151"
abbreviation (input) QSPI0_CS2 :: nat where "QSPI0_CS2 \<equiv> 152"
abbreviation (input) QSPI0_CS3 :: nat where "QSPI0_CS3 \<equiv> 153"
abbreviation (input) QSPI0_CS4 :: nat where "QSPI0_CS4 \<equiv> 154"
abbreviation (input) QSPI0_D0 :: nat where "QSPI0_D0 \<equiv> 155"
abbreviation (input) QSPI0_D1 :: nat where "QSPI0_D1 \<equiv> 156"
abbreviation (input) QSPI0_D2 :: nat where "QSPI0_D2 \<equiv> 157"
abbreviation (input) QSPI0_D3 :: nat where "QSPI0_D3 \<equiv> 158"
abbreviation (input) QSPI1_CLK :: nat where "QSPI1_CLK \<equiv> 159"
abbreviation (input) QSPI1_CS0 :: nat where "QSPI1_CS0 \<equiv> 160"
abbreviation (input) QSPI1_CS1 :: nat where "QSPI1_CS1 \<equiv> 161"
abbreviation (input) QSPI1_CS2 :: nat where "QSPI1_CS2 \<equiv> 162"
abbreviation (input) QSPI1_CS3 :: nat where "QSPI1_CS3 \<equiv> 163"
abbreviation (input) QSPI1_CS4 :: nat where "QSPI1_CS4 \<equiv> 164"
abbreviation (input) QSPI1_D0 :: nat where "QSPI1_D0 \<equiv> 165"
abbreviation (input) QSPI1_D1 :: nat where "QSPI1_D1 \<equiv> 166"
abbreviation (input) QSPI1_D2 :: nat where "QSPI1_D2 \<equiv> 167"
abbreviation (input) QSPI1_D3 :: nat where "QSPI1_D3 \<equiv> 168"
abbreviation (input) SPI2AXI_CK :: nat where "SPI2AXI_CK \<equiv> 169"
abbreviation (input) SPI2AXI_CS :: nat where "SPI2AXI_CS \<equiv> 170"
abbreviation (input) SPI2AXI_DI :: nat where "SPI2AXI_DI \<equiv> 171"
abbreviation (input) SPI2AXI_DO :: nat where "SPI2AXI_DO \<equiv> 172"
abbreviation (input) UART0_RXD :: nat where "UART0_RXD \<equiv> 173"
abbreviation (input) UART0_TXD :: nat where "UART0_TXD \<equiv> 174"
abbreviation (input) UART1_CTS :: nat where "UART1_CTS \<equiv> 175"
abbreviation (input) UART1_RTS :: nat where "UART1_RTS \<equiv> 176"
abbreviation (input) UART1_RXD :: nat where "UART1_RXD \<equiv> 177"
abbreviation (input) UART1_TXD :: nat where "UART1_TXD \<equiv> 178"
abbreviation (input) UART2_CTS :: nat where "UART2_CTS \<equiv> 179"
abbreviation (input) UART2_RTS :: nat where "UART2_RTS \<equiv> 180"
abbreviation (input) UART2_RXD :: nat where "UART2_RXD \<equiv> 181"
abbreviation (input) UART2_TXD :: nat where "UART2_TXD \<equiv> 182"
abbreviation (input) UART3_CTS :: nat where "UART3_CTS \<equiv> 183"
abbreviation (input) UART3_DE :: nat where "UART3_DE \<equiv> 184"
abbreviation (input) UART3_RE :: nat where "UART3_RE \<equiv> 185"
abbreviation (input) UART3_RTS :: nat where "UART3_RTS \<equiv> 186"
abbreviation (input) UART3_RXD :: nat where "UART3_RXD \<equiv> 187"
abbreviation (input) UART3_TXD :: nat where "UART3_TXD \<equiv> 188"
abbreviation (input) UART4_RXD :: nat where "UART4_RXD \<equiv> 189"
abbreviation (input) UART4_TXD :: nat where "UART4_TXD \<equiv> 190"
abbreviation (input) PDM_CLK :: nat where "PDM_CLK \<equiv> 191"
abbreviation (input) VSYNC0 :: nat where "VSYNC0 \<equiv> 192"
abbreviation (input) VSYNC1 :: nat where "VSYNC1 \<equiv> 193"
abbreviation (input) CTRL_IN_3D :: nat where "CTRL_IN_3D \<equiv> 194"
abbreviation (input) CTRL_O1_3D :: nat where "CTRL_O1_3D \<equiv> 195"
abbreviation (input) CTRL_O2_3D :: nat where "CTRL_O2_3D \<equiv> 196"
abbreviation (input) PMU_INT0 :: nat where "PMU_INT0 \<equiv> 197"
abbreviation (input) PMU_INT1 :: nat where "PMU_INT1 \<equiv> 198"
abbreviation (input) PMU_INT2 :: nat where "PMU_INT2 \<equiv> 199"
abbreviation (input) PMU_INT3 :: nat where "PMU_INT3 \<equiv> 200"
abbreviation (input) PMU_INT4 :: nat where "PMU_INT4 \<equiv> 201"
abbreviation (input) PMU_INT5 :: nat where "PMU_INT5 \<equiv> 202"
abbreviation (input) PMU_OUT0 :: nat where "PMU_OUT0 \<equiv> 203"
abbreviation (input) PMU_OUT1 :: nat where "PMU_OUT1 \<equiv> 204"
abbreviation (input) TEST_PIN0 :: nat where "TEST_PIN0 \<equiv> 205"
abbreviation (input) TEST_PIN1 :: nat where "TEST_PIN1 \<equiv> 206"
abbreviation (input) TEST_PIN2 :: nat where "TEST_PIN2 \<equiv> 207"
abbreviation (input) TEST_PIN3 :: nat where "TEST_PIN3 \<equiv> 208"
abbreviation (input) TEST_PIN4 :: nat where "TEST_PIN4 \<equiv> 209"
abbreviation (input) TEST_PIN5 :: nat where "TEST_PIN5 \<equiv> 210"
abbreviation (input) TEST_PIN6 :: nat where "TEST_PIN6 \<equiv> 211"
abbreviation (input) TEST_PIN7 :: nat where "TEST_PIN7 \<equiv> 212"
abbreviation (input) TEST_PIN8 :: nat where "TEST_PIN8 \<equiv> 213"
abbreviation (input) TEST_PIN9 :: nat where "TEST_PIN9 \<equiv> 214"
abbreviation (input) TEST_PIN10 :: nat where "TEST_PIN10 \<equiv> 215"
abbreviation (input) TEST_PIN11 :: nat where "TEST_PIN11 \<equiv> 216"
abbreviation (input) TEST_PIN12 :: nat where "TEST_PIN12 \<equiv> 217"
abbreviation (input) TEST_PIN13 :: nat where "TEST_PIN13 \<equiv> 218"
abbreviation (input) TEST_PIN14 :: nat where "TEST_PIN14 \<equiv> 219"
abbreviation (input) TEST_PIN15 :: nat where "TEST_PIN15 \<equiv> 220"
abbreviation (input) TEST_PIN16 :: nat where "TEST_PIN16 \<equiv> 221"
abbreviation (input) TEST_PIN17 :: nat where "TEST_PIN17 \<equiv> 222"
abbreviation (input) TEST_PIN18 :: nat where "TEST_PIN18 \<equiv> 223"
abbreviation (input) TEST_PIN19 :: nat where "TEST_PIN19 \<equiv> 224"
abbreviation (input) TEST_PIN20 :: nat where "TEST_PIN20 \<equiv> 225"
abbreviation (input) TEST_PIN21 :: nat where "TEST_PIN21 \<equiv> 226"
abbreviation (input) TEST_PIN22 :: nat where "TEST_PIN22 \<equiv> 227"
abbreviation (input) TEST_PIN23 :: nat where "TEST_PIN23 \<equiv> 228"
abbreviation (input) TEST_PIN24 :: nat where "TEST_PIN24 \<equiv> 229"
abbreviation (input) TEST_PIN25 :: nat where "TEST_PIN25 \<equiv> 230"
abbreviation (input) TEST_PIN26 :: nat where "TEST_PIN26 \<equiv> 231"
abbreviation (input) TEST_PIN27 :: nat where "TEST_PIN27 \<equiv> 232"
abbreviation (input) TEST_PIN28 :: nat where "TEST_PIN28 \<equiv> 233"
abbreviation (input) TEST_PIN29 :: nat where "TEST_PIN29 \<equiv> 234"
abbreviation (input) TEST_PIN30 :: nat where "TEST_PIN30 \<equiv> 235"
abbreviation (input) TEST_PIN31 :: nat where "TEST_PIN31 \<equiv> 236"
abbreviation (input) FUNC_MAX :: nat where "FUNC_MAX \<equiv> 237"

section \<open>The configuration of each function\<close>

type_synonym fpioa_func_cfg = "nat \<times> string \<times> u32"

definition g_func_describ_array :: "fpioa_func_cfg list" where
  "g_func_describ_array = [
     (BOOT0, ''BOOT0'', 0x10F),
     (BOOT1, ''BOOT1'', 0x10F),
     (CI0, ''RESV'', 0x10F),
     (CI1, ''RESV'', 0x10F),
     (CI2, ''RESV'', 0x10F),
     (CI3, ''RESV'', 0x10F),
     (CO0, ''RESV'', 0x08E),
     (CO1, ''RESV'', 0x08E),
     (CO2, ''RESV'', 0x08E),
     (CO3, ''RESV'', 0x08E),
     (DI0, ''RESV'', 0x10F),
     (DI1, ''RESV'', 0x10F),
     (DI2, ''RESV'', 0x10F),
     (DI3, ''RESV'', 0x10F),
     (DO0, ''RESV'', 0x08E),
     (DO1, ''RESV'', 0x08E),
     (DO2, ''RESV'', 0x08E),
     (DO3, ''RESV'', 0x08E),
     (HSYNC0, ''HSYNC0'', 0x08E),
     (HSYNC1, ''HSYNC1'', 0x08E),
     (IIC0_SCL, ''IIC0_SCL'', 0x18F),
     (IIC0_SDA, ''IIC0_SDA'', 0x18F),
     (IIC1_SCL, ''IIC1_SCL'', 0x18F),
     (IIC1_SDA, ''IIC1_SDA'', 0x18F),
     (IIC2_SCL, ''IIC2_SCL'', 0x18F),
     (IIC2_SDA, ''IIC2_SDA'', 0x18F),
     (IIC3_SCL, ''IIC3_SCL'', 0x18F),
     (IIC3_SDA, ''IIC3_SDA'', 0x18F),
     (IIC4_SCL, ''IIC4_SCL'', 0x18F),
     (IIC4_SDA, ''IIC4_SDA'', 0x18F),
     (IIS_CLK, ''IIS_CLK'', 0x08E),
     (IIS_D_IN0_PDM_IN3, ''IIS_D_IN0_PDM_IN3'', 0x10F),
     (IIS_D_IN1_PDM_IN2, ''IIS_D_IN1_PDM_IN2'', 0x10F),
     (IIS_D_OUT0_PDM_IN1, ''IIS_D_OUT0_PDM_IN1'', 0x08E),
     (IIS_D_OUT1_PDM_IN0, ''IIS_D_OUT1_PDM_IN0'', 0x08E),
     (IIS_WS, ''IIS_WS'', 0x08E),
     (JTAG_RST, ''JTAG_RST'', 0x14F),
     (JTAG_TCK, ''JTAG_TCK'', 0x12F),
     (JTAG_TDI, ''JTAG_TDI'', 0x12F),
     (JTAG_TDO, ''JTAG_TDO'', 0x08E),
     (JTAG_TMS, ''JTAG_TMS'', 0x12F),
     (M_CLK1, ''M_CLK1'', 0x08E),
     (M_CLK2, ''M_CLK2'', 0x08E),
     (M_CLK3, ''M_CLK3'', 0x08E),
     (MMC1_CLK, ''MMC1_CLK'', 0x08E),
     (MMC1_CMD, ''MMC1_CMD'', 0x1CF),
     (MMC1_D0, ''MMC1_D0'', 0x1CF),
     (MMC1_D1, ''MMC1_D1'', 0x1CF),
     (MMC1_D2, ''MMC1_D2'', 0x1CF),
     (MMC1_D3, ''MMC1_D3'', 0x1CF),
     (OSPI_CLK, ''OSPI_CLK'', 0x08E),
     (OSPI_CS, ''OSPI_CS'', 0x0CE),
     (OSPI_D0, ''OSPI_D0'', 0x18F),
     (OSPI_D1, ''OSPI_D1'', 0x18F),
     (OSPI_D2, ''OSPI_D2'', 0x18F),
     (OSPI_D3, ''OSPI_D3'', 0x18F),
     (OSPI_D4, ''OSPI_D4'', 0x18F),
     (OSPI_D5, ''OSPI_D5'', 0x18F),
     (OSPI_D6, ''OSPI_D6'', 0x18F),
     (OSPI_D7, ''OSPI_D7'', 0x18F),
     (OSPI_DQS, ''OSPI_DQS'', 0x10F),
     (PDM_IN0, ''PDM_IN0'', 0x10F),
     (PDM_IN1, ''PDM_IN1'', 0x10F),
     (PDM_IN2, ''PDM_IN2'', 0x10F),
     (PDM_IN3, ''PDM_IN3'', 0x10F),
     (PULSE_CNTR0, ''PULSE_CNTR0'', 0x10F),
     (PULSE_CNTR1, ''PULSE_CNTR1'', 0x10F),
     (PULSE_CNTR2, ''PULSE_CNTR2'', 0x10F),
     (PULSE_CNTR3, ''PULSE_CNTR3'', 0x10F),
     (PULSE_CNTR4, ''PULSE_CNTR4'', 0x10F),
     (PULSE_CNTR5, ''PULSE_CNTR5'', 0x10F),
     (PWM0, ''PWM0'', 0x08E),
     (PWM1, ''PWM1'', 0x08E),
     (PWM2, ''PWM2'', 0x08E),
     (PWM3, ''PWM3'', 0x08E),
     (PWM4, ''PWM4'', 0x08E),
     (PWM5, ''PWM5'', 0x08E),
     (QSPI0_CLK, ''QSPI0_CLK'', 0x08E),
     (QSPI0_CS0, ''QSPI0_CS0'', 0x0CE),
     (QSPI0_CS1, ''QSPI0_CS1'', 0x0CE),
     (QSPI0_CS2, ''QSPI0_CS2'', 0x0CE),
     (QSPI0_CS3, ''QSPI0_CS3'', 0x0CE),
     (QSPI0_CS4, ''QSPI0_CS4'', 0x0CE),
     (QSPI0_D0, ''QSPI0_D0'', 0x18F),
     (QSPI0_D1, ''QSPI0_D1'', 0x18F),
     (QSPI0_D2, ''QSPI0_D2'', 0x18F),
     (QSPI0_D3, ''QSPI0_D3'', 0x18F),
     (QSPI1_CLK, ''QSPI1_CLK'', 0x08E),
     (QSPI1_CS0, ''QSPI1_CS0'', 0x0CE),
     (QSPI1_CS1, ''QSPI1_CS1'', 0x0CE),
     (QSPI1_CS2, ''QSPI1_CS2'', 0x0CE),
     (QSPI1_CS3, ''QSPI1_CS3'', 0x0CE),
     (QSPI1_CS4, ''QSPI1_CS4'', 0x0CE),
     (QSPI1_D0, ''QSPI1_D0'', 0x18F),
     (QSPI1_D1, ''QSPI1_D1'', 0x18F),
     (QSPI1_D2, ''QSPI1_D2'', 0x18F),
     (QSPI1_D3, ''QSPI1_D3'', 0x18F),
     (SPI2AXI_CK, ''SPI2AXI_CK'', 0x10F),
     (SPI2AXI_CS, ''SPI2AXI_CS'', 0x14F),
     (SPI2AXI_DI, ''SPI2AXI_DI'', 0x10F),
     (SPI2AXI_DO, ''SPI2AXI_DO'', 0x08E),
     (UART0_RXD, ''UART0_RXD'', 0x10F),
     (UART0_TXD, ''UART0_TXD'', 0x08E),
     (UART1_CTS, ''UART1_CTS'', 0x10F),
     (UART1_RTS, ''UART1_RTS'', 0x08E),
     (UART1_RXD, ''UART1_RXD'', 0x10F),
     (UART1_TXD, ''UART1_TXD'', 0x08E),
     (UART2_CTS, ''UART2_CTS'', 0x10F),
     (UART2_RTS, ''UART2_RTS'', 0x08E),
     (UART2_RXD, ''UART2_RXD'', 0x10F),
     (UART2_TXD, ''UART2_TXD'', 0x08E),
     (UART3_CTS, ''UART3_CTS'', 0x10F),
     (UART3_DE, ''UART3_DE'', 0x08E),
     (UART3_RE, ''UART3_RE'', 0x08E),
     (UART3_RTS, ''UART3_RTS'', 0x08E),
     (UART3_RXD, ''UART3_RXD'', 0x10F),
     (UART3_TXD, ''UART3_TXD'', 0x08E),
     (UART4_RXD, ''UART4_RXD'', 0x10F),
     (UART4_TXD, ''UART4_TXD'', 0x08E),
     (PDM_CLK, ''PDM_CLK'', 0x08E),
     (VSYNC0, ''VSYNC0'', 0x08E),
     (VSYNC1, ''VSYNC1'', 0x08E),
     (CTRL_IN_3D, ''CTRL_IN_3D'', 0x10F),
     (CTRL_O1_3D, ''CTRL_O1_3D'', 0x08E),
     (CTRL_O2_3D, ''CTRL_O2_3D'', 0x08E),
     (PMU_INT0, ''PMU_INT0'', 0x1126),
     (PMU_INT1, ''PMU_INT1'', 0x1126),
     (PMU_INT2, ''PMU_INT2'', 0x1126),
     (PMU_INT3, ''PMU_INT3'', 0x1126),
     (PMU_INT4, ''PMU_INT4'', 0x1126),
     (PMU_INT5, ''PMU_INT5'', 0x1126),
     (PMU_OUT0, ''PMU_OUT0'', 0x1086),
     (PMU_OUT1, ''PMU_OUT1'', 0x1086)]"

section \<open>The functions of each pin\<close>

definition FPIOA_PIN_MAX_FUNCS :: nat where "FPIOA_PIN_MAX_FUNCS = 5"
definition FPIOA_PIN_MAX_NUM :: nat where "FPIOA_PIN_MAX_NUM = 64 + 8"
definition FPIOA_PIN_FUNC_ALT_NUM :: nat where "FPIOA_PIN_FUNC_ALT_NUM = 4"

lemmas fpioa_sizes = FPIOA_PIN_MAX_FUNCS_def FPIOA_PIN_MAX_NUM_def FPIOA_PIN_FUNC_ALT_NUM_def

definition g_pin_func_array :: "nat list list" where
  "g_pin_func_array = [
     [GPIO0, BOOT0, TEST_PIN0, FUNC_MAX, FUNC_MAX],
     [GPIO1, BOOT1, TEST_PIN1, FUNC_MAX, FUNC_MAX],
     [GPIO2, JTAG_TCK, PULSE_CNTR0, TEST_PIN2, FUNC_MAX],
     [GPIO3, JTAG_TDI, PULSE_CNTR1, UART1_TXD, TEST_PIN0],
     [GPIO4, JTAG_TDO, PULSE_CNTR2, UART1_RXD, TEST_PIN1],
     [GPIO5, JTAG_TMS, PULSE_CNTR3, UART2_TXD, TEST_PIN2],
     [GPIO6, JTAG_RST, PULSE_CNTR4, UART2_RXD, TEST_PIN3],
     [GPIO7, PWM2, IIC4_SCL, TEST_PIN3, DI0],
     [GPIO8, PWM3, IIC4_SDA, TEST_PIN4, DI1],
     [GPIO9, PWM4, UART1_TXD, IIC1_SCL, DI2],
     [GPIO10, CTRL_IN_3D, UART1_RXD, IIC1_SDA, DI3],
     [GPIO11, CTRL_O1_3D, UART2_TXD, IIC2_SCL, DO0],
     [GPIO12, CTRL_O2_3D, UART2_RXD, IIC2_SDA, DO1],
     [GPIO13, M_CLK1, DO2, FUNC_MAX, FUNC_MAX],
     [GPIO14, OSPI_CS, TEST_PIN5, QSPI0_CS0, DO3],
     [GPIO15, OSPI_CLK, TEST_PIN6, QSPI0_CLK, CO3],
     [GPIO16, OSPI_D0, QSPI1_CS4, QSPI0_D0, CO2],
     [GPIO17, OSPI_D1, QSPI1_CS3, QSPI0_D1, CO1],
     [GPIO18, OSPI_D2, QSPI1_CS2, QSPI0_D2, CO0],
     [GPIO19, OSPI_D3, QSPI1_CS1, QSPI0_D3, TEST_PIN4],
     [GPIO20, OSPI_D4, QSPI1_CS0, PULSE_CNTR0, TEST_PIN5],
     [GPIO21, OSPI_D5, QSPI1_CLK, PULSE_CNTR1, TEST_PIN6],
     [GPIO22, OSPI_D6, QSPI1_D0, PULSE_CNTR2, TEST_PIN7],
     [GPIO23, OSPI_D7, QSPI1_D1, PULSE_CNTR3, TEST_PIN8],
     [GPIO24, OSPI_DQS, QSPI1_D2, PULSE_CNTR4, TEST_PIN9],
     [GPIO25, PWM5, QSPI1_D3, PULSE_CNTR5, TEST_PIN10],
     [GPIO26, MMC1_CLK, TEST_PIN7, PDM_CLK, FUNC_MAX],
     [GPIO27, MMC1_CMD, PULSE_CNTR5, PDM_IN0, CI0],
     [GPIO28, MMC1_D0, UART3_TXD, PDM_IN1, CI1],
     [GPIO29, MMC1_D1, UART3_RXD, CTRL_IN_3D, CI2],
     [GPIO30, MMC1_D2, UART3_RTS, CTRL_O1_3D, CI3],
     [GPIO31, MMC1_D3, UART3_CTS, CTRL_O2_3D, TEST_PIN11],
     [GPIO32, IIC0_SCL, IIS_CLK, UART3_TXD, TEST_PIN12],
     [GPIO33, IIC0_SDA, IIS_WS, UART3_RXD, TEST_PIN13],
     [GPIO34, IIC1_SCL, IIS_D_IN0_PDM_IN3, UART3_RTS, FUNC_MAX],
     [GPIO35, IIC1_SDA, IIS_D_OUT0_PDM_IN1, UART3_CTS, FUNC_MAX],
     [GPIO36, IIC3_SCL, IIS_D_IN1_PDM_IN2, UART4_TXD, FUNC_MAX],
     [GPIO37, IIC3_SDA, IIS_D_OUT1_PDM_IN0, UART4_RXD, FUNC_MAX],
     [GPIO38, UART0_TXD, TEST_PIN8, QSPI1_CS0, HSYNC0],
     [GPIO39, UART0_RXD, TEST_PIN9, QSPI1_CLK, VSYNC0],
     [GPIO40, UART1_TXD, IIC1_SCL, QSPI1_D0, TEST_PIN18],
     [GPIO41, UART1_RXD, IIC1_SDA, QSPI1_D1, TEST_PIN19],
     [GPIO42, UART1_RTS, PWM0, QSPI1_D2, TEST_PIN20],
     [GPIO43, UART1_CTS, PWM1, QSPI1_D3, TEST_PIN21],
     [GPIO44, UART2_TXD, IIC3_SCL, TEST_PIN10, SPI2AXI_CK],
     [GPIO45, UART2_RXD, IIC3_SDA, TEST_PIN11, SPI2AXI_CS],
     [GPIO46, UART2_RTS, PWM2, IIC4_SCL, TEST_PIN22],
     [GPIO47, UART2_CTS, PWM3, IIC4_SDA, TEST_PIN23],
     [GPIO48, UART4_TXD, TEST_PIN12, IIC0_SCL, SPI2AXI_DI],
     [GPIO49, UART4_RXD, TEST_PIN13, IIC0_SDA, SPI2AXI_DO],
     [GPIO50, UART3_TXD, IIC2_SCL, QSPI0_CS4, TEST_PIN24],
     [GPIO51, UART3_RXD, IIC2_SDA, QSPI0_CS3, TEST_PIN25],
     [GPIO52, UART3_RTS, PWM4, IIC3_SCL, TEST_PIN26],
     [GPIO53, UART3_CTS, PWM5, IIC3_SDA, FUNC_MAX],
     [GPIO54, QSPI0_CS0, MMC1_CMD, PWM0, TEST_PIN27],
     [GPIO55, QSPI0_CLK, MMC1_CLK, PWM1, TEST_PIN28],
     [GPIO56, QSPI0_D0, MMC1_D0, PWM2, TEST_PIN29],
     [GPIO57, QSPI0_D1, MMC1_D1, PWM3, TEST_PIN30],
     [GPIO58, QSPI0_D2, MMC1_D2, PWM4, TEST_PIN31],
     [GPIO59, QSPI0_D3, MMC1_D3, PWM5, FUNC_MAX],
     [GPIO60, PWM0, IIC0_SCL, QSPI0_CS2, HSYNC1],
     [GPIO61, PWM1, IIC0_SDA, QSPI0_CS1, VSYNC1],
     [GPIO62, M_CLK2, UART3_DE, TEST_PIN14, FUNC_MAX],
     [GPIO63, M_CLK3, UART3_RE, TEST_PIN15, FUNC_MAX],
     [FUNC_MAX, GPIO64, PMU_INT0, FUNC_MAX, FUNC_MAX],
     [FUNC_MAX, GPIO65, PMU_INT1, FUNC_MAX, FUNC_MAX],
     [FUNC_MAX, GPIO66, PMU_INT2, FUNC_MAX, FUNC_MAX],
     [FUNC_MAX, GPIO67, PMU_INT3, FUNC_MAX, FUNC_MAX],
     [FUNC_MAX, GPIO68, PMU_INT4, FUNC_MAX, FUNC_MAX],
     [FUNC_MAX, GPIO69, PMU_INT5, FUNC_MAX, FUNC_MAX],
     [FUNC_MAX, GPIO70, PMU_OUT0, FUNC_MAX, FUNC_MAX],
     [FUNC_MAX, GPIO71, PMU_OUT1, FUNC_MAX, FUNC_MAX]]"

section \<open>Facts about the tables\<close>

lemma length_pin_table: "length g_pin_func_array = 72"
  by (simp add: g_pin_func_array_def)

lemma table_rows: "list_all (\<lambda>row. length row = 5 \<and> list_all (\<lambda>f. f \<le> FUNC_MAX) row) g_pin_func_array"
  by (simp add: g_pin_func_array_def)

lemma table_home: "list_all (\<lambda>(p, row). if p < 64 then row ! 0 = p else row ! 0 = FUNC_MAX \<and> row ! 1 = p \<and> row ! 4 = FUNC_MAX)
    (enumerate 0 g_pin_func_array)"
  by (simp add: g_pin_func_array_def)

lemma table_gpio: "list_all (\<lambda>(p, row). list_all (\<lambda>f. f \<le> GPIO71 \<longrightarrow> f = p) row) (enumerate 0 g_pin_func_array)"
  by (simp add: g_pin_func_array_def)

text \<open>The described functions are the consecutive codes from \<open>BOOT0\<close>, up to the test pins.\<close>

lemma describ_codes: "map fst g_func_describ_array = [BOOT0..<TEST_PIN0]"
  by (simp add: g_func_describ_array_def upt_rec_numeral)

subsection \<open>How many pins can take a function\<close>

text \<open>The entries are merge sorted and the runs of equal codes are counted.\<close>

fun merge :: "nat list \<Rightarrow> nat list \<Rightarrow> nat list" where
  "merge [] ys = ys"
| "merge xs [] = xs"
| "merge (x # xs) (y # ys) = (if x \<le> y then x # merge xs (y # ys) else y # merge (x # xs) ys)"

fun merge_pairs :: "nat list list \<Rightarrow> nat list list" where
  "merge_pairs (xs # ys # zss) = merge xs ys # merge_pairs zss"
| "merge_pairs zss = zss"

definition merge_sort9 :: "nat list \<Rightarrow> nat list" where
  "merge_sort9 xs = concat (merge_pairs (merge_pairs (merge_pairs (merge_pairs (merge_pairs
     (merge_pairs (merge_pairs (merge_pairs (merge_pairs (map (\<lambda>x. [x]) xs))))))))))"

fun runs_ok :: "nat \<Rightarrow> nat \<Rightarrow> nat list \<Rightarrow> bool" where
  "runs_ok c k [] = True"
| "runs_ok c k (x # xs) = (if x = c then k < 3 \<and> runs_ok c (Suc k) xs else c < x \<and> runs_ok x 1 xs)"

lemma count_merge: "count_list (merge xs ys) f = count_list xs f + count_list ys f"
  by (induction xs ys rule: merge.induct) auto

lemma count_merge_pairs: "count_list (concat (merge_pairs zss)) f = count_list (concat zss) f"
  by (induction zss rule: merge_pairs.induct) (auto simp: count_merge)

lemma count_merge_sort9: "count_list (merge_sort9 xs) f = count_list xs f"
proof -
  have "concat (map (\<lambda>x. [x]) xs) = xs" by (induction xs) auto
  then show ?thesis by (simp add: merge_sort9_def count_merge_pairs)
qed

lemma runs_ok_above: "runs_ok c k xs \<Longrightarrow> f < c \<Longrightarrow> count_list xs f = 0"
  by (induction xs arbitrary: c k) (fastforce split: if_splits)+

lemma runs_ok_count: "runs_ok c k xs \<Longrightarrow> k \<le> 3 \<Longrightarrow> count_list xs f + (if f = c then k else 0) \<le> 3"
proof (induction xs arbitrary: c k)
  case (Cons x xs)
  show ?case
  proof (cases "x = c")
    case True
    with Cons.prems Cons.IH [of c "Suc k"] show ?thesis by (auto split: if_splits)
  next
    case False
    then have "count_list xs c = 0" using Cons.prems runs_ok_above [of x 1 xs c] by simp
    with False Cons.prems Cons.IH [of x 1] show ?thesis by (auto split: if_splits)
  qed
qed simp

lemma table_runs: "runs_ok 0 0 (merge_sort9 (filter (\<lambda>f. f \<noteq> FUNC_MAX) (concat g_pin_func_array)))"
  by (simp add: g_pin_func_array_def merge_sort9_def)

lemma length_filter_rows: "length (filter (\<lambda>row. f \<in> set row) rows) \<le> count_list (concat rows) f"
proof (induction rows)
  case (Cons row rows)
  have "f \<in> set row \<Longrightarrow> 1 \<le> count_list row f" by (induction row) auto
  with Cons show ?case by auto
qed simp

lemma count_list_filter: "P f \<Longrightarrow> count_list (filter P xs) f = count_list xs f"
  by (induction xs) auto

lemma table_alternatives:
  assumes "f \<noteq> FUNC_MAX"
  shows "length (filter (\<lambda>row. f \<in> set row) g_pin_func_array) \<le> 3"
proof -
  have "count_list (concat g_pin_func_array) f \<le> 3"
    using runs_ok_count [OF table_runs, of f] assms by (auto simp: count_merge_sort9 count_list_filter split: if_splits)
  with length_filter_rows [of f g_pin_func_array] show ?thesis by simp
qed

end
