(* ===== verification/Fpioa.thy ===== *)
theory Fpioa
  imports Fpioa_Tables
begin

unbundle bit_operations_syntax

text \<open>
  The pin multiplexer driver (\<open>rtsmart_hal/drivers/fpioa/drv_fpioa.c\<close>). The state holds the 64
  registers of the main bank and the 8 of the power domain, whether each bank has been mapped,
  and the results of the next calls of \<open>utils_map_memory\<close> (beyond the list they succeed);
  \<open>fp_hw_rtc\<close> is the build option that \<open>CONFIG_BOARD_NOT_SUPPORT_HW_RTC\<close> clears. The lock that
  the setters take is not modelled: every function is one step.
\<close>

record fpioa =
  fp_hw_rtc :: bool
  fp_map_results :: "bool list"
  fp_iomux_mapped :: bool
  fp_pmu_mapped :: bool
  fp_iomux :: "u32 list"
  fp_pmu :: "u32 list"

section \<open>The two register formats\<close>

text \<open>The fields of \<open>fpioa_iomux_cfg_t\<close>, as offset and width.\<close>

definition get_io_sel :: "u32 \<Rightarrow> u32" where "get_io_sel v = get_field 11 3 v"
definition set_io_sel :: "u32 \<Rightarrow> u32 \<Rightarrow> u32" where "set_io_sel x v = put_field 11 3 x v"
definition get_msc :: "u32 \<Rightarrow> u32" where "get_msc v = get_field 9 1 v"
definition set_msc :: "u32 \<Rightarrow> u32 \<Rightarrow> u32" where "set_msc x v = put_field 9 1 x v"

definition convert_iomux_to_pmu :: "u32 \<Rightarrow> u32" where
  "convert_iomux_to_pmu src =
     (let d1 = put_field 0 1 (get_field 0 1 src) 0;
          d2 = put_field 5 1 (get_field 5 1 src) d1;
          d3 = put_field 6 1 (get_field 6 1 src) d2;
          d4 = put_field 7 1 (get_field 7 1 src) d3;
          d5 = put_field 8 1 (get_field 8 1 src) d4;
          d6 = put_field 1 3 (get_field 1 4 src AND 0x7) d5
      in put_field 11 2 (get_field 11 3 src AND 0x3) d6)"

definition convert_pmu_to_iomux :: "u32 \<Rightarrow> u32" where
  "convert_pmu_to_iomux src =
     (let d1 = put_field 0 1 (get_field 0 1 src) 0;
          d2 = put_field 5 1 (get_field 5 1 src) d1;
          d3 = put_field 6 1 (get_field 6 1 src) d2;
          d4 = put_field 7 1 (get_field 7 1 src) d3;
          d5 = put_field 8 1 (get_field 8 1 src) d4;
          d6 = put_field 1 4 (get_field 1 3 src) d5
      in put_field 11 3 (get_field 11 2 src) d6)"

section \<open>Registers\<close>

definition utils_map :: "(fpioa, bool) prog" where
  "utils_map s = (case fp_map_results s of
     [] \<Rightarrow> (Ret True, s) | b # bs \<Rightarrow> (Ret b, s\<lparr>fp_map_results := bs\<rparr>))"

definition mmap_iomux :: "(fpioa, unit) prog" where
  "mmap_iomux s = (if fp_iomux_mapped s then (Ret (), s)
     else sbind utils_map (\<lambda>ok. if ok then smod (\<lambda>s. s\<lparr>fp_iomux_mapped := True\<rparr>) else sfail EGENERIC) s)"

definition mmap_pmu_iomux :: "(fpioa, unit) prog" where
  "mmap_pmu_iomux s = (if fp_pmu_mapped s then (Ret (), s)
     else sbind utils_map (\<lambda>ok. if ok then smod (\<lambda>s. s\<lparr>fp_pmu_mapped := True\<rparr>) else sfail EGENERIC) s)"

definition reg_rd :: "u32 list \<Rightarrow> int \<Rightarrow> u32 cres" where
  "reg_rd regs i = (if 0 \<le> i \<and> nat i < length regs then Ret (regs ! nat i) else Fault)"

definition reg_wr :: "u32 list \<Rightarrow> int \<Rightarrow> u32 \<Rightarrow> u32 list cres" where
  "reg_wr regs i v = (if 0 \<le> i \<and> nat i < length regs then Ret (regs[nat i := v]) else Fault)"

definition drv_fpioa_get_iomux :: "int \<Rightarrow> (fpioa, u32) prog" where
  "drv_fpioa_get_iomux pin = sbind mmap_iomux (\<lambda>_ s. (reg_rd (fp_iomux s) pin, s))"

definition drv_fpioa_set_iomux :: "int \<Rightarrow> u32 \<Rightarrow> (fpioa, unit) prog" where
  "drv_fpioa_set_iomux pin v =
     sbind mmap_iomux (\<lambda>_.
     sbind (\<lambda>s. (reg_rd (fp_iomux s) pin, s)) (\<lambda>old.
     sbind (\<lambda>s. (reg_wr (fp_iomux s) pin ((old AND 0x200) OR v), s)) (\<lambda>regs.
     smod (\<lambda>s. s\<lparr>fp_iomux := regs\<rparr>))))"

definition drv_fpioa_get_pmu_iomux :: "int \<Rightarrow> (fpioa, u32) prog" where
  "drv_fpioa_get_pmu_iomux pin =
     sbind mmap_pmu_iomux (\<lambda>_.
     sbind (\<lambda>s. (reg_rd (fp_pmu s) pin, s)) (\<lambda>dat. sret (convert_pmu_to_iomux dat)))"

definition drv_fpioa_set_pmu_iomux :: "int \<Rightarrow> u32 \<Rightarrow> (fpioa, unit) prog" where
  "drv_fpioa_set_pmu_iomux pin v =
     sbind mmap_pmu_iomux (\<lambda>_. let dat = convert_iomux_to_pmu v in
     sbind (\<lambda>s. (reg_rd (fp_pmu s) pin, s)) (\<lambda>old.
     sbind (\<lambda>s. (reg_wr (fp_pmu s) pin ((old AND 0x200) OR dat), s)) (\<lambda>regs.
     smod (\<lambda>s. s\<lparr>fp_pmu := regs\<rparr>))))"

definition drv_fpioa_pin_enabled :: "fpioa \<Rightarrow> int \<Rightarrow> bool" where
  "drv_fpioa_pin_enabled s pin =
     (if pin < 0 \<or> pin \<ge> int FPIOA_PIN_MAX_NUM then False
      else if \<not> fp_hw_rtc s \<and> pin \<ge> 64 then False else True)"

definition drv_fpioa_enabled_pin_count :: "fpioa \<Rightarrow> nat" where
  "drv_fpioa_enabled_pin_count s = (if fp_hw_rtc s then FPIOA_PIN_MAX_NUM else 64)"

definition drv_fpioa_get_pin_cfg :: "int \<Rightarrow> (fpioa, u32) prog" where
  "drv_fpioa_get_pin_cfg pin s =
     (if \<not> drv_fpioa_pin_enabled s pin then (Fail EGENERIC, s)
      else if 64 > pin then drv_fpioa_get_iomux pin s
      else drv_fpioa_get_pmu_iomux (pin - 64) s)"

definition drv_fpioa_set_pin_cfg :: "int \<Rightarrow> u32 \<Rightarrow> (fpioa, unit) prog" where
  "drv_fpioa_set_pin_cfg pin v s =
     (if \<not> drv_fpioa_pin_enabled s pin then (Fail EGENERIC, s)
      else if 64 > pin then drv_fpioa_set_iomux pin v s
      else drv_fpioa_set_pmu_iomux (pin - 64) v s)"

text \<open>The accessors that the templates of the header generate, for a field at \<open>off\<close> of \<open>n\<close> bits.\<close>

definition drv_fpioa_set_pin_item :: "nat \<Rightarrow> nat \<Rightarrow> int \<Rightarrow> int \<Rightarrow> (fpioa, unit) prog" where
  "drv_fpioa_set_pin_item off n pin v =
     sbind (drv_fpioa_get_pin_cfg pin) (\<lambda>cfg.
     if uint (get_field off n cfg) \<noteq> v then drv_fpioa_set_pin_cfg pin (put_field off n (of_int v) cfg)
     else sret ())"

definition drv_fpioa_get_pin_item :: "nat \<Rightarrow> nat \<Rightarrow> int \<Rightarrow> (fpioa, int) prog" where
  "drv_fpioa_get_pin_item off n pin =
     sbind (drv_fpioa_get_pin_cfg pin) (\<lambda>cfg. sret (uint (get_field off n cfg)))"

section \<open>Functions of pins\<close>

definition gpio_dft_cfg :: fpioa_func_cfg where "gpio_dft_cfg = (GPIO0, ''GPIO0'', 0x18f)"
definition pmu_gpio_dft_cfg :: fpioa_func_cfg where "pmu_gpio_dft_cfg = (GPIO64, ''GPIO64'', 0x98f)"

definition drv_fpioa_get_func_cfg :: "nat \<Rightarrow> fpioa_func_cfg option" where
  "drv_fpioa_get_func_cfg func =
     (if GPIO63 \<ge> func then Some gpio_dft_cfg
      else if GPIO71 \<ge> func then Some pmu_gpio_dft_cfg
      else find (\<lambda>e. fst e = func) g_func_describ_array)"

definition pin_funcs :: "int \<Rightarrow> nat list" where
  "pin_funcs pin = g_pin_func_array ! nat pin"

definition drv_fpioa_get_pin_func :: "int \<Rightarrow> (fpioa, nat) prog" where
  "drv_fpioa_get_pin_func pin s =
     (if \<not> drv_fpioa_pin_enabled s pin then (Fail EGENERIC, s)
      else sbind (drv_fpioa_get_pin_cfg pin) (\<lambda>cfg.
        let sel = unat (get_io_sel cfg) in
        if FPIOA_PIN_MAX_FUNCS \<le> sel then sfail EGENERIC
        else slift (if nat pin < length g_pin_func_array \<and> sel < length (pin_funcs pin)
          then Ret (pin_funcs pin ! sel) else Fault)) s)"

text \<open>
  The pins that list a function, in the order of the table. The caller's array has
  \<open>FPIOA_PIN_FUNC_ALT_NUM\<close> elements; the loop stops when it is full.
\<close>

fun avail_from :: "fpioa \<Rightarrow> nat \<Rightarrow> nat \<Rightarrow> nat list list \<Rightarrow> int list \<Rightarrow> int list" where
  "avail_from s func i [] pins = pins"
| "avail_from s func i (row # rows) pins =
     (if \<not> drv_fpioa_pin_enabled s (int i) then avail_from s func (Suc i) rows pins
      else if func \<in> set row then
        (if FPIOA_PIN_FUNC_ALT_NUM \<le> length (pins @ [int i]) then pins @ [int i]
         else avail_from s func (Suc i) rows (pins @ [int i]))
      else avail_from s func (Suc i) rows pins)"

definition drv_fpioa_func_available_pins :: "fpioa \<Rightarrow> nat \<Rightarrow> int list" where
  "drv_fpioa_func_available_pins s func = avail_from s func 0 g_pin_func_array []"

definition drv_fpioa_pin_supported_funcs :: "fpioa \<Rightarrow> int \<Rightarrow> nat list option" where
  "drv_fpioa_pin_supported_funcs s pin =
     (if \<not> drv_fpioa_pin_enabled s pin then None else Some (take FPIOA_PIN_MAX_FUNCS (pin_funcs pin)))"

definition drv_fpioa_is_func_supported_by_pin :: "fpioa \<Rightarrow> int \<Rightarrow> nat \<Rightarrow> bool" where
  "drv_fpioa_is_func_supported_by_pin s pin func =
     (case drv_fpioa_pin_supported_funcs s pin of None \<Rightarrow> False | Some funcs \<Rightarrow> func \<in> set funcs)"

text \<open>The first position of a function in a row.\<close>

fun func_index :: "nat \<Rightarrow> nat \<Rightarrow> nat list \<Rightarrow> nat option" where
  "func_index func i [] = None"
| "func_index func i (f # fs) = (if func = f then Some i else func_index func (Suc i) fs)"

text \<open>A pin that currently has the function is given its function 0 and keeps only its voltage bit.\<close>

definition reset_alt :: "nat \<Rightarrow> int \<Rightarrow> (fpioa, unit) prog" where
  "reset_alt func p =
     sbind (drv_fpioa_get_pin_func p) (\<lambda>curr.
     if curr = func then
       sbind (drv_fpioa_get_pin_cfg p) (\<lambda>tmp.
       drv_fpioa_set_pin_cfg p (set_msc (get_msc tmp) (set_io_sel 0 0)))
     else sret ())"

fun reset_alts :: "nat \<Rightarrow> int list \<Rightarrow> (fpioa, unit) prog" where
  "reset_alts func [] = sret ()"
| "reset_alts func (p # ps) = sbind (signore (reset_alt func p)) (\<lambda>_. reset_alts func ps)"

text \<open>A GPIO function is taken as supported by every pin, at position 0 or, in the power domain, 1.\<close>

definition func_sel :: "int \<Rightarrow> nat \<Rightarrow> nat option" where
  "func_sel pin func =
     (if GPIO71 \<ge> func \<and> GPIO0 \<le> func then Some (if GPIO63 < func then 1 else 0)
      else func_index func 0 (take FPIOA_PIN_MAX_FUNCS (pin_funcs pin)))"

definition drv_fpioa_set_pin_func :: "int \<Rightarrow> nat \<Rightarrow> (fpioa, unit) prog" where
  "drv_fpioa_set_pin_func pin func s =
     (if \<not> drv_fpioa_pin_enabled s pin then (Fail EGENERIC, s)
      else case func_sel pin func of
        None \<Rightarrow> (Fail EGENERIC, s)
      | Some sel \<Rightarrow>
          sbind (reset_alts func (drv_fpioa_func_available_pins s func)) (\<lambda>_.
          case drv_fpioa_get_func_cfg func of
            None \<Rightarrow> sfail EGENERIC
          | Some func_cfg \<Rightarrow>
              let cfg = set_io_sel (of_nat sel) (snd (snd func_cfg)) in
              sbind (drv_fpioa_get_pin_cfg pin) (\<lambda>tmp.
              drv_fpioa_set_pin_cfg pin (set_msc (get_msc tmp) cfg))) s)"

text \<open>The search stops at the first pin whose function cannot be read.\<close>

fun find_from :: "nat \<Rightarrow> nat \<Rightarrow> nat \<Rightarrow> (fpioa, int) prog" where
  "find_from func i 0 = sfail EGENERIC"
| "find_from func i (Suc n) =
     sbind (drv_fpioa_get_pin_func (int i)) (\<lambda>curr.
     if curr = func then sret (int i) else find_from func (Suc i) n)"

definition drv_fpioa_find_pin_by_func :: "nat \<Rightarrow> (fpioa, int) prog" where
  "drv_fpioa_find_pin_by_func func s =
     (if GPIO0 \<ge> func \<or> FUNC_MAX \<le> func then (Fail EGENERIC, s)
      else find_from func 0 (drv_fpioa_enabled_pin_count s) s)"

datatype fpioa_err = FPIOA_OK | FPIOA_ERR_UNSUPPORTED | FPIOA_ERR_SET_FAIL | FPIOA_ERR_NOT_CONFIG

definition drv_fpioa_validate_pin :: "int \<Rightarrow> nat \<Rightarrow> (fpioa, fpioa_err) prog" where
  "drv_fpioa_validate_pin pin func s =
     (if pin \<noteq> -1 then
        if \<not> drv_fpioa_is_func_supported_by_pin s pin func then (Ret FPIOA_ERR_UNSUPPORTED, s)
        else (case drv_fpioa_set_pin_func pin func s of
            (Ret u, s') \<Rightarrow> (Ret FPIOA_OK, s')
          | (Fail e, s') \<Rightarrow> (Ret FPIOA_ERR_SET_FAIL, s')
          | (Fault, s') \<Rightarrow> (Fault, s'))
      else (case drv_fpioa_find_pin_by_func func s of
            (Ret u, s') \<Rightarrow> (Ret FPIOA_OK, s')
          | (Fail e, s') \<Rightarrow> (Ret FPIOA_ERR_NOT_CONFIG, s')
          | (Fault, s') \<Rightarrow> (Fault, s')))"

section \<open>A bank of pins\<close>

text \<open>
  What the client code needs of the registers: a write to one pin leaves the configuration of the
  others alone and sets the function selector of its own, as far as the selector fits.
\<close>

text \<open>Clearing, one after the other, every pin of a list that has the function \<open>f\<close>.\<close>

fun clear_pins :: "('s \<Rightarrow> int \<Rightarrow> nat option) \<Rightarrow> ('s \<Rightarrow> int \<Rightarrow> 's) \<Rightarrow> nat \<Rightarrow> int list \<Rightarrow> 's \<Rightarrow> 's" where
  "clear_pins cur clr f [] s = s"
| "clear_pins cur clr f (p # ps) s = clear_pins cur clr f ps (if cur s p = Some f then clr s p else s)"

definition sel_func :: "int \<Rightarrow> u32 \<Rightarrow> nat option" where
  "sel_func p v = (let sel = unat (get_io_sel v) in if sel < 5 then Some (pin_funcs p ! sel) else None)"

locale pin_bank =
  fixes ok :: "'s \<Rightarrow> bool" and enabled :: "'s \<Rightarrow> int \<Rightarrow> bool" and cfg :: "'s \<Rightarrow> int \<Rightarrow> u32"
    and put :: "'s \<Rightarrow> int \<Rightarrow> u32 \<Rightarrow> 's" and fits :: "int \<Rightarrow> u32 \<Rightarrow> bool"
  assumes ok_put: "ok s \<Longrightarrow> enabled s p \<Longrightarrow> ok (put s p v)"
    and enabled_put: "ok s \<Longrightarrow> enabled s p \<Longrightarrow> enabled (put s p v) q = enabled s q"
    and cfg_other: "ok s \<Longrightarrow> enabled s p \<Longrightarrow> enabled s q \<Longrightarrow> p \<noteq> q \<Longrightarrow> cfg (put s p v) q = cfg s q"
    and sel_put: "ok s \<Longrightarrow> enabled s p \<Longrightarrow> fits p (get_io_sel v) \<Longrightarrow>
      get_io_sel (cfg (put s p v) p) = get_io_sel v"
    and fits_0: "fits p 0"
begin

lemma sel_func_put:
  "ok s \<Longrightarrow> enabled s p \<Longrightarrow> fits p (get_io_sel v) \<Longrightarrow> sel_func p (cfg (put s p v) p) = sel_func p v"
  by (simp add: sel_func_def sel_put)

lemma clear_one:
  assumes "ok s" "enabled s p" "get_io_sel v = 0" "pin_funcs p ! 0 \<noteq> f"
  shows "ok (put s p v)" "sel_func p (cfg (put s p v) p) \<noteq> Some f"
  using assms fits_0 [of p] by (simp_all add: ok_put sel_func_put) (simp add: sel_func_def)

lemma clear_pins_spec:
  assumes "ok s" "\<forall>p \<in> set ps. enabled s p" "\<forall>p \<in> set ps. pin_funcs p ! 0 \<noteq> f" "\<And>s p. get_io_sel (v s p) = 0"
    and "t = clear_pins (\<lambda>s p. sel_func p (cfg s p)) (\<lambda>s p. put s p (v s p)) f ps s"
  shows "ok t \<and> (\<forall>q. enabled t q = enabled s q) \<and>
    (\<forall>q. enabled s q \<longrightarrow> sel_func q (cfg s q) \<noteq> Some f \<longrightarrow> cfg t q = cfg s q) \<and>
    (\<forall>q \<in> set ps. sel_func q (cfg t q) \<noteq> Some f) \<and>
    (\<forall>q. enabled s q \<longrightarrow> q \<notin> set ps \<longrightarrow> cfg t q = cfg s q)"
  using assms
proof (induction ps arbitrary: s)
  case (Cons p ps)
  let ?s = "if sel_func p (cfg s p) = Some f then put s p (v s p) else s"
  have p: "enabled s p" using Cons.prems by simp
  have ok: "ok ?s" using Cons.prems p by (simp add: ok_put)
  have en: "enabled ?s q = enabled s q" for q using Cons.prems p by (simp add: enabled_put)
  have cl: "sel_func p (cfg ?s p) \<noteq> Some f" using Cons.prems clear_one(2) p by simp
  have fr: "cfg ?s q = cfg s q" if "enabled s q" "sel_func q (cfg s q) \<noteq> Some f \<or> q \<noteq> p" for q
    using that Cons.prems p by (cases "q = p") (auto simp: cfg_other)
  have IH: "ok t \<and> (\<forall>q. enabled t q = enabled ?s q) \<and>
      (\<forall>q. enabled ?s q \<longrightarrow> sel_func q (cfg ?s q) \<noteq> Some f \<longrightarrow> cfg t q = cfg ?s q) \<and>
      (\<forall>q \<in> set ps. sel_func q (cfg t q) \<noteq> Some f) \<and>
      (\<forall>q. enabled ?s q \<longrightarrow> q \<notin> set ps \<longrightarrow> cfg t q = cfg ?s q)"
    by (rule Cons.IH) (use Cons.prems ok in \<open>auto simp: enabled_put\<close>)
  then have tp: "cfg t p = cfg ?s p" using en p cl by blast
  show ?case
  proof (intro conjI allI ballI impI)
    show "ok t" "enabled t q = enabled s q" for q using IH en by blast+
    show "cfg t q = cfg s q" if "enabled s q" "sel_func q (cfg s q) \<noteq> Some f" for q
      using IH en fr [OF that(1)] that by metis
    show "sel_func q (cfg t q) \<noteq> Some f" if "q \<in> set (p # ps)" for q
      using that IH tp cl by auto
    show "cfg t q = cfg s q" if "enabled s q" "q \<notin> set (p # ps)" for q
      using IH en fr [OF that(1)] that by simp
  qed
qed simp

end

section \<open>The two banks together\<close>

definition fp_sized :: "fpioa \<Rightarrow> bool" where
  "fp_sized s \<longleftrightarrow> length (fp_iomux s) = 64 \<and> length (fp_pmu s) = 8"

definition fp_ready :: "fpioa \<Rightarrow> bool" where
  "fp_ready s \<longleftrightarrow> fp_sized s \<and> fp_iomux_mapped s \<and> fp_pmu_mapped s"

definition pin_cfg :: "fpioa \<Rightarrow> int \<Rightarrow> u32" where
  "pin_cfg s p = (if p < 64 then fp_iomux s ! nat p else convert_pmu_to_iomux (fp_pmu s ! nat (p - 64)))"

definition pin_put :: "fpioa \<Rightarrow> int \<Rightarrow> u32 \<Rightarrow> fpioa" where
  "pin_put s p v =
     (if p < 64 then s\<lparr>fp_iomux := (fp_iomux s)[nat p := (fp_iomux s ! nat p AND 0x200) OR v]\<rparr>
      else s\<lparr>fp_pmu := (fp_pmu s)[nat (p - 64) := (fp_pmu s ! nat (p - 64) AND 0x200) OR convert_iomux_to_pmu v]\<rparr>)"

definition sel_fits :: "int \<Rightarrow> u32 \<Rightarrow> bool" where
  "sel_fits p sel \<longleftrightarrow> p < 64 \<or> unat sel < 4"

lemma enabled_range: "drv_fpioa_pin_enabled s p \<longleftrightarrow> 0 \<le> p \<and> (p < 64 \<or> fp_hw_rtc s \<and> p < 72)"
  by (auto simp: drv_fpioa_pin_enabled_def FPIOA_PIN_MAX_NUM_def)

lemma get_pin_cfg_ready:
  "fp_ready s \<Longrightarrow> drv_fpioa_get_pin_cfg p s =
    (if drv_fpioa_pin_enabled s p then (Ret (pin_cfg s p), s) else (Fail EGENERIC, s))"
  by (auto simp: drv_fpioa_get_pin_cfg_def drv_fpioa_get_iomux_def drv_fpioa_get_pmu_iomux_def mmap_iomux_def
      mmap_pmu_iomux_def sprog_defs reg_rd_def fp_ready_def fp_sized_def pin_cfg_def enabled_range)

lemma set_pin_cfg_ready:
  "fp_ready s \<Longrightarrow> drv_fpioa_set_pin_cfg p v s =
    (if drv_fpioa_pin_enabled s p then (Ret (), pin_put s p v) else (Fail EGENERIC, s))"
  by (auto simp: drv_fpioa_set_pin_cfg_def drv_fpioa_set_iomux_def drv_fpioa_set_pmu_iomux_def mmap_iomux_def
      mmap_pmu_iomux_def sprog_defs reg_rd_def reg_wr_def fp_ready_def fp_sized_def pin_put_def enabled_range)

lemma bit_0x200: "bit (0x200 :: u32) i \<longleftrightarrow> i = 9"
proof -
  have "(0x200 :: u32) = push_bit 9 1" by (simp add: push_bit_eq_mult)
  then show ?thesis by (simp only: bit_push_bit_iff bit_1_iff) auto
qed

lemma bit_convert_iomux_to_pmu: "bit (convert_iomux_to_pmu v) i \<longleftrightarrow>
    i \<in> {0, 1, 2, 3, 5, 6, 7, 8, 11, 12} \<and> bit v i"
  by (auto simp: convert_iomux_to_pmu_def Let_def bit_put_field_1 bit_put_field [of "Suc 0"] bit_put_field [of 11] bit_get_field bit_and_iff bit_numeral_mask)

lemma bit_convert_pmu_to_iomux: "bit (convert_pmu_to_iomux v) i \<longleftrightarrow>
    i \<in> {0, 1, 2, 3, 5, 6, 7, 8, 11, 12} \<and> bit v i"
  by (auto simp: convert_pmu_to_iomux_def Let_def bit_put_field_1 bit_put_field [of "Suc 0"] bit_put_field [of 11] bit_get_field)

lemma get_io_sel_bit: "bit (get_io_sel v) i \<longleftrightarrow> i < 3 \<and> bit v (11 + i)"
  by (auto simp: get_io_sel_def bit_get_field)

lemma io_sel_fits: "unat (get_io_sel v) < 4 \<Longrightarrow> \<not> bit (get_io_sel v) 2"
proof -
  assume "unat (get_io_sel v) < 4"
  then have "take_bit 2 (get_io_sel v) = get_io_sel v"
    by (simp add: word_unat_eq_iff unsigned_take_bit_eq take_bit_nat_eq_self)
  then show ?thesis by (metis bit_take_bit_iff less_irrefl)
qed

lemma sel_pin_put:
  assumes "fp_ready s" "drv_fpioa_pin_enabled s p" "sel_fits p (get_io_sel v)"
  shows "get_io_sel (pin_cfg (pin_put s p v) p) = get_io_sel v"
proof (rule bit_word_eqI)
  fix i
  have "i = 2 \<Longrightarrow> 64 \<le> p \<Longrightarrow> \<not> bit v (11 + i)"
    using assms(3) io_sel_fits [of v] by (auto simp: sel_fits_def get_io_sel_bit)
  moreover have "i < 3 \<Longrightarrow> i = 0 \<or> i = 1 \<or> i = 2" by auto
  ultimately show "bit (get_io_sel (pin_cfg (pin_put s p v) p)) i \<longleftrightarrow> bit (get_io_sel v) i"
    using assms(1,2)
    by (auto simp: get_io_sel_bit pin_cfg_def pin_put_def fp_ready_def fp_sized_def enabled_range bit_or_iff
        bit_and_iff bit_0x200 bit_convert_iomux_to_pmu bit_convert_pmu_to_iomux)
qed

interpretation fp: pin_bank fp_ready drv_fpioa_pin_enabled pin_cfg pin_put sel_fits
proof unfold_locales
  fix s p q v
  assume "fp_ready s" "drv_fpioa_pin_enabled s p"
  then show "fp_ready (pin_put s p v)"
    by (simp add: fp_ready_def fp_sized_def pin_put_def)
  show "drv_fpioa_pin_enabled (pin_put s p v) q = drv_fpioa_pin_enabled s q"
    by (simp add: enabled_range pin_put_def)
next
  fix s p q v
  assume "fp_ready s" "drv_fpioa_pin_enabled s p" "drv_fpioa_pin_enabled s q" "p \<noteq> q"
  then show "pin_cfg (pin_put s p v) q = pin_cfg s q"
    by (auto simp: pin_cfg_def pin_put_def enabled_range nat_eq_iff)
next
  fix s p v
  assume "fp_ready s" "drv_fpioa_pin_enabled s p" "sel_fits p (get_io_sel v)"
  then show "get_io_sel (pin_cfg (pin_put s p v) p) = get_io_sel v" by (rule sel_pin_put)
next
  show "sel_fits p 0" for p by (simp add: sel_fits_def)
qed

section \<open>The rows of the table\<close>

lemma row_facts:
  assumes "p < 72"
  shows "length (g_pin_func_array ! p) = 5"
    and "p < 64 \<Longrightarrow> g_pin_func_array ! p ! 0 = p"
    and "64 \<le> p \<Longrightarrow> g_pin_func_array ! p ! 0 = FUNC_MAX" "64 \<le> p \<Longrightarrow> g_pin_func_array ! p ! 1 = p"
    and "64 \<le> p \<Longrightarrow> g_pin_func_array ! p ! 4 = FUNC_MAX"
    and "f \<in> set (g_pin_func_array ! p) \<Longrightarrow> f \<le> FUNC_MAX"
    and "f \<in> set (g_pin_func_array ! p) \<Longrightarrow> f \<le> GPIO71 \<Longrightarrow> f = p"
  using table_rows table_home table_gpio assms
  by (auto simp: list_all_length list_all_iff [where P = "\<lambda>f. f \<le> 237"] length_pin_table nth_enumerate_eq
      list_all_iff [where P = "\<lambda>f. f \<le> 71 \<longrightarrow> f = n" for n] in_set_conv_nth)

lemma enabled_pin: "drv_fpioa_pin_enabled s p \<Longrightarrow> nat p < 72"
  by (auto simp: enabled_range)

lemma get_pin_func_ready:
  "fp_ready s \<Longrightarrow> drv_fpioa_get_pin_func p s =
    (if drv_fpioa_pin_enabled s p then
       case sel_func p (pin_cfg s p) of Some f \<Rightarrow> (Ret f, s) | None \<Rightarrow> (Fail EGENERIC, s)
     else (Fail EGENERIC, s))"
  using enabled_pin [of s p] row_facts(1) [of "nat p"]
  by (simp add: drv_fpioa_get_pin_func_def get_pin_cfg_ready sprog_defs sel_func_def fpioa_sizes Let_def
      pin_funcs_def length_pin_table)

definition pin_func :: "fpioa \<Rightarrow> int \<Rightarrow> nat option" where
  "pin_func s p = sel_func p (pin_cfg s p)"

definition cleared :: "fpioa \<Rightarrow> int \<Rightarrow> u32" where
  "cleared s p = set_msc (get_msc (pin_cfg s p)) (set_io_sel 0 0)"

definition clear_func :: "nat \<Rightarrow> int list \<Rightarrow> fpioa \<Rightarrow> fpioa" where
  "clear_func f ps s = clear_pins (\<lambda>s p. sel_func p (pin_cfg s p)) (\<lambda>s p. pin_put s p (cleared s p)) f ps s"

lemma cleared_sel: "get_io_sel (cleared s p) = 0"
  by (rule bit_word_eqI)
    (auto simp: get_io_sel_bit cleared_def set_msc_def set_io_sel_def bit_put_field)

lemma reset_alt_ready:
  "fp_ready s \<Longrightarrow> drv_fpioa_pin_enabled s p \<Longrightarrow> signore (reset_alt f p) s =
    (Ret (), if sel_func p (pin_cfg s p) = Some f then pin_put s p (cleared s p) else s)"
  by (auto simp: reset_alt_def signore_def sbind_def get_pin_func_ready get_pin_cfg_ready set_pin_cfg_ready
      cleared_def sret_def split: option.split)

lemma reset_alts_ready:
  "fp_ready s \<Longrightarrow> \<forall>p \<in> set ps. drv_fpioa_pin_enabled s p \<Longrightarrow>
    reset_alts f ps s = (Ret (), clear_func f ps s)"
proof (induction ps arbitrary: s)
  case (Cons p ps)
  let ?s = "if sel_func p (pin_cfg s p) = Some f then pin_put s p (cleared s p) else s"
  have "reset_alts f ps ?s = (Ret (), clear_func f ps ?s)"
    by (rule Cons.IH) (use Cons.prems in \<open>auto simp: fp.ok_put fp.enabled_put\<close>)
  with Cons.prems show ?case
    by (simp add: sbind_def reset_alt_ready clear_func_def)
qed (simp add: sret_def clear_func_def)

subsection \<open>The pins that can take a function\<close>

lemma avail_from_filter:
  "length (filter (\<lambda>row. f \<in> set row) rows) + length pins \<le> 3 \<Longrightarrow>
    avail_from s f i rows pins = pins @ map (int \<circ> fst)
      (filter (\<lambda>(j, row). drv_fpioa_pin_enabled s (int j) \<and> f \<in> set row) (enumerate i rows))"
  by (induction s f i rows pins rule: avail_from.induct) (auto simp: FPIOA_PIN_FUNC_ALT_NUM_def)

lemma set_available_pins:
  assumes "f \<noteq> FUNC_MAX"
  shows "set (drv_fpioa_func_available_pins s f) = {p. drv_fpioa_pin_enabled s p \<and> f \<in> set (pin_funcs p)}"
proof -
  have "p \<in> set (drv_fpioa_func_available_pins s f) \<longleftrightarrow>
      (\<exists>j < 72. p = int j \<and> drv_fpioa_pin_enabled s (int j) \<and> f \<in> set (g_pin_func_array ! j))" for p
    using table_alternatives [OF assms]
    by (auto simp: drv_fpioa_func_available_pins_def avail_from_filter in_set_enumerate_eq length_pin_table
        image_iff)
  moreover have "(\<exists>j < 72. p = int j \<and> drv_fpioa_pin_enabled s (int j) \<and> f \<in> set (g_pin_func_array ! j)) \<longleftrightarrow>
      drv_fpioa_pin_enabled s p \<and> f \<in> set (pin_funcs p)" for p
    using enabled_pin [of s p]
    by (auto simp: pin_funcs_def enabled_range intro!: exI [of _ "nat p"])
  ultimately show ?thesis by blast
qed

text \<open>Any function, also \<open>FUNC_MAX\<close>: the pins given are enabled ones and at most the size of the array.\<close>

lemma avail_from_bound:
  "length pins \<le> 3 \<Longrightarrow> length (avail_from s f i rows pins) \<le> 4"
  by (induction s f i rows pins rule: avail_from.induct) (auto simp: FPIOA_PIN_FUNC_ALT_NUM_def)

lemma avail_from_enabled:
  "p \<in> set (avail_from s f i rows pins) \<Longrightarrow> p \<in> set pins \<or> drv_fpioa_pin_enabled s p"
  by (induction s f i rows pins rule: avail_from.induct) (auto split: if_splits)

lemma available_enabled: "\<forall>p \<in> set (drv_fpioa_func_available_pins s f). drv_fpioa_pin_enabled s p"
  by (auto simp: drv_fpioa_func_available_pins_def dest: avail_from_enabled)

section \<open>Setting the function of a pin\<close>

lemma func_index_Some: "func_index f i fs = Some k \<Longrightarrow> i \<le> k \<and> k - i < length fs \<and> fs ! (k - i) = f"
  by (induction f i fs rule: func_index.induct) (fastforce simp: nth_Cons' split: if_splits)+

lemma func_index_None: "func_index f i fs = None \<longleftrightarrow> f \<notin> set fs"
  by (induction f i fs rule: func_index.induct) auto

lemma func_cfg_described: "72 \<le> f \<Longrightarrow> drv_fpioa_get_func_cfg f \<noteq> None \<longleftrightarrow> f < TEST_PIN0"
proof -
  assume f: "72 \<le> f"
  have "find (\<lambda>e. fst e = f) es \<noteq> None \<longleftrightarrow> f \<in> fst ` set es" for es :: "fpioa_func_cfg list"
    by (induction es) auto
  moreover have "fst ` set g_func_describ_array = {72..<205}"
    by (simp only: set_map [symmetric] describ_codes set_upt)
  ultimately show ?thesis using f by (simp add: drv_fpioa_get_func_cfg_def)
qed

lemma clear_func_ok:
  "\<forall>p \<in> set ps. drv_fpioa_pin_enabled s p \<Longrightarrow> fp_ready s \<Longrightarrow>
    fp_ready (clear_func f ps s) \<and> (\<forall>q. drv_fpioa_pin_enabled (clear_func f ps s) q = drv_fpioa_pin_enabled s q)"
  by (induction ps arbitrary: s) (auto simp: clear_func_def fp.ok_put fp.enabled_put)

text \<open>On mapped banks the function is the composition of a selector, the clearing and one write.\<close>

lemma set_pin_func_ready:
  assumes "fp_ready s"
  shows "drv_fpioa_set_pin_func pin f s =
    (if \<not> drv_fpioa_pin_enabled s pin then (Fail EGENERIC, s)
     else case func_sel pin f of None \<Rightarrow> (Fail EGENERIC, s)
       | Some sel \<Rightarrow> (let t = clear_func f (drv_fpioa_func_available_pins s f) s in
          case drv_fpioa_get_func_cfg f of None \<Rightarrow> (Fail EGENERIC, t)
          | Some fc \<Rightarrow> (Ret (), pin_put t pin (set_msc (get_msc (pin_cfg t pin))
              (set_io_sel (of_nat sel) (snd (snd fc)))))))"
proof -
  let ?t = "clear_func f (drv_fpioa_func_available_pins s f) s"
  have "reset_alts f (drv_fpioa_func_available_pins s f) s = (Ret (), ?t)"
    using assms available_enabled by (rule reset_alts_ready)
  moreover have "fp_ready ?t" "drv_fpioa_pin_enabled ?t q = drv_fpioa_pin_enabled s q" for q
    using clear_func_ok [OF available_enabled assms] by auto
  ultimately show ?thesis
    by (auto simp: drv_fpioa_set_pin_func_def sbind_def sfail_def get_pin_cfg_ready set_pin_cfg_ready Let_def
        split: option.split)
qed

lemma clear_func_spec:
  assumes "fp_ready s" "72 \<le> f" "f < FUNC_MAX" "t = clear_func f (drv_fpioa_func_available_pins s f) s"
  shows "fp_ready t \<and> (\<forall>q. drv_fpioa_pin_enabled t q = drv_fpioa_pin_enabled s q) \<and>
    (\<forall>q. drv_fpioa_pin_enabled s q \<longrightarrow> pin_func s q \<noteq> Some f \<longrightarrow> pin_cfg t q = pin_cfg s q) \<and>
    (\<forall>q. drv_fpioa_pin_enabled s q \<longrightarrow> pin_func t q \<noteq> Some f)"
proof -
  let ?ps = "drv_fpioa_func_available_pins s f"
  have avail: "q \<in> set ?ps \<longleftrightarrow> drv_fpioa_pin_enabled s q \<and> f \<in> set (pin_funcs q)" for q
    using assms(3) by (subst set_available_pins) simp_all
  have home: "\<forall>p \<in> set ?ps. pin_funcs p ! 0 \<noteq> f"
  proof
    fix p
    assume "p \<in> set ?ps"
    then have "nat p < 72" using avail enabled_pin by blast
    then show "pin_funcs p ! 0 \<noteq> f"
      using assms(2,3) row_facts(2,3) [of "nat p"] by (cases "nat p < 64") (auto simp: pin_funcs_def)
  qed
  have listed: "f \<in> set (pin_funcs q)" if q: "drv_fpioa_pin_enabled s q" "pin_func t q = Some f" for q
  proof -
    have "length (pin_funcs q) = 5" using enabled_pin [OF q(1)] row_facts(1) by (simp add: pin_funcs_def)
    with q(2) show ?thesis by (auto simp: pin_func_def sel_func_def Let_def split: if_splits)
  qed
  have "fp_ready t \<and> (\<forall>q. drv_fpioa_pin_enabled t q = drv_fpioa_pin_enabled s q) \<and>
    (\<forall>q. drv_fpioa_pin_enabled s q \<longrightarrow> sel_func q (pin_cfg s q) \<noteq> Some f \<longrightarrow> pin_cfg t q = pin_cfg s q) \<and>
    (\<forall>q \<in> set ?ps. sel_func q (pin_cfg t q) \<noteq> Some f) \<and>
    (\<forall>q. drv_fpioa_pin_enabled s q \<longrightarrow> q \<notin> set ?ps \<longrightarrow> pin_cfg t q = pin_cfg s q)"
    by (rule fp.clear_pins_spec [OF assms(1) available_enabled home, of cleared])
      (simp_all add: cleared_sel assms(4) clear_func_def)
  with avail listed show ?thesis unfolding pin_func_def by blast
qed

lemma func_sel_fits:
  assumes "drv_fpioa_pin_enabled s p" "72 \<le> f" "f < FUNC_MAX" "func_sel p f = Some sel"
  shows "sel < 5 \<and> pin_funcs p ! sel = f \<and> sel_fits p (of_nat sel)"
proof -
  have len: "length (pin_funcs p) = 5" and p: "nat p < 72"
    using enabled_pin [OF assms(1)] row_facts(1) by (simp_all add: pin_funcs_def)
  have sel: "sel < 5" "pin_funcs p ! sel = f"
    using assms(2-4) func_index_Some [of f 0 "pin_funcs p" sel] len by (auto simp: func_sel_def fpioa_sizes)
  have "p < 64" if "sel = 4"
  proof -
    have "\<not> 64 \<le> nat p"
      using that sel p assms(3) row_facts(5) [of "nat p"] by (auto simp: pin_funcs_def)
    then show ?thesis by linarith
  qed
  with sel show ?thesis
    by (cases "sel = 4") (auto simp: sel_fits_def unsigned_of_nat take_bit_nat_eq_self)
qed

lemma io_sel_of_config: "sel < 5 \<Longrightarrow> get_io_sel (set_msc m (set_io_sel (of_nat sel) v)) = of_nat sel"
proof -
  assume "sel < 5"
  then have "take_bit 3 (of_nat sel :: u32) = of_nat sel"
    by (simp add: word_unat_eq_iff unsigned_take_bit_eq unsigned_of_nat take_bit_nat_eq_self)
  then show ?thesis
    by (simp add: get_io_sel_def set_msc_def set_io_sel_def get_put_field_other get_put_field_same)
qed

text \<open>When the configuration call of a dedicated function succeeds, and when it does.\<close>

lemma set_pin_func_result:
  assumes "fp_ready s" "72 \<le> f" "f < FUNC_MAX"
  shows "fst (drv_fpioa_set_pin_func pin f s) =
    (if drv_fpioa_pin_enabled s pin \<and> f \<in> set (pin_funcs pin) \<and> f < TEST_PIN0 then Ret () else Fail EGENERIC)"
proof (cases "drv_fpioa_pin_enabled s pin")
  case True
  then have len: "length (pin_funcs pin) = 5" using enabled_pin row_facts(1) by (simp add: pin_funcs_def)
  have sel: "func_sel pin f = func_index f 0 (pin_funcs pin)" using assms(2) len by (simp add: func_sel_def fpioa_sizes)
  show ?thesis
  proof (cases "func_index f 0 (pin_funcs pin)")
    case None
    then have "f \<notin> set (pin_funcs pin)" by (simp add: func_index_None)
    with None sel True show ?thesis by (simp add: set_pin_func_ready [OF assms(1)])
  next
    case (Some k)
    then have "f \<in> set (pin_funcs pin)" by (metis func_index_None option.distinct(1))
    with Some sel True func_cfg_described [OF assms(2)] show ?thesis
      by (cases "drv_fpioa_get_func_cfg f") (simp_all add: set_pin_func_ready [OF assms(1)] Let_def)
  qed
next
  case False
  then show ?thesis by (simp add: set_pin_func_ready [OF assms(1)])
qed

lemma set_pin_func_effect:
  assumes "fp_ready s" "72 \<le> f" "f < FUNC_MAX" "drv_fpioa_set_pin_func pin f s = (Ret (), s')"
  shows "fp_ready s' \<and> pin_func s' pin = Some f \<and>
    (\<forall>q. drv_fpioa_pin_enabled s q \<longrightarrow> q \<noteq> pin \<longrightarrow> pin_func s' q \<noteq> Some f) \<and>
    (\<forall>q. drv_fpioa_pin_enabled s q \<longrightarrow> q \<noteq> pin \<longrightarrow> pin_func s q \<noteq> Some f \<longrightarrow> pin_cfg s' q = pin_cfg s q)"
proof -
  let ?t = "clear_func f (drv_fpioa_func_available_pins s f) s"
  obtain sel fc where en: "drv_fpioa_pin_enabled s pin" and sel: "func_sel pin f = Some sel"
    and s': "s' = pin_put ?t pin (set_msc (get_msc (pin_cfg ?t pin)) (set_io_sel (of_nat sel) (snd (snd fc))))"
    using assms(4) by (auto simp: set_pin_func_ready [OF assms(1)] Let_def split: if_splits option.splits)
  note t = clear_func_spec [OF assms(1-3) refl]
  have fits: "sel < 5" "pin_funcs pin ! sel = f" "sel_fits pin (of_nat sel)"
    using func_sel_fits [OF en assms(2,3) sel] by auto
  have "get_io_sel (pin_cfg s' pin) = of_nat sel"
    unfolding s' using t en fits by (subst fp.sel_put) (simp_all add: io_sel_of_config)
  then have "pin_func s' pin = Some f"
    using fits by (simp add: pin_func_def sel_func_def unsigned_of_nat take_bit_nat_eq_self)
  moreover have "fp_ready s'" using t en by (simp add: s' fp.ok_put)
  moreover have "pin_cfg s' q = pin_cfg ?t q" if "drv_fpioa_pin_enabled s q" "q \<noteq> pin" for q
    unfolding s' using t en that by (subst fp.cfg_other) auto
  ultimately show ?thesis using t by (auto simp: pin_func_def)
qed

section \<open>The voltage bits\<close>

text \<open>
  Bit 9 of a register selects the voltage of the pin. Every update of the driver is a read of the
  configuration followed by a write that repeats that bit.
\<close>

definition fp_voltage :: "fpioa \<Rightarrow> bool list" where
  "fp_voltage s = map (\<lambda>v. bit v 9) (fp_iomux s) @ map (\<lambda>v. bit v 9) (fp_pmu s)"

definition same_voltage :: "bool list \<Rightarrow> fpioa \<Rightarrow> bool" where
  "same_voltage V s \<longleftrightarrow> fp_sized s \<and> fp_voltage s = V"

lemma mmap_regs:
  "mmap_iomux s = (r, s') \<Longrightarrow> fp_iomux s' = fp_iomux s \<and> fp_pmu s' = fp_pmu s \<and> fp_hw_rtc s' = fp_hw_rtc s \<and> r \<noteq> Fault"
  "mmap_pmu_iomux s = (r, s') \<Longrightarrow> fp_iomux s' = fp_iomux s \<and> fp_pmu s' = fp_pmu s \<and> fp_hw_rtc s' = fp_hw_rtc s \<and> r \<noteq> Fault"
  by (auto simp: mmap_iomux_def mmap_pmu_iomux_def utils_map_def sprog_defs split: if_splits list.splits)

lemma get_pin_cfg_any:
  assumes "fp_sized s" "drv_fpioa_get_pin_cfg p s = (r, s')"
  shows "fp_iomux s' = fp_iomux s \<and> fp_pmu s' = fp_pmu s \<and> fp_hw_rtc s' = fp_hw_rtc s \<and> r \<noteq> Fault \<and>
    (\<forall>v. r = Ret v \<longrightarrow> v = pin_cfg s p \<and> drv_fpioa_pin_enabled s p)"
  using assms
  by (auto simp: drv_fpioa_get_pin_cfg_def drv_fpioa_get_iomux_def drv_fpioa_get_pmu_iomux_def reg_rd_def sret_def
      pin_cfg_def fp_sized_def enabled_range split: if_splits elim!: sbind_cases dest!: mmap_regs)

lemma set_pin_cfg_any:
  assumes "fp_sized s" "drv_fpioa_set_pin_cfg p v s = (r, s')"
  shows "r \<noteq> Fault \<and> fp_hw_rtc s' = fp_hw_rtc s \<and>
    (fp_iomux s' = fp_iomux s \<and> fp_pmu s' = fp_pmu s \<or>
     drv_fpioa_pin_enabled s p \<and> fp_iomux s' = fp_iomux (pin_put s p v) \<and> fp_pmu s' = fp_pmu (pin_put s p v))"
  using assms
  by (auto simp: drv_fpioa_set_pin_cfg_def drv_fpioa_set_iomux_def drv_fpioa_set_pmu_iomux_def reg_rd_def reg_wr_def
      smod_def pin_put_def fp_sized_def enabled_range Let_def split: if_splits elim!: sbind_cases dest!: mmap_regs)

lemma voltage_put:
  assumes "fp_sized s" "drv_fpioa_pin_enabled s p" "bit v 9 = bit (pin_cfg s p) 9"
    and "fp_iomux s' = fp_iomux (pin_put s p v)" "fp_pmu s' = fp_pmu (pin_put s p v)"
  shows "same_voltage (fp_voltage s) s'"
proof -
  have same: "map (\<lambda>v. bit v 9) (xs[i := w]) = map (\<lambda>v. bit v 9) xs"
    if "i < length xs" "bit w 9 = bit (xs ! i) 9" for xs :: "u32 list" and i w
    using that by (simp add: map_update list_update_same_conv)
  show ?thesis
    using assms by (auto simp: same_voltage_def fp_voltage_def fp_sized_def pin_put_def pin_cfg_def enabled_range
        bit_or_iff bit_and_iff bit_0x200 bit_convert_iomux_to_pmu intro!: same)
qed

lemma keeps_read_write:
  assumes "\<And>tmp. bit (g tmp) 9 = bit tmp 9"
  shows "keeps (same_voltage V) (sbind (drv_fpioa_get_pin_cfg p) (\<lambda>tmp. drv_fpioa_set_pin_cfg p (g tmp)))"
proof (rule keepsI)
  fix s r s'
  assume V: "same_voltage V s"
    and run: "sbind (drv_fpioa_get_pin_cfg p) (\<lambda>tmp. drv_fpioa_set_pin_cfg p (g tmp)) s = (r, s')"
  have regs: "same_voltage V s1" if "fp_iomux s1 = fp_iomux s" "fp_pmu s1 = fp_pmu s" for s1
    using that V by (simp add: same_voltage_def fp_sized_def fp_voltage_def)
  have sized: "fp_sized s" using V by (simp add: same_voltage_def)
  from run show "same_voltage V s' \<and> r \<noteq> Fault"
  proof (cases rule: sbind_cases)
    case (ret tmp s1)
    note g = get_pin_cfg_any [OF sized ret(1)]
    have V1: "same_voltage V s1" using regs g by simp
    then have sized1: "fp_sized s1" by (simp add: same_voltage_def)
    note w = set_pin_cfg_any [OF sized1 ret(2)]
    have "bit (g tmp) 9 = bit (pin_cfg s1 p) 9" using assms g by (simp add: pin_cfg_def)
    with w V1 voltage_put [OF sized1, of p "g tmp" s'] show ?thesis
      by (auto simp: same_voltage_def fp_sized_def fp_voltage_def)
  qed (use get_pin_cfg_any [OF sized] regs in auto)
qed

lemma bit9_config [simp]: "bit (set_msc (get_msc tmp) v) 9 = bit tmp 9"
  by (simp add: set_msc_def get_msc_def bit_put_field bit_get_field)

lemma keeps_get_pin_cfg: "keeps (same_voltage V) (drv_fpioa_get_pin_cfg p)"
proof (rule keepsI)
  fix s r s'
  assume "same_voltage V s" "drv_fpioa_get_pin_cfg p s = (r, s')"
  moreover from this have "fp_sized s" by (simp add: same_voltage_def)
  ultimately show "same_voltage V s' \<and> r \<noteq> Fault"
    using get_pin_cfg_any [of s p r s'] by (simp add: same_voltage_def fp_sized_def fp_voltage_def)
qed

lemma keeps_get_pin_func: "keeps (same_voltage V) (drv_fpioa_get_pin_func p)"
proof (rule keepsI)
  fix s r s'
  assume V: "same_voltage V s" and run: "drv_fpioa_get_pin_func p s = (r, s')"
  have "keeps (same_voltage V) (sbind (drv_fpioa_get_pin_cfg p) (\<lambda>cfg.
        let sel = unat (get_io_sel cfg) in
        if FPIOA_PIN_MAX_FUNCS \<le> sel then sfail EGENERIC
        else slift (if nat p < length g_pin_func_array \<and> sel < length (pin_funcs p)
          then Ret (pin_funcs p ! sel) else Fault)))" if "drv_fpioa_pin_enabled s p"
    unfolding Let_def using enabled_pin [OF that] row_facts(1) [of "nat p"]
    by (intro keeps_rules keeps_get_pin_cfg) (auto simp: length_pin_table pin_funcs_def fpioa_sizes)
  with V run show "same_voltage V s' \<and> r \<noteq> Fault"
    by (auto simp: drv_fpioa_get_pin_func_def split: if_splits dest: keepsD)
qed

lemma keeps_reset_alts: "keeps (same_voltage V) (reset_alts f ps)"
  by (induction ps)
    (auto simp: reset_alt_def intro!: keeps_rules keeps_get_pin_func keeps_read_write)

lemma keeps_set_pin_func: "keeps (same_voltage V) (drv_fpioa_set_pin_func pin f)"
proof (rule keepsI)
  fix s r s'
  assume V: "same_voltage V s" and run: "drv_fpioa_set_pin_func pin f s = (r, s')"
  have "keeps (same_voltage V) (sbind (reset_alts f ps) (\<lambda>_.
      case drv_fpioa_get_func_cfg f of None \<Rightarrow> sfail EGENERIC
      | Some fc \<Rightarrow> let cfg = set_io_sel (of_nat sel) (snd (snd fc)) in
          sbind (drv_fpioa_get_pin_cfg pin) (\<lambda>tmp. drv_fpioa_set_pin_cfg pin (set_msc (get_msc tmp) cfg))))" for ps sel
    unfolding Let_def
    by (cases "drv_fpioa_get_func_cfg f") (auto intro!: keeps_rules keeps_reset_alts keeps_read_write)
  with V run show "same_voltage V s' \<and> r \<noteq> Fault"
    by (auto simp: drv_fpioa_set_pin_func_def split: if_splits option.splits dest: keepsD)
qed

lemma bit_0x19EF: "bit (0x19EF :: u32) i \<longleftrightarrow> i \<in> {0, 1, 2, 3, 5, 6, 7, 8, 11, 12}"
proof -
  have "(0x19EF :: u32) = push_bit 11 (mask 2) OR push_bit 5 (mask 4) OR mask 4"
    by (simp add: push_bit_eq_mult mask_eq_exp_minus_1)
  then have "bit (0x19EF :: u32) i \<longleftrightarrow> (11 \<le> i \<and> i < 32 \<and> i - 11 < 2) \<or> (5 \<le> i \<and> i < 32 \<and> i - 5 < 4) \<or> i < 32 \<and> i < 4"
    by (simp only: bit_or_iff bit_push_bit_iff bit_mask_iff possible_bit_word) auto
  then show ?thesis by (simp only: insert_iff empty_iff) presburger
qed

section \<open>The search for a function\<close>

lemma find_from_ready:
  "fp_ready s \<Longrightarrow> i + n \<le> drv_fpioa_enabled_pin_count s \<Longrightarrow> find_from f i n s =
    (case find (\<lambda>q. pin_func s (int q) = Some f \<or> pin_func s (int q) = None) [i..<i + n] of
       None \<Rightarrow> (Fail EGENERIC, s)
     | Some q \<Rightarrow> (if pin_func s (int q) = Some f then (Ret (int q), s) else (Fail EGENERIC, s)))"
proof (induction n arbitrary: i)
  case (Suc n)
  then have "drv_fpioa_pin_enabled s (int i)"
    by (auto simp: enabled_range drv_fpioa_enabled_pin_count_def FPIOA_PIN_MAX_NUM_def split: if_splits)
  with Suc Suc.IH [of "Suc i"] show ?case
    by (auto simp: sbind_def get_pin_func_ready pin_func_def upt_rec [of i] sret_def split: option.split)
qed (simp add: sfail_def)

lemma find_first:
  "find P [0..<n] = Some q \<longleftrightarrow> q < n \<and> P q \<and> (\<forall>j < q. \<not> P j)" "find P [0..<n] = None \<longleftrightarrow> (\<forall>j < n. \<not> P j)"
  by (auto simp: find_Some_iff find_None_iff)

section \<open>Properties\<close>

text \<open>The state after start: both banks mapped, every register zero but for the voltage bits of three pins.\<close>

definition sample_fp :: fpioa where
  "sample_fp = \<lparr>fp_hw_rtc = True, fp_map_results = [], fp_iomux_mapped = True, fp_pmu_mapped = True,
     fp_iomux = replicate 61 0 @ replicate 3 0x200, fp_pmu = replicate 8 0\<rparr>"

lemma sample_fp_ready: "fp_ready sample_fp"
  by (simp add: fp_ready_def fp_sized_def sample_fp_def)

lemma sample_fp_uart: "drv_fpioa_set_pin_func 40 UART1_TXD sample_fp = (Ret (), snd (drv_fpioa_set_pin_func 40 UART1_TXD sample_fp))"
  (is "?r = _")
proof -
  have "UART1_TXD \<in> set (pin_funcs 40)" by (simp add: pin_funcs_def g_pin_func_array_def)
  then have "fst ?r = Ret ()" by (subst set_pin_func_result [OF sample_fp_ready]) (simp_all add: enabled_range)
  then show ?thesis by (metis prod.collapse)
qed

text \<open>C4. With both register banks mapped, when a dedicated function (any but a GPIO) has been given to a pin with success, the
  pin has it afterwards and no other pin of the board has it: the pins that had it were taken back to their function 0. The pins that
  did not have it keep their configuration. Of the GPIO functions nothing is claimed: such a function is accepted for any pin and may leave it
  with the GPIO function of its own number (\<open>set_gpio_on_other_pin\<close>).\<close>

theorem set_pin_func_exclusive:
  assumes "fp_ready s" and "GPIO71 < f" and "f < FUNC_MAX" and "drv_fpioa_set_pin_func pin f s = (Ret (), s')"
  shows "pin_func s' pin = Some f \<and>
    (\<forall>q. drv_fpioa_pin_enabled s q \<longrightarrow> q \<noteq> pin \<longrightarrow> pin_func s' q \<noteq> Some f) \<and>
    (\<forall>q. drv_fpioa_pin_enabled s q \<longrightarrow> q \<noteq> pin \<longrightarrow> pin_func s q \<noteq> Some f \<longrightarrow> pin_cfg s' q = pin_cfg s q)"
  using set_pin_func_effect [of s f pin s'] assms by simp

theorem set_pin_func_exclusive_witness:
  "pin_func (snd (drv_fpioa_set_pin_func 40 UART1_TXD sample_fp)) 40 = Some UART1_TXD"
  using set_pin_func_exclusive [OF sample_fp_ready _ _ sample_fp_uart] by simp

text \<open>Giving a dedicated function to a pin succeeds exactly for the pins that exist on the board,
  list the function in the table, and for functions that are no test outputs; the error is \<open>-1\<close>.\<close>

theorem set_pin_func_succeeds:
  assumes "fp_ready s" and "GPIO71 < f" and "f < FUNC_MAX"
  shows "fst (drv_fpioa_set_pin_func pin f s) =
    (if drv_fpioa_is_func_supported_by_pin s pin f \<and> f < TEST_PIN0 then Ret () else Fail EGENERIC)"
  using set_pin_func_result [of s f pin] assms row_facts(1) [of "nat pin"] enabled_pin [of s pin]
  by (auto simp: drv_fpioa_is_func_supported_by_pin_def drv_fpioa_pin_supported_funcs_def fpioa_sizes pin_funcs_def)

theorem set_pin_func_succeeds_witness:
  "fst (drv_fpioa_set_pin_func 64 PMU_INT0 sample_fp) = Ret () \<and>
   fst (drv_fpioa_set_pin_func 2 TEST_PIN2 sample_fp) = Fail EGENERIC"
  using set_pin_func_succeeds [OF sample_fp_ready, of PMU_INT0 64] set_pin_func_succeeds [OF sample_fp_ready, of TEST_PIN2 2]
  by (simp add: drv_fpioa_is_func_supported_by_pin_def drv_fpioa_pin_supported_funcs_def pin_funcs_def
      g_pin_func_array_def enabled_range sample_fp_def fpioa_sizes)

text \<open>Giving functions to pins never changes the bit that selects the voltage of a pin, in either
  bank, also when the call fails or a bank cannot be mapped; and it reads and writes no
  register outside the banks.\<close>

theorem voltage_preserved:
  assumes "fp_sized s" and "drv_fpioa_set_pin_func pin f s = (r, s')"
  shows "fp_voltage s' = fp_voltage s \<and> fp_sized s' \<and> r \<noteq> Fault"
  using keepsD [OF keeps_set_pin_func [of "fp_voltage s" pin f] _ assms(2)] assms(1)
  by (simp add: same_voltage_def)

theorem voltage_preserved_witness:
  "fp_voltage (snd (drv_fpioa_set_pin_func 62 UART3_DE sample_fp)) = replicate 61 False @ replicate 3 True @ replicate 8 False"
proof -
  have "fp_voltage sample_fp = replicate 61 False @ replicate 3 True @ replicate 8 False"
    by (simp add: fp_voltage_def sample_fp_def bit_0x200)
  with voltage_preserved [of sample_fp 62 UART3_DE] sample_fp_ready show ?thesis
    by (metis fp_ready_def prod.collapse)
qed

text \<open>Between the two register formats exactly the fields both have survive: Schmitt trigger, three
  bits of drive strength, pulls, enables, and two bits of the selector.\<close>

theorem convert_roundtrip:
  "convert_pmu_to_iomux (convert_iomux_to_pmu v) = v AND 0x19EF \<and>
   convert_iomux_to_pmu (convert_pmu_to_iomux v) = v AND 0x19EF"
  by (intro conjI bit_word_eqI)
    (simp_all only: bit_convert_iomux_to_pmu bit_convert_pmu_to_iomux bit_and_iff bit_0x19EF, blast+)

text \<open>The search gives the first pin that has the function, provided the functions of the pins before
  it can be read; a selector out of range on an earlier pin ends it with \<open>-1\<close>.\<close>

theorem find_pin_first:
  assumes "fp_ready s" and "GPIO0 < f" and "f < FUNC_MAX"
  shows "drv_fpioa_find_pin_by_func f s = (Ret (int p), s') \<longleftrightarrow>
    s' = s \<and> p < drv_fpioa_enabled_pin_count s \<and> pin_func s (int p) = Some f \<and>
    (\<forall>q < p. pin_func s (int q) \<noteq> None \<and> pin_func s (int q) \<noteq> Some f)"
proof -
  let ?n = "drv_fpioa_enabled_pin_count s"
  let ?found = "find (\<lambda>q. pin_func s (int q) = Some f \<or> pin_func s (int q) = None) [0..<?n]"
  have "drv_fpioa_find_pin_by_func f s = (Ret (int p), s') \<longleftrightarrow> s' = s \<and> ?found = Some p \<and> pin_func s (int p) = Some f"
    using assms by (auto simp: drv_fpioa_find_pin_by_func_def find_from_ready split: option.splits if_splits)
  then show ?thesis unfolding find_first by auto
qed

theorem find_pin_first_witness:
  "drv_fpioa_find_pin_by_func GPIO12 sample_fp = (Ret 12, sample_fp)"
proof -
  have "pin_func sample_fp (int q) = Some q" if "q < 61" for q
  proof -
    have "get_io_sel (0 :: u32) = 0" by (simp add: get_io_sel_def get_field_def)
    with that row_facts(2) [of q] show ?thesis
      by (simp add: pin_func_def pin_cfg_def sample_fp_def nth_append sel_func_def pin_funcs_def)
  qed
  from this [of 12] this show ?thesis
    using find_pin_first [OF sample_fp_ready, of GPIO12 12 sample_fp]
    by (simp add: drv_fpioa_enabled_pin_count_def fpioa_sizes sample_fp_def)
qed

text \<open>A GPIO function is accepted on every pin of the main bank, not only on its own: asking for
  GPIO \<open>k\<close> on another pin reports success and leaves that pin with its own GPIO.\<close>

theorem set_gpio_on_other_pin:
  assumes "fp_ready s" and "pin < 64" and "k < 64"
  shows "\<exists>s'. drv_fpioa_set_pin_func (int pin) k s = (Ret (), s') \<and> pin_func s' (int pin) = Some pin"
proof -
  let ?t = "clear_func k (drv_fpioa_func_available_pins s k) s"
  have en: "drv_fpioa_pin_enabled s (int pin)" using assms by (simp add: enabled_range)
  have t: "fp_ready ?t" "drv_fpioa_pin_enabled ?t (int pin)"
    using clear_func_ok [OF available_enabled assms(1)] en by auto
  let ?v = "set_msc (get_msc (pin_cfg ?t (int pin))) (set_io_sel (of_nat 0) 0x18f)"
  have "drv_fpioa_set_pin_func (int pin) k s = (Ret (), pin_put ?t (int pin) ?v)"
    using assms en by (simp add: set_pin_func_ready func_sel_def drv_fpioa_get_func_cfg_def gpio_dft_cfg_def Let_def)
  moreover have "get_io_sel (pin_cfg (pin_put ?t (int pin) ?v) (int pin)) = of_nat 0"
    using t by (subst fp.sel_put) (simp_all only: io_sel_of_config, simp_all add: fp.fits_0)
  ultimately show ?thesis
    using row_facts(2) [of pin] assms(2) by (auto simp: pin_func_def sel_func_def pin_funcs_def)
qed

theorem set_gpio_on_other_pin_witness:
  "\<exists>s'. drv_fpioa_set_pin_func 5 GPIO9 sample_fp = (Ret (), s') \<and> pin_func s' 5 = Some GPIO5"
  using set_gpio_on_other_pin [OF sample_fp_ready, of 5 9] by simp

text \<open>Setting one field of a pin of the main bank (trigger, drive strength, pulls, enables) changes
  that field of that register and nothing else; reading it gives the value that was set.\<close>

theorem pin_item_set:
  assumes "fp_ready s" and "pin < 64" and "(off, n) \<in> {(0, 1), (1, 4), (5, 1), (6, 1), (7, 1), (8, 1)}"
    and "0 \<le> v" and "v < 2 ^ n"
  shows "\<exists>s'. drv_fpioa_set_pin_item off n (int pin) v s = (Ret (), s') \<and>
    s' = s\<lparr>fp_iomux := (fp_iomux s)[pin := put_field off n (of_int v) (fp_iomux s ! pin)]\<rparr> \<and>
    drv_fpioa_get_pin_item off n (int pin) s' = (Ret v, s')"
proof -
  let ?old = "fp_iomux s ! pin"
  let ?new = "put_field off n (of_int v) ?old"
  let ?s = "s\<lparr>fp_iomux := (fp_iomux s)[pin := ?new]\<rparr>"
  have en: "drv_fpioa_pin_enabled s (int pin)" using assms(2) by (simp add: enabled_range)
  have len: "pin < length (fp_iomux s)" using assms(1,2) by (simp add: fp_ready_def fp_sized_def)
  have range: "off + n \<le> 9" "off + n \<le> 32" "n \<le> 4" using assms(3) by auto
  have "v < 16" using assms(5) range(3) power_increasing [of n 4 "2 :: int"] by simp
  then have "uint (of_int v :: u32) = v" using assms(4) by (simp add: uint_word_of_int)
  then have trunc: "take_bit n (of_int v :: u32) = of_int v"
    using assms(4,5) by (simp add: word_uint_eq_iff unsigned_take_bit_eq take_bit_int_eq_self)
  have rd: "uint (get_field off n ?new) = v"
    using range(2) \<open>uint (of_int v :: u32) = v\<close> by (simp add: get_put_field_same trunc)
  have same: "(?old AND 0x200) OR ?new = ?new"
    by (rule bit_word_eqI, simp only: bit_or_iff bit_and_iff bit_0x200 bit_put_field) (use range(1) in auto)
  have put: "pin_put s (int pin) ?new = ?s" using assms(2) by (simp add: pin_put_def same)
  have "drv_fpioa_set_pin_item off n (int pin) v s = (Ret (), ?s)"
  proof (cases "uint (get_field off n ?old) = v")
    case True
    then have "of_int v = get_field off n ?old" by (metis word_of_int_uint)
    then have "?new = ?old" by (simp add: put_get_field)
    then have "?s = s" by simp
    with True assms(1,2) en show ?thesis
      by (simp add: drv_fpioa_set_pin_item_def sbind_def get_pin_cfg_ready pin_cfg_def sret_def)
  next
    case False
    then show ?thesis
      using assms(1,2) en put by (simp add: drv_fpioa_set_pin_item_def sbind_def get_pin_cfg_ready set_pin_cfg_ready pin_cfg_def)
  qed
  moreover have "fp_ready ?s" "drv_fpioa_pin_enabled ?s (int pin)"
    using assms(1) en by (simp_all add: fp_ready_def fp_sized_def enabled_range)
  then have "drv_fpioa_get_pin_item off n (int pin) ?s = (Ret v, ?s)"
    using assms(2) len rd by (simp add: drv_fpioa_get_pin_item_def sbind_def get_pin_cfg_ready pin_cfg_def sret_def)
  ultimately show ?thesis by blast
qed

theorem pin_item_set_witness:
  "\<exists>s'. drv_fpioa_set_pin_item 1 4 62 9 sample_fp = (Ret (), s') \<and> drv_fpioa_get_pin_item 1 4 62 s' = (Ret 9, s')"
  using pin_item_set [OF sample_fp_ready, of 62 1 4 9] by auto

end
