(* ===== verification/Fpioa_Names.thy ===== *)
theory Fpioa_Names
  imports Fpioa
begin

text \<open>
  The names of functions (\<open>drv_fpioa_get_func_name\<close> and the two functions on top of it, in
  \<open>rtsmart_hal/drivers/fpioa/drv_fpioa.c\<close>). A buffer is a list of characters, \<open>CHR 0x00\<close> among them;
  the string in a buffer ends before its first null character, and a buffer without one
  faults the reader. \<open>snprintf\<close> and \<open>strncpy\<close> are as in the C library.
\<close>

type_synonym buffer = "char list"

definition NUL :: char where "NUL = CHR 0x00"

text \<open>\<open>strncpy(buf, src, n)\<close>: \<open>n\<close> characters are written, null characters behind the string.\<close>

definition strncpy :: "buffer \<Rightarrow> string \<Rightarrow> nat \<Rightarrow> buffer cres" where
  "strncpy buf src n =
     (if n \<le> length buf then Ret (take n src @ replicate (n - length src) NUL @ drop n buf) else Fault)"

text \<open>
  \<open>snprintf(buf + pos, n, \<dots>)\<close> of a text: at most \<open>n\<close> characters with the final null character are
  written, and the result is the length of the text. \<open>n\<close> is a \<open>size_t\<close>.
\<close>

definition snprintf :: "buffer \<Rightarrow> nat \<Rightarrow> u64 \<Rightarrow> string \<Rightarrow> (buffer \<times> nat) cres" where
  "snprintf buf pos n txt =
     (if n = 0 then Ret (buf, length txt)
      else let out = take (unat n - 1) txt @ [NUL] in
        if pos + length out \<le> length buf
        then Ret (take pos buf @ out @ drop (pos + length out) buf, length txt) else Fault)"

definition c_string :: "buffer \<Rightarrow> string cres" where
  "c_string buf = (if NUL \<in> set buf then Ret (takeWhile (\<lambda>c. c \<noteq> NUL) buf) else Fault)"

definition drv_fpioa_get_func_name :: "nat \<Rightarrow> buffer \<Rightarrow> buffer cres" where
  "drv_fpioa_get_func_name func buf =
     (let buf_size = length buf in
      if buf_size = 0 then Fail EGENERIC
      else if GPIO71 \<ge> func
      then cbind (snprintf buf 0 (of_nat buf_size) (''GPIO'' @ decimal func)) (\<lambda>(b, _). Ret b)
      else if TEST_PIN0 \<le> func then strncpy buf ''RESV'' buf_size
      else case drv_fpioa_get_func_cfg func of
             None \<Rightarrow> Fail EGENERIC
           | Some func_cfg \<Rightarrow>
               cbind (strncpy buf (fst (snd func_cfg)) (buf_size - 1)) (\<lambda>b.
               if buf_size - 1 < length b then Ret (b[buf_size - 1 := NUL]) else Fault))"

definition drv_fpioa_get_pin_func_name :: "int \<Rightarrow> buffer \<Rightarrow> (fpioa, buffer) prog" where
  "drv_fpioa_get_pin_func_name pin buf =
     sbind (drv_fpioa_get_pin_func pin) (\<lambda>func. slift (drv_fpioa_get_func_name func buf))"

text \<open>
  The loop over the functions of a pin: \<open>pos\<close> is the length of what should have been written so
  far, \<open>buf_size - pos\<close> is computed in \<open>size_t\<close>. \<open>stk\<close> is the local array \<open>func_name\<close>.
\<close>

fun alt_names_from :: "nat \<Rightarrow> nat list \<Rightarrow> nat \<Rightarrow> buffer \<Rightarrow> buffer \<Rightarrow> buffer cres" where
  "alt_names_from i [] pos stk buf = Ret buf"
| "alt_names_from i (f # fs) pos stk buf =
     cbind (drv_fpioa_get_func_name f stk) (\<lambda>stk'.
     cbind (c_string stk') (\<lambda>name.
     cbind (snprintf buf pos (of_nat (length buf) - of_nat pos)
       (name @ (if i = FPIOA_PIN_MAX_FUNCS - 1 then [] else ''/''))) (\<lambda>(buf', n).
     alt_names_from (Suc i) fs (pos + n) stk' buf')))"

definition drv_fpioa_get_pin_alt_func_names :: "fpioa \<Rightarrow> int \<Rightarrow> buffer \<Rightarrow> buffer \<Rightarrow> buffer cres" where
  "drv_fpioa_get_pin_alt_func_names s pin stk buf =
     (case drv_fpioa_pin_supported_funcs s pin of None \<Rightarrow> Fail EGENERIC
      | Some funcs \<Rightarrow> alt_names_from 0 funcs 0 stk buf)"

section \<open>The text of a function\<close>

definition func_text :: "nat \<Rightarrow> string" where
  "func_text f = (if f \<le> GPIO71 then ''GPIO'' @ decimal f else if TEST_PIN0 \<le> f then ''RESV''
     else case drv_fpioa_get_func_cfg f of None \<Rightarrow> [] | Some fc \<Rightarrow> fst (snd fc))"

definition text_ok :: "string \<Rightarrow> bool" where
  "text_ok t \<longleftrightarrow> length t \<le> 18 \<and> NUL \<notin> set t \<and> t \<noteq> []"

lemma table_texts: "list_all (\<lambda>e. text_ok (fst (snd e))) g_func_describ_array"
  by (simp add: g_func_describ_array_def text_ok_def NUL_def)

lemma digit_not_NUL: "d < 10 \<Longrightarrow> digit d \<noteq> NUL"
proof -
  assume "d < 10"
  then have "digit d \<in> set ''0123456789''" unfolding digit_def by (intro nth_mem) simp
  then show ?thesis by (auto simp: NUL_def)
qed

lemma decimal_small: "f \<le> 71 \<Longrightarrow> text_ok (''GPIO'' @ decimal f)"
  using digit_not_NUL [of "f mod 10"] digit_not_NUL [of "f div 10"]
  by (auto simp: text_ok_def NUL_def decimal.simps [of f] decimal.simps [of "f div 10"] simp del: decimal.simps)

lemma func_text_ok:
  assumes "f \<le> FUNC_MAX"
  shows "text_ok (func_text f)"
proof -
  have "text_ok (fst (snd fc))" if "72 \<le> f" "drv_fpioa_get_func_cfg f = Some fc" for fc
    using that table_texts by (auto simp: drv_fpioa_get_func_cfg_def list_all_iff find_Some_iff)
  moreover have "\<exists>fc. drv_fpioa_get_func_cfg f = Some fc" if "72 \<le> f" "f < 205"
    using that func_cfg_described [of f] by auto
  moreover have "text_ok ''RESV''" by (simp add: text_ok_def NUL_def)
  moreover have "text_ok (''GPIO'' @ decimal f)" if "f \<le> 71" by (rule decimal_small [OF that])
  ultimately show ?thesis unfolding func_text_def by (auto split: option.split simp del: append.simps decimal.simps)
qed

lemma c_string_prefix: "NUL \<notin> set t \<Longrightarrow> c_string (t @ NUL # r) = Ret t"
  by (induction t) (auto simp: c_string_def)

lemma strncpy_padded:
  assumes "length buf = length src + Suc k"
  shows "strncpy buf src (length buf) = Ret (src @ NUL # replicate k NUL)"
  using assms by (simp add: strncpy_def)

lemma strncpy_terminated:
  assumes "length buf = length src + Suc (Suc k)"
  shows "cbind (strncpy buf src (length buf - 1)) (\<lambda>b.
      if length buf - 1 < length b then Ret (b[length buf - 1 := NUL]) else Fault) =
    Ret (src @ NUL # replicate (Suc k) NUL)"
proof -
  obtain xs z where buf: "buf = xs @ [z]" using assms by (cases buf rule: rev_exhaust) auto
  with assms have "length xs = length src + Suc k" by simp
  with buf show ?thesis
    by (simp add: strncpy_def list_update_append nth_append replicate_append_same)
qed

lemma func_name_Ret:
  assumes "f \<le> FUNC_MAX" "32 \<le> length buf" "length buf < 2 ^ 64"
  shows "\<exists>r. drv_fpioa_get_func_name f buf = Ret (func_text f @ NUL # r) \<and> length (func_text f @ NUL # r) = length buf"
proof -
  have ok: "length (func_text f) \<le> 18" using func_text_ok [OF assms(1)] by (simp add: text_ok_def)
  have ne: "length buf \<noteq> 0" using assms(2) by auto
  from ok assms(2) have "length (func_text f) + 2 \<le> length buf" by linarith
  then obtain k where "length buf = length (func_text f) + 2 + k" using le_iff_add by blast
  then have k: "length buf = length (func_text f) + Suc (Suc k)" by simp
  consider "f \<le> 71" | "205 \<le> f" | "72 \<le> f" "f < 205" by linarith
  then show ?thesis
  proof cases
    case 1
    have "unat (of_nat (length buf) :: u64) = length buf"
      using assms(3) by (simp add: unsigned_of_nat take_bit_nat_eq_self)
    moreover from this have "(of_nat (length buf) :: u64) \<noteq> 0" using ne by (metis unat_0)
    moreover have "func_text f = ''GPIO'' @ decimal f" using 1 by (simp add: func_text_def)
    ultimately show ?thesis
      using 1 k ne
      by (intro exI [of _ "drop (Suc (length (func_text f))) buf"])
        (simp add: drv_fpioa_get_func_name_def snprintf_def Let_def del: decimal.simps)
  next
    case 2
    then have "func_text f = ''RESV''" by (simp add: func_text_def)
    then show ?thesis
      using 2 k ne strncpy_padded [of buf "func_text f" "Suc k"]
      by (auto simp: drv_fpioa_get_func_name_def)
  next
    case 3
    then obtain fc where fc: "drv_fpioa_get_func_cfg f = Some fc" using func_cfg_described [of f] by auto
    then have t: "func_text f = fst (snd fc)" using 3 by (simp add: func_text_def)
    have "drv_fpioa_get_func_name f buf = Ret (func_text f @ NUL # replicate (Suc k) NUL)"
      using 3 ne fc strncpy_terminated [OF k] by (simp add: drv_fpioa_get_func_name_def Let_def t)
    with k show ?thesis by auto
  qed
qed

lemma func_name_c_string:
  assumes "f \<le> FUNC_MAX" "32 \<le> length buf" "length buf < 2 ^ 64"
  shows "\<exists>b. drv_fpioa_get_func_name f buf = Ret b \<and> length b = length buf \<and> c_string b = Ret (func_text f)"
  using func_name_Ret [OF assms] func_text_ok [OF assms(1)] by (auto simp: text_ok_def c_string_prefix)

section \<open>The list of names\<close>

fun names_text :: "nat \<Rightarrow> nat list \<Rightarrow> string" where
  "names_text i [] = []"
| "names_text i (f # fs) = func_text f @ (if i = 4 then [] else ''/'') @ names_text (Suc i) fs"

lemma names_text_ok: "\<forall>f \<in> set fs. f \<le> FUNC_MAX \<Longrightarrow> NUL \<notin> set (names_text i fs) \<and> length (names_text i fs) \<le> 19 * length fs"
proof (induction fs arbitrary: i)
  case (Cons f fs)
  from Cons.prems show ?case using func_text_ok [of f] Cons.IH [of "Suc i"] by (auto simp: text_ok_def NUL_def)
qed simp

lemma size_left: "pos \<le> n \<Longrightarrow> n < 2 ^ 64 \<Longrightarrow> unat (of_nat n - of_nat pos :: u64) = n - pos"
  by (simp flip: of_nat_diff add: unsigned_of_nat take_bit_nat_eq_self)

lemma alt_step:
  assumes "f \<le> FUNC_MAX" "length stk = 32"
  shows "\<exists>stk'. length stk' = 32 \<and> alt_names_from i (f # fs) pos stk buf =
     cbind (snprintf buf pos (of_nat (length buf) - of_nat pos) (func_text f @ (if i = 4 then [] else ''/'')))
       (\<lambda>(buf', n). alt_names_from (Suc i) fs (pos + n) stk' buf')"
  using func_name_c_string [of f stk] assms by (auto simp: FPIOA_PIN_MAX_FUNCS_def)

lemma alt_names_fit:
  assumes "\<forall>f \<in> set fs. f \<le> FUNC_MAX" "length stk = 32" "length buf < 2 ^ 64"
    and "pos + length (names_text i fs) < length buf" "take pos buf = acc" "NUL \<notin> set acc" "buf ! pos = NUL \<or> fs \<noteq> []"
  shows "\<exists>b. alt_names_from i fs pos stk buf = Ret b \<and> length b = length buf \<and> c_string b = Ret (acc @ names_text i fs)"
  using assms
proof (induction fs arbitrary: i pos stk buf acc)
  case Nil
  then have "buf = acc @ NUL # drop (Suc pos) buf" by (metis add_lessD1 id_take_nth_drop list.distinct(1))
  then show ?case using Nil.prems by (metis alt_names_from.simps(1) append_Nil2 c_string_prefix names_text.simps(1))
next
  case (Cons f fs)
  let ?t = "func_text f @ (if i = 4 then [] else ''/'')"
  let ?b = "take pos buf @ ?t @ [NUL] @ drop (pos + Suc (length ?t)) buf"
  obtain stk' where stk': "length stk' = 32" and step: "alt_names_from i (f # fs) pos stk buf =
     cbind (snprintf buf pos (of_nat (length buf) - of_nat pos) ?t) (\<lambda>(buf', n). alt_names_from (Suc i) fs (pos + n) stk' buf')"
    using alt_step [of f stk i fs pos buf] Cons.prems by auto
  have room: "pos + length ?t < length buf" "pos < length buf" using Cons.prems(4) by auto
  then have n: "unat (of_nat (length buf) - of_nat pos :: u64) = length buf - pos" using size_left Cons.prems(3) by simp
  then have "(of_nat (length buf) - of_nat pos :: u64) \<noteq> 0" using room by (metis diff_is_0_eq unat_0 not_le)
  then have sn: "snprintf buf pos (of_nat (length buf) - of_nat pos) ?t = Ret (?b, length ?t)"
    using room n by (simp add: snprintf_def Let_def)
  have "\<exists>b. alt_names_from (Suc i) fs (pos + length ?t) stk' ?b = Ret b \<and> length b = length ?b \<and>
      c_string b = Ret ((acc @ ?t) @ names_text (Suc i) fs)"
  proof (rule Cons.IH)
    have "text_ok (func_text f)" using Cons.prems(1) by (auto intro: func_text_ok)
    then show "NUL \<notin> set (acc @ ?t)" using Cons.prems(6) by (auto simp: text_ok_def NUL_def)
    show "take (pos + length ?t) ?b = acc @ ?t"
      using room Cons.prems(5) by (simp add: take_append min_def flip: Cons.prems(5))
    show "?b ! (pos + length ?t) = NUL \<or> fs \<noteq> []" using room by (simp add: nth_append)
  qed (use Cons.prems room stk' in auto)
  then obtain b where b: "alt_names_from (Suc i) fs (pos + length ?t) stk' ?b = Ret b" "length b = length ?b"
      "c_string b = Ret ((acc @ ?t) @ names_text (Suc i) fs)" by blast
  have "alt_names_from i (f # fs) pos stk buf = Ret b" unfolding step sn using b(1) by (simp only: cbind.simps prod.case)
  moreover have "length b = length buf" unfolding b(2) using room by simp
  ultimately show ?case using b(3) by (intro exI [of _ b]) (simp only: names_text.simps append_assoc simp_thms)
qed

lemma alt_names_overflow:
  assumes "f \<le> FUNC_MAX" "length stk = 32" "pos < 2 ^ 64" "length buf < pos"
  shows "alt_names_from i (f # fs) pos stk buf = Fault"
proof -
  have "(of_nat (length buf) - of_nat pos :: u64) \<noteq> 0"
  proof
    assume "(of_nat (length buf) - of_nat pos :: u64) = 0"
    then have "unat (of_nat (length buf) :: u64) = unat (of_nat pos :: u64)" by simp
    with assms(3,4) show False by (simp add: unsigned_of_nat take_bit_nat_eq_self)
  qed
  moreover obtain stk' where "alt_names_from i (f # fs) pos stk buf =
     cbind (snprintf buf pos (of_nat (length buf) - of_nat pos) (func_text f @ (if i = 4 then [] else ''/'')))
       (\<lambda>(buf', n). alt_names_from (Suc i) fs (pos + n) stk' buf')"
    using alt_step [OF assms(1,2)] by blast
  ultimately show ?thesis using assms(4) by (simp add: snprintf_def Let_def)
qed

lemma supported_row:
  assumes "drv_fpioa_pin_enabled s pin"
  shows "drv_fpioa_pin_supported_funcs s pin = Some (pin_funcs pin)" "length (pin_funcs pin) = 5"
    "\<forall>f \<in> set (pin_funcs pin). f \<le> FUNC_MAX"
  using assms row_facts(1,6) [of "nat pin"] enabled_pin [OF assms]
  by (auto simp: drv_fpioa_pin_supported_funcs_def fpioa_sizes pin_funcs_def)

section \<open>Properties\<close>

text \<open>Every function code has a name: in a buffer of 32 characters or more, \<open>drv_fpioa_get_func_name\<close>
  leaves a terminated string, the text of the function, and writes nothing outside the buffer.\<close>

theorem func_name_text:
  assumes "f \<le> FUNC_MAX" and "32 \<le> length buf" and "length buf < 2 ^ 64"
  shows "\<exists>b. drv_fpioa_get_func_name f buf = Ret b \<and> length b = length buf \<and> c_string b = Ret (func_text f)"
  by (rule func_name_c_string [OF assms])

theorem func_name_text_witness:
  "\<exists>b. drv_fpioa_get_func_name GPIO47 (replicate 40 CHR ''x'') = Ret b \<and> c_string b = Ret ''GPIO47''"
  using func_name_text [of GPIO47 "replicate 40 CHR ''x''"] by (auto simp: func_text_def digit_def)

text \<open>With a buffer of 96 characters or more, \<open>drv_fpioa_get_pin_alt_func_names\<close> leaves in it, for
  every pin of the board, the names of its five functions in order, separated by slashes.\<close>

theorem alt_names_text:
  assumes "drv_fpioa_pin_enabled s pin" and "length stk = 32" and "96 \<le> length buf" and "length buf < 2 ^ 64"
  shows "\<exists>b. drv_fpioa_get_pin_alt_func_names s pin stk buf = Ret b \<and> length b = length buf \<and>
    c_string b = Ret (names_text 0 (pin_funcs pin))"
proof -
  note row = supported_row [OF assms(1)]
  have "length (names_text 0 (pin_funcs pin)) \<le> 95" using names_text_ok [OF row(3), of 0] row(2) by simp
  moreover have "pin_funcs pin \<noteq> []" using row(2) by auto
  ultimately show ?thesis
    using alt_names_fit [OF row(3) assms(2,4), of 0 0 "[]"] row assms(3)
    by (auto simp: drv_fpioa_get_pin_alt_func_names_def)
qed

theorem alt_names_text_witness:
  "\<exists>b. drv_fpioa_get_pin_alt_func_names sample_fp 7 (replicate 32 CHR ''x'') (replicate 128 CHR ''y'') = Ret b \<and>
    c_string b = Ret ''GPIO7/PWM2/IIC4_SCL/RESV/RESV''"
proof -
  have "names_text 0 (pin_funcs 7) = ''GPIO7/PWM2/IIC4_SCL/RESV/RESV''"
    by (simp add: pin_funcs_def g_pin_func_array_def func_text_def digit_def drv_fpioa_get_func_cfg_def g_func_describ_array_def)
  with alt_names_text [of sample_fp 7 "replicate 32 CHR ''x''" "replicate 128 CHR ''y''"] show ?thesis
    by (auto simp: enabled_range)
qed

text \<open>In a buffer shorter than the names of the first two functions the third name is written
  behind the end of the buffer: the rest of the size is computed by an unsigned subtraction
  that wraps around.\<close>

theorem alt_names_overrun:
  assumes "drv_fpioa_pin_enabled s pin" and "length stk = 32"
    and "length (func_text (pin_funcs pin ! 0)) < length buf"
    and "length buf \<le> length (func_text (pin_funcs pin ! 0)) + length (func_text (pin_funcs pin ! 1)) + 1"
  shows "drv_fpioa_get_pin_alt_func_names s pin stk buf = Fault"
proof -
  note row = supported_row [OF assms(1)]
  obtain f g h r where fs: "pin_funcs pin = f # g # h # r"
    using row(2) by (auto simp: length_Suc_conv numeral_eq_Suc)
  have le: "f \<le> FUNC_MAX" "g \<le> FUNC_MAX" "h \<le> FUNC_MAX" using row(3) fs by auto
  let ?a = "func_text f @ ''/''" and ?b = "func_text g @ ''/''"
  have small: "length ?a \<le> 19" "length ?b \<le> 19" "length buf \<le> 38"
    using func_text_ok [OF le(1)] func_text_ok [OF le(2)] assms(4) fs by (auto simp: text_ok_def)
  have third: "alt_names_from 2 (h # r) (length ?a + length ?b) stk2 buf2 = Fault"
    if "length stk2 = 32" "length buf2 = length buf" for stk2 buf2
    by (rule alt_names_overflow) (use that le small assms(4) fs in auto)
  obtain stk1 where s1: "length stk1 = 32" "alt_names_from 0 (pin_funcs pin) 0 stk buf =
     cbind (snprintf buf 0 (of_nat (length buf) - of_nat 0) ?a) (\<lambda>(buf', n). alt_names_from 1 (g # h # r) (0 + n) stk1 buf')"
    using alt_step [OF le(1) assms(2), of 0 "g # h # r" 0 buf] fs by auto
  have keep: "length b = length buf \<and> n = length t" if "snprintf buf p m t = Ret (b, n)" for buf p m t b n
    using that by (auto simp: snprintf_def Let_def min_def split: if_splits)
  have no_fail: "snprintf buf p m t \<noteq> Fail e" for buf p m t e
    by (simp add: snprintf_def Let_def)
  show ?thesis
  proof (cases "snprintf buf 0 (of_nat (length buf) - of_nat 0) ?a")
    case (Ret p)
    obtain b1 n1 where p: "p = (b1, n1)" by (cases p)
    have k1: "length b1 = length buf" "n1 = length ?a" using keep [OF Ret [unfolded p]] by auto
    obtain stk2 where s2: "length stk2 = 32" "alt_names_from 1 (g # h # r) n1 stk1 b1 =
       cbind (snprintf b1 n1 (of_nat (length b1) - of_nat n1) ?b) (\<lambda>(buf', n). alt_names_from 2 (h # r) (n1 + n) stk2 buf')"
      using alt_step [OF le(2) s1(1), of 1 "h # r" n1 b1] by (auto simp: numeral_2_eq_2)
    have "alt_names_from 1 (g # h # r) n1 stk1 b1 = Fault"
    proof (cases "snprintf b1 n1 (of_nat (length b1) - of_nat n1) ?b")
      case (Ret q)
      obtain b2 n2 where "q = (b2, n2)" by (cases q)
      with Ret s2 k1 keep [of b1 n1 "of_nat (length b1) - of_nat n1" ?b b2 n2] third [of stk2 b2]
      show ?thesis by simp
    qed (use s2 no_fail in auto)
    with Ret p s1 row fs show ?thesis by (simp add: drv_fpioa_get_pin_alt_func_names_def)
  qed (use s1 no_fail row in \<open>auto simp: drv_fpioa_get_pin_alt_func_names_def\<close>)
qed

theorem alt_names_overrun_witness:
  "drv_fpioa_get_pin_alt_func_names sample_fp 7 (replicate 32 CHR ''x'') (replicate 10 CHR ''y'') = Fault"
  by (rule alt_names_overrun)
    (simp_all add: enabled_range pin_funcs_def g_pin_func_array_def func_text_def digit_def
      drv_fpioa_get_func_cfg_def g_func_describ_array_def)

end
