(* ===== verification/Pwm.thy ===== *)
theory Pwm
  imports C_Prelude
begin

unbundle bit_operations_syntax

text \<open>
  The PWM driver (\<open>rtsmart_hal/drivers/pwm/drv_pwm.c\<close>). The kernel device behind \<open>/dev/pwm\<close> is a
  parameter: a record of the functions the driver calls on it, over a state of any type. What
  the driver relies on when it reads back a configuration is the condition \<open>pwm_device_ok\<close>; the
  invariant of the driver's own variables holds for every device.
\<close>

definition NSEC_PER_SEC :: u32 where "NSEC_PER_SEC = 1000000000"

datatype pwm_cmd = PWM_ENABLE | PWM_DISABLE | PWM_SET_CFG | PWM_GET_CFG

record rt_pwm_configuration =
  pc_channel :: u32
  pc_period :: u32
  pc_pulse :: u32

text \<open>\<open>open\<close> gives a descriptor or a negative number; \<open>ioctl\<close> a result and the structure it leaves.\<close>

record 'd pwm_os =
  os_open :: "'d \<Rightarrow> int \<times> 'd"
  os_ioctl :: "pwm_cmd \<Rightarrow> rt_pwm_configuration \<Rightarrow> 'd \<Rightarrow> (int \<times> rt_pwm_configuration) \<times> 'd"
  os_close :: "int \<Rightarrow> 'd \<Rightarrow> 'd"

record 'd pwm =
  drv_pwm_fd :: int
  drv_pwm_ref_cnt :: int
  drv_pwm_enabled :: "u8 list"
  pwm_dev :: 'd

definition pwm_start :: "'d \<Rightarrow> 'd pwm" where
  "pwm_start d = \<lparr>drv_pwm_fd = -1, drv_pwm_ref_cnt = 0, drv_pwm_enabled = replicate 6 0, pwm_dev = d\<rparr>"

section \<open>The device calls\<close>

definition pwm_open :: "'d pwm_os \<Rightarrow> ('d pwm, unit) prog" where
  "pwm_open os s =
     (let (fd, d) = os_open os (pwm_dev s); s' = s\<lparr>drv_pwm_fd := fd, pwm_dev := d\<rparr> in
      if fd < 0 then (Fail EGENERIC, s') else (Ret (), s'))"

definition pwm_ioctl :: "'d pwm_os \<Rightarrow> pwm_cmd \<Rightarrow> rt_pwm_configuration \<Rightarrow> ('d pwm, int \<times> rt_pwm_configuration) prog" where
  "pwm_ioctl os cmd cfg =
     sbind (\<lambda>s. if drv_pwm_fd s < 0 then pwm_open os s else (Ret (), s)) (\<lambda>_ s.
       let (r, d) = os_ioctl os cmd cfg (pwm_dev s) in (Ret r, s\<lparr>pwm_dev := d\<rparr>))"

text \<open>A call that fails with \<open>-1\<close> unless the result of the \<open>ioctl\<close> is 0.\<close>

definition pwm_call :: "'d pwm_os \<Rightarrow> pwm_cmd \<Rightarrow> rt_pwm_configuration \<Rightarrow> ('d pwm, rt_pwm_configuration) prog" where
  "pwm_call os cmd cfg =
     sbind (pwm_ioctl os cmd cfg) (\<lambda>(ret, out). if ret \<noteq> 0 then sfail EGENERIC else sret out)"

definition check_channel :: "int \<Rightarrow> ('d pwm, 'a) prog \<Rightarrow> ('d pwm, 'a) prog" where
  "check_channel chn m = (if 0 > chn \<or> 5 < chn then sfail EGENERIC else m)"

definition drv_pwm_get_cfg :: "'d pwm_os \<Rightarrow> int \<Rightarrow> ('d pwm, u32 \<times> u32) prog" where
  "drv_pwm_get_cfg os channel = check_channel channel
     (sbind (pwm_call os PWM_GET_CFG \<lparr>pc_channel = of_int channel, pc_period = 0, pc_pulse = 0\<rparr>)
       (\<lambda>cfg. sret (pc_period cfg, pc_pulse cfg)))"

definition pwm_set_cfg :: "'d pwm_os \<Rightarrow> int \<Rightarrow> u32 \<Rightarrow> u32 \<Rightarrow> ('d pwm, unit) prog" where
  "pwm_set_cfg os channel period pulse =
     sbind (pwm_call os PWM_SET_CFG \<lparr>pc_channel = of_int channel, pc_period = period, pc_pulse = pulse\<rparr>)
       (\<lambda>_. sret ())"

section \<open>Frequency and duty\<close>

text \<open>The 64-bit products of the code, and the assignments of 64-bit values to 32-bit variables.\<close>

definition freq_period :: "u32 \<Rightarrow> u32" where
  "freq_period freq = NSEC_PER_SEC div freq"

definition freq_pulse :: "u32 \<Rightarrow> u32 \<Rightarrow> u32 \<Rightarrow> u32" where
  "freq_pulse period old_period old_pulse =
     (let pulse = (if old_pulse \<noteq> 0 \<and> old_period \<noteq> 0
        then ucast ((ucast period * ucast old_pulse) div (ucast old_period) :: u64) else 0)
      in if pulse > period then period else pulse)"

definition drv_pwm_set_freq :: "'d pwm_os \<Rightarrow> int \<Rightarrow> u32 \<Rightarrow> ('d pwm, unit) prog" where
  "drv_pwm_set_freq os channel freq = check_channel channel
     (if freq = 0 \<or> freq > NSEC_PER_SEC then sfail EGENERIC
      else sbind (drv_pwm_get_cfg os channel) (\<lambda>(old_period, old_pulse).
        let period = freq_period freq in
        if period = 0 then sfail EGENERIC
        else pwm_set_cfg os channel period (freq_pulse period old_period old_pulse)))"


definition duty_pulse :: "u32 \<Rightarrow> u32 \<Rightarrow> u32" where
  "duty_pulse period duty = (if duty \<noteq> 0 then ucast ((ucast period * ucast duty) div 100 :: u64) else 0)"

definition drv_pwm_set_duty :: "'d pwm_os \<Rightarrow> int \<Rightarrow> u32 \<Rightarrow> ('d pwm, unit) prog" where
  "drv_pwm_set_duty os channel duty = check_channel channel
     (if duty > 100 then sfail EGENERIC
      else sbind (drv_pwm_get_cfg os channel) (\<lambda>(period, _).
        pwm_set_cfg os channel period (duty_pulse period duty)))"

definition pulse_duty :: "u32 \<Rightarrow> u32 \<Rightarrow> u32" where
  "pulse_duty period pulse =
     (if period = 0 then 0 else if pulse \<noteq> 0 then ucast ((ucast pulse * 100) div ucast period :: u64) else 0)"

definition drv_pwm_get_duty :: "'d pwm_os \<Rightarrow> int \<Rightarrow> ('d pwm, u32) prog" where
  "drv_pwm_get_duty os channel = check_channel channel
     (sbind (drv_pwm_get_cfg os channel) (\<lambda>(period, pulse). sret (pulse_duty period pulse)))"

definition duty_u16_pulse :: "u32 \<Rightarrow> u16 \<Rightarrow> u32" where
  "duty_u16_pulse period duty = ucast (drop_bit 16 (ucast period * ucast duty :: u64))"

definition drv_pwm_set_duty_u16 :: "'d pwm_os \<Rightarrow> int \<Rightarrow> u16 \<Rightarrow> ('d pwm, unit) prog" where
  "drv_pwm_set_duty_u16 os channel duty = check_channel channel
     (sbind (drv_pwm_get_cfg os channel) (\<lambda>(period, _).
        pwm_set_cfg os channel period (duty_u16_pulse period duty)))"

definition pulse_duty_u16 :: "u32 \<Rightarrow> u32 \<Rightarrow> u16" where
  "pulse_duty_u16 period pulse =
     (if period = 0 then 0 else ucast ((ucast pulse * 65535) div ucast period :: u64))"

definition drv_pwm_get_duty_u16 :: "'d pwm_os \<Rightarrow> int \<Rightarrow> ('d pwm, u16) prog" where
  "drv_pwm_get_duty_u16 os channel = check_channel channel
     (sbind (drv_pwm_get_cfg os channel) (\<lambda>(period, pulse). sret (pulse_duty_u16 period pulse)))"



section \<open>Enabling and disabling\<close>








section \<open>The arithmetic on numbers\<close>

lemma scale_le: "b \<le> c \<Longrightarrow> a * b div c \<le> (a :: nat)"
  by (metis div_le_mono div_mult_self_is_m le0 mult.commute mult_le_mono2 neq0_conv nonzero_mult_div_cancel_right div_by_0)

lemma freq_pulse_value:
  assumes "old_pulse \<le> old_period"
  shows "unat (freq_pulse period old_period old_pulse) = unat period * unat old_pulse div unat old_period"
proof -
  let ?q = "(ucast period * ucast old_pulse) div ucast old_period :: u64"
  have q: "unat ?q = unat period * unat old_pulse div unat old_period" by (simp add: unat_div unat_mul64)
  have le: "unat period * unat old_pulse div unat old_period \<le> unat period"
    using assms by (intro scale_le) (simp add: word_le_nat_alt)
  then have "unat (ucast ?q :: u32) = unat ?q" using unat_less_32 [of period] by (intro unat_ucast_32) (simp add: q)
  then have "old_pulse \<noteq> 0 \<and> old_period \<noteq> 0 \<Longrightarrow> ?thesis"
    using q le by (auto simp: freq_pulse_def Let_def word_less_nat_alt)
  moreover have "old_pulse = 0 \<or> old_period = 0 \<Longrightarrow> ?thesis" by (auto simp: freq_pulse_def)
  ultimately show ?thesis by blast
qed

lemma duty_pulse_value:
  assumes "duty \<le> 100"
  shows "unat (duty_pulse period duty) = unat period * unat duty div 100"
proof -
  let ?q = "(ucast period * ucast duty) div 100 :: u64"
  have q: "unat ?q = unat period * unat duty div 100" by (simp add: unat_div unat_mul64)
  also have "\<dots> \<le> unat period" using assms by (intro scale_le) (simp add: word_le_nat_alt)
  finally have "unat (ucast ?q :: u32) = unat ?q" using unat_less_32 [of period] by (intro unat_ucast_32) simp
  then show ?thesis using q by (auto simp: duty_pulse_def)
qed

lemma pulse_duty_value:
  assumes "pulse \<le> period"
  shows "unat (pulse_duty period pulse) = unat pulse * 100 div unat period"
proof -
  let ?q = "(ucast pulse * 100) div ucast period :: u64"
  have q: "unat ?q = unat pulse * 100 div unat period"
    using unat_mul64 [of pulse 100] by (simp add: unat_div)
  have "100 * unat pulse div unat period \<le> 100" using assms by (intro scale_le) (simp add: word_le_nat_alt)
  then have "unat (ucast ?q :: u32) = unat ?q" by (intro unat_ucast_32) (simp add: q mult.commute)
  then show ?thesis using q by (auto simp: pulse_duty_def)
qed

lemma duty_u16_pulse_value: "unat (duty_u16_pulse period duty) = unat period * unat duty div 65536"
proof -
  let ?p = "ucast period * ucast duty :: u64"
  have d: "(ucast duty :: u64) = ucast (ucast duty :: u32)" by (rule bit_word_eqI) (auto simp: bit_simps dest: bit_imp_le_length)
  have du: "unat (ucast duty :: u32) = unat duty" "unat duty < 65536"
    using unsigned_less [of duty, where 'a = nat] by (simp_all add: unsigned_ucast_eq take_bit_nat_eq_self)
  have p: "unat (drop_bit 16 ?p) = unat period * unat duty div 65536"
    using unat_mul64 [of period "ucast duty"] by (simp add: unsigned_drop_bit_eq drop_bit_eq_div d du unat_div)
  also have "\<dots> \<le> unat period" using du by (intro scale_le) simp
  finally have "unat (ucast (drop_bit 16 ?p) :: u32) = unat (drop_bit 16 ?p)"
    using unat_less_32 [of period] by (intro unat_ucast_32) simp
  then show ?thesis using p by (simp add: duty_u16_pulse_def)
qed

lemma pulse_duty_u16_value:
  assumes "pulse \<le> period"
  shows "unat (pulse_duty_u16 period pulse) = unat pulse * 65535 div unat period"
proof -
  let ?q = "(ucast pulse * 65535) div ucast period :: u64"
  have q: "unat ?q = unat pulse * 65535 div unat period"
    using unat_mul64 [of pulse 65535] by (simp add: unat_div)
  have "65535 * unat pulse div unat period \<le> 65535" using assms by (intro scale_le) (simp add: word_le_nat_alt)
  then have "unat (ucast ?q :: u16) = unat ?q"
    using q by (simp add: unsigned_ucast_eq take_bit_nat_eq_self mult.commute)
  then show ?thesis using q by (auto simp: pulse_duty_u16_def)
qed

text \<open>Scaling a duty to a pulse and back, with rounding both times.\<close>

lemma scale_back:
  fixes P n d :: nat
  assumes "0 < P" "0 < n"
  shows "(P * d div n) * n div P \<le> d" "(P * d div n) * n div P = d \<longleftrightarrow> n dvd P * d"
    "n \<le> P \<Longrightarrow> d \<le> (P * d div n) * n div P + 1"
proof -
  define r where "r = P * d mod n"
  have split: "P * d = (P * d div n) * n + r" "r < n" using assms by (simp_all add: r_def)
  then have q: "(P * d div n) * n = P * d - r" by simp
  have "(P * d - r) div P \<le> P * d div P" by (rule div_le_mono) simp
  then show "(P * d div n) * n div P \<le> d" using assms q by simp
  show "(P * d div n) * n div P = d \<longleftrightarrow> n dvd P * d"
  proof
    assume eq: "(P * d div n) * n div P = d"
    then have "P * d \<le> (P * d div n) * n" by (metis mult.commute times_div_less_eq_dividend)
    with split have "r = 0" by simp
    then show "n dvd P * d" by (simp add: r_def mod_eq_0_iff_dvd)
  next
    assume "n dvd P * d"
    then show "(P * d div n) * n div P = d" using assms by simp
  qed
  show "d \<le> (P * d div n) * n div P + 1" if "n \<le> P"
  proof -
    have "P * d \<le> (P * d div n) * n + P" using split that by linarith
    then have "P * d div P \<le> ((P * d div n) * n + P) div P" by (rule div_le_mono)
    then show ?thesis using assms div_add_self2 [of P "P * d div n * n"] by simp
  qed
qed

lemma scale_u16:
  fixes P d :: nat
  assumes "0 < P"
  shows "0 < d \<Longrightarrow> (P * d div 65536) * 65535 div P < d"
    "65536 \<le> P \<Longrightarrow> d < 65536 \<Longrightarrow> d \<le> (P * d div 65536) * 65535 div P + 2"
proof -
  let ?q = "P * d div 65536"
  show "?q * 65535 div P < d" if "0 < d"
  proof (rule less_mult_imp_div_less)
    show "?q * 65535 < d * P"
    proof (cases "?q = 0")
      case False
      have "?q * 65536 \<le> P * d" by simp
      with False show ?thesis by (simp add: mult.commute)
    qed (use assms that in simp)
  qed
  show "d \<le> ?q * 65535 div P + 2" if "65536 \<le> P" "d < 65536"
  proof -
    have "P * d < ?q * 65536 + 65536" by (simp add: dividend_less_div_times)
    moreover have "?q \<le> P" using that(2) by (intro scale_le) simp
    ultimately have "P * d \<le> ?q * 65535 + 2 * P" using that(1) by linarith
    then have "P * d div P \<le> (?q * 65535 + 2 * P) div P" by (rule div_le_mono)
    then show ?thesis using assms by simp
  qed
qed

section \<open>The variables of the driver\<close>

















section \<open>Runs of the driver\<close>







section \<open>Reading back what was set\<close>

text \<open>The device keeps the configuration that was set for a channel.\<close>

definition pwm_device_ok :: "'d pwm_os \<Rightarrow> bool" where
  "pwm_device_ok os \<longleftrightarrow> (\<forall>cfg d out d'. os_ioctl os PWM_SET_CFG cfg d = ((0, out), d') \<longrightarrow>
     (\<exists>d''. os_ioctl os PWM_GET_CFG \<lparr>pc_channel = pc_channel cfg, pc_period = 0, pc_pulse = 0\<rparr> d' = ((0, cfg), d'')))"

lemma pwm_call_Ret: "pwm_call os cmd cfg s = (Ret out, s') \<Longrightarrow>
    0 \<le> drv_pwm_fd s' \<and> (\<exists>d. os_ioctl os cmd cfg d = ((0, out), pwm_dev s'))"
  by (auto simp: pwm_call_def pwm_ioctl_def pwm_open_def sprog_defs Let_def not_less
      split: prod.splits cres.splits if_splits)

lemma get_after_set:
  assumes "pwm_device_ok os" "0 \<le> c" "c \<le> 5" "pwm_set_cfg os c period pulse s = (Ret (), s')"
  shows "\<exists>s2. drv_pwm_get_cfg os c s' = (Ret (period, pulse), s2)"
proof -
  obtain out where call: "pwm_call os PWM_SET_CFG \<lparr>pc_channel = of_int c, pc_period = period, pc_pulse = pulse\<rparr> s = (Ret out, s')"
    using assms(4) by (auto simp: pwm_set_cfg_def sbind_Ret_iff sret_def)
  obtain d'' where "os_ioctl os PWM_GET_CFG \<lparr>pc_channel = of_int c, pc_period = 0, pc_pulse = 0\<rparr> (pwm_dev s') =
      ((0, \<lparr>pc_channel = of_int c, pc_period = period, pc_pulse = pulse\<rparr>), d'')"
    using pwm_call_Ret [OF call] assms(1) unfolding pwm_device_ok_def by fastforce
  then show ?thesis
    using pwm_call_Ret [OF call] assms(2,3)
    by (auto simp: drv_pwm_get_cfg_def check_channel_def pwm_call_def pwm_ioctl_def sprog_defs)
qed

text \<open>Every setter ends by setting a configuration computed from the one it read.\<close>

lemma set_duty_steps:
  "drv_pwm_set_duty os c d s = (Ret (), s1) \<Longrightarrow> 0 \<le> c \<and> c \<le> 5 \<and> d \<le> 100 \<and>
    (\<exists>p q s0. drv_pwm_get_cfg os c s = (Ret (p, q), s0) \<and> pwm_set_cfg os c p (duty_pulse p d) s0 = (Ret (), s1))"
  "drv_pwm_set_duty_u16 os c u s = (Ret (), s1) \<Longrightarrow> 0 \<le> c \<and> c \<le> 5 \<and>
    (\<exists>p q s0. drv_pwm_get_cfg os c s = (Ret (p, q), s0) \<and> pwm_set_cfg os c p (duty_u16_pulse p u) s0 = (Ret (), s1))"
  "drv_pwm_set_freq os c f s = (Ret (), s1) \<Longrightarrow> 0 \<le> c \<and> c \<le> 5 \<and> f \<noteq> 0 \<and> f \<le> NSEC_PER_SEC \<and>
    (\<exists>p q s0. drv_pwm_get_cfg os c s = (Ret (p, q), s0) \<and>
      pwm_set_cfg os c (freq_period f) (freq_pulse (freq_period f) p q) s0 = (Ret (), s1))"
  by (auto simp: drv_pwm_set_duty_def drv_pwm_set_duty_u16_def drv_pwm_set_freq_def check_channel_def sfail_def
      sbind_Ret_iff Let_def split: if_splits)

lemma duty_pulse_le: "d \<le> 100 \<Longrightarrow> duty_pulse p d \<le> p" "duty_u16_pulse p u \<le> p"
proof -
  show "d \<le> 100 \<Longrightarrow> duty_pulse p d \<le> p"
    using scale_le [of "unat d" 100 "unat p"] duty_pulse_value [of d p] by (simp add: word_le_nat_alt)
  show "duty_u16_pulse p u \<le> p"
    using scale_le [of "unat u" 65536 "unat p"] duty_u16_pulse_value [of p u] unsigned_less [of u, where 'a = nat]
    by (simp add: word_le_nat_alt)
qed

section \<open>Properties\<close>

text \<open>A device that keeps a configuration per channel and accepts every call.\<close>

definition sample_pwm_os :: "(u32 \<Rightarrow> u32 \<times> u32) pwm_os" where
  "sample_pwm_os = \<lparr>os_open = (\<lambda>d. (3, d)),
     os_ioctl = (\<lambda>cmd cfg d. case cmd of
        PWM_SET_CFG \<Rightarrow> ((0, cfg), d(pc_channel cfg := (pc_period cfg, pc_pulse cfg)))
      | PWM_GET_CFG \<Rightarrow> ((0, cfg\<lparr>pc_period := fst (d (pc_channel cfg)), pc_pulse := snd (d (pc_channel cfg))\<rparr>), d)
      | _ \<Rightarrow> ((0, cfg), d)),
     os_close = (\<lambda>fd d. d)\<rparr>"

lemma sample_pwm_ok: "pwm_device_ok sample_pwm_os"
  by (auto simp: pwm_device_ok_def sample_pwm_os_def)

definition sample_pwm :: "(u32 \<Rightarrow> u32 \<times> u32) pwm" where
  "sample_pwm = pwm_start (\<lambda>c. (1000, 250))"

lemmas sample_pwm_run = sample_pwm_def pwm_start_def sample_pwm_os_def check_channel_def pwm_call_def pwm_ioctl_def
  pwm_open_def pwm_set_cfg_def drv_pwm_get_cfg_def sprog_defs





text \<open>After a successful change of the frequency the channel has the period \<open>10^9 / f\<close> rounded down,
  and a pulse that keeps the ratio of the old pulse to the old period, rounded down and never
  more than the period, without any overflow.\<close>

theorem set_freq_keeps_ratio:
  assumes "pwm_device_ok os" and "drv_pwm_get_cfg os c s = (Ret (period0, pulse0), s0)" and "pulse0 \<le> period0"
    and "drv_pwm_set_freq os c f s = (Ret (), s1)"
  shows "\<exists>period pulse s2. drv_pwm_get_cfg os c s1 = (Ret (period, pulse), s2) \<and>
    unat period = 10 ^ 9 div unat f \<and> unat pulse = unat period * unat pulse0 div unat period0 \<and> pulse \<le> period"
proof -
  note st = set_duty_steps(3) [OF assms(4)]
  then have set: "pwm_set_cfg os c (freq_period f) (freq_pulse (freq_period f) period0 pulse0) s0 = (Ret (), s1)"
    using assms(2) by auto
  have "unat (freq_period f) = 10 ^ 9 div unat f" by (simp add: freq_period_def NSEC_PER_SEC_def unat_div)
  moreover have "freq_pulse (freq_period f) period0 pulse0 \<le> freq_period f"
    by (simp add: freq_pulse_def Let_def not_less)
  ultimately show ?thesis
    using get_after_set [OF assms(1) _ _ set] st freq_pulse_value [OF assms(3)] by auto
qed

theorem set_freq_keeps_ratio_witness:
  "\<exists>pulse s2. drv_pwm_get_cfg sample_pwm_os 1 (snd (drv_pwm_set_freq sample_pwm_os 1 1000 sample_pwm)) =
    (Ret (1000000, pulse), s2) \<and> unat pulse = 250000"
proof -
  have get: "drv_pwm_get_cfg sample_pwm_os 1 sample_pwm = (Ret (1000, 250), snd (drv_pwm_get_cfg sample_pwm_os 1 sample_pwm))"
    by (simp add: sample_pwm_run)
  have set: "drv_pwm_set_freq sample_pwm_os 1 1000 sample_pwm =
      (Ret (), snd (drv_pwm_set_freq sample_pwm_os 1 1000 sample_pwm))"
    by (simp add: drv_pwm_set_freq_def freq_period_def NSEC_PER_SEC_def sample_pwm_run Let_def)
  obtain period pulse s2 where
    "drv_pwm_get_cfg sample_pwm_os 1 (snd (drv_pwm_set_freq sample_pwm_os 1 1000 sample_pwm)) = (Ret (period, pulse), s2)"
    "unat period = 1000000" "unat pulse = unat period * 250 div 1000"
    using set_freq_keeps_ratio [OF sample_pwm_ok get _ set] by auto
  moreover from this have "period = 1000000" by (simp add: word_unat_eq_iff)
  ultimately show ?thesis by auto
qed

text \<open>A duty in percent that was set is read back as that percentage exactly when the period times
  the duty is a multiple of 100; otherwise it is read back smaller, by at most one for
  periods of at least 100 ns.\<close>

theorem duty_read_back:
  assumes "pwm_device_ok os" and "drv_pwm_set_duty os c d s = (Ret (), s1)"
    and "drv_pwm_get_cfg os c s = (Ret (period, pulse0), s0)" and "period \<noteq> 0"
  shows "\<exists>d' s2. drv_pwm_get_duty os c s1 = (Ret d', s2) \<and> unat d' \<le> unat d \<and>
    (d' = d \<longleftrightarrow> 100 dvd unat period * unat d) \<and> (100 \<le> unat period \<longrightarrow> unat d \<le> unat d' + 1)"
proof -
  note st = set_duty_steps(1) [OF assms(2)]
  then have d: "d \<le> 100" and set: "pwm_set_cfg os c period (duty_pulse period d) s0 = (Ret (), s1)"
    using assms(3) by auto
  obtain s2 where get: "drv_pwm_get_cfg os c s1 = (Ret (period, duty_pulse period d), s2)"
    using get_after_set [OF assms(1) _ _ set] st by auto
  let ?d = "pulse_duty period (duty_pulse period d)"
  have v: "unat ?d = unat period * unat d div 100 * 100 div unat period"
    by (simp add: pulse_duty_value duty_pulse_le d duty_pulse_value)
  have "0 < unat period" using assms(4) by (simp add: unat_gt_0)
  from scale_back [OF this, of 100 "unat d"] have "unat ?d \<le> unat d" "unat ?d = unat d \<longleftrightarrow> 100 dvd unat period * unat d"
    "100 \<le> unat period \<longrightarrow> unat d \<le> unat ?d + 1"
    unfolding v by auto
  moreover have "drv_pwm_get_duty os c s1 = (Ret ?d, s2)"
    using get st by (simp add: drv_pwm_get_duty_def check_channel_def sbind_def sret_def)
  ultimately show ?thesis by (auto simp: word_unat_eq_iff)
qed

theorem duty_read_back_witness:
  "\<exists>d' s2. drv_pwm_get_duty sample_pwm_os 0 (snd (drv_pwm_set_duty sample_pwm_os 0 33 sample_pwm)) = (Ret d', s2) \<and> d' = 33"
proof -
  have set: "drv_pwm_set_duty sample_pwm_os 0 33 sample_pwm = (Ret (), snd (drv_pwm_set_duty sample_pwm_os 0 33 sample_pwm))"
    by (simp add: drv_pwm_set_duty_def sample_pwm_run)
  have get: "drv_pwm_get_cfg sample_pwm_os 0 sample_pwm = (Ret (1000, 250), snd (drv_pwm_get_cfg sample_pwm_os 0 sample_pwm))"
    by (simp add: sample_pwm_run)
  show ?thesis using duty_read_back [OF sample_pwm_ok set get] by auto
qed

text \<open>A 16-bit duty is never read back as it was set, but for 0: the setter scales by 65536 and the
  getter by 65535. The value read is smaller, by at most two for periods of at least 65536 ns;
  and no 16-bit duty sets the pulse to the whole period.\<close>

theorem duty_u16_read_back:
  assumes "pwm_device_ok os" and "drv_pwm_set_duty_u16 os c u s = (Ret (), s1)"
    and "drv_pwm_get_cfg os c s = (Ret (period, pulse0), s0)" and "period \<noteq> 0" and "u \<noteq> 0"
  shows "\<exists>pulse u' s2. drv_pwm_get_cfg os c s1 = (Ret (period, pulse), s2) \<and> pulse < period \<and>
    drv_pwm_get_duty_u16 os c s1 = (Ret u', s2) \<and> u' < u \<and> (65536 \<le> unat period \<longrightarrow> unat u \<le> unat u' + 2)"
proof -
  note st = set_duty_steps(2) [OF assms(2)]
  then have set: "pwm_set_cfg os c period (duty_u16_pulse period u) s0 = (Ret (), s1)" using assms(3) by auto
  obtain s2 where get: "drv_pwm_get_cfg os c s1 = (Ret (period, duty_u16_pulse period u), s2)"
    using get_after_set [OF assms(1) _ _ set] st by auto
  let ?u = "pulse_duty_u16 period (duty_u16_pulse period u)"
  have v: "unat ?u = unat period * unat u div 65536 * 65535 div unat period"
    by (simp add: pulse_duty_u16_value duty_pulse_le duty_u16_pulse_value)
  have u: "unat u < 65536" using unsigned_less [of u, where 'a = nat] by simp
  have p: "0 < unat period" "0 < unat u" using assms(4,5) by (simp_all add: unat_gt_0)
  from scale_u16 [OF this(1), of "unat u"] p u have "unat ?u < unat u" "65536 \<le> unat period \<longrightarrow> unat u \<le> unat ?u + 2"
    unfolding v by auto
  moreover have "unat (duty_u16_pulse period u) < unat period"
    unfolding duty_u16_pulse_value by (rule less_mult_imp_div_less) (use p u in simp)
  moreover have "drv_pwm_get_duty_u16 os c s1 = (Ret ?u, s2)"
    using get st by (simp add: drv_pwm_get_duty_u16_def check_channel_def sbind_def sret_def)
  ultimately show ?thesis using get by (auto simp: word_less_nat_alt)
qed

theorem duty_u16_read_back_witness:
  "\<exists>u' s2. drv_pwm_get_duty_u16 sample_pwm_os 5 (snd (drv_pwm_set_duty_u16 sample_pwm_os 5 32768 sample_pwm)) = (Ret u', s2) \<and>
    u' < 32768"
proof -
  have set: "drv_pwm_set_duty_u16 sample_pwm_os 5 32768 sample_pwm =
      (Ret (), snd (drv_pwm_set_duty_u16 sample_pwm_os 5 32768 sample_pwm))"
    by (simp add: drv_pwm_set_duty_u16_def sample_pwm_run)
  have get: "drv_pwm_get_cfg sample_pwm_os 5 sample_pwm = (Ret (1000, 250), snd (drv_pwm_get_cfg sample_pwm_os 5 sample_pwm))"
    by (simp add: sample_pwm_run)
  show ?thesis using duty_u16_read_back [OF sample_pwm_ok set get] by auto
qed

end
