(* ===== verification/Gpio.thy ===== *)
theory Gpio
  imports Fpioa
begin

unbundle bit_operations_syntax

text \<open>
  The GPIO driver (\<open>rtsmart_hal/drivers/gpio/drv_gpio.c\<close>): the shared descriptor with its reference
  count, the instances (allocated on the heap, so that the use of a freed one is a \<open>Fault\<close>), the
  value and the mode of a pin, and its interrupt. The kernel device, \<open>malloc\<close> and \<open>sigaction\<close> are
  a parameter: a record of the functions the driver calls, over a state of any type. The lock
  is not modelled: every function is one step.
\<close>

definition GPIO_IRQ_MAX_NUM :: int where "GPIO_IRQ_MAX_NUM = 64"
definition GPIO_MAX_NUM :: int where "GPIO_MAX_NUM = 64 + 8"
definition GPIO_PE_MAX :: u32 where "GPIO_PE_MAX = 5"
definition GPIO_DM_INPUT :: u32 where "GPIO_DM_INPUT = 1"
definition GPIO_DM_MAX :: u32 where "GPIO_DM_MAX = 5"
definition GPIO_PV_LOW :: u32 where "GPIO_PV_LOW = 0"

text \<open>The requests of \<open>ioctl\<close>: \<open>gpio_cfg_t\<close> is a pin and a value, \<open>gpio_irqcfg_t\<close> is written out.\<close>

datatype gpio_req =
    SET_MODE u16 u16
  | GET_MODE u16
  | SET_IRQ u16 (irq_mode: u16) (irq_debounce: u16) (irq_signo: u16) (irq_sigval: nat)
  | CTRL_IRQ u16 u16

record 'd gpio_os =
  go_open :: "'d \<Rightarrow> int \<times> 'd"
  go_close :: "int \<Rightarrow> 'd \<Rightarrow> 'd"
  go_seek :: "int \<Rightarrow> 'd \<Rightarrow> int \<times> 'd"
  go_write :: "u8 \<Rightarrow> 'd \<Rightarrow> int \<times> 'd"
  go_read :: "'d \<Rightarrow> (int \<times> u8) \<times> 'd"
  go_ioctl :: "gpio_req \<Rightarrow> 'd \<Rightarrow> (int \<times> u16) \<times> 'd"
  go_sigaction :: "int \<Rightarrow> bool \<Rightarrow> 'd \<Rightarrow> int \<times> 'd"
  go_malloc :: "'d \<Rightarrow> bool \<times> 'd"
  go_signal_base :: int

text \<open>
  \<open>gi_base_ok\<close> says that \<open>base\<close> points to \<open>gpio_inst_type\<close>; the enumerations are unsigned, so \<open>-1\<close> is
  the largest word; a callback is a number.
\<close>

record drv_gpio_inst =
  gi_base_ok :: bool
  gi_pin :: int
  gi_curr_val :: u32
  gi_curr_mode :: u32
  gi_curr_irq_mode :: u32
  gi_irq_args :: "nat option"
  gi_irq_callback :: "nat option"
  gi_signo :: int

record 'd gpio =
  gpio_fd :: int
  gpio_ref_cnt :: int
  gpio_register_cnt :: int
  gpio_heap :: "nat \<Rightarrow> drv_gpio_inst option"
  gpio_next :: nat
  gpio_fpioa :: fpioa
  gpio_dev :: 'd

section \<open>The shared descriptor\<close>

definition drv_gpio_pin_enabled :: "'d gpio \<Rightarrow> int \<Rightarrow> bool" where
  "drv_gpio_pin_enabled s pin =
     (if pin < 0 \<or> pin \<ge> GPIO_MAX_NUM then False
      else if \<not> fp_hw_rtc (gpio_fpioa s) \<and> pin \<ge> 64 then False else True)"

text \<open>A call of the device that gives a result.\<close>

definition gdev :: "('d \<Rightarrow> 'a \<times> 'd) \<Rightarrow> ('d gpio, 'a) prog" where
  "gdev f s = (let (a, d) = f (gpio_dev s) in (Ret a, s\<lparr>gpio_dev := d\<rparr>))"

definition drv_gpio_open :: "'d gpio_os \<Rightarrow> ('d gpio, unit) prog" where
  "drv_gpio_open os =
     sbind (\<lambda>s. if gpio_fd s < 0
        then sbind (gdev (go_open os)) (\<lambda>fd s. (if fd < 0 then Fail EGENERIC else Ret (), s\<lparr>gpio_fd := fd\<rparr>)) s
        else (Ret (), s))
       (\<lambda>_. smod (\<lambda>s. s\<lparr>gpio_ref_cnt := gpio_ref_cnt s + 1\<rparr>))"

definition drv_gpio_close :: "'d gpio_os \<Rightarrow> 'd gpio \<Rightarrow> 'd gpio" where
  "drv_gpio_close os s =
     (if 0 \<le> gpio_fd s then
        if gpio_ref_cnt s > 0 then
          (let s' = s\<lparr>gpio_ref_cnt := gpio_ref_cnt s - 1\<rparr> in
           if gpio_ref_cnt s' = 0
           then s'\<lparr>gpio_dev := go_close os (gpio_fd s') (gpio_dev s'), gpio_fd := -1\<rparr> else s')
        else s
      else s)"

definition drv_gpio_ioctl :: "'d gpio_os \<Rightarrow> gpio_req \<Rightarrow> ('d gpio, u16) prog" where
  "drv_gpio_ioctl os req s =
     (if gpio_fd s < 0 then (Fail EGENERIC, s)
      else sbind (gdev (go_ioctl os req)) (\<lambda>(r, v). if r \<noteq> 0 then sfail EGENERIC else sret v) s)"

section \<open>Instances\<close>

text \<open>Reading and updating the instance a pointer points to.\<close>

definition with_inst :: "nat \<Rightarrow> (drv_gpio_inst \<Rightarrow> ('d gpio, 'a) prog) \<Rightarrow> ('d gpio, 'a) prog" where
  "with_inst a f s = (case gpio_heap s a of None \<Rightarrow> (Fault, s) | Some i \<Rightarrow> f i s)"

definition upd_inst :: "nat \<Rightarrow> (drv_gpio_inst \<Rightarrow> drv_gpio_inst) \<Rightarrow> ('d gpio, unit) prog" where
  "upd_inst a f = with_inst a (\<lambda>i. smod (\<lambda>s. s\<lparr>gpio_heap := (gpio_heap s)(a \<mapsto> f i)\<rparr>))"

definition drv_gpio_mode_set :: "'d gpio_os \<Rightarrow> nat option \<Rightarrow> u32 \<Rightarrow> ('d gpio, unit) prog" where
  "drv_gpio_mode_set os inst mode =
     (case inst of None \<Rightarrow> sfail EGENERIC
      | Some a \<Rightarrow> with_inst a (\<lambda>i.
          if mode = gi_curr_mode i then sret ()
          else sbind (drv_gpio_ioctl os (SET_MODE (of_int (gi_pin i)) (ucast mode))) (\<lambda>_.
            upd_inst a (\<lambda>i. i\<lparr>gi_curr_mode := mode\<rparr>))))"

definition drv_gpio_mode_get :: "'d gpio_os \<Rightarrow> nat option \<Rightarrow> ('d gpio, u32) prog" where
  "drv_gpio_mode_get os inst =
     (case inst of None \<Rightarrow> sret GPIO_DM_MAX
      | Some a \<Rightarrow> with_inst a (\<lambda>i.
          scatch (drv_gpio_ioctl os (GET_MODE (of_int (gi_pin i))))
            (\<lambda>v. sbind (upd_inst a (\<lambda>i. i\<lparr>gi_curr_mode := ucast v\<rparr>)) (\<lambda>_. sret (ucast v)))
            (\<lambda>_. sret GPIO_DM_MAX)))"

text \<open>The new value of the caller's pointer is the result.\<close>

definition drv_gpio_inst_destroy :: "'d gpio_os \<Rightarrow> nat option \<Rightarrow> ('d gpio, nat option) prog" where
  "drv_gpio_inst_destroy os inst =
     (case inst of None \<Rightarrow> sret None
      | Some a \<Rightarrow> with_inst a (\<lambda>i.
          if \<not> gi_base_ok i then sret inst
          else sbind (signore (drv_gpio_mode_set os inst GPIO_DM_INPUT)) (\<lambda>_.
               sbind (smod (drv_gpio_close os)) (\<lambda>_.
               sbind (smod (\<lambda>s. s\<lparr>gpio_heap := (gpio_heap s)(a := None)\<rparr>)) (\<lambda>_. sret None)))))"

text \<open>
  \<open>inst\<close> is the caller's pointer, whose new value is the result beside the outcome. The check of
  the pin's function reads the multiplexer.
\<close>

definition fpioa_func_of :: "int \<Rightarrow> ('d gpio, nat) prog" where
  "fpioa_func_of pin s = (let (r, fp) = drv_fpioa_get_pin_func pin (gpio_fpioa s) in (r, s\<lparr>gpio_fpioa := fp\<rparr>))"

definition gpio_new_inst :: "int \<Rightarrow> drv_gpio_inst" where
  "gpio_new_inst pin = \<lparr>gi_base_ok = True, gi_pin = pin, gi_curr_val = -1, gi_curr_mode = GPIO_DM_MAX,
     gi_curr_irq_mode = GPIO_PE_MAX, gi_irq_args = None, gi_irq_callback = None, gi_signo = 0\<rparr>"

definition drv_gpio_inst_create ::
    "'d gpio_os \<Rightarrow> int \<Rightarrow> nat option \<Rightarrow> ('d gpio, unit cres \<times> nat option) prog" where
  "drv_gpio_inst_create os pin inst s =
     (if \<not> drv_gpio_pin_enabled s pin then (Ret (Fail EGENERIC, inst), s)
      else case fpioa_func_of pin s of
        (Fault, s1) \<Rightarrow> (Fault, s1)
      | (Fail e, s1) \<Rightarrow> (Ret (Fail EGENERIC, inst), s1)
      | (Ret func, s1) \<Rightarrow>
        if func \<noteq> nat (int GPIO0 + pin) then (Ret (Fail EGENERIC, inst), s1)
        else (case drv_gpio_open os s1 of
            (Fault, s2) \<Rightarrow> (Fault, s2)
          | (Fail e, s2) \<Rightarrow> (Ret (Fail EGENERIC, inst), s2)
          | (Ret u, s2) \<Rightarrow>
              sbind (signore (drv_gpio_inst_destroy os inst)) (\<lambda>_.
              sbind (gdev (go_malloc os)) (\<lambda>ok s3.
                if \<not> ok then (Ret (Fail EGENERIC, None), drv_gpio_close os s3)
                else (Ret (Ret (), Some (gpio_next s3)),
                      s3\<lparr>gpio_heap := (gpio_heap s3)(gpio_next s3 \<mapsto> gpio_new_inst pin), gpio_next := gpio_next s3 + 1\<rparr>))) s2))"

section \<open>Values\<close>

definition drv_gpio_value_set :: "'d gpio_os \<Rightarrow> nat option \<Rightarrow> u32 \<Rightarrow> ('d gpio, unit) prog" where
  "drv_gpio_value_set os inst val =
     (case inst of None \<Rightarrow> sfail EGENERIC
      | Some a \<Rightarrow> with_inst a (\<lambda>i s.
          if gpio_fd s < 0 then (Fail EGENERIC, s)
          else if gi_curr_val i = val then (Ret (), s)
          else sbind (gdev (go_seek os (gi_pin i))) (\<lambda>off.
            if gi_pin i \<noteq> off then sfail EGENERIC
            else sbind (gdev (go_write os (ucast val))) (\<lambda>n.
              if n = 1 then upd_inst a (\<lambda>i. i\<lparr>gi_curr_val := val\<rparr>) else sfail EGENERIC)) s))"

definition drv_gpio_value_get :: "'d gpio_os \<Rightarrow> nat option \<Rightarrow> ('d gpio, u32) prog" where
  "drv_gpio_value_get os inst =
     (case inst of None \<Rightarrow> sret GPIO_PV_LOW
      | Some a \<Rightarrow> with_inst a (\<lambda>i s.
          if gpio_fd s < 0 then (Ret (-1), s)
          else sbind (gdev (go_seek os (gi_pin i))) (\<lambda>off.
            if gi_pin i \<noteq> off then sret (-1)
            else sbind (gdev (go_read os)) (\<lambda>(n, v).
              if n \<noteq> 1 then sret (-1)
              else sbind (upd_inst a (\<lambda>i. i\<lparr>gi_curr_val := ucast v\<rparr>)) (\<lambda>_. sret (ucast v)))) s))"

definition drv_gpio_toggle :: "'d gpio_os \<Rightarrow> nat option \<Rightarrow> ('d gpio, unit) prog" where
  "drv_gpio_toggle os inst =
     (case inst of None \<Rightarrow> sfail EGENERIC
      | Some a \<Rightarrow>
          sbind (upd_inst a (\<lambda>i. if gi_curr_val i = -1 then i\<lparr>gi_curr_val := 0\<rparr> else i)) (\<lambda>_.
          with_inst a (\<lambda>i. drv_gpio_value_set os inst (1 - gi_curr_val i))))"

section \<open>Interrupts\<close>

definition drv_gpio_set_irq :: "'d gpio_os \<Rightarrow> nat option \<Rightarrow> int \<Rightarrow> ('d gpio, unit) prog" where
  "drv_gpio_set_irq os inst enable =
     (case inst of None \<Rightarrow> sfail EGENERIC
      | Some a \<Rightarrow> with_inst a (\<lambda>i.
          sbind (drv_gpio_ioctl os (CTRL_IRQ (of_int (gi_pin i)) (of_int enable AND NOT (push_bit 7 1)))) (\<lambda>_. sret ())))"

definition drv_gpio_unregister_irq :: "'d gpio_os \<Rightarrow> nat option \<Rightarrow> ('d gpio, unit) prog" where
  "drv_gpio_unregister_irq os inst =
     (case inst of None \<Rightarrow> sfail EGENERIC
      | Some a \<Rightarrow> with_inst a (\<lambda>i.
          if gi_curr_irq_mode i = GPIO_PE_MAX \<and> gi_irq_callback i = None then sret ()
          else sbind (drv_gpio_ioctl os (CTRL_IRQ (of_int (gi_pin i)) (0 OR push_bit 7 1))) (\<lambda>_.
               sbind (upd_inst a (\<lambda>i. i\<lparr>gi_curr_irq_mode := GPIO_PE_MAX, gi_irq_args := None, gi_irq_callback := None\<rparr>)) (\<lambda>_.
               sbind (gdev (go_sigaction os (gi_signo i) False)) (\<lambda>_. sret ())))))"

text \<open>The signal of the \<open>n\<close>-th registration; \<open>KD_GPIO_SIG\<close> is the base.\<close>

definition drv_gpio_register_irq ::
    "'d gpio_os \<Rightarrow> nat option \<Rightarrow> u32 \<Rightarrow> int \<Rightarrow> nat option \<Rightarrow> nat option \<Rightarrow> ('d gpio, unit) prog" where
  "drv_gpio_register_irq os inst mode debounce callback userargs =
     (case inst of None \<Rightarrow> sfail EGENERIC
      | Some a \<Rightarrow> with_inst a (\<lambda>i.
          if GPIO_PE_MAX \<le> mode then sfail EGENERIC
          else if GPIO_IRQ_MAX_NUM \<le> gi_pin i then sfail EGENERIC
          else
            let debounce_ms = (of_int (if 10 > debounce then 10 else debounce) :: u16) in
            sbind (if gi_curr_irq_mode i \<noteq> GPIO_PE_MAX then drv_gpio_unregister_irq os inst else sret ()) (\<lambda>_.
            sbind (sget gpio_register_cnt) (\<lambda>n.
            let signo = go_signal_base os + n mod 8 in
            sbind (smod (\<lambda>s. s\<lparr>gpio_register_cnt := n + 1\<rparr>)) (\<lambda>_.
            sbind (upd_inst a (\<lambda>i. i\<lparr>gi_signo := signo\<rparr>)) (\<lambda>_.
            sbind (gdev (go_sigaction os signo True)) (\<lambda>r.
            if r = -1 then sfail EGENERIC
            else
              scatch (drv_gpio_ioctl os (SET_IRQ (of_int (gi_pin i)) (ucast mode) debounce_ms (of_int signo) a))
                (\<lambda>_. upd_inst a (\<lambda>i. i\<lparr>gi_curr_irq_mode := mode, gi_irq_args := userargs, gi_irq_callback := callback\<rparr>))
                (\<lambda>_. sbind (gdev (go_sigaction os signo False)) (\<lambda>_. sfail EGENERIC)))))))))"

text \<open>The signal handler: the callback it calls, if any, with its argument.\<close>

definition drv_gpio_sig_handler :: "int \<Rightarrow> bool \<Rightarrow> nat option \<Rightarrow> ('d gpio, (nat \<times> nat option) option) prog" where
  "drv_gpio_sig_handler sig is_sigio si_ptr =
     (if \<not> is_sigio then sret None
      else case si_ptr of None \<Rightarrow> sret None
        | Some a \<Rightarrow> with_inst a (\<lambda>i.
            if \<not> gi_base_ok i then sret None
            else if gi_signo i \<noteq> sig then sret None
            else sret (map_option (\<lambda>cb. (cb, gi_irq_args i)) (gi_irq_callback i))))"

section \<open>The invariant\<close>

text \<open>
  \<open>A\<close> are the live instances, \<open>k\<close> the references held by no instance (one, while an instance is
  being created).
\<close>

definition ginv :: "nat set \<Rightarrow> int \<Rightarrow> 'd gpio \<Rightarrow> bool" where
  "ginv A k s \<longleftrightarrow> dom (gpio_heap s) = A \<and> finite A \<and> (\<forall>a \<in> A. a < gpio_next s) \<and>
     (\<forall>i \<in> ran (gpio_heap s). gi_base_ok i \<and> 0 \<le> gi_pin i \<and> gi_pin i < 72) \<and>
     gpio_ref_cnt s = int (card A) + k \<and> 0 \<le> k \<and> (gpio_fd s < 0 \<longleftrightarrow> gpio_ref_cnt s = 0) \<and> fp_sized (gpio_fpioa s)"

lemma keeps_gdev: "keeps (ginv A k) (gdev f)"
  by (rule keepsI) (auto simp: gdev_def ginv_def split: prod.splits)

lemma keeps_gpio_ioctl: "keeps (ginv A k) (drv_gpio_ioctl os req)"
proof -
  have "keeps (ginv A k) (sbind (gdev (go_ioctl os req)) (\<lambda>(r, v). if r \<noteq> 0 then sfail EGENERIC else sret v))"
    unfolding split_beta by (intro keeps_rules keeps_gdev)
  then show ?thesis by (auto simp: keeps_def drv_gpio_ioctl_def)
qed

lemma ginv_inst: "ginv A k s \<Longrightarrow> a \<in> A \<Longrightarrow> \<exists>i. gpio_heap s a = Some i \<and> gi_base_ok i \<and> 0 \<le> gi_pin i \<and> gi_pin i < 72"
  by (auto simp: ginv_def dom_def ran_def)

lemma keeps_with_inst:
  "a \<in> A \<Longrightarrow> (\<And>i. gi_base_ok i \<Longrightarrow> 0 \<le> gi_pin i \<Longrightarrow> gi_pin i < 72 \<Longrightarrow> keeps (ginv A k) (f i)) \<Longrightarrow>
    keeps (ginv A k) (with_inst a f)"
proof (rule keepsI)
  fix s r s'
  assume a: "a \<in> A" and f: "\<And>i. gi_base_ok i \<Longrightarrow> 0 \<le> gi_pin i \<Longrightarrow> gi_pin i < 72 \<Longrightarrow> keeps (ginv A k) (f i)"
    and s: "ginv A k s" and run: "with_inst a f s = (r, s')"
  obtain i where i: "gpio_heap s a = Some i" "gi_base_ok i" "0 \<le> gi_pin i" "gi_pin i < 72"
    using ginv_inst [OF s a] by blast
  then have "f i s = (r, s')" using run by (simp add: with_inst_def)
  with keepsD [OF f [OF i(2-4)] s] show "ginv A k s' \<and> r \<noteq> Fault" by blast
qed

lemma keeps_upd_inst:
  "a \<in> A \<Longrightarrow> (\<And>i. gi_base_ok (f i) = gi_base_ok i \<and> gi_pin (f i) = gi_pin i) \<Longrightarrow> keeps (ginv A k) (upd_inst a f)"
  by (rule keepsI) (auto simp: upd_inst_def with_inst_def smod_def ginv_def ran_def dom_def split: option.splits if_splits)

lemmas keeps_gpio = keeps_rules keeps_gdev keeps_gpio_ioctl keeps_with_inst keeps_upd_inst

lemma keeps_guard: "keeps P m \<Longrightarrow> keeps P (\<lambda>s. if c s then (r, s) else m s)" if "r \<noteq> Fault"
  using that by (auto simp: keeps_def)

lemma keeps_mode_set: "a \<in> A \<Longrightarrow> keeps (ginv A k) (drv_gpio_mode_set os (Some a) m)"
  by (auto simp: drv_gpio_mode_set_def intro!: keeps_gpio)

lemma keeps_mode_get: "a \<in> A \<Longrightarrow> keeps (ginv A k) (drv_gpio_mode_get os (Some a))"
  by (simp add: drv_gpio_mode_get_def, intro keeps_gpio) auto

lemma keeps_value_set: "a \<in> A \<Longrightarrow> keeps (ginv A k) (drv_gpio_value_set os (Some a) v)"
  unfolding drv_gpio_value_set_def
  by (auto intro!: keeps_with_inst keeps_guard keeps_sbind keeps_gdev keeps_if keeps_sfail keeps_upd_inst)

lemma keeps_value_get: "a \<in> A \<Longrightarrow> keeps (ginv A k) (drv_gpio_value_get os (Some a))"
  unfolding drv_gpio_value_get_def
  by (auto simp: split_beta intro!: keeps_with_inst keeps_guard keeps_sbind keeps_gdev keeps_if keeps_sret keeps_upd_inst)

lemma keeps_toggle: "a \<in> A \<Longrightarrow> keeps (ginv A k) (drv_gpio_toggle os (Some a))"
  unfolding drv_gpio_toggle_def
  by (simp, intro keeps_with_inst keeps_sbind keeps_upd_inst keeps_value_set) auto

lemma keeps_set_irq: "a \<in> A \<Longrightarrow> keeps (ginv A k) (drv_gpio_set_irq os (Some a) e)"
  unfolding drv_gpio_set_irq_def by (auto intro!: keeps_gpio)

lemma keeps_unregister: "a \<in> A \<Longrightarrow> keeps (ginv A k) (drv_gpio_unregister_irq os (Some a))"
  unfolding drv_gpio_unregister_irq_def by (auto intro!: keeps_gpio)

lemma keeps_register_cnt: "keeps (ginv A k) (smod (\<lambda>s. s\<lparr>gpio_register_cnt := n\<rparr>))"
  by (rule keeps_smod) (simp add: ginv_def)

lemma keeps_register: "a \<in> A \<Longrightarrow> keeps (ginv A k) (drv_gpio_register_irq os (Some a) m d cb ar)"
  unfolding drv_gpio_register_irq_def Let_def
  by (auto intro!: keeps_with_inst keeps_if keeps_sfail keeps_sbind keeps_unregister keeps_sret keeps_sget
      keeps_register_cnt keeps_upd_inst keeps_gdev keeps_scatch keeps_gpio_ioctl)

lemma keeps_sig_handler: "(\<And>a. p = Some a \<Longrightarrow> a \<in> A) \<Longrightarrow> keeps (ginv A k) (drv_gpio_sig_handler sig b p)"
  unfolding drv_gpio_sig_handler_def by (auto split: option.split intro!: keeps_gpio)

subsection \<open>Creating and destroying\<close>

lemma ginv_open:
  "drv_gpio_open os s = (r, s') \<Longrightarrow> ginv A k s \<Longrightarrow>
    r \<noteq> Fault \<and> (r = Ret () \<longrightarrow> ginv A (k + 1) s') \<and> (r \<noteq> Ret () \<longrightarrow> ginv A k s')"
proof -
  assume run: "drv_gpio_open os s = (r, s')" and inv: "ginv A k s"
  obtain fd d where o: "go_open os (gpio_dev s) = (fd, d)" by (metis surj_pair)
  have "drv_gpio_open os s =
    (if gpio_fd s < 0 then
       if fd < 0 then (Fail EGENERIC, s\<lparr>gpio_dev := d, gpio_fd := fd\<rparr>)
       else (Ret (), s\<lparr>gpio_dev := d, gpio_fd := fd, gpio_ref_cnt := gpio_ref_cnt s + 1\<rparr>)
     else (Ret (), s\<lparr>gpio_ref_cnt := gpio_ref_cnt s + 1\<rparr>))"
    using o by (simp add: drv_gpio_open_def gdev_def smod_def sbind_def)
  with run inv show ?thesis
    by (cases "gpio_fd s < 0"; cases "fd < 0") (auto simp: ginv_def)
qed

lemma ginv_close: "ginv A k s \<Longrightarrow> 0 < k \<Longrightarrow> ginv A (k - 1) (drv_gpio_close os s)"
  by (auto simp: drv_gpio_close_def ginv_def Let_def)

lemma ginv_free: "ginv A k s \<Longrightarrow> a \<in> A \<Longrightarrow>
    ginv (A - {a}) k (drv_gpio_close os s\<lparr>gpio_heap := (gpio_heap (drv_gpio_close os s))(a := None)\<rparr>)"
proof -
  assume inv: "ginv A k s" and a: "a \<in> A"
  have card: "int (card A) = int (card (A - {a})) + 1"
    using inv a card_Suc_Diff1 [of A a] by (simp add: ginv_def)
  have heap: "gpio_heap (drv_gpio_close os s) = gpio_heap s" "gpio_next (drv_gpio_close os s) = gpio_next s"
    "gpio_fpioa (drv_gpio_close os s) = gpio_fpioa s"
    by (simp_all add: drv_gpio_close_def Let_def)
  have "gpio_ref_cnt (drv_gpio_close os s) = int (card (A - {a})) + k"
    "gpio_fd (drv_gpio_close os s) < 0 \<longleftrightarrow> gpio_ref_cnt (drv_gpio_close os s) = 0"
    using inv card by (auto simp: drv_gpio_close_def Let_def ginv_def)
  with inv heap show ?thesis by (auto simp: ginv_def ran_def)
qed

lemma ginv_destroy:
  assumes "drv_gpio_inst_destroy os (Some a) s = (r, s')" "ginv A k s" "a \<in> A"
  shows "r = Ret None \<and> ginv (A - {a}) k s'"
proof -
  obtain i where i: "gpio_heap s a = Some i" "gi_base_ok i" using ginv_inst [OF assms(2,3)] by blast
  obtain x s1 where m: "signore (drv_gpio_mode_set os (Some a) GPIO_DM_INPUT) s = (x, s1)" by (metis surj_pair)
  have "ginv A k s1 \<and> x \<noteq> Fault"
    using keepsD [OF keeps_signore [OF keeps_mode_set [OF assms(3)]] assms(2) m] .
  moreover from this m have "x = Ret ()" by (auto simp: signore_def split: prod.splits cres.splits)
  ultimately show ?thesis
    using assms(1,3) i m ginv_free [of A k s1 a os]
    by (simp add: drv_gpio_inst_destroy_def with_inst_def sbind_def smod_def sret_def)
qed

lemma ginv_add: "ginv A (k + 1) s \<Longrightarrow> 0 \<le> k \<Longrightarrow> 0 \<le> pin \<Longrightarrow> pin < 72 \<Longrightarrow>
    ginv (insert (gpio_next s) A) k
      (s\<lparr>gpio_heap := (gpio_heap s)(gpio_next s \<mapsto> gpio_new_inst pin), gpio_next := gpio_next s + 1\<rparr>)"
proof -
  assume inv: "ginv A (k + 1) s" and "0 \<le> k" and pin: "0 \<le> pin" "pin < 72"
  have "gpio_next s \<notin> A" "finite A" using inv by (auto simp: ginv_def)
  then have card: "int (card (insert (gpio_next s) A)) = int (card A) + 1" by simp
  have "\<forall>i \<in> ran ((gpio_heap s)(gpio_next s \<mapsto> gpio_new_inst pin)). gi_base_ok i \<and> 0 \<le> gi_pin i \<and> gi_pin i < 72"
    using inv pin by (auto simp: ginv_def gpio_new_inst_def ran_def split: if_splits)
  moreover have "\<forall>a \<in> insert (gpio_next s) A. a < gpio_next s + 1" using inv by (auto simp: ginv_def less_Suc_eq)
  ultimately show ?thesis using inv card \<open>0 \<le> k\<close> by (simp add: ginv_def)
qed

lemma ginv_fpioa: "fpioa_func_of pin s = (r, s') \<Longrightarrow> ginv A k s \<Longrightarrow> ginv A k s' \<and> r \<noteq> Fault"
proof -
  assume run: "fpioa_func_of pin s = (r, s')" and inv: "ginv A k s"
  obtain x fp where g: "drv_fpioa_get_pin_func pin (gpio_fpioa s) = (x, fp)" by (metis surj_pair)
  have "same_voltage (fp_voltage (gpio_fpioa s)) (gpio_fpioa s)" using inv by (simp add: ginv_def same_voltage_def)
  from keepsD [OF keeps_get_pin_func this g] have "fp_sized fp" "x \<noteq> Fault" by (auto simp: same_voltage_def)
  with run inv g show ?thesis by (auto simp: fpioa_func_of_def ginv_def)
qed

definition live :: "'d gpio \<Rightarrow> nat set" where "live s = dom (gpio_heap s)"

definition valid_ptr :: "'d gpio \<Rightarrow> nat option \<Rightarrow> bool" where
  "valid_ptr s p \<longleftrightarrow> (\<forall>a. p = Some a \<longrightarrow> a \<in> live s)"

definition gpio_inv :: "'d gpio \<Rightarrow> bool" where
  "gpio_inv s \<longleftrightarrow> ginv (live s) 0 s"

lemma ginv_live: "ginv A k s \<Longrightarrow> live s = A"
  by (simp add: ginv_def live_def)

lemma gpio_destroy_inv:
  assumes "drv_gpio_inst_destroy os p s = (r, s')" "ginv A k s" "\<And>a. p = Some a \<Longrightarrow> a \<in> A"
  shows "r = Ret None \<and> (\<exists>B. ginv B k s')"
  using assms ginv_destroy by (cases p) (auto simp: drv_gpio_inst_destroy_def [of os None] sret_def, blast+)

lemma gpio_create_inv:
  assumes "drv_gpio_inst_create os pin p s = (r, s')" "gpio_inv s" "valid_ptr s p"
  shows "r \<noteq> Fault \<and> gpio_inv s' \<and> (\<forall>out q. r = Ret (out, q) \<longrightarrow> valid_ptr s' q \<and>
    (out = Ret () \<longrightarrow> (\<exists>a i. q = Some a \<and> gpio_heap s' a = Some i \<and> i = gpio_new_inst pin)))"
proof (cases "drv_gpio_pin_enabled s pin")
  case False
  then show ?thesis using assms by (auto simp: drv_gpio_inst_create_def)
next
  case True
  then have range: "0 \<le> pin" "pin < 72" by (auto simp: drv_gpio_pin_enabled_def GPIO_MAX_NUM_def split: if_splits)
  obtain x s1 where f: "fpioa_func_of pin s = (x, s1)" by (metis surj_pair)
  have inv0: "ginv (live s) 0 s" using assms(2) by (simp add: gpio_inv_def)
  note inv1 = ginv_fpioa [OF f inv0]
  have same1: "gpio_inv s1" "valid_ptr s1 p" using inv1 ginv_live [OF conjunct1 [OF inv1]] assms(3)
    by (simp_all add: gpio_inv_def valid_ptr_def)
  show ?thesis
  proof (cases "\<exists>func. x = Ret func \<and> func = nat (int GPIO0 + pin)")
    case False
    then show ?thesis
      using assms(1) True f inv1 same1 by (auto simp: drv_gpio_inst_create_def split: cres.splits if_splits)
  next
    case func: True
    obtain y s2 where o: "drv_gpio_open os s1 = (y, s2)" by (metis surj_pair)
    note inv2 = ginv_open [OF o conjunct1 [OF inv1]]
    show ?thesis
    proof (cases "y = Ret ()")
      case False
      then have "ginv (live s) 0 s2" using inv2 by blast
      then have "gpio_inv s2" "valid_ptr s2 p"
        using ginv_live [of "live s" 0 s2] assms(3) by (simp_all add: gpio_inv_def valid_ptr_def)
      then show ?thesis
        using assms(1) True f func o inv2 False by (auto simp: drv_gpio_inst_create_def split: cres.splits if_splits)
    next
      case opened: True
      obtain z s3 where d: "drv_gpio_inst_destroy os p s2 = (z, s3)" by (metis surj_pair)
      obtain B where B: "z = Ret None" "ginv B (0 + 1) s3"
        using gpio_destroy_inv [OF d, of "live s" "0 + 1"] inv2 opened assms(3) by (auto simp: valid_ptr_def)
      obtain ok s4 where m: "gdev (go_malloc os) s3 = (Ret ok, s4)"
        by (cases "go_malloc os (gpio_dev s3)") (auto simp: gdev_def)
      have inv4: "ginv B (0 + 1) s4" using keepsD [OF keeps_gdev B(2) m] by blast
      show ?thesis
      proof (cases ok)
        case True
        then have s': "r = Ret (Ret (), Some (gpio_next s4))"
            "s' = s4\<lparr>gpio_heap := (gpio_heap s4)(gpio_next s4 \<mapsto> gpio_new_inst pin), gpio_next := gpio_next s4 + 1\<rparr>"
          using assms(1) \<open>drv_gpio_pin_enabled s pin\<close> f func o opened d B m
          by (auto simp: drv_gpio_inst_create_def signore_def sbind_def)
        have "ginv (insert (gpio_next s4) B) 0 s'" using ginv_add [OF inv4 _ range] s' by simp
        moreover from this have "live s' = insert (gpio_next s4) B" by (rule ginv_live)
        ultimately show ?thesis using s' by (simp add: gpio_inv_def valid_ptr_def)
      next
        case False
        then have s': "r = Ret (Fail EGENERIC, None)" "s' = drv_gpio_close os s4"
          using assms(1) \<open>drv_gpio_pin_enabled s pin\<close> f func o opened d B m
          by (auto simp: drv_gpio_inst_create_def signore_def sbind_def)
        have "ginv B 0 s'" using ginv_close [OF inv4] s' by simp
        moreover from this have "live s' = B" by (rule ginv_live)
        ultimately show ?thesis using s' by (simp add: gpio_inv_def valid_ptr_def)
      qed
    qed
  qed
qed

text \<open>Creating an instance into a null pointer: a new live instance, or nothing.\<close>

lemma ginv_create_new:
  assumes "drv_gpio_inst_create os pin None s = (r, s')" and "ginv A 0 s"
  shows "(\<exists>a. r = Ret (Ret (), Some a) \<and> a \<notin> A \<and> ginv (insert a A) 0 s') \<or> (\<exists>e. r = Ret (Fail e, None) \<and> ginv A 0 s')"
proof (cases "drv_gpio_pin_enabled s pin")
  case False
  then show ?thesis using assms by (auto simp: drv_gpio_inst_create_def)
next
  case True
  then have range: "0 \<le> pin" "pin < 72" by (auto simp: drv_gpio_pin_enabled_def GPIO_MAX_NUM_def split: if_splits)
  obtain x s1 where f: "fpioa_func_of pin s = (x, s1)" by (metis surj_pair)
  note inv1 = ginv_fpioa [OF f assms(2)]
  show ?thesis
  proof (cases "\<exists>func. x = Ret func \<and> func = nat (int GPIO0 + pin)")
    case False
    then show ?thesis using assms True f inv1 by (auto simp: drv_gpio_inst_create_def split: cres.splits if_splits)
  next
    case func: True
    obtain y s2 where o: "drv_gpio_open os s1 = (y, s2)" by (metis surj_pair)
    note inv2 = ginv_open [OF o conjunct1 [OF inv1]]
    show ?thesis
    proof (cases "y = Ret ()")
      case False
      then show ?thesis using assms True f func o inv2 by (auto simp: drv_gpio_inst_create_def split: cres.splits if_splits)
    next
      case opened: True
      obtain ok s3 where m: "gdev (go_malloc os) s2 = (Ret ok, s3)"
        by (cases "go_malloc os (gpio_dev s2)") (auto simp: gdev_def)
      have inv3: "ginv A (0 + 1) s3" using keepsD [OF keeps_gdev _ m] inv2 opened by blast
      have run: "(r, s') = (if \<not> ok then (Ret (Fail EGENERIC, None), drv_gpio_close os s3)
          else (Ret (Ret (), Some (gpio_next s3)),
            s3\<lparr>gpio_heap := (gpio_heap s3)(gpio_next s3 \<mapsto> gpio_new_inst pin), gpio_next := gpio_next s3 + 1\<rparr>))"
        using assms(1) True f func o opened m
        by (auto simp: drv_gpio_inst_create_def drv_gpio_inst_destroy_def signore_def sbind_def sret_def)
      have "gpio_next s3 \<notin> A" using inv3 by (auto simp: ginv_def)
      with run ginv_add [OF inv3 _ range] ginv_close [OF inv3] show ?thesis by (cases ok) auto
    qed
  qed
qed

section \<open>Runs\<close>

datatype gpio_op =
    Create int "nat option" | Destroy "nat option" | ModeSet "nat option" u32 | ModeGet "nat option"
  | ValueSet "nat option" u32 | ValueGet "nat option" | Toggle "nat option" | SetIrq "nat option" int
  | RegisterIrq "nat option" u32 int "nat option" "nat option" | UnregisterIrq "nat option"
  | Signal int bool "nat option"

fun op_ptr :: "gpio_op \<Rightarrow> nat option" where
  "op_ptr (Create pin p) = p" | "op_ptr (Destroy p) = p" | "op_ptr (ModeSet p m) = p" | "op_ptr (ModeGet p) = p"
| "op_ptr (ValueSet p v) = p" | "op_ptr (ValueGet p) = p" | "op_ptr (Toggle p) = p" | "op_ptr (SetIrq p e) = p"
| "op_ptr (RegisterIrq p m d c a) = p" | "op_ptr (UnregisterIrq p) = p" | "op_ptr (Signal sig b p) = p"

fun gpio_exec :: "'d gpio_os \<Rightarrow> gpio_op \<Rightarrow> ('d gpio, unit) prog" where
  "gpio_exec os (Create pin p) = signore (drv_gpio_inst_create os pin p)"
| "gpio_exec os (Destroy p) = signore (drv_gpio_inst_destroy os p)"
| "gpio_exec os (ModeSet p m) = drv_gpio_mode_set os p m"
| "gpio_exec os (ModeGet p) = signore (drv_gpio_mode_get os p)"
| "gpio_exec os (ValueSet p v) = drv_gpio_value_set os p v"
| "gpio_exec os (ValueGet p) = signore (drv_gpio_value_get os p)"
| "gpio_exec os (Toggle p) = drv_gpio_toggle os p"
| "gpio_exec os (SetIrq p e) = drv_gpio_set_irq os p e"
| "gpio_exec os (RegisterIrq p m d c a) = drv_gpio_register_irq os p m d c a"
| "gpio_exec os (UnregisterIrq p) = drv_gpio_unregister_irq os p"
| "gpio_exec os (Signal sig b p) = signore (drv_gpio_sig_handler sig b p)"

definition gpio_start :: "fpioa \<Rightarrow> 'd \<Rightarrow> 'd gpio" where
  "gpio_start fp d = \<lparr>gpio_fd = -1, gpio_ref_cnt = 0, gpio_register_cnt = 0, gpio_heap = Map.empty, gpio_next = 0,
     gpio_fpioa = fp, gpio_dev = d\<rparr>"

text \<open>Runs in which every pointer passed is \<open>NULL\<close> or to an instance that has not been destroyed.\<close>

inductive gpio_reach :: "'d gpio_os \<Rightarrow> fpioa \<Rightarrow> 'd \<Rightarrow> 'd gpio \<Rightarrow> bool" for os fp d where
  start: "fp_sized fp \<Longrightarrow> gpio_reach os fp d (gpio_start fp d)"
| step: "gpio_reach os fp d s \<Longrightarrow> valid_ptr s (op_ptr op) \<Longrightarrow> gpio_exec os op s = (r, s') \<Longrightarrow> gpio_reach os fp d s'"

lemma signore_cases: "signore m s = (r, s') \<Longrightarrow> \<exists>x. m s = (x, s') \<and> (r = Fault \<longleftrightarrow> x = Fault)"
  by (auto simp: signore_def split: prod.splits cres.splits)

lemma keeps_exec_other:
  assumes "\<And>a. op_ptr op = Some a \<Longrightarrow> a \<in> A" "\<And>pin p. op \<noteq> Create pin p" "\<And>p. op \<noteq> Destroy p"
  shows "keeps (ginv A k) (gpio_exec os op)"
proof (cases "op_ptr op")
  case None
  then show ?thesis
    using assms(2,3)
    by (cases op) (auto simp: drv_gpio_mode_set_def drv_gpio_mode_get_def drv_gpio_value_set_def drv_gpio_value_get_def
        drv_gpio_toggle_def drv_gpio_set_irq_def drv_gpio_register_irq_def drv_gpio_unregister_irq_def
        intro!: keeps_signore keeps_sfail keeps_sret keeps_sig_handler)
next
  case (Some a)
  with assms show ?thesis
    by (cases op) (auto intro: keeps_signore keeps_mode_set keeps_mode_get keeps_value_set keeps_value_get keeps_toggle
        keeps_set_irq keeps_register keeps_unregister keeps_sig_handler)
qed

lemma exec_inv:
  assumes "gpio_inv s" "valid_ptr s (op_ptr op)" "gpio_exec os op s = (r, s')"
  shows "gpio_inv s' \<and> r \<noteq> Fault"
proof -
  have inv: "ginv (live s) 0 s" using assms(1) by (simp add: gpio_inv_def)
  consider (create) pin p where "op = Create pin p" | (destroy) p where "op = Destroy p"
    | (other) "\<And>pin p. op \<noteq> Create pin p" "\<And>p. op \<noteq> Destroy p" by blast
  then show ?thesis
  proof cases
    case create
    with assms(3) obtain x where "drv_gpio_inst_create os pin p s = (x, s')" "r = Fault \<longleftrightarrow> x = Fault"
      by (auto dest: signore_cases)
    with gpio_create_inv [OF _ assms(1)] assms(2) create show ?thesis by auto
  next
    case destroy
    with assms(3) obtain x where d: "drv_gpio_inst_destroy os p s = (x, s')" "r = Fault \<longleftrightarrow> x = Fault"
      by (auto dest: signore_cases)
    then obtain B where "x = Ret None" "ginv B 0 s'"
      using gpio_destroy_inv [OF d(1) inv] assms(2) destroy by (auto simp: valid_ptr_def)
    with d ginv_live [of B 0 s'] show ?thesis by (simp add: gpio_inv_def)
  next
    case other
    have "keeps (ginv (live s) 0) (gpio_exec os op)"
      by (rule keeps_exec_other) (use assms(2) other in \<open>auto simp: valid_ptr_def\<close>)
    from keepsD [OF this inv assms(3)] ginv_live [of "live s" 0 s'] show ?thesis by (simp add: gpio_inv_def)
  qed
qed

lemma gpio_inv_start: "fp_sized fp \<Longrightarrow> gpio_inv (gpio_start fp d)"
  by (simp add: gpio_inv_def ginv_def live_def gpio_start_def)

lemma gpio_reach_inv: "gpio_reach os fp d s \<Longrightarrow> gpio_inv s"
  by (induction rule: gpio_reach.induct) (auto simp: gpio_inv_start dest: exec_inv)

section \<open>Registering an interrupt\<close>

lemma gdev_cases: "gdev f s = (r, s') \<Longrightarrow> \<exists>x d. f (gpio_dev s) = (x, d) \<and> r = Ret x \<and> s' = s\<lparr>gpio_dev := d\<rparr>"
  by (auto simp: gdev_def split: prod.splits)

lemma upd_inst_cases: "upd_inst a f s = (r, s') \<Longrightarrow> gpio_heap s a = Some i \<Longrightarrow>
    r = Ret () \<and> s' = s\<lparr>gpio_heap := (gpio_heap s)(a \<mapsto> f i)\<rparr>"
  by (auto simp: upd_inst_def with_inst_def smod_def)

lemma gpio_ioctl_Ret: "drv_gpio_ioctl os req s = (Ret v, s') \<Longrightarrow>
    0 \<le> gpio_fd s \<and> (\<exists>d. go_ioctl os req (gpio_dev s) = ((0, v), d) \<and> s' = s\<lparr>gpio_dev := d\<rparr>)"
  by (auto simp: drv_gpio_ioctl_def sbind_Ret_iff sret_def sfail_def split: if_splits dest!: gdev_cases)

lemma unregister_heap:
  "drv_gpio_unregister_irq os (Some a) s = (Ret (), s') \<Longrightarrow> gpio_heap s a = Some i \<Longrightarrow>
    \<exists>j. gpio_heap s' a = Some j \<and> gi_base_ok j = gi_base_ok i \<and> gi_pin j = gi_pin i"
  by (auto simp: drv_gpio_unregister_irq_def with_inst_def sbind_Ret_iff sret_def
      split: if_splits dest!: gpio_ioctl_Ret gdev_cases dest: upd_inst_cases)

text \<open>What a successful registration has done last: the request to the device, then the update.\<close>

lemma register_Ret:
  assumes "drv_gpio_register_irq os (Some a) mode debounce cb args s = (Ret (), s')" "gpio_heap s a = Some i"
  shows "\<exists>d d' v j signo. mode < GPIO_PE_MAX \<and> gi_pin i < 64 \<and>
    go_ioctl os (SET_IRQ (of_int (gi_pin i)) (ucast mode) (of_int (max 10 debounce)) (of_int signo) a) d = ((0, v), d') \<and>
    gpio_dev s' = d' \<and> gpio_heap s' a = Some j \<and> gi_base_ok j = gi_base_ok i \<and> gi_signo j = signo \<and>
    gi_curr_irq_mode j = mode \<and> gi_irq_callback j = cb \<and> gi_irq_args j = args"
proof -
  let ?m = "if gi_curr_irq_mode i \<noteq> GPIO_PE_MAX then drv_gpio_unregister_irq os (Some a) else sret ()"
  obtain s1 n s2 s3 x s4 where range: "mode < GPIO_PE_MAX" "gi_pin i < 64" and 1: "?m s = (Ret (), s1)"
    and n: "n = gpio_register_cnt s1" "s2 = s1\<lparr>gpio_register_cnt := n + 1\<rparr>"
    and 3: "upd_inst a (\<lambda>i. i\<lparr>gi_signo := go_signal_base os + n mod 8\<rparr>) s2 = (Ret (), s3)"
    and 4: "gdev (go_sigaction os (go_signal_base os + n mod 8) True) s3 = (Ret x, s4)" "x \<noteq> -1"
    and 5: "scatch (drv_gpio_ioctl os (SET_IRQ (of_int (gi_pin i)) (ucast mode) (of_int (max 10 debounce))
          (of_int (go_signal_base os + n mod 8)) a))
        (\<lambda>_. upd_inst a (\<lambda>i. i\<lparr>gi_curr_irq_mode := mode, gi_irq_args := args, gi_irq_callback := cb\<rparr>))
        (\<lambda>_. sbind (gdev (go_sigaction os (go_signal_base os + n mod 8) False)) (\<lambda>_. sfail EGENERIC)) s4 = (Ret (), s')"
    using assms
    by (auto simp: drv_gpio_register_irq_def with_inst_def sbind_Ret_iff sget_def smod_def sfail_def Let_def
        GPIO_IRQ_MAX_NUM_def not_le max_def split: if_split_asm)
  obtain j1 where j1: "gpio_heap s1 a = Some j1" "gi_base_ok j1 = gi_base_ok i"
    using 1 assms(2) unregister_heap [of os a s s1 i] by (auto simp: sret_def split: if_splits)
  then have s3: "gpio_heap s3 a = Some (j1\<lparr>gi_signo := go_signal_base os + n mod 8\<rparr>)"
    using upd_inst_cases [OF 3, of j1] n by simp
  obtain d where s4: "s4 = s3\<lparr>gpio_dev := d\<rparr>" using gdev_cases [OF 4(1)] by auto
  from 5 obtain v s5 where 6: "drv_gpio_ioctl os (SET_IRQ (of_int (gi_pin i)) (ucast mode) (of_int (max 10 debounce))
          (of_int (go_signal_base os + n mod 8)) a) s4 = (Ret v, s5)"
    and 7: "upd_inst a (\<lambda>i. i\<lparr>gi_curr_irq_mode := mode, gi_irq_args := args, gi_irq_callback := cb\<rparr>) s5 = (Ret (), s')"
    by (auto elim!: scatch_cases sbind_cases simp: sfail_def sbind_Ret_iff)
  obtain d' where d': "go_ioctl os (SET_IRQ (of_int (gi_pin i)) (ucast mode) (of_int (max 10 debounce))
          (of_int (go_signal_base os + n mod 8)) a) (gpio_dev s4) = ((0, v), d')" "s5 = s4\<lparr>gpio_dev := d'\<rparr>"
    using gpio_ioctl_Ret [OF 6] by auto
  have "gpio_heap s5 a = Some (j1\<lparr>gi_signo := go_signal_base os + n mod 8\<rparr>)" using s3 s4 d' by simp
  from upd_inst_cases [OF 7 this] d' range j1 show ?thesis by fastforce
qed

section \<open>Properties\<close>

text \<open>A device on which every call succeeds: it logs the requests, and every pin reads as high.\<close>

definition sample_gpio_os :: "gpio_req list gpio_os" where
  "sample_gpio_os = \<lparr>go_open = (\<lambda>d. (4, d)), go_close = (\<lambda>fd d. d), go_seek = (\<lambda>off d. (off, d)),
     go_write = (\<lambda>v d. (1, d)), go_read = (\<lambda>d. ((1, 1), d)), go_ioctl = (\<lambda>req d. ((0, 0), d @ [req])),
     go_sigaction = (\<lambda>sig b d. (0, d)), go_malloc = (\<lambda>d. (True, d)), go_signal_base = 44\<rparr>"

definition sample_gpio :: "gpio_req list gpio" where
  "sample_gpio = \<lparr>gpio_fd = 4, gpio_ref_cnt = 1, gpio_register_cnt = 0,
     gpio_heap = [0 \<mapsto> gpio_new_inst 33], gpio_next = 1, gpio_fpioa = sample_fp, gpio_dev = []\<rparr>"

lemmas sample_gpio_run = sample_gpio_def sample_gpio_os_def with_inst_def upd_inst_def drv_gpio_ioctl_def gdev_def
  gpio_new_inst_def sprog_defs

text \<open>C7. In every run, on any device and whatever calls fail, the reference count is the number of live
  instances, the device is open exactly while there is one, and no call faults, provided the
  pointers passed are to live instances or \<open>NULL\<close>.\<close>

theorem gpio_reference_count:
  assumes "gpio_reach os fp d s"
  shows "finite (live s) \<and> gpio_ref_cnt s = int (card (live s)) \<and> (0 \<le> gpio_fd s \<longleftrightarrow> live s \<noteq> {}) \<and>
    (\<forall>op. valid_ptr s (op_ptr op) \<longrightarrow> fst (gpio_exec os op s) \<noteq> Fault)"
proof -
  have inv: "gpio_inv s" by (rule gpio_reach_inv [OF assms])
  have "fst (gpio_exec os op s) \<noteq> Fault" if "valid_ptr s (op_ptr op)" for op
    using exec_inv [OF inv that, of os "fst (gpio_exec os op s)" "snd (gpio_exec os op s)"] by simp
  moreover have "finite (live s)" "gpio_ref_cnt s = int (card (live s))" "gpio_fd s < 0 \<longleftrightarrow> card (live s) = 0"
    using inv by (auto simp: gpio_inv_def ginv_def)
  ultimately show ?thesis by (auto simp: not_less)
qed

theorem gpio_reference_count_witness:
  "gpio_ref_cnt (gpio_start sample_fp ([] :: gpio_req list)) = int (card (live (gpio_start sample_fp ([] :: gpio_req list))))"
  using gpio_reference_count [OF gpio_reach.start, where fp = sample_fp and os = sample_gpio_os and d = "[]"] sample_fp_ready
  by (simp add: fp_ready_def)

text \<open>After a successful registration the device has been given the pin, the edge, a debounce time of
  at least 10 ms (in 16 bits, so a time of 65536 ms or more is cut), the signal and the
  instance, and that signal runs the callback with its argument, as long as the instance lives.\<close>

theorem registered_irq_runs:
  assumes "drv_gpio_register_irq os (Some a) mode debounce (Some cb) args s = (Ret (), s')"
    and "gpio_heap s a = Some i" and "gi_base_ok i"
  shows "\<exists>signo d d' v. go_ioctl os (SET_IRQ (of_int (gi_pin i)) (ucast mode) (of_int (max 10 debounce)) (of_int signo) a) d =
      ((0, v), d') \<and> gpio_dev s' = d' \<and> mode < GPIO_PE_MAX \<and> gi_pin i < 64 \<and>
    (debounce < 65536 \<longrightarrow> uint (of_int (max 10 debounce) :: u16) = max 10 debounce) \<and>
    drv_gpio_sig_handler signo True (Some a) s' = (Ret (Some (cb, args)), s') \<and>
    (\<forall>other. other \<noteq> signo \<longrightarrow> drv_gpio_sig_handler other True (Some a) s' = (Ret None, s'))"
proof -
  obtain d d' v j signo where j: "mode < GPIO_PE_MAX" "gi_pin i < 64"
    "go_ioctl os (SET_IRQ (of_int (gi_pin i)) (ucast mode) (of_int (max 10 debounce)) (of_int signo) a) d = ((0, v), d')"
    "gpio_dev s' = d'" "gpio_heap s' a = Some j" "gi_base_ok j = gi_base_ok i" "gi_signo j = signo"
    "gi_irq_callback j = Some cb" "gi_irq_args j = args"
    using register_Ret [OF assms(1,2)] by blast
  have "debounce < 65536 \<longrightarrow> uint (of_int (max 10 debounce) :: u16) = max 10 debounce"
    by (simp add: uint_word_of_int)
  with j assms(3) show ?thesis
    by (intro exI [of _ signo] exI [of _ d] exI [of _ d'] exI [of _ v]) (auto simp: drv_gpio_sig_handler_def with_inst_def sret_def)
qed

theorem registered_irq_runs_witness:
  "\<exists>signo. drv_gpio_sig_handler signo True (Some 0)
     (snd (drv_gpio_register_irq sample_gpio_os (Some 0) 0 3 (Some 7) None sample_gpio)) =
   (Ret (Some (7, None)), snd (drv_gpio_register_irq sample_gpio_os (Some 0) 0 3 (Some 7) None sample_gpio))"
proof -
  have "drv_gpio_register_irq sample_gpio_os (Some 0) 0 3 (Some 7) None sample_gpio =
      (Ret (), snd (drv_gpio_register_irq sample_gpio_os (Some 0) 0 3 (Some 7) None sample_gpio))"
    by (simp add: drv_gpio_register_irq_def sample_gpio_run GPIO_PE_MAX_def GPIO_IRQ_MAX_NUM_def Let_def)
  from registered_irq_runs [OF this, of "gpio_new_inst 33"] show ?thesis
    by (auto simp: sample_gpio_def gpio_new_inst_def)
qed

text \<open>C35. Destroying an instance does not detach its interrupt: the device is only told to make the pin
  an input, and closed when this was the last instance. The signal that is still attached
  then finds a freed instance.\<close>

theorem destroy_keeps_irq_attached:
  assumes "gpio_inv s" and "a \<in> live s" and "drv_gpio_inst_destroy os (Some a) s = (r, s')"
  shows "r = Ret None \<and> drv_gpio_sig_handler sig True (Some a) s' = (Fault, s') \<and>
    (\<exists>i d1. gpio_heap s a = Some i \<and>
      (d1 = gpio_dev s \<or> d1 = snd (go_ioctl os (SET_MODE (of_int (gi_pin i)) 1) (gpio_dev s))) \<and>
      (gpio_dev s' = d1 \<or> gpio_dev s' = go_close os (gpio_fd s) d1))"
proof -
  have inv: "ginv (live s) 0 s" using assms(1) by (simp add: gpio_inv_def)
  obtain i where i: "gpio_heap s a = Some i" "gi_base_ok i" using ginv_inst [OF inv assms(2)] by blast
  obtain x s1 where m: "signore (drv_gpio_mode_set os (Some a) GPIO_DM_INPUT) s = (x, s1)" by (metis surj_pair)
  have "ginv (live s) 0 s1 \<and> x \<noteq> Fault"
    using keepsD [OF keeps_signore [OF keeps_mode_set [OF assms(2)]] inv m] .
  moreover from this m have x: "x = Ret ()" by (auto simp: signore_def split: prod.splits cres.splits)
  have dev: "(gpio_dev s1 = gpio_dev s \<or> gpio_dev s1 = snd (go_ioctl os (SET_MODE (of_int (gi_pin i)) 1) (gpio_dev s))) \<and>
      gpio_fd s1 = gpio_fd s"
    using m i(1)
    by (auto simp: signore_def drv_gpio_mode_set_def with_inst_def upd_inst_def drv_gpio_ioctl_def gdev_def sprog_defs
        GPIO_DM_INPUT_def split: prod.splits cres.splits if_splits option.splits)
  have s': "s' = drv_gpio_close os s1\<lparr>gpio_heap := (gpio_heap (drv_gpio_close os s1))(a := None)\<rparr>" "r = Ret None"
    using assms(3) i m x by (auto simp: drv_gpio_inst_destroy_def with_inst_def sbind_def smod_def sret_def)
  have "drv_gpio_sig_handler sig True (Some a) s' = (Fault, s')"
    by (simp add: s' drv_gpio_sig_handler_def with_inst_def)
  moreover have "gpio_dev s' = gpio_dev s1 \<or> gpio_dev s' = go_close os (gpio_fd s) (gpio_dev s1)"
    using dev by (auto simp: s' drv_gpio_close_def Let_def)
  ultimately show ?thesis using i(1) dev s'(2) by blast
qed

theorem destroy_keeps_irq_attached_witness:
  "drv_gpio_sig_handler 44 True (Some 0) (snd (drv_gpio_inst_destroy sample_gpio_os (Some 0) sample_gpio)) =
   (Fault, snd (drv_gpio_inst_destroy sample_gpio_os (Some 0) sample_gpio))"
proof -
  have "gpio_inv sample_gpio" "0 \<in> live sample_gpio"
    using sample_fp_ready
    by (auto simp: gpio_inv_def ginv_def live_def sample_gpio_def gpio_new_inst_def fp_ready_def ran_def)
  from destroy_keeps_irq_attached [OF this prod.collapse [symmetric]] show ?thesis by simp
qed

text \<open>A level read from a pin is taken for the level that was last driven: after \<open>value_get\<close> has read
  \<open>v\<close> from an input, making the pin an output and setting \<open>v\<close> succeeds without a write to
  the device.\<close>

theorem value_set_skipped_after_get:
  assumes "drv_gpio_value_get os (Some a) s = (Ret v, s1)" and "v \<noteq> -1"
    and "drv_gpio_mode_set os (Some a) mode s1 = (Ret (), s2)"
  shows "drv_gpio_value_set os (Some a) v s2 = (Ret (), s2)"
proof -
  obtain i where i: "gpio_heap s1 a = Some i" "gi_curr_val i = v" "0 \<le> gpio_fd s1"
    using assms(1,2)
    by (auto simp: drv_gpio_value_get_def with_inst_def sbind_Ret_iff sret_def upd_inst_def smod_def not_less
        split: option.splits if_splits dest!: gdev_cases)
  have "gpio_fd s2 = gpio_fd s1 \<and> (\<exists>j. gpio_heap s2 a = Some j \<and> gi_curr_val j = v)"
    using assms(3) i
    by (auto simp: drv_gpio_mode_set_def with_inst_def sbind_Ret_iff sret_def upd_inst_def smod_def
        split: if_splits dest!: gpio_ioctl_Ret)
  with i(3) show ?thesis by (auto simp: drv_gpio_value_set_def with_inst_def)
qed

theorem value_set_skipped_after_get_witness:
  "drv_gpio_value_set sample_gpio_os (Some 0) 1
     (snd (drv_gpio_mode_set sample_gpio_os (Some 0) 0 (snd (drv_gpio_value_get sample_gpio_os (Some 0) sample_gpio)))) =
   (Ret (), snd (drv_gpio_mode_set sample_gpio_os (Some 0) 0 (snd (drv_gpio_value_get sample_gpio_os (Some 0) sample_gpio))))"
proof -
  let ?s1 = "sample_gpio\<lparr>gpio_heap := [0 \<mapsto> (gpio_new_inst 33)\<lparr>gi_curr_val := 1\<rparr>]\<rparr>"
  have 1: "drv_gpio_value_get sample_gpio_os (Some 0) sample_gpio = (Ret 1, ?s1)"
    by (simp add: drv_gpio_value_get_def sample_gpio_run)
  have 2: "drv_gpio_mode_set sample_gpio_os (Some 0) 0 ?s1 =
      (Ret (), snd (drv_gpio_mode_set sample_gpio_os (Some 0) 0 ?s1))"
    by (simp add: drv_gpio_mode_set_def sample_gpio_run GPIO_DM_MAX_def)
  from value_set_skipped_after_get [OF 1 _ 2] show ?thesis by (simp add: 1)
qed

end
