(* ===== verification/Rvv.thy ===== *)
theory Rvv
  imports C_Loops
begin

text \<open>
  Copying and filling memory with the vector extension (\<open>rtsmart_hal/utils/hal_rvv_ops.c\<close>). The
  instruction \<open>vsetvli\<close> is a parameter: given the number of bytes that remain it gives the number
  that the next vector load or store handles. A pointer is a buffer and an offset into it.
\<close>

section \<open>The loops\<close>

text \<open>
  One turn loads \<open>vl\<close> bytes from the source and stores them. The loop does not return when \<open>vl\<close>
  stays \<open>0\<close>.
\<close>

partial_function (option) rvv_copy_loop ::
    "(u64 \<Rightarrow> u64) \<Rightarrow> bytes \<Rightarrow> bytes \<Rightarrow> nat \<Rightarrow> nat \<Rightarrow> u64 \<Rightarrow> bytes cres option" where
  "rvv_copy_loop vsetvli src dst s d remaining =
     (if remaining > 0 then
        let vl = vsetvli remaining in
        case cbind (rdn src s (unat vl)) (wrn dst d) of
          Ret dst' \<Rightarrow> rvv_copy_loop vsetvli src dst' (s + unat vl) (d + unat vl) (remaining - vl)
        | Fail e \<Rightarrow> Some (Fail e)
        | Fault \<Rightarrow> Some Fault
      else Some (Ret dst))"

partial_function (option) rvv_fill_loop ::
    "(u64 \<Rightarrow> u64) \<Rightarrow> u8 \<Rightarrow> bytes \<Rightarrow> nat \<Rightarrow> u64 \<Rightarrow> bytes cres option" where
  "rvv_fill_loop vsetvli fill dst d remaining =
     (if remaining > 0 then
        let vl = vsetvli remaining in
        case wrn dst d (replicate (unat vl) fill) of
          Ret dst' \<Rightarrow> rvv_fill_loop vsetvli fill dst' (d + unat vl) (remaining - vl)
        | Fail e \<Rightarrow> Some (Fail e)
        | Fault \<Rightarrow> Some Fault
      else Some (Ret dst))"

definition memcpy :: "bytes \<Rightarrow> nat \<Rightarrow> bytes \<Rightarrow> nat \<Rightarrow> nat \<Rightarrow> bytes cres" where
  "memcpy dst d src s n = cbind (rdn src s n) (wrn dst d)"

definition memset :: "bytes \<Rightarrow> nat \<Rightarrow> int \<Rightarrow> nat \<Rightarrow> bytes cres" where
  "memset dst d value n = wrn dst d (replicate n (word_of_int value))"

definition hal_rvv_memcpy :: "(u64 \<Rightarrow> u64) \<Rightarrow> bytes \<Rightarrow> nat \<Rightarrow> bytes \<Rightarrow> nat \<Rightarrow> u64 \<Rightarrow> bytes cres option" where
  "hal_rvv_memcpy vsetvli dst d src s n =
     (if 8 > n then Some (memcpy dst d src s (unat n)) else rvv_copy_loop vsetvli src dst s d n)"

definition hal_rvv_memset :: "(u64 \<Rightarrow> u64) \<Rightarrow> bytes \<Rightarrow> nat \<Rightarrow> int \<Rightarrow> u64 \<Rightarrow> bytes cres option" where
  "hal_rvv_memset vsetvli dst d value n =
     (if 8 > n then Some (memset dst d value (unat n)) else rvv_fill_loop vsetvli (word_of_int value) dst d n)"

section \<open>The loops are one access\<close>

text \<open>
  The rule of the vector extension: a request for at least one element gives at least one and
  no more than were asked for.
\<close>

definition vsetvli_ok :: "(u64 \<Rightarrow> u64) \<Rightarrow> bool" where
  "vsetvli_ok vsetvli \<longleftrightarrow> (\<forall>n. n > 0 \<longrightarrow> vsetvli n > 0 \<and> vsetvli n \<le> n)"

lemma vsetvli_progress:
  assumes "vsetvli_ok f" and "n > 0"
  shows "0 < unat (f n)" "unat (f n) \<le> unat n" "unat (n - f n) = unat n - unat (f n)"
  using assms by (auto simp: vsetvli_ok_def word_less_nat_alt word_le_nat_alt unat_sub)

lemma wrn_split:
  assumes "k \<le> length xs"
  shows "wrn bs d xs = cbind (wrn bs d (take k xs)) (\<lambda>bs'. wrn bs' (d + k) (drop k xs))"
proof (cases "d + length xs \<le> length bs")
  case True
  define p q r where pqr: "p = take d bs" "q = take k (drop d bs)" "r = drop k (drop d bs)"
  have bs: "bs = p @ q @ r" unfolding pqr append_take_drop_id by (rule refl)
  have len: "length p = d" "length q = k" "length xs \<le> k + length r" using True assms by (simp_all add: pqr)
  have "wrn (p @ q @ r) d xs = Ret (p @ (take k xs @ drop k xs) @ drop (length xs - k) r)"
    using len assms by (simp add: wrn_def)
  moreover have "wrn (p @ q @ r) d (take k xs) = Ret (p @ take k xs @ r)"
    using len assms by (simp add: wrn_def min_def)
  moreover have "wrn (p @ take k xs @ r) (d + k) (drop k xs) = Ret (p @ take k xs @ drop k xs @ drop (length xs - k) r)"
    using len assms by (simp add: wrn_def min_def)
  ultimately show ?thesis by (simp add: bs)
next
  case False
  with assms show ?thesis by (auto simp: wrn_def min_def)
qed

lemma cbind_wrn_no_Fail: "wrn bs d xs = Fail e \<longleftrightarrow> False"
  by (simp add: wrn_def)

lemma memcpy_split:
  assumes "k \<le> n"
  shows "memcpy dst d src s n = cbind (memcpy dst d src s k) (\<lambda>dst'. memcpy dst' (d + k) src (s + k) (n - k))"
proof (cases "s + n \<le> length src")
  case True
  with assms have "take k (sub_bytes s n src) = sub_bytes s k src" "drop k (sub_bytes s n src) = sub_bytes (s + k) (n - k) src"
    by (simp_all add: sub_bytes_def min_def drop_take add.commute)
  with True assms show ?thesis
    using wrn_split [of k "sub_bytes s n src" dst d] by (simp add: memcpy_def rdn_def)
next
  case False
  with assms show ?thesis
    by (auto simp: memcpy_def rdn_def cbind_Fault_iff)
      (cases "wrn dst d (sub_bytes s k src)"; simp add: cbind_wrn_no_Fail)
qed

text \<open>
  For at least one byte the loop is one \<open>memcpy\<close>, whatever lengths the instruction picks: it
  returns, with the same buffer, and leaves a buffer exactly where \<open>memcpy\<close> would.
\<close>

lemma copy_loop_memcpy:
  assumes "vsetvli_ok f" and "n > 0"
  shows "rvv_copy_loop f src dst s d n = Some (memcpy dst d src s (unat n))"
  using assms(2)
proof (induction "unat n" arbitrary: n dst s d rule: less_induct)
  case less
  note vl = vsetvli_progress [OF assms(1) less.prems]
  have rest: "rvv_copy_loop f src dst' (s + unat (f n)) (d + unat (f n)) (n - f n) =
      Some (memcpy dst' (d + unat (f n)) src (s + unat (f n)) (unat n - unat (f n)))"
    if "memcpy dst d src s (unat (f n)) = Ret dst'" for dst'
  proof (cases "n - f n > 0")
    case True
    then show ?thesis using less.hyps [of "n - f n"] vl by simp
  next
    case False
    then have stop: "n - f n = 0" "unat n - unat (f n) = 0" using vl(3) by (auto simp: word_gt_0)
    show ?thesis unfolding stop rvv_copy_loop.simps [of f src dst' _ _ 0]
      using that by (auto simp: memcpy_def rdn_def wrn_def sub_bytes_def split: if_splits)
  qed
  show ?case
    unfolding rvv_copy_loop.simps [of f src dst s d n] memcpy_split [OF vl(2), of dst d src s]
    using less.prems rest by (cases "memcpy dst d src s (unat (f n))") (simp_all add: Let_def flip: memcpy_def)
qed

lemma fill_loop_memset:
  assumes "vsetvli_ok f" and "n > 0"
  shows "rvv_fill_loop f v dst d n = Some (wrn dst d (replicate (unat n) v))"
  using assms(2)
proof (induction "unat n" arbitrary: n dst d rule: less_induct)
  case less
  note vl = vsetvli_progress [OF assms(1) less.prems]
  have split: "wrn dst d (replicate (unat n) v) = cbind (wrn dst d (replicate (unat (f n)) v))
      (\<lambda>dst'. wrn dst' (d + unat (f n)) (replicate (unat n - unat (f n)) v))"
    using wrn_split [of "unat (f n)" "replicate (unat n) v" dst d] vl by (simp add: min_def)
  have rest: "rvv_fill_loop f v dst' (d + unat (f n)) (n - f n) =
      Some (wrn dst' (d + unat (f n)) (replicate (unat n - unat (f n)) v))"
    if "wrn dst d (replicate (unat (f n)) v) = Ret dst'" for dst'
  proof (cases "n - f n > 0")
    case True
    then show ?thesis using less.hyps [of "n - f n"] vl by simp
  next
    case False
    then have stop: "n - f n = 0" "unat n - unat (f n) = 0" using vl(3) by (auto simp: word_gt_0)
    show ?thesis unfolding stop rvv_fill_loop.simps [of f v dst' _ 0]
      using that by (auto simp: wrn_def split: if_splits)
  qed
  show ?case
    unfolding rvv_fill_loop.simps [of f v dst d n] split
    using less.prems rest by (cases "wrn dst d (replicate (unat (f n)) v)") (simp_all add: Let_def)
qed

lemma rvv_memcpy_eq: "vsetvli_ok f \<Longrightarrow> hal_rvv_memcpy f dst d src s n = Some (memcpy dst d src s (unat n))"
  by (cases "n = 0") (simp_all add: hal_rvv_memcpy_def copy_loop_memcpy word_gt_0)

section \<open>Properties\<close>

text \<open>C31. The vector routines return and do what \<open>memcpy\<close> and \<open>memset\<close> do, on every buffer, offset and
  length, whatever number of bytes each vector instruction handles; they touch memory outside
  a buffer only where those would.\<close>

theorem rvv_equals_memcpy:
  assumes "vsetvli_ok f"
  shows "hal_rvv_memcpy f dst d src s n = Some (memcpy dst d src s (unat n)) \<and>
    hal_rvv_memset f dst d value n = Some (memset dst d value (unat n))"
  by (cases "n = 0")
    (simp_all add: assms rvv_memcpy_eq hal_rvv_memset_def memset_def fill_loop_memset word_gt_0)

theorem rvv_equals_memcpy_witness:
  "hal_rvv_memcpy (min 4) [0,0,0,0,0,0,0,0,0,0] 1 [1,2,3,4,5,6,7,8,9] 0 9 = Some (Ret [0,1,2,3,4,5,6,7,8,9])"
proof -
  have "vsetvli_ok (min 4)" by (auto simp: vsetvli_ok_def min_def word_gt_0)
  from rvv_equals_memcpy [OF this, of "[0,0,0,0,0,0,0,0,0,0]" 1 "[1,2,3,4,5,6,7,8,9]" 0 9] show ?thesis
    by (simp add: memcpy_def rdn_def wrn_def sub_bytes_def)
qed

end
