(* ===== verification/Gzip_Header.thy ===== *)
theory Gzip_Header
  imports Rvv
begin

unbundle bit_operations_syntax

text \<open>
  The gzip stream as the decompression driver sees it
  (\<open>rtsmart_hal/drivers/gzip_decomp/drv_gzip_decomp.c\<close>): the checks of the header and of the empty
  stream, and the removal of the optional header fields, which the engine does not understand.
\<close>

section \<open>Checks\<close>

definition DRV_GZIP_DECOMP_NODE_SIZE :: u32 where "DRV_GZIP_DECOMP_NODE_SIZE = 128 * 1024"

definition align_node :: "u32 \<Rightarrow> u32" where
  "align_node sz = (sz + DRV_GZIP_DECOMP_NODE_SIZE - 1) AND NOT (DRV_GZIP_DECOMP_NODE_SIZE - 1)"

definition validate_header :: "bytes option \<Rightarrow> u32 \<Rightarrow> unit cres" where
  "validate_header src src_len =
     (case src of None \<Rightarrow> Fail EINVAL
      | Some header \<Rightarrow>
        if src_len < 18 then Fail EINVAL
        else cbind (rd8 header 0) (\<lambda>h0. cbind (rd8 header 1) (\<lambda>h1.
          if h0 \<noteq> 0x1f \<or> h1 \<noteq> 0x8b then Fail EINVAL
          else cbind (rd8 header 2) (\<lambda>h2.
            if h2 \<noteq> 0x09 then Fail ENOTSUP
            else cbind (rd8 header 3) (\<lambda>h3. check (h3 AND 0xe0 = 0) EINVAL)))))"

definition get_le32 :: "bytes \<Rightarrow> nat \<Rightarrow> u32 cres" where
  "get_le32 data off =
     cbind (rd8 data off) (\<lambda>d0. cbind (rd8 data (off + 1)) (\<lambda>d1.
     cbind (rd8 data (off + 2)) (\<lambda>d2. cbind (rd8 data (off + 3)) (\<lambda>d3.
     Ret (ucast d0 OR push_bit 8 (ucast d1) OR push_bit 16 (ucast d2) OR push_bit 24 (ucast d3))))))"

definition empty_tail :: bytes where
  "empty_tail = [0x05, 0xc1, 0x81, 0x00, 0x00, 0x00, 0x00, 0x00,
     0x10, 0xff, 0xd5, 0x08, 0x00, 0x00, 0x00, 0x00,
     0x00, 0x00, 0x00, 0x00]"

definition validate_empty_stream :: "bytes \<Rightarrow> u32 \<Rightarrow> unit cres" where
  "validate_empty_stream stream stream_len =
     (if unat stream_len \<noteq> 10 + length empty_tail then Fail EINVAL
      else cbind (rdn stream 10 (length empty_tail)) (\<lambda>t. check (t = empty_tail) EINVAL))"

section \<open>Removing the optional fields\<close>

lemma unat_u32_less: "unat len < 4294967296" for len :: u32
  using unsigned_less [of len, where ?'a = nat] by simp

lemma unat_Suc_less: "off < len \<Longrightarrow> unat (off + 1) = Suc (unat off)" for off len :: u32
  using unat_u32_less [of len] by (simp add: word_less_nat_alt unat_word_ariths)

text \<open>\<open>while (off < len && buf[off] != 0) off++;\<close> over 32-bit offsets.\<close>

function skip_text :: "bytes \<Rightarrow> u32 \<Rightarrow> u32 \<Rightarrow> u32 cres" where
  "skip_text buf len off =
     (if off < len then
        cbind (rd8 buf (unat off)) (\<lambda>b. if b \<noteq> 0 then skip_text buf len (off + 1) else Ret off)
      else Ret off)"
  by pat_completeness auto

termination
  by (relation "measure (\<lambda>(buf, len, off). unat len - unat off)")
    (auto simp: unat_Suc_less word_less_nat_alt)

declare skip_text.simps [simp del]

text \<open>A string field: its text and the \<open>0\<close> that ends it. \<open>None\<close> is the \<open>return 0\<close> of the code.\<close>

definition strip_text :: "bytes \<Rightarrow> u32 \<Rightarrow> u32 \<Rightarrow> u32 option cres" where
  "strip_text buf len off =
     cbind (skip_text buf len off) (\<lambda>off. Ret (if off = len then None else Some (off + 1)))"

definition strip_extra :: "bytes \<Rightarrow> u32 \<Rightarrow> u32 \<Rightarrow> u32 option cres" where
  "strip_extra buf len off =
     (if len - off < 2 then Ret None
      else cbind (rd8 buf (unat off)) (\<lambda>b0. cbind (rd8 buf (unat (off + 1))) (\<lambda>b1.
        let xlen = ucast b0 OR push_bit 8 (ucast b1) in
        let off = off + 2 in
        Ret (if xlen > len - off then None else Some (off + xlen)))))"

definition strip_hcrc :: "u32 \<Rightarrow> u32 \<Rightarrow> u32 option cres" where
  "strip_hcrc len off = Ret (if len - off < 2 then None else Some (off + 2))"

text \<open>One optional field: looked at when its flag is set, and the end of the header when it is bad.\<close>

definition strip_field :: "bool \<Rightarrow> (u32 \<Rightarrow> u32 option cres) \<Rightarrow> u32 option \<Rightarrow> u32 option cres" where
  "strip_field c f off = (case off of None \<Rightarrow> Ret None | Some off \<Rightarrow> if c then f off else Ret (Some off))"

text \<open>The new length of the stream (\<open>0\<close> when the header is malformed) and the buffer.\<close>

definition strip_header_extras :: "bytes \<Rightarrow> u32 \<Rightarrow> (bytes \<times> u32) cres" where
  "strip_header_extras buf len =
     cbind (rd8 buf 3) (\<lambda>flg.
     if flg = 0 then Ret (buf, len)
     else
       cbind (strip_field (flg AND 0x04 \<noteq> 0) (strip_extra buf len) (Some 10)) (\<lambda>off.
       cbind (strip_field (flg AND 0x08 \<noteq> 0) (strip_text buf len) off) (\<lambda>off.
       cbind (strip_field (flg AND 0x10 \<noteq> 0) (strip_text buf len) off) (\<lambda>off.
       cbind (strip_field (flg AND 0x02 \<noteq> 0) (strip_hcrc len) off) (\<lambda>off.
       case off of None \<Rightarrow> Ret (buf, 0)
       | Some off \<Rightarrow>
         if len - off < 8 then Ret (buf, 0)
         else
           cbind (wr8 buf 3 0) (\<lambda>buf.
           cbind (memcpy buf 10 buf (unat off) (unat (len - off))) (\<lambda>buf.
           Ret (buf, 10 + (len - off)))))))))"

section \<open>The contract of an optional field\<close>

text \<open>
  \<open>strip\<close> moves an offset past a field of the header. Over the bytes \<open>enc x\<close> of a well-formed field
  it moves by their length, and on any buffer it stays between its offset and the length.
\<close>

locale header_field =
  fixes strip :: "bytes \<Rightarrow> u32 \<Rightarrow> u32 \<Rightarrow> u32 option cres" and enc :: "bytes \<Rightarrow> bytes" and wf :: "bytes \<Rightarrow> bool"
  assumes strip_enc: "wf x \<Longrightarrow> unat off = length pre \<Longrightarrow> length pre + length (enc x) < unat len \<Longrightarrow>
      unat len \<le> length (pre @ enc x @ post) \<Longrightarrow>
      strip (pre @ enc x @ post) len off = Ret (Some (off + of_nat (length (enc x))))"
    and strip_bounds: "off \<le> len \<Longrightarrow> unat len \<le> length buf \<Longrightarrow>
      \<exists>r. strip buf len off = Ret r \<and> (\<forall>off'. r = Some off' \<longrightarrow> off \<le> off' \<and> off' \<le> len)"
begin

definition enc_opt :: "bytes option \<Rightarrow> bytes" where
  "enc_opt x = (case x of None \<Rightarrow> [] | Some y \<Rightarrow> enc y)"

lemma field_enc:
  assumes "\<forall>y. x = Some y \<longrightarrow> wf y" and "unat off = length pre" and "length pre + length (enc_opt x) < unat len"
    and "unat len \<le> length (pre @ enc_opt x @ post)"
  shows "strip_field (x \<noteq> None) (strip (pre @ enc_opt x @ post) len) (Some off) =
      Ret (Some (off + of_nat (length (enc_opt x))))"
    and "unat (off + of_nat (length (enc_opt x))) = length (pre @ enc_opt x)"
proof -
  show "strip_field (x \<noteq> None) (strip (pre @ enc_opt x @ post) len) (Some off) =
      Ret (Some (off + of_nat (length (enc_opt x))))"
    using assms strip_enc [of _ off pre len post] by (cases x) (simp_all add: strip_field_def enc_opt_def)
  show "unat (off + of_nat (length (enc_opt x))) = length (pre @ enc_opt x)"
    using assms(2,3) unat_u32_less [of len] by (simp add: unat_word_ariths unat_of_nat)
qed

lemma field_bounds:
  assumes "\<forall>off. o1 = Some off \<longrightarrow> lo \<le> off \<and> off \<le> len" and "unat len \<le> length buf"
  shows "\<exists>o2. strip_field c (strip buf len) o1 = Ret o2 \<and> (\<forall>off. o2 = Some off \<longrightarrow> lo \<le> off \<and> off \<le> len)"
  using assms strip_bounds [of "the o1" len buf] by (cases o1) (fastforce simp: strip_field_def)+

end

definition enc_extra :: "bytes \<Rightarrow> bytes" where "enc_extra x = to_le 2 (of_nat (length x) :: u16) @ x"
definition enc_text :: "bytes \<Rightarrow> bytes" where "enc_text t = t @ [0]"

lemma unat_sub_le: "b \<le> a \<Longrightarrow> unat (a - b) = unat a - unat b" for a b :: u32
  by (simp add: unat_sub word_le_nat_alt)

lemma unat_add_le: "unat a + unat b \<le> unat c \<Longrightarrow> unat (a + b) = unat a + unat b" for a b c :: u32
  using unat_u32_less [of c] by (simp add: unat_word_ariths)

lemma skip_text_bounds:
  "off \<le> len \<Longrightarrow> unat len \<le> length buf \<Longrightarrow> \<exists>r. skip_text buf len off = Ret r \<and> off \<le> r \<and> r \<le> len"
proof (induction buf len off rule: skip_text.induct)
  case (1 buf len off)
  show ?case
  proof (cases "off < len")
    case False
    with 1 show ?thesis by (simp add: skip_text.simps)
  next
    case True
    then have "rd8 buf (unat off) = Ret (buf ! unat off)" "off + 1 \<le> len" "off \<le> off + 1"
      using 1 unat_Suc_less [OF True] by (simp_all add: rd8_def word_less_nat_alt word_le_nat_alt)
    with 1 True show ?thesis
      by (cases "buf ! unat off = 0") (fastforce simp: skip_text.simps [of buf len off])+
  qed
qed

lemma skip_text_text:
  "\<forall>b \<in> set t. b \<noteq> 0 \<Longrightarrow> unat off = length pre \<Longrightarrow> length pre + length t < unat len \<Longrightarrow>
    skip_text (pre @ t @ 0 # post) len off = Ret (off + of_nat (length t))"
proof (induction t arbitrary: pre off)
  case Nil
  then show ?case by (simp add: skip_text.simps rd8_def word_less_nat_alt)
next
  case (Cons b t)
  then have less: "off < len" by (simp add: word_less_nat_alt)
  have "skip_text ((pre @ [b]) @ t @ 0 # post) len (off + 1) = Ret (off + 1 + of_nat (length t))"
    by (rule Cons.IH) (use Cons.prems less in \<open>simp_all add: unat_Suc_less\<close>)
  with Cons.prems less show ?case
    by (simp add: skip_text.simps [of "pre @ b # t @ 0 # post"] rd8_def algebra_simps)
qed

interpretation extra: header_field strip_extra enc_extra "\<lambda>x. length x < 65536"
proof unfold_locales
  fix x pre post :: bytes and off len :: u32
  assume wf: "length x < 65536" and off: "unat off = length pre" and fits: "length pre + length (enc_extra x) < unat len"
    "unat len \<le> length (pre @ enc_extra x @ post)"
  let ?buf = "pre @ enc_extra x @ post" and ?n = "of_nat (length x) :: u16"
  have lt: "unat off + 2 + length x < unat len" using fits off by (simp add: enc_extra_def)
  then have le: "off + 2 \<le> len" "off \<le> len" and o2: "unat (off + 2) = unat off + 2" "unat (off + 1) = unat off + 1"
    using unat_u32_less [of len] by (simp_all add: word_le_nat_alt unat_word_ariths)
  have n: "ucast (ucast ?n :: u8) OR push_bit 8 (ucast (ucast (drop_bit 8 ?n) :: u8)) = (of_nat (length x) :: u32)"
  proof -
    have "ucast (ucast ?n :: u8) OR push_bit 8 (ucast (ucast (drop_bit 8 ?n) :: u8)) = (ucast ?n :: u32)"
      by (rule bit_word_eqI) (auto simp: bit_simps)
    also have "\<dots> = of_nat (length x)"
      using wf by (simp add: word_eq_iff_unsigned unsigned_of_nat take_bit_nat_eq_self unsigned_ucast_eq)
    finally show ?thesis .
  qed
  have rd: "rd8 ?buf (unat off) = Ret (ucast ?n)" "rd8 ?buf (unat (off + 1)) = Ret (ucast (drop_bit 8 ?n))"
    using off o2 by (simp_all add: rd8_def enc_extra_def numeral_2_eq_2 nth_append)
  have "\<not> len - off < 2" "\<not> of_nat (length x) > len - (off + 2)"
    using lt wf le o2 by (simp_all add: word_less_nat_alt unat_sub_le unat_of_nat)
  then show "strip_extra ?buf len off = Ret (Some (off + of_nat (length (enc_extra x))))"
    by (simp add: strip_extra_def rd n Let_def) (simp add: enc_extra_def)
next
  fix off len :: u32 and buf :: bytes
  assume le: "off \<le> len" and buf: "unat len \<le> length buf"
  show "\<exists>r. strip_extra buf len off = Ret r \<and> (\<forall>off'. r = Some off' \<longrightarrow> off \<le> off' \<and> off' \<le> len)"
  proof (cases "len - off < 2")
    case True
    then show ?thesis by (simp add: strip_extra_def)
  next
    case False
    then have lt: "unat off + 2 \<le> unat len" using le by (simp add: word_less_nat_alt unat_sub_le word_le_nat_alt)
    then have o: "unat (off + 2) = unat off + 2" "unat (off + 1) = unat off + 1"
      using unat_u32_less [of len] by (simp_all add: unat_word_ariths)
    have rd: "rd8 buf (unat off) = Ret (buf ! unat off)" "rd8 buf (unat (off + 1)) = Ret (buf ! (unat off + 1))"
      using lt buf o by (simp_all add: rd8_def)
    have "off \<le> off + 2 + xlen \<and> off + 2 + xlen \<le> len" if "\<not> xlen > len - (off + 2)" for xlen
      using that lt o unat_u32_less [of len] unat_add_le [of "off + 2" xlen len]
      by (simp add: word_less_nat_alt word_le_nat_alt unat_sub_le)
    with False show ?thesis by (auto simp: strip_extra_def rd Let_def)
  qed
qed

interpretation gtext: header_field strip_text enc_text "\<lambda>t. \<forall>b \<in> set t. b \<noteq> 0"
proof unfold_locales
  fix t pre post :: bytes and off len :: u32
  assume a: "\<forall>b \<in> set t. b \<noteq> 0" "unat off = length pre" "length pre + length (enc_text t) < unat len"
  have "off + of_nat (length t) \<noteq> len"
    using a(2,3) unat_u32_less [of len] by (auto simp: enc_text_def unat_word_ariths unat_of_nat)
  with a show "strip_text (pre @ enc_text t @ post) len off = Ret (Some (off + of_nat (length (enc_text t))))"
    using skip_text_text [of t off pre len post] by (simp add: strip_text_def enc_text_def algebra_simps)
next
  fix off len :: u32 and buf :: bytes
  assume "off \<le> len" "unat len \<le> length buf"
  from skip_text_bounds [OF this] obtain r where r: "skip_text buf len off = Ret r" "off \<le> r" "r \<le> len" by blast
  then have "off \<le> r + 1 \<and> r + 1 \<le> len" if "r \<noteq> len"
    using that unat_Suc_less [of r len] by (simp add: word_le_nat_alt word_less_nat_alt word_unat_eq_iff)
  with r show "\<exists>r. strip_text buf len off = Ret r \<and> (\<forall>off'. r = Some off' \<longrightarrow> off \<le> off' \<and> off' \<le> len)"
    by (simp add: strip_text_def)
qed

interpretation hcrc: header_field "\<lambda>buf. strip_hcrc" "\<lambda>x. x" "\<lambda>x. length x = 2"
proof unfold_locales
  fix x pre post :: bytes and off len :: u32
  assume a: "length x = 2" "unat off = length pre" "length pre + length x < unat len"
  then have "\<not> len - off < 2" by (simp add: word_less_nat_alt unat_sub_le word_le_nat_alt)
  with a show "strip_hcrc len off = Ret (Some (off + of_nat (length x)))" by (simp add: strip_hcrc_def)
next
  fix off len :: u32 and buf :: bytes
  assume le: "off \<le> len"
  have "off \<le> off + 2 \<and> off + 2 \<le> len" if "\<not> len - off < 2"
    using that le unat_add_le [of off 2 len] by (simp add: word_less_nat_alt word_le_nat_alt unat_sub_le)
  then show "\<exists>r. strip_hcrc len off = Ret r \<and> (\<forall>off'. r = Some off' \<longrightarrow> off \<le> off' \<and> off' \<le> len)"
    by (simp add: strip_hcrc_def)
qed

section \<open>Headers with optional fields\<close>

record gz_fields =
  gf_text :: bool
  gf_extra :: "bytes option"
  gf_name :: "bytes option"
  gf_comment :: "bytes option"
  gf_hcrc :: "bytes option"

definition gz_flags :: "gz_fields \<Rightarrow> u8" where
  "gz_flags f = (if gf_text f then 0x01 else 0) OR (if gf_hcrc f \<noteq> None then 0x02 else 0) OR
     (if gf_extra f \<noteq> None then 0x04 else 0) OR (if gf_name f \<noteq> None then 0x08 else 0) OR
     (if gf_comment f \<noteq> None then 0x10 else 0)"

definition gz_extras :: "gz_fields \<Rightarrow> bytes" where
  "gz_extras f = extra.enc_opt (gf_extra f) @ gtext.enc_opt (gf_name f) @ gtext.enc_opt (gf_comment f) @
     hcrc.enc_opt (gf_hcrc f)"

definition gz_fields_ok :: "gz_fields \<Rightarrow> bool" where
  "gz_fields_ok f \<longleftrightarrow> (\<forall>x. gf_extra f = Some x \<longrightarrow> length x < 65536) \<and>
     (\<forall>t. gf_name f = Some t \<longrightarrow> (\<forall>b \<in> set t. b \<noteq> 0)) \<and> (\<forall>t. gf_comment f = Some t \<longrightarrow> (\<forall>b \<in> set t. b \<noteq> 0)) \<and>
     (\<forall>c. gf_hcrc f = Some c \<longrightarrow> length c = 2)"

lemma gz_flags_tests:
  "gz_flags f AND 0x02 \<noteq> 0 \<longleftrightarrow> gf_hcrc f \<noteq> None" "gz_flags f AND 0x04 \<noteq> 0 \<longleftrightarrow> gf_extra f \<noteq> None"
  "gz_flags f AND 0x08 \<noteq> 0 \<longleftrightarrow> gf_name f \<noteq> None" "gz_flags f AND 0x10 \<noteq> 0 \<longleftrightarrow> gf_comment f \<noteq> None"
  "gz_flags f AND 0xe0 = 0"
  by (simp_all add: gz_flags_def)

lemma gz_flags_0: "gz_flags f = 0 \<Longrightarrow> gz_extras f = []"
  using gz_flags_tests [of f]
  by (simp add: gz_extras_def extra.enc_opt_def gtext.enc_opt_def hcrc.enc_opt_def)

text \<open>The four fields one after the other, over a header of ten bytes.\<close>

lemma strip_fields:
  fixes len :: u32
  assumes "gz_fields_ok f" and "length pre = 10"
    and "length pre + length (gz_extras f) < unat len" and "unat len \<le> length buf" and "buf = pre @ gz_extras f @ post"
  shows "cbind (strip_field (gz_flags f AND 0x04 \<noteq> 0) (strip_extra buf len) (Some 10)) (\<lambda>off.
    cbind (strip_field (gz_flags f AND 0x08 \<noteq> 0) (strip_text buf len) off) (\<lambda>off.
    cbind (strip_field (gz_flags f AND 0x10 \<noteq> 0) (strip_text buf len) off) (\<lambda>off.
    strip_field (gz_flags f AND 0x02 \<noteq> 0) (strip_hcrc len) off))) = Ret (Some (10 + of_nat (length (gz_extras f))))"
proof -
  define e n c h where fs: "e = extra.enc_opt (gf_extra f)" "n = gtext.enc_opt (gf_name f)"
    "c = gtext.enc_opt (gf_comment f)" "h = hcrc.enc_opt (gf_hcrc f)"
  have buf: "buf = pre @ e @ (n @ c @ h @ post)" "buf = (pre @ e) @ n @ (c @ h @ post)"
    "buf = (pre @ e @ n) @ c @ (h @ post)" "buf = (pre @ e @ n @ c) @ h @ post"
    using assms(5) by (simp_all add: gz_extras_def fs)
  have fit: "length pre + length e + length n + length c + length h < unat len"
    "unat len \<le> length pre + length e + length n + length c + length h + length post"
    using assms(3,4) unfolding assms(5) by (simp_all add: gz_extras_def fs)
  note ok = assms(1) [unfolded gz_fields_ok_def] and pre = assms(2)
  let ?o1 = "10 + of_nat (length e) :: u32" and ?o2 = "10 + of_nat (length e) + of_nat (length n) :: u32"
  let ?o3 = "10 + of_nat (length e) + of_nat (length n) + of_nat (length c) :: u32"
  have 1: "strip_field (gf_extra f \<noteq> None) (strip_extra buf len) (Some 10) = Ret (Some ?o1)" "unat ?o1 = length (pre @ e)"
    using extra.field_enc [of "gf_extra f" 10 pre len "n @ c @ h @ post"] ok pre fit
    unfolding buf(1) by (simp_all flip: fs)
  have 2: "strip_field (gf_name f \<noteq> None) (strip_text buf len) (Some ?o1) = Ret (Some ?o2)" "unat ?o2 = length (pre @ e @ n)"
    using gtext.field_enc [of "gf_name f" ?o1 "pre @ e" len "c @ h @ post"] 1(2) ok pre fit
    unfolding buf(2) by (simp_all flip: fs)
  have 3: "strip_field (gf_comment f \<noteq> None) (strip_text buf len) (Some ?o2) = Ret (Some ?o3)" "unat ?o3 = length (pre @ e @ n @ c)"
    using gtext.field_enc [of "gf_comment f" ?o2 "pre @ e @ n" len "h @ post"] 2(2) ok pre fit
    unfolding buf(3) by (simp_all flip: fs)
  have 4: "strip_field (gf_hcrc f \<noteq> None) (strip_hcrc len) (Some ?o3) = Ret (Some (?o3 + of_nat (length h)))"
    using hcrc.field_enc [of "gf_hcrc f" ?o3 "pre @ e @ n @ c" len post] 3(2) ok pre fit
    unfolding buf(4) by (simp_all flip: fs)
  have "(10 + of_nat (length (gz_extras f)) :: u32) = ?o3 + of_nat (length h)"
    by (simp add: gz_extras_def flip: fs)
  with 1(1) 2(1) 3(1) 4 show ?thesis by (simp only: gz_flags_tests cbind.simps)
qed

lemma length_memcpy: "memcpy dst d src s n = Ret dst' \<Longrightarrow> length dst' = length dst"
  by (auto simp: memcpy_def cbind_Ret_iff dest: length_wrn)

lemma strip_fields_bounds:
  assumes "10 \<le> len" and "unat len \<le> length buf"
  shows "\<exists>o4. cbind (strip_field c1 (strip_extra buf len) (Some 10)) (\<lambda>off.
    cbind (strip_field c2 (strip_text buf len) off) (\<lambda>off.
    cbind (strip_field c3 (strip_text buf len) off) (\<lambda>off.
    strip_field c4 (strip_hcrc len) off))) = Ret o4 \<and> (\<forall>off. o4 = Some off \<longrightarrow> 10 \<le> off \<and> off \<le> len)"
proof -
  have "\<forall>off. Some (10 :: u32) = Some off \<longrightarrow> 10 \<le> off \<and> off \<le> len" using assms(1) by simp
  note 1 = extra.field_bounds [OF this assms(2), of c1]
  then obtain o1 where "strip_field c1 (strip_extra buf len) (Some 10) = Ret o1" "\<forall>off. o1 = Some off \<longrightarrow> 10 \<le> off \<and> off \<le> len" by blast
  moreover from gtext.field_bounds [OF this(2) assms(2), of c2] obtain o2
    where "strip_field c2 (strip_text buf len) o1 = Ret o2" "\<forall>off. o2 = Some off \<longrightarrow> 10 \<le> off \<and> off \<le> len" by blast
  moreover from gtext.field_bounds [OF this(2) assms(2), of c3] obtain o3
    where "strip_field c3 (strip_text buf len) o2 = Ret o3" "\<forall>off. o3 = Some off \<longrightarrow> 10 \<le> off \<and> off \<le> len" by blast
  moreover from hcrc.field_bounds [OF this(2) assms(2), of c4] obtain o4
    where "strip_field c4 (strip_hcrc len) o3 = Ret o4" "\<forall>off. o4 = Some off \<longrightarrow> 10 \<le> off \<and> off \<le> len" by blast
  ultimately show ?thesis by simp
qed

text \<open>The four fields as one step of the function.\<close>

lemma strip_header_extras_alt: "strip_header_extras buf len =
    cbind (rd8 buf 3) (\<lambda>flg. if flg = 0 then Ret (buf, len) else
      cbind (cbind (strip_field (flg AND 0x04 \<noteq> 0) (strip_extra buf len) (Some 10)) (\<lambda>off.
        cbind (strip_field (flg AND 0x08 \<noteq> 0) (strip_text buf len) off) (\<lambda>off.
        cbind (strip_field (flg AND 0x10 \<noteq> 0) (strip_text buf len) off) (\<lambda>off.
        strip_field (flg AND 0x02 \<noteq> 0) (strip_hcrc len) off))))
      (\<lambda>off. case off of None \<Rightarrow> Ret (buf, 0)
        | Some off \<Rightarrow> if len - off < 8 then Ret (buf, 0)
            else cbind (wr8 buf 3 0) (\<lambda>buf. cbind (memcpy buf 10 buf (unat off) (unat (len - off))) (\<lambda>buf.
              Ret (buf, 10 + (len - off))))))"
  by (simp add: strip_header_extras_def cbind_assoc cong: if_cong)

lemma strip_header_bounds:
  assumes "10 \<le> len" and "unat len \<le> length buf"
  shows "\<exists>buf' n. strip_header_extras buf len = Ret (buf', n) \<and> length buf' = length buf \<and> n \<le> len \<and> (n = 0 \<or> 10 \<le> n)"
proof (cases "buf ! 3 = 0")
  case True
  with assms show ?thesis by (simp add: strip_header_extras_alt rd8_def word_le_nat_alt)
next
  case False
  have rd: "rd8 buf 3 = Ret (buf ! 3)" "wr8 buf 3 0 = Ret (buf[3 := 0])"
    using assms by (simp_all add: rd8_def wr8_def word_le_nat_alt)
  obtain o4 where o4: "cbind (strip_field (buf ! 3 AND 0x04 \<noteq> 0) (strip_extra buf len) (Some 10)) (\<lambda>off.
        cbind (strip_field (buf ! 3 AND 0x08 \<noteq> 0) (strip_text buf len) off) (\<lambda>off.
        cbind (strip_field (buf ! 3 AND 0x10 \<noteq> 0) (strip_text buf len) off) (\<lambda>off.
        strip_field (buf ! 3 AND 0x02 \<noteq> 0) (strip_hcrc len) off))) = Ret o4"
    and le: "\<forall>off. o4 = Some off \<longrightarrow> 10 \<le> off \<and> off \<le> len"
    using strip_fields_bounds [OF assms, of "buf ! 3 AND 0x04 \<noteq> 0" "buf ! 3 AND 0x08 \<noteq> 0" "buf ! 3 AND 0x10 \<noteq> 0" "buf ! 3 AND 0x02 \<noteq> 0"]
    by blast
  show ?thesis
  proof (cases "\<exists>off. o4 = Some off \<and> \<not> len - off < 8")
    case False
    then show ?thesis using \<open>buf ! 3 \<noteq> 0\<close> by (auto simp: strip_header_extras_alt rd o4 split: option.split)
  next
    case True
    then obtain off where off: "o4 = Some off" "\<not> len - off < 8" "10 \<le> off" "off \<le> len" using le by blast
    then have n: "unat (len - off) = unat len - unat off" "10 \<le> unat off" "unat off \<le> unat len"
      by (simp_all add: unat_sub_le word_le_nat_alt)
    then have "10 + unat (len - off) \<le> unat len" by arith
    then have "unat (10 + (len - off)) = 10 + unat (len - off)" using unat_add_le [of 10 "len - off" len] by simp
    then have "10 + (len - off) \<le> len \<and> 10 \<le> 10 + (len - off)"
      using \<open>10 + unat (len - off) \<le> unat len\<close> by (simp add: word_le_nat_alt)
    moreover have "\<exists>b. memcpy (buf[3 := 0]) 10 (buf[3 := 0]) (unat off) (unat len - unat off) = Ret b \<and> length b = length buf"
      using n assms(2) by (simp add: memcpy_def rdn_def wrn_def)
    ultimately show ?thesis using off(1,2) \<open>buf ! 3 \<noteq> 0\<close> n(1) by (auto simp: strip_header_extras_alt rd o4)
  qed
qed

lemma strip_header_enc:
  assumes "gz_fields_ok f" and "length mid = 6" and "8 \<le> length body"
    and stream: "stream = a # b # c # gz_flags f # mid @ gz_extras f @ body" and "length stream < 2 ^ 32"
  shows "strip_header_extras (stream @ rest) (of_nat (length stream)) =
    Ret (a # b # c # 0 # mid @ body @ drop (10 + length body) (stream @ rest), of_nat (10 + length body))"
proof (cases "gz_flags f = 0")
  case True
  with gz_flags_0 [OF True] assms(2) show ?thesis
    unfolding stream by (simp add: strip_header_extras_alt rd8_def drop_Cons')
next
  case False
  let ?pre = "a # b # c # gz_flags f # mid" and ?buf = "stream @ rest" and ?len = "of_nat (length stream) :: u32"
  let ?off = "10 + of_nat (length (gz_extras f)) :: u32"
  have l: "length stream = 10 + length (gz_extras f) + length body" using assms(2) by (simp add: stream)
  have len: "unat ?len = 10 + length (gz_extras f) + length body"
    unfolding l [symmetric] using assms(5) by (simp add: unat_of_nat)
  have off: "unat ?off = 10 + length (gz_extras f)" using l assms(5) by (simp add: unat_word_ariths unat_of_nat)
  have le: "?off \<le> ?len" unfolding word_le_nat_alt len off by simp
  have body: "unat (?len - ?off) = length body" unfolding unat_sub_le [OF le] len off by simp
  have sum: "10 + (?len - ?off) = of_nat (10 + length body)" by (simp add: l)
  have flg: "rd8 ?buf 3 = Ret (gz_flags f)" "wr8 ?buf 3 0 = Ret (a # b # c # 0 # mid @ gz_extras f @ body @ rest)"
    by (simp_all add: stream rd8_def wr8_def)
  have copy: "memcpy (a # b # c # 0 # mid @ gz_extras f @ body @ rest) 10 (a # b # c # 0 # mid @ gz_extras f @ body @ rest)
      (10 + length (gz_extras f)) (length body) = Ret (a # b # c # 0 # mid @ body @ drop (10 + length body) ?buf)"
    using assms(2) by (simp add: memcpy_def rdn_def wrn_def sub_bytes_def stream drop_Cons')
  have ge: "\<not> ?len - ?off < 8" using body assms(3) by (simp add: word_less_nat_alt)
  have "10 + length (gz_extras f) < unat ?len" "unat ?len \<le> length ?buf" unfolding len using l assms(3) by auto
  with strip_fields [of f ?pre ?len ?buf "body @ rest"] assms(1,2) stream
  have fields: "cbind (strip_field (gz_flags f AND 0x04 \<noteq> 0) (strip_extra ?buf ?len) (Some 10)) (\<lambda>off.
    cbind (strip_field (gz_flags f AND 0x08 \<noteq> 0) (strip_text ?buf ?len) off) (\<lambda>off.
    cbind (strip_field (gz_flags f AND 0x10 \<noteq> 0) (strip_text ?buf ?len) off) (\<lambda>off.
    strip_field (gz_flags f AND 0x02 \<noteq> 0) (strip_hcrc ?len) off))) = Ret (Some ?off)" by simp
  show ?thesis
    unfolding strip_header_extras_alt flg(1) cbind.simps if_not_P [OF False] fields option.case if_not_P [OF ge]
      flg(2) body off copy sum ..
qed

section \<open>Properties\<close>

text \<open>C32. From a header with any optional fields, exactly these fields are removed: the ten fixed bytes, with
  the flags cleared, are followed by the rest of the stream, and the new length is theirs.\<close>

theorem optional_fields_removed:
  assumes "gz_fields_ok f" and "length mid = 6" and "8 \<le> length body"
    and "stream = a # b # c # gz_flags f # mid @ gz_extras f @ body" and "length stream < 2 ^ 32"
  shows "\<exists>behind. strip_header_extras (stream @ rest) (of_nat (length stream)) =
    Ret (a # b # c # 0 # mid @ body @ behind, of_nat (10 + length body)) \<and>
    length behind = length (gz_extras f) + length rest"
  using strip_header_enc [OF assms, of rest] assms(2,4) by simp

theorem optional_fields_removed_witness:
  "\<exists>behind. strip_header_extras ([1, 2, 3, 0x0a, 0, 0, 0, 0, 0, 0, 97, 98, 0, 5, 6] @ [1, 2, 3, 4, 5, 6, 7, 8] @ [9]) 23 =
    Ret ([1, 2, 3, 0, 0, 0, 0, 0, 0, 0] @ [1, 2, 3, 4, 5, 6, 7, 8] @ behind, 18)"
proof -
  let ?f = "\<lparr>gf_text = False, gf_extra = None, gf_name = Some [97, 98], gf_comment = None, gf_hcrc = Some [5, 6]\<rparr>"
  have "gz_flags ?f = 0x0a" by (simp add: gz_flags_def)
  moreover have "gz_extras ?f = [97, 98, 0, 5, 6]"
    by (simp add: gz_extras_def extra.enc_opt_def gtext.enc_opt_def hcrc.enc_opt_def enc_text_def)
  moreover note optional_fields_removed [of ?f "[0, 0, 0, 0, 0, 0]" "[1, 2, 3, 4, 5, 6, 7, 8]" _ 1 2 3 "[9]", OF _ _ _ refl]
  ultimately show ?thesis by (auto simp: gz_fields_ok_def)
qed

end
