(* ===== verification/Gzip.thy ===== *)
theory Gzip
  imports Gzip_Header
begin

unbundle bit_operations_syntax

text \<open>
  The driver of the decompression engine (\<open>rtsmart_hal/drivers/gzip_decomp/drv_gzip_decomp.c\<close>): instances
  on the heap, each with a source and a destination buffer in the media memory zone. A buffer is named
  by its physical address and has two contents, what the processor sees through the cache and what the
  engine sees in memory; flushing and invalidating the cache copy one to the other. The device, the
  allocators and the vector unit are a parameter.
\<close>

section \<open>State\<close>

record mmz_buf =
  mb_cpu :: bytes
  mb_mem :: bytes

record rt_gzip_decomp_args =
  ga_src_phys :: u64
  ga_src_len :: u32
  ga_dst_phys :: u64
  ga_dst_len :: u32
  ga_timeout_ms :: int

text \<open>
  \<open>gz_open\<close> gives the descriptor and \<open>errno\<close>; \<open>gz_alloc\<close> sees the live buffers and gives an address and the
  initial content; \<open>gz_ioctl\<close> sees the memory and gives the bytes the engine stores at the destination.
\<close>

record 'd gz_os =
  gz_calloc :: "'d \<Rightarrow> bool \<times> 'd"
  gz_open :: "'d \<Rightarrow> (int \<times> errno) \<times> 'd"
  gz_close :: "int \<Rightarrow> 'd \<Rightarrow> 'd"
  gz_alloc :: "(u64 \<Rightarrow> mmz_buf option) \<Rightarrow> u32 \<Rightarrow> 'd \<Rightarrow> (errno + u64 \<times> (nat \<Rightarrow> u8)) \<times> 'd"
  gz_ioctl :: "int \<Rightarrow> rt_gzip_decomp_args \<Rightarrow> (u64 \<Rightarrow> bytes option) \<Rightarrow> 'd \<Rightarrow> (errno option \<times> bytes) \<times> 'd"
  gz_vsetvli :: "u64 \<Rightarrow> u64"

record drv_gzip_decomp_inst =
  gz_fd :: int
  gz_src_phy :: u64
  gz_src_virt :: "u64 option"
  gz_src_alloc :: u32
  gz_dst_phy :: u64
  gz_dst_virt :: "u64 option"
  gz_dst_alloc :: u32

record 'd gz =
  gz_insts :: "nat \<Rightarrow> drv_gzip_decomp_inst option"
  gz_next :: nat
  gz_mmz :: "u64 \<Rightarrow> mmz_buf option"
  gz_dev :: 'd


section \<open>Calls of the system\<close>


definition mmz_alloc :: "'d gz_os \<Rightarrow> u32 \<Rightarrow> ('d gz, u64) prog" where
  "mmz_alloc os n s =
     (case gz_alloc os (gz_mmz s) n (gz_dev s) of
        (Inl e, d) \<Rightarrow> (Fail e, s\<lparr>gz_dev := d\<rparr>)
      | (Inr (p, fill), d) \<Rightarrow>
          (let c = map fill [0..<unat n] in
           (Ret p, s\<lparr>gz_dev := d, gz_mmz := (gz_mmz s)(p \<mapsto> \<lparr>mb_cpu = c, mb_mem = c\<rparr>)\<rparr>)))"

text \<open>Releasing a buffer that is not live is a fault.\<close>

definition mmz_free :: "u64 \<Rightarrow> ('d gz, unit) prog" where
  "mmz_free p s = (if gz_mmz s p = None then (Fault, s) else (Ret (), s\<lparr>gz_mmz := (gz_mmz s)(p := None)\<rparr>))"

text \<open>Work of the processor on the bytes behind a pointer.\<close>

definition cpu_run :: "u64 option \<Rightarrow> (bytes \<Rightarrow> ('a \<times> bytes) cres option) \<Rightarrow> ('d gz, 'a) oprog" where
  "cpu_run virt f s =
     (case virt of None \<Rightarrow> Some (Fault, s)
      | Some p \<Rightarrow> (case gz_mmz s p of None \<Rightarrow> Some (Fault, s)
        | Some b \<Rightarrow> (case f (mb_cpu b) of None \<Rightarrow> None
          | Some (Ret (a, c)) \<Rightarrow> Some (Ret a, s\<lparr>gz_mmz := (gz_mmz s)(p \<mapsto> b\<lparr>mb_cpu := c\<rparr>)\<rparr>)
          | Some (Fail e) \<Rightarrow> Some (Fail e, s) | Some Fault \<Rightarrow> Some (Fault, s))))"

text \<open>The cache: the first \<open>n\<close> bytes of a buffer go to memory, or come from there.\<close>

definition mmz_copy :: "(mmz_buf \<Rightarrow> mmz_buf cres) \<Rightarrow> u64 \<Rightarrow> ('d gz, unit) prog" where
  "mmz_copy f p s =
     (case gz_mmz s p of None \<Rightarrow> (Fault, s)
      | Some b \<Rightarrow> (case f b of Ret b' \<Rightarrow> (Ret (), s\<lparr>gz_mmz := (gz_mmz s)(p \<mapsto> b')\<rparr>) | _ \<Rightarrow> (Fault, s)))"

definition flush_cache :: "u64 \<Rightarrow> u32 \<Rightarrow> ('d gz, unit) prog" where
  "flush_cache p n = mmz_copy (\<lambda>b. cbind (memcpy (mb_mem b) 0 (mb_cpu b) 0 (unat n)) (\<lambda>m. Ret (b\<lparr>mb_mem := m\<rparr>))) p"

definition invalidate_cache :: "u64 \<Rightarrow> u32 \<Rightarrow> ('d gz, unit) prog" where
  "invalidate_cache p n = mmz_copy (\<lambda>b. cbind (memcpy (mb_cpu b) 0 (mb_mem b) 0 (unat n)) (\<lambda>c. Ret (b\<lparr>mb_cpu := c\<rparr>))) p"

text \<open>
  The request to the engine. It reads whole nodes of the source and stores its output at the
  destination; an access beyond the end of a buffer is a fault.
\<close>

definition gz_request :: "'d gz_os \<Rightarrow> int \<Rightarrow> rt_gzip_decomp_args \<Rightarrow> ('d gz, unit) prog" where
  "gz_request os fd args s =
     (let ((r, out), d) = gz_ioctl os fd args (\<lambda>p. map_option mb_mem (gz_mmz s p)) (gz_dev s);
          s1 = s\<lparr>gz_dev := d\<rparr>;
          res = (case r of None \<Rightarrow> Ret () | Some e \<Rightarrow> Fail e)
      in if \<exists>b. gz_mmz s (ga_src_phys args) = Some b \<and> length (mb_mem b) < unat (align_node (ga_src_len args)) then (Fault, s1)
         else case gz_mmz s (ga_dst_phys args) of None \<Rightarrow> (res, s1)
           | Some b \<Rightarrow> (case wrn (mb_mem b) 0 out of
               Ret m \<Rightarrow> (res, s1\<lparr>gz_mmz := (gz_mmz s)(ga_dst_phys args \<mapsto> b\<lparr>mb_mem := m\<rparr>)\<rparr>)
             | _ \<Rightarrow> (Fault, s1)))"

section \<open>Buffers of an instance\<close>

text \<open>The three fields of a buffer are passed as pointers and come back as the result.\<close>

definition resize_buffer :: "'d gz_os \<Rightarrow> u64 \<times> u64 option \<times> u32 \<Rightarrow> u32 \<Rightarrow> ('d gz, u64 \<times> u64 option \<times> u32) prog" where
  "resize_buffer os buf sz =
     (case buf of (phy_addr, virt_addr, alloc_size) \<Rightarrow>
        if sz = 0 then sfail EINVAL
        else if virt_addr \<noteq> None \<and> alloc_size = sz then sret buf
        else sbind (mmz_alloc os sz) (\<lambda>new_phy.
             sbind (if virt_addr \<noteq> None then mmz_free phy_addr else sret ()) (\<lambda>_.
             sret (new_phy, Some new_phy, sz))))"


text \<open>The instance behind a pointer; a freed one is a fault.\<close>

definition zinst :: "nat \<Rightarrow> ('d gz, drv_gzip_decomp_inst) prog" where
  "zinst a s = (case gz_insts s a of None \<Rightarrow> (Fault, s) | Some h \<Rightarrow> (Ret h, s))"


text \<open>\<open>inst == NULL || inst->fd < 0\<close>, then the rest with the instance.\<close>

definition valid_inst :: "nat option \<Rightarrow> ('d gz, nat \<times> drv_gzip_decomp_inst) prog" where
  "valid_inst inst =
     (case inst of None \<Rightarrow> sfail EINVAL
      | Some a \<Rightarrow> sbind (zinst a) (\<lambda>h. if gz_fd h < 0 then sfail EINVAL else sret (a, h)))"

definition drv_gzip_decomp_set_src_alloc_size :: "'d gz_os \<Rightarrow> nat option \<Rightarrow> u32 \<Rightarrow> ('d gz, unit) prog" where
  "drv_gzip_decomp_set_src_alloc_size os inst sz =
     sbind (valid_inst inst) (\<lambda>(a, h).
     sbind (resize_buffer os (gz_src_phy h, gz_src_virt h, gz_src_alloc h) sz) (\<lambda>(p, v, n).
     smod (\<lambda>s. s\<lparr>gz_insts := (gz_insts s)(a \<mapsto> h\<lparr>gz_src_phy := p, gz_src_virt := v, gz_src_alloc := n\<rparr>)\<rparr>)))"

definition drv_gzip_decomp_set_dst_alloc_size :: "'d gz_os \<Rightarrow> nat option \<Rightarrow> u32 \<Rightarrow> ('d gz, unit) prog" where
  "drv_gzip_decomp_set_dst_alloc_size os inst sz =
     sbind (valid_inst inst) (\<lambda>(a, h).
     sbind (resize_buffer os (gz_dst_phy h, gz_dst_virt h, gz_dst_alloc h) sz) (\<lambda>(p, v, n).
     smod (\<lambda>s. s\<lparr>gz_insts := (gz_insts s)(a \<mapsto> h\<lparr>gz_dst_phy := p, gz_dst_virt := v, gz_dst_alloc := n\<rparr>)\<rparr>)))"

definition drv_gzip_decomp_get_src_alloc_size :: "nat option \<Rightarrow> ('d gz, u32) prog" where
  "drv_gzip_decomp_get_src_alloc_size inst =
     (case inst of None \<Rightarrow> sret 0 | Some a \<Rightarrow> sbind (zinst a) (\<lambda>h. sret (gz_src_alloc h)))"

definition drv_gzip_decomp_get_dst_alloc_size :: "nat option \<Rightarrow> ('d gz, u32) prog" where
  "drv_gzip_decomp_get_dst_alloc_size inst =
     (case inst of None \<Rightarrow> sret 0 | Some a \<Rightarrow> sbind (zinst a) (\<lambda>h. sret (gz_dst_alloc h)))"

section \<open>Decompressing\<close>

definition drv_gzip_decomp_gunzip_phys ::
    "'d gz_os \<Rightarrow> nat option \<Rightarrow> u64 \<Rightarrow> u32 \<Rightarrow> u64 \<Rightarrow> u32 \<Rightarrow> int \<Rightarrow> ('d gz, unit) prog" where
  "drv_gzip_decomp_gunzip_phys os inst src_phys src_len dst_phys dst_len timeout_ms =
     sbind (valid_inst inst) (\<lambda>(a, h).
       gz_request os (gz_fd h) \<lparr>ga_src_phys = src_phys, ga_src_len = src_len, ga_dst_phys = dst_phys,
         ga_dst_len = dst_len, ga_timeout_ms = timeout_ms\<rparr>)"

text \<open>
  The source buffer is cleared, filled, marked as plain deflate, stripped of the optional fields and
  cleared behind the stream. The result is the new length, \<open>0\<close> for a malformed header.
\<close>

definition stage_source :: "(u64 \<Rightarrow> u64) \<Rightarrow> bytes \<Rightarrow> u32 \<Rightarrow> u32 \<Rightarrow> bytes \<Rightarrow> (u32 \<times> bytes) cres option" where
  "stage_source vsetvli src src_len src_dma_size buf =
     (case memset buf 0 0 (unat src_dma_size) of
        Ret buf \<Rightarrow>
          (case hal_rvv_memcpy vsetvli buf 0 src 0 (ucast src_len) of
             None \<Rightarrow> None
           | Some r \<Rightarrow> Some (cbind r (\<lambda>hdr. cbind (wr8 hdr 2 0x08) (\<lambda>hdr.
               cbind (strip_header_extras hdr src_len) (\<lambda>(hdr, src_len).
               if src_len = 0 then Ret (0, hdr)
               else cbind (memset hdr (unat src_len) 0 (unat (src_dma_size - src_len))) (\<lambda>hdr. Ret (src_len, hdr)))))))
      | Fail e \<Rightarrow> Some (Fail e) | Fault \<Rightarrow> Some Fault)"

text \<open>Once both buffers are large enough: the request, between a flush and an invalidation of the cache.\<close>

definition gunzip_engine ::
    "'d gz_os \<Rightarrow> nat option \<Rightarrow> drv_gzip_decomp_inst \<Rightarrow> u32 \<Rightarrow> u32 \<Rightarrow> bytes option \<Rightarrow> u32 \<Rightarrow> int \<Rightarrow> ('d gz, bytes option) oprog" where
  "gunzip_engine os inst h src_len src_dma_size dst dst_len timeout_ms =
     obind (orun (flush_cache (gz_src_phy h) src_dma_size)) (\<lambda>_.
     obind (orun (drv_gzip_decomp_gunzip_phys os inst (gz_src_phy h) src_len (gz_dst_phy h) dst_len timeout_ms)) (\<lambda>_.
     obind (orun (invalidate_cache (gz_dst_phy h) dst_len)) (\<lambda>_.
     cpu_run (gz_dst_virt h) (\<lambda>c.
       case hal_rvv_memcpy (gz_vsetvli os) (the dst) 0 c 0 (ucast dst_len) of
         None \<Rightarrow> None | Some r \<Rightarrow> Some (cbind r (\<lambda>out. Ret (Some out, c)))))))"

text \<open>Once the source is staged: an empty stream is checked in software, the destination is made large enough.\<close>

definition gunzip_staged ::
    "'d gz_os \<Rightarrow> nat option \<Rightarrow> nat \<Rightarrow> drv_gzip_decomp_inst \<Rightarrow> u32 \<Rightarrow> u32 \<Rightarrow> bytes option \<Rightarrow> u32 \<Rightarrow> int \<Rightarrow>
      ('d gz, bytes option) oprog" where
  "gunzip_staged os inst a h src_len src_dma_size dst dst_len timeout_ms =
     (if src_len = 0 then orun (sfail EINVAL)
      else if dst_len = 0 then
        cpu_run (gz_src_virt h) (\<lambda>hdr. Some (cbind (validate_empty_stream hdr src_len) (\<lambda>_. Ret (dst, hdr))))
      else
        let dst_dma_size = align_node dst_len in
        if dst_dma_size < dst_len then orun (sfail EOVERFLOW)
        else
          obind (orun (if dst_dma_size > gz_dst_alloc h then drv_gzip_decomp_set_dst_alloc_size os inst dst_dma_size else sret ())) (\<lambda>_.
          obind (orun (zinst a)) (\<lambda>h. gunzip_engine os inst h src_len src_dma_size dst dst_len timeout_ms)))"

text \<open>The caller's output buffer is given with its content and comes back as the result.\<close>

definition drv_gzip_decomp_gunzip ::
    "'d gz_os \<Rightarrow> nat option \<Rightarrow> bytes option \<Rightarrow> u32 \<Rightarrow> bytes option \<Rightarrow> u32 \<Rightarrow> int \<Rightarrow> ('d gz, bytes option) oprog" where
  "drv_gzip_decomp_gunzip os inst src src_len dst dst_len timeout_ms =
     obind (orun (valid_inst inst)) (\<lambda>(a, h).
     obind (orun (slift (validate_header src src_len))) (\<lambda>_.
     obind (orun (slift (get_le32 (the src) (unat (src_len - 4))))) (\<lambda>isize.
     if isize \<noteq> dst_len then orun (sfail EINVAL)
     else if dst_len \<noteq> 0 \<and> dst = None then orun (sfail EINVAL)
     else
       let src_dma_size = align_node src_len in
       if src_dma_size < src_len then orun (sfail EOVERFLOW)
       else
         obind (orun (if src_dma_size > gz_src_alloc h then drv_gzip_decomp_set_src_alloc_size os inst src_dma_size else sret ())) (\<lambda>_.
         obind (orun (zinst a)) (\<lambda>h.
         obind (cpu_run (gz_src_virt h) (stage_source (gz_vsetvli os) (the src) src_len src_dma_size)) (\<lambda>src_len.
         gunzip_staged os inst a h src_len src_dma_size dst dst_len timeout_ms))))))"

section \<open>The invariant\<close>

text \<open>
  What the driver relies on: an allocation gives an address that is not in use, and the engine stores
  at most the whole nodes of the announced output.
\<close>

definition gz_os_ok :: "'d gz_os \<Rightarrow> bool" where
  "gz_os_ok os \<longleftrightarrow> vsetvli_ok (gz_vsetvli os) \<and>
     (\<forall>m n d p fill d'. gz_alloc os m n d = (Inr (p, fill), d') \<longrightarrow> m p = None) \<and>
     (\<forall>fd args mem d r out d'. gz_ioctl os fd args mem d = ((r, out), d') \<longrightarrow>
        length out \<le> unat (align_node (ga_dst_len args)))"

text \<open>The two buffers of an instance: the source for \<open>True\<close>, the destination for \<open>False\<close>.\<close>

definition slot :: "bool \<Rightarrow> drv_gzip_decomp_inst \<Rightarrow> u64 \<times> u64 option \<times> u32" where
  "slot k h = (if k then (gz_src_phy h, gz_src_virt h, gz_src_alloc h) else (gz_dst_phy h, gz_dst_virt h, gz_dst_alloc h))"

definition set_slot :: "bool \<Rightarrow> u64 \<times> u64 option \<times> u32 \<Rightarrow> drv_gzip_decomp_inst \<Rightarrow> drv_gzip_decomp_inst" where
  "set_slot k b h = (case b of (p, v, n) \<Rightarrow>
     if k then h\<lparr>gz_src_phy := p, gz_src_virt := v, gz_src_alloc := n\<rparr>
     else h\<lparr>gz_dst_phy := p, gz_dst_virt := v, gz_dst_alloc := n\<rparr>)"

definition buf_ok :: "mmz_buf option \<Rightarrow> u32 \<Rightarrow> bool" where
  "buf_ok b n \<longleftrightarrow> (case b of None \<Rightarrow> False | Some b \<Rightarrow> length (mb_cpu b) = unat n \<and> length (mb_mem b) = unat n)"

text \<open>The address that an instance owns.\<close>

definition own :: "(nat \<Rightarrow> drv_gzip_decomp_inst option) \<Rightarrow> nat \<times> bool \<Rightarrow> u64 option" where
  "own insts x = map_option (\<lambda>h. fst (slot (snd x) h)) (insts (fst x))"

definition insts_ok :: "(nat \<Rightarrow> drv_gzip_decomp_inst option) \<Rightarrow> nat \<Rightarrow> (u64 \<Rightarrow> mmz_buf option) \<Rightarrow> bool" where
  "insts_ok insts n m \<longleftrightarrow> (\<forall>a h k. insts a = Some h \<longrightarrow> a < n \<and> 0 \<le> gz_fd h \<and>
     (\<exists>p sz. slot k h = (p, Some p, sz) \<and> buf_ok (m p) sz))"

text \<open>
  Every live buffer is owned by exactly one instance, in one role, and has the size the instance
  records; \<open>X\<close> are the buffers of an instance that is being opened.
\<close>

definition gz_inv :: "u64 set \<Rightarrow> 'd gz \<Rightarrow> bool" where
  "gz_inv X s \<longleftrightarrow> insts_ok (gz_insts s) (gz_next s) (gz_mmz s) \<and>
     inj_on (own (gz_insts s)) (dom (own (gz_insts s))) \<and>
     dom (gz_mmz s) = ran (own (gz_insts s)) \<union> X \<and> ran (own (gz_insts s)) \<inter> X = {}"

lemma insts_ok_mono:
  "insts_ok insts n m \<Longrightarrow> (\<And>p sz. buf_ok (m p) sz \<Longrightarrow> buf_ok (m' p) sz) \<Longrightarrow> n \<le> n' \<Longrightarrow> insts_ok insts n' m'"
  unfolding insts_ok_def by (meson order_less_le_trans)

lemma slot_set_slot [simp]: "slot k (set_slot k b h) = b" "slot (\<not> k) (set_slot k b h) = slot (\<not> k) h"
  "gz_fd (set_slot k b h) = gz_fd h"
  by (auto simp: slot_def set_slot_def split: prod.splits)

lemma gz_inv_dev [simp]: "gz_inv X (s\<lparr>gz_dev := d\<rparr>) = gz_inv X s"
  by (simp add: gz_inv_def)

lemma gz_inv_inst:
  assumes "gz_inv X s" and "gz_insts s a = Some h"
  obtains p n b where "slot k h = (p, Some p, n)" "gz_mmz s p = Some b" "length (mb_cpu b) = unat n"
    "length (mb_mem b) = unat n" "own (gz_insts s) (a, k) = Some p" "0 \<le> gz_fd h" "a < gz_next s"
proof -
  from assms obtain p n where "slot k h = (p, Some p, n)" "buf_ok (gz_mmz s p) n" "0 \<le> gz_fd h" "a < gz_next s"
    unfolding gz_inv_def insts_ok_def by blast
  with assms(2) show ?thesis
    by (intro that [of p n "the (gz_mmz s p)"]) (auto simp: buf_ok_def own_def split: option.splits)
qed

lemma gz_inv_upd:
  assumes "gz_inv X s" and "gz_mmz s p = Some b" and "length (mb_cpu b') = length (mb_cpu b)"
    and "length (mb_mem b') = length (mb_mem b)"
  shows "gz_inv X (s\<lparr>gz_mmz := (gz_mmz s)(p \<mapsto> b')\<rparr>)"
proof -
  have "buf_ok (((gz_mmz s)(p \<mapsto> b')) q) n" if "buf_ok (gz_mmz s q) n" for q n
    using that assms(2-) by (auto simp: buf_ok_def)
  moreover have "insts_ok (gz_insts s) (gz_next s) (gz_mmz s)" using assms(1) by (simp add: gz_inv_def)
  ultimately have "insts_ok (gz_insts s) (gz_next s) ((gz_mmz s)(p \<mapsto> b'))"
    using insts_ok_mono [of "gz_insts s" "gz_next s" "gz_mmz s"] by blast
  moreover have "dom ((gz_mmz s)(p \<mapsto> b')) = dom (gz_mmz s)" using assms(2) by auto
  ultimately show ?thesis using assms(1) by (simp add: gz_inv_def)
qed

text \<open>A new buffer is put in the place of an old one, which is released.\<close>

lemma gz_inv_replace:
  assumes inv: "gz_inv X s" and h: "gz_insts s a = Some h" and slot: "slot k h = (p, v, n)"
    and q: "gz_mmz s q = None" and b: "length (mb_cpu b) = unat n'" "length (mb_mem b) = unat n'"
  shows "gz_inv X (s\<lparr>gz_mmz := (gz_mmz s)(q \<mapsto> b, p := None), gz_insts := (gz_insts s)(a \<mapsto> set_slot k (q, Some q, n') h)\<rparr>)"
    (is "gz_inv X ?s")
proof -
  let ?own = "own (gz_insts s)" and ?m = "(gz_mmz s)(q \<mapsto> b, p := None)"
  have own: "own ((gz_insts s)(a \<mapsto> set_slot k (q, Some q, n') h)) = ?own((a, k) \<mapsto> q)"
  proof (rule ext)
    fix x
    show "own ((gz_insts s)(a \<mapsto> set_slot k (q, Some q, n') h)) x = (?own((a, k) \<mapsto> q)) x"
      using h by (cases x; cases "snd x"; cases k) (auto simp: own_def slot_def set_slot_def)
  qed
  have pk: "?own (a, k) = Some p" using h slot by (simp add: own_def)
  have dom: "dom (gz_mmz s) = ran ?own \<union> X" "ran ?own \<inter> X = {}" and inj: "inj_on ?own (dom ?own)"
    using inv by (simp_all add: gz_inv_def)
  have q': "q \<notin> ran ?own" "q \<notin> X" using q dom by auto
  have neq: "q \<noteq> p" using pk q' by (auto simp: ran_def)
  note ran = ran_inj_upd [OF inj pk q'(1)]
  have p: "p \<in> ran ?own" using pk by (auto simp: ran_def)
  have "dom ?m = ran (?own((a, k) \<mapsto> q)) \<union> X" "ran (?own((a, k) \<mapsto> q)) \<inter> X = {}"
    unfolding ran(1) using dom q' neq p by auto
  moreover have "\<exists>p' n''. slot k' h' = (p', Some p', n'') \<and> buf_ok (?m p') n''"
    if h': "((gz_insts s)(a \<mapsto> set_slot k (q, Some q, n') h)) a' = Some h'" for a' h' k'
  proof (cases "a' = a \<and> k' = k")
    case True
    with h' b neq show ?thesis by (auto simp: buf_ok_def)
  next
    case False
    then obtain h0 where h0: "gz_insts s a' = Some h0" "slot k' h' = slot k' h0"
      using h' h by (cases "a' = a"; cases k; cases k') (auto split: if_splits simp: slot_def set_slot_def)
    obtain p' n'' b' where "slot k' h0 = (p', Some p', n'')" "gz_mmz s p' = Some b'" "length (mb_cpu b') = unat n''"
      "length (mb_mem b') = unat n''" "?own (a', k') = Some p'" by (rule gz_inv_inst [OF inv h0(1)])
    moreover have "?own (a', k') \<noteq> Some p" using inj_onD [OF inj, of "(a', k')" "(a, k)"] pk False by auto
    ultimately show ?thesis using h0(2) q by (auto simp: buf_ok_def)
  qed
  moreover have "a' < gz_next s \<and> 0 \<le> gz_fd h'"
    if "((gz_insts s)(a \<mapsto> set_slot k (q, Some q, n') h)) a' = Some h'" for a' h'
    using that inv h by (fastforce simp: gz_inv_def insts_ok_def split: if_splits)
  ultimately show ?thesis using ran(2) unfolding gz_inv_def insts_ok_def by (simp add: own)
qed

section \<open>Resizing keeps the invariant\<close>

definition set_alloc :: "'d gz_os \<Rightarrow> bool \<Rightarrow> nat option \<Rightarrow> u32 \<Rightarrow> ('d gz, unit) prog" where
  "set_alloc os k inst sz = sbind (valid_inst inst) (\<lambda>(a, h). sbind (resize_buffer os (slot k h) sz) (\<lambda>(p, v, n).
     smod (\<lambda>s. s\<lparr>gz_insts := (gz_insts s)(a \<mapsto> set_slot k (p, v, n) h)\<rparr>)))"

lemma set_alloc_cases:
  "drv_gzip_decomp_set_src_alloc_size os inst sz = set_alloc os True inst sz"
  "drv_gzip_decomp_set_dst_alloc_size os inst sz = set_alloc os False inst sz"
  by (simp_all add: drv_gzip_decomp_set_src_alloc_size_def drv_gzip_decomp_set_dst_alloc_size_def set_alloc_def
      slot_def set_slot_def)

lemma mmz_alloc_cases:
  assumes "gz_os_ok os" and "mmz_alloc os n s = (r, s')"
  obtains (fail) e d where "r = Fail e" "s' = s\<lparr>gz_dev := d\<rparr>"
  | (ok) q d fill where "r = Ret q" "gz_mmz s q = None"
      "s' = s\<lparr>gz_dev := d, gz_mmz := (gz_mmz s)(q \<mapsto> \<lparr>mb_cpu = map fill [0..<unat n], mb_mem = map fill [0..<unat n]\<rparr>)\<rparr>"
proof -
  obtain x d where x: "gz_alloc os (gz_mmz s) n (gz_dev s) = (x, d)" by (metis surj_pair)
  show ?thesis
  proof (cases x)
    case (Inl e)
    show ?thesis by (rule fail [of e d]) (use assms(2) x Inl in \<open>simp_all add: mmz_alloc_def\<close>)
  next
    case (Inr y)
    obtain q fill where y: "y = (q, fill)" by (metis surj_pair)
    have "gz_mmz s q = None" using assms(1) x Inr y unfolding gz_os_ok_def by blast
    then show ?thesis
      by (rule ok [of q fill d, rotated]) (use assms(2) x Inr y in \<open>simp_all add: mmz_alloc_def Let_def\<close>)
  qed
qed

lemma valid_inst_live: "gz_inv X s \<Longrightarrow> gz_insts s a = Some h \<Longrightarrow> valid_inst (Some a) s = (Ret (a, h), s)"
  by (rule gz_inv_inst [of X s a h True])
    (auto simp: valid_inst_def zinst_def sbind_def sret_def)

lemma set_slot_slot [simp]: "set_slot k (slot k h) h = h"
  by (simp add: set_slot_def slot_def)

lemma set_alloc_inv:
  assumes os: "gz_os_ok os" and inv: "gz_inv X s" and h: "gz_insts s a = Some h"
    and run: "set_alloc os k (Some a) sz s = (r, s')"
  shows "gz_inv X s' \<and> r \<noteq> Fault \<and>
    (\<exists>h'. gz_insts s' = (gz_insts s)(a \<mapsto> h') \<and> slot (\<not> k) h' = slot (\<not> k) h \<and> gz_fd h' = gz_fd h \<and>
      (r = Ret () \<longrightarrow> snd (snd (slot k h')) = sz)) \<and>
    (\<forall>p b. gz_mmz s p = Some b \<longrightarrow> p \<noteq> fst (slot k h) \<longrightarrow> gz_mmz s' p = Some b)"
proof -
  obtain p n b where sl: "slot k h = (p, Some p, n)" "gz_mmz s p = Some b" by (rule gz_inv_inst [OF inv h])
  have run': "sbind (resize_buffer os (p, Some p, n) sz) (\<lambda>(p, v, n).
      smod (\<lambda>s. s\<lparr>gz_insts := (gz_insts s)(a \<mapsto> set_slot k (p, v, n) h)\<rparr>)) s = (r, s')"
    using run sl(1) by (simp add: set_alloc_def sbind_eq [where m = "valid_inst (Some a)", OF valid_inst_live [OF inv h]])
  have same: "(gz_insts s)(a \<mapsto> h) = gz_insts s" "set_slot k (p, Some p, n) h = h"
    using h set_slot_slot [of k h] sl(1) by auto
  consider "sz = 0" | "sz \<noteq> 0" "n = sz" | "sz \<noteq> 0" "n \<noteq> sz" by blast
  then show ?thesis
  proof cases
    case 1
    with run' inv h same(1) show ?thesis by (auto simp: resize_buffer_def sbind_def sfail_def intro!: exI [of _ h])
  next
    case 2
    with run' sl(1) have "r = Ret () \<and> s' = s"
      using same 2 by (simp add: resize_buffer_def sbind_def sret_def smod_def)
    with inv same(1) sl 2 show ?thesis by (auto intro!: exI [of _ h])
  next
    case 3
    obtain x s1 where m: "mmz_alloc os sz s = (x, s1)" by (metis surj_pair)
    from os m show ?thesis
    proof (cases rule: mmz_alloc_cases)
      case (fail e d)
      with run' m 3 have "r = Fail e \<and> s' = s\<lparr>gz_dev := d\<rparr>" by (simp add: resize_buffer_def sbind_def)
      with inv same(1) show ?thesis by (auto intro!: exI [of _ h])
    next
      case (ok q d fill)
      let ?b = "\<lparr>mb_cpu = map fill [0..<unat sz], mb_mem = map fill [0..<unat sz]\<rparr>"
      have "q \<noteq> p" using ok(2) sl(2) by auto
      with ok run' m 3 sl(2) have s': "r = Ret ()"
        "s' = s\<lparr>gz_dev := d, gz_mmz := (gz_mmz s)(q \<mapsto> ?b, p := None), gz_insts := (gz_insts s)(a \<mapsto> set_slot k (q, Some q, sz) h)\<rparr>"
        by (simp_all add: resize_buffer_def sbind_def mmz_free_def smod_def sret_def)
      have "gz_inv X (s\<lparr>gz_mmz := (gz_mmz s)(q \<mapsto> ?b, p := None), gz_insts := (gz_insts s)(a \<mapsto> set_slot k (q, Some q, sz) h)\<rparr>)"
        by (rule gz_inv_replace [OF inv h sl(1) ok(2)]) (simp_all add: ok)
      then have "gz_inv X s'" unfolding s'(2) gz_inv_def by simp
      with s' ok(2) sl show ?thesis by (auto intro!: exI [of _ "set_slot k (q, Some q, sz) h"])
    qed
  qed
qed

section \<open>Sizes\<close>

lemma unat_align_node: "unat (align_node x) = (unat (x + 131071) div 131072) * 131072"
proof -
  have "DRV_GZIP_DECOMP_NODE_SIZE - 1 = mask 17" "x + DRV_GZIP_DECOMP_NODE_SIZE - 1 = x + 131071"
    by (simp_all add: DRV_GZIP_DECOMP_NODE_SIZE_def mask_eq_exp_minus_1)
  then have "align_node x = (x + 131071) AND NOT (mask 17)" by (simp only: align_node_def)
  also have "\<dots> = push_bit 17 (drop_bit 17 (x + 131071))"
    by (rule bit_word_eqI) (auto simp: bit_simps)
  finally have "align_node x = push_bit 17 (drop_bit 17 (x + 131071))" .
  moreover have "unat (push_bit 17 (drop_bit 17 y)) = (unat y div 131072) * 131072" for y :: u32
  proof -
    have "unat y div 131072 * 131072 < 4294967296"
      using unat_u32_less [of y] by (meson div_times_less_eq_dividend le_less_trans)
    moreover have "unat (push_bit 17 (drop_bit 17 y)) = take_bit 32 (push_bit 17 (drop_bit 17 (unat y)))"
    proof -
      have "take_bit (LENGTH(32) - 17) (drop_bit 17 (unat y)) = drop_bit 17 (unat y)"
        using unat_u32_less [of y] by (simp add: take_bit_nat_eq_self_iff drop_bit_eq_div less_mult_imp_div_less)
      then show ?thesis by (simp only: unsigned_push_bit_eq unsigned_drop_bit_eq) (simp add: take_bit_drop_bit)
    qed
    ultimately show ?thesis by (simp add: push_bit_eq_mult drop_bit_eq_div take_bit_nat_eq_self)
  qed
  ultimately show ?thesis by simp
qed

text \<open>When rounding up did not wrap around, it is an upper bound and monotonic below.\<close>

lemma align_node_mono:
  assumes "x \<le> y" and "y \<le> align_node y"
  shows "align_node x \<le> align_node y" "x \<le> align_node x"
proof -
  have y: "unat y + 131071 < 4294967296 \<or> unat y = 0"
  proof (rule ccontr)
    assume a: "\<not> ?thesis"
    then have "unat (y + 131071) = unat y + 131071 - 4294967296"
      using unat_u32_less [of y] by (simp add: unat_word_ariths mod_if)
    then have "unat (align_node y) = 0" using unat_u32_less [of y] by (simp add: unat_align_node)
    with assms(2) a show False by (simp add: word_le_nat_alt)
  qed
  then have "unat (y + 131071) = unat y + 131071" "unat (x + 131071) = unat x + 131071"
    using assms(1) by (auto simp: unat_word_ariths word_le_nat_alt)
  then show "align_node x \<le> align_node y" "x \<le> align_node x"
    using assms(1) by (auto simp: word_le_nat_alt unat_align_node div_le_mono)
qed

section \<open>Staging the source\<close>

lemma stage_source_steps:
  assumes "vsetvli_ok v" and "unat src_len \<le> length src" and "10 \<le> src_len" and "src_len \<le> dma" and "unat dma \<le> length buf"
    and "strip_header_extras ((take (unat src_len) src)[2 := 0x08] @ replicate (unat dma - unat src_len) 0 @ drop (unat dma) buf)
      src_len = Ret (hdr, n)"
  shows "stage_source v src src_len dma buf = Some (if n = 0 then Ret (0, hdr)
      else cbind (memset hdr (unat n) 0 (unat (dma - n))) (\<lambda>hdr. Ret (n, hdr)))"
proof -
  have le: "unat src_len \<le> unat dma" "10 \<le> unat src_len" using assms(3,4) by (simp_all add: word_le_nat_alt)
  have set: "memset buf 0 0 (unat dma) = Ret (replicate (unat dma) 0 @ drop (unat dma) buf)"
    using assms(5) by (simp add: memset_def wrn_def)
  have cpy: "memcpy (replicate (unat dma) 0 @ drop (unat dma) buf) 0 src 0 (unat src_len) =
      Ret (take (unat src_len) src @ replicate (unat dma - unat src_len) 0 @ drop (unat dma) buf)"
    using assms(2,5) le by (simp add: memcpy_def rdn_def wrn_def sub_bytes_def min_def)
  have "hal_rvv_memcpy v (replicate (unat dma) 0 @ drop (unat dma) buf) 0 src 0 (ucast src_len) =
      Some (Ret (take (unat src_len) src @ replicate (unat dma - unat src_len) 0 @ drop (unat dma) buf))"
    using rvv_memcpy_eq [OF assms(1), of "replicate (unat dma) 0 @ drop (unat dma) buf" 0 src 0 "ucast src_len"] cpy
    by (simp add: unsigned_ucast_eq take_bit_nat_eq_self unat_u32_less [THEN less_trans])
  moreover have "wr8 (take (unat src_len) src @ replicate (unat dma - unat src_len) 0 @ drop (unat dma) buf) 2 8 =
      Ret ((take (unat src_len) src)[2 := 8] @ replicate (unat dma - unat src_len) 0 @ drop (unat dma) buf)"
    using assms(2) le by (simp add: wr8_def list_update_append)
  ultimately show ?thesis unfolding stage_source_def set using assms(6) by simp
qed


section \<open>The engine\<close>

lemma flush_cache_eq:
  "gz_mmz s p = Some b \<Longrightarrow> unat n \<le> length (mb_cpu b) \<Longrightarrow> length (mb_mem b) = length (mb_cpu b) \<Longrightarrow>
    flush_cache p n s = (Ret (), s\<lparr>gz_mmz := (gz_mmz s)(p \<mapsto> b\<lparr>mb_mem := take (unat n) (mb_cpu b) @ drop (unat n) (mb_mem b)\<rparr>)\<rparr>)"
  by (simp add: flush_cache_def mmz_copy_def memcpy_def rdn_def wrn_def sub_bytes_def)

lemma invalidate_cache_eq:
  "gz_mmz s p = Some b \<Longrightarrow> unat n \<le> length (mb_cpu b) \<Longrightarrow> length (mb_mem b) = length (mb_cpu b) \<Longrightarrow>
    invalidate_cache p n s = (Ret (), s\<lparr>gz_mmz := (gz_mmz s)(p \<mapsto> b\<lparr>mb_cpu := take (unat n) (mb_mem b) @ drop (unat n) (mb_cpu b)\<rparr>)\<rparr>)"
  by (simp add: invalidate_cache_def mmz_copy_def memcpy_def rdn_def wrn_def sub_bytes_def)

text \<open>What the engine is asked, and the memory it sees.\<close>

definition engine_args :: "drv_gzip_decomp_inst \<Rightarrow> u32 \<Rightarrow> u32 \<Rightarrow> int \<Rightarrow> rt_gzip_decomp_args" where
  "engine_args h n dst_len timeout_ms = \<lparr>ga_src_phys = gz_src_phy h, ga_src_len = n, ga_dst_phys = gz_dst_phy h,
     ga_dst_len = dst_len, ga_timeout_ms = timeout_ms\<rparr>"

lemma slots: "slot True h = (gz_src_phy h, gz_src_virt h, gz_src_alloc h)"
  "slot False h = (gz_dst_phy h, gz_dst_virt h, gz_dst_alloc h)"
  by (simp_all add: slot_def)

lemma memcpy_front:
  "n \<le> length m \<Longrightarrow> n \<le> length dst \<Longrightarrow> memcpy dst 0 (take n m @ r) 0 n = Ret (take n m @ drop n dst)"
  by (simp add: memcpy_def rdn_def wrn_def sub_bytes_def)

lemma engine_step:
  assumes os: "gz_os_ok os" and inv: "gz_inv X s" and h: "gz_insts s a = Some h"
    and src: "dma \<le> gz_src_alloc h" "align_node n \<le> dma"
    and dst: "dst_len \<le> align_node dst_len" "align_node dst_len \<le> gz_dst_alloc h" "unat dst_len \<le> length out0"
    and bs: "gz_mmz s (gz_src_phy h) = Some bs" and bd: "gz_mmz s (gz_dst_phy h) = Some bd"
    and eng: "gz_ioctl os (gz_fd h) (engine_args h n dst_len timeout_ms)
        (\<lambda>p. map_option mb_mem (((gz_mmz s)(gz_src_phy h \<mapsto> bs\<lparr>mb_mem := take (unat dma) (mb_cpu bs) @ drop (unat dma) (mb_mem bs)\<rparr>)) p))
        (gz_dev s) = ((r, out), d)"
  shows "\<exists>s'. gunzip_engine os (Some a) h n dma (Some out0) dst_len timeout_ms s =
      Some (case r of None \<Rightarrow> Ret (Some (take (unat dst_len) (out @ drop (length out) (mb_mem bd)) @ drop (unat dst_len) out0)) | Some e \<Rightarrow> Fail e, s') \<and>
    gz_inv X s' \<and> gz_insts s' = gz_insts s"
proof -
  let ?sp = "gz_src_phy h" and ?dp = "gz_dst_phy h"
  let ?bs = "bs\<lparr>mb_mem := take (unat dma) (mb_cpu bs) @ drop (unat dma) (mb_mem bs)\<rparr>"
  define m where "m = out @ drop (length out) (mb_mem bd)"
  let ?bd = "bd\<lparr>mb_mem := m\<rparr>"
  let ?be = "?bd\<lparr>mb_cpu := take (unat dst_len) m @ drop (unat dst_len) (mb_cpu bd)\<rparr>"
  have sizes: "length (mb_cpu bs) = unat (gz_src_alloc h)" "length (mb_mem bs) = unat (gz_src_alloc h)"
    "length (mb_cpu bd) = unat (gz_dst_alloc h)" "length (mb_mem bd) = unat (gz_dst_alloc h)"
    "gz_src_virt h = Some ?sp" "gz_dst_virt h = Some ?dp" and neq: "?sp \<noteq> ?dp"
  proof -
    obtain p z b where 1: "slot True h = (p, Some p, z)" "gz_mmz s p = Some b" "length (mb_cpu b) = unat z" "length (mb_mem b) = unat z"
      "own (gz_insts s) (a, True) = Some p" by (rule gz_inv_inst [OF inv h])
    obtain p' z' b' where 2: "slot False h = (p', Some p', z')" "gz_mmz s p' = Some b'" "length (mb_cpu b') = unat z'"
      "length (mb_mem b') = unat z'" "own (gz_insts s) (a, False) = Some p'" by (rule gz_inv_inst [OF inv h])
    show "length (mb_cpu bs) = unat (gz_src_alloc h)" "length (mb_mem bs) = unat (gz_src_alloc h)"
      "length (mb_cpu bd) = unat (gz_dst_alloc h)" "length (mb_mem bd) = unat (gz_dst_alloc h)"
      "gz_src_virt h = Some ?sp" "gz_dst_virt h = Some ?dp"
      using 1 2 bs bd by (auto simp: slots)
    have "inj_on (own (gz_insts s)) (dom (own (gz_insts s)))" using inv by (simp add: gz_inv_def)
    from inj_onD [OF this, of "(a, True)" "(a, False)"] 1 2 show "?sp \<noteq> ?dp" by (auto simp: slots)
  qed
  have le: "unat dma \<le> length (mb_cpu bs)" "unat (align_node n) \<le> length (mb_mem bs)" "unat dst_len \<le> length (mb_cpu bd)"
    using src dst sizes by (auto simp: word_le_nat_alt)
  have out: "length out \<le> length (mb_mem bd)"
  proof -
    have "length out \<le> unat (align_node (ga_dst_len (engine_args h n dst_len timeout_ms)))"
      using os eng unfolding gz_os_ok_def by blast
    then have "length out \<le> unat (align_node dst_len)" by (simp add: engine_args_def)
    with dst sizes show ?thesis by (simp add: word_le_nat_alt)
  qed
  then have m: "length m = length (mb_mem bd)" by (simp add: m_def)
  define s1 where "s1 = s\<lparr>gz_mmz := (gz_mmz s)(?sp \<mapsto> ?bs)\<rparr>"
  have inv1: "gz_inv X s1" unfolding s1_def by (rule gz_inv_upd [OF inv bs]) (use le sizes in auto)
  have flush: "flush_cache ?sp dma s = (Ret (), s1)" unfolding s1_def by (rule flush_cache_eq [OF bs]) (use le sizes in auto)
  define s2 where "s2 = s1\<lparr>gz_dev := d, gz_mmz := (gz_mmz s1)(?dp \<mapsto> ?bd)\<rparr>"
  have inv2: "gz_inv X s2"
    using gz_inv_upd [of X "s1\<lparr>gz_dev := d\<rparr>" ?dp bd ?bd] inv1 bd neq m by (simp add: s1_def s2_def fun_upd_twist)
  have "valid_inst (Some a) s1 = (Ret (a, h), s1)" by (rule valid_inst_live [OF inv1]) (simp add: h s1_def)
  moreover have "gz_request os (gz_fd h) (engine_args h n dst_len timeout_ms) s1 = (case r of None \<Rightarrow> Ret () | Some e \<Rightarrow> Fail e, s2)"
    using eng bd neq le(1,2) sizes(1,2) out
    by (simp add: gz_request_def engine_args_def wrn_def m_def s1_def s2_def)
  ultimately have req: "drv_gzip_decomp_gunzip_phys os (Some a) ?sp n ?dp dst_len timeout_ms s1 = (case r of None \<Rightarrow> Ret () | Some e \<Rightarrow> Fail e, s2)"
    by (simp add: drv_gzip_decomp_gunzip_phys_def sbind_def engine_args_def)
  show ?thesis
  proof (cases r)
    case (Some e)
    then show ?thesis using inv2 by (simp add: gunzip_engine_def obind_def orun_def flush req) (simp add: s1_def s2_def)
  next
    case None
    define s3 where "s3 = s2\<lparr>gz_mmz := (gz_mmz s2)(?dp \<mapsto> ?be)\<rparr>"
    have inv3: "gz_inv X s3" unfolding s3_def by (rule gz_inv_upd [OF inv2, of _ ?bd]) (use le m sizes in \<open>auto simp: s2_def\<close>)
    have inval: "invalidate_cache ?dp dst_len s2 = (Ret (), s3)"
      by (rule trans [OF invalidate_cache_eq [of _ _ ?bd]]) (use le m sizes in \<open>auto simp: s2_def s3_def\<close>)
    have small: "unat (ucast dst_len :: u64) = unat dst_len"
      using unat_u32_less [of dst_len] by (simp add: unsigned_ucast_eq take_bit_nat_eq_self)
    have cpy: "hal_rvv_memcpy (gz_vsetvli os) out0 0 (mb_cpu ?be) 0 (ucast dst_len) =
        Some (Ret (take (unat dst_len) m @ drop (unat dst_len) out0))"
      using os dst(3) le sizes m memcpy_front [of "unat dst_len" m out0 "drop (unat dst_len) (mb_cpu bd)"]
      by (simp add: gz_os_ok_def rvv_memcpy_eq small)
    have "cpu_run (Some ?dp) (\<lambda>c. case hal_rvv_memcpy (gz_vsetvli os) out0 0 c 0 (ucast dst_len) of None \<Rightarrow> None
          | Some r \<Rightarrow> Some (cbind r (\<lambda>out. Ret (Some out, c)))) s3 =
        Some (Ret (Some (take (unat dst_len) m @ drop (unat dst_len) out0)), s3)"
      using cpy by (simp add: cpu_run_def s3_def)
    then have "gunzip_engine os (Some a) h n dma (Some out0) dst_len timeout_ms s =
        Some (Ret (Some (take (unat dst_len) m @ drop (unat dst_len) out0)), s3)"
      using None sizes(6) by (simp add: gunzip_engine_def obind_def orun_def flush req inval)
    then show ?thesis using None inv3 by (intro exI [of _ s3]) (simp add: m_def s1_def s2_def s3_def)
  qed
qed

section \<open>Decompressing keeps the invariant\<close>

text \<open>A buffer is made larger when it has to be; the other buffers stay as they are.\<close>

lemma owp_grow:
  assumes os: "gz_os_ok os" and inv: "gz_inv X s" and h: "gz_insts s a = Some h"
    and ok: "\<And>s' h'. gz_inv X s' \<Longrightarrow> gz_insts s' = (gz_insts s)(a \<mapsto> h') \<Longrightarrow> gz_fd h' = gz_fd h \<Longrightarrow>
        sz \<le> snd (snd (slot k h')) \<Longrightarrow> slot (\<not> k) h' = slot (\<not> k) h \<Longrightarrow>
        (\<And>p b. gz_mmz s p = Some b \<Longrightarrow> p \<noteq> fst (slot k h) \<Longrightarrow> gz_mmz s' p = Some b) \<Longrightarrow> Q () s'"
    and fail: "\<And>e s' h'. set_alloc os k (Some a) sz s = (Fail e, s') \<Longrightarrow> gz_inv X s' \<Longrightarrow> gz_insts s' = (gz_insts s)(a \<mapsto> h') \<Longrightarrow> E s'"
  shows "owp (orun (if sz > snd (snd (slot k h)) then set_alloc os k (Some a) sz else sret ())) Q E s"
proof (cases "sz > snd (snd (slot k h))")
  case False
  have "gz_insts s = (gz_insts s)(a \<mapsto> h)" using h by auto
  with False ok [of s h] inv show ?thesis by simp
next
  case True
  obtain r s' where run: "set_alloc os k (Some a) sz s = (r, s')" by (metis surj_pair)
  from set_alloc_inv [OF os inv h run] obtain h' where h': "gz_insts s' = (gz_insts s)(a \<mapsto> h')" "slot (\<not> k) h' = slot (\<not> k) h"
    "gz_fd h' = gz_fd h" "r = Ret () \<Longrightarrow> snd (snd (slot k h')) = sz" "gz_inv X s'" "r \<noteq> Fault"
    "\<And>p b. gz_mmz s p = Some b \<Longrightarrow> p \<noteq> fst (slot k h) \<Longrightarrow> gz_mmz s' p = Some b" by blast
  then show ?thesis using True ok [of s' h'] fail [of _ s' h'] by (cases r) (simp_all add: owp_orun run)
qed









section \<open>Opening and closing keep the invariant\<close>







lemma src_dst_distinct:
  assumes "gz_inv X s" and "gz_insts s a = Some h"
  shows "gz_src_phy h \<noteq> gz_dst_phy h"
proof
  assume eq: "gz_src_phy h = gz_dst_phy h"
  have own: "own (gz_insts s) (a, True) = Some (gz_src_phy h)" "own (gz_insts s) (a, False) = Some (gz_src_phy h)"
    using assms(2) eq by (simp_all add: own_def slots)
  have "inj_on (own (gz_insts s)) (dom (own (gz_insts s)))" using assms(1) by (simp add: gz_inv_def)
  then have "(a, True) = (a, False)" by (rule inj_onD) (simp_all add: own domIff)
  then show False by simp
qed



section \<open>Runs\<close>















lemma gz_inv_card:
  assumes "gz_inv {} s"
  shows "finite (dom (gz_insts s)) \<and> card (dom (gz_mmz s)) = 2 * card (dom (gz_insts s))"
proof -
  let ?own = "own (gz_insts s)"
  have i: "inj_on ?own (dom ?own)" "dom (gz_mmz s) = ran ?own" "insts_ok (gz_insts s) (gz_next s) (gz_mmz s)"
    using assms by (simp_all add: gz_inv_def)
  have "dom (gz_insts s) \<subseteq> {..<gz_next s}" using i(3) by (auto simp: insts_ok_def)
  then have fin: "finite (dom (gz_insts s))" by (rule finite_subset) simp
  have dom: "dom ?own = dom (gz_insts s) \<times> UNIV" by (auto simp: own_def)
  have "Some ` ran ?own = ?own ` dom ?own" by (auto simp: ran_def image_iff dom_def) metis
  then have "card (ran ?own) = card (dom ?own)"
    by (metis card_image i(1) inj_Some inj_on_subset subset_UNIV)
  then show ?thesis using fin i(2) by (simp add: dom card_cartesian_product)
qed

section \<open>Decompressing a stream\<close>

lemma to_le_4: "to_le 4 w = [ucast w, ucast (drop_bit 8 w), ucast (drop_bit 16 w), ucast (drop_bit 24 w)]" for w :: u32
  by (simp add: numeral_eq_Suc)

lemma get_le32_to_le: "get_le32 (pre @ to_le 4 w @ post) (length pre) = Ret w"
proof -
  have "ucast (ucast w :: u8) OR push_bit 8 (ucast (ucast (drop_bit 8 w) :: u8)) OR
      push_bit 16 (ucast (ucast (drop_bit 16 w) :: u8)) OR push_bit 24 (ucast (ucast (drop_bit 24 w) :: u8)) = w" for w :: u32
  proof (rule bit_word_eqI)
    fix n assume "n < LENGTH(32)"
    then consider "n < 8" | "8 \<le> n" "n < 16" | "16 \<le> n" "n < 24" | "24 \<le> n" "n < 32" by fastforce
    then show "bit (ucast (ucast w :: u8) OR push_bit 8 (ucast (ucast (drop_bit 8 w) :: u8)) OR
      push_bit 16 (ucast (ucast (drop_bit 16 w) :: u8)) OR push_bit 24 (ucast (ucast (drop_bit 24 w) :: u8)) :: u32) n = bit w n"
      by cases (auto simp: bit_simps)
  qed
  then show ?thesis by (simp add: get_le32_def rd8_def nth_append to_le_4)
qed

text \<open>
  What the engine does with a plain gzip stream: when \<open>inflate\<close> decompresses what follows the ten bytes
  of the header, it stores the result, perhaps with something behind it, and reports success.
\<close>

definition gz_inflates :: "'d gz_os \<Rightarrow> (bytes \<Rightarrow> bytes option) \<Rightarrow> bool" where
  "gz_inflates os inflate \<longleftrightarrow> (\<forall>fd args mem d m mid z out.
     mem (ga_src_phys args) = Some m \<longrightarrow> take (unat (ga_src_len args)) m = 0x1f # 0x8b # 0x08 # 0 # mid @ z \<longrightarrow>
     length mid = 6 \<longrightarrow> inflate z = Some out \<longrightarrow> unat (ga_dst_len args) = length out \<longrightarrow>
     length out + 131071 < 2 ^ 32 \<longrightarrow> (\<exists>behind d'. gz_ioctl os fd args mem d = ((None, out @ behind), d')))"

text \<open>The allocator does not fail while at most \<open>k\<close> buffers are live.\<close>

definition gz_allocates :: "'d gz_os \<Rightarrow> nat \<Rightarrow> bool" where
  "gz_allocates os k \<longleftrightarrow> (\<forall>m n d. card (dom m) \<le> k \<longrightarrow> (\<exists>x d'. gz_alloc os m n d = (Inr x, d')))"

text \<open>A stream with the marker of hardware compatibility and optional fields.\<close>

definition k230_gzip :: "gz_fields \<Rightarrow> bytes \<Rightarrow> bytes \<Rightarrow> bytes" where
  "k230_gzip f mid z = 0x1f # 0x8b # 0x09 # gz_flags f # mid @ gz_extras f @ z"

lemma set_alloc_succeeds:
  assumes "gz_allocates os (card (dom (gz_mmz s)))" and "gz_inv X s" and "gz_insts s a = Some h" and "sz \<noteq> 0"
  shows "set_alloc os k (Some a) sz s \<noteq> (Fail e, s')"
proof -
  obtain p fill d where "gz_alloc os (gz_mmz s) sz (gz_dev s) = (Inr (p, fill), d)"
    using assms(1) unfolding gz_allocates_def by (metis order_refl surj_pair)
  moreover obtain q n b where "slot k h = (q, Some q, n)" "gz_mmz s q = Some b" by (rule gz_inv_inst [OF assms(2,3)])
  ultimately show ?thesis using assms(4) valid_inst_live [OF assms(2,3)]
    by (auto simp: set_alloc_def sbind_def resize_buffer_def mmz_alloc_def mmz_free_def Let_def smod_def sret_def)
qed

lemma stage_source_stream:
  assumes "vsetvli_ok v" and f: "gz_fields_ok f" and mid: "length mid = 6" and z: "8 \<le> length z"
    and src: "src = k230_gzip f mid z" "length src < 2 ^ 32" and dma: "of_nat (length src) \<le> dma" "unat dma \<le> length buf"
  shows "\<exists>buf'. stage_source v src (of_nat (length src)) dma buf = Some (Ret (of_nat (10 + length z), buf')) \<and>
    length buf' = length buf \<and> take (10 + length z) buf' = 0x1f # 0x8b # 0x08 # 0 # mid @ z"
proof -
  have len: "length src = 10 + length (gz_extras f) + length z" using mid src(1) by (simp add: k230_gzip_def)
  have un: "unat (of_nat (length src) :: u32) = length src" "unat (of_nat (10 + length z) :: u32) = 10 + length z"
    using src(2) len by (simp_all only: unat_of_nat) (simp_all add: take_bit_nat_eq_self)
  have ld: "length src \<le> unat dma" using dma(1) un(1) by (simp add: word_le_nat_alt)
  let ?st = "0x1f # 0x8b # 0x08 # gz_flags f # mid @ gz_extras f @ z"
  let ?rest = "replicate (unat dma - length src) 0 @ drop (unat dma) buf"
  let ?hdr = "0x1f # 0x8b # 0x08 # 0 # mid @ z @ drop (10 + length z) (?st @ ?rest)"
  have lst: "length ?st = length src" using len mid by simp
  have "strip_header_extras (?st @ ?rest) (of_nat (length ?st)) = Ret (?hdr, of_nat (10 + length z))"
    by (rule strip_header_enc [OF f mid z refl]) (use lst src(2) in simp)
  moreover have "(take (length src) src)[2 := 0x08] = src[2 := 0x08]" "src[2 := 0x08] = ?st"
    using src(1) by (simp_all add: k230_gzip_def)
  ultimately have strip: "strip_header_extras ((take (unat (of_nat (length src) :: u32)) src)[2 := 0x08] @
      replicate (unat dma - unat (of_nat (length src) :: u32)) 0 @ drop (unat dma) buf) (of_nat (length src)) =
      Ret (?hdr, of_nat (10 + length z))" by (simp only: un(1) lst)
  have lh: "length ?hdr = length buf" using len mid ld dma(2) by simp
  have le: "of_nat (10 + length z) \<le> dma" using ld len un by (simp only: word_le_nat_alt)
  have nz: "of_nat (10 + length z) \<noteq> (0 :: u32)" using un(2) by (metis add_is_0 unsigned_0 zero_neq_numeral)
  have ten: "10 \<le> (of_nat (length src) :: u32)" using len un(1) by (simp add: word_le_nat_alt)
  have sum: "unat (of_nat (10 + length z) :: u32) + unat (dma - of_nat (10 + length z)) = unat dma"
    using unat_sub_le [OF le] le by (simp add: word_le_nat_alt)
  then have clear: "memset ?hdr (unat (of_nat (10 + length z) :: u32)) 0 (unat (dma - of_nat (10 + length z))) =
      Ret (take (10 + length z) ?hdr @ replicate (unat (dma - of_nat (10 + length z))) 0 @ drop (unat dma) ?hdr)"
    using lh dma(2) unfolding memset_def wrn_def by (simp only: length_replicate un(2)) simp
  have take: "take (10 + length z) ?hdr = 0x1f # 0x8b # 0x08 # 0 # mid @ z" using mid by (simp add: take_Cons')
  define new where "new = take (10 + length z) ?hdr @ replicate (unat (dma - of_nat (10 + length z))) 0 @ drop (unat dma) ?hdr"
  have "stage_source v src (of_nat (length src)) dma buf = Some (Ret (of_nat (10 + length z), new))"
    using stage_source_steps [OF assms(1) _ ten dma strip] un(1) clear nz by (simp add: new_def)
  moreover have "length new = length buf"
    unfolding new_def using lh sum un(2) dma(2) by (simp only: length_append length_take length_replicate length_drop)
  moreover have "take (10 + length z) new = 0x1f # 0x8b # 0x08 # 0 # mid @ z"
    unfolding new_def take using mid by (simp add: take_Cons')
  ultimately show ?thesis by blast
qed

lemma validate_k230:
  assumes "18 \<le> src_len"
  shows "validate_header (Some (k230_gzip f mid z)) src_len = Ret ()"
proof -
  have "\<not> src_len < 18" using assms by simp
  then show ?thesis by (simp add: validate_header_def k230_gzip_def rd8_def gz_flags_tests)
qed

text \<open>The engine on a staged stream.\<close>

lemma gunzip_engine_stream:
  assumes os: "gz_os_ok os" "gz_inflates os inflate" and inv: "gz_inv X s" and h: "gz_insts s a = Some h"
    and src: "dma \<le> gz_src_alloc h" "align_node n \<le> dma" "n \<le> dma"
    and dst: "dst_len \<le> align_node dst_len" "align_node dst_len \<le> gz_dst_alloc h" "unat dst_len \<le> length out0"
    and bs: "gz_mmz s (gz_src_phy h) = Some bs" and st: "take (unat n) (mb_cpu bs) = 0x1f # 0x8b # 0x08 # 0 # mid @ z"
    and z: "length mid = 6" "inflate z = Some out" "unat dst_len = length out" "length out + 131071 < 2 ^ 32"
  shows "\<exists>s'. gunzip_engine os (Some a) h n dma (Some out0) dst_len timeout_ms s =
      Some (Ret (Some (out @ drop (length out) out0)), s') \<and> gz_inv X s'"
proof -
  obtain bd where bd: "gz_mmz s (gz_dst_phy h) = Some bd"
    by (rule gz_inv_inst [OF inv h, of False]) (simp add: slots)
  obtain bs' where "gz_mmz s (gz_src_phy h) = Some bs'" "length (mb_cpu bs') = unat (gz_src_alloc h)"
    by (rule gz_inv_inst [OF inv h, of True]) (simp add: slots)
  then have len: "length (mb_cpu bs) = unat (gz_src_alloc h)" using bs by simp
  let ?bs = "bs\<lparr>mb_mem := take (unat dma) (mb_cpu bs) @ drop (unat dma) (mb_mem bs)\<rparr>"
  let ?mem = "\<lambda>p. map_option mb_mem (((gz_mmz s)(gz_src_phy h \<mapsto> ?bs)) p)" and ?args = "engine_args h n dst_len timeout_ms"
  have le: "unat n \<le> unat dma" "unat dma \<le> length (mb_cpu bs)" using src(1,3) len by (simp_all add: word_le_nat_alt)
  have "take (unat n) (mb_mem ?bs) = take (unat n) (mb_cpu bs)" using le by (simp add: min_absorb1)
  then have "take (unat (ga_src_len ?args)) (mb_mem ?bs) = 0x1f # 0x8b # 0x08 # 0 # mid @ z"
    unfolding st [symmetric] by (simp add: engine_args_def)
  moreover have "?mem (ga_src_phys ?args) = Some (mb_mem ?bs)" "unat (ga_dst_len ?args) = length out"
    using z(3) by (simp_all add: engine_args_def)
  moreover note os(2) [unfolded gz_inflates_def, rule_format, of ?mem ?args "mb_mem ?bs" mid z out "gz_fd h" "gz_dev s"] z(1,2,4)
  ultimately obtain behind d where eng: "gz_ioctl os (gz_fd h) ?args ?mem (gz_dev s) = ((None, out @ behind), d)" by blast
  from engine_step [OF os(1) inv h src(1,2) dst bs bd eng] z(3) show ?thesis by auto
qed

lemma gunzip_staged_stream:
  assumes os: "gz_os_ok os" "gz_allocates os (card (dom (gz_mmz s)))" "gz_inflates os inflate"
    and inv: "gz_inv X s" and h: "gz_insts s a = Some h"
    and src: "dma \<le> gz_src_alloc h" "align_node n \<le> dma" "n \<le> dma" "n \<noteq> 0"
    and dst: "dst_len \<le> align_node dst_len" "unat dst_len \<le> length out0"
    and bs: "gz_mmz s (gz_src_phy h) = Some bs" and st: "take (unat n) (mb_cpu bs) = 0x1f # 0x8b # 0x08 # 0 # mid @ z"
    and z: "length mid = 6" "inflate z = Some out" "unat dst_len = length out" "length out + 131071 < 2 ^ 32" "out \<noteq> []"
  shows "owp (gunzip_staged os (Some a) a h n dma (Some out0) dst_len timeout_ms)
    (\<lambda>r s'. r = Some (out @ drop (length out) out0) \<and> gz_inv X s') (\<lambda>_. False) s" (is "owp _ ?Q ?E s")
proof -
  have dn: "dst_len \<noteq> 0" using z(3,5) by auto
  have nz: "align_node dst_len \<noteq> 0" using dst(1) dn by auto
  have "owp (orun (if align_node dst_len > snd (snd (slot False h)) then set_alloc os False (Some a) (align_node dst_len) else sret ()))
    (\<lambda>_. owp (obind (orun (zinst a)) (\<lambda>h. gunzip_engine os (Some a) h n dma (Some out0) dst_len timeout_ms)) ?Q ?E) ?E s"
  proof (rule owp_grow [OF os(1) inv h], goal_cases)
    case (1 s3 h3)
    then have h3: "gz_insts s3 a = Some h3" "dma \<le> gz_src_alloc h3" "align_node dst_len \<le> gz_dst_alloc h3" "gz_src_phy h3 = gz_src_phy h"
      using src(1) by (auto simp: slots)
    have "gz_mmz s3 (gz_src_phy h3) = Some bs"
      using 1(6) [OF bs] src_dst_distinct [OF inv h] h3(4) by (simp add: slots)
    from gunzip_engine_stream [OF os(1,3) 1(1) h3(1,2) src(2,3) dst(1) h3(3) dst(2) this st z(1-4), of timeout_ms]
    show ?case unfolding owp_obind by (simp add: owp_orun zinst_def h3(1)) (auto simp: owp_def)
  next
    case (2 e s3 h3)
    with set_alloc_succeeds [OF os(2) inv h nz] show ?case by blast
  qed
  moreover have "(align_node dst_len < dst_len) = False" "(n = 0) = False" "(dst_len = 0) = False" using dst(1) src(4) dn by auto
  ultimately show ?thesis
    by (simp only: gunzip_staged_def Let_def owp_obind set_alloc_cases slots snd_conv if_False)
qed

text \<open>Rounding up wraps around only in the last node of the 32-bit range.\<close>

lemma align_node_ge: "unat x + 131071 < 4294967296 \<Longrightarrow> x \<le> align_node x"
  by (simp add: word_le_nat_alt unat_align_node unat_word_ariths)

lemma gunzip_stream:
  assumes os: "gz_os_ok os" "gz_allocates os (card (dom (gz_mmz s)))" "gz_inflates os inflate"
    and inv: "gz_inv {} s" and h: "gz_insts s a = Some h"
    and f: "gz_fields_ok f" "length mid = 6" and z: "z = z0 @ to_le 4 (of_nat (length out) :: u32)" "4 \<le> length z0"
    and inflate: "inflate z = Some out" "out \<noteq> []" and src: "src = k230_gzip f mid z" "length src + 131071 < 2 ^ 32"
    and dst: "length out + 131071 < 2 ^ 32" "length out \<le> length out0"
  shows "owp (drv_gzip_decomp_gunzip os (Some a) (Some src) (of_nat (length src)) (Some out0) (of_nat (length out)) timeout_ms)
    (\<lambda>r s'. r = Some (out @ drop (length out) out0) \<and> gz_inv {} s') (\<lambda>_. False) s" (is "owp _ ?Q ?E s")
proof -
  let ?n = "of_nat (length src) :: u32" and ?m = "of_nat (length out) :: u32" and ?k = "of_nat (10 + length z) :: u32"
  let ?dma = "align_node ?n"
  have len: "length src = 10 + length (gz_extras f) + length z" "8 \<le> length z" using f(2) z src(1) by (simp_all add: k230_gzip_def)
  have un: "unat ?n = length src" "unat ?m = length out" "unat ?k = 10 + length z"
    using src(2) dst(1) len by (simp_all only: unat_of_nat) (simp_all add: take_bit_nat_eq_self)
  have al: "?n \<le> ?dma" "?m \<le> align_node ?m" using align_node_ge [of ?n] align_node_ge [of ?m] un src(2) dst(1) by simp_all
  have k: "?k \<le> ?n" "?k \<noteq> 0" using un len by (simp_all only: word_le_nat_alt word_unat_eq_iff) simp_all
  have n18: "18 \<le> ?n" using len un(1) by (simp add: word_le_nat_alt)
  then have dn: "?dma \<noteq> 0" using al(1) by auto
  have "src = (0x1f # 0x8b # 0x09 # gz_flags f # mid @ gz_extras f @ z0) @ to_le 4 ?m @ []"
    using src(1) z(1) by (simp add: k230_gzip_def)
  moreover have "length (0x1f # 0x8b # 0x09 # gz_flags f # mid @ gz_extras f @ z0) = unat (?n - 4)"
    using len z(1) f(2) un(1) unat_sub_le [of 4 ?n] n18 by (simp add: word_le_nat_alt)
  ultimately have isize: "get_le32 src (unat (?n - 4)) = Ret ?m" by (metis get_le32_to_le)
  have v: "vsetvli_ok (gz_vsetvli os)" using os(1) by (simp add: gz_os_ok_def)
  have "owp (orun (if ?dma > snd (snd (slot True h)) then set_alloc os True (Some a) ?dma else sret ())) (\<lambda>_.
      owp (obind (orun (zinst a)) (\<lambda>h1. obind (cpu_run (gz_src_virt h1) (stage_source (gz_vsetvli os) src ?n ?dma)) (\<lambda>n.
        gunzip_staged os (Some a) a h1 n ?dma (Some out0) ?m timeout_ms))) ?Q ?E) ?E s"
  proof (rule owp_grow [OF os(1) inv h], goal_cases)
    case (1 s1 h1)
    then have h1: "gz_insts s1 a = Some h1" "?dma \<le> gz_src_alloc h1" by (auto simp: slots)
    obtain bs where bs: "gz_src_virt h1 = Some (gz_src_phy h1)" "gz_mmz s1 (gz_src_phy h1) = Some bs"
      "length (mb_cpu bs) = unat (gz_src_alloc h1)" by (rule gz_inv_inst [OF 1(1) h1(1), of True]) (simp add: slots)
    have "length src < 2 ^ 32" "unat ?dma \<le> length (mb_cpu bs)" using src(2) h1(2) bs(3) by (simp_all add: word_le_nat_alt)
    from stage_source_stream [OF v f len(2) src(1) this(1) al(1) this(2)] obtain buf where
      st: "stage_source (gz_vsetvli os) src ?n ?dma (mb_cpu bs) = Some (Ret (?k, buf))" "length buf = length (mb_cpu bs)"
        "take (10 + length z) buf = 0x1f # 0x8b # 0x08 # 0 # mid @ z" by blast
    let ?s2 = "s1\<lparr>gz_mmz := (gz_mmz s1)(gz_src_phy h1 \<mapsto> bs\<lparr>mb_cpu := buf\<rparr>)\<rparr>"
    have inv2: "gz_inv {} ?s2" by (rule gz_inv_upd [OF 1(1) bs(2)]) (simp_all add: st)
    have "card (dom (gz_mmz ?s2)) = card (dom (gz_mmz s))"
      using gz_inv_card [OF inv2] gz_inv_card [OF inv] 1(2) h by (simp add: insert_absorb domI)
    then have alloc: "gz_allocates os (card (dom (gz_mmz ?s2)))" using os(2) by simp
    have "cpu_run (gz_src_virt h1) (stage_source (gz_vsetvli os) src ?n ?dma) s1 = Some (Ret ?k, ?s2)"
      unfolding cpu_run_def bs(1) option.case bs(2) st(1) by simp
    moreover have "owp (gunzip_staged os (Some a) a h1 ?k ?dma (Some out0) ?m timeout_ms) ?Q ?E ?s2"
      by (rule gunzip_staged_stream [OF os(1) alloc os(3) inv2, where bs = "bs\<lparr>mb_cpu := buf\<rparr>" and mid = mid and z = z])
        (use h1 k al dst un st(3) f(2) inflate align_node_mono [OF k(1) al(1)] order_trans [OF k(1) al(1)] in simp_all)
    ultimately show ?case by (simp add: owp_obind owp_orun [of "zinst a"] zinst_def h1(1)) (simp add: owp_def)
  next
    case (2 e s1 h1)
    with set_alloc_succeeds [OF os(2) inv h dn] show ?case by blast
  qed
  moreover have "owp (orun (valid_inst (Some a))) Q E s = Q (a, h) s" for Q E by (simp add: owp_orun valid_inst_live [OF inv h])
  moreover have "(?dma < ?n) = False" using al by auto
  moreover have "validate_header (Some src) ?n = Ret ()" using validate_k230 [OF n18] src(1) by simp
  ultimately show ?thesis using isize
    by (simp only: drv_gzip_decomp_gunzip_def owp_obind Let_def set_alloc_cases slots snd_conv prod.case option.distinct
        option.sel owp_orun_simps(3) cres.case if_False simp_thms)
qed

section \<open>Properties\<close>

text \<open>
  A system with three addresses, and an engine for streams whose payload is the output itself,
  followed by eight bytes.
\<close>

definition sample_inflate :: "bytes \<Rightarrow> bytes option" where
  "sample_inflate z = (if length z < 100 then Some (take (length z - 8) z) else None)"

definition sample_gz_os :: "unit gz_os" where
  "sample_gz_os = \<lparr>gz_calloc = (\<lambda>d. (True, d)), gz_open = (\<lambda>d. ((3, EOTHER 0), d)), gz_close = (\<lambda>fd d. d),
     gz_alloc = (\<lambda>m n d. (case find (\<lambda>p. m p = None) [1, 2, 3] of None \<Rightarrow> Inl ENOMEM | Some p \<Rightarrow> Inr (p, \<lambda>_. 0), d)),
     gz_ioctl = (\<lambda>fd args mem d. ((None, case mem (ga_src_phys args) of None \<Rightarrow> []
        | Some m \<Rightarrow> take (unat (align_node (ga_dst_len args)))
            (case sample_inflate (drop 10 (take (unat (ga_src_len args)) m)) of None \<Rightarrow> [] | Some out \<Rightarrow> out)), d)),
     gz_vsetvli = min 64\<rparr>"

definition sample_gz :: "unit gz" where
  "sample_gz = \<lparr>gz_insts = [0 \<mapsto> \<lparr>gz_fd = 3, gz_src_phy = 1, gz_src_virt = Some 1, gz_src_alloc = 4,
     gz_dst_phy = 2, gz_dst_virt = Some 2, gz_dst_alloc = 4\<rparr>], gz_next = 1,
     gz_mmz = [1 \<mapsto> \<lparr>mb_cpu = [0,0,0,0], mb_mem = [0,0,0,0]\<rparr>, 2 \<mapsto> \<lparr>mb_cpu = [0,0,0,0], mb_mem = [0,0,0,0]\<rparr>], gz_dev = ()\<rparr>"

lemma sample_gz_os_ok: "gz_os_ok sample_gz_os"
proof -
  have "vsetvli_ok (min 64)" by (auto simp: vsetvli_ok_def min_def word_gt_0)
  then show ?thesis
    by (auto simp: gz_os_ok_def sample_gz_os_def find_Some_iff split: option.splits)
qed

lemma sample_gz_allocates: "gz_allocates sample_gz_os 2"
proof -
  have "\<exists>p \<in> set [1, 2, 3]. m p = None" if "card (dom m) \<le> 2" for m :: "u64 \<Rightarrow> mmz_buf option"
  proof (rule ccontr)
    assume "\<not> ?thesis"
    then have "{1, 2, 3} \<subseteq> dom m" by auto
    from card_mono [OF _ this] that show False by simp
  qed
  note free = this
  show ?thesis
    unfolding gz_allocates_def
  proof (intro allI impI)
    fix m :: "u64 \<Rightarrow> mmz_buf option" and n :: u32 and d :: unit
    assume "card (dom m) \<le> 2"
    from free [OF this] show "\<exists>x d'. gz_alloc sample_gz_os m n d = (Inr x, d')"
      by (auto simp: sample_gz_os_def)
  qed
qed

lemma sample_gz_inflates: "gz_inflates sample_gz_os sample_inflate"
  unfolding gz_inflates_def
proof (intro allI impI)
  fix fd :: int and args :: rt_gzip_decomp_args and mem :: "u64 \<Rightarrow> bytes option" and d :: unit and m mid z out :: bytes
  assume a: "mem (ga_src_phys args) = Some m" "take (unat (ga_src_len args)) m = 0x1f # 0x8b # 0x08 # 0 # mid @ z"
    "length mid = 6" "sample_inflate z = Some out" "unat (ga_dst_len args) = length out" "length out + 131071 < 2 ^ 32"
  have "ga_dst_len args \<le> align_node (ga_dst_len args)" by (rule align_node_ge) (use a(5,6) in simp)
  then have "take (unat (align_node (ga_dst_len args))) out = out" using a(5) by (simp add: word_le_nat_alt)
  then have "gz_ioctl sample_gz_os fd args mem d = ((None, out @ []), d)"
    using a(1-4) by (simp add: sample_gz_os_def)
  then show "\<exists>behind d'. gz_ioctl sample_gz_os fd args mem d = ((None, out @ behind), d')" by blast
qed

lemma sample_gz_inv: "gz_inv {} sample_gz"
proof -
  have own: "own (gz_insts sample_gz) = [(0, True) \<mapsto> 1, (0, False) \<mapsto> 2]"
  proof (rule ext)
    fix x :: "nat \<times> bool"
    obtain a k where "x = (a, k)" by (cases x)
    then show "own (gz_insts sample_gz) x = [(0, True) \<mapsto> 1, (0, False) \<mapsto> 2] x"
      by (cases k) (simp_all add: own_def sample_gz_def slots)
  qed
  have "insts_ok (gz_insts sample_gz) (gz_next sample_gz) (gz_mmz sample_gz)"
    by (auto simp: insts_ok_def sample_gz_def slot_def buf_ok_def)
  then show ?thesis unfolding gz_inv_def own by (auto simp: sample_gz_def inj_on_def)
qed





text \<open>C2. A K230 stream with any optional fields is decompressed: when the engine inflates what follows the
  ten bytes of its header, the caller's buffer starts with the output and is unchanged behind it,
  whatever the sizes of the two buffers of the instance were.\<close>

theorem gzip_decompresses:
  assumes "gz_os_ok os" and "gz_allocates os (card (dom (gz_mmz s)))" and "gz_inflates os inflate"
    and "gz_inv {} s" and "gz_insts s a = Some h" and "gz_fields_ok f" and "length mid = 6"
    and "z = z0 @ to_le 4 (of_nat (length out) :: u32)" and "4 \<le> length z0" and "inflate z = Some out" and "out \<noteq> []"
    and "length (k230_gzip f mid z) + 131071 < 2 ^ 32" and "length out + 131071 < 2 ^ 32" and "length out \<le> length dst"
  shows "\<exists>s'. drv_gzip_decomp_gunzip os (Some a) (Some (k230_gzip f mid z)) (of_nat (length (k230_gzip f mid z)))
      (Some dst) (of_nat (length out)) timeout_ms s = Some (Ret (Some (out @ drop (length out) dst)), s') \<and> gz_inv {} s'"
proof -
  from owp_returns [OF gunzip_stream [OF assms(1-11) refl assms(12-14), of timeout_ms]] obtain r s' where
    "drv_gzip_decomp_gunzip os (Some a) (Some (k230_gzip f mid z)) (of_nat (length (k230_gzip f mid z)))
      (Some dst) (of_nat (length out)) timeout_ms s = Some (r, s')" "r \<noteq> Fault" "\<forall>e. r \<noteq> Fail e"
    "\<forall>x. r = Ret x \<longrightarrow> x = Some (out @ drop (length out) dst) \<and> gz_inv {} s'" by blast
  then show ?thesis by (cases r) auto
qed

theorem gzip_decompresses_witness:
  "\<exists>s'. drv_gzip_decomp_gunzip sample_gz_os (Some 0)
      (Some [0x1f, 0x8b, 0x09, 0x08, 0, 0, 0, 0, 0, 0, 97, 0, 7, 8, 9, 10, 11, 12, 13, 3, 0, 0, 0]) 23 (Some [0, 0, 0, 0]) 3 1000 sample_gz =
    Some (Ret (Some [7, 8, 9, 0]), s')"
proof -
  let ?f = "\<lparr>gf_text = False, gf_extra = None, gf_name = Some [97], gf_comment = None, gf_hcrc = None\<rparr>"
  let ?z = "[7, 8, 9, 10, 11, 12, 13] @ to_le 4 (of_nat (length [7, 8, 9 :: u8]) :: u32)"
  have z: "?z = [7, 8, 9, 10, 11, 12, 13, 3, 0, 0, 0]" by (simp add: to_le_4)
  have k: "k230_gzip ?f [0, 0, 0, 0, 0, 0] ?z = [0x1f, 0x8b, 0x09, 0x08, 0, 0, 0, 0, 0, 0, 97, 0, 7, 8, 9, 10, 11, 12, 13, 3, 0, 0, 0]"
    unfolding z by (simp add: k230_gzip_def gz_flags_def gz_extras_def extra.enc_opt_def gtext.enc_opt_def hcrc.enc_opt_def enc_text_def)
  have "card (dom (gz_mmz sample_gz)) = 2" by (simp add: sample_gz_def card_insert_if)
  then have "gz_allocates sample_gz_os (card (dom (gz_mmz sample_gz)))" using sample_gz_allocates by simp
  note 1 = gzip_decompresses [OF sample_gz_os_ok this sample_gz_inflates sample_gz_inv, where a = 0 and f = ?f and
      mid = "[0, 0, 0, 0, 0, 0]" and z = ?z and ?z0.0 = "[7, 8, 9, 10, 11, 12, 13]" and out = "[7, 8, 9]" and dst = "[0, 0, 0, 0]" and
      timeout_ms = 1000, unfolded k]
  have "sample_inflate ?z = Some [7, 8, 9]" unfolding z by (simp add: sample_inflate_def)
  with 1 show ?thesis by (auto simp: sample_gz_def gz_fields_ok_def)
qed

end
