(* ===== verification/Hal_List.thy ===== *)
theory Hal_List
  imports C_Loops
begin

text \<open>
  The doubly linked circular list (\<open>rtsmart_hal/utils/list.h\<close>): the list heads live in a memory that maps
  addresses to nodes, and following a pointer to an address that holds no node is a \<open>Fault\<close>. The
  functions are compared with the operations on the list of entries that a memory represents.
\<close>

section \<open>Code\<close>

record list_head =
  lnext :: nat
  lprev :: nat

type_synonym list_mem = "nat \<Rightarrow> list_head option"

definition node_get :: "nat \<Rightarrow> list_mem \<Rightarrow> list_head cres" where
  "node_get p m = (case m p of None \<Rightarrow> Fault | Some n \<Rightarrow> Ret n)"

definition set_next :: "nat \<Rightarrow> nat \<Rightarrow> list_mem \<Rightarrow> list_mem cres" where
  "set_next p v m = (case m p of None \<Rightarrow> Fault | Some n \<Rightarrow> Ret (m(p \<mapsto> n\<lparr>lnext := v\<rparr>)))"

definition set_prev :: "nat \<Rightarrow> nat \<Rightarrow> list_mem \<Rightarrow> list_mem cres" where
  "set_prev p v m = (case m p of None \<Rightarrow> Fault | Some n \<Rightarrow> Ret (m(p \<mapsto> n\<lparr>lprev := v\<rparr>)))"

definition init_list_head :: "nat \<Rightarrow> list_mem \<Rightarrow> list_mem cres" where
  "init_list_head name m = cbind (set_prev name name m) (set_next name name)"

definition list_empty :: "nat \<Rightarrow> list_mem \<Rightarrow> bool cres" where
  "list_empty head m = cbind (node_get head m) (\<lambda>n. Ret (lnext n = head))"

definition list_add_between :: "nat \<Rightarrow> nat \<Rightarrow> nat \<Rightarrow> list_mem \<Rightarrow> list_mem cres" where
  "list_add_between new prev next m =
     cbind (set_prev next new m) (\<lambda>m. cbind (set_next new next m) (\<lambda>m.
     cbind (set_prev new prev m) (\<lambda>m. set_next prev new m)))"

definition list_add_tail :: "nat \<Rightarrow> nat \<Rightarrow> list_mem \<Rightarrow> list_mem cres" where
  "list_add_tail new head m = cbind (node_get head m) (\<lambda>n. list_add_between new (lprev n) head m)"

definition list_del_between :: "nat \<Rightarrow> nat \<Rightarrow> list_mem \<Rightarrow> list_mem cres" where
  "list_del_between prev next m = cbind (set_prev next prev m) (\<lambda>m. set_next prev next m)"

definition LIST_POISON1 :: nat where "LIST_POISON1 = 0x00100100"
definition LIST_POISON2 :: nat where "LIST_POISON2 = 0x00200200"

definition list_del :: "nat \<Rightarrow> list_mem \<Rightarrow> list_mem cres" where
  "list_del entry m =
     cbind (node_get entry m) (\<lambda>n. cbind (list_del_between (lprev n) (lnext n) m) (\<lambda>m.
     cbind (set_next entry LIST_POISON1 m) (\<lambda>m. set_prev entry LIST_POISON2 m)))"

text \<open>
  The two iterations, with the loop body as a parameter. The plain one reads the successor of an entry
  after the body, the safe one before it; \<open>None\<close> is a loop that does not end.
\<close>

partial_function (option) for_each_loop :: "(nat \<Rightarrow> list_mem \<Rightarrow> list_mem cres) \<Rightarrow> nat \<Rightarrow> nat \<Rightarrow> list_mem \<Rightarrow> list_mem cres option" where
  "for_each_loop body head pos m =
     (if pos = head then Some (Ret m)
      else case body pos m of
        Fail e \<Rightarrow> Some (Fail e) | Fault \<Rightarrow> Some Fault
      | Ret m \<Rightarrow> (case node_get pos m of
          Fail e \<Rightarrow> Some (Fail e) | Fault \<Rightarrow> Some Fault
        | Ret n \<Rightarrow> for_each_loop body head (lnext n) m))"

definition list_for_each_entry :: "(nat \<Rightarrow> list_mem \<Rightarrow> list_mem cres) \<Rightarrow> nat \<Rightarrow> list_mem \<Rightarrow> list_mem cres option" where
  "list_for_each_entry body head m =
     (case node_get head m of Ret n \<Rightarrow> for_each_loop body head (lnext n) m | Fail e \<Rightarrow> Some (Fail e) | Fault \<Rightarrow> Some Fault)"

partial_function (option) for_each_safe_loop ::
    "(nat \<Rightarrow> list_mem \<Rightarrow> list_mem cres) \<Rightarrow> nat \<Rightarrow> nat \<Rightarrow> nat \<Rightarrow> list_mem \<Rightarrow> list_mem cres option" where
  "for_each_safe_loop body head pos n m =
     (if pos = head then Some (Ret m)
      else case body pos m of
        Fail e \<Rightarrow> Some (Fail e) | Fault \<Rightarrow> Some Fault
      | Ret m \<Rightarrow> (case node_get n m of
          Fail e \<Rightarrow> Some (Fail e) | Fault \<Rightarrow> Some Fault
        | Ret nn \<Rightarrow> for_each_safe_loop body head n (lnext nn) m))"

definition list_for_each_entry_safe :: "(nat \<Rightarrow> list_mem \<Rightarrow> list_mem cres) \<Rightarrow> nat \<Rightarrow> list_mem \<Rightarrow> list_mem cres option" where
  "list_for_each_entry_safe body head m =
     (case cbind (node_get head m) (\<lambda>n. cbind (node_get (lnext n) m) (\<lambda>nn. Ret (lnext n, lnext nn))) of
        Ret (pos, n) \<Rightarrow> for_each_safe_loop body head pos n m | Fail e \<Rightarrow> Some (Fail e) | Fault \<Rightarrow> Some Fault)"

section \<open>The list a memory represents\<close>

definition nxt :: "list_mem \<Rightarrow> nat \<Rightarrow> nat option" where "nxt m p = map_option lnext (m p)"
definition prv :: "list_mem \<Rightarrow> nat \<Rightarrow> nat option" where "prv m p = map_option lprev (m p)"

text \<open>\<open>links m p xs q\<close>: from \<open>p\<close> the pointers lead through \<open>xs\<close> to \<open>q\<close>, and back.\<close>

fun links :: "list_mem \<Rightarrow> nat \<Rightarrow> nat list \<Rightarrow> nat \<Rightarrow> bool" where
  "links m p [] q \<longleftrightarrow> nxt m p = Some q \<and> prv m q = Some p"
| "links m p (x # xs) q \<longleftrightarrow> nxt m p = Some x \<and> prv m x = Some p \<and> links m x xs q"

definition is_list :: "list_mem \<Rightarrow> nat \<Rightarrow> nat list \<Rightarrow> bool" where
  "is_list m head xs \<longleftrightarrow> distinct (head # xs) \<and> links m head xs head"

lemma links_append: "links m p (xs @ y # ys) q \<longleftrightarrow> links m p xs y \<and> links m y ys q"
  by (induction xs arbitrary: p) auto

lemma links_ends: "links m p xs q \<Longrightarrow> nxt m p = Some (hd (xs @ [q])) \<and> prv m q = Some (last (p # xs))"
  by (induction xs arbitrary: p) auto

lemma links_cong:
  "(\<And>x. x \<in> set (p # xs) \<Longrightarrow> nxt m' x = nxt m x) \<Longrightarrow> (\<And>x. x \<in> set (xs @ [q]) \<Longrightarrow> prv m' x = prv m x) \<Longrightarrow>
    links m' p xs q = links m p xs q"
  by (induction xs arbitrary: p) auto

lemma node_get_Ret: "nxt m p = Some q \<Longrightarrow> \<exists>n. node_get p m = Ret n \<and> lnext n = q \<and> prv m p = Some (lprev n)"
  by (auto simp: nxt_def prv_def node_get_def)

lemma set_next_Ret:
  assumes "nxt m p \<noteq> None"
  obtains m' where "set_next p v m = Ret m'" "nxt m' = (nxt m)(p \<mapsto> v)" "prv m' = prv m"
proof -
  obtain n where "m p = Some n" using assms by (auto simp: nxt_def)
  then show thesis by (intro that [of "m(p \<mapsto> n\<lparr>lnext := v\<rparr>)"]) (auto simp: set_next_def nxt_def prv_def)
qed

lemma set_prev_Ret:
  assumes "nxt m p \<noteq> None"
  obtains m' where "set_prev p v m = Ret m'" "prv m' = (prv m)(p \<mapsto> v)" "nxt m' = nxt m"
proof -
  obtain n where "m p = Some n" using assms by (auto simp: nxt_def)
  then show thesis by (intro that [of "m(p \<mapsto> n\<lparr>lprev := v\<rparr>)"]) (auto simp: set_prev_def nxt_def prv_def)
qed

lemma nxt_prv_None: "nxt m p = None \<longleftrightarrow> prv m p = None"
  by (simp add: nxt_def prv_def)

lemma links_mapped: "links m p xs q \<Longrightarrow> x \<in> set (p # xs) \<Longrightarrow> nxt m x \<noteq> None"
  by (induction xs arbitrary: p) auto

section \<open>The operations\<close>

lemma list_add_between_Ret:
  assumes "nxt m new \<noteq> None" "nxt m before \<noteq> None" "nxt m after \<noteq> None"
  obtains m' where "list_add_between new before after m = Ret m'"
    "nxt m' = (nxt m)(new \<mapsto> after, before \<mapsto> new)" "prv m' = (prv m)(after \<mapsto> new, new \<mapsto> before)"
proof -
  obtain m1 where 1: "set_prev after new m = Ret m1" "prv m1 = (prv m)(after \<mapsto> new)" "nxt m1 = nxt m"
    by (rule set_prev_Ret [OF assms(3)])
  obtain m2 where 2: "set_next new after m1 = Ret m2" "nxt m2 = (nxt m1)(new \<mapsto> after)" "prv m2 = prv m1"
    by (rule set_next_Ret [of m1 new]) (simp_all add: 1 assms)
  obtain m3 where 3: "set_prev new before m2 = Ret m3" "prv m3 = (prv m2)(new \<mapsto> before)" "nxt m3 = nxt m2"
    by (rule set_prev_Ret [of m2 new]) (simp_all add: 2)
  obtain m4 where 4: "set_next before new m3 = Ret m4" "nxt m4 = (nxt m3)(before \<mapsto> new)" "prv m4 = prv m3"
    by (rule set_next_Ret [of m3 before]) (use 1 2 3 assms in auto)
  show thesis by (rule that [of m4]) (simp_all add: list_add_between_def 1 2 3 4)
qed

text \<open>Adding at the tail: the memory then represents the list with the new entry at its end.\<close>

lemma list_add_tail_is_list:
  assumes list: "is_list m head xs" and new: "m new \<noteq> None" "new \<notin> set (head # xs)"
  obtains m' where "list_add_tail new head m = Ret m'" "is_list m' head (xs @ [new])" "dom m' = dom m"
proof -
  let ?l = "last (head # xs)"
  have links: "links m head xs head" and dist: "distinct (head # xs)" using list by (simp_all add: is_list_def)
  have prv: "prv m head = Some ?l" using links_ends [OF links] by simp
  have mapped: "nxt m new \<noteq> None" "nxt m ?l \<noteq> None" "nxt m head \<noteq> None"
    using new(1) links_mapped [OF links, of ?l] links_mapped [OF links, of head] last_in_set [of "head # xs"]
    by (auto simp: nxt_def)
  obtain m' where m': "list_add_between new ?l head m = Ret m'"
    "nxt m' = (nxt m)(new \<mapsto> head, ?l \<mapsto> new)" "prv m' = (prv m)(head \<mapsto> new, new \<mapsto> ?l)"
    by (rule list_add_between_Ret [OF mapped])
  have get: "\<exists>n. node_get head m = Ret n \<and> lprev n = ?l" using mapped(3) prv by (auto simp: nxt_def prv_def node_get_def)
  have "links m' head (xs @ [new]) head"
  proof (cases xs rule: rev_cases)
    case Nil
    with m' new dist show ?thesis by simp
  next
    case (snoc ys y)
    have "links m head ys y" using links by (simp add: snoc links_append)
    moreover have "links m' head ys y = links m head ys y"
      by (rule links_cong) (use m' new dist snoc in auto)
    ultimately show ?thesis using m' new dist snoc by (simp add: links_append)
  qed
  moreover have "dom m' = dom m"
  proof -
    have "dom (nxt m') = dom (nxt m)" using m'(2) mapped by auto
    then show ?thesis by (simp add: nxt_def dom_def)
  qed
  ultimately show thesis using get m'(1) new dist
    by (intro that [of m']) (auto simp: list_add_tail_def is_list_def)
qed

text \<open>Deleting an entry: the others stay in order, and the entry is poisoned.\<close>

lemma list_del_is_list:
  assumes list: "is_list m head (xs @ e # ys)"
  obtains m' where "list_del e m = Ret m'" "is_list m' head (xs @ ys)" "dom m' = dom m"
    "m' e = Some \<lparr>lnext = LIST_POISON1, lprev = LIST_POISON2\<rparr>"
proof -
  define p n where pn: "p = last (head # xs)" "n = hd (ys @ [head])"
  have dist: "distinct (head # xs @ e # ys)" and links: "links m head xs e" "links m e ys head"
    using list by (simp_all add: is_list_def links_append)
  have e: "nxt m e = Some n" "prv m e = Some p" using links_ends [OF links(1)] links_ends [OF links(2)] by (simp_all add: pn)
  have inl: "n \<in> set (head # ys)" "p \<in> set (head # xs)" using last_in_set [of "head # xs"] hd_in_set [of "ys @ [head]"] by (auto simp: pn)
  have mapped: "nxt m p \<noteq> None" "nxt m n \<noteq> None" "nxt m e \<noteq> None" and neq: "n \<noteq> e" "p \<noteq> e"
    using links_mapped [OF links(1)] links_mapped [OF links(2)] dist e inl by auto
  obtain m1 where 1: "set_prev n p m = Ret m1" "prv m1 = (prv m)(n \<mapsto> p)" "nxt m1 = nxt m"
    by (rule set_prev_Ret [OF mapped(2)])
  obtain m2 where 2: "set_next p n m1 = Ret m2" "nxt m2 = (nxt m1)(p \<mapsto> n)" "prv m2 = prv m1"
    by (rule set_next_Ret [of m1 p]) (use 1 mapped in simp_all)
  obtain m3 where 3: "set_next e LIST_POISON1 m2 = Ret m3" "nxt m3 = (nxt m2)(e \<mapsto> LIST_POISON1)" "prv m3 = prv m2"
    by (rule set_next_Ret [of m2 e]) (use 1 2 mapped in auto)
  obtain m4 where 4: "set_prev e LIST_POISON2 m3 = Ret m4" "prv m4 = (prv m3)(e \<mapsto> LIST_POISON2)" "nxt m4 = nxt m3"
    by (rule set_prev_Ret [of m3 e]) (use 3 in auto)
  obtain node where "node_get e m = Ret node" "lnext node = n" "lprev node = p"
    using node_get_Ret [OF e(1)] e(2) by auto
  then have run: "list_del e m = Ret m4" by (simp add: list_del_def list_del_between_def 1 2 3 4)
  have nxt: "nxt m4 = (nxt m)(p \<mapsto> n, e \<mapsto> LIST_POISON1)" and prv: "prv m4 = (prv m)(n \<mapsto> p, e \<mapsto> LIST_POISON2)"
    by (simp_all add: 1 2 3 4)
  have "links m4 head (xs @ ys) head"
  proof (cases ys)
    case Nil
    show ?thesis
    proof (cases xs rule: rev_cases)
      case Nil
      with \<open>ys = []\<close> nxt prv pn dist show ?thesis by simp
    next
      case (snoc zs z)
      have "links m4 head zs z = links m head zs z" by (rule links_cong) (use nxt prv pn dist snoc Nil in auto)
      with links(1) nxt prv pn dist snoc Nil show ?thesis by (simp add: links_append)
    qed
  next
    case (Cons y zs)
    have "links m4 y zs head = links m y zs head" by (rule links_cong) (use nxt prv inl pn(2) dist Cons in auto)
    moreover have "links m y zs head" using links(2) Cons by simp
    moreover have "links m4 head xs y"
    proof (cases xs rule: rev_cases)
      case Nil
      with nxt prv pn dist Cons show ?thesis by simp
    next
      case (snoc ws w)
      have "links m4 head ws w = links m head ws w" by (rule links_cong) (use nxt prv pn dist snoc Cons in auto)
      with links(1) nxt prv pn dist snoc Cons show ?thesis by (simp add: links_append)
    qed
    ultimately show ?thesis using Cons by (simp add: links_append)
  qed
  moreover have "dom m4 = dom m"
  proof -
    have "dom (nxt m4) = dom (nxt m)" using nxt mapped by auto
    then show ?thesis by (simp add: nxt_def dom_def)
  qed
  moreover have "m4 e = Some \<lparr>lnext = LIST_POISON1, lprev = LIST_POISON2\<rparr>"
  proof -
    have "nxt m4 e = Some LIST_POISON1" "prv m4 e = Some LIST_POISON2" by (simp_all add: nxt prv)
    then show ?thesis by (cases "m4 e") (auto simp: nxt_def prv_def)
  qed
  ultimately show thesis using run dist by (intro that [of m4]) (auto simp: is_list_def)
qed

section \<open>Runs and iteration\<close>

datatype list_op = AddTail nat | Delete nat

fun list_exec :: "nat \<Rightarrow> list_op \<Rightarrow> list_mem \<Rightarrow> list_mem cres" where
  "list_exec head (AddTail n) m = list_add_tail n head m"
| "list_exec head (Delete e) m = list_del e m"

fun list_run :: "nat \<Rightarrow> list_op list \<Rightarrow> list_mem \<Rightarrow> list_mem cres" where
  "list_run head [] m = Ret m"
| "list_run head (op # ops) m = cbind (list_exec head op m) (list_run head ops)"

text \<open>The same operations on a list of entries, and when they are allowed: \<open>D\<close> are the addresses of nodes.\<close>

fun spec_exec :: "list_op \<Rightarrow> nat list \<Rightarrow> nat list" where
  "spec_exec (AddTail n) xs = xs @ [n]"
| "spec_exec (Delete e) xs = remove1 e xs"

fun spec_ok :: "nat set \<Rightarrow> nat \<Rightarrow> list_op \<Rightarrow> nat list \<Rightarrow> bool" where
  "spec_ok D head (AddTail n) xs \<longleftrightarrow> n \<in> D \<and> n \<noteq> head \<and> n \<notin> set xs"
| "spec_ok D head (Delete e) xs \<longleftrightarrow> e \<in> set xs"

fun spec_run_ok :: "nat set \<Rightarrow> nat \<Rightarrow> list_op list \<Rightarrow> nat list \<Rightarrow> bool" where
  "spec_run_ok D head [] xs \<longleftrightarrow> True"
| "spec_run_ok D head (op # ops) xs \<longleftrightarrow> spec_ok D head op xs \<and> spec_run_ok D head ops (spec_exec op xs)"

lemma list_exec_refines:
  assumes "is_list m head xs" and "spec_ok (dom m) head op xs"
  shows "\<exists>m'. list_exec head op m = Ret m' \<and> is_list m' head (spec_exec op xs) \<and> dom m' = dom m"
proof (cases op)
  case (AddTail n)
  with assms(2) have "m n \<noteq> None" "n \<notin> set (head # xs)" by auto
  from list_add_tail_is_list [OF assms(1) this] AddTail show ?thesis by (metis list_exec.simps(1) spec_exec.simps(1))
next
  case (Delete e)
  with assms(2) obtain as bs where xs: "xs = as @ e # bs" "e \<notin> set as" by (auto dest: split_list_first)
  from list_del_is_list [OF assms(1) [unfolded xs(1)]] Delete xs show ?thesis
    by (metis list_exec.simps(2) spec_exec.simps(2) remove1_append remove1.simps(2))
qed

lemma list_run_refines:
  "is_list m head xs \<Longrightarrow> spec_run_ok (dom m) head ops xs \<Longrightarrow>
    \<exists>m'. list_run head ops m = Ret m' \<and> is_list m' head (fold spec_exec ops xs)"
proof (induction ops arbitrary: m xs)
  case Nil
  then show ?case by simp
next
  case (Cons op ops)
  from list_exec_refines [OF Cons.prems(1), of op] Cons.prems(2) obtain m1 where
    "list_exec head op m = Ret m1" "is_list m1 head (spec_exec op xs)" "dom m1 = dom m" by auto
  with Cons.IH [of m1 "spec_exec op xs"] Cons.prems(2) show ?case by simp
qed

definition delete_if :: "(nat \<Rightarrow> bool) \<Rightarrow> nat \<Rightarrow> list_mem \<Rightarrow> list_mem cres" where
  "delete_if P p m = (if P p then list_del p m else Ret m)"

lemma is_list_next:
  assumes "is_list m head (xs @ ys)"
  shows "nxt m (last (head # xs)) = Some (hd (ys @ [head]))"
proof (cases xs rule: rev_cases)
  case Nil
  with assms links_ends [of m head ys head] show ?thesis by (simp add: is_list_def)
next
  case (snoc zs z)
  with assms have "links m z ys head" by (simp add: is_list_def links_append)
  from links_ends [OF this] snoc show ?thesis by simp
qed

lemma is_list_next_get:
  assumes "is_list m head (xs @ ys)"
  obtains n where "node_get (last (head # xs)) m = Ret n" "lnext n = hd (ys @ [head])"
  using node_get_Ret [OF is_list_next [OF assms]] by blast

lemma is_list_empty:
  assumes "is_list m head xs"
  shows "list_empty head m = Ret (xs = [])"
proof -
  obtain n where n: "node_get (last [head]) m = Ret n" "lnext n = hd (xs @ [head])"
    by (rule is_list_next_get [of m head "[]" xs]) (use assms in simp_all)
  have "hd (xs @ [head]) = head \<longleftrightarrow> xs = []" using assms by (cases xs) (auto simp: is_list_def)
  with n show ?thesis by (simp add: list_empty_def)
qed

lemma delete_if_step:
  assumes "is_list m head (before @ p # rest)"
  obtains m1 where "delete_if P p m = Ret m1" "is_list m1 head ((before @ filter (\<lambda>x. \<not> P x) [p]) @ rest)" "dom m1 = dom m"
    "P p \<Longrightarrow> m1 p = Some \<lparr>lnext = LIST_POISON1, lprev = LIST_POISON2\<rparr>" "\<not> P p \<Longrightarrow> m1 = m" "p \<noteq> head"
proof -
  have ne: "p \<noteq> head" using assms by (auto simp: is_list_def)
  show thesis
  proof (cases "P p")
    case True
    obtain m1 where "list_del p m = Ret m1" "is_list m1 head (before @ rest)" "dom m1 = dom m"
      "m1 p = Some \<lparr>lnext = LIST_POISON1, lprev = LIST_POISON2\<rparr>" by (rule list_del_is_list [OF assms])
    with True ne show thesis by (intro that [of m1]) (simp_all add: delete_if_def)
  next
    case False
    with assms ne show thesis by (intro that [of m]) (simp_all add: delete_if_def)
  qed
qed

lemma safe_loop_step: "p \<noteq> head \<Longrightarrow> body p m = Ret m1 \<Longrightarrow> node_get n m1 = Ret nn \<Longrightarrow>
    for_each_safe_loop body head p n m = for_each_safe_loop body head n (lnext nn) m1"
  by (subst for_each_safe_loop.simps) simp

lemma safe_loop_end: "for_each_safe_loop body head head n m = Some (Ret m)"
  by (subst for_each_safe_loop.simps) simp

lemma safe_loop_deletes:
  "is_list m head (before @ p # rest) \<Longrightarrow>
    \<exists>m'. for_each_safe_loop (delete_if P) head p (hd (rest @ [head])) m = Some (Ret m') \<and>
      is_list m' head (before @ filter (\<lambda>x. \<not> P x) (p # rest))"
proof (induction rest arbitrary: before p m)
  case Nil
  obtain m1 where m1: "delete_if P p m = Ret m1" "is_list m1 head ((before @ filter (\<lambda>x. \<not> P x) [p]) @ [])" "p \<noteq> head"
    by (rule delete_if_step [OF Nil])
  obtain n where "node_get head m1 = Ret n"
    by (rule is_list_next_get [of m1 head "[]" "before @ filter (\<lambda>x. \<not> P x) [p]"]) (use m1(2) in simp_all)
  with m1 safe_loop_step [of p head "delete_if P" m m1 head n] show ?case
    by (simp add: safe_loop_end)
next
  case (Cons q rest)
  let ?before = "before @ filter (\<lambda>x. \<not> P x) [p]"
  obtain m1 where m1: "delete_if P p m = Ret m1" "is_list m1 head (?before @ q # rest)" "p \<noteq> head"
    by (rule delete_if_step [OF Cons.prems])
  obtain n where n: "node_get q m1 = Ret n" "lnext n = hd (rest @ [head])"
    by (rule is_list_next_get [of m1 head "?before @ [q]" rest]) (use m1(2) in simp_all)
  from Cons.IH [OF m1(2)] obtain m' where m': "for_each_safe_loop (delete_if P) head q (hd (rest @ [head])) m1 = Some (Ret m')"
    "is_list m' head (?before @ filter (\<lambda>x. \<not> P x) (q # rest))" by blast
  have "for_each_safe_loop (delete_if P) head p q m = Some (Ret m')"
    using safe_loop_step [of p head "delete_if P" m m1 q n] m1 n m'(1) by simp
  moreover have "?before @ filter (\<lambda>x. \<not> P x) (q # rest) = before @ filter (\<lambda>x. \<not> P x) (p # q # rest)" by simp
  ultimately show ?case using m'(2) by (metis append_Cons list.sel(1))
qed

lemma plain_loop_step: "p \<noteq> head \<Longrightarrow> body p m = Ret m1 \<Longrightarrow> node_get p m1 = Ret n \<Longrightarrow>
    for_each_loop body head p m = for_each_loop body head (lnext n) m1"
  by (subst for_each_loop.simps) simp

lemma poison_stop:
  assumes "is_list m head (before @ p # rest)" and "m LIST_POISON1 = None" and "P p"
  shows "for_each_loop (delete_if P) head p m = Some Fault"
proof -
  obtain m1 where m1: "delete_if P p m = Ret m1" "dom m1 = dom m" "p \<noteq> head"
    "m1 p = Some \<lparr>lnext = LIST_POISON1, lprev = LIST_POISON2\<rparr>"
    by (rule delete_if_step [OF assms(1), of P]) (use assms(3) in blast)
  have "m1 LIST_POISON1 = None" using m1(2) assms(2) by (metis domIff)
  then have g: "node_get LIST_POISON1 m1 = Fault" by (simp add: node_get_def)
  then have "delete_if P LIST_POISON1 m1 = Fault \<or> delete_if P LIST_POISON1 m1 = Ret m1"
    by (simp add: delete_if_def list_del_def)
  moreover have "LIST_POISON1 \<noteq> head"
  proof -
    obtain n where "node_get head m = Ret n"
      by (rule is_list_next_get [of m head "[]" "before @ p # rest"]) (use assms(1) in simp_all)
    with assms(2) show ?thesis by (auto simp: node_get_def)
  qed
  ultimately have "for_each_loop (delete_if P) head LIST_POISON1 m1 = Some Fault"
    using g by (subst for_each_loop.simps) auto
  moreover have "node_get p m1 = Ret \<lparr>lnext = LIST_POISON1, lprev = LIST_POISON2\<rparr>" using m1(4) by (simp add: node_get_def)
  ultimately show ?thesis using plain_loop_step [OF m1(3), of "delete_if P" m m1] m1(1) by simp
qed

lemma plain_loop_faults:
  "is_list m head (before @ p # rest) \<Longrightarrow> m LIST_POISON1 = None \<Longrightarrow> \<exists>x \<in> set (p # rest). P x \<Longrightarrow>
    for_each_loop (delete_if P) head p m = Some Fault"
proof (induction rest arbitrary: before p)
  case (Nil before p)
  then show ?case using poison_stop [OF Nil(1)] by simp
next
  case (Cons q rest before p)
  show ?case
  proof (cases "P p")
    case True
    with poison_stop [OF Cons.prems(1,2)] show ?thesis by simp
  next
    case False
    obtain n where n: "node_get p m = Ret n" "lnext n = q"
      by (rule is_list_next_get [of m head "before @ [p]" "q # rest"]) (use Cons.prems(1) in simp_all)
    have "p \<noteq> head" using Cons.prems(1) by (auto simp: is_list_def)
    moreover have "delete_if P p m = Ret m" using False by (simp add: delete_if_def)
    ultimately show ?thesis
      using plain_loop_step [of p head "delete_if P" m m n] n False Cons.IH [of "before @ [p]" q] Cons.prems by simp
  qed
qed

section \<open>Properties\<close>

text \<open>A head at 1 and three entries, not linked yet.\<close>

definition sample_mem :: list_mem where
  "sample_mem = (\<lambda>p. if p = 1 then Some \<lparr>lnext = 1, lprev = 1\<rparr> else if p \<in> {2, 3, 4} then Some \<lparr>lnext = 0, lprev = 0\<rparr> else None)"

lemma sample_is_list: "is_list sample_mem 1 []"
  by (simp add: is_list_def nxt_def prv_def sample_mem_def)

text \<open>C6. The list refines a sequence: from a memory that represents a sequence, any run of \<open>list_add_tail\<close> of new
  nodes and \<open>list_del\<close> of entries follows no wild pointer and ends in a memory that represents the
  sequence with the same entries appended and removed, and \<open>list_empty\<close> tells whether it is empty.\<close>

theorem list_refines_sequence:
  assumes "is_list m head xs" and "spec_run_ok (dom m) head ops xs"
  shows "\<exists>m'. list_run head ops m = Ret m' \<and> is_list m' head (fold spec_exec ops xs) \<and>
    list_empty head m' = Ret (fold spec_exec ops xs = [])"
  using list_run_refines [OF assms] is_list_empty by blast

theorem list_refines_sequence_witness:
  "\<exists>m'. list_run 1 [AddTail 2, AddTail 3, AddTail 4, Delete 3, AddTail 3] sample_mem = Ret m' \<and> is_list m' 1 [2, 4, 3]"
  using list_refines_sequence [OF sample_is_list, of "[AddTail 2, AddTail 3, AddTail 4, Delete 3, AddTail 3]"]
  by (auto simp: sample_mem_def dom_def)

text \<open>Deleting entries while iterating: \<open>list_for_each_entry_safe\<close> visits every entry once, ends, and leaves
  the entries that were not deleted, in order; with \<open>list_for_each_entry\<close> the first deletion leads to
  the poison address, a fault when no node lives there.\<close>

theorem iterate_and_delete:
  assumes "is_list m head xs"
  shows "(\<exists>m'. list_for_each_entry_safe (delete_if P) head m = Some (Ret m') \<and> is_list m' head (filter (\<lambda>x. \<not> P x) xs)) \<and>
    (m LIST_POISON1 = None \<and> (\<exists>x \<in> set xs. P x) \<longrightarrow> list_for_each_entry (delete_if P) head m = Some Fault)"
proof (cases xs)
  case Nil
  obtain n where n: "node_get head m = Ret n" "lnext n = head"
    by (rule is_list_next_get [of m head "[]" xs]) (use assms Nil in simp_all)
  with assms Nil show ?thesis by (simp add: list_for_each_entry_safe_def safe_loop_end)
next
  case (Cons p rest)
  obtain n where n: "node_get head m = Ret n" "lnext n = p"
    by (rule is_list_next_get [of m head "[]" xs]) (use assms Cons in simp_all)
  obtain nn where nn: "node_get p m = Ret nn" "lnext nn = hd (rest @ [head])"
    by (rule is_list_next_get [of m head "[p]" rest]) (use assms Cons in simp_all)
  have list: "is_list m head ([] @ p # rest)" using assms Cons by simp
  from safe_loop_deletes [OF list, of P] plain_loop_faults [OF list, of P] n nn Cons show ?thesis
    by (simp add: list_for_each_entry_safe_def list_for_each_entry_def)
qed

theorem iterate_and_delete_witness:
  "\<exists>m m'. is_list m 1 [2, 3, 4] \<and> list_for_each_entry_safe (delete_if (\<lambda>p. p = 3)) 1 m = Some (Ret m') \<and> is_list m' 1 [2, 4]"
proof -
  obtain m where "is_list m 1 [2, 3, 4]"
    using list_run_refines [OF sample_is_list, of "[AddTail 2, AddTail 3, AddTail 4]"] by (auto simp: sample_mem_def dom_def)
  with iterate_and_delete [OF this, of "\<lambda>p. p = 3"] show ?thesis by auto
qed

end
