(* ===== verification/Ota.thy ===== *)
theory Ota
  imports C_Loops
begin

text \<open>
  Firmware update over \<open>/dev/ota\<close> (\<open>rtsmart_hal/components/k230_ota/k230_ota.c\<close>). The system is a record:
  the answers its calls will give (one for a call that is made once, a list of outcomes for \<open>write\<close>
  and \<open>read\<close>), the rest of the image file, the bytes the device has accepted, the open descriptors and
  the number of live allocations. \<open>None\<close> is a loop that is still waiting when the outcomes are used up.
\<close>

section \<open>The system\<close>

datatype outcome = Err errno | Done nat

record ota_sys =
  oa_malloc_buf :: bool
  oa_malloc_ctx :: bool
  oa_open_image :: int
  oa_open_dev :: int
  oa_lseek :: int
  oa_writes :: "outcome list"
  oa_reads :: "outcome list"
  oa_image :: bytes
  oa_written :: bytes
  oa_fds :: "int list"
  oa_live :: nat

record k230_ota_ctx =
  oc_fd :: int
  oc_total_written :: u64

definition sys_close :: "int \<Rightarrow> ota_sys \<Rightarrow> ota_sys" where
  "sys_close fd s = s\<lparr>oa_fds := remove1 fd (oa_fds s)\<rparr>"

definition sys_malloc :: "ota_sys \<Rightarrow> ota_sys" where
  "sys_malloc s = s\<lparr>oa_live := oa_live s + 1\<rparr>"

definition sys_free :: "ota_sys \<Rightarrow> ota_sys" where
  "sys_free s = s\<lparr>oa_live := oa_live s - 1\<rparr>"

text \<open>
  \<open>read\<close> of \<open>cnt\<close> bytes: short reads are allowed, an empty one is the end of the file.
\<close>

definition sys_read :: "nat \<Rightarrow> ota_sys \<Rightarrow> ((errno + bytes) \<times> ota_sys) option" where
  "sys_read cnt s =
     (case oa_reads s of
        [] \<Rightarrow> None
      | Err e # rs \<Rightarrow> Some (Inl e, s\<lparr>oa_reads := rs\<rparr>)
      | Done n # rs \<Rightarrow>
          let d = take (min cnt (max 1 n)) (oa_image s)
          in Some (Inr d, s\<lparr>oa_reads := rs, oa_image := drop (length d) (oa_image s)\<rparr>))"

section \<open>Code\<close>

definition k230_ota_create :: "ota_sys \<Rightarrow> k230_ota_ctx option \<times> ota_sys" where
  "k230_ota_create s =
     (if \<not> oa_malloc_ctx s then (None, s)
      else
        let s = sys_malloc s; fd = oa_open_dev s in
        if fd < 0 then (None, sys_free s)
        else
          let s = s\<lparr>oa_fds := fd # oa_fds s\<rparr> in
          if oa_lseek s < 0 then (None, sys_free (sys_close fd s))
          else (Some \<lparr>oc_fd = fd, oc_total_written = 0\<rparr>, s))"

text \<open>
  The loop of \<open>k230_ota_update\<close> at offset \<open>p\<close> of the buffer; \<open>remaining\<close> has the width of \<open>size_t\<close>.
  \<open>write\<close> takes at most the bytes it is given, and may take none.
\<close>

function ota_write_loop :: "bytes \<Rightarrow> nat \<Rightarrow> u64 \<Rightarrow> ota_sys \<Rightarrow> (unit cres \<times> ota_sys) option" where
  "ota_write_loop buf p remaining s =
     (if remaining = 0 then Some (Ret (), s)
      else case oa_writes s of
        [] \<Rightarrow> None
      | Err e # ws \<Rightarrow>
          if e = EINTR then ota_write_loop buf p remaining (s\<lparr>oa_writes := ws\<rparr>)
          else Some (Fail EGENERIC, s\<lparr>oa_writes := ws\<rparr>)
      | Done k # ws \<Rightarrow>
          let n = min k (unat remaining) in
          if p + n \<le> length buf then
            ota_write_loop buf (p + n) (remaining - of_nat n)
              (s\<lparr>oa_writes := ws, oa_written := oa_written s @ sub_bytes p n buf\<rparr>)
          else Some (Fault, s\<lparr>oa_writes := ws\<rparr>))"
  by pat_completeness auto

termination by (relation "measure (\<lambda>(buf, p, remaining, s). length (oa_writes s))") auto

declare ota_write_loop.simps [simp del]

definition k230_ota_update ::
    "k230_ota_ctx option \<Rightarrow> bytes option \<Rightarrow> u64 \<Rightarrow> ota_sys \<Rightarrow> (unit cres \<times> k230_ota_ctx option \<times> ota_sys) option" where
  "k230_ota_update ctx buf sz s =
     (case ctx of None \<Rightarrow> Some (Fail EGENERIC, ctx, s)
      | Some c \<Rightarrow>
        if oc_fd c < 0 \<or> buf = None \<or> sz = 0 then Some (Fail EGENERIC, ctx, s)
        else case ota_write_loop (the buf) 0 sz s of
          None \<Rightarrow> None
        | Some (Ret u, s) \<Rightarrow> Some (Ret (), Some (c\<lparr>oc_total_written := oc_total_written c + sz\<rparr>), s)
        | Some (Fail e, s) \<Rightarrow> Some (Fail e, ctx, s)
        | Some (Fault, s) \<Rightarrow> Some (Fault, ctx, s))"

definition k230_ota_destroy :: "k230_ota_ctx option \<Rightarrow> ota_sys \<Rightarrow> ota_sys" where
  "k230_ota_destroy ctx s =
     (case ctx of None \<Rightarrow> s
      | Some c \<Rightarrow> sys_free (if oc_fd c \<ge> 0 then sys_close (oc_fd c) s else s))"

text \<open>What the write loop leaves: the queue of reads and the image, the descriptors, the allocations.\<close>

definition same_rest :: "ota_sys \<Rightarrow> ota_sys \<Rightarrow> bool" where
  "same_rest s s' \<longleftrightarrow> oa_reads s' = oa_reads s \<and> oa_image s' = oa_image s \<and> oa_fds s' = oa_fds s \<and> oa_live s' = oa_live s"

lemma same_rest_trans: "same_rest s s' \<Longrightarrow> same_rest s' s'' \<Longrightarrow> same_rest s s''"
  by (simp add: same_rest_def)

lemma same_rest_refl [simp]: "same_rest s s"
  by (simp add: same_rest_def)

lemma same_rest_writes [simp]:
  "same_rest s (s\<lparr>oa_writes := ws\<rparr>)" "same_rest s (s\<lparr>oa_writes := ws, oa_written := b\<rparr>)"
  by (simp_all add: same_rest_def)

lemma write_loop_end [simp]: "ota_write_loop buf p 0 s = Some (Ret (), s)"
  by (simp add: ota_write_loop.simps)

lemma write_loop_wait: "rm \<noteq> 0 \<Longrightarrow> oa_writes s = [] \<Longrightarrow> ota_write_loop buf p rm s = None"
  by (simp add: ota_write_loop.simps)

lemma write_loop_Err: "rm \<noteq> 0 \<Longrightarrow> oa_writes s = Err e # ws \<Longrightarrow>
    ota_write_loop buf p rm s =
      (if e = EINTR then ota_write_loop buf p rm (s\<lparr>oa_writes := ws\<rparr>) else Some (Fail EGENERIC, s\<lparr>oa_writes := ws\<rparr>))"
  by (subst ota_write_loop.simps) simp

lemma write_loop_Done: "rm \<noteq> 0 \<Longrightarrow> oa_writes s = Done k # ws \<Longrightarrow> n = min k (unat rm) \<Longrightarrow>
    ota_write_loop buf p rm s =
      (if p + n \<le> length buf
       then ota_write_loop buf (p + n) (rm - of_nat n) (s\<lparr>oa_writes := ws, oa_written := oa_written s @ sub_bytes p n buf\<rparr>)
       else Some (Fault, s\<lparr>oa_writes := ws\<rparr>))"
  by (subst ota_write_loop.simps) (simp add: Let_def)

text \<open>One iteration at a time, with the outcomes the system has left.\<close>

lemma write_loop_induct [case_names stop wait interrupted error partial overrun]:
  fixes P :: "bytes \<Rightarrow> nat \<Rightarrow> u64 \<Rightarrow> ota_sys \<Rightarrow> bool"
  assumes stop: "\<And>buf p s. P buf p 0 s"
    and wait: "\<And>buf p rm s. rm \<noteq> 0 \<Longrightarrow> oa_writes s = [] \<Longrightarrow> P buf p rm s"
    and interrupted: "\<And>buf p rm s ws. rm \<noteq> 0 \<Longrightarrow> oa_writes s = Err EINTR # ws \<Longrightarrow> P buf p rm (s\<lparr>oa_writes := ws\<rparr>) \<Longrightarrow> P buf p rm s"
    and error: "\<And>buf p rm s e ws. rm \<noteq> 0 \<Longrightarrow> oa_writes s = Err e # ws \<Longrightarrow> e \<noteq> EINTR \<Longrightarrow> P buf p rm s"
    and part: "\<And>buf p rm s k ws n. rm \<noteq> 0 \<Longrightarrow> oa_writes s = Done k # ws \<Longrightarrow> n = min k (unat rm) \<Longrightarrow> p + n \<le> length buf \<Longrightarrow>
      P buf (p + n) (rm - of_nat n) (s\<lparr>oa_writes := ws, oa_written := oa_written s @ sub_bytes p n buf\<rparr>) \<Longrightarrow> P buf p rm s"
    and overrun: "\<And>buf p rm s k ws n. rm \<noteq> 0 \<Longrightarrow> oa_writes s = Done k # ws \<Longrightarrow> n = min k (unat rm) \<Longrightarrow> \<not> p + n \<le> length buf \<Longrightarrow> P buf p rm s"
  shows "P buf p rm s"
proof (induction buf p rm s rule: ota_write_loop.induct)
  case (1 buf p rm s)
  show ?case
  proof (cases "rm = 0")
    case rm: False
    show ?thesis
    proof (cases "oa_writes s")
      case Nil
      with rm show ?thesis by (rule wait)
    next
      case (Cons w ws)
      show ?thesis
      proof (cases w)
        case (Err e)
        show ?thesis
        proof (cases "e = EINTR")
          case True
          then show ?thesis using "1.IH"(1) [OF rm Cons Err True] interrupted rm Cons Err by blast
        qed (use error rm Cons Err in blast)
      next
        case (Done k)
        show ?thesis
        proof (cases "p + min k (unat rm) \<le> length buf")
          case True
          then show ?thesis using "1.IH"(2) [OF rm Cons Done refl True] part rm Cons Done by blast
        qed (use overrun rm Cons Done in blast)
      qed
    qed
  qed (use stop in simp)
qed

lemma write_loop_rest: "ota_write_loop buf p rm s = Some (r, s') \<Longrightarrow> same_rest s s'"
proof (induction buf p rm s rule: write_loop_induct)
  case (interrupted buf p rm s ws)
  then show ?case by (auto simp: write_loop_Err same_rest_def)
next
  case (partial buf p rm s k ws n)
  then show ?case by (auto simp: write_loop_Done same_rest_def)
qed (auto simp: write_loop_wait write_loop_Err write_loop_Done)

lemma update_rest: "k230_ota_update ctx buf sz s = Some (r, ctx', s') \<Longrightarrow> same_rest s s'"
  by (auto simp: k230_ota_update_def dest: write_loop_rest split: option.splits prod.splits cres.splits if_splits)

lemma sys_read_reads: "sys_read cnt s = Some (r, s') \<Longrightarrow> length (oa_reads s') < length (oa_reads s)"
  by (auto simp: sys_read_def Let_def split: list.splits outcome.splits)

text \<open>
  The loop of \<open>k230_ota_write_file\<close>. The buffer holds \<open>chunk_size\<close> bytes, whatever was there before
  beyond those just read. \<open>Ret\<close> is the end of the file, the only exit that sets \<open>ret\<close> to zero.
\<close>

function ota_copy_loop ::
    "u64 \<Rightarrow> bytes \<Rightarrow> k230_ota_ctx option \<Rightarrow> ota_sys \<Rightarrow> (unit cres \<times> k230_ota_ctx option \<times> ota_sys) option" where
  "ota_copy_loop chunk_size buf ctx s =
     (case sys_read (unat chunk_size) s of
        None \<Rightarrow> None
      | Some (Inl e, s) \<Rightarrow> Some (Fail EGENERIC, ctx, s)
      | Some (Inr d, s) \<Rightarrow>
          if d = [] then Some (Ret (), ctx, s)
          else case wrn buf 0 d of
            Ret buf \<Rightarrow>
              (case k230_ota_update ctx (Some buf) (of_nat (length d)) s of
                 None \<Rightarrow> None
               | Some (Ret u, ctx, s) \<Rightarrow> ota_copy_loop chunk_size buf ctx s
               | Some (Fail e, ctx, s) \<Rightarrow> Some (Fail EGENERIC, ctx, s)
               | Some (Fault, ctx, s) \<Rightarrow> Some (Fault, ctx, s))
          | _ \<Rightarrow> Some (Fault, ctx, s))"
  by pat_completeness auto

termination
  by (relation "measure (\<lambda>(chunk_size, buf, ctx, s). length (oa_reads s))")
    (auto dest!: sys_read_reads update_rest simp: same_rest_def)

declare ota_copy_loop.simps [simp del]

text \<open>Everything after the label \<open>_exit\<close>.\<close>

definition ota_exit :: "int \<Rightarrow> k230_ota_ctx option \<Rightarrow> bool \<Rightarrow> ota_sys \<Rightarrow> ota_sys" where
  "ota_exit fd_img ctx buf s =
     (let s = (if fd_img \<ge> 0 then sys_close fd_img s else s);
          s = (if ctx \<noteq> None then k230_ota_destroy ctx s else s)
      in if buf then sys_free s else s)"

text \<open>\<open>garbage\<close> is what \<open>malloc\<close> leaves in the buffer.\<close>

definition k230_ota_write_file :: "bool \<Rightarrow> bytes \<Rightarrow> u64 \<Rightarrow> ota_sys \<Rightarrow> (unit cres \<times> ota_sys) option" where
  "k230_ota_write_file image_path garbage chunk_size s =
     (if \<not> image_path \<or> chunk_size = 0 then Some (Fail EGENERIC, s)
      else if \<not> oa_malloc_buf s then Some (Fail EGENERIC, ota_exit (-1) None False s)
      else
        let s = sys_malloc s; buf = pad_to (unat chunk_size) (take (unat chunk_size) garbage); fd_img = oa_open_image s in
        if fd_img < 0 then Some (Fail EGENERIC, ota_exit fd_img None True s)
        else
          let s = s\<lparr>oa_fds := fd_img # oa_fds s\<rparr> in
          case k230_ota_create s of
            (None, s) \<Rightarrow> Some (Fail EGENERIC, ota_exit fd_img None True s)
          | (Some c, s) \<Rightarrow>
              (case ota_copy_loop chunk_size buf (Some c) s of
                 None \<Rightarrow> None
               | Some (r, ctx, s) \<Rightarrow> Some (r, ota_exit fd_img ctx True s)))"

section \<open>What reaches the device\<close>

lemma sub_bytes_append: "p + n + m \<le> length buf \<Longrightarrow> sub_bytes p n buf @ sub_bytes (p + n) m buf = sub_bytes p (n + m) buf"
  by (simp add: sub_bytes_def take_add drop_drop add.commute [of p])

lemma unat_of_nat_le:
  assumes "n \<le> unat (w :: u64)"
  shows "unat (of_nat n :: u64) = n"
proof -
  have "unat w < 2 ^ LENGTH(64)" by (rule unsigned_less)
  then have "n < 2 ^ LENGTH(64)" using assms by linarith
  then show ?thesis by (intro of_nat_inverse [OF refl])
qed

lemma unat_minus_le: "n \<le> unat (rm :: u64) \<Longrightarrow> unat (rm - of_nat n) = unat rm - n"
  by (simp add: unat_sub word_le_nat_alt unat_of_nat_le)

lemma write_loop_written:
  "ota_write_loop buf p rm s = Some (r, s') \<Longrightarrow> p + unat rm \<le> length buf \<Longrightarrow>
   r \<noteq> Fault \<and> (\<exists>k \<le> unat rm. oa_written s' = oa_written s @ sub_bytes p k buf \<and> (r = Ret () \<longrightarrow> k = unat rm))"
proof (induction buf p rm s rule: write_loop_induct)
  case (stop buf p s)
  then show ?case by (auto simp: sub_bytes_def)
next
  case (interrupted buf p rm s ws)
  then show ?case by (simp add: write_loop_Err)
next
  case (error buf p rm s e ws)
  then show ?case by (auto simp: write_loop_Err sub_bytes_def intro!: exI [of _ 0])
next
  case (partial buf p rm s k ws n)
  have n: "n \<le> unat rm" using partial.hyps(3) by simp
  then have rm: "unat (rm - of_nat n) = unat rm - n" by (rule unat_minus_le)
  obtain k' where "r \<noteq> Fault" "k' \<le> unat rm - n"
    "oa_written s' = (oa_written s @ sub_bytes p n buf) @ sub_bytes (p + n) k' buf" "r = Ret () \<longrightarrow> k' = unat rm - n"
  proof -
    assume "\<And>k'. r \<noteq> Fault \<Longrightarrow> k' \<le> unat rm - n \<Longrightarrow>
      oa_written s' = (oa_written s @ sub_bytes p n buf) @ sub_bytes (p + n) k' buf \<Longrightarrow>
      r = Ret () \<longrightarrow> k' = unat rm - n \<Longrightarrow> thesis"
    moreover have "p + n + unat (rm - of_nat n) \<le> length buf" using partial.prems(2) n rm by linarith
    ultimately show thesis
      using partial.IH partial.prems(1) partial.hyps(4)
      by (auto simp: write_loop_Done [OF partial.hyps(1,2,3)] rm simp del: append_assoc)
  qed
  moreover have "sub_bytes p n buf @ sub_bytes (p + n) k' buf = sub_bytes p (n + k') buf"
    using partial.prems n calculation(2) by (intro sub_bytes_append) linarith
  ultimately show ?case using n by (intro conjI exI [of _ "n + k'"]) auto
qed (auto simp: write_loop_wait write_loop_Err write_loop_Done)

lemma update_written:
  assumes "k230_ota_update (Some c) (Some buf) sz s = Some (r, ctx, s')" and "unat sz \<le> length buf"
  shows "r \<noteq> Fault \<and> (\<exists>c'. ctx = Some c' \<and> oc_fd c' = oc_fd c) \<and>
    (\<exists>k \<le> unat sz. oa_written s' = oa_written s @ take k buf \<and> (r = Ret () \<longrightarrow> k = unat sz))"
proof (cases "oc_fd c < 0 \<or> sz = 0")
  case True
  then show ?thesis using assms(1) by (auto simp: k230_ota_update_def intro!: exI [of _ 0])
next
  case False
  then show ?thesis
    using assms write_loop_written [of buf 0 sz s]
    by (fastforce simp: k230_ota_update_def sub_bytes_def split: option.splits prod.splits cres.splits)
qed

lemma sys_read_cases:
  assumes "sys_read cnt s = Some (rd, s1)" and "0 < cnt"
  shows "oa_fds s1 = oa_fds s \<and> oa_live s1 = oa_live s \<and> oa_written s1 = oa_written s \<and>
    (case rd of Inl e \<Rightarrow> oa_image s1 = oa_image s
     | Inr d \<Rightarrow> length d \<le> cnt \<and> oa_image s = d @ oa_image s1 \<and> (d = [] \<longrightarrow> oa_image s = []))"
proof (cases "oa_reads s")
  case (Cons w ws)
  have split: "take m xs @ drop (length (take m xs)) xs = xs" for m and xs :: bytes
    by (metis append_eq_conv_conj append_take_drop_id)
  show ?thesis
  proof (cases w)
    case (Done n)
    then show ?thesis
      using assms Cons split [of "min cnt (max 1 n)" "oa_image s"]
      by (auto simp: sys_read_def Let_def)
  qed (use assms Cons in \<open>auto simp: sys_read_def\<close>)
qed (use assms in \<open>simp add: sys_read_def\<close>)

lemma copy_loop_image:
  "ota_copy_loop chunk buf ctx s = Some (r, ctx', s') \<Longrightarrow> length buf = unat chunk \<Longrightarrow> chunk \<noteq> 0 \<Longrightarrow> ctx = Some c \<Longrightarrow>
   r \<noteq> Fault \<and> oa_fds s' = oa_fds s \<and> oa_live s' = oa_live s \<and> (\<exists>c'. ctx' = Some c' \<and> oc_fd c' = oc_fd c) \<and>
   (\<exists>k. oa_written s' = oa_written s @ take k (oa_image s)) \<and>
   (r = Ret () \<longrightarrow> oa_written s' = oa_written s @ oa_image s)"
proof (induction chunk buf ctx s arbitrary: c rule: ota_copy_loop.induct)
  case (1 chunk buf ctx s)
  have pos: "0 < unat chunk" using "1.prems" by (simp add: unat_gt_0)
  obtain rd s1 where rd: "sys_read (unat chunk) s = Some (rd, s1)"
    using "1.prems"(1) by (subst (asm) ota_copy_loop.simps) (auto split: option.splits)
  note c1 = sys_read_cases [OF rd pos]
  show ?case
  proof (cases rd)
    case (Inl e)
    then have "r = Fail EGENERIC" "ctx' = ctx" "s' = s1"
      using "1.prems"(1) rd by (simp_all add: ota_copy_loop.simps [of chunk])
    then show ?thesis using c1 Inl "1.prems"(4) by (auto intro!: exI [of _ 0])
  next
    case (Inr d)
    show ?thesis
    proof (cases "d = []")
      case True
      then have "r = Ret ()" "ctx' = ctx" "s' = s1"
        using "1.prems"(1) rd Inr by (simp_all add: ota_copy_loop.simps [of chunk])
      then show ?thesis using c1 Inr True "1.prems"(4) by auto
    next
      case False
      define buf1 where "buf1 = d @ drop (length d) buf"
      have d: "length d \<le> unat chunk" "oa_image s = d @ oa_image s1" using c1 Inr by auto
      have w: "wrn buf 0 d = Ret buf1" using d "1.prems"(2) by (simp add: wrn_def buf1_def)
      have len: "length buf1 = unat chunk" using d "1.prems"(2) by (simp add: buf1_def)
      have sz: "unat (of_nat (length d) :: u64) = length d"
        using d(1) by (rule unat_of_nat_le)
      obtain r2 ctx2 s2 where u: "k230_ota_update ctx (Some buf1) (of_nat (length d)) s1 = Some (r2, ctx2, s2)"
        using "1.prems"(1) rd Inr False w by (subst (asm) ota_copy_loop.simps) (auto split: option.splits)
      have rest: "same_rest s1 s2" using u by (rule update_rest)
      obtain c2 k where u2: "r2 \<noteq> Fault" "ctx2 = Some c2" "oc_fd c2 = oc_fd c" "k \<le> length d"
        "oa_written s2 = oa_written s1 @ take k buf1" "r2 = Ret () \<longrightarrow> k = length d"
        using update_written [OF u [unfolded "1.prems"(4)]] d(1) unfolding len sz by blast
      have k: "take k buf1 = take k d" using u2(4) by (simp add: buf1_def)
      have eq: "ota_copy_loop chunk buf ctx s = (case r2 of Ret u \<Rightarrow> ota_copy_loop chunk buf1 ctx2 s2
          | Fail e \<Rightarrow> Some (Fail EGENERIC, ctx2, s2) | Fault \<Rightarrow> Some (Fault, ctx2, s2))"
        using rd Inr False w u by (subst ota_copy_loop.simps) (simp split: cres.splits)
      have same: "oa_fds s2 = oa_fds s" "oa_live s2 = oa_live s" "oa_written s2 = oa_written s @ take k d" "oa_image s2 = oa_image s1"
        using rest c1 u2(5) k by (auto simp: same_rest_def)
      show ?thesis
      proof (cases r2)
        case (Ret v)
        have IH: "r \<noteq> Fault \<and> oa_fds s' = oa_fds s2 \<and> oa_live s' = oa_live s2 \<and> (\<exists>c'. ctx' = Some c' \<and> oc_fd c' = oc_fd c2) \<and>
            (\<exists>j. oa_written s' = oa_written s2 @ take j (oa_image s2)) \<and> (r = Ret () \<longrightarrow> oa_written s' = oa_written s2 @ oa_image s2)"
          proof (rule "1.IH" [OF rd refl Inr False w u refl Ret refl])
          show "ota_copy_loop chunk buf1 ctx2 s2 = Some (r, ctx', s')" using "1.prems"(1) eq Ret by simp
        qed (use "1.prems"(3) len u2(2) in simp_all)
        then obtain j where "oa_written s' = oa_written s2 @ take j (oa_image s2)" by blast
        then have "oa_written s' = oa_written s @ take (length d + j) (oa_image s)"
          using u2(6) Ret d(2) same(3,4) by simp
        moreover have "r = Ret () \<longrightarrow> oa_written s' = oa_written s @ oa_image s"
          using IH u2(6) Ret d(2) same(3,4) by simp
        ultimately show ?thesis using IH u2(3) same(1,2) by (intro conjI exI [of _ "length d + j"]) simp_all
      next
        case (Fail e)
        then have "r = Fail EGENERIC" "ctx' = ctx2" "s' = s2" using "1.prems"(1) eq by simp_all
        moreover have "take k d = take k (oa_image s)" using u2(4) d(2) by simp
        ultimately show ?thesis using u2(2,3) same by (intro conjI exI [of _ k]) simp_all
      qed (use u2 in simp)
    qed
  qed
qed

lemma create_resources:
  assumes "k230_ota_create s = (ctx, s')"
  shows "oa_written s' = oa_written s \<and> oa_image s' = oa_image s \<and>
    (case ctx of None \<Rightarrow> oa_fds s' = oa_fds s \<and> oa_live s' = oa_live s
     | Some c \<Rightarrow> oc_fd c \<ge> 0 \<and> oa_fds s' = oc_fd c # oa_fds s \<and> oa_live s' = oa_live s + 1)"
  using assms by (auto simp: k230_ota_create_def sys_malloc_def sys_free_def sys_close_def Let_def split: if_splits)

lemmas exit_defs = ota_exit_def k230_ota_destroy_def sys_free_def sys_close_def sys_malloc_def

text \<open>C10. When \<open>k230_ota_write_file\<close> returns, for any chunk size, any short reads and writes and any errors, it
  has closed every descriptor it opened and freed every allocation; the device has been given a prefix of the image in
  order, and all of it when the function reports success.
\<close>

theorem ota_device_gets_image:
  assumes "k230_ota_write_file image_path garbage chunk_size s = Some (r, s')"
  shows "r \<noteq> Fault \<and> oa_fds s' = oa_fds s \<and> oa_live s' = oa_live s \<and>
    (\<exists>k. oa_written s' = oa_written s @ take k (oa_image s)) \<and>
    (r = Ret () \<longrightarrow> oa_written s' = oa_written s @ oa_image s)"
proof (cases "\<not> image_path \<or> chunk_size = 0 \<or> \<not> oa_malloc_buf s \<or> oa_open_image s < 0")
  case True
  then show ?thesis
    using assms by (auto simp: k230_ota_write_file_def exit_defs intro!: exI [of _ 0] split: if_splits)
next
  case False
  define img where "img = oa_open_image s"
  define s1 where "s1 = (sys_malloc s)\<lparr>oa_fds := img # oa_fds s\<rparr>"
  define buf where "buf = pad_to (unat chunk_size) (take (unat chunk_size) garbage)"
  have img: "img \<ge> 0" and s1: "oa_written s1 = oa_written s" "oa_image s1 = oa_image s" "oa_fds s1 = img # oa_fds s"
    "oa_live s1 = oa_live s + 1"
    using False by (simp_all add: img_def s1_def sys_malloc_def)
  have len: "length buf = unat chunk_size" by (simp add: buf_def)
  have eq: "k230_ota_write_file image_path garbage chunk_size s = (case k230_ota_create s1 of
      (None, s2) \<Rightarrow> Some (Fail EGENERIC, ota_exit img None True s2)
    | (Some c, s2) \<Rightarrow> (case ota_copy_loop chunk_size buf (Some c) s2 of None \<Rightarrow> None
        | Some (r, ctx, s3) \<Rightarrow> Some (r, ota_exit img ctx True s3)))"
    using False by (simp add: k230_ota_write_file_def img_def s1_def buf_def sys_malloc_def Let_def split: prod.split option.split)
  obtain ctx s2 where c: "k230_ota_create s1 = (ctx, s2)" by (cases "k230_ota_create s1")
  note cr = create_resources [OF c]
  show ?thesis
  proof (cases ctx)
    case None
    then have "r = Fail EGENERIC" "s' = ota_exit img None True s2" using assms eq c by simp_all
    then show ?thesis using cr None img s1 by (auto simp: exit_defs intro!: exI [of _ 0])
  next
    case (Some c0)
    then obtain ctx3 s3 where l: "ota_copy_loop chunk_size buf (Some c0) s2 = Some (r, ctx3, s3)"
      and s': "s' = ota_exit img ctx3 True s3"
      using assms eq c by (auto split: option.splits)
    have "chunk_size \<noteq> 0" using False by simp
    note cl = copy_loop_image [OF l len this refl]
    then obtain c3 where "ctx3 = Some c3" "oc_fd c3 = oc_fd c0" by blast
    then have "oa_fds s' = oa_fds s" "oa_live s' = oa_live s" "oa_written s' = oa_written s3"
      using cl cr Some img s1 by (auto simp: s' exit_defs)
    then show ?thesis using cl cr s1 by simp
  qed
qed

definition ota_example :: ota_sys where
  "ota_example = \<lparr>oa_malloc_buf = True, oa_malloc_ctx = True, oa_open_image = 5, oa_open_dev = 6, oa_lseek = 0,
     oa_writes = [Done 2, Err EINTR, Done 0, Done 9, Done 1], oa_reads = [Done 3, Done 3, Done 3],
     oa_image = [1, 2, 3, 4], oa_written = [], oa_fds = [0, 1, 2], oa_live = 7\<rparr>"

lemmas ota_eval = ota_example_def k230_ota_write_file_def k230_ota_create_def k230_ota_update_def sys_read_def wrn_def
  ota_copy_loop.simps ota_write_loop.simps pad_to_def sub_bytes_def exit_defs

lemma ota_example_run:
  "k230_ota_write_file True [] 3 ota_example =
     Some (Ret (), ota_example\<lparr>oa_writes := [], oa_reads := [], oa_image := [], oa_written := [1, 2, 3, 4]\<rparr>)"
  by (simp add: ota_eval)

theorem ota_device_gets_image_witness:
  "k230_ota_write_file True [] 3 ota_example =
     Some (Ret (), ota_example\<lparr>oa_writes := [], oa_reads := [], oa_image := [], oa_written := [1, 2, 3, 4]\<rparr>) \<and>
   oa_fds ota_example = oa_fds (ota_example\<lparr>oa_writes := [], oa_reads := [], oa_image := [], oa_written := [1, 2, 3, 4]\<rparr>)"
  using ota_device_gets_image [OF ota_example_run] ota_example_run by simp

section \<open>When the update returns\<close>

text \<open>
  How many bytes the coming outcomes offer to take up to the first error that is not an
  interruption, and whether there is no such error.
\<close>

fun offered :: "outcome list \<Rightarrow> nat" where
  "offered [] = 0"
| "offered (Err e # ws) = (if e = EINTR then offered ws else 0)"
| "offered (Done n # ws) = n + offered ws"

definition transient :: "outcome list \<Rightarrow> bool" where
  "transient ws \<longleftrightarrow> (\<forall>e. Err e \<in> set ws \<longrightarrow> e = EINTR)"

lemma transient_simps [simp]:
  "transient (Err e # ws) \<longleftrightarrow> e = EINTR \<and> transient ws" "transient (Done n # ws) \<longleftrightarrow> transient ws" "transient []"
  by (auto simp: transient_def)

definition loop_outcome :: "bytes \<Rightarrow> nat \<Rightarrow> nat \<Rightarrow> ota_sys \<Rightarrow> (unit cres \<times> ota_sys) option \<Rightarrow> bool" where
  "loop_outcome buf p n s res \<longleftrightarrow>
     (if n \<le> offered (oa_writes s) then \<exists>s'. res = Some (Ret (), s') \<and> oa_written s' = oa_written s @ sub_bytes p n buf
      else if transient (oa_writes s) then res = None
      else \<exists>s'. res = Some (Fail EGENERIC, s') \<and> oa_written s' = oa_written s @ sub_bytes p (offered (oa_writes s)) buf)"

lemma loop_outcome_partial:
  assumes "loop_outcome buf (p + m) (n - m) (s\<lparr>oa_writes := ws, oa_written := oa_written s @ sub_bytes p m buf\<rparr>) res"
    and "oa_writes s = Done k # ws" and "m = min k n" and "p + n \<le> length buf"
  shows "loop_outcome buf p n s res"
proof -
  have le: "n - m \<le> offered ws \<longleftrightarrow> n \<le> k + offered ws" using assms(3) by (auto simp: min_def)
  have bytes: "sub_bytes p m buf @ sub_bytes (p + m) j buf = sub_bytes p (m + j) buf" if "m + j \<le> n" for j
    using that assms(4) by (intro sub_bytes_append) simp
  have "m = k" if "\<not> n \<le> k + offered ws" using that assms(3) by simp
  then show ?thesis
    using assms(1,2,3) le bytes [of "n - m"] bytes [of "offered ws"] by (auto simp: loop_outcome_def split: if_splits)
qed

lemma write_loop_returns:
  "p + unat rm \<le> length buf \<Longrightarrow> loop_outcome buf p (unat rm) s (ota_write_loop buf p rm s)"
proof (induction buf p rm s rule: write_loop_induct)
  case (stop buf p s)
  then show ?case by (simp add: loop_outcome_def sub_bytes_def)
next
  case (wait buf p rm s)
  then show ?case by (simp add: loop_outcome_def write_loop_wait unat_eq_0)
next
  case (interrupted buf p rm s ws)
  then show ?case by (auto simp: loop_outcome_def write_loop_Err split: if_splits)
next
  case (error buf p rm s e ws)
  then show ?case by (simp add: loop_outcome_def write_loop_Err unat_eq_0 sub_bytes_def)
next
  case (partial buf p rm s k ws n)
  have n: "n \<le> unat rm" using partial.hyps(3) by simp
  have "unat (rm - of_nat n) = unat rm - n" using n by (rule unat_minus_le)
  then show ?case
    using partial.IH partial.prems partial.hyps(4) n
    by (intro loop_outcome_partial [OF _ partial.hyps(2,3)]) (simp_all add: write_loop_Done [OF partial.hyps(1,2,3)])
qed auto

text \<open>C33. On an open session, with a buffer of at least the given size, what \<open>k230_ota_update\<close> does is decided by the outcomes of its writes,
  however its partial writes and interruptions come. When they offer to take the whole buffer before a write fails for another reason than an
  interruption, it returns success and exactly the buffer has been written. When such a failure comes first, it returns \<open>-1\<close>, and
  what was taken up to it has been written and is not counted in the session. When neither comes, and so for ever on a device that answers every
  write with zero bytes or an interruption, it does not return.
\<close>

theorem ota_update_returns:
  assumes "oc_fd c \<ge> 0" and "sz \<noteq> 0" and "unat sz \<le> length buf"
  shows "if unat sz \<le> offered (oa_writes s)
    then \<exists>s'. k230_ota_update (Some c) (Some buf) sz s = Some (Ret (), Some (c\<lparr>oc_total_written := oc_total_written c + sz\<rparr>), s') \<and>
      oa_written s' = oa_written s @ take (unat sz) buf
    else if transient (oa_writes s) then k230_ota_update (Some c) (Some buf) sz s = None
    else \<exists>s'. k230_ota_update (Some c) (Some buf) sz s = Some (Fail EGENERIC, Some c, s') \<and>
      oa_written s' = oa_written s @ take (offered (oa_writes s)) buf"
  using write_loop_returns [of 0 sz buf s] assms
  by (auto simp: k230_ota_update_def loop_outcome_def sub_bytes_def split: if_splits)

theorem ota_update_returns_witness:
  "(\<exists>s'. k230_ota_update (Some \<lparr>oc_fd = 6, oc_total_written = 1\<rparr>) (Some [7, 8, 9]) 3 ota_example =
      Some (Ret (), Some \<lparr>oc_fd = 6, oc_total_written = 4\<rparr>, s')) \<and>
   k230_ota_update (Some \<lparr>oc_fd = 6, oc_total_written = 1\<rparr>) (Some [7, 8, 9]) 3
     (ota_example\<lparr>oa_writes := [Done 0, Err EINTR, Done 0]\<rparr>) = None \<and>
   (\<exists>s'. k230_ota_update (Some \<lparr>oc_fd = 6, oc_total_written = 1\<rparr>) (Some [7, 8, 9]) 3
     (ota_example\<lparr>oa_writes := [Done 2, Err EINVAL, Done 1]\<rparr>) = Some (Fail EGENERIC, Some \<lparr>oc_fd = 6, oc_total_written = 1\<rparr>, s'))"
  using ota_update_returns [of "\<lparr>oc_fd = 6, oc_total_written = 1\<rparr>" 3 "[7, 8, 9]" ota_example]
    ota_update_returns [of "\<lparr>oc_fd = 6, oc_total_written = 1\<rparr>" 3 "[7, 8, 9]" "ota_example\<lparr>oa_writes := [Done 0, Err EINTR, Done 0]\<rparr>"]
    ota_update_returns [of "\<lparr>oc_fd = 6, oc_total_written = 1\<rparr>" 3 "[7, 8, 9]" "ota_example\<lparr>oa_writes := [Done 2, Err EINVAL, Done 1]\<rparr>"]
  by (auto simp: ota_example_def)

end
