(* ===== verification/Soft_Timer.thy ===== *)
theory Soft_Timer
  imports Hal_Inst
begin

text \<open>
  The software timer (\<open>rtsmart_hal/drivers/timer/drv_soft_timer.c\<close>): one timer of the system at a time, whose signal runs a
  callback. The state holds the instances, the timers of the system with their setting and the pointer their signal carries, whether
  \<open>SIGALRM\<close> goes to the handler, and the callbacks that have run. An expiring timer is a step of the environment, at any time between two calls.
\<close>

section \<open>State\<close>

definition HWTIMER_MODE_ONESHOT :: u32 where "HWTIMER_MODE_ONESHOT = 1"
definition HWTIMER_MODE_PERIOD :: u32 where "HWTIMER_MODE_PERIOD = 2"

text \<open>A timer identifier is a pointer; \<open>0\<close> is null. A callback is a number.\<close>

record drv_soft_timer_inst =
  si_base_ok :: bool
  si_timerid :: nat
  si_started :: bool
  si_mode :: u32
  si_period_ms :: u32
  si_irq_args :: "nat option"
  si_irq_callback :: "nat option"

record itimerspec =
  it_value_sec :: u64
  it_value_nsec :: u64
  it_interval_sec :: u64
  it_interval_nsec :: u64

definition it_zero :: itimerspec where
  "it_zero = \<lparr>it_value_sec = 0, it_value_nsec = 0, it_interval_sec = 0, it_interval_nsec = 0\<rparr>"

definition it_armed :: "itimerspec \<Rightarrow> bool" where
  "it_armed its \<longleftrightarrow> it_value_sec its \<noteq> 0 \<or> it_value_nsec its \<noteq> 0"

record 'd timer_os =
  to_malloc :: "'d \<Rightarrow> bool \<times> 'd"
  to_create :: "nat set \<Rightarrow> 'd \<Rightarrow> nat option \<times> 'd"
  to_settime :: "nat \<Rightarrow> itimerspec \<Rightarrow> 'd \<Rightarrow> bool \<times> 'd"

text \<open>A timer that \<open>timer_create\<close> returns is new and not null.\<close>

definition timer_os_ok :: "'d timer_os \<Rightarrow> bool" where
  "timer_os_ok os \<longleftrightarrow> (\<forall>used d t d'. to_create os used d = (Some t, d') \<longrightarrow> t \<noteq> 0 \<and> t \<notin> used)"

record 'd soft_timer =
  st_heap :: "nat \<Rightarrow> drv_soft_timer_inst option"
  st_next :: nat
  st_in_used :: bool
  st_handler :: bool
  st_timers :: "nat \<Rightarrow> (nat \<times> itimerspec) option"
  st_ran :: "(nat \<times> nat option) list"
  st_dev :: 'd

definition tinst :: "nat \<Rightarrow> ('d soft_timer, drv_soft_timer_inst) prog" where
  "tinst a s = (case st_heap s a of None \<Rightarrow> (Fault, s) | Some i \<Rightarrow> (Ret i, s))"

definition tset :: "nat \<Rightarrow> (drv_soft_timer_inst \<Rightarrow> drv_soft_timer_inst) \<Rightarrow> ('d soft_timer, unit) prog" where
  "tset a f s = (case st_heap s a of None \<Rightarrow> (Fault, s) | Some i \<Rightarrow> (Ret (), s\<lparr>st_heap := (st_heap s)(a \<mapsto> f i)\<rparr>))"

definition tfree :: "nat \<Rightarrow> ('d soft_timer, unit) prog" where
  "tfree a s = (case st_heap s a of None \<Rightarrow> (Fault, s) | Some i \<Rightarrow> (Ret (), s\<lparr>st_heap := (st_heap s)(a := None)\<rparr>))"

definition tcall :: "('d \<Rightarrow> 'a \<times> 'd) \<Rightarrow> ('d soft_timer, 'a) prog" where
  "tcall f s = (let (a, d) = f (st_dev s) in (Ret a, s\<lparr>st_dev := d\<rparr>))"

definition timer_delete :: "nat \<Rightarrow> ('d soft_timer, unit) prog" where
  "timer_delete t = smod (\<lambda>s. s\<lparr>st_timers := (st_timers s)(t := None)\<rparr>)"

text \<open>A setting that the system accepts replaces the one of the timer.\<close>

definition timer_settime :: "'d timer_os \<Rightarrow> nat \<Rightarrow> itimerspec \<Rightarrow> ('d soft_timer, unit) prog" where
  "timer_settime os t its =
     sbind (tcall (to_settime os t its)) (\<lambda>ok.
     if \<not> ok then sfail EGENERIC
     else smod (\<lambda>s. s\<lparr>st_timers := (st_timers s)(t := map_option (\<lambda>(p, _). (p, its)) (st_timers s t))\<rparr>))"

section \<open>Code\<close>

text \<open>The handler: \<open>is_alrm\<close> is \<open>sig == SIGALRM\<close>, \<open>is_timer\<close> is \<open>si_code == SI_TIMER\<close>.\<close>

definition soft_timer_sig_handler :: "bool \<Rightarrow> bool \<Rightarrow> nat option \<Rightarrow> ('d soft_timer, unit) prog" where
  "soft_timer_sig_handler is_alrm is_timer inst =
     (if \<not> is_alrm then sret ()
      else if \<not> is_timer then sret ()
      else case inst of None \<Rightarrow> sret ()
        | Some a \<Rightarrow> sbind (tinst a) (\<lambda>i.
            if \<not> si_base_ok i then sret ()
            else case si_irq_callback i of None \<Rightarrow> sret ()
              | Some f \<Rightarrow> smod (\<lambda>s. s\<lparr>st_ran := st_ran s @ [(f, si_irq_args i)]\<rparr>)))"

definition drv_soft_timer_stop :: "'d timer_os \<Rightarrow> nat option \<Rightarrow> ('d soft_timer, unit) prog" where
  "drv_soft_timer_stop os inst =
     (case inst of None \<Rightarrow> sfail EGENERIC
      | Some a \<Rightarrow> sbind (tinst a) (\<lambda>i.
          sbind (if si_started i then timer_settime os (si_timerid i) it_zero else sret ()) (\<lambda>_.
          tset a (\<lambda>i. i\<lparr>si_started := False\<rparr>))))"

text \<open>The guard of the setters: \<open>(NULL == inst) || (inst->started)\<close>.\<close>

definition if_stopped :: "nat option \<Rightarrow> (nat \<Rightarrow> drv_soft_timer_inst \<Rightarrow> ('d soft_timer, unit) prog) \<Rightarrow> ('d soft_timer, unit) prog" where
  "if_stopped inst f =
     (case inst of None \<Rightarrow> sfail EGENERIC
      | Some a \<Rightarrow> sbind (tinst a) (\<lambda>i. if si_started i then sfail EGENERIC else f a i))"

definition drv_soft_timer_set_mode :: "nat option \<Rightarrow> u32 \<Rightarrow> ('d soft_timer, unit) prog" where
  "drv_soft_timer_set_mode inst mode = if_stopped inst (\<lambda>a i. tset a (\<lambda>i. i\<lparr>si_mode := mode\<rparr>))"

text \<open>The period is an \<open>int\<close> stored as a \<open>uint32_t\<close>.\<close>

definition drv_soft_timer_set_period :: "nat option \<Rightarrow> int \<Rightarrow> ('d soft_timer, unit) prog" where
  "drv_soft_timer_set_period inst period_ms = if_stopped inst (\<lambda>a i. tset a (\<lambda>i. i\<lparr>si_period_ms := word_of_int period_ms\<rparr>))"

definition soft_timer_spec :: "drv_soft_timer_inst \<Rightarrow> itimerspec" where
  "soft_timer_spec i =
     (let ns = (ucast (si_period_ms i) :: u64) * 1000000;
          its = it_zero\<lparr>it_value_sec := ns div 1000000000, it_value_nsec := ns mod 1000000000\<rparr>
      in if si_mode i = HWTIMER_MODE_PERIOD
         then its\<lparr>it_interval_sec := it_value_sec its, it_interval_nsec := it_value_nsec its\<rparr> else its)"

definition drv_soft_timer_start :: "'d timer_os \<Rightarrow> nat option \<Rightarrow> ('d soft_timer, unit) prog" where
  "drv_soft_timer_start os inst =
     if_stopped inst (\<lambda>a i.
       sbind (timer_settime os (si_timerid i) (soft_timer_spec i)) (\<lambda>_. tset a (\<lambda>i. i\<lparr>si_started := True\<rparr>)))"

definition drv_soft_timer_register_irq :: "nat option \<Rightarrow> nat option \<Rightarrow> nat option \<Rightarrow> ('d soft_timer, unit) prog" where
  "drv_soft_timer_register_irq inst callback userargs =
     if_stopped inst (\<lambda>a i. tset a (\<lambda>i. i\<lparr>si_irq_args := userargs, si_irq_callback := callback\<rparr>))"

definition drv_soft_timer_unregister_irq :: "nat option \<Rightarrow> ('d soft_timer, unit) prog" where
  "drv_soft_timer_unregister_irq inst = if_stopped inst (\<lambda>a i. tset a (\<lambda>i. i\<lparr>si_irq_args := None, si_irq_callback := None\<rparr>))"

definition drv_soft_timer_is_started :: "nat option \<Rightarrow> ('d soft_timer, bool) prog" where
  "drv_soft_timer_is_started inst = (case inst of None \<Rightarrow> sret False | Some a \<Rightarrow> sbind (tinst a) (\<lambda>i. sret (si_started i)))"

text \<open>The end of \<open>drv_soft_timer_destroy\<close>: the timer, the signal, the memory.\<close>

definition soft_timer_release :: "nat \<Rightarrow> ('d soft_timer, nat option) prog" where
  "soft_timer_release a =
     sbind (tinst a) (\<lambda>i.
     sbind (if si_timerid i \<noteq> 0
            then sbind (timer_delete (si_timerid i)) (\<lambda>_. tset a (\<lambda>i. i\<lparr>si_timerid := 0\<rparr>)) else sret ()) (\<lambda>_.
     sbind (smod (\<lambda>s. s\<lparr>st_handler := False\<rparr>)) (\<lambda>_.
     sbind (tfree a) (\<lambda>_.
     sbind (smod (\<lambda>s. s\<lparr>st_in_used := False\<rparr>)) (\<lambda>_. sret None)))))"

text \<open>The caller's pointer comes back as the result.\<close>

definition drv_soft_timer_destroy :: "'d timer_os \<Rightarrow> nat option \<Rightarrow> ('d soft_timer, nat option) prog" where
  "drv_soft_timer_destroy os inst =
     (case inst of None \<Rightarrow> sret None
      | Some a \<Rightarrow> sbind (tinst a) (\<lambda>i.
          if \<not> si_base_ok i then sret inst
          else
            sbind (signore (drv_soft_timer_stop os inst)) (\<lambda>_.
            sbind (signore (drv_soft_timer_unregister_irq inst)) (\<lambda>_.
            soft_timer_release a))))"

text \<open>A fresh instance on the heap, as the assignments after \<open>memset\<close> leave it.\<close>

definition soft_timer_fresh :: drv_soft_timer_inst where
  "soft_timer_fresh = \<lparr>si_base_ok = True, si_timerid = 0, si_started = False, si_mode = HWTIMER_MODE_ONESHOT, si_period_ms = 1000,
     si_irq_args = None, si_irq_callback = None\<rparr>"

definition tnew :: "('d soft_timer, nat) prog" where
  "tnew s = (Ret (st_next s), s\<lparr>st_heap := (st_heap s)(st_next s \<mapsto> soft_timer_fresh), st_next := st_next s + 1\<rparr>)"

definition timer_create :: "'d timer_os \<Rightarrow> nat \<Rightarrow> ('d soft_timer, nat option) prog" where
  "timer_create os a s =
     (case to_create os (dom (st_timers s)) (st_dev s) of
        (None, d) \<Rightarrow> (Ret None, s\<lparr>st_dev := d\<rparr>)
      | (Some t, d) \<Rightarrow> (Ret (Some t), s\<lparr>st_dev := d, st_timers := (st_timers s)(t \<mapsto> (a, it_zero))\<rparr>))"

text \<open>
  \<open>drv_soft_timer_create\<close> from the \<open>malloc\<close> on, and the whole of it. The result is the value returned and the caller's pointer afterwards.
\<close>

definition soft_timer_setup :: "'d timer_os \<Rightarrow> ('d soft_timer, int \<times> nat option) prog" where
  "soft_timer_setup os =
     sbind (tcall (to_malloc os)) (\<lambda>ok.
     if \<not> ok then sret (-1, None)
     else
       sbind tnew (\<lambda>a.
       sbind (smod (\<lambda>s. s\<lparr>st_handler := True\<rparr>)) (\<lambda>_.
       sbind (timer_create os a) (\<lambda>t.
       case t of None \<Rightarrow> sret (-1, Some a)
       | Some t \<Rightarrow>
           sbind (tset a (\<lambda>i. i\<lparr>si_timerid := t\<rparr>)) (\<lambda>_.
           sbind (smod (\<lambda>s. s\<lparr>st_in_used := True\<rparr>)) (\<lambda>_. sret (0, Some a)))))))"

definition drv_soft_timer_create :: "'d timer_os \<Rightarrow> nat option \<Rightarrow> ('d soft_timer, int \<times> nat option) prog" where
  "drv_soft_timer_create os inst =
     sbind (sget st_in_used) (\<lambda>used.
     if used then sret (-1, inst)
     else
       sbind (if inst \<noteq> None then drv_soft_timer_destroy os inst else sret None) (\<lambda>_.
       soft_timer_setup os))"

section \<open>Runs with expiring timers\<close>

datatype timer_op =
    TCreate "nat option" | TDestroy "nat option" | TSetMode "nat option" u32 | TSetPeriod "nat option" int
  | TStart "nat option" | TStop "nat option" | TRegister "nat option" "nat option" "nat option" | TUnregister "nat option"
  | TExpire nat

text \<open>
  A timer that is armed expires: its signal reaches the handler with the pointer given to \<open>timer_create\<close>, or no code of the driver when
  the handler is not installed; a timer without interval is then disarmed. \<open>destroy\<close> takes the handler out. What the system does with the signal
  then is outside of the model: the code asks to ignore it, and then clears the member \<open>sa_sigaction\<close>, which may share its storage with that request.
\<close>

definition timer_expire :: "nat \<Rightarrow> ('d soft_timer, unit) prog" where
  "timer_expire t s =
     (case st_timers s t of None \<Rightarrow> (Ret (), s)
      | Some (p, its) \<Rightarrow>
          if \<not> it_armed its then (Ret (), s)
          else
            let its' = (if it_interval_sec its = 0 \<and> it_interval_nsec its = 0 then it_zero else its);
                s' = s\<lparr>st_timers := (st_timers s)(t \<mapsto> (p, its'))\<rparr>
            in if st_handler s' then soft_timer_sig_handler True True (Some p) s' else (Ret (), s'))"

fun timer_exec :: "'d timer_os \<Rightarrow> timer_op \<Rightarrow> ('d soft_timer, unit) prog" where
  "timer_exec os (TCreate p) = sdone (drv_soft_timer_create os p)"
| "timer_exec os (TDestroy p) = sdone (drv_soft_timer_destroy os p)"
| "timer_exec os (TSetMode p m) = drv_soft_timer_set_mode p m"
| "timer_exec os (TSetPeriod p n) = drv_soft_timer_set_period p n"
| "timer_exec os (TStart p) = drv_soft_timer_start os p"
| "timer_exec os (TStop p) = drv_soft_timer_stop os p"
| "timer_exec os (TRegister p f x) = drv_soft_timer_register_irq p f x"
| "timer_exec os (TUnregister p) = drv_soft_timer_unregister_irq p"
| "timer_exec os (TExpire t) = timer_expire t"

fun timer_ptr :: "timer_op \<Rightarrow> nat option" where
  "timer_ptr (TCreate p) = p" | "timer_ptr (TDestroy p) = p" | "timer_ptr (TSetMode p m) = p" | "timer_ptr (TSetPeriod p n) = p"
| "timer_ptr (TStart p) = p" | "timer_ptr (TStop p) = p" | "timer_ptr (TRegister p f x) = p" | "timer_ptr (TUnregister p) = p"
| "timer_ptr (TExpire t) = None"

definition timer_valid :: "'d soft_timer \<Rightarrow> timer_op \<Rightarrow> bool" where
  "timer_valid s op \<longleftrightarrow> (case timer_ptr op of None \<Rightarrow> True | Some a \<Rightarrow> st_heap s a \<noteq> None)"

definition timer_start :: "'d \<Rightarrow> 'd soft_timer" where
  "timer_start d = \<lparr>st_heap = Map.empty, st_next = 0, st_in_used = False, st_handler = False, st_timers = Map.empty, st_ran = [], st_dev = d\<rparr>"

section \<open>Invariant\<close>

text \<open>
  Every timer of the system belongs to the live instance its signal carries, is the timer of that instance, and is armed only while the
  instance is started; every instance that has a timer has it in the system.
\<close>

definition timer_owned :: "'d soft_timer \<Rightarrow> nat \<Rightarrow> nat \<Rightarrow> itimerspec \<Rightarrow> bool" where
  "timer_owned s t p its \<longleftrightarrow> t \<noteq> 0 \<and> (\<exists>i. st_heap s p = Some i \<and> si_timerid i = t \<and> (it_armed its \<longrightarrow> si_started i))"

definition inst_ok :: "'d soft_timer \<Rightarrow> nat \<Rightarrow> drv_soft_timer_inst \<Rightarrow> bool" where
  "inst_ok s a i \<longleftrightarrow> a < st_next s \<and> si_base_ok i \<and> (si_timerid i \<noteq> 0 \<longrightarrow> (\<exists>its. st_timers s (si_timerid i) = Some (a, its)))"

definition timer_inv :: "'d soft_timer \<Rightarrow> bool" where
  "timer_inv s \<longleftrightarrow> (\<forall>t p its. st_timers s t = Some (p, its) \<longrightarrow> timer_owned s t p its) \<and>
     (\<forall>a i. st_heap s a = Some i \<longrightarrow> inst_ok s a i)"

lemma timer_invD:
  assumes "timer_inv s"
  shows "st_timers s t = Some (p, its) \<Longrightarrow> timer_owned s t p its" and "st_heap s a = Some i \<Longrightarrow> inst_ok s a i"
  using assms by (auto simp: timer_inv_def)

lemma timer_inv_cong:
  "st_heap s' = st_heap s \<Longrightarrow> st_next s' = st_next s \<Longrightarrow> st_timers s' = st_timers s \<Longrightarrow> timer_inv s' = timer_inv s"
  by (simp add: timer_inv_def timer_owned_def inst_ok_def)

lemma timer_inv_other [simp]:
  "timer_inv (s\<lparr>st_dev := d\<rparr>) = timer_inv s" "timer_inv (s\<lparr>st_handler := h\<rparr>) = timer_inv s"
  "timer_inv (s\<lparr>st_in_used := u\<rparr>) = timer_inv s" "timer_inv (s\<lparr>st_ran := l\<rparr>) = timer_inv s"
  by (rule timer_inv_cong; simp)+

lemma timer_inv_set:
  assumes inv: "timer_inv s" and a: "st_heap s a = Some i" and f: "si_timerid j = si_timerid i" "si_base_ok j = si_base_ok i"
    and armed: "\<And>its. st_timers s (si_timerid i) = Some (a, its) \<Longrightarrow> it_armed its \<Longrightarrow> si_started j"
  shows "timer_inv (s\<lparr>st_heap := (st_heap s)(a \<mapsto> j)\<rparr>)"
  unfolding timer_inv_def
proof (intro conjI allI impI)
  fix t p its assume t: "st_timers (s\<lparr>st_heap := (st_heap s)(a \<mapsto> j)\<rparr>) t = Some (p, its)"
  then have "timer_owned s t p its" using timer_invD(1) [OF inv] by simp
  then show "timer_owned (s\<lparr>st_heap := (st_heap s)(a \<mapsto> j)\<rparr>) t p its"
    using t a f armed by (auto simp: timer_owned_def)
next
  fix b k assume "st_heap (s\<lparr>st_heap := (st_heap s)(a \<mapsto> j)\<rparr>) b = Some k"
  then show "inst_ok (s\<lparr>st_heap := (st_heap s)(a \<mapsto> j)\<rparr>) b k"
    using timer_invD(2) [OF inv] timer_invD(2) [OF inv a] f by (auto simp: inst_ok_def split: if_splits)
qed

lemma timer_inv_settime:
  assumes inv: "timer_inv s" and a: "st_heap s a = Some i" and t: "st_timers s (si_timerid i) = Some (a, its0)"
    and j: "si_timerid j = si_timerid i" "si_base_ok j = si_base_ok i" "it_armed its \<Longrightarrow> si_started j"
  shows "timer_inv (s\<lparr>st_timers := (st_timers s)(si_timerid i \<mapsto> (a, its)), st_heap := (st_heap s)(a \<mapsto> j)\<rparr>)" (is "timer_inv ?s")
  unfolding timer_inv_def
proof (intro conjI allI impI)
  fix u p its' assume u: "st_timers ?s u = Some (p, its')"
  show "timer_owned ?s u p its'"
  proof (cases "u = si_timerid i")
    case True
    then show ?thesis using u timer_invD(1) [OF inv t] j by (auto simp: timer_owned_def)
  next
    case False
    then have "timer_owned s u p its'" using u timer_invD(1) [OF inv] by simp
    then show ?thesis using False a j by (auto simp: timer_owned_def)
  qed
next
  fix b k assume b: "st_heap ?s b = Some k"
  show "inst_ok ?s b k"
  proof (cases "b = a")
    case True
    then show ?thesis using b timer_invD(2) [OF inv a] j by (simp add: inst_ok_def)
  next
    case False
    then have "inst_ok s b k" using b timer_invD(2) [OF inv] by simp
    then show ?thesis using False t by (auto simp: inst_ok_def)
  qed
qed

text \<open>Arming and disarming through \<open>timer_settime\<close>, together with the flag that follows it.\<close>

lemma settime_then_flag:
  assumes inv: "timer_inv s" and a: "st_heap s a = Some i" and v: "it_armed its \<longrightarrow> v"
  shows "swp (timer_settime os (si_timerid i) its) (\<lambda>_. swp (tset a (\<lambda>i. i\<lparr>si_started := v\<rparr>)) (\<lambda>_. timer_inv) E) (\<lambda>_. timer_inv) s"
proof -
  obtain ok d where k: "to_settime os (si_timerid i) its (st_dev s) = (ok, d)" by fastforce
  let ?t = "si_timerid i" and ?j = "i\<lparr>si_started := v\<rparr>"
  let ?new = "map_option (\<lambda>(p, _). (p, its)) (st_timers s ?t)"
  have "timer_inv (s\<lparr>st_timers := (st_timers s)(?t := ?new), st_heap := (st_heap s)(a \<mapsto> ?j)\<rparr>)"
  proof (cases "st_timers s ?t")
    case None
    then have "(st_timers s)(?t := ?new) = st_timers s" by (auto simp: fun_eq_iff)
    moreover have "timer_inv (s\<lparr>st_heap := (st_heap s)(a \<mapsto> ?j)\<rparr>)" by (rule timer_inv_set [OF inv a]) (use None in auto)
    ultimately show ?thesis by simp
  next
    case (Some q)
    have "?t \<noteq> 0" using timer_invD(1) [OF inv] Some by (cases q) (auto simp: timer_owned_def)
    then obtain its0 where "q = (a, its0)" using timer_invD(2) [OF inv a] Some by (auto simp: inst_ok_def)
    then show ?thesis using timer_inv_settime [OF inv a, of its0 ?j its] Some v by simp
  qed
  then have "timer_inv (s\<lparr>st_dev := d, st_timers := (st_timers s)(?t := ?new), st_heap := (st_heap s)(a \<mapsto> ?j)\<rparr>)"
    by (subst timer_inv_cong [of _ "s\<lparr>st_timers := (st_timers s)(?t := ?new), st_heap := (st_heap s)(a \<mapsto> ?j)\<rparr>"]) simp_all
  then show ?thesis using k a inv by (simp add: timer_settime_def tset_def tcall_def swp_def sprog_defs)
qed

text \<open>Calls that change an instance but neither its timer nor its flag.\<close>

lemma tset_inv:
  assumes "timer_inv s" and "st_heap s a = Some i" and "\<And>i. si_timerid (f i) = si_timerid i \<and> si_base_ok (f i) = si_base_ok i \<and> si_started (f i) = si_started i"
  shows "swp (tset a f) (\<lambda>_. timer_inv) E s"
proof -
  have "timer_inv (s\<lparr>st_heap := (st_heap s)(a \<mapsto> f i)\<rparr>)"
  proof (rule timer_inv_set [OF assms(1,2)])
    fix its assume "st_timers s (si_timerid i) = Some (a, its)" "it_armed its"
    then show "si_started (f i)" using timer_invD(1) [OF assms(1)] assms(2,3) by (fastforce simp: timer_owned_def)
  qed (use assms(3) in simp_all)
  then show ?thesis using assms(2) by (simp add: tset_def swp_def)
qed

lemma if_stopped_inv:
  assumes "timer_inv s" and "inst = Some a \<Longrightarrow> st_heap s a \<noteq> None"
    and "\<And>i. inst = Some a \<Longrightarrow> st_heap s a = Some i \<Longrightarrow> \<not> si_started i \<Longrightarrow> swp (f a i) (\<lambda>_. timer_inv) (\<lambda>_. timer_inv) s"
    and "inst = None \<or> inst = Some a"
  shows "swp (if_stopped inst f) (\<lambda>_. timer_inv) (\<lambda>_. timer_inv) s"
  using assms by (auto simp: if_stopped_def swp_def [of "tinst a"] tinst_def)

lemma setters_inv:
  assumes inv: "timer_inv s" and p: "case inst of None \<Rightarrow> True | Some a \<Rightarrow> st_heap s a \<noteq> None"
  shows "swp (drv_soft_timer_set_mode inst m) (\<lambda>_. timer_inv) (\<lambda>_. timer_inv) s"
    and "swp (drv_soft_timer_set_period inst n) (\<lambda>_. timer_inv) (\<lambda>_. timer_inv) s"
    and "swp (drv_soft_timer_register_irq inst f x) (\<lambda>_. timer_inv) (\<lambda>_. timer_inv) s"
    and "swp (drv_soft_timer_unregister_irq inst) (\<lambda>_. timer_inv) (\<lambda>_. timer_inv) s"
    and "swp (drv_soft_timer_start os inst) (\<lambda>_. timer_inv) (\<lambda>_. timer_inv) s"
  unfolding drv_soft_timer_set_mode_def drv_soft_timer_set_period_def drv_soft_timer_register_irq_def drv_soft_timer_unregister_irq_def
    drv_soft_timer_start_def
  using p by (auto intro!: if_stopped_inv [where a = "the inst"] tset_inv settime_then_flag inv split: option.splits)

lemma stop_inv:
  assumes inv: "timer_inv s" and a: "st_heap s a = Some i"
  shows "swp (drv_soft_timer_stop os (Some a)) (\<lambda>_. timer_inv) (\<lambda>_. timer_inv) s"
proof (cases "si_started i")
  case True
  then show ?thesis
    using settime_then_flag [OF inv a, of it_zero False] a
    by (simp add: drv_soft_timer_stop_def swp_def [of "tinst a"] tinst_def it_armed_def it_zero_def)
next
  case False
  then have "i\<lparr>si_started := False\<rparr> = i" by simp
  then have "(st_heap s)(a \<mapsto> i\<lparr>si_started := False\<rparr>) = st_heap s" using a by (auto simp: fun_eq_iff)
  then show ?thesis using False a inv by (simp add: drv_soft_timer_stop_def swp_def tset_def tinst_def sprog_defs)
qed

text \<open>Stopping and unregistering leave the instance in place.\<close>

lemma stop_live: "st_heap s a = Some i \<Longrightarrow> swp (drv_soft_timer_stop os (Some a)) (\<lambda>_ s'. st_heap s' a \<noteq> None) (\<lambda>_ s'. st_heap s' a \<noteq> None) s"
  by (auto simp: drv_soft_timer_stop_def timer_settime_def tcall_def swp_def tset_def tinst_def sprog_defs split: prod.splits)

lemma unregister_live: "st_heap s a = Some i \<Longrightarrow>
    swp (drv_soft_timer_unregister_irq (Some a)) (\<lambda>_ s'. st_heap s' a \<noteq> None) (\<lambda>_ s'. st_heap s' a \<noteq> None) s"
  by (auto simp: drv_soft_timer_unregister_irq_def if_stopped_def swp_def tset_def tinst_def sprog_defs)

lemma timer_inv_free:
  assumes inv: "timer_inv s" and a: "st_heap s a = Some i"
  shows "timer_inv (s\<lparr>st_heap := (st_heap s)(a := None), st_timers := (if si_timerid i \<noteq> 0 then (st_timers s)(si_timerid i := None) else st_timers s)\<rparr>)"
    (is "timer_inv ?s")
  unfolding timer_inv_def
proof (intro conjI allI impI)
  fix t p its assume t: "st_timers ?s t = Some (p, its)"
  then have "timer_owned s t p its" "t \<noteq> si_timerid i"
    using timer_invD(1) [OF inv, of t p its] by (auto simp: timer_owned_def split: if_splits)
  then show "timer_owned ?s t p its" using a by (auto simp: timer_owned_def)
next
  fix b k assume b: "st_heap ?s b = Some k"
  then have "inst_ok s b k" "b \<noteq> a" using timer_invD(2) [OF inv] by (auto split: if_splits)
  then show "inst_ok ?s b k" using timer_invD(2) [OF inv a] by (auto simp: inst_ok_def)
qed

lemma release_inv:
  assumes "timer_inv s" and i: "st_heap s a = Some i"
  shows "swp (soft_timer_release a) (\<lambda>_. timer_inv) E s"
proof -
  have fin: "timer_inv s'" if "st_heap s' = (st_heap s)(a := None)" "st_next s' = st_next s"
      "st_timers s' = (if si_timerid i \<noteq> 0 then (st_timers s)(si_timerid i := None) else st_timers s)" for s'
    using timer_inv_free [OF assms] that by (subst timer_inv_cong) simp_all
  show ?thesis
    using i by (auto simp: soft_timer_release_def swp_def tinst_def tset_def tfree_def timer_delete_def sprog_defs intro!: fin)
qed

lemma stimer_destroy_inv:
  assumes inv: "timer_inv s" and p: "case inst of None \<Rightarrow> True | Some a \<Rightarrow> st_heap s a \<noteq> None"
  shows "swp (drv_soft_timer_destroy os inst) (\<lambda>_. timer_inv) E s"
proof (cases inst)
  case (Some a)
  then obtain i where i: "st_heap s a = Some i" using p by auto
  have base: "si_base_ok i" using timer_invD(2) [OF inv i] by (simp add: inst_ok_def)
  have rest: "swp (drv_soft_timer_unregister_irq (Some a)) (\<lambda>_. swp (soft_timer_release a) (\<lambda>_. timer_inv) E)
      (\<lambda>_. swp (soft_timer_release a) (\<lambda>_. timer_inv) E) s1"
    if s1: "timer_inv s1 \<and> st_heap s1 a \<noteq> None" for s1
  proof -
    obtain j where j: "st_heap s1 a = Some j" using s1 by auto
    have "swp (drv_soft_timer_unregister_irq (Some a)) (\<lambda>_ s2. timer_inv s2 \<and> st_heap s2 a \<noteq> None) (\<lambda>_ s2. timer_inv s2 \<and> st_heap s2 a \<noteq> None) s1"
      using s1 j by (intro swp_conj setters_inv(4) unregister_live) simp_all
    then show ?thesis by (rule swp_mono) (auto intro: release_inv)
  qed
  have "swp (drv_soft_timer_stop os (Some a)) (\<lambda>_ s1. timer_inv s1 \<and> st_heap s1 a \<noteq> None) (\<lambda>_ s1. timer_inv s1 \<and> st_heap s1 a \<noteq> None) s"
    using inv i by (intro swp_conj stop_inv stop_live)
  then have "swp (signore (drv_soft_timer_stop os (Some a)))
      (\<lambda>_. swp (signore (drv_soft_timer_unregister_irq (Some a))) (\<lambda>_. swp (soft_timer_release a) (\<lambda>_. timer_inv) E) E) E s"
    by (simp, rule swp_mono) (simp_all add: rest)
  then show ?thesis using i base Some by (simp add: drv_soft_timer_destroy_def swp_def [of "tinst a"] tinst_def)
qed (use inv in \<open>simp add: drv_soft_timer_destroy_def\<close>)

lemma timer_inv_new:
  assumes inv: "timer_inv s" and t: "case t of None \<Rightarrow> True | Some t \<Rightarrow> t \<noteq> 0 \<and> st_timers s t = None" and a: "a = st_next s"
  shows "timer_inv (s\<lparr>st_heap := (st_heap s)(a \<mapsto> soft_timer_fresh\<lparr>si_timerid := (case t of None \<Rightarrow> 0 | Some t \<Rightarrow> t)\<rparr>), st_next := a + 1,
      st_timers := (case t of None \<Rightarrow> st_timers s | Some t \<Rightarrow> (st_timers s)(t \<mapsto> (a, it_zero)))\<rparr>)" (is "timer_inv ?s")
proof -
  have fresh: "st_heap s a = None" using timer_invD(2) [OF inv, of a] a by (cases "st_heap s a") (auto simp: inst_ok_def)
  have zero: "\<not> it_armed it_zero" by (simp add: it_armed_def it_zero_def)
  have old: "timer_owned s u p its \<Longrightarrow> timer_owned ?s u p its" for u p its
    using fresh by (auto simp: timer_owned_def)
  have "timer_owned ?s u p its" if u: "st_timers ?s u = Some (p, its)" for u p its
  proof (cases "t = Some u")
    case True
    then show ?thesis using u t zero by (simp add: timer_owned_def)
  next
    case False
    then have "st_timers s u = Some (p, its)" using u by (cases t) (auto split: if_splits)
    then show ?thesis by (intro old timer_invD(1) [OF inv])
  qed
  moreover have "inst_ok ?s b k" if "st_heap ?s b = Some k" for b k
    using that t timer_invD(2) [OF inv, of b k] a by (cases t) (auto simp: inst_ok_def soft_timer_fresh_def split: if_splits)
  ultimately show ?thesis unfolding timer_inv_def by blast
qed

lemma setup_inv:
  assumes os: "timer_os_ok os" and inv: "timer_inv s"
  shows "swp (soft_timer_setup os) (\<lambda>_. timer_inv) E s"
proof -
  obtain ok d where m: "to_malloc os (st_dev s) = (ok, d)" by fastforce
  obtain t d' where c: "to_create os (dom (st_timers s)) d = (t, d')" by fastforce
  have t: "case t of None \<Rightarrow> True | Some t \<Rightarrow> t \<noteq> 0 \<and> st_timers s t = None"
    using os c unfolding timer_os_ok_def by (cases t) auto
  have fin: "timer_inv s'" if "st_next s' = st_next s + 1"
      "st_heap s' = (st_heap s)(st_next s \<mapsto> soft_timer_fresh\<lparr>si_timerid := (case t of None \<Rightarrow> 0 | Some t \<Rightarrow> t)\<rparr>)"
      "st_timers s' = (case t of None \<Rightarrow> st_timers s | Some t \<Rightarrow> (st_timers s)(t \<mapsto> (st_next s, it_zero)))" for s'
    using timer_inv_new [OF inv t refl] that by (subst timer_inv_cong) simp_all
  have z: "soft_timer_fresh\<lparr>si_timerid := 0\<rparr> = soft_timer_fresh" by (simp add: soft_timer_fresh_def)
  show ?thesis
    using m c inv by (cases ok; cases t)
      (auto simp: soft_timer_setup_def swp_def tcall_def tnew_def timer_create_def tset_def sprog_defs z intro!: fin)
qed

lemma stimer_create_inv:
  assumes os: "timer_os_ok os" and inv: "timer_inv s" and p: "case inst of None \<Rightarrow> True | Some a \<Rightarrow> st_heap s a \<noteq> None"
  shows "swp (drv_soft_timer_create os inst) (\<lambda>_. timer_inv) E s"
proof -
  have "swp (if inst \<noteq> None then drv_soft_timer_destroy os inst else sret None) (\<lambda>_. swp (soft_timer_setup os) (\<lambda>_. timer_inv) E) E s"
    using inv setup_inv [OF os] swp_mono [OF stimer_destroy_inv [OF inv p]] by (cases inst) auto
  then show ?thesis using inv by (simp add: drv_soft_timer_create_def)
qed

lemma expire_inv:
  assumes inv: "timer_inv s"
  shows "swp (timer_expire t) (\<lambda>_. timer_inv) E s"
proof (cases "st_timers s t")
  case (Some q)
  obtain p its where q: "q = (p, its)" by fastforce
  obtain i where i: "st_heap s p = Some i" "si_timerid i = t" "it_armed its \<longrightarrow> si_started i"
    using timer_invD(1) [OF inv, of t p its] Some q by (auto simp: timer_owned_def)
  let ?its = "if it_interval_sec its = 0 \<and> it_interval_nsec its = 0 then it_zero else its"
  have "it_armed ?its \<longrightarrow> it_armed its" by (simp add: it_armed_def it_zero_def)
  then have "timer_inv (s\<lparr>st_timers := (st_timers s)(t \<mapsto> (p, ?its)), st_heap := (st_heap s)(p \<mapsto> i)\<rparr>)"
    using timer_inv_settime [OF inv i(1), of its i ?its] Some q i by auto
  moreover have "(st_heap s)(p \<mapsto> i) = st_heap s" using i(1) by auto
  ultimately have "timer_inv (s\<lparr>st_timers := (st_timers s)(t \<mapsto> (p, ?its))\<rparr>)" by simp
  then show ?thesis
    using Some q i inv
    by (auto simp: timer_expire_def swp_def soft_timer_sig_handler_def tinst_def sprog_defs Let_def split: option.split)
qed (use inv in \<open>simp add: timer_expire_def swp_def\<close>)

lemma timer_exec_inv:
  assumes os: "timer_os_ok os" and inv: "timer_inv s" and v: "timer_valid s op"
  shows "swp (timer_exec os op) (\<lambda>_. timer_inv) (\<lambda>_. timer_inv) s"
proof (cases op)
  case (TStop p)
  then show ?thesis using inv v by (cases p) (auto simp: timer_valid_def drv_soft_timer_stop_def [of _ None] intro: stop_inv)
qed (use os inv v in \<open>auto simp: timer_valid_def sdone_def intro!: stimer_create_inv stimer_destroy_inv setters_inv expire_inv\<close>)

interpretation timer_runs: driver_runs timer_exec timer_valid timer_os_ok timer_inv
  by unfold_locales (rule timer_exec_inv)

lemma timer_start_inv: "timer_inv (timer_start d)"
  by (simp add: timer_inv_def timer_start_def)

lemma expire_runs:
  assumes inv: "timer_inv s" and t: "st_timers s t = Some (p, its)" "it_armed its"
  shows "\<exists>i. st_heap s p = Some i \<and> si_timerid i = t \<and> si_started i \<and> st_ran (snd (timer_expire t s)) = st_ran s @
    (if st_handler s then (case si_irq_callback i of None \<Rightarrow> [] | Some f \<Rightarrow> [(f, si_irq_args i)]) else [])"
proof -
  obtain i where i: "st_heap s p = Some i" "si_timerid i = t" "si_started i"
    using timer_invD(1) [OF inv t(1)] t(2) by (auto simp: timer_owned_def)
  have "si_base_ok i" using timer_invD(2) [OF inv i(1)] by (simp add: inst_ok_def)
  then show ?thesis
    using i t by (auto simp: timer_expire_def soft_timer_sig_handler_def tinst_def sprog_defs Let_def split: option.split)
qed

section \<open>Properties\<close>

definition sample_timer_os :: "nat timer_os" where
  "sample_timer_os = \<lparr>to_malloc = \<lambda>d. (True, d), to_create = \<lambda>used d. (if d = 0 \<or> d \<in> used then None else Some d, d + 1),
     to_settime = \<lambda>t its d. (True, d)\<rparr>"

lemma sample_timer_os_ok: "timer_os_ok sample_timer_os"
  by (simp add: timer_os_ok_def sample_timer_os_def split: if_splits)

definition sample_inst :: drv_soft_timer_inst where
  "sample_inst = \<lparr>si_base_ok = True, si_timerid = 1, si_started = False, si_mode = 1, si_period_ms = 1000, si_irq_args = Some 7, si_irq_callback = Some 9\<rparr>"

definition sample_timer :: "nat soft_timer" where
  "sample_timer = \<lparr>st_heap = [0 \<mapsto> sample_inst\<lparr>si_started := True\<rparr>], st_next = 1, st_in_used = True, st_handler = True,
     st_timers = [1 \<mapsto> (0, it_zero\<lparr>it_value_sec := 1\<rparr>)], st_ran = [], st_dev = 2\<rparr>"

lemmas timer_eval = sample_timer_os_def timer_start_def sdone_def drv_soft_timer_create_def soft_timer_setup_def tcall_def tnew_def timer_create_def
  tset_def tinst_def sprog_defs drv_soft_timer_register_irq_def drv_soft_timer_start_def if_stopped_def timer_settime_def soft_timer_fresh_def
  soft_timer_spec_def HWTIMER_MODE_ONESHOT_def HWTIMER_MODE_PERIOD_def

lemma sample_timer_reach: "reach (timer_exec sample_timer_os) timer_valid (timer_start 1) sample_timer"
proof -
  let ?s1 = "\<lparr>st_heap = [0 \<mapsto> sample_inst\<lparr>si_irq_args := None, si_irq_callback := None\<rparr>], st_next = 1, st_in_used = True, st_handler = True,
     st_timers = [1 \<mapsto> (0, it_zero)], st_ran = [], st_dev = 2::nat\<rparr>"
  let ?s2 = "?s1\<lparr>st_heap := [0 \<mapsto> sample_inst]\<rparr>"
  have "reach (timer_exec sample_timer_os) timer_valid (timer_start 1) ?s1"
    by (rule reach.step [OF reach.start, where op = "TCreate None"]) (simp_all add: timer_valid_def timer_eval sample_inst_def)
  then have "reach (timer_exec sample_timer_os) timer_valid (timer_start 1) ?s2"
    by (rule reach.step [where op = "TRegister (Some 0) (Some 9) (Some 7)"]) (simp_all add: timer_valid_def timer_eval sample_inst_def)
  then show ?thesis
    by (rule reach.step [where op = "TStart (Some 0)"]) (simp_all add: timer_valid_def timer_eval sample_inst_def sample_timer_def it_zero_def)
qed

text \<open>C24. Whatever calls a client makes with null or live pointers, and whenever a timer expires in between two of them: no call and no signal of
  the soft timer touches freed memory. A timer that is armed belongs to a live, started instance. When it expires while the handler is installed, exactly the callback
  registered in that instance runs, with its argument; when the handler is not installed, because another instance has been destroyed since, no
  callback runs (\<open>timer_callback_lost\<close>).
\<close>

theorem timer_signals_safe:
  assumes "timer_os_ok os" and "reach (timer_exec os) timer_valid (timer_start d) s"
  shows "(timer_valid s op \<longrightarrow> fst (timer_exec os op s) \<noteq> Fault) \<and>
    (st_timers s t = Some (p, its) \<longrightarrow> it_armed its \<longrightarrow>
      (\<exists>i. st_heap s p = Some i \<and> si_timerid i = t \<and> si_started i \<and> st_ran (snd (timer_expire t s)) = st_ran s @
        (if st_handler s then (case si_irq_callback i of None \<Rightarrow> [] | Some f \<Rightarrow> [(f, si_irq_args i)]) else [])))"
  using timer_runs.no_fault [OF assms(2,1) timer_start_inv] expire_runs [OF timer_runs.reach_inv [OF assms(2,1) timer_start_inv]] by blast

theorem timer_signals_safe_witness:
  "fst (timer_exec sample_timer_os (TDestroy (Some 0)) sample_timer) \<noteq> Fault \<and> st_ran (snd (timer_expire 1 sample_timer)) = [(9, Some 7)]"
  using timer_signals_safe [OF sample_timer_os_ok sample_timer_reach, of "TDestroy (Some 0)" 1 0 "it_zero\<lparr>it_value_sec := 1\<rparr>"]
  by (auto simp: timer_valid_def sample_timer_def it_armed_def sample_inst_def)

text \<open>A run in which an armed timer expires and its callback does not run: the system refuses the first instance its timer, the second is created, given
  a callback and started, and then the first is destroyed.
\<close>

theorem timer_callback_lost:
  "\<exists>s i its. reach (timer_exec sample_timer_os) timer_valid (timer_start 0) s \<and> st_timers s 1 = Some (1, its) \<and> it_armed its \<and>
    st_heap s 1 = Some i \<and> si_started i \<and> si_irq_callback i = Some 9 \<and> st_ran (snd (timer_expire 1 s)) = []"
proof -
  let ?i = "sample_inst\<lparr>si_irq_args := None, si_irq_callback := None\<rparr>" and ?its = "it_zero\<lparr>it_value_sec := 1\<rparr>"
  let ?s1 = "\<lparr>st_heap = [0 \<mapsto> soft_timer_fresh], st_next = 1, st_in_used = False, st_handler = True, st_timers = Map.empty, st_ran = [], st_dev = 1 :: nat\<rparr>"
  let ?s2 = "\<lparr>st_heap = [0 \<mapsto> soft_timer_fresh, 1 \<mapsto> ?i], st_next = 2, st_in_used = True, st_handler = True,
    st_timers = [1 \<mapsto> (1, it_zero)], st_ran = [], st_dev = 2 :: nat\<rparr>"
  let ?s3 = "?s2\<lparr>st_heap := [0 \<mapsto> soft_timer_fresh, 1 \<mapsto> sample_inst]\<rparr>"
  let ?s4 = "?s3\<lparr>st_heap := [0 \<mapsto> soft_timer_fresh, 1 \<mapsto> sample_inst\<lparr>si_started := True\<rparr>], st_timers := [1 \<mapsto> (1, ?its)]\<rparr>"
  let ?s5 = "?s4\<lparr>st_heap := [1 \<mapsto> sample_inst\<lparr>si_started := True\<rparr>], st_in_used := False, st_handler := False\<rparr>"
  have "reach (timer_exec sample_timer_os) timer_valid (timer_start 0) ?s1"
    by (rule reach.step [OF reach.start, where op = "TCreate None"]) (simp_all add: timer_valid_def timer_eval sample_inst_def)
  then have "reach (timer_exec sample_timer_os) timer_valid (timer_start 0) ?s2"
    by (rule reach.step [where op = "TCreate None"]) (simp_all add: timer_valid_def timer_eval sample_inst_def numeral_eq_Suc)
  then have "reach (timer_exec sample_timer_os) timer_valid (timer_start 0) ?s3"
    by (rule reach.step [where op = "TRegister (Some 1) (Some 9) (Some 7)"]) (simp_all add: timer_valid_def timer_eval sample_inst_def)
  then have "reach (timer_exec sample_timer_os) timer_valid (timer_start 0) ?s4"
    by (rule reach.step [where op = "TStart (Some 1)"]) (simp_all add: timer_valid_def timer_eval sample_inst_def it_zero_def)
  then have "reach (timer_exec sample_timer_os) timer_valid (timer_start 0) ?s5"
    by (rule reach.step [where op = "TDestroy (Some 0)"]) (simp_all add: timer_valid_def timer_eval drv_soft_timer_destroy_def
        drv_soft_timer_stop_def drv_soft_timer_unregister_irq_def soft_timer_release_def tfree_def fun_upd_twist sample_inst_def)
  moreover have "st_ran (snd (timer_expire 1 ?s5)) = []" by (simp add: timer_expire_def it_armed_def)
  ultimately show ?thesis by (intro exI [of _ ?s5] exI [of _ "sample_inst\<lparr>si_started := True\<rparr>"] exI [of _ ?its])
    (simp add: it_armed_def sample_inst_def)
qed

text \<open>Starting a stopped timer programs exactly the period that was set, in seconds and nanoseconds below a second, without overflow for any 32-bit
  number of milliseconds, once or repeatedly according to the mode. A period of zero is accepted too: the call succeeds and the
  instance counts as started, but the setting is the one that disarms a timer, and no signal comes.
\<close>

theorem timer_start_period:
  assumes "st_heap s a = Some i" and "\<not> si_started i" and "st_timers s (si_timerid i) = Some (a, old)"
    and "drv_soft_timer_start os (Some a) s = (Ret (), s')"
  shows "st_heap s' a = Some (i\<lparr>si_started := True\<rparr>) \<and> (\<exists>its. st_timers s' (si_timerid i) = Some (a, its) \<and>
    unat (it_value_sec its) * 1000000000 + unat (it_value_nsec its) = unat (si_period_ms i) * 1000000 \<and> unat (it_value_nsec its) < 1000000000 \<and>
    (if si_mode i = HWTIMER_MODE_PERIOD then it_interval_sec its = it_value_sec its \<and> it_interval_nsec its = it_value_nsec its
     else it_interval_sec its = 0 \<and> it_interval_nsec its = 0) \<and> (it_armed its \<longleftrightarrow> si_period_ms i \<noteq> 0))"
proof -
  define ns where "ns = (ucast (si_period_ms i) :: u64) * 1000000"
  have ns: "unat ns = unat (si_period_ms i) * 1000000"
    using unat_less_32 [of "si_period_ms i"] by (simp add: ns_def unat_word_ariths)
  have val: "unat (ns div 1000000000) * 1000000000 + unat (ns mod 1000000000) = unat ns" "unat (ns mod 1000000000) < 1000000000"
    by (simp_all add: unat_div unat_mod)
  have its: "it_value_sec (soft_timer_spec i) = ns div 1000000000" "it_value_nsec (soft_timer_spec i) = ns mod 1000000000"
    by (simp_all add: soft_timer_spec_def Let_def ns_def)
  have "it_armed (soft_timer_spec i) \<longleftrightarrow> unat ns \<noteq> 0"
    using val by (auto simp: it_armed_def its unat_eq_0 simp flip: unat_eq_0)
  then have armed: "it_armed (soft_timer_spec i) \<longleftrightarrow> si_period_ms i \<noteq> 0" using ns by (simp add: unat_eq_0)
  have "st_heap s' = (st_heap s)(a \<mapsto> i\<lparr>si_started := True\<rparr>)" "st_timers s' (si_timerid i) = Some (a, soft_timer_spec i)"
    using assms by (auto simp: drv_soft_timer_start_def if_stopped_def timer_settime_def tcall_def tset_def tinst_def sprog_defs split: prod.splits if_splits)
  then show ?thesis using val ns its armed by (auto simp: soft_timer_spec_def it_zero_def Let_def ns_def)
qed

theorem timer_start_period_witness:
  "\<exists>its. st_timers (snd (drv_soft_timer_start sample_timer_os (Some 0) (sample_timer\<lparr>st_heap := [0 \<mapsto> sample_inst]\<rparr>))) 1 = Some (0, its) \<and>
     unat (it_value_sec its) * 1000000000 + unat (it_value_nsec its) = 1000000000 \<and> it_armed its"
  using timer_start_period [of "sample_timer\<lparr>st_heap := [0 \<mapsto> sample_inst]\<rparr>" 0 sample_inst "it_zero\<lparr>it_value_sec := 1\<rparr>" sample_timer_os]
  by (auto simp: timer_eval sample_timer_def sample_inst_def)

end
