(* ===== verification/Input.thy ===== *)
theory Input
  imports Hal_Inst C_Loops
begin

text \<open>
  The input event driver (\<open>rtsmart_hal/drivers/input/drv_input.c\<close>): instances over \<open>/dev/input/event<n>\<close>, their disconnection and
  reconnection to the first device of a kind, and polling in slices. A function that returns a number or a negated error number gives
  a \<open>rc\<close>: \<open>Inl e\<close> is \<open>-e\<close>. Reading events and building frames is in \<open>Input_Frames\<close>.
\<close>

section \<open>State\<close>

type_synonym rc = "errno + int"

definition DRV_INPUT_POLL_SLICE_MS :: int where "DRV_INPUT_POLL_SLICE_MS = 200"
definition DRV_INPUT_PATH_MAX :: nat where "DRV_INPUT_PATH_MAX = 64"
definition DRV_INPUT_NAME_MAX :: nat where "DRV_INPUT_NAME_MAX = 32"
definition DRV_INPUT_DEV_UNKNOWN :: u32 where "DRV_INPUT_DEV_UNKNOWN = 0"

record drv_input_info =
  in_kind :: u32
  in_ev_bits :: u32
  in_key_bits :: u32
  in_rel_bits :: u32
  in_abs_bits :: u32
  in_name :: string

definition zero_info :: drv_input_info where
  "zero_info = \<lparr>in_kind = 0, in_ev_bits = 0, in_key_bits = 0, in_rel_bits = 0, in_abs_bits = 0,
     in_name = replicate DRV_INPUT_NAME_MAX (CHR 0x00)\<rparr>"

record drv_input_inst =
  ii_base_ok :: bool
  ii_id :: int
  ii_fd :: int
  ii_button_state :: u32
  ii_info :: drv_input_info
  ii_path :: string
  ii_preferred_kind :: u32
  ii_auto_reconnect :: bool

record input_event =
  ie_type :: u16
  ie_code :: u16
  ie_value :: u32

type_synonym 'd input = "(drv_input_inst, 'd) hal"

text \<open>
  The kernel: \<open>errno\<close> after a failed call, \<open>poll\<close> with its count and whether an error event is set, \<open>read\<close> into an
  event and \<open>ioctl\<close> into a structure, both with what the memory held before.
\<close>

record 'd input_os = "'d os_files" +
  ip_errno :: "'d \<Rightarrow> errno"
  ip_poll :: "int \<Rightarrow> int \<Rightarrow> 'd \<Rightarrow> (int \<times> bool) \<times> 'd"
  ip_read :: "int \<Rightarrow> input_event \<Rightarrow> 'd \<Rightarrow> (int \<times> input_event) \<times> 'd"
  ip_get_info :: "int \<Rightarrow> drv_input_info \<Rightarrow> 'd \<Rightarrow> (int \<times> drv_input_info) \<times> 'd"

definition input_errno :: "'d input_os \<Rightarrow> ('d input, errno) prog" where
  "input_errno os = sget (\<lambda>s. ip_errno os (hal_dev s))"

section \<open>Helpers\<close>

definition drv_input_ret_is_disconnect :: "rc \<Rightarrow> bool" where
  "drv_input_ret_is_disconnect ret \<longleftrightarrow> ret = Inl ENODEV \<or> ret = Inl EIO \<or> ret = Inl ENXIO"

text \<open>A name compared with \<open>strncmp(\<dots>, DRV_INPUT_NAME_MAX)\<close>: up to the first null character of its array.\<close>

definition name_text :: "string \<Rightarrow> string" where
  "name_text n = takeWhile (\<lambda>c. c \<noteq> CHR 0x00) (take DRV_INPUT_NAME_MAX n)"

definition drv_input_path_rebound :: "'d input_os \<Rightarrow> nat option \<Rightarrow> ('d input, bool) prog" where
  "drv_input_path_rebound os inst =
     (case inst of None \<Rightarrow> sret True
      | Some a \<Rightarrow> sbind (hinst a) (\<lambda>i.
          if ii_fd i < 0 then sret True
          else if in_kind (ii_info i) = DRV_INPUT_DEV_UNKNOWN then sret False
          else
            sbind (hcall (ip_get_info os (ii_fd i) zero_info)) (\<lambda>(ret, info).
            if ret < 0 then sret True
            else
              sret (in_kind info \<noteq> in_kind (ii_info i) \<or> in_ev_bits info \<noteq> in_ev_bits (ii_info i) \<or>
                in_key_bits info \<noteq> in_key_bits (ii_info i) \<or> in_rel_bits info \<noteq> in_rel_bits (ii_info i) \<or>
                in_abs_bits info \<noteq> in_abs_bits (ii_info i) \<or> name_text (in_name info) \<noteq> name_text (in_name (ii_info i))))))"

definition drv_input_poll_once :: "'d input_os \<Rightarrow> nat \<Rightarrow> int \<Rightarrow> ('d input, rc) prog" where
  "drv_input_poll_once os a timeout_ms =
     sbind (hinst a) (\<lambda>i.
     sbind (hcall (ip_poll os (ii_fd i) timeout_ms)) (\<lambda>(ret, error_event).
     if ret < 0 then sbind (input_errno os) (\<lambda>e. sret (Inl e))
     else if ret > 0 \<and> error_event then sret (Inl EIO) else sret (Inr ret)))"

section \<open>Instances\<close>

definition drv_input_inst_destroy :: "'d input_os \<Rightarrow> nat option \<Rightarrow> ('d input, nat option) prog" where
  "drv_input_inst_destroy os inst =
     (case inst of None \<Rightarrow> sret None
      | Some a \<Rightarrow> sbind (hinst a) (\<lambda>i.
          if \<not> ii_base_ok i then sret (Some a)
          else
            sbind (if 0 \<le> ii_fd i then hclose os (ii_fd i) else sret ()) (\<lambda>_.
            sbind (hfree a) (\<lambda>_. sret None))))"

text \<open>A null path or a null \<open>inst\<close> is \<open>None\<close>; the result is the value returned and the caller's pointer.\<close>

definition drv_input_open_path ::
    "'d input_os \<Rightarrow> string option \<Rightarrow> nat option option \<Rightarrow> int \<Rightarrow> ('d input, rc \<times> nat option) prog" where
  "drv_input_open_path os path inst i =
     (case (path, inst) of
        (Some path, Some p) \<Rightarrow>
          sbind (if p \<noteq> None then drv_input_inst_destroy os p else sret None) (\<lambda>_.
          sbind (hopen os path) (\<lambda>fd.
          if fd < 0 then sbind (input_errno os) (\<lambda>e. sret (Inl e, None))
          else
            sbind (hmalloc os) (\<lambda>ok.
            if \<not> ok then sbind (hclose os fd) (\<lambda>_. sret (Inl ENOMEM, None))
            else
              sbind (hnew \<lparr>ii_base_ok = True, ii_id = i, ii_fd = fd, ii_button_state = 0, ii_info = zero_info,
                ii_path = take (DRV_INPUT_PATH_MAX - 1) path, ii_preferred_kind = 0, ii_auto_reconnect = False\<rparr>) (\<lambda>a.
              sret (Inr 0, Some a)))))
      | _ \<Rightarrow> sret (Inl EINVAL, case inst of None \<Rightarrow> None | Some p \<Rightarrow> p))"

definition event_path :: "int \<Rightarrow> string" where
  "event_path i = ''/dev/input/event'' @ decimal (nat i)"

definition drv_input_inst_create :: "'d input_os \<Rightarrow> int \<Rightarrow> nat option option \<Rightarrow> ('d input, rc \<times> nat option) prog" where
  "drv_input_inst_create os i inst =
     (if i < 0 \<or> inst = None then sret (Inl EINVAL, case inst of None \<Rightarrow> None | Some p \<Rightarrow> p)
      else drv_input_open_path os (Some (take (DRV_INPUT_PATH_MAX - 1) (event_path i))) inst i)"

definition drv_input_inst_create_path ::
    "'d input_os \<Rightarrow> string option \<Rightarrow> nat option option \<Rightarrow> ('d input, rc \<times> nat option) prog" where
  "drv_input_inst_create_path os path inst = drv_input_open_path os path inst (-1)"

definition drv_input_inst_mark_disconnected :: "'d input_os \<Rightarrow> nat option \<Rightarrow> ('d input, unit) prog" where
  "drv_input_inst_mark_disconnected os inst =
     (case inst of None \<Rightarrow> sret ()
      | Some a \<Rightarrow> sbind (hinst a) (\<lambda>i.
          sbind (if 0 \<le> ii_fd i then sbind (hclose os (ii_fd i)) (\<lambda>_. hset a (\<lambda>i. i\<lparr>ii_fd := -1\<rparr>)) else sret ()) (\<lambda>_.
          hset a (\<lambda>i. i\<lparr>ii_button_state := 0, ii_info := zero_info\<rparr>))))"

definition drv_input_inst_is_connected :: "nat option \<Rightarrow> ('d input, bool) prog" where
  "drv_input_inst_is_connected inst = (case inst of None \<Rightarrow> sret False | Some a \<Rightarrow> sbind (hinst a) (\<lambda>i. sret (0 \<le> ii_fd i)))"

text \<open>What is written to \<open>info\<close> (a null pointer when \<open>given\<close> is false) is the second component, if anything is.\<close>

definition drv_input_get_info ::
    "'d input_os \<Rightarrow> nat option \<Rightarrow> bool \<Rightarrow> ('d input, rc \<times> drv_input_info option) prog" where
  "drv_input_get_info os inst given =
     (case inst of None \<Rightarrow> sret (Inl EGENERIC, None)
      | Some a \<Rightarrow> sbind (hinst a) (\<lambda>i.
          if ii_fd i < 0 \<or> \<not> given then sret (Inl EGENERIC, None)
          else
            sbind (hcall (ip_get_info os (ii_fd i) zero_info)) (\<lambda>(ret, info).
            if ret < 0 then sbind (input_errno os) (\<lambda>e. sret (Inl e, Some info))
            else sbind (hset a (\<lambda>i. i\<lparr>ii_info := info\<rparr>)) (\<lambda>_. sret (Inr 0, Some info)))))"

section \<open>Finding a device and reconnecting\<close>

text \<open>The loop over the device numbers: the first one of the kind with its description. Every instance it opens is destroyed again.\<close>

definition info_matches :: "u32 \<Rightarrow> rc \<times> drv_input_info option \<Rightarrow> drv_input_info option" where
  "info_matches kind r =
     (case r of (ret, Some local_info) \<Rightarrow> if ret = Inr 0 \<and> in_kind local_info = kind then Some local_info else None
      | (ret, None) \<Rightarrow> None)"

fun find_kind_from :: "'d input_os \<Rightarrow> u32 \<Rightarrow> int list \<Rightarrow> ('d input, (int \<times> drv_input_info) option) prog" where
  "find_kind_from os kind [] = sret None"
| "find_kind_from os kind (i # ids) =
     sbind (drv_input_inst_create os i (Some None)) (\<lambda>(ret, inst).
     if ret \<noteq> Inr 0 then find_kind_from os kind ids
     else
       sbind (drv_input_get_info os inst True) (\<lambda>r.
       sbind (drv_input_inst_destroy os inst) (\<lambda>_.
       case info_matches kind r of Some info \<Rightarrow> sret (Some (i, info)) | None \<Rightarrow> find_kind_from os kind ids)))"

text \<open>
  The caller's buffer is its size (\<open>None\<close> for null); what is written to it comes back with the description.
\<close>

definition drv_input_find_first_by_type ::
    "'d input_os \<Rightarrow> u32 \<Rightarrow> nat option \<Rightarrow> ('d input, rc \<times> (string \<times> drv_input_info) option) prog" where
  "drv_input_find_first_by_type os kind path =
     (case path of None \<Rightarrow> sret (Inl EGENERIC, None)
      | Some sz \<Rightarrow>
          if sz = 0 then sret (Inl EGENERIC, None)
          else sbind (find_kind_from os kind [0..31]) (\<lambda>r.
            case r of None \<Rightarrow> sret (Inl ENOENT, None)
            | Some (i, info) \<Rightarrow> sret (Inr 0, Some (take (sz - 1) (event_path i), info))))"

definition drv_input_inst_try_reconnect :: "'d input_os \<Rightarrow> nat option \<Rightarrow> ('d input, rc) prog" where
  "drv_input_inst_try_reconnect os inst =
     (case inst of None \<Rightarrow> sret (Inl EINVAL)
      | Some a \<Rightarrow> sbind (hinst a) (\<lambda>i.
          if 0 \<le> ii_fd i then sret (Inr 0)
          else if ii_preferred_kind i = DRV_INPUT_DEV_UNKNOWN then sret (Inl EINVAL)
          else
            sbind (drv_input_find_first_by_type os (ii_preferred_kind i) (Some DRV_INPUT_PATH_MAX)) (\<lambda>(ret, found).
            case found of None \<Rightarrow> sret (Inl ENOENT)
            | Some (path, info) \<Rightarrow>
                if ret \<noteq> Inr 0 then sret (Inl ENOENT)
                else
                  sbind (hopen os path) (\<lambda>fd.
                  if fd < 0 then sbind (input_errno os) (\<lambda>e. sret (Inl e))
                  else
                    sbind (hset a (\<lambda>i. i\<lparr>ii_fd := fd, ii_button_state := 0, ii_path := take (DRV_INPUT_PATH_MAX - 1) path,
                      ii_info := info\<rparr>)) (\<lambda>_. sret (Inr 0))))))"

definition drv_input_inst_set_auto_reconnect :: "nat option \<Rightarrow> u32 \<Rightarrow> ('d input, unit) prog" where
  "drv_input_inst_set_auto_reconnect inst kind =
     (case inst of None \<Rightarrow> sret ()
      | Some a \<Rightarrow> hset a (\<lambda>i. i\<lparr>ii_preferred_kind := kind, ii_auto_reconnect := (kind \<noteq> DRV_INPUT_DEV_UNKNOWN)\<rparr>))"

definition drv_input_handle_disconnect :: "'d input_os \<Rightarrow> nat \<Rightarrow> ('d input, rc) prog" where
  "drv_input_handle_disconnect os a =
     sbind (drv_input_inst_mark_disconnected os (Some a)) (\<lambda>_.
     sbind (hinst a) (\<lambda>i.
     if \<not> ii_auto_reconnect i then sret (Inl ENODEV)
     else
       sbind (drv_input_inst_try_reconnect os (Some a)) (\<lambda>ret.
       if ret = Inr 0 then sret (Inr 0) else sret (Inl ENODEV))))"

text \<open>A disconnected instance tries to reconnect when it may: the head of \<open>poll\<close> and of the reads.\<close>

definition reconnected :: "'d input_os \<Rightarrow> nat \<Rightarrow> ('d input, bool) prog" where
  "reconnected os a =
     sbind (hinst a) (\<lambda>i.
     if ii_auto_reconnect i then sbind (drv_input_inst_try_reconnect os (Some a)) (\<lambda>ret. sret (ret = Inr 0)) else sret False)"

section \<open>Polling\<close>

definition poll_slice_ms :: "int \<Rightarrow> int \<Rightarrow> int" where
  "poll_slice_ms timeout_ms remaining_ms =
     (if timeout_ms < 0 then DRV_INPUT_POLL_SLICE_MS
      else if remaining_ms > DRV_INPUT_POLL_SLICE_MS then DRV_INPUT_POLL_SLICE_MS else remaining_ms)"

text \<open>One round of the loop: a value to return, or \<open>None\<close> to go on.\<close>

definition poll_round :: "'d input_os \<Rightarrow> nat \<Rightarrow> int \<Rightarrow> ('d input, rc option) prog" where
  "poll_round os a slice_ms =
     sbind (drv_input_poll_once os a slice_ms) (\<lambda>ret.
     case ret of
       Inl e \<Rightarrow>
         if drv_input_ret_is_disconnect ret then sbind (drv_input_handle_disconnect os a) (\<lambda>r. sret (Some r)) else sret (Some ret)
     | Inr n \<Rightarrow>
         if n > 0 then sret (Some ret)
         else
           sbind (drv_input_path_rebound os (Some a)) (\<lambda>rebound.
           if rebound then sbind (drv_input_handle_disconnect os a) (\<lambda>r. sret (Some r)) else sret None))"

partial_function (option) poll_loop ::
    "'d input_os \<Rightarrow> nat \<Rightarrow> int \<Rightarrow> int \<Rightarrow> 'd input \<Rightarrow> (rc cres \<times> 'd input) option" where
  "poll_loop os a timeout_ms remaining_ms s =
     (if timeout_ms < 0 \<or> remaining_ms > 0 then
        (case poll_round os a (poll_slice_ms timeout_ms remaining_ms) s of
           (Ret None, s') \<Rightarrow>
             poll_loop os a timeout_ms
               (if timeout_ms > 0 then remaining_ms - poll_slice_ms timeout_ms remaining_ms else remaining_ms) s'
         | (Ret (Some r), s') \<Rightarrow> Some (Ret r, s')
         | (Fail e, s') \<Rightarrow> Some (Fail e, s')
         | (Fault, s') \<Rightarrow> Some (Fault, s'))
      else Some (Ret (Inr 0), s))"

definition drv_input_poll :: "'d input_os \<Rightarrow> nat option \<Rightarrow> int \<Rightarrow> ('d input, rc) oprog" where
  "drv_input_poll os inst timeout_ms =
     (case inst of None \<Rightarrow> orun (sret (Inl EGENERIC))
      | Some a \<Rightarrow> obind (orun (hinst a)) (\<lambda>i.
          if ii_fd i < 0 then obind (orun (reconnected os a)) (\<lambda>ok. orun (sret (if ok then Inr 1 else Inl ENODEV)))
          else if timeout_ms = 0 then
            orun (sbind (drv_input_poll_once os a 0) (\<lambda>ret.
              if ret \<noteq> Inr 0 then sret ret
              else sbind (drv_input_path_rebound os (Some a)) (\<lambda>rebound.
                if rebound then drv_input_handle_disconnect os a else sret ret)))
          else poll_loop os a timeout_ms timeout_ms))"

section \<open>Invariant\<close>

text \<open>
  \<open>gone\<close> are the instances that are disconnected. All instances carry the driver's tag; a disconnected one holds no description and
  its descriptor is \<open>-1\<close>.
\<close>

definition gone :: "(nat \<Rightarrow> drv_input_inst option) \<Rightarrow> nat set" where
  "gone h = {a. \<exists>i. h a = Some i \<and> ii_fd i < 0}"

definition input_inst_ok :: "drv_input_inst \<Rightarrow> bool" where
  "input_inst_ok i \<longleftrightarrow> ii_base_ok i \<and> (ii_fd i < 0 \<longrightarrow> ii_fd i = -1 \<and> ii_info i = zero_info)"

abbreviation input_R :: "'d input \<Rightarrow> bool" where
  "input_R s \<equiv> \<forall>a i. hal_heap s a = Some i \<longrightarrow> input_inst_ok i"

abbreviation input_st :: "int set \<Rightarrow> 'd input \<Rightarrow> bool" where
  "input_st X s \<equiv> hal_st ii_fd input_R X (gone (hal_heap s)) s"

interpretation input: driver_state ii_fd input_R
  by unfold_locales (simp add: same_inst_def)

lemma gone_same: "same_inst s s' \<Longrightarrow> gone (hal_heap s') = gone (hal_heap s)"
  by (simp add: same_inst_def)

lemma gone_iff [simp]: "h a = Some i \<Longrightarrow> a \<in> gone h \<longleftrightarrow> ii_fd i < 0"
  by (simp add: gone_def)

lemma gone_upd:
  "gone (h(a \<mapsto> i)) = (if ii_fd i < 0 then insert a (gone h) else gone h - {a})"
  "gone (h(a := None)) = gone h - {a}"
  by (auto simp: gone_def)

lemma fresh_not_gone: "h a = None \<Longrightarrow> gone h - {a} = gone h"
  by (auto simp: gone_def)

text \<open>Calls that leave the instances alone.\<close>

lemma input_call:
  assumes "input_st X s" and "\<And>a s'. input_st X s' \<Longrightarrow> same_inst s s' \<Longrightarrow> Q a s'"
  shows "swp (hcall f) Q E s"
  by (rule input.st_call [OF assms(1)]) (rule assms(2); simp add: gone_same)

lemma input_malloc:
  assumes "input_st X s" and "\<And>a s'. input_st X s' \<Longrightarrow> same_inst s s' \<Longrightarrow> Q a s'"
  shows "swp (hmalloc os) Q E s"
  unfolding hmalloc_def using assms by (rule input_call)

lemma input_open:
  assumes "os_files_ok os" and "input_st X s"
    and "\<And>fd s'. fd < 0 \<Longrightarrow> input_st X s' \<Longrightarrow> same_inst s s' \<Longrightarrow> Q fd s'"
    and "\<And>fd s'. 0 \<le> fd \<Longrightarrow> fd \<notin> X \<Longrightarrow> input_st (insert fd X) s' \<Longrightarrow> same_inst s s' \<Longrightarrow> Q fd s'"
  shows "swp (hopen os path) Q E s"
  by (rule input.st_open [OF assms(1,2)]) (rule assms(3) assms(4); simp add: gone_same)+

lemma input_close:
  assumes "input_st X s" and "fd \<in> X" and "\<And>s'. input_st (X - {fd}) s' \<Longrightarrow> same_inst s s' \<Longrightarrow> Q () s'"
  shows "swp (hclose os fd) Q E s"
  by (rule input.st_close [OF assms(1,2)]) (rule assms(3); simp add: gone_same)

lemma input_inst:
  assumes "input_st X s" and "live_ptr s (Some a)" and "\<And>i. hal_heap s a = Some i \<Longrightarrow> input_inst_ok i \<Longrightarrow> Q i s"
  shows "swp (hinst a) Q E s"
  by (rule input.st_inst [OF assms(1,2)]) (use assms(3) in blast)

lemma input_new:
  assumes "input_st X s" and "ii_fd i \<in> X" and "0 \<le> ii_fd i" and "input_inst_ok i"
    and "\<And>a s'. input_st (X - {ii_fd i}) s' \<Longrightarrow> hal_heap s a = None \<Longrightarrow> hal_heap s' = (hal_heap s)(a \<mapsto> i) \<Longrightarrow> Q a s'"
  shows "swp (hnew i) Q E s"
proof (rule input.st_new [OF assms(1,2)], goal_cases)
  case (1 s')
  then show ?case using assms(3,4) by (intro assms(5)) (auto simp: hal_st_def gone_upd fresh_not_gone split: if_splits)
qed

lemma input_set:
  assumes "input_st X s" and "hal_heap s a = Some i" and "ii_fd (f i) = ii_fd i" and "input_inst_ok (f i)"
    and "\<And>s'. input_st X s' \<Longrightarrow> hal_heap s' = (hal_heap s)(a \<mapsto> f i) \<Longrightarrow> Q () s'"
  shows "swp (hset a f) Q E s"
proof (rule input.st_set [where f = f and i = i, OF assms(1-3)], goal_cases)
  case (1 s')
  have "gone (hal_heap s') = gone (hal_heap s)" using 1(3) assms(2,3) by (auto simp: gone_upd gone_def)
  then show ?case using 1 assms(4) by (intro assms(5)) (auto simp: hal_st_def split: if_splits)
qed

text \<open>Destroying gives the descriptor and the memory back.\<close>

lemma input_destroy:
  assumes s: "input_st X s" and p: "live_ptr s inst"
    and post: "\<And>s'. input_st X s' \<Longrightarrow> hal_heap s' = (case inst of None \<Rightarrow> hal_heap s | Some a \<Rightarrow> (hal_heap s)(a := None)) \<Longrightarrow> Q None s'"
  shows "swp (drv_input_inst_destroy os inst) Q E s"
proof (cases inst)
  case (Some a)
  have free: "swp (hfree a) (\<lambda>_. Q None) E s1"
    if s1: "hal_st ii_fd input_R X (insert a (gone (hal_heap s))) s1" "hal_heap s1 = hal_heap s" for s1
  proof -
    obtain i where a: "hal_heap s1 a = Some i" using p Some s1(2) by (auto simp: live_ptr_def)
    show ?thesis
    proof (rule swp_hfree [where fd_of = ii_fd and X = X and Y = "insert a (gone (hal_heap s))", OF _ a], goal_cases)
      case (3 s')
      then show ?case using s1 Some by (intro post) (auto simp: hal_st_def gone_upd split: if_splits)
    qed (use s1 in \<open>auto simp: hal_st_def\<close>)
  qed
  show ?thesis unfolding drv_input_inst_destroy_def Some option.case swp_simps
  proof (rule input_inst [OF s], goal_cases)
    case (2 i)
    show ?case
    proof (cases "0 \<le> ii_fd i")
      case True
      then have "swp (hclose os (ii_fd i)) (\<lambda>_. swp (hfree a) (\<lambda>_. Q None) E) E s"
        by (intro input.st_close_owned [OF s 2(1)]) (use 2(1) in \<open>auto simp: same_inst_def intro!: free\<close>)
      then show ?thesis using 2 True by (simp add: input_inst_ok_def)
    next
      case False
      then have "insert a (gone (hal_heap s)) = gone (hal_heap s)" using 2(1) by (auto simp: gone_def)
      then show ?thesis using 2 False free [of s] s by (simp add: input_inst_ok_def)
    qed
  qed (use p Some in simp)
qed (use s post in \<open>simp add: drv_input_inst_destroy_def\<close>)

text \<open>Opening a path ends with a new instance or with none, beside the heap without the caller's instance.\<close>

lemma input_open_path:
  assumes os: "os_files_ok os" and s: "input_st {} s" and p: "live_ptr s p"
    and h0: "h0 = (case p of None \<Rightarrow> hal_heap s | Some a \<Rightarrow> (hal_heap s)(a := None))"
    and bad: "\<And>e s'. input_st {} s' \<Longrightarrow> hal_heap s' = h0 \<Longrightarrow> Q (Inl e, None) s'"
    and good: "\<And>a i s'. input_st {} s' \<Longrightarrow> h0 a = None \<Longrightarrow> hal_heap s' = h0(a \<mapsto> i) \<Longrightarrow> 0 \<le> ii_fd i \<Longrightarrow> Q (Inr 0, Some a) s'"
  shows "swp (drv_input_open_path os (Some path) (Some p) n) Q E s"
proof -
  let ?i = "\<lambda>fd. \<lparr>ii_base_ok = True, ii_id = n, ii_fd = fd, ii_button_state = 0, ii_info = zero_info,
      ii_path = take (DRV_INPUT_PATH_MAX - 1) path, ii_preferred_kind = 0, ii_auto_reconnect = False\<rparr>"
  let ?open = "\<lambda>fd. if fd < 0 then sbind (input_errno os) (\<lambda>e. sret (Inl e, None))
      else sbind (hmalloc os) (\<lambda>ok. if \<not> ok then sbind (hclose os fd) (\<lambda>_. sret (Inl ENOMEM, None))
        else sbind (hnew (?i fd)) (\<lambda>a. sret (Inr 0, Some a)))"
  have opened: "swp (?open fd) Q E s2" if s2: "0 \<le> fd" "input_st {fd} s2" "hal_heap s2 = h0" for fd s2
  proof -
    have "swp (hmalloc os) (\<lambda>ok. swp (if \<not> ok then sbind (hclose os fd) (\<lambda>_. sret (Inl ENOMEM, None))
        else sbind (hnew (?i fd)) (\<lambda>a. sret (Inr 0, Some a))) Q E) E s2"
    proof (rule input_malloc [OF s2(2)], goal_cases)
      case (1 ok s3)
      show ?case
      proof (cases ok)
        case True
        have "swp (hnew (?i fd)) (\<lambda>a. Q (Inr 0, Some a)) E s3"
          by (rule input_new [OF 1(1)]) (use 1 s2 in \<open>auto simp: input_inst_ok_def same_inst_def intro!: good\<close>)
        then show ?thesis using True by simp
      next
        case False
        have "swp (hclose os fd) (\<lambda>_. Q (Inl ENOMEM, None)) E s3"
          by (rule input_close [OF 1(1)]) (use 1 s2 in \<open>auto simp: same_inst_def intro!: bad\<close>)
        then show ?thesis using False by simp
      qed
    qed
    then show ?thesis using s2 by simp
  qed
  have step: "swp (hopen os path) (\<lambda>fd. swp (?open fd) Q E) E s1" if s1: "input_st {} s1" "hal_heap s1 = h0" for s1
  proof (rule input_open [OF os s1(1)], goal_cases)
    case (1 fd s')
    then show ?case using s1(2) by (simp add: input_errno_def same_inst_def bad)
  next
    case (2 fd s')
    show ?case by (rule opened) (use 2 s1(2) in \<open>simp_all add: same_inst_def\<close>)
  qed
  have "swp (if p \<noteq> None then drv_input_inst_destroy os p else sret None) (\<lambda>_. swp (hopen os path) (\<lambda>fd. swp (?open fd) Q E) E) E s"
  proof (cases p)
    case (Some a)
    have "swp (drv_input_inst_destroy os p) (\<lambda>_. swp (hopen os path) (\<lambda>fd. swp (?open fd) Q E) E) E s"
      by (rule input_destroy [OF s p]) (rule step; simp add: h0)
    then show ?thesis using Some by simp
  qed (use step [OF s] h0 in simp)
  then show ?thesis by (simp add: drv_input_open_path_def)
qed

lemma input_create:
  assumes "os_files_ok os" and "input_st {} s" and "live_ptr s p"
    and "h0 = (case p of None \<Rightarrow> hal_heap s | Some a \<Rightarrow> (hal_heap s)(a := None))"
    and "\<And>e s'. input_st {} s' \<Longrightarrow> hal_heap s' = h0 \<Longrightarrow> Q (Inl e, None) s'"
    and "\<And>a i s'. input_st {} s' \<Longrightarrow> h0 a = None \<Longrightarrow> hal_heap s' = h0(a \<mapsto> i) \<Longrightarrow> 0 \<le> ii_fd i \<Longrightarrow> Q (Inr 0, Some a) s'"
    and "n < 0 \<Longrightarrow> Q (Inl EINVAL, p) s"
  shows "swp (drv_input_inst_create os n (Some p)) Q E s"
  using assms(7) input_open_path [OF assms(1-6)] by (simp add: drv_input_inst_create_def)

text \<open>The description of a device goes into its instance.\<close>

lemma input_get_info:
  assumes s: "input_st {} s" and a: "hal_heap s a = Some i"
    and post: "\<And>r j s'. input_st {} s' \<Longrightarrow> hal_heap s' = (hal_heap s)(a \<mapsto> j) \<Longrightarrow> Q r s'"
  shows "swp (drv_input_get_info os (Some a) given) Q E s"
  unfolding drv_input_get_info_def option.case swp_simps
proof (rule input_inst [OF s], goal_cases)
  case (2 k)
  have same: "Q r s'" if "input_st {} s'" "hal_heap s' = hal_heap s" for r s'
    using that a by (intro post [of _ i]) auto
  have "swp (hcall (ip_get_info os (ii_fd k) zero_info)) (\<lambda>(ret, info). swp (if ret < 0 then sbind (input_errno os) (\<lambda>e. sret (Inl e, Some info))
      else sbind (hset a (\<lambda>i. i\<lparr>ii_info := info\<rparr>)) (\<lambda>_. sret (Inr 0, Some info))) Q E) E s" if fd: "0 \<le> ii_fd k"
  proof (rule input_call [OF s], goal_cases)
    case (1 r s1)
    obtain ret info where r: "r = (ret, info)" by fastforce
    have h: "hal_heap s1 = hal_heap s" "hal_heap s1 a = Some k" using 1(2) 2(1) by (simp_all add: same_inst_def)
    have "swp (hset a (\<lambda>i. i\<lparr>ii_info := info\<rparr>)) (\<lambda>_. Q (Inr 0, Some info)) E s1"
      by (rule input_set [OF 1(1) h(2)]) (use 2(2) fd h in \<open>auto simp: input_inst_ok_def intro!: post\<close>)
    then show ?case using 1(1) h r by (auto simp: input_errno_def intro!: same)
  qed
  then show ?case using s by (simp add: case_prod_unfold same not_less)
qed (use a in \<open>simp add: live_ptr_def\<close>)

lemma input_find_kind:
  assumes os: "os_files_ok os"
  shows "input_st {} s \<Longrightarrow> (\<And>r s'. input_st {} s' \<Longrightarrow> hal_heap s' = hal_heap s \<Longrightarrow> Q r s') \<Longrightarrow> swp (find_kind_from os kind ids) Q E s"
proof (induction ids arbitrary: s)
  case Nil
  then show ?case by simp
next
  case (Cons n ids)
  have gave: "swp (drv_input_inst_destroy os (Some a)) (\<lambda>_. R) E s2"
    if s2: "input_st {} s2" "hal_heap s2 = (hal_heap s)(a \<mapsto> j)" "hal_heap s a = None"
      and R: "\<And>s3. input_st {} s3 \<Longrightarrow> hal_heap s3 = hal_heap s \<Longrightarrow> R s3" for a j s2 R
    by (rule input_destroy [OF s2(1)]) (use s2 in \<open>auto simp: live_ptr_def fun_upd_idem intro!: R\<close>)
  have go: "swp (find_kind_from os kind ids) Q E s1" if "input_st {} s1" "hal_heap s1 = hal_heap s" for s1
    by (rule Cons.IH [OF that(1)]) (simp add: Cons.prems(2) that(2))
  show ?case unfolding find_kind_from.simps swp_simps
  proof (rule input_create [OF os Cons.prems(1) _ refl, where p = None], goal_cases)
    case (3 a i s1)
    note 3 = 3 [unfolded option.case]
    have "swp (drv_input_get_info os (Some a) True) (\<lambda>r. swp (drv_input_inst_destroy os (Some a)) (\<lambda>_.
        swp (case info_matches kind r of Some info \<Rightarrow> sret (Some (n, info)) | None \<Rightarrow> find_kind_from os kind ids) Q E) E) E s1"
    proof (rule input_get_info [OF 3(1), where i = i], goal_cases)
      case (2 r j s2)
      have h: "hal_heap s2 = (hal_heap s)(a \<mapsto> j)" using 2(2) 3(3) by simp
      show ?case
        by (rule gave [OF 2(1) h 3(2)]) (use go Cons.prems(2) in \<open>auto split: option.splits\<close>)
    qed (simp add: 3(3))
    then show ?case by (simp add: case_prod_unfold)
  qed (use go Cons.prems(1) in \<open>simp_all add: live_ptr_def\<close>)
qed

lemma input_find_first:
  assumes "os_files_ok os" and "input_st {} s" and "\<And>r s'. input_st {} s' \<Longrightarrow> hal_heap s' = hal_heap s \<Longrightarrow> Q r s'"
  shows "swp (drv_input_find_first_by_type os kind path) Q E s"
proof -
  have "swp (find_kind_from os kind [0..31]) (\<lambda>r. swp (case r of None \<Rightarrow> sret (Inl ENOENT, None)
      | Some (i, info) \<Rightarrow> sret (Inr 0, Some (take (sz - 1) (event_path i), info))) Q E) E s" for sz
    by (rule input_find_kind [OF assms(1,2)]) (use assms(3) in \<open>auto split: option.splits\<close>)
  then show ?thesis using assms(2,3) by (auto simp: drv_input_find_first_by_type_def split: option.splits simp del: One_nat_def)
qed

text \<open>What these operations do to the heap: at most the instance itself changes.\<close>

definition upd_only :: "nat \<Rightarrow> 'd input \<Rightarrow> 'd input \<Rightarrow> bool" where
  "upd_only a s s' \<longleftrightarrow> (\<exists>j. hal_heap s' = (hal_heap s)(a \<mapsto> j))"

lemma upd_only_same: "hal_heap s' = hal_heap s \<Longrightarrow> hal_heap s a = Some i \<Longrightarrow> upd_only a s s'"
  unfolding upd_only_def by (intro exI [of _ i]) auto

lemma upd_only_trans: "upd_only a s s' \<Longrightarrow> upd_only a s' s'' \<Longrightarrow> upd_only a s s''"
  unfolding upd_only_def by force

lemma upd_only_live: "upd_only a s s' \<Longrightarrow> live_ptr s' (Some a)"
  unfolding upd_only_def live_ptr_def by force

text \<open>The post-condition all of them share.\<close>

abbreviation input_keeps :: "('d input, 'a) prog \<Rightarrow> nat \<Rightarrow> 'd input \<Rightarrow> bool" where
  "input_keeps m a s \<equiv> swp m (\<lambda>_ s'. input_st {} s' \<and> upd_only a s s') (\<lambda>_ _. False) s"

lemma input_keepsD:
  assumes "input_keeps m a s" and "\<And>r s'. input_st {} s' \<Longrightarrow> upd_only a s s' \<Longrightarrow> Q r s'"
  shows "swp m Q E s"
  using assms(1) by (rule swp_mono) (use assms(2) in auto)

lemma mark_disconnected_keeps:
  assumes s: "input_st {} s" and a: "hal_heap s a = Some i"
  shows "swp (drv_input_inst_mark_disconnected os (Some a))
    (\<lambda>_ s'. input_st {} s' \<and> hal_heap s' = (hal_heap s)(a \<mapsto> i\<lparr>ii_fd := (if ii_fd i < 0 then ii_fd i else -1), ii_button_state := 0, ii_info := zero_info\<rparr>))
    (\<lambda>_ _. False) s"
proof -
  let ?clear = "\<lambda>i. i\<lparr>ii_button_state := 0, ii_info := zero_info\<rparr>"
  have ok: "input_inst_ok i" using s a by (simp add: hal_st_def)
  show ?thesis
  proof (cases "0 \<le> ii_fd i")
    case True
    have "swp (hclose os (ii_fd i)) (\<lambda>_. swp (sbind (hset a (\<lambda>i. i\<lparr>ii_fd := -1\<rparr>)) (\<lambda>_. hset a ?clear))
        (\<lambda>_ s'. input_st {} s' \<and> hal_heap s' = (hal_heap s)(a \<mapsto> ?clear (i\<lparr>ii_fd := -1\<rparr>))) (\<lambda>_ _. False)) (\<lambda>_ _. False) s"
    proof (rule input.st_close_owned [OF s a], goal_cases)
      case (2 s1)
      let ?s2 = "s1\<lparr>hal_heap := (hal_heap s1)(a \<mapsto> ?clear (i\<lparr>ii_fd := -1\<rparr>))\<rparr>"
      have h: "hal_heap s1 = hal_heap s" "hal_heap s1 a = Some i" using 2(2) a by (simp_all add: same_inst_def)
      have "hal_inv ii_fd {} (insert a (gone (hal_heap s))) ?s2"
        by (rule hal_inv_set_gone [OF _ h(2)]) (use 2(1) in \<open>simp_all add: hal_st_def\<close>)
      then have "input_st {} ?s2"
        using s ok by (auto simp: hal_st_def h(1) gone_upd input_inst_ok_def split: if_splits)
      then show ?case using h by (simp add: swp_def hset_def sprog_defs)
    qed (use True a in simp)
    then show ?thesis using a True
      by (simp add: drv_input_inst_mark_disconnected_def swp_def [of "hinst a"] hinst_def)
  next
    case False
    have "swp (hset a ?clear) (\<lambda>_ s'. input_st {} s' \<and> hal_heap s' = (hal_heap s)(a \<mapsto> ?clear i)) (\<lambda>_ _. False) s"
      by (rule input_set [OF s a]) (use ok in \<open>auto simp: input_inst_ok_def\<close>)
    then show ?thesis using a False
      by (simp add: drv_input_inst_mark_disconnected_def swp_def [of "hinst a"] hinst_def)
  qed
qed

text \<open>A reconnection takes the new descriptor over.\<close>

lemma input_take:
  assumes s: "input_st {fd} s" and a: "hal_heap s a = Some i" "ii_fd i < 0" and fd: "0 \<le> fd" and j: "ii_fd (f i) = fd" "input_inst_ok (f i)"
  shows "swp (hset a f) (\<lambda>_ s'. input_st {} s' \<and> upd_only a s s') E s"
proof -
  let ?s = "s\<lparr>hal_heap := (hal_heap s)(a \<mapsto> f i)\<rparr>"
  have "hal_inv ii_fd ({fd} - {ii_fd (f i)}) (gone (hal_heap s) - {a}) ?s"
    by (rule hal_inv_take [OF _ a(1)]) (use s a j in \<open>auto simp: hal_st_def\<close>)
  then have "input_st {} ?s" using s fd j by (auto simp: hal_st_def gone_upd split: if_splits)
  then show ?thesis using a(1) by (auto simp: swp_def hset_def upd_only_def)
qed

lemma try_reconnect_keeps:
  assumes os: "os_files_ok os" and s: "input_st {} s" and a: "hal_heap s a = Some i"
  shows "input_keeps (drv_input_inst_try_reconnect os (Some a)) a s"
proof -
  have same: "hal_heap s' = hal_heap s \<Longrightarrow> upd_only a s s'" for s' using a by (rule upd_only_same [rotated])
  have open_dev: "swp (hopen os path) (\<lambda>fd. swp (if fd < 0 then sbind (input_errno os) (\<lambda>e. sret (Inl e))
      else sbind (hset a (\<lambda>i. i\<lparr>ii_fd := fd, ii_button_state := 0, ii_path := take (DRV_INPUT_PATH_MAX - 1) path, ii_info := info\<rparr>))
        (\<lambda>_. sret (Inr 0))) (\<lambda>_ s'. input_st {} s' \<and> upd_only a s s') (\<lambda>_ _. False)) (\<lambda>_ _. False) s1"
    if fd: "ii_fd i < 0" and s1: "input_st {} s1" "hal_heap s1 = hal_heap s" for path info s1
  proof (rule input_open [OF os s1(1)], goal_cases)
    case (1 fd s2)
    then show ?case using same s1(2) by (simp add: input_errno_def same_inst_def)
  next
    case (2 fd s2)
    have h: "hal_heap s2 = hal_heap s" "hal_heap s2 a = Some i" "input_inst_ok i"
      using 2(4) s1(2) a s by (simp_all add: same_inst_def hal_st_def)
    have "swp (hset a (\<lambda>i. i\<lparr>ii_fd := fd, ii_button_state := 0, ii_path := take (DRV_INPUT_PATH_MAX - 1) path, ii_info := info\<rparr>))
        (\<lambda>_ s'. input_st {} s' \<and> upd_only a s2 s') (\<lambda>_ _. False) s2"
      by (rule input_take [OF _ h(2) fd 2(1)]) (use 2 h(3) in \<open>simp_all add: input_inst_ok_def\<close>)
    then show ?case using 2(1) h(1) by (simp add: upd_only_def)
  qed
  show ?thesis unfolding drv_input_inst_try_reconnect_def option.case swp_simps
  proof (rule input_inst [OF s], goal_cases)
    case (2 k)
    then have k: "k = i" using a by simp
    have "swp (drv_input_find_first_by_type os (ii_preferred_kind i) (Some DRV_INPUT_PATH_MAX)) Q E s"
      if "ii_fd i < 0" "\<And>ret found s1. input_st {} s1 \<Longrightarrow> hal_heap s1 = hal_heap s \<Longrightarrow> Q (ret, found) s1" for Q E
      by (rule input_find_first [OF os s]) (use that in auto)
    note find = this
    show ?case unfolding k
    proof (intro swp_ifI, goal_cases)
      case 3
      show ?case unfolding swp_simps
      proof (rule find, goal_cases)
        case (2 ret found s1)
        then show ?case using open_dev [OF _ 2] 3 same by (auto split: option.splits)
      qed (use 3 in simp)
    qed (use s same in auto)
  qed (use a in \<open>simp add: live_ptr_def\<close>)
qed

lemma live_obtains:
  assumes "live_ptr s (Some a)"
  obtains i where "hal_heap s a = Some i"
  using assms by (auto simp: live_ptr_def)

lemma live_upd_only: "live_ptr s (Some a) \<Longrightarrow> hal_heap s' = hal_heap s \<Longrightarrow> upd_only a s s'"
  by (erule live_obtains) (rule upd_only_same)

lemma live_upd_self: "live_ptr s (Some a) \<Longrightarrow> upd_only a s s"
  by (simp add: live_upd_only)

lemma upd_only_self: "upd_only a s s' \<Longrightarrow> upd_only a s' s'"
  by (rule live_upd_self) (rule upd_only_live)

lemma input_keeps_bind:
  assumes "input_keeps m a s"
    and "\<And>r s'. input_st {} s' \<Longrightarrow> upd_only a s s' \<Longrightarrow> input_keeps (f r) a s'"
  shows "input_keeps (sbind m f) a s"
  unfolding swp_simps
  by (rule input_keepsD [OF assms(1)]) (auto intro: input_keepsD [OF assms(2)] upd_only_trans)

lemma input_set_keeps:
  assumes s: "input_st {} s" and a: "live_ptr s (Some a)" and f: "\<And>i. input_inst_ok i \<Longrightarrow> input_inst_ok (f i) \<and> ii_fd (f i) = ii_fd i"
  shows "input_keeps (hset a f) a s"
proof -
  obtain i where i: "hal_heap s a = Some i" using a by (rule live_obtains)
  then have "input_inst_ok (f i) \<and> ii_fd (f i) = ii_fd i" using s f by (simp add: hal_st_def)
  then show ?thesis by (intro input_set [OF s i]) (blast intro: upd_only_def [THEN iffD2])+
qed

text \<open>Steps that leave the heap alone, as the first step of a program.\<close>

lemma input_keeps_pure:
  assumes "input_st {} s" and "live_ptr s (Some a)"
  shows "input_keeps (sret r) a s"
    and "input_keeps (sget g) a s"
    and "input_keeps (hinst a) a s"
    and "input_keeps (hcall f) a s"
  using assms live_upd_only [OF assms(2)]
  by (auto simp: same_inst_def intro!: input_call [OF assms(1)] input_inst [OF assms])

lemma handle_disconnect_keeps:
  assumes os: "os_files_ok os" and s: "input_st {} s" and a: "live_ptr s (Some a)"
  shows "input_keeps (drv_input_handle_disconnect os a) a s"
proof -
  obtain i where i: "hal_heap s a = Some i" using a by (rule live_obtains)
  have "input_keeps (drv_input_inst_mark_disconnected os (Some a)) a s"
    by (rule swp_mono [OF mark_disconnected_keeps [OF s i]]) (auto simp: upd_only_def)
  moreover have "input_keeps (drv_input_inst_try_reconnect os (Some a)) a s1" if "input_st {} s1" "live_ptr s1 (Some a)" for s1
    using that(2) by (rule live_obtains) (rule try_reconnect_keeps [OF os that(1)])
  ultimately show ?thesis
    unfolding drv_input_handle_disconnect_def
    by (intro input_keeps_bind swp_ifI) (auto intro: input_keeps_pure live_upd_self dest: upd_only_live)
qed

lemma reconnected_keeps:
  assumes os: "os_files_ok os" and s: "input_st {} s" and a: "live_ptr s (Some a)"
  shows "input_keeps (reconnected os a) a s"
proof -
  have "input_keeps (drv_input_inst_try_reconnect os (Some a)) a s1" if "input_st {} s1" "live_ptr s1 (Some a)" for s1
    using that(2) by (rule live_obtains) (rule try_reconnect_keeps [OF os that(1)])
  then show ?thesis using s a unfolding reconnected_def
    by (intro input_keeps_bind swp_ifI) (auto intro: input_keeps_pure live_upd_self dest: upd_only_live)
qed

lemma poll_once_keeps:
  assumes "input_st {} s" and "live_ptr s (Some a)"
  shows "input_keeps (drv_input_poll_once os a t) a s"
  using assms unfolding drv_input_poll_once_def input_errno_def case_prod_unfold
  by (intro input_keeps_bind swp_ifI) (auto intro: input_keeps_pure live_upd_self dest: upd_only_live)

lemma path_rebound_keeps:
  assumes "input_st {} s" and "live_ptr s (Some a)"
  shows "input_keeps (drv_input_path_rebound os (Some a)) a s"
  using assms unfolding drv_input_path_rebound_def case_prod_unfold option.case
  by (intro input_keeps_bind swp_ifI) (auto intro: input_keeps_pure live_upd_self dest: upd_only_live)

lemma poll_round_keeps:
  assumes os: "os_files_ok os" and s: "input_st {} s" and a: "live_ptr s (Some a)"
  shows "input_keeps (poll_round os a t) a s"
  unfolding poll_round_def
proof (rule input_keeps_bind [OF poll_once_keeps [OF s a]], goal_cases)
  case (1 r s1)
  have h: "input_keeps (sbind (drv_input_handle_disconnect os a) (\<lambda>r. sret (Some r))) a s2"
    if "input_st {} s2" "live_ptr s2 (Some a)" for s2
    using that handle_disconnect_keeps [OF os] by (intro input_keeps_bind) (auto intro: input_keeps_pure live_upd_self dest: upd_only_live)
  have p: "input_keeps (sbind (drv_input_path_rebound os (Some a)) (\<lambda>rebound.
      if rebound then sbind (drv_input_handle_disconnect os a) (\<lambda>r. sret (Some r)) else sret None)) a s1"
    using 1 by (intro input_keeps_bind swp_ifI h) (auto intro: input_keeps_pure live_upd_self path_rebound_keeps dest: upd_only_live)
  show ?case
  proof (cases r)
    case (Inl e)
    then show ?thesis using 1 h [OF 1(1)] by (auto intro: input_keeps_pure live_upd_self dest: upd_only_live split: if_splits simp del: swp_simps(5))
  next
    case (Inr n)
    then show ?thesis using 1 p by (auto intro: input_keeps_pure live_upd_self dest: upd_only_live split: if_splits simp del: swp_simps(5))
  qed
qed

section \<open>When polling returns\<close>

lemma poll_slice_bounds: "0 < r \<Longrightarrow> 0 < poll_slice_ms t r" "0 \<le> t \<Longrightarrow> 0 < r \<Longrightarrow> poll_slice_ms t r \<le> r"
  by (simp_all add: poll_slice_ms_def DRV_INPUT_POLL_SLICE_MS_def)

lemma poll_loop_returns: "0 < t \<Longrightarrow> poll_loop os a t r s \<noteq> None"
proof (induction "nat r" arbitrary: r s rule: less_induct)
  case less
  show ?case
  proof (cases "0 < r")
    case True
    then have "nat (r - poll_slice_ms t r) < nat r" using poll_slice_bounds(1) [OF True, of t] by simp
    then have "poll_loop os a t (r - poll_slice_ms t r) s' \<noteq> None" for s' using less.hyps less.prems by blast
    then show ?thesis
      using less.prems True by (subst poll_loop.simps) (auto split: prod.splits cres.splits option.splits)
  qed (use less.prems in \<open>simp add: poll_loop.simps\<close>)
qed

lemma poll_returns: "0 \<le> t \<Longrightarrow> drv_input_poll os inst t s \<noteq> None"
  using poll_loop_returns [of t os]
  by (auto simp: drv_input_poll_def obind_def orun_def split: option.splits prod.splits cres.splits)

text \<open>\<open>n\<close> rounds in which nothing happens: the time that remains and the state after them.\<close>

fun quiet_rounds :: "'d input_os \<Rightarrow> nat \<Rightarrow> int \<Rightarrow> nat \<Rightarrow> int \<Rightarrow> 'd input \<Rightarrow> (int \<times> 'd input) option" where
  "quiet_rounds os a t 0 r s = Some (r, s)"
| "quiet_rounds os a t (Suc n) r s =
     (case poll_round os a (poll_slice_ms t r) s of
        (Ret None, s') \<Rightarrow> quiet_rounds os a t n (if t > 0 then r - poll_slice_ms t r else r) s'
      | _ \<Rightarrow> None)"

lemma poll_loop_round:
  "t < 0 \<or> 0 < r \<Longrightarrow> poll_loop os a t r s =
     (case poll_round os a (poll_slice_ms t r) s of
        (Ret None, s') \<Rightarrow> poll_loop os a t (if t > 0 then r - poll_slice_ms t r else r) s'
      | (Ret (Some q), s') \<Rightarrow> Some (Ret q, s')
      | (Fail e, s') \<Rightarrow> Some (Fail e, s')
      | (Fault, s') \<Rightarrow> Some (Fault, s'))"
  by (subst poll_loop.simps) simp

lemma quiet_until: "t < 0 \<Longrightarrow> quiet_rounds os a t n r s = None \<Longrightarrow> poll_loop os a t r s \<noteq> None"
proof (induction n arbitrary: s)
  case (Suc n)
  then show ?case by (subst poll_loop_round) (auto split: prod.splits cres.splits option.splits)
qed simp

lemma quiet_for_ever: "poll_loop os a t r s = Some y \<Longrightarrow> t < 0 \<longrightarrow> (\<exists>n. quiet_rounds os a t n r s = None)"
proof (rule poll_loop.raw_induct [where P = "\<lambda>os a t r s y. t < 0 \<longrightarrow> (\<exists>n. quiet_rounds os a t n r s = None)"], goal_cases)
  case (1 f os a t r s y)
  show ?case
  proof
    assume t: "t < 0"
    show "\<exists>n. quiet_rounds os a t n r s = None"
    proof (cases "\<exists>s'. poll_round os a (poll_slice_ms t r) s = (Ret None, s')")
      case True
      then obtain s' where s': "poll_round os a (poll_slice_ms t r) s = (Ret None, s')" by blast
      then have "f os a t r s' = Some y" using 1(3) t by simp
      then obtain n where "quiet_rounds os a t n r s' = None" using 1(2) t by blast
      then show ?thesis using s' t by (intro exI [of _ "Suc n"]) simp
    next
      case False
      then show ?thesis by (intro exI [of _ 1]) (auto split: prod.splits cres.splits option.splits)
    qed
  qed
qed

lemma slice_steps:
  assumes "0 < t" and "0 < r"
  shows "poll_slice_ms t r = min 200 r" and "nat ((r + 199) div 200) = Suc (nat ((r - min 200 r + 199) div 200))"
proof -
  show "poll_slice_ms t r = min 200 r" using assms by (simp add: poll_slice_ms_def DRV_INPUT_POLL_SLICE_MS_def min_def)
  have "(r + 199) div 200 = (r - min 200 r + 199) div 200 + 1"
  proof (cases "r \<le> 200")
    case True
    then have "(r + 199) div 200 = 1" using assms(2) by (simp add: div_pos_geq)
    then show ?thesis using True by simp
  next
    case False
    then show ?thesis by (simp add: div_pos_geq)
  qed
  moreover have "0 \<le> (r - min 200 r + 199) div 200" using assms(2) by simp
  ultimately show "nat ((r + 199) div 200) = Suc (nat ((r - min 200 r + 199) div 200))" by (simp add: nat_add_distrib)
qed

lemma quiet_timeout:
  assumes "0 < t"
  shows "0 < r \<Longrightarrow> n = nat ((r + 199) div 200) \<Longrightarrow> quiet_rounds os a t n r s = Some (r', s') \<Longrightarrow>
    r' = 0 \<and> poll_loop os a t r s = Some (Ret (Inr 0), s')"
proof (induction n arbitrary: r s)
  case 0
  then show ?case by simp
next
  case (Suc n)
  have n: "n = nat ((r - min 200 r + 199) div 200)" using Suc.prems(2) slice_steps(2) [OF assms Suc.prems(1)] by simp
  obtain s1 where s1: "poll_round os a (poll_slice_ms t r) s = (Ret None, s1)" and q: "quiet_rounds os a t n (r - min 200 r) s1 = Some (r', s')"
    using Suc.prems(3) assms slice_steps(1) [OF assms Suc.prems(1)] by (auto split: prod.splits cres.splits option.splits)
  have step: "poll_loop os a t r s = poll_loop os a t (r - min 200 r) s1"
    using Suc.prems(1) assms s1 slice_steps(1) [OF assms Suc.prems(1)] by (simp add: poll_loop_round)
  show ?case
  proof (cases "r \<le> 200")
    case True
    then have "r - min 200 r = 0" by simp
    moreover from this have "n = 0" using n by simp
    ultimately show ?thesis using q step assms by (simp add: poll_loop.simps)
  next
    case False
    then have "0 < r - min 200 r" by simp
    then show ?thesis using Suc.IH [OF _ n q] step by simp
  qed
qed

text \<open>Polling keeps the state, if it returns.\<close>

definition polled :: "nat \<Rightarrow> 'd input \<Rightarrow> rc cres \<times> 'd input \<Rightarrow> bool" where
  "polled a s y \<longleftrightarrow> fst y \<noteq> Fault \<and> input_st {} (snd y) \<and> upd_only a s (snd y)"

lemma input_keeps_run: "input_keeps m a s \<Longrightarrow> m s = (q, s') \<Longrightarrow> (\<exists>x. q = Ret x) \<and> input_st {} s' \<and> upd_only a s s'"
  by (cases q) (auto simp: swp_def)

lemma poll_loop_keeps:
  "poll_loop os a t r s = Some y \<Longrightarrow> os_files_ok os \<and> input_st {} s \<and> live_ptr s (Some a) \<longrightarrow> polled a s y"
proof (rule poll_loop.raw_induct [where P = "\<lambda>os a t r s y. os_files_ok os \<and> input_st {} s \<and> live_ptr s (Some a) \<longrightarrow> polled a s y"], goal_cases)
  case (1 f os a t r s y)
  show ?case
  proof
    assume s: "os_files_ok os \<and> input_st {} s \<and> live_ptr s (Some a)"
    obtain q s1 where q: "poll_round os a (poll_slice_ms t r) s = (q, s1)" by fastforce
    have k: "(\<exists>x. q = Ret x) \<and> input_st {} s1 \<and> upd_only a s s1"
      using poll_round_keeps s q by (blast dest: input_keeps_run)
    then obtain x where x: "q = Ret x" by blast
    consider (quiet) "t < 0 \<or> 0 < r" "x = None" | (answer) z where "t < 0 \<or> 0 < r" "x = Some z" | (time) "\<not> (t < 0 \<or> 0 < r)"
      by (cases x) auto
    then show "polled a s y"
    proof cases
      case quiet
      then have "f os a t (if 0 < t then r - poll_slice_ms t r else r) s1 = Some y" using 1(3) q x by simp
      then have "polled a s1 y" using 1(2) s k upd_only_live by blast
      then show ?thesis using k unfolding polled_def by (blast intro: upd_only_trans)
    next
      case answer
      then show ?thesis using 1(3) q x k by (auto simp: polled_def)
    next
      case time
      then show ?thesis using 1(3) s by (auto simp: polled_def intro: live_upd_self)
    qed
  qed
qed

lemma polled_run: "input_keeps m a s \<Longrightarrow> orun m s = Some y \<Longrightarrow> polled a s y"
  by (cases y) (auto simp: orun_def polled_def dest: input_keeps_run)

lemma poll_keeps:
  assumes os: "os_files_ok os" and s: "input_st {} s" and a: "live_ptr s (Some a)" and y: "drv_input_poll os (Some a) t s = Some y"
  shows "polled a s y"
proof -
  obtain i where i: "hal_heap s a = Some i" using a by (rule live_obtains)
  have zero: "input_keeps (sbind (drv_input_poll_once os a 0) (\<lambda>ret. if ret \<noteq> Inr 0 then sret ret
      else sbind (drv_input_path_rebound os (Some a)) (\<lambda>rebound. if rebound then drv_input_handle_disconnect os a else sret ret))) a s"
    using s a by (intro input_keeps_bind swp_ifI)
      (auto intro: input_keeps_pure live_upd_self poll_once_keeps path_rebound_keeps handle_disconnect_keeps [OF os] dest: upd_only_live)
  obtain q s1 where q: "reconnected os a s = (q, s1)" by fastforce
  then obtain ok where r: "reconnected os a s = (Ret ok, s1)" "input_st {} s1" "upd_only a s s1"
    using input_keeps_run [OF reconnected_keeps [OF os s a] q] by blast
  consider "ii_fd i < 0" | "0 \<le> ii_fd i" "t = 0" | "0 \<le> ii_fd i" "t \<noteq> 0" by linarith
  then show ?thesis
  proof cases
    case 1
    then show ?thesis using y i r by (auto simp: drv_input_poll_def obind_orun hinst_def orun_def sret_def polled_def)
  next
    case 2
    then show ?thesis using y i polled_run [OF zero] by (simp add: drv_input_poll_def obind_orun hinst_def)
  next
    case 3
    then have "poll_loop os a t t s = Some y" using y i by (simp add: drv_input_poll_def obind_orun hinst_def)
    then show ?thesis using poll_loop_keeps os s a by blast
  qed
qed

end
