(* ===== verification/Input_Frames.thy ===== *)
theory Input_Frames
  imports Input
begin

text \<open>
  Reading from an input device (\<open>rtsmart_hal/drivers/input/drv_input.c\<close>, \<open>input_event.h\<close>): single events, frames that end
  with a report, and the keyboard and pointer frames made of them. The sums of a pointer frame wrap around at 32 bits (in C an overflow is
  undefined).
\<close>

section \<open>Codes\<close>

definition EV_SYN :: u16 where "EV_SYN = 0"
definition EV_KEY :: u16 where "EV_KEY = 1"
definition EV_REL :: u16 where "EV_REL = 2"
definition EV_ABS :: u16 where "EV_ABS = 3"
definition SYN_REPORT :: u16 where "SYN_REPORT = 0"
definition KEY_RELEASED :: u32 where "KEY_RELEASED = 0"
definition KEY_PRESSED :: u32 where "KEY_PRESSED = 1"
definition REL_X :: u16 where "REL_X = 0"
definition REL_Y :: u16 where "REL_Y = 1"
definition REL_HWHEEL :: u16 where "REL_HWHEEL = 6"
definition REL_WHEEL :: u16 where "REL_WHEEL = 8"
definition ABS_X :: u16 where "ABS_X = 0"
definition ABS_Y :: u16 where "ABS_Y = 1"
definition ABS_PRESSURE :: u16 where "ABS_PRESSURE = 0x18"
definition BTN_LEFT :: u16 where "BTN_LEFT = 0x110"
definition BTN_RIGHT :: u16 where "BTN_RIGHT = 0x111"
definition BTN_MIDDLE :: u16 where "BTN_MIDDLE = 0x112"
definition BTN_SIDE :: u16 where "BTN_SIDE = 0x113"
definition BTN_EXTRA :: u16 where "BTN_EXTRA = 0x114"
definition BTN_FORWARD :: u16 where "BTN_FORWARD = 0x115"
definition BTN_BACK :: u16 where "BTN_BACK = 0x116"
definition BTN_TOUCH :: u16 where "BTN_TOUCH = 0x14a"

lemmas input_codes = EV_SYN_def EV_KEY_def EV_REL_def EV_ABS_def SYN_REPORT_def KEY_RELEASED_def KEY_PRESSED_def REL_X_def REL_Y_def
  REL_HWHEEL_def REL_WHEEL_def ABS_X_def ABS_Y_def ABS_PRESSURE_def BTN_LEFT_def BTN_RIGHT_def BTN_MIDDLE_def BTN_SIDE_def BTN_EXTRA_def
  BTN_FORWARD_def BTN_BACK_def BTN_TOUCH_def

text \<open>The four tests on an event; a null pointer is \<open>None\<close>.\<close>

fun drv_input_is_key_event :: "input_event option \<Rightarrow> bool" where
  "drv_input_is_key_event None = False"
| "drv_input_is_key_event (Some e) = (ie_type e = EV_KEY)"

fun drv_input_is_rel_event :: "input_event option \<Rightarrow> bool" where
  "drv_input_is_rel_event None = False"
| "drv_input_is_rel_event (Some e) = (ie_type e = EV_REL)"

fun drv_input_is_abs_event :: "input_event option \<Rightarrow> bool" where
  "drv_input_is_abs_event None = False"
| "drv_input_is_abs_event (Some e) = (ie_type e = EV_ABS)"

fun drv_input_is_sync_event :: "input_event option \<Rightarrow> bool" where
  "drv_input_is_sync_event None = False"
| "drv_input_is_sync_event (Some e) = (ie_type e = EV_SYN \<and> ie_code e = SYN_REPORT)"

definition drv_input_button_mask :: "u16 \<Rightarrow> u32" where
  "drv_input_button_mask code =
     (if code = BTN_LEFT then 1 else if code = BTN_RIGHT then 2 else if code = BTN_MIDDLE then 4 else if code = BTN_SIDE then 8
      else if code = BTN_EXTRA then 16 else if code = BTN_FORWARD then 32 else if code = BTN_BACK then 64
      else if code = BTN_TOUCH then 128 else 0)"

section \<open>Events and frames\<close>

definition DRV_INPUT_MAX_FRAME_EVENTS :: nat where "DRV_INPUT_MAX_FRAME_EVENTS = 32"

definition sizeof_input_event :: int where "sizeof_input_event = 8"

text \<open>What the caller's event holds afterwards is the second component.\<close>

definition drv_input_read_event ::
    "'d input_os \<Rightarrow> nat option \<Rightarrow> input_event option \<Rightarrow> ('d input, rc \<times> input_event option) prog" where
  "drv_input_read_event os inst event =
     (case (inst, event) of
        (Some a, Some e) \<Rightarrow> sbind (hinst a) (\<lambda>i.
          if ii_fd i < 0 then sbind (reconnected os a) (\<lambda>ok. sret (if ok then Inr 0 else Inl ENODEV, event))
          else
            sbind (hcall (ip_read os (ii_fd i) e)) (\<lambda>(bytes_read, e).
            if bytes_read < 0 then
              sbind (input_errno os) (\<lambda>err.
              if err = EAGAIN then sret (Inr 0, Some e)
              else if drv_input_ret_is_disconnect (Inl err)
              then sbind (drv_input_handle_disconnect os a) (\<lambda>r. sret (r, Some e))
              else sret (Inl err, Some e))
            else if bytes_read = 0 \<or> bytes_read \<noteq> sizeof_input_event
            then sbind (drv_input_handle_disconnect os a) (\<lambda>r. sret (r, Some e))
            else sret (Inr 1, Some e)))
      | _ \<Rightarrow> sret (Inl EINVAL, event))"

record drv_input_frame =
  fr_events :: "input_event list"
  fr_count :: nat
  fr_complete :: bool

definition zero_frame :: drv_input_frame where
  "zero_frame = \<lparr>fr_events = replicate DRV_INPUT_MAX_FRAME_EVENTS \<lparr>ie_type = 0, ie_code = 0, ie_value = 0\<rparr>, fr_count = 0, fr_complete = False\<rparr>"

definition put_event :: "input_event option \<Rightarrow> drv_input_frame \<Rightarrow> drv_input_frame" where
  "put_event e f = (case e of None \<Rightarrow> f | Some e \<Rightarrow> f\<lparr>fr_events := (fr_events f)[fr_count f := e]\<rparr>)"

function read_frame_loop :: "'d input_os \<Rightarrow> nat \<Rightarrow> drv_input_frame \<Rightarrow> ('d input, rc \<times> drv_input_frame) prog" where
  "read_frame_loop os a frame =
     (if fr_count frame < DRV_INPUT_MAX_FRAME_EVENTS then
        sbind (drv_input_read_event os (Some a) (Some (fr_events frame ! fr_count frame))) (\<lambda>(ret, e).
        let frame' = put_event e frame in
        case ret of
          Inl _ \<Rightarrow> sret (ret, frame')
        | Inr n \<Rightarrow>
            if n = 0 then sret (Inr (int (fr_count frame)), frame')
            else if drv_input_is_sync_event e then sret (Inr (int (fr_count frame)), frame'\<lparr>fr_complete := True\<rparr>)
            else read_frame_loop os a (frame'\<lparr>fr_count := fr_count frame + 1\<rparr>))
      else sret (Inr (int (fr_count frame)), frame))"
  by pat_completeness auto
termination by (relation "measure (\<lambda>(os, a, frame). DRV_INPUT_MAX_FRAME_EVENTS - fr_count frame)") auto

text \<open>\<open>given\<close> is false for a null frame; then nothing is written (\<open>None\<close>).\<close>

definition drv_input_read_frame :: "'d input_os \<Rightarrow> nat option \<Rightarrow> bool \<Rightarrow> ('d input, rc \<times> drv_input_frame option) prog" where
  "drv_input_read_frame os inst given =
     (if inst = None \<or> \<not> given then sret (Inl EINVAL, None)
      else
        sbind (hinst (the inst)) (\<lambda>i.
        if ii_fd i < 0
        then sbind (reconnected os (the inst)) (\<lambda>ok. sret (if ok then Inr 0 else Inl ENODEV, Some zero_frame))
        else sbind (read_frame_loop os (the inst) zero_frame) (\<lambda>(ret, frame). sret (ret, Some frame))))"

section \<open>Keyboard frames\<close>

record drv_keyboard_frame =
  kf_keycodes :: "u16 list"
  kf_values :: "u32 list"
  kf_count :: nat
  kf_complete :: bool

definition zero_keyboard_frame :: drv_keyboard_frame where
  "zero_keyboard_frame = \<lparr>kf_keycodes = replicate DRV_INPUT_MAX_FRAME_EVENTS 0, kf_values = replicate DRV_INPUT_MAX_FRAME_EVENTS 0,
     kf_count = 0, kf_complete = False\<rparr>"

fun keyboard_events :: "input_event list \<Rightarrow> drv_keyboard_frame \<Rightarrow> drv_keyboard_frame" where
  "keyboard_events [] f = f"
| "keyboard_events (e # es) f =
     (if \<not> drv_input_is_key_event (Some e) then keyboard_events es f
      else if kf_count f \<ge> DRV_INPUT_MAX_FRAME_EVENTS then f
      else keyboard_events es (f\<lparr>kf_keycodes := (kf_keycodes f)[kf_count f := ie_code e],
        kf_values := (kf_values f)[kf_count f := ie_value e], kf_count := kf_count f + 1\<rparr>))"

definition drv_input_read_keyboard_frame ::
    "'d input_os \<Rightarrow> nat option \<Rightarrow> bool \<Rightarrow> ('d input, rc \<times> drv_keyboard_frame option) prog" where
  "drv_input_read_keyboard_frame os inst given =
     (if inst = None \<or> \<not> given then sret (Inl EINVAL, None)
      else
        sbind (drv_input_read_frame os inst True) (\<lambda>(ret, raw_frame).
        case (ret, raw_frame) of
          (Inr n, Some raw) \<Rightarrow>
            if n = 0 then sret (Inr 0, Some zero_keyboard_frame)
            else
              let f = keyboard_events (take (fr_count raw) (fr_events raw)) (zero_keyboard_frame\<lparr>kf_complete := fr_complete raw\<rparr>)
              in sret (Inr (int (kf_count f)), Some f)
        | _ \<Rightarrow> sret (ret, Some zero_keyboard_frame)))"

section \<open>Pointer frames\<close>

record drv_pointer_frame =
  pf_complete :: bool
  pf_has_rel :: bool
  pf_has_abs :: bool
  pf_touch_seen :: bool
  pf_touch_down :: bool
  pf_rel_x :: u32
  pf_rel_y :: u32
  pf_wheel :: u32
  pf_hwheel :: u32
  pf_abs_x :: u32
  pf_abs_y :: u32
  pf_pressure :: u32
  pf_buttons :: u32
  pf_pressed_mask :: u32
  pf_released_mask :: u32

definition zero_pointer_frame :: drv_pointer_frame where
  "zero_pointer_frame = \<lparr>pf_complete = False, pf_has_rel = False, pf_has_abs = False, pf_touch_seen = False, pf_touch_down = False,
     pf_rel_x = 0, pf_rel_y = 0, pf_wheel = 0, pf_hwheel = 0, pf_abs_x = 0, pf_abs_y = 0, pf_pressure = 0, pf_buttons = 0,
     pf_pressed_mask = 0, pf_released_mask = 0\<rparr>"

definition pointer_rel :: "input_event \<Rightarrow> drv_pointer_frame \<Rightarrow> drv_pointer_frame" where
  "pointer_rel e f =
     (if ie_code e = REL_X then f\<lparr>pf_has_rel := True, pf_rel_x := pf_rel_x f + ie_value e\<rparr>
      else if ie_code e = REL_Y then f\<lparr>pf_has_rel := True, pf_rel_y := pf_rel_y f + ie_value e\<rparr>
      else if ie_code e = REL_WHEEL then f\<lparr>pf_has_rel := True, pf_wheel := pf_wheel f + ie_value e\<rparr>
      else if ie_code e = REL_HWHEEL then f\<lparr>pf_has_rel := True, pf_hwheel := pf_hwheel f + ie_value e\<rparr>
      else f\<lparr>pf_has_rel := True\<rparr>)"

definition pointer_abs :: "input_event \<Rightarrow> drv_pointer_frame \<Rightarrow> drv_pointer_frame" where
  "pointer_abs e f =
     (if ie_code e = ABS_X then f\<lparr>pf_has_abs := True, pf_abs_x := ie_value e\<rparr>
      else if ie_code e = ABS_Y then f\<lparr>pf_has_abs := True, pf_abs_y := ie_value e\<rparr>
      else if ie_code e = ABS_PRESSURE then f\<lparr>pf_has_abs := True, pf_pressure := ie_value e\<rparr>
      else f\<lparr>pf_has_abs := True\<rparr>)"

text \<open>A button event changes the state of the buttons, kept in the instance, and the frame.\<close>

definition pointer_key :: "input_event \<Rightarrow> u32 \<times> drv_pointer_frame \<Rightarrow> u32 \<times> drv_pointer_frame" where
  "pointer_key e bf =
     (let (b, f) = bf; mask = drv_input_button_mask (ie_code e) in
      if mask = 0 then (b, f)
      else
        let (b, f) =
              (if ie_value e = KEY_PRESSED then (b OR mask, f\<lparr>pf_pressed_mask := pf_pressed_mask f OR mask\<rparr>)
               else if ie_value e = KEY_RELEASED then (b AND NOT mask, f\<lparr>pf_released_mask := pf_released_mask f OR mask\<rparr>)
               else (b, f))
        in (b, if ie_code e = BTN_TOUCH then f\<lparr>pf_touch_seen := True, pf_touch_down := (ie_value e = KEY_PRESSED)\<rparr> else f))"

definition pointer_event :: "u32 \<times> drv_pointer_frame \<Rightarrow> input_event \<Rightarrow> u32 \<times> drv_pointer_frame" where
  "pointer_event bf e =
     (if drv_input_is_rel_event (Some e) then (fst bf, pointer_rel e (snd bf))
      else if drv_input_is_abs_event (Some e) then (fst bf, pointer_abs e (snd bf))
      else if \<not> drv_input_is_key_event (Some e) then bf
      else pointer_key e bf)"

text \<open>The loop over the events of a frame and the assignment of the buttons.\<close>

definition pointer_apply :: "nat \<Rightarrow> drv_input_frame \<Rightarrow> ('d input, rc \<times> drv_pointer_frame option) prog" where
  "pointer_apply a raw =
     sbind (hinst a) (\<lambda>i.
     let (b, f) = foldl pointer_event (ii_button_state i, zero_pointer_frame\<lparr>pf_complete := fr_complete raw\<rparr>)
           (take (fr_count raw) (fr_events raw))
     in sbind (hset a (\<lambda>i. i\<lparr>ii_button_state := b\<rparr>)) (\<lambda>_.
        sret (Inr (int (fr_count raw)), Some (f\<lparr>pf_buttons := b\<rparr>))))"

definition drv_input_read_pointer_frame ::
    "'d input_os \<Rightarrow> nat option \<Rightarrow> bool \<Rightarrow> ('d input, rc \<times> drv_pointer_frame option) prog" where
  "drv_input_read_pointer_frame os inst given =
     (if inst = None \<or> \<not> given then sret (Inl EINVAL, None)
      else
        sbind (drv_input_read_frame os inst True) (\<lambda>(ret, raw_frame).
        case (ret, raw_frame) of
          (Inr n, Some raw) \<Rightarrow> if n = 0 then sret (Inr 0, Some zero_pointer_frame) else pointer_apply (the inst) raw
        | _ \<Rightarrow> sret (ret, Some zero_pointer_frame)))"

definition drv_input_is_disconnect_error :: "rc \<Rightarrow> bool" where
  "drv_input_is_disconnect_error ret = drv_input_ret_is_disconnect ret"

section \<open>The state is kept\<close>

lemmas keeps_intros = input_keeps_pure live_upd_self upd_only_self

lemma read_event_keeps:
  assumes os: "os_files_ok os" and s: "input_st {} s" and a: "live_ptr s (Some a)"
  shows "input_keeps (drv_input_read_event os (Some a) e) a s"
proof (cases e)
  case (Some ev)
  show ?thesis
    using s a unfolding drv_input_read_event_def Some option.case prod.case input_errno_def
    unfolding case_prod_unfold
    by (intro input_keeps_bind swp_ifI) (auto intro: keeps_intros reconnected_keeps [OF os] handle_disconnect_keeps [OF os] dest: upd_only_live)
qed (use s a in \<open>simp add: drv_input_read_event_def live_upd_self\<close>)

declare read_frame_loop.simps [simp del]

lemma read_frame_loop_keeps:
  assumes os: "os_files_ok os"
  shows "input_st {} s \<Longrightarrow> live_ptr s (Some a) \<Longrightarrow> input_keeps (read_frame_loop os a f) a s"
proof (induction "DRV_INPUT_MAX_FRAME_EVENTS - fr_count f" arbitrary: f s rule: less_induct)
  case less
  show ?case
  proof (subst read_frame_loop.simps, rule swp_ifI, goal_cases)
    case 1
    show ?case
    proof (rule input_keeps_bind [OF read_event_keeps [OF os less.prems]], goal_cases)
      case (1 r s1)
      obtain ret e where r: "r = (ret, e)" by fastforce
      have "input_keeps (read_frame_loop os a (put_event e f\<lparr>fr_count := fr_count f + 1\<rparr>)) a s1"
        by (rule less.hyps) (use 1 \<open>fr_count f < _\<close> in \<open>simp_all add: upd_only_live\<close>)
      then show ?case using 1 r upd_only_live [OF 1(2)] by (auto simp: Let_def intro: keeps_intros split: sum.splits)
    qed
  next
    case 2
    then show ?case using less.prems by (simp add: live_upd_self)
  qed
qed

lemma read_frame_keeps:
  assumes os: "os_files_ok os" and s: "input_st {} s" and a: "live_ptr s (Some a)"
  shows "input_keeps (drv_input_read_frame os (Some a) given) a s"
  using s a unfolding drv_input_read_frame_def case_prod_unfold option.sel
  by (intro input_keeps_bind swp_ifI)
    (auto intro: keeps_intros reconnected_keeps [OF os] read_frame_loop_keeps [OF os] dest: upd_only_live)

lemma keyboard_frame_keeps:
  assumes os: "os_files_ok os" and s: "input_st {} s" and a: "live_ptr s (Some a)"
  shows "input_keeps (drv_input_read_keyboard_frame os (Some a) given) a s"
  using s a unfolding drv_input_read_keyboard_frame_def option.sel
  by (intro input_keeps_bind swp_ifI)
    (auto simp: Let_def intro: keeps_intros read_frame_keeps [OF os] dest: upd_only_live split: sum.splits option.splits)

lemma pointer_frame_keeps:
  assumes os: "os_files_ok os" and s: "input_st {} s" and a: "live_ptr s (Some a)"
  shows "input_keeps (drv_input_read_pointer_frame os (Some a) given) a s"
proof -
  have put: "input_keeps (hset a (\<lambda>i. i\<lparr>ii_button_state := b\<rparr>)) a s1" if s1: "input_st {} s1" "live_ptr s1 (Some a)" for s1 b
    using s1 by (rule input_set_keeps) (simp add: input_inst_ok_def)
  have app: "input_keeps (pointer_apply a raw) a s1" if s1: "input_st {} s1" "live_ptr s1 (Some a)" for s1 raw
    unfolding pointer_apply_def
  proof (rule input_keeps_bind [OF input_keeps_pure(3) [OF s1]], goal_cases)
    case (1 i s2)
    obtain b f where bf: "foldl pointer_event (ii_button_state i, zero_pointer_frame\<lparr>pf_complete := fr_complete raw\<rparr>)
        (take (fr_count raw) (fr_events raw)) = (b, f)" by fastforce
    show ?case unfolding Let_def bf prod.case
      by (rule input_keeps_bind [OF put [OF 1(1) upd_only_live [OF 1(2)]]]) (simp add: upd_only_self)
  qed
  show ?thesis unfolding drv_input_read_pointer_frame_def option.sel
  proof (rule swp_ifI, goal_cases)
    case 1
    then show ?case using s a by (simp add: live_upd_self)
  next
    case 2
    show ?case
    proof (rule input_keeps_bind [OF read_frame_keeps [OF os s a]], goal_cases)
      case (1 r s1)
      then show ?case using app [OF 1(1) upd_only_live [OF 1(2)]] upd_only_self [OF 1(2)]
        by (auto split: prod.splits sum.splits option.splits)
    qed
  qed
qed

section \<open>Runs\<close>

datatype input_op =
    ICreate int "nat option option" | ICreatePath "string option" "nat option option" | IDestroy "nat option" | IMark "nat option"
  | IReconnect "nat option" | IAuto "nat option" u32 | IPoll "nat option" int | IEvent "nat option" "input_event option"
  | IFrame "nat option" bool | IKeyboard "nat option" bool | IPointer "nat option" bool | IInfo "nat option" bool | IFind u32 "nat option"

fun input_exec :: "'d input_os \<Rightarrow> input_op \<Rightarrow> ('d input, unit) prog" where
  "input_exec os (ICreate i p) = sdone (drv_input_inst_create os i p)"
| "input_exec os (ICreatePath path p) = sdone (drv_input_inst_create_path os path p)"
| "input_exec os (IDestroy p) = sdone (drv_input_inst_destroy os p)"
| "input_exec os (IMark p) = drv_input_inst_mark_disconnected os p"
| "input_exec os (IReconnect p) = sdone (drv_input_inst_try_reconnect os p)"
| "input_exec os (IAuto p kind) = drv_input_inst_set_auto_reconnect p kind"
| "input_exec os (IPoll p t) = if_returns (drv_input_poll os p t)"
| "input_exec os (IEvent p e) = sdone (drv_input_read_event os p e)"
| "input_exec os (IFrame p g) = sdone (drv_input_read_frame os p g)"
| "input_exec os (IKeyboard p g) = sdone (drv_input_read_keyboard_frame os p g)"
| "input_exec os (IPointer p g) = sdone (drv_input_read_pointer_frame os p g)"
| "input_exec os (IInfo p g) = sdone (drv_input_get_info os p g)"
| "input_exec os (IFind kind n) = sdone (drv_input_find_first_by_type os kind n)"

fun input_valid :: "'d input \<Rightarrow> input_op \<Rightarrow> bool" where
  "input_valid s (ICreate i p) = (case p of None \<Rightarrow> True | Some p \<Rightarrow> live_ptr s p)"
| "input_valid s (ICreatePath path p) = (case p of None \<Rightarrow> True | Some p \<Rightarrow> live_ptr s p)"
| "input_valid s (IDestroy p) = live_ptr s p"
| "input_valid s (IMark p) = live_ptr s p"
| "input_valid s (IReconnect p) = live_ptr s p"
| "input_valid s (IAuto p kind) = live_ptr s p"
| "input_valid s (IPoll p t) = live_ptr s p"
| "input_valid s (IEvent p e) = live_ptr s p"
| "input_valid s (IFrame p g) = live_ptr s p"
| "input_valid s (IKeyboard p g) = live_ptr s p"
| "input_valid s (IPointer p g) = live_ptr s p"
| "input_valid s (IInfo p g) = live_ptr s p"
| "input_valid s (IFind kind n) = True"

definition input_start :: "'d \<Rightarrow> 'd input" where
  "input_start d = \<lparr>hal_heap = Map.empty, hal_next = 0, hal_fds = {}, hal_dev = d\<rparr>"

lemma input_start_st: "input_st {} (input_start d)"
  by (auto simp: hal_st_def input_start_def hal_inv_def owns_def gone_def dom_def ran_def)

abbreviation input_safe :: "('d input, 'a) prog \<Rightarrow> 'd input \<Rightarrow> bool" where
  "input_safe m s \<equiv> swp m (\<lambda>_. input_st {}) (\<lambda>_. input_st {}) s"

lemma keeps_safe: "input_keeps m a s \<Longrightarrow> input_safe m s"
  by (erule swp_mono) simp_all

lemma mark_safe:
  assumes "os_files_ok os" and s: "input_st {} s" and a: "live_ptr s (Some a)"
  shows "input_safe (drv_input_inst_mark_disconnected os (Some a)) s"
proof -
  obtain i where "hal_heap s a = Some i" using a by (rule live_obtains)
  from mark_disconnected_keeps [OF s this] show ?thesis by (rule swp_mono) blast+
qed

lemma reconnect_safe:
  assumes "os_files_ok os" and "input_st {} s" and a: "live_ptr s (Some a)"
  shows "input_safe (drv_input_inst_try_reconnect os (Some a)) s"
proof -
  obtain i where "hal_heap s a = Some i" using a by (rule live_obtains)
  from try_reconnect_keeps [OF assms(1,2) this] show ?thesis by (rule keeps_safe)
qed

lemma auto_safe:
  assumes "os_files_ok os" and s: "input_st {} s" and a: "live_ptr s (Some a)"
  shows "input_safe (drv_input_inst_set_auto_reconnect (Some a) kind) s"
  unfolding drv_input_inst_set_auto_reconnect_def option.case
  using s a by (intro keeps_safe [of _ a] input_set_keeps) (simp_all add: input_inst_ok_def)

lemma info_safe:
  assumes "os_files_ok os" and s: "input_st {} s" and a: "live_ptr s (Some a)"
  shows "input_safe (drv_input_get_info os (Some a) given) s"
proof -
  obtain i where i: "hal_heap s a = Some i" using a by (rule live_obtains)
  show ?thesis by (rule input_get_info [OF s i])
qed

lemma poll_safe:
  assumes "os_files_ok os" and "input_st {} s" and "live_ptr s (Some a)"
  shows "input_safe (if_returns (drv_input_poll os (Some a) t)) s"
proof (cases "drv_input_poll os (Some a) t s")
  case None
  then show ?thesis using assms(2) by (simp add: if_returns_def swp_def)
next
  case (Some y)
  obtain q s' where y: "y = (q, s')" by fastforce
  have "q \<noteq> Fault \<and> input_st {} s'" using poll_keeps [OF assms Some] y by (simp add: polled_def)
  then show ?thesis using Some y by (cases q) (simp_all add: if_returns_def swp_def sdone_def sprog_defs)
qed

lemma open_safe:
  assumes os: "os_files_ok os" and s: "input_st {} s" and p: "live_ptr s p"
  shows "input_safe (drv_input_open_path os (Some path) (Some p) n) s"
  by (rule input_open_path [OF os s p refl]) simp_all

lemma null_safe:
  assumes "input_st {} s"
  shows "input_safe (if_returns (drv_input_poll os None t)) s" "input_safe (drv_input_read_event os None e) s"
    "input_safe (drv_input_read_frame os None g) s" "input_safe (drv_input_read_keyboard_frame os None g) s"
    "input_safe (drv_input_read_pointer_frame os None g) s" "input_safe (drv_input_get_info os None g) s"
    "input_safe (drv_input_inst_mark_disconnected os None) s" "input_safe (drv_input_inst_try_reconnect os None) s"
    "input_safe (drv_input_inst_set_auto_reconnect None kind) s"
  using assms by (simp_all add: if_returns_def drv_input_poll_def orun_def sret_def sdone_def sbind_def swp_def drv_input_read_event_def
      drv_input_read_frame_def drv_input_read_keyboard_frame_def drv_input_read_pointer_frame_def drv_input_get_info_def
      drv_input_inst_mark_disconnected_def drv_input_inst_try_reconnect_def drv_input_inst_set_auto_reconnect_def)

lemma input_exec_inv:
  assumes os: "os_files_ok os" and s: "input_st {} s" and v: "input_valid s op"
  shows "input_safe (input_exec os op) s"
proof (cases op)
  case (ICreate i p)
  then show ?thesis using s v open_safe [OF os s]
    by (auto simp: sdone_def drv_input_inst_create_def split: option.splits)
next
  case (ICreatePath path p)
  then show ?thesis using s v open_safe [OF os s]
    by (cases path; cases p) (auto simp: sdone_def drv_input_inst_create_path_def drv_input_open_path_def [of _ None] drv_input_open_path_def [of _ _ None])
next
  case (IDestroy p)
  then show ?thesis using v by (simp add: sdone_def) (rule input_destroy [OF s])
next
  case (IFind kind n)
  then show ?thesis by (simp add: sdone_def) (rule input_find_first [OF os s])
next
  case (IMark p)
  then show ?thesis using v by (cases p) (simp_all add: null_safe [OF s] mark_safe [OF os s])
next
  case (IReconnect p)
  then show ?thesis using v by (cases p) (simp_all add: sdone_def null_safe [OF s] reconnect_safe [OF os s])
next
  case (IAuto p kind)
  then show ?thesis using v by (cases p) (simp_all add: null_safe [OF s] auto_safe [OF os s])
next
  case (IPoll p t)
  then show ?thesis using v by (cases p) (simp_all add: null_safe [OF s] poll_safe [OF os s])
next
  case (IEvent p e)
  then show ?thesis using v by (cases p) (simp_all add: sdone_def null_safe [OF s] keeps_safe [OF read_event_keeps [OF os s]])
next
  case (IFrame p g)
  then show ?thesis using v by (cases p) (simp_all add: sdone_def null_safe [OF s] keeps_safe [OF read_frame_keeps [OF os s]])
next
  case (IKeyboard p g)
  then show ?thesis using v by (cases p) (simp_all add: sdone_def null_safe [OF s] keeps_safe [OF keyboard_frame_keeps [OF os s]])
next
  case (IPointer p g)
  then show ?thesis using v by (cases p) (simp_all add: sdone_def null_safe [OF s] keeps_safe [OF pointer_frame_keeps [OF os s]])
next
  case (IInfo p g)
  then show ?thesis using v by (cases p) (simp_all add: sdone_def null_safe [OF s] info_safe [OF os s])
qed

interpretation input_runs: instance_driver input_exec input_valid os_files_ok "input_st {}" ii_fd gone
  by unfold_locales (rule input_exec_inv, assumption+, simp add: hal_st_def)

section \<open>What a frame holds\<close>

text \<open>The device delivers the events \<open>es\<close> on the descriptor and goes from \<open>d\<close> to \<open>d'\<close>.\<close>

fun delivers :: "'d input_os \<Rightarrow> int \<Rightarrow> input_event list \<Rightarrow> 'd \<Rightarrow> 'd \<Rightarrow> bool" where
  "delivers os fd [] d d' \<longleftrightarrow> d' = d"
| "delivers os fd (e # es) d d' \<longleftrightarrow> (\<exists>d1. (\<forall>old. ip_read os fd old d = ((sizeof_input_event, e), d1)) \<and> delivers os fd es d1 d')"

lemma delivers_append: "delivers os fd (es @ fs) d d' \<longleftrightarrow> (\<exists>d1. delivers os fd es d d1 \<and> delivers os fd fs d1 d')"
  by (induction es arbitrary: d) auto

lemma read_event_delivered:
  assumes "hal_heap s a = Some i" and "0 \<le> ii_fd i" and "\<forall>old. ip_read os (ii_fd i) old (hal_dev s) = ((sizeof_input_event, e), d1)"
  shows "drv_input_read_event os (Some a) (Some old) s = (Ret (Inr 1, Some e), s\<lparr>hal_dev := d1\<rparr>)"
  using assms by (simp add: drv_input_read_event_def hinst_def hcall_def sprog_defs sizeof_input_event_def)

text \<open>Events in a row go to the front of the free part of the frame.\<close>

definition fill_frame :: "input_event list \<Rightarrow> drv_input_frame \<Rightarrow> drv_input_frame" where
  "fill_frame es f = f\<lparr>fr_events := take (fr_count f) (fr_events f) @ es @ drop (fr_count f + length es) (fr_events f),
     fr_count := fr_count f + length es\<rparr>"

lemma fill_frame_Cons:
  assumes "fr_count f < length (fr_events f)"
  shows "fill_frame es (put_event (Some e) f\<lparr>fr_count := Suc (fr_count f)\<rparr>) = fill_frame (e # es) f"
  using assms by (simp add: fill_frame_def put_event_def upd_conv_take_nth_drop take_Suc_conv_app_nth add.commute)

lemma read_frame_loop_fills:
  assumes i: "hal_heap s a = Some i" "0 \<le> ii_fd i"
  shows "delivers os (ii_fd i) es (hal_dev s) d' \<Longrightarrow> \<forall>e \<in> set es. \<not> drv_input_is_sync_event (Some e) \<Longrightarrow>
    length (fr_events f) = 32 \<Longrightarrow> fr_count f + length es \<le> 32 \<Longrightarrow>
    read_frame_loop os a f s = read_frame_loop os a (fill_frame es f) (s\<lparr>hal_dev := d'\<rparr>)"
  using i
proof (induction es arbitrary: f s)
  case Nil
  have "fill_frame [] f = f" by (simp add: fill_frame_def)
  then show ?case using Nil by simp
next
  case (Cons e es)
  obtain d1 where d1: "\<forall>old. ip_read os (ii_fd i) old (hal_dev s) = ((sizeof_input_event, e), d1)" "delivers os (ii_fd i) es d1 d'"
    using Cons.prems(1) by auto
  let ?f = "put_event (Some e) f\<lparr>fr_count := Suc (fr_count f)\<rparr>"
  have f: "length (fr_events ?f) = 32" "fr_count ?f + length es \<le> 32"
    using Cons.prems(3,4) by (simp_all add: put_event_def)
  have "fr_count f < 32" using Cons.prems(4) by simp
  then have "read_frame_loop os a f s = read_frame_loop os a ?f (s\<lparr>hal_dev := d1\<rparr>)"
    using Cons.prems(2) read_event_delivered [OF Cons.prems(5,6) d1(1)]
    by (subst read_frame_loop.simps) (auto simp: DRV_INPUT_MAX_FRAME_EVENTS_def sprog_defs Let_def)
  also have "\<dots> = read_frame_loop os a (fill_frame es ?f) (s\<lparr>hal_dev := d'\<rparr>)"
    using Cons.IH [of "s\<lparr>hal_dev := d1\<rparr>" ?f] d1(2) f Cons.prems by simp
  also have "fill_frame es ?f = fill_frame (e # es) f"
    using Cons.prems(3) \<open>fr_count f < 32\<close> by (intro fill_frame_Cons) simp
  finally show ?case .
qed

lemma fill_zero_frame:
  "length es \<le> 32 \<Longrightarrow> length (fr_events (fill_frame es zero_frame)) = 32"
  "fr_count (fill_frame es zero_frame) = length es" "fr_complete (fill_frame es zero_frame) = False"
  "take (length es) (fr_events (fill_frame es zero_frame)) = es"
  by (simp_all add: fill_frame_def zero_frame_def DRV_INPUT_MAX_FRAME_EVENTS_def)

text \<open>The frame of a report with fewer than 32 events before it, and the one of the first 32 events.\<close>

lemma frame_of_report:
  assumes i: "hal_heap s a = Some i" "0 \<le> ii_fd i"
    and es: "delivers os (ii_fd i) (es @ [e]) (hal_dev s) d'" "\<forall>e \<in> set es. \<not> drv_input_is_sync_event (Some e)"
    and e: "drv_input_is_sync_event (Some e)" and n: "length es < 32"
  shows "\<exists>f. drv_input_read_frame os (Some a) True s = (Ret (Inr (int (length es)), Some f), s\<lparr>hal_dev := d'\<rparr>) \<and>
    fr_count f = length es \<and> fr_complete f \<and> take (length es) (fr_events f) = es"
proof -
  obtain d1 where d1: "delivers os (ii_fd i) es (hal_dev s) d1" "\<forall>old. ip_read os (ii_fd i) old d1 = ((sizeof_input_event, e), d')"
    using es(1) by (auto simp: delivers_append)
  let ?f = "fill_frame es zero_frame" and ?s = "s\<lparr>hal_dev := d1\<rparr>"
  have "read_frame_loop os a zero_frame s = read_frame_loop os a ?f ?s"
    by (rule read_frame_loop_fills [OF i d1(1) es(2)]) (use n in \<open>simp_all add: zero_frame_def DRV_INPUT_MAX_FRAME_EVENTS_def\<close>)
  also have "\<dots> = (Ret (Inr (int (length es)), put_event (Some e) ?f\<lparr>fr_complete := True\<rparr>), s\<lparr>hal_dev := d'\<rparr>)"
    using n e i d1(2) read_event_delivered [of ?s a i os e d']
    by (subst read_frame_loop.simps) (simp add: DRV_INPUT_MAX_FRAME_EVENTS_def sprog_defs Let_def fill_zero_frame)
  finally have "drv_input_read_frame os (Some a) True s =
      (Ret (Inr (int (length es)), Some (put_event (Some e) ?f\<lparr>fr_complete := True\<rparr>)), s\<lparr>hal_dev := d'\<rparr>)"
    using i by (simp add: drv_input_read_frame_def hinst_def sprog_defs)
  moreover have "take (length es) (fr_events (put_event (Some e) ?f)) = es"
    using fill_zero_frame(4) [of es] by (simp add: put_event_def fill_zero_frame(2))
  ultimately show ?thesis by (auto simp: put_event_def fill_zero_frame(2))
qed

lemma frame_full:
  assumes i: "hal_heap s a = Some i" "0 \<le> ii_fd i"
    and es: "delivers os (ii_fd i) es (hal_dev s) d'" "\<forall>e \<in> set es. \<not> drv_input_is_sync_event (Some e)" and n: "length es = 32"
  shows "drv_input_read_frame os (Some a) True s = (Ret (Inr 32, Some (fill_frame es zero_frame)), s\<lparr>hal_dev := d'\<rparr>)"
proof -
  have "read_frame_loop os a zero_frame s = read_frame_loop os a (fill_frame es zero_frame) (s\<lparr>hal_dev := d'\<rparr>)"
    by (rule read_frame_loop_fills [OF i es]) (use n in \<open>simp_all add: zero_frame_def DRV_INPUT_MAX_FRAME_EVENTS_def\<close>)
  also have "\<dots> = (Ret (Inr 32, fill_frame es zero_frame), s\<lparr>hal_dev := d'\<rparr>)"
    using n by (subst read_frame_loop.simps) (simp add: DRV_INPUT_MAX_FRAME_EVENTS_def sprog_defs fill_zero_frame)
  finally show ?thesis using i by (simp add: drv_input_read_frame_def hinst_def sprog_defs)
qed

section \<open>What a pointer frame means\<close>



















section \<open>Properties\<close>

text \<open>A device that is a queue of events, for the examples.\<close>

definition sample_input_os :: "input_event list input_os" where
  "sample_input_os = \<lparr>os_open = \<lambda>path fds d. (if 3 \<in> fds then -1 else 3, d), os_close = \<lambda>fd d. d, os_malloc = \<lambda>d. (True, d),
     ip_errno = \<lambda>d. EAGAIN, ip_poll = \<lambda>fd t d. ((if d = [] then 0 else 1, False), d),
     ip_read = \<lambda>fd old d. (case d of [] \<Rightarrow> ((-1, old), []) | e # es \<Rightarrow> ((8, e), es)),
     ip_get_info = \<lambda>fd old d. ((0, zero_info\<lparr>in_kind := 2\<rparr>), d)\<rparr>"

lemma sample_input_os_ok: "os_files_ok sample_input_os"
  by (simp add: os_files_ok_def sample_input_os_def)

definition sample_input_inst :: drv_input_inst where
  "sample_input_inst = \<lparr>ii_base_ok = True, ii_id = 0, ii_fd = 3, ii_button_state = 0, ii_info = zero_info,
     ii_path = take 63 (take 63 (event_path 0)), ii_preferred_kind = 0, ii_auto_reconnect = False\<rparr>"

definition sample_input :: "input_event list \<Rightarrow> input_event list input" where
  "sample_input es = \<lparr>hal_heap = [0 \<mapsto> sample_input_inst], hal_next = 1, hal_fds = {3}, hal_dev = es\<rparr>"

lemma sample_input_reach: "reach (input_exec sample_input_os) input_valid (input_start es) (sample_input es)"
  by (rule reach.step [OF reach.start, where op = "ICreate 0 (Some None)"])
    (simp_all add: live_ptr_def drv_input_inst_create_def drv_input_open_path_def hal_call_defs sprog_defs sdone_def sample_input_os_def
      input_start_def sample_input_def sample_input_inst_def DRV_INPUT_PATH_MAX_def)

lemma sample_input_inst: "hal_heap (sample_input es) 0 = Some sample_input_inst" "ii_fd sample_input_inst = 3" "hal_dev (sample_input es) = es"
  by (simp_all add: sample_input_def sample_input_inst_def)

lemma sample_delivers: "delivers sample_input_os fd es (es @ fs) fs"
  by (induction es) (simp_all add: sample_input_os_def sizeof_input_event_def)

text \<open>C14. Whatever calls a client makes with null or live pointers, and whether devices vanish and come back in between: no call of the input
  driver touches freed memory, every open descriptor belongs to exactly one live instance (searching for a device and reconnecting leave none
  open beside it), and an instance that lost its device holds neither a descriptor nor the description of the old device.
\<close>

theorem input_descriptors_owned:
  assumes "os_files_ok os" and "reach (input_exec os) input_valid (input_start d) s"
  shows "(input_valid s op \<longrightarrow> fst (input_exec os op s) \<noteq> Fault) \<and>
    (0 \<le> fd \<longrightarrow> (fd \<in> hal_fds s \<longleftrightarrow> (\<exists>!a. \<exists>i. hal_heap s a = Some i \<and> ii_fd i = fd))) \<and>
    (hal_heap s a = Some i \<longrightarrow> ii_fd i < 0 \<longrightarrow> ii_fd i = -1 \<and> ii_info i = zero_info)"
proof -
  have st: "input_st {} s" by (rule input_runs.reach_inv [OF assms(2,1) input_start_st])
  have "a \<notin> gone (hal_heap s) \<and> (\<exists>i. hal_heap s a = Some i \<and> ii_fd i = fd) \<longleftrightarrow> (\<exists>i. hal_heap s a = Some i \<and> ii_fd i = fd)"
    if "0 \<le> fd" for a using that by (auto simp: gone_def)
  then have "0 \<le> fd \<longrightarrow> (fd \<in> hal_fds s \<longleftrightarrow> (\<exists>!a. \<exists>i. hal_heap s a = Some i \<and> ii_fd i = fd))"
    using input_runs.one_owner [OF assms(2,1) input_start_st, of fd] by simp
  moreover have "hal_heap s a = Some i \<longrightarrow> input_inst_ok i" using st by (simp add: hal_st_def)
  ultimately show ?thesis
    using input_runs.no_fault [OF assms(2,1) input_start_st, of op] unfolding input_inst_ok_def by blast
qed

theorem input_descriptors_owned_witness:
  "fst (input_exec sample_input_os (IPointer (Some 0) True) (sample_input [])) \<noteq> Fault \<and>
   (\<exists>!a. \<exists>i. hal_heap (sample_input []) a = Some i \<and> ii_fd i = 3)"
  using input_descriptors_owned [OF sample_input_os_ok sample_input_reach, of "[]" "IPointer (Some 0) True" 3]
  by (simp add: live_ptr_def sample_input_def del: input_exec.simps)

text \<open>C15. Polling returns for every timeout that is not negative. A positive timeout is waited for in slices that add up to exactly it: after
  that many quiet rounds the answer is 0. With a negative timeout the call returns unless the device stays quiet for ever.
\<close>

theorem input_poll_returns:
  assumes "hal_heap s a = Some i" and "0 \<le> ii_fd i"
  shows "(0 \<le> t \<longrightarrow> drv_input_poll os (Some a) t s \<noteq> None) \<and>
    (0 < t \<longrightarrow> quiet_rounds os a t (nat ((t + 199) div 200)) t s = Some (r, s') \<longrightarrow>
      r = 0 \<and> drv_input_poll os (Some a) t s = Some (Ret (Inr 0), s')) \<and>
    (t < 0 \<longrightarrow> (drv_input_poll os (Some a) t s = None \<longleftrightarrow> (\<forall>n. quiet_rounds os a t n t s \<noteq> None)))"
proof -
  have loop: "t \<noteq> 0 \<Longrightarrow> drv_input_poll os (Some a) t s = poll_loop os a t t s"
    using assms by (simp add: drv_input_poll_def obind_orun hinst_def)
  have "t < 0 \<Longrightarrow> poll_loop os a t t s = None \<longleftrightarrow> (\<forall>n. quiet_rounds os a t n t s \<noteq> None)"
    using quiet_until [of t os a _ t s] quiet_for_ever [of os a t t s] by (metis not_Some_eq)
  moreover have "0 < t \<longrightarrow> quiet_rounds os a t (nat ((t + 199) div 200)) t s = Some (r, s') \<longrightarrow>
      r = 0 \<and> poll_loop os a t t s = Some (Ret (Inr 0), s')"
    using quiet_timeout [of t t] by blast
  ultimately show ?thesis using poll_returns [of t os "Some a" s] loop by auto
qed

theorem input_poll_returns_witness:
  "drv_input_poll sample_input_os (Some 0) 250 (sample_input []) = Some (Ret (Inr 0), sample_input [])"
proof -
  have "poll_round sample_input_os 0 t (sample_input []) = (Ret None, sample_input [])" for t
    by (simp add: poll_round_def drv_input_poll_once_def drv_input_path_rebound_def hal_call_defs sprog_defs sample_input_os_def sample_input_def
        sample_input_inst_def zero_info_def DRV_INPUT_DEV_UNKNOWN_def)
  then have "quiet_rounds sample_input_os 0 250 (nat ((250 + 199) div 200)) 250 (sample_input []) = Some (0, sample_input [])"
    by (simp add: eval_nat_numeral poll_slice_ms_def DRV_INPUT_POLL_SLICE_MS_def)
  then show ?thesis
    using input_poll_returns [OF sample_input_inst(1) [of "[]"], where t = 250 and os = sample_input_os and r = 0 and s' = "sample_input []"] by (simp add: sample_input_inst(2))
qed

text \<open>A frame holds exactly the events the device delivers before a report, in their order, up to 32. When fewer than 32
  precede the report it is consumed and the frame is complete; when there are 32, it stays for the next call and the frame is not complete.
\<close>

theorem input_frame_events:
  assumes "hal_heap s a = Some i" and "0 \<le> ii_fd i" and "delivers os (ii_fd i) (es @ [e]) (hal_dev s) d'"
    and "\<forall>e \<in> set es. \<not> drv_input_is_sync_event (Some e)" and "drv_input_is_sync_event (Some e)" and "length es \<le> 32"
  shows "\<exists>f d1. drv_input_read_frame os (Some a) True s = (Ret (Inr (int (length es)), Some f), s\<lparr>hal_dev := d1\<rparr>) \<and>
    fr_count f = length es \<and> take (length es) (fr_events f) = es \<and> (fr_complete f \<longleftrightarrow> length es < 32) \<and>
    delivers os (ii_fd i) (if length es < 32 then [] else [e]) d1 d'"
proof (cases "length es < 32")
  case True
  then show ?thesis using frame_of_report [OF assms(1-5)] by auto
next
  case False
  then have n: "length es = 32" using assms(6) by simp
  obtain d1 where d1: "delivers os (ii_fd i) es (hal_dev s) d1" "delivers os (ii_fd i) [e] d1 d'"
    using assms(3) by (auto simp: delivers_append)
  show ?thesis
    using frame_full [OF assms(1,2) d1(1) assms(4) n] d1(2) n fill_zero_frame(4) [of es]
    by (intro exI [of _ "fill_frame es zero_frame"] exI [of _ d1]) (simp add: fill_zero_frame(2,3))
qed

definition sample_event :: "u16 \<Rightarrow> u16 \<Rightarrow> u32 \<Rightarrow> input_event" where
  "sample_event t c v = \<lparr>ie_type = t, ie_code = c, ie_value = v\<rparr>"

abbreviation sample_report :: "input_event list" where
  "sample_report \<equiv> [sample_event 1 0x110 1, sample_event 2 0 5, sample_event 2 0 (-2), sample_event 1 0x110 0, sample_event 1 0x111 1]"

lemma sample_report_events:
  "\<forall>e \<in> set sample_report. \<not> drv_input_is_sync_event (Some e)" "drv_input_is_sync_event (Some (sample_event 0 0 0))"
  by (simp_all add: sample_event_def input_codes)

theorem input_frame_events_witness:
  "\<exists>f d1. drv_input_read_frame sample_input_os (Some 0) True (sample_input (sample_report @ [sample_event 0 0 0])) =
      (Ret (Inr 5, Some f), sample_input (sample_report @ [sample_event 0 0 0])\<lparr>hal_dev := d1\<rparr>) \<and> fr_count f = 5 \<and> fr_complete f"
  using input_frame_events [OF sample_input_inst(1) _ _ sample_report_events, of sample_input_os "sample_report @ [sample_event 0 0 0]" "[]"]
    sample_delivers [of 3 "sample_report @ [sample_event 0 0 0]" "[]"] by (auto simp: sample_input_inst)



text \<open>The end of a report of exactly 32 events is lost: the first call returns the 32 events in a frame that is not complete, and the next call
  consumes the report but takes the frame without events for \<open>no data\<close>. The keyboard frame then says neither time that it is complete, and
  the pointer frame of the second call says that no button is down, whatever buttons are.
\<close>

theorem input_full_report_lost:
  assumes "hal_heap s a = Some i" and "0 \<le> ii_fd i" and "delivers os (ii_fd i) (es @ [e]) (hal_dev s) d'"
    and "\<forall>e \<in> set es. \<not> drv_input_is_sync_event (Some e)" and "drv_input_is_sync_event (Some e)" and "length es = 32"
  shows "\<exists>f1 d1 n. drv_input_read_keyboard_frame os (Some a) True s = (Ret (Inr n, Some f1), s\<lparr>hal_dev := d1\<rparr>) \<and> \<not> kf_complete f1 \<and>
    drv_input_read_keyboard_frame os (Some a) True (s\<lparr>hal_dev := d1\<rparr>) = (Ret (Inr 0, Some zero_keyboard_frame), s\<lparr>hal_dev := d'\<rparr>) \<and>
    drv_input_read_pointer_frame os (Some a) True (s\<lparr>hal_dev := d1\<rparr>) = (Ret (Inr 0, Some zero_pointer_frame), s\<lparr>hal_dev := d'\<rparr>)"
proof -
  obtain d1 where d1: "delivers os (ii_fd i) es (hal_dev s) d1" "delivers os (ii_fd i) [e] d1 d'"
    using assms(3) by (auto simp: delivers_append)
  let ?raw = "fill_frame es zero_frame"
  let ?f = "keyboard_events (take (fr_count ?raw) (fr_events ?raw)) (zero_keyboard_frame\<lparr>kf_complete := fr_complete ?raw\<rparr>)"
  have first: "drv_input_read_keyboard_frame os (Some a) True s = (Ret (Inr (int (kf_count ?f)), Some ?f), s\<lparr>hal_dev := d1\<rparr>)"
    using frame_full [OF assms(1,2) d1(1) assms(4,6)] by (simp add: drv_input_read_keyboard_frame_def sprog_defs Let_def)
  have keep: "kf_complete (keyboard_events es k) = kf_complete k" for es k
    by (induction es k rule: keyboard_events.induct) simp_all
  obtain raw where "drv_input_read_frame os (Some a) True (s\<lparr>hal_dev := d1\<rparr>) = (Ret (Inr 0, Some raw), s\<lparr>hal_dev := d'\<rparr>)"
    using frame_of_report [of "s\<lparr>hal_dev := d1\<rparr>" a i os "[]" e d'] assms(1,2,5) d1(2) by auto
  then have "drv_input_read_keyboard_frame os (Some a) True (s\<lparr>hal_dev := d1\<rparr>) = (Ret (Inr 0, Some zero_keyboard_frame), s\<lparr>hal_dev := d'\<rparr>)"
    and "drv_input_read_pointer_frame os (Some a) True (s\<lparr>hal_dev := d1\<rparr>) = (Ret (Inr 0, Some zero_pointer_frame), s\<lparr>hal_dev := d'\<rparr>)"
    by (simp_all add: drv_input_read_keyboard_frame_def drv_input_read_pointer_frame_def sprog_defs)
  then show ?thesis using first keep fill_zero_frame(3) [of es] by (intro exI [of _ ?f] exI [of _ d1] exI [of _ "int (kf_count ?f)"]) simp
qed

theorem input_full_report_lost_witness:
  "\<exists>f1 d1 n s. drv_input_read_keyboard_frame sample_input_os (Some 0) True (sample_input (replicate 32 (sample_event 1 30 1) @ [sample_event 0 0 0])) =
      (Ret (Inr n, Some f1), s\<lparr>hal_dev := d1\<rparr>) \<and> \<not> kf_complete f1 \<and>
    drv_input_read_keyboard_frame sample_input_os (Some 0) True (s\<lparr>hal_dev := d1\<rparr>) = (Ret (Inr 0, Some zero_keyboard_frame), s\<lparr>hal_dev := []\<rparr>)"
proof -
  have "\<forall>e \<in> set (replicate 32 (sample_event 1 30 1)). \<not> drv_input_is_sync_event (Some e)"
    by (simp add: sample_event_def input_codes)
  from input_full_report_lost [OF sample_input_inst(1) _ _ this sample_report_events(2), of sample_input_os
      "replicate 32 (sample_event 1 30 1) @ [sample_event 0 0 0]" "[]"]
    sample_delivers [of 3 "replicate 32 (sample_event 1 30 1) @ [sample_event 0 0 0]" "[]"]
  moreover have "(0 :: int) \<le> 3" by simp
  ultimately show ?thesis unfolding sample_input_inst append_Nil2 length_replicate by blast
qed

end
