(* ===== verification/Spi.thy ===== *)
theory Spi
  imports Hal_Inst Gpio
begin

unbundle bit_operations_syntax

text \<open>
  The SPI driver (\<open>rtsmart_hal/drivers/spi/drv_spi.c\<close>). An instance is a descriptor of a bus with the parameters it wants
  there and, when it drives the chip select, an instance of the GPIO driver; several instances may share a bus, so the driver
  remembers per bus who configured it last and configures it again before a transfer of another one. The state holds the GPIO
  driver of \<open>Gpio\<close>, whose functions are called as they are. Beside the program's data the state records what the kernel has
  been asked: which file a descriptor was opened on, the last configuration each bus accepted, and the messages sent. The
  spinlocks are not modelled: every function is one step, so the interleaving that \<open>drv_spi_inst_create\<close> permits, which configures the bus and
  records its owner without taking the lock, is outside of the model.
\<close>

section \<open>State\<close>

definition SPI_HAL_MAX_DEVICES :: int where "SPI_HAL_MAX_DEVICES = 3"
definition SPI_CS_ACTIVE_HIGH :: u8 where "SPI_CS_ACTIVE_HIGH = push_bit 4 1"
definition GPIO_DM_OUTPUT :: u32 where "GPIO_DM_OUTPUT = 0"
definition GPIO_PV_HIGH :: u32 where "GPIO_PV_HIGH = 1"
definition INT_MAX_64 :: u64 where "INT_MAX_64 = 0x7fffffff"

record rt_qspi_configuration =
  qc_mode :: u8
  qc_data_width :: u8
  qc_hard_cs :: u8
  qc_soft_cs :: u8
  qc_max_hz :: u32
  qc_medium_size :: u32
  qc_ddr_mode :: u8
  qc_qspi_dl_width :: u8

record qspi_stage =
  qs_content :: u32
  qs_size :: u8
  qs_lines :: u8

text \<open>The buffers and the next message are addresses the driver does not follow; \<open>None\<close> is the null pointer.\<close>

record rt_qspi_message =
  qm_send_buf :: "nat option"
  qm_recv_buf :: "nat option"
  qm_length :: u64
  qm_next :: "nat option"
  qm_cs_take :: bool
  qm_cs_release :: bool
  qm_instruction :: qspi_stage
  qm_address :: qspi_stage
  qm_alternate_bytes :: qspi_stage
  qm_dummy_cycles :: u32
  qm_data_lines :: u8

text \<open>\<open>cs_active\<close> says that \<open>cs_status\<close> is \<open>CS_ACTIVE\<close>.\<close>

record drv_spi_inst =
  si_handle_id :: u64
  si_fd :: int
  si_id :: u8
  si_mode :: u8
  si_baudrate :: u32
  si_data_bits :: u8
  si_cs_pin :: int
  si_gpio_cs :: "nat option"
  si_data_line :: u8
  si_cs_active :: bool
  si_use_hw_cs :: bool

record 'd spi_os = "'d os_files" +
  so_config :: "int \<Rightarrow> rt_qspi_configuration \<Rightarrow> 'd \<Rightarrow> int \<times> 'd"
  so_rw :: "int \<Rightarrow> rt_qspi_message \<Rightarrow> 'd \<Rightarrow> int \<times> 'd"

text \<open>
  A message as it was sent: the instance, whether its message came from the client (\<open>drv_spi_transfer_message\<close>), the bus, the
  configuration the bus had and the content the instance had at that moment, and the message.
\<close>

record spi_sent =
  ss_inst :: nat
  ss_custom :: bool
  ss_bus :: string
  ss_config :: "rt_qspi_configuration option"
  ss_params :: "drv_spi_inst option"
  ss_msg :: rt_qspi_message

record ('d, 'e) spi = "(drv_spi_inst, 'd) hal" +
  sp_gpio :: "'e gpio"
  sp_handle :: "u64 list"
  sp_idx :: u64
  sp_path :: "int \<Rightarrow> string"
  sp_bus :: "string \<Rightarrow> rt_qspi_configuration option"
  sp_log :: "spi_sent list"

section \<open>Calls of the driver\<close>

text \<open>A call of the GPIO driver, and of the pin multiplexer below it.\<close>

definition sgpio :: "('e gpio, 'a) prog \<Rightarrow> (('d, 'e) spi, 'a) prog" where
  "sgpio m s = (let (r, g) = m (sp_gpio s) in (r, s\<lparr>sp_gpio := g\<rparr>))"

definition gpio_set_pin_func :: "int \<Rightarrow> nat \<Rightarrow> ('e gpio, unit) prog" where
  "gpio_set_pin_func pin func s =
     (let (r, fp) = drv_fpioa_set_pin_func pin func (gpio_fpioa s) in (r, s\<lparr>gpio_fpioa := fp\<rparr>))"

definition spi_dev :: "nat \<Rightarrow> string" where
  "spi_dev n = ''/dev/spi'' @ decimal n"

definition spi_open :: "'d spi_os \<Rightarrow> string \<Rightarrow> (('d, 'e) spi, int) prog" where
  "spi_open os path = sbind (hopen os path) (\<lambda>fd. sbind (smod (\<lambda>s. s\<lparr>sp_path := (sp_path s)(fd := path)\<rparr>)) (\<lambda>_. sret fd))"

definition spi_ctrl_config :: "'d spi_os \<Rightarrow> int \<Rightarrow> rt_qspi_configuration \<Rightarrow> (('d, 'e) spi, int) prog" where
  "spi_ctrl_config os fd cfg s =
     (let (r, d) = so_config os fd cfg (hal_dev s)
      in (Ret r, s\<lparr>hal_dev := d, sp_bus := (if r = 0 then (sp_bus s)(sp_path s fd \<mapsto> cfg) else sp_bus s)\<rparr>))"

definition spi_ctrl_rw :: "'d spi_os \<Rightarrow> nat \<Rightarrow> bool \<Rightarrow> int \<Rightarrow> rt_qspi_message \<Rightarrow> (('d, 'e) spi, int) prog" where
  "spi_ctrl_rw os a custom fd msg s =
     (let (r, d) = so_rw os fd msg (hal_dev s);
          e = \<lparr>ss_inst = a, ss_custom = custom, ss_bus = sp_path s fd, ss_config = sp_bus s (sp_path s fd),
            ss_params = hal_heap s a, ss_msg = msg\<rparr>
      in (Ret r, s\<lparr>hal_dev := d, sp_log := sp_log s @ [e]\<rparr>))"

text \<open>The table \<open>g_handle_id\<close>; an index outside of it is a fault.\<close>

definition g_handle :: "u8 \<Rightarrow> (('d, 'e) spi, u64) prog" where
  "g_handle n s = (if unat n < length (sp_handle s) then (Ret (sp_handle s ! unat n), s) else (Fault, s))"

definition set_g_handle :: "u8 \<Rightarrow> u64 \<Rightarrow> (('d, 'e) spi, unit) prog" where
  "set_g_handle n h s =
     (if unat n < length (sp_handle s) then (Ret (), s\<lparr>sp_handle := (sp_handle s)[unat n := h]\<rparr>) else (Fault, s))"

text \<open>The structure cleared and filled, with the soft chip select as the caller computes it.\<close>

definition spi_configuration :: "u8 \<Rightarrow> drv_spi_inst \<Rightarrow> rt_qspi_configuration" where
  "spi_configuration soft_cs i =
     \<lparr>qc_mode = si_mode i, qc_data_width = si_data_bits i, qc_hard_cs = 0, qc_soft_cs = soft_cs, qc_max_hz = si_baudrate i,
      qc_medium_size = 0, qc_ddr_mode = 0, qc_qspi_dl_width = si_data_line i\<rparr>"

definition pin_cs :: "int \<Rightarrow> u8" where
  "pin_cs cs_pin = (if cs_pin \<noteq> -1 then of_int cs_pin OR 0x80 else 0)"

section \<open>Instances\<close>

definition spi_args_ok :: "int \<Rightarrow> int \<Rightarrow> u32 \<Rightarrow> u8 \<Rightarrow> int \<Rightarrow> u8 \<Rightarrow> bool" where
  "spi_args_ok spi_id mode baudrate data_bits cs_pin data_line \<longleftrightarrow>
     \<not> (spi_id < 0 \<or> spi_id \<ge> SPI_HAL_MAX_DEVICES) \<and> \<not> (mode < 0 \<or> mode > 3) \<and> baudrate \<noteq> 0 \<and>
     \<not> (data_bits < 4 \<or> data_bits > 32) \<and> \<not> (data_line \<noteq> 1 \<and> data_line \<noteq> 2 \<and> data_line \<noteq> 4 \<and> data_line \<noteq> 8) \<and>
     \<not> (data_line = 8 \<and> spi_id \<noteq> 0) \<and> \<not> ((cs_pin < 0 \<or> cs_pin > 63) \<and> cs_pin \<noteq> -1)"

text \<open>
  The chip select of the new instance: 0 when it is ready, else the number of the label the code jumps to.
\<close>

definition spi_setup_cs :: "'e gpio_os \<Rightarrow> nat \<Rightarrow> int \<Rightarrow> bool \<Rightarrow> (('d, 'e) spi, nat) prog" where
  "spi_setup_cs gos a cs_pin active_low =
     scatch (sgpio (gpio_set_pin_func cs_pin (nat (int GPIO0 + cs_pin))))
       (\<lambda>_. sbind (sgpio (drv_gpio_inst_create gos cs_pin None)) (\<lambda>(r, q).
            sbind (hset a (\<lambda>i. i\<lparr>si_gpio_cs := q\<rparr>)) (\<lambda>_.
            if r \<noteq> Ret () then sret 1
            else scatch (sgpio (drv_gpio_mode_set gos q GPIO_DM_OUTPUT))
              (\<lambda>_. sbind (signore (sgpio (drv_gpio_value_set gos q (if \<not> active_low then GPIO_PV_LOW else GPIO_PV_HIGH)))) (\<lambda>_.
                   sbind (hset a (\<lambda>i. i\<lparr>si_use_hw_cs := True\<rparr>)) (\<lambda>_. sret 0)))
              (\<lambda>_. sret 2))))
       (\<lambda>_. sret 1)"

text \<open>The labels \<open>err_3\<close>, \<open>err_2\<close> and \<open>err_1\<close>: the caller's pointer becomes null.\<close>

definition spi_unwind :: "'d spi_os \<Rightarrow> 'e gpio_os \<Rightarrow> nat \<Rightarrow> int \<Rightarrow> nat \<Rightarrow> int \<Rightarrow> (('d, 'e) spi, int \<times> nat option) prog" where
  "spi_unwind os gos a cs_pin label ret =
     sbind (if 3 \<le> label then sbind (hinst a) (\<lambda>i. hclose os (si_fd i)) else sret ()) (\<lambda>_.
     sbind (if 2 \<le> label \<and> cs_pin \<noteq> -1
            then sbind (hinst a) (\<lambda>i. sbind (sgpio (drv_gpio_inst_destroy gos (si_gpio_cs i))) (\<lambda>q. hset a (\<lambda>i. i\<lparr>si_gpio_cs := q\<rparr>)))
            else sret ()) (\<lambda>_.
     sbind (hfree a) (\<lambda>_. sret (ret, None))))"

text \<open>The instance after \<open>memset\<close>, with its bus; the parameters once the chip select is set up.\<close>

definition spi_cleared :: "int \<Rightarrow> drv_spi_inst" where
  "spi_cleared spi_id = \<lparr>si_handle_id = 0, si_fd = 0, si_id = of_int spi_id, si_mode = 0, si_baudrate = 0, si_data_bits = 0,
     si_cs_pin = 0, si_gpio_cs = None, si_data_line = 0, si_cs_active = False, si_use_hw_cs = False\<rparr>"

definition spi_params :: "u8 \<Rightarrow> u32 \<Rightarrow> u8 \<Rightarrow> int \<Rightarrow> u8 \<Rightarrow> drv_spi_inst \<Rightarrow> drv_spi_inst" where
  "spi_params mode baudrate data_bits cs_pin data_line i =
     i\<lparr>si_mode := mode, si_baudrate := baudrate, si_data_bits := data_bits, si_cs_pin := cs_pin, si_data_line := data_line,
       si_cs_active := False\<rparr>"

text \<open>From the \<open>open\<close> on; the part after it gives the instance its number and configures the bus.\<close>

definition spi_register :: "'d spi_os \<Rightarrow> 'e gpio_os \<Rightarrow> nat \<Rightarrow> int \<Rightarrow> int \<Rightarrow> (('d, 'e) spi, int \<times> nat option) prog" where
  "spi_register os gos a fd cs_pin =
     sbind (sget sp_idx) (\<lambda>idx.
     sbind (smod (\<lambda>s. s\<lparr>sp_idx := idx + 1\<rparr>)) (\<lambda>_.
     sbind (hset a (\<lambda>i. i\<lparr>si_handle_id := idx\<rparr>)) (\<lambda>_.
     sbind (hinst a) (\<lambda>i.
     sbind (spi_ctrl_config os fd (spi_configuration (pin_cs cs_pin) i)) (\<lambda>ret.
     if ret \<noteq> 0 then spi_unwind os gos a cs_pin 3 ret
     else sbind (set_g_handle (si_id i) idx) (\<lambda>_. sret (0, Some a)))))))"

definition spi_attach ::
    "'d spi_os \<Rightarrow> 'e gpio_os \<Rightarrow> nat \<Rightarrow> int \<Rightarrow> int \<Rightarrow> (('d, 'e) spi, int \<times> nat option) prog" where
  "spi_attach os gos a spi_id cs_pin =
     sbind (spi_open os (take 31 (spi_dev (nat spi_id)))) (\<lambda>fd.
     sbind (hset a (\<lambda>i. i\<lparr>si_fd := fd\<rparr>)) (\<lambda>_.
     if fd < 0 then spi_unwind os gos a cs_pin 2 (-1) else spi_register os gos a fd cs_pin))"

text \<open>
  \<open>inst\<close> is null, or points to a pointer. The result is the value returned and the caller's pointer afterwards.
\<close>

definition drv_spi_inst_create ::
    "'d spi_os \<Rightarrow> 'e gpio_os \<Rightarrow> int \<Rightarrow> bool \<Rightarrow> int \<Rightarrow> u32 \<Rightarrow> u8 \<Rightarrow> int \<Rightarrow> u8 \<Rightarrow> nat option option \<Rightarrow>
      (('d, 'e) spi, int \<times> nat option) prog" where
  "drv_spi_inst_create os gos spi_id active_low mode baudrate data_bits cs_pin data_line inst =
     (case inst of None \<Rightarrow> sret (-1, None)
      | Some p \<Rightarrow>
        if \<not> spi_args_ok spi_id mode baudrate data_bits cs_pin data_line then sret (-1, p)
        else
          sbind (hmalloc os) (\<lambda>ok.
          if \<not> ok then sret (-1, None)
          else
            sbind (hnew (spi_cleared spi_id)) (\<lambda>a.
            sbind (if cs_pin \<noteq> -1 then spi_setup_cs gos a cs_pin active_low else sret 0) (\<lambda>label.
            if label \<noteq> 0 then spi_unwind os gos a cs_pin label (-1)
            else
              let mode = (if cs_pin \<noteq> -1 \<and> \<not> active_low then of_int mode OR SPI_CS_ACTIVE_HIGH else of_int mode) in
              sbind (hset a (spi_params mode baudrate data_bits cs_pin data_line)) (\<lambda>_.
              spi_attach os gos a spi_id cs_pin)))))"

definition drv_spi_inst_destroy :: "'d spi_os \<Rightarrow> 'e gpio_os \<Rightarrow> nat option \<Rightarrow> (('d, 'e) spi, nat option) prog" where
  "drv_spi_inst_destroy os gos inst =
     (case inst of None \<Rightarrow> sret None
      | Some a \<Rightarrow> sbind (hinst a) (\<lambda>i.
          sbind (if si_gpio_cs i \<noteq> None
                 then sbind (sgpio (drv_gpio_inst_destroy gos (si_gpio_cs i))) (\<lambda>_. hset a (\<lambda>i. i\<lparr>si_gpio_cs := None\<rparr>))
                 else sret ()) (\<lambda>_.
          sbind (if 0 \<le> si_fd i then hclose os (si_fd i) else sret ()) (\<lambda>_.
          sbind (hfree a) (\<lambda>_. sret None)))))"

section \<open>Transfers\<close>

text \<open>The test at the head of every function: null, or without a descriptor.\<close>

definition spi_inst :: "nat option \<Rightarrow> (('d, 'e) spi, (nat \<times> drv_spi_inst) option) prog" where
  "spi_inst inst =
     (case inst of None \<Rightarrow> sret None
      | Some a \<Rightarrow> sbind (hinst a) (\<lambda>i. sret (if si_fd i < 0 then None else Some (a, i))))"

text \<open>Under the lock: the bus is configured for the instance unless it is the one that configured it last.\<close>

definition spi_select :: "'d spi_os \<Rightarrow> drv_spi_inst \<Rightarrow> (('d, 'e) spi, int) prog" where
  "spi_select os i =
     sbind (g_handle (si_id i)) (\<lambda>h.
     if h \<noteq> si_handle_id i then
       sbind (spi_ctrl_config os (si_fd i) (spi_configuration (pin_cs (si_cs_pin i)) i)) (\<lambda>ret.
       if ret \<noteq> 0 then sret ret else sbind (set_g_handle (si_id i) (si_handle_id i)) (\<lambda>_. sret 0))
     else sret 0)"

definition no_stage :: qspi_stage where
  "no_stage = \<lparr>qs_content = 0, qs_size = 0, qs_lines = 0\<rparr>"

definition drv_spi_transfer ::
    "'d spi_os \<Rightarrow> nat option \<Rightarrow> nat option \<Rightarrow> nat option \<Rightarrow> u64 \<Rightarrow> bool \<Rightarrow> (('d, 'e) spi, int) prog" where
  "drv_spi_transfer os inst tx_data rx_data len cs_change =
     sbind (spi_inst inst) (\<lambda>x. case x of None \<Rightarrow> sret (-1)
       | Some (a, i) \<Rightarrow>
         if len = 0 then sret 0
         else if len > INT_MAX_64 \<or> (tx_data = None \<and> rx_data = None) then sret (-1)
         else
           sbind (spi_select os i) (\<lambda>ret.
           if ret \<noteq> 0 then sret ret
           else
             let drives = si_cs_pin i \<noteq> -1;
                 msg = \<lparr>qm_send_buf = tx_data, qm_recv_buf = rx_data, qm_length = len, qm_next = None,
                   qm_cs_take = (drives \<and> \<not> si_cs_active i), qm_cs_release = (drives \<and> cs_change),
                   qm_instruction = no_stage, qm_address = no_stage, qm_alternate_bytes = no_stage,
                   qm_dummy_cycles = 0, qm_data_lines = si_data_line i\<rparr> in
             sbind (if drives then hset a (\<lambda>i. i\<lparr>si_cs_active := \<not> cs_change\<rparr>) else sret ()) (\<lambda>_.
             spi_ctrl_rw os a False (si_fd i) msg)))"

definition drv_spi_read :: "'d spi_os \<Rightarrow> nat option \<Rightarrow> nat option \<Rightarrow> u64 \<Rightarrow> bool \<Rightarrow> (('d, 'e) spi, int) prog" where
  "drv_spi_read os inst rx_data len cs_change = drv_spi_transfer os inst None rx_data len cs_change"

definition drv_spi_write :: "'d spi_os \<Rightarrow> nat option \<Rightarrow> nat option \<Rightarrow> u64 \<Rightarrow> bool \<Rightarrow> (('d, 'e) spi, int) prog" where
  "drv_spi_write os inst tx_data len cs_change = drv_spi_transfer os inst tx_data None len cs_change"

text \<open>The client's message is given with its content and comes back with its number of lines set.\<close>

definition drv_spi_transfer_message ::
    "'d spi_os \<Rightarrow> nat option \<Rightarrow> rt_qspi_message option \<Rightarrow> (('d, 'e) spi, int \<times> rt_qspi_message option) prog" where
  "drv_spi_transfer_message os inst msg =
     sbind (spi_inst inst) (\<lambda>x. case (x, msg) of
       (Some (a, i), Some m) \<Rightarrow>
         if qm_length m > INT_MAX_64 then sret (-1, msg)
         else
           sbind (spi_select os i) (\<lambda>ret.
           if ret \<noteq> 0 then sret (ret, msg)
           else
             let m = m\<lparr>qm_data_lines := si_data_line i\<rparr> in
             sbind (spi_ctrl_rw os a True (si_fd i) m) (\<lambda>ret. sret (ret, Some m)))
     | _ \<Rightarrow> sret (-1, msg))"

section \<open>Changing the parameters\<close>

definition drv_spi_update_config :: "'d spi_os \<Rightarrow> nat \<Rightarrow> (('d, 'e) spi, int) prog" where
  "drv_spi_update_config os a =
     sbind (hinst a) (\<lambda>i.
     let config = (\<lambda>soft_cs. sbind (spi_ctrl_config os (si_fd i) (spi_configuration soft_cs i)) (\<lambda>ret.
           if ret \<noteq> 0 then sret ret else sbind (set_g_handle (si_id i) (si_handle_id i)) (\<lambda>_. sret 0))) in
     if si_cs_pin i \<noteq> -1 \<and> si_use_hw_cs i then config (of_int (si_cs_pin i) OR 0x80)
     else if \<not> si_use_hw_cs i then config 0
     else sret (-1))"

definition drv_spi_set_baudrate :: "'d spi_os \<Rightarrow> nat option \<Rightarrow> u32 \<Rightarrow> (('d, 'e) spi, int) prog" where
  "drv_spi_set_baudrate os inst baudrate =
     sbind (spi_inst inst) (\<lambda>x. case x of None \<Rightarrow> sret (-1)
       | Some (a, i) \<Rightarrow>
         if baudrate = 0 then sret (-1)
         else
           sbind (hset a (\<lambda>i. i\<lparr>si_baudrate := baudrate\<rparr>)) (\<lambda>_.
           sbind (drv_spi_update_config os a) (\<lambda>ret.
           if ret \<noteq> 0 then sbind (hset a (\<lambda>j. j\<lparr>si_baudrate := si_baudrate i\<rparr>)) (\<lambda>_. sret ret) else sret ret)))"

definition drv_spi_set_datamode :: "'d spi_os \<Rightarrow> nat option \<Rightarrow> u8 \<Rightarrow> (('d, 'e) spi, int) prog" where
  "drv_spi_set_datamode os inst mode =
     sbind (spi_inst inst) (\<lambda>x. case x of None \<Rightarrow> sret (-1)
       | Some (a, i) \<Rightarrow>
         if mode > 3 then sret (-1)
         else
           sbind (hset a (\<lambda>i. i\<lparr>si_mode := (si_mode i AND SPI_CS_ACTIVE_HIGH) OR mode\<rparr>)) (\<lambda>_.
           sbind (drv_spi_update_config os a) (\<lambda>ret.
           if ret \<noteq> 0 then sbind (hset a (\<lambda>j. j\<lparr>si_mode := si_mode i\<rparr>)) (\<lambda>_. sret ret) else sret ret)))"

definition drv_spi_set_cs_polarity :: "'d spi_os \<Rightarrow> 'e gpio_os \<Rightarrow> nat option \<Rightarrow> bool \<Rightarrow> (('d, 'e) spi, int) prog" where
  "drv_spi_set_cs_polarity os gos inst is_active_hi =
     sbind (spi_inst inst) (\<lambda>x. case x of None \<Rightarrow> sret (-1)
       | Some (a, i) \<Rightarrow>
         if si_cs_pin i = -1 then sret 0
         else
           let idle = (\<lambda>hi. signore (sgpio (drv_gpio_value_set gos (si_gpio_cs i) (if hi then GPIO_PV_LOW else GPIO_PV_HIGH)))) in
           sbind (hset a (\<lambda>i. i\<lparr>si_mode := (if is_active_hi then si_mode i OR SPI_CS_ACTIVE_HIGH
                                           else si_mode i AND NOT SPI_CS_ACTIVE_HIGH)\<rparr>)) (\<lambda>_.
           sbind (idle is_active_hi) (\<lambda>_.
           sbind (drv_spi_update_config os a) (\<lambda>ret.
           if ret \<noteq> 0 then
             sbind (hset a (\<lambda>j. j\<lparr>si_mode := si_mode i\<rparr>)) (\<lambda>_.
             sbind (idle (si_mode i AND SPI_CS_ACTIVE_HIGH \<noteq> 0)) (\<lambda>_. sret ret))
           else sret ret))))"

definition drv_spi_set_cs_mode :: "'d spi_os \<Rightarrow> nat option \<Rightarrow> bool \<Rightarrow> (('d, 'e) spi, int) prog" where
  "drv_spi_set_cs_mode os inst use_hw_cs =
     sbind (spi_inst inst) (\<lambda>x. case x of None \<Rightarrow> sret (-1)
       | Some (a, i) \<Rightarrow>
         if use_hw_cs \<and> si_cs_pin i = -1 then sret (-1)
         else
           sbind (hset a (\<lambda>i. i\<lparr>si_use_hw_cs := use_hw_cs\<rparr>)) (\<lambda>_.
           sbind (drv_spi_update_config os a) (\<lambda>ret.
           if ret \<noteq> 0 then sbind (hset a (\<lambda>j. j\<lparr>si_use_hw_cs := si_use_hw_cs i\<rparr>)) (\<lambda>_. sret ret) else sret ret)))"

definition drv_spi_set_data_bits :: "'d spi_os \<Rightarrow> nat option \<Rightarrow> u8 \<Rightarrow> (('d, 'e) spi, int) prog" where
  "drv_spi_set_data_bits os inst data_bits =
     sbind (spi_inst inst) (\<lambda>x. case x of None \<Rightarrow> sret (-1)
       | Some (a, i) \<Rightarrow>
         if data_bits < 4 \<or> data_bits > 32 then sret (-1)
         else
           sbind (hset a (\<lambda>i. i\<lparr>si_data_bits := data_bits\<rparr>)) (\<lambda>_.
           sbind (drv_spi_update_config os a) (\<lambda>ret.
           if ret \<noteq> 0 then sbind (hset a (\<lambda>j. j\<lparr>si_data_bits := si_data_bits i\<rparr>)) (\<lambda>_. sret ret) else sret ret)))"

section \<open>Invariant\<close>

text \<open>
  An instance is well formed when its parameters are in the ranges \<open>create\<close> accepts, it has a GPIO instance exactly when it has a
  pin, and only then it lets the hardware drive the chip select.
\<close>

definition spi_inst_ok :: "drv_spi_inst \<Rightarrow> bool" where
  "spi_inst_ok i \<longleftrightarrow> unat (si_id i) < 3 \<and> si_mode i \<in> {0, 1, 2, 3, 16, 17, 18, 19} \<and> si_baudrate i \<noteq> 0 \<and>
     4 \<le> si_data_bits i \<and> si_data_bits i \<le> 32 \<and> si_data_line i \<in> {1, 2, 4, 8} \<and> (si_data_line i = 8 \<longrightarrow> si_id i = 0) \<and>
     (si_cs_pin i = -1 \<or> 0 \<le> si_cs_pin i \<and> si_cs_pin i \<le> 63) \<and> (si_gpio_cs i = None \<longleftrightarrow> si_cs_pin i = -1) \<and>
     (si_use_hw_cs i \<longrightarrow> si_cs_pin i \<noteq> -1)"

text \<open>
  A configuration has the instance's parameters, with its pin as the chip select. For an instance that
  was asked not to let the hardware drive it the chip select may be left out: a setter leaves it out, a transfer after another instance does not.
\<close>

definition spi_agrees :: "rt_qspi_configuration \<Rightarrow> drv_spi_inst \<Rightarrow> bool" where
  "spi_agrees c i \<longleftrightarrow> c = spi_configuration (pin_cs (si_cs_pin i)) i \<or> (\<not> si_use_hw_cs i \<and> c = spi_configuration 0 i)"

text \<open>The configuration that \<open>drv_spi_update_config\<close> asks for.\<close>

definition wanted_config :: "drv_spi_inst \<Rightarrow> rt_qspi_configuration" where
  "wanted_config i = spi_configuration (if si_use_hw_cs i then pin_cs (si_cs_pin i) else 0) i"

lemma wanted_agrees: "spi_agrees (wanted_config i) i"
  by (simp add: spi_agrees_def wanted_config_def)

text \<open>
  The chip select over the messages of one instance: each takes it exactly when it is not held from the one before.
\<close>

fun cs_alternates :: "bool \<Rightarrow> rt_qspi_message list \<Rightarrow> bool" where
  "cs_alternates held [] = True"
| "cs_alternates held (m # ms) = (qm_cs_take m = (\<not> held) \<and> cs_alternates (\<not> qm_cs_release m) ms)"

definition cs_held :: "rt_qspi_message list \<Rightarrow> bool" where
  "cs_held ms = (ms \<noteq> [] \<and> \<not> qm_cs_release (last ms))"

lemma cs_alternates_snoc:
  "cs_alternates held (ms @ [m]) \<longleftrightarrow> cs_alternates held ms \<and> qm_cs_take m = (\<not> (if ms = [] then held else \<not> qm_cs_release (last ms)))"
  by (induction held ms rule: cs_alternates.induct) auto

definition spi_msgs :: "nat \<Rightarrow> spi_sent list \<Rightarrow> rt_qspi_message list" where
  "spi_msgs a log = map ss_msg (filter (\<lambda>e. ss_inst e = a \<and> \<not> ss_custom e) log)"

lemma spi_msgs_snoc: "spi_msgs a (log @ [e]) = spi_msgs a log @ (if ss_inst e = a \<and> \<not> ss_custom e then [ss_msg e] else [])"
  by (simp add: spi_msgs_def)

lemma spi_msgs_fresh: "\<forall>e \<in> set log. ss_inst e \<noteq> a \<Longrightarrow> spi_msgs a log = []"
  by (simp add: spi_msgs_def)

text \<open>A message is well sent when its bus had the configuration its instance wanted then.\<close>

definition well_sent :: "spi_sent \<Rightarrow> bool" where
  "well_sent e \<longleftrightarrow> (\<exists>i c. ss_params e = Some i \<and> ss_config e = Some c \<and> spi_agrees c i \<and> ss_bus e = spi_dev (unat (si_id i)) \<and>
     qm_data_lines (ss_msg e) = si_data_line i)"

definition cs_state :: "drv_spi_inst \<Rightarrow> rt_qspi_message list \<Rightarrow> bool" where
  "cs_state i ms \<longleftrightarrow> (if si_cs_pin i = -1 then \<forall>m \<in> set ms. \<not> qm_cs_take m \<and> \<not> qm_cs_release m
     else cs_alternates False ms \<and> si_cs_active i = cs_held ms)"

text \<open>
  What holds of an instance between calls: its descriptor is one of its bus, its number has been given out, if it was the last to
  configure its bus then the bus has its configuration, and the chip select is where its messages have left it.
\<close>

definition spi_ready :: "('d, 'e) spi \<Rightarrow> nat \<Rightarrow> drv_spi_inst \<Rightarrow> bool" where
  "spi_ready s a i \<longleftrightarrow> spi_inst_ok i \<and> sp_path s (si_fd i) = spi_dev (unat (si_id i)) \<and> si_handle_id i < sp_idx s \<and>
     (sp_handle s ! unat (si_id i) = si_handle_id i \<longrightarrow> (\<exists>c. sp_bus s (spi_dev (unat (si_id i))) = Some c \<and> spi_agrees c i)) \<and>
     cs_state i (spi_msgs a (sp_log s))"

definition gpio_refs :: "(nat \<Rightarrow> drv_spi_inst option) \<Rightarrow> nat \<Rightarrow> nat option" where
  "gpio_refs h a = Option.bind (h a) si_gpio_cs"

text \<open>\<open>C\<close> are the GPIO instances of the client, the others belong to one SPI instance each.\<close>

definition spi_gpio_ok :: "nat set \<Rightarrow> (nat \<Rightarrow> drv_spi_inst option) \<Rightarrow> 'e gpio \<Rightarrow> bool" where
  "spi_gpio_ok C h g \<longleftrightarrow> inj_on (gpio_refs h) (dom (gpio_refs h)) \<and> ran (gpio_refs h) \<inter> C = {} \<and> ginv (ran (gpio_refs h) \<union> C) 0 g"

definition handles_distinct :: "nat set \<Rightarrow> (nat \<Rightarrow> drv_spi_inst option) \<Rightarrow> bool" where
  "handles_distinct Z h \<longleftrightarrow> (\<forall>a b i j. a \<notin> Z \<longrightarrow> b \<notin> Z \<longrightarrow> h a = Some i \<longrightarrow> h b = Some j \<longrightarrow> si_handle_id i = si_handle_id j \<longrightarrow> a = b)"

text \<open>\<open>Z\<close> are the instances that are being made or changed.\<close>

definition spi_R :: "nat set \<Rightarrow> nat set \<Rightarrow> ('d, 'e) spi \<Rightarrow> bool" where
  "spi_R C Z s \<longleftrightarrow> length (sp_handle s) = 3 \<and> spi_gpio_ok C (hal_heap s) (sp_gpio s) \<and>
     (\<forall>e \<in> set (sp_log s). ss_inst e < hal_next s \<and> well_sent e) \<and> handles_distinct Z (hal_heap s) \<and>
     (\<forall>a i. a \<notin> Z \<longrightarrow> hal_heap s a = Some i \<longrightarrow> spi_ready s a i)"

subsection \<open>Changes of the state\<close>

lemma gpio_refs_upd:
  "gpio_refs (h(a \<mapsto> i)) = (gpio_refs h)(a := si_gpio_cs i)" "gpio_refs (h(a := None)) = (gpio_refs h)(a := None)"
  by (auto simp: gpio_refs_def)

lemma gpio_refs_same: "h a = Some i \<Longrightarrow> si_gpio_cs j = si_gpio_cs i \<Longrightarrow> gpio_refs (h(a \<mapsto> j)) = gpio_refs h"
  by (auto simp: gpio_refs_def)

lemma spi_ready_cong:
  "sp_path s' (si_fd i) = sp_path s (si_fd i) \<Longrightarrow> sp_handle s' = sp_handle s \<Longrightarrow> sp_bus s' = sp_bus s \<Longrightarrow> sp_log s' = sp_log s \<Longrightarrow>
    sp_idx s' = sp_idx s \<Longrightarrow> spi_ready s' a i = spi_ready s a i"
  by (simp add: spi_ready_def)

lemma spi_R_cong:
  "hal_heap s' = hal_heap s \<Longrightarrow> hal_next s' = hal_next s \<Longrightarrow> hal.more s' = hal.more s \<Longrightarrow> spi_R C Z s' = spi_R C Z s"
  for s s' :: "('d, 'e) spi"
  by (cases s; cases s') (simp add: spi_R_def spi_ready_def)

lemma spi_R_dev [simp]: "spi_R C Z (s\<lparr>hal_dev := d\<rparr>) = spi_R C Z s" "spi_R C Z (s\<lparr>hal_fds := F\<rparr>) = spi_R C Z s"
  by (rule spi_R_cong; simp)+

lemma spi_R_same: "same_inst s s' \<Longrightarrow> spi_R C Z s' = spi_R C Z s" for s s' :: "('d, 'e) spi"
  by (rule spi_R_cong) (simp_all add: same_inst_def)

lemma spi_R_mono: "spi_R C Z s \<Longrightarrow> Z \<subseteq> Z' \<Longrightarrow> spi_R C Z' s"
  unfolding spi_R_def handles_distinct_def by blast

lemma spi_R_gpio: "spi_R C Z s \<Longrightarrow> ginv (ran (gpio_refs (hal_heap s)) \<union> C) 0 g \<Longrightarrow> spi_R C Z (s\<lparr>sp_gpio := g\<rparr>)"
  by (simp add: spi_R_def spi_gpio_ok_def spi_ready_def)

lemma spi_R_set_gone:
  assumes "spi_R C Z s" and "hal_heap s a = Some i" and "a \<in> Z" and "si_gpio_cs j = si_gpio_cs i"
  shows "spi_R C Z (s\<lparr>hal_heap := (hal_heap s)(a \<mapsto> j)\<rparr>)"
proof -
  have "handles_distinct Z ((hal_heap s)(a \<mapsto> j))"
    using assms(1,3) by (auto simp: spi_R_def handles_distinct_def split: if_splits)
  then show ?thesis
    using assms gpio_refs_same [of "hal_heap s" a i j] by (auto simp: spi_R_def spi_gpio_ok_def spi_ready_def)
qed

lemma spi_R_new:
  assumes "spi_R C Z s" and "hal_heap s (hal_next s) = None" and "si_gpio_cs i = None"
  shows "spi_R C (insert (hal_next s) Z) (s\<lparr>hal_heap := (hal_heap s)(hal_next s \<mapsto> i), hal_next := Suc (hal_next s)\<rparr>)"
proof -
  have "gpio_refs (hal_heap s) (hal_next s) = None" using assms(2) by (simp add: gpio_refs_def)
  then have "gpio_refs ((hal_heap s)(hal_next s \<mapsto> i)) = gpio_refs (hal_heap s)"
    using assms(3) by (auto simp: gpio_refs_upd fun_eq_iff)
  moreover have "handles_distinct (insert (hal_next s) Z) ((hal_heap s)(hal_next s \<mapsto> i))"
    using assms(1) by (auto simp: spi_R_def handles_distinct_def split: if_splits)
  moreover have "\<forall>e \<in> set (sp_log s). ss_inst e < Suc (hal_next s)" using assms(1) by (auto simp: spi_R_def less_Suc_eq)
  ultimately show ?thesis using assms(1) by (auto simp: spi_R_def spi_gpio_ok_def spi_ready_def)
qed

lemma spi_R_drop:
  assumes "spi_R C {a} s" and "gpio_refs (hal_heap s) a = None"
  shows "spi_R C {} (s\<lparr>hal_heap := (hal_heap s)(a := None)\<rparr>)"
proof -
  have "gpio_refs ((hal_heap s)(a := None)) = gpio_refs (hal_heap s)" using assms(2) by (auto simp: gpio_refs_upd fun_eq_iff)
  moreover have "handles_distinct {} ((hal_heap s)(a := None))"
    using assms(1) by (auto simp: spi_R_def handles_distinct_def split: if_splits)
  ultimately show ?thesis using assms(1) by (auto simp: spi_R_def spi_gpio_ok_def spi_ready_def)
qed

text \<open>The GPIO instance of an instance that is being made or taken down.\<close>

lemma spi_R_take_gpio:
  assumes "spi_R C Z s" and "hal_heap s a = Some i" and "a \<in> Z" and "si_gpio_cs i = None"
    and "b \<notin> ran (gpio_refs (hal_heap s)) \<union> C" and "ginv (insert b (ran (gpio_refs (hal_heap s)) \<union> C)) 0 g"
  shows "spi_R C Z (s\<lparr>sp_gpio := g, hal_heap := (hal_heap s)(a \<mapsto> i\<lparr>si_gpio_cs := Some b\<rparr>)\<rparr>)"
proof -
  let ?m = "gpio_refs (hal_heap s)"
  have m: "inj_on ?m (dom ?m)" "ran ?m \<inter> C = {}" using assms(1) by (simp_all add: spi_R_def spi_gpio_ok_def)
  have "?m a = None" using assms(2,4) by (simp add: gpio_refs_def)
  from ran_inj_add [OF m(1) this] assms(5)
  have "ran (?m(a \<mapsto> b)) = insert b (ran ?m)" "inj_on (?m(a \<mapsto> b)) (dom (?m(a \<mapsto> b)))" by auto
  then have "spi_gpio_ok C ((hal_heap s)(a \<mapsto> i\<lparr>si_gpio_cs := Some b\<rparr>)) g"
    using m(2) assms(5,6) by (simp add: spi_gpio_ok_def gpio_refs_upd)
  moreover have "handles_distinct Z ((hal_heap s)(a \<mapsto> i\<lparr>si_gpio_cs := Some b\<rparr>))"
    using assms(1,3) by (auto simp: spi_R_def handles_distinct_def split: if_splits)
  ultimately show ?thesis using assms(1,3) by (auto simp: spi_R_def spi_ready_def)
qed

lemma spi_R_give_gpio:
  assumes "spi_R C Z s" and "hal_heap s a = Some i" and "a \<in> Z" and "si_gpio_cs i = Some b"
    and "ginv ((ran (gpio_refs (hal_heap s)) \<union> C) - {b}) 0 g"
  shows "spi_R C Z (s\<lparr>sp_gpio := g, hal_heap := (hal_heap s)(a \<mapsto> i\<lparr>si_gpio_cs := None\<rparr>)\<rparr>)"
proof -
  let ?m = "gpio_refs (hal_heap s)"
  have m: "inj_on ?m (dom ?m)" "ran ?m \<inter> C = {}" using assms(1) by (simp_all add: spi_R_def spi_gpio_ok_def)
  have b: "?m a = Some b" using assms(2,4) by (simp add: gpio_refs_def)
  note del = ran_inj_del [OF m(1) b]
  have "b \<notin> C" using b m(2) by (auto simp: ran_def)
  then have "ran ?m \<union> C - {b} = (ran ?m - {b}) \<union> C" by blast
  then have "spi_gpio_ok C ((hal_heap s)(a \<mapsto> i\<lparr>si_gpio_cs := None\<rparr>)) g"
    using m(2) assms(5) del by (auto simp: spi_gpio_ok_def gpio_refs_upd)
  moreover have "handles_distinct Z ((hal_heap s)(a \<mapsto> i\<lparr>si_gpio_cs := None\<rparr>))"
    using assms(1,3) by (auto simp: spi_R_def handles_distinct_def split: if_splits)
  ultimately show ?thesis using assms(1,3) by (auto simp: spi_R_def spi_ready_def)
qed

lemma spi_gpio_live: "spi_R C Z s \<Longrightarrow> hal_heap s a = Some i \<Longrightarrow> si_gpio_cs i = Some b \<Longrightarrow> b \<in> ran (gpio_refs (hal_heap s)) \<union> C"
  by (auto simp: gpio_refs_def intro!: ranI [where a = a])

lemma spi_ginv: "spi_R C Z s \<Longrightarrow> ginv (ran (gpio_refs (hal_heap s)) \<union> C) 0 (sp_gpio s)"
  by (simp add: spi_R_def spi_gpio_ok_def)

text \<open>Configuring a bus, and saying who did.\<close>

lemma spi_dev_inj:
  assumes "m < 3" and "n < 3" and "spi_dev m = spi_dev n"
  shows "m = n"
proof -
  have "m = 0 \<or> m = 1 \<or> m = 2" "n = 0 \<or> n = 1 \<or> n = 2" using assms(1,2) by auto
  then show ?thesis using assms(3) by (elim disjE) (simp_all add: spi_dev_def digit_def)
qed

lemma spi_R_configured:
  assumes R: "spi_R C Z s" and n: "unat n < 3"
    and agree: "\<And>b j. b \<notin> Z \<Longrightarrow> hal_heap s b = Some j \<Longrightarrow> si_handle_id j = h \<Longrightarrow> si_id j = n \<Longrightarrow> spi_agrees cfg j"
  shows "spi_R C Z (s\<lparr>sp_bus := (sp_bus s)(spi_dev (unat n) \<mapsto> cfg), sp_handle := (sp_handle s)[unat n := h]\<rparr>)" (is "spi_R C Z ?t")
proof -
  have "spi_ready ?t b j" if b: "b \<notin> Z" "hal_heap s b = Some j" for b j
  proof -
    have r: "spi_ready s b j" "length (sp_handle s) = 3" using R b by (auto simp: spi_R_def)
    then have j: "unat (si_id j) < 3" by (simp add: spi_ready_def spi_inst_ok_def)
    show ?thesis
    proof (cases "si_id j = n")
      case True
      then show ?thesis using r j agree [OF b] by (simp add: spi_ready_def)
    next
      case False
      then have "unat (si_id j) \<noteq> unat n" by (simp add: word_unat_eq_iff)
      then show ?thesis using r spi_dev_inj [OF j n] by (auto simp: spi_ready_def)
    qed
  qed
  then show ?thesis using R by (simp add: spi_R_def)
qed

text \<open>An instance that was being changed and is ready again.\<close>

lemma spi_R_ready:
  assumes "spi_R C {a} s" and "hal_heap s a = Some i" and "spi_ready s a i"
    and "\<And>b j. b \<noteq> a \<Longrightarrow> hal_heap s b = Some j \<Longrightarrow> si_handle_id j \<noteq> si_handle_id i"
  shows "spi_R C {} s"
proof -
  have "handles_distinct {} (hal_heap s)"
    using assms(1,2,4) unfolding spi_R_def handles_distinct_def by (metis empty_iff insertE option.inject)
  moreover have "spi_ready s b j" if "hal_heap s b = Some j" for b j
    using that assms(1-3) by (cases "b = a") (auto simp: spi_R_def)
  ultimately show ?thesis using assms(1) by (simp add: spi_R_def)
qed

subsection \<open>Creating and destroying\<close>

abbreviation spi_st :: "nat set \<Rightarrow> ('d, 'e) spi \<Rightarrow> bool" where
  "spi_st C s \<equiv> hal_inv si_fd {} {} s \<and> spi_R C {} s"

text \<open>\<open>a\<close> is being made; the descriptors of \<open>X\<close> are its own.\<close>

definition spi_making :: "nat set \<Rightarrow> int set \<Rightarrow> nat \<Rightarrow> ('d, 'e) spi \<Rightarrow> bool" where
  "spi_making C X a s \<longleftrightarrow> hal_inv si_fd X {a} s \<and> spi_R C {a} s \<and> (\<forall>e \<in> set (sp_log s). ss_inst e \<noteq> a)"

lemma hal_inv_spi [simp]:
  "hal_inv f X Y (s\<lparr>sp_gpio := g\<rparr>) = hal_inv f X Y s" "hal_inv f X Y (s\<lparr>sp_handle := h\<rparr>) = hal_inv f X Y s"
  "hal_inv f X Y (s\<lparr>sp_idx := n\<rparr>) = hal_inv f X Y s" "hal_inv f X Y (s\<lparr>sp_path := q\<rparr>) = hal_inv f X Y s"
  "hal_inv f X Y (s\<lparr>sp_bus := b\<rparr>) = hal_inv f X Y s" "hal_inv f X Y (s\<lparr>sp_log := l\<rparr>) = hal_inv f X Y s"
  by (rule hal_inv_cong; simp)+

lemma swp_sgpio [simp]:
  "swp (sgpio m) Q E s = swp m (\<lambda>x g. Q x (s\<lparr>sp_gpio := g\<rparr>)) (\<lambda>e g. E e (s\<lparr>sp_gpio := g\<rparr>)) (sp_gpio s)"
  by (auto simp: swp_def sgpio_def split: prod.splits cres.splits)

lemma keeps_gpio_set_pin_func: "keeps (ginv A k) (gpio_set_pin_func pin f)"
proof (rule keepsI)
  fix s r s' assume inv: "ginv A k s" and run: "gpio_set_pin_func pin f s = (r, s')"
  obtain x fp where g: "drv_fpioa_set_pin_func pin f (gpio_fpioa s) = (x, fp)" by (metis surj_pair)
  have "same_voltage (fp_voltage (gpio_fpioa s)) (gpio_fpioa s)" using inv by (simp add: ginv_def same_voltage_def)
  from keepsD [OF keeps_set_pin_func this g] have "fp_sized fp" "x \<noteq> Fault" by (auto simp: same_voltage_def)
  with run inv g show "ginv A k s' \<and> r \<noteq> Fault" by (auto simp: gpio_set_pin_func_def ginv_def)
qed

lemma making_set:
  assumes "spi_making C X a s" and "hal_heap s a = Some i" and "si_gpio_cs j = si_gpio_cs i"
  shows "spi_making C X a (s\<lparr>hal_heap := (hal_heap s)(a \<mapsto> j)\<rparr>)"
  using assms hal_inv_set_gone [of si_fd X "{a}" s a i j] spi_R_set_gone [of C "{a}" s a i j] by (simp add: spi_making_def)

text \<open>A call of the GPIO driver that neither creates nor destroys an instance.\<close>

lemma making_gpio:
  assumes mk: "spi_making C X a s" and m: "keeps (ginv (ran (gpio_refs (hal_heap s)) \<union> C) 0) m"
    and post: "\<And>x g. spi_making C X a (s\<lparr>sp_gpio := g\<rparr>) \<Longrightarrow> Q x (s\<lparr>sp_gpio := g\<rparr>)"
    and err: "\<And>e g. spi_making C X a (s\<lparr>sp_gpio := g\<rparr>) \<Longrightarrow> E e (s\<lparr>sp_gpio := g\<rparr>)"
  shows "swp (sgpio m) Q E s"
proof -
  let ?A = "ran (gpio_refs (hal_heap s)) \<union> C"
  have "swp m (\<lambda>_. ginv ?A 0) (\<lambda>_. ginv ?A 0) (sp_gpio s)"
    using m spi_ginv [of C "{a}" s] mk by (simp add: keeps_swp spi_making_def)
  moreover have "spi_making C X a (s\<lparr>sp_gpio := g\<rparr>)" if "ginv ?A 0 g" for g
    using that mk spi_R_gpio [of C "{a}" s g] by (simp add: spi_making_def)
  ultimately show ?thesis unfolding swp_sgpio by (elim swp_mono) (auto intro: post err)
qed

lemma swp_eqI: "m s = (Ret x, s') \<Longrightarrow> Q x s' \<Longrightarrow> swp m Q E s"
  by (simp add: swp_def)

lemma hset_eqI: "hal_heap s a = Some i \<Longrightarrow> Q () (s\<lparr>hal_heap := (hal_heap s)(a \<mapsto> f i)\<rparr>) \<Longrightarrow> swp (hset a f) Q E s"
  by (simp add: swp_def hset_def)

lemma heap_gpio_upd: "s\<lparr>hal_heap := h, sp_gpio := g\<rparr> = s\<lparr>sp_gpio := g, hal_heap := h\<rparr>"
  by (cases s) simp

lemma setup_cs_inv:
  assumes mk: "spi_making C X a s" and i: "hal_heap s a = Some i" "si_gpio_cs i = None"
    and post: "\<And>label g j. spi_making C X a (s\<lparr>sp_gpio := g, hal_heap := (hal_heap s)(a \<mapsto> j)\<rparr>) \<Longrightarrow>
      label = 0 \<and> (\<exists>b. j = i\<lparr>si_gpio_cs := Some b, si_use_hw_cs := True\<rparr>) \<or> label = 1 \<and> si_gpio_cs j = None \<or>
        label = 2 \<and> si_gpio_cs j \<noteq> None \<Longrightarrow> si_id j = si_id i \<Longrightarrow>
      Q label (s\<lparr>sp_gpio := g, hal_heap := (hal_heap s)(a \<mapsto> j)\<rparr>)"
  shows "swp (spi_setup_cs gos a cs_pin active_low) Q E s"
proof -
  let ?A = "ran (gpio_refs (hal_heap s)) \<union> C"
  have triv: "s\<lparr>sp_gpio := g, hal_heap := (hal_heap s)(a \<mapsto> i)\<rparr> = s\<lparr>sp_gpio := g\<rparr>" for g
    using i(1) by (simp add: map_upd_triv)
  have mode: "swp (scatch (sgpio (drv_gpio_mode_set gos (Some b) GPIO_DM_OUTPUT))
        (\<lambda>_. sbind (signore (sgpio (drv_gpio_value_set gos (Some b) v))) (\<lambda>_.
             sbind (hset a (\<lambda>i. i\<lparr>si_use_hw_cs := True\<rparr>)) (\<lambda>_. sret 0))) (\<lambda>_. sret 2)) Q E t"
    if t: "t = s\<lparr>sp_gpio := g, hal_heap := (hal_heap s)(a \<mapsto> i\<lparr>si_gpio_cs := Some b\<rparr>)\<rparr>" and mk': "spi_making C X a t" for b v g t
  proof -
    have h: "hal_heap t a = Some (i\<lparr>si_gpio_cs := Some b\<rparr>)" using t by simp
    then have b: "b \<in> ran (gpio_refs (hal_heap t)) \<union> C"
      using mk' by (intro spi_gpio_live [OF _ h]) (auto simp: spi_making_def)
    have ready: "Q 0 (t\<lparr>sp_gpio := g2, hal_heap := (hal_heap t)(a \<mapsto> i\<lparr>si_gpio_cs := Some b, si_use_hw_cs := True\<rparr>)\<rparr>)"
      if m: "spi_making C X a (t\<lparr>sp_gpio := g2\<rparr>)" for g2
    proof -
      let ?j = "i\<lparr>si_gpio_cs := Some b, si_use_hw_cs := True\<rparr>"
      have "spi_making C X a (s\<lparr>sp_gpio := g2, hal_heap := (hal_heap s)(a \<mapsto> ?j)\<rparr>)"
        using making_set [OF m, of "i\<lparr>si_gpio_cs := Some b\<rparr>" ?j] h t by simp
      then have "Q 0 (s\<lparr>sp_gpio := g2, hal_heap := (hal_heap s)(a \<mapsto> ?j)\<rparr>)" by (rule post) (blast, simp)
      then show ?thesis using t by simp
    qed
    show ?thesis unfolding swp_simps
    proof (rule making_gpio [OF mk' keeps_mode_set [OF b]], goal_cases)
      case (1 x g1)
      show ?case
        by (rule making_gpio [OF 1], use b in \<open>simp add: keeps_value_set\<close>)
          (use h in \<open>simp add: swp_def hset_def sret_def ready\<close>)+
    next
      case (2 e g1)
      then show ?case using post [where g = g1 and j = "i\<lparr>si_gpio_cs := Some b\<rparr>" and label = 2] t by (simp add: heap_gpio_upd)
    qed
  qed
  show ?thesis unfolding spi_setup_cs_def swp_simps case_prod_unfold
  proof (rule making_gpio [OF mk keeps_gpio_set_pin_func], goal_cases)
    case (1 x g)
    let ?s = "s\<lparr>sp_gpio := g\<rparr>"
    obtain r g2 where c: "drv_gpio_inst_create gos cs_pin None g = (r, g2)" by (metis surj_pair)
    have R: "spi_R C {a} ?s" using 1 by (simp add: spi_making_def)
    have "ginv ?A 0 g" using spi_ginv [OF R] by simp
    from ginv_create_new [OF c this]
    consider b where "r = Ret (Ret (), Some b)" "b \<notin> ?A" "ginv (insert b ?A) 0 g2" | e where "r = Ret (Fail e, None)" "ginv ?A 0 g2"
      by blast
    then show ?case
    proof cases
      case (1 b)
      let ?t = "s\<lparr>sp_gpio := g2, hal_heap := (hal_heap s)(a \<mapsto> i\<lparr>si_gpio_cs := Some b\<rparr>)\<rparr>"
      have "spi_R C {a} ?t" using spi_R_take_gpio [OF R, of a i b g2] i 1 by simp
      moreover have "hal_inv si_fd X {a} ?t"
        using hal_inv_set_gone [of si_fd X "{a}" s a i "i\<lparr>si_gpio_cs := Some b\<rparr>"] mk i
        by (simp add: spi_making_def heap_gpio_upd [symmetric])
      ultimately have "spi_making C X a ?t" using mk by (simp add: spi_making_def)
      note ready = mode [OF refl this]
      have "sgpio (drv_gpio_inst_create gos cs_pin None) ?s = (Ret (Ret (), Some b), s\<lparr>sp_gpio := g2\<rparr>)"
        using c 1(1) by (simp add: sgpio_def)
      then show ?thesis
      proof (rule swp_eqI, goal_cases)
        case 1
        show ?case unfolding fst_conv snd_conv
          by (rule hset_eqI [where i = i]) (use i ready in \<open>simp_all add: if_not_P\<close>)
      qed
    next
      case (2 e)
      have "spi_making C X a (s\<lparr>sp_gpio := g2\<rparr>)"
        using mk spi_R_gpio [of C "{a}" s g2] 2(2) by (simp add: spi_making_def)
      then have "Q 1 (s\<lparr>sp_gpio := g2, hal_heap := (hal_heap s)(a \<mapsto> i)\<rparr>)" by (intro post) (simp_all add: triv i(2))
      moreover have "i\<lparr>si_gpio_cs := None\<rparr> = i" using i(2) by (cases i) simp
      ultimately have Q: "Q 1 (s\<lparr>sp_gpio := g2, hal_heap := (hal_heap s)(a \<mapsto> i\<lparr>si_gpio_cs := None\<rparr>)\<rparr>)" by presburger
      have "sgpio (drv_gpio_inst_create gos cs_pin None) ?s = (Ret (Fail e, None), s\<lparr>sp_gpio := g2\<rparr>)"
        using c 2(1) by (simp add: sgpio_def)
      then show ?thesis
      proof (rule swp_eqI, goal_cases)
        case 1
        show ?case unfolding fst_conv snd_conv
          by (rule hset_eqI [where i = i]) (use i Q in simp_all)
      qed
    qed
  next
    case (2 e g)
    then show ?case using post [where g = g and j = i and label = 1] triv [of g] i(2) by simp
  qed
qed

text \<open>What creating and destroying leave alone: who configured the buses, and how, and what was sent.\<close>

definition spi_same :: "('d, 'e) spi \<Rightarrow> ('d, 'e) spi \<Rightarrow> bool" where
  "spi_same s s' \<longleftrightarrow> sp_handle s' = sp_handle s \<and> sp_bus s' = sp_bus s \<and> sp_log s' = sp_log s"

lemma spi_same_trans: "spi_same s s' \<Longrightarrow> spi_same s' s'' \<Longrightarrow> spi_same s s''"
  by (simp add: spi_same_def)

lemma hinst_eqI: "hal_heap s a = Some i \<Longrightarrow> Q i s \<Longrightarrow> swp (hinst a) Q E s"
  by (simp add: swp_def hinst_def)

lemma hfree_eqI: "hal_heap s a = Some i \<Longrightarrow> Q () (s\<lparr>hal_heap := (hal_heap s)(a := None)\<rparr>) \<Longrightarrow> swp (hfree a) Q E s"
  by (simp add: swp_def hfree_def)

lemma swp_gpio_destroy:
  assumes R: "spi_R C Z s" and i: "hal_heap s a = Some i" "a \<in> Z" "si_gpio_cs i = Some b"
    and post: "\<And>g. spi_R C Z (s\<lparr>sp_gpio := g, hal_heap := (hal_heap s)(a \<mapsto> i\<lparr>si_gpio_cs := None\<rparr>)\<rparr>) \<Longrightarrow> Q None (s\<lparr>sp_gpio := g\<rparr>)"
  shows "swp (sgpio (drv_gpio_inst_destroy gos (si_gpio_cs i))) Q E s"
proof -
  obtain r g where d: "drv_gpio_inst_destroy gos (Some b) (sp_gpio s) = (r, g)" by (metis surj_pair)
  have "b \<in> ran (gpio_refs (hal_heap s)) \<union> C" using R i(1,3) by (rule spi_gpio_live)
  from ginv_destroy [OF d spi_ginv [OF R] this]
  have r: "r = Ret None" "ginv ((ran (gpio_refs (hal_heap s)) \<union> C) - {b}) 0 g" by auto
  have "Q None (s\<lparr>sp_gpio := g\<rparr>)" by (rule post) (rule spi_R_give_gpio [OF R i r(2)])
  then show ?thesis using d r(1) i(3) by (simp add: swp_def sgpio_def)
qed

text \<open>Freeing an instance that has given its GPIO instance and its descriptor back.\<close>

lemma swp_spi_free:
  assumes inv: "hal_inv si_fd {} {a} s" and R: "spi_R C {a} s" and i: "hal_heap s a = Some i" "si_gpio_cs i = None"
    and post: "\<And>s'. spi_st C s' \<Longrightarrow> hal_heap s' = (hal_heap s)(a := None) \<Longrightarrow> spi_same s s' \<Longrightarrow> Q () s'"
  shows "swp (hfree a) Q E s"
  using i(1)
proof (rule hfree_eqI, intro post conjI)
  show "hal_inv si_fd {} {} (s\<lparr>hal_heap := (hal_heap s)(a := None)\<rparr>)" using hal_inv_free [OF inv, of a] by simp
  show "spi_R C {} (s\<lparr>hal_heap := (hal_heap s)(a := None)\<rparr>)"
    using i by (intro spi_R_drop [OF R]) (simp add: gpio_refs_def)
qed (simp_all add: spi_same_def)

lemma unwind_inv:
  assumes mk: "spi_making C X a s" and i: "hal_heap s a = Some i" and X: "X = (if 3 \<le> label then {si_fd i} else {})"
    and g: "si_gpio_cs i \<noteq> None \<longleftrightarrow> 2 \<le> label \<and> cs_pin \<noteq> -1"
    and post: "\<And>s'. spi_st C s' \<Longrightarrow> hal_heap s' = (hal_heap s)(a := None) \<Longrightarrow> spi_same s s' \<Longrightarrow> Q (ret, None) s'"
  shows "swp (spi_unwind os gos a cs_pin label ret) Q E s"
proof -
  have rest: "swp (if 2 \<le> label \<and> cs_pin \<noteq> -1
      then sbind (hinst a) (\<lambda>i. sbind (sgpio (drv_gpio_inst_destroy gos (si_gpio_cs i))) (\<lambda>q. hset a (\<lambda>i. i\<lparr>si_gpio_cs := q\<rparr>)))
      else sret ()) (\<lambda>_. swp (hfree a) (\<lambda>_. Q (ret, None)) E) E t"
    if t: "hal_inv si_fd {} {a} t" "spi_R C {a} t" "hal_heap t = hal_heap s" "spi_same s t" for t
  proof (cases "2 \<le> label \<and> cs_pin \<noteq> -1")
    case True
    then obtain b where b: "si_gpio_cs i = Some b" using g by blast
    have h: "hal_heap t a = Some i" using i t(3) by simp
    have "swp (hinst a) (\<lambda>i. swp (sgpio (drv_gpio_inst_destroy gos (si_gpio_cs i)))
        (\<lambda>q. swp (hset a (\<lambda>i. i\<lparr>si_gpio_cs := q\<rparr>)) (\<lambda>_. swp (hfree a) (\<lambda>_. Q (ret, None)) E) E) E) E t"
    proof (rule hinst_eqI [OF h], rule swp_gpio_destroy [OF t(2) h _ b], goal_cases)
      case (2 g1)
      let ?t = "t\<lparr>sp_gpio := g1, hal_heap := (hal_heap t)(a \<mapsto> i\<lparr>si_gpio_cs := None\<rparr>)\<rparr>"
      have inv: "hal_inv si_fd {} {a} ?t"
        using hal_inv_set_gone [OF t(1) h, of "i\<lparr>si_gpio_cs := None\<rparr>"] by (simp add: heap_gpio_upd [symmetric])
      have "swp (hfree a) (\<lambda>_. Q (ret, None)) E ?t"
      proof (rule swp_spi_free [OF inv 2, where i = "i\<lparr>si_gpio_cs := None\<rparr>"], goal_cases)
        case (3 s')
        then show ?case using t(3,4) by (intro post) (auto simp: spi_same_def)
      qed simp_all
      then show ?case by (intro hset_eqI [where i = i]) (use h in simp_all)
    qed simp
    then show ?thesis using True by simp
  next
    case False
    have "swp (hfree a) (\<lambda>_. Q (ret, None)) E t"
    proof (rule swp_spi_free [OF t(1,2), of i], goal_cases)
      case (3 s')
      then show ?case using t(3,4) by (intro post) (auto simp: spi_same_def)
    qed (use i t(3) g False in auto)
    then show ?thesis unfolding if_not_P [OF False] swp_simps .
  qed
  show ?thesis unfolding spi_unwind_def swp_simps
  proof (cases "3 \<le> label")
    case True
    have "hal_inv si_fd {} {a} (s\<lparr>hal_fds := hal_fds s - {si_fd i}\<rparr>)"
      using hal_inv_close [of si_fd X "{a}" s "si_fd i"] mk X True by (simp add: spi_making_def)
    then have "hal_inv si_fd {} {a} (s\<lparr>hal_dev := os_close os (si_fd i) (hal_dev s), hal_fds := hal_fds s - {si_fd i}\<rparr>)"
      by (simp add: hal_inv_def)
    moreover have "spi_R C {a} (s\<lparr>hal_dev := os_close os (si_fd i) (hal_dev s), hal_fds := hal_fds s - {si_fd i}\<rparr>)"
      using mk by (simp add: spi_making_def)
    ultimately show "swp (if 3 \<le> label then sbind (hinst a) (\<lambda>i. hclose os (si_fd i)) else sret ()) (\<lambda>_. swp (if 2 \<le> label \<and> cs_pin \<noteq> - 1
        then sbind (hinst a) (\<lambda>i. sbind (sgpio (drv_gpio_inst_destroy gos (si_gpio_cs i))) (\<lambda>q. hset a (\<lambda>i. i\<lparr>si_gpio_cs := q\<rparr>)))
        else sret ()) (\<lambda>_. swp (hfree a) (\<lambda>_. Q (ret, None)) E) E) E s"
      unfolding if_P [OF True] swp_simps hclose_def by (intro hinst_eqI [OF i] rest) (simp_all add: spi_same_def)
  next
    case False
    then show "swp (if 3 \<le> label then sbind (hinst a) (\<lambda>i. hclose os (si_fd i)) else sret ()) (\<lambda>_. swp (if 2 \<le> label \<and> cs_pin \<noteq> - 1
        then sbind (hinst a) (\<lambda>i. sbind (sgpio (drv_gpio_inst_destroy gos (si_gpio_cs i))) (\<lambda>q. hset a (\<lambda>i. i\<lparr>si_gpio_cs := q\<rparr>)))
        else sret ()) (\<lambda>_. swp (hfree a) (\<lambda>_. Q (ret, None)) E) E) E s"
      unfolding if_not_P [OF False] swp_simps using mk X by (intro rest) (simp_all add: spi_making_def spi_same_def)
  qed
qed

lemma spi_destroy_inv:
  assumes s: "spi_st C s" and p: "live_ptr s inst"
    and post: "\<And>s'. spi_st C s' \<Longrightarrow> hal_heap s' = (case inst of None \<Rightarrow> hal_heap s | Some a \<Rightarrow> (hal_heap s)(a := None)) \<Longrightarrow>
      spi_same s s' \<Longrightarrow> Q None s'"
  shows "swp (drv_spi_inst_destroy os gos inst) Q E s"
proof (cases inst)
  case (Some a)
  then obtain i where i: "hal_heap s a = Some i" using p by (auto simp: live_ptr_def)
  have R: "spi_R C {a} s" using s spi_R_mono [of C "{}" s "{a}"] by simp
  have fd: "0 \<le> si_fd i"
    using s i ranI [of "owns si_fd {} (hal_heap s)" a "si_fd i"] by (auto simp: hal_inv_def owns_def)
  have free: "swp (if 0 \<le> si_fd i then hclose os (si_fd i) else sret ()) (\<lambda>_. swp (hfree a) (\<lambda>_. Q None) E) E t"
    if t: "hal_inv si_fd {} {} t" "spi_R C {a} t" "hal_heap t = (hal_heap s)(a \<mapsto> j)" "spi_same s t" "si_gpio_cs j = None" "si_fd j = si_fd i"
    for t j
  proof -
    let ?t = "t\<lparr>hal_dev := os_close os (si_fd i) (hal_dev t), hal_fds := hal_fds t - {si_fd i}\<rparr>"
    have "hal_inv si_fd {} {a} (t\<lparr>hal_fds := hal_fds t - {si_fd j}\<rparr>)"
      by (rule hal_inv_give_up [OF t(1)]) (simp_all add: t(3))
    then have inv: "hal_inv si_fd {} {a} ?t" using t(6) by (simp add: hal_inv_def)
    have "swp (hfree a) (\<lambda>_. Q None) E ?t"
    proof (rule swp_spi_free [OF inv, where C = C and i = j], goal_cases)
      case (4 s')
      then show ?case using t(3,4) Some by (intro post) (auto simp: spi_same_def)
    qed (use t in simp_all)
    then show ?thesis using fd by (simp add: hclose_def)
  qed
  show ?thesis unfolding drv_spi_inst_destroy_def Some option.case swp_simps
  proof (rule hinst_eqI [OF i], cases "si_gpio_cs i")
    case None
    have "(hal_heap s)(a \<mapsto> i) = hal_heap s" using i by (rule map_upd_triv)
    then have "swp (if 0 \<le> si_fd i then hclose os (si_fd i) else sret ()) (\<lambda>_. swp (hfree a) (\<lambda>_. Q None) E) E s"
      using s R None by (intro free [where j = i]) (simp_all add: spi_same_def)
    then show "swp (if si_gpio_cs i \<noteq> None
        then sbind (sgpio (drv_gpio_inst_destroy gos (si_gpio_cs i))) (\<lambda>_. hset a (\<lambda>i. i\<lparr>si_gpio_cs := None\<rparr>)) else sret ())
        (\<lambda>_. swp (if 0 \<le> si_fd i then hclose os (si_fd i) else sret ()) (\<lambda>_. swp (hfree a) (\<lambda>_. Q None) E) E) E s"
      using None by simp
  next
    case (Some b)
    have "swp (sgpio (drv_gpio_inst_destroy gos (si_gpio_cs i))) (\<lambda>_. swp (hset a (\<lambda>i. i\<lparr>si_gpio_cs := None\<rparr>))
        (\<lambda>_. swp (if 0 \<le> si_fd i then hclose os (si_fd i) else sret ()) (\<lambda>_. swp (hfree a) (\<lambda>_. Q None) E) E) E) E s"
    proof (rule swp_gpio_destroy [OF R i _ Some], goal_cases)
      case (2 g)
      let ?t = "s\<lparr>sp_gpio := g, hal_heap := (hal_heap s)(a \<mapsto> i\<lparr>si_gpio_cs := None\<rparr>)\<rparr>"
      have "hal_inv si_fd {} {} ?t"
        using hal_inv_set [of si_fd "{}" "{}" s a i "i\<lparr>si_gpio_cs := None\<rparr>"] s i by (simp add: heap_gpio_upd [symmetric])
      then have "swp (if 0 \<le> si_fd i then hclose os (si_fd i) else sret ()) (\<lambda>_. swp (hfree a) (\<lambda>_. Q None) E) E ?t"
        using 2 by (intro free [where j = "i\<lparr>si_gpio_cs := None\<rparr>"]) (simp_all add: spi_same_def)
      then show ?case by (intro hset_eqI [where i = i]) (use i in simp_all)
    qed simp
    then show "swp (if si_gpio_cs i \<noteq> None
        then sbind (sgpio (drv_gpio_inst_destroy gos (si_gpio_cs i))) (\<lambda>_. hset a (\<lambda>i. i\<lparr>si_gpio_cs := None\<rparr>)) else sret ())
        (\<lambda>_. swp (if 0 \<le> si_fd i then hclose os (si_fd i) else sret ()) (\<lambda>_. swp (hfree a) (\<lambda>_. Q None) E) E) E s"
      using Some by simp
  qed
qed (use s post in \<open>simp add: drv_spi_inst_destroy_def spi_same_def\<close>)

lemma swp_ctrl_config:
  assumes "\<And>r d. r \<noteq> 0 \<Longrightarrow> Q r (s\<lparr>hal_dev := d\<rparr>)"
    and "\<And>d. Q 0 (s\<lparr>hal_dev := d, sp_bus := (sp_bus s)(sp_path s fd \<mapsto> cfg)\<rparr>)"
  shows "swp (spi_ctrl_config os fd cfg) Q E s"
proof -
  obtain r d where c: "so_config os fd cfg (hal_dev s) = (r, d)" by fastforce
  show ?thesis
  proof (cases "r = 0")
    case False
    have "s\<lparr>hal_dev := d, sp_bus := sp_bus s\<rparr> = s\<lparr>hal_dev := d\<rparr>" by (cases s) simp
    then show ?thesis using c False assms(1) [OF False, of d] by (simp add: swp_def spi_ctrl_config_def)
  qed (use c assms(2) [of d] in \<open>simp add: swp_def spi_ctrl_config_def\<close>)
qed

lemma swp_g_handle: "unat n < length (sp_handle s) \<Longrightarrow> Q (sp_handle s ! unat n) s \<Longrightarrow> swp (g_handle n) Q E s"
  by (simp add: swp_def g_handle_def)

lemma swp_set_g_handle:
  "unat n < length (sp_handle s) \<Longrightarrow> Q () (s\<lparr>sp_handle := (sp_handle s)[unat n := h]\<rparr>) \<Longrightarrow> swp (set_g_handle n h) Q E s"
  by (simp add: swp_def set_g_handle_def)

lemma spi_R_path:
  assumes "spi_R C Z s" and "\<And>b j. b \<notin> Z \<Longrightarrow> hal_heap s b = Some j \<Longrightarrow> si_fd j \<noteq> fd"
  shows "spi_R C Z (s\<lparr>sp_path := (sp_path s)(fd := q)\<rparr>)"
  using assms by (auto simp: spi_R_def spi_ready_def)

lemma idx_less: "w \<noteq> -1 \<Longrightarrow> w < w + 1" for w :: u64
proof -
  assume "w \<noteq> -1"
  then have "unat w \<noteq> unat (-1 :: u64)" by (simp only: word_unat_eq_iff not_False_eq_True)
  then have "unat w + 1 < 2 ^ 64"
    using unsigned_less [of w, where 'a = nat] by (simp add: unsigned_minus_1_eq_mask mask_eq_exp_minus_1)
  then show ?thesis by (simp add: word_less_nat_alt unat_word_ariths)
qed

lemma spi_R_idx: "spi_R C Z s \<Longrightarrow> sp_idx s \<noteq> -1 \<Longrightarrow> spi_R C Z (s\<lparr>sp_idx := sp_idx s + 1\<rparr>)"
  using idx_less [of "sp_idx s"] by (auto simp: spi_R_def spi_ready_def intro: order.strict_trans)

lemma owned_fd:
  assumes "hal_inv fd_of X Y s" and "b \<notin> Y" and "hal_heap s b = Some j"
  shows "0 \<le> fd_of j" and "fd_of j \<notin> X"
proof -
  have "fd_of j \<in> ran (owns fd_of Y (hal_heap s))"
    using assms(2,3) by (intro ranI [where a = b]) (simp add: owns_def)
  then show "0 \<le> fd_of j" "fd_of j \<notin> X" using assms(1) by (auto simp: hal_inv_def)
qed

lemma spi_more:
  fixes s s' :: "('d, 'e) spi"
  assumes "hal.more s' = hal.more s"
  shows "sp_handle s' = sp_handle s" "sp_bus s' = sp_bus s" "sp_log s' = sp_log s" "sp_idx s' = sp_idx s" "sp_path s' = sp_path s"
    "sp_gpio s' = sp_gpio s"
  using assms by (cases s; cases s'; simp)+

lemma register_inv:
  assumes mk: "spi_making C {fd} a s" and i: "hal_heap s a = Some i" "si_fd i = fd" and idx: "sp_idx s \<noteq> -1"
    and path: "sp_path s fd = spi_dev (unat (si_id i))"
    and ok: "\<And>h. spi_inst_ok (i\<lparr>si_handle_id := h\<rparr>)" and cs: "si_cs_pin i = cs_pin" "\<not> si_cs_active i"
    and bad: "\<And>r s'. r \<noteq> 0 \<Longrightarrow> spi_st C s' \<Longrightarrow> hal_heap s' = (hal_heap s)(a := None) \<Longrightarrow> spi_same s s' \<Longrightarrow> Q (r, None) s'"
    and good: "\<And>h s'. spi_st C s' \<Longrightarrow> hal_heap s' = (hal_heap s)(a \<mapsto> i\<lparr>si_handle_id := h\<rparr>) \<Longrightarrow> sp_log s' = sp_log s \<Longrightarrow>
      Q (0, Some a) s'"
  shows "swp (spi_register os gos a fd cs_pin) Q E s"
proof -
  let ?h = "sp_idx s"
  let ?i = "i\<lparr>si_handle_id := ?h\<rparr>" and ?s0 = "s\<lparr>sp_idx := ?h + 1\<rparr>"
  let ?t = "?s0\<lparr>hal_heap := (hal_heap s)(a \<mapsto> ?i)\<rparr>"
  have inv: "hal_inv si_fd {fd} {a} s" "spi_R C {a} s" "\<forall>e \<in> set (sp_log s). ss_inst e \<noteq> a" using mk by (simp_all add: spi_making_def)
  have "spi_making C {fd} a ?s0" using inv spi_R_idx [OF inv(2) idx] by (simp add: spi_making_def)
  then have mk1: "spi_making C {fd} a ?t" using making_set [of C "{fd}" a ?s0 i ?i] i by simp
  have gpio: "si_gpio_cs ?i \<noteq> None \<longleftrightarrow> cs_pin \<noteq> -1" and n: "unat (si_id i) < 3"
    using ok [of ?h] cs(1) by (simp_all add: spi_inst_ok_def)
  have older: "si_handle_id j < ?h" if "b \<noteq> a" "hal_heap s b = Some j" for b j
    using that inv(2) by (auto simp: spi_R_def spi_ready_def)
  have len: "length (sp_handle s) = 3" using inv(2) by (simp add: spi_R_def)
  show ?thesis unfolding spi_register_def swp_simps
  proof (rule hset_eqI [where i = i], use i in simp, rule hinst_eqI [where i = ?i], simp, simp, rule swp_ctrl_config, goal_cases)
    case (1 r d)
    let ?u = "?s0\<lparr>hal_heap := (hal_heap s)(a \<mapsto> ?i), hal_dev := d\<rparr>"
    have "spi_making C {fd} a ?u" using mk1 by (simp add: spi_making_def)
    then have "swp (spi_unwind os gos a cs_pin 3 r) Q E ?u"
    proof (rule unwind_inv [where i = ?i], goal_cases)
      case (4 s')
      then show ?case using 1 by (intro bad) (auto simp: spi_same_def)
    qed (use i gpio in simp_all)
    then show ?case using 1 by simp
  next
    case (2 d)
    let ?b = "?s0\<lparr>hal_heap := (hal_heap s)(a \<mapsto> ?i), hal_dev := d\<rparr>"
    let ?u = "?b\<lparr>sp_bus := (sp_bus s)(spi_dev (unat (si_id i)) \<mapsto> spi_configuration (pin_cs cs_pin) ?i), sp_handle := (sp_handle s)[unat (si_id i) := ?h]\<rparr>"
    have "spi_R C {a} ?b" using mk1 by (simp add: spi_making_def)
    moreover have "spi_agrees (spi_configuration (pin_cs cs_pin) ?i) j"
      if "b \<notin> {a}" "hal_heap ?b b = Some j" "si_handle_id j = ?h" for b j using older [of b j] that by simp
    ultimately have R: "spi_R C {a} ?u"
      using spi_R_configured [of C "{a}" ?b "si_id i" ?h "spi_configuration (pin_cs cs_pin) ?i"] n by simp
    have "spi_R C {} ?u"
    proof (rule spi_R_ready [OF R])
      have "?h < ?h + 1" using idx by (rule idx_less)
      then show "spi_ready ?u a ?i"
        using ok [of ?h] n len path i(2) cs inv(3) by (simp add: spi_ready_def spi_agrees_def spi_msgs_fresh cs_state_def cs_held_def)
    qed (use older in \<open>force+\<close>)
    moreover have "hal_inv si_fd {} {} ?u"
      using hal_inv_adopt [of si_fd "{fd}" "{a}" ?t a ?i] mk1 i(2) by (simp add: spi_making_def hal_inv_def)
    ultimately show ?case using n len path by (auto intro!: swp_set_g_handle good)
  qed
qed

lemma spi_path_short: "0 \<le> n \<Longrightarrow> n < 3 \<Longrightarrow> take 31 (spi_dev (nat n)) = spi_dev (unat (of_int n :: u8))"
proof -
  assume "0 \<le> n" "n < 3"
  then have "n = 0 \<or> n = 1 \<or> n = 2" by auto
  then show ?thesis by (elim disjE) (simp_all add: spi_dev_def digit_def)
qed

lemma attach_inv:
  assumes os: "os_files_ok os" and mk: "spi_making C {} a s" and i: "hal_heap s a = Some i" and idx: "sp_idx s \<noteq> -1"
    and spi_id: "0 \<le> spi_id" "spi_id < 3" "si_id i = of_int spi_id"
    and ok: "\<And>fd h. spi_inst_ok (i\<lparr>si_fd := fd, si_handle_id := h\<rparr>)" and cs: "si_cs_pin i = cs_pin" "\<not> si_cs_active i"
    and bad: "\<And>r s'. r \<noteq> 0 \<Longrightarrow> spi_st C s' \<Longrightarrow> hal_heap s' = (hal_heap s)(a := None) \<Longrightarrow> spi_same s s' \<Longrightarrow> Q (r, None) s'"
    and good: "\<And>fd h s'. spi_st C s' \<Longrightarrow> hal_heap s' = (hal_heap s)(a \<mapsto> i\<lparr>si_fd := fd, si_handle_id := h\<rparr>) \<Longrightarrow> sp_log s' = sp_log s \<Longrightarrow>
      Q (0, Some a) s'"
  shows "swp (spi_attach os gos a spi_id cs_pin) Q E s"
proof -
  have gpio: "si_gpio_cs i \<noteq> None \<longleftrightarrow> cs_pin \<noteq> -1" using ok [of 0 0] cs(1) by (simp add: spi_inst_ok_def)
  have path: "take 31 (spi_dev (nat spi_id)) = spi_dev (unat (si_id i))" using spi_path_short spi_id by simp
  have inv: "hal_inv si_fd {} {a} s" "spi_R C {a} s" "\<forall>e \<in> set (sp_log s). ss_inst e \<noteq> a" using mk by (simp_all add: spi_making_def)
  let ?name = "spi_dev (unat (si_id i))"
  have opened: "swp (hset a (\<lambda>i. i\<lparr>si_fd := fd\<rparr>)) (\<lambda>_. swp (if fd < 0 then spi_unwind os gos a cs_pin 2 (- 1)
      else spi_register os gos a fd cs_pin) Q E) E (s1\<lparr>sp_path := (sp_path s1)(fd := ?name)\<rparr>)"
    if s1: "hal_inv si_fd X {a} s1" "same_inst s s1" and X: "fd < 0 \<and> X = {} \<or> 0 \<le> fd \<and> X = {fd}" for X fd s1
  proof -
    let ?s2 = "s1\<lparr>sp_path := (sp_path s1)(fd := ?name)\<rparr>"
    have h: "hal_heap s1 = hal_heap s" and more: "sp_handle s1 = sp_handle s" "sp_bus s1 = sp_bus s" "sp_log s1 = sp_log s" "sp_idx s1 = sp_idx s"
      using s1(2) spi_more [of s1 s] by (simp_all add: same_inst_def)
    have "spi_R C {a} ?s2"
    proof (rule spi_R_path)
      show "spi_R C {a} s1" using inv(2) s1(2) by (simp add: spi_R_same)
      show "si_fd j \<noteq> fd" if "b \<notin> {a}" "hal_heap s1 b = Some j" for b j using owned_fd [OF s1(1) that] X by auto
    qed
    then have "spi_making C X a ?s2" using s1(1) more inv(3) by (simp add: spi_making_def)
    note mk1 = making_set [OF this, of i "i\<lparr>si_fd := fd\<rparr>"]
    let ?t = "?s2\<lparr>hal_heap := (hal_heap ?s2)(a \<mapsto> i\<lparr>si_fd := fd\<rparr>)\<rparr>"
    have mk1: "spi_making C X a ?t" using mk1 i h by simp
    have ht: "hal_heap ?t a = Some (i\<lparr>si_fd := fd\<rparr>)" by simp
    have "swp (if fd < 0 then spi_unwind os gos a cs_pin 2 (- 1) else spi_register os gos a fd cs_pin) Q E ?t"
    proof (rule swp_ifI)
      assume "fd < 0"
      then have "X = {}" using X by auto
      show "swp (spi_unwind os gos a cs_pin 2 (- 1)) Q E ?t"
      proof (rule unwind_inv [OF mk1 ht], goal_cases)
        case (3 s')
        then show ?case using h more by (intro bad) (auto simp: spi_same_def)
      qed (use \<open>X = {}\<close> gpio in simp_all)
    next
      assume "\<not> fd < 0"
      then have "X = {fd}" using X by auto
      with mk1 have mk2: "spi_making C {fd} a ?t" by simp
      show "swp (spi_register os gos a fd cs_pin) Q E ?t"
      proof (rule register_inv [OF mk2 ht], goal_cases)
        case (7 r s')
        then show ?case using h more by (intro bad) (auto simp: spi_same_def)
      next
        case (8 n s')
        then show ?case using h more by (intro good [where fd = fd and h = n]) simp_all
      qed (use idx more ok [where fd = fd] cs in simp_all)
    qed
    then show ?thesis using i h by (intro hset_eqI [where i = i]) simp_all
  qed
  show ?thesis unfolding spi_attach_def spi_open_def swp_simps path
  proof (rule swp_hopen [OF os inv(1)], goal_cases)
    case (1 fd s1)
    then show ?case by (intro opened [where X = "{}"]) auto
  next
    case (2 fd s1)
    then show ?case by (intro opened [where X = "{fd}"]) auto
  qed
qed

text \<open>The instance a successful creation makes, but for its descriptor, its number and the address of its GPIO instance.\<close>

definition spi_made :: "int \<Rightarrow> bool \<Rightarrow> int \<Rightarrow> u32 \<Rightarrow> u8 \<Rightarrow> int \<Rightarrow> u8 \<Rightarrow> drv_spi_inst \<Rightarrow> bool" where
  "spi_made spi_id active_low mode baudrate data_bits cs_pin data_line i \<longleftrightarrow>
     si_id i = of_int spi_id \<and> si_mode i = (if cs_pin \<noteq> -1 \<and> \<not> active_low then of_int mode OR SPI_CS_ACTIVE_HIGH else of_int mode) \<and>
     si_baudrate i = baudrate \<and> si_data_bits i = data_bits \<and> si_cs_pin i = cs_pin \<and> si_data_line i = data_line \<and>
     \<not> si_cs_active i \<and> (si_use_hw_cs i \<longleftrightarrow> cs_pin \<noteq> -1)"

lemma spi_args_mode:
  assumes "spi_args_ok spi_id mode baudrate data_bits cs_pin data_line"
  shows "(if b then of_int mode OR SPI_CS_ACTIVE_HIGH else of_int mode) \<in> ({0, 1, 2, 3, 16, 17, 18, 19} :: u8 set)"
proof -
  have "mode = 0 \<or> mode = 1 \<or> mode = 2 \<or> mode = 3" using assms by (auto simp: spi_args_ok_def)
  then show ?thesis by (auto simp: SPI_CS_ACTIVE_HIGH_def)
qed

lemma spi_made_ok:
  assumes "spi_args_ok spi_id mode baudrate data_bits cs_pin data_line"
    and "spi_made spi_id active_low mode baudrate data_bits cs_pin data_line i" and "si_gpio_cs i \<noteq> None \<longleftrightarrow> cs_pin \<noteq> -1"
  shows "spi_inst_ok (i\<lparr>si_fd := fd, si_handle_id := h\<rparr>)"
proof -
  have "spi_id = 0 \<or> spi_id = 1 \<or> spi_id = 2" using assms(1) by (auto simp: spi_args_ok_def SPI_HAL_MAX_DEVICES_def)
  then have "unat (of_int spi_id :: u8) < 3" by auto
  moreover have "data_line = 8 \<Longrightarrow> spi_id = 0" "data_line \<in> {1, 2, 4, 8}" "4 \<le> data_bits" "data_bits \<le> 32" "baudrate \<noteq> 0"
    "cs_pin = -1 \<or> 0 \<le> cs_pin \<and> cs_pin \<le> 63"
    using assms(1) by (auto simp: spi_args_ok_def not_less)
  ultimately show ?thesis using assms(2,3) spi_args_mode [OF assms(1)] by (auto simp: spi_inst_ok_def spi_made_def)
qed

text \<open>The end of a creation, after the chip select has been set up or not.\<close>

lemma finish_create_inv:
  assumes os: "os_files_ok os" and mk: "spi_making C {} a t" and ht: "hal_heap t a = Some j" and idx: "sp_idx t \<noteq> -1"
    and args: "spi_args_ok spi_id mode baudrate data_bits cs_pin data_line" and id: "si_id j = of_int spi_id"
    and j: "label = 0 \<and> (si_gpio_cs j \<noteq> None \<longleftrightarrow> cs_pin \<noteq> -1) \<and> (si_use_hw_cs j \<longleftrightarrow> cs_pin \<noteq> -1) \<or>
      label = 1 \<and> si_gpio_cs j = None \<or> label = 2 \<and> cs_pin \<noteq> -1 \<and> si_gpio_cs j \<noteq> None"
    and m: "m = (if cs_pin \<noteq> -1 \<and> \<not> active_low then of_int mode OR SPI_CS_ACTIVE_HIGH else of_int mode)"
    and bad: "\<And>r s'. r \<noteq> 0 \<Longrightarrow> spi_st C s' \<Longrightarrow> hal_heap s' = (hal_heap t)(a := None) \<Longrightarrow> spi_same t s' \<Longrightarrow> Q (r, None) s'"
    and good: "\<And>i s'. spi_st C s' \<Longrightarrow> hal_heap s' = (hal_heap t)(a \<mapsto> i) \<Longrightarrow>
      spi_made spi_id active_low mode baudrate data_bits cs_pin data_line i \<Longrightarrow> sp_log s' = sp_log t \<Longrightarrow> Q (0, Some a) s'"
  shows "swp (if label \<noteq> 0 then spi_unwind os gos a cs_pin label (- 1)
    else sbind (hset a (spi_params m baudrate data_bits cs_pin data_line)) (\<lambda>_. spi_attach os gos a spi_id cs_pin)) Q E t"
proof (rule swp_ifI)
  assume label: "label \<noteq> 0"
  show "swp (spi_unwind os gos a cs_pin label (- 1)) Q E t"
  proof (rule unwind_inv [OF mk ht], goal_cases)
    case (3 s')
    then show ?case by (intro bad) auto
  qed (use j label in auto)
next
  assume label: "\<not> label \<noteq> 0"
  let ?j = "spi_params m baudrate data_bits cs_pin data_line j"
  let ?t = "t\<lparr>hal_heap := (hal_heap t)(a \<mapsto> ?j)\<rparr>"
  have range: "0 \<le> spi_id" "spi_id < 3" using args by (auto simp: spi_args_ok_def SPI_HAL_MAX_DEVICES_def)
  have made: "spi_made spi_id active_low mode baudrate data_bits cs_pin data_line ?j"
    using j label id by (auto simp: spi_made_def spi_params_def m)
  have gpio: "si_gpio_cs ?j \<noteq> None \<longleftrightarrow> cs_pin \<noteq> -1" using j label by (auto simp: spi_params_def)
  have mk1: "spi_making C {} a ?t" by (rule making_set [OF mk ht]) (simp add: spi_params_def)
  have "swp (spi_attach os gos a spi_id cs_pin) Q E ?t"
  proof (rule attach_inv [OF os mk1, where i = ?j], goal_cases)
    case (6 fd n)
    show ?case by (rule spi_made_ok [OF args made gpio])
  next
    case (9 r s')
    then show ?case by (intro bad) (auto simp: spi_same_def)
  next
    case (10 fd n s')
    have "spi_made spi_id active_low mode baudrate data_bits cs_pin data_line (?j\<lparr>si_fd := fd, si_handle_id := n\<rparr>)"
      using made by (simp add: spi_made_def)
    then show ?case using 10 by (intro good) simp_all
  qed (use idx range id in \<open>simp_all add: spi_params_def\<close>)
  then show "swp (sbind (hset a (spi_params m baudrate data_bits cs_pin data_line)) (\<lambda>_. spi_attach os gos a spi_id cs_pin)) Q E t"
    unfolding swp_simps using ht by (intro hset_eqI [where i = j]) simp_all
qed

lemma spi_create_inv:
  assumes os: "os_files_ok os" and s: "spi_st C s" and idx: "sp_idx s \<noteq> -1"
    and bad: "\<And>r p s'. r \<noteq> 0 \<Longrightarrow> spi_st C s' \<Longrightarrow> hal_heap s' = hal_heap s \<Longrightarrow> spi_same s s' \<Longrightarrow>
      p = None \<or> inst = Some p \<and> \<not> spi_args_ok spi_id mode baudrate data_bits cs_pin data_line \<Longrightarrow> Q (r, p) s'"
    and good: "\<And>a i s'. spi_st C s' \<Longrightarrow> spi_args_ok spi_id mode baudrate data_bits cs_pin data_line \<Longrightarrow> hal_heap s a = None \<Longrightarrow>
      hal_heap s' = (hal_heap s)(a \<mapsto> i) \<Longrightarrow> spi_made spi_id active_low mode baudrate data_bits cs_pin data_line i \<Longrightarrow>
      sp_log s' = sp_log s \<Longrightarrow> Q (0, Some a) s'"
  shows "swp (drv_spi_inst_create os gos spi_id active_low mode baudrate data_bits cs_pin data_line inst) Q E s"
proof (cases "inst = None \<or> \<not> spi_args_ok spi_id mode baudrate data_bits cs_pin data_line")
  case True
  then show ?thesis using s by (auto simp: drv_spi_inst_create_def spi_same_def intro: bad split: option.split)
next
  case False
  then obtain p where p: "inst = Some p" by (cases inst) simp_all
  have args: "spi_args_ok spi_id mode baudrate data_bits cs_pin data_line"
    and nargs: "\<not> \<not> spi_args_ok spi_id mode baudrate data_bits cs_pin data_line" using False by simp_all
  have inv: "hal_inv si_fd {} {} s" and R: "spi_R C {} s" using s by simp_all
  define m where "m = (if cs_pin \<noteq> -1 \<and> \<not> active_low then of_int mode OR SPI_CS_ACTIVE_HIGH else of_int mode :: u8)"
  show ?thesis unfolding drv_spi_inst_create_def p option.case Let_def m_def [symmetric] if_not_P [OF nargs] swp_simps
  proof (rule swp_hmalloc [OF inv], rule swp_ifI, goal_cases)
    case (1 got s1)
    then have "spi_R C {} s1" "hal_heap s1 = hal_heap s" "spi_same s s1"
      using R spi_R_same [of s s1 C "{}"] spi_more [of s1 s] by (simp_all only: same_inst_def spi_same_def simp_thms)
    with 1(1) show ?case unfolding swp_simps by (intro bad) simp_all
  next
    case (2 got s1)
    let ?a = "hal_next s1" and ?i = "spi_cleared spi_id"
    let ?t = "s1\<lparr>hal_heap := (hal_heap s1)(?a \<mapsto> ?i), hal_next := Suc ?a\<rparr>"
    have h1: "hal_heap s1 = hal_heap s" and same1: "spi_same s s1" "sp_idx s1 = sp_idx s"
      using 2(2) spi_more [of s1 s] by (simp_all add: same_inst_def spi_same_def)
    have R1: "spi_R C {} s1" using R spi_R_same [OF 2(2)] by simp
    have fresh: "hal_heap s1 ?a = None" using 2(1) by (auto simp: hal_inv_def)
    have "spi_R C {?a} ?t" using spi_R_new [OF R1 fresh, of ?i] by (simp add: spi_cleared_def)
    moreover have "\<forall>e \<in> set (sp_log s1). ss_inst e \<noteq> ?a" using R1 by (auto simp: spi_R_def)
    ultimately have mk: "spi_making C {} ?a ?t"
      using hal_inv_new_gone [OF 2(1), of ?i] by (simp add: spi_making_def)
    have rest: "swp (if label \<noteq> 0 then spi_unwind os gos ?a cs_pin label (- 1)
        else sbind (hset ?a (spi_params m baudrate data_bits cs_pin data_line)) (\<lambda>_. spi_attach os gos ?a spi_id cs_pin)) Q E t"
      if t: "spi_making C {} ?a t" "hal_heap t = (hal_heap s)(?a \<mapsto> j)" "spi_same s t" "sp_idx t = sp_idx s" "si_id j = of_int spi_id"
        and j: "label = 0 \<and> (si_gpio_cs j \<noteq> None \<longleftrightarrow> cs_pin \<noteq> -1) \<and> (si_use_hw_cs j \<longleftrightarrow> cs_pin \<noteq> -1) \<or>
          label = 1 \<and> si_gpio_cs j = None \<or> label = 2 \<and> cs_pin \<noteq> -1 \<and> si_gpio_cs j \<noteq> None" for label j t
    proof (rule finish_create_inv [OF os t(1) _ _ args t(5) j m_def], goal_cases)
      case (3 r s')
      then show ?case using t(2,3) fresh h1 by (intro bad) (auto simp: spi_same_def fun_eq_iff)
    next
      case (4 i s')
      then show ?case using t(2,3) fresh h1 args by (intro good) (simp_all add: spi_same_def)
    qed (use t idx in simp_all)
    have new: "hnew ?i s1 = (Ret ?a, ?t)" by (simp add: hnew_def)
    show ?case unfolding swp_simps
    proof (rule swp_eqI [where m = "hnew ?i", OF new], cases "cs_pin \<noteq> -1")
      case True
      show "swp (if cs_pin \<noteq> -1 then spi_setup_cs gos ?a cs_pin active_low else sret 0) (\<lambda>label. swp (if label \<noteq> 0 then spi_unwind os gos ?a cs_pin label (- 1)
          else sbind (hset ?a (spi_params m baudrate data_bits cs_pin data_line)) (\<lambda>_. spi_attach os gos ?a spi_id cs_pin)) Q E) E ?t"
        unfolding if_P [OF True]
      proof (rule setup_cs_inv [OF mk, of ?i], goal_cases)
        case (3 label g j)
        then show ?case using True h1 same1 by (intro rest [where j = j]) (auto simp: spi_cleared_def spi_same_def)
      qed (simp_all add: spi_cleared_def)
    next
      case False
      show "swp (if cs_pin \<noteq> -1 then spi_setup_cs gos ?a cs_pin active_low else sret 0) (\<lambda>label. swp (if label \<noteq> 0 then spi_unwind os gos ?a cs_pin label (- 1)
          else sbind (hset ?a (spi_params m baudrate data_bits cs_pin data_line)) (\<lambda>_. spi_attach os gos ?a spi_id cs_pin)) Q E) E ?t"
        unfolding if_not_P [OF False] swp_simps
        using False h1 same1 by (intro rest [where j = ?i] mk) (simp_all add: spi_cleared_def spi_same_def)
    qed
  qed
qed

subsection \<open>Transfers and changes\<close>

lemma swp_spi_inst:
  assumes "spi_st C s" and "live_ptr s inst" and "Q None s"
    and "\<And>a i. inst = Some a \<Longrightarrow> hal_heap s a = Some i \<Longrightarrow> 0 \<le> si_fd i \<Longrightarrow> spi_ready s a i \<Longrightarrow> Q (Some (a, i)) s"
  shows "swp (spi_inst inst) Q E s"
proof (cases inst)
  case (Some a)
  then obtain i where i: "hal_heap s a = Some i" using assms(2) by (auto simp: live_ptr_def)
  then have "0 \<le> si_fd i" "spi_ready s a i" using assms(1) owned_fd(1) [of si_fd "{}" "{}" s a i] by (auto simp: spi_R_def)
  with i Some assms(4) show ?thesis by (simp add: spi_inst_def) (auto intro: hinst_eqI)
qed (use assms(3) in \<open>simp add: spi_inst_def\<close>)

lemma ready_ok: "spi_ready s a i \<Longrightarrow> unat (si_id i) < 3 \<and> sp_path s (si_fd i) = spi_dev (unat (si_id i))"
  by (simp add: spi_ready_def spi_inst_ok_def)

lemma spi_distinct: "spi_R C {} s \<Longrightarrow> hal_heap s a = Some i \<Longrightarrow> hal_heap s b = Some j \<Longrightarrow> si_handle_id j = si_handle_id i \<Longrightarrow> b = a"
  by (auto simp: spi_R_def handles_distinct_def)

text \<open>After the selection the instance is the one that configured its bus; a rejected configuration changes nothing.\<close>

lemma select_inv:
  assumes s: "spi_st C s" and i: "hal_heap s a = Some i"
    and fail: "\<And>r d. r \<noteq> 0 \<Longrightarrow> spi_st C (s\<lparr>hal_dev := d\<rparr>) \<Longrightarrow> Q r (s\<lparr>hal_dev := d\<rparr>)"
    and ok: "\<And>s'. spi_st C s' \<Longrightarrow> hal_heap s' = hal_heap s \<Longrightarrow> sp_log s' = sp_log s \<Longrightarrow> sp_handle s' ! unat (si_id i) = si_handle_id i \<Longrightarrow> Q 0 s'"
  shows "swp (spi_select os i) Q E s"
proof -
  have inv: "hal_inv si_fd {} {} s" and R: "spi_R C {} s" using s by simp_all
  have r: "unat (si_id i) < 3" "sp_path s (si_fd i) = spi_dev (unat (si_id i))" "length (sp_handle s) = 3"
    using R i ready_ok [of s a i] by (auto simp: spi_R_def)
  let ?cfg = "spi_configuration (pin_cs (si_cs_pin i)) i"
  have agree: "spi_agrees ?cfg j" if "hal_heap s b = Some j" "si_handle_id j = si_handle_id i" for b j
    using spi_distinct [OF R i that] i that(1) by (simp add: spi_agrees_def)
  show ?thesis unfolding spi_select_def swp_simps
  proof (rule swp_g_handle, use r in simp, rule swp_ifI, goal_cases)
    case 1
    show ?case unfolding swp_simps
    proof (rule swp_ctrl_config, goal_cases)
      case (1 x d)
      then show ?case using fail [OF 1, of d] inv R by simp
    next
      case (2 d)
      let ?u = "s\<lparr>hal_dev := d, sp_bus := (sp_bus s)(spi_dev (unat (si_id i)) \<mapsto> ?cfg), sp_handle := (sp_handle s)[unat (si_id i) := si_handle_id i]\<rparr>"
      have "spi_R C {} ?u"
        using spi_R_configured [of C "{}" "s\<lparr>hal_dev := d\<rparr>" "si_id i" "si_handle_id i" ?cfg] R r agree by simp
      then have "Q 0 ?u" using inv r by (intro ok) simp_all
      then show ?case using r by (auto intro!: swp_set_g_handle)
    qed
  next
    case 2
    then show ?case using s by (simp add: ok)
  qed
qed

text \<open>A message is sent by the instance that configured the bus.\<close>

lemma spi_R_sent:
  assumes R: "spi_R C {} s" and i: "hal_heap s a = Some i" "a < hal_next s" and sel: "sp_handle s ! unat (si_id i) = si_handle_id i"
    and j: "j = i\<lparr>si_cs_active := x\<rparr>"
    and e: "ss_inst e = a" "ss_bus e = sp_path s (si_fd i)" "ss_config e = sp_bus s (sp_path s (si_fd i))" "ss_params e = Some j"
      "qm_data_lines (ss_msg e) = si_data_line i"
    and cs: "cs_state j (spi_msgs a (sp_log s @ [e]))"
  shows "spi_R C {} (s\<lparr>hal_heap := (hal_heap s)(a \<mapsto> j), hal_dev := d, sp_log := sp_log s @ [e]\<rparr>)" (is "spi_R C {} ?u")
proof -
  have r: "spi_ready s a i" using R i by (auto simp: spi_R_def)
  then obtain c where c: "sp_bus s (spi_dev (unat (si_id i))) = Some c" "spi_agrees c i" using sel by (auto simp: spi_ready_def)
  have conf: "spi_configuration k (i\<lparr>si_cs_active := x\<rparr>) = spi_configuration k i" for k by (simp add: spi_configuration_def)
  have "well_sent e" using c e ready_ok [OF r] j by (simp add: well_sent_def spi_agrees_def conf)
  moreover have "spi_ready ?u a j" using r cs j by (simp add: spi_ready_def spi_inst_ok_def spi_agrees_def conf)
  moreover have "spi_ready ?u b k" if "hal_heap s b = Some k" "b \<noteq> a" for b k
    using that R e(1) by (auto simp: spi_R_def spi_ready_def spi_msgs_snoc)
  moreover have "handles_distinct {} (hal_heap ?u)"
    using R i j unfolding spi_R_def handles_distinct_def by (auto split: if_splits)
  moreover have "spi_gpio_ok C (hal_heap ?u) (sp_gpio s)"
    using R gpio_refs_same [of "hal_heap s" a i j] i j by (simp add: spi_R_def spi_gpio_ok_def)
  ultimately show ?thesis using R e(1) i(2) by (auto simp: spi_R_def)
qed

lemma heap_next: "hal_inv fd_of X Y s \<Longrightarrow> hal_heap s a = Some i \<Longrightarrow> a < hal_next s"
  by (auto simp: hal_inv_def)

lemma cs_state_snoc:
  assumes "cs_state i ms"
  shows "si_cs_pin i \<noteq> -1 \<Longrightarrow> qm_cs_take m = (\<not> si_cs_active i) \<Longrightarrow> cs_state (i\<lparr>si_cs_active := \<not> qm_cs_release m\<rparr>) (ms @ [m])"
    and "si_cs_pin i = -1 \<Longrightarrow> \<not> qm_cs_take m \<Longrightarrow> \<not> qm_cs_release m \<Longrightarrow> cs_state i (ms @ [m])"
  using assms by (auto simp: cs_state_def cs_alternates_snoc cs_held_def)

lemma swp_rw:
  assumes "\<And>r d. Q r (s\<lparr>hal_dev := d, sp_log := sp_log s @ [\<lparr>ss_inst = a, ss_custom = custom, ss_bus = sp_path s fd,
    ss_config = sp_bus s (sp_path s fd), ss_params = hal_heap s a, ss_msg = msg\<rparr>]\<rparr>)"
  shows "swp (spi_ctrl_rw os a custom fd msg) Q E s"
proof -
  obtain r d where "so_rw os fd msg (hal_dev s) = (r, d)" by fastforce
  with assms [of r d] show ?thesis by (simp add: swp_def spi_ctrl_rw_def)
qed

text \<open>
  Sending a message of instance \<open>a\<close>, with the chip select status that goes with it.
\<close>

lemma send_inv:
  assumes s: "spi_st C s" and i: "hal_heap s a = Some i" and sel: "sp_handle s ! unat (si_id i) = si_handle_id i"
    and j: "j = i\<lparr>si_cs_active := x\<rparr>" and lines: "qm_data_lines msg = si_data_line i"
    and cs: "cs_state j (spi_msgs a (sp_log s) @ (if custom then [] else [msg]))"
    and post: "\<And>r e s'. spi_st C s' \<Longrightarrow> hal_heap s' = (hal_heap s)(a \<mapsto> j) \<Longrightarrow> sp_log s' = sp_log s @ [e] \<Longrightarrow> ss_inst e = a \<Longrightarrow>
      ss_custom e = custom \<Longrightarrow> ss_msg e = msg \<Longrightarrow> Q r s'"
  shows "swp (spi_ctrl_rw os a custom (si_fd i) msg) Q E (s\<lparr>hal_heap := (hal_heap s)(a \<mapsto> j)\<rparr>)"
proof (rule swp_rw, goal_cases)
  case (1 r d)
  let ?e = "\<lparr>ss_inst = a, ss_custom = custom, ss_bus = sp_path s (si_fd i), ss_config = sp_bus s (sp_path s (si_fd i)),
    ss_params = Some j, ss_msg = msg\<rparr>"
  let ?u = "s\<lparr>hal_heap := (hal_heap s)(a \<mapsto> j), hal_dev := d, sp_log := sp_log s @ [?e]\<rparr>"
  have inv: "hal_inv si_fd {} {} s" and R: "spi_R C {} s" using s by simp_all
  have "spi_R C {} ?u"
    by (rule spi_R_sent [OF R i heap_next [OF inv i] sel j]) (use lines cs in \<open>auto simp: spi_msgs_snoc\<close>)
  moreover have "hal_inv si_fd {} {} ?u" using hal_inv_set [OF inv i, of j] j by simp
  ultimately have "Q r ?u" by (intro post [where e = ?e]) simp_all
  then show ?case by simp
qed

lemma transfer_inv:
  assumes s: "spi_st C s" and p: "live_ptr s inst"
    and post: "\<And>r s'. spi_st C s' \<Longrightarrow> Q r s'"
  shows "swp (drv_spi_transfer os inst tx rx len cs_change) Q E s"
  unfolding drv_spi_transfer_def swp_simps
proof (rule swp_spi_inst [OF s p], goal_cases)
  case (2 a i)
  let ?drives = "si_cs_pin i \<noteq> -1"
  have st: "cs_state i (spi_msgs a (sp_log s))" using 2(4) by (simp add: spi_ready_def)
  let ?m = "\<lparr>qm_send_buf = tx, qm_recv_buf = rx, qm_length = len, qm_next = None,
    qm_cs_take = (?drives \<and> \<not> si_cs_active i), qm_cs_release = (?drives \<and> cs_change),
    qm_instruction = no_stage, qm_address = no_stage, qm_alternate_bytes = no_stage, qm_dummy_cycles = 0, qm_data_lines = si_data_line i\<rparr>"
  have send: "swp (if ?drives then hset a (\<lambda>i. i\<lparr>si_cs_active := \<not> cs_change\<rparr>) else sret ())
      (\<lambda>_. swp (spi_ctrl_rw os a False (si_fd i) ?m) Q E) E t"
    if t: "spi_st C t" "hal_heap t = hal_heap s" "sp_log t = sp_log s" "sp_handle t ! unat (si_id i) = si_handle_id i" for t
  proof (rule swp_ifI)
    have ht: "hal_heap t a = Some i" using 2(2) t(2) by simp
    {
      assume d: ?drives
      have "swp (spi_ctrl_rw os a False (si_fd i) ?m) Q E (t\<lparr>hal_heap := (hal_heap t)(a \<mapsto> i\<lparr>si_cs_active := \<not> cs_change\<rparr>)\<rparr>)"
        by (rule send_inv [OF t(1) ht t(4) refl]) (use cs_state_snoc(1) [OF st d, of ?m] d t(3) post in simp_all)
      then show "swp (hset a (\<lambda>i. i\<lparr>si_cs_active := \<not> cs_change\<rparr>)) (\<lambda>_. swp (spi_ctrl_rw os a False (si_fd i) ?m) Q E) E t"
        using ht by (rule hset_eqI [rotated])
    next
      assume d: "\<not> ?drives"
      have i: "i = i\<lparr>si_cs_active := si_cs_active i\<rparr>" by simp
      have "swp (spi_ctrl_rw os a False (si_fd i) ?m) Q E (t\<lparr>hal_heap := (hal_heap t)(a \<mapsto> i)\<rparr>)"
        by (rule send_inv [OF t(1) ht t(4) i]) (use cs_state_snoc(2) [OF st, of ?m] d t(3) post in simp_all)
      moreover have "t\<lparr>hal_heap := (hal_heap t)(a \<mapsto> i)\<rparr> = t" using ht by (simp add: map_upd_triv)
      ultimately show "swp (sret ()) (\<lambda>_. swp (spi_ctrl_rw os a False (si_fd i) ?m) Q E) E t" by simp
    }
  qed
  show ?case unfolding option.case prod.case Let_def
  proof (intro swp_ifI, goal_cases)
    case 3
    show ?case unfolding swp_simps
    proof (rule select_inv [OF s 2(2)], goal_cases)
      case (1 r d)
      then show ?case by (simp add: post)
    next
      case (2 s')
      then show ?case using send [of s'] by simp
    qed
  qed (use s in \<open>simp_all add: post\<close>)
qed (use s in \<open>simp add: post\<close>)

lemma transfer_message_inv:
  assumes s: "spi_st C s" and p: "live_ptr s inst"
    and post: "\<And>r s'. spi_st C s' \<Longrightarrow> Q r s'"
  shows "swp (drv_spi_transfer_message os inst msg) Q E s"
  unfolding drv_spi_transfer_message_def swp_simps
proof (rule swp_spi_inst [OF s p], goal_cases)
  case (2 a i)
  have st: "cs_state i (spi_msgs a (sp_log s))" using 2(4) by (simp add: spi_ready_def)
  show ?case
  proof (cases msg)
    case (Some m)
    let ?m = "m\<lparr>qm_data_lines := si_data_line i\<rparr>"
    have send: "swp (spi_ctrl_rw os a True (si_fd i) ?m) (\<lambda>r. swp (sret (r, Some ?m)) Q E) E t"
      if t: "spi_st C t" "hal_heap t = hal_heap s" "sp_log t = sp_log s" "sp_handle t ! unat (si_id i) = si_handle_id i" for t
    proof -
      have ht: "hal_heap t a = Some i" using 2(2) t(2) by simp
      have i: "i = i\<lparr>si_cs_active := si_cs_active i\<rparr>" by simp
      have "swp (spi_ctrl_rw os a True (si_fd i) ?m) (\<lambda>r. swp (sret (r, Some ?m)) Q E) E (t\<lparr>hal_heap := (hal_heap t)(a \<mapsto> i)\<rparr>)"
        by (rule send_inv [OF t(1) ht t(4) i]) (use st t(3) post in simp_all)
      moreover have "t\<lparr>hal_heap := (hal_heap t)(a \<mapsto> i)\<rparr> = t" using ht by (simp add: map_upd_triv)
      ultimately show ?thesis by simp
    qed
    show ?thesis unfolding option.case prod.case Some Let_def
    proof (intro swp_ifI, goal_cases)
      case 2
      show ?case unfolding swp_simps
      proof (rule select_inv [OF s \<open>hal_heap s a = Some i\<close>], goal_cases)
        case (1 r d)
        then show ?case by (simp add: post)
      next
        case (2 s')
        then show ?case using send [of s'] by simp
      qed
    qed (use s in \<open>simp add: post\<close>)
  qed (use s in \<open>simp add: post\<close>)
qed (use s in \<open>simp add: post\<close>)

text \<open>
  The configuration after a parameter has been changed: \<open>j\<close> is the instance with the new parameter.
\<close>

definition same_bus :: "drv_spi_inst \<Rightarrow> drv_spi_inst \<Rightarrow> bool" where
  "same_bus i j \<longleftrightarrow> si_fd j = si_fd i \<and> si_id j = si_id i \<and> si_handle_id j = si_handle_id i \<and> si_cs_pin j = si_cs_pin i \<and>
     si_gpio_cs j = si_gpio_cs i \<and> si_cs_active j = si_cs_active i"

text \<open>The bus of \<open>j\<close>, and no other, has been given the configuration of \<open>j\<close>.\<close>

definition bus_configured :: "('d, 'e) spi \<Rightarrow> drv_spi_inst \<Rightarrow> ('d, 'e) spi \<Rightarrow> bool" where
  "bus_configured s j s' \<longleftrightarrow> sp_bus s' = (sp_bus s)(spi_dev (unat (si_id j)) \<mapsto> wanted_config j) \<and>
     sp_handle s' = (sp_handle s)[unat (si_id j) := si_handle_id j] \<and> sp_log s' = sp_log s"

lemma update_config_inv:
  assumes s: "spi_st C s" and i: "hal_heap s a = Some i" and j: "same_bus i j" "spi_inst_ok j"
    and fail: "\<And>r d. r \<noteq> 0 \<Longrightarrow> Q r (s\<lparr>hal_heap := (hal_heap s)(a \<mapsto> j), hal_dev := d\<rparr>)"
    and ok: "\<And>s'. spi_st C s' \<Longrightarrow> hal_heap s' = (hal_heap s)(a \<mapsto> j) \<Longrightarrow> bus_configured s j s' \<Longrightarrow> sp_gpio s' = sp_gpio s \<Longrightarrow> Q 0 s'"
  shows "swp (drv_spi_update_config os a) Q E (s\<lparr>hal_heap := (hal_heap s)(a \<mapsto> j)\<rparr>)"
proof -
  let ?t = "s\<lparr>hal_heap := (hal_heap s)(a \<mapsto> j)\<rparr>"
  have inv: "hal_inv si_fd {} {} s" and R: "spi_R C {} s" using s by simp_all
  have r: "spi_ready s a i" "length (sp_handle s) = 3" using R i by (auto simp: spi_R_def)
  have n: "unat (si_id j) < 3" "sp_path s (si_fd j) = spi_dev (unat (si_id j))" using ready_ok [OF r(1)] j(1) by (simp_all add: same_bus_def)
  have R1: "spi_R C {a} ?t"
    using spi_R_mono [OF R, of "{a}"] i j(1) by (intro spi_R_set_gone) (simp_all add: same_bus_def)
  have other: "si_handle_id k \<noteq> si_handle_id j" if "b \<noteq> a" "hal_heap s b = Some k" for b k
    using spi_distinct [OF R i that(2)] that(1) j(1) by (auto simp: same_bus_def)
  have conf: "swp (sbind (spi_ctrl_config os (si_fd j) (spi_configuration k j)) (\<lambda>ret.
      if ret \<noteq> 0 then sret ret else sbind (set_g_handle (si_id j) (si_handle_id j)) (\<lambda>_. sret 0))) Q E ?t"
    if k: "k = (if si_use_hw_cs j then pin_cs (si_cs_pin j) else 0)" for k
    unfolding swp_simps
  proof (rule swp_ctrl_config, goal_cases)
    case (1 r d)
    then show ?case using fail [OF 1, of d] by simp
  next
    case (2 d)
    let ?u = "?t\<lparr>hal_dev := d, sp_bus := (sp_bus s)(spi_dev (unat (si_id j)) \<mapsto> spi_configuration k j), sp_handle := (sp_handle s)[unat (si_id j) := si_handle_id j]\<rparr>"
    have agree: "spi_agrees (spi_configuration k j) l"
      if "b \<notin> {a}" "hal_heap (?t\<lparr>hal_dev := d\<rparr>) b = Some l" "si_handle_id l = si_handle_id j" for b l using other [of b l] that by simp
    have R2: "spi_R C {a} (?t\<lparr>hal_dev := d\<rparr>)" using R1 by simp
    have R3: "spi_R C {a} ?u" using spi_R_configured [OF R2 n(1) agree] by simp
    have "spi_R C {} ?u"
    proof (rule spi_R_ready [OF R3])
      show "spi_ready ?u a j"
        using r n j k by (auto simp: spi_ready_def same_bus_def spi_agrees_def cs_state_def split: if_splits)
    qed (use other in \<open>auto split: if_splits\<close>)
    moreover have "hal_inv si_fd {} {} ?u" using hal_inv_set [OF inv i, of j] j(1) by (simp add: same_bus_def)
    ultimately have "Q 0 ?u" using k by (intro ok) (simp_all add: bus_configured_def wanted_config_def)
    then show ?case using n r(2) by (auto intro!: swp_set_g_handle)
  qed
  have hw: "si_use_hw_cs j \<Longrightarrow> si_cs_pin j \<noteq> -1" using j(2) by (simp add: spi_inst_ok_def)
  show ?thesis unfolding drv_spi_update_config_def swp_simps Let_def
  proof (rule hinst_eqI [where i = j], simp, intro swp_ifI, goal_cases)
    case 1
    then show ?case using conf [of "pin_cs (si_cs_pin j)"] by (simp add: pin_cs_def)
  next
    case 2
    then show ?case by (intro conf) simp
  next
    case 3
    then show ?case using hw by simp
  qed
qed

text \<open>
  The pattern of the setters: the parameter is set, and set back when the new configuration is refused. \<open>f\<close> sets it and \<open>g\<close> sets it back.
\<close>

lemma change_inv:
  assumes s: "spi_st C s" and i: "hal_heap s a = Some i" and f: "same_bus i (f i)" "spi_inst_ok (f i)" and g: "g (f i) = i"
    and fail: "\<And>r d. r \<noteq> 0 \<Longrightarrow> spi_st C (s\<lparr>hal_dev := d\<rparr>) \<Longrightarrow> Q r (s\<lparr>hal_dev := d\<rparr>)"
    and ok: "\<And>s'. spi_st C s' \<Longrightarrow> hal_heap s' = (hal_heap s)(a \<mapsto> f i) \<Longrightarrow> bus_configured s (f i) s' \<Longrightarrow> sp_gpio s' = sp_gpio s \<Longrightarrow> Q 0 s'"
  shows "swp (sbind (hset a f) (\<lambda>_. sbind (drv_spi_update_config os a) (\<lambda>ret.
    if ret \<noteq> 0 then sbind (hset a g) (\<lambda>_. sret ret) else sret ret))) Q E s"
  unfolding swp_simps
proof (rule hset_eqI [OF i], rule update_config_inv [OF s i f], goal_cases)
  case (1 r d)
  have undo: "s\<lparr>hal_heap := hal_heap s, hal_dev := d\<rparr> = s\<lparr>hal_dev := d\<rparr>" by simp
  have same: "(hal_heap s)(a \<mapsto> i) = hal_heap s" using i by (rule map_upd_triv)
  have "swp (hset a g) (\<lambda>_. swp (sret r) Q E) E (s\<lparr>hal_heap := (hal_heap s)(a \<mapsto> f i), hal_dev := d\<rparr>)"
    by (rule hset_eqI [where i = "f i"]) (use 1 g s fail same undo in simp_all)
  then show ?case using 1 by simp
next
  case (2 s')
  then show ?case by (simp add: ok)
qed

text \<open>The five setters, and what each does to the instance.\<close>

datatype spi_change = Baudrate u32 | DataMode u8 | CsPolarity bool | CsMode bool | DataBits u8

fun run_change :: "'d spi_os \<Rightarrow> 'e gpio_os \<Rightarrow> nat option \<Rightarrow> spi_change \<Rightarrow> (('d, 'e) spi, int) prog" where
  "run_change os gos inst (Baudrate b) = drv_spi_set_baudrate os inst b"
| "run_change os gos inst (DataMode m) = drv_spi_set_datamode os inst m"
| "run_change os gos inst (CsPolarity hi) = drv_spi_set_cs_polarity os gos inst hi"
| "run_change os gos inst (CsMode hw) = drv_spi_set_cs_mode os inst hw"
| "run_change os gos inst (DataBits n) = drv_spi_set_data_bits os inst n"

fun apply_change :: "spi_change \<Rightarrow> drv_spi_inst \<Rightarrow> drv_spi_inst" where
  "apply_change (Baudrate b) i = i\<lparr>si_baudrate := b\<rparr>"
| "apply_change (DataMode m) i = i\<lparr>si_mode := (si_mode i AND SPI_CS_ACTIVE_HIGH) OR m\<rparr>"
| "apply_change (CsPolarity hi) i = (if si_cs_pin i = -1 then i
     else i\<lparr>si_mode := (if hi then si_mode i OR SPI_CS_ACTIVE_HIGH else si_mode i AND NOT SPI_CS_ACTIVE_HIGH)\<rparr>)"
| "apply_change (CsMode hw) i = i\<lparr>si_use_hw_cs := hw\<rparr>"
| "apply_change (DataBits n) i = i\<lparr>si_data_bits := n\<rparr>"

text \<open>
  What a setter does to the GPIO driver: the one of the polarity asks for the idle level of the new polarity and, when the bus refuses the
  configuration, for the one of the old polarity; the others do nothing.
\<close>

definition cs_idle :: "'e gpio_os \<Rightarrow> drv_spi_inst \<Rightarrow> bool \<Rightarrow> 'e gpio \<Rightarrow> 'e gpio" where
  "cs_idle gos i hi g = snd (drv_gpio_value_set gos (si_gpio_cs i) (if hi then GPIO_PV_LOW else GPIO_PV_HIGH) g)"

fun change_gpio :: "'e gpio_os \<Rightarrow> spi_change \<Rightarrow> drv_spi_inst \<Rightarrow> bool \<Rightarrow> 'e gpio \<Rightarrow> 'e gpio" where
  "change_gpio gos (CsPolarity hi) i ok g =
     (if si_cs_pin i = -1 then g
      else if ok then cs_idle gos i hi g else cs_idle gos i (si_mode i AND SPI_CS_ACTIVE_HIGH \<noteq> 0) (cs_idle gos i hi g))"
| "change_gpio gos c i ok g = g"

lemma change_gpio_none [simp]:
  "change_gpio gos (Baudrate b) i = (\<lambda>ok g. g)" "change_gpio gos (DataMode m) i = (\<lambda>ok g. g)"
  "change_gpio gos (CsMode hw) i = (\<lambda>ok g. g)" "change_gpio gos (DataBits n) i = (\<lambda>ok g. g)"
  by (simp_all add: fun_eq_iff)

text \<open>
  A change that fails leaves the instances and the buses; one that succeeds makes the instance \<open>j\<close> and, but for the polarity of an
  instance without a pin, gives the bus its configuration.
\<close>

definition change_done :: "('d, 'e) spi \<Rightarrow> nat \<Rightarrow> drv_spi_inst \<Rightarrow> bool \<Rightarrow> (bool \<Rightarrow> 'e gpio \<Rightarrow> 'e gpio) \<Rightarrow> int \<Rightarrow> ('d, 'e) spi \<Rightarrow> bool" where
  "change_done s a j configured gp r s' \<longleftrightarrow> sp_gpio s' = gp (r = 0) (sp_gpio s) \<and>
     (if r = 0 then hal_heap s' = (hal_heap s)(a \<mapsto> j) \<and> (if configured then bus_configured s j s' else spi_same s s')
      else hal_heap s' = hal_heap s \<and> spi_same s s')"

lemma change_done_refused: "r \<noteq> 0 \<Longrightarrow> gp False (sp_gpio s) = sp_gpio s \<Longrightarrow> change_done s a j c gp r (s\<lparr>hal_dev := d\<rparr>)"
  "r \<noteq> 0 \<Longrightarrow> gp False (sp_gpio s) = sp_gpio s \<Longrightarrow> change_done s a j c gp r s"
  by (simp_all add: change_done_def spi_same_def)

lemma mode_ok:
  assumes "m \<in> {0, 1, 2, 3, 16, 17, 18, 19 :: u8}"
  shows "n \<le> 3 \<Longrightarrow> (m AND SPI_CS_ACTIVE_HIGH) OR n \<in> {0, 1, 2, 3, 16, 17, 18, 19 :: u8}"
    and "m OR SPI_CS_ACTIVE_HIGH \<in> {0, 1, 2, 3, 16, 17, 18, 19 :: u8}"
    and "m AND NOT SPI_CS_ACTIVE_HIGH \<in> {0, 1, 2, 3, 16, 17, 18, 19 :: u8}"
proof -
  assume "n \<le> 3"
  then have "unat n \<le> 3" by (simp add: word_le_nat_alt)
  then have "unat n = 0 \<or> unat n = 1 \<or> unat n = 2 \<or> unat n = 3" by auto
  then have "n = 0 \<or> n = 1 \<or> n = 2 \<or> n = 3" by (simp add: word_unat_eq_iff)
  then show "(m AND SPI_CS_ACTIVE_HIGH) OR n \<in> {0, 1, 2, 3, 16, 17, 18, 19}"
    using assms by (auto simp: SPI_CS_ACTIVE_HIGH_def)
qed (use assms in \<open>auto simp: SPI_CS_ACTIVE_HIGH_def\<close>)

text \<open>Setting the level of the pin, while an instance on the heap may differ from the one of the invariant.\<close>

lemma value_set_inv:
  assumes u: "spi_st C u" and b: "hal_heap u a = Some i" "si_gpio_cs i = Some b"
    and post: "\<And>g. g = snd (drv_gpio_value_set gos (Some b) v (sp_gpio u)) \<Longrightarrow> spi_st C (u\<lparr>sp_gpio := g\<rparr>) \<Longrightarrow> Q () (u\<lparr>sp_gpio := g, hal_heap := h\<rparr>)"
  shows "swp (signore (sgpio (drv_gpio_value_set gos (Some b) v))) Q E (u\<lparr>hal_heap := h\<rparr>)"
proof -
  let ?A = "ran (gpio_refs (hal_heap u)) \<union> C"
  have R: "spi_R C {} u" using u by simp
  let ?g = "snd (drv_gpio_value_set gos (Some b) v (sp_gpio u))"
  have "swp (drv_gpio_value_set gos (Some b) v) (\<lambda>_. ginv ?A 0) (\<lambda>_. ginv ?A 0) (sp_gpio u)"
    using keeps_value_set [OF spi_gpio_live [OF R b], of 0 gos v] spi_ginv [OF R] by (simp add: keeps_swp)
  then have g: "ginv ?A 0 ?g" "swp (drv_gpio_value_set gos (Some b) v) (\<lambda>_ g. g = ?g) (\<lambda>_ g. g = ?g) (sp_gpio u)"
    by (auto simp: swp_def split: prod.splits cres.splits)
  have "Q () (u\<lparr>hal_heap := h, sp_gpio := ?g\<rparr>)"
    using post [of ?g] u spi_R_gpio [OF R g(1)] by (simp add: heap_gpio_upd)
  then have "swp (drv_gpio_value_set gos (Some b) v) (\<lambda>_ g. Q () (u\<lparr>hal_heap := h, sp_gpio := g\<rparr>)) (\<lambda>_ g. Q () (u\<lparr>hal_heap := h, sp_gpio := g\<rparr>)) (sp_gpio u)"
    using g(2) by (elim swp_mono) simp_all
  then show ?thesis unfolding swp_simps swp_sgpio by simp
qed

lemma polarity_inv:
  assumes s: "spi_st C s" and i: "hal_heap s a = Some i" and drives: "si_cs_pin i \<noteq> -1"
    and post: "\<And>r s'. spi_st C s' \<Longrightarrow> change_done s a (apply_change (CsPolarity hi) i) True (change_gpio gos (CsPolarity hi) i) r s' \<Longrightarrow> Q r s'"
  shows "swp (drv_spi_set_cs_polarity os gos (Some a) hi) Q E s"
proof -
  have R: "spi_R C {} s" using s by simp
  let ?f = "\<lambda>i. i\<lparr>si_mode := (if hi then si_mode i OR SPI_CS_ACTIVE_HIGH else si_mode i AND NOT SPI_CS_ACTIVE_HIGH)\<rparr>"
  have ok: "spi_inst_ok i" and fd: "0 \<le> si_fd i" using R i s owned_fd(1) [of si_fd "{}" "{}" s a i] by (auto simp: spi_R_def spi_ready_def)
  obtain b where b: "si_gpio_cs i = Some b" using drives ok by (auto simp: spi_inst_ok_def)
  have f: "same_bus i (?f i)" "spi_inst_ok (?f i)"
    using ok mode_ok(2,3) [of "si_mode i"] unfolding spi_inst_ok_def same_bus_def by auto
  have heap: "s\<lparr>hal_heap := hal_heap s\<rparr> = s" by simp
  have same: "(hal_heap s)(a \<mapsto> i) = hal_heap s" using i by (rule map_upd_triv)
  let ?idle = "\<lambda>hi. signore (sgpio (drv_gpio_value_set gos (Some b) (if hi then GPIO_PV_LOW else GPIO_PV_HIGH)))"
  have upd: "swp (drv_spi_update_config os a) (\<lambda>r. swp (if r \<noteq> 0 then sbind (hset a (\<lambda>j. j\<lparr>si_mode := si_mode i\<rparr>)) (\<lambda>_.
      sbind (?idle (si_mode i AND SPI_CS_ACTIVE_HIGH \<noteq> 0)) (\<lambda>_. sret r)) else sret r) Q E) E (u\<lparr>hal_heap := (hal_heap s)(a \<mapsto> ?f i)\<rparr>)"
    if u: "spi_st C u" "u = s\<lparr>sp_gpio := cs_idle gos i hi (sp_gpio s)\<rparr>" for u
  proof -
    have hu: "hal_heap u a = Some i" "hal_heap u = hal_heap s" using u(2) i by simp_all
    show ?thesis unfolding hu(2) [symmetric]
    proof (rule update_config_inv [OF u(1) hu(1) f], rule swp_ifI, goal_cases)
      case (1 r d)
      let ?v = "u\<lparr>hal_heap := (hal_heap u)(a \<mapsto> ?f i), hal_dev := d\<rparr>"
      have v: "spi_st C (u\<lparr>hal_dev := d\<rparr>)" "hal_heap (u\<lparr>hal_dev := d\<rparr>) a = Some i" using u(1) hu by simp_all
      have "swp (?idle (si_mode i AND SPI_CS_ACTIVE_HIGH \<noteq> 0)) (\<lambda>_. swp (sret r) Q E) E ((u\<lparr>hal_dev := d\<rparr>)\<lparr>hal_heap := hal_heap s\<rparr>)"
      proof (rule value_set_inv [OF v b], goal_cases)
        case (1 g)
        then show ?case unfolding swp_simps
          using hu u(2) \<open>r \<noteq> 0\<close> drives b by (intro post) (simp_all add: change_done_def spi_same_def cs_idle_def)
      qed
      then show ?case unfolding swp_simps using hu same by (intro hset_eqI [where i = "?f i"]) simp_all
    next
      case (2 r d)
      then show ?case by simp
    next
      case (3 s')
      then show ?case using hu(2) u(2) by (simp, intro post) (use drives in \<open>auto simp: change_done_def bus_configured_def\<close>)
    qed
  qed
  have "swp (hset a ?f) (\<lambda>_. swp (?idle hi) (\<lambda>_. swp (drv_spi_update_config os a) (\<lambda>r. swp (if r \<noteq> 0 then sbind (hset a (\<lambda>j. j\<lparr>si_mode := si_mode i\<rparr>)) (\<lambda>_.
      sbind (?idle (si_mode i AND SPI_CS_ACTIVE_HIGH \<noteq> 0)) (\<lambda>_. sret r)) else sret r) Q E) E) E) E s"
  proof (rule hset_eqI [OF i], rule value_set_inv [OF s i b], goal_cases)
    case (1 g)
    show ?case by (rule upd [OF 1(2)]) (simp add: 1(1) cs_idle_def b)
  qed
  then show ?thesis using fd drives b i
    by (simp add: drv_spi_set_cs_polarity_def spi_inst_def Let_def del: swp_sgpio swp_simps(7)) (auto intro!: hinst_eqI)
qed

lemma setter_inv:
  assumes s: "spi_st C s" and i: "hal_heap s a = Some i" and f: "\<not> bad i \<Longrightarrow> same_bus i (f i) \<and> spi_inst_ok (f i) \<and> g i (f i) = i"
    and post: "\<And>r s'. spi_st C s' \<Longrightarrow> change_done s a (f i) True (\<lambda>ok g. g) r s' \<Longrightarrow> Q r s'"
  shows "swp (sbind (spi_inst (Some a)) (\<lambda>x. case x of None \<Rightarrow> sret (-1)
       | Some (a, i) \<Rightarrow> if bad i then sret (-1)
         else sbind (hset a f) (\<lambda>_. sbind (drv_spi_update_config os a) (\<lambda>ret.
           if ret \<noteq> 0 then sbind (hset a (g i)) (\<lambda>_. sret ret) else sret ret)))) Q E s"
  unfolding swp_simps
proof (rule swp_spi_inst [OF s], goal_cases)
  case (3 b j)
  then have j: "b = a" "j = i" using i by simp_all
  show ?case unfolding option.case prod.case j
  proof (rule swp_ifI, goal_cases)
    case 1
    then show ?case using s by (simp add: post change_done_refused)
  next
    case 2
    with f have f: "same_bus i (f i)" "spi_inst_ok (f i)" "g i (f i) = i" by simp_all
    show ?case
    proof (rule change_inv [where f = f and g = "g i", OF s i f], goal_cases)
      case (1 r d)
      then show ?case by (intro post) (simp_all add: change_done_refused)
    next
      case (2 s')
      then show ?case by (intro post) (simp_all add: change_done_def)
    qed
  qed
qed (use s i in \<open>simp_all add: live_ptr_def post change_done_refused\<close>)

lemma run_change_inv:
  assumes s: "spi_st C s" and i: "hal_heap s a = Some i"
    and post: "\<And>r s'. spi_st C s' \<Longrightarrow> change_done s a (apply_change c i) ((\<exists>hi. c = CsPolarity hi) \<longrightarrow> si_cs_pin i \<noteq> -1) (change_gpio gos c i) r s' \<Longrightarrow> Q r s'"
  shows "swp (run_change os gos (Some a) c) Q E s"
proof -
  have ok: "spi_inst_ok i" using s i by (auto simp: spi_R_def spi_ready_def)
  have bits: "\<not> (n < 4 \<or> n > 32) \<Longrightarrow> 4 \<le> n \<and> n \<le> 32" for n :: u8 by (simp add: not_less)
  show ?thesis
  proof (cases c)
    case (Baudrate b)
    show ?thesis unfolding Baudrate run_change.simps drv_spi_set_baudrate_def
      by (rule setter_inv [OF s i, where bad = "\<lambda>_. b = 0" and g = "\<lambda>i j. j\<lparr>si_baudrate := si_baudrate i\<rparr>"])
        (use ok Baudrate post in \<open>simp_all add: same_bus_def spi_inst_ok_def\<close>)
  next
    case (DataMode m)
    show ?thesis unfolding DataMode run_change.simps drv_spi_set_datamode_def
      by (rule setter_inv [OF s i, where bad = "\<lambda>_. m > 3" and g = "\<lambda>i j. j\<lparr>si_mode := si_mode i\<rparr>"])
        (use ok DataMode post mode_ok(1) [of "si_mode i" m] in \<open>simp_all add: same_bus_def spi_inst_ok_def not_less\<close>)
  next
    case (CsPolarity hi)
    show ?thesis
    proof (cases "si_cs_pin i = -1")
      case True
      have "spi_inst (Some a) s = (Ret (Some (a, i)), s)"
        using i s owned_fd(1) [of si_fd "{}" "{}" s a i] by (simp add: spi_inst_def hinst_def sbind_def sret_def)
      moreover have "(hal_heap s)(a \<mapsto> i) = hal_heap s" using i by (rule map_upd_triv)
      then have "Q 0 s" using s True CsPolarity by (intro post) (simp_all add: change_done_def spi_same_def)
      ultimately show ?thesis using True CsPolarity by (simp add: drv_spi_set_cs_polarity_def swp_def sbind_def sret_def)
    next
      case False
      show ?thesis unfolding CsPolarity run_change.simps
        by (rule polarity_inv [OF s i False]) (use False CsPolarity post in simp)
    qed
  next
    case (CsMode hw)
    show ?thesis unfolding CsMode run_change.simps drv_spi_set_cs_mode_def
      by (rule setter_inv [OF s i, where bad = "\<lambda>i. hw \<and> si_cs_pin i = -1" and g = "\<lambda>i j. j\<lparr>si_use_hw_cs := si_use_hw_cs i\<rparr>"])
        (use ok CsMode post in \<open>auto simp: same_bus_def spi_inst_ok_def\<close>)
  next
    case (DataBits n)
    show ?thesis unfolding DataBits run_change.simps drv_spi_set_data_bits_def
      by (rule setter_inv [OF s i, where bad = "\<lambda>_. n < 4 \<or> n > 32" and g = "\<lambda>i j. j\<lparr>si_data_bits := si_data_bits i\<rparr>"])
        (use ok DataBits post bits in \<open>simp_all add: same_bus_def spi_inst_ok_def\<close>)
  qed
qed

section \<open>Runs\<close>

datatype spi_op =
    SCreate int bool int u32 u8 int u8 "nat option option"
  | SDestroy "nat option"
  | STransfer "nat option" "nat option" "nat option" u64 bool
  | SRead "nat option" "nat option" u64 bool
  | SWrite "nat option" "nat option" u64 bool
  | SMessage "nat option" "rt_qspi_message option"
  | SChange "nat option" spi_change

fun spi_exec :: "'d spi_os \<times> 'e gpio_os \<Rightarrow> spi_op \<Rightarrow> (('d, 'e) spi, unit) prog" where
  "spi_exec (os, gos) (SCreate n low m b w cs l inst) = sdone (drv_spi_inst_create os gos n low m b w cs l inst)"
| "spi_exec (os, gos) (SDestroy inst) = sdone (drv_spi_inst_destroy os gos inst)"
| "spi_exec (os, gos) (STransfer inst tx rx len rel) = sdone (drv_spi_transfer os inst tx rx len rel)"
| "spi_exec (os, gos) (SRead inst rx len rel) = sdone (drv_spi_read os inst rx len rel)"
| "spi_exec (os, gos) (SWrite inst tx len rel) = sdone (drv_spi_write os inst tx len rel)"
| "spi_exec (os, gos) (SMessage inst msg) = sdone (drv_spi_transfer_message os inst msg)"
| "spi_exec (os, gos) (SChange inst c) = sdone (run_change os gos inst c)"

text \<open>
  A pointer is null or a live instance. \<open>create\<close> does not read the pointer it is given; it may be called \<open>2 ^ 64 - 1\<close> times, after
  which the numbers of the instances would repeat.
\<close>

fun spi_valid :: "('d, 'e) spi \<Rightarrow> spi_op \<Rightarrow> bool" where
  "spi_valid s (SCreate n low m b w cs l inst) = (sp_idx s \<noteq> -1)"
| "spi_valid s (SDestroy inst) = live_ptr s inst"
| "spi_valid s (STransfer inst tx rx len rel) = live_ptr s inst"
| "spi_valid s (SRead inst rx len rel) = live_ptr s inst"
| "spi_valid s (SWrite inst tx len rel) = live_ptr s inst"
| "spi_valid s (SMessage inst msg) = live_ptr s inst"
| "spi_valid s (SChange inst c) = live_ptr s inst"

text \<open>The program starts with the GPIO driver in any state; the tables are zero.\<close>

definition spi_start :: "'e gpio \<Rightarrow> 'd \<Rightarrow> ('d, 'e) spi" where
  "spi_start g d = \<lparr>hal_heap = Map.empty, hal_next = 0, hal_fds = {}, hal_dev = d, sp_gpio = g, sp_handle = replicate 3 0, sp_idx = 0,
     sp_path = \<lambda>_. [], sp_bus = \<lambda>_. None, sp_log = []\<rparr>"

lemma spi_start_st: "gpio_inv g \<Longrightarrow> spi_st (live g) (spi_start g d)"
  by (auto simp: spi_start_def hal_inv_empty spi_R_def spi_gpio_ok_def gpio_refs_def handles_distinct_def gpio_inv_def ran_def dom_def)

lemma change_null: "run_change os gos None c = sret (-1)"
  by (cases c) (simp_all add: fun_eq_iff drv_spi_set_baudrate_def drv_spi_set_datamode_def drv_spi_set_cs_polarity_def
      drv_spi_set_cs_mode_def drv_spi_set_data_bits_def spi_inst_def sbind_def sret_def)

lemma spi_exec_inv:
  assumes os: "os_files_ok (fst x)" and s: "spi_st C s" and v: "spi_valid s op"
  shows "swp (spi_exec x op) (\<lambda>_. spi_st C) (\<lambda>_. spi_st C) s"
proof (cases x)
  case (Pair os gos)
  show ?thesis
  proof (cases op)
    case (SChange inst c)
    show ?thesis
    proof (cases inst)
      case (Some a)
      then obtain i where i: "hal_heap s a = Some i" using v SChange by (auto simp: live_ptr_def)
      show ?thesis unfolding Pair SChange Some spi_exec.simps sdone_def swp_simps by (rule run_change_inv [OF s i])
    qed (use s SChange Pair in \<open>simp add: change_null sdone_def\<close>)
  qed (use s os v Pair in \<open>auto simp: sdone_def drv_spi_read_def drv_spi_write_def
      intro!: spi_create_inv spi_destroy_inv transfer_inv transfer_message_inv\<close>)
qed

interpretation spi_runs: instance_driver spi_exec spi_valid "\<lambda>x. os_files_ok (fst x)" "spi_st C" si_fd "\<lambda>_. {}" for C
  by unfold_locales (auto intro!: spi_exec_inv)

section \<open>Properties\<close>

text \<open>A kernel whose state is the next descriptor; every request succeeds, and a transfer moves the bytes it is asked for.\<close>

definition sample_spi_os :: "nat spi_os" where
  "sample_spi_os = \<lparr>os_open = \<lambda>path fds d. (if int d \<in> fds then -1 else int d, d + 1), os_close = \<lambda>fd d. d, os_malloc = \<lambda>d. (True, d),
     so_config = \<lambda>fd c d. (0, d), so_rw = \<lambda>fd m d. (int (unat (qm_length m)), d)\<rparr>"

lemma sample_spi_os_ok: "os_files_ok sample_spi_os"
  by (auto simp: os_files_ok_def sample_spi_os_def split: if_splits)

text \<open>The multiplexer after pin 33 has been made a GPIO.\<close>

definition sample_fp33 :: fpioa where
  "sample_fp33 = snd (drv_fpioa_set_pin_func 33 33 sample_fp)"

lemma sample_fp33_set: "drv_fpioa_set_pin_func 33 33 sample_fp = (Ret (), sample_fp33)"
  unfolding sample_fp33_def by code_simp

lemma sample_fp33_get: "drv_fpioa_get_pin_func 33 sample_fp33 = (Ret 33, sample_fp33)"
  by code_simp

definition sample_gpio33 :: "gpio_req list gpio" where
  "sample_gpio33 = \<lparr>gpio_fd = 4, gpio_ref_cnt = 1, gpio_register_cnt = 0,
     gpio_heap = [0 \<mapsto> (gpio_new_inst 33)\<lparr>gi_curr_mode := 0, gi_curr_val := 1\<rparr>], gpio_next = 1, gpio_fpioa = sample_fp33,
     gpio_dev = [SET_MODE 33 0]\<rparr>"

definition sample_spi_a :: drv_spi_inst where
  "sample_spi_a = \<lparr>si_handle_id = 0, si_fd = 3, si_id = 0, si_mode = 0, si_baudrate = 1000000, si_data_bits = 8, si_cs_pin = 33,
     si_gpio_cs = Some 0, si_data_line = 1, si_cs_active = False, si_use_hw_cs = True\<rparr>"

definition sample_spi_b :: drv_spi_inst where
  "sample_spi_b = \<lparr>si_handle_id = 1, si_fd = 4, si_id = 0, si_mode = 3, si_baudrate = 500000, si_data_bits = 16, si_cs_pin = -1,
     si_gpio_cs = None, si_data_line = 1, si_cs_active = False, si_use_hw_cs = False\<rparr>"

text \<open>Two instances on bus 0, the first with a chip select; the second configured the bus last.\<close>

definition sample_spi1 :: "(nat, gpio_req list) spi" where
  "sample_spi1 = \<lparr>hal_heap = [0 \<mapsto> sample_spi_a], hal_next = 1, hal_fds = {3}, hal_dev = 4, sp_gpio = sample_gpio33,
     sp_handle = [0, 0, 0], sp_idx = 1, sp_path = (\<lambda>_. [])(3 := spi_dev 0),
     sp_bus = [spi_dev 0 \<mapsto> spi_configuration (pin_cs 33) sample_spi_a], sp_log = []\<rparr>"

definition sample_spi2 :: "(nat, gpio_req list) spi" where
  "sample_spi2 = \<lparr>hal_heap = [0 \<mapsto> sample_spi_a, 1 \<mapsto> sample_spi_b], hal_next = 2, hal_fds = {3, 4}, hal_dev = 5, sp_gpio = sample_gpio33,
     sp_handle = [1, 0, 0], sp_idx = 2, sp_path = (\<lambda>_. [])(3 := spi_dev 0, 4 := spi_dev 0),
     sp_bus = [spi_dev 0 \<mapsto> spi_configuration 0 sample_spi_b], sp_log = []\<rparr>"

lemmas spi_eval = drv_spi_inst_create_def spi_setup_cs_def spi_attach_def spi_register_def spi_open_def spi_ctrl_config_def spi_ctrl_rw_def
  g_handle_def set_g_handle_def sgpio_def gpio_set_pin_func_def spi_params_def spi_cleared_def sample_spi_os_def hal_call_defs sprog_defs

lemma spi_dev0: "take 31 (spi_dev 0) = spi_dev 0"
  by (simp add: spi_dev_def digit_def)

lemma sample_create1:
  "drv_spi_inst_create sample_spi_os sample_gpio_os 0 True 0 1000000 8 33 1 (Some None) (spi_start (gpio_start sample_fp []) 3) =
    (Ret (0, Some 0), sample_spi1)"
  by (simp add: spi_eval sample_spi1_def sample_spi_a_def spi_start_def gpio_start_def sample_gpio33_def spi_args_ok_def SPI_HAL_MAX_DEVICES_def
      sample_fp33_set sample_fp33_get drv_gpio_inst_create_def drv_gpio_pin_enabled_def GPIO_MAX_NUM_def fpioa_func_of_def drv_gpio_open_def
      sample_gpio_os_def gdev_def drv_gpio_inst_destroy_def drv_gpio_mode_set_def drv_gpio_value_set_def drv_gpio_ioctl_def with_inst_def upd_inst_def
      gpio_new_inst_def GPIO_DM_OUTPUT_def GPIO_DM_MAX_def GPIO_PV_HIGH_def spi_dev0 numeral_3_eq_3)

lemma sample_create2:
  "drv_spi_inst_create sample_spi_os sample_gpio_os 0 True 3 500000 16 (-1) 1 (Some None) sample_spi1 = (Ret (0, Some 1), sample_spi2)"
  by (simp add: spi_eval sample_spi1_def sample_spi2_def sample_spi_b_def spi_args_ok_def SPI_HAL_MAX_DEVICES_def spi_dev0 pin_cs_def
      spi_configuration_def insert_commute)

lemma sample_spi2_reach:
  "reach (spi_exec (sample_spi_os, sample_gpio_os)) spi_valid (spi_start (gpio_start sample_fp []) 3) sample_spi2"
proof (rule reach.step [OF reach.step [OF reach.start]])
  show "spi_valid (spi_start (gpio_start sample_fp []) 3) (SCreate 0 True 0 1000000 8 33 1 (Some None))" by (simp add: spi_start_def)
  show "spi_exec (sample_spi_os, sample_gpio_os) (SCreate 0 True 0 1000000 8 33 1 (Some None)) (spi_start (gpio_start sample_fp []) 3) =
      (Ret (), sample_spi1)"
    by (simp add: sdone_def sbind_def sample_create1 sret_def)
  show "spi_valid sample_spi1 (SCreate 0 True 3 500000 16 (-1) 1 (Some None))" by (simp add: sample_spi1_def)
  show "spi_exec (sample_spi_os, sample_gpio_os) (SCreate 0 True 3 500000 16 (-1) 1 (Some None)) sample_spi1 = (Ret (), sample_spi2)"
    by (simp add: sdone_def sbind_def sample_create2 sret_def)
qed

lemma sample_gpio_start_inv: "gpio_inv (gpio_start sample_fp [])"
  using sample_fp_ready by (auto simp: gpio_inv_def ginv_def live_def gpio_start_def fp_ready_def)

text \<open>The first instance sends four bytes and keeps the chip select; the bus had to be configured again.\<close>

definition sample_spi_msg :: rt_qspi_message where
  "sample_spi_msg = \<lparr>qm_send_buf = Some 100, qm_recv_buf = None, qm_length = 4, qm_next = None, qm_cs_take = True, qm_cs_release = False,
     qm_instruction = no_stage, qm_address = no_stage, qm_alternate_bytes = no_stage, qm_dummy_cycles = 0, qm_data_lines = 1\<rparr>"

definition sample_spi_sent :: spi_sent where
  "sample_spi_sent = \<lparr>ss_inst = 0, ss_custom = False, ss_bus = spi_dev 0, ss_config = Some (spi_configuration (pin_cs 33) sample_spi_a),
     ss_params = Some (sample_spi_a\<lparr>si_cs_active := True\<rparr>), ss_msg = sample_spi_msg\<rparr>"

definition sample_spi3 :: "(nat, gpio_req list) spi" where
  "sample_spi3 = sample_spi2\<lparr>hal_heap := [0 \<mapsto> sample_spi_a\<lparr>si_cs_active := True\<rparr>, 1 \<mapsto> sample_spi_b], sp_handle := [0, 0, 0],
     sp_bus := [spi_dev 0 \<mapsto> spi_configuration (pin_cs 33) sample_spi_a], sp_log := [sample_spi_sent]\<rparr>"

lemma sample_transfer:
  "drv_spi_transfer sample_spi_os (Some 0) (Some 100) None 4 False sample_spi2 = (Ret 4, sample_spi3)"
  by (simp add: drv_spi_transfer_def spi_inst_def spi_select_def spi_eval sample_spi2_def sample_spi3_def sample_spi_a_def sample_spi_b_def
      sample_spi_msg_def sample_spi_sent_def INT_MAX_64_def Let_def spi_configuration_def fun_upd_twist)

lemma sample_spi3_reach:
  "reach (spi_exec (sample_spi_os, sample_gpio_os)) spi_valid (spi_start (gpio_start sample_fp []) 3) sample_spi3"
proof (rule reach.step [OF sample_spi2_reach])
  show "spi_valid sample_spi2 (STransfer (Some 0) (Some 100) None 4 False)" by (simp add: sample_spi2_def live_ptr_def)
  show "spi_exec (sample_spi_os, sample_gpio_os) (STransfer (Some 0) (Some 100) None 4 False) sample_spi2 = (Ret (), sample_spi3)"
    by (simp add: sdone_def sbind_def sample_transfer sret_def)
qed

lemma spi_reach_st:
  assumes "os_files_ok os" and "gpio_inv g" and "reach (spi_exec (os, gos)) spi_valid (spi_start g d) s"
  shows "spi_st (live g) s"
  using spi_runs.reach_inv [OF assms(3) _ spi_start_st [OF assms(2)]] assms(1) by simp

lemma spi_gpio_owner:
  assumes "spi_R C {} s"
  shows "b \<in> live (sp_gpio s) \<and> b \<notin> C \<longleftrightarrow> (\<exists>!a. \<exists>i. hal_heap s a = Some i \<and> si_gpio_cs i = Some b)"
proof -
  let ?m = "gpio_refs (hal_heap s)"
  have m: "inj_on ?m (dom ?m)" "ran ?m \<inter> C = {}" "live (sp_gpio s) = ran ?m \<union> C"
    using assms ginv_live [OF spi_ginv [OF assms]] by (simp_all add: spi_R_def spi_gpio_ok_def)
  have o: "?m a = Some b \<longleftrightarrow> (\<exists>i. hal_heap s a = Some i \<and> si_gpio_cs i = Some b)" for a
    by (auto simp: gpio_refs_def bind_eq_Some_conv)
  have "?m a = Some b \<Longrightarrow> ?m a' = Some b \<Longrightarrow> a = a'" for a a' using inj_onD [OF m(1), of a a'] by auto
  moreover have "b \<in> live (sp_gpio s) \<and> b \<notin> C \<longleftrightarrow> (\<exists>a. ?m a = Some b)" using m(2,3) by (auto simp: ran_def)
  ultimately show ?thesis unfolding o by blast
qed

text \<open>C17. Whatever calls a client makes on live instances, and whatever the kernel refuses: no call of the SPI driver touches freed memory or leaves its tables,
  every open descriptor belongs to exactly one live instance, and every live GPIO instance that the client did not have before belongs
  to exactly one SPI instance, so neither is leaked or released twice on any error path.
\<close>

theorem spi_resources_owned:
  assumes "os_files_ok os" and "gpio_inv g" and "reach (spi_exec (os, gos)) spi_valid (spi_start g d) s"
  shows "(spi_valid s op \<longrightarrow> fst (spi_exec (os, gos) op s) \<noteq> Fault) \<and>
    (fd \<in> hal_fds s \<longleftrightarrow> (\<exists>!a. \<exists>i. hal_heap s a = Some i \<and> si_fd i = fd)) \<and>
    (b \<in> live (sp_gpio s) \<and> b \<notin> live g \<longleftrightarrow> (\<exists>!a. \<exists>i. hal_heap s a = Some i \<and> si_gpio_cs i = Some b))"
proof -
  have ok: "os_files_ok (fst (os, gos))" using assms(1) by simp
  note st = spi_start_st [OF assms(2), of d]
  show ?thesis
  proof (intro conjI impI)
    show "fst (spi_exec (os, gos) op s) \<noteq> Fault" if "spi_valid s op" by (rule spi_runs.no_fault [OF assms(3) ok st that])
    show "fd \<in> hal_fds s \<longleftrightarrow> (\<exists>!a. \<exists>i. hal_heap s a = Some i \<and> si_fd i = fd)"
      using spi_runs.one_owner [OF assms(3) ok st, of fd] by simp
    show "b \<in> live (sp_gpio s) \<and> b \<notin> live g \<longleftrightarrow> (\<exists>!a. \<exists>i. hal_heap s a = Some i \<and> si_gpio_cs i = Some b)"
      using spi_reach_st [OF assms] by (intro spi_gpio_owner) simp
  qed
qed

theorem spi_resources_owned_witness:
  "fst (spi_exec (sample_spi_os, sample_gpio_os) (SDestroy (Some 0)) sample_spi2) \<noteq> Fault \<and>
   (\<exists>!a. \<exists>i. hal_heap sample_spi2 a = Some i \<and> si_fd i = 4) \<and> (\<exists>!a. \<exists>i. hal_heap sample_spi2 a = Some i \<and> si_gpio_cs i = Some 0)"
  using spi_resources_owned [OF sample_spi_os_ok sample_gpio_start_inv sample_spi2_reach, of "SDestroy (Some 0)" 4 0]
  by (simp add: sample_spi2_def live_ptr_def sample_gpio33_def live_def gpio_start_def)

text \<open>C16. Every message that reaches the kernel, through \<open>transfer\<close>, \<open>read\<close>, \<open>write\<close> or a message of the client, is sent to the bus of its instance while the last
  configuration that bus accepted has exactly the mode, the word width, the clock and the number of data lines the instance had then, no hardware chip
  select, no memory size and no double data rate. The soft chip select in it is none for an instance without a pin and the pin of an instance that lets the hardware
  drive it; for one with a pin that was asked not to (\<open>drv_spi_set_cs_mode\<close>) it is either, depending on who used the bus before. The number of
  lines of the message itself is the instance's.
\<close>

theorem spi_messages_configured:
  assumes "os_files_ok os" and "gpio_inv g" and "reach (spi_exec (os, gos)) spi_valid (spi_start g d) s" and "e \<in> set (sp_log s)"
  shows "\<exists>i c. ss_params e = Some i \<and> ss_config e = Some c \<and> ss_bus e = spi_dev (unat (si_id i)) \<and>
    qc_mode c = si_mode i \<and> qc_data_width c = si_data_bits i \<and> qc_max_hz c = si_baudrate i \<and> qc_qspi_dl_width c = si_data_line i \<and>
    qc_hard_cs c = 0 \<and> qc_medium_size c = 0 \<and> qc_ddr_mode c = 0 \<and>
    (if si_cs_pin i = -1 then qc_soft_cs c = 0
     else if si_use_hw_cs i then qc_soft_cs c = of_int (si_cs_pin i) OR 0x80
     else qc_soft_cs c = 0 \<or> qc_soft_cs c = of_int (si_cs_pin i) OR 0x80) \<and>
    qm_data_lines (ss_msg e) = si_data_line i"
proof -
  have "well_sent e" using spi_reach_st [OF assms(1-3)] assms(4) by (auto simp: spi_R_def)
  then obtain i c where e: "ss_params e = Some i" "ss_config e = Some c" "spi_agrees c i" "ss_bus e = spi_dev (unat (si_id i))"
    "qm_data_lines (ss_msg e) = si_data_line i" by (auto simp: well_sent_def)
  then have "qc_mode c = si_mode i \<and> qc_data_width c = si_data_bits i \<and> qc_max_hz c = si_baudrate i \<and> qc_qspi_dl_width c = si_data_line i \<and>
    qc_hard_cs c = 0 \<and> qc_medium_size c = 0 \<and> qc_ddr_mode c = 0 \<and>
    (if si_cs_pin i = -1 then qc_soft_cs c = 0
     else if si_use_hw_cs i then qc_soft_cs c = of_int (si_cs_pin i) OR 0x80
     else qc_soft_cs c = 0 \<or> qc_soft_cs c = of_int (si_cs_pin i) OR 0x80)"
    by (auto simp: spi_agrees_def spi_configuration_def pin_cs_def)
  with e show ?thesis by blast
qed

theorem spi_messages_configured_witness:
  "\<exists>i c. ss_params sample_spi_sent = Some i \<and> ss_config sample_spi_sent = Some c \<and> ss_bus sample_spi_sent = spi_dev (unat (si_id i)) \<and>
    qc_max_hz c = si_baudrate i"
  using spi_messages_configured [OF sample_spi_os_ok sample_gpio_start_inv sample_spi3_reach, of sample_spi_sent]
  by (auto simp: sample_spi3_def)

text \<open>C20. The chip select of an instance that has a pin: over all transfers of the instance, each message takes the chip select exactly when it
  is not held from the message before, and the status in the instance says whether it is held now. Without a pin no message touches it.
\<close>

theorem spi_chip_select:
  assumes "os_files_ok os" and "gpio_inv g" and "reach (spi_exec (os, gos)) spi_valid (spi_start g d) s" and "hal_heap s a = Some i"
  shows "if si_cs_pin i = -1 then \<forall>m \<in> set (spi_msgs a (sp_log s)). \<not> qm_cs_take m \<and> \<not> qm_cs_release m
    else cs_alternates False (spi_msgs a (sp_log s)) \<and> si_cs_active i = cs_held (spi_msgs a (sp_log s))"
proof -
  have "spi_ready s a i" using spi_reach_st [OF assms(1-3)] assms(4) by (auto simp: spi_R_def)
  then show ?thesis by (simp add: spi_ready_def cs_state_def)
qed

theorem spi_chip_select_witness:
  "cs_alternates False [sample_spi_msg] \<and> cs_held [sample_spi_msg]"
  using spi_chip_select [OF sample_spi_os_ok sample_gpio_start_inv sample_spi3_reach, of 0 "sample_spi_a\<lparr>si_cs_active := True\<rparr>"]
  by (simp add: sample_spi3_def sample_spi_a_def spi_msgs_def sample_spi_sent_def)

text \<open>C19. A setter either succeeds, and then exactly its parameter of the instance has the new value, which is in range, and the bus of the
  instance, and no other, has been given the configuration with all the instance's parameters and with its pin as chip select exactly when the hardware is to drive it;
  or fails, and then no instance, no bus, no message and no record of who configured a bus has changed. The polarity of an instance without a pin is not a
  parameter: that setter succeeds and changes nothing. The setter of the polarity of an instance with a pin asks the GPIO driver for the idle level of
  the new polarity and, when it fails, then for the one of the old polarity; the other setters leave the GPIO driver alone.
\<close>

theorem spi_change_or_nothing:
  assumes "os_files_ok os" and "gpio_inv g" and "reach (spi_exec (os, gos)) spi_valid (spi_start g d) s" and "hal_heap s a = Some i"
    and "run_change os gos (Some a) c s = (Ret r, s')"
  shows "sp_gpio s' = change_gpio gos c i (r = 0) (sp_gpio s) \<and> sp_log s' = sp_log s \<and>
    (if r = 0
     then hal_heap s' = (hal_heap s)(a \<mapsto> apply_change c i) \<and> spi_inst_ok (apply_change c i) \<and>
       (if si_cs_pin i = -1 \<and> (\<exists>hi. c = CsPolarity hi)
        then sp_bus s' = sp_bus s \<and> sp_handle s' = sp_handle s
        else sp_bus s' = (sp_bus s)(spi_dev (unat (si_id i)) \<mapsto>
            spi_configuration (if si_use_hw_cs (apply_change c i) then of_int (si_cs_pin i) OR 0x80 else 0) (apply_change c i)) \<and>
          sp_handle s' = (sp_handle s)[unat (si_id i) := si_handle_id i])
     else hal_heap s' = hal_heap s \<and> sp_handle s' = sp_handle s \<and> sp_bus s' = sp_bus s)"
proof -
  note st = spi_reach_st [OF assms(1-3)]
  let ?c = "(\<exists>hi. c = CsPolarity hi) \<longrightarrow> si_cs_pin i \<noteq> -1" and ?j = "apply_change c i"
  have "swp (run_change os gos (Some a) c) (\<lambda>r s'. spi_st (live g) s' \<and> change_done s a ?j ?c (change_gpio gos c i) r s') (\<lambda>_ _. False) s"
    by (rule run_change_inv [OF st assms(4)]) simp
  with assms(5) have fin: "spi_R (live g) {} s'" "change_done s a ?j ?c (change_gpio gos c i) r s'" by (simp_all add: swp_def)
  have same: "si_id ?j = si_id i" "si_handle_id ?j = si_handle_id i" "si_cs_pin ?j = si_cs_pin i" by (cases c; simp)+
  have ok: "spi_inst_ok ?j" if "r = 0"
  proof -
    have "hal_heap s' a = Some ?j" using fin(2) that by (simp add: change_done_def)
    with fin(1) have "spi_ready s' a ?j" unfolding spi_R_def by blast
    then show ?thesis by (simp add: spi_ready_def)
  qed
  then have want: "wanted_config ?j = spi_configuration (if si_use_hw_cs ?j then of_int (si_cs_pin i) OR 0x80 else 0) ?j" if "r = 0"
    using that same(3) by (auto simp: wanted_config_def spi_inst_ok_def pin_cs_def)
  show ?thesis
  proof (cases "r = 0")
    case True
    note fin2 = fin(2) [unfolded change_done_def if_P [OF True]]
    have "sp_log s' = sp_log s" using fin2 by (auto simp: bus_configured_def spi_same_def split: if_splits)
    then show ?thesis
      using fin2 True ok [OF True] want [OF True] same
      by (cases "si_cs_pin i = -1"; cases "\<exists>hi. c = CsPolarity hi") (simp_all only: if_True if_False bus_configured_def spi_same_def simp_thms)
  next
    case False
    then show ?thesis using fin(2) by (simp add: change_done_def spi_same_def)
  qed
qed

theorem spi_change_or_nothing_witness:
  "spi_inst_ok (apply_change (Baudrate 9600) sample_spi_b) \<and>
   (\<exists>k s'. drv_spi_set_baudrate sample_spi_os (Some 1) 9600 sample_spi2 = (Ret 0, s') \<and> sp_bus s' (spi_dev 0) = Some k \<and> qc_max_hz k = 9600)"
proof -
  obtain s' where run: "run_change sample_spi_os sample_gpio_os (Some 1) (Baudrate 9600) sample_spi2 = (Ret 0, s')"
    by (simp add: drv_spi_set_baudrate_def spi_inst_def drv_spi_update_config_def spi_eval sample_spi2_def sample_spi_b_def Let_def)
  have "hal_heap sample_spi2 1 = Some sample_spi_b" by (simp add: sample_spi2_def)
  from spi_change_or_nothing [OF sample_spi_os_ok sample_gpio_start_inv sample_spi2_reach this run] run
  show ?thesis by (simp add: sample_spi_b_def spi_configuration_def)
qed

text \<open>C18. Creating an instance succeeds with a new instance that has exactly the requested parameters, or fails with a nonzero value, whatever
  step failed, and then the instances, the open descriptors, the set of live GPIO instances, the configurations of the buses and the record of who
  made them are as before, and the caller's pointer is null (or untouched when the arguments were refused). Not as before, when a later step fails, are the function,
  direction and level of the pin: the call has given the pin to the GPIO as an output and does not give it back.
\<close>

theorem spi_create_or_nothing:
  assumes "os_files_ok os" and "gpio_inv g" and "reach (spi_exec (os, gos)) spi_valid (spi_start g d) s" and "sp_idx s \<noteq> -1"
    and "drv_spi_inst_create os gos n low mode baud bits cs lines inst s = (res, s')"
  shows "\<exists>r p. res = Ret (r, p) \<and>
    (if r = 0 then \<exists>a i. p = Some a \<and> hal_heap s a = None \<and> hal_heap s' = (hal_heap s)(a \<mapsto> i) \<and> spi_inst_ok i \<and>
       spi_made n low mode baud bits cs lines i
     else hal_heap s' = hal_heap s \<and> hal_fds s' = hal_fds s \<and> live (sp_gpio s') = live (sp_gpio s) \<and> sp_handle s' = sp_handle s \<and>
       sp_bus s' = sp_bus s \<and> (p = None \<or> inst = Some p \<and> \<not> spi_args_ok n mode baud bits cs lines))"
proof -
  note st = spi_reach_st [OF assms(1-3)]
  let ?P = "\<lambda>(r, p) s'. spi_st (live g) s' \<and> (if r = 0 then \<exists>a i. p = Some a \<and> hal_heap s a = None \<and> hal_heap s' = (hal_heap s)(a \<mapsto> i) \<and>
       spi_made n low mode baud bits cs lines i
     else hal_heap s' = hal_heap s \<and> spi_same s s' \<and> (p = None \<or> inst = Some p \<and> \<not> spi_args_ok n mode baud bits cs lines))"
  have "swp (drv_spi_inst_create os gos n low mode baud bits cs lines inst) ?P (\<lambda>_ _. False) s"
  proof (rule spi_create_inv [OF assms(1) st assms(4)], goal_cases)
    case (1 r p s')
    then show ?case by simp
  next
    case (2 a i s')
    then show ?case unfolding prod.case if_P [OF refl] by blast
  qed
  then obtain r p where res: "res = Ret (r, p)" and P: "?P (r, p) s'"
    using assms(5) by (cases res) (auto simp: swp_def)
  have "spi_inst_ok i" if "hal_heap s' a = Some i" for a i using P that by (auto simp: spi_R_def spi_ready_def)
  moreover have "hal_fds s' = hal_fds s \<and> live (sp_gpio s') = live (sp_gpio s)" if "hal_heap s' = hal_heap s"
  proof
    show "hal_fds s' = hal_fds s" using P st that by (simp add: hal_inv_def)
    have "spi_R (live g) {} s" "spi_R (live g) {} s'" using P st by simp_all
    from this [THEN spi_ginv, THEN ginv_live] show "live (sp_gpio s') = live (sp_gpio s)" using that by simp
  qed
  ultimately have *: "hal_heap s' = hal_heap s \<Longrightarrow> hal_fds s' = hal_fds s \<and> live (sp_gpio s') = live (sp_gpio s)"
    and **: "\<And>a i. hal_heap s' a = Some i \<Longrightarrow> spi_inst_ok i" by blast+
  show ?thesis
  proof (cases "r = 0")
    case True
    then obtain a i where "p = Some a" "hal_heap s a = None" "hal_heap s' = (hal_heap s)(a \<mapsto> i)" "spi_made n low mode baud bits cs lines i"
      using P by auto
    moreover from this have "spi_inst_ok i" by (intro ** [of a]) simp
    ultimately show ?thesis using res True by auto
  next
    case False
    then show ?thesis using res P * by (simp add: spi_same_def)
  qed
qed

theorem spi_create_or_nothing_witness:
  "spi_inst_ok sample_spi_b \<and> spi_made 0 True 3 500000 16 (-1) 1 sample_spi_b"
proof -
  have "reach (spi_exec (sample_spi_os, sample_gpio_os)) spi_valid (spi_start (gpio_start sample_fp []) 3) sample_spi1"
  proof (rule reach.step [OF reach.start])
    show "spi_valid (spi_start (gpio_start sample_fp []) 3) (SCreate 0 True 0 1000000 8 33 1 (Some None))" by (simp add: spi_start_def)
    show "spi_exec (sample_spi_os, sample_gpio_os) (SCreate 0 True 0 1000000 8 33 1 (Some None)) (spi_start (gpio_start sample_fp []) 3) =
        (Ret (), sample_spi1)" by (simp add: sdone_def sbind_def sample_create1 sret_def)
  qed
  from spi_create_or_nothing [OF sample_spi_os_ok sample_gpio_start_inv this _ sample_create2]
  obtain i where i: "hal_heap sample_spi2 = (hal_heap sample_spi1)(1 \<mapsto> i)" "spi_inst_ok i" "spi_made 0 True 3 500000 16 (-1) 1 i"
    by (auto simp: sample_spi1_def)
  from fun_cong [OF i(1), of 1] have "i = sample_spi_b" by (simp add: sample_spi2_def)
  with i show ?thesis by simp
qed

text \<open>Taking the chip select away from the hardware (\<open>set_cs_mode\<close> with false) is lost as soon as another instance has used the bus: the next
  transfer configures the bus with the pin in it again, although \<open>update_config\<close> leaves it out.
\<close>

theorem spi_cs_mode_lost:
  assumes "hal_heap s a = Some i" and "\<not> si_use_hw_cs i" and "0 \<le> si_cs_pin i" and "si_cs_pin i \<le> 63"
    and "sp_handle s ! unat (si_id i) \<noteq> si_handle_id i" and "drv_spi_transfer os (Some a) tx rx len rel s = (r, s')"
    and "sp_log s' \<noteq> sp_log s"
  shows "\<exists>e c. sp_log s' = sp_log s @ [e] \<and> ss_config e = Some c \<and> qc_soft_cs c = of_int (si_cs_pin i) OR 0x80 \<and> qc_soft_cs c \<noteq> 0"
proof -
  have "bit (of_int (si_cs_pin i) OR 0x80 :: u8) 7" by (simp add: bit_simps)
  then have cs: "of_int (si_cs_pin i) OR 0x80 \<noteq> (0 :: u8)" by auto
  have "si_cs_pin i \<noteq> -1" using assms(3) by simp
  then show ?thesis
    using assms(1,5-7) cs
    by (auto simp: drv_spi_transfer_def spi_inst_def spi_select_def g_handle_def set_g_handle_def spi_ctrl_config_def spi_ctrl_rw_def
        hinst_def hset_def sprog_defs Let_def pin_cs_def spi_configuration_def split: if_splits prod.splits cres.splits)
qed

text \<open>The chip select is taken from the hardware for the first instance, and the second has used the bus since.\<close>

definition sample_spi_cs :: "(nat, gpio_req list) spi" where
  "sample_spi_cs = sample_spi2\<lparr>hal_heap := [0 \<mapsto> sample_spi_a\<lparr>si_use_hw_cs := False\<rparr>, 1 \<mapsto> sample_spi_b]\<rparr>"

theorem spi_cs_mode_lost_witness:
  "\<exists>e c r s'. drv_spi_transfer sample_spi_os (Some 0) (Some 100) None 4 True sample_spi_cs = (r, s') \<and> sp_log s' = [e] \<and> ss_config e = Some c \<and>
    qc_soft_cs c = 0xA1"
proof -
  obtain r s' where run: "drv_spi_transfer sample_spi_os (Some 0) (Some 100) None 4 True sample_spi_cs = (r, s')" "sp_log s' \<noteq> []"
    by (simp add: drv_spi_transfer_def spi_inst_def spi_select_def spi_eval sample_spi_cs_def sample_spi2_def sample_spi_a_def sample_spi_b_def
        INT_MAX_64_def Let_def)
  from spi_cs_mode_lost [OF _ _ _ _ _ run(1), of "sample_spi_a\<lparr>si_use_hw_cs := False\<rparr>"] run show ?thesis
    by (auto simp: sample_spi_cs_def sample_spi2_def sample_spi_a_def)
qed

end
