(* ===== verification/Hci.thy ===== *)
theory Hci
  imports Hal_Inst C_Loops
begin

unbundle bit_operations_syntax

text \<open>
  The Bluetooth HCI transport (\<open>rtsmart_hal/drivers/hci/drv_hci.c\<close>): instances over \<open>/dev/hci<n>\<close>, the search for the first
  controller, the check that a buffer holds exactly one H:4 packet, and transfers that are restarted when a signal interrupts
  them. The state records what was handed to \<open>write\<close>. The mutex of an instance is not modelled beyond the errors of its
  initialisation and of taking it: every function is one step.
\<close>

section \<open>State\<close>

definition DRV_HCI_AUTO_MAX_DEVICES :: nat where "DRV_HCI_AUTO_MAX_DEVICES = 64"
definition DRV_HCI_H4_CMD :: u8 where "DRV_HCI_H4_CMD = 0x01"
definition DRV_HCI_H4_ACL :: u8 where "DRV_HCI_H4_ACL = 0x02"
definition DRV_HCI_H4_SCO :: u8 where "DRV_HCI_H4_SCO = 0x03"
definition DRV_HCI_H4_ISO :: u8 where "DRV_HCI_H4_ISO = 0x05"
definition DRV_HCI_DEFAULT_DEVICE :: string where "DRV_HCI_DEFAULT_DEVICE = ''/dev/hci0''"

record drv_hci_inst =
  hc_fd :: int

text \<open>A value returned: \<open>Inl e\<close> is \<open>-e\<close>.\<close>

type_synonym hci_rc = "errno + int"

text \<open>
  The kernel: \<open>errno\<close> after a failed \<open>open\<close>; the error of the mutex calls, if any; \<open>read\<close> and \<open>write\<close> with the bytes that were
  moved; \<open>poll\<close> for output or input with the number of descriptors, whether an error event is set and whether the event asked for is.
\<close>

record 'd hci_os = "'d os_files" +
  ho_errno :: "'d \<Rightarrow> errno"
  ho_mutex_init :: "'d \<Rightarrow> errno option \<times> 'd"
  ho_mutex_lock :: "'d \<Rightarrow> errno option \<times> 'd"
  ho_read :: "int \<Rightarrow> nat \<Rightarrow> 'd \<Rightarrow> (errno + bytes) \<times> 'd"
  ho_write :: "int \<Rightarrow> bytes \<Rightarrow> 'd \<Rightarrow> (errno + nat) \<times> 'd"
  ho_poll :: "int \<Rightarrow> bool \<Rightarrow> int \<Rightarrow> 'd \<Rightarrow> (errno + nat \<times> bool \<times> bool) \<times> 'd"

text \<open>A write: the descriptor, the bytes given and the outcome.\<close>

type_synonym hci_write = "int \<times> bytes \<times> (errno + nat)"

record 'd hci = "(drv_hci_inst, 'd) hal" +
  hc_log :: "hci_write list"

section \<open>Packets\<close>

definition drv_hci_get_le16 :: "bytes \<Rightarrow> nat \<Rightarrow> u16 cres" where
  "drv_hci_get_le16 data off =
     cbind (rd8 data off) (\<lambda>a. cbind (rd8 data (off + 1)) (\<lambda>b. Ret (ucast a OR push_bit 8 (ucast b))))"

definition drv_hci_tx_packet_valid :: "bytes option \<Rightarrow> u64 \<Rightarrow> bool cres" where
  "drv_hci_tx_packet_valid packet sz =
     (case packet of None \<Rightarrow> Ret False
      | Some p \<Rightarrow>
        if sz < 2 then Ret False
        else cbind (rd8 p 0) (\<lambda>t.
          if t = DRV_HCI_H4_CMD then
            if sz < 4 then Ret False else cbind (rd8 p 3) (\<lambda>n. Ret (sz = 4 + ucast n))
          else if t = DRV_HCI_H4_ACL then
            if sz < 5 then Ret False else cbind (drv_hci_get_le16 p 3) (\<lambda>n. Ret (sz = 5 + ucast n))
          else if t = DRV_HCI_H4_SCO then
            if sz < 4 then Ret False else cbind (rd8 p 3) (\<lambda>n. Ret (sz = 4 + ucast n))
          else if t = DRV_HCI_H4_ISO then
            if sz < 5 then Ret False else cbind (drv_hci_get_le16 p 3) (\<lambda>n. Ret (sz = 5 + (ucast n AND 0x3fff)))
          else Ret False))"

section \<open>Instances\<close>

text \<open>A null \<open>inst\<close> is treated as a null \<open>*inst\<close>.\<close>

definition drv_hci_inst_destroy :: "'d hci_os \<Rightarrow> nat option \<Rightarrow> ('d hci, nat option) prog" where
  "drv_hci_inst_destroy os inst =
     (case inst of None \<Rightarrow> sret None
      | Some a \<Rightarrow> sbind (hinst a) (\<lambda>i. sbind (hclose os (hc_fd i)) (\<lambda>_. sbind (hfree a) (\<lambda>_. sret None))))"

text \<open>\<open>inst\<close> is null, or points to a pointer; the result is the value returned and the caller's pointer.\<close>

definition drv_hci_inst_create :: "'d hci_os \<Rightarrow> string option \<Rightarrow> nat option option \<Rightarrow> ('d hci, hci_rc \<times> nat option) prog" where
  "drv_hci_inst_create os device inst =
     (case inst of None \<Rightarrow> sret (Inl EINVAL, None)
      | Some p \<Rightarrow>
        sbind (if p \<noteq> None then drv_hci_inst_destroy os p else sret None) (\<lambda>p.
        let device = (case device of None \<Rightarrow> DRV_HCI_DEFAULT_DEVICE | Some d \<Rightarrow> d) in
        sbind (hopen os device) (\<lambda>fd.
        if fd < 0 then sbind (sget (\<lambda>s. ho_errno os (hal_dev s))) (\<lambda>e. sret (Inl e, p))
        else
          sbind (hmalloc os) (\<lambda>ok.
          if \<not> ok then sbind (hclose os fd) (\<lambda>_. sret (Inl ENOMEM, p))
          else
            sbind (hnew \<lparr>hc_fd = fd\<rparr>) (\<lambda>a.
            sbind (hcall (ho_mutex_init os)) (\<lambda>result.
            case result of Some e \<Rightarrow> sbind (hclose os fd) (\<lambda>_. sbind (hfree a) (\<lambda>_. sret (Inl e, p)))
            | None \<Rightarrow> sret (Inr 0, Some a)))))))"

definition hci_path :: "nat \<Rightarrow> string" where
  "hci_path n = ''/dev/hci'' @ decimal n"

text \<open>
  The loop over the device numbers. The caller's buffer is given with its content (\<open>None\<close> for null) and comes back; a copy past
  its end is a fault.
\<close>

definition hci_path_size :: nat where "hci_path_size = length DRV_HCI_DEFAULT_DEVICE + 1 + 12"

fun hci_auto_from ::
    "'d hci_os \<Rightarrow> nat list \<Rightarrow> nat option \<Rightarrow> string option \<Rightarrow> u64 \<Rightarrow> errno \<Rightarrow> ('d hci, hci_rc \<times> nat option \<times> string option) prog" where
  "hci_auto_from os [] p device device_size last_error = sret (Inl last_error, p, device)"
| "hci_auto_from os (index # is) p device device_size last_error =
     (let path = hci_path index in
      if length path \<ge> hci_path_size then sret (Inl ENAMETOOLONG, p, device)
      else
        sbind (drv_hci_inst_create os (Some path) (Some p)) (\<lambda>(result, p).
        case result of
          Inr _ \<Rightarrow>
            (case device of None \<Rightarrow> sret (Inr 0, p, None)
             | Some buf \<Rightarrow>
               if of_nat (length path) \<ge> device_size then
                 sbind (drv_hci_inst_destroy os p) (\<lambda>p. sret (Inl ENAMETOOLONG, p, Some buf))
               else if length path + 1 \<le> length buf then
                 sret (Inr 0, p, Some (path @ [CHR 0x00] @ drop (length path + 1) buf))
               else slift Fault)
        | Inl e \<Rightarrow>
            hci_auto_from os is p device device_size (if e \<noteq> ENOENT \<or> last_error = ENOENT then e else last_error)))"

definition drv_hci_inst_create_auto ::
    "'d hci_os \<Rightarrow> nat option option \<Rightarrow> string option \<Rightarrow> u64 \<Rightarrow> ('d hci, hci_rc \<times> nat option \<times> string option) prog" where
  "drv_hci_inst_create_auto os inst device device_size =
     (case inst of None \<Rightarrow> sret (Inl EINVAL, None, device)
      | Some p \<Rightarrow>
        if device \<noteq> None \<and> device_size = 0 then sret (Inl EINVAL, p, device)
        else hci_auto_from os [0..<DRV_HCI_AUTO_MAX_DEVICES] p device device_size ENOENT)"

section \<open>Transfers\<close>

text \<open>A call that is repeated while a signal interrupts it.\<close>

partial_function (option) hci_retry :: "('s, errno + 'a) prog \<Rightarrow> 's \<Rightarrow> ((errno + 'a) cres \<times> 's) option" where
  "hci_retry m s = (case m s of (Ret (Inl e), s') \<Rightarrow> if e = EINTR then hci_retry m s' else Some (Ret (Inl e), s')
     | (Ret (Inr x), s') \<Rightarrow> Some (Ret (Inr x), s') | (Fail e, s') \<Rightarrow> Some (Fail e, s') | (Fault, s') \<Rightarrow> Some (Fault, s'))"

definition hci_write :: "'d hci_os \<Rightarrow> int \<Rightarrow> bytes \<Rightarrow> ('d hci, errno + nat) prog" where
  "hci_write os fd data =
     sbind (hcall (ho_write os fd data)) (\<lambda>r. sbind (smod (\<lambda>s. s\<lparr>hc_log := hc_log s @ [(fd, data, r)]\<rparr>)) (\<lambda>_. sret r))"

definition drv_hci_write_once :: "'d hci_os \<Rightarrow> int \<Rightarrow> bytes \<Rightarrow> ('d hci, errno + nat) oprog" where
  "drv_hci_write_once os fd packet = hci_retry (hci_write os fd packet)"

text \<open>The bytes read go to the front of the caller's buffer.\<close>

definition drv_hci_read :: "'d hci_os \<Rightarrow> nat option \<Rightarrow> bytes option \<Rightarrow> u64 \<Rightarrow> ('d hci, hci_rc \<times> bytes option) oprog" where
  "drv_hci_read os inst buffer sz =
     (case inst of None \<Rightarrow> orun (sret (Inl EINVAL, buffer))
      | Some a \<Rightarrow> obind (orun (hinst a)) (\<lambda>i.
          if hc_fd i < 0 \<or> buffer = None \<and> sz \<noteq> 0 then orun (sret (Inl EINVAL, buffer))
          else obind (hci_retry (hcall (ho_read os (hc_fd i) (unat sz)))) (\<lambda>r.
            case r of Inl e \<Rightarrow> orun (sret (Inl e, buffer))
            | Inr d \<Rightarrow>
                (case buffer of None \<Rightarrow> orun (sret (Inr 0, None))
                 | Some b \<Rightarrow> let d = take (unat sz) d in orun (sbind (slift (wrn b 0 d)) (\<lambda>b. sret (Inr (int (length d)), Some b)))))))"

text \<open>
  The wait for room in the device and the second attempt; \<open>EWOULDBLOCK\<close> is \<open>EAGAIN\<close>. A short write is an error.
\<close>

definition hci_wait_write :: "'d hci_os \<Rightarrow> int \<Rightarrow> bytes \<Rightarrow> int \<Rightarrow> ('d hci, errno + nat) oprog" where
  "hci_wait_write os fd data timeout_ms =
     obind (hci_retry (hcall (ho_poll os fd True timeout_ms))) (\<lambda>r.
     case r of Inl e \<Rightarrow> orun (sret (Inl e))
     | Inr (n, error_event, _) \<Rightarrow>
         if n > 0 \<and> \<not> error_event then drv_hci_write_once os fd data
         else if n = 0 then orun (sret (Inl ETIMEDOUT))
         else orun (sret (Inl EIO)))"

definition drv_hci_write_packet :: "'d hci_os \<Rightarrow> nat option \<Rightarrow> bytes option \<Rightarrow> u64 \<Rightarrow> int \<Rightarrow> ('d hci, hci_rc) oprog" where
  "drv_hci_write_packet os inst packet sz timeout_ms =
     (case inst of None \<Rightarrow> orun (sret (Inl EINVAL))
      | Some a \<Rightarrow> obind (orun (hinst a)) (\<lambda>i.
          if hc_fd i < 0 then orun (sret (Inl EINVAL))
          else obind (orun (slift (drv_hci_tx_packet_valid packet sz))) (\<lambda>valid.
            if \<not> valid then orun (sret (Inl EINVAL))
            else obind (orun (hcall (ho_mutex_lock os))) (\<lambda>lock_result.
              case lock_result of Some e \<Rightarrow> orun (sret (Inl e))
              | None \<Rightarrow>
                obind (orun (slift (rdn (the packet) 0 (unat sz)))) (\<lambda>data.
                obind (drv_hci_write_once os (hc_fd i) data) (\<lambda>result.
                obind (if result = Inl EAGAIN \<and> timeout_ms \<noteq> 0 then hci_wait_write os (hc_fd i) data timeout_ms
                       else orun (sret result)) (\<lambda>result.
                orun (sret (case result of Inl e \<Rightarrow> Inl e | Inr n \<Rightarrow> if n \<noteq> unat sz then Inl EIO else Inr (int n))))))))))"

definition drv_hci_poll :: "'d hci_os \<Rightarrow> nat option \<Rightarrow> int \<Rightarrow> ('d hci, hci_rc) oprog" where
  "drv_hci_poll os inst timeout_ms =
     (case inst of None \<Rightarrow> orun (sret (Inl EINVAL))
      | Some a \<Rightarrow> obind (orun (hinst a)) (\<lambda>i.
          if hc_fd i < 0 then orun (sret (Inl EINVAL))
          else obind (hci_retry (hcall (ho_poll os (hc_fd i) False timeout_ms))) (\<lambda>r.
            case r of Inl e \<Rightarrow> orun (sret (Inl e))
            | Inr (n, error_event, pollin) \<Rightarrow>
                if n > 0 \<and> error_event then orun (sret (Inl EIO))
                else orun (sret (Inr (if n > 0 \<and> pollin then 1 else 0))))))"

definition drv_hci_get_fd :: "nat option \<Rightarrow> ('d hci, int) prog" where
  "drv_hci_get_fd inst = (case inst of None \<Rightarrow> sret (-1) | Some a \<Rightarrow> sbind (hinst a) (\<lambda>i. sret (hc_fd i)))"

section \<open>The packet format\<close>

text \<open>What a controller accepts: a command, data of an ACL, SCO or ISO connection. The header of ISO data has two reserved bits.\<close>

datatype h4_packet = H4Cmd u16 bytes | H4Acl u16 bytes | H4Sco u16 bytes | H4Iso u16 "2 word" bytes

fun h4_ok :: "h4_packet \<Rightarrow> bool" where
  "h4_ok (H4Cmd opcode params) = (length params < 256)"
| "h4_ok (H4Acl handle dat) = (length dat < 65536)"
| "h4_ok (H4Sco handle dat) = (length dat < 256)"
| "h4_ok (H4Iso handle rfu dat) = (length dat < 16384)"

fun h4_encode :: "h4_packet \<Rightarrow> bytes" where
  "h4_encode (H4Cmd opcode params) = DRV_HCI_H4_CMD # to_le 2 opcode @ of_nat (length params) # params"
| "h4_encode (H4Acl handle dat) = DRV_HCI_H4_ACL # to_le 2 handle @ to_le 2 (of_nat (length dat) :: u16) @ dat"
| "h4_encode (H4Sco handle dat) = DRV_HCI_H4_SCO # to_le 2 handle @ of_nat (length dat) # dat"
| "h4_encode (H4Iso handle rfu dat) =
     DRV_HCI_H4_ISO # to_le 2 handle @ to_le 2 (of_nat (length dat) OR push_bit 14 (ucast rfu) :: u16) @ dat"

definition le16 :: "u8 \<Rightarrow> u8 \<Rightarrow> u16" where
  "le16 a b = ucast a OR push_bit 8 (ucast b)"

lemma to_le_le16 [simp]: "to_le 2 (le16 a b) = [a, b]"
proof -
  have "ucast (le16 a b) = a" by (rule bit_word_eqI) (auto simp: le16_def bit_simps)
  moreover have "ucast (drop_bit 8 (le16 a b)) = b" by (rule bit_word_eqI) (auto simp: le16_def bit_simps dest: bit_imp_le_length)
  ultimately show ?thesis by (simp add: numeral_2_eq_2)
qed

lemma le16_to_le: "to_le 2 w = [a, b] \<Longrightarrow> le16 a b = w"
proof -
  assume "to_le 2 w = [a, b]"
  then have "a = ucast w" "b = ucast (drop_bit 8 w)" by (simp_all add: numeral_2_eq_2)
  then show ?thesis by (intro bit_word_eqI) (auto simp: le16_def bit_simps)
qed

lemma to_le_2_bytes: "\<exists>a b. to_le 2 w = [a, b]"
  by (simp add: numeral_2_eq_2)

text \<open>Lengths as 64-bit words.\<close>

lemma len_word: "n < 2 ^ 64 \<Longrightarrow> k < 2 ^ 64 \<Longrightarrow> (of_nat n :: u64) = of_nat k \<longleftrightarrow> n = k"
  by (simp add: word_of_nat_eq_iff take_bit_nat_eq_self)

lemma len_less: "n < 2 ^ 64 \<Longrightarrow> k < 2 ^ 64 \<Longrightarrow> (of_nat n :: u64) < of_nat k \<longleftrightarrow> n < k"
  by (simp add: word_less_nat_alt unsigned_of_nat take_bit_nat_eq_self)

lemma len_iso: "(ucast n AND 0x3fff :: u64) = of_nat (unat n mod 16384)" for n :: u16
proof -
  have "(ucast n AND 0x3fff :: u64) = take_bit 14 (ucast n)" by (simp add: take_bit_eq_mask mask_eq_exp_minus_1)
  also have "\<dots> = of_nat (unat (take_bit 14 (ucast n :: u64)))" by simp
  also have "unat (take_bit 14 (ucast n :: u64)) = take_bit 14 (unat n)"
    by (simp add: unsigned_take_bit_eq unsigned_ucast_eq take_bit_nat_eq_self)
  finally show ?thesis by (simp add: take_bit_eq_mod)
qed

lemma unat_u8_less: "unat (n :: u8) < 256" and unat_u16_less: "unat (m :: u16) < 65536"
  using unsigned_less [of n, where 'a = nat] unsigned_less [of m, where 'a = nat] by simp_all

text \<open>The length the header announces.\<close>

definition h4_total :: "bytes \<Rightarrow> nat option" where
  "h4_total p =
     (if length p \<ge> 4 \<and> p ! 0 \<in> {DRV_HCI_H4_CMD, DRV_HCI_H4_SCO} then Some (4 + unat (p ! 3))
      else if length p \<ge> 5 \<and> p ! 0 = DRV_HCI_H4_ACL then Some (5 + unat (le16 (p ! 3) (p ! 4)))
      else if length p \<ge> 5 \<and> p ! 0 = DRV_HCI_H4_ISO then Some (5 + unat (le16 (p ! 3) (p ! 4)) mod 16384)
      else None)"

lemmas h4_types = DRV_HCI_H4_CMD_def DRV_HCI_H4_ACL_def DRV_HCI_H4_SCO_def DRV_HCI_H4_ISO_def

lemma tx_packet_valid_total:
  assumes "length p < 2 ^ 64"
  shows "drv_hci_tx_packet_valid (Some p) (of_nat (length p)) = Ret (h4_total p = Some (length p))"
proof -
  have less: "(of_nat (length p) :: u64) < 2 \<longleftrightarrow> length p < 2" "(of_nat (length p) :: u64) < 4 \<longleftrightarrow> length p < 4"
    "(of_nat (length p) :: u64) < 5 \<longleftrightarrow> length p < 5"
    using len_less [OF assms, of 2] len_less [OF assms, of 4] len_less [OF assms, of 5] by simp_all
  have eq1: "(of_nat (length p) :: u64) = 4 + ucast n \<longleftrightarrow> 4 + unat n = length p" for n :: u8
    using len_word [OF assms, of "4 + unat n"] unat_u8_less [of n] by auto
  have eq2: "(of_nat (length p) :: u64) = 5 + ucast n \<longleftrightarrow> 5 + unat n = length p" for n :: u16
    using len_word [OF assms, of "5 + unat n"] unat_u16_less [of n] by auto
  have eq3: "(of_nat (length p) :: u64) = 5 + (ucast n AND 0x3fff) \<longleftrightarrow> 5 + unat n mod 16384 = length p" for n :: u16
    using len_word [OF assms, of "5 + unat n mod 16384"] by (auto simp: len_iso)
  have le: "5 \<le> length p \<Longrightarrow> drv_hci_get_le16 p 3 = Ret (le16 (p ! 3) (p ! 4))"
    by (simp add: drv_hci_get_le16_def rd8_def le16_def)
  show ?thesis
    by (auto simp: drv_hci_tx_packet_valid_def h4_total_def rd8_def less eq1 eq2 eq3 le h4_types not_less)
qed

lemma split4: "4 \<le> length p \<Longrightarrow> p = p ! 0 # p ! 1 # p ! 2 # p ! 3 # drop 4 p"
  by (cases p; simp; cases "tl p"; simp; cases "tl (tl p)"; simp; cases "tl (tl (tl p))"; simp)

lemma split5: "5 \<le> length p \<Longrightarrow> p = p ! 0 # p ! 1 # p ! 2 # p ! 3 # p ! 4 # drop 5 p"
proof -
  assume "5 \<le> length p"
  then have "drop 4 p = p ! 4 # drop 5 p" using Cons_nth_drop_Suc [of 4 p] by simp
  with split4 [of p] \<open>5 \<le> length p\<close> show ?thesis by simp
qed

lemma iso_length: "n < 16384 \<Longrightarrow> unat (of_nat n OR push_bit 14 r :: u16) mod 16384 = n"
proof -
  assume n: "n < 16384"
  have "take_bit 14 (of_nat n OR push_bit 14 r :: u16) = take_bit 14 (of_nat n)"
    by (rule bit_word_eqI) (auto simp: bit_simps)
  then have "take_bit 14 (unat (of_nat n OR push_bit 14 r :: u16)) = take_bit 14 (unat (of_nat n :: u16))"
    by (metis unsigned_take_bit_eq)
  then show ?thesis using n by (simp add: take_bit_eq_mod unsigned_of_nat)
qed

lemma iso_split: "of_nat (unat w mod 16384) OR push_bit 14 (ucast (ucast (drop_bit 14 w) :: 2 word)) = w" for w :: u16
proof -
  have "(of_nat (unat w mod 16384) :: u16) = take_bit 14 w"
  proof -
    have "unat (take_bit 14 w) = unat w mod 16384" by (simp only: unsigned_take_bit_eq) (simp add: take_bit_eq_mod)
    moreover have "(of_nat (unat (take_bit 14 w)) :: u16) = take_bit 14 w" by simp
    ultimately show ?thesis by (simp only:)
  qed
  then show ?thesis by (intro bit_word_eqI) (auto simp: bit_simps dest: bit_imp_le_length)
qed

lemma h4_total_encode: "h4_ok k \<Longrightarrow> h4_total (h4_encode k) = Some (length (h4_encode k))"
proof (cases k)
  case (H4Cmd w ps)
  moreover assume "h4_ok k"
  ultimately show ?thesis using to_le_2_bytes [of w] by (auto simp: h4_total_def unsigned_of_nat take_bit_nat_eq_self h4_types)
next
  case (H4Sco w ps)
  moreover assume "h4_ok k"
  ultimately show ?thesis using to_le_2_bytes [of w] by (auto simp: h4_total_def unsigned_of_nat take_bit_nat_eq_self h4_types)
next
  case (H4Acl w ps)
  moreover assume "h4_ok k"
  moreover obtain a b c d where "to_le 2 w = [a, b]" "to_le 2 (of_nat (length ps) :: u16) = [c, d]" using to_le_2_bytes by metis
  moreover from this have "le16 c d = of_nat (length ps)" by (intro le16_to_le)
  ultimately show ?thesis by (auto simp: h4_total_def unsigned_of_nat take_bit_nat_eq_self h4_types)
next
  case (H4Iso w r ps)
  moreover assume "h4_ok k"
  moreover obtain a b c d where "to_le 2 w = [a, b]" "to_le 2 (of_nat (length ps) OR push_bit 14 (ucast r) :: u16) = [c, d]"
    using to_le_2_bytes by metis
  moreover from this have "le16 c d = of_nat (length ps) OR push_bit 14 (ucast r)" by (intro le16_to_le)
  ultimately show ?thesis using iso_length [of "length ps" "ucast r"] by (auto simp: h4_total_def h4_types)
qed

lemma h4_total_decode:
  assumes "h4_total p = Some (length p)"
  shows "\<exists>k. h4_ok k \<and> p = h4_encode k"
proof -
  let ?w = "le16 (p ! 3) (p ! 4)"
  consider (cmd) "4 \<le> length p" "p ! 0 = DRV_HCI_H4_CMD" "length p = 4 + unat (p ! 3)"
    | (sco) "4 \<le> length p" "p ! 0 = DRV_HCI_H4_SCO" "length p = 4 + unat (p ! 3)"
    | (acl) "5 \<le> length p" "p ! 0 = DRV_HCI_H4_ACL" "length p = 5 + unat ?w"
    | (iso) "5 \<le> length p" "p ! 0 = DRV_HCI_H4_ISO" "length p = 5 + unat ?w mod 16384"
    using assms by (auto simp: h4_total_def split: if_splits)
  then show ?thesis
  proof cases
    case cmd
    then have "p = h4_encode (H4Cmd (le16 (p ! 1) (p ! 2)) (drop 4 p))" using split4 [of p] by simp
    moreover have "h4_ok (H4Cmd (le16 (p ! 1) (p ! 2)) (drop 4 p))" using cmd unat_u8_less [of "p ! 3"] by simp
    ultimately show ?thesis by blast
  next
    case sco
    then have "p = h4_encode (H4Sco (le16 (p ! 1) (p ! 2)) (drop 4 p))" using split4 [of p] by simp
    moreover have "h4_ok (H4Sco (le16 (p ! 1) (p ! 2)) (drop 4 p))" using sco unat_u8_less [of "p ! 3"] by simp
    ultimately show ?thesis by blast
  next
    case acl
    then have "p = h4_encode (H4Acl (le16 (p ! 1) (p ! 2)) (drop 5 p))" using split5 [of p] by simp
    moreover have "h4_ok (H4Acl (le16 (p ! 1) (p ! 2)) (drop 5 p))" using acl unat_u16_less [of ?w] by simp
    ultimately show ?thesis by blast
  next
    case iso
    let ?k = "H4Iso (le16 (p ! 1) (p ! 2)) (ucast (drop_bit 14 ?w)) (drop 5 p)"
    have "p = h4_encode ?k" using split5 [of p] iso iso_split [of ?w] by simp
    moreover have "h4_ok ?k" using iso by simp
    ultimately show ?thesis by blast
  qed
qed

text \<open>Only the bytes that are announced matter.\<close>

lemma tx_packet_valid_take:
  assumes "unat sz \<le> length p"
  shows "drv_hci_tx_packet_valid (Some p) sz = drv_hci_tx_packet_valid (Some (take (unat sz) p)) sz"
proof -
  have rd: "k < unat sz \<Longrightarrow> rd8 (take (unat sz) p) k = rd8 p k" for k
    using assms by (simp add: rd8_def)
  have l: "sz < 2 \<longleftrightarrow> unat sz < 2" "sz < 4 \<longleftrightarrow> unat sz < 4" "sz < 5 \<longleftrightarrow> unat sz < 5"
    by (simp_all add: word_less_nat_alt)
  have le: "\<not> unat sz < 5 \<Longrightarrow> drv_hci_get_le16 (take (unat sz) p) 3 = drv_hci_get_le16 p 3"
    by (simp add: drv_hci_get_le16_def rd)
  show ?thesis
    unfolding drv_hci_tx_packet_valid_def option.case l
    by (simp add: rd le not_less cong: if_cong)
qed

lemma h4_total_iff: "h4_total p = Some (length p) \<longleftrightarrow> (\<exists>k. h4_ok k \<and> p = h4_encode k)"
  by (auto intro: h4_total_encode h4_total_decode)

lemma tx_packet_valid_format:
  assumes "unat sz \<le> length p"
  shows "drv_hci_tx_packet_valid (Some p) sz = Ret (\<exists>k. h4_ok k \<and> take (unat sz) p = h4_encode k)"
proof -
  let ?p = "take (unat sz) p"
  have sz: "(of_nat (length ?p) :: u64) = sz" "length ?p < 2 ^ 64"
    using assms unsigned_less [of sz, where 'a = nat] by (simp_all add: min_def)
  show ?thesis
    unfolding tx_packet_valid_take [OF assms] h4_total_iff [of ?p, symmetric] using tx_packet_valid_total [OF sz(2)] sz(1) by (simp only:)
qed

section \<open>What is written\<close>

lemma olp_hci_retry:
  assumes "P s" and "\<And>s. P s \<Longrightarrow> swp m (\<lambda>r s'. if r = Inl EINTR then P s' else Q r s') E s"
  shows "olp (hci_retry m) Q E s"
proof -
  have "hci_retry m s = Some y \<Longrightarrow> m = m \<longrightarrow> P s \<longrightarrow> (case y of (r, s') \<Rightarrow> case r of Ret a \<Rightarrow> Q a s' | Fail e \<Rightarrow> E e s' | Fault \<Rightarrow> False)" for y
  proof (rule hci_retry.raw_induct [where P = "\<lambda>m' s y. m' = m \<longrightarrow> P s \<longrightarrow>
      (case y of (r, s') \<Rightarrow> case r of Ret a \<Rightarrow> Q a s' | Fail e \<Rightarrow> E e s' | Fault \<Rightarrow> False)"], goal_cases)
    case (1 f m' s y)
    show ?case
    proof (intro impI)
      assume m: "m' = m" and P: "P s"
      obtain q t where q: "m s = (q, t)" by fastforce
      note step = assms(2) [OF P, unfolded swp_def q] and run = 1(3) [unfolded m q]
      show "case y of (r, s') \<Rightarrow> case r of Ret a \<Rightarrow> Q a s' | Fail e \<Rightarrow> E e s' | Fault \<Rightarrow> False"
      proof (cases "q = Ret (Inl EINTR)")
        case True
        then have "f m t = Some y" "P t" using step run by simp_all
        with 1(2) show ?thesis by simp
      next
        case False
        then have "y = (q, t)" using run by (cases q) (auto split: sum.splits)
        with False step show ?thesis by (cases q) (auto split: sum.splits)
      qed
    qed
  qed simp
  then show ?thesis using assms(1) by (auto simp: olp_def)
qed

text \<open>
  The attempts since the log was \<open>l\<close>: all of them interrupted or refused for want of room; or followed by one that wrote \<open>n\<close> bytes;
  or none that wrote the packet.
\<close>

definition hci_tried :: "int \<Rightarrow> bytes \<Rightarrow> hci_write list \<Rightarrow> 'd hci \<Rightarrow> bool" where
  "hci_tried fd dat l s \<longleftrightarrow> (\<exists>ws. hc_log s = l @ ws \<and> set ws \<subseteq> {(fd, dat, Inl EINTR), (fd, dat, Inl EAGAIN)})"

definition hci_sent :: "int \<Rightarrow> bytes \<Rightarrow> nat \<Rightarrow> hci_write list \<Rightarrow> 'd hci \<Rightarrow> bool" where
  "hci_sent fd dat n l s \<longleftrightarrow>
     (\<exists>ws. hc_log s = l @ ws @ [(fd, dat, Inr n)] \<and> set ws \<subseteq> {(fd, dat, Inl EINTR), (fd, dat, Inl EAGAIN)})"

definition hci_failed :: "int \<Rightarrow> bytes \<Rightarrow> hci_write list \<Rightarrow> 'd hci \<Rightarrow> bool" where
  "hci_failed fd dat l s \<longleftrightarrow> (\<exists>ws. hc_log s = l @ ws \<and> (\<forall>(f, b, r) \<in> set ws. f = fd \<and> b = dat \<and> r \<noteq> Inr (length dat)))"

lemma hci_tried_dev [simp]: "hci_tried fd dat l (s\<lparr>hal_dev := d\<rparr>) = hci_tried fd dat l s"
  by (simp add: hci_tried_def)

lemma hci_tried_start: "hc_log s = l \<Longrightarrow> hci_tried fd dat l s"
  by (simp add: hci_tried_def)

lemma hci_tried_failed: "hci_tried fd dat l s \<Longrightarrow> hci_failed fd dat l s"
  by (fastforce simp: hci_tried_def hci_failed_def)

lemma hci_sent_failed: "hci_sent fd dat n l s \<Longrightarrow> n \<noteq> length dat \<Longrightarrow> hci_failed fd dat l s"
  by (fastforce simp: hci_sent_def hci_failed_def)

definition hci_outcome :: "int \<Rightarrow> bytes \<Rightarrow> hci_write list \<Rightarrow> errno + nat \<Rightarrow> 'd hci \<Rightarrow> bool" where
  "hci_outcome fd dat l r s =
     (case r of Inr n \<Rightarrow> hci_sent fd dat n l s | Inl e \<Rightarrow> if e = EAGAIN then hci_tried fd dat l s else hci_failed fd dat l s)"

lemma hci_outcome_failed: "hci_failed fd dat l s \<Longrightarrow> e \<noteq> EAGAIN \<Longrightarrow> hci_outcome fd dat l (Inl e) s"
  by (simp add: hci_outcome_def)

lemma swp_hci_log_call: "(\<And>r d. P r (s\<lparr>hal_dev := d\<rparr>)) \<Longrightarrow> swp (hcall f) P E s"
  by (auto simp: swp_def hcall_def split: prod.splits)

lemma swp_hci_write:
  assumes "hci_tried fd dat l s"
  shows "swp (hci_write os fd dat) (\<lambda>r s'. if r = Inl EINTR then hci_tried fd dat l s' else hci_outcome fd dat l r s') E s"
proof -
  obtain ws where ws: "hc_log s = l @ ws" "set ws \<subseteq> {(fd, dat, Inl EINTR), (fd, dat, Inl EAGAIN)}"
    using assms by (auto simp: hci_tried_def)
  have entry: "if r = Inl EINTR then hci_tried fd dat l t else hci_outcome fd dat l r t"
    if "hc_log t = l @ ws @ [(fd, dat, r)]" for r t
  proof (cases r)
    case (Inr n)
    then show ?thesis using that ws(2) by (auto simp: hci_outcome_def hci_sent_def)
  next
    case (Inl e)
    have "hci_failed fd dat l t" unfolding hci_failed_def using that ws(2) Inl by fastforce
    moreover have "e \<in> {EINTR, EAGAIN} \<Longrightarrow> hci_tried fd dat l t" unfolding hci_tried_def using that ws(2) Inl by auto
    ultimately show ?thesis using Inl by (auto simp: hci_outcome_def)
  qed
  show ?thesis unfolding hci_write_def swp_simps by (rule swp_hci_log_call, rule entry) (simp add: ws)
qed

lemma olp_write_once:
  "hci_tried fd dat l s \<Longrightarrow> olp (drv_hci_write_once os fd dat) (hci_outcome fd dat l) E s"
  unfolding drv_hci_write_once_def by (rule olp_hci_retry [where P = "hci_tried fd dat l"], assumption, rule swp_hci_write)

lemma olp_wait_write:
  assumes "hci_tried fd dat l s"
  shows "olp (hci_wait_write os fd dat t) (\<lambda>r s'. hci_outcome fd dat l r s' \<or> hci_failed fd dat l s' \<and> (\<exists>e. r = Inl e)) E s"
  unfolding hci_wait_write_def olp_simps
proof (rule olp_hci_retry [where P = "hci_tried fd dat l", OF assms], rule swp_hci_log_call, goal_cases)
  case (1 s r d)
  let ?s = "s\<lparr>hal_dev := d\<rparr>"
  have tried: "hci_tried fd dat l ?s" using 1 by simp
  have "olp (drv_hci_write_once os fd dat) (\<lambda>r s'. hci_outcome fd dat l r s' \<or> hci_failed fd dat l s' \<and> (\<exists>e. r = Inl e)) E ?s"
    by (rule olp_mono [OF olp_write_once [OF tried]]) simp_all
  then show ?case using tried hci_tried_failed [OF tried] by (auto split: sum.splits)
qed

text \<open>What a call of \<open>drv_hci_write_packet\<close> may return, given the attempts it made.\<close>

definition hci_packet_result :: "int \<Rightarrow> bytes \<Rightarrow> hci_write list \<Rightarrow> hci_rc \<Rightarrow> 'd hci \<Rightarrow> bool" where
  "hci_packet_result fd dat l r s =
     (case r of Inl e \<Rightarrow> hci_failed fd dat l s
      | Inr n \<Rightarrow> n = int (length dat) \<and> (\<exists>k. h4_ok k \<and> dat = h4_encode k) \<and> hci_sent fd dat (length dat) l s)"

lemma hci_packet_result_sent:
  assumes "hci_outcome fd dat l r s \<or> hci_failed fd dat l s \<and> (\<exists>e. r = Inl e)" and "\<exists>k. h4_ok k \<and> dat = h4_encode k"
  shows "hci_packet_result fd dat l (case r of Inl e \<Rightarrow> Inl e | Inr n \<Rightarrow> if n \<noteq> length dat then Inl EIO else Inr (int n)) s"
  using assms hci_sent_failed [of fd dat _ l s] hci_tried_failed [of fd dat l s]
  by (cases r) (auto simp: hci_packet_result_def hci_outcome_def split: if_splits)

lemma write_packet_result:
  assumes i: "hal_heap s a = Some i" and sz: "unat sz \<le> length p"
  shows "olp (drv_hci_write_packet os (Some a) (Some p) sz t) (hci_packet_result (hc_fd i) (take (unat sz) p) (hc_log s)) E s"
proof -
  let ?d = "take (unat sz) p" and ?l = "hc_log s"
  have len: "length ?d = unat sz" using sz by simp
  have inst: "swp (hinst a) Q E s = Q i s" for Q using i by (simp add: swp_def hinst_def)
  have none: "hci_packet_result (hc_fd i) ?d ?l (Inl e) s'" if "hc_log s' = ?l" for e s'
    using hci_tried_failed [OF hci_tried_start [OF that]] by (simp add: hci_packet_result_def)
  have attempts: "olp (obind (drv_hci_write_once os (hc_fd i) ?d) (\<lambda>result.
        obind (if result = Inl EAGAIN \<and> t \<noteq> 0 then hci_wait_write os (hc_fd i) ?d t else orun (sret result)) (\<lambda>result.
        orun (sret (case result of Inl e \<Rightarrow> Inl e | Inr n \<Rightarrow> if n \<noteq> unat sz then Inl EIO else Inr (int n))))))
      (hci_packet_result (hc_fd i) ?d ?l) E s'" if l: "hc_log s' = ?l" and k: "\<exists>k. h4_ok k \<and> ?d = h4_encode k" for s'
    unfolding olp_simps swp_simps
  proof (rule olp_mono [OF olp_write_once [OF hci_tried_start [OF l]]], rule olp_ifI, goal_cases)
    case (1 r s'')
    then have "hci_tried (hc_fd i) ?d ?l s''" by (simp add: hci_outcome_def)
    from olp_wait_write [OF this] show ?case
      by (rule olp_mono) (rule hci_packet_result_sent [OF _ k, unfolded len], assumption)
  next
    case (2 r s'')
    then show ?case using hci_packet_result_sent [OF _ k, of "hc_fd i" ?l r s'', unfolded len] by simp
  qed assumption
  have rd: "rdn p 0 (unat sz) = Ret ?d" using sz by (simp add: rdn_def sub_bytes_def)
  show ?thesis
    unfolding drv_hci_write_packet_def option.case olp_simps inst
  proof (rule olp_ifI, goal_cases)
    case 1
    then show ?case by (simp add: none)
  next
    case 2
    show ?case
      unfolding olp_simps swp_simps tx_packet_valid_format [OF sz] cres.case option.sel
    proof (rule olp_ifI, goal_cases)
      case 1
      then show ?case by (simp add: none)
    next
      case 2
      show ?case unfolding olp_simps
      proof (rule swp_hci_log_call, goal_cases)
        case (1 r d)
        show ?case using attempts [of "s\<lparr>hal_dev := d\<rparr>"] 2 by (cases r) (simp_all add: none rd)
      qed
    qed
  qed
qed

text \<open>The calls that a signal interrupts are finitely many: each takes the kernel closer to one that is not.\<close>

definition hci_signals_end :: "'d hci_os \<Rightarrow> bool" where
  "hci_signals_end os \<longleftrightarrow> (\<exists>m :: 'd \<Rightarrow> nat.
     (\<forall>fd dat d d'. ho_write os fd dat d = (Inl EINTR, d') \<longrightarrow> m d' < m d) \<and>
     (\<forall>fd out t d d'. ho_poll os fd out t d = (Inl EINTR, d') \<longrightarrow> m d' < m d))"

lemma hci_retry_returns:
  assumes "\<And>s s'. p s = (Ret (Inl EINTR), s') \<Longrightarrow> (m s' :: nat) < m s"
  shows "oreturns (hci_retry p) s"
proof (induction "m s" arbitrary: s rule: less_induct)
  case less
  obtain q t where q: "p s = (q, t)" by fastforce
  then have "q = Ret (Inl EINTR) \<Longrightarrow> oreturns (hci_retry p) t" using less assms by blast
  then show ?case unfolding oreturns_def by (subst hci_retry.simps) (auto simp: q split: cres.splits sum.splits)
qed

lemma write_packet_returns:
  assumes "hci_signals_end os"
  shows "oreturns (drv_hci_write_packet os inst packet sz t) s"
proof -
  obtain m :: "'a \<Rightarrow> nat" where m: "\<And>fd dat d d'. ho_write os fd dat d = (Inl EINTR, d') \<Longrightarrow> m d' < m d"
      "\<And>fd out t d d'. ho_poll os fd out t d = (Inl EINTR, d') \<Longrightarrow> m d' < m d"
    using assms unfolding hci_signals_end_def by blast
  have once: "oreturns (drv_hci_write_once os fd dat) s" for fd dat s
    unfolding drv_hci_write_once_def
    by (rule hci_retry_returns [where m = "\<lambda>s. m (hal_dev s)"])
      (auto simp: hci_write_def hal_call_defs sprog_defs split: prod.splits, rule m(1))
  have poll: "oreturns (hci_retry (hcall (ho_poll os fd out t))) s" for fd out t s
    by (rule hci_retry_returns [where m = "\<lambda>s. m (hal_dev s)"]) (auto simp: hal_call_defs split: prod.splits intro: m)
  have wait: "oreturns (hci_wait_write os fd dat t) s" for fd dat s
    unfolding hci_wait_write_def by (rule oreturns_obind [OF poll]) (auto simp: once split: sum.splits)
  show ?thesis
    unfolding drv_hci_write_packet_def by (auto simp: wait once intro!: oreturns_obind split: option.splits)
qed

section \<open>Runs\<close>

abbreviation hci_st :: "int set \<Rightarrow> nat set \<Rightarrow> 'd hci \<Rightarrow> bool" where
  "hci_st \<equiv> hal_st hc_fd (\<lambda>_. True)"

interpretation hci: driver_state hc_fd "\<lambda>_. True"
  by unfold_locales simp

text \<open>The postcondition of a call that may give the caller an instance.\<close>

definition hci_gives :: "'x \<times> nat option \<Rightarrow> 'd hci \<Rightarrow> bool" where
  "hci_gives x s \<longleftrightarrow> hci_st {} {} s \<and> live_ptr s (snd x)"

lemma hci_destroy_inv:
  assumes "hci_st {} {} s" and "live_ptr s p"
  shows "swp (drv_hci_inst_destroy os p) (\<lambda>q s'. q = None \<and> hci_st {} {} s') E s"
proof (cases p)
  case None
  then show ?thesis using assms(1) by (simp add: drv_hci_inst_destroy_def)
next
  case (Some a)
  show ?thesis unfolding drv_hci_inst_destroy_def Some option.case swp_simps
  proof (rule hci.st_inst [OF assms(1) assms(2) [unfolded Some]], goal_cases)
    case (1 i)
    show ?case
    proof (rule hci.st_close_owned [OF assms(1) 1(1)], simp, goal_cases)
      case (1 s')
      have "hal_heap s' a = Some i" using 1(2) \<open>hal_heap s a = Some i\<close> by (simp add: same_inst_def)
      then show ?case
        by (rule swp_hfree [where fd_of = hc_fd and X = "{}" and Y = "{a}", rotated]) (use 1(1) in \<open>auto simp: hal_st_def\<close>)
    qed
  qed
qed

lemma hci_create_inv:
  assumes os: "os_files_ok os" and s: "hci_st {} {} s" and p: "live_ptr s p"
  shows "swp (drv_hci_inst_create os dev (Some p)) hci_gives (\<lambda>_. hci_st {} {}) s"
proof -
  have init: "swp (sbind (hcall (ho_mutex_init os)) (\<lambda>result.
      case result of Some e \<Rightarrow> sbind (hclose os fd) (\<lambda>_. sbind (hfree a) (\<lambda>_. sret (Inl e, None)))
      | None \<Rightarrow> sret (Inr 0, Some a))) hci_gives E s"
    if st: "hci_st {} {} s" and a: "hal_heap s a = Some \<lparr>hc_fd = fd\<rparr>" for s :: "'a hci" and a fd E
    unfolding swp_simps
  proof (rule hci.st_call [OF st], goal_cases)
    case (1 r s')
    have a': "hal_heap s' a = Some \<lparr>hc_fd = fd\<rparr>" using 1(2) a by (simp add: same_inst_def)
    show ?case
    proof (cases r)
      case None
      then show ?thesis using 1(1) a' by (simp add: hci_gives_def live_ptr_def)
    next
      case (Some e)
      show ?thesis unfolding Some option.case swp_simps
      proof (rule hci.st_close_owned [OF 1(1) a', simplified drv_hci_inst.simps], goal_cases)
        case (2 s'')
        have "hal_heap s'' a = Some \<lparr>hc_fd = fd\<rparr>" using 2(2) a' by (simp add: same_inst_def)
        then show ?case
          by (rule swp_hfree [where fd_of = hc_fd and X = "{}" and Y = "{a}", rotated])
            (use 2(1) in \<open>auto simp: hal_st_def hci_gives_def live_ptr_def\<close>)
      qed simp
    qed
  qed
  have open_dev: "swp (sbind (hopen os path) (\<lambda>fd.
        if fd < 0 then sbind (sget (\<lambda>s. ho_errno os (hal_dev s))) (\<lambda>e. sret (Inl e, None))
        else sbind (hmalloc os) (\<lambda>ok.
          if \<not> ok then sbind (hclose os fd) (\<lambda>_. sret (Inl ENOMEM, None))
          else sbind (hnew \<lparr>hc_fd = fd\<rparr>) (\<lambda>a.
            sbind (hcall (ho_mutex_init os)) (\<lambda>result.
            case result of Some e \<Rightarrow> sbind (hclose os fd) (\<lambda>_. sbind (hfree a) (\<lambda>_. sret (Inl e, None)))
            | None \<Rightarrow> sret (Inr 0, Some a)))))) hci_gives E s"
    if st: "hci_st {} {} s" for path and s :: "'a hci" and E
    unfolding swp_simps(5) [of "hopen os path"]
  proof (rule hci.st_open [OF os st], goal_cases)
    case (1 fd s1)
    then show ?case by (simp add: hci_gives_def live_ptr_def)
  next
    case (2 fd s1)
    show ?case unfolding if_not_P [OF 2(1) [folded not_less]] swp_simps(5) [of "hmalloc os"]
    proof (rule hci.st_malloc [OF 2(3)], goal_cases)
      case (1 ok s2)
      show ?case
      proof (rule swp_ifI, goal_cases)
        case 1
        show ?case unfolding swp_simps
          by (rule hci.st_close [OF \<open>hci_st (insert fd {}) {} s2\<close>]) (auto simp: hci_gives_def live_ptr_def)
      next
        case 2
        show ?case unfolding swp_simps(5) [of "hnew _"]
        proof (rule hci.st_new [OF \<open>hci_st (insert fd {}) {} s2\<close>], goal_cases)
          case (2 s3)
          show ?case by (rule init) (use 2 in \<open>simp_all add: hal_st_def\<close>)
        qed simp
      qed
    qed
  qed
  show ?thesis
  proof (cases p)
    case None
    then show ?thesis using open_dev [OF s] by (simp add: drv_hci_inst_create_def Let_def)
  next
    case (Some a)
    have p': "(p \<noteq> None) = True" using Some by simp
    show ?thesis unfolding drv_hci_inst_create_def option.case p' if_True swp_simps(5) [of "drv_hci_inst_destroy os p"] Let_def
      by (rule swp_mono [OF hci_destroy_inv [OF s p]]) (use open_dev in auto)
  qed
qed

lemma hci_auto_from_inv:
  assumes os: "os_files_ok os" and dev: "case device of None \<Rightarrow> True | Some buf \<Rightarrow> unat device_size \<le> length buf"
  shows "hci_st {} {} s \<Longrightarrow> live_ptr s p \<Longrightarrow>
    swp (hci_auto_from os is p device device_size last_error) (\<lambda>_. hci_st {} {}) (\<lambda>_. hci_st {} {}) s"
proof (induction "is" arbitrary: p last_error s)
  case Nil
  then show ?case by simp
next
  case (Cons index "is")
  let ?path = "hci_path index"
  have fits: "length ?path + 1 \<le> length buf"
    if "device = Some buf" "length ?path < hci_path_size" "\<not> of_nat (length ?path) \<ge> device_size" for buf
  proof -
    have "unat (of_nat (length ?path) :: u64) = length ?path"
      using that(2) by (simp add: hci_path_size_def DRV_HCI_DEFAULT_DEVICE_def unsigned_of_nat take_bit_nat_eq_self)
    then show ?thesis using that(1,3) dev by (simp add: word_le_nat_alt)
  qed
  show ?case unfolding hci_auto_from.simps Let_def
  proof (rule swp_ifI, goal_cases)
    case 1
    then show ?case using Cons.prems by simp
  next
    case 2
    show ?case unfolding swp_simps
    proof (rule swp_mono [OF hci_create_inv [OF os Cons.prems]], goal_cases)
      case (1 x s')
      obtain r q where x: "x = (r, q)" by fastforce
      have s': "hci_st {} {} s'" "live_ptr s' q" using 1 by (simp_all add: hci_gives_def x)
      show ?case
      proof (cases r)
        case (Inl e)
        then show ?thesis using Cons.IH [OF s'] by (simp add: x)
      next
        case (Inr n)
        have "swp (drv_hci_inst_destroy os q) (\<lambda>_. hci_st {} {}) (\<lambda>_. hci_st {} {}) s'"
          by (rule swp_mono [OF hci_destroy_inv [OF s']]) auto
        then show ?thesis using s'(1) fits 2 Inr by (auto simp: x split: option.splits)
      qed
    qed
  qed
qed

datatype hci_op =
    HCreate "string option" "nat option option"
  | HAuto "nat option option" "string option" u64
  | HDestroy "nat option"
  | HRead "nat option" "bytes option" u64
  | HWrite "nat option" "bytes option" u64 int
  | HPoll "nat option" int
  | HGetFd "nat option"

fun hci_exec :: "'d hci_os \<Rightarrow> hci_op \<Rightarrow> ('d hci, unit) prog" where
  "hci_exec os (HCreate dev inst) = sdone (drv_hci_inst_create os dev inst)"
| "hci_exec os (HAuto inst dev n) = sdone (drv_hci_inst_create_auto os inst dev n)"
| "hci_exec os (HDestroy inst) = sdone (drv_hci_inst_destroy os inst)"
| "hci_exec os (HRead inst b n) = if_returns (drv_hci_read os inst b n)"
| "hci_exec os (HWrite inst p n t) = if_returns (drv_hci_write_packet os inst p n t)"
| "hci_exec os (HPoll inst t) = if_returns (drv_hci_poll os inst t)"
| "hci_exec os (HGetFd inst) = sdone (drv_hci_get_fd inst)"

text \<open>A pointer is null or a live instance, a buffer holds the size that is passed with it.\<close>

definition buf_ok :: "'a list option \<Rightarrow> u64 \<Rightarrow> bool" where
  "buf_ok b n = (case b of None \<Rightarrow> True | Some b \<Rightarrow> unat n \<le> length b)"

fun hci_valid :: "'d hci \<Rightarrow> hci_op \<Rightarrow> bool" where
  "hci_valid s (HCreate dev inst) = (case inst of None \<Rightarrow> True | Some p \<Rightarrow> live_ptr s p)"
| "hci_valid s (HAuto inst dev n) = ((case inst of None \<Rightarrow> True | Some p \<Rightarrow> live_ptr s p) \<and> buf_ok dev n)"
| "hci_valid s (HDestroy inst) = live_ptr s inst"
| "hci_valid s (HRead inst b n) = (live_ptr s inst \<and> buf_ok b n)"
| "hci_valid s (HWrite inst p n t) = (live_ptr s inst \<and> buf_ok p n)"
| "hci_valid s (HPoll inst t) = live_ptr s inst"
| "hci_valid s (HGetFd inst) = live_ptr s inst"

definition hci_start :: "'d \<Rightarrow> 'd hci" where
  "hci_start d = \<lparr>hal_heap = Map.empty, hal_next = 0, hal_fds = {}, hal_dev = d, hc_log = []\<rparr>"

lemma hci_start_st: "hci_st {} {} (hci_start d)"
  by (simp add: hal_st_def hal_inv_empty hci_start_def)

lemma hci_retry_inv:
  assumes "hci_st {} {} s" and "\<And>r s. hci_st {} {} s \<Longrightarrow> Q r s"
  shows "olp (hci_retry (hcall f)) Q E s"
  by (rule olp_hci_retry [where P = "hci_st {} {}", OF assms(1)], rule hci.st_call) (use assms(2) in auto)

lemma hci_write_once_inv:
  assumes "hci_st {} {} s" and "\<And>r s. hci_st {} {} s \<Longrightarrow> Q r s"
  shows "olp (drv_hci_write_once os fd dat) Q E s"
  unfolding drv_hci_write_once_def
proof (rule olp_hci_retry [where P = "hci_st {} {}", OF assms(1)], goal_cases)
  case (1 s)
  show ?case unfolding hci_write_def swp_simps
  proof (rule hci.st_call [OF 1], goal_cases)
    case (1 r s')
    then have "hci_st {} {} (s'\<lparr>hc_log := l\<rparr>)" for l
      by (simp add: hal_st_def hal_inv_cong [of "s'\<lparr>hc_log := _\<rparr>" s'])
    then show ?case using assms(2) by simp
  qed
qed

lemma hci_read_inv:
  assumes s: "hci_st {} {} s" and p: "live_ptr s inst" and b: "buf_ok b n"
  shows "olp (drv_hci_read os inst b n) (\<lambda>_. hci_st {} {}) (\<lambda>_. hci_st {} {}) s"
proof -
  have w: "b = Some c \<Longrightarrow> wrn c 0 (take (unat n) d) \<noteq> Fault \<and> (\<forall>e. wrn c 0 (take (unat n) d) \<noteq> Fail e)" for c d
    using b by (auto simp: wrn_def buf_ok_def)
  have w0: "wrn c 0 [] = Ret c" for c by (simp add: wrn_def)
  show ?thesis
    using s p unfolding drv_hci_read_def
    by (auto simp: Let_def w w0 intro!: hci.st_inst hci_retry_inv split: option.splits sum.splits cres.splits)
qed

lemma hci_write_inv:
  assumes s: "hci_st {} {} s" and p: "live_ptr s inst" and b: "buf_ok b n"
  shows "olp (drv_hci_write_packet os inst b n t) (\<lambda>_. hci_st {} {}) (\<lambda>_. hci_st {} {}) s"
proof -
  have wait: "hci_st {} {} s \<Longrightarrow> (\<And>r s. hci_st {} {} s \<Longrightarrow> Q r s) \<Longrightarrow> olp (hci_wait_write os fd dat t) Q (\<lambda>_. hci_st {} {}) s" for fd dat Q s
    unfolding hci_wait_write_def by (auto intro!: hci_retry_inv hci_write_once_inv split: sum.splits)
  show ?thesis
  proof (cases b)
    case None
    have "drv_hci_tx_packet_valid None n = Ret False" by (simp add: drv_hci_tx_packet_valid_def)
    then show ?thesis
      using s p None unfolding drv_hci_write_packet_def by (auto intro!: hci.st_inst split: option.splits)
  next
    case (Some c)
    obtain v where "drv_hci_tx_packet_valid (Some c) n = Ret v"
      using tx_packet_valid_format [of n c] b Some by (simp add: buf_ok_def)
    moreover have "rdn c 0 (unat n) = Ret (take (unat n) c)" using b Some by (simp add: rdn_def buf_ok_def sub_bytes_def)
    ultimately show ?thesis
      using s p Some unfolding drv_hci_write_packet_def
      by (auto intro!: hci.st_inst hci.st_call wait hci_write_once_inv split: option.splits)
  qed
qed

lemma hci_poll_inv:
  assumes s: "hci_st {} {} s" and p: "live_ptr s inst"
  shows "olp (drv_hci_poll os inst t) (\<lambda>_. hci_st {} {}) (\<lambda>_. hci_st {} {}) s"
  using s p unfolding drv_hci_poll_def by (auto intro!: hci.st_inst hci_retry_inv split: option.splits sum.splits)

lemma hci_exec_inv:
  assumes os: "os_files_ok os" and s: "hci_st {} {} s" and v: "hci_valid s op"
  shows "swp (hci_exec os op) (\<lambda>_. hci_st {} {}) (\<lambda>_. hci_st {} {}) s"
proof (cases op)
  case (HCreate dev inst)
  then show ?thesis
    using s v swp_mono [OF hci_create_inv [OF os s]]
    by (cases inst) (auto simp: sdone_def drv_hci_inst_create_def hci_gives_def)
next
  case (HAuto inst dev n)
  then show ?thesis
    using s v hci_auto_from_inv [OF os, where device = dev and device_size = n] by (cases inst) (auto simp: sdone_def drv_hci_inst_create_auto_def buf_ok_def)
next
  case (HDestroy inst)
  then show ?thesis using v swp_mono [OF hci_destroy_inv [OF s, of inst os]] by (auto simp: sdone_def)
next
  case (HGetFd inst)
  then show ?thesis using s v by (auto simp: sdone_def drv_hci_get_fd_def intro!: hci.st_inst split: option.splits)
qed (use s v in \<open>auto intro!: swp_if_returns hci_read_inv hci_write_inv hci_poll_inv\<close>)

interpretation hci_runs: instance_driver hci_exec hci_valid os_files_ok "hci_st {} {}" hc_fd "\<lambda>_. {}"
  by unfold_locales (auto simp: hal_st_def intro!: hci_exec_inv)

section \<open>The search for a controller\<close>







section \<open>Properties\<close>

text \<open>A kernel whose state is the next descriptor; \<open>/dev/hci1\<close> is the only controller, and it takes what is written.\<close>

definition sample_hci_os :: "nat hci_os" where
  "sample_hci_os = \<lparr>os_open = \<lambda>path fds d. if path = ''/dev/hci1'' \<and> int d \<notin> fds then (int d, d + 1) else (-1, d), os_close = \<lambda>fd d. d,
     os_malloc = \<lambda>d. (True, d), ho_errno = \<lambda>d. ENOENT, ho_mutex_init = \<lambda>d. (None, d), ho_mutex_lock = \<lambda>d. (None, d),
     ho_read = \<lambda>fd n d. (Inr [], d), ho_write = \<lambda>fd b d. (if d mod 2 = 0 then Inl EAGAIN else Inr (length b), d + 1),
     ho_poll = \<lambda>fd out t d. (Inr (1, False, True), d)\<rparr>"

lemma sample_hci_os_ok: "os_files_ok sample_hci_os"
  by (auto simp: os_files_ok_def sample_hci_os_def split: if_splits)

definition sample_hci :: "nat hci" where
  "sample_hci = \<lparr>hal_heap = [0 \<mapsto> \<lparr>hc_fd = 3\<rparr>], hal_next = 1, hal_fds = {3}, hal_dev = 4, hc_log = []\<rparr>"

lemma sample_hci_reach: "reach (hci_exec sample_hci_os) hci_valid (hci_start 3) sample_hci"
proof (rule reach.step [OF reach.start])
  show "hci_valid (hci_start 3) (HCreate (Some ''/dev/hci1'') (Some None))" by (simp add: live_ptr_def)
  show "hci_exec sample_hci_os (HCreate (Some ''/dev/hci1'') (Some None)) (hci_start 3) = (Ret (), sample_hci)"
    by (simp add: sample_hci_os_def hci_start_def sample_hci_def drv_hci_inst_create_def hal_call_defs sprog_defs sdone_def)
qed

text \<open>C12. A packet goes to the controller whole or not at all. When the call reports success, the bytes it was given are one packet of the
  transport format and all of them were accepted by one \<open>write\<close>, preceded only by attempts that a signal interrupted or that found no
  room; when it reports an error, no \<open>write\<close> accepted the whole packet. If only finitely many calls are interrupted, it returns.
\<close>

theorem hci_packet_whole:
  assumes "hal_heap s a = Some i" and "unat sz \<le> length p"
  shows "(\<forall>r s'. drv_hci_write_packet os (Some a) (Some p) sz t s = Some (r, s') \<longrightarrow>
      (\<exists>rc. r = Ret rc \<and>
        (case rc of Inl e \<Rightarrow> hci_failed (hc_fd i) (take (unat sz) p) (hc_log s) s'
         | Inr n \<Rightarrow> n = int (unat sz) \<and> (\<exists>k. h4_ok k \<and> take (unat sz) p = h4_encode k) \<and>
             hci_sent (hc_fd i) (take (unat sz) p) (unat sz) (hc_log s) s'))) \<and>
    (hci_signals_end os \<longrightarrow> oreturns (drv_hci_write_packet os (Some a) (Some p) sz t) s)"
proof (intro conjI allI impI, goal_cases)
  case (1 r s')
  show ?case
    using olp_run [OF write_packet_result [OF assms, of os t "\<lambda>_ _. False"] 1] assms(2)
    by (cases r) (auto simp: hci_packet_result_def split: sum.splits)
next
  case 2
  then show ?case by (rule write_packet_returns)
qed

theorem hci_packet_whole_witness:
  "\<exists>s'. drv_hci_write_packet sample_hci_os (Some 0) (Some [1, 3, 12, 0, 0xFF]) 4 100 sample_hci = Some (Ret (Inr 4), s') \<and>
     hci_sent 3 [1, 3, 12, 0] 4 [] s' \<and> (\<exists>k. h4_ok k \<and> [1, 3, 12, 0] = h4_encode k)"
proof -
  have "\<exists>s'. drv_hci_write_packet sample_hci_os (Some 0) (Some [1, 3, 12, 0, 0xFF]) 4 100 sample_hci = Some (Ret (Inr 4), s')"
    by (simp add: sample_hci_def sample_hci_os_def drv_hci_write_packet_def drv_hci_tx_packet_valid_def h4_types rd8_def rdn_def sub_bytes_def
        hci_wait_write_def drv_hci_write_once_def hci_retry.simps hci_write_def obind_def orun_def hal_call_defs sprog_defs)
  then obtain s' where s': "drv_hci_write_packet sample_hci_os (Some 0) (Some [1, 3, 12, 0, 0xFF]) 4 100 sample_hci = Some (Ret (Inr 4), s')" ..
  moreover have "hal_heap sample_hci 0 = Some \<lparr>hc_fd = 3\<rparr>" "unat (4 :: u64) \<le> length [1, 3, 12, 0, 0xFF :: u8]" "hc_log sample_hci = []"
    by (simp_all add: sample_hci_def)
  ultimately show ?thesis
    using hci_packet_whole [of sample_hci 0 "\<lparr>hc_fd = 3\<rparr>" 4 "[1, 3, 12, 0, 0xFF]" sample_hci_os 100] by simp
qed

text \<open>Whatever calls a client makes, as long as the pointers it passes are null or live and its buffers hold the sizes it gives: no call of the
  HCI driver faults, and every open descriptor belongs to exactly one live instance.
\<close>

theorem hci_descriptors_owned:
  assumes "os_files_ok os" and "reach (hci_exec os) hci_valid (hci_start d) s"
  shows "(hci_valid s op \<longrightarrow> fst (hci_exec os op s) \<noteq> Fault) \<and>
    (fd \<in> hal_fds s \<longleftrightarrow> (\<exists>!a. \<exists>i. hal_heap s a = Some i \<and> hc_fd i = fd))"
  using hci_runs.no_fault [OF assms(2,1) hci_start_st] hci_runs.one_owner [OF assms(2,1) hci_start_st, simplified] by blast

theorem hci_descriptors_owned_witness:
  "fst (hci_exec sample_hci_os (HAuto (Some (Some 0)) (Some (replicate 8 CHR 0x00)) 8) sample_hci) \<noteq> Fault \<and>
   (\<exists>!a. \<exists>i. hal_heap sample_hci a = Some i \<and> hc_fd i = 3)"
  using hci_descriptors_owned [OF sample_hci_os_ok sample_hci_reach, of "HAuto (Some (Some 0)) (Some (replicate 8 CHR 0x00)) 8" 3]
  by (simp add: sample_hci_def live_ptr_def buf_ok_def)



end
