(* ===== verification/Pmu.thy ===== *)
theory Pmu
  imports Hal_Inst
begin

text \<open>
  The power management unit (\<open>rtsmart_hal/drivers/pmu/drv_pmu.c\<close>): instances over \<open>/dev/pmu_pwrkey\<close>, the notification of the power key by
  a signal, which the driver blocks and waits for, and the requests for shutdown, power cycles and wake-up information. The signal mask of the
  thread and \<open>errno\<close> are part of the state (but for what \<open>open\<close> and \<open>calloc\<close> leave in \<open>errno\<close>); messages are left out.
\<close>

section \<open>State\<close>

definition DRV_PMU_DEV_PATH :: string where "DRV_PMU_DEV_PATH = ''/dev/pmu_pwrkey''"
definition DRV_PMU_DEFAULT_SIGNO :: int where "DRV_PMU_DEFAULT_SIGNO = 10"
definition DRV_PMU_WAKEUP_SOURCE_NAME_MAX :: nat where "DRV_PMU_WAKEUP_SOURCE_NAME_MAX = 64"
definition DRV_PMU_POWER_CYCLE_MIN_DELAY_S :: u32 where "DRV_PMU_POWER_CYCLE_MIN_DELAY_S = 2"

record drv_pmu_inst =
  pm_fd :: int
  pm_signo :: int
  pm_notify_registered :: bool
  pm_signal_was_blocked :: bool
  pm_waitset :: "int set"

record drv_pmu_power_cycle_cfg =
  pc_shutdown_after_s :: u32
  pc_poweron_after_s :: u32
  pc_flags :: u32
  pc_reserved :: u32

datatype pmu_command = PMU_CONFIRM_SHUTDOWN | PMU_CANCEL_POWER_CYCLE | PMU_SHUTDOWN_NOW

text \<open>
  The kernel and the C library: the requests with what they write; the signals that exist and those that can be blocked; whether
  \<open>pthread_sigmask\<close> fails; the wait for a signal of a set, with its timeout in seconds and nanoseconds.
\<close>

record 'd pmu_os = "'d os_files" +
  po_register :: "int \<Rightarrow> int \<Rightarrow> 'd \<Rightarrow> (errno + unit) \<times> 'd"
  po_unregister :: "int \<Rightarrow> 'd \<Rightarrow> (errno + unit) \<times> 'd"
  po_pending :: "int \<Rightarrow> 'd \<Rightarrow> (errno + u32) \<times> 'd"
  po_command :: "pmu_command \<Rightarrow> int \<Rightarrow> 'd \<Rightarrow> (errno + unit) \<times> 'd"
  po_schedule :: "drv_pmu_power_cycle_cfg \<Rightarrow> int \<Rightarrow> 'd \<Rightarrow> (errno + unit) \<times> 'd"
  po_pad_level :: "u32 \<Rightarrow> int \<Rightarrow> 'd \<Rightarrow> (errno + int) \<times> 'd"
  po_wakeup_source :: "int \<Rightarrow> 'd \<Rightarrow> (errno + bytes) \<times> 'd"
  po_valid_signo :: "int \<Rightarrow> bool"
  po_blockable :: "int \<Rightarrow> bool"
  po_sigmask :: "'d \<Rightarrow> errno option \<times> 'd"
  po_sigwait :: "int set \<Rightarrow> (int \<times> int) option \<Rightarrow> 'd \<Rightarrow> (errno + int) \<times> 'd"

record 'd pmu = "(drv_pmu_inst, 'd) hal" +
  pk_mask :: "int set"
  pk_errno :: errno

definition pmu_errno :: "errno \<Rightarrow> ('d pmu, unit) prog" where
  "pmu_errno e = smod (\<lambda>s. s\<lparr>pk_errno := e\<rparr>)"

section \<open>Requests\<close>

definition drv_pmu_is_open :: "nat option \<Rightarrow> ('d pmu, bool) prog" where
  "drv_pmu_is_open inst =
     (case inst of None \<Rightarrow> sbind (pmu_errno EINVAL) (\<lambda>_. sret False)
      | Some a \<Rightarrow> sbind (hinst a) (\<lambda>i. if pm_fd i \<ge> 0 then sret True else sbind (pmu_errno EINVAL) (\<lambda>_. sret False)))"

text \<open>A request that returns what the kernel wrote, or \<open>None\<close> for \<open>-1\<close>.\<close>

definition drv_pmu_ioctl :: "(int \<Rightarrow> 'd \<Rightarrow> (errno + 'a) \<times> 'd) \<Rightarrow> nat option \<Rightarrow> ('d pmu, 'a option) prog" where
  "drv_pmu_ioctl request inst =
     sbind (drv_pmu_is_open inst) (\<lambda>ok.
     if \<not> ok then sret None
     else sbind (hinst (the inst)) (\<lambda>i. sbind (hcall (request (pm_fd i))) (\<lambda>r.
       case r of Inl e \<Rightarrow> sbind (pmu_errno e) (\<lambda>_. sret None) | Inr x \<Rightarrow> sret (Some x))))"

definition pmu_rc :: "'a option \<Rightarrow> ('d pmu, int) prog" where
  "pmu_rc r = sret (if r = None then -1 else 0)"

definition drv_pmu_wait_signal :: "'d pmu_os \<Rightarrow> nat \<Rightarrow> int \<Rightarrow> ('d pmu, int) prog" where
  "drv_pmu_wait_signal os a timeout_ms =
     sbind (hinst a) (\<lambda>i.
     let timeout = (if timeout_ms < 0 then None else Some (timeout_ms div 1000, timeout_ms mod 1000 * 1000000)) in
     sbind (hcall (po_sigwait os (pm_waitset i) timeout)) (\<lambda>r.
     case r of Inr _ \<Rightarrow> sret 0
     | Inl e \<Rightarrow> sbind (pmu_errno e) (\<lambda>_. sret (if e = EAGAIN \<or> e = EINTR then 1 else -1))))"

definition drv_pmu_read_shutdown_request :: "'d pmu_os \<Rightarrow> nat option \<Rightarrow> ('d pmu, int) prog" where
  "drv_pmu_read_shutdown_request os inst =
     sbind (drv_pmu_ioctl (po_pending os) inst) (\<lambda>r. sret (case r of None \<Rightarrow> -1 | Some pending \<Rightarrow> if pending \<noteq> 0 then 0 else 1))"

section \<open>The signal\<close>

definition pmu_sigset :: "'d pmu_os \<Rightarrow> int \<Rightarrow> int set" where
  "pmu_sigset os signo = (if po_valid_signo os signo then {signo} else {})"

definition drv_pmu_block_signal :: "'d pmu_os \<Rightarrow> nat \<Rightarrow> int \<Rightarrow> ('d pmu, int) prog" where
  "drv_pmu_block_signal os a signo =
     sbind (hset a (\<lambda>i. i\<lparr>pm_waitset := pmu_sigset os signo\<rparr>)) (\<lambda>_.
     sbind (hcall (po_sigmask os)) (\<lambda>ret.
     case ret of Some e \<Rightarrow> sbind (pmu_errno e) (\<lambda>_. sret (-1))
     | None \<Rightarrow>
       sbind (sget pk_mask) (\<lambda>oldset.
       sbind (smod (\<lambda>s. s\<lparr>pk_mask := pk_mask s \<union> {n \<in> pmu_sigset os signo. po_blockable os n}\<rparr>)) (\<lambda>_.
       sbind (hset a (\<lambda>i. i\<lparr>pm_signal_was_blocked := po_valid_signo os signo \<and> signo \<in> oldset\<rparr>)) (\<lambda>_.
       sbind (hset a (\<lambda>i. i\<lparr>pm_signo := signo\<rparr>)) (\<lambda>_. sret 0))))))"

definition drv_pmu_unblock_signal :: "'d pmu_os \<Rightarrow> nat \<Rightarrow> ('d pmu, unit) prog" where
  "drv_pmu_unblock_signal os a =
     sbind (hinst a) (\<lambda>i.
     if pm_signo i \<le> 0 then sret ()
     else
       sbind (if \<not> pm_signal_was_blocked i
              then sbind (hcall (po_sigmask os)) (\<lambda>ret.
                case ret of Some e \<Rightarrow> pmu_errno e | None \<Rightarrow> smod (\<lambda>s. s\<lparr>pk_mask := pk_mask s - pm_waitset i\<rparr>))
              else sret ()) (\<lambda>_.
       hset a (\<lambda>i. i\<lparr>pm_waitset := {}, pm_signal_was_blocked := False, pm_signo := 0\<rparr>)))"

definition drv_pmu_key_unregister_notify :: "'d pmu_os \<Rightarrow> nat option \<Rightarrow> ('d pmu, int) prog" where
  "drv_pmu_key_unregister_notify os inst =
     sbind (drv_pmu_is_open inst) (\<lambda>ok.
     if \<not> ok then sret (-1)
     else let a = the inst in
       sbind (hinst a) (\<lambda>i.
       if \<not> pm_notify_registered i then sret 0
       else
         sbind (drv_pmu_ioctl (po_unregister os) inst) (\<lambda>r.
         sbind (drv_pmu_unblock_signal os a) (\<lambda>_.
         sbind (hset a (\<lambda>i. i\<lparr>pm_notify_registered := False\<rparr>)) (\<lambda>_.
         pmu_rc r)))))"

definition drv_pmu_key_register_notify :: "'d pmu_os \<Rightarrow> nat option \<Rightarrow> int \<Rightarrow> ('d pmu, int) prog" where
  "drv_pmu_key_register_notify os inst signo =
     (let signo = (if signo > 0 then signo else DRV_PMU_DEFAULT_SIGNO) in
     sbind (drv_pmu_is_open inst) (\<lambda>ok.
     if \<not> ok then sret (-1)
     else let a = the inst in
       sbind (hinst a) (\<lambda>i.
       sbind (if pm_notify_registered i then drv_pmu_key_unregister_notify os inst else sret 0) (\<lambda>ret.
       if ret < 0 then sret (-1)
       else
         sbind (drv_pmu_block_signal os a signo) (\<lambda>ret.
         if ret < 0 then sret (-1)
         else
           sbind (drv_pmu_ioctl (\<lambda>fd. po_register os fd signo) inst) (\<lambda>r.
           if r = None then sbind (drv_pmu_unblock_signal os a) (\<lambda>_. sret (-1))
           else sbind (hset a (\<lambda>i. i\<lparr>pm_notify_registered := True\<rparr>)) (\<lambda>_. sret 0)))))))"

section \<open>Instances\<close>

text \<open>A null \<open>inst\<close> is treated as a null \<open>*inst\<close>.\<close>

definition drv_pmu_inst_destroy :: "'d pmu_os \<Rightarrow> nat option \<Rightarrow> ('d pmu, nat option) prog" where
  "drv_pmu_inst_destroy os inst =
     (case inst of None \<Rightarrow> sret None
      | Some a \<Rightarrow>
        sbind (drv_pmu_key_unregister_notify os (Some a)) (\<lambda>_.
        sbind (hinst a) (\<lambda>i.
        sbind (if pm_fd i \<ge> 0 then sbind (hclose os (pm_fd i)) (\<lambda>_. hset a (\<lambda>i. i\<lparr>pm_fd := -1\<rparr>)) else sret ()) (\<lambda>_.
        sbind (hfree a) (\<lambda>_. sret None)))))"

definition pmu_cleared :: drv_pmu_inst where
  "pmu_cleared = \<lparr>pm_fd = 0, pm_signo = 0, pm_notify_registered = False, pm_signal_was_blocked = False, pm_waitset = {}\<rparr>"

definition drv_pmu_inst_create :: "'d pmu_os \<Rightarrow> nat option option \<Rightarrow> ('d pmu, int \<times> nat option) prog" where
  "drv_pmu_inst_create os inst =
     (case inst of None \<Rightarrow> sret (-1, None)
      | Some p \<Rightarrow>
        sbind (if p \<noteq> None then drv_pmu_inst_destroy os p else sret None) (\<lambda>p.
        sbind (hmalloc os) (\<lambda>ok.
        if \<not> ok then sret (-1, p)
        else
          sbind (hnew (pmu_cleared\<lparr>pm_fd := -1\<rparr>)) (\<lambda>a.
          sbind (hopen os DRV_PMU_DEV_PATH) (\<lambda>fd.
          sbind (hset a (\<lambda>i. i\<lparr>pm_fd := fd\<rparr>)) (\<lambda>_.
          if fd < 0 then sbind (hfree a) (\<lambda>_. sret (-1, p))
          else sret (0, Some a)))))))"

section \<open>Operations\<close>

definition drv_pmu_key_wait_shutdown :: "'d pmu_os \<Rightarrow> nat option \<Rightarrow> int \<Rightarrow> ('d pmu, int) prog" where
  "drv_pmu_key_wait_shutdown os inst timeout_ms =
     (case inst of None \<Rightarrow> sret (-1)
      | Some a \<Rightarrow> sbind (hinst a) (\<lambda>i.
          if \<not> pm_notify_registered i then sret (-1)
          else sbind (drv_pmu_wait_signal os a timeout_ms) (\<lambda>ret.
            if ret \<noteq> 0 then sret ret else drv_pmu_read_shutdown_request os inst)))"

definition drv_pmu_key_confirm_shutdown :: "'d pmu_os \<Rightarrow> nat option \<Rightarrow> ('d pmu, int) prog" where
  "drv_pmu_key_confirm_shutdown os inst = sbind (drv_pmu_ioctl (po_command os PMU_CONFIRM_SHUTDOWN) inst) pmu_rc"

definition drv_pmu_rtc_schedule_power_cycle :: "'d pmu_os \<Rightarrow> nat option \<Rightarrow> u32 \<Rightarrow> u32 \<Rightarrow> ('d pmu, int) prog" where
  "drv_pmu_rtc_schedule_power_cycle os inst shutdown_after_s poweron_after_s =
     (let cfg = \<lparr>pc_shutdown_after_s = shutdown_after_s, pc_poweron_after_s = poweron_after_s, pc_flags = 0, pc_reserved = 0\<rparr> in
     if shutdown_after_s < DRV_PMU_POWER_CYCLE_MIN_DELAY_S \<or> poweron_after_s < DRV_PMU_POWER_CYCLE_MIN_DELAY_S
     then sbind (pmu_errno EINVAL) (\<lambda>_. sret (-1))
     else sbind (drv_pmu_ioctl (po_schedule os cfg) inst) pmu_rc)"

definition drv_pmu_rtc_cancel_power_cycle :: "'d pmu_os \<Rightarrow> nat option \<Rightarrow> ('d pmu, int) prog" where
  "drv_pmu_rtc_cancel_power_cycle os inst = sbind (drv_pmu_ioctl (po_command os PMU_CANCEL_POWER_CYCLE) inst) pmu_rc"

definition drv_pmu_shutdown_now :: "'d pmu_os \<Rightarrow> nat option \<Rightarrow> ('d pmu, int) prog" where
  "drv_pmu_shutdown_now os inst = sbind (drv_pmu_ioctl (po_command os PMU_SHUTDOWN_NOW) inst) pmu_rc"

text \<open>The level is the value returned and the content of the caller's variable, \<open>None\<close> for a null pointer.\<close>

definition drv_pmu_wakeup_pad_get_level :: "'d pmu_os \<Rightarrow> nat option \<Rightarrow> u32 \<Rightarrow> int option \<Rightarrow> ('d pmu, int \<times> int option) prog" where
  "drv_pmu_wakeup_pad_get_level os inst pad level =
     (case level of None \<Rightarrow> sbind (pmu_errno EINVAL) (\<lambda>_. sret (-1, None))
      | Some l \<Rightarrow> sbind (drv_pmu_ioctl (po_pad_level os pad) inst) (\<lambda>r.
          case r of None \<Rightarrow> sret (-1, Some l)
          | Some res \<Rightarrow> if res \<noteq> 0 \<and> res \<noteq> 1 then sbind (pmu_errno EIO) (\<lambda>_. sret (-1, Some l)) else sret (0, Some res)))"

definition strnlen :: "bytes \<Rightarrow> nat" where
  "strnlen bs = length (takeWhile (\<lambda>b. b \<noteq> 0) bs)"

text \<open>
  The kernel fills the 64 bytes of a structure that was cleared before. The caller's buffer is given with its content and comes back.
\<close>

definition pmu_source_name :: "bytes \<Rightarrow> bytes" where
  "pmu_source_name bs = take DRV_PMU_WAKEUP_SOURCE_NAME_MAX (pad_to DRV_PMU_WAKEUP_SOURCE_NAME_MAX bs)"

definition drv_pmu_wakeup_source_get ::
    "'d pmu_os \<Rightarrow> nat option \<Rightarrow> bytes option \<Rightarrow> u64 \<Rightarrow> ('d pmu, int \<times> bytes option) prog" where
  "drv_pmu_wakeup_source_get os inst buf name_size =
     (if buf = None \<or> name_size = 0 then sbind (pmu_errno EINVAL) (\<lambda>_. sret (-1, buf))
      else
        let name_size = min (unat name_size) DRV_PMU_WAKEUP_SOURCE_NAME_MAX in
        sbind (drv_pmu_ioctl (po_wakeup_source os) inst) (\<lambda>r.
        case r of None \<Rightarrow> sret (-1, buf)
        | Some bs \<Rightarrow>
            let result = pmu_source_name bs in
            if strnlen result \<ge> name_size then sbind (pmu_errno ENOSPC) (\<lambda>_. sret (-1, buf))
            else sbind (slift (rdn result 0 (strnlen result + 1))) (\<lambda>dat.
                 sbind (slift (wrn (the buf) 0 dat)) (\<lambda>b. sret (0, Some b)))))"

section \<open>The signal mask\<close>

text \<open>
  \<open>m0\<close> is the mask of the thread outside the driver. The driver never unblocks a signal of it, and every other signal that is
  blocked was blocked by a registered instance, which will unblock it.
\<close>

definition pmu_ok :: "'d pmu_os \<Rightarrow> int set \<Rightarrow> (nat \<Rightarrow> drv_pmu_inst option) \<Rightarrow> int set \<Rightarrow> bool" where
  "pmu_ok os m0 h m \<longleftrightarrow>
     m0 \<subseteq> m \<and>
     (\<forall>n \<in> m - m0. \<exists>a i. h a = Some i \<and> pm_notify_registered i \<and> \<not> pm_signal_was_blocked i \<and> pm_waitset i = {n}) \<and>
     (\<forall>a i. h a = Some i \<longrightarrow>
       (if pm_notify_registered i
        then 0 < pm_signo i \<and> pm_waitset i = pmu_sigset os (pm_signo i) \<and> (pm_waitset i \<inter> m0 \<noteq> {} \<longrightarrow> pm_signal_was_blocked i)
        else pm_signo i = 0))"

definition pmu_quiet :: "drv_pmu_inst \<Rightarrow> drv_pmu_inst" where
  "pmu_quiet i = (if pm_notify_registered i
     then i\<lparr>pm_waitset := {}, pm_signal_was_blocked := False, pm_signo := 0, pm_notify_registered := False\<rparr> else i)"

definition pmu_unmask :: "drv_pmu_inst \<Rightarrow> int set \<Rightarrow> int set" where
  "pmu_unmask i m = (if pm_notify_registered i \<and> \<not> pm_signal_was_blocked i then m - pm_waitset i else m)"

definition pmu_loud :: "'d pmu_os \<Rightarrow> int \<Rightarrow> int set \<Rightarrow> drv_pmu_inst \<Rightarrow> drv_pmu_inst" where
  "pmu_loud os n m i = i\<lparr>pm_waitset := pmu_sigset os n, pm_signal_was_blocked := po_valid_signo os n \<and> n \<in> m, pm_signo := n,
     pm_notify_registered := True\<rparr>"

definition pmu_mask :: "'d pmu_os \<Rightarrow> int \<Rightarrow> int set \<Rightarrow> int set" where
  "pmu_mask os n m = m \<union> {k \<in> pmu_sigset os n. po_blockable os k}"

lemma pmu_quiet_idle [simp]: "\<not> pm_notify_registered (pmu_quiet i)"
  by (simp add: pmu_quiet_def)

lemma pmu_ok_live:
  "pmu_ok os m0 h m \<Longrightarrow> h a = Some i \<Longrightarrow> if pm_notify_registered i then 0 < pm_signo i else pm_signo i = 0"
  by (auto simp: pmu_ok_def)

lemma pmu_ok_quiet:
  assumes ok: "pmu_ok os m0 h m" and a: "h a = Some i"
  shows "pmu_ok os m0 (h(a \<mapsto> pmu_quiet i)) (pmu_unmask i m)"
proof -
  have i: "if pm_notify_registered i then 0 < pm_signo i \<and> pm_waitset i = pmu_sigset os (pm_signo i) \<and>
      (pm_waitset i \<inter> m0 \<noteq> {} \<longrightarrow> pm_signal_was_blocked i) else pm_signo i = 0"
    using ok a unfolding pmu_ok_def by blast
  have "m0 \<subseteq> pmu_unmask i m" using ok i unfolding pmu_ok_def by (auto simp: pmu_unmask_def split: if_splits)
  moreover have "\<exists>b j. (h(a \<mapsto> pmu_quiet i)) b = Some j \<and> pm_notify_registered j \<and> \<not> pm_signal_was_blocked j \<and> pm_waitset j = {n}"
    if n: "n \<in> pmu_unmask i m - m0" for n
  proof -
    have "n \<in> m - m0" using n by (auto simp: pmu_unmask_def split: if_splits)
    then obtain b j where j: "h b = Some j" "pm_notify_registered j" "\<not> pm_signal_was_blocked j" "pm_waitset j = {n}"
      using ok unfolding pmu_ok_def by blast
    have "b \<noteq> a" using j a n by (auto simp: pmu_unmask_def)
    with j show ?thesis by auto
  qed
  moreover have "pm_signo (pmu_quiet i) = 0" using i by (auto simp: pmu_quiet_def)
  ultimately show ?thesis using ok unfolding pmu_ok_def by auto
qed

lemma pmu_ok_loud:
  assumes ok: "pmu_ok os m0 h m" and a: "h a = Some i" and i: "\<not> pm_notify_registered i" and n: "0 < n"
  shows "pmu_ok os m0 (h(a \<mapsto> pmu_loud os n m i)) (pmu_mask os n m)"
proof -
  let ?i = "pmu_loud os n m i"
  have sub: "m0 \<subseteq> m" using ok by (simp add: pmu_ok_def)
  have "\<exists>b j. (h(a \<mapsto> ?i)) b = Some j \<and> pm_notify_registered j \<and> \<not> pm_signal_was_blocked j \<and> pm_waitset j = {k}"
    if k: "k \<in> pmu_mask os n m - m0" for k
  proof (cases "k \<in> m")
    case True
    then obtain b j where j: "h b = Some j" "pm_notify_registered j" "\<not> pm_signal_was_blocked j" "pm_waitset j = {k}"
      using ok k unfolding pmu_ok_def by blast
    with a i have "b \<noteq> a" by auto
    with j show ?thesis by auto
  next
    case False
    then have "k = n" "po_valid_signo os n" using k by (auto simp: pmu_mask_def pmu_sigset_def split: if_splits)
    then show ?thesis using False by (intro exI [of _ a] exI [of _ ?i]) (simp add: pmu_loud_def pmu_sigset_def)
  qed
  moreover have "pm_waitset ?i \<inter> m0 \<noteq> {} \<longrightarrow> pm_signal_was_blocked ?i"
    using sub by (auto simp: pmu_loud_def pmu_sigset_def)
  moreover have "m0 \<subseteq> pmu_mask os n m" using sub by (auto simp: pmu_mask_def)
  ultimately show ?thesis using ok n unfolding pmu_ok_def by (auto simp: pmu_loud_def)
qed

text \<open>Blocking and unblocking again restores the mask.\<close>

lemma pmu_mask_undo:
  "(if po_valid_signo os n \<and> n \<in> m then pmu_mask os n m else pmu_mask os n m - pmu_sigset os n) = m"
  by (auto simp: pmu_mask_def pmu_sigset_def)

lemma pmu_ok_idle:
  assumes ok: "pmu_ok os m0 h m" and i: "\<forall>i. h a = Some i \<longrightarrow> \<not> pm_notify_registered i"
    and same: "\<And>b. b \<noteq> a \<Longrightarrow> h' b = h b" and j: "\<And>j. h' a = Some j \<Longrightarrow> \<not> pm_notify_registered j \<and> pm_signo j = 0"
  shows "pmu_ok os m0 h' m"
proof -
  have "\<exists>b k. h' b = Some k \<and> pm_notify_registered k \<and> \<not> pm_signal_was_blocked k \<and> pm_waitset k = {n}" if n: "n \<in> m - m0" for n
  proof -
    obtain b k where k: "h b = Some k" "pm_notify_registered k" "\<not> pm_signal_was_blocked k" "pm_waitset k = {n}"
      using ok n unfolding pmu_ok_def by blast
    with i have "b \<noteq> a" by auto
    with k same show ?thesis by metis
  qed
  moreover have "if pm_notify_registered k then 0 < pm_signo k \<and> pm_waitset k = pmu_sigset os (pm_signo k) \<and>
      (pm_waitset k \<inter> m0 \<noteq> {} \<longrightarrow> pm_signal_was_blocked k) else pm_signo k = 0" if k: "h' b = Some k" for b k
  proof (cases "b = a")
    case True
    then show ?thesis using j k by simp
  next
    case False
    then have "h b = Some k" using same k by simp
    then show ?thesis using ok unfolding pmu_ok_def by blast
  qed
  ultimately show ?thesis using ok unfolding pmu_ok_def by blast
qed

text \<open>\<open>pthread_sigmask\<close> fails only for an operation that does not exist.\<close>

definition pmu_os_ok :: "'d pmu_os \<Rightarrow> bool" where
  "pmu_os_ok os \<longleftrightarrow> os_files_ok os \<and> (\<forall>d. fst (po_sigmask os d) = None)"

lemma pmu_sigmask: "pmu_os_ok os \<Longrightarrow> po_sigmask os d = (r, d') \<Longrightarrow> r = None"
  unfolding pmu_os_ok_def by (metis fst_conv)

definition pmu_changed :: "nat \<Rightarrow> drv_pmu_inst \<Rightarrow> int set \<Rightarrow> 'd pmu \<Rightarrow> 'd pmu \<Rightarrow> bool" where
  "pmu_changed a i m s s' \<longleftrightarrow> hal_heap s' = (hal_heap s)(a \<mapsto> i) \<and> pk_mask s' = m \<and> hal_next s' = hal_next s \<and> hal_fds s' = hal_fds s"

lemmas pmu_call_defs = drv_pmu_is_open_def drv_pmu_ioctl_def pmu_errno_def pmu_rc_def

lemma unregister_run:
  assumes os: "pmu_os_ok os" and a: "hal_heap s a = Some i" and fd: "0 \<le> pm_fd i"
    and i: "if pm_notify_registered i then 0 < pm_signo i else pm_signo i = 0"
  shows "swp (drv_pmu_key_unregister_notify os (Some a)) (\<lambda>_. pmu_changed a (pmu_quiet i) (pmu_unmask i (pk_mask s)) s) E s"
  using a fd i
  by (auto simp: drv_pmu_key_unregister_notify_def drv_pmu_unblock_signal_def pmu_call_defs swp_eval pmu_changed_def pmu_quiet_def
      pmu_unmask_def map_upd_triv split: prod.splits sum.splits option.splits dest: pmu_sigmask [OF os])

definition pmu_signo :: "int \<Rightarrow> int" where
  "pmu_signo n = (if n > 0 then n else DRV_PMU_DEFAULT_SIGNO)"

lemma pmu_signo_pos: "0 < pmu_signo n"
  by (simp add: pmu_signo_def DRV_PMU_DEFAULT_SIGNO_def)

text \<open>Registration of an idle instance.\<close>

definition pmu_registered :: "'d pmu_os \<Rightarrow> nat \<Rightarrow> drv_pmu_inst \<Rightarrow> int \<Rightarrow> int set \<Rightarrow> int \<Rightarrow> 'd pmu \<Rightarrow> 'd pmu \<Rightarrow> bool" where
  "pmu_registered os a i n m r s s' \<longleftrightarrow>
     (if r = 0 then pmu_changed a (pmu_loud os n m i) (pmu_mask os n m) s s'
      else \<exists>j. \<not> pm_notify_registered j \<and> pm_signo j = 0 \<and> pm_fd j = pm_fd i \<and> pmu_changed a j m s s')"

lemma block_run:
  assumes os: "pmu_os_ok os" and a: "hal_heap s a = Some i"
  shows "swp (drv_pmu_block_signal os a n)
    (\<lambda>r s'. r = 0 \<and> pmu_changed a (i\<lparr>pm_waitset := pmu_sigset os n, pm_signal_was_blocked := po_valid_signo os n \<and> n \<in> pk_mask s, pm_signo := n\<rparr>)
      (pmu_mask os n (pk_mask s)) s s') E s"
  using a by (auto simp: drv_pmu_block_signal_def swp_eval pmu_changed_def pmu_mask_def split: prod.splits option.splits dest: pmu_sigmask [OF os])

lemma unblock_run:
  assumes os: "pmu_os_ok os" and a: "hal_heap s a = Some i" and n: "0 < pm_signo i"
  shows "swp (drv_pmu_unblock_signal os a)
    (\<lambda>_. pmu_changed a (i\<lparr>pm_waitset := {}, pm_signal_was_blocked := False, pm_signo := 0\<rparr>)
      (if pm_signal_was_blocked i then pk_mask s else pk_mask s - pm_waitset i) s) E s"
  using a n by (auto simp: drv_pmu_unblock_signal_def swp_eval pmu_changed_def split: prod.splits option.splits dest: pmu_sigmask [OF os])

lemma ioctl_run:
  assumes a: "hal_heap s a = Some i" and fd: "0 \<le> pm_fd i"
    and q: "\<And>r e d. Q r (s\<lparr>hal_dev := d, pk_errno := e\<rparr>)"
  shows "swp (drv_pmu_ioctl f (Some a)) Q E s"
proof -
  have "Q r (s\<lparr>hal_dev := d\<rparr>)" for r d using q [of r "pk_errno s" d] by simp
  then show ?thesis using a fd q by (auto simp: drv_pmu_ioctl_def drv_pmu_is_open_def pmu_errno_def swp_eval split: prod.splits sum.splits)
qed

lemma register_idle_run:
  assumes os: "pmu_os_ok os" and a: "hal_heap s a = Some i" and fd: "0 \<le> pm_fd i" and n: "0 < n"
    and i: "\<not> pm_notify_registered i" "pm_signo i = 0"
  shows "swp (sbind (drv_pmu_block_signal os a n) (\<lambda>ret.
         if ret < 0 then sret (-1)
         else sbind (drv_pmu_ioctl (\<lambda>fd. po_register os fd n) (Some a)) (\<lambda>r.
           if r = None then sbind (drv_pmu_unblock_signal os a) (\<lambda>_. sret (-1))
           else sbind (hset a (\<lambda>i. i\<lparr>pm_notify_registered := True\<rparr>)) (\<lambda>_. sret 0))))
    (\<lambda>r. pmu_registered os a i n (pk_mask s) r s) E s"
  unfolding swp_simps(5) [of "drv_pmu_block_signal os a n"]
proof (rule swp_mono [OF block_run [OF os a]], goal_cases)
  case (1 ret s1)
  let ?was = "po_valid_signo os n \<and> n \<in> pk_mask s"
  let ?i = "i\<lparr>pm_waitset := pmu_sigset os n, pm_signal_was_blocked := ?was, pm_signo := n\<rparr>"
  let ?j = "?i\<lparr>pm_waitset := {}, pm_signal_was_blocked := False, pm_signo := 0\<rparr>"
  have s1: "hal_heap s1 = (hal_heap s)(a \<mapsto> ?i)" "pk_mask s1 = pmu_mask os n (pk_mask s)" "hal_next s1 = hal_next s" "hal_fds s1 = hal_fds s" "ret = 0"
    using 1 by (simp_all add: pmu_changed_def)
  have "swp (drv_pmu_ioctl (\<lambda>fd. po_register os fd n) (Some a)) (\<lambda>r. swp (
      if r = None then sbind (drv_pmu_unblock_signal os a) (\<lambda>_. sret (-1))
      else sbind (hset a (\<lambda>i. i\<lparr>pm_notify_registered := True\<rparr>)) (\<lambda>_. sret 0)) (\<lambda>r. pmu_registered os a i n (pk_mask s) r s) E) E s1"
  proof (rule ioctl_run [of s1 a ?i], goal_cases)
    case (3 r e d)
    let ?s = "s1\<lparr>hal_dev := d, pk_errno := e\<rparr>"
    show ?case
    proof (rule swp_ifI, goal_cases)
      case 1
      have "swp (drv_pmu_unblock_signal os a) (\<lambda>_. pmu_changed a ?j (if pm_signal_was_blocked ?i then pk_mask ?s else pk_mask ?s - pm_waitset ?i) ?s) E ?s"
        by (rule unblock_run [OF os]) (use s1 n in simp_all)
      moreover have "(if pm_signal_was_blocked ?i then pk_mask ?s else pk_mask ?s - pm_waitset ?i) = pk_mask s"
        using s1(2) pmu_mask_undo [of os n "pk_mask s"] by (auto split: if_splits)
      moreover have "pmu_registered os a i n (pk_mask s) (-1) s s2" if "pmu_changed a ?j (pk_mask s) ?s s2" for s2
        using that s1 i by (auto simp: pmu_registered_def pmu_changed_def intro!: exI [of _ ?j])
      ultimately show ?case unfolding swp_simps by (auto elim!: swp_mono)
    next
      case 2
      show ?case using s1 by (simp add: swp_eval pmu_registered_def pmu_changed_def pmu_loud_def)
    qed
  qed (use s1 fd in simp_all)
  then show ?case using s1(5) by simp
qed assumption

lemma register_run:
  assumes os: "pmu_os_ok os" and a: "hal_heap s a = Some i" and fd: "0 \<le> pm_fd i"
    and i: "if pm_notify_registered i then 0 < pm_signo i else pm_signo i = 0"
  shows "swp (drv_pmu_key_register_notify os (Some a) n)
    (\<lambda>r. pmu_registered os a (pmu_quiet i) (pmu_signo n) (pmu_unmask i (pk_mask s)) r s) E s"
proof -
  let ?i = "pmu_quiet i" and ?m = "pmu_unmask i (pk_mask s)"
  have quiet: "pm_signo ?i = 0" "pm_fd ?i = pm_fd i" using i by (auto simp: pmu_quiet_def)
  have idle: "swp (sbind (drv_pmu_block_signal os a (pmu_signo n)) (\<lambda>ret.
         if ret < 0 then sret (-1)
         else sbind (drv_pmu_ioctl (\<lambda>fd. po_register os fd (pmu_signo n)) (Some a)) (\<lambda>r.
           if r = None then sbind (drv_pmu_unblock_signal os a) (\<lambda>_. sret (-1))
           else sbind (hset a (\<lambda>i. i\<lparr>pm_notify_registered := True\<rparr>)) (\<lambda>_. sret 0))))
      (\<lambda>r. pmu_registered os a ?i (pmu_signo n) ?m r s) E s1"
    if s1: "pmu_changed a ?i ?m s s1" for s1
  proof (rule swp_mono [OF register_idle_run [OF os, of s1 a ?i "pmu_signo n"]])
    show "pmu_registered os a ?i (pmu_signo n) ?m r s s'" if "pmu_registered os a ?i (pmu_signo n) (pk_mask s1) r s1 s'" for r s'
      using that s1 by (auto simp: pmu_registered_def pmu_changed_def split: if_splits)
  qed (use s1 quiet fd pmu_signo_pos in \<open>auto simp: pmu_changed_def\<close>)
  show ?thesis
  proof (cases "pm_notify_registered i")
    case True
    have "swp (sbind (drv_pmu_key_unregister_notify os (Some a)) (\<lambda>ret. if ret < 0 then sret (-1)
       else sbind (drv_pmu_block_signal os a (pmu_signo n)) (\<lambda>ret.
         if ret < 0 then sret (-1)
         else sbind (drv_pmu_ioctl (\<lambda>fd. po_register os fd (pmu_signo n)) (Some a)) (\<lambda>r.
           if r = None then sbind (drv_pmu_unblock_signal os a) (\<lambda>_. sret (-1))
           else sbind (hset a (\<lambda>i. i\<lparr>pm_notify_registered := True\<rparr>)) (\<lambda>_. sret 0)))))
      (\<lambda>r. pmu_registered os a ?i (pmu_signo n) ?m r s) E s"
      unfolding swp_simps(5) [of "drv_pmu_key_unregister_notify os (Some a)"]
    proof (rule swp_mono [OF unregister_run [OF os a fd i]], rule swp_ifI, goal_cases)
      case (1 r s1)
      then show ?case using quiet by (auto simp: pmu_registered_def intro!: exI [of _ ?i])
    next
      case (2 r s1)
      then show ?case using idle by simp
    qed
    then show ?thesis
      unfolding drv_pmu_key_register_notify_def pmu_signo_def [symmetric] using a fd True by (simp add: Let_def drv_pmu_is_open_def swp_eval)
  next
    case False
    then have "pmu_changed a ?i ?m s s" using a by (simp add: pmu_changed_def pmu_quiet_def pmu_unmask_def map_upd_triv)
    from idle [OF this] show ?thesis
      unfolding drv_pmu_key_register_notify_def pmu_signo_def [symmetric] using a fd False by (simp add: Let_def drv_pmu_is_open_def swp_eval)
  qed
qed

section \<open>Runs\<close>

abbreviation pmu_st :: "'d pmu_os \<Rightarrow> int set \<Rightarrow> int set \<Rightarrow> nat set \<Rightarrow> 'd pmu \<Rightarrow> bool" where
  "pmu_st os m0 \<equiv> hal_st pm_fd (\<lambda>s. pmu_ok os m0 (hal_heap s) (pk_mask s))"

lemma pk_mask_more: "hal.more s' = hal.more s \<Longrightarrow> pk_mask s' = pk_mask s" for s s' :: "('d, 'z) pmu_scheme"
  by (cases s; cases s') simp

interpretation pmu: driver_state pm_fd "\<lambda>s. pmu_ok os m0 (hal_heap s) (pk_mask s)" for os m0
  by unfold_locales (auto simp: same_inst_def dest: pk_mask_more)

lemma pmu_st_errno [simp]: "pmu_st os m0 X Y (s\<lparr>pk_errno := e\<rparr>) = pmu_st os m0 X Y s"
  by (simp add: hal_st_def hal_inv_cong [of "s\<lparr>pk_errno := e\<rparr>" s])

lemma pmu_st_changed:
  assumes s: "pmu_st os m0 {} {} s" and a: "hal_heap s a = Some i" and c: "pmu_changed a j m s s'"
    and j: "pm_fd j = pm_fd i" "pmu_ok os m0 ((hal_heap s)(a \<mapsto> j)) m"
  shows "pmu_st os m0 {} {} s'"
proof -
  have "hal_inv pm_fd {} {} (s\<lparr>hal_heap := (hal_heap s)(a \<mapsto> j)\<rparr>)"
    using s a j(1) by (intro hal_inv_set) (simp_all add: hal_st_def)
  then have "hal_inv pm_fd {} {} s'"
    using c by (simp add: pmu_changed_def hal_inv_cong [of s' "s\<lparr>hal_heap := (hal_heap s)(a \<mapsto> j)\<rparr>"])
  then show ?thesis using c j(2) by (simp add: hal_st_def pmu_changed_def)
qed

lemma pmu_live:
  assumes "pmu_st os m0 {} {} s" and "hal_heap s a = Some i"
  shows "0 \<le> pm_fd i" "if pm_notify_registered i then 0 < pm_signo i else pm_signo i = 0"
  using pmu.st_fd [OF assms] pmu_ok_live [of os m0 "hal_heap s" "pk_mask s" a i] assms by (simp_all add: hal_st_def)

lemma pmu_quiet_fd [simp]: "pm_fd (pmu_quiet i) = pm_fd i"
  by (simp add: pmu_quiet_def)

lemma pmu_is_open_none: "swp (drv_pmu_is_open None) Q E s = Q False (s\<lparr>pk_errno := EINVAL\<rparr>)"
  by (simp add: drv_pmu_is_open_def pmu_errno_def)

lemma unregister_inv:
  assumes os: "pmu_os_ok os" and s: "pmu_st os m0 {} {} s" and p: "live_ptr s p"
  shows "swp (drv_pmu_key_unregister_notify os p) (\<lambda>_ s'. pmu_st os m0 {} {} s' \<and>
    (\<forall>a. p = Some a \<longrightarrow> (\<exists>i. hal_heap s' a = Some i \<and> \<not> pm_notify_registered i))) E s"
proof (cases p)
  case None
  then show ?thesis using s by (simp add: drv_pmu_key_unregister_notify_def pmu_is_open_none)
next
  case (Some a)
  then obtain i where a: "hal_heap s a = Some i" using p by (auto simp: live_ptr_def)
  have ok: "pmu_ok os m0 (hal_heap s) (pk_mask s)" using s by (simp add: hal_st_def)
  show ?thesis unfolding Some
  proof (rule swp_mono [OF unregister_run [OF os a pmu_live [OF s a]]], goal_cases)
    case (1 r s')
    then show ?case using pmu_st_changed [OF s a 1 _ pmu_ok_quiet [OF ok a]] by (auto simp: pmu_changed_def)
  qed
qed

lemma pmu_register_inv:
  assumes os: "pmu_os_ok os" and s: "pmu_st os m0 {} {} s" and p: "live_ptr s p"
  shows "swp (drv_pmu_key_register_notify os p n) (\<lambda>_. pmu_st os m0 {} {}) E s"
proof (cases p)
  case None
  then show ?thesis using s by (simp add: drv_pmu_key_register_notify_def Let_def pmu_is_open_none)
next
  case (Some a)
  then obtain i where a: "hal_heap s a = Some i" using p by (auto simp: live_ptr_def)
  let ?i = "pmu_quiet i" and ?m = "pmu_unmask i (pk_mask s)"
  have "pmu_ok os m0 (hal_heap s) (pk_mask s)" using s by (simp add: hal_st_def)
  from pmu_ok_quiet [OF this a] have ok: "pmu_ok os m0 ((hal_heap s)(a \<mapsto> ?i)) ?m" .
  show ?thesis unfolding Some
  proof (rule swp_mono [OF register_run [OF os a pmu_live [OF s a]]], goal_cases)
    case (1 r s')
    show ?case
    proof (cases "r = 0")
      case True
      then show ?thesis
        using 1 pmu_st_changed [OF s a, of "pmu_loud os (pmu_signo n) ?m ?i" "pmu_mask os (pmu_signo n) ?m"]
          pmu_ok_loud [OF ok, of a ?i "pmu_signo n"] pmu_signo_pos by (simp add: pmu_registered_def pmu_loud_def)
    next
      case False
      then obtain j where j: "\<not> pm_notify_registered j" "pm_signo j = 0" "pm_fd j = pm_fd i" "pmu_changed a j ?m s s'"
        using 1 by (auto simp: pmu_registered_def)
      have "pmu_ok os m0 ((hal_heap s)(a \<mapsto> j)) ?m" by (rule pmu_ok_idle [OF ok, of a]) (use j in auto)
      then show ?thesis using pmu_st_changed [OF s a j(4,3)] by simp
    qed
  qed
qed

lemma destroy_inv:
  assumes os: "pmu_os_ok os" and s: "pmu_st os m0 {} {} s" and p: "live_ptr s p"
  shows "swp (drv_pmu_inst_destroy os p) (\<lambda>q s'. q = None \<and> pmu_st os m0 {} {} s') E s"
proof (cases p)
  case None
  then show ?thesis using s by (simp add: drv_pmu_inst_destroy_def)
next
  case (Some a)
  show ?thesis unfolding Some drv_pmu_inst_destroy_def option.case swp_simps(5) [of "drv_pmu_key_unregister_notify os (Some a)"]
  proof (rule swp_mono [OF unregister_inv [OF os s p [unfolded Some]]], goal_cases)
    case (1 r s1)
    then obtain i where st: "pmu_st os m0 {} {} s1" and i: "hal_heap s1 a = Some i" "\<not> pm_notify_registered i" using Some by auto
    have "0 \<le> pm_fd i" using pmu_live [OF st i(1)] by simp
    moreover have "swp (hclose os (pm_fd i)) (\<lambda>_. swp (sbind (hset a (\<lambda>i. i\<lparr>pm_fd := -1\<rparr>)) (\<lambda>_. sbind (hfree a) (\<lambda>_. sret None)))
        (\<lambda>q s'. q = None \<and> pmu_st os m0 {} {} s') E) E s1"
    proof (rule pmu.st_close_owned [OF st i(1)], simp, goal_cases)
      case (1 s2)
      have h: "hal_heap s2 a = Some i" using 1(2) i(1) by (simp add: same_inst_def)
      have inv: "hal_inv pm_fd {} {a} s2" and ok: "pmu_ok os m0 (hal_heap s2) (pk_mask s2)" using 1(1) by (simp_all add: hal_st_def)
      let ?s = "s2\<lparr>hal_heap := (hal_heap s2)(a \<mapsto> i\<lparr>pm_fd := -1\<rparr>)\<rparr>"
      have "hal_inv pm_fd {} {a} ?s" by (rule hal_inv_set_gone [OF inv h]) simp
      from hal_inv_free [OF this, of a] have "hal_inv pm_fd {} {} (s2\<lparr>hal_heap := (hal_heap s2)(a := None)\<rparr>)" by simp
      moreover have "pmu_ok os m0 ((hal_heap s2)(a := None)) (pk_mask s2)" by (rule pmu_ok_idle [OF ok, of a]) (use h i(2) in auto)
      ultimately show ?case using h by (simp add: swp_eval hal_st_def)
    qed
    ultimately show ?case using i(1) by (simp add: swp_eval)
  qed assumption
qed

lemma create_inv:
  assumes os: "pmu_os_ok os" and s: "pmu_st os m0 {} {} s" and p: "live_ptr s p"
  shows "swp (drv_pmu_inst_create os (Some p)) (\<lambda>_. pmu_st os m0 {} {}) E s"
proof -
  have files: "os_files_ok os" using os by (simp add: pmu_os_ok_def)
  have fill: "swp (hopen os DRV_PMU_DEV_PATH) (\<lambda>fd. swp (sbind (hset a (\<lambda>i. i\<lparr>pm_fd := fd\<rparr>)) (\<lambda>_.
          if fd < 0 then sbind (hfree a) (\<lambda>_. sret (-1, None)) else sret (0, Some a))) (\<lambda>_. pmu_st os m0 {} {}) E) E s"
    if st: "pmu_st os m0 {} {a} s" and a: "hal_heap s a = Some (pmu_cleared\<lparr>pm_fd := -1\<rparr>)" for s :: "'a pmu" and a
  proof (rule pmu.st_open [OF files st], goal_cases)
    case (1 fd s1)
    let ?i = "pmu_cleared\<lparr>pm_fd := fd\<rparr>"
    have h: "hal_heap s1 a = Some (pmu_cleared\<lparr>pm_fd := -1\<rparr>)" using 1(3) a by (simp add: same_inst_def)
    have inv: "hal_inv pm_fd {} {a} s1" and ok: "pmu_ok os m0 (hal_heap s1) (pk_mask s1)" using 1(2) by (simp_all add: hal_st_def)
    have "hal_inv pm_fd {} {a} (s1\<lparr>hal_heap := (hal_heap s1)(a \<mapsto> ?i)\<rparr>)" by (rule hal_inv_set_gone [OF inv h]) simp
    from hal_inv_free [OF this, of a] have "hal_inv pm_fd {} {} (s1\<lparr>hal_heap := (hal_heap s1)(a := None)\<rparr>)" by simp
    moreover have "pmu_ok os m0 ((hal_heap s1)(a := None)) (pk_mask s1)" by (rule pmu_ok_idle [OF ok, of a]) (use h in \<open>auto simp: pmu_cleared_def\<close>)
    ultimately show ?case using 1(1) h by (simp add: swp_eval hal_st_def)
  next
    case (2 fd s1)
    let ?i = "pmu_cleared\<lparr>pm_fd := fd\<rparr>"
    have h: "hal_heap s1 a = Some (pmu_cleared\<lparr>pm_fd := -1\<rparr>)" using 2(4) a by (simp add: same_inst_def)
    have inv: "hal_inv pm_fd {fd} {a} s1" and ok: "pmu_ok os m0 (hal_heap s1) (pk_mask s1)" using 2(3) by (simp_all add: hal_st_def)
    have "hal_inv pm_fd {} {} (s1\<lparr>hal_heap := (hal_heap s1)(a \<mapsto> ?i)\<rparr>)" using hal_inv_take [OF inv h, of ?i] by simp
    moreover have "pmu_ok os m0 ((hal_heap s1)(a \<mapsto> ?i)) (pk_mask s1)" by (rule pmu_ok_idle [OF ok, of a]) (use h in \<open>auto simp: pmu_cleared_def\<close>)
    ultimately show ?case using 2(1) h by (simp add: swp_eval hal_st_def)
  qed
  have fresh: "swp (sbind (hmalloc os) (\<lambda>ok. if \<not> ok then sret (-1, None)
        else sbind (hnew (pmu_cleared\<lparr>pm_fd := -1\<rparr>)) (\<lambda>a. sbind (hopen os DRV_PMU_DEV_PATH) (\<lambda>fd.
          sbind (hset a (\<lambda>i. i\<lparr>pm_fd := fd\<rparr>)) (\<lambda>_. if fd < 0 then sbind (hfree a) (\<lambda>_. sret (-1, None)) else sret (0, Some a))))))
      (\<lambda>_. pmu_st os m0 {} {}) E s" if st: "pmu_st os m0 {} {} s" for s :: "'a pmu"
    unfolding swp_simps(5) [of "hmalloc os"]
  proof (rule pmu.st_malloc [OF st], rule swp_ifI, goal_cases)
    case (1 ok s1)
    then show ?case by simp
  next
    case (2 ok s1)
    let ?i = "pmu_cleared\<lparr>pm_fd := -1\<rparr>" and ?a = "hal_next s1"
    let ?s = "s1\<lparr>hal_heap := (hal_heap s1)(?a \<mapsto> ?i), hal_next := Suc ?a\<rparr>"
    have inv: "hal_inv pm_fd {} {} s1" and ok: "pmu_ok os m0 (hal_heap s1) (pk_mask s1)" using 2(1) by (simp_all add: hal_st_def)
    then have "hal_heap s1 ?a = None" by (auto simp: hal_inv_def)
    then have "pmu_ok os m0 ((hal_heap s1)(?a \<mapsto> ?i)) (pk_mask s1)"
      by (intro pmu_ok_idle [OF ok, of ?a]) (auto simp: pmu_cleared_def)
    then have "pmu_st os m0 {} {?a} ?s" using hal_inv_new_gone [OF inv, of ?i] by (simp add: hal_st_def)
    from fill [OF this] show ?case by (simp add: swp_def hnew_def sbind_def)
  qed
  show ?thesis
  proof (cases p)
    case None
    then show ?thesis using fresh [OF s] by (simp add: drv_pmu_inst_create_def)
  next
    case (Some a)
    have p': "(p \<noteq> None) = True" using Some by simp
    show ?thesis unfolding drv_pmu_inst_create_def option.case p' if_True swp_simps(5) [of "drv_pmu_inst_destroy os p"]
      by (rule swp_mono [OF destroy_inv [OF os s p]]) (use fresh in auto)
  qed
qed

lemma pmu_st_env:
  "pmu_st os m0 X Y s \<Longrightarrow> pmu_st os m0 X Y (s\<lparr>hal_dev := d\<rparr>)"
  by (simp add: hal_st_def)

lemma ioctl_inv:
  assumes "pmu_st os m0 {} {} s" and "live_ptr s p" and "\<And>r s'. pmu_st os m0 {} {} s' \<Longrightarrow> hal_heap s' = hal_heap s \<Longrightarrow> Q r s'"
  shows "swp (drv_pmu_ioctl f p) Q E s"
proof (cases p)
  case None
  then show ?thesis using assms by (simp add: drv_pmu_ioctl_def pmu_is_open_none)
next
  case (Some a)
  then obtain i where a: "hal_heap s a = Some i" using assms(2) by (auto simp: live_ptr_def)
  show ?thesis unfolding Some
    by (rule ioctl_run [OF a pmu_live(1) [OF assms(1) a]], rule assms(3)) (simp_all add: assms(1) pmu_st_env)
qed

lemma wait_inv:
  assumes s: "pmu_st os m0 {} {} s" and p: "live_ptr s p"
  shows "swp (drv_pmu_key_wait_shutdown os p t) (\<lambda>_. pmu_st os m0 {} {}) E s"
proof (cases p)
  case None
  then show ?thesis using s by (simp add: drv_pmu_key_wait_shutdown_def)
next
  case (Some a)
  then obtain i where a: "hal_heap s a = Some i" using p by (auto simp: live_ptr_def)
  have read: "swp (drv_pmu_read_shutdown_request os (Some a)) (\<lambda>_. pmu_st os m0 {} {}) E (s\<lparr>hal_dev := d\<rparr>)" for d
    unfolding drv_pmu_read_shutdown_request_def swp_simps
    by (rule ioctl_inv [OF pmu_st_env [OF s]]) (use a in \<open>simp_all add: live_ptr_def\<close>)
  show ?thesis
    using a s read unfolding Some
    by (auto simp: drv_pmu_key_wait_shutdown_def drv_pmu_wait_signal_def Let_def swp_eval pmu_errno_def pmu_st_env split: prod.splits sum.splits)
qed

lemma source_inv:
  assumes s: "pmu_st os m0 {} {} s" and p: "live_ptr s p" and b: "case b of None \<Rightarrow> True | Some b \<Rightarrow> unat n \<le> length b"
  shows "swp (drv_pmu_wakeup_source_get os p b n) (\<lambda>_. pmu_st os m0 {} {}) E s"
proof (cases "b = None \<or> n = 0")
  case True
  then show ?thesis using s by (auto simp: drv_pmu_wakeup_source_get_def pmu_errno_def)
next
  case False
  then obtain c where c: "b = Some c" "unat n \<le> length c" using b by auto
  have len: "length (pmu_source_name bs) = 64" for bs
    by (simp add: pmu_source_name_def DRV_PMU_WAKEUP_SOURCE_NAME_MAX_def pad_to_def)
  have "rdn (pmu_source_name bs) 0 (Suc (strnlen (pmu_source_name bs))) = Ret (take (Suc (strnlen (pmu_source_name bs))) (pmu_source_name bs)) \<and>
      (\<exists>c'. wrn c 0 (take (Suc (strnlen (pmu_source_name bs))) (pmu_source_name bs)) = Ret c')"
    if "\<not> min (unat n) 64 \<le> strnlen (pmu_source_name bs)" for bs
    using that c(2) len [of bs] by (auto simp: rdn_def wrn_def sub_bytes_def)
  then show ?thesis
    using False c s p unfolding drv_pmu_wakeup_source_get_def
    by (auto simp: Let_def pmu_errno_def DRV_PMU_WAKEUP_SOURCE_NAME_MAX_def intro!: ioctl_inv split: option.splits cres.splits)
      (use c in \<open>fastforce\<close>)+
qed

datatype pmu_op =
    PCreate "nat option option"
  | PDestroy "nat option"
  | PRegister "nat option" int
  | PUnregister "nat option"
  | PWait "nat option" int
  | PConfirm "nat option"
  | PSchedule "nat option" u32 u32
  | PCancel "nat option"
  | PShutdown "nat option"
  | PPadLevel "nat option" u32 "int option"
  | PSource "nat option" "bytes option" u64

fun pmu_exec :: "'d pmu_os \<Rightarrow> pmu_op \<Rightarrow> ('d pmu, unit) prog" where
  "pmu_exec os (PCreate inst) = sdone (drv_pmu_inst_create os inst)"
| "pmu_exec os (PDestroy p) = sdone (drv_pmu_inst_destroy os p)"
| "pmu_exec os (PRegister p n) = sdone (drv_pmu_key_register_notify os p n)"
| "pmu_exec os (PUnregister p) = sdone (drv_pmu_key_unregister_notify os p)"
| "pmu_exec os (PWait p t) = sdone (drv_pmu_key_wait_shutdown os p t)"
| "pmu_exec os (PConfirm p) = sdone (drv_pmu_key_confirm_shutdown os p)"
| "pmu_exec os (PSchedule p a b) = sdone (drv_pmu_rtc_schedule_power_cycle os p a b)"
| "pmu_exec os (PCancel p) = sdone (drv_pmu_rtc_cancel_power_cycle os p)"
| "pmu_exec os (PShutdown p) = sdone (drv_pmu_shutdown_now os p)"
| "pmu_exec os (PPadLevel p pad l) = sdone (drv_pmu_wakeup_pad_get_level os p pad l)"
| "pmu_exec os (PSource p b n) = sdone (drv_pmu_wakeup_source_get os p b n)"

text \<open>A pointer is null or a live instance, a buffer holds the size that is passed with it.\<close>

fun pmu_valid :: "'d pmu \<Rightarrow> pmu_op \<Rightarrow> bool" where
  "pmu_valid s (PCreate inst) = (case inst of None \<Rightarrow> True | Some p \<Rightarrow> live_ptr s p)"
| "pmu_valid s (PDestroy p) = live_ptr s p"
| "pmu_valid s (PRegister p n) = live_ptr s p"
| "pmu_valid s (PUnregister p) = live_ptr s p"
| "pmu_valid s (PWait p t) = live_ptr s p"
| "pmu_valid s (PConfirm p) = live_ptr s p"
| "pmu_valid s (PSchedule p a b) = live_ptr s p"
| "pmu_valid s (PCancel p) = live_ptr s p"
| "pmu_valid s (PShutdown p) = live_ptr s p"
| "pmu_valid s (PPadLevel p pad l) = live_ptr s p"
| "pmu_valid s (PSource p b n) = (live_ptr s p \<and> (case b of None \<Rightarrow> True | Some b \<Rightarrow> unat n \<le> length b))"

lemma pmu_exec_inv:
  assumes os: "pmu_os_ok os" and s: "pmu_st os m0 {} {} s" and v: "pmu_valid s op"
  shows "swp (pmu_exec os op) (\<lambda>_. pmu_st os m0 {} {}) (\<lambda>_. pmu_st os m0 {} {}) s"
proof (cases op)
  case (PCreate inst)
  then show ?thesis using s v create_inv [OF os s] by (cases inst) (auto simp: sdone_def drv_pmu_inst_create_def)
next
  case (PDestroy p)
  then show ?thesis using v swp_mono [OF destroy_inv [OF os s, of p]] by (auto simp: sdone_def)
next
  case (PUnregister p)
  then show ?thesis using v swp_mono [OF unregister_inv [OF os s, of p]] by (auto simp: sdone_def)
next
  case (PPadLevel p pad l)
  then show ?thesis
    using s v by (cases l) (auto simp: sdone_def drv_pmu_wakeup_pad_get_level_def pmu_errno_def intro!: ioctl_inv split: option.splits)
next
  case (PSource p b n)
  then show ?thesis using v source_inv [OF s, where p = p and b = b and n = n] by (simp add: sdone_def)
qed (use s v in \<open>auto simp: sdone_def drv_pmu_key_confirm_shutdown_def drv_pmu_rtc_schedule_power_cycle_def drv_pmu_rtc_cancel_power_cycle_def
    drv_pmu_shutdown_now_def pmu_rc_def pmu_errno_def Let_def intro!: pmu_register_inv [OF os] wait_inv ioctl_inv\<close>)

interpretation pmu_runs: instance_driver pmu_exec pmu_valid "\<lambda>x. x = os \<and> pmu_os_ok os" "pmu_st os m0 {} {}" pm_fd "\<lambda>_. {}"
  for os m0
  by unfold_locales (auto simp: hal_st_def intro!: pmu_exec_inv)

definition pmu_start :: "'d \<Rightarrow> int set \<Rightarrow> 'd pmu" where
  "pmu_start d m = \<lparr>hal_heap = Map.empty, hal_next = 0, hal_fds = {}, hal_dev = d, pk_mask = m, pk_errno = EGENERIC\<rparr>"

lemma pmu_start_st: "pmu_st os m {} {} (pmu_start d m)"
  by (simp add: hal_st_def hal_inv_empty pmu_start_def pmu_ok_def)

section \<open>Properties\<close>

lemma pmu_mask_base: "pmu_st os m0 X Y s \<Longrightarrow> m0 \<subseteq> pk_mask s"
  and pmu_mask_extra: "pmu_st os m0 X Y s \<Longrightarrow> n \<in> pk_mask s \<Longrightarrow> n \<notin> m0 \<Longrightarrow>
    \<exists>a i. hal_heap s a = Some i \<and> pm_notify_registered i \<and> \<not> pm_signal_was_blocked i \<and> pm_waitset i = {n}"
  by (auto simp: hal_st_def pmu_ok_def)

text \<open>A kernel whose state is the next descriptor; signals are numbered from 1 to 64, and every request succeeds.\<close>

definition sample_pmu_os :: "nat pmu_os" where
  "sample_pmu_os = \<lparr>os_open = \<lambda>path fds d. (if int d \<in> fds then -1 else int d, d + 1), os_close = \<lambda>fd d. d, os_malloc = \<lambda>d. (True, d),
     po_register = \<lambda>fd n d. (Inr (), d), po_unregister = \<lambda>fd d. (Inr (), d), po_pending = \<lambda>fd d. (Inr 1, d),
     po_command = \<lambda>c fd d. (Inr (), d), po_schedule = \<lambda>c fd d. (Inr (), d), po_pad_level = \<lambda>p fd d. (Inr 1, d),
     po_wakeup_source = \<lambda>fd d. (Inr [0x52, 0x54, 0x43], d), po_valid_signo = \<lambda>n. 1 \<le> n \<and> n \<le> 64, po_blockable = \<lambda>n. n \<noteq> 9,
     po_sigmask = \<lambda>d. (None, d), po_sigwait = \<lambda>ns t d. (Inr 10, d)\<rparr>"

lemma sample_pmu_os_ok: "pmu_os_ok sample_pmu_os"
  by (auto simp: pmu_os_ok_def os_files_ok_def sample_pmu_os_def split: if_splits)

definition sample_pmu_inst :: "int \<Rightarrow> bool \<Rightarrow> drv_pmu_inst" where
  "sample_pmu_inst fd was = \<lparr>pm_fd = fd, pm_signo = 12, pm_notify_registered = True, pm_signal_was_blocked = was, pm_waitset = {12}\<rparr>"

definition sample_pmu :: "nat pmu" where
  "sample_pmu = \<lparr>hal_heap = [0 \<mapsto> sample_pmu_inst 3 False], hal_next = 1, hal_fds = {3}, hal_dev = 4, pk_mask = {2, 12}, pk_errno = EGENERIC\<rparr>"

lemma sample_pmu_reach: "reach (pmu_exec sample_pmu_os) pmu_valid (pmu_start 3 {2}) sample_pmu"
proof (rule reach.step [OF reach.step [OF reach.start]])
  let ?s = "\<lparr>hal_heap = [0 \<mapsto> pmu_cleared\<lparr>pm_fd := 3\<rparr>], hal_next = 1, hal_fds = {3}, hal_dev = 4, pk_mask = {2}, pk_errno = EGENERIC\<rparr>"
  show "pmu_valid (pmu_start 3 {2}) (PCreate (Some None))" by (simp add: live_ptr_def)
  show "pmu_exec sample_pmu_os (PCreate (Some None)) (pmu_start 3 {2}) = (Ret (), ?s)"
    by (simp add: sample_pmu_os_def pmu_start_def drv_pmu_inst_create_def hal_call_defs sprog_defs sdone_def)
  show "pmu_valid ?s (PRegister (Some 0) 12)" by (simp add: live_ptr_def)
  show "pmu_exec sample_pmu_os (PRegister (Some 0) 12) ?s = (Ret (), sample_pmu)"
    by (auto simp: sample_pmu_os_def sample_pmu_def sample_pmu_inst_def pmu_cleared_def drv_pmu_key_register_notify_def drv_pmu_block_signal_def
        pmu_call_defs pmu_sigset_def hal_call_defs sprog_defs sdone_def)
qed

text \<open>C22. Whatever calls a client makes with pointers that are null or live: no call of the PMU driver faults; every open descriptor belongs to
  exactly one live instance; the driver never unblocks a signal that was blocked outside of it, and every other blocked signal is the one a
  registered instance waits for and has blocked itself. So the mask of the thread is restored when no instance is registered. That the signal of a registered
  instance is blocked is not claimed: it is not, when another instance with the same signal has been unregistered (\<open>pmu_shared_signal\<close>).
\<close>

theorem pmu_mask_accounted:
  assumes "pmu_os_ok os" and "reach (pmu_exec os) pmu_valid (pmu_start d m0) s"
  shows "(pmu_valid s op \<longrightarrow> fst (pmu_exec os op s) \<noteq> Fault) \<and>
    (fd \<in> hal_fds s \<longleftrightarrow> (\<exists>!a. \<exists>i. hal_heap s a = Some i \<and> pm_fd i = fd)) \<and>
    m0 \<subseteq> pk_mask s \<and>
    (\<forall>n \<in> pk_mask s - m0. \<exists>a i. hal_heap s a = Some i \<and> pm_notify_registered i \<and> \<not> pm_signal_was_blocked i \<and> pm_waitset i = {n}) \<and>
    ((\<forall>i \<in> ran (hal_heap s). \<not> pm_notify_registered i) \<longrightarrow> pk_mask s = m0)"
proof -
  have os: "os = os \<and> pmu_os_ok os" using assms(1) by simp
  note run = pmu_runs.reach_inv [OF assms(2) os pmu_start_st]
  have fault: "pmu_valid s op \<longrightarrow> fst (pmu_exec os op s) \<noteq> Fault"
    using pmu_runs.no_fault [OF assms(2) os pmu_start_st] by blast
  have owner: "fd \<in> hal_fds s \<longleftrightarrow> (\<exists>!a. \<exists>i. hal_heap s a = Some i \<and> pm_fd i = fd)"
    using pmu_runs.one_owner [OF assms(2) os pmu_start_st] by simp
  have extra: "\<forall>n \<in> pk_mask s - m0. \<exists>a i. hal_heap s a = Some i \<and> pm_notify_registered i \<and> \<not> pm_signal_was_blocked i \<and> pm_waitset i = {n}"
    using pmu_mask_extra [OF run] by blast
  have base: "m0 \<subseteq> pk_mask s" by (rule pmu_mask_base [OF run])
  have none: "(\<forall>i \<in> ran (hal_heap s). \<not> pm_notify_registered i) \<longrightarrow> pk_mask s = m0"
    using base extra by (blast intro: ranI)
  show ?thesis by (intro conjI fault owner base extra none)
qed

theorem pmu_mask_accounted_witness:
  "fst (pmu_exec sample_pmu_os (PDestroy (Some 0)) sample_pmu) \<noteq> Fault \<and> (\<exists>!a. \<exists>i. hal_heap sample_pmu a = Some i \<and> pm_fd i = 3) \<and>
   {2} \<subseteq> pk_mask sample_pmu"
  using pmu_mask_accounted [OF sample_pmu_os_ok sample_pmu_reach, of "PDestroy (Some 0)" 3] by (simp add: sample_pmu_def live_ptr_def)

lemma pmu_destroy_run:
  assumes os: "pmu_os_ok os" and s: "pmu_st os m0 {} {} s" and a: "hal_heap s a = Some i"
  shows "swp (drv_pmu_inst_destroy os (Some a))
    (\<lambda>q s'. q = None \<and> hal_heap s' = (hal_heap s)(a := None) \<and> pk_mask s' = pmu_unmask i (pk_mask s)) E s"
  unfolding drv_pmu_inst_destroy_def option.case swp_simps(5) [of "drv_pmu_key_unregister_notify os (Some a)"]
  by (rule swp_mono [OF unregister_run [OF os a pmu_live [OF s a]]]) (auto simp: swp_eval pmu_changed_def hclose_def)

text \<open>Two instances may wait for the same signal. The one that registered first has blocked it; destroying that one unblocks it although
  the other is still registered, so that the next press of the key is delivered to the thread instead of waiting for the call.
\<close>

theorem pmu_shared_signal:
  assumes "pmu_os_ok os" and "pmu_st os m0 {} {} s" and "hal_heap s a = Some i" and "hal_heap s b = Some j" and "a \<noteq> b"
    and "pm_notify_registered i" and "\<not> pm_signal_was_blocked i" and "pm_notify_registered j" and "pm_waitset i = pm_waitset j"
  shows "\<exists>s'. drv_pmu_inst_destroy os (Some a) s = (Ret None, s') \<and> hal_heap s' b = Some j \<and> pm_waitset j \<inter> pk_mask s' = {}"
proof -
  obtain r s' where run: "drv_pmu_inst_destroy os (Some a) s = (r, s')" by fastforce
  have "swp (drv_pmu_inst_destroy os (Some a))
    (\<lambda>q s'. q = None \<and> hal_heap s' = (hal_heap s)(a := None) \<and> pk_mask s' = pmu_unmask i (pk_mask s)) (\<lambda>_ _. False) s"
    by (rule pmu_destroy_run [OF assms(1-3)])
  from swp_run [OF this run] show ?thesis
    using run assms(4-9) by (cases r) (auto simp: pmu_unmask_def)
qed

definition sample_pmu_two :: "nat pmu" where
  "sample_pmu_two = \<lparr>hal_heap = [0 \<mapsto> sample_pmu_inst 3 False, 1 \<mapsto> sample_pmu_inst 4 True], hal_next = 2, hal_fds = {3, 4}, hal_dev = 5,
     pk_mask = {2, 12}, pk_errno = EGENERIC\<rparr>"

lemma sample_pmu_two_st: "pmu_st sample_pmu_os {2} {} {} sample_pmu_two"
  by (auto simp: hal_st_def hal_inv_def pmu_ok_def sample_pmu_two_def sample_pmu_inst_def owns_def dom_def ran_def inj_on_def pmu_sigset_def
      sample_pmu_os_def split: if_splits)

theorem pmu_shared_signal_witness:
  "\<exists>s'. drv_pmu_inst_destroy sample_pmu_os (Some 0) sample_pmu_two = (Ret None, s') \<and> hal_heap s' 1 = Some (sample_pmu_inst 4 True) \<and>
     {12} \<inter> pk_mask s' = {}"
  using pmu_shared_signal [OF sample_pmu_os_ok sample_pmu_two_st, of 0 "sample_pmu_inst 3 False" 1 "sample_pmu_inst 4 True"]
  by (simp add: sample_pmu_two_def sample_pmu_inst_def)

text \<open>The caller's buffer receives the name of the wake-up source with its terminating zero byte, exactly when both fit in the size given (64
  bytes at most); otherwise it stays as it was and \<open>errno\<close> says why.
\<close>

theorem pmu_source_copied:
  assumes "hal_heap s a = Some i" and "0 \<le> pm_fd i" and "po_wakeup_source os (pm_fd i) (hal_dev s) = (Inr bs, d)"
    and "n \<noteq> 0" and "unat n \<le> length b"
  shows "let name = takeWhile (\<lambda>c. c \<noteq> 0) (take 64 bs) in
    drv_pmu_wakeup_source_get os (Some a) (Some b) n s =
      (if length name < min (unat n) 64 then (Ret (0, Some (name @ [0] @ drop (length name + 1) b)), s\<lparr>hal_dev := d\<rparr>)
       else (Ret (-1, Some b), s\<lparr>hal_dev := d, pk_errno := ENOSPC\<rparr>))"
proof -
  let ?r = "pmu_source_name bs" and ?name = "takeWhile (\<lambda>c. c \<noteq> 0) (take 64 bs)"
  have r: "?r = take 64 bs @ replicate (64 - length bs) 0"
    by (simp add: pmu_source_name_def DRV_PMU_WAKEUP_SOURCE_NAME_MAX_def pad_to_def)
  have name: "takeWhile (\<lambda>c. c \<noteq> 0) ?r = ?name"
  proof (cases "0 \<in> set (take 64 bs)")
    case True
    then show ?thesis unfolding r by (intro takeWhile_append1) auto
  next
    case False
    then have all: "\<And>x. x \<in> set (take 64 bs) \<Longrightarrow> x \<noteq> 0" by metis
    then have "?name = take 64 bs" by (simp only: takeWhile_eq_all_conv) blast
    moreover have "takeWhile (\<lambda>c. c \<noteq> 0) (take 64 bs @ replicate (64 - length bs) 0) = take 64 bs @ takeWhile (\<lambda>c. c \<noteq> 0) (replicate (64 - length bs) 0)"
      by (rule takeWhile_append2) (rule all)
    ultimately show ?thesis unfolding r by (simp only: takeWhile_replicate) simp
  qed
  have len: "length ?r = 64" by (simp add: r)
  have rd: "take (Suc (length ?name)) ?r = ?name @ [0]" if "length ?name < 64"
  proof -
    have "take (length ?name) ?r = ?name" using takeWhile_eq_take [of "\<lambda>c. c \<noteq> 0" ?r] by (simp add: name)
    moreover have "?r ! length ?name = 0" using nth_length_takeWhile [of "\<lambda>c. c \<noteq> 0" ?r] that len by (simp add: name)
    ultimately show ?thesis using that len by (simp add: take_Suc_conv_app_nth)
  qed
  have copy: "rdn ?r 0 (length ?name + 1) = Ret (?name @ [0])" "wrn b 0 (?name @ [0]) = Ret (?name @ [0] @ drop (length ?name + 1) b)"
    if "length ?name < min (unat n) 64"
    using that rd len assms(5) by (simp_all add: rdn_def wrn_def sub_bytes_def)
  have src: "drv_pmu_ioctl (po_wakeup_source os) (Some a) s = (Ret (Some bs), s\<lparr>hal_dev := d\<rparr>)"
    using assms(1-3) by (simp add: drv_pmu_ioctl_def drv_pmu_is_open_def hal_call_defs sprog_defs)
  have not_empty: "\<not> (Some b = None \<or> n = 0)" using assms(4) by simp
  show ?thesis
  proof (cases "length ?name < min (unat n) 64")
    case True
    then show ?thesis
      unfolding drv_pmu_wakeup_source_get_def if_not_P [OF not_empty] Let_def DRV_PMU_WAKEUP_SOURCE_NAME_MAX_def strnlen_def option.sel
      by (simp only: sbind_def [of "drv_pmu_ioctl (po_wakeup_source os) (Some a)"] src prod.case cres.case option.case name)
        (simp add: copy [OF True, simplified] True [folded not_le] sprog_defs del: min_less_iff_conj)
  next
    case False
    then show ?thesis
      unfolding drv_pmu_wakeup_source_get_def if_not_P [OF not_empty] Let_def DRV_PMU_WAKEUP_SOURCE_NAME_MAX_def strnlen_def option.sel
      by (simp only: sbind_def [of "drv_pmu_ioctl (po_wakeup_source os) (Some a)"] src prod.case cres.case option.case name)
        (use False in \<open>simp add: sprog_defs pmu_errno_def not_less del: min_less_iff_conj\<close>)
  qed
qed

theorem pmu_source_copied_witness:
  "drv_pmu_wakeup_source_get sample_pmu_os (Some 0) (Some [1, 2, 3, 4, 5]) 5 sample_pmu = (Ret (0, Some [0x52, 0x54, 0x43, 0, 5]), sample_pmu) \<and>
   drv_pmu_wakeup_source_get sample_pmu_os (Some 0) (Some [1, 2, 3]) 3 sample_pmu = (Ret (-1, Some [1, 2, 3]), sample_pmu\<lparr>pk_errno := ENOSPC\<rparr>)"
  using pmu_source_copied [of sample_pmu 0 "sample_pmu_inst 3 False" sample_pmu_os "[0x52, 0x54, 0x43]" 4 5 "[1, 2, 3, 4, 5]"]
    pmu_source_copied [of sample_pmu 0 "sample_pmu_inst 3 False" sample_pmu_os "[0x52, 0x54, 0x43]" 4 3 "[1, 2, 3]"]
  by (simp add: sample_pmu_def sample_pmu_inst_def sample_pmu_os_def)

end
