(* ===== verification/Misc.thy ===== *)
theory Misc
  imports Hal_Inst
begin

text \<open>
  The CanMV miscellaneous device (\<open>rtsmart_hal/components/canmv_misc/canmv_misc.c\<close> and the request in its header): each request opens
  \<open>/dev/canmv_misc\<close>, passes an argument to the kernel and closes the device again. A request is a function of the kernel that is given the content
  of its argument and returns a code and the new content. The calls work on the state of any driver.
\<close>

section \<open>Arguments\<close>

record canmv_misc_dev_meminfo_t =
  mem_total_size :: u64
  mem_free_size :: u64
  mem_used_size :: u64

record soft_i2c_configure =
  si_bus_num :: u32
  si_pin_scl :: u32
  si_pin_sda :: u32
  si_freq :: u32
  si_timeout_ms :: u32

record encoder_pin_cfg_t =
  ep_clk_pin :: int
  ep_dt_pin :: int
  ep_sw_pin :: int

record encoder_dev_cfg_t =
  ed_index :: int
  ed_cfg :: encoder_pin_cfg_t

record drv_touch_config_t =
  to_touch_dev_index :: int
  to_range_x :: int
  to_range_y :: int
  to_pin_intr :: int
  to_intr_value :: int
  to_pin_reset :: int
  to_reset_value :: int
  to_i2c_bus_index :: int
  to_i2c_bus_speed :: int

record tm =
  tm_sec :: int
  tm_min :: int
  tm_hour :: int
  tm_mday :: int
  tm_mon :: int
  tm_year :: int
  tm_wday :: int
  tm_yday :: int
  tm_isdst :: int

definition STAGE_NORMAL :: int where "STAGE_NORMAL = 1"
definition STAGE_MAX :: int where "STAGE_MAX = 8"
definition CANMV_MISC_MKFS_MOUNT_PATH_LEN :: nat where "CANMV_MISC_MKFS_MOUNT_PATH_LEN = 32"

section \<open>The kernel\<close>

type_synonym ('x, 'd) request = "'x \<Rightarrow> 'd \<Rightarrow> (int \<times> 'x) \<times> 'd"

text \<open>\<open>mi_media_mem\<close> is what a \<open>read\<close> of \<open>/proc/media-mem\<close> returns.\<close>

record 'd misc_os = "'d os_files" +
  mi_heap :: "(canmv_misc_dev_meminfo_t option, 'd) request"
  mi_page :: "(canmv_misc_dev_meminfo_t option, 'd) request"
  mi_media_mem :: "int \<Rightarrow> nat \<Rightarrow> 'd \<Rightarrow> string \<times> 'd"
  mi_memory_size :: "(u64 option, 'd) request"
  mi_cpu_usage :: "(int option, 'd) request"
  mi_create_i2c :: "(soft_i2c_configure option, 'd) request"
  mi_delete_i2c :: "(u32, 'd) request"
  mi_ntp_sync :: "(int, 'd) request"
  mi_get_utc :: "(int option, 'd) request"
  mi_set_utc :: "(int, 'd) request"
  mi_get_local :: "(tm option, 'd) request"
  mi_set_zone :: "(int, 'd) request"
  mi_get_zone :: "(int option, 'd) request"
  mi_set_stage :: "(int, 'd) request"
  mi_create_encoder :: "(encoder_dev_cfg_t, 'd) request"
  mi_delete_encoder :: "(int, 'd) request"
  mi_create_touch :: "(drv_touch_config_t, 'd) request"
  mi_delete_touch :: "(int, 'd) request"
  mi_mmz_zone :: "(u64 \<times> u64, 'd) request"
  mi_build_info :: "(int \<times> bytes, 'd) request"
  mi_mkfs :: "(bytes, 'd) request"

definition canmv_misc_dev_ioctl ::
    "('d, 'y) misc_os_scheme \<Rightarrow> ('x, 'd) request \<Rightarrow> 'x \<Rightarrow> (('i, 'd, 'z) hal_scheme, int \<times> 'x) prog" where
  "canmv_misc_dev_ioctl os cmd args =
     sbind (hopen os ''/dev/canmv_misc'') (\<lambda>misc_dev_fd.
     if misc_dev_fd < 0 then sret (-1, args)
     else sbind (hcall (cmd args)) (\<lambda>r. sbind (hclose os misc_dev_fd) (\<lambda>_. sret r)))"

text \<open>\<open>0\<close> or \<open>-1\<close>, and the argument.\<close>

definition misc_request ::
    "('d, 'y) misc_os_scheme \<Rightarrow> ('x, 'd) request \<Rightarrow> 'x \<Rightarrow> (('i, 'd, 'z) hal_scheme, int \<times> 'x) prog" where
  "misc_request os cmd args = sbind (canmv_misc_dev_ioctl os cmd args) (\<lambda>(r, x). sret (if r \<noteq> 0 then -1 else 0, x))"

section \<open>Requests\<close>

definition canmv_misc_get_sys_heap_size where
  "canmv_misc_get_sys_heap_size os meminfo = misc_request os (mi_heap os) meminfo"

definition canmv_misc_get_sys_page_info where
  "canmv_misc_get_sys_page_info os meminfo = misc_request os (mi_page os) meminfo"

definition canmv_misc_get_sys_memory_size where
  "canmv_misc_get_sys_memory_size os sz = misc_request os (mi_memory_size os) sz"

definition canmv_misc_get_cpu_usage where
  "canmv_misc_get_cpu_usage os usage = misc_request os (mi_cpu_usage os) usage"

definition canmv_misc_create_soft_i2c_device where
  "canmv_misc_create_soft_i2c_device os config = misc_request os (mi_create_i2c os) config"

definition canmv_misc_delete_soft_i2c_device where
  "canmv_misc_delete_soft_i2c_device os bus_num = sbind (misc_request os (mi_delete_i2c os) bus_num) (\<lambda>(r, _). sret r)"

definition canmv_misc_ntp_sync where
  "canmv_misc_ntp_sync os =
     sbind (canmv_misc_dev_ioctl os (mi_ntp_sync os) (-1)) (\<lambda>(r, result). sret (if r \<noteq> 0 then -1 else result))"

definition canmv_misc_get_utc_timestamp where
  "canmv_misc_get_utc_timestamp os t = misc_request os (mi_get_utc os) t"

definition canmv_misc_set_utc_timestamp where
  "canmv_misc_set_utc_timestamp os t = sbind (misc_request os (mi_set_utc os) t) (\<lambda>(r, _). sret r)"

definition canmv_misc_get_local_time where
  "canmv_misc_get_local_time os local_time = misc_request os (mi_get_local os) local_time"

definition canmv_misc_set_timezone where
  "canmv_misc_set_timezone os offset = sbind (misc_request os (mi_set_zone os) offset) (\<lambda>(r, _). sret r)"

definition canmv_misc_get_timezone where
  "canmv_misc_get_timezone os offset = misc_request os (mi_get_zone os) offset"

definition canmv_misc_set_auto_exec_py_stage where
  "canmv_misc_set_auto_exec_py_stage os stage =
     (if stage < STAGE_NORMAL \<or> stage \<ge> STAGE_MAX then sret (-1)
      else sbind (misc_request os (mi_set_stage os) stage) (\<lambda>(r, _). sret r))"

definition canmv_misc_create_encoder_dev where
  "canmv_misc_create_encoder_dev os cfg =
     (case cfg of None \<Rightarrow> sret (-1, None)
      | Some c \<Rightarrow> sbind (misc_request os (mi_create_encoder os) c) (\<lambda>(r, c). sret (r, Some c)))"

definition canmv_misc_delete_encode_dev where
  "canmv_misc_delete_encode_dev os index = sbind (misc_request os (mi_delete_encoder os) index) (\<lambda>(r, _). sret r)"

definition canmv_misc_create_touch_device where
  "canmv_misc_create_touch_device os cfg =
     (case cfg of None \<Rightarrow> sret (-1, None)
      | Some c \<Rightarrow> sbind (misc_request os (mi_create_touch os) c) (\<lambda>(r, c). sret (r, Some c)))"

definition canmv_misc_delete_touch_device where
  "canmv_misc_delete_touch_device os index = sbind (misc_request os (mi_delete_touch os) index) (\<lambda>(r, _). sret r)"

section \<open>The media memory\<close>

text \<open>
  \<open>sscanf\<close> as far as the code uses it: literal text, and numbers with leading white space and a sign. The result holds the numbers that were
  read before the input stopped matching.
\<close>

definition scan_lit :: "string \<Rightarrow> string \<Rightarrow> string option" where
  "scan_lit lit cs = (if take (length lit) cs = lit then Some (drop (length lit) cs) else None)"

definition scan_space :: "string \<Rightarrow> string" where
  "scan_space cs = dropWhile (\<lambda>c. c \<in> {CHR 0x20, CHR 0x09, CHR 0x0A, CHR 0x0B, CHR 0x0C, CHR 0x0D}) cs"

definition scan_int :: "string \<Rightarrow> (int \<times> string) option" where
  "scan_int cs =
     (let cs = scan_space cs; neg = (take 1 cs = ''-''); cs = (if take 1 cs = ''-'' \<or> take 1 cs = ''+'' then drop 1 cs else cs)
      in case cs of [] \<Rightarrow> None
         | c # _ \<Rightarrow> if digit_value c = None then None
             else let (n, cs) = scan_digits 0 cs in Some (if neg then - int n else int n, cs))"

fun scan_fields :: "string list \<Rightarrow> string \<Rightarrow> int list" where
  "scan_fields [] cs = []"
| "scan_fields (lit # lits) cs =
     (case scan_lit lit cs of None \<Rightarrow> []
      | Some cs \<Rightarrow> (case scan_int cs of None \<Rightarrow> [] | Some (n, cs) \<Rightarrow> n # scan_fields lits cs))"

text \<open>
  The three variables hold what the stack held when the text does not match. They are \<open>int\<close>s: a number is stored in 32 bits, and
  converted to \<open>size_t\<close> with its sign.
\<close>

definition as_int :: "int \<Rightarrow> u32" where "as_int n = of_int n"

definition scan_store :: "string \<Rightarrow> u32 list \<Rightarrow> u32 list" where
  "scan_store text stack =
     (let ns = map as_int (scan_fields [''total:'', '',used:'', '',remain=''] text) in ns @ drop (length ns) stack)"

definition c_string :: "string \<Rightarrow> string" where
  "c_string cs = takeWhile (\<lambda>c. c \<noteq> CHR 0x00) cs"

definition canmv_misc_get_sys_mmz_info ::
    "('d, 'y) misc_os_scheme \<Rightarrow> u32 list \<Rightarrow> canmv_misc_dev_meminfo_t option
      \<Rightarrow> (('i, 'd, 'z) hal_scheme, int \<times> canmv_misc_dev_meminfo_t option) prog" where
  "canmv_misc_get_sys_mmz_info os stack meminfo =
     sbind (hopen os ''/proc/media-mem'') (\<lambda>fd.
     if fd < 0 then sret (-1, meminfo)
     else
       sbind (hcall (mi_media_mem os fd 230)) (\<lambda>text.
       sbind (hclose os fd) (\<lambda>_.
       let vars = scan_store (c_string (take 230 text)) stack in
       case meminfo of None \<Rightarrow> slift Fault
       | Some m \<Rightarrow> sret (0, Some (m\<lparr>mem_total_size := scast (vars ! 0), mem_used_size := scast (vars ! 1), mem_free_size := scast (vars ! 2)\<rparr>)))))"

section \<open>The zone of the media memory\<close>

text \<open>\<open>zone\<close> is what the local variable holds before the request.\<close>

definition canmv_misc_get_mmz_zone_info ::
    "('d, 'y) misc_os_scheme \<Rightarrow> u64 \<times> u64 \<Rightarrow> u64 option \<Rightarrow> u64 option
      \<Rightarrow> (('i, 'd, 'z) hal_scheme, int \<times> u64 option \<times> u64 option) prog" where
  "canmv_misc_get_mmz_zone_info os info start_ptr end_ptr =
     sbind (canmv_misc_dev_ioctl os (mi_mmz_zone os) info) (\<lambda>(r, info).
     if r \<noteq> 0 then sret (-1, start_ptr, end_ptr)
     else sret (0, map_option (\<lambda>_. fst info) start_ptr, map_option (\<lambda>_. snd info) end_ptr))"

text \<open>The static variables of \<open>canmv_misc_check_phys_in_mmz_zone\<close>.\<close>

record 'd misc = "(unit, 'd) hal" +
  ms_mmz_info_valid :: bool
  ms_mmz_start :: u64
  ms_mmz_end :: u64

definition phys_in_zone :: "u64 \<Rightarrow> u64 \<Rightarrow> 'd misc \<Rightarrow> bool" where
  "phys_in_zone addr sz s = (if addr < ms_mmz_start s then False else if addr + sz > ms_mmz_end s then False else True)"

definition canmv_misc_check_phys_in_mmz_zone ::
    "'d misc_os \<Rightarrow> u64 \<times> u64 \<Rightarrow> u64 \<Rightarrow> u64 \<Rightarrow> ('d misc, bool) prog" where
  "canmv_misc_check_phys_in_mmz_zone os info addr sz =
     sbind (sget (\<lambda>s. s)) (\<lambda>s.
     if \<not> ms_mmz_info_valid s then
       sbind (canmv_misc_get_mmz_zone_info os info (Some (ms_mmz_start s)) (Some (ms_mmz_end s))) (\<lambda>(r, a, b).
       sbind (smod (\<lambda>s. s\<lparr>ms_mmz_start := the a, ms_mmz_end := the b\<rparr>)) (\<lambda>_.
       if r \<noteq> 0 then sret False
       else sbind (smod (\<lambda>s. s\<lparr>ms_mmz_info_valid := True\<rparr>)) (\<lambda>_. sget (phys_in_zone addr sz))))
     else sget (phys_in_zone addr sz))"

section \<open>Text from and to the kernel\<close>

definition INFO_MAX_LEN :: nat where "INFO_MAX_LEN = 256"

text \<open>\<open>k_info\<close> is the content of the block that was allocated: a length and 256 bytes.\<close>

definition canmv_misc_get_kernel_build_info ::
    "('d, 'y) misc_os_scheme \<Rightarrow> int \<times> bytes \<Rightarrow> bytes option \<Rightarrow> u64 \<Rightarrow> (('i, 'd, 'z) hal_scheme, int \<times> bytes option) prog" where
  "canmv_misc_get_kernel_build_info os k_info out_buf buf_len =
     sbind (hmalloc os) (\<lambda>ok.
     if \<not> ok then sret (-1, out_buf)
     else
       sbind (canmv_misc_dev_ioctl os (mi_build_info os) k_info) (\<lambda>(r, k_info).
       if r \<noteq> 0 then sret (-1, out_buf)
       else
         case out_buf of None \<Rightarrow> sret (0, None)
         | Some buf \<Rightarrow>
           if buf_len > 0 then
             let copy_len = (if fst k_info < sint (ucast buf_len :: u32) then of_int (fst k_info) else buf_len - 1) :: u64 in
             sbind (slift (rdn (snd k_info) 0 (unat copy_len))) (\<lambda>dat.
             sbind (slift (wrn buf 0 dat)) (\<lambda>buf.
             sbind (slift (wr8 buf (unat copy_len) 0)) (\<lambda>buf. sret (0, Some buf))))
           else sret (0, Some buf)))"

text \<open>The path is given without its terminator; the second part of the result is \<open>errno\<close> when the function sets it.\<close>

definition canmv_misc_mkfs ::
    "('d, 'y) misc_os_scheme \<Rightarrow> bytes option \<Rightarrow> (('i, 'd, 'z) hal_scheme, int \<times> errno option) prog" where
  "canmv_misc_mkfs os mount_path =
     (case mount_path of None \<Rightarrow> sret (-1, Some EINVAL)
      | Some path \<Rightarrow>
        let mount_path_len = min (length path) CANMV_MISC_MKFS_MOUNT_PATH_LEN in
        if mount_path_len = 0 then sret (-1, Some EINVAL)
        else if mount_path_len = CANMV_MISC_MKFS_MOUNT_PATH_LEN then sret (-1, Some ENAMETOOLONG)
        else sbind (canmv_misc_dev_ioctl os (mi_mkfs os) (pad_to CANMV_MISC_MKFS_MOUNT_PATH_LEN (take mount_path_len path))) (\<lambda>(r, _).
             sret (r, None)))"

section \<open>A request leaves the drivers alone\<close>

context driver_state
begin

lemma st_misc:
  assumes "os_files_ok os" and "hal_st fd_of R X Y s" and "\<And>r s'. hal_st fd_of R X Y s' \<Longrightarrow> same_inst s s' \<Longrightarrow> Q r s'"
  shows "swp (canmv_misc_dev_ioctl os cmd args) Q E s"
  unfolding canmv_misc_dev_ioctl_def swp_simps(5) [of "hopen os _"]
proof (rule st_open [OF assms(1,2)], goal_cases)
  case (1 fd s1)
  then show ?case using assms(3) by simp
next
  case (2 fd s1)
  have no: "\<not> fd < 0" using 2(1) by simp
  show ?case unfolding if_not_P [OF no] swp_simps
  proof (rule st_call [OF 2(3)], rule st_close, assumption, simp, goal_cases)
    case (1 r s2 s3)
    have "insert fd X - {fd} = X" using 2(2) by auto
    then show ?case using 1 2(4) same_inst_trans assms(3) by metis
  qed
qed

end

section \<open>Reading the sizes\<close>

lemma digit_chars: "d < 10 \<Longrightarrow> digit d \<noteq> CHR 0x00 \<and> digit d \<notin> {CHR 0x20, CHR 0x09, CHR 0x0A, CHR 0x0B, CHR 0x0C, CHR 0x0D} \<and>
    digit d \<noteq> CHR ''-'' \<and> digit d \<noteq> CHR ''+''"
proof -
  assume "d < 10"
  then have "d \<in> {0, 1, 2, 3, 4, 5, 6, 7, 8, 9}" by auto
  then show ?thesis by (auto simp: digit_def)
qed

lemma decimal_digits: "\<exists>ds. decimal n = map digit ds \<and> (\<forall>d \<in> set ds. d < 10) \<and> ds \<noteq> []"
proof (induction n rule: decimal.induct)
  case (1 n)
  show ?case
  proof (cases "n < 10")
    case True
    then show ?thesis by (intro exI [of _ "[n]"]) simp
  next
    case False
    then obtain ds where "decimal (n div 10) = map digit ds" "\<forall>d \<in> set ds. d < 10" using 1 by blast
    with False show ?thesis by (intro exI [of _ "ds @ [n mod 10]"]) simp
  qed
qed

lemma c_string_append: "CHR 0x00 \<notin> set xs \<Longrightarrow> c_string (xs @ ys) = xs @ c_string ys"
  unfolding c_string_def by (rule takeWhile_append2) metis

lemma decimal_no_nul: "CHR 0x00 \<notin> set (decimal n)"
  using decimal_digits [of n] digit_chars by fastforce

lemma scan_int_decimal:
  assumes "\<And>c cs'. cs = c # cs' \<Longrightarrow> digit_value c = None"
  shows "scan_int (decimal n @ cs) = Some (int n, cs)"
proof -
  obtain d ds where ds: "decimal n = digit d # map digit ds" "d < 10"
    using decimal_digits [of n] by (metis list.exhaust list.set_intros(1) list.simps(9))
  then have "scan_space (decimal n @ cs) = decimal n @ cs" using digit_chars [of d] by (simp add: scan_space_def)
  moreover have "take 1 (decimal n @ cs) \<noteq> ''-''" "take 1 (decimal n @ cs) \<noteq> ''+''" using ds digit_chars [of d] by simp_all
  moreover have "scan_digits 0 (decimal n @ cs) = (n, cs)"
    unfolding scan_digits_decimal using assms by (cases cs) simp_all
  ultimately show ?thesis using ds digit_value_digit [of d] by (simp add: scan_int_def Let_def del: decimal.simps)
qed

lemma scan_lit_append: "scan_lit lit (lit @ cs) = Some cs"
  by (simp add: scan_lit_def)

lemma as_int_small: "n < 2 ^ 31 \<Longrightarrow> scast (as_int (int n)) = (of_nat n :: u64)"
proof -
  assume n: "n < 2 ^ 31"
  then have "sint (as_int (int n)) = int n"
    by (simp add: as_int_def sint_uint unsigned_of_nat take_bit_nat_eq_self signed_take_bit_int_eq_self)
  then show ?thesis by (simp add: scast_eq)
qed

section \<open>Properties\<close>

text \<open>C37. The sizes that the kernel prints are the sizes the caller gets, in bytes, as long as each is below 2 GiB and the text fits in the buffer.
\<close>

theorem mmz_sizes_read:
  assumes "fst (os_open os ''/proc/media-mem'' (hal_fds s) (hal_dev s)) \<ge> 0"
    and "mi_media_mem os (fst (os_open os ''/proc/media-mem'' (hal_fds s) (hal_dev s))) 230 (snd (os_open os ''/proc/media-mem'' (hal_fds s) (hal_dev s)))
       = (''total:'' @ decimal t @ '',used:'' @ decimal u @ '',remain='' @ decimal r @ rest, d)"
    and "length (''total:'' @ decimal t @ '',used:'' @ decimal u @ '',remain='' @ decimal r @ rest) \<le> 230"
    and "t < 2 ^ 31" and "u < 2 ^ 31" and "r < 2 ^ 31" and "\<And>c cs. rest = c # cs \<Longrightarrow> digit_value c = None"
  shows "\<exists>s'. canmv_misc_get_sys_mmz_info os stack (Some m) s =
    (Ret (0, Some (m\<lparr>mem_total_size := of_nat t, mem_used_size := of_nat u, mem_free_size := of_nat r\<rparr>)), s')"
proof -
  let ?text = "''total:'' @ decimal t @ '',used:'' @ decimal u @ '',remain='' @ decimal r @ rest"
  obtain fd d0 where fd: "os_open os ''/proc/media-mem'' (hal_fds s) (hal_dev s) = (fd, d0)" by fastforce
  have sep: "digit_value CHR '','' = None" by (simp add: digit_value_def)
  have comma: "scan_int (decimal n @ CHR '','' # xs) = Some (int n, CHR '','' # xs)" for n xs
    by (rule scan_int_decimal) (auto simp: sep)
  have rest: "c_string rest = c # cs \<Longrightarrow> digit_value c = None" for c cs
    using assms(7) by (cases rest) (auto simp: c_string_def split: if_splits)
  have last: "scan_int (decimal r @ c_string rest) = Some (int r, c_string rest)" by (rule scan_int_decimal) (rule rest)
  have str: "c_string ?text = ''total:'' @ decimal t @ '',used:'' @ decimal u @ '',remain='' @ decimal r @ c_string rest"
    by (simp add: c_string_append decimal_no_nul c_string_append [of "[_]", simplified] del: decimal.simps)
  have "scan_fields [''total:'', '',used:'', '',remain=''] (c_string ?text) = [int t, int u, int r]"
    unfolding str scan_fields.simps
    by (simp add: scan_lit_append [of "''total:''", simplified] scan_lit_append [of "'',used:''", simplified]
        scan_lit_append [of "'',remain=''", simplified] comma last del: decimal.simps)
  then have store: "scan_store (c_string (take 230 ?text)) stack = map as_int [int t, int u, int r] @ drop 3 stack"
    using assms(3) by (simp add: scan_store_def Let_def numeral_3_eq_3 del: decimal.simps)
  show ?thesis
    using assms(1,2,4-6) fd store
    by (simp add: canmv_misc_get_sys_mmz_info_def hal_call_defs sprog_defs Let_def as_int_small del: decimal.simps)
qed

text \<open>A kernel that finds a descriptor as long as finitely many are in use.\<close>

definition fresh_fd :: "int set \<Rightarrow> int" where
  "fresh_fd fds = (if finite fds then Max (insert 2 fds) + 1 else -1)"

lemma fresh_fd: "finite fds \<Longrightarrow> 0 \<le> fresh_fd fds" "0 \<le> fresh_fd fds \<Longrightarrow> fresh_fd fds \<notin> fds"
proof -
  show "0 \<le> fresh_fd fds" if "finite fds"
  proof -
    have "2 \<le> Max (insert 2 fds)" using that by (intro Max_ge) simp_all
    then have "0 \<le> Max (insert 2 fds) + 1" by (rule order_trans [rotated, OF add_right_mono]) simp
    then show ?thesis using that unfolding fresh_fd_def by (simp only: if_True)
  qed
  show "fresh_fd fds \<notin> fds" if "0 \<le> fresh_fd fds"
  proof
    assume "fresh_fd fds \<in> fds"
    moreover have "finite fds" using that by (auto simp: fresh_fd_def split: if_splits)
    ultimately show False using Max_ge [of "insert 2 fds" "fresh_fd fds"] by (simp add: fresh_fd_def)
  qed
qed

definition sample_misc_os :: "nat misc_os" where
  "sample_misc_os = \<lparr>os_open = \<lambda>path fds d. (fresh_fd fds, d + 1), os_close = \<lambda>fd d. d, os_malloc = \<lambda>d. (True, d),
     mi_heap = \<lambda>x d. ((0, x), d), mi_page = \<lambda>x d. ((0, x), d),
     mi_media_mem = \<lambda>fd n d. (''total:'' @ decimal 4096 @ '',used:'' @ decimal 12 @ '',remain='' @ decimal 4084 @ [CHR 0x0A], d),
     mi_memory_size = \<lambda>x d. ((0, x), d), mi_cpu_usage = \<lambda>x d. ((0, x), d), mi_create_i2c = \<lambda>x d. ((0, x), d), mi_delete_i2c = \<lambda>x d. ((0, x), d),
     mi_ntp_sync = \<lambda>x d. ((0, 0), d), mi_get_utc = \<lambda>x d. ((0, x), d), mi_set_utc = \<lambda>x d. ((0, x), d), mi_get_local = \<lambda>x d. ((0, x), d),
     mi_set_zone = \<lambda>x d. ((0, x), d), mi_get_zone = \<lambda>x d. ((0, x), d), mi_set_stage = \<lambda>x d. ((0, x), d), mi_create_encoder = \<lambda>x d. ((0, x), d),
     mi_delete_encoder = \<lambda>x d. ((0, x), d), mi_create_touch = \<lambda>x d. ((0, x), d), mi_delete_touch = \<lambda>x d. ((0, x), d),
     mi_mmz_zone = \<lambda>x d. ((0, (0x10000000, 0x20000000)), d), mi_build_info = \<lambda>x d. ((0, x), d), mi_mkfs = \<lambda>x d. ((0, x), d)\<rparr>"

definition sample_misc :: "nat misc" where
  "sample_misc = \<lparr>hal_heap = Map.empty, hal_next = 0, hal_fds = {}, hal_dev = 3, ms_mmz_info_valid = False, ms_mmz_start = 0, ms_mmz_end = 0\<rparr>"

theorem mmz_sizes_read_witness:
  "\<exists>s'. canmv_misc_get_sys_mmz_info sample_misc_os [7, 7, 7] (Some \<lparr>mem_total_size = 0, mem_free_size = 0, mem_used_size = 0\<rparr>) sample_misc =
     (Ret (0, Some \<lparr>mem_total_size = 4096, mem_free_size = 4084, mem_used_size = 12\<rparr>), s')"
proof -
  have len: "length (decimal 4096) \<le> 4" "length (decimal 12) \<le> 4" "length (decimal 4084) \<le> 4" by simp_all
  have "\<exists>s'. canmv_misc_get_sys_mmz_info sample_misc_os [7, 7, 7] (Some \<lparr>mem_total_size = 0, mem_free_size = 0, mem_used_size = 0\<rparr>) sample_misc =
    (Ret (0, Some (\<lparr>mem_total_size = 0, mem_free_size = 0, mem_used_size = 0\<rparr>\<lparr>mem_total_size := of_nat 4096, mem_used_size := of_nat 12,
      mem_free_size := of_nat 4084\<rparr>)), s')"
  proof (rule mmz_sizes_read [where rest = "[CHR 0x0A]" and d = 4])
    show "mi_media_mem sample_misc_os (fst (os_open sample_misc_os ''/proc/media-mem'' (hal_fds sample_misc) (hal_dev sample_misc))) 230
        (snd (os_open sample_misc_os ''/proc/media-mem'' (hal_fds sample_misc) (hal_dev sample_misc))) =
      (''total:'' @ decimal 4096 @ '',used:'' @ decimal 12 @ '',remain='' @ decimal 4084 @ [CHR 0x0A], 4)"
      by (simp add: sample_misc_os_def sample_misc_def del: decimal.simps)
    show "\<And>c cs. [CHR 0x0A] = c # cs \<Longrightarrow> digit_value c = None" by (auto simp: digit_value_def)
  qed (use len in \<open>simp_all add: sample_misc_os_def sample_misc_def fresh_fd_def del: decimal.simps\<close>)
  then show ?thesis by simp
qed

lemma misc_dev_ioctl_statics:
  obtains r z s1 where "canmv_misc_dev_ioctl os cmd args s = (Ret (r, z), s1)" "ms_mmz_info_valid s1 = ms_mmz_info_valid s"
    "ms_mmz_start s1 = ms_mmz_start s" "ms_mmz_end s1 = ms_mmz_end s"
proof -
  let ?x = "canmv_misc_dev_ioctl os cmd args s"
  have "\<exists>r z s1. ?x = (Ret (r, z), s1) \<and> ms_mmz_info_valid s1 = ms_mmz_info_valid s \<and>
      ms_mmz_start s1 = ms_mmz_start s \<and> ms_mmz_end s1 = ms_mmz_end s"
    by (auto simp: canmv_misc_dev_ioctl_def hal_call_defs sprog_defs Let_def split: prod.splits)
  with that show ?thesis by blast
qed

text \<open>C27. The check never faults. When the zone is known, or the kernel reports it now, the answer is whether the block begins at or
  above the zone's start and the sum of its address and size, taken modulo \<open>2^64\<close> as \<open>size_t\<close> does, is not above the zone's end; the zone is
  known from then on. So for a block whose end is an address the answer is whether the block lies in the zone, and a block that begins in the zone and
  reaches the last address is accepted although it does not lie in it. When the request for the zone fails, the answer is false and nothing is remembered.
\<close>

theorem mmz_zone_check:
  "\<exists>r z s1 b s'. canmv_misc_dev_ioctl os (mi_mmz_zone os) info s = (Ret (r, z), s1) \<and>
    canmv_misc_check_phys_in_mmz_zone os info addr sz s = (Ret b, s') \<and>
    (let (a, e) = if ms_mmz_info_valid s then (ms_mmz_start s, ms_mmz_end s) else z in
     if ms_mmz_info_valid s \<or> r = 0 then
       ms_mmz_info_valid s' \<and> ms_mmz_start s' = a \<and> ms_mmz_end s' = e \<and>
       (b \<longleftrightarrow> a \<le> addr \<and> (unat addr + unat sz) mod 2 ^ 64 \<le> unat e) \<and>
       (unat addr + unat sz < 2 ^ 64 \<longrightarrow> (b \<longleftrightarrow> unat a \<le> unat addr \<and> unat addr + unat sz \<le> unat e)) \<and>
       (a \<le> addr \<and> addr \<le> e \<and> addr \<noteq> 0 \<and> sz = -1 \<longrightarrow> b)
     else \<not> b \<and> \<not> ms_mmz_info_valid s' \<and> ms_mmz_start s' = ms_mmz_start s \<and> ms_mmz_end s' = ms_mmz_end s)"
proof -
  have answer: "(if addr < a then False else if addr + sz > e then False else True) = (a \<le> addr \<and> (unat addr + unat sz) mod 2 ^ 64 \<le> unat e)" for a e
    by (simp add: word_le_nat_alt word_less_nat_alt unat_word_ariths not_less)
  have wrap: "(unat addr + unat sz) mod 2 ^ 64 \<le> unat e" if "addr \<le> e" "addr \<noteq> 0" "sz = -1" for e
  proof -
    have "addr + sz \<le> addr" using that by (simp add: word_le_nat_alt unat_minus_one)
    then have "addr + sz \<le> e" using that(1) by simp
    then show ?thesis by (simp add: word_le_nat_alt unat_word_ariths)
  qed
  obtain r z s1 where io: "canmv_misc_dev_ioctl os (mi_mmz_zone os) info s = (Ret (r, z), s1)" "ms_mmz_info_valid s1 = ms_mmz_info_valid s"
    "ms_mmz_start s1 = ms_mmz_start s" "ms_mmz_end s1 = ms_mmz_end s"
    by (rule misc_dev_ioctl_statics)
  obtain a e where z: "z = (a, e)" by (cases z)
  define b where "b = (if ms_mmz_info_valid s then ms_mmz_start s \<le> addr \<and> (unat addr + unat sz) mod 2 ^ 64 \<le> unat (ms_mmz_end s)
    else r = 0 \<and> a \<le> addr \<and> (unat addr + unat sz) mod 2 ^ 64 \<le> unat e)"
  define s' where "s' = (if ms_mmz_info_valid s then s
    else if r = 0 then s1\<lparr>ms_mmz_start := a, ms_mmz_end := e, ms_mmz_info_valid := True\<rparr>
    else s1\<lparr>ms_mmz_start := ms_mmz_start s, ms_mmz_end := ms_mmz_end s\<rparr>)"
  have run: "canmv_misc_check_phys_in_mmz_zone os info addr sz s = (Ret b, s')"
    by (simp add: canmv_misc_check_phys_in_mmz_zone_def canmv_misc_get_mmz_zone_info_def phys_in_zone_def sprog_defs io z answer b_def s'_def)
  have body: "let (a, e) = if ms_mmz_info_valid s then (ms_mmz_start s, ms_mmz_end s) else z in
     if ms_mmz_info_valid s \<or> r = 0 then
       ms_mmz_info_valid s' \<and> ms_mmz_start s' = a \<and> ms_mmz_end s' = e \<and>
       (b \<longleftrightarrow> a \<le> addr \<and> (unat addr + unat sz) mod 2 ^ 64 \<le> unat e) \<and>
       (unat addr + unat sz < 2 ^ 64 \<longrightarrow> (b \<longleftrightarrow> unat a \<le> unat addr \<and> unat addr + unat sz \<le> unat e)) \<and>
       (a \<le> addr \<and> addr \<le> e \<and> addr \<noteq> 0 \<and> sz = -1 \<longrightarrow> b)
     else \<not> b \<and> \<not> ms_mmz_info_valid s' \<and> ms_mmz_start s' = ms_mmz_start s \<and> ms_mmz_end s' = ms_mmz_end s"
    using wrap io by (cases "ms_mmz_info_valid s"; cases "r = 0") (simp_all add: z b_def s'_def word_le_nat_alt)
  show ?thesis using io(1) run body by blast
qed

theorem mmz_zone_check_witness:
  "\<exists>s'. canmv_misc_check_phys_in_mmz_zone sample_misc_os (0, 0) 0x18000000 0x1000 sample_misc = (Ret True, s') \<and> ms_mmz_end s' = 0x20000000"
proof -
  let ?s = "sample_misc\<lparr>hal_dev := 4\<rparr>"
  have io: "canmv_misc_dev_ioctl sample_misc_os (mi_mmz_zone sample_misc_os) (0, 0) sample_misc = (Ret (0, (0x10000000, 0x20000000)), ?s)"
    by (simp add: canmv_misc_dev_ioctl_def sample_misc_os_def sample_misc_def fresh_fd_def hal_call_defs sprog_defs)
  have v: "\<not> ms_mmz_info_valid sample_misc" by (simp add: sample_misc_def)
  show ?thesis
    using mmz_zone_check [where s = sample_misc and os = sample_misc_os and info = "(0, 0)" and addr = "0x18000000" and sz = "0x1000"] v
    by (auto simp: io)
qed

end
