(* ===== verification/Kernel_Objects.thy ===== *)
theory Kernel_Objects
  imports Hal_Inst "HOL-Library.Multiset"
begin

text \<open>
  Objects that a driver creates in the kernel for its instances. A driver records the keys of the objects it has created and not deleted as a
  multiset; here are the keys that live instances account for, and how they change with the heap of instances.
\<close>

definition obj_users :: "('i \<Rightarrow> bool) \<Rightarrow> (nat \<Rightarrow> 'i option) \<Rightarrow> nat set" where
  "obj_users uses h = {a. \<exists>i. h a = Some i \<and> uses i}"

definition objs_owned :: "('i \<Rightarrow> bool) \<Rightarrow> ('i \<Rightarrow> 'k) \<Rightarrow> (nat \<Rightarrow> 'i option) \<Rightarrow> 'k multiset" where
  "objs_owned uses key h = image_mset (\<lambda>a. key (the (h a))) (mset_set (obj_users uses h))"

text \<open>What one instance accounts for.\<close>

definition obj_of :: "('i \<Rightarrow> bool) \<Rightarrow> ('i \<Rightarrow> 'k) \<Rightarrow> 'i \<Rightarrow> 'k multiset" where
  "obj_of uses key i = (if uses i then {#key i#} else {#})"

lemma obj_users_finite: "finite (dom h) \<Longrightarrow> finite (obj_users uses h)"
  by (rule finite_subset [of _ "dom h"]) (auto simp: obj_users_def)

lemma objs_owned_empty [simp]: "objs_owned uses key Map.empty = {#}"
  by (simp add: objs_owned_def obj_users_def)

lemma objs_owned_new:
  assumes "finite (dom h)" and "h a = None"
  shows "objs_owned uses key (h(a \<mapsto> i)) = obj_of uses key i + objs_owned uses key h"
proof -
  have users: "obj_users uses (h(a \<mapsto> i)) = (if uses i then insert a (obj_users uses h) else obj_users uses h)"
    using assms(2) by (auto simp: obj_users_def)
  have a: "a \<notin> obj_users uses h" using assms(2) by (simp add: obj_users_def)
  have fin: "finite (obj_users uses h)" by (rule obj_users_finite [OF assms(1)])
  have "image_mset (\<lambda>b. key (the ((h(a \<mapsto> i)) b))) (mset_set (obj_users uses h)) = objs_owned uses key h"
    unfolding objs_owned_def by (rule image_mset_cong) (use a fin in auto)
  then show ?thesis using a fin unfolding objs_owned_def [of uses key "h(a \<mapsto> i)"] users obj_of_def by simp
qed

lemma objs_owned_free:
  assumes "finite (dom h)" and "h a = Some i"
  shows "objs_owned uses key h = obj_of uses key i + objs_owned uses key (h(a := None))"
  using objs_owned_new [of "h(a := None)" a uses key i] assms by (simp add: map_upd_triv)

lemma objs_owned_set:
  assumes "finite (dom h)" and "h a = Some i" and "obj_of uses key j = obj_of uses key i"
  shows "objs_owned uses key (h(a \<mapsto> j)) = objs_owned uses key h"
  using objs_owned_free [OF assms(1,2), of uses key] objs_owned_new [of "h(a := None)" a uses key j] assms by simp

lemma count_objs_owned:
  assumes "finite (dom h)"
  shows "count (objs_owned uses key h) k = card {a. \<exists>i. h a = Some i \<and> uses i \<and> key i = k}"
proof -
  have "{a. \<exists>i. h a = Some i \<and> uses i \<and> key i = k} = {a \<in> obj_users uses h. key (the (h a)) = k}"
    by (auto simp: obj_users_def)
  then show ?thesis using obj_users_finite [OF assms, of uses] by (simp add: objs_owned_def count_image_mset' eq_commute [of k])
qed

text \<open>The instances and the descriptors are finitely many.\<close>

lemma hal_inv_finite: "hal_inv fd_of X Y s \<Longrightarrow> finite (dom (hal_heap s))"
  by (auto simp: hal_inv_def intro: finite_subset [of _ "{..<hal_next s}"])

lemma hal_inv_finite_fds:
  assumes "hal_inv fd_of X Y s" and "finite X"
  shows "finite (hal_fds s)"
proof -
  have "finite (dom (owns fd_of Y (hal_heap s)))"
    by (rule finite_subset [OF _ hal_inv_finite [OF assms(1)]]) (auto simp: owns_def split: if_splits)
  then have "finite (ran (owns fd_of Y (hal_heap s)))" by (rule finite_ran)
  then show ?thesis using assms by (simp add: hal_inv_def)
qed

end
