(* ===== verification/I2c.thy ===== *)
theory I2c
  imports Misc Kernel_Objects
begin

text \<open>
  The I2C master driver (\<open>rtsmart_hal/drivers/i2c/drv_i2c_master.c\<close>): instances over \<open>/dev/i2c<n>\<close>. A bus below 5 is hardware; any other
  is created in the kernel for the instance, through the miscellaneous device of \<open>Misc\<close>, and deleted with it. The state records the buses the kernel has
  created and not deleted, and those it refused to delete when the driver asked for it: the driver reports such a refusal and forgets the bus.
\<close>

section \<open>State\<close>

definition KD_HARD_I2C_MAX_NUM :: int where "KD_HARD_I2C_MAX_NUM = 5"
definition DRV_I2C_TYPE_HARD :: int where "DRV_I2C_TYPE_HARD = 1"
definition DRV_I2C_TYPE_SOFT :: int where "DRV_I2C_TYPE_SOFT = 2"

text \<open>\<open>i2_base_ok\<close>: the type mark of the instance is that of this driver.\<close>

record drv_i2c_inst =
  i2_base_ok :: bool
  i2_type :: int
  i2_id :: int
  i2_fd :: int
  i2_pin_scl :: u8
  i2_pin_sda :: u8
  i2_freq :: u32
  i2_timeout_ms :: u32

record i2c_msg =
  im_addr :: u16
  im_flags :: u16
  im_len :: u16
  im_buf :: "bytes option"

record 'd i2c_os = "'d misc_os" +
  io_7bit :: "int \<Rightarrow> 'd \<Rightarrow> int \<times> 'd"
  io_10bit :: "int \<Rightarrow> 'd \<Rightarrow> int \<times> 'd"
  io_clk :: "u32 \<Rightarrow> int \<Rightarrow> 'd \<Rightarrow> int \<times> 'd"
  io_timeout :: "u32 \<Rightarrow> int \<Rightarrow> 'd \<Rightarrow> int \<times> 'd"
  io_rw :: "i2c_msg list \<Rightarrow> int \<Rightarrow> 'd \<Rightarrow> (int \<times> i2c_msg list) \<times> 'd"

record 'd i2c = "(drv_i2c_inst, 'd) hal" +
  i2_in_use :: "bool list"
  i2_buses :: "u32 multiset"
  i2_kept :: "u32 multiset"

section \<open>Requests\<close>

text \<open>A request on an instance, and \<open>-1\<close> without one; \<open>none\<close> is what the caller gets besides.\<close>

definition drv_i2c_ioctl :: "nat option \<Rightarrow> (int \<Rightarrow> 'd \<Rightarrow> 'a \<times> 'd) \<Rightarrow> 'a \<Rightarrow> ('d i2c, 'a) prog" where
  "drv_i2c_ioctl inst cmd none =
     (case inst of None \<Rightarrow> sret none
      | Some a \<Rightarrow> sbind (hinst a) (\<lambda>i. if i2_fd i < 0 then sret none else hcall (cmd (i2_fd i))))"

definition i2c_create_bus :: "'d i2c_os \<Rightarrow> soft_i2c_configure \<Rightarrow> ('d i2c, int) prog" where
  "i2c_create_bus os cfg =
     sbind (canmv_misc_dev_ioctl os (mi_create_i2c os) (Some cfg)) (\<lambda>(r, _).
     sbind (smod (\<lambda>s. if r = 0 then s\<lparr>i2_buses := add_mset (si_bus_num cfg) (i2_buses s)\<rparr> else s)) (\<lambda>_. sret r))"

definition i2c_delete_bus :: "'d i2c_os \<Rightarrow> u32 \<Rightarrow> ('d i2c, int) prog" where
  "i2c_delete_bus os bus_num =
     sbind (canmv_misc_dev_ioctl os (mi_delete_i2c os) bus_num) (\<lambda>(r, _).
     sbind (smod (\<lambda>s. if r = 0 then s\<lparr>i2_buses := i2_buses s - {#bus_num#}\<rparr>
        else s\<lparr>i2_kept := add_mset bus_num (i2_kept s)\<rparr>)) (\<lambda>_. sret r))"

definition i2c_mark :: "int \<Rightarrow> bool \<Rightarrow> ('d i2c, unit) prog" where
  "i2c_mark busid b s =
     (if 0 \<le> busid \<and> nat busid < length (i2_in_use s) then (Ret (), s\<lparr>i2_in_use := (i2_in_use s)[nat busid := b]\<rparr>) else (Fault, s))"

section \<open>Instances\<close>

definition i2c_dev :: "int \<Rightarrow> string" where
  "i2c_dev busid = ''/dev/i2c'' @ decimal (nat busid)"

text \<open>A null \<open>inst\<close> is treated as a null \<open>*inst\<close>.\<close>

definition drv_i2c_inst_destroy :: "'d i2c_os \<Rightarrow> nat option \<Rightarrow> ('d i2c, nat option) prog" where
  "drv_i2c_inst_destroy os inst =
     (case inst of None \<Rightarrow> sret None
      | Some a \<Rightarrow> sbind (hinst a) (\<lambda>i.
          if \<not> i2_base_ok i then sret (Some a)
          else
            sbind (hfree a) (\<lambda>_.
            sbind (if 0 \<le> i2_fd i then hclose os (i2_fd i) else sret ()) (\<lambda>_.
            if i2_type i = DRV_I2C_TYPE_SOFT then sbind (i2c_delete_bus os (of_int (i2_id i))) (\<lambda>_. sret None)
            else sbind (if i2_id i \<ge> 0 \<and> i2_id i < KD_HARD_I2C_MAX_NUM then i2c_mark (i2_id i) False else sret ()) (\<lambda>_. sret None)))))"

text \<open>The label \<open>fail\<close>.\<close>

definition i2c_fail :: "'d i2c_os \<Rightarrow> int \<Rightarrow> int \<Rightarrow> int \<Rightarrow> ('d i2c, int \<times> nat option) prog" where
  "i2c_fail os busid dev_type fd =
     sbind (if fd \<ge> 0 then hclose os fd else sret ()) (\<lambda>_.
     sbind (if dev_type = DRV_I2C_TYPE_SOFT then sbind (i2c_delete_bus os (of_int busid)) (\<lambda>_. sret ()) else sret ()) (\<lambda>_.
     sret (-1, None)))"

definition i2c_configure :: "'d i2c_os \<Rightarrow> nat \<Rightarrow> u32 \<Rightarrow> u32 \<Rightarrow> ('d i2c, bool) prog" where
  "i2c_configure os a freq timeout_ms =
     sbind (drv_i2c_ioctl (Some a) (io_clk os freq) (-1)) (\<lambda>r.
     if r \<noteq> 0 then sret False
     else sbind (drv_i2c_ioctl (Some a) (io_timeout os timeout_ms) (-1)) (\<lambda>r. sret (r = 0)))"

text \<open>From the opening of the device on.\<close>

definition i2c_open_inst ::
    "'d i2c_os \<Rightarrow> int \<Rightarrow> int \<Rightarrow> u32 \<Rightarrow> u32 \<Rightarrow> u8 \<Rightarrow> u8 \<Rightarrow> ('d i2c, int \<times> nat option) prog" where
  "i2c_open_inst os dev_type busid freq timeout_ms scl sda =
     sbind (hopen os (i2c_dev busid)) (\<lambda>fd.
     if fd < 0 then i2c_fail os busid dev_type fd
     else
       sbind (hmalloc os) (\<lambda>ok.
       if \<not> ok then i2c_fail os busid dev_type fd
       else
         sbind (hnew \<lparr>i2_base_ok = True, i2_type = dev_type, i2_id = busid, i2_fd = fd, i2_pin_scl = scl, i2_pin_sda = sda, i2_freq = freq,
           i2_timeout_ms = timeout_ms\<rparr>) (\<lambda>a.
         if dev_type = DRV_I2C_TYPE_HARD then
           sbind (i2c_configure os a freq timeout_ms) (\<lambda>ok.
           if \<not> ok then sbind (hfree a) (\<lambda>_. i2c_fail os busid dev_type fd)
           else sbind (i2c_mark busid True) (\<lambda>_. sret (0, Some a)))
         else sret (0, Some a))))"

text \<open>\<open>inst\<close> is null, or points to a pointer; the result is the value returned and the caller's pointer.\<close>

definition drv_i2c_inst_create ::
    "'d i2c_os \<Rightarrow> int \<Rightarrow> u32 \<Rightarrow> u32 \<Rightarrow> u8 \<Rightarrow> u8 \<Rightarrow> nat option option \<Rightarrow> ('d i2c, int \<times> nat option) prog" where
  "drv_i2c_inst_create os busid freq timeout_ms scl sda inst =
     (case inst of None \<Rightarrow> sret (-1, None)
      | Some p \<Rightarrow>
        if busid < 0 \<or> freq = 0 \<or> timeout_ms = 0 then sret (-1, p)
        else
          sbind (if p \<noteq> None then drv_i2c_inst_destroy os p else sret None) (\<lambda>_.
          if busid < KD_HARD_I2C_MAX_NUM then i2c_open_inst os DRV_I2C_TYPE_HARD busid freq timeout_ms scl sda
          else if 64 \<le> scl \<or> 64 \<le> sda then sret (-1, None)
          else
            let cfg = \<lparr>si_bus_num = of_int busid, si_pin_scl = ucast scl, si_pin_sda = ucast sda, si_freq = freq, si_timeout_ms = timeout_ms\<rparr> in
            sbind (i2c_create_bus os cfg) (\<lambda>r.
            if r \<noteq> 0 then sret (-1, None)
            else i2c_open_inst os DRV_I2C_TYPE_SOFT busid freq timeout_ms scl sda)))"

section \<open>Operations\<close>

definition drv_i2c_set_7b_addr :: "'d i2c_os \<Rightarrow> nat option \<Rightarrow> ('d i2c, int) prog" where
  "drv_i2c_set_7b_addr os inst = (if inst = None then sret (-1) else drv_i2c_ioctl inst (io_7bit os) (-1))"

definition drv_i2c_set_10b_addr :: "'d i2c_os \<Rightarrow> nat option \<Rightarrow> ('d i2c, int) prog" where
  "drv_i2c_set_10b_addr os inst = (if inst = None then sret (-1) else drv_i2c_ioctl inst (io_10bit os) (-1))"

definition drv_i2c_set_freq :: "'d i2c_os \<Rightarrow> nat option \<Rightarrow> u32 \<Rightarrow> ('d i2c, int) prog" where
  "drv_i2c_set_freq os inst freq =
     (case inst of None \<Rightarrow> sret (-1)
      | Some a \<Rightarrow>
        if freq = 0 then sret (-1)
        else sbind (hinst a) (\<lambda>i.
          if freq = i2_freq i then sret 0
          else sbind (drv_i2c_ioctl inst (io_clk os freq) (-1)) (\<lambda>r.
            if r \<noteq> 0 then sret (-1) else sbind (hset a (\<lambda>i. i\<lparr>i2_freq := freq\<rparr>)) (\<lambda>_. sret 0))))"

definition drv_i2c_set_timeout :: "'d i2c_os \<Rightarrow> nat option \<Rightarrow> u32 \<Rightarrow> ('d i2c, int) prog" where
  "drv_i2c_set_timeout os inst timeout_ms =
     (case inst of None \<Rightarrow> sret (-1)
      | Some a \<Rightarrow>
        if timeout_ms = 0 then sret (-1)
        else sbind (hinst a) (\<lambda>i.
          if timeout_ms = i2_timeout_ms i then sret 0
          else sbind (drv_i2c_ioctl inst (io_timeout os timeout_ms) (-1)) (\<lambda>r.
            if r \<noteq> 0 then sret (-1) else sbind (hset a (\<lambda>i. i\<lparr>i2_timeout_ms := timeout_ms\<rparr>)) (\<lambda>_. sret 0))))"

text \<open>The messages are the caller's array; it is a fault to read more of them than there are.\<close>

definition drv_i2c_transfer ::
    "'d i2c_os \<Rightarrow> nat option \<Rightarrow> i2c_msg list option \<Rightarrow> int \<Rightarrow> ('d i2c, int \<times> i2c_msg list option) prog" where
  "drv_i2c_transfer os inst msgs msg_cnt =
     (if inst = None \<or> msg_cnt < 0 \<or> (msg_cnt > 0 \<and> msgs = None) then sret (-1, msgs)
      else if msg_cnt = 0 then sret (0, msgs)
      else
        let ms = the msgs; n = nat msg_cnt; bad = (\<lambda>m. im_len m > 0 \<and> im_buf m = None) in
        if list_ex bad (take n ms) then sret (-1, msgs)
        else if length ms < n then slift Fault
        else sbind (drv_i2c_ioctl inst (io_rw os (take n ms)) (-1, take n ms)) (\<lambda>(r, ms'). sret (r, Some (ms' @ drop n ms))))"

text \<open>The attributes; those of an unsigned type are \<open>-1\<close> in that type without an instance.\<close>

definition i2c_attr :: "(drv_i2c_inst \<Rightarrow> 'a) \<Rightarrow> 'a \<Rightarrow> nat option \<Rightarrow> ('d i2c, 'a) prog" where
  "i2c_attr member none inst = (case inst of None \<Rightarrow> sret none | Some a \<Rightarrow> sbind (hinst a) (\<lambda>i. sret (member i)))"

definition drv_i2c_master_get_type :: "nat option \<Rightarrow> ('d i2c, int) prog" where "drv_i2c_master_get_type = i2c_attr i2_type (-1)"
definition drv_i2c_master_get_id :: "nat option \<Rightarrow> ('d i2c, int) prog" where "drv_i2c_master_get_id = i2c_attr i2_id (-1)"
definition drv_i2c_master_get_fd :: "nat option \<Rightarrow> ('d i2c, int) prog" where "drv_i2c_master_get_fd = i2c_attr i2_fd (-1)"
definition drv_i2c_master_get_freq :: "nat option \<Rightarrow> ('d i2c, u32) prog" where "drv_i2c_master_get_freq = i2c_attr i2_freq (-1)"
definition drv_i2c_master_get_timeout_ms :: "nat option \<Rightarrow> ('d i2c, u32) prog" where
  "drv_i2c_master_get_timeout_ms = i2c_attr i2_timeout_ms (-1)"
definition drv_i2c_master_get_pin_scl :: "nat option \<Rightarrow> ('d i2c, u8) prog" where "drv_i2c_master_get_pin_scl = i2c_attr i2_pin_scl (-1)"
definition drv_i2c_master_get_pin_sda :: "nat option \<Rightarrow> ('d i2c, u8) prog" where "drv_i2c_master_get_pin_sda = i2c_attr i2_pin_sda (-1)"

section \<open>Who owns a bus\<close>

definition i2c_soft :: "drv_i2c_inst \<Rightarrow> bool" where
  "i2c_soft i \<longleftrightarrow> i2_type i = DRV_I2C_TYPE_SOFT"

definition i2c_bus :: "drv_i2c_inst \<Rightarrow> u32" where
  "i2c_bus i = of_int (i2_id i)"

abbreviation i2c_owned :: "(nat \<Rightarrow> drv_i2c_inst option) \<Rightarrow> u32 multiset" where
  "i2c_owned \<equiv> objs_owned i2c_soft i2c_bus"

text \<open>What an instance has given up when it is freed: its bus, if the driver created it.\<close>

abbreviation i2c_left :: "drv_i2c_inst \<Rightarrow> u32 multiset" where
  "i2c_left \<equiv> obj_of i2c_soft i2c_bus"

lemmas i2c_left_def = obj_of_def i2c_soft_def

definition i2c_kind :: "drv_i2c_inst \<Rightarrow> bool" where
  "i2c_kind i \<longleftrightarrow> i2_base_ok i \<and>
     (if i2_id i < KD_HARD_I2C_MAX_NUM then i2_type i = DRV_I2C_TYPE_HARD \<and> 0 \<le> i2_id i else i2_type i = DRV_I2C_TYPE_SOFT)"

text \<open>\<open>T\<close> are buses that exist without an instance, between the calls of the driver none.\<close>

definition i2c_R :: "u32 multiset \<Rightarrow> ('d, 'z) i2c_scheme \<Rightarrow> bool" where
  "i2c_R T s \<longleftrightarrow> i2_buses s = T + i2c_owned (hal_heap s) + i2_kept s \<and> length (i2_in_use s) = 5 \<and> (\<forall>i \<in> ran (hal_heap s). i2c_kind i)"

abbreviation i2c_st :: "u32 multiset \<Rightarrow> int set \<Rightarrow> nat set \<Rightarrow> 'd i2c \<Rightarrow> bool" where
  "i2c_st T \<equiv> hal_st i2_fd (i2c_R T)"

lemma i2c_more: "hal.more s' = hal.more s \<Longrightarrow> i2_buses s' = i2_buses s \<and> i2_in_use s' = i2_in_use s \<and> i2_kept s' = i2_kept s" for s s' :: "('d, 'z) i2c_scheme"
  by (cases s; cases s') simp

interpretation i2c: driver_state i2_fd "i2c_R T" for T
  by unfold_locales (auto simp: same_inst_def i2c_R_def dest: i2c_more)

lemma i2c_finite: "i2c_st T X Y s \<Longrightarrow> finite (dom (hal_heap s))"
  by (rule hal_inv_finite [of i2_fd X Y]) (simp add: hal_st_def)

lemma same_inst_kept: "same_inst s s' \<Longrightarrow> i2_kept s' = i2_kept s \<and> i2_buses s' = i2_buses s" for s s' :: "('d, 'z) i2c_scheme"
  using i2c_more [of s' s] by (auto simp: same_inst_def)

lemma i2c_st_buses:
  assumes "i2c_st T X Y s" and "B = T' + i2c_owned (hal_heap s) + i2_kept s"
  shows "i2c_st T' X Y (s\<lparr>i2_buses := B\<rparr>)"
proof -
  have "hal_inv i2_fd X Y (s\<lparr>i2_buses := B\<rparr>) = hal_inv i2_fd X Y s" by (rule hal_inv_cong) simp_all
  then show ?thesis using assms by (simp add: hal_st_def i2c_R_def)
qed

lemma i2c_st_kept:
  assumes "i2c_st T X Y s" and "i2_buses s = T' + i2c_owned (hal_heap s) + K"
  shows "i2c_st T' X Y (s\<lparr>i2_kept := K\<rparr>)"
proof -
  have "hal_inv i2_fd X Y (s\<lparr>i2_kept := K\<rparr>) = hal_inv i2_fd X Y s" by (rule hal_inv_cong) simp_all
  then show ?thesis using assms by (simp add: hal_st_def i2c_R_def)
qed

text \<open>A bus is deleted, or it is one more that the kernel has kept.\<close>

lemma swp_delete_bus:
  assumes os: "os_files_ok os" and s: "i2c_st (add_mset b T) X Y s"
    and q: "\<And>r s'. i2c_st T X Y s' \<Longrightarrow> hal_heap s' = hal_heap s \<Longrightarrow>
      i2_kept s' = (if r = 0 then i2_kept s else add_mset b (i2_kept s)) \<Longrightarrow> Q r s'"
  shows "swp (i2c_delete_bus os b) Q E s"
  unfolding i2c_delete_bus_def swp_simps(5) [of "canmv_misc_dev_ioctl _ _ _"]
proof (rule i2c.st_misc [OF os s], goal_cases)
  case (1 x s')
  obtain r y where x: "x = (r, y)" by (cases x)
  have b: "i2_buses s' = add_mset b (T + i2c_owned (hal_heap s') + i2_kept s')" using 1 by (simp add: hal_st_def i2c_R_def)
  have k: "i2_kept s' = i2_kept s" "hal_heap s' = hal_heap s" using same_inst_kept [OF 1(2)] 1(2) by (simp_all add: same_inst_def)
  have "i2c_st T X Y (s'\<lparr>i2_buses := i2_buses s' - {#b#}\<rparr>)" by (rule i2c_st_buses [OF 1(1)]) (simp add: b)
  moreover have "i2c_st T X Y (s'\<lparr>i2_kept := add_mset b (i2_kept s')\<rparr>)" by (rule i2c_st_kept [OF 1(1)]) (simp add: b)
  ultimately show ?case
    using q [of "s'\<lparr>i2_buses := i2_buses s' - {#b#}\<rparr>" 0] q [of "s'\<lparr>i2_kept := add_mset b (i2_kept s')\<rparr>" r] k by (cases "r = 0") (simp_all add: x)
qed

lemma swp_create_bus:
  assumes os: "os_files_ok os" and s: "i2c_st T X Y s"
    and good: "\<And>s'. i2c_st (add_mset (si_bus_num cfg) T) X Y s' \<Longrightarrow> hal_heap s' = hal_heap s \<Longrightarrow> i2_kept s' = i2_kept s \<Longrightarrow> Q 0 s'"
    and bad: "\<And>r s'. r \<noteq> 0 \<Longrightarrow> i2c_st T X Y s' \<Longrightarrow> hal_heap s' = hal_heap s \<Longrightarrow> i2_kept s' = i2_kept s \<Longrightarrow> Q r s'"
  shows "swp (i2c_create_bus os cfg) Q E s"
  unfolding i2c_create_bus_def swp_simps(5) [of "canmv_misc_dev_ioctl _ _ _"]
proof (rule i2c.st_misc [OF os s], goal_cases)
  case (1 r s')
  have "i2_buses s' = T + i2c_owned (hal_heap s') + i2_kept s'" using 1 by (simp add: hal_st_def i2c_R_def)
  then have "i2c_st (add_mset (si_bus_num cfg) T) X Y (s'\<lparr>i2_buses := add_mset (si_bus_num cfg) (i2_buses s')\<rparr>)"
    by (intro i2c_st_buses [OF 1(1)]) simp
  then show ?case using 1 good bad same_inst_kept [OF 1(2)] by (cases r) (simp add: same_inst_def)
qed

lemma swp_i2c_mark:
  assumes s: "i2c_st T X Y s" and k: "0 \<le> k" "k < KD_HARD_I2C_MAX_NUM"
    and q: "\<And>s'. i2c_st T X Y s' \<Longrightarrow> hal_heap s' = hal_heap s \<Longrightarrow> i2_kept s' = i2_kept s \<Longrightarrow> Q () s'"
  shows "swp (i2c_mark k b) Q E s"
proof -
  let ?s = "s\<lparr>i2_in_use := (i2_in_use s)[nat k := b]\<rparr>"
  have "hal_inv i2_fd X Y ?s = hal_inv i2_fd X Y s" by (rule hal_inv_cong) simp_all
  then have "i2c_st T X Y ?s" using s by (simp add: hal_st_def i2c_R_def)
  moreover have "nat k < length (i2_in_use s)" using s k by (simp add: hal_st_def i2c_R_def KD_HARD_I2C_MAX_NUM_def)
  ultimately show ?thesis using k(1) q by (simp add: i2c_mark_def swp_def)
qed

lemma swp_i2c_free:
  assumes s: "i2c_st {#} {} {} s" and a: "hal_heap s a = Some i"
    and q: "\<And>s'. i2c_st (i2c_left i) {i2_fd i} {} s' \<Longrightarrow> hal_heap s' = (hal_heap s)(a := None) \<Longrightarrow> i2_kept s' = i2_kept s \<Longrightarrow> Q () s'"
  shows "swp (hfree a) Q E s"
proof (rule swp_hfree_owned [where fd_of = i2_fd and X = "{}" and Y = "{}", OF _ a], goal_cases)
  case 1
  then show ?case using s by (simp add: hal_st_def)
next
  case (3 s')
  have "i2_buses s' = i2_buses s" "i2_in_use s' = i2_in_use s" and kept: "i2_kept s' = i2_kept s" using i2c_more [OF 3(4)] by simp_all
  moreover have "i2c_owned (hal_heap s) = i2c_left i + i2c_owned (hal_heap s')"
    using objs_owned_free [OF i2c_finite [OF s] a, of i2c_soft i2c_bus] 3(3) by simp
  moreover have "ran (hal_heap s') \<subseteq> ran (hal_heap s)" using 3(3) by (auto simp: ran_def split: if_splits)
  ultimately have "i2c_R (i2c_left i) s'" using s kept by (auto simp: hal_st_def i2c_R_def)
  then show ?case using 3 kept q by (simp add: hal_st_def)
qed simp

lemma i2c_destroy_inv:
  assumes os: "os_files_ok os" and s: "i2c_st {#} {} {} s" and p: "live_ptr s p"
  shows "swp (drv_i2c_inst_destroy os p)
    (\<lambda>q s'. i2c_st {#} {} {} s' \<and> q = None \<and> (\<forall>a. p = Some a \<longrightarrow> hal_heap s' = (hal_heap s)(a := None)) \<and>
      (p = None \<longrightarrow> hal_heap s' = hal_heap s)) E s"
proof (cases p)
  case None
  then show ?thesis using s by (simp add: drv_i2c_inst_destroy_def)
next
  case (Some a)
  then obtain i where a: "hal_heap s a = Some i" using p by (auto simp: live_ptr_def)
  have kind: "i2c_kind i" using s a by (auto simp: hal_st_def i2c_R_def ran_def)
  have fd: "0 \<le> i2_fd i" by (rule i2c.st_fd [OF s a])
  have "swp (sbind (hfree a) (\<lambda>_. sbind (if 0 \<le> i2_fd i then hclose os (i2_fd i) else sret ()) (\<lambda>_.
        if i2_type i = DRV_I2C_TYPE_SOFT then sbind (i2c_delete_bus os (of_int (i2_id i))) (\<lambda>_. sret None)
        else sbind (if i2_id i \<ge> 0 \<and> i2_id i < KD_HARD_I2C_MAX_NUM then i2c_mark (i2_id i) False else sret ()) (\<lambda>_. sret None))))
      (\<lambda>q s'. i2c_st {#} {} {} s' \<and> q = None \<and> hal_heap s' = (hal_heap s)(a := None)) E s"
    unfolding if_P [OF fd] swp_simps(5) [of "hfree a"] swp_simps(5) [of "hclose _ _"]
  proof (rule swp_i2c_free [OF s a], rule i2c.st_close, assumption, simp, goal_cases)
    case (1 s1 s2)
    then have st: "i2c_st (i2c_left i) {} {} s2" and heap: "hal_heap s2 = (hal_heap s)(a := None)" by (simp_all add: same_inst_def)
    show ?case
    proof (cases "i2_type i = DRV_I2C_TYPE_SOFT")
      case True
      then have "i2c_st (add_mset (of_int (i2_id i)) {#}) {} {} s2" using st by (simp add: i2c_left_def i2c_bus_def)
      from swp_delete_bus [OF os this] show ?thesis using True heap by simp
    next
      case False
      then have st0: "i2c_st {#} {} {} s2" using st by (simp add: i2c_left_def)
      have "0 \<le> i2_id i" "i2_id i < KD_HARD_I2C_MAX_NUM" using kind False by (auto simp: i2c_kind_def split: if_splits)
      then show ?thesis using False heap swp_i2c_mark [OF st0] by simp
    qed
  qed
  then show ?thesis using a Some kind by (simp add: drv_i2c_inst_destroy_def swp_eval i2c_kind_def)
qed

definition i2c_want :: "int \<Rightarrow> u32 multiset" where
  "i2c_want busid = (if busid < KD_HARD_I2C_MAX_NUM then {#} else {#of_int busid#})"

definition i2c_type_of :: "int \<Rightarrow> int" where
  "i2c_type_of busid = (if busid < KD_HARD_I2C_MAX_NUM then DRV_I2C_TYPE_HARD else DRV_I2C_TYPE_SOFT)"

lemma i2c_types: "DRV_I2C_TYPE_HARD \<noteq> DRV_I2C_TYPE_SOFT"
  by (simp add: DRV_I2C_TYPE_HARD_def DRV_I2C_TYPE_SOFT_def)

lemma i2c_type_cases:
  "i2c_type_of busid = DRV_I2C_TYPE_SOFT \<longleftrightarrow> \<not> busid < KD_HARD_I2C_MAX_NUM"
  "i2c_type_of busid = DRV_I2C_TYPE_HARD \<longleftrightarrow> busid < KD_HARD_I2C_MAX_NUM"
  using i2c_types by (auto simp: i2c_type_of_def)

text \<open>The buses kept after creating an instance: when that fails, the new bus may be one of them.\<close>

definition i2c_kept_ok :: "int \<Rightarrow> u32 multiset \<Rightarrow> int \<Rightarrow> u32 multiset \<Rightarrow> bool" where
  "i2c_kept_ok busid K r K' \<longleftrightarrow> K' = K \<or> r \<noteq> 0 \<and> KD_HARD_I2C_MAX_NUM \<le> busid \<and> K' = add_mset (of_int busid) K"

lemma i2c_kept_same: "i2c_kept_ok busid K r K"
  by (simp add: i2c_kept_ok_def)

text \<open>The label \<open>fail\<close> gives back the descriptor, if it was opened, and asks to delete the bus, if it was created.\<close>

lemma swp_i2c_fail:
  assumes os: "os_files_ok os" and s: "i2c_st (i2c_want busid) (if fd < 0 then {} else {fd}) {} s"
    and q: "\<And>s'. i2c_st {#} {} {} s' \<Longrightarrow> hal_heap s' = hal_heap s \<Longrightarrow> i2c_kept_ok busid (i2_kept s) (-1) (i2_kept s') \<Longrightarrow> Q (-1, None) s'"
  shows "swp (i2c_fail os busid (i2c_type_of busid) fd) Q E s"
proof -
  have rest: "swp (sbind (if i2c_type_of busid = DRV_I2C_TYPE_SOFT then sbind (i2c_delete_bus os (of_int busid)) (\<lambda>_. sret ()) else sret ())
      (\<lambda>_. sret (-1, None))) Q E s'" if st: "i2c_st (i2c_want busid) {} {} s'" and h: "hal_heap s' = hal_heap s" "i2_kept s' = i2_kept s" for s'
  proof (cases "busid < KD_HARD_I2C_MAX_NUM")
    case True
    then show ?thesis using st h q i2c_kept_same [of busid "i2_kept s" "-1"] by (simp add: i2c_type_cases i2c_want_def)
  next
    case False
    then have "i2c_st (add_mset (of_int busid) {#}) {} {} s'" using st by (simp add: i2c_want_def)
    from swp_delete_bus [OF os this] show ?thesis using False h q by (simp add: i2c_type_cases i2c_kept_ok_def)
  qed
  show ?thesis
  proof (cases "fd < 0")
    case True
    then show ?thesis using rest [of s] s by (simp add: i2c_fail_def)
  next
    case False
    then have fd: "0 \<le> fd" and st: "i2c_st (i2c_want busid) {fd} {} s" using s by simp_all
    show ?thesis unfolding i2c_fail_def if_P [OF fd] swp_simps(5) [of "hclose _ _"]
    proof (rule i2c.st_close [OF st], simp, goal_cases)
      case (1 s')
      then show ?case using rest [of s'] same_inst_kept [OF 1(2)] by (simp add: same_inst_def)
    qed
  qed
qed

definition i2c_inst :: "int \<Rightarrow> u32 \<Rightarrow> u32 \<Rightarrow> u8 \<Rightarrow> u8 \<Rightarrow> int \<Rightarrow> drv_i2c_inst" where
  "i2c_inst busid freq timeout_ms scl sda fd =
     \<lparr>i2_base_ok = True, i2_type = i2c_type_of busid, i2_id = busid, i2_fd = fd, i2_pin_scl = scl, i2_pin_sda = sda, i2_freq = freq,
      i2_timeout_ms = timeout_ms\<rparr>"

text \<open>What creating an instance gives: one with the parameters asked for, or nothing.\<close>

definition i2c_created ::
    "int \<Rightarrow> u32 \<Rightarrow> u32 \<Rightarrow> u8 \<Rightarrow> u8 \<Rightarrow> (nat \<Rightarrow> drv_i2c_inst option) \<Rightarrow> int \<times> nat option \<Rightarrow> (nat \<Rightarrow> drv_i2c_inst option) \<Rightarrow> bool" where
  "i2c_created busid freq timeout_ms scl sda h x h' \<longleftrightarrow>
     (if fst x = 0
      then \<exists>a fd. snd x = Some a \<and> h a = None \<and> h' = h(a \<mapsto> i2c_inst busid freq timeout_ms scl sda fd)
      else fst x = -1 \<and> snd x = None \<and> h' = h)"

lemma i2c_created_none: "i2c_created busid freq timeout_ms scl sda h (-1, None) h"
  by (simp add: i2c_created_def)

lemma swp_i2c_ioctl:
  assumes "i2c_st T {} {} s" and "live_ptr s p" and "\<And>r s'. i2c_st T {} {} s' \<Longrightarrow> same_inst s s' \<Longrightarrow> Q r s'"
  shows "swp (drv_i2c_ioctl p cmd none) Q E s"
proof (cases p)
  case None
  then show ?thesis using assms by (simp add: drv_i2c_ioctl_def)
next
  case (Some a)
  then obtain i where a: "hal_heap s a = Some i" using assms(2) by (auto simp: live_ptr_def)
  have "swp (hcall (cmd (i2_fd i))) Q E s" by (rule i2c.st_call [OF assms(1)]) (rule assms(3))
  then show ?thesis using i2c.st_fd [OF assms(1) a] a by (simp add: Some drv_i2c_ioctl_def swp_eval(2))
qed

lemma swp_i2c_configure:
  assumes s: "i2c_st T {} {} s" and p: "live_ptr s (Some a)" and q: "\<And>ok s'. i2c_st T {} {} s' \<Longrightarrow> same_inst s s' \<Longrightarrow> Q ok s'"
  shows "swp (i2c_configure os a freq timeout_ms) Q E s"
  unfolding i2c_configure_def swp_simps(5) [of "drv_i2c_ioctl _ _ _"]
proof (rule swp_i2c_ioctl [OF s p], rule swp_ifI, goal_cases)
  case (1 r s')
  then show ?case using q by simp
next
  case (2 r s')
  have live: "live_ptr s' (Some a)" using p live_ptr_same [OF 2(2)] by simp
  show ?case unfolding swp_simps
    by (rule swp_i2c_ioctl [OF 2(1) live]) (rule q, assumption, rule same_inst_trans [OF 2(2)], assumption)
qed

lemma i2c_open_inv:
  assumes os: "os_files_ok os" and s: "i2c_st (i2c_want busid) {} {} s" and id0: "0 \<le> busid"
  shows "swp (i2c_open_inst os (i2c_type_of busid) busid freq timeout_ms scl sda)
    (\<lambda>x s'. i2c_st {#} {} {} s' \<and> i2c_created busid freq timeout_ms scl sda (hal_heap s) x (hal_heap s') \<and>
      i2c_kept_ok busid (i2_kept s) (fst x) (i2_kept s')) E s"
  unfolding i2c_open_inst_def swp_simps(5) [of "hopen _ _"]
proof (rule i2c.st_open [OF os s], goal_cases)
  case (1 fd s1)
  show ?case unfolding if_P [OF 1(1)]
    by (rule swp_i2c_fail [OF os]) (use 1 same_inst_kept [OF 1(3)] in \<open>auto simp: same_inst_def i2c_created_def\<close>)
next
  case (2 fd s1)
  have nofd: "\<not> fd < 0" using 2(1) by simp
  show ?case unfolding if_not_P [OF nofd] swp_simps(5) [of "hmalloc _"]
  proof (rule i2c.st_malloc [OF 2(3)], rule swp_ifI, goal_cases)
    case (1 ok s2)
    show ?case by (rule swp_i2c_fail [OF os]) (use 1 2(4) nofd same_inst_kept [OF 1(2)] same_inst_kept [OF 2(4)] in \<open>auto simp: same_inst_def i2c_created_def\<close>)
  next
    case (2 ok s2)
    let ?i = "i2c_inst busid freq timeout_ms scl sda fd"
    have h2: "hal_heap s2 = hal_heap s" using 2(2) \<open>same_inst s s1\<close> by (simp add: same_inst_def)
    show ?case unfolding swp_simps(5) [of "hnew _"]
    proof (rule i2c.st_new [OF 2(1)], simp, goal_cases)
      case (1 s3)
      let ?a = "hal_next s2"
      have inst: "\<lparr>i2_base_ok = True, i2_type = i2c_type_of busid, i2_id = busid, i2_fd = fd, i2_pin_scl = scl, i2_pin_sda = sda, i2_freq = freq,
          i2_timeout_ms = timeout_ms\<rparr> = ?i" by (simp add: i2c_inst_def)
      have h3: "hal_heap s3 = (hal_heap s)(?a \<mapsto> ?i)" and fresh: "hal_heap s ?a = None" using 1(2,4) h2 inst by simp_all
      have "i2_buses s3 = i2_buses s2" "i2_in_use s3 = i2_in_use s2" and kept: "i2_kept s3 = i2_kept s2" using i2c_more [OF 1(5)] by simp_all
      moreover have "i2c_owned (hal_heap s3) = (if busid < KD_HARD_I2C_MAX_NUM then i2c_owned (hal_heap s)
          else add_mset (of_int busid) (i2c_owned (hal_heap s)))"
        using objs_owned_new [OF i2c_finite [OF s] fresh, of i2c_soft i2c_bus ?i] h3 by (simp add: i2c_inst_def i2c_type_cases i2c_bus_def i2c_left_def)
      moreover have "i2c_kind ?i" using id0 i2c_type_cases [of busid] by (auto simp: i2c_kind_def i2c_inst_def i2c_type_of_def)
      ultimately have "i2c_R {#} s3" using 1(3) h2 h3 kept by (auto simp: i2c_R_def i2c_want_def ran_def split: if_splits)
      moreover have "hal_inv i2_fd {} {} s3" using 1(1) by simp
      ultimately have st3: "i2c_st {#} {} {} s3" by (simp add: hal_st_def)
      have made: "i2c_created busid freq timeout_ms scl sda (hal_heap s) (0, Some ?a) (hal_heap s')" if "hal_heap s' = hal_heap s3" for s' :: "'a i2c"
        using that h3 fresh by (auto simp: i2c_created_def)
      have k3: "i2_kept s3 = i2_kept s" using kept same_inst_kept [OF 2(2)] same_inst_kept [OF \<open>same_inst s s1\<close>] by simp
      have live: "live_ptr s3 (Some ?a)" using h3 by (simp add: live_ptr_def)
      show ?case
      proof (rule swp_ifI, goal_cases)
        case 1
        then have hard: "busid < KD_HARD_I2C_MAX_NUM" by (simp add: i2c_type_cases)
        show ?case unfolding swp_simps(5) [of "i2c_configure _ _ _ _"]
        proof (rule swp_i2c_configure [OF st3 live], rule swp_ifI, goal_cases)
          case (1 ok' s4)
          have a4: "hal_heap s4 ?a = Some ?i" and same: "(hal_heap s4)(?a := None) = hal_heap s"
            using 1(2) h3 fresh by (auto simp: same_inst_def fun_eq_iff)
          show ?case unfolding swp_simps(5) [of "hfree _"]
          proof (rule swp_i2c_free [OF 1(1) a4], goal_cases)
            case (1 s5)
            have "i2c_st (i2c_want busid) {fd} {} s5" using 1(1) hard by (simp add: i2c_left_def i2c_want_def i2c_inst_def i2c_type_cases)
            then show ?case by (intro swp_i2c_fail [OF os]) (use nofd 1(2,3) same k3 same_inst_kept [OF \<open>same_inst s3 s4\<close>] in \<open>auto simp: i2c_created_def\<close>)
          qed
        next
          case (2 ok' s4)
          then show ?case using hard id0 made k3 same_inst_kept [OF 2(2)] by (auto simp: same_inst_def i2c_kept_same intro!: swp_i2c_mark)
        qed
      next
        case 2
        then show ?case using st3 made k3 by (simp add: i2c_kept_same)
      qed
    qed
  qed
qed

lemma i2c_create_inv:
  assumes os: "os_files_ok os" and s: "i2c_st {#} {} {} s" and p: "live_ptr s p"
  shows "swp (drv_i2c_inst_create os busid freq timeout_ms scl sda (Some p))
    (\<lambda>x s'. i2c_st {#} {} {} s' \<and> (p = None \<longrightarrow> i2c_created busid freq timeout_ms scl sda (hal_heap s) x (hal_heap s') \<and>
      i2c_kept_ok busid (i2_kept s) (fst x) (i2_kept s'))) E s"
proof (cases "busid < 0 \<or> freq = 0 \<or> timeout_ms = 0")
  case True
  then show ?thesis using s i2c_created_none by (auto simp: drv_i2c_inst_create_def i2c_kept_same)
next
  case False
  have body: "swp (if busid < KD_HARD_I2C_MAX_NUM then i2c_open_inst os DRV_I2C_TYPE_HARD busid freq timeout_ms scl sda
          else if 64 \<le> scl \<or> 64 \<le> sda then sret (-1, None)
          else
            let cfg = \<lparr>si_bus_num = of_int busid, si_pin_scl = ucast scl, si_pin_sda = ucast sda, si_freq = freq, si_timeout_ms = timeout_ms\<rparr> in
            sbind (i2c_create_bus os cfg) (\<lambda>r.
            if r \<noteq> 0 then sret (-1, None)
            else i2c_open_inst os DRV_I2C_TYPE_SOFT busid freq timeout_ms scl sda))
      (\<lambda>x s'. i2c_st {#} {} {} s' \<and> i2c_created busid freq timeout_ms scl sda (hal_heap s) x (hal_heap s') \<and>
        i2c_kept_ok busid (i2_kept s) (fst x) (i2_kept s')) E s"
    if st: "i2c_st {#} {} {} s" for s :: "'a i2c" and E
  proof (cases "busid < KD_HARD_I2C_MAX_NUM")
    case True
    then show ?thesis using i2c_open_inv [OF os, of busid s] st False by (simp add: i2c_want_def i2c_type_of_def)
  next
    case soft: False
    have type: "DRV_I2C_TYPE_SOFT = i2c_type_of busid" using soft by (simp add: i2c_type_of_def)
    show ?thesis unfolding if_not_P [OF soft] Let_def
    proof (rule swp_ifI, goal_cases)
      case 1
      then show ?case using st i2c_created_none by (simp add: i2c_kept_same)
    next
      case 2
      show ?case unfolding swp_simps(5) [of "i2c_create_bus _ _"]
      proof (rule swp_create_bus [OF os st], goal_cases)
        case (1 s')
        have "i2c_st (i2c_want busid) {} {} s'" using 1(1) soft by (simp add: i2c_want_def)
        from i2c_open_inv [OF os this] show ?case using False 1(2,3) by (simp add: type)
      next
        case (2 r s')
        then show ?case using i2c_created_none by (simp add: i2c_kept_same)
      qed
    qed
  qed
  show ?thesis
  proof (cases p)
    case None
    then show ?thesis using body [OF s] False by (simp add: drv_i2c_inst_create_def)
  next
    case (Some a)
    have p': "(p \<noteq> None) = True" using Some by simp
    show ?thesis unfolding drv_i2c_inst_create_def option.case if_not_P [OF False] p' if_True swp_simps(5) [of "drv_i2c_inst_destroy os p"]
    proof (rule swp_mono [OF i2c_destroy_inv [OF os s p]], goal_cases)
      case (1 q s')
      then have "i2c_st {#} {} {} s'" by simp
      from body [OF this] show ?case by (rule swp_mono) (use Some in simp_all)
    qed assumption
  qed
qed

section \<open>Runs\<close>

lemma swp_i2c_set:
  assumes s: "i2c_st {#} {} {} s" and a: "hal_heap s a = Some i"
    and f: "\<And>i. i2_type (f i) = i2_type i \<and> i2_id (f i) = i2_id i \<and> i2_fd (f i) = i2_fd i \<and> i2_base_ok (f i) = i2_base_ok i"
    and q: "\<And>s'. i2c_st {#} {} {} s' \<Longrightarrow> Q () s'"
  shows "swp (hset a f) Q E s"
proof (rule i2c.st_set [OF s a], goal_cases)
  case 1
  then show ?case using f by simp
next
  case (2 s')
  have "i2_buses s' = i2_buses s" "i2_in_use s' = i2_in_use s" "i2_kept s' = i2_kept s" using i2c_more [OF 2(4)] by simp_all
  moreover have "i2c_owned (hal_heap s') = i2c_owned (hal_heap s)" unfolding 2(3) by (rule objs_owned_set [OF i2c_finite [OF s] a]) (use f in \<open>simp add: i2c_left_def i2c_bus_def\<close>)
  moreover have "\<forall>j \<in> ran (hal_heap s'). i2c_kind j"
    using s a f 2(3) by (auto simp: hal_st_def i2c_R_def ran_def i2c_kind_def)
  ultimately show ?case using s 2(1) q by (simp add: hal_st_def i2c_R_def)
qed

lemma i2c_setters_inv:
  assumes s: "i2c_st {#} {} {} s" and p: "live_ptr s p"
  shows "swp (drv_i2c_set_freq os p n) (\<lambda>_. i2c_st {#} {} {}) E s" and "swp (drv_i2c_set_timeout os p n) (\<lambda>_. i2c_st {#} {} {}) E s"
proof -
  have go: "swp (drv_i2c_ioctl (Some a) cmd (-1)) (\<lambda>r. swp (if r \<noteq> 0 then sret (-1) else sbind (hset a f) (\<lambda>_. sret 0)) (\<lambda>_. i2c_st {#} {} {}) E) E s"
    if a: "hal_heap s a = Some i"
      and f: "\<And>i. i2_type (f i) = i2_type i \<and> i2_id (f i) = i2_id i \<and> i2_fd (f i) = i2_fd i \<and> i2_base_ok (f i) = i2_base_ok i" for a i cmd f
  proof (rule swp_i2c_ioctl [OF s], goal_cases)
    case 1
    then show ?case using a by (simp add: live_ptr_def)
  next
    case (2 r s')
    have "hal_heap s' a = Some i" using 2(2) a by (simp add: same_inst_def)
    then show ?case using 2(1) f by (auto intro!: swp_i2c_set)
  qed
  have inst: "\<exists>i. hal_heap s a = Some i" if "p = Some a" for a using that p by (simp add: live_ptr_def)
  show "swp (drv_i2c_set_freq os p n) (\<lambda>_. i2c_st {#} {} {}) E s"
    using s inst by (auto simp: drv_i2c_set_freq_def swp_eval(2) intro!: go split: option.splits)
  show "swp (drv_i2c_set_timeout os p n) (\<lambda>_. i2c_st {#} {} {}) E s"
    using s inst by (auto simp: drv_i2c_set_timeout_def swp_eval(2) intro!: go split: option.splits)
qed

datatype i2c_op =
    ICreate int u32 u32 u8 u8 "nat option option"
  | IDestroy "nat option"
  | I7Bit "nat option"
  | I10Bit "nat option"
  | IFreq "nat option" u32
  | ITimeout "nat option" u32
  | ITransfer "nat option" "i2c_msg list option" int

fun i2c_exec :: "'d i2c_os \<Rightarrow> i2c_op \<Rightarrow> ('d i2c, unit) prog" where
  "i2c_exec os (ICreate busid f t scl sda inst) = sdone (drv_i2c_inst_create os busid f t scl sda inst)"
| "i2c_exec os (IDestroy p) = sdone (drv_i2c_inst_destroy os p)"
| "i2c_exec os (I7Bit p) = sdone (drv_i2c_set_7b_addr os p)"
| "i2c_exec os (I10Bit p) = sdone (drv_i2c_set_10b_addr os p)"
| "i2c_exec os (IFreq p f) = sdone (drv_i2c_set_freq os p f)"
| "i2c_exec os (ITimeout p t) = sdone (drv_i2c_set_timeout os p t)"
| "i2c_exec os (ITransfer p ms n) = sdone (drv_i2c_transfer os p ms n)"

text \<open>A pointer is null or a live instance, and an array holds the number of messages that is passed with it.\<close>

fun i2c_valid :: "'d i2c \<Rightarrow> i2c_op \<Rightarrow> bool" where
  "i2c_valid s (ICreate busid f t scl sda inst) = (case inst of None \<Rightarrow> True | Some p \<Rightarrow> live_ptr s p)"
| "i2c_valid s (IDestroy p) = live_ptr s p"
| "i2c_valid s (I7Bit p) = live_ptr s p"
| "i2c_valid s (I10Bit p) = live_ptr s p"
| "i2c_valid s (IFreq p f) = live_ptr s p"
| "i2c_valid s (ITimeout p t) = live_ptr s p"
| "i2c_valid s (ITransfer p ms n) = (live_ptr s p \<and> (case ms of None \<Rightarrow> True | Some ms \<Rightarrow> n \<le> int (length ms)))"

lemma i2c_exec_inv:
  assumes os: "os_files_ok os" and s: "i2c_st {#} {} {} s" and v: "i2c_valid s op"
  shows "swp (i2c_exec os op) (\<lambda>_. i2c_st {#} {} {}) (\<lambda>_. i2c_st {#} {} {}) s"
proof (cases op)
  case (ICreate busid f t scl sda inst)
  show ?thesis
  proof (cases inst)
    case None
    then show ?thesis using s ICreate by (simp add: sdone_def drv_i2c_inst_create_def)
  next
    case (Some p)
    then have "live_ptr s p" using v ICreate by simp
    from swp_mono [OF i2c_create_inv [OF os s this]] show ?thesis using ICreate Some by (simp add: sdone_def)
  qed
next
  case (IDestroy p)
  then show ?thesis using v swp_mono [OF i2c_destroy_inv [OF os s, of p]] by (auto simp: sdone_def)
next
  case (ITransfer p ms n)
  then show ?thesis
    using s v by (cases ms) (auto simp: sdone_def drv_i2c_transfer_def Let_def intro!: swp_i2c_ioctl)
qed (use s v in \<open>auto simp: sdone_def drv_i2c_set_7b_addr_def drv_i2c_set_10b_addr_def intro!: swp_i2c_ioctl i2c_setters_inv\<close>)

interpretation i2c_runs: instance_driver i2c_exec i2c_valid os_files_ok "i2c_st {#} {} {}" i2_fd "\<lambda>_. {}"
  by unfold_locales (auto simp: hal_st_def intro!: i2c_exec_inv)

definition i2c_start :: "'d \<Rightarrow> 'd i2c" where
  "i2c_start d = \<lparr>hal_heap = Map.empty, hal_next = 0, hal_fds = {}, hal_dev = d, i2_in_use = replicate 5 False, i2_buses = {#}, i2_kept = {#}\<rparr>"

lemma i2c_start_st: "i2c_st {#} {} {} (i2c_start d)"
  by (simp add: hal_st_def hal_inv_empty i2c_start_def i2c_R_def)

section \<open>Properties\<close>

lemma i2c_count:
  assumes "i2c_st {#} {} {} s"
  shows "count (i2_buses s) b = card {a. \<exists>i. hal_heap s a = Some i \<and> i2_type i = DRV_I2C_TYPE_SOFT \<and> i2c_bus i = b} + count (i2_kept s) b"
  using count_objs_owned [OF i2c_finite [OF assms], of i2c_soft i2c_bus b] assms by (simp add: hal_st_def i2c_R_def i2c_soft_def)

text \<open>A kernel in which every request succeeds.\<close>

definition sample_i2c_os :: "nat i2c_os" where
  "sample_i2c_os = misc_os.extend sample_misc_os (i2c_os.fields (\<lambda>fd d. (0, d)) (\<lambda>fd d. (0, d)) (\<lambda>n fd d. (0, d)) (\<lambda>n fd d. (0, d))
     (\<lambda>ms fd d. ((0, ms), d)))"

lemmas sample_i2c_os_defs = sample_i2c_os_def misc_os.extend_def i2c_os.fields_def sample_misc_os_def

lemma sample_i2c_os_ok: "os_files_ok sample_i2c_os"
  using fresh_fd by (auto simp: os_files_ok_def sample_i2c_os_defs)

definition sample_i2c :: "nat i2c" where
  "sample_i2c = \<lparr>hal_heap = [0 \<mapsto> i2c_inst 7 100000 1000 40 41 3], hal_next = 1, hal_fds = {3}, hal_dev = 2, i2_in_use = replicate 5 False,
     i2_buses = {#7#}, i2_kept = {#}\<rparr>"

lemmas i2c_eval = sample_i2c_os_defs sample_i2c_def i2c_start_def drv_i2c_inst_create_def i2c_create_bus_def i2c_open_inst_def i2c_inst_def i2c_type_of_def
  KD_HARD_I2C_MAX_NUM_def DRV_I2C_TYPE_HARD_def DRV_I2C_TYPE_SOFT_def canmv_misc_dev_ioctl_def fresh_fd_def hal_call_defs sprog_defs sdone_def

lemma sample_i2c_reach: "reach (i2c_exec sample_i2c_os) i2c_valid (i2c_start 0) sample_i2c"
proof (rule reach.step [OF reach.start])
  show "i2c_valid (i2c_start 0) (ICreate 7 100000 1000 40 41 (Some None))" by (simp add: live_ptr_def)
  show "i2c_exec sample_i2c_os (ICreate 7 100000 1000 40 41 (Some None)) (i2c_start 0) = (Ret (), sample_i2c)"
    by (simp add: i2c_eval Let_def del: decimal.simps)
qed

text \<open>C21. Whatever calls a client makes with pointers that are null or live, and whatever the kernel refuses: no call of the I2C driver faults; every
  open descriptor belongs to exactly one live instance; and a bus exists in the kernel as often as there are live instances on it, and once more for each
  time the kernel (or the miscellaneous device that could not be opened) refused to delete it, a refusal the driver only reports. When it never refused, every
  bus that was created belongs to an instance.
\<close>

theorem i2c_resources_owned:
  assumes "os_files_ok os" and "reach (i2c_exec os) i2c_valid (i2c_start d) s"
  shows "(i2c_valid s op \<longrightarrow> fst (i2c_exec os op s) \<noteq> Fault) \<and>
    (fd \<in> hal_fds s \<longleftrightarrow> (\<exists>!a. \<exists>i. hal_heap s a = Some i \<and> i2_fd i = fd)) \<and>
    count (i2_buses s) b = card {a. \<exists>i. hal_heap s a = Some i \<and> i2_type i = DRV_I2C_TYPE_SOFT \<and> i2c_bus i = b} + count (i2_kept s) b"
proof (intro conjI impI)
  show "fst (i2c_exec os op s) \<noteq> Fault" if "i2c_valid s op"
    by (rule i2c_runs.no_fault [OF assms(2,1) i2c_start_st that])
  show "fd \<in> hal_fds s \<longleftrightarrow> (\<exists>!a. \<exists>i. hal_heap s a = Some i \<and> i2_fd i = fd)"
    using i2c_runs.one_owner [OF assms(2,1) i2c_start_st] by simp
  show "count (i2_buses s) b = card {a. \<exists>i. hal_heap s a = Some i \<and> i2_type i = DRV_I2C_TYPE_SOFT \<and> i2c_bus i = b} + count (i2_kept s) b"
    by (rule i2c_count [OF i2c_runs.reach_inv [OF assms(2,1) i2c_start_st]])
qed

theorem i2c_resources_owned_witness:
  "fst (i2c_exec sample_i2c_os (IDestroy (Some 0)) sample_i2c) \<noteq> Fault \<and> (\<exists>!a. \<exists>i. hal_heap sample_i2c a = Some i \<and> i2_fd i = 3) \<and>
   card {a. \<exists>i. hal_heap sample_i2c a = Some i \<and> i2_type i = DRV_I2C_TYPE_SOFT \<and> i2c_bus i = 7} = 1"
proof -
  have "i2c_valid sample_i2c (IDestroy (Some 0))" "3 \<in> hal_fds sample_i2c" "count (i2_buses sample_i2c) 7 = 1" "count (i2_kept sample_i2c) 7 = 0"
    by (simp_all add: live_ptr_def sample_i2c_def)
  then show ?thesis using i2c_resources_owned [OF sample_i2c_os_ok sample_i2c_reach, of "IDestroy (Some 0)" 3 7] by simp
qed

text \<open>C25. Creating an instance, with a null \<open>*inst\<close>, either succeeds and gives one new instance with the parameters asked for (a hardware bus below 5, a
  software bus otherwise, which then exists once more in the kernel), or it returns \<open>-1\<close> and a null pointer and leaves the instances and the open descriptors
  as they were. The buses in the kernel are then as they were too, unless the new software bus was created, a later step failed and the kernel refused to delete the bus
  again: then that bus stays. A clock or timeout of zero, a negative number and pins beyond 63 for a software bus are refused, with no effect at all.
\<close>

theorem i2c_create_or_nothing:
  assumes "os_files_ok os" and "reach (i2c_exec os) i2c_valid (i2c_start d) s"
  shows "\<exists>x s'. drv_i2c_inst_create os busid freq timeout_ms scl sda (Some None) s = (Ret x, s') \<and>
    i2c_created busid freq timeout_ms scl sda (hal_heap s) x (hal_heap s') \<and>
    (if fst x = 0 then i2_kept s' = i2_kept s \<and> i2_buses s' = i2_buses s + (if busid < 5 then {#} else {#of_int busid#})
     else hal_fds s' = hal_fds s \<and> (i2_kept s' = i2_kept s \<and> i2_buses s' = i2_buses s \<or>
       5 \<le> busid \<and> i2_kept s' = add_mset (of_int busid) (i2_kept s) \<and> i2_buses s' = add_mset (of_int busid) (i2_buses s))) \<and>
    (busid < 0 \<or> freq = 0 \<or> timeout_ms = 0 \<or> busid \<ge> 5 \<and> (scl \<ge> 64 \<or> sda \<ge> 64) \<longrightarrow> x = (-1, None) \<and> s' = s)"
proof -
  have st: "i2c_st {#} {} {} s" by (rule i2c_runs.reach_inv [OF assms(2,1) i2c_start_st])
  have "live_ptr s None" by (simp add: live_ptr_def)
  from i2c_create_inv [OF assms(1) st this, of busid freq timeout_ms scl sda "\<lambda>_ _. False"]
  obtain x s' where run: "drv_i2c_inst_create os busid freq timeout_ms scl sda (Some None) s = (Ret x, s')"
      and st': "i2c_st {#} {} {} s'" and made: "i2c_created busid freq timeout_ms scl sda (hal_heap s) x (hal_heap s')"
      and kept: "i2c_kept_ok busid (i2_kept s) (fst x) (i2_kept s')"
    by (auto simp: swp_def split: prod.splits cres.splits)
  have buses: "i2_buses s = i2c_owned (hal_heap s) + i2_kept s" "i2_buses s' = i2c_owned (hal_heap s') + i2_kept s'"
    using st st' by (simp_all add: hal_st_def i2c_R_def)
  have "i2_kept s' = i2_kept s \<and> i2_buses s' = i2_buses s + (if busid < 5 then {#} else {#of_int busid#})" if "fst x = 0"
  proof -
    obtain a fd where "hal_heap s a = None" "hal_heap s' = (hal_heap s)(a \<mapsto> i2c_inst busid freq timeout_ms scl sda fd)"
      using made \<open>fst x = 0\<close> by (auto simp: i2c_created_def)
    then have "i2c_owned (hal_heap s') = i2c_owned (hal_heap s) + (if busid < 5 then {#} else {#of_int busid#})"
      using objs_owned_new [OF i2c_finite [OF st], of a i2c_soft i2c_bus "i2c_inst busid freq timeout_ms scl sda fd"]
      by (simp add: i2c_inst_def i2c_type_cases i2c_bus_def i2c_left_def KD_HARD_I2C_MAX_NUM_def)
    then show ?thesis using buses kept that by (simp add: i2c_kept_ok_def)
  qed
  moreover have "hal_fds s' = hal_fds s \<and> (i2_kept s' = i2_kept s \<and> i2_buses s' = i2_buses s \<or>
       5 \<le> busid \<and> i2_kept s' = add_mset (of_int busid) (i2_kept s) \<and> i2_buses s' = add_mset (of_int busid) (i2_buses s))" if "fst x \<noteq> 0"
  proof -
    have heap: "hal_heap s' = hal_heap s" using made that by (simp add: i2c_created_def)
    then have "hal_fds s' = hal_fds s" using st st' by (simp add: hal_st_def hal_inv_def)
    then show ?thesis using buses kept heap by (auto simp: i2c_kept_ok_def KD_HARD_I2C_MAX_NUM_def)
  qed
  moreover have "x = (-1, None) \<and> s' = s" if "busid < 0 \<or> freq = 0 \<or> timeout_ms = 0 \<or> busid \<ge> 5 \<and> (scl \<ge> 64 \<or> sda \<ge> 64)"
    using that run by (auto simp: drv_i2c_inst_create_def sprog_defs KD_HARD_I2C_MAX_NUM_def split: if_splits)
  ultimately show ?thesis using run made by (cases "fst x = 0") auto
qed

theorem i2c_create_or_nothing_witness:
  "\<exists>x s'. drv_i2c_inst_create sample_i2c_os 9 400000 500 70 41 (Some None) sample_i2c = (Ret x, s') \<and> x = (-1, None) \<and> s' = sample_i2c"
  using i2c_create_or_nothing [OF sample_i2c_os_ok sample_i2c_reach, of 9 400000 500 70 41] by auto

end
