(* ===== verification/Encoder.thy ===== *)
theory Encoder
  imports Misc Kernel_Objects
begin

text \<open>
  The rotary encoder (\<open>rtsmart_hal/drivers/rotary_encoder/drv_rotary_encoder.c\<close>): each instance is a device that is created in the kernel through the
  miscellaneous device of \<open>Misc\<close> and opened as \<open>/dev/encoder<n>\<close>. The state records the devices the kernel was asked to create and not to delete.
\<close>

section \<open>State\<close>

text \<open>\<open>en_base_ok\<close>: the type mark of the instance is that of this driver.\<close>

record encoder_dev_inst_t =
  en_base_ok :: bool
  en_fd :: int
  en_cfg :: encoder_dev_cfg_t

record encoder_data =
  er_delta :: int
  er_total_count :: int
  er_direction :: u8
  er_button_state :: u8
  er_timestamp :: u32

text \<open>The requests; the argument of \<open>eo_config\<close> is what the kernel finds in the register for the pointer.\<close>

record 'd enc_os = "'d misc_os" +
  eo_config :: "u64 \<Rightarrow> int \<Rightarrow> 'd \<Rightarrow> int \<times> 'd"
  eo_get_data :: "int \<Rightarrow> (encoder_data, 'd) request"
  eo_wait_data :: "int \<Rightarrow> int \<Rightarrow> 'd \<Rightarrow> int \<times> 'd"
  eo_reset :: "int \<Rightarrow> 'd \<Rightarrow> int \<times> 'd"
  eo_set_count :: "int \<Rightarrow> int \<Rightarrow> 'd \<Rightarrow> int \<times> 'd"

record 'd enc = "(encoder_dev_inst_t, 'd) hal" +
  en_devices :: "int multiset"

definition encoder_create_dev :: "'d enc_os \<Rightarrow> encoder_dev_cfg_t \<Rightarrow> ('d enc, int) prog" where
  "encoder_create_dev os cfg =
     sbind (canmv_misc_create_encoder_dev os (Some cfg)) (\<lambda>(r, _).
     sbind (smod (\<lambda>s. if r = 0 then s\<lparr>en_devices := add_mset (ed_index cfg) (en_devices s)\<rparr> else s)) (\<lambda>_. sret r))"

definition encoder_delete_dev :: "'d enc_os \<Rightarrow> int \<Rightarrow> ('d enc, int) prog" where
  "encoder_delete_dev os index =
     sbind (canmv_misc_delete_encode_dev os index) (\<lambda>r.
     sbind (smod (\<lambda>s. if r = 0 then s\<lparr>en_devices := en_devices s - {#index#}\<rparr> else s)) (\<lambda>_. sret r))"

text \<open>\<open>CHECK_ENCODER_INST\<close>: the instance, or \<open>None\<close> for the return of \<open>-1\<close>.\<close>

definition CHECK_ENCODER_INST :: "nat option \<Rightarrow> ('d enc, encoder_dev_inst_t option) prog" where
  "CHECK_ENCODER_INST inst =
     (case inst of None \<Rightarrow> sret None
      | Some a \<Rightarrow> sbind (hinst a) (\<lambda>i. sret (if en_fd i < 0 \<or> \<not> en_base_ok i then None else Some i)))"

definition with_encoder :: "nat option \<Rightarrow> 'a \<Rightarrow> (encoder_dev_inst_t \<Rightarrow> ('d enc, 'a) prog) \<Rightarrow> ('d enc, 'a) prog" where
  "with_encoder inst none f = sbind (CHECK_ENCODER_INST inst) (\<lambda>i. case i of None \<Rightarrow> sret none | Some i \<Rightarrow> f i)"

section \<open>Instances\<close>

text \<open>\<open>inst\<close> points to a pointer and is not checked: when it is null, reading \<open>*inst\<close> is a fault.\<close>

definition rotary_encoder_inst_destroy :: "'d enc_os \<Rightarrow> nat option option \<Rightarrow> ('d enc, int \<times> nat option) prog" where
  "rotary_encoder_inst_destroy os inst =
     (case inst of None \<Rightarrow> slift Fault
      | Some p \<Rightarrow>
          with_encoder p (-1, p) (\<lambda>i.
            sbind (if 0 \<le> en_fd i then hclose os (en_fd i) else sret ()) (\<lambda>_.
            sbind (hfree (the p)) (\<lambda>_.
            sbind (encoder_delete_dev os (ed_index (en_cfg i))) (\<lambda>r.
            sret (if r \<noteq> 0 then -1 else 0, None))))))"

definition encoder_dev :: "int \<Rightarrow> string" where
  "encoder_dev index = ''/dev/encoder'' @ (if index < 0 then ''-'' else []) @ decimal (nat \<bar>index\<bar>)"

definition rotary_encoder_inst_create ::
    "'d enc_os \<Rightarrow> nat option option \<Rightarrow> int \<Rightarrow> encoder_pin_cfg_t option \<Rightarrow> ('d enc, int \<times> nat option) prog" where
  "rotary_encoder_inst_create os inst index pin =
     (case inst of None \<Rightarrow> sret (-1, None)
      | Some p \<Rightarrow>
        case pin of None \<Rightarrow> sret (-1, p)
        | Some pin \<Rightarrow>
          if 0 > ep_clk_pin pin \<or> 0 > ep_dt_pin pin then sret (-1, p)
          else
            sbind (if p \<noteq> None then rotary_encoder_inst_destroy os (Some p) else sret (0, None)) (\<lambda>(r, p).
            if r \<noteq> 0 then sret (-1, p)
            else
              let cfg = \<lparr>ed_index = index, ed_cfg = pin\<rparr> in
              sbind (encoder_create_dev os cfg) (\<lambda>r.
              if r \<noteq> 0 then sret (-1, p)
              else
                sbind (hopen os (encoder_dev index)) (\<lambda>dev_fd.
                if dev_fd < 0 then sret (-1, p)
                else
                  sbind (hmalloc os) (\<lambda>ok.
                  if \<not> ok then sbind (hclose os dev_fd) (\<lambda>_. sret (-3, None))
                  else sbind (hnew \<lparr>en_base_ok = True, en_fd = dev_fd, en_cfg = cfg\<rparr>) (\<lambda>a. sret (0, Some a)))))))"

section \<open>Operations\<close>

text \<open>
  The structure is passed to \<open>ioctl\<close> by value. By the calling convention it takes two argument registers, and the kernel reads the first of them,
  which holds the index and the clock pin, as the pointer.
\<close>

definition cfg_register :: "encoder_dev_cfg_t \<Rightarrow> u64" where
  "cfg_register cfg = ucast (of_int (ed_index cfg) :: u32) OR push_bit 32 (ucast (of_int (ep_clk_pin (ed_cfg cfg)) :: u32))"

definition rotary_encoder_config :: "'d enc_os \<Rightarrow> nat option \<Rightarrow> encoder_pin_cfg_t option \<Rightarrow> ('d enc, int) prog" where
  "rotary_encoder_config os inst pin =
     with_encoder inst (-1) (\<lambda>i.
       case pin of None \<Rightarrow> slift Fault
       | Some pin \<Rightarrow>
           let cfg = \<lparr>ed_index = ed_index (en_cfg i), ed_cfg = pin\<rparr> in
           sbind (hcall (eo_config os (cfg_register cfg) (en_fd i))) (\<lambda>r. sret (if r < 0 then -1 else 0)))"

definition rotary_encoder_read ::
    "'d enc_os \<Rightarrow> nat option \<Rightarrow> encoder_data option \<Rightarrow> ('d enc, int \<times> encoder_data option) prog" where
  "rotary_encoder_read os inst dat =
     with_encoder inst (-1, dat) (\<lambda>i.
       case dat of None \<Rightarrow> sret (-1, None)
       | Some d \<Rightarrow> sbind (hcall (eo_get_data os (en_fd i) d)) (\<lambda>(r, d). sret (if r < 0 then -1 else 0, Some d)))"

definition rotary_encoder_wait_event ::
    "'d enc_os \<Rightarrow> nat option \<Rightarrow> encoder_data option \<Rightarrow> int \<Rightarrow> ('d enc, int \<times> encoder_data option) prog" where
  "rotary_encoder_wait_event os inst dat timeout_ms =
     with_encoder inst (-1, dat) (\<lambda>i.
       if dat = None then sret (-1, None)
       else sbind (hcall (eo_wait_data os (en_fd i) timeout_ms)) (\<lambda>r.
         if r < 0 then sret (-1, dat) else rotary_encoder_read os inst dat))"

definition rotary_encoder_reset :: "'d enc_os \<Rightarrow> nat option \<Rightarrow> ('d enc, int) prog" where
  "rotary_encoder_reset os inst =
     with_encoder inst (-1) (\<lambda>i. sbind (hcall (eo_reset os (en_fd i))) (\<lambda>r. sret (if r < 0 then -1 else 0)))"

definition rotary_encoder_set_count :: "'d enc_os \<Rightarrow> nat option \<Rightarrow> int \<Rightarrow> ('d enc, int) prog" where
  "rotary_encoder_set_count os inst n =
     with_encoder inst (-1) (\<lambda>i. sbind (hcall (eo_set_count os (en_fd i) n)) (\<lambda>r. sret (if r < 0 then -1 else 0)))"

text \<open>\<open>dat\<close> is what the local variable holds before.\<close>

definition rotary_encoder_get_count :: "'d enc_os \<Rightarrow> encoder_data \<Rightarrow> nat option \<Rightarrow> ('d enc, int) prog" where
  "rotary_encoder_get_count os dat inst =
     sbind (rotary_encoder_read os inst (Some dat)) (\<lambda>(r, d). sret (if r < 0 then 0 else er_total_count (the d)))"

definition rotary_encoder_get_delta :: "'d enc_os \<Rightarrow> encoder_data \<Rightarrow> nat option \<Rightarrow> ('d enc, int) prog" where
  "rotary_encoder_get_delta os dat inst =
     sbind (rotary_encoder_read os inst (Some dat)) (\<lambda>(r, d). sret (if r < 0 then 0 else er_delta (the d)))"

definition rotary_encoder_get_index :: "nat option \<Rightarrow> int option \<Rightarrow> ('d enc, int \<times> int option) prog" where
  "rotary_encoder_get_index inst index =
     with_encoder inst (-1, index) (\<lambda>i. case index of None \<Rightarrow> slift Fault | Some _ \<Rightarrow> sret (0, Some (ed_index (en_cfg i))))"

definition rotary_encoder_get_pin_cfg :: "nat option \<Rightarrow> encoder_pin_cfg_t option \<Rightarrow> ('d enc, int \<times> encoder_pin_cfg_t option) prog" where
  "rotary_encoder_get_pin_cfg inst pin =
     with_encoder inst (-1, pin) (\<lambda>i. case pin of None \<Rightarrow> slift Fault | Some _ \<Rightarrow> sret (0, Some (ed_cfg (en_cfg i))))"

section \<open>Who owns a device\<close>

abbreviation enc_owned :: "(nat \<Rightarrow> encoder_dev_inst_t option) \<Rightarrow> int multiset" where
  "enc_owned \<equiv> objs_owned (\<lambda>_. True) (\<lambda>i. ed_index (en_cfg i))"

text \<open>\<open>T\<close> are devices whose instance is being made or destroyed. There may be devices besides.\<close>

definition enc_R :: "int multiset \<Rightarrow> ('d, 'z) enc_scheme \<Rightarrow> bool" where
  "enc_R T s \<longleftrightarrow> T + enc_owned (hal_heap s) \<subseteq># en_devices s \<and> (\<forall>i \<in> ran (hal_heap s). en_base_ok i)"

abbreviation enc_st :: "int multiset \<Rightarrow> int set \<Rightarrow> nat set \<Rightarrow> 'd enc \<Rightarrow> bool" where
  "enc_st T \<equiv> hal_st en_fd (enc_R T)"

lemma enc_more: "hal.more s' = hal.more s \<Longrightarrow> en_devices s' = en_devices s" for s s' :: "('d, 'z) enc_scheme"
  by (cases s; cases s') simp

interpretation enc: driver_state en_fd "enc_R T" for T
  by unfold_locales (auto simp: same_inst_def enc_R_def dest: enc_more)

lemma enc_finite: "enc_st T X Y s \<Longrightarrow> finite (dom (hal_heap s))"
  by (rule hal_inv_finite [of en_fd X Y]) (simp add: hal_st_def)

lemma enc_st_devices:
  assumes "enc_st T X Y s" and "T' + enc_owned (hal_heap s) \<subseteq># D"
  shows "enc_st T' X Y (s\<lparr>en_devices := D\<rparr>)"
proof -
  have "hal_inv en_fd X Y (s\<lparr>en_devices := D\<rparr>) = hal_inv en_fd X Y s" by (rule hal_inv_cong) simp_all
  then show ?thesis using assms by (simp add: hal_st_def enc_R_def)
qed

lemma enc_st_less: "enc_st (T + U) X Y s \<Longrightarrow> enc_st T X Y s"
  by (auto simp: hal_st_def enc_R_def intro: subset_mset.order_trans [rotated])

lemma swp_create_dev:
  assumes os: "os_files_ok os" and s: "enc_st {#} X Y s"
    and q: "\<And>r s'. enc_st (if r = 0 then {#ed_index cfg#} else {#}) X Y s' \<Longrightarrow> hal_heap s' = hal_heap s \<Longrightarrow>
      en_devices s' = (if r = 0 then add_mset (ed_index cfg) (en_devices s) else en_devices s) \<Longrightarrow> Q r s'"
  shows "swp (encoder_create_dev os cfg) Q E s"
  unfolding encoder_create_dev_def canmv_misc_create_encoder_dev_def misc_request_def option.case swp_simps
proof (rule enc.st_misc [OF os s], goal_cases)
  case (1 r s')
  have "{#ed_index cfg#} + enc_owned (hal_heap s') \<subseteq># add_mset (ed_index cfg) (en_devices s')"
    using 1(1) by (simp add: hal_st_def enc_R_def)
  from enc_st_devices [OF 1(1) this] show ?case using 1 enc_more [of s' s] q by (cases r) (simp add: same_inst_def)
qed

lemma swp_delete_dev:
  assumes os: "os_files_ok os" and s: "enc_st {#k#} X Y s"
    and q: "\<And>r s'. enc_st {#} X Y s' \<Longrightarrow> hal_heap s' = hal_heap s \<Longrightarrow> Q r s'"
  shows "swp (encoder_delete_dev os k) Q E s"
  unfolding encoder_delete_dev_def canmv_misc_delete_encode_dev_def misc_request_def swp_simps
proof (rule enc.st_misc [OF os s], goal_cases)
  case (1 r s')
  have sub: "add_mset k (enc_owned (hal_heap s')) \<subseteq># en_devices s'" using 1(1) by (simp add: hal_st_def enc_R_def)
  then have "{#} + enc_owned (hal_heap s') \<subseteq># en_devices s' - {#k#}" by (simp add: subset_eq_diff_conv insert_subset_eq_iff)
  from enc_st_devices [OF 1(1) this] have "enc_st {#} X Y (s'\<lparr>en_devices := en_devices s' - {#k#}\<rparr>)" .
  moreover have "enc_st {#} X Y s'" using 1(1) enc_st_less [of "{#}" "{#k#}"] by simp
  ultimately show ?case using 1 q by (cases r) (simp add: same_inst_def)
qed

lemma swp_encoder:
  assumes s: "enc_st {#} {} {} s" and p: "live_ptr s p" and none: "p = None \<Longrightarrow> Q none s"
    and f: "\<And>a i. p = Some a \<Longrightarrow> hal_heap s a = Some i \<Longrightarrow> swp (f i) Q E s"
  shows "swp (with_encoder p none f) Q E s"
proof (cases p)
  case None
  then show ?thesis using none by (simp add: with_encoder_def CHECK_ENCODER_INST_def)
next
  case (Some a)
  then obtain i where a: "hal_heap s a = Some i" using p by (auto simp: live_ptr_def)
  have "en_base_ok i" using s a by (auto simp: hal_st_def enc_R_def ran_def)
  moreover have "0 \<le> en_fd i" by (rule enc.st_fd [OF s a])
  ultimately show ?thesis using f [OF Some a] a Some by (simp add: with_encoder_def CHECK_ENCODER_INST_def swp_eval)
qed

lemma enc_destroy_inv:
  assumes os: "os_files_ok os" and s: "enc_st {#} {} {} s" and p: "live_ptr s p"
  shows "swp (rotary_encoder_inst_destroy os (Some p))
    (\<lambda>x s'. enc_st {#} {} {} s' \<and> snd x = None \<and>
      hal_heap s' = (case p of None \<Rightarrow> hal_heap s | Some a \<Rightarrow> (hal_heap s)(a := None))) E s"
  unfolding rotary_encoder_inst_destroy_def option.case
proof (rule swp_encoder [OF s p], goal_cases)
  case 1
  then show ?case using s by simp
next
  case (2 a i)
  then have pa: "p = Some a" and h: "hal_heap s a = Some i" by simp_all
  have fd: "0 \<le> en_fd i" by (rule enc.st_fd [OF s h])
  show ?case unfolding if_P [OF fd] swp_simps(5) [of "hclose _ _"]
  proof (rule enc.st_close_owned [OF s h], simp, goal_cases)
    case (1 s1)
    have a: "hal_heap s1 a = Some i" and h1: "hal_heap s1 = hal_heap s" using 1(2) h by (simp_all add: same_inst_def)
    show ?case unfolding swp_simps(5) [of "hfree _"]
    proof (rule swp_hfree [where fd_of = en_fd and X = "{}" and Y = "{a}" and i = i], goal_cases)
      case 1
      then show ?case using \<open>enc_st {#} {} {a} s1\<close> by (simp add: hal_st_def)
    next
      case 2
      show ?case using a pa by simp
    next
      case 3
      then show ?case using pa by simp
    next
      case (4 s2)
      have "enc_owned (hal_heap s1) = {#ed_index (en_cfg i)#} + enc_owned (hal_heap s2)"
        using objs_owned_free [OF enc_finite [OF \<open>enc_st {#} {} {a} s1\<close>] a, of "\<lambda>_. True" "\<lambda>i. ed_index (en_cfg i)"] 4(2) pa
        by (simp add: obj_of_def)
      moreover have "ran (hal_heap s2) \<subseteq> ran (hal_heap s1)" using 4(2) by (auto simp: ran_def split: if_splits)
      ultimately have st: "enc_st {#ed_index (en_cfg i)#} {} {} s2"
        using \<open>enc_st {#} {} {a} s1\<close> 4(1) pa enc_more [OF 4(3)] by (auto simp: hal_st_def enc_R_def)
      show ?case unfolding swp_simps(5) [of "encoder_delete_dev _ _"]
        by (rule swp_delete_dev [OF os st]) (use 4(2) h1 pa in simp)
    qed
  qed
qed

text \<open>
  What creating an instance gives: one for the device and the pins asked for, or nothing. The device in the kernel is made in both cases when the result
  is \<open>0\<close> or \<open>-3\<close>.
\<close>

definition enc_created ::
    "int \<Rightarrow> encoder_pin_cfg_t \<Rightarrow> (nat \<Rightarrow> encoder_dev_inst_t option) \<Rightarrow> int \<times> nat option \<Rightarrow> (nat \<Rightarrow> encoder_dev_inst_t option) \<Rightarrow> bool" where
  "enc_created index pin h x h' \<longleftrightarrow>
     (if fst x = 0
      then \<exists>a fd. snd x = Some a \<and> h a = None \<and>
        h' = h(a \<mapsto> \<lparr>en_base_ok = True, en_fd = fd, en_cfg = \<lparr>ed_index = index, ed_cfg = pin\<rparr>\<rparr>)
      else fst x \<in> {-1, -3} \<and> snd x = None \<and> h' = h)"

definition enc_makes :: "int \<Rightarrow> int \<Rightarrow> int multiset \<Rightarrow> int multiset \<Rightarrow> bool" where
  "enc_makes index r D D' \<longleftrightarrow> (r = 0 \<or> r = -3 \<longrightarrow> D' = add_mset index D) \<and> D \<subseteq># D'"

lemma enc_makes_refl [simp]: "r \<noteq> 0 \<Longrightarrow> r \<noteq> -3 \<Longrightarrow> enc_makes index r D D"
  by (simp add: enc_makes_def)

lemma enc_makes_add [simp]: "enc_makes index r D (add_mset index D)"
  by (simp add: enc_makes_def)

lemma enc_open_inv:
  assumes os: "os_files_ok os" and s: "enc_st {#} {} {} s"
  shows "swp (let cfg = \<lparr>ed_index = index, ed_cfg = pin\<rparr> in
       sbind (encoder_create_dev os cfg) (\<lambda>r.
       if r \<noteq> 0 then sret (-1, None)
       else
         sbind (hopen os (encoder_dev index)) (\<lambda>dev_fd.
         if dev_fd < 0 then sret (-1, None)
         else
           sbind (hmalloc os) (\<lambda>ok.
           if \<not> ok then sbind (hclose os dev_fd) (\<lambda>_. sret (-3, None))
           else sbind (hnew \<lparr>en_base_ok = True, en_fd = dev_fd, en_cfg = cfg\<rparr>) (\<lambda>a. sret (0, Some a))))))
    (\<lambda>x s'. enc_st {#} {} {} s' \<and> enc_created index pin (hal_heap s) x (hal_heap s') \<and> enc_makes index (fst x) (en_devices s) (en_devices s')) E s"
  unfolding Let_def swp_simps(5) [of "encoder_create_dev _ _"]
proof (rule swp_create_dev [OF os s], rule swp_ifI, goal_cases)
  case (1 r s1)
  then show ?case by (simp add: enc_created_def)
next
  case (2 r s1)
  then have st1: "enc_st {#index#} {} {} s1" and h1: "hal_heap s1 = hal_heap s" and d1: "en_devices s1 = add_mset index (en_devices s)" by simp_all
  have st0: "enc_st {#} Z {} s'" if "enc_st {#index#} Z {} s'" for Z and s' :: "'a enc"
    using that enc_st_less [of "{#}" "{#index#}"] by simp
  show ?case unfolding swp_simps(5) [of "hopen _ _"]
  proof (rule enc.st_open [OF os st1], goal_cases)
    case (1 fd s2)
    then show ?case using st0 h1 d1 enc_more [of s2 s1] by (simp add: same_inst_def enc_created_def)
  next
    case (2 fd s2)
    have nofd: "\<not> fd < 0" using 2(1) by simp
    have s2: "hal_heap s2 = hal_heap s" "en_devices s2 = add_mset index (en_devices s)"
      using 2(4) h1 d1 enc_more [of s2 s1] by (simp_all add: same_inst_def)
    show ?case unfolding if_not_P [OF nofd] swp_simps(5) [of "hmalloc _"]
    proof (rule enc.st_malloc [OF 2(3)], rule swp_ifI, goal_cases)
      case (1 ok s3)
      have s3: "hal_heap s3 = hal_heap s" "en_devices s3 = add_mset index (en_devices s)"
        using 1(2) s2 enc_more [of s3 s2] by (simp_all add: same_inst_def)
      show ?case unfolding swp_simps(5) [of "hclose _ _"]
      proof (rule enc.st_close [OF 1(1)], simp, goal_cases)
        case (1 s4)
        then show ?case using st0 [of "{}" s4] s3 enc_more [of s4 s3] by (simp add: same_inst_def enc_created_def)
      qed
    next
      case (2 ok s3)
      have s3: "hal_heap s3 = hal_heap s" "en_devices s3 = add_mset index (en_devices s)"
        using 2(2) s2 enc_more [of s3 s2] by (simp_all add: same_inst_def)
      show ?case unfolding swp_simps(5) [of "hnew _"]
      proof (rule enc.st_new [OF 2(1)], simp, goal_cases)
        case (1 s4)
        let ?i = "\<lparr>en_base_ok = True, en_fd = fd, en_cfg = \<lparr>ed_index = index, ed_cfg = pin\<rparr>\<rparr>" and ?a = "hal_next s3"
        have h4: "hal_heap s4 = (hal_heap s)(?a \<mapsto> ?i)" "hal_heap s ?a = None" "en_devices s4 = add_mset index (en_devices s)"
          using 1 s3 enc_more [of s4 s3] by simp_all
        have "enc_owned (hal_heap s4) = add_mset index (enc_owned (hal_heap s))"
          using objs_owned_new [OF enc_finite [OF s] h4(2), of "\<lambda>_. True" "\<lambda>i. ed_index (en_cfg i)" ?i] h4(1) by (simp add: obj_of_def)
        moreover have "enc_R {#} s" using s by (simp add: hal_st_def)
        ultimately have "enc_R {#} s4" using h4(1,3) by (auto simp: enc_R_def ran_def split: if_splits)
        moreover have "hal_inv en_fd {} {} s4" using 1(1) by simp
        ultimately show ?case using h4 by (auto simp: hal_st_def enc_created_def)
      qed
    qed
  qed
qed

lemma enc_create_inv:
  assumes os: "os_files_ok os" and s: "enc_st {#} {} {} s" and p: "live_ptr s p"
  shows "swp (rotary_encoder_inst_create os (Some p) index pin)
    (\<lambda>x s'. enc_st {#} {} {} s' \<and> (p = None \<longrightarrow> (case pin of None \<Rightarrow> x = (-1, None) \<and> s' = s
       | Some pin \<Rightarrow> enc_created index pin (hal_heap s) x (hal_heap s') \<and> enc_makes index (fst x) (en_devices s) (en_devices s')))) E s"
proof (cases "case pin of None \<Rightarrow> True | Some pin \<Rightarrow> 0 > ep_clk_pin pin \<or> 0 > ep_dt_pin pin")
  case True
  then show ?thesis using s by (cases pin) (simp_all add: rotary_encoder_inst_create_def enc_created_def)
next
  case False
  then obtain c where pin: "pin = Some c" and c: "\<not> (0 > ep_clk_pin c \<or> 0 > ep_dt_pin c)" by (cases pin) simp_all
  show ?thesis
  proof (cases p)
    case None
    have none: "(p \<noteq> None) = False" using None by simp
    show ?thesis unfolding rotary_encoder_inst_create_def option.case pin if_not_P [OF c] none if_False swp_simps(5) [of "sret _"] swp_simps(1) prod.case
      using enc_open_inv [OF os s, of index c] None by simp
  next
    case (Some a)
    have some: "(p \<noteq> None) = True" using Some by simp
    show ?thesis unfolding rotary_encoder_inst_create_def option.case pin if_not_P [OF c] some if_True swp_simps(5) [of "rotary_encoder_inst_destroy _ _"]
    proof (rule swp_mono [OF enc_destroy_inv [OF os s p]], goal_cases)
      case (1 x s')
      then obtain r where st: "enc_st {#} {} {} s'" and x: "x = (r, None)" by (cases x) auto
      show ?case unfolding x prod.case
      proof (rule swp_ifI, goal_cases)
        case 1
        then show ?case using st Some by simp
      next
        case 2
        show ?case by (rule swp_mono [OF enc_open_inv [OF os st]]) (use Some in simp_all)
      qed
    qed assumption
  qed
qed

section \<open>Runs\<close>

datatype enc_op =
    ECreate "nat option option" int "encoder_pin_cfg_t option"
  | EDestroy "nat option option"
  | EConfig "nat option" "encoder_pin_cfg_t option"
  | ERead "nat option" "encoder_data option"
  | EWait "nat option" "encoder_data option" int
  | EReset "nat option"
  | ESetCount "nat option" int
  | EGetCount encoder_data "nat option"
  | EGetDelta encoder_data "nat option"
  | EGetIndex "nat option" "int option"
  | EGetPins "nat option" "encoder_pin_cfg_t option"

fun enc_exec :: "'d enc_os \<Rightarrow> enc_op \<Rightarrow> ('d enc, unit) prog" where
  "enc_exec os (ECreate inst index pin) = sdone (rotary_encoder_inst_create os inst index pin)"
| "enc_exec os (EDestroy inst) = sdone (rotary_encoder_inst_destroy os inst)"
| "enc_exec os (EConfig p pin) = sdone (rotary_encoder_config os p pin)"
| "enc_exec os (ERead p dat) = sdone (rotary_encoder_read os p dat)"
| "enc_exec os (EWait p dat t) = sdone (rotary_encoder_wait_event os p dat t)"
| "enc_exec os (EReset p) = sdone (rotary_encoder_reset os p)"
| "enc_exec os (ESetCount p n) = sdone (rotary_encoder_set_count os p n)"
| "enc_exec os (EGetCount dat p) = sdone (rotary_encoder_get_count os dat p)"
| "enc_exec os (EGetDelta dat p) = sdone (rotary_encoder_get_delta os dat p)"
| "enc_exec os (EGetIndex p index) = sdone (rotary_encoder_get_index p index)"
| "enc_exec os (EGetPins p pin) = sdone (rotary_encoder_get_pin_cfg p pin)"

text \<open>A pointer to an instance is null or live; the pointers that the driver does not check are not null.\<close>

fun enc_valid :: "'d enc \<Rightarrow> enc_op \<Rightarrow> bool" where
  "enc_valid s (ECreate inst index pin) = (case inst of None \<Rightarrow> True | Some p \<Rightarrow> live_ptr s p)"
| "enc_valid s (EDestroy inst) = (case inst of None \<Rightarrow> False | Some p \<Rightarrow> live_ptr s p)"
| "enc_valid s (EConfig p pin) = (live_ptr s p \<and> pin \<noteq> None)"
| "enc_valid s (ERead p dat) = live_ptr s p"
| "enc_valid s (EWait p dat t) = live_ptr s p"
| "enc_valid s (EReset p) = live_ptr s p"
| "enc_valid s (ESetCount p n) = live_ptr s p"
| "enc_valid s (EGetCount dat p) = live_ptr s p"
| "enc_valid s (EGetDelta dat p) = live_ptr s p"
| "enc_valid s (EGetIndex p index) = (live_ptr s p \<and> index \<noteq> None)"
| "enc_valid s (EGetPins p pin) = (live_ptr s p \<and> pin \<noteq> None)"

lemma swp_enc_call:
  assumes "enc_st {#} {} {} s" and "live_ptr s p" and "\<And>r s'. enc_st {#} {} {} s' \<Longrightarrow> live_ptr s' p \<Longrightarrow> Q r s'"
  shows "swp (hcall f) Q E s"
  by (rule enc.st_call [OF assms(1)]) (use assms(2,3) live_ptr_same in blast)

lemma swp_enc_read:
  assumes s: "enc_st {#} {} {} s" and p: "live_ptr s p"
  shows "swp (rotary_encoder_read os p dat) (\<lambda>x s'. enc_st {#} {} {} s' \<and> (dat \<noteq> None \<longrightarrow> snd x \<noteq> None)) E s"
  unfolding rotary_encoder_read_def
  by (rule swp_encoder [OF s p]) (use s p in \<open>auto split: option.splits intro!: swp_enc_call [OF s p]\<close>)

lemma enc_exec_inv:
  assumes os: "os_files_ok os" and s: "enc_st {#} {} {} s" and v: "enc_valid s op"
  shows "swp (enc_exec os op) (\<lambda>_. enc_st {#} {} {}) (\<lambda>_. enc_st {#} {} {}) s"
proof (cases op)
  case (ECreate inst index pin)
  show ?thesis
  proof (cases inst)
    case None
    then show ?thesis using s ECreate by (simp add: sdone_def rotary_encoder_inst_create_def)
  next
    case (Some p)
    then have "live_ptr s p" using v ECreate by simp
    from swp_mono [OF enc_create_inv [OF os s this]] show ?thesis using ECreate Some by (simp add: sdone_def)
  qed
next
  case (EDestroy inst)
  then obtain p where "inst = Some p" "live_ptr s p" using v by (cases inst) simp_all
  then show ?thesis using EDestroy swp_mono [OF enc_destroy_inv [OF os s, of p]] by (simp add: sdone_def)
next
  case (ERead p dat)
  then show ?thesis using v swp_mono [OF swp_enc_read [OF s, of p]] by (simp add: sdone_def)
next
  case (EWait p dat t)
  then have p: "live_ptr s p" using v by simp
  have "swp (rotary_encoder_wait_event os p dat t) (\<lambda>_. enc_st {#} {} {}) (\<lambda>_. enc_st {#} {} {}) s"
    unfolding rotary_encoder_wait_event_def
  proof (rule swp_encoder [OF s p], goal_cases)
    case 1
    show ?case by (rule s)
  next
    case (2 a i)
    show ?case
      by (rule swp_ifI) (use s in \<open>auto simp del: split_paired_All intro!: swp_enc_call [OF s p] swp_mono [OF swp_enc_read]\<close>)
  qed
  then show ?thesis using EWait by (simp add: sdone_def)
next
  case (EGetCount dat p)
  then show ?thesis using v swp_mono [OF swp_enc_read [OF s, of p]] by (simp add: sdone_def rotary_encoder_get_count_def split_def)
next
  case (EGetDelta dat p)
  then show ?thesis using v swp_mono [OF swp_enc_read [OF s, of p]] by (simp add: sdone_def rotary_encoder_get_delta_def split_def)
next
  case (EConfig p pin)
  then show ?thesis using v s
    by (auto simp: sdone_def rotary_encoder_config_def Let_def intro!: swp_encoder [OF s] swp_enc_call [OF s])
next
  case (EGetIndex p index)
  then show ?thesis using v s by (auto simp: sdone_def rotary_encoder_get_index_def intro!: swp_encoder [OF s])
next
  case (EGetPins p pin)
  then show ?thesis using v s by (auto simp: sdone_def rotary_encoder_get_pin_cfg_def intro!: swp_encoder [OF s])
qed (use s v in \<open>auto simp: sdone_def rotary_encoder_reset_def rotary_encoder_set_count_def intro!: swp_encoder [OF s] swp_enc_call [OF s]\<close>)

interpretation enc_runs: instance_driver enc_exec enc_valid os_files_ok "enc_st {#} {} {}" en_fd "\<lambda>_. {}"
  by unfold_locales (auto simp: hal_st_def intro!: enc_exec_inv)

definition enc_start :: "'d \<Rightarrow> 'd enc" where
  "enc_start d = \<lparr>hal_heap = Map.empty, hal_next = 0, hal_fds = {}, hal_dev = d, en_devices = {#}\<rparr>"

lemma enc_start_st: "enc_st {#} {} {} (enc_start d)"
  by (simp add: hal_st_def hal_inv_empty enc_start_def enc_R_def)

section \<open>Properties\<close>

lemma enc_count:
  assumes "enc_st {#} {} {} s"
  shows "card {a. \<exists>i. hal_heap s a = Some i \<and> ed_index (en_cfg i) = k} \<le> count (en_devices s) k"
proof -
  have "count (enc_owned (hal_heap s)) k \<le> count (en_devices s) k"
    using assms by (simp add: hal_st_def enc_R_def mset_subset_eq_count)
  then show ?thesis by (simp add: count_objs_owned [OF enc_finite [OF assms]])
qed

text \<open>A kernel in which every request succeeds, and allocations until five files have been opened.\<close>

definition sample_enc_os :: "nat enc_os" where
  "sample_enc_os = (misc_os.extend sample_misc_os (enc_os.fields (\<lambda>x fd d. (0, d)) (\<lambda>fd x d. ((0, x), d)) (\<lambda>fd t d. (0, d)) (\<lambda>fd d. (0, d))
     (\<lambda>fd n d. (0, d))))\<lparr>os_malloc := \<lambda>d. (d < 5, d)\<rparr>"

lemmas sample_enc_os_defs = sample_enc_os_def misc_os.extend_def enc_os.fields_def sample_misc_os_def

lemma sample_enc_os_ok: "os_files_ok sample_enc_os"
  using fresh_fd by (auto simp: os_files_ok_def sample_enc_os_defs)

definition sample_pins :: encoder_pin_cfg_t where
  "sample_pins = \<lparr>ep_clk_pin = 42, ep_dt_pin = 43, ep_sw_pin = -1\<rparr>"

definition sample_enc :: "nat enc" where
  "sample_enc = \<lparr>hal_heap = [0 \<mapsto> \<lparr>en_base_ok = True, en_fd = 3, en_cfg = \<lparr>ed_index = 1, ed_cfg = sample_pins\<rparr>\<rparr>], hal_next = 1, hal_fds = {3},
     hal_dev = 4, en_devices = {#1#}\<rparr>"

lemmas enc_eval = sample_enc_os_defs sample_enc_def enc_start_def rotary_encoder_inst_create_def encoder_create_dev_def sample_pins_def
  canmv_misc_create_encoder_dev_def misc_request_def canmv_misc_dev_ioctl_def fresh_fd_def hal_call_defs sprog_defs sdone_def encoder_dev_def

lemma sample_enc_reach: "reach (enc_exec sample_enc_os) enc_valid (enc_start 2) sample_enc"
proof (rule reach.step [OF reach.start])
  show "enc_valid (enc_start 2) (ECreate (Some None) 1 (Some sample_pins))" by (simp add: live_ptr_def)
  show "enc_exec sample_enc_os (ECreate (Some None) 1 (Some sample_pins)) (enc_start 2) = (Ret (), sample_enc)"
    by (simp add: enc_eval Let_def del: decimal.simps)
qed

text \<open>C26. Whatever calls a client makes with pointers that are null or live: no call of the rotary encoder driver faults; every open descriptor belongs to
  exactly one live instance; and the device of every live instance exists in the kernel: for every index there are at least as many creations that
  were not deleted as live instances.
\<close>

theorem encoder_devices:
  assumes "os_files_ok os" and "reach (enc_exec os) enc_valid (enc_start d) s"
  shows "(enc_valid s op \<longrightarrow> fst (enc_exec os op s) \<noteq> Fault) \<and>
    (fd \<in> hal_fds s \<longleftrightarrow> (\<exists>!a. \<exists>i. hal_heap s a = Some i \<and> en_fd i = fd)) \<and>
    card {a. \<exists>i. hal_heap s a = Some i \<and> ed_index (en_cfg i) = k} \<le> count (en_devices s) k"
proof (intro conjI impI)
  show "fst (enc_exec os op s) \<noteq> Fault" if "enc_valid s op"
    by (rule enc_runs.no_fault [OF assms(2,1) enc_start_st that])
  show "fd \<in> hal_fds s \<longleftrightarrow> (\<exists>!a. \<exists>i. hal_heap s a = Some i \<and> en_fd i = fd)"
    using enc_runs.one_owner [OF assms(2,1) enc_start_st] by simp
  show "card {a. \<exists>i. hal_heap s a = Some i \<and> ed_index (en_cfg i) = k} \<le> count (en_devices s) k"
    by (rule enc_count [OF enc_runs.reach_inv [OF assms(2,1) enc_start_st]])
qed

theorem encoder_devices_witness:
  "fst (enc_exec sample_enc_os (EDestroy (Some (Some 0))) sample_enc) \<noteq> Fault \<and> (\<exists>!a. \<exists>i. hal_heap sample_enc a = Some i \<and> en_fd i = 3) \<and>
   card {a. \<exists>i. hal_heap sample_enc a = Some i \<and> ed_index (en_cfg i) = 1} \<le> 1"
proof -
  have "enc_valid sample_enc (EDestroy (Some (Some 0)))" "3 \<in> hal_fds sample_enc" "count (en_devices sample_enc) 1 = 1"
    by (simp_all add: live_ptr_def sample_enc_def)
  then show ?thesis using encoder_devices [OF sample_enc_os_ok sample_enc_reach, of "EDestroy (Some (Some 0))" 3 1] by simp
qed

text \<open>C38. Creating an instance for pins that are not negative ends with one new instance for the device and the pins asked for, or with the instances and
  the descriptors as they were. But the device in the kernel is not given back on every failure: when there is no memory for the instance (the result
  \<open>-3\<close>) the device has been created and stays, as after a success.
\<close>

theorem encoder_create_leaks:
  assumes "os_files_ok os" and "reach (enc_exec os) enc_valid (enc_start d) s"
  shows "\<exists>x s'. rotary_encoder_inst_create os (Some None) index (Some pin) s = (Ret x, s') \<and>
    enc_created index pin (hal_heap s) x (hal_heap s') \<and> (fst x \<noteq> 0 \<longrightarrow> hal_fds s' = hal_fds s) \<and>
    (fst x = 0 \<or> fst x = -3 \<longrightarrow> en_devices s' = add_mset index (en_devices s))"
proof -
  have st: "enc_st {#} {} {} s" by (rule enc_runs.reach_inv [OF assms(2,1) enc_start_st])
  have "live_ptr s None" by (simp add: live_ptr_def)
  from enc_create_inv [OF assms(1) st this, of index "Some pin" "\<lambda>_ _. False"]
  obtain x s' where run: "rotary_encoder_inst_create os (Some None) index (Some pin) s = (Ret x, s')" and st': "enc_st {#} {} {} s'"
      and made: "enc_created index pin (hal_heap s) x (hal_heap s')" "enc_makes index (fst x) (en_devices s) (en_devices s')"
    by (auto simp: swp_def split: prod.splits cres.splits)
  have "hal_fds s' = hal_fds s" if "fst x \<noteq> 0"
    using st st' made(1) that by (simp add: enc_created_def hal_st_def hal_inv_def)
  then show ?thesis using run made by (auto simp: enc_makes_def)
qed

theorem encoder_create_leaks_witness:
  "\<exists>s'. rotary_encoder_inst_create sample_enc_os (Some None) 2 (Some sample_pins) sample_enc = (Ret (-3, None), s') \<and>
     hal_heap s' = hal_heap sample_enc \<and> hal_fds s' = {3} \<and> en_devices s' = {#1, 2#}"
proof -
  have "fst (rotary_encoder_inst_create sample_enc_os (Some None) 2 (Some sample_pins) sample_enc) = Ret (-3, None)"
    by (simp add: enc_eval Let_def del: decimal.simps)
  then show ?thesis
    using encoder_create_leaks [OF sample_enc_os_ok sample_enc_reach, of 2 sample_pins]
    by (auto simp: enc_created_def sample_enc_def add_mset_commute)
qed

end
