(* ===== verification/Modem.thy ===== *)
theory Modem
  imports Hal_Inst "HOL-Library.Sublist"
begin

text \<open>
  The AT channel of the modem (\<open>rtsmart_hal/components/modem/hal_modem.c\<close>): a reader thread that owns the port and drains it, a buffer
  in which it keeps the newest bytes while a command waits for its answer, and the commands of the caller. The two threads share
  the buffer, the descriptor and three flags; every section under a lock is one step, and between any two steps of the caller
  the reader makes as many of its own as the environment says. The power-up handshake over GPIO and the PMU is not part of the theory.
\<close>

section \<open>Constants and state\<close>

definition MODEM_DEF_REQ_READY_GPIO :: int where "MODEM_DEF_REQ_READY_GPIO = 26"
definition MODEM_DEF_WAKE_TIMEOUT_MS :: int where "MODEM_DEF_WAKE_TIMEOUT_MS = 60000"
definition MODEM_DEF_DIAL_TIMEOUT_MS :: int where "MODEM_DEF_DIAL_TIMEOUT_MS = 30000"
definition AT_BUF_SIZE :: nat where "AT_BUF_SIZE = 512"
definition MODEM_IMEI_LEN :: nat where "MODEM_IMEI_LEN = 15"

definition MODEM_DEF_AT_DEV :: bytes where "MODEM_DEF_AT_DEV = ascii ''/dev/ttyUSB2''"
definition MODEM_DEF_DIAL_CMD :: bytes where "MODEM_DEF_DIAL_CMD = ascii ''AT+MDIALUP=1,1''"

text \<open>A null pointer in the configuration is \<open>None\<close>.\<close>

record modem_cfg =
  mc_req_ready_gpio :: int
  mc_wake_timeout_ms :: int
  mc_at_dev :: "bytes option"
  mc_dial_cmd :: "bytes option"
  mc_dial_timeout_ms :: int

text \<open>
  The static state. \<open>rd_chunk\<close> is what the reader has read and not captured yet; \<open>md_tick\<close> counts the steps of the caller at which the environment acts.
  Two logs are added: \<open>md_seen\<close>, the bytes captured since the last command began, and \<open>md_sent\<close>, the bytes the port has taken.
\<close>

record modem =
  md_inited :: bool
  md_cfg :: modem_cfg
  md_imei :: bytes
  md_imei_valid :: bool
  at_fd :: int
  at_reopen :: bool
  at_started :: bool
  at_run :: bool
  at_capturing :: bool
  at_buf :: bytes
  at_len :: nat
  rd_chunk :: "bytes option"
  md_tick :: nat
  md_seen :: bytes
  md_sent :: bytes

text \<open>What \<open>read\<close> of the reader and \<open>write\<close> of the caller may give. A soft error is \<open>EAGAIN\<close>, \<open>EWOULDBLOCK\<close> or, for \<open>write\<close>, \<open>EINTR\<close>.\<close>

datatype read_result = RBytes bytes | RSoft | RHard
datatype write_result = WBytes nat | WSoft | WHard

text \<open>A step of the reader: up to and with its \<open>read\<close>, given what \<open>open\<close> would return; or the capture of what it has read.\<close>

datatype reader_step = RRead int read_result | RCapture

text \<open>
  The environment at each tick: the steps the reader has made, the clock in milliseconds, the outcome of a \<open>write\<close>. \<open>mo_thread\<close> says whether the
  reader thread can be created.
\<close>

record modem_os =
  mo_reader :: "nat \<Rightarrow> reader_step list"
  mo_clock :: "nat \<Rightarrow> int"
  mo_write :: "nat \<Rightarrow> bytes \<Rightarrow> write_result"
  mo_thread :: bool

section \<open>The reader\<close>

definition at_append :: "bytes \<Rightarrow> bytes \<Rightarrow> nat \<Rightarrow> (bytes \<times> nat) cres" where
  "at_append buf data len =
     cbind (wrn buf len data) (\<lambda>buf. cbind (wr8 buf (len + length data) 0) (\<lambda>buf. Ret (buf, len + length data)))"

text \<open>The older bytes make room for the newer ones.\<close>

definition at_put :: "bytes \<Rightarrow> bytes \<Rightarrow> nat \<Rightarrow> (bytes \<times> nat) cres" where
  "at_put buf data len =
     (let n = length data;
          data = (if n > AT_BUF_SIZE - 1 then drop (n - (AT_BUF_SIZE - 1)) data else data);
          n = (if n > AT_BUF_SIZE - 1 then AT_BUF_SIZE - 1 else n)
      in if len + n > AT_BUF_SIZE - 1 then
           let dropped = len + n - (AT_BUF_SIZE - 1)
           in cbind (rdn buf dropped (len - dropped)) (\<lambda>rest. cbind (wrn buf 0 rest) (\<lambda>buf. at_append buf data (len - dropped)))
         else at_append buf data len)"

definition at_capture :: "bytes \<Rightarrow> (modem, unit) prog" where
  "at_capture data s =
     (if at_capturing s then
        case at_put (at_buf s) data (at_len s) of
          Ret (buf, len) \<Rightarrow> (Ret (), s\<lparr>at_buf := buf, at_len := len, md_seen := md_seen s @ data\<rparr>)
        | Fail e \<Rightarrow> (Fail e, s) | Fault \<Rightarrow> (Fault, s)
      else (Ret (), s))"

definition at_fd_close :: "modem \<Rightarrow> modem" where
  "at_fd_close s = (if at_fd s \<ge> 0 then s\<lparr>at_fd := -1\<rparr> else s)"

text \<open>The loop of \<open>at_reader_fn\<close>; a \<open>read\<close> gives at most 128 bytes, and none is the idle case.\<close>

fun at_reader_step :: "reader_step \<Rightarrow> (modem, unit) prog" where
  "at_reader_step (RRead fd r) s =
     (if \<not> at_run s then (Ret (), at_fd_close s)
      else
        let s = (if at_reopen s \<and> at_fd s \<ge> 0 then at_fd_close s else s);
            s = s\<lparr>at_reopen := False\<rparr>
        in if at_fd s < 0 \<and> fd < 0 then (Ret (), s)
           else
             let s = (if at_fd s < 0 then s\<lparr>at_fd := fd\<rparr> else s)
             in case r of RBytes bs \<Rightarrow> (Ret (), if bs = [] then s else s\<lparr>rd_chunk := Some (take 128 bs)\<rparr>)
                | RSoft \<Rightarrow> (Ret (), s)
                | RHard \<Rightarrow> (Ret (), at_fd_close s))"
| "at_reader_step RCapture s =
     (case rd_chunk s of None \<Rightarrow> (Ret (), s)
      | Some data \<Rightarrow> sbind (at_capture data) (\<lambda>_. smod (\<lambda>s. s\<lparr>rd_chunk := None\<rparr>)) s)"

text \<open>A chunk is captured before the next is read.\<close>

fun at_reader_fn :: "reader_step list \<Rightarrow> (modem, unit) prog" where
  "at_reader_fn [] = sret ()"
| "at_reader_fn (r # rs) =
     sbind (sget rd_chunk) (\<lambda>c.
     sbind (if r = RCapture \<or> c = None then sret () else at_reader_step RCapture) (\<lambda>_.
     sbind (at_reader_step r) (\<lambda>_. at_reader_fn rs)))"

text \<open>The caller lets the other thread run, and gets the tick.\<close>

definition at_other :: "modem_os \<Rightarrow> (modem, nat) prog" where
  "at_other os =
     sbind (sget md_tick) (\<lambda>i.
     sbind (smod (\<lambda>s. s\<lparr>md_tick := i + 1\<rparr>)) (\<lambda>_. sbind (at_reader_fn (mo_reader os i)) (\<lambda>_. sret i)))"

definition now_ms :: "modem_os \<Rightarrow> (modem, int) prog" where
  "now_ms os = sbind (at_other os) (\<lambda>i. sret (mo_clock os i))"

definition at_start :: "modem_os \<Rightarrow> (modem, unit) prog" where
  "at_start os = smod (\<lambda>s. let s = s\<lparr>at_fd := -1, at_run := True\<rparr> in if mo_thread os then s\<lparr>at_started := True\<rparr> else s)"

text \<open>Joining the reader: it makes the steps it is in and closes the port.\<close>

definition at_stop :: "modem_os \<Rightarrow> (modem, unit) prog" where
  "at_stop os =
     sbind (sget at_started) (\<lambda>started.
     if started then
       sbind (smod (\<lambda>s. s\<lparr>at_run := False\<rparr>)) (\<lambda>_.
       sbind (at_other os) (\<lambda>_.
       sbind (at_reader_step RCapture) (\<lambda>_. smod (\<lambda>s. at_fd_close s\<lparr>at_started := False\<rparr>))))
     else sret ())"

section \<open>Commands\<close>

text \<open>With the port closed, the result of the attempt depends on the \<open>errno\<close> of an earlier call, like that of a \<open>write\<close> that fails.\<close>

definition at_write :: "modem_os \<Rightarrow> bytes \<Rightarrow> (modem, write_result) prog" where
  "at_write os data =
     sbind (at_other os) (\<lambda>i.
     sbind (sget at_fd) (\<lambda>fd.
     case mo_write os i data of
       WBytes n \<Rightarrow> if fd \<ge> 0 then sbind (smod (\<lambda>s. s\<lparr>md_sent := md_sent s @ take n data\<rparr>)) (\<lambda>_. sret (WBytes (min n (length data))))
                   else sret WHard
     | r \<Rightarrow> sret r))"

partial_function (option) at_write_loop :: "modem_os \<Rightarrow> bytes \<Rightarrow> nat \<Rightarrow> int \<Rightarrow> nat \<Rightarrow> modem \<Rightarrow> (nat cres \<times> modem) option" where
  "at_write_loop os buf len deadline off s =
     (if \<not> off < len then Some (Ret off, s)
      else case now_ms os s of
        (Ret t, s) \<Rightarrow>
          if \<not> t < deadline then Some (Ret off, s)
          else (case sbind (slift (rdn buf off (len - off))) (at_write os) s of
            (Ret (WBytes w), s) \<Rightarrow> if w > 0 then at_write_loop os buf len deadline (off + w) s else Some (Ret off, s)
          | (Ret WSoft, s) \<Rightarrow> at_write_loop os buf len deadline off s
          | (Ret WHard, s) \<Rightarrow> Some (Ret off, s)
          | (Fail e, s) \<Rightarrow> Some (Fail e, s) | (Fault, s) \<Rightarrow> Some (Fault, s))
      | (Fail e, s) \<Rightarrow> Some (Fail e, s) | (Fault, s) \<Rightarrow> Some (Fault, s))"

definition at_write_all :: "modem_os \<Rightarrow> bytes \<Rightarrow> nat \<Rightarrow> (modem, nat) oprog" where
  "at_write_all os buf len = obind (orun (now_ms os)) (\<lambda>t. at_write_loop os buf len (t + 1000) 0)"

fun strstr :: "bytes \<Rightarrow> bytes \<Rightarrow> bool" where
  "strstr pat [] = (pat = [])"
| "strstr pat (c # cs) = (take (length pat) (c # cs) = pat \<or> strstr pat cs)"

text \<open>\<open>0\<close> for an error, \<open>1\<close> for success, \<open>-1\<close> for no answer yet.\<close>

definition at_answer :: "bytes \<Rightarrow> int" where
  "at_answer buf =
     (if strstr (ascii ''ERROR'') (c_text buf) then 0
      else if strstr (ascii ''OK'' @ [13]) (c_text buf) \<or> strstr (ascii ''OK'' @ [10]) (c_text buf) then 1 else -1)"

partial_function (option) at_wait_loop :: "modem_os \<Rightarrow> int \<Rightarrow> modem \<Rightarrow> (int cres \<times> modem) option" where
  "at_wait_loop os deadline s =
     (case now_ms os s of
        (Ret t, s) \<Rightarrow>
          if \<not> t < deadline then Some (Ret (-1), s)
          else if at_answer (at_buf s) \<ge> 0 then Some (Ret (at_answer (at_buf s)), s)
          else at_wait_loop os deadline s
      | (Fail e, s) \<Rightarrow> Some (Fail e, s) | (Fault, s) \<Rightarrow> Some (Fault, s))"

text \<open>The command line in its 64 bytes, and \<open>strncpy\<close> into a buffer that gets a terminator.\<close>

definition at_line :: "bytes \<Rightarrow> bytes" where
  "at_line cmd = take 63 (cmd @ [13]) @ [0]"

definition c_copy :: "bytes \<Rightarrow> nat \<Rightarrow> bytes" where
  "c_copy b sz = pad_to (sz - 1) (take (sz - 1) (c_text b)) @ [0]"

definition at_begin :: "(modem, unit) prog" where
  "at_begin =
     sbind (sget at_buf) (\<lambda>b. sbind (slift (wr8 b 0 0)) (\<lambda>b.
     smod (\<lambda>s. s\<lparr>at_len := 0, at_buf := b, at_capturing := True, md_seen := []\<rparr>)))"

text \<open>\<open>resp\<close> is the caller's buffer, of the size passed with it.\<close>

definition at_end :: "bytes option \<Rightarrow> (modem, bytes option) prog" where
  "at_end resp =
     sbind (sget at_buf) (\<lambda>b.
     sbind (smod (\<lambda>s. s\<lparr>at_capturing := False\<rparr>)) (\<lambda>_.
     sret (case resp of None \<Rightarrow> None | Some r \<Rightarrow> if length r = 0 then Some r else Some (c_copy b (length r)))))"

definition at_cmd :: "modem_os \<Rightarrow> bytes \<Rightarrow> bytes option \<Rightarrow> int \<Rightarrow> (modem, int \<times> bytes option) oprog" where
  "at_cmd os cmd resp timeout_ms =
     obind (orun (at_other os)) (\<lambda>_.
     obind (orun (sget at_fd)) (\<lambda>fd.
     if fd < 0 then orun (sret (-1, resp))
     else
       obind (orun (at_other os)) (\<lambda>_.
       obind (orun at_begin) (\<lambda>_.
       obind (at_write_all os (at_line cmd) (length cmd + 1)) (\<lambda>n.
       obind (if n \<noteq> length cmd + 1 then orun (sret (-1))
              else obind (orun (now_ms os)) (\<lambda>t. at_wait_loop os (t + timeout_ms))) (\<lambda>rc.
       obind (orun (at_other os)) (\<lambda>_.
       orun (sbind (at_end resp) (\<lambda>resp. sret (rc, resp))))))))))"

definition at_ready :: "modem_os \<Rightarrow> (modem, bool) oprog" where
  "at_ready os =
     obind (at_cmd os (ascii ''AT'') None 500) (\<lambda>(rc, _).
     if rc = 1 then orun (sret True)
     else orun (sbind (smod (\<lambda>s. s\<lparr>at_reopen := True\<rparr>)) (\<lambda>_. sret False)))"

text \<open>\<open>resp\<close> is the content of the local array of 256 bytes.\<close>

definition modem_dial :: "modem_os \<Rightarrow> bytes \<Rightarrow> (modem, int) oprog" where
  "modem_dial os resp =
     obind (orun (sget md_cfg)) (\<lambda>cfg.
     obind (case mc_dial_cmd cfg of None \<Rightarrow> orun (slift Fault) | Some cmd \<Rightarrow> at_cmd os cmd (Some resp) (mc_dial_timeout_ms cfg)) (\<lambda>(rc, _).
     orun (sret rc)))"

section \<open>Configuration\<close>

definition apply_defaults :: "modem_cfg option \<Rightarrow> modem_cfg" where
  "apply_defaults cfg =
     (let d = \<lparr>mc_req_ready_gpio = MODEM_DEF_REQ_READY_GPIO, mc_wake_timeout_ms = MODEM_DEF_WAKE_TIMEOUT_MS, mc_at_dev = Some MODEM_DEF_AT_DEV,
                mc_dial_cmd = Some MODEM_DEF_DIAL_CMD, mc_dial_timeout_ms = MODEM_DEF_DIAL_TIMEOUT_MS\<rparr>
      in case cfg of None \<Rightarrow> d
         | Some c \<Rightarrow>
             let d = (if mc_req_ready_gpio c > 0 then d\<lparr>mc_req_ready_gpio := mc_req_ready_gpio c\<rparr> else d);
                 d = (if mc_wake_timeout_ms c > 0 then d\<lparr>mc_wake_timeout_ms := mc_wake_timeout_ms c\<rparr> else d);
                 d = (if mc_at_dev c \<noteq> None then d\<lparr>mc_at_dev := mc_at_dev c\<rparr> else d);
                 d = (if mc_dial_cmd c \<noteq> None then d\<lparr>mc_dial_cmd := mc_dial_cmd c\<rparr> else d)
             in if mc_dial_timeout_ms c > 0 then d\<lparr>mc_dial_timeout_ms := mc_dial_timeout_ms c\<rparr> else d)"

section \<open>The identity of the modem\<close>

definition is_digit :: "u8 \<Rightarrow> bool" where "is_digit c \<longleftrightarrow> 0x30 \<le> c \<and> c \<le> 0x39"

text \<open>The search in the text of the answer; the index is counted from \<open>i\<close>.\<close>

function find_imei :: "nat \<Rightarrow> bytes \<Rightarrow> nat option" where
  "find_imei i [] = None"
| "find_imei i (c # cs) =
     (if \<not> is_digit c then find_imei (i + 1) cs
      else
        let j = length (takeWhile is_digit (c # cs))
        in if j = MODEM_IMEI_LEN then Some i else find_imei (i + j) (drop j (c # cs)))"
  by pat_completeness auto
termination by (relation "measure (length \<circ> snd)") auto

definition modem_get_imei :: "modem_os \<Rightarrow> bytes \<Rightarrow> bytes option \<Rightarrow> (modem, int \<times> bytes option) oprog" where
  "modem_get_imei os resp buf =
     obind (orun (sget (\<lambda>s. s))) (\<lambda>s.
     if \<not> md_inited s \<or> buf = None \<or> length (the buf) < MODEM_IMEI_LEN + 1 then orun (sret (-1, buf))
     else if md_imei_valid s then orun (sbind (slift (wrn (the buf) 0 (md_imei s))) (\<lambda>b. sret (0, Some b)))
     else
       obind (at_cmd os (ascii ''AT+CGSN=1'') (Some resp) 5000) (\<lambda>(rc, resp).
       if rc \<noteq> 1 then orun (sret (-1, buf))
       else
         case find_imei 0 (c_text (the resp)) of
           None \<Rightarrow> orun (sret (-1, buf))
         | Some start \<Rightarrow>
             orun (sbind (slift (rdn (the resp) start MODEM_IMEI_LEN)) (\<lambda>imei.
             sbind (smod (\<lambda>s. s\<lparr>md_imei := imei @ [0], md_imei_valid := True\<rparr>)) (\<lambda>_.
             sbind (slift (wrn (the buf) 0 (imei @ [0]))) (\<lambda>b. sret (0, Some b)))))))"

section \<open>The buffer\<close>

definition newest :: "nat \<Rightarrow> 'a list \<Rightarrow> 'a list" where
  "newest n xs = drop (length xs - n) xs"

lemma newest_all: "length xs \<le> n \<Longrightarrow> newest n xs = xs"
  by (simp add: newest_def)

lemma newest_append: "newest n (newest n xs @ ys) = newest n (xs @ ys)"
proof (cases "length xs \<le> n")
  case True
  then show ?thesis by (simp add: newest_all)
next
  case False
  then show ?thesis by (simp add: newest_def add.commute)
qed

lemma newest_drop:
  assumes "length xs + length ys > n" and "length ys \<le> n"
  shows "newest n (xs @ ys) = drop (length xs + length ys - n) xs @ ys"
  using assms by (simp add: newest_def)

lemma newest_long: "length ys \<ge> n \<Longrightarrow> newest n (xs @ ys) = newest n ys"
  by (simp add: newest_def)

definition buf_holds :: "bytes \<Rightarrow> nat \<Rightarrow> bytes \<Rightarrow> bool" where
  "buf_holds buf len xs \<longleftrightarrow> length buf = AT_BUF_SIZE \<and> len < AT_BUF_SIZE \<and> buf ! len = 0 \<and> take len buf = xs"

lemma buf_holds_text:
  assumes "buf_holds buf len xs"
  shows "c_text buf = c_text xs"
proof -
  have "len < length buf" using assms by (simp add: buf_holds_def)
  from id_take_nth_drop [OF this] have "buf = xs @ 0 # drop (Suc len) buf" using assms by (simp add: buf_holds_def)
  then show ?thesis using c_text_end by metis
qed

lemma at_append_holds:
  assumes buf: "length buf = AT_BUF_SIZE" and len: "len + length data < AT_BUF_SIZE"
  shows "\<exists>buf'. at_append buf data len = Ret (buf', len + length data) \<and> buf_holds buf' (len + length data) (take len buf @ data)"
proof -
  let ?b = "take len buf @ data @ drop (len + length data) buf"
  have w: "wrn buf len data = Ret ?b" using assms by (simp add: wrn_def)
  have "length ?b = AT_BUF_SIZE" using assms by simp
  then have "wr8 ?b (len + length data) 0 = Ret (?b[len + length data := 0])" using len by (intro wr8_Ret) simp
  moreover have "buf_holds (?b[len + length data := 0]) (len + length data) (take len buf @ data)"
    using assms by (simp add: buf_holds_def min_def)
  ultimately show ?thesis by (auto simp: at_append_def w)
qed

lemma at_put_holds:
  assumes "buf_holds buf len xs"
  shows "\<exists>buf' len'. at_put buf data len = Ret (buf', len') \<and> buf_holds buf' len' (newest (AT_BUF_SIZE - 1) (xs @ data))"
proof -
  let ?n = "AT_BUF_SIZE - 1"
  have buf: "length buf = AT_BUF_SIZE" "len < AT_BUF_SIZE" and xs: "take len buf = xs" using assms by (simp_all add: buf_holds_def)
  then have lx: "length xs = len" by auto
  define d where "d = newest ?n data"
  have ld: "length d \<le> ?n" by (simp add: d_def newest_def)
  have new: "newest ?n (xs @ d) = newest ?n (xs @ data)"
  proof (cases "length data \<le> ?n")
    case True
    then show ?thesis by (simp add: d_def newest_all)
  next
    case False
    then have "length d = ?n" by (simp add: d_def newest_def)
    then show ?thesis using False newest_long [of ?n d xs] newest_long [of ?n data xs] by (simp add: d_def newest_def)
  qed
  have put: "at_put buf data len = (if len + length d > ?n then
      let dropped = len + length d - ?n
      in cbind (rdn buf dropped (len - dropped)) (\<lambda>rest. cbind (wrn buf 0 rest) (\<lambda>buf. at_append buf d (len - dropped)))
    else at_append buf d len)"
    by (auto simp: at_put_def Let_def d_def newest_def)
  show ?thesis
  proof (cases "len + length d > ?n")
    case False
    then have "len + length d < AT_BUF_SIZE" by (simp add: AT_BUF_SIZE_def)
    from at_append_holds [OF buf(1) this] show ?thesis using False new lx xs by (auto simp: put newest_all)
  next
    case True
    let ?k = "len + length d - ?n"
    have k: "?k \<le> len" using ld by simp
    let ?rest = "sub_bytes ?k (len - ?k) buf"
    have rest: "rdn buf ?k (len - ?k) = Ret ?rest" "length ?rest = len - ?k" using k buf by (simp_all add: rdn_Ret)
    have eq: "?rest = drop ?k xs" unfolding sub_bytes_def xs [symmetric] by (simp add: drop_take)
    let ?b = "take 0 buf @ ?rest @ drop (0 + length ?rest) buf"
    have w: "wrn buf 0 ?rest = Ret ?b" using rest(2) k buf by (simp add: wrn_def)
    have lb: "length ?b = AT_BUF_SIZE" and fit: "len - ?k + length d < AT_BUF_SIZE"
      using rest(2) k buf True ld by (simp_all add: AT_BUF_SIZE_def)
    have "take (len - ?k) ?b = drop ?k xs" using rest(2) eq by simp
    moreover have "newest ?n (xs @ d) = drop ?k xs @ d" using True ld lx by (simp add: newest_drop)
    ultimately show ?thesis using at_append_holds [OF lb fit] True rest w new by (auto simp: put Let_def)
  qed
qed

section \<open>What the two threads keep\<close>

definition imei_text :: "bytes \<Rightarrow> bool" where
  "imei_text b \<longleftrightarrow> (\<exists>ds. b = ds @ [0] \<and> length ds = MODEM_IMEI_LEN \<and> list_all is_digit ds)"

text \<open>While a command waits, the buffer holds the newest of what was captured since it began.\<close>

definition md_ok :: "modem \<Rightarrow> bool" where
  "md_ok s \<longleftrightarrow>
     (\<exists>xs. buf_holds (at_buf s) (at_len s) xs \<and> (at_capturing s \<longrightarrow> xs = newest (AT_BUF_SIZE - 1) (md_seen s))) \<and>
     (md_imei_valid s \<longrightarrow> imei_text (md_imei s))"

text \<open>What the other thread does, and the ticks that pass, as the caller sees it.\<close>

definition moves :: "modem \<Rightarrow> modem \<Rightarrow> bool" where
  "moves s s' \<longleftrightarrow> md_ok s' \<and> at_capturing s' = at_capturing s \<and> prefix (md_seen s) (md_seen s') \<and> md_tick s \<le> md_tick s' \<and>
     md_inited s' = md_inited s \<and> md_cfg s' = md_cfg s \<and> md_imei s' = md_imei s \<and> md_imei_valid s' = md_imei_valid s"

lemma moves_refl: "md_ok s \<Longrightarrow> moves s s"
  by (simp add: moves_def)

lemma moves_trans: "moves s s' \<Longrightarrow> moves s' s'' \<Longrightarrow> moves s s''"
  by (auto simp: moves_def intro: prefix_order.trans)

lemma moves_ok: "moves s s' \<Longrightarrow> md_ok s'"
  by (simp add: moves_def)

text \<open>A step that changes neither the buffer nor the cache of the caller.\<close>

lemma moves_other:
  assumes "md_ok s" and "at_buf s' = at_buf s" "at_len s' = at_len s" "at_capturing s' = at_capturing s" "md_seen s' = md_seen s"
    and "md_tick s \<le> md_tick s'" "md_inited s' = md_inited s" "md_cfg s' = md_cfg s" "md_imei s' = md_imei s" "md_imei_valid s' = md_imei_valid s"
  shows "moves s s'"
  using assms by (simp add: moves_def md_ok_def)

definition reads :: "modem \<Rightarrow> modem \<Rightarrow> bool" where
  "reads s s' \<longleftrightarrow> moves s s' \<and> md_sent s' = md_sent s \<and> md_tick s' = md_tick s"

lemma reads_refl: "md_ok s \<Longrightarrow> reads s s"
  by (simp add: reads_def moves_refl)

lemma reads_trans: "reads s s' \<Longrightarrow> reads s' s'' \<Longrightarrow> reads s s''"
  by (auto simp: reads_def intro: moves_trans)

lemma reads_ok: "reads s s' \<Longrightarrow> md_ok s'"
  by (simp add: reads_def moves_def)

lemma reads_other:
  assumes "md_ok s" and "at_buf s' = at_buf s" "at_len s' = at_len s" "at_capturing s' = at_capturing s" "md_seen s' = md_seen s"
    and "md_tick s' = md_tick s" "md_inited s' = md_inited s" "md_cfg s' = md_cfg s" "md_imei s' = md_imei s" "md_imei_valid s' = md_imei_valid s"
    and "md_sent s' = md_sent s"
  shows "reads s s'"
  using assms moves_other [of s s'] by (simp add: reads_def)

lemma at_capture_reads:
  assumes "md_ok s"
  shows "\<exists>s'. at_capture data s = (Ret (), s') \<and> reads s s'"
proof (cases "at_capturing s")
  case False
  then show ?thesis using assms by (auto simp: at_capture_def intro: reads_refl)
next
  case True
  let ?n = "AT_BUF_SIZE - 1"
  have "buf_holds (at_buf s) (at_len s) (newest ?n (md_seen s))" using assms True by (auto simp: md_ok_def)
  from at_put_holds [OF this, of data] obtain buf len where put: "at_put (at_buf s) data (at_len s) = Ret (buf, len)"
    and holds: "buf_holds buf len (newest ?n (md_seen s @ data))" by (auto simp: newest_append)
  let ?s = "s\<lparr>at_buf := buf, at_len := len, md_seen := md_seen s @ data\<rparr>"
  have "md_ok ?s" using holds assms by (auto simp: md_ok_def)
  then have "reads s ?s" by (simp add: reads_def moves_def)
  then show ?thesis using True put by (simp add: at_capture_def)
qed

lemma at_fd_close_reads: "md_ok s \<Longrightarrow> reads s (at_fd_close s)"
  by (rule reads_other) (simp_all add: at_fd_close_def)

lemma reader_step_reads:
  assumes "md_ok s"
  shows "\<exists>s'. at_reader_step r s = (Ret (), s') \<and> reads s s'"
proof (cases r)
  case (RRead fd x)
  have "\<exists>s'. at_reader_step (RRead fd x) s = (Ret (), s')" by (auto simp: Let_def split: read_result.splits)
  moreover have "reads s s'" if "at_reader_step (RRead fd x) s = (Ret (), s')" for s'
    by (rule reads_other [OF assms]) (use that in \<open>auto simp: at_fd_close_def Let_def split: read_result.splits if_splits\<close>)
  ultimately show ?thesis using RRead by blast
next
  case RCapture
  show ?thesis
  proof (cases "rd_chunk s")
    case None
    then show ?thesis using RCapture assms by (auto intro: reads_refl)
  next
    case (Some data)
    from at_capture_reads [OF assms, of data] obtain s1 where s1: "at_capture data s = (Ret (), s1)" "reads s s1" by blast
    have "reads s1 (s1\<lparr>rd_chunk := None\<rparr>)" using s1(2) by (intro reads_other) (simp_all add: reads_ok)
    with s1 show ?thesis using RCapture Some by (auto simp: sprog_defs intro: reads_trans)
  qed
qed

lemma reader_reads: "md_ok s \<Longrightarrow> \<exists>s'. at_reader_fn rs s = (Ret (), s') \<and> reads s s'"
proof (induction rs arbitrary: s)
  case Nil
  then show ?case by (auto simp: sret_def intro: reads_refl)
next
  case (Cons r rs)
  let ?m = "if r = RCapture \<or> rd_chunk s = None then sret () else at_reader_step RCapture"
  have "\<exists>s1. ?m s = (Ret (), s1) \<and> reads s s1"
    using reader_step_reads [OF Cons.prems, of RCapture] reads_refl [OF Cons.prems] by (simp add: sret_def del: at_reader_step.simps)
  then obtain s1 where s1: "?m s = (Ret (), s1)" "reads s s1" by blast
  obtain s2 where s2: "at_reader_step r s1 = (Ret (), s2)" "reads s1 s2" using reader_step_reads [OF reads_ok [OF s1(2)]] by blast
  obtain s3 where s3: "at_reader_fn rs s2 = (Ret (), s3)" "reads s2 s3" using Cons.IH [OF reads_ok [OF s2(2)]] by blast
  have "at_reader_fn (r # rs) s = (Ret (), s3)"
    unfolding at_reader_fn.simps using s1(1) s2(1) s3(1) by (simp add: sbind_def sget_def)
  then show ?case using s1(2) s2(2) s3(2) by (blast intro: reads_trans)
qed

text \<open>A tick: the environment acts, and the tick is counted.\<close>

definition ticked :: "modem \<Rightarrow> modem \<Rightarrow> bool" where
  "ticked s s' \<longleftrightarrow> moves s s' \<and> md_sent s' = md_sent s \<and> md_tick s' = Suc (md_tick s)"

lemma at_other_run: "md_ok s \<Longrightarrow> \<exists>s'. at_other os s = (Ret (md_tick s), s') \<and> ticked s s'"
proof -
  assume ok: "md_ok s"
  let ?s = "s\<lparr>md_tick := md_tick s + 1\<rparr>"
  have "moves s ?s" by (rule moves_other [OF ok]) simp_all
  moreover from moves_ok [OF this] obtain s' where "at_reader_fn (mo_reader os (md_tick s)) ?s = (Ret (), s')" "reads ?s s'"
    using reader_reads by blast
  ultimately show ?thesis by (auto simp: at_other_def sprog_defs reads_def ticked_def intro: moves_trans)
qed

lemma now_ms_run: "md_ok s \<Longrightarrow> \<exists>s'. now_ms os s = (Ret (mo_clock os (md_tick s)), s') \<and> ticked s s'"
  using at_other_run [of s os] by (auto simp: now_ms_def sprog_defs)

lemma owp_other: "md_ok s \<Longrightarrow> (\<And>s'. ticked s s' \<Longrightarrow> Q (md_tick s) s') \<Longrightarrow> owp (orun (at_other os)) Q E s"
  using at_other_run [of s os] by (auto simp: owp_orun)

lemma owp_now: "md_ok s \<Longrightarrow> (\<And>s'. ticked s s' \<Longrightarrow> Q (mo_clock os (md_tick s)) s') \<Longrightarrow> owp (orun (now_ms os)) Q E s"
  using now_ms_run [of s os] by (auto simp: owp_orun)

section \<open>Commands return\<close>

text \<open>The clock passes every time and does not come back.\<close>

definition clock_runs :: "modem_os \<Rightarrow> bool" where
  "clock_runs os \<longleftrightarrow> (\<forall>t. \<exists>k. \<forall>j \<ge> k. t \<le> mo_clock os j)"

lemma tickedD: "ticked s s' \<Longrightarrow> moves s s' \<and> md_ok s' \<and> md_sent s' = md_sent s \<and> md_tick s' = Suc (md_tick s)"
  by (auto simp: ticked_def intro: moves_ok)

lemma at_write_run:
  assumes "md_ok s"
  shows "\<exists>r s'. at_write os data s = (Ret r, s') \<and> moves s s' \<and> md_tick s' = Suc (md_tick s) \<and>
    (case r of WBytes w \<Rightarrow> w \<le> length data \<and> md_sent s' = md_sent s @ take w data | _ \<Rightarrow> md_sent s' = md_sent s)"
proof -
  obtain s1 where s1: "at_other os s = (Ret (md_tick s), s1)" "ticked s s1" using at_other_run [OF assms] by blast
  have "moves s1 (s1\<lparr>md_sent := x\<rparr>)" for x
    by (rule moves_other) (use tickedD [OF s1(2)] in simp_all)
  then have "moves s (s1\<lparr>md_sent := x\<rparr>)" for x using tickedD [OF s1(2)] by (blast intro: moves_trans)
  with tickedD [OF s1(2)] show ?thesis
    by (cases "mo_write os (md_tick s) data") (auto simp: at_write_def sprog_defs s1(1) min_def)
qed

lemma at_write_loop_owp:
  assumes "\<forall>j \<ge> K. deadline \<le> mo_clock os j" and "len \<le> length buf" and "md_ok s" and "off \<le> len"
    and "\<And>off' s'. moves s s' \<Longrightarrow> off \<le> off' \<Longrightarrow> off' \<le> len \<Longrightarrow> md_sent s' = md_sent s @ sub_bytes off (off' - off) buf \<Longrightarrow> Q off' s'"
  shows "owp (at_write_loop os buf len deadline off) Q E s"
  using assms(3-5)
proof (induction "K - md_tick s" arbitrary: s off rule: less_induct)
  case less
  show ?case
  proof (cases "off < len")
    case False
    have "Q off s" by (rule less.prems(3)) (use less.prems moves_refl in \<open>simp_all add: sub_bytes_def\<close>)
    then show ?thesis using False by (simp add: owp_def at_write_loop.simps)
  next
    case True
    obtain s1 where s1: "now_ms os s = (Ret (mo_clock os (md_tick s)), s1)" "ticked s s1" using now_ms_run [OF less.prems(1)] by blast
    note t1 = tickedD [OF s1(2)]
    show ?thesis
    proof (cases "mo_clock os (md_tick s) < deadline")
      case False
      have "Q off s1" by (rule less.prems(3)) (use less.prems t1 in \<open>simp_all add: sub_bytes_def\<close>)
      then show ?thesis using False s1(1) True by (simp add: owp_def at_write_loop.simps)
    next
      case before: True
      have k: "md_tick s < K" using assms(1) before by (metis linorder_not_less)
      let ?d = "sub_bytes off (len - off) buf"
      have d: "rdn buf off (len - off) = Ret ?d" and ld: "length ?d = len - off" using assms(2) True by (simp_all add: rdn_Ret)
      from at_write_run [of s1 os ?d] t1 obtain r s2 where s2: "at_write os ?d s1 = (Ret r, s2)" "moves s1 s2" "md_tick s2 = Suc (md_tick s1)"
        and r: "case r of WBytes w \<Rightarrow> w \<le> length ?d \<and> md_sent s2 = md_sent s1 @ take w ?d | _ \<Rightarrow> md_sent s2 = md_sent s1" by blast
      have step: "sbind (slift (rdn buf off (len - off))) (at_write os) s1 = (Ret r, s2)" using d s2(1) by (simp add: sprog_defs)
      have m2: "moves s s2" using t1 s2(2) by (blast intro: moves_trans)
      have go: "owp (at_write_loop os buf len deadline (off + w)) Q E s2"
        if w: "off + w \<le> len" and sent: "md_sent s2 = md_sent s @ sub_bytes off w buf" for w
      proof (rule less.hyps)
        show "K - md_tick s2 < K - md_tick s" using k s2(3) t1 by simp
        show "md_ok s2" by (rule moves_ok [OF m2])
        show "off + w \<le> len" by (rule w)
        show "Q off' s'" if "moves s2 s'" "off + w \<le> off'" "off' \<le> len" "md_sent s' = md_sent s2 @ sub_bytes (off + w) (off' - (off + w)) buf" for off' s'
        proof (rule less.prems(3))
          show "moves s s'" by (rule moves_trans [OF m2 that(1)])
          have "sub_bytes off w buf @ sub_bytes (off + w) (off' - (off + w)) buf = sub_bytes off (w + (off' - (off + w))) buf"
            by (simp add: sub_bytes_def take_add add.commute)
          then show "md_sent s' = md_sent s @ sub_bytes off (off' - off) buf" using that sent by simp
        qed (use that in simp_all)
      qed
      show ?thesis
      proof (cases r)
        case (WBytes w)
        have "take w ?d = sub_bytes off w buf" using r WBytes ld by (simp add: sub_bytes_def min_def)
        then have sent: "md_sent s2 = md_sent s @ sub_bytes off w buf" and "w \<le> len - off" using r WBytes t1 ld by simp_all
        then have w: "off + w \<le> len" using True by simp
        show ?thesis
        proof (cases "w > 0")
          case True
          then show ?thesis using go [OF w sent] s1(1) step before \<open>off < len\<close> WBytes by (simp add: owp_def at_write_loop.simps [of os buf len deadline off])
        next
          case False
          then have "Q off s2" by (intro less.prems(3)) (use m2 less.prems sent in \<open>simp_all add: sub_bytes_def\<close>)
          then show ?thesis using False s1(1) step before \<open>off < len\<close> WBytes by (simp add: owp_def at_write_loop.simps [of os buf len deadline off])
        qed
      next
        case WSoft
        have "md_sent s2 = md_sent s @ sub_bytes off 0 buf" using r WSoft t1 by (simp add: sub_bytes_def)
        from go [OF _ this] show ?thesis using s1(1) step before True WSoft by (simp add: owp_def at_write_loop.simps [of os buf len deadline off])
      next
        case WHard
        then have "Q off s2" by (intro less.prems(3)) (use m2 less.prems r t1 in \<open>simp_all add: sub_bytes_def\<close>)
        then show ?thesis using s1(1) step before True WHard by (simp add: owp_def at_write_loop.simps [of os buf len deadline off])
      qed
    qed
  qed
qed

lemma at_wait_loop_owp:
  assumes "\<forall>j \<ge> K. deadline \<le> mo_clock os j" and "md_ok s" and "at_capturing s"
    and "\<And>rc s'. moves s s' \<Longrightarrow> md_sent s' = md_sent s \<Longrightarrow> rc = -1 \<or> rc \<ge> 0 \<and> at_answer (newest (AT_BUF_SIZE - 1) (md_seen s')) = rc \<Longrightarrow> Q rc s'"
  shows "owp (at_wait_loop os deadline) Q E s"
  using assms(2-4)
proof (induction "K - md_tick s" arbitrary: s rule: less_induct)
  case less
  obtain s1 where s1: "now_ms os s = (Ret (mo_clock os (md_tick s)), s1)" "ticked s s1" using now_ms_run [OF less.prems(1)] by blast
  note t1 = tickedD [OF s1(2)]
  have cap: "at_capturing s1" using t1 less.prems(2) by (simp add: moves_def)
  then have ans: "at_answer (at_buf s1) = at_answer (newest (AT_BUF_SIZE - 1) (md_seen s1))"
    using t1 by (auto simp: md_ok_def at_answer_def dest!: buf_holds_text)
  show ?case
  proof (cases "mo_clock os (md_tick s) < deadline \<and> at_answer (at_buf s1) < 0")
    case False
    let ?rc = "if mo_clock os (md_tick s) < deadline then at_answer (at_buf s1) else -1"
    have "Q ?rc s1" by (rule less.prems(3)) (use t1 ans False in auto)
    then show ?thesis using False s1(1) by (auto simp: owp_def at_wait_loop.simps [of os deadline s])
  next
    case True
    then have k: "md_tick s < K" using assms(1) by (metis linorder_not_less)
    have "owp (at_wait_loop os deadline) Q E s1"
    proof (rule less.hyps)
      show "K - md_tick s1 < K - md_tick s" using k t1 by simp
      show "Q rc s'" if "moves s1 s'" "md_sent s' = md_sent s1" "rc = -1 \<or> rc \<ge> 0 \<and> at_answer (newest (AT_BUF_SIZE - 1) (md_seen s')) = rc" for rc s'
        by (rule less.prems(3)) (use that t1 in \<open>auto intro: moves_trans\<close>)
    qed (use t1 cap in simp_all)
    then show ?thesis using True s1(1) by (simp add: owp_def at_wait_loop.simps [of os deadline s])
  qed
qed

text \<open>What a command gives, from a state in which the port is open.\<close>

definition at_result :: "bytes \<Rightarrow> bytes option \<Rightarrow> modem \<Rightarrow> int \<times> bytes option \<Rightarrow> modem \<Rightarrow> bool" where
  "at_result cmd resp s x s' \<longleftrightarrow>
     \<not> at_capturing s' \<and>
     snd x = map_option (\<lambda>r. if r = [] then [] else c_copy (newest (AT_BUF_SIZE - 1) (md_seen s')) (length r)) resp \<and>
     (fst x = -1 \<or> fst x \<ge> 0 \<and> md_sent s' = md_sent s @ cmd @ [13] \<and>
        (\<exists>w. prefix w (md_seen s') \<and> at_answer (newest (AT_BUF_SIZE - 1) w) = fst x))"

text \<open>What no command changes.\<close>

definition md_keeps :: "modem \<Rightarrow> modem \<Rightarrow> bool" where
  "md_keeps s s' \<longleftrightarrow> md_ok s' \<and> md_inited s' = md_inited s \<and> md_cfg s' = md_cfg s \<and> md_imei s' = md_imei s \<and> md_imei_valid s' = md_imei_valid s"

lemma moves_keeps: "moves s s' \<Longrightarrow> md_keeps s s'"
  by (simp add: moves_def md_keeps_def)

lemma md_keeps_trans: "md_keeps s s' \<Longrightarrow> md_keeps s' s'' \<Longrightarrow> md_keeps s s''"
  by (simp add: md_keeps_def)

lemma owp_at_begin:
  assumes "md_ok s" and "\<And>s'. md_keeps s s' \<Longrightarrow> at_capturing s' \<Longrightarrow> md_seen s' = [] \<Longrightarrow> md_sent s' = md_sent s \<Longrightarrow> md_tick s' = md_tick s \<Longrightarrow> Q () s'"
  shows "owp (orun at_begin) Q E s"
proof -
  have len: "length (at_buf s) = AT_BUF_SIZE" using assms(1) by (auto simp: md_ok_def buf_holds_def)
  have "buf_holds ((at_buf s)[0 := 0]) 0 []" using len by (simp add: buf_holds_def AT_BUF_SIZE_def)
  moreover have "wr8 (at_buf s) 0 0 = Ret ((at_buf s)[0 := 0])" using len by (intro wr8_Ret) (simp add: AT_BUF_SIZE_def)
  ultimately show ?thesis using assms
    by (simp add: owp_orun at_begin_def sprog_defs md_keeps_def md_ok_def newest_def)
qed

lemma at_line_short: "length cmd \<le> 62 \<Longrightarrow> at_line cmd = cmd @ [13, 0]"
  by (simp add: at_line_def)

lemma clock_runs_end: "clock_runs os \<Longrightarrow> \<exists>k. \<forall>j \<ge> k. t \<le> mo_clock os j"
  by (simp add: clock_runs_def)

lemma at_write_all_owp:
  assumes "clock_runs os" and "len \<le> length buf" and "md_ok s"
    and "\<And>n s'. moves s s' \<Longrightarrow> n \<le> len \<Longrightarrow> md_sent s' = md_sent s @ take n buf \<Longrightarrow> Q n s'"
  shows "owp (at_write_all os buf len) Q E s"
  unfolding at_write_all_def owp_obind
proof (rule owp_now [OF assms(3)], goal_cases)
  case (1 s1)
  obtain k where "\<forall>j \<ge> k. mo_clock os (md_tick s) + 1000 \<le> mo_clock os j" using clock_runs_end [OF assms(1)] by blast
  from this assms(2) show ?case
  proof (rule at_write_loop_owp, goal_cases)
    case 1
    show ?case using tickedD [OF \<open>ticked s s1\<close>] by simp
  next
    case 2
    show ?case by simp
  next
    case (3 n s')
    then show ?case using tickedD [OF \<open>ticked s s1\<close>] by (intro assms(4)) (auto simp: sub_bytes_def intro: moves_trans)
  qed
qed

lemma at_reply_owp:
  assumes clock: "clock_runs os" and s1: "md_ok s1" "at_capturing s1"
    and Q: "\<And>rc s'. moves s1 s' \<Longrightarrow> md_sent s' = md_sent s1 \<Longrightarrow>
      rc = -1 \<or> n = len \<and> rc \<ge> 0 \<and> at_answer (newest (AT_BUF_SIZE - 1) (md_seen s')) = rc \<Longrightarrow> Q rc s'"
  shows "owp (if n \<noteq> len then orun (sret (-1)) else obind (orun (now_ms os)) (\<lambda>t. at_wait_loop os (t + timeout_ms))) Q E s1"
proof (cases "n = len")
  case False
  then show ?thesis using Q [of s1 "-1"] moves_refl [OF s1(1)] by simp
next
  case True
  have "owp (obind (orun (now_ms os)) (\<lambda>t. at_wait_loop os (t + timeout_ms))) Q E s1" unfolding owp_obind
  proof (rule owp_now [OF s1(1)], goal_cases)
    case (1 s2)
    note t = tickedD [OF 1]
    obtain k where "\<forall>j \<ge> k. mo_clock os (md_tick s1) + timeout_ms \<le> mo_clock os j" using clock_runs_end [OF clock] by blast
    then show ?case
    proof (rule at_wait_loop_owp, goal_cases)
      case 1
      show ?case using t by simp
    next
      case 2
      show ?case using t s1(2) by (simp add: moves_def)
    next
      case (3 rc s')
      then show ?case using t True by (intro Q) (auto intro: moves_trans)
    qed
  qed
  then show ?thesis using True by simp
qed

lemma at_cmd_owp:
  assumes clock: "clock_runs os" and cmd: "length cmd \<le> 62" and ok: "md_ok s"
    and closed: "\<And>s'. md_keeps s s' \<Longrightarrow> at_capturing s' = at_capturing s \<Longrightarrow> Q (-1, resp) s'"
    and q: "\<And>x s'. md_keeps s s' \<Longrightarrow> at_result cmd resp s x s' \<Longrightarrow> Q x s'"
  shows "owp (at_cmd os cmd resp timeout_ms) Q E s"
proof -
  show ?thesis unfolding at_cmd_def owp_obind
  proof (rule owp_other [OF ok], goal_cases)
    case (1 s0)
    note t0 = tickedD [OF 1]
    show ?case
    proof (cases "at_fd s0 < 0")
      case True
      have "Q (-1, resp) s0" by (rule closed) (use t0 moves_keeps [of s s0] in \<open>simp_all add: moves_def\<close>)
      then show ?thesis using True by (simp add: owp_orun sprog_defs)
    next
      case False
      then have cond: "(at_fd s0 < 0) = False" by simp
      have "md_ok s0" using t0 by simp
      then show ?thesis unfolding owp_orun [of "sget at_fd"] sget_def prod.case cres.case cond if_False owp_obind
      proof (rule owp_other, goal_cases)
        case (1 s1)
        have t1: "moves s s1 \<and> md_ok s1 \<and> md_sent s1 = md_sent s" using tickedD [OF 1] t0 by (auto intro: moves_trans)
        show ?case
        proof (rule owp_at_begin, goal_cases)
          case 1
          show ?case using t1 by simp
        next
          case (2 s2)
          then have s2: "md_ok s2" "at_capturing s2" "md_seen s2 = []" "md_sent s2 = md_sent s" "md_keeps s s2"
            using t1 moves_keeps [of s s1] md_keeps_trans by (auto simp: md_keeps_def)
          have len: "length cmd + 1 \<le> length (at_line cmd)" using cmd by (simp add: at_line_short)
          show ?case
          proof (rule at_write_all_owp [OF clock len s2(1)], goal_cases)
            case (1 n s3)
            note step3 = 1
            have c3: "at_capturing s3" and m3: "md_ok s3" using 1(1) s2(2) by (simp_all add: moves_def)
            show ?case
            proof (rule at_reply_owp [OF clock m3 c3], goal_cases)
              case (1 rc s4)
              note step4 = 1
              have m4: "md_ok s4" by (rule moves_ok [OF 1(1)])
              show ?case
              proof (rule owp_other [OF m4], goal_cases)
                case (1 s5)
                note t5 = tickedD [OF 1]
                have c5: "at_capturing s5" using t5 step4(1) c3 by (simp add: moves_def)
                then have same: "c_text (at_buf s5) = c_text (newest (AT_BUF_SIZE - 1) (md_seen s5))"
                  using t5 by (auto simp: md_ok_def dest!: buf_holds_text)
                let ?s = "s5\<lparr>at_capturing := False\<rparr>"
                have "md_keeps s s5" using s2(5) moves_keeps [OF step3(1)] moves_keeps [OF step4(1)] t5 moves_keeps [of s4 s5]
                  by (auto simp: md_keeps_def)
                then have "md_keeps s ?s" by (auto simp: md_keeps_def md_ok_def)
                moreover have "prefix (md_seen s4) (md_seen s5)" using t5 by (simp add: moves_def)
                then have "at_result cmd resp s (rc, map_option (\<lambda>r. if length r = 0 then r else c_copy (at_buf s5) (length r)) resp) ?s"
                  using step3(3) step4(2,3) t5 s2(4) cmd
                  by (cases resp) (auto simp: at_result_def same c_copy_def at_line_short)
                ultimately have "Q (rc, map_option (\<lambda>r. if length r = 0 then r else c_copy (at_buf s5) (length r)) resp) ?s"
                  by (intro q) simp_all
                then show ?case by (cases resp) (simp_all add: owp_orun at_end_def sprog_defs split: if_splits)
              qed
            qed
          qed
        qed
      qed
    qed
  qed
qed

section \<open>The first run of fifteen digits\<close>

definition imei_at :: "bytes \<Rightarrow> nat \<Rightarrow> bool" where
  "imei_at cs i \<longleftrightarrow> i + MODEM_IMEI_LEN \<le> length cs \<and> (\<forall>k < MODEM_IMEI_LEN. is_digit (cs ! (i + k))) \<and>
     (i > 0 \<longrightarrow> \<not> is_digit (cs ! (i - 1))) \<and> (i + MODEM_IMEI_LEN < length cs \<longrightarrow> \<not> is_digit (cs ! (i + MODEM_IMEI_LEN)))"

lemma imei_digits: "imei_at cs i \<Longrightarrow> k < MODEM_IMEI_LEN \<Longrightarrow> is_digit (cs ! (i + k))"
  by (simp add: imei_at_def)

lemma imei_ends:
  assumes "imei_at cs i" and "\<forall>k < j. is_digit (cs ! (i + k))" and "i + j \<le> length cs"
    and "i + j < length cs \<Longrightarrow> \<not> is_digit (cs ! (i + j))"
  shows "j = MODEM_IMEI_LEN"
proof (rule antisym)
  show "j \<le> MODEM_IMEI_LEN"
  proof (rule ccontr)
    assume "\<not> ?thesis"
    then have "MODEM_IMEI_LEN < j" "i + MODEM_IMEI_LEN < length cs" using assms(3) by simp_all
    then show False using assms(1,2) by (simp add: imei_at_def)
  qed
  show "MODEM_IMEI_LEN \<le> j"
  proof (rule ccontr)
    assume "\<not> ?thesis"
    then have "j < MODEM_IMEI_LEN" by simp
    moreover from this have "i + j < length cs" using assms(1) by (simp add: imei_at_def)
    ultimately show False using assms(1,4) by (simp add: imei_at_def)
  qed
qed

text \<open>The search starts where no run of digits is under way.\<close>

lemma find_imei_from:
  assumes "i \<le> length ts" and "i > 0 \<Longrightarrow> i < length ts \<Longrightarrow> is_digit (ts ! (i - 1)) \<Longrightarrow> \<not> is_digit (ts ! i)"
  shows "case find_imei i (drop i ts) of None \<Rightarrow> \<forall>q \<ge> i. \<not> imei_at ts q | Some r \<Rightarrow> i \<le> r \<and> imei_at ts r \<and> (\<forall>q. i \<le> q \<longrightarrow> q < r \<longrightarrow> \<not> imei_at ts q)"
  using assms
proof (induction "length ts - i" arbitrary: i rule: less_induct)
  case less
  show ?case
  proof (cases "i < length ts")
    case False
    then show ?thesis by (simp add: imei_at_def MODEM_IMEI_LEN_def)
  next
    case True
    then have cs: "drop i ts = ts ! i # drop (Suc i) ts" by (simp add: Cons_nth_drop_Suc)
    show ?thesis
    proof (cases "is_digit (ts ! i)")
      case False
      then have no: "\<not> imei_at ts i" using imei_digits [of ts i 0] by (auto simp: MODEM_IMEI_LEN_def)
      have "case find_imei (i + 1) (drop (i + 1) ts) of None \<Rightarrow> \<forall>q \<ge> i + 1. \<not> imei_at ts q
        | Some r \<Rightarrow> i + 1 \<le> r \<and> imei_at ts r \<and> (\<forall>q. i + 1 \<le> q \<longrightarrow> q < r \<longrightarrow> \<not> imei_at ts q)"
        by (rule less.hyps) (use True False in simp_all)
      moreover have "q = i \<or> i + 1 \<le> q" if "i \<le> q" for q using that by auto
      ultimately show ?thesis using False cs no by (auto split: option.splits)
    next
      case digit: True
      define j where "j = length (takeWhile is_digit (drop i ts))"
      have run: "is_digit (ts ! (i + k))" if "k < j" for k
      proof -
        have "takeWhile is_digit (drop i ts) ! k = ts ! (i + k)" using that True by (simp add: j_def takeWhile_nth)
        moreover have "takeWhile is_digit (drop i ts) ! k \<in> set (takeWhile is_digit (drop i ts))" using that by (simp add: j_def)
        ultimately show ?thesis by (metis set_takeWhileD)
      qed
      have j: "1 \<le> j" using digit cs by (simp add: j_def)
      have le: "i + j \<le> length ts" using length_takeWhile_le [of is_digit "drop i ts"] True by (simp add: j_def)
      have fin: "\<not> is_digit (ts ! (i + j))" if "i + j < length ts"
        using nth_length_takeWhile [of is_digit "drop i ts"] that by (simp add: j_def)
      have step: "find_imei i (drop i ts) = (if j = MODEM_IMEI_LEN then Some i else find_imei (i + j) (drop (i + j) ts))"
        using digit by (simp only: cs find_imei.simps) (simp add: Let_def j_def cs add.commute)
      show ?thesis
      proof (cases "j = MODEM_IMEI_LEN")
        case True
        have "imei_at ts i" unfolding imei_at_def using le fin run digit less.prems(2) \<open>i < length ts\<close> True by blast
        then show ?thesis using step True by simp
      next
        case False
        have none: "\<not> imei_at ts q" if "i \<le> q" "q < i + j" for q
        proof (cases "q = i")
          case True
          then show ?thesis using imei_ends [of ts i j] run le fin False by blast
        next
          case ne: False
          then have "is_digit (ts ! (q - 1))" using run [of "q - 1 - i"] that by simp
          then show ?thesis using ne that by (auto simp: imei_at_def)
        qed
        have "case find_imei (i + j) (drop (i + j) ts) of None \<Rightarrow> \<forall>q \<ge> i + j. \<not> imei_at ts q
          | Some r \<Rightarrow> i + j \<le> r \<and> imei_at ts r \<and> (\<forall>q. i + j \<le> q \<longrightarrow> q < r \<longrightarrow> \<not> imei_at ts q)"
          by (rule less.hyps) (use True j le fin in simp_all)
        moreover have "q < i + j \<or> i + j \<le> q" for q by auto
        ultimately show ?thesis using False step none j by (fastforce split: option.splits)
      qed
    qed
  qed
qed

lemma find_imei_first:
  "case find_imei 0 ts of None \<Rightarrow> \<forall>q. \<not> imei_at ts q | Some r \<Rightarrow> imei_at ts r \<and> (\<forall>q < r. \<not> imei_at ts q)"
  using find_imei_from [of 0 ts] by (auto split: option.splits)

section \<open>The calls\<close>

lemma at_ready_owp:
  assumes "clock_runs os" and "md_ok s" and "\<And>r s'. md_keeps s s' \<Longrightarrow> Q r s'"
  shows "owp (at_ready os) Q E s"
  unfolding at_ready_def owp_obind
proof (rule at_cmd_owp [OF assms(1) _ assms(2)], goal_cases)
  case 1
  show ?case by (simp add: ascii_def)
next
  case (2 s')
  then show ?case by (auto simp: owp_orun sprog_defs md_keeps_def md_ok_def intro!: assms(3))
next
  case (3 x s')
  then show ?case by (cases x) (auto simp: owp_orun sprog_defs md_keeps_def md_ok_def intro!: assms(3))
qed

definition dial_fits :: "modem \<Rightarrow> bool" where
  "dial_fits s \<longleftrightarrow> (\<exists>cmd. mc_dial_cmd (md_cfg s) = Some cmd \<and> length cmd \<le> 62)"

lemma modem_dial_owp:
  assumes "clock_runs os" and "md_ok s" and "dial_fits s" and "\<And>r s'. md_keeps s s' \<Longrightarrow> Q r s'"
  shows "owp (modem_dial os resp) Q E s"
proof -
  obtain cmd where cmd: "mc_dial_cmd (md_cfg s) = Some cmd" "length cmd \<le> 62" using assms(3) by (auto simp: dial_fits_def)
  show ?thesis unfolding modem_dial_def owp_obind owp_orun [of "sget md_cfg"] sget_def prod.case cres.case cmd(1) option.case
  proof (rule at_cmd_owp [OF assms(1) cmd(2) assms(2)], goal_cases)
    case (1 s')
    then show ?case by (auto intro!: assms(4))
  next
    case (2 x s')
    then show ?case by (cases x) (auto intro!: assms(4))
  qed
qed

text \<open>What the cache of the identity is filled with.\<close>

definition imei_result :: "bytes \<Rightarrow> modem \<Rightarrow> int \<times> bytes option \<Rightarrow> modem \<Rightarrow> bool" where
  "imei_result buf s x s' \<longleftrightarrow>
     (if fst x = 0
      then md_imei_valid s' \<and> imei_text (md_imei s') \<and> snd x = Some (md_imei s' @ drop (MODEM_IMEI_LEN + 1) buf) \<and>
        (if md_imei_valid s then s' = s
         else \<exists>i. let ts = take 255 (c_text (newest (AT_BUF_SIZE - 1) (md_seen s')))
              in md_imei s' = sub_bytes i MODEM_IMEI_LEN ts @ [0] \<and> imei_at ts i \<and> (\<forall>q < i. \<not> imei_at ts q))
      else fst x = -1 \<and> snd x = Some buf \<and> md_imei s' = md_imei s \<and> md_imei_valid s' = md_imei_valid s)"

lemma c_copy_text: "c_text (c_copy b (Suc n)) = take n (c_text b)"
proof -
  have "0 \<notin> set (take n (c_text b))" using set_takeWhileD by (fastforce simp: c_text_def dest: in_set_takeD)
  then have "c_text (take n (c_text b)) = take n (c_text b)" unfolding c_text_def by (auto intro!: takeWhile_eq_all_conv [THEN iffD2])
  moreover have "\<exists>zs. c_copy b (Suc n) = take n (c_text b) @ 0 # zs"
    by (intro exI [of _ "replicate (n - length (take n (c_text b))) 0"]) (simp add: c_copy_def pad_to_def replicate_append_same)
  ultimately show ?thesis using c_text_end by metis
qed

lemma imei_text_sub:
  assumes "imei_at ts i"
  shows "imei_text (sub_bytes i MODEM_IMEI_LEN ts @ [0])"
proof -
  have len: "i + MODEM_IMEI_LEN \<le> length ts" using assms by (simp add: imei_at_def)
  have "list_all is_digit (sub_bytes i MODEM_IMEI_LEN ts)"
    using imei_digits [OF assms] len by (auto simp: list_all_length sub_bytes_def)
  then show ?thesis using len by (simp add: imei_text_def)
qed

lemma wrn_front: "length xs \<le> length b \<Longrightarrow> wrn b 0 xs = Ret (xs @ drop (length xs) b)"
  by (simp add: wrn_def)

lemma imei_text_length: "imei_text b \<Longrightarrow> length b = MODEM_IMEI_LEN + 1"
  by (auto simp: imei_text_def)

lemma sub_bytes_c_text:
  assumes "i + n \<le> length (c_text b)"
  shows "sub_bytes i n (c_text b) = sub_bytes i n b" and "i + n \<le> length b"
proof -
  obtain m where m: "c_text b = take m b" unfolding c_text_def using takeWhile_eq_take by blast
  then have "i + n \<le> m" using assms by simp
  then show "sub_bytes i n (c_text b) = sub_bytes i n b" by (simp add: sub_bytes_def m drop_take min_def)
  show "i + n \<le> length b" using assms length_takeWhile_le [of "\<lambda>c. c \<noteq> 0" b] by (simp add: c_text_def)
qed

lemma modem_get_imei_owp:
  assumes clock: "clock_runs os" and ok: "md_ok s" and resp: "length resp = 256"
    and none: "buf = None \<Longrightarrow> Q (-1, None) s"
    and some: "\<And>b x s'. buf = Some b \<Longrightarrow> md_ok s' \<Longrightarrow> md_inited s' = md_inited s \<Longrightarrow> md_cfg s' = md_cfg s \<Longrightarrow> imei_result b s x s' \<Longrightarrow> Q x s'"
  shows "owp (modem_get_imei os resp buf) Q E s"
proof (cases buf)
  case None
  then show ?thesis using none by (simp add: modem_get_imei_def owp_obind owp_orun sprog_defs)
next
  case (Some b)
  note some' = some [OF Some]
  have refuse: "Q (-1, Some b) s'" if "md_keeps s s'" for s'
    by (rule some') (use that in \<open>simp_all add: md_keeps_def imei_result_def\<close>)
  have keep: "md_keeps s s" using ok by (simp add: md_keeps_def)
  show ?thesis
  proof (cases "md_inited s \<and> MODEM_IMEI_LEN + 1 \<le> length b")
    case False
    then show ?thesis using refuse [OF keep] Some by (auto simp: modem_get_imei_def owp_obind owp_orun sprog_defs)
  next
    case go: True
    show ?thesis
    proof (cases "md_imei_valid s")
      case True
      then have "imei_text (md_imei s)" using ok by (simp add: md_ok_def)
      with True have "Q (0, Some (md_imei s @ drop (MODEM_IMEI_LEN + 1) b)) s" using ok
        by (intro some') (simp_all add: imei_result_def)
      then show ?thesis using True go Some imei_text_length [OF \<open>imei_text (md_imei s)\<close>]
        by (simp add: modem_get_imei_def owp_obind owp_orun sprog_defs wrn_front)
    next
      case False
      then have cond: "(\<not> md_inited s \<or> buf = None \<or> length (the buf) < MODEM_IMEI_LEN + 1) = False" using go Some by simp
      show ?thesis
        unfolding modem_get_imei_def owp_obind owp_orun [of "sget (\<lambda>s. s)"] sget_def prod.case cres.case cond if_False if_not_P [OF False]
      proof (rule at_cmd_owp [OF clock _ ok], goal_cases)
        case 1
        show ?case by (simp add: ascii_def)
      next
        case (2 s')
        then show ?case using refuse [OF 2(1)] Some by simp
      next
        case (3 x s')
        obtain rc r where x: "x = (rc, r)" by (cases x)
        have resp_ne: "resp \<noteq> []" using resp by auto
        define R where "R = c_copy (newest (AT_BUF_SIZE - 1) (md_seen s')) 256"
        define ts where "ts = take 255 (c_text (newest (AT_BUF_SIZE - 1) (md_seen s')))"
        have r: "r = Some R" using 3(2) resp resp_ne by (simp add: at_result_def x R_def)
        have ts: "c_text R = ts" using c_copy_text [of _ 255] by (simp add: R_def ts_def)
        show ?case
        proof (cases "rc = 1")
          case no: False
          then show ?thesis using refuse [OF 3(1)] Some by (simp add: x)
        next
          case yes: True
          show ?thesis
          proof (cases "find_imei 0 ts")
            case None
            then show ?thesis using refuse [OF 3(1)] Some yes by (simp add: x r ts)
          next
            case start: (Some i)
            have i: "imei_at ts i" "\<forall>q < i. \<not> imei_at ts q" using find_imei_first [of ts] start by simp_all
            then have len: "i + MODEM_IMEI_LEN \<le> length (c_text R)" by (simp add: imei_at_def ts)
            let ?d = "sub_bytes i MODEM_IMEI_LEN ts"
            have rd: "rdn R i MODEM_IMEI_LEN = Ret ?d" using sub_bytes_c_text [OF len] by (simp add: rdn_Ret ts)
            have d: "imei_text (?d @ [0])" by (rule imei_text_sub [OF i(1)])
            let ?s = "s'\<lparr>md_imei := ?d @ [0], md_imei_valid := True\<rparr>"
            have "md_ok ?s" "md_inited ?s = md_inited s" "md_cfg ?s = md_cfg s" using 3(1) d by (auto simp: md_keeps_def md_ok_def)
            moreover have "imei_result b s (0, Some ((?d @ [0]) @ drop (MODEM_IMEI_LEN + 1) b)) ?s" using False d i by (auto simp: imei_result_def Let_def ts_def)
            ultimately have "Q (0, Some ((?d @ [0]) @ drop (MODEM_IMEI_LEN + 1) b)) ?s" by (rule some')
            moreover have "wrn b 0 (?d @ [0]) = Ret ((?d @ [0]) @ drop (MODEM_IMEI_LEN + 1) b)"
              using wrn_front [of "?d @ [0]" b] imei_text_length [OF d] go by simp
            ultimately show ?thesis using yes start Some rd by (simp add: x r ts owp_orun sprog_defs del: append_assoc append.simps)
          qed
        qed
      qed
    qed
  qed
qed

section \<open>Runs\<close>

datatype modem_op = MStart | MStop | MReady | MDial bytes | MImei bytes "bytes option"

text \<open>A call that must return: not to return counts as a fault.\<close>

definition must_return :: "('s, 'a) oprog \<Rightarrow> ('s, unit) prog" where
  "must_return m s = (case m s of None \<Rightarrow> (Fault, s) | Some (r, s') \<Rightarrow> sdone (\<lambda>_. (r, s')) s)"

lemma swp_must_return:
  assumes "owp m (\<lambda>_. I) I s"
  shows "swp (must_return m) (\<lambda>_. I) (\<lambda>_. I) s"
proof -
  obtain r s' where "m s = Some (r, s')" "case r of Ret a \<Rightarrow> I s' | Fail e \<Rightarrow> I s' | Fault \<Rightarrow> False" using assms by (auto simp: owp_def)
  then show ?thesis by (cases r) (simp_all add: must_return_def sdone_def swp_def sprog_defs)
qed

fun modem_exec :: "modem_os \<Rightarrow> modem_op \<Rightarrow> (modem, unit) prog" where
  "modem_exec os MStart = at_start os"
| "modem_exec os MStop = at_stop os"
| "modem_exec os MReady = must_return (at_ready os)"
| "modem_exec os (MDial resp) = must_return (modem_dial os resp)"
| "modem_exec os (MImei resp buf) = must_return (modem_get_imei os resp buf)"

text \<open>The local arrays have 256 bytes.\<close>

fun modem_valid :: "modem \<Rightarrow> modem_op \<Rightarrow> bool" where
  "modem_valid s (MDial resp) = (length resp = 256)"
| "modem_valid s (MImei resp buf) = (length resp = 256)"
| "modem_valid s _ = True"

definition modem_inv :: "modem \<Rightarrow> bool" where
  "modem_inv s \<longleftrightarrow> md_ok s \<and> dial_fits s"

lemma modem_inv_keeps: "md_keeps s s' \<Longrightarrow> modem_inv s \<Longrightarrow> modem_inv s'"
  by (simp add: md_keeps_def modem_inv_def dial_fits_def)

lemma at_start_inv: "modem_inv s \<Longrightarrow> swp (at_start os) (\<lambda>_. modem_inv) E s"
  by (auto simp: at_start_def modem_inv_def md_ok_def dial_fits_def Let_def)

lemma at_stop_inv:
  assumes "modem_inv s"
  shows "swp (at_stop os) (\<lambda>_. modem_inv) E s"
proof (cases "at_started s")
  case False
  then show ?thesis using assms by (simp add: at_stop_def)
next
  case True
  let ?s = "s\<lparr>at_run := False\<rparr>"
  have "moves s ?s" by (rule moves_other) (use assms in \<open>simp_all add: modem_inv_def\<close>)
  moreover from this obtain s1 where s1: "at_other os ?s = (Ret (md_tick s), s1)" "ticked ?s s1" using at_other_run [of ?s os] by (auto simp: moves_def)
  moreover obtain s2 where s2: "at_reader_step RCapture s1 = (Ret (), s2)" "reads s1 s2"
    using reader_step_reads [of s1 RCapture] tickedD [OF s1(2)] by auto
  ultimately have "moves s s2" using tickedD [OF s1(2)] by (auto simp: reads_def intro: moves_trans)
  then have "md_keeps s (at_fd_close s2\<lparr>at_started := False\<rparr>)"
    by (auto simp: moves_def md_keeps_def md_ok_def at_fd_close_def)
  from modem_inv_keeps [OF this assms] show ?thesis
    using True s1(1) s2(1) by (simp add: at_stop_def swp_def sprog_defs del: at_reader_step.simps)
qed

lemma modem_exec_inv:
  assumes clock: "clock_runs os" and inv: "modem_inv s" and valid: "modem_valid s op"
  shows "swp (modem_exec os op) (\<lambda>_. modem_inv) (\<lambda>_. modem_inv) s"
proof -
  have ok: "md_ok s" "dial_fits s" using inv by (simp_all add: modem_inv_def)
  show ?thesis
  proof (cases op)
    case MStart
    then show ?thesis using at_start_inv [OF inv] by simp
  next
    case MStop
    then show ?thesis using at_stop_inv [OF inv] by simp
  next
    case MReady
    have "swp (must_return (at_ready os)) (\<lambda>_. modem_inv) (\<lambda>_. modem_inv) s"
      by (rule swp_must_return, rule at_ready_owp [OF clock ok(1)]) (rule modem_inv_keeps [OF _ inv])
    then show ?thesis using MReady by simp
  next
    case (MDial resp)
    have "swp (must_return (modem_dial os resp)) (\<lambda>_. modem_inv) (\<lambda>_. modem_inv) s"
      by (rule swp_must_return, rule modem_dial_owp [OF clock ok]) (rule modem_inv_keeps [OF _ inv])
    then show ?thesis using MDial by simp
  next
    case (MImei resp buf)
    then have len: "length resp = 256" using valid by simp
    have "swp (must_return (modem_get_imei os resp buf)) (\<lambda>_. modem_inv) (\<lambda>_. modem_inv) s"
    proof (rule swp_must_return, rule modem_get_imei_owp [OF clock ok(1) len])
      show "modem_inv s" by (rule inv)
      show "modem_inv s'" if "md_ok s'" "md_cfg s' = md_cfg s" for s' using that ok by (simp add: modem_inv_def dial_fits_def)
    qed
    then show ?thesis using MImei by simp
  qed
qed

interpretation modem_runs: driver_runs modem_exec modem_valid clock_runs modem_inv
  by unfold_locales (rule modem_exec_inv)

text \<open>The static state that initialisation leaves, before the reader is started.\<close>

definition md_start :: "modem_cfg option \<Rightarrow> modem" where
  "md_start c = \<lparr>md_inited = True, md_cfg = apply_defaults c, md_imei = replicate 16 0, md_imei_valid = False, at_fd = 0, at_reopen = False,
     at_started = False, at_run = False, at_capturing = False, at_buf = replicate AT_BUF_SIZE 0, at_len = 0, rd_chunk = None, md_tick = 0,
     md_seen = [], md_sent = []\<rparr>"

definition cfg_fits :: "modem_cfg option \<Rightarrow> bool" where
  "cfg_fits c \<longleftrightarrow> (\<forall>k cmd. c = Some k \<longrightarrow> mc_dial_cmd k = Some cmd \<longrightarrow> length cmd \<le> 62)"

lemma md_start_inv:
  assumes "cfg_fits c"
  shows "modem_inv (md_start c)"
proof -
  have "dial_fits (md_start c)"
    using assms by (auto simp: dial_fits_def md_start_def apply_defaults_def cfg_fits_def Let_def MODEM_DEF_DIAL_CMD_def ascii_def split: option.splits)
  moreover have "buf_holds (replicate AT_BUF_SIZE 0) 0 []" by (simp add: buf_holds_def AT_BUF_SIZE_def)
  ultimately show ?thesis by (auto simp: modem_inv_def md_ok_def md_start_def)
qed

section \<open>Properties\<close>

text \<open>An answer that decides the command.\<close>

definition answers :: "int \<Rightarrow> bytes \<Rightarrow> bool" where
  "answers rc b \<longleftrightarrow>
     (if strstr (ascii ''ERROR'') (c_text b) then rc = 0
      else rc = 1 \<and> (strstr (ascii ''OK'' @ [13]) (c_text b) \<or> strstr (ascii ''OK'' @ [10]) (c_text b)))"

lemma at_answers: "at_answer b = rc \<Longrightarrow> rc \<noteq> -1 \<Longrightarrow> answers rc b \<and> (rc = 0 \<or> rc = 1)"
  by (auto simp: at_answer_def answers_def split: if_splits)

text \<open>
  A modem that answers every command: the reader finds an answer at each tick, the clock advances by 20 ms, and writes are taken whole.
\<close>

definition sample_modem_os :: modem_os where
  "sample_modem_os = \<lparr>mo_reader = \<lambda>i. [RRead 5 (RBytes (ascii ''860123456789012'' @ [13, 10] @ ascii ''OK'' @ [13, 10])), RCapture],
     mo_clock = \<lambda>i. 20 * int i, mo_write = \<lambda>i bs. WBytes (length bs), mo_thread = True\<rparr>"

lemma sample_modem_clock: "clock_runs sample_modem_os"
proof -
  have "\<exists>k. \<forall>j \<ge> k. t \<le> 20 * int j" for t by (intro exI [of _ "nat t"]) auto
  then show ?thesis by (simp add: clock_runs_def sample_modem_os_def)
qed

definition sample_modem :: modem where
  "sample_modem = md_start None\<lparr>at_fd := -1, at_run := True, at_started := True\<rparr>"

lemma sample_modem_fits: "cfg_fits None"
  by (simp add: cfg_fits_def)

lemma sample_modem_reach: "reach (modem_exec sample_modem_os) modem_valid (md_start None) sample_modem"
proof (rule reach.step [OF reach.start])
  show "modem_valid (md_start None) MStart" by simp
  show "modem_exec sample_modem_os MStart (md_start None) = (Ret (), sample_modem)"
    by (simp add: at_start_def sprog_defs sample_modem_os_def sample_modem_def Let_def)
qed

text \<open>C11. With a clock that passes every time, and with a configuration whose dial command has at most 62 characters (a longer one overruns the line, see
  \<open>modem_long_command\<close>): whatever the reader thread does meanwhile, and however writes are split, delayed or refused, every call of a run of the modem returns
  without a fault, and a command of at most 62 characters returns. It reports an error or success only when the whole line has been
  written, and when the newest 511 bytes captured since it began, as they were at some moment of the wait, contain \<open>ERROR\<close>, or no \<open>ERROR\<close> but \<open>OK\<close> and an end
  of line. Capturing has stopped when it returns.
\<close>

theorem modem_answer:
  assumes "clock_runs os" and "cfg_fits c" and "reach (modem_exec os) modem_valid (md_start c) s" and "length cmd \<le> 62"
  shows "(modem_valid s op \<longrightarrow> fst (modem_exec os op s) \<noteq> Fault) \<and>
    (\<exists>rc resp' s'. at_cmd os cmd resp timeout_ms s = Some (Ret (rc, resp'), s') \<and> rc \<in> {-1, 0, 1} \<and>
      (rc \<noteq> -1 \<longrightarrow> \<not> at_capturing s' \<and> md_sent s' = md_sent s @ cmd @ [13] \<and>
        (\<exists>w. prefix w (md_seen s') \<and> answers rc (newest 511 w))))"
proof
  note inv = modem_runs.reach_inv [OF assms(3,1) md_start_inv [OF assms(2)]]
  show "modem_valid s op \<longrightarrow> fst (modem_exec os op s) \<noteq> Fault"
    using modem_runs.no_fault [OF assms(3,1) md_start_inv [OF assms(2)]] by blast
  have "md_ok s" using inv by (simp add: modem_inv_def)
  then have "owp (at_cmd os cmd resp timeout_ms) (\<lambda>x s'. fst x = -1 \<or> at_result cmd resp s x s') (\<lambda>_. False) s"
    by (rule at_cmd_owp [OF assms(1,4)]) simp_all
  from owp_returns [OF this] obtain x s' where x: "at_cmd os cmd resp timeout_ms s = Some (Ret x, s')" "fst x = -1 \<or> at_result cmd resp s x s'"
    by (metis cres.exhaust)
  have "fst x = -1 \<or> (\<not> at_capturing s' \<and> md_sent s' = md_sent s @ cmd @ [13] \<and> (\<exists>w. prefix w (md_seen s') \<and> at_answer (newest 511 w) = fst x))"
    using x(2) by (auto simp: at_result_def AT_BUF_SIZE_def)
  then have "fst x \<in> {-1, 0, 1} \<and>
      (fst x \<noteq> -1 \<longrightarrow> \<not> at_capturing s' \<and> md_sent s' = md_sent s @ cmd @ [13] \<and> (\<exists>w. prefix w (md_seen s') \<and> answers (fst x) (newest 511 w)))"
    by (auto dest: at_answers)
  moreover obtain rc r where "x = (rc, r)" by (cases x)
  ultimately show "\<exists>rc resp' s'. at_cmd os cmd resp timeout_ms s = Some (Ret (rc, resp'), s') \<and> rc \<in> {-1, 0, 1} \<and>
      (rc \<noteq> -1 \<longrightarrow> \<not> at_capturing s' \<and> md_sent s' = md_sent s @ cmd @ [13] \<and> (\<exists>w. prefix w (md_seen s') \<and> answers rc (newest 511 w)))"
    using x(1) by (intro exI [of _ rc] exI [of _ r] exI [of _ s']) simp
qed

theorem modem_answer_witness:
  "fst (modem_exec sample_modem_os MReady sample_modem) \<noteq> Fault \<and>
   (\<exists>rc resp' s'. at_cmd sample_modem_os (ascii ''AT'') None 500 sample_modem = Some (Ret (rc, resp'), s') \<and> rc \<in> {-1, 0, 1})"
  using modem_answer [OF sample_modem_clock sample_modem_fits sample_modem_reach, of "ascii ''AT''" MReady None 500]
  by (auto simp: ascii_def)




text \<open>C39. Reading the identity of the modem returns. On success the first 16 bytes of the buffer are fifteen digits and a terminator, also kept for the next call, which
  gives them again without asking the modem. They are the first run of exactly fifteen digits, neither preceded nor followed by another digit, in
  the first 255 characters of the answer, the newest 511 bytes captured. On failure the buffer is unchanged.
\<close>

theorem modem_imei:
  assumes "clock_runs os" and "cfg_fits c" and "reach (modem_exec os) modem_valid (md_start c) s" and "length resp = 256"
  shows "\<exists>rc buf' s'. modem_get_imei os resp (Some buf) s = Some (Ret (rc, Some buf'), s') \<and>
    (if rc = 0
     then imei_text (md_imei s') \<and> md_imei_valid s' \<and> buf' = md_imei s' @ drop 16 buf \<and>
       (if md_imei_valid s then s' = s
        else \<exists>i. let answer = take 255 (c_text (newest 511 (md_seen s')))
             in md_imei s' = sub_bytes i 15 answer @ [0] \<and> imei_at answer i \<and> (\<forall>q < i. \<not> imei_at answer q))
     else rc = -1 \<and> buf' = buf \<and> md_imei_valid s' = md_imei_valid s)"
proof -
  have "md_ok s" using modem_runs.reach_inv [OF assms(3,1) md_start_inv [OF assms(2)]] by (simp add: modem_inv_def)
  then have "owp (modem_get_imei os resp (Some buf)) (imei_result buf s) (\<lambda>_. False) s"
    by (rule modem_get_imei_owp [OF assms(1) _ assms(4)]) simp_all
  from owp_returns [OF this] obtain x s' where x: "modem_get_imei os resp (Some buf) s = Some (Ret x, s')" "imei_result buf s x s'"
    by (metis cres.exhaust)
  obtain rc b where rc: "x = (rc, b)" by (cases x)
  obtain buf' where "b = Some buf'" using x(2) by (auto simp: imei_result_def rc split: if_splits)
  with x rc show ?thesis
    by (intro exI [of _ rc] exI [of _ buf'] exI [of _ s']) (auto simp: imei_result_def MODEM_IMEI_LEN_def AT_BUF_SIZE_def)
qed

theorem modem_imei_witness:
  "\<exists>rc buf' s'. modem_get_imei sample_modem_os (replicate 256 0) (Some (replicate 16 1)) sample_modem = Some (Ret (rc, Some buf'), s') \<and>
     (if rc = 0 then imei_text (md_imei s') else rc = -1 \<and> buf' = replicate 16 1)"
  using modem_imei [OF sample_modem_clock sample_modem_fits sample_modem_reach, of "replicate 256 0" "replicate 16 1"] by (auto split: if_splits)

end
