(* ===== verification/Netmgmt.thy ===== *)
theory Netmgmt
  imports Misc
begin

text \<open>
  Network management (\<open>rtsmart_hal/components/netmgmt/hal_netmgmt.c\<close>): each function fills an argument, passes it to the device
  \<open>/dev/netmgmt\<close>, which is opened once and kept, and copies the answer out. A scan allocates the block that the kernel fills. Two logs are added to the
  state: the networks that were joined or started, and the addresses that were set.
\<close>

section \<open>Arguments\<close>

definition NET_DEV_MAX_CNT :: nat where "NET_DEV_MAX_CNT = 8"
definition RT_WLAN_SSID_MAX_LENGTH :: nat where "RT_WLAN_SSID_MAX_LENGTH = 32"
definition RT_WLAN_PASSWORD_MAX_LENGTH :: nat where "RT_WLAN_PASSWORD_MAX_LENGTH = 64"
definition RT_WLAN_BSSID_MAX_LENGTH :: nat where "RT_WLAN_BSSID_MAX_LENGTH = 6"
definition RT_WLAN_STA_SCAN_MAX_AP :: nat where "RT_WLAN_STA_SCAN_MAX_AP = 64"
definition SECURITY_UNKNOWN :: int where "SECURITY_UNKNOWN = -1"
definition RT_802_11_BAND_UNKNOWN :: int where "RT_802_11_BAND_UNKNOWN = 0x7fffffff"
definition RT_NET_DEV_WLAN_STA :: int where "RT_NET_DEV_WLAN_STA = 0"
definition RT_NET_DEV_WLAN_AP :: int where "RT_NET_DEV_WLAN_AP = 1"
definition NETMGMT_WLAN_DEVICE_AUTO :: int where "NETMGMT_WLAN_DEVICE_AUTO = 0"
definition NETMGMT_WLAN_DEVICE_SPI :: int where "NETMGMT_WLAN_DEVICE_SPI = 3"

record rt_wlan_ssid_t =
  ws_len :: u8
  ws_val :: bytes

record rt_wlan_key_t =
  wk_len :: u8
  wk_val :: bytes

record rt_wlan_info_t =
  wi_security :: int
  wi_band :: int
  wi_datarate :: u32
  wi_channel :: int
  wi_rssi :: int
  wi_ssid :: rt_wlan_ssid_t
  wi_bssid :: bytes
  wi_hidden :: u8

text \<open>The union of the configuration.\<close>

datatype wlan_target = TSsid rt_wlan_ssid_t | TInfo rt_wlan_info_t

record rt_wlan_connect_config =
  cc_use_info :: int
  cc_target :: wlan_target
  cc_key :: rt_wlan_key_t

record rt_wlan_scan_result =
  sr_num :: int
  sr_info :: "rt_wlan_info_t list"

record ifconfig_t =
  if_ip :: u32
  if_gw :: u32
  if_netmask :: u32
  if_dns :: u32

record ifconfig_cmd =
  ic_net_if :: int
  ic_func :: u16
  ic_addr :: ifconfig_t

definition zero_ssid :: rt_wlan_ssid_t where
  "zero_ssid = \<lparr>ws_len = 0, ws_val = replicate (RT_WLAN_SSID_MAX_LENGTH + 1) 0\<rparr>"

definition zero_wlan_info :: rt_wlan_info_t where
  "zero_wlan_info = \<lparr>wi_security = 0, wi_band = 0, wi_datarate = 0, wi_channel = 0, wi_rssi = 0, wi_ssid = zero_ssid,
     wi_bssid = replicate RT_WLAN_BSSID_MAX_LENGTH 0, wi_hidden = 0\<rparr>"

definition INVALID_INFO :: rt_wlan_info_t where
  "INVALID_INFO = zero_wlan_info\<lparr>wi_band := RT_802_11_BAND_UNKNOWN, wi_security := SECURITY_UNKNOWN, wi_channel := -1\<rparr>"

definition zero_ifconfig :: ifconfig_t where
  "zero_ifconfig = \<lparr>if_ip = 0, if_gw = 0, if_netmask = 0, if_dns = 0\<rparr>"

text \<open>A buffer of \<open>n\<close> bytes, or an array of networks, keeps its size whatever the kernel writes.\<close>

definition fit :: "nat \<Rightarrow> bytes \<Rightarrow> bytes" where "fit n b = pad_to n (take n b)"

definition fit_result :: "rt_wlan_scan_result \<Rightarrow> rt_wlan_scan_result" where
  "fit_result r = r\<lparr>sr_info := take RT_WLAN_STA_SCAN_MAX_AP (sr_info r @ replicate RT_WLAN_STA_SCAN_MAX_AP zero_wlan_info)\<rparr>"

text \<open>\<open>strncpy\<close> to the front of a buffer: exactly \<open>n\<close> bytes are written.\<close>

definition c_strncpy :: "bytes \<Rightarrow> bytes \<Rightarrow> nat \<Rightarrow> bytes cres" where
  "c_strncpy dst src n = wrn dst 0 (pad_to n (take n src))"

section \<open>The device\<close>

record 'd netmgmt_os = "'d os_files" +
  no_get_auto :: "(int, 'd) request"
  no_set_auto :: "(int, 'd) request"
  no_sta_connect :: "(rt_wlan_connect_config, 'd) request"
  no_sta_disconnect :: "(unit, 'd) request"
  no_sta_connected :: "(int, 'd) request"
  no_sta_get_mac :: "(bytes, 'd) request"
  no_sta_set_mac :: "(bytes, 'd) request"
  no_sta_ap_info :: "(rt_wlan_info_t, 'd) request"
  no_sta_rssi :: "(int, 'd) request"
  no_sta_scan :: "(rt_wlan_scan_result, 'd) request"
  no_ap_start :: "(rt_wlan_connect_config, 'd) request"
  no_ap_stop :: "(unit, 'd) request"
  no_ap_active :: "(int, 'd) request"
  no_ap_info :: "(rt_wlan_info_t, 'd) request"
  no_ap_stas :: "(rt_wlan_scan_result, 'd) request"
  no_ap_deauth :: "(bytes, 'd) request"
  no_ap_get_country :: "(int, 'd) request"
  no_ap_set_country :: "(int, 'd) request"
  no_select :: "(int \<times> int, 'd) request"
  no_lan_connected :: "(int \<times> int, 'd) request"
  no_lan_link :: "(int \<times> int, 'd) request"
  no_lan_get_mac :: "(int \<times> bytes, 'd) request"
  no_lan_set_mac :: "(int \<times> bytes, 'd) request"
  no_ifconfig :: "(ifconfig_cmd, 'd) request"
  no_set_default :: "(bytes, 'd) request"
  no_get_default :: "(bytes, 'd) request"
  no_dev_list :: "(bytes, 'd) request"
  no_probe :: "(int, 'd) request"
  no_dev_name :: "(int \<times> bytes, 'd) request"

record 'd netmgmt = "(rt_wlan_scan_result, 'd) hal" +
  nm_fd :: int
  nm_joined :: "rt_wlan_connect_config list"
  nm_macs :: "bytes list"

definition netmgmt_ioctl :: "'d netmgmt_os \<Rightarrow> ('x, 'd) request \<Rightarrow> 'x \<Rightarrow> ('d netmgmt, int \<times> 'x) prog" where
  "netmgmt_ioctl os cmd arg =
     sbind (sget nm_fd) (\<lambda>fd.
     sbind (if fd < 0 then sbind (hopen os ''/dev/netmgmt'') (\<lambda>fd. sbind (smod (\<lambda>s. s\<lparr>nm_fd := fd\<rparr>)) (\<lambda>_. sret fd)) else sret fd) (\<lambda>fd.
     if fd < 0 then sret (-1, arg) else hcall (cmd arg)))"

text \<open>A request whose answer, in a local variable, goes to the caller's variable if the request succeeds and there is one.\<close>

definition netmgmt_get :: "'d netmgmt_os \<Rightarrow> ('x, 'd) request \<Rightarrow> 'x \<Rightarrow> ('x \<Rightarrow> 'y) \<Rightarrow> 'y option \<Rightarrow> ('d netmgmt, int \<times> 'y option) prog" where
  "netmgmt_get os cmd init f out =
     sbind (netmgmt_ioctl os cmd init) (\<lambda>(r, x). if r \<noteq> 0 then sret (-1, out) else sret (0, map_option (\<lambda>_. f x) out))"

definition netmgmt_put :: "'d netmgmt_os \<Rightarrow> ('x, 'd) request \<Rightarrow> 'x \<Rightarrow> ('d netmgmt, int) prog" where
  "netmgmt_put os cmd x = sbind (netmgmt_ioctl os cmd x) (\<lambda>(r, _). sret (if r \<noteq> 0 then -1 else 0))"

definition netmgmt_wlan_select_device :: "'d netmgmt_os \<Rightarrow> int \<Rightarrow> int \<Rightarrow> ('d netmgmt, int) prog" where
  "netmgmt_wlan_select_device os device itf =
     (if device < NETMGMT_WLAN_DEVICE_AUTO \<or> device > NETMGMT_WLAN_DEVICE_SPI \<or> (itf \<noteq> RT_NET_DEV_WLAN_STA \<and> itf \<noteq> RT_NET_DEV_WLAN_AP) then sret (-1)
      else netmgmt_put os (no_select os) (device, itf))"

section \<open>Joining and starting a network\<close>

text \<open>Strings are given without their terminator.\<close>

definition connect_key :: "bytes option \<Rightarrow> rt_wlan_key_t cres" where
  "connect_key password =
     (let zero = replicate (RT_WLAN_PASSWORD_MAX_LENGTH + 1) 0
      in case password of None \<Rightarrow> Ret \<lparr>wk_len = 0, wk_val = zero[0 := 0]\<rparr>
         | Some p \<Rightarrow> cbind (c_strncpy zero p RT_WLAN_PASSWORD_MAX_LENGTH) (\<lambda>v. Ret \<lparr>wk_len = of_nat (length p), wk_val = v\<rparr>))"

definition netmgmt_connect_config ::
    "'d netmgmt_os \<Rightarrow> (rt_wlan_connect_config, 'd) request \<Rightarrow> rt_wlan_ssid_t option \<Rightarrow> rt_wlan_info_t option \<Rightarrow> bytes option \<Rightarrow> ('d netmgmt, int) prog" where
  "netmgmt_connect_config os cmd ssid info password =
     (if ssid = None \<and> info = None then sret (-1)
      else if password \<noteq> None \<and> RT_WLAN_PASSWORD_MAX_LENGTH < length (the password) then sret (-1)
      else
        sbind (slift (connect_key password)) (\<lambda>key.
        let config = \<lparr>cc_use_info = 0, cc_target = TSsid (case ssid of None \<Rightarrow> zero_ssid | Some s \<Rightarrow> s), cc_key = key\<rparr>;
            config = (case info of None \<Rightarrow> config | Some i \<Rightarrow> config\<lparr>cc_use_info := 1, cc_target := TInfo i\<rparr>)
        in sbind (netmgmt_ioctl os cmd config) (\<lambda>(r, _).
           if r \<noteq> 0 then sret (-1) else sbind (smod (\<lambda>s. s\<lparr>nm_joined := nm_joined s @ [config]\<rparr>)) (\<lambda>_. sret 0))))"

text \<open>\<open>stack\<close> is what the 33 bytes of the local variable hold before.\<close>

definition make_ssid :: "bytes \<Rightarrow> bytes \<Rightarrow> rt_wlan_ssid_t cres" where
  "make_ssid stack ssid = cbind (c_strncpy stack ssid RT_WLAN_SSID_MAX_LENGTH) (\<lambda>v. Ret \<lparr>ws_len = of_nat (length ssid), ws_val = v\<rparr>)"

definition netmgmt_wlan_sta_connect_with_ssid :: "'d netmgmt_os \<Rightarrow> bytes \<Rightarrow> bytes option \<Rightarrow> bytes option \<Rightarrow> ('d netmgmt, int) prog" where
  "netmgmt_wlan_sta_connect_with_ssid os stack ssid password =
     (case ssid of None \<Rightarrow> sret (-1)
      | Some s \<Rightarrow>
        if length s = 0 \<or> RT_WLAN_SSID_MAX_LENGTH < length s then sret (-1)
        else sbind (slift (make_ssid stack s)) (\<lambda>w. netmgmt_connect_config os (no_sta_connect os) (Some w) None password))"

definition netmgmt_wlan_sta_connect_with_scan_info :: "'d netmgmt_os \<Rightarrow> rt_wlan_info_t option \<Rightarrow> bytes option \<Rightarrow> ('d netmgmt, int) prog" where
  "netmgmt_wlan_sta_connect_with_scan_info os info password =
     (if info = None then sret (-1) else netmgmt_connect_config os (no_sta_connect os) None info password)"

definition netmgmt_wlan_ap_start_with_ssid :: "'d netmgmt_os \<Rightarrow> bytes \<Rightarrow> bytes option \<Rightarrow> bytes option \<Rightarrow> ('d netmgmt, int) prog" where
  "netmgmt_wlan_ap_start_with_ssid os stack ssid password =
     (if ssid = None \<or> password = None then sret (-1)
      else
        let s = the ssid in
        if length s = 0 \<or> RT_WLAN_SSID_MAX_LENGTH < length s then sret (-1)
        else sbind (slift (make_ssid stack s)) (\<lambda>w. netmgmt_connect_config os (no_ap_start os) (Some w) None password))"

definition netmgmt_wlan_ap_start_with_info :: "'d netmgmt_os \<Rightarrow> rt_wlan_info_t option \<Rightarrow> bytes option \<Rightarrow> ('d netmgmt, int) prog" where
  "netmgmt_wlan_ap_start_with_info os info password =
     (if info = None \<or> password = None then sret (-1) else netmgmt_connect_config os (no_ap_start os) None info password)"

section \<open>Scans\<close>

text \<open>The macro: the text is copied into a zeroed array, and measured there.\<close>

definition SSID_SET :: "rt_wlan_info_t \<Rightarrow> bytes \<Rightarrow> rt_wlan_info_t cres" where
  "SSID_SET info ssid =
     cbind (c_strncpy (ws_val (wi_ssid info)) ssid RT_WLAN_SSID_MAX_LENGTH) (\<lambda>v.
     Ret (info\<lparr>wi_ssid := \<lparr>ws_len = of_nat (length (c_text v)), ws_val = v\<rparr>\<rparr>))"

text \<open>A block that the caller holds is freed; the new one is the result, or null.\<close>

definition netmgmt_scan_result ::
    "'d netmgmt_os \<Rightarrow> (rt_wlan_scan_result, 'd) request \<Rightarrow> nat option \<Rightarrow> bytes option \<Rightarrow> ('d netmgmt, int \<times> nat option) prog" where
  "netmgmt_scan_result os cmd scan_result ssid =
     sbind (case scan_result of None \<Rightarrow> sret () | Some a \<Rightarrow> hfree a) (\<lambda>_.
     sbind (hmalloc os) (\<lambda>ok.
     if \<not> ok then sret (-1, None)
     else
       sbind (slift (case ssid of None \<Rightarrow> Ret INVALID_INFO | Some s \<Rightarrow> SSID_SET INVALID_INFO s)) (\<lambda>first.
       sbind (hnew \<lparr>sr_num = int RT_WLAN_STA_SCAN_MAX_AP, sr_info = first # replicate (RT_WLAN_STA_SCAN_MAX_AP - 1) zero_wlan_info\<rparr>) (\<lambda>a.
       sbind (hinst a) (\<lambda>res.
       sbind (netmgmt_ioctl os cmd res) (\<lambda>(r, res).
       sbind (hset a (\<lambda>_. fit_result res)) (\<lambda>_.
       if r \<noteq> 0 then sbind (hfree a) (\<lambda>_. sret (-1, None)) else sret (0, Some a))))))))"

text \<open>The loops over the networks of the result. The first writes to the array of the caller.\<close>

definition copy_infos :: "int \<Rightarrow> rt_wlan_info_t list \<Rightarrow> rt_wlan_info_t list \<Rightarrow> rt_wlan_info_t list cres" where
  "copy_infos n src dst = (if nat n \<le> length src \<and> nat n \<le> length dst then Ret (take (nat n) src @ drop (nat n) dst) else Fault)"

definition req_ap_num :: "int \<Rightarrow> int" where
  "req_ap_num num = (if num < int RT_WLAN_STA_SCAN_MAX_AP then num else int RT_WLAN_STA_SCAN_MAX_AP)"

definition netmgmt_scan_copy ::
    "'d netmgmt_os \<Rightarrow> (rt_wlan_scan_result, 'd) request \<Rightarrow> int option \<Rightarrow> rt_wlan_info_t list \<Rightarrow> ('d netmgmt, int \<times> int option \<times> rt_wlan_info_t list) prog" where
  "netmgmt_scan_copy os cmd ap_num ap_infos =
     sbind (netmgmt_scan_result os cmd None None) (\<lambda>(r, p).
     if r \<noteq> 0 then sret (-1, ap_num, ap_infos)
     else
       sbind (hinst (the p)) (\<lambda>res.
       let n = req_ap_num (sr_num res) in
       sbind (slift (copy_infos n (sr_info res) ap_infos)) (\<lambda>infos.
       sbind (hfree (the p)) (\<lambda>_. sret (0, map_option (\<lambda>_. n) ap_num, infos)))))"

definition netmgmt_wlan_sta_scan ::
    "'d netmgmt_os \<Rightarrow> int option \<Rightarrow> rt_wlan_info_t list \<Rightarrow> ('d netmgmt, int \<times> int option \<times> rt_wlan_info_t list) prog" where
  "netmgmt_wlan_sta_scan os ap_num ap_infos = netmgmt_scan_copy os (no_sta_scan os) ap_num ap_infos"

definition netmgmt_wlan_ap_get_sta_info ::
    "'d netmgmt_os \<Rightarrow> int option \<Rightarrow> rt_wlan_info_t list \<Rightarrow> ('d netmgmt, int \<times> int option \<times> rt_wlan_info_t list) prog" where
  "netmgmt_wlan_ap_get_sta_info os sta_num sta_infos = netmgmt_scan_copy os (no_ap_stas os) sta_num sta_infos"

text \<open>\<open>strncmp\<close> is zero: the texts agree in their first \<open>n\<close> bytes.\<close>

definition strncmp_eq :: "bytes \<Rightarrow> bytes \<Rightarrow> nat \<Rightarrow> bool" where
  "strncmp_eq a b n \<longleftrightarrow> take n (c_text a) = take n b"

fun find_ssid :: "bytes \<Rightarrow> rt_wlan_info_t list \<Rightarrow> rt_wlan_info_t option" where
  "find_ssid ssid [] = None"
| "find_ssid ssid (i # is) = (if strncmp_eq (ws_val (wi_ssid i)) ssid (RT_WLAN_SSID_MAX_LENGTH + 1) then Some i else find_ssid ssid is)"

definition netmgmt_wlan_sta_scan_with_ssid ::
    "'d netmgmt_os \<Rightarrow> bytes option \<Rightarrow> rt_wlan_info_t option \<Rightarrow> ('d netmgmt, int \<times> rt_wlan_info_t option) prog" where
  "netmgmt_wlan_sta_scan_with_ssid os ssid ap_info =
     sbind (netmgmt_scan_result os (no_sta_scan os) None ssid) (\<lambda>(r, p).
     if r \<noteq> 0 then sret (-1, ap_info)
     else
       sbind (hinst (the p)) (\<lambda>res.
       let n = nat (req_ap_num (sr_num res)) in
       sbind (slift (if n > length (sr_info res) \<or> (n > 0 \<and> ssid = None) then Fault else Ret (find_ssid (the ssid) (take n (sr_info res))))) (\<lambda>found.
       sbind (hfree (the p)) (\<lambda>_.
       sret (case found of None \<Rightarrow> (-1, ap_info) | Some i \<Rightarrow> (0, map_option (\<lambda>_. i) ap_info))))))"

section \<open>The station and the access point\<close>

definition netmgmt_wlan_sta_get_auto_reconnect where
  "netmgmt_wlan_sta_get_auto_reconnect os enable = netmgmt_get os (no_get_auto os) (-1) (\<lambda>x. x) enable"

definition netmgmt_wlan_sta_set_auto_reconnect where
  "netmgmt_wlan_sta_set_auto_reconnect os enable = netmgmt_put os (no_set_auto os) enable"

definition netmgmt_wlan_sta_disconnect_ap where
  "netmgmt_wlan_sta_disconnect_ap os = netmgmt_put os (no_sta_disconnect os) ()"

definition netmgmt_wlan_sta_isconnected where
  "netmgmt_wlan_sta_isconnected os status = netmgmt_get os (no_sta_connected os) (-1) (\<lambda>x. x) status"

definition netmgmt_wlan_sta_get_mac where
  "netmgmt_wlan_sta_get_mac os stack mac = netmgmt_get os (no_sta_get_mac os) stack (fit RT_WLAN_BSSID_MAX_LENGTH) mac"

text \<open>Without an address, what the stack holds is sent. The address is logged when the kernel takes it.\<close>

definition netmgmt_wlan_sta_set_mac :: "'d netmgmt_os \<Rightarrow> bytes \<Rightarrow> bytes option \<Rightarrow> ('d netmgmt, int) prog" where
  "netmgmt_wlan_sta_set_mac os stack mac =
     (let addr = (case mac of None \<Rightarrow> stack | Some m \<Rightarrow> m)
      in sbind (netmgmt_ioctl os (no_sta_set_mac os) addr) (\<lambda>(r, _).
         if r \<noteq> 0 then sret (-1) else sbind (smod (\<lambda>s. s\<lparr>nm_macs := nm_macs s @ [addr]\<rparr>)) (\<lambda>_. sret 0)))"

definition netmgmt_wlan_sta_get_ap_info where
  "netmgmt_wlan_sta_get_ap_info os info = netmgmt_get os (no_sta_ap_info os) zero_wlan_info (\<lambda>x. x) info"

definition netmgmt_wlan_sta_get_rssi where
  "netmgmt_wlan_sta_get_rssi os rssi = netmgmt_get os (no_sta_rssi os) (-100) (\<lambda>x. x) rssi"

definition netmgmt_wlan_ap_stop where
  "netmgmt_wlan_ap_stop os = netmgmt_put os (no_ap_stop os) ()"

definition netmgmt_wlan_ap_isactived where
  "netmgmt_wlan_ap_isactived os status = netmgmt_get os (no_ap_active os) (-1) (\<lambda>x. x) status"

definition netmgmt_wlan_ap_get_info where
  "netmgmt_wlan_ap_get_info os stack info = netmgmt_get os (no_ap_info os) stack (\<lambda>x. x) info"

definition netmgmt_wlan_ap_disconnect_sta :: "'d netmgmt_os \<Rightarrow> bytes option \<Rightarrow> ('d netmgmt, int) prog" where
  "netmgmt_wlan_ap_disconnect_sta os mac = (case mac of None \<Rightarrow> sret (-1) | Some m \<Rightarrow> netmgmt_put os (no_ap_deauth os) m)"

definition netmgmt_wlan_ap_get_country where
  "netmgmt_wlan_ap_get_country os country = netmgmt_get os (no_ap_get_country os) (-1) (\<lambda>x. x) country"

definition netmgmt_wlan_ap_set_country where
  "netmgmt_wlan_ap_set_country os country = netmgmt_put os (no_ap_set_country os) country"

section \<open>Wired networks\<close>

definition netmgmt_lan_get_isconnected where
  "netmgmt_lan_get_isconnected os itf status = netmgmt_get os (no_lan_connected os) (itf, -1) snd status"

definition netmgmt_lan_get_link_status where
  "netmgmt_lan_get_link_status os itf status = netmgmt_get os (no_lan_link os) (itf, -1) snd status"

definition netmgmt_lan_get_mac where
  "netmgmt_lan_get_mac os itf mac = netmgmt_get os (no_lan_get_mac os) (itf, replicate 6 0) (\<lambda>x. fit RT_WLAN_BSSID_MAX_LENGTH (snd x)) mac"

definition netmgmt_lan_set_mac where
  "netmgmt_lan_set_mac os itf mac = netmgmt_put os (no_lan_set_mac os) (itf, case mac of None \<Rightarrow> replicate 6 0 | Some m \<Rightarrow> m)"

section \<open>Devices and addresses\<close>

text \<open>A name of 32 bytes whose last byte is zero.\<close>

definition dev_name :: "bytes \<Rightarrow> bytes" where "dev_name b = (fit 32 b)[31 := 0]"

definition netmgmt_utils_get_default_dev where
  "netmgmt_utils_get_default_dev os name = netmgmt_get os (no_get_default os) (replicate 32 0) dev_name name"

definition netmgmt_utils_set_default_dev :: "'d netmgmt_os \<Rightarrow> bytes option \<Rightarrow> ('d netmgmt, int) prog" where
  "netmgmt_utils_set_default_dev os name =
     sbind (slift (case name of None \<Rightarrow> Ret (replicate 32 0) | Some n \<Rightarrow> c_strncpy (replicate 32 0) n 31)) (\<lambda>b. netmgmt_put os (no_set_default os) b)"

text \<open>The loop over the slots of 32 bytes: the rest of the answer and of the caller's array, with the number of names so far.\<close>

fun dev_list_from :: "nat \<Rightarrow> bytes \<Rightarrow> bytes list \<Rightarrow> int \<Rightarrow> (int \<times> bytes list) cres" where
  "dev_list_from 0 buf names n = Ret (n, names)"
| "dev_list_from (Suc k) buf names n =
     (let pname = (take 32 buf)[31 := 0]
      in if c_text pname = [] then
           (case names of [] \<Rightarrow> cbind (dev_list_from k (drop 32 buf) [] n) (\<lambda>(n, rest). Ret (n, rest))
            | x # xs \<Rightarrow> cbind (dev_list_from k (drop 32 buf) xs n) (\<lambda>(n, rest). Ret (n, x # rest)))
         else
           (case names of [] \<Rightarrow> Fault
            | x # xs \<Rightarrow> cbind (c_strncpy x (c_text pname) 32) (\<lambda>x. cbind (dev_list_from k (drop 32 buf) xs (n + 1)) (\<lambda>(n, rest). Ret (n, x # rest)))))"

definition netmgmt_utils_get_dev_list ::
    "'d netmgmt_os \<Rightarrow> bytes \<Rightarrow> int option \<Rightarrow> bytes list \<Rightarrow> ('d netmgmt, int \<times> int option \<times> bytes list) prog" where
  "netmgmt_utils_get_dev_list os stack dev_num names =
     sbind (netmgmt_ioctl os (no_dev_list os) stack) (\<lambda>(r, buf).
     if r \<noteq> 0 then sret (-1, dev_num, names)
     else sbind (slift (dev_list_from NET_DEV_MAX_CNT (fit (32 * NET_DEV_MAX_CNT) buf) names 0)) (\<lambda>(n, names).
       sret (0, map_option (\<lambda>_. n) dev_num, names)))"

definition netmgmt_utils_probe_device where
  "netmgmt_utils_probe_device os itf status = netmgmt_get os (no_probe os) itf (\<lambda>x. x) status"

definition netmgmt_utils_get_netdev_name :: "'d netmgmt_os \<Rightarrow> int \<Rightarrow> bytes option \<Rightarrow> ('d netmgmt, int \<times> bytes option) prog" where
  "netmgmt_utils_get_netdev_name os itf name =
     (if name = None then sret (-1, None) else netmgmt_get os (no_dev_name os) (itf, replicate 32 0) (\<lambda>x. dev_name (snd x)) name)"

definition netmgmt_utils_get_ifconfig where
  "netmgmt_utils_get_ifconfig os itf config =
     netmgmt_get os (no_ifconfig os) \<lparr>ic_net_if = itf, ic_func = 0, ic_addr = zero_ifconfig\<rparr> ic_addr config"

definition netmgmt_utils_set_ifconfig_static :: "'d netmgmt_os \<Rightarrow> int \<Rightarrow> ifconfig_t option \<Rightarrow> ('d netmgmt, int) prog" where
  "netmgmt_utils_set_ifconfig_static os itf config =
     (case config of None \<Rightarrow> sret (-1)
      | Some c \<Rightarrow> netmgmt_put os (no_ifconfig os) \<lparr>ic_net_if = itf, ic_func = 1, ic_addr = c\<rparr>)"

definition netmgmt_utils_set_ifconfig_dhcp where
  "netmgmt_utils_set_ifconfig_dhcp os itf = netmgmt_put os (no_ifconfig os) \<lparr>ic_net_if = itf, ic_func = 2, ic_addr = zero_ifconfig\<rparr>"

definition netmgmt_utils_renew_dhcp where
  "netmgmt_utils_renew_dhcp os itf = netmgmt_put os (no_ifconfig os) \<lparr>ic_net_if = itf, ic_func = 3, ic_addr = zero_ifconfig\<rparr>"

section \<open>One descriptor, no block\<close>

definition nm_fd_ok :: "'d netmgmt \<Rightarrow> bool" where
  "nm_fd_ok s \<longleftrightarrow> hal_fds s = (if nm_fd s < 0 then {} else {nm_fd s})"

definition nm_inv :: "'d netmgmt \<Rightarrow> bool" where
  "nm_inv s \<longleftrightarrow> nm_fd_ok s \<and> hal_heap s = Map.empty"

lemma swp_netmgmt_ioctl:
  assumes os: "os_files_ok os" and s: "nm_fd_ok s"
    and q: "\<And>x s'. nm_fd_ok s' \<Longrightarrow> hal_heap s' = hal_heap s \<Longrightarrow> hal_next s' = hal_next s \<Longrightarrow> nm_joined s' = nm_joined s \<Longrightarrow>
      nm_macs s' = nm_macs s \<Longrightarrow> x = (-1, arg) \<or> (\<exists>d. fst (cmd arg d) = x) \<Longrightarrow> Q x s'"
  shows "swp (netmgmt_ioctl os cmd arg) Q E s"
proof -
  have call: "swp (hcall (cmd arg)) Q E s'"
    if "nm_fd_ok s'" "hal_heap s' = hal_heap s" "hal_next s' = hal_next s" "nm_joined s' = nm_joined s" "nm_macs s' = nm_macs s" for s'
  proof -
    obtain x d where x: "cmd arg (hal_dev s') = (x, d)" by fastforce
    then have "\<exists>d. fst (cmd arg d) = x" by (metis fst_conv)
    moreover have "nm_fd_ok (s'\<lparr>hal_dev := d\<rparr>)" using that(1) by (simp add: nm_fd_ok_def)
    ultimately have "Q x (s'\<lparr>hal_dev := d\<rparr>)" using that by (intro q) simp_all
    then show ?thesis by (simp add: swp_eval x)
  qed
  show ?thesis
  proof (cases "nm_fd s < 0")
    case False
    then show ?thesis using call [of s] s by (simp add: netmgmt_ioctl_def)
  next
    case True
    obtain fd d where o: "os_open os ''/dev/netmgmt'' (hal_fds s) (hal_dev s) = (fd, d)" by fastforce
    let ?s = "s\<lparr>hal_dev := d, hal_fds := (if fd < 0 then hal_fds s else insert fd (hal_fds s)), nm_fd := fd\<rparr>"
    have ok: "nm_fd_ok ?s" using s True by (simp add: nm_fd_ok_def)
    have open_dev: "swp (hopen os ''/dev/netmgmt'') R E' s = R fd (s\<lparr>hal_dev := d, hal_fds := (if fd < 0 then hal_fds s else insert fd (hal_fds s))\<rparr>)" for R E'
      by (simp add: swp_def hopen_def o)
    show ?thesis
    proof (cases "fd < 0")
      case True
      have "Q (-1, arg) ?s" by (rule q) (use ok in simp_all)
      then show ?thesis using True \<open>nm_fd s < 0\<close> by (simp add: netmgmt_ioctl_def open_dev)
    next
      case False
      have "swp (hcall (cmd arg)) Q E ?s" by (rule call) (use ok in simp_all)
      then show ?thesis using False \<open>nm_fd s < 0\<close> by (simp add: netmgmt_ioctl_def open_dev)
    qed
  qed
qed

lemma netmgmt_ioctl_inv: "os_files_ok os \<Longrightarrow> nm_inv s \<Longrightarrow> (\<And>x s'. nm_inv s' \<Longrightarrow> Q x s') \<Longrightarrow> swp (netmgmt_ioctl os cmd arg) Q E s"
  by (rule swp_netmgmt_ioctl) (simp_all add: nm_inv_def)

lemma netmgmt_get_inv: "os_files_ok os \<Longrightarrow> nm_inv s \<Longrightarrow> (\<And>x s'. nm_inv s' \<Longrightarrow> Q x s') \<Longrightarrow> swp (netmgmt_get os cmd x f out) Q E s"
  unfolding netmgmt_get_def swp_simps(5) by (rule netmgmt_ioctl_inv) (auto split: prod.splits)

lemma netmgmt_put_inv: "os_files_ok os \<Longrightarrow> nm_inv s \<Longrightarrow> (\<And>x s'. nm_inv s' \<Longrightarrow> Q x s') \<Longrightarrow> swp (netmgmt_put os cmd x) Q E s"
  unfolding netmgmt_put_def swp_simps(5) by (rule netmgmt_ioctl_inv) (auto split: prod.splits)

lemma c_strncpy_Ret: "n \<le> length dst \<Longrightarrow> c_strncpy dst src n = Ret (pad_to n (take n src) @ drop n dst)"
  by (simp add: c_strncpy_def wrn_def)

lemma connect_key_Ret:
  "connect_key password = Ret (case password of None \<Rightarrow> \<lparr>wk_len = 0, wk_val = replicate 65 0\<rparr>
     | Some p \<Rightarrow> \<lparr>wk_len = of_nat (length p), wk_val = pad_to 64 (take 64 p) @ [0]\<rparr>)"
proof -
  have "(replicate 65 (0 :: u8))[0 := 0] = replicate 65 0" by (simp add: list_update_same_conv)
  moreover have "drop 64 (replicate 65 (0 :: u8)) = [0]" by (simp add: drop_replicate)
  ultimately show ?thesis by (cases password) (simp_all add: connect_key_def Let_def RT_WLAN_PASSWORD_MAX_LENGTH_def c_strncpy_Ret)
qed

lemma make_ssid_Ret: "32 \<le> length stack \<Longrightarrow> make_ssid stack ssid = Ret \<lparr>ws_len = of_nat (length ssid), ws_val = pad_to 32 (take 32 ssid) @ drop 32 stack\<rparr>"
  by (simp add: make_ssid_def c_strncpy_Ret RT_WLAN_SSID_MAX_LENGTH_def)

lemma SSID_SET_Ret: "\<exists>i. SSID_SET INVALID_INFO ssid = Ret i"
  by (simp add: SSID_SET_def INVALID_INFO_def zero_wlan_info_def zero_ssid_def c_strncpy_Ret)

text \<open>What joining does to the state: nothing, or the configuration is logged.\<close>

lemma swp_connect_config:
  assumes os: "os_files_ok os" and s: "nm_inv s"
    and bad: "\<And>s'. nm_inv s' \<Longrightarrow> nm_joined s' = nm_joined s \<Longrightarrow> Q (-1) s'"
    and good: "\<And>config s'. nm_inv s' \<Longrightarrow> nm_joined s' = nm_joined s @ [config] \<Longrightarrow> password = None \<or> length (the password) \<le> 64 \<Longrightarrow>
      connect_key password = Ret (cc_key config) \<Longrightarrow>
      (info = None \<longrightarrow> cc_use_info config = 0 \<and> cc_target config = TSsid (the ssid)) \<Longrightarrow>
      (\<forall>i. info = Some i \<longrightarrow> cc_use_info config = 1 \<and> cc_target config = TInfo i) \<Longrightarrow> Q 0 s'"
  shows "swp (netmgmt_connect_config os cmd ssid info password) Q E s"
proof (cases "(ssid = None \<and> info = None) \<or> (password \<noteq> None \<and> RT_WLAN_PASSWORD_MAX_LENGTH < length (the password))")
  case True
  then show ?thesis using bad [OF s] by (auto simp: netmgmt_connect_config_def)
next
  case False
  then have c1: "\<not> (ssid = None \<and> info = None)" and c2: "\<not> (password \<noteq> None \<and> RT_WLAN_PASSWORD_MAX_LENGTH < length (the password))" by blast+
  obtain key where key: "connect_key password = Ret key" using connect_key_Ret by blast
  show ?thesis unfolding netmgmt_connect_config_def if_not_P [OF c1] if_not_P [OF c2] swp_simps key cres.case Let_def
  proof (rule swp_netmgmt_ioctl [OF os], goal_cases)
    case 1
    show ?case using s by (simp add: nm_inv_def)
  next
    case (2 x s')
    obtain r y where x: "x = (r, y)" by (cases x)
    have inv: "nm_inv s'" using 2(1,2) s by (simp add: nm_inv_def)
    let ?c = "\<lparr>cc_use_info = 0, cc_target = TSsid (case ssid of None \<Rightarrow> zero_ssid | Some s \<Rightarrow> s), cc_key = key\<rparr>"
    let ?config = "case info of None \<Rightarrow> ?c | Some i \<Rightarrow> ?c\<lparr>cc_use_info := 1, cc_target := TInfo i\<rparr>"
    show ?case
    proof (cases "r = 0")
      case False
      then show ?thesis using bad [OF inv 2(4)] by (simp add: x)
    next
      case True
      have "Q 0 (s'\<lparr>nm_joined := nm_joined s' @ [?config]\<rparr>)"
      proof (rule good [of _ ?config])
        show "nm_inv (s'\<lparr>nm_joined := nm_joined s' @ [?config]\<rparr>)" using inv by (simp add: nm_inv_def nm_fd_ok_def)
        show "password = None \<or> length (the password) \<le> 64" using c2 by (auto simp: RT_WLAN_PASSWORD_MAX_LENGTH_def)
      qed (use c1 2(4) key in \<open>auto split: option.splits\<close>)
      then show ?thesis using True by (simp add: x)
    qed
  qed
qed

section \<open>Scans give their block back\<close>

lemma fit_result_length [simp]: "length (sr_info (fit_result r)) = RT_WLAN_STA_SCAN_MAX_AP"
  by (simp add: fit_result_def)

lemma sr_num_fit [simp]: "sr_num (fit_result r) = sr_num r"
  by (simp add: fit_result_def)

lemma swp_scan_result:
  assumes os: "os_files_ok os" and s: "nm_inv s"
    and bad: "\<And>s'. nm_inv s' \<Longrightarrow> Q (-1, None) s'"
    and good: "\<And>a res s' x. nm_fd_ok s' \<Longrightarrow> hal_heap s' = [a \<mapsto> fit_result res] \<Longrightarrow> (\<exists>d. fst (cmd x d) = (0, res)) \<Longrightarrow> Q (0, Some a) s'"
  shows "swp (netmgmt_scan_result os cmd None ssid) Q E s"
proof -
  obtain ok d where m: "os_malloc os (hal_dev s) = (ok, d)" by fastforce
  have inv: "nm_inv (s\<lparr>hal_dev := d\<rparr>)" using s by (simp add: nm_inv_def nm_fd_ok_def)
  obtain first where first: "(case ssid of None \<Rightarrow> Ret INVALID_INFO | Some s \<Rightarrow> SSID_SET INVALID_INFO s) = Ret first"
    using SSID_SET_Ret by (cases ssid) auto
  let ?r = "\<lparr>sr_num = int RT_WLAN_STA_SCAN_MAX_AP, sr_info = first # replicate (RT_WLAN_STA_SCAN_MAX_AP - 1) zero_wlan_info\<rparr>"
  let ?a = "hal_next s" and ?s = "s\<lparr>hal_dev := d, hal_heap := [hal_next s \<mapsto> ?r], hal_next := hal_next s + 1\<rparr>"
  have heap: "hal_heap s = Map.empty" using s by (simp add: nm_inv_def)
  have new: "swp (hnew ?r) R E' (s\<lparr>hal_dev := d\<rparr>) = R ?a ?s" for R E' by (simp add: swp_def hnew_def heap)
  have rest: "swp (netmgmt_ioctl os cmd ?r) (\<lambda>a. swp (case a of (r, res) \<Rightarrow> sbind (hset ?a (\<lambda>_. fit_result res))
      (\<lambda>_. if r \<noteq> 0 then sbind (hfree ?a) (\<lambda>_. sret (-1, None)) else sret (0, Some ?a))) Q E) E ?s"
  proof (rule swp_netmgmt_ioctl [OF os], goal_cases)
    case 1
    show ?case using inv by (simp add: nm_inv_def nm_fd_ok_def)
  next
    case (2 x s')
    obtain r res where x: "x = (r, res)" by (cases x)
    let ?s' = "s'\<lparr>hal_heap := [?a \<mapsto> fit_result res]\<rparr>"
    have fd: "nm_fd_ok ?s'" using 2(1) by (simp add: nm_fd_ok_def)
    have emp: "nm_inv (?s'\<lparr>hal_heap := Map.empty\<rparr>)" using 2(1) by (simp add: nm_inv_def nm_fd_ok_def)
    show ?case
    proof (cases "r = 0")
      case False
      then show ?thesis using bad [OF emp] 2(2) by (simp add: x swp_eval)
    next
      case True
      then have "\<exists>d. fst (cmd ?r d) = (0, res)" using 2(6) x by auto
      from good [OF fd _ this] show ?thesis using True 2(2) by (simp add: x swp_eval)
    qed
  qed
  show ?thesis
  proof (cases ok)
    case False
    then show ?thesis using bad [OF inv] by (simp add: netmgmt_scan_result_def hmalloc_def swp_eval m)
  next
    case True
    have inst: "swp (hinst ?a) R E' ?s = R ?r ?s" for R E' by (simp add: swp_eval)
    have "netmgmt_scan_result os cmd None ssid = sbind (sret ()) (\<lambda>_. sbind (hmalloc os) (\<lambda>ok. if \<not> ok then sret (-1, None) else
        sbind (slift (Ret first)) (\<lambda>first.
        sbind (hnew \<lparr>sr_num = int RT_WLAN_STA_SCAN_MAX_AP, sr_info = first # replicate (RT_WLAN_STA_SCAN_MAX_AP - 1) zero_wlan_info\<rparr>) (\<lambda>a.
        sbind (hinst a) (\<lambda>res.
        sbind (netmgmt_ioctl os cmd res) (\<lambda>(r, res).
        sbind (hset a (\<lambda>_. fit_result res)) (\<lambda>_.
        if r \<noteq> 0 then sbind (hfree a) (\<lambda>_. sret (-1, None)) else sret (0, Some a))))))))"
      unfolding netmgmt_scan_result_def first by simp
    then show ?thesis using True rest by (simp add: hmalloc_def swp_eval(1) m new inst del: One_nat_def)
  qed
qed

lemma req_ap_num_le: "req_ap_num n \<le> 64" "nat (req_ap_num n) \<le> RT_WLAN_STA_SCAN_MAX_AP"
  by (auto simp: req_ap_num_def RT_WLAN_STA_SCAN_MAX_AP_def)

lemma swp_scan_copy:
  assumes os: "os_files_ok os" and s: "nm_inv s" and len: "RT_WLAN_STA_SCAN_MAX_AP \<le> length infos"
    and bad: "\<And>s'. nm_inv s' \<Longrightarrow> Q (-1, ap_num, infos) s'"
    and good: "\<And>res s' x n. nm_inv s' \<Longrightarrow> (\<exists>d. fst (cmd x d) = (0, res)) \<Longrightarrow> n = req_ap_num (sr_num res) \<Longrightarrow>
      Q (0, map_option (\<lambda>_. n) ap_num, take (nat n) (sr_info (fit_result res)) @ drop (nat n) infos) s'"
  shows "swp (netmgmt_scan_copy os cmd ap_num infos) Q E s"
  unfolding netmgmt_scan_copy_def swp_simps(5) [of "netmgmt_scan_result _ _ _ _"]
proof (rule swp_scan_result [OF os s], goal_cases)
  case (1 s')
  then show ?case using bad by simp
next
  case (2 a res s' x)
  let ?n = "req_ap_num (sr_num res)"
  have copy: "copy_infos ?n (sr_info (fit_result res)) infos = Ret (take (nat ?n) (sr_info (fit_result res)) @ drop (nat ?n) infos)"
    using req_ap_num_le(2) [of "sr_num res"] len by (simp add: copy_infos_def)
  have "nm_inv (s'\<lparr>hal_heap := Map.empty\<rparr>)" using 2(1) by (simp add: nm_inv_def nm_fd_ok_def)
  from good [OF this 2(3)] show ?case using 2(2) copy by (simp add: swp_eval Let_def)
qed

text \<open>The first network of that name.\<close>

lemma find_ssid_Some: "find_ssid ssid is = Some i \<Longrightarrow>
    \<exists>k < length is. i = is ! k \<and> strncmp_eq (ws_val (wi_ssid i)) ssid 33 \<and> (\<forall>j < k. \<not> strncmp_eq (ws_val (wi_ssid (is ! j))) ssid 33)"
proof (induction "is")
  case Nil
  then show ?case by simp
next
  case (Cons x xs)
  show ?case
  proof (cases "strncmp_eq (ws_val (wi_ssid x)) ssid 33")
    case True
    then show ?thesis using Cons.prems by (auto simp: RT_WLAN_SSID_MAX_LENGTH_def)
  next
    case False
    with Cons obtain k where k: "k < length xs" "i = xs ! k" "strncmp_eq (ws_val (wi_ssid i)) ssid 33"
        "\<forall>j < k. \<not> strncmp_eq (ws_val (wi_ssid (xs ! j))) ssid 33" by (auto simp: RT_WLAN_SSID_MAX_LENGTH_def)
    have "\<not> strncmp_eq (ws_val (wi_ssid ((x # xs) ! j))) ssid 33" if "j < Suc k" for j using that k(4) False by (cases j) simp_all
    then show ?thesis using k by (intro exI [of _ "Suc k"]) simp
  qed
qed

lemma find_ssid_None: "find_ssid ssid is = None \<longleftrightarrow> (\<forall>i \<in> set is. \<not> strncmp_eq (ws_val (wi_ssid i)) ssid 33)"
  by (induction "is") (auto simp: RT_WLAN_SSID_MAX_LENGTH_def)

lemma swp_scan_with_ssid:
  assumes os: "os_files_ok os" and s: "nm_inv s"
    and bad: "\<And>s'. nm_inv s' \<Longrightarrow> Q (-1, ap_info) s'"
    and good: "\<And>res s' x. nm_inv s' \<Longrightarrow> (\<exists>d. fst (no_sta_scan os x d) = (0, res)) \<Longrightarrow>
      Q (case find_ssid ssid (take (nat (req_ap_num (sr_num res))) (sr_info (fit_result res))) of None \<Rightarrow> (-1, ap_info) | Some i \<Rightarrow> (0, map_option (\<lambda>_. i) ap_info)) s'"
  shows "swp (netmgmt_wlan_sta_scan_with_ssid os (Some ssid) ap_info) Q E s"
  unfolding netmgmt_wlan_sta_scan_with_ssid_def swp_simps(5) [of "netmgmt_scan_result _ _ _ _"]
proof (rule swp_scan_result [OF os s], goal_cases)
  case (1 s')
  then show ?case using bad by simp
next
  case (2 a res s' x)
  have "nm_inv (s'\<lparr>hal_heap := Map.empty\<rparr>)" using 2(1) by (simp add: nm_inv_def nm_fd_ok_def)
  moreover have "\<not> RT_WLAN_STA_SCAN_MAX_AP < nat (req_ap_num (sr_num res))" using req_ap_num_le(2) [of "sr_num res"] by simp
  ultimately show ?case using good [OF _ 2(3)] 2(2) by (simp add: swp_eval Let_def)
qed

section \<open>The list of devices\<close>

text \<open>The name in a slot of the answer, and the slots that hold one.\<close>

definition dev_slot :: "bytes \<Rightarrow> nat \<Rightarrow> bytes" where
  "dev_slot buf i = c_text ((take 32 (drop (32 * i) buf))[31 := 0])"

definition named_slots :: "nat \<Rightarrow> bytes \<Rightarrow> nat list" where
  "named_slots k buf = filter (\<lambda>i. dev_slot buf i \<noteq> []) [0..<k]"

lemma dev_slot_Suc: "dev_slot (drop 32 buf) i = dev_slot buf (Suc i)"
  by (simp add: dev_slot_def add.commute)

lemma dev_slot_0: "dev_slot buf 0 = c_text ((take 32 buf)[31 := 0])"
  by (simp add: dev_slot_def)

lemma dev_slot_length: "length (dev_slot buf i) \<le> 32"
  using length_takeWhile_le [of "\<lambda>c. c \<noteq> 0" "(take 32 (drop (32 * i) buf))[31 := 0]"] by (simp add: dev_slot_def c_text_def)

lemma named_slots_Suc:
  "length (named_slots (Suc k) buf) = (if dev_slot buf 0 = [] then 0 else 1) + length (named_slots k (drop 32 buf))"
proof -
  have "[0..<Suc k] = 0 # map Suc [0..<k]" by (simp add: upt_conv_Cons map_Suc_upt del: upt_Suc)
  then have "named_slots (Suc k) buf = (if dev_slot buf 0 = [] then [] else [0]) @ map Suc (named_slots k (drop 32 buf))"
    by (simp add: named_slots_def filter_map comp_def dev_slot_Suc del: upt_Suc)
  then show ?thesis by simp
qed

lemma named_slots_card: "length (named_slots k buf) = card {i. i < k \<and> dev_slot buf i \<noteq> []}"
proof -
  have "card (set (named_slots k buf)) = length (named_slots k buf)" by (rule distinct_card) (simp add: named_slots_def)
  moreover have "set (named_slots k buf) = {i. i < k \<and> dev_slot buf i \<noteq> []}" by (auto simp: named_slots_def)
  ultimately show ?thesis by simp
qed

definition listed :: "nat \<Rightarrow> bytes \<Rightarrow> bytes list \<Rightarrow> bytes list \<Rightarrow> bool" where
  "listed k buf names names' \<longleftrightarrow> length names' = length names \<and>
     (\<forall>i < length names. names' ! i = (if i < k \<and> dev_slot buf i \<noteq> [] then pad_to 32 (dev_slot buf i) else names ! i))"

lemma dev_list_from_listed:
  assumes "k \<le> length names" and "\<forall>x \<in> set names. length x = 32"
  shows "\<exists>names'. dev_list_from k buf names n = Ret (n + int (length (named_slots k buf)), names') \<and> listed k buf names names'"
  using assms
proof (induction k arbitrary: buf names n)
  case 0
  then show ?case by (simp add: listed_def named_slots_def)
next
  case (Suc k)
  then obtain x xs where names: "names = x # xs" by (cases names) auto
  then have prems: "k \<le> length xs" "\<forall>x \<in> set xs. length x = 32" "length x = 32" using Suc.prems by simp_all
  have listed_Cons: "listed (Suc k) buf names (y # ys)"
    if "listed k (drop 32 buf) xs ys" "y = (if dev_slot buf 0 \<noteq> [] then pad_to 32 (dev_slot buf 0) else x)" for y ys
  proof -
    have "(y # ys) ! i = (if i < Suc k \<and> dev_slot buf i \<noteq> [] then pad_to 32 (dev_slot buf i) else (x # xs) ! i)" if "i < length (x # xs)" for i
      using that \<open>listed k _ xs ys\<close> \<open>y = _\<close> by (cases i) (simp_all add: listed_def dev_slot_Suc)
    then show ?thesis using that(1) by (simp add: listed_def names)
  qed
  show ?case
  proof (cases "dev_slot buf 0 = []")
    case True
    obtain ys where "dev_list_from k (drop 32 buf) xs n = Ret (n + int (length (named_slots k (drop 32 buf))), ys)" "listed k (drop 32 buf) xs ys"
      using Suc.IH [OF prems(1,2)] by blast
    then show ?thesis using True listed_Cons [of ys x] named_slots_Suc [of k buf] by (simp add: names dev_slot_0 Let_def)
  next
    case False
    obtain ys where ys: "dev_list_from k (drop 32 buf) xs (n + 1) = Ret (n + 1 + int (length (named_slots k (drop 32 buf))), ys)"
        "listed k (drop 32 buf) xs ys"
      using Suc.IH [OF prems(1,2)] by blast
    have "c_strncpy x (dev_slot buf 0) 32 = Ret (pad_to 32 (dev_slot buf 0))"
      using prems(3) dev_slot_length [of buf 0] by (simp add: c_strncpy_Ret)
    then show ?thesis using False ys listed_Cons [OF ys(2), of "pad_to 32 (dev_slot buf 0)"] named_slots_Suc [of k buf]
      by (simp add: names dev_slot_0 Let_def)
  qed
qed

section \<open>Runs\<close>

datatype netmgmt_op =
    NSelect int int
  | NGetAuto "int option" | NSetAuto int
  | NJoin bytes "bytes option" "bytes option" | NJoinInfo "rt_wlan_info_t option" "bytes option"
  | NLeave | NConnected "int option"
  | NGetMac bytes "bytes option" | NSetMac bytes "bytes option"
  | NApInfo "rt_wlan_info_t option" | NRssi "int option"
  | NScan "int option" "rt_wlan_info_t list" | NScanFor "bytes option" "rt_wlan_info_t option"
  | NStart bytes "bytes option" "bytes option" | NStartInfo "rt_wlan_info_t option" "bytes option"
  | NStop | NActive "int option"
  | NOwnInfo rt_wlan_info_t "rt_wlan_info_t option" | NStations "int option" "rt_wlan_info_t list"
  | NKick "bytes option" | NGetCountry "int option" | NSetCountry int
  | NLanConnected int "int option" | NLanLink int "int option"
  | NLanGetMac int "bytes option" | NLanSetMac int "bytes option"
  | NGetDefault "bytes option" | NSetDefault "bytes option"
  | NDevList bytes "int option" "bytes list" | NProbe int "int option" | NDevName int "bytes option"
  | NGetIf int "ifconfig_t option" | NSetIf int "ifconfig_t option" | NDhcp int | NRenew int

fun netmgmt_exec :: "'d netmgmt_os \<Rightarrow> netmgmt_op \<Rightarrow> ('d netmgmt, unit) prog" where
  "netmgmt_exec os (NSelect d i) = sdone (netmgmt_wlan_select_device os d i)"
| "netmgmt_exec os (NGetAuto x) = sdone (netmgmt_wlan_sta_get_auto_reconnect os x)"
| "netmgmt_exec os (NSetAuto x) = sdone (netmgmt_wlan_sta_set_auto_reconnect os x)"
| "netmgmt_exec os (NJoin st ssid pw) = sdone (netmgmt_wlan_sta_connect_with_ssid os st ssid pw)"
| "netmgmt_exec os (NJoinInfo i pw) = sdone (netmgmt_wlan_sta_connect_with_scan_info os i pw)"
| "netmgmt_exec os NLeave = sdone (netmgmt_wlan_sta_disconnect_ap os)"
| "netmgmt_exec os (NConnected x) = sdone (netmgmt_wlan_sta_isconnected os x)"
| "netmgmt_exec os (NGetMac st m) = sdone (netmgmt_wlan_sta_get_mac os st m)"
| "netmgmt_exec os (NSetMac st m) = sdone (netmgmt_wlan_sta_set_mac os st m)"
| "netmgmt_exec os (NApInfo i) = sdone (netmgmt_wlan_sta_get_ap_info os i)"
| "netmgmt_exec os (NRssi x) = sdone (netmgmt_wlan_sta_get_rssi os x)"
| "netmgmt_exec os (NScan n is) = sdone (netmgmt_wlan_sta_scan os n is)"
| "netmgmt_exec os (NScanFor ssid i) = sdone (netmgmt_wlan_sta_scan_with_ssid os ssid i)"
| "netmgmt_exec os (NStart st ssid pw) = sdone (netmgmt_wlan_ap_start_with_ssid os st ssid pw)"
| "netmgmt_exec os (NStartInfo i pw) = sdone (netmgmt_wlan_ap_start_with_info os i pw)"
| "netmgmt_exec os NStop = sdone (netmgmt_wlan_ap_stop os)"
| "netmgmt_exec os (NActive x) = sdone (netmgmt_wlan_ap_isactived os x)"
| "netmgmt_exec os (NOwnInfo st i) = sdone (netmgmt_wlan_ap_get_info os st i)"
| "netmgmt_exec os (NStations n is) = sdone (netmgmt_wlan_ap_get_sta_info os n is)"
| "netmgmt_exec os (NKick m) = sdone (netmgmt_wlan_ap_disconnect_sta os m)"
| "netmgmt_exec os (NGetCountry x) = sdone (netmgmt_wlan_ap_get_country os x)"
| "netmgmt_exec os (NSetCountry x) = sdone (netmgmt_wlan_ap_set_country os x)"
| "netmgmt_exec os (NLanConnected i x) = sdone (netmgmt_lan_get_isconnected os i x)"
| "netmgmt_exec os (NLanLink i x) = sdone (netmgmt_lan_get_link_status os i x)"
| "netmgmt_exec os (NLanGetMac i m) = sdone (netmgmt_lan_get_mac os i m)"
| "netmgmt_exec os (NLanSetMac i m) = sdone (netmgmt_lan_set_mac os i m)"
| "netmgmt_exec os (NGetDefault n) = sdone (netmgmt_utils_get_default_dev os n)"
| "netmgmt_exec os (NSetDefault n) = sdone (netmgmt_utils_set_default_dev os n)"
| "netmgmt_exec os (NDevList st n names) = sdone (netmgmt_utils_get_dev_list os st n names)"
| "netmgmt_exec os (NProbe i x) = sdone (netmgmt_utils_probe_device os i x)"
| "netmgmt_exec os (NDevName i n) = sdone (netmgmt_utils_get_netdev_name os i n)"
| "netmgmt_exec os (NGetIf i c) = sdone (netmgmt_utils_get_ifconfig os i c)"
| "netmgmt_exec os (NSetIf i c) = sdone (netmgmt_utils_set_ifconfig_static os i c)"
| "netmgmt_exec os (NDhcp i) = sdone (netmgmt_utils_set_ifconfig_dhcp os i)"
| "netmgmt_exec os (NRenew i) = sdone (netmgmt_utils_renew_dhcp os i)"

text \<open>The arrays have the declared sizes, and the name that is searched for is not null.\<close>

fun netmgmt_valid :: "'d netmgmt \<Rightarrow> netmgmt_op \<Rightarrow> bool" where
  "netmgmt_valid s (NJoin st ssid pw) = (length st = 33)"
| "netmgmt_valid s (NStart st ssid pw) = (length st = 33)"
| "netmgmt_valid s (NScan n is) = (length is = RT_WLAN_STA_SCAN_MAX_AP)"
| "netmgmt_valid s (NScanFor ssid i) = (ssid \<noteq> None)"
| "netmgmt_valid s (NStations n is) = (length is = RT_WLAN_STA_SCAN_MAX_AP)"
| "netmgmt_valid s (NDevList st n names) = (length names = NET_DEV_MAX_CNT \<and> (\<forall>x \<in> set names. length x = 32))"
| "netmgmt_valid s _ = True"

lemma swp_sdone: "swp m (\<lambda>_. I) E s \<Longrightarrow> swp (sdone m) (\<lambda>_. I) E s"
  by (simp add: sdone_def)

lemma connect_config_inv: "os_files_ok os \<Longrightarrow> nm_inv s \<Longrightarrow> swp (netmgmt_connect_config os cmd ssid info pw) (\<lambda>_. nm_inv) E s"
  by (rule swp_connect_config) simp_all

lemma with_ssid_inv:
  assumes "os_files_ok os" and "nm_inv s" and "length st = 33"
  shows "swp (sbind (slift (make_ssid st ssid)) (\<lambda>w. netmgmt_connect_config os cmd (Some w) None pw)) (\<lambda>_. nm_inv) E s"
  using assms by (simp add: make_ssid_Ret connect_config_inv)

lemma dev_list_inv:
  assumes os: "os_files_ok os" and s: "nm_inv s" and names: "NET_DEV_MAX_CNT \<le> length names" "\<forall>x \<in> set names. length x = 32"
  shows "swp (netmgmt_utils_get_dev_list os st n names) (\<lambda>_. nm_inv) E s"
  unfolding netmgmt_utils_get_dev_list_def swp_simps(5) [of "netmgmt_ioctl _ _ _"]
proof (rule netmgmt_ioctl_inv [OF os s], goal_cases)
  case (1 x s')
  obtain r buf where x: "x = (r, buf)" by (cases x)
  obtain k ys where "dev_list_from NET_DEV_MAX_CNT (fit (32 * NET_DEV_MAX_CNT) buf) names 0 = Ret (k, ys)"
    using dev_list_from_listed [OF names] by blast
  then show ?case using 1 by (simp add: x)
qed

lemma set_mac_inv:
  assumes os: "os_files_ok os" and s: "nm_inv s"
  shows "swp (netmgmt_wlan_sta_set_mac os st mac) (\<lambda>_. nm_inv) E s"
  unfolding netmgmt_wlan_sta_set_mac_def Let_def swp_simps(5) [of "netmgmt_ioctl _ _ _"]
  by (rule netmgmt_ioctl_inv [OF os s]) (auto simp: nm_inv_def nm_fd_ok_def split: prod.splits)

lemmas netmgmt_call_defs = netmgmt_wlan_select_device_def netmgmt_wlan_sta_get_auto_reconnect_def netmgmt_wlan_sta_set_auto_reconnect_def
  netmgmt_wlan_sta_disconnect_ap_def netmgmt_wlan_sta_isconnected_def netmgmt_wlan_sta_get_mac_def netmgmt_wlan_sta_get_ap_info_def
  netmgmt_wlan_sta_get_rssi_def netmgmt_wlan_ap_stop_def netmgmt_wlan_ap_isactived_def netmgmt_wlan_ap_get_info_def netmgmt_wlan_ap_disconnect_sta_def
  netmgmt_wlan_ap_get_country_def netmgmt_wlan_ap_set_country_def netmgmt_lan_get_isconnected_def netmgmt_lan_get_link_status_def netmgmt_lan_get_mac_def
  netmgmt_lan_set_mac_def netmgmt_utils_get_default_dev_def netmgmt_utils_set_default_dev_def netmgmt_utils_probe_device_def netmgmt_utils_get_netdev_name_def
  netmgmt_utils_get_ifconfig_def netmgmt_utils_set_ifconfig_static_def netmgmt_utils_set_ifconfig_dhcp_def netmgmt_utils_renew_dhcp_def

lemmas netmgmt_join_defs = netmgmt_wlan_sta_connect_with_ssid_def netmgmt_wlan_sta_connect_with_scan_info_def netmgmt_wlan_ap_start_with_ssid_def
  netmgmt_wlan_ap_start_with_info_def

lemma netmgmt_exec_inv:
  assumes os: "os_files_ok os" and s: "nm_inv s" and v: "netmgmt_valid s op"
  shows "swp (netmgmt_exec os op) (\<lambda>_. nm_inv) (\<lambda>_. nm_inv) s"
proof (cases op)
  case (NJoin st ssid pw)
  then show ?thesis using v s by (auto simp: netmgmt_join_defs simp del: swp_simps(5) intro!: swp_sdone with_ssid_inv [OF os s] split: option.splits)
next
  case (NStart st ssid pw)
  then show ?thesis using v s by (auto simp: netmgmt_join_defs Let_def simp del: swp_simps(5) intro!: swp_sdone with_ssid_inv [OF os s])
next
  case (NScan n infos)
  then show ?thesis using v by (auto simp: netmgmt_wlan_sta_scan_def intro!: swp_sdone swp_scan_copy [OF os s])
next
  case (NStations n infos)
  then show ?thesis using v by (auto simp: netmgmt_wlan_ap_get_sta_info_def intro!: swp_sdone swp_scan_copy [OF os s])
next
  case (NScanFor ssid i)
  then show ?thesis using v by (auto intro!: swp_sdone swp_scan_with_ssid [OF os s])
next
  case (NDevList st n names)
  then show ?thesis using v by (auto intro!: swp_sdone dev_list_inv [OF os s])
next
  case (NSetMac st mac)
  then show ?thesis using v by (auto intro!: swp_sdone set_mac_inv [OF os s])
next
  case (NSetDefault n)
  then show ?thesis using s
    by (cases n) (auto simp: netmgmt_call_defs c_strncpy_Ret intro!: swp_sdone netmgmt_put_inv [OF os s])
qed (use s in \<open>auto simp: netmgmt_call_defs netmgmt_join_defs split: option.splits intro!: swp_sdone netmgmt_get_inv [OF os s] netmgmt_put_inv [OF os s]
    connect_config_inv [OF os s]\<close>)

interpretation netmgmt_runs: driver_runs netmgmt_exec netmgmt_valid os_files_ok nm_inv
  by unfold_locales (rule netmgmt_exec_inv)

definition netmgmt_start :: "'d \<Rightarrow> 'd netmgmt" where
  "netmgmt_start d = \<lparr>hal_heap = Map.empty, hal_next = 0, hal_fds = {}, hal_dev = d, nm_fd = -1, nm_joined = [], nm_macs = []\<rparr>"

lemma netmgmt_start_inv: "nm_inv (netmgmt_start d)"
  by (simp add: nm_inv_def nm_fd_ok_def netmgmt_start_def)

section \<open>Properties\<close>

lemma swp_runs: "swp m Q (\<lambda>_ _. False) s \<Longrightarrow> \<exists>a s'. m s = (Ret a, s') \<and> Q a s'"
  by (auto simp: swp_def split: prod.splits cres.splits)

text \<open>A kernel in which every request succeeds; it knows two devices, in the second and the fourth slot.\<close>

definition sample_netmgmt_os :: "nat netmgmt_os" where
  "sample_netmgmt_os = os_files.extend \<lparr>os_open = \<lambda>path fds d. (fresh_fd fds, d + 1), os_close = \<lambda>fd d. d, os_malloc = \<lambda>d. (True, d)\<rparr>
     (netmgmt_os.fields (\<lambda>x d. ((0, x), d)) (\<lambda>x d. ((0, x), d)) (\<lambda>x d. ((0, x), d)) (\<lambda>x d. ((0, x), d)) (\<lambda>x d. ((0, x), d)) (\<lambda>x d. ((0, x), d))
       (\<lambda>x d. ((0, x), d)) (\<lambda>x d. ((0, x), d)) (\<lambda>x d. ((0, x), d)) (\<lambda>x d. ((0, x\<lparr>sr_num := 3\<rparr>), d)) (\<lambda>x d. ((0, x), d)) (\<lambda>x d. ((0, x), d))
       (\<lambda>x d. ((0, x), d)) (\<lambda>x d. ((0, x), d)) (\<lambda>x d. ((0, x), d)) (\<lambda>x d. ((0, x), d)) (\<lambda>x d. ((0, x), d)) (\<lambda>x d. ((0, x), d)) (\<lambda>x d. ((0, x), d))
       (\<lambda>x d. ((0, x), d)) (\<lambda>x d. ((0, x), d)) (\<lambda>x d. ((0, x), d)) (\<lambda>x d. ((0, x), d)) (\<lambda>x d. ((0, x), d)) (\<lambda>x d. ((0, x), d)) (\<lambda>x d. ((0, x), d))
       (\<lambda>x d. ((0, replicate 32 0 @ pad_to 64 [0x65, 0x30] @ pad_to 160 [0x65, 0x31]), d)) (\<lambda>x d. ((0, x), d)) (\<lambda>x d. ((0, x), d)))"

lemmas sample_netmgmt_defs = sample_netmgmt_os_def os_files.extend_def netmgmt_os.fields_def

lemma sample_netmgmt_ok: "os_files_ok sample_netmgmt_os"
  using fresh_fd by (auto simp: os_files_ok_def sample_netmgmt_defs)

lemma sample_netmgmt_reach: "reach (netmgmt_exec os) netmgmt_valid (netmgmt_start d) (netmgmt_start d)"
  by (rule reach.start)

text \<open>Whatever calls a client makes with arrays of the declared sizes, whatever the kernel answers: no call of the network management faults, no block of
  a scan is left when a call returns, and no descriptor is open but the one the module keeps.
\<close>

theorem netmgmt_clean:
  assumes "os_files_ok os" and "reach (netmgmt_exec os) netmgmt_valid (netmgmt_start d) s"
  shows "(netmgmt_valid s op \<longrightarrow> fst (netmgmt_exec os op s) \<noteq> Fault) \<and> hal_heap s = Map.empty \<and>
    hal_fds s = (if nm_fd s < 0 then {} else {nm_fd s})"
proof -
  have "nm_inv s" by (rule netmgmt_runs.reach_inv [OF assms(2,1) netmgmt_start_inv])
  moreover have "fst (netmgmt_exec os op s) \<noteq> Fault" if "netmgmt_valid s op"
    by (rule netmgmt_runs.no_fault [OF assms(2,1) netmgmt_start_inv that])
  ultimately show ?thesis by (simp add: nm_inv_def nm_fd_ok_def)
qed

theorem netmgmt_clean_witness:
  "fst (netmgmt_exec sample_netmgmt_os (NScanFor (Some [0x61]) None) (netmgmt_start 0)) \<noteq> Fault \<and> hal_fds (netmgmt_start (0 :: nat)) = {}"
  using netmgmt_clean [OF sample_netmgmt_ok sample_netmgmt_reach, of 0 "NScanFor (Some [0x61]) None"] by (simp add: netmgmt_start_def)

text \<open>Joining a network by name gives the kernel one configuration with exactly that name and that password, each with its length, the password with a
  terminator; or the call fails and nothing is joined. An empty name, one of more than 32 characters and a password of more than 64
  are refused.
\<close>

theorem netmgmt_join_config:
  assumes "os_files_ok os" and "reach (netmgmt_exec os) netmgmt_valid (netmgmt_start d) s" and "length stack = 33"
  shows "\<exists>r s'. netmgmt_wlan_sta_connect_with_ssid os stack (Some ssid) (Some password) s = (Ret r, s') \<and>
    (if r = 0
     then ssid \<noteq> [] \<and> length ssid \<le> 32 \<and> length password \<le> 64 \<and>
       (\<exists>config w. nm_joined s' = nm_joined s @ [config] \<and> cc_use_info config = 0 \<and> cc_target config = TSsid w \<and>
         unat (ws_len w) = length ssid \<and> take (length ssid) (ws_val w) = ssid \<and>
         unat (wk_len (cc_key config)) = length password \<and> take (length password + 1) (wk_val (cc_key config)) = password @ [0])
     else r = -1 \<and> nm_joined s' = nm_joined s)"
proof -
  have inv: "nm_inv s" by (rule netmgmt_runs.reach_inv [OF assms(2,1) netmgmt_start_inv])
  show ?thesis
  proof (cases "length ssid = 0 \<or> RT_WLAN_SSID_MAX_LENGTH < length ssid")
    case True
    then show ?thesis by (simp add: netmgmt_wlan_sta_connect_with_ssid_def sprog_defs)
  next
    case False
    then have len: "ssid \<noteq> []" "length ssid \<le> 32" by (auto simp: RT_WLAN_SSID_MAX_LENGTH_def)
    let ?w = "\<lparr>ws_len = of_nat (length ssid), ws_val = pad_to 32 ssid @ drop 32 stack\<rparr>"
    have w: "make_ssid stack ssid = Ret ?w" using assms(3) len by (simp add: make_ssid_Ret)
    have ssid: "unat (ws_len ?w) = length ssid" "take (length ssid) (ws_val ?w) = ssid"
      using len by (simp_all add: unat_of_nat pad_to_def)
    have "swp (netmgmt_connect_config os (no_sta_connect os) (Some ?w) None (Some password)) (\<lambda>r s'. if r = 0
       then length password \<le> 64 \<and> (\<exists>config w. nm_joined s' = nm_joined s @ [config] \<and> cc_use_info config = 0 \<and> cc_target config = TSsid w \<and>
         unat (ws_len w) = length ssid \<and> take (length ssid) (ws_val w) = ssid \<and>
         unat (wk_len (cc_key config)) = length password \<and> take (length password + 1) (wk_val (cc_key config)) = password @ [0])
       else r = -1 \<and> nm_joined s' = nm_joined s) (\<lambda>_ _. False) s"
    proof (rule swp_connect_config [OF assms(1) inv], goal_cases)
      case (1 s')
      then show ?case by simp
    next
      case (2 config s')
      have pw: "length password \<le> 64" using 2(3) by simp
      have key: "cc_key config = \<lparr>wk_len = of_nat (length password), wk_val = pad_to 64 password @ [0]\<rparr>"
        using 2(4) pw by (simp add: connect_key_Ret)
      have "take (length password + 1) (pad_to 64 password @ [0]) = password @ [0]"
        using pw by (cases "64 - length password") (simp_all add: pad_to_def)
      moreover have "unat (of_nat (length password) :: u8) = length password" using pw by (simp add: unat_of_nat)
      ultimately show ?case using 2(2,5) pw ssid key by (intro if_P [THEN iffD2]) auto
    qed
    from swp_runs [OF this] show ?thesis using False len by (auto simp: netmgmt_wlan_sta_connect_with_ssid_def sprog_defs w split: if_splits)
  qed
qed

theorem netmgmt_join_config_witness:
  "\<exists>r s'. netmgmt_wlan_sta_connect_with_ssid sample_netmgmt_os (replicate 33 7) (Some [0x68, 0x69]) (Some (replicate 70 1)) (netmgmt_start 0) = (Ret r, s') \<and>
     r = -1 \<and> nm_joined s' = []"
  using netmgmt_join_config [OF sample_netmgmt_ok sample_netmgmt_reach, of "replicate 33 7" "[0x68, 0x69]" "replicate 70 1" 0]
  by (auto simp: netmgmt_start_def split: if_splits)

text \<open>A scan returns \<open>0\<close> or \<open>-1\<close> and never writes past the 64 entries of the caller's array, whatever number of networks the kernel
  reports: that number, capped at 64, is passed on, so many entries are the kernel's, in its order, and the others are unchanged.
\<close>

theorem netmgmt_scan_capped:
  assumes "os_files_ok os" and "reach (netmgmt_exec os) netmgmt_valid (netmgmt_start d) s" and "length infos = 64"
  shows "\<exists>r num infos' s'. netmgmt_wlan_sta_scan os (Some n0) infos s = (Ret (r, num, infos'), s') \<and> length infos' = 64 \<and>
    (if r = 0
     then \<exists>x d res n. fst (no_sta_scan os x d) = (0, res) \<and> n = min (sr_num res) 64 \<and> num = Some n \<and>
       (\<forall>i < 64. infos' ! i = (if int i < n then sr_info (fit_result res) ! i else infos ! i))
     else r = -1 \<and> num = Some n0 \<and> infos' = infos)"
proof -
  let ?post = "\<lambda>(r, num, infos') s'. length infos' = 64 \<and>
    (if r = 0
     then \<exists>x d res n. fst (no_sta_scan os x d) = (0, res) \<and> n = min (sr_num res) 64 \<and> num = Some n \<and>
       (\<forall>i < 64. infos' ! i = (if int i < n then sr_info (fit_result res) ! i else infos ! i))
     else r = (-1 :: int) \<and> num = Some n0 \<and> infos' = infos)"
  have inv: "nm_inv s" by (rule netmgmt_runs.reach_inv [OF assms(2,1) netmgmt_start_inv])
  have "swp (netmgmt_wlan_sta_scan os (Some n0) infos) ?post (\<lambda>_ _. False) s"
    unfolding netmgmt_wlan_sta_scan_def
  proof (rule swp_scan_copy [OF assms(1) inv], goal_cases)
    case 1
    show ?case using assms(3) by (simp add: RT_WLAN_STA_SCAN_MAX_AP_def)
  next
    case (2 s')
    then show ?case using assms(3) by simp
  next
    case (3 res s' x n)
    obtain d where d: "fst (no_sta_scan os x d) = (0, res)" using 3(2) by blast
    have n: "n = min (sr_num res) 64" using 3(3) by (simp add: req_ap_num_def RT_WLAN_STA_SCAN_MAX_AP_def)
    let ?is = "take (nat n) (sr_info (fit_result res)) @ drop (nat n) infos"
    have len: "length (sr_info (fit_result res)) = 64" by (simp add: RT_WLAN_STA_SCAN_MAX_AP_def)
    have le: "nat n \<le> 64" using n by simp
    have "?is ! i = (if int i < n then sr_info (fit_result res) ! i else infos ! i)" if "i < 64" for i
      using that len le assms(3) by (auto simp: nth_append)
    then have "\<exists>x d r k. fst (no_sta_scan os x d) = (0, r) \<and> k = min (sr_num r) 64 \<and> Some n = Some k \<and>
        (\<forall>i < 64. ?is ! i = (if int i < k then sr_info (fit_result r) ! i else infos ! i))" using d n by blast
    moreover have "length ?is = 64" using len le assms(3) by simp
    ultimately show ?case by (simp only: prod.case option.map if_True simp_thms)
  qed
  from swp_runs [OF this] obtain y s' where run: "netmgmt_wlan_sta_scan os (Some n0) infos s = (Ret y, s')" "?post y s'" by blast
  obtain r num infos' where y: "y = (r, num, infos')" by (cases y) auto
  show ?thesis using run unfolding y prod.case by blast
qed

theorem netmgmt_scan_capped_witness:
  "\<exists>r num infos' s'. netmgmt_wlan_sta_scan sample_netmgmt_os (Some 0) (replicate 64 INVALID_INFO) (netmgmt_start 0) = (Ret (r, num, infos'), s') \<and>
     length infos' = 64 \<and> (r = 0 \<or> r = -1)"
  using netmgmt_scan_capped [OF sample_netmgmt_ok sample_netmgmt_reach, of "replicate 64 INVALID_INFO" 0 0] by (auto split: if_splits)

text \<open>The list of devices gives, in the slot in which the kernel has it, every name with its terminator, and the number of names. The slots
  without a name keep what the caller had, so the first entries of the array are the names only when the kernel leaves no slot empty before them.
\<close>

theorem netmgmt_dev_names:
  assumes "os_files_ok os" and "reach (netmgmt_exec os) netmgmt_valid (netmgmt_start d) s" and "length names = 8" and "\<forall>x \<in> set names. length x = 32"
  shows "\<exists>r num names' s'. netmgmt_utils_get_dev_list os stack (Some n0) names s = (Ret (r, num, names'), s') \<and>
    (if r = 0
     then \<exists>x d slot. fst (no_dev_list os stack d) = (0, x) \<and> slot = dev_slot (fit 256 x) \<and>
       num = Some (int (card {i. i < 8 \<and> slot i \<noteq> []})) \<and> (\<forall>i < 8. names' ! i = (if slot i \<noteq> [] then pad_to 32 (slot i) else names ! i))
     else r = -1 \<and> num = Some n0 \<and> names' = names)"
proof -
  let ?post = "\<lambda>(r, num, names') s'. if r = 0
     then \<exists>x d slot. fst (no_dev_list os stack d) = (0, x) \<and> slot = dev_slot (fit 256 x) \<and>
       num = Some (int (card {i. i < 8 \<and> slot i \<noteq> []})) \<and> (\<forall>i < 8. names' ! i = (if slot i \<noteq> [] then pad_to 32 (slot i) else names ! i))
     else r = (-1 :: int) \<and> num = Some n0 \<and> names' = names"
  have inv: "nm_inv s" by (rule netmgmt_runs.reach_inv [OF assms(2,1) netmgmt_start_inv])
  have "swp (netmgmt_utils_get_dev_list os stack (Some n0) names) ?post (\<lambda>_ _. False) s"
    unfolding netmgmt_utils_get_dev_list_def swp_simps(5) [of "netmgmt_ioctl _ _ _"]
  proof (rule swp_netmgmt_ioctl [OF assms(1)], goal_cases)
    case 1
    show ?case using inv by (simp add: nm_inv_def)
  next
    case (2 y s')
    obtain r x where y: "y = (r, x)" by (cases y)
    show ?case
    proof (cases "r = 0")
      case False
      then show ?thesis by (simp add: y)
    next
      case True
      then obtain d where d: "fst (no_dev_list os stack d) = (0, x)" using 2(6) y by auto
      have "NET_DEV_MAX_CNT \<le> length names" using assms(3) by (simp add: NET_DEV_MAX_CNT_def)
      from dev_list_from_listed [OF this assms(4), of "fit 256 x" 0] obtain ys
        where ys: "dev_list_from 8 (fit 256 x) names 0 = Ret (int (length (named_slots 8 (fit 256 x))), ys)" "listed 8 (fit 256 x) names ys"
        by (auto simp: NET_DEV_MAX_CNT_def)
      have "\<forall>i < 8. ys ! i = (if dev_slot (fit 256 x) i \<noteq> [] then pad_to 32 (dev_slot (fit 256 x) i) else names ! i)"
        using ys(2) assms(3) by (simp add: listed_def)
      then have "\<exists>x d slot. fst (no_dev_list os stack d) = (0, x) \<and> slot = dev_slot (fit 256 x) \<and>
          Some (int (length (named_slots 8 (fit 256 x')))) = Some (int (card {i. i < 8 \<and> slot i \<noteq> []})) \<and>
          (\<forall>i < 8. ys ! i = (if slot i \<noteq> [] then pad_to 32 (slot i) else names ! i))" if "x' = x" for x'
        unfolding that named_slots_card by (intro exI [of _ x] exI [of _ d] exI [of _ "dev_slot (fit 256 x)"] conjI d refl)
      from this [OF refl] have "?post (0, Some (int (length (named_slots 8 (fit 256 x)))), ys) s'" unfolding prod.case if_P [OF refl] .
      moreover have "dev_list_from NET_DEV_MAX_CNT (fit (32 * NET_DEV_MAX_CNT) x) names 0 = Ret (int (length (named_slots 8 (fit 256 x))), ys)"
        using ys(1) by (simp add: NET_DEV_MAX_CNT_def)
      ultimately show ?thesis by (simp only: y True prod.case swp_simps cres.case simp_thms if_True if_False option.map)
    qed
  qed
  from swp_runs [OF this] obtain y s' where run: "netmgmt_utils_get_dev_list os stack (Some n0) names s = (Ret y, s')" "?post y s'" by blast
  obtain r num names' where y: "y = (r, num, names')" by (cases y) auto
  show ?thesis using run unfolding y prod.case by blast
qed

theorem netmgmt_dev_names_witness:
  "\<exists>r num names' s'. netmgmt_utils_get_dev_list sample_netmgmt_os (replicate 256 1) (Some 0) (replicate 8 (replicate 32 9)) (netmgmt_start 0) =
     (Ret (r, num, names'), s') \<and> (if r = 0 then names' ! 0 = replicate 32 9 \<and> names' ! 1 = pad_to 32 [0x65, 0x30] else r = -1)"
proof -
  have zeros: "(replicate n (0 :: u8))[k := 0] = replicate n 0" "takeWhile (\<lambda>c. c \<noteq> 0) (replicate n (0 :: u8)) = []" for n k
    by (cases "k < n") (simp_all add: list_update_same_conv list_update_beyond)
  have slots: "dev_slot (fit 256 x) 0 = []" "dev_slot (fit 256 x) 1 = [0x65, 0x30]"
    if "fst (no_dev_list sample_netmgmt_os (replicate 256 1) d) = (0, x)" for x d
    using that by (auto simp: sample_netmgmt_defs dev_slot_def fit_def pad_to_def c_text_def zeros)
  let ?names = "replicate 8 (replicate 32 (9 :: u8))"
  have names: "length ?names = 8" "\<forall>x \<in> set ?names. length x = 32" by simp_all
  obtain r num names' s' where run: "netmgmt_utils_get_dev_list sample_netmgmt_os (replicate 256 1) (Some 0) ?names (netmgmt_start 0) = (Ret (r, num, names'), s')"
    and post: "if r = 0
     then \<exists>x d slot. fst (no_dev_list sample_netmgmt_os (replicate 256 1) d) = (0, x) \<and> slot = dev_slot (fit 256 x) \<and>
       num = Some (int (card {i. i < 8 \<and> slot i \<noteq> []})) \<and> (\<forall>i < 8. names' ! i = (if slot i \<noteq> [] then pad_to 32 (slot i) else ?names ! i))
     else r = -1 \<and> num = Some 0 \<and> names' = ?names"
    using netmgmt_dev_names [OF sample_netmgmt_ok sample_netmgmt_reach names, of "replicate 256 1" 0 0] by blast
  have "if r = 0 then names' ! 0 = replicate 32 9 \<and> names' ! 1 = pad_to 32 [0x65, 0x30] else r = -1"
  proof (cases "r = 0")
    case True
    then obtain x d slot where x: "fst (no_dev_list sample_netmgmt_os (replicate 256 1) d) = (0, x)" "slot = dev_slot (fit 256 x)"
      and all: "\<forall>i < 8. names' ! i = (if slot i \<noteq> [] then pad_to 32 (slot i) else ?names ! i)" using post by auto
    show ?thesis using True all [rule_format, of 0] all [rule_format, of 1] slots [OF x(1)] x(2) by simp
  next
    case False
    then show ?thesis using post by simp
  qed
  with run show ?thesis by blast
qed

end
