(* ===== verification/Spec2Isabelle.thy ===== *)
theory Spec2Isabelle
  imports Sbus_Uart Wlan_Event Fpioa_Names Pwm Gpio Gzip Hal_List Ota Soft_Timer Input_Frames Spi Hci Pmu I2c Encoder Modem Netmgmt
begin

text \<open>
  Verification of the user-space hardware library of the K230 RT-Smart system.

  \<^bold>\<open>The program.\<close> The repository holds the library's own C code (\<open>rtsmart_hal/drivers\<close>, \<open>rtsmart_hal/components\<close>,
  \<open>rtsmart_hal/utils\<close> and \<open>wlan_offload\<close>) next to vendored packages. The library has no main program: it is a set of
  drivers with a small state each (static variables, or instances on the heap) above device files, memory-mapped registers
  and buffers shared with accelerators. The drivers call each other: GPIO, PWM and the buses reach a pin through the pin
  multiplexer, the gzip driver uses the vector copies.

  \<^bold>\<open>How the code is modelled.\<close> Every C function is one definition with the source's name, in the order of the code.
  A result is a \<open>cres\<close> (theory \<open>C_Prelude\<close>): a value, \<open>Fail E\<close> for \<open>return -E\<close> (\<open>EGENERIC\<close> for \<open>-1\<close>), or \<open>Fault\<close>
  for an access outside a buffer or to freed memory, so that memory safety is a statement about the results. Functions with
  state are programs of type \<open>('s, 'a) prog\<close> on a record that holds the static variables, the heap of instances and the
  outside world, composed by \<open>sbind\<close> and \<open>scatch\<close>. A function with a loop that may run for ever has an \<open>option\<close> result in which \<open>None\<close> is not
  returning (theory \<open>C_Loops\<close>, with the rules of a weakest precondition \<open>owp\<close> for total correctness). Integers keep their C width as words. Kernel, devices and allocators are
  parameters: a record of functions on a device state of any type, or a queue of outcomes. Laws assumed of them
  (\<open>vsetvli_ok\<close>, \<open>gz_os_ok\<close>, \<open>gz_inflates\<close>, \<open>gz_allocates\<close>) are named predicates, and the witnesses instantiate them.

  \<^bold>\<open>Theories.\<close>
  \<^item> \<open>C_Prelude\<close>: machine integers, outcomes, checked buffers, little-endian fields, programs on a state, and the contracts that
    the wire structures and stateful drivers share, as locales.
  \<^item> \<open>C_Loops\<close>: programs that may not return, and their weakest preconditions.
  \<^item> \<open>Sbus\<close> (\<open>drivers/sbus/drv_sbus.c\<close>): channels and flags, the packing of sixteen 11-bit values into a frame and its decoding.
  \<^item> \<open>Wlan_Wire\<close> (\<open>wlan_offload/src/wlan_offload_wire.h\<close>): every structure of the control protocol, its layout, its
    reader and writer. \<open>Wlan_Channel\<close>, \<open>Wlan_Client\<close>, \<open>Wlan_Commands\<close>, \<open>Wlan_Event\<close> (\<open>wlan_offload_client.c\<close>):
    channel geometry, the handle with its request identifiers and messages, the commands, the decoding of events.
  \<^item> \<open>Fpioa_Tables\<close>, \<open>Fpioa\<close>, \<open>Fpioa_Names\<close> (\<open>drivers/fpioa/drv_fpioa.c\<close>): the tables of pins and functions, the two
    register banks and every operation on them, and the functions that write names into a buffer of the caller.
  \<^item> \<open>Pwm\<close> (\<open>drivers/pwm/drv_pwm.c\<close>) and \<open>Gpio\<close> (\<open>drivers/gpio/drv_gpio.c\<close>): every function, with runs of
    arbitrary calls as inductive reachability.
  \<^item> \<open>Rvv\<close> (\<open>utils/hal_rvv_ops.c\<close>): the vector loops of \<open>hal_rvv_memcpy\<close> and \<open>hal_rvv_memset\<close>.
  \<^item> \<open>Gzip_Header\<close>, \<open>Gzip\<close> (\<open>drivers/gzip_decomp/drv_gzip_decomp.c\<close>): the checks and the stripping of the header,
    the instances, their buffers and the request to the engine. A buffer has two contents, one seen through the cache and
    one seen by the engine; flushing and invalidating copy between them.
  \<^item> \<open>Hal_List\<close> (\<open>utils/list.h\<close>): the doubly linked lists over a store of nodes, and both iterations.
  \<^item> \<open>Hal_Inst\<close>: what the drivers with instances on the heap share: open descriptors, the heap, weakest preconditions, the invariant that
    each descriptor has exactly one owner, and the two locales through which a driver gets its theorems. \<open>Uart\<close>
    (\<open>drivers/uart/drv_uart.c\<close>) is one such driver; \<open>Sbus_Uart\<close> joins the SBUS device with it.
  \<^item> \<open>Soft_Timer\<close> (\<open>drivers/timer/drv_soft_timer.c\<close>): the timer, its signal handler, and expiry as a step of the environment.
  \<^item> \<open>Input\<close>, \<open>Input_Frames\<close> (\<open>drivers/input/drv_input.c\<close>): devices that vanish and come back, polling in slices, and the frames of
    events, keys and pointer movements.
  \<^item> \<open>Spi\<close> (\<open>drivers/spi/drv_spi.c\<close>): the buses that several instances share, and the chip select, over the GPIO driver of \<open>Gpio\<close>. The state also
    records what the kernel was asked: the file of each descriptor, the last configuration each bus accepted, the messages sent.
  \<^item> \<open>Hci\<close> (\<open>drivers/hci/drv_hci.c\<close>): Bluetooth controllers, the search for the first one, the check of the packet format, and calls that
    are repeated while a signal interrupts them. The state records every \<open>write\<close>.
  \<^item> \<open>Pmu\<close> (\<open>drivers/pmu/drv_pmu.c\<close>): the power key, whose signal the driver blocks and waits for, and the requests to the power
    management unit. The state includes the signal mask of the thread.
  \<^item> \<open>Misc\<close> (\<open>components/canmv_misc/canmv_misc.c\<close>): the requests to the miscellaneous device, the text of the media memory, the zone check.
    \<open>Kernel_Objects\<close>: the objects that a driver creates in the kernel for its instances, as multisets of keys. Two drivers create theirs through
    \<open>Misc\<close>: \<open>I2c\<close> (\<open>drivers/i2c/drv_i2c_master.c\<close>) its software buses and \<open>Encoder\<close> (\<open>drivers/rotary_encoder/drv_rotary_encoder.c\<close>) its
    devices. Their states record what was created and not deleted; that of \<open>I2c\<close> also what the kernel refused to delete.
  \<^item> \<open>Modem\<close> (\<open>components/modem/hal_modem.c\<close>): the AT channel. The reader thread and the caller are interleaved: between two steps of the caller the
    environment chooses the steps of the reader, the clock and the outcome of writes.
  \<^item> \<open>Netmgmt\<close> (\<open>components/netmgmt/hal_netmgmt.c\<close>): every request to the network manager, over one descriptor that is kept open, and the blocks of a
    scan. The state records the networks that were joined or started and the addresses that were set.
  \<^item> \<open>Ota\<close> (\<open>components/k230_ota/k230_ota.c\<close>): the update session and the copy of an image file.

  \<^bold>\<open>What is shown.\<close>
  \<^item> \<^emph>\<open>Memory safety\<close>: no message of the kernel makes the WLAN client read outside a buffer, no run of
    the gzip driver faults or leaks a buffer, no scan writes past the caller's array; the buffer overruns of the name list of the pin multiplexer and of a long modem command are exhibited.
  \<^item> \<^emph>\<open>Round trips\<close>: SBUS frames, WLAN channels and events, the register layouts of the pin multiplexer, gzip header fields, the sizes of the
    media memory.
  \<^item> \<^emph>\<open>Invariants over runs\<close>: request identifiers, exclusive pin functions and the voltage bit, the reference counts of PWM and GPIO, the
    ownership of the buffers of the gzip driver and of the descriptors of the UART, input, SPI, HCI, PMU, I2C and encoder drivers, the timers that are
    armed, the configuration of an SPI bus at every message, the signals that are blocked, the buses and devices that exist in the kernel.
  \<^item> \<^emph>\<open>Refinement and equivalence\<close>: the lists implement sequences, the geometry check its arithmetic specification, the vector loops
    \<open>memcpy\<close> and \<open>memset\<close>.
  \<^item> \<^emph>\<open>Behaviour of the operations\<close>, errors included: the requests that are sent, the output of the decompressor, the bytes that reach the update device or the
    Bluetooth controller, the answers of the modem, and when those loops return; and the places where the code does not do what its interface suggests.

  \<^bold>\<open>Restrictions of the statements.\<close> A theorem assumes what its text names: SBUS channels of 11 bits, modem commands of at most 62 characters (the code checks neither),
  mapped registers and a dedicated function for the exclusive assignment of pins, blocks and streams within the range of their lengths. Laws of the kernel are those of
  a file system (\<open>os_files_ok\<close>: a new descriptor is not open yet) and of the device named in the text; every call may fail. A change that several
  instances share stays visible where the code does not account for it: the chip select of an SPI instance that was asked to leave it alone, a signal that two
  PMU instances wait for, the handler of the software timer after another instance has been destroyed, an I2C bus whose deletion was refused.

  \<^bold>\<open>Bounds and fuel.\<close> No definition carries fuel. The loops of the vector copies and of the list iterations are partial functions whose
  return is proved from the contract of \<open>vsetvli\<close> and from the list being well formed; loops over system calls end with
  the outcomes that are queued, and a run that needs more of them is \<open>None\<close>.

  \<^bold>\<open>Not modelled.\<close> Locks: but for the modem, each function is one step, so interleavings of two threads inside a driver are out of reach (for SPI
  that includes the configuration of a bus by \<open>drv_spi_inst_create\<close>, which takes no lock), and a signal of the software timer arrives between two calls. Pointers to pointers
  that the code dereferences unchecked are taken not to be null in the runs. Messages printed to the console. Vendored code (\<open>3rd-party\<close>, \<open>nncase\<close>, \<open>opencv\<close>, \<open>openblas\<close>,
  \<open>vg_lite\<close>) and the system call stubs. The other drivers, listed in the manifest, are
  the plan for extending the library: the hardware timer, touch, one-wire, WS2812, and the sequence that powers the modem. The I2C slave has declarations only.
\<close>

end
